(* ===== verification/Js_Prelude.thy ===== *)
theory Js_Prelude
  imports Main "HOL-Library.AList" "HOL-Library.Char_ord" "HOL-Library.List_Lexorder"
begin

text \<open>
  The parts of JavaScript the modelled TypeScript relies on, and the generic lemmas every
  component uses.

  \<^item> Strings are \<^typ>\<open>string\<close>: a character is a code unit in the range U+0000 to U+00FF. The
    white space that \<^verbatim>\<open>trim\<close> and the regular expression class \<^verbatim>\<open>\s\<close> recognise in that range
    is listed by \<open>js_space\<close>; string comparison is by code unit (\<^verbatim>\<open>List_Lexorder\<close>).
  \<^item> An optional property is an \<^typ>\<open>'a option\<close>; \<open>truthy\<close> and \<open>js_or\<close> are JavaScript's
    truthiness and \<^verbatim>\<open>||\<close> on optional strings (the empty string is falsy), \<open>js_nullish\<close> is \<^verbatim>\<open>??\<close>.
  \<^item> A \<^verbatim>\<open>Map\<close> is an association list in insertion order: \<open>jmap_set\<close> overwrites an entry in
    place or appends, as \<^verbatim>\<open>Map.prototype.set\<close> does. The locale \<open>js_map\<close> is the interface the
    components use.
  \<^item> The locale \<open>step_system\<close> carries the invariant argument shared by the components that are
    state machines.
\<close>

named_theorems inv_intros \<open>preservation lemmas of the components' invariants\<close>

section \<open>Strings\<close>

definition js_space :: "char \<Rightarrow> bool" where
  "js_space c = (let n = of_char c :: nat in n = 32 \<or> (9 \<le> n \<and> n \<le> 13) \<or> n = 160)"

definition js_trim :: "string \<Rightarrow> string" where
  "js_trim s = rev (dropWhile js_space (rev (dropWhile js_space s)))"

text \<open>\<^verbatim>\<open>text.replace(/\s+/g, " ")\<close>: every maximal run of white space becomes one space.\<close>

fun collapse_ws :: "string \<Rightarrow> string" where
  "collapse_ws [] = []"
| "collapse_ws (c # cs) =
     (if js_space c
      then (case cs of
              [] \<Rightarrow> '' ''
            | d # _ \<Rightarrow> if js_space d then collapse_ws cs else CHR '' '' # collapse_ws cs)
      else c # collapse_ws cs)"

definition truthy :: "string option \<Rightarrow> bool" where
  "truthy v = (case v of None \<Rightarrow> False | Some s \<Rightarrow> s \<noteq> [])"

definition js_or :: "string option \<Rightarrow> string option \<Rightarrow> string option" where
  "js_or a b = (if truthy a then a else b)"

definition js_nullish :: "'a option \<Rightarrow> 'a option \<Rightarrow> 'a option" where
  "js_nullish a b = (case a of None \<Rightarrow> b | Some _ \<Rightarrow> a)"

text \<open>A value of an optional string that is used only when truthy.\<close>

definition str_of :: "string option \<Rightarrow> string" where
  "str_of v = (case v of None \<Rightarrow> [] | Some s \<Rightarrow> s)"

lemma truthy_simps [simp]:
  "truthy None = False" "truthy (Some s) = (s \<noteq> [])"
  by (simp_all add: truthy_def)

lemma truthy_iff: "truthy v \<longleftrightarrow> (\<exists>s. v = Some s \<and> s \<noteq> [])"
  by (cases v) auto

lemma js_or_simps [simp]:
  "js_or None b = b"
  "js_or (Some []) b = b"
  "s \<noteq> [] \<Longrightarrow> js_or (Some s) b = Some s"
  by (simp_all add: js_or_def)

lemma truthy_js_or [simp]: "truthy (js_or a b) \<longleftrightarrow> truthy a \<or> truthy b"
  by (auto simp: js_or_def)

lemma js_nullish_simps [simp]:
  "js_nullish None b = b" "js_nullish (Some x) b = Some x"
  by (simp_all add: js_nullish_def)

lemma str_of_simps [simp]: "str_of None = []" "str_of (Some s) = s"
  by (simp_all add: str_of_def)

lemma set_js_trim: "set (js_trim s) \<subseteq> set s"
  by (auto simp: js_trim_def dest!: set_dropWhileD)

lemma length_js_trim: "length (js_trim s) \<le> length s"
proof -
  have "length (dropWhile js_space (rev (dropWhile js_space s))) \<le> length (dropWhile js_space s)"
    using length_dropWhile_le[of js_space "rev (dropWhile js_space s)"] by simp
  also have "\<dots> \<le> length s" by (rule length_dropWhile_le)
  finally show ?thesis by (simp add: js_trim_def)
qed

text \<open>Trimming is idempotent: neither end of a trimmed string is white space.\<close>

lemma js_trim_hd: "js_trim s \<noteq> [] \<Longrightarrow> \<not> js_space (hd (js_trim s))"
proof -
  assume ne: "js_trim s \<noteq> []"
  let ?d = "dropWhile js_space s"
  obtain z where d: "?d = js_trim s @ z"
  proof -
    have "rev (rev ?d) = rev (takeWhile js_space (rev ?d) @ dropWhile js_space (rev ?d))"
      by (simp only: takeWhile_dropWhile_id)
    then have "?d = js_trim s @ rev (takeWhile js_space (rev ?d))"
      by (simp only: rev_append rev_rev_ident js_trim_def)
    then show ?thesis by (rule that)
  qed
  with ne have "?d \<noteq> []" by auto
  then have "\<not> js_space (hd ?d)" by (rule hd_dropWhile)
  with d ne show ?thesis by simp
qed

lemma js_trim_last: "js_trim s \<noteq> [] \<Longrightarrow> \<not> js_space (last (js_trim s))"
  using hd_dropWhile[of js_space "rev (dropWhile js_space s)"]
  by (simp add: js_trim_def last_rev)

lemma js_trim_id:
  assumes "s \<noteq> [] \<Longrightarrow> \<not> js_space (hd s)" and "s \<noteq> [] \<Longrightarrow> \<not> js_space (last s)"
  shows "js_trim s = s"
proof (cases "s = []")
  case True
  then show ?thesis by (simp add: js_trim_def)
next
  case False
  then have "dropWhile js_space s = s"
    using assms(1) by (cases s) auto
  moreover have "dropWhile js_space (rev s) = rev s"
    using assms(2) False by (cases "rev s") (auto simp: last_rev[symmetric] hd_rev)
  ultimately show ?thesis by (simp add: js_trim_def)
qed

lemma js_trim_idem [simp]: "js_trim (js_trim s) = js_trim s"
  using js_trim_hd js_trim_last by (intro js_trim_id) auto

lemma js_trim_Nil [simp]: "js_trim [] = []"
  by (simp add: js_trim_def)

section \<open>Lists as arrays\<close>

text \<open>\<^verbatim>\<open>xs.slice(-n)\<close>, \<^verbatim>\<open>xs.at(-1)\<close>, \<^verbatim>\<open>xs.findIndex(p)\<close> and \<^verbatim>\<open>[...new Set(xs)]\<close>.\<close>

definition last_n :: "nat \<Rightarrow> 'a list \<Rightarrow> 'a list" where
  "last_n n xs = drop (length xs - n) xs"

definition js_last :: "'a list \<Rightarrow> 'a option" where
  "js_last xs = (if xs = [] then None else Some (last xs))"

fun find_index :: "('a \<Rightarrow> bool) \<Rightarrow> 'a list \<Rightarrow> nat option" where
  "find_index p [] = None"
| "find_index p (x # xs) = (if p x then Some 0 else map_option Suc (find_index p xs))"

fun js_uniq :: "'a list \<Rightarrow> 'a list" where
  "js_uniq [] = []"
| "js_uniq (x # xs) = x # filter (\<lambda>y. y \<noteq> x) (js_uniq xs)"

lemma length_last_n [simp]: "length (last_n n xs) = min n (length xs)"
  by (simp add: last_n_def)

lemma set_last_n: "set (last_n n xs) \<subseteq> set xs"
  by (simp add: last_n_def set_drop_subset)

lemma last_n_id: "length xs \<le> n \<Longrightarrow> last_n n xs = xs"
  by (simp add: last_n_def)

lemma last_n_Nil [simp]: "last_n n [] = []"
  by (simp add: last_n_def)

lemma js_last_simps [simp]: "js_last [] = None" "js_last (xs @ [x]) = Some x"
  by (simp_all add: js_last_def)

lemma js_last_Some: "js_last xs = Some x \<Longrightarrow> \<exists>ys. xs = ys @ [x]"
  by (cases xs rule: rev_cases) auto

lemma find_index_Some:
  "find_index p xs = Some i \<Longrightarrow> i < length xs \<and> p (xs ! i) \<and> (\<forall>j<i. \<not> p (xs ! j))"
proof (induction xs arbitrary: i)
  case Nil
  then show ?case by simp
next
  case (Cons x xs)
  then show ?case
    by (auto split: if_splits simp: nth_Cons split: nat.splits)
qed

lemma find_index_None [simp]: "find_index p xs = None \<longleftrightarrow> (\<forall>x\<in>set xs. \<not> p x)"
  by (induction xs) auto

lemma set_js_uniq [simp]: "set (js_uniq xs) = set xs"
  by (induction xs) auto

lemma distinct_js_uniq [simp]: "distinct (js_uniq xs)"
  by (induction xs) auto

lemma js_uniq_distinct: "distinct xs \<Longrightarrow> js_uniq xs = xs"
  by (induction xs) (auto simp: filter_id_conv)

lemma find_SomeD: "List.find p xs = Some x \<Longrightarrow> x \<in> set xs \<and> p x"
  by (induction xs) (auto split: if_splits)

lemma find_unique: "r \<in> set xs \<Longrightarrow> f r = k \<Longrightarrow> distinct (map f xs) \<Longrightarrow> List.find (\<lambda>x. f x = k) xs = Some r"
  by (induction xs) auto

section \<open>Maps in insertion order\<close>

type_synonym ('k, 'v) jmap = "('k \<times> 'v) list"

definition jmap_get :: "('k, 'v) jmap \<Rightarrow> 'k \<Rightarrow> 'v option" where
  "jmap_get m k = map_of m k"

definition jmap_set :: "'k \<Rightarrow> 'v \<Rightarrow> ('k, 'v) jmap \<Rightarrow> ('k, 'v) jmap" where
  "jmap_set k v m = AList.update k v m"

definition jmap_delete :: "'k \<Rightarrow> ('k, 'v) jmap \<Rightarrow> ('k, 'v) jmap" where
  "jmap_delete k m = AList.delete k m"

definition jmap_has :: "('k, 'v) jmap \<Rightarrow> 'k \<Rightarrow> bool" where
  "jmap_has m k = (jmap_get m k \<noteq> None)"

abbreviation jmap_keys :: "('k, 'v) jmap \<Rightarrow> 'k list" where
  "jmap_keys m \<equiv> map fst m"

abbreviation jmap_values :: "('k, 'v) jmap \<Rightarrow> 'v list" where
  "jmap_values m \<equiv> map snd m"

abbreviation jmap_ok :: "('k, 'v) jmap \<Rightarrow> bool" where
  "jmap_ok m \<equiv> distinct (map fst m)"

text \<open>
  The interface of a \<^verbatim>\<open>Map\<close>: what a lookup returns after a write or a delete, and that both keep
  the keys distinct.
\<close>

locale js_map =
  fixes get :: "'m \<Rightarrow> 'k \<Rightarrow> 'v option"
    and put :: "'k \<Rightarrow> 'v \<Rightarrow> 'm \<Rightarrow> 'm"
    and del :: "'k \<Rightarrow> 'm \<Rightarrow> 'm"
    and ok :: "'m \<Rightarrow> bool"
  assumes get_put: "get (put k v m) k' = (if k' = k then Some v else get m k')"
    and get_del: "ok m \<Longrightarrow> get (del k m) k' = (if k' = k then None else get m k')"
    and ok_put: "ok m \<Longrightarrow> ok (put k v m)"
    and ok_del: "ok m \<Longrightarrow> ok (del k m)"
begin

lemma get_put_same [simp]: "get (put k v m) k = Some v"
  by (simp add: get_put)

lemma get_put_other [simp]: "k' \<noteq> k \<Longrightarrow> get (put k v m) k' = get m k'"
  by (simp add: get_put)

lemma get_del_same [simp]: "ok m \<Longrightarrow> get (del k m) k = None"
  by (simp add: get_del)

lemma get_del_put: "ok m \<Longrightarrow> get (del k (put k v m)) k' = (if k' = k then None else get m k')"
  by (simp add: get_del get_put ok_put)

end

interpretation jm: js_map jmap_get jmap_set jmap_delete jmap_ok
proof unfold_locales
  fix k k' :: 'a and v :: 'b and m :: "('a, 'b) jmap"
  show "jmap_get (jmap_set k v m) k' = (if k' = k then Some v else jmap_get m k')"
    by (simp add: jmap_get_def jmap_set_def update_conv)
next
  fix k k' :: 'a and m :: "('a, 'b) jmap"
  assume "jmap_ok m"
  show "jmap_get (jmap_delete k m) k' = (if k' = k then None else jmap_get m k')"
    by (simp add: jmap_get_def jmap_delete_def delete_conv)
next
  fix k :: 'a and v :: 'b and m :: "('a, 'b) jmap"
  assume "jmap_ok m"
  then show "jmap_ok (jmap_set k v m)" by (simp add: jmap_set_def distinct_update)
next
  fix k :: 'a and m :: "('a, 'b) jmap"
  assume "jmap_ok m"
  then show "jmap_ok (jmap_delete k m)" by (simp add: jmap_delete_def distinct_delete)
qed

lemma jmap_get_Nil [simp]: "jmap_get [] k = None"
  by (simp add: jmap_get_def)

lemma jmap_get_Cons: "jmap_get ((k, v) # m) k' = (if k' = k then Some v else jmap_get m k')"
  by (simp add: jmap_get_def)

lemma jmap_get_None: "jmap_get m k = None \<longleftrightarrow> k \<notin> set (jmap_keys m)"
  by (simp add: jmap_get_def map_of_eq_None_iff)

lemma jmap_get_in: "jmap_get m k = Some v \<Longrightarrow> (k, v) \<in> set m"
  by (simp add: jmap_get_def map_of_SomeD)

lemma jmap_get_iff: "jmap_ok m \<Longrightarrow> jmap_get m k = Some v \<longleftrightarrow> (k, v) \<in> set m"
  by (simp add: jmap_get_def)

lemma jmap_has_iff: "jmap_has m k \<longleftrightarrow> k \<in> set (jmap_keys m)"
  by (simp add: jmap_has_def jmap_get_None)

lemma set_jmap_delete: "set (jmap_delete k m) = {p \<in> set m. fst p \<noteq> k}"
  by (auto simp: jmap_delete_def AList.delete_eq)

lemma jmap_delete_filter: "jmap_delete k m = filter (\<lambda>p. fst p \<noteq> k) m"
  by (simp add: jmap_delete_def AList.delete_eq case_prod_beta' eq_commute)

lemma jmap_delete_absent: "k \<notin> set (jmap_keys m) \<Longrightarrow> jmap_delete k m = m"
  by (auto simp: jmap_delete_filter filter_id_conv)

lemma length_jmap_delete: "length (jmap_delete k m) \<le> length m"
  by (simp add: jmap_delete_filter)

lemma jmap_set_new: "k \<notin> set (jmap_keys m) \<Longrightarrow> jmap_set k v m = m @ [(k, v)]"
  by (induction m) (auto simp: jmap_set_def)

lemma keys_jmap_set:
  "jmap_keys (jmap_set k v m) = (if k \<in> set (jmap_keys m) then jmap_keys m else jmap_keys m @ [k])"
  by (simp add: jmap_set_def update_keys)

lemma set_jmap_set:
  "jmap_ok m \<Longrightarrow> set (jmap_set k v m) = insert (k, v) {p \<in> set m. fst p \<noteq> k}"
  by (induction m) (auto simp: jmap_set_def, force+)

lemma jmap_ok_filter [simp]: "jmap_ok m \<Longrightarrow> jmap_ok (filter p m)"
  by (induction m) auto

lemma jmap_get_filter:
  "jmap_ok m \<Longrightarrow> jmap_get (filter (\<lambda>p. P (snd p)) m) k
     = (case jmap_get m k of Some v \<Rightarrow> if P v then Some v else None | None \<Rightarrow> None)"
  by (induction m) (auto simp: jmap_get_def map_of_eq_None_iff split: option.splits)

section \<open>Collections keyed by a field\<close>

text \<open>
  Several components collect a list of records into a \<^verbatim>\<open>Map\<close> keyed by a field of the cleaned
  record, keeping one record per key, and then read the values back. \<open>valid\<close> describes the records
  that are accepted, \<open>clean\<close> those that cleaning leaves alone. Then collecting is idempotent, also
  after cutting the result down to its last entries.
\<close>

locale keyed_fold =
  fixes key :: "'v \<Rightarrow> 'k"
    and step :: "('k, 'v) jmap \<Rightarrow> 'v \<Rightarrow> ('k, 'v) jmap"
    and clean :: "'v \<Rightarrow> bool"
    and valid :: "'v \<Rightarrow> bool"
  assumes step_clean: "clean x \<Longrightarrow> key x \<notin> set (jmap_keys m) \<Longrightarrow> step m x = m @ [(key x, x)]"
    and step_ok: "valid x \<Longrightarrow> jmap_ok m \<and> (\<forall>(k, v) \<in> set m. key v = k \<and> clean v) \<Longrightarrow>
        jmap_ok (step m x) \<and> (\<forall>(k, v) \<in> set (step m x). key v = k \<and> clean v)"
begin

lemma fold_ok:
  "list_all valid xs \<Longrightarrow> jmap_ok m \<and> (\<forall>(k, v) \<in> set m. key v = k \<and> clean v) \<Longrightarrow>
     jmap_ok (foldl step m xs) \<and> (\<forall>(k, v) \<in> set (foldl step m xs). key v = k \<and> clean v)"
proof (induction xs arbitrary: m)
  case (Cons x xs)
  have "jmap_ok (step m x) \<and> (\<forall>(k, v) \<in> set (step m x). key v = k \<and> clean v)"
    using Cons.prems by (intro step_ok) simp_all
  from Cons.IH[OF _ this] Cons.prems(1) show ?case by simp
qed simp

lemma fold_clean_append:
  "list_all clean xs \<Longrightarrow> distinct (map key xs) \<Longrightarrow> set (map key xs) \<inter> set (jmap_keys m) = {} \<Longrightarrow>
     foldl step m xs = m @ map (\<lambda>x. (key x, x)) xs"
proof (induction xs arbitrary: m)
  case (Cons x xs)
  have "step m x = m @ [(key x, x)]" using Cons.prems by (intro step_clean) auto
  moreover have "foldl step (m @ [(key x, x)]) xs = (m @ [(key x, x)]) @ map (\<lambda>x. (key x, x)) xs"
    using Cons.prems by (intro Cons.IH) auto
  ultimately show ?case by simp
qed simp

lemma values_clean:
  assumes "list_all valid xs"
  shows "list_all clean (jmap_values (foldl step [] xs)) \<and> distinct (map key (jmap_values (foldl step [] xs)))"
proof -
  have ok: "jmap_ok (foldl step [] xs)" and kv: "\<forall>(k, v) \<in> set (foldl step [] xs). key v = k \<and> clean v"
    using fold_ok[OF assms, of "[]"] by auto
  have "map key (jmap_values (foldl step [] xs)) = jmap_keys (foldl step [] xs)"
    using kv by (auto simp: case_prod_beta)
  then have "distinct (map key (jmap_values (foldl step [] xs)))" using ok by (simp only:)
  with kv show ?thesis by (auto simp: list_all_iff)
qed

lemma collect_clean:
  assumes "list_all clean xs" and "distinct (map key xs)"
  shows "jmap_values (foldl step [] xs) = xs"
  using fold_clean_append[OF assms, of "[]"] by (simp add: comp_def)

lemma collect_idem:
  assumes "list_all valid xs"
  shows "jmap_values (foldl step [] (last_n n (jmap_values (foldl step [] xs)))) = last_n n (jmap_values (foldl step [] xs))"
proof (rule collect_clean)
  let ?v = "jmap_values (foldl step [] xs)"
  have v: "list_all clean ?v" "distinct (map key ?v)" using values_clean[OF assms] by simp_all
  show "list_all clean (last_n n ?v)" using v(1) set_last_n[of n ?v] by (auto simp: list_all_iff)
  show "distinct (map key (last_n n ?v))" using v(2) by (simp add: last_n_def drop_map[symmetric] del: map_map)
qed

end

section \<open>Step systems\<close>

text \<open>
  A component whose operations are the transitions of a state machine: an invariant that holds
  initially and that every step keeps holds after every sequence of steps, and a transitive
  relation that every step from a good state satisfies relates the ends of every run.
\<close>

locale step_system =
  fixes step :: "'s \<Rightarrow> 'e \<Rightarrow> 's"
    and good :: "'s \<Rightarrow> bool"
  assumes good_step: "good s \<Longrightarrow> good (step s e)"
begin

lemma good_run: "good s \<Longrightarrow> good (foldl step s es)"
  by (induction es arbitrary: s) (auto intro: good_step)

lemma run_induct:
  assumes "good s" and "P s"
    and "\<And>s e. good s \<Longrightarrow> P s \<Longrightarrow> P (step s e)"
  shows "P (foldl step s es)"
  using assms(1,2)
proof (induction es arbitrary: s)
  case Nil
  then show ?case by simp
next
  case (Cons e es)
  then show ?case by (auto intro: Cons.IH good_step assms(3))
qed

lemma run_rel:
  assumes "good s" and "\<And>s. R s s" and "\<And>a b c. R a b \<Longrightarrow> R b c \<Longrightarrow> R a c"
    and "\<And>s e. good s \<Longrightarrow> R s (step s e)"
  shows "R s (foldl step s es)"
proof -
  have "R s (foldl step s' es)" if "good s'" "R s s'" for s'
    using that
  proof (induction es arbitrary: s')
    case Nil
    then show ?case by simp
  next
    case (Cons e es)
    have "R s (step s' e)" by (rule assms(3)[OF Cons.prems(2) assms(4)[OF Cons.prems(1)]])
    with Cons show ?case by (auto intro: good_step)
  qed
  from this[OF assms(1) assms(2)] show ?thesis .
qed

end

end
