(* ===== verification/Js_Date.thy ===== *)
theory Js_Date
  imports Js_Prelude
begin

text \<open>
  \<^verbatim>\<open>Date.prototype.toISOString\<close> and \<^verbatim>\<open>Date.parse\<close> on time values (milliseconds since the epoch, an
  \<^typ>\<open>int\<close>), following the calendar arithmetic of the ECMAScript specification. \<open>to_iso\<close> prints
  the 24-character form used for the years 0000 to 9999 (\<open>iso_range\<close>); \<open>date_parse\<close> reads the
  strings the protocol's \<^verbatim>\<open>DateTimeStringSchema\<close> admits (UTC, optional seconds fraction) and returns
  \<^const>\<open>None\<close> for \<^verbatim>\<open>NaN\<close>. The two facts the components rest on are at the end: parsing a printed
  time gives it back, and the printed strings are ordered as the times are, which is what makes
  the string comparison of expiry stamps meaningful.
\<close>

section \<open>The calendar\<close>

definition day_from_year :: "int \<Rightarrow> int" where
  "day_from_year y =
     365 * (y - 1970) + (y - 1969) div 4 - (y - 1901) div 100 + (y - 1601) div 400"

definition leap_year :: "int \<Rightarrow> bool" where
  "leap_year y = (y mod 4 = 0 \<and> (y mod 100 \<noteq> 0 \<or> y mod 400 = 0))"

definition year_from_day :: "int \<Rightarrow> int" where
  "year_from_day d =
     (let y = (d * 400) div 146097 + 1970
      in if d < day_from_year y then y - 1
         else if day_from_year (y + 1) \<le> d then y + 1 else y)"

text \<open>The day of the year on which a month (0 to 11) starts; 12 stands for the year's end.\<close>

definition month_start :: "bool \<Rightarrow> nat \<Rightarrow> int" where
  "month_start leap m =
     [0, 31, 59, 90, 120, 151, 181, 212, 243, 273, 304, 334, 365] ! m
       + (if leap \<and> 2 \<le> m then 1 else 0)"

fun month_search :: "bool \<Rightarrow> int \<Rightarrow> nat \<Rightarrow> nat" where
  "month_search leap doy 0 = 0"
| "month_search leap doy (Suc m) =
     (if month_start leap (Suc m) \<le> doy then Suc m else month_search leap doy m)"

definition month_from_doy :: "bool \<Rightarrow> int \<Rightarrow> nat" where
  "month_from_doy leap doy = month_search leap doy 11"

definition ms_per_day :: int where
  "ms_per_day = 86400000"

section \<open>Printing\<close>

definition digit :: "nat \<Rightarrow> char" where
  "digit n = char_of (48 + n)"

fun pad :: "nat \<Rightarrow> nat \<Rightarrow> string" where
  "pad 0 n = []"
| "pad (Suc k) n = pad k (n div 10) @ [digit (n mod 10)]"

definition iso_date :: "int \<Rightarrow> string" where
  "iso_date day =
     (let y = year_from_day day; doy = day - day_from_year y;
          m = month_from_doy (leap_year y) doy;
          d = doy - month_start (leap_year y) m + 1
      in pad 4 (nat y) @ ''-'' @ pad 2 (Suc m) @ ''-'' @ pad 2 (nat d))"

definition iso_time :: "int \<Rightarrow> string" where
  "iso_time tod =
     ''T'' @ pad 2 (nat (tod div 3600000)) @ '':'' @ pad 2 (nat (tod div 60000 mod 60)) @ '':''
           @ pad 2 (nat (tod div 1000 mod 60)) @ ''.'' @ pad 3 (nat (tod mod 1000)) @ ''Z''"

definition to_iso :: "int \<Rightarrow> string" where
  "to_iso t = iso_date (t div ms_per_day) @ iso_time (t mod ms_per_day)"

text \<open>The times whose year has four digits.\<close>

definition iso_range :: "int \<Rightarrow> bool" where
  "iso_range t = (day_from_year 0 * ms_per_day \<le> t \<and> t < day_from_year 10000 * ms_per_day)"

section \<open>Parsing\<close>

definition is_digit :: "char \<Rightarrow> bool" where
  "is_digit c = (let n = of_char c :: nat in 48 \<le> n \<and> n \<le> 57)"

definition digit_val :: "char \<Rightarrow> nat" where
  "digit_val c = of_char c - 48"

definition num_val :: "string \<Rightarrow> nat" where
  "num_val s = foldl (\<lambda>a c. 10 * a + digit_val c) 0 s"

text \<open>Exactly \<open>k\<close> digits, then the rest.\<close>

definition take_num :: "nat \<Rightarrow> string \<Rightarrow> (nat \<times> string) option" where
  "take_num k s =
     (if length (take k s) = k \<and> list_all is_digit (take k s)
      then Some (num_val (take k s), drop k s) else None)"

definition take_lit :: "char \<Rightarrow> string \<Rightarrow> string option" where
  "take_lit c s = (case s of [] \<Rightarrow> None | d # r \<Rightarrow> if d = c then Some r else None)"

text \<open>The seconds fraction: at least one digit, the first three count.\<close>

definition take_frac :: "string \<Rightarrow> (nat \<times> string) option" where
  "take_frac s =
     (case s of
        [] \<Rightarrow> None
      | c # r \<Rightarrow>
          if c = CHR ''.'' then
            (let ds = takeWhile is_digit r
             in if ds = [] then None
                else Some (num_val (take 3 (ds @ ''00'')), dropWhile is_digit r))
          else Some (0, s))"

definition make_time :: "nat \<Rightarrow> nat \<Rightarrow> nat \<Rightarrow> nat \<Rightarrow> nat \<Rightarrow> nat \<Rightarrow> nat \<Rightarrow> int option" where
  "make_time y mo d h mi sec ms =
     (let leap = leap_year (int y)
      in if 1 \<le> mo \<and> mo \<le> 12 \<and> 1 \<le> d
            \<and> int d \<le> month_start leap mo - month_start leap (mo - 1)
            \<and> h < 24 \<and> mi < 60 \<and> sec < 60
         then Some ((day_from_year (int y) + month_start leap (mo - 1) + int d - 1) * ms_per_day
                    + int h * 3600000 + int mi * 60000 + int sec * 1000 + int ms)
         else None)"

definition date_parse :: "string \<Rightarrow> int option" where
  "date_parse s =
     Option.bind (take_num 4 s) (\<lambda>(y, s). Option.bind (take_lit CHR ''-'' s) (\<lambda>s.
     Option.bind (take_num 2 s) (\<lambda>(mo, s). Option.bind (take_lit CHR ''-'' s) (\<lambda>s.
     Option.bind (take_num 2 s) (\<lambda>(d, s). Option.bind (take_lit CHR ''T'' s) (\<lambda>s.
     Option.bind (take_num 2 s) (\<lambda>(h, s). Option.bind (take_lit CHR '':'' s) (\<lambda>s.
     Option.bind (take_num 2 s) (\<lambda>(mi, s). Option.bind (take_lit CHR '':'' s) (\<lambda>s.
     Option.bind (take_num 2 s) (\<lambda>(sec, s). Option.bind (take_frac s) (\<lambda>(ms, s).
     if s = ''Z'' then make_time y mo d h mi sec ms else None))))))))))))"

section \<open>Correctness of the calendar\<close>

lemma div_bounds:
  fixes a n :: int
  assumes "0 < n"
  shows "n * (a div n) \<le> a" and "a < n * (a div n) + n"
  using mult_div_mod_eq[of n a] pos_mod_bound[of n a] pos_mod_sign[of n a] assms by linarith+

lemma leap_days_bounds:
  fixes q1 q2 q3 k :: int
  assumes "4 * q1 \<le> k + 1" "k + 1 < 4 * q1 + 4" "100 * q2 \<le> k + 69" "k + 69 < 100 * q2 + 100"
    and "400 * q3 \<le> k + 369" "k + 369 < 400 * q3 + 400"
  shows "146097 * k - 1000 \<le> 400 * (365 * k + q1 - q2 + q3)
    \<and> 400 * (365 * k + q1 - q2 + q3) \<le> 146097 * k + 1000"
proof
  show "146097 * k - 1000 \<le> 400 * (365 * k + q1 - q2 + q3)" using assms by (simp add: algebra_simps)
  show "400 * (365 * k + q1 - q2 + q3) \<le> 146097 * k + 1000" using assms by (simp add: algebra_simps)
qed

lemma year_from_day_bounds:
  "day_from_year (year_from_day d) \<le> d \<and> d < day_from_year (year_from_day d + 1)"
proof -
  define z where "z = (d * 400) div 146097"
  have z: "146097 * z \<le> d * 400" "d * 400 < 146097 * z + 146097"
    using div_bounds[of 146097 "d * 400"] unfolding z_def by simp_all
  have lin: "146097 * k - 1000 \<le> 400 * day_from_year (k + 1970)
      \<and> 400 * day_from_year (k + 1970) \<le> 146097 * k + 1000" for k
  proof -
    have "day_from_year (k + 1970) = 365 * k + (k + 1) div 4 - (k + 69) div 100 + (k + 369) div 400"
      by (simp add: day_from_year_def add.commute)
    then show ?thesis
      using leap_days_bounds[of "(k + 1) div 4" k "(k + 69) div 100" "(k + 369) div 400"]
        div_bounds[of 4 "k + 1"] div_bounds[of 100 "k + 69"] div_bounds[of 400 "k + 369"]
      by simp
  qed
  have "day_from_year (z + 1970 - 1) \<le> d"
    using lin[of "z - 1"] z by (simp add: algebra_simps)
  moreover have "d < day_from_year (z + 1970 + 1 + 1)"
    using lin[of "z + 2"] z by (simp add: algebra_simps)
  ultimately show ?thesis
    by (simp add: year_from_day_def Let_def z_def[symmetric] algebra_simps)
qed

lemma div_succ:
  fixes a n :: int
  assumes "0 < n"
  shows "(a + 1) div n = a div n + (if (a + 1) mod n = 0 then 1 else 0)"
proof (cases "(a + 1) mod n = 0")
  case True
  then obtain q where q: "a + 1 = n * q" by auto
  then have "a = n * (q - 1) + (n - 1)" by (simp add: algebra_simps)
  then have "a div n = q - 1" using assms by (simp add: div_pos_pos_trivial)
  with q assms True show ?thesis by simp
next
  case False
  let ?r = "(a + 1) mod n"
  have "0 \<le> ?r" "?r < n" using assms by simp_all
  with False have r: "0 \<le> ?r - 1" "?r - 1 < n" by linarith+
  have "a = n * ((a + 1) div n) + (?r - 1)"
    using mult_div_mod_eq[of n "a + 1"] by linarith
  then have "a div n = (a + 1) div n" using r assms
    by (metis div_mult_self4 div_pos_pos_trivial add.right_neutral less_irrefl add.commute)
  with False show ?thesis by simp
qed

lemma day_from_year_step:
  "day_from_year (y + 1) = day_from_year y + (if leap_year y then 366 else 365)"
proof -
  have a: "(y + 1 - 1969) div 4 = (y - 1969) div 4 + (if y mod 4 = 0 then 1 else 0)"
    by presburger
  have b: "(y + 1 - 1901) div 100 = (y - 1901) div 100 + (if y mod 100 = 0 then 1 else 0)"
    using div_succ[of 100 "y - 1901"] mod_diff_eq[of y 100 1900] by simp
  have c: "(y + 1 - 1601) div 400 = (y - 1601) div 400 + (if y mod 400 = 0 then 1 else 0)"
    using div_succ[of 400 "y - 1601"] mod_diff_eq[of y 400 1600] by simp
  have "y mod 400 = 0 \<Longrightarrow> y mod 100 = 0" "y mod 100 = 0 \<Longrightarrow> y mod 4 = 0"
    using mod_mod_cancel[of 100 400 y] mod_mod_cancel[of 4 100 y] by simp_all
  then have "leap_year y = (y mod 4 = 0 \<and> \<not> y mod 100 = 0 \<or> y mod 400 = 0)"
    unfolding leap_year_def by argo
  moreover have "day_from_year (y + 1) = day_from_year y + 365
      + (if y mod 4 = 0 then 1 else 0) - (if y mod 100 = 0 then 1 else 0)
      + (if y mod 400 = 0 then 1 else 0)"
    unfolding day_from_year_def a b c by simp
  ultimately show ?thesis
    using \<open>y mod 400 = 0 \<Longrightarrow> y mod 100 = 0\<close> \<open>y mod 100 = 0 \<Longrightarrow> y mod 4 = 0\<close> by (auto split: if_splits)
qed

lemma day_from_year_less: "day_from_year y < day_from_year (y + 1)"
  by (simp add: day_from_year_step)

lemma day_from_year_mono: "y \<le> y' \<Longrightarrow> day_from_year y \<le> day_from_year y'"
proof (induction y' rule: int_ge_induct)
  case base
  then show ?case by simp
next
  case (step i)
  then show ?case using day_from_year_less[of i] by simp
qed

lemma year_from_day_unique:
  assumes "day_from_year y \<le> d" and "d < day_from_year (y + 1)"
  shows "year_from_day d = y"
proof -
  have "\<not> year_from_day d + 1 \<le> y" "\<not> y + 1 \<le> year_from_day d"
    using year_from_day_bounds[of d] assms day_from_year_mono by (meson leD le_less_trans)+
  then show ?thesis by linarith
qed

lemma year_from_day_mono: "d \<le> d' \<Longrightarrow> year_from_day d \<le> year_from_day d'"
proof (rule ccontr)
  assume "d \<le> d'" and "\<not> year_from_day d \<le> year_from_day d'"
  then have "day_from_year (year_from_day d' + 1) \<le> day_from_year (year_from_day d)"
    by (intro day_from_year_mono) simp
  with year_from_day_bounds[of d] year_from_day_bounds[of d'] \<open>d \<le> d'\<close> show False by linarith
qed

text \<open>Months: the month of a day of the year starts no later than the day and ends after it.\<close>

lemma month_start_step: "m < 12 \<Longrightarrow> month_start leap m < month_start leap (Suc m)"
  by (auto simp: month_start_def less_Suc_eq numeral_eq_Suc)

lemma month_start_ends [simp]:
  "month_start leap 0 = 0" "month_start leap 12 = (if leap then 366 else 365)"
  by (simp_all add: month_start_def)

lemma month_start_mono: "m \<le> n \<Longrightarrow> n \<le> 12 \<Longrightarrow> month_start leap m \<le> month_start leap n"
proof (induction n rule: dec_induct)
  case base
  then show ?case by simp
next
  case (step n)
  then show ?case using month_start_step[of n leap] by simp
qed

lemma month_search_bounds:
  "0 \<le> doy \<Longrightarrow> doy < month_start leap (Suc n) \<Longrightarrow>
   month_search leap doy n \<le> n
     \<and> month_start leap (month_search leap doy n) \<le> doy
     \<and> doy < month_start leap (Suc (month_search leap doy n))"
  by (induction n) auto

lemma month_from_doy_bounds:
  assumes "0 \<le> doy" and "doy < (if leap then 366 else 365)"
  shows "month_from_doy leap doy \<le> 11" (is ?a)
    and "month_start leap (month_from_doy leap doy) \<le> doy" (is ?b)
    and "doy < month_start leap (Suc (month_from_doy leap doy))" (is ?c)
proof -
  have "doy < month_start leap (Suc 11)"
    using assms(2) by (simp add: month_start_def split: if_splits)
  then show ?a ?b ?c
    using month_search_bounds[OF assms(1)] by (simp_all add: month_from_doy_def)
qed

lemma month_from_doy_mono:
  assumes "0 \<le> a" and "a \<le> b" and "b < (if leap then 366 else 365)"
  shows "month_from_doy leap a \<le> month_from_doy leap b"
proof (rule ccontr)
  let ?m = "month_from_doy leap"
  assume "\<not> ?m a \<le> ?m b"
  moreover have "?m a \<le> 11" using month_from_doy_bounds(1)[of a leap] assms by simp
  ultimately have "month_start leap (Suc (?m b)) \<le> month_start leap (?m a)"
    by (intro month_start_mono) simp_all
  with month_from_doy_bounds(2)[of a leap] month_from_doy_bounds(3)[of b leap] assms
  show False by simp
qed

section \<open>Printed times are ordered as the times\<close>

lemma list_less_append:
  fixes xs ys :: "'a::linorder list"
  assumes "length xs = length ys"
  shows "xs @ us < ys @ vs \<longleftrightarrow> xs < ys \<or> xs = ys \<and> us < vs"
  using assms by (induction xs ys rule: list_induct2) auto

lemma length_pad [simp]: "length (pad k n) = k"
  by (induction k arbitrary: n) auto

lemma of_char_digit [simp]: "n < 10 \<Longrightarrow> of_char (digit n) = (48 + n :: nat)"
  by (simp add: digit_def)

lemma digit_less: "m < 10 \<Longrightarrow> n < 10 \<Longrightarrow> digit m < digit n \<longleftrightarrow> m < n"
  by (simp add: less_char_def)

lemma nat_div_mod_less:
  fixes a b n :: nat
  assumes "a < b"
  shows "a div n < b div n \<or> a div n = b div n \<and> a mod n < b mod n"
proof (cases "a div n < b div n")
  case True
  then show ?thesis by simp
next
  case False
  with assms have "a div n = b div n" using div_le_mono[of a b n] by simp
  then show ?thesis using assms by (metis add_less_cancel_left div_mult_mod_eq)
qed

lemma pad_less: "a < b \<Longrightarrow> b < 10 ^ k \<Longrightarrow> pad k a < pad k b"
proof (induction k arbitrary: a b)
  case 0
  then show ?case by simp
next
  case (Suc k)
  have "b div 10 < 10 ^ k" using Suc.prems(2) by (simp add: less_mult_imp_div_less mult.commute)
  moreover from Suc.prems(1) have "a div 10 < b div 10 \<or> a div 10 = b div 10 \<and> a mod 10 < b mod 10"
    by (rule nat_div_mod_less)
  ultimately show ?case
    using Suc.IH[of "a div 10" "b div 10"] by (auto simp: list_less_append digit_less)
qed

text \<open>One field of the printed form: either it decides the comparison or it is equal.\<close>

lemma pad_field_less:
  assumes "b < 10 ^ k" and "a < b \<or> a = b \<and> us < vs"
  shows "pad k a @ us < pad k b @ vs"
  using assms pad_less[of a b k] by (auto simp: list_less_append)

lemma lit_field_less: "us < vs \<Longrightarrow> (c # us :: string) < c # vs"
  by simp

lemma div_mod_less:
  fixes a b n :: int
  assumes "a < b" and "0 < n"
  shows "a div n < b div n \<or> a div n = b div n \<and> a mod n < b mod n"
proof (cases "a div n < b div n")
  case True
  then show ?thesis by simp
next
  case False
  with assms have "a div n = b div n" using zdiv_mono1[of a b n] by simp
  then show ?thesis using assms by (metis add_less_cancel_left div_mult_mod_eq)
qed

lemma iso_time_fields_less:
  assumes "h' < 100" "mi' < 100" "sc' < 100" "ms' < 1000"
    and "h < h' \<or> h = h' \<and> (mi < mi' \<or> mi = mi' \<and> (sc < sc' \<or> sc = sc' \<and> ms < ms'))"
  shows "''T'' @ pad 2 h @ '':'' @ pad 2 mi @ '':'' @ pad 2 sc @ ''.'' @ pad 3 ms @ ''Z''
       < ''T'' @ pad 2 h' @ '':'' @ pad 2 mi' @ '':'' @ pad 2 sc' @ ''.'' @ pad 3 ms' @ ''Z''"
  unfolding append_Cons append_Nil
  by (intro lit_field_less pad_field_less, insert assms,
      auto intro!: lit_field_less pad_field_less)

lemma iso_time_less:
  assumes "0 \<le> a" and "a < b" and "b < ms_per_day"
  shows "iso_time a < iso_time b"
proof -
  define m n where "m = nat a" and "n = nat b"
  have ab: "a = int m" "b = int n" and mn: "m < n" and n: "n < 86400000"
    using assms by (simp_all add: m_def n_def ms_per_day_def)
  have dv: "x div 60000 = x div 1000 div 60" "x div 3600000 = x div 1000 div 60 div 60" for x :: nat
    by (simp_all add: div_mult2_eq[symmetric])
  have lex: "m div 3600000 < n div 3600000 \<or> m div 3600000 = n div 3600000 \<and>
      (m div 60000 mod 60 < n div 60000 mod 60 \<or> m div 60000 mod 60 = n div 60000 mod 60 \<and>
      (m div 1000 mod 60 < n div 1000 mod 60 \<or> m div 1000 mod 60 = n div 1000 mod 60 \<and>
       m mod 1000 < n mod 1000))"
    unfolding dv
    using nat_div_mod_less[OF mn, of 1000] nat_div_mod_less[of "m div 1000" "n div 1000" 60]
      nat_div_mod_less[of "m div 1000 div 60" "n div 1000 div 60" 60] by auto
  have fields: "iso_time (int k) = ''T'' @ pad 2 (k div 3600000) @ '':'' @ pad 2 (k div 60000 mod 60)
      @ '':'' @ pad 2 (k div 1000 mod 60) @ ''.'' @ pad 3 (k mod 1000) @ ''Z''" for k
    unfolding iso_time_def by (simp add: nat_div_distrib nat_mod_distrib)
  have "n div 3600000 < 100" using n by simp
  then show ?thesis
    unfolding ab fields by (intro iso_time_fields_less lex) (simp_all add: less_imp_le_nat order.strict_trans1)
qed

lemma iso_date_fields_less:
  assumes "y' < 10000" "mo' < 100" "d' < 100"
    and "y < y' \<or> y = y' \<and> (mo < mo' \<or> mo = mo' \<and> d < d')"
  shows "(pad 4 y @ ''-'' @ pad 2 mo @ ''-'' @ pad 2 d) @ us
       < (pad 4 y' @ ''-'' @ pad 2 mo' @ ''-'' @ pad 2 d') @ vs"
  unfolding append_Cons append_Nil append_assoc
  by (intro lit_field_less pad_field_less, insert assms,
      auto intro!: lit_field_less pad_field_less)

text \<open>The day of the year and the day of the month stay in range.\<close>

lemma doy_bounds:
  "0 \<le> d - day_from_year (year_from_day d)"
  "d - day_from_year (year_from_day d) < (if leap_year (year_from_day d) then 366 else 365)"
  using year_from_day_bounds[of d] day_from_year_step[of "year_from_day d"] by (simp_all split: if_splits)

lemma month_length: "m < 12 \<Longrightarrow> month_start leap (Suc m) - month_start leap m \<le> 31"
  by (auto simp: month_start_def less_Suc_eq numeral_eq_Suc)

lemma iso_date_less:
  assumes "day_from_year 0 \<le> a" and "a < b" and "b < day_from_year 10000"
  shows "iso_date a @ us < iso_date b @ vs"
proof -
  define ya yb where "ya = year_from_day a" and "yb = year_from_day b"
  define pa pb where "pa = a - day_from_year ya" and "pb = b - day_from_year yb"
  define ma mb where "ma = month_from_doy (leap_year ya) pa" and "mb = month_from_doy (leap_year yb) pb"
  define da db where "da = pa - month_start (leap_year ya) ma + 1"
    and "db = pb - month_start (leap_year yb) mb + 1"
  note defs = ya_def yb_def pa_def pb_def ma_def mb_def da_def db_def
  have y: "yb < 10000" "0 \<le> ya" "ya \<le> yb"
    using year_from_day_bounds[of b] day_from_year_mono[of 10000 yb] year_from_day_bounds[of a]
      day_from_year_mono[of "ya + 1" 0] year_from_day_mono[of a b] assms
    unfolding ya_def yb_def by linarith+
  have p: "0 \<le> pa" "pa < (if leap_year ya then 366 else 365)"
          "0 \<le> pb" "pb < (if leap_year yb then 366 else 365)"
    using doy_bounds[of a] doy_bounds[of b] by (simp_all add: defs)
  note a = month_from_doy_bounds[OF p(1,2), folded ma_def]
  note b = month_from_doy_bounds[OF p(3,4), folded mb_def]
  have d: "1 \<le> da" "db \<le> 31"
    using a(2) b(3) month_length[of mb "leap_year yb"] b(1) by (simp_all add: da_def db_def)
  have "ma < mb \<or> ma = mb \<and> da < db" if "ya = yb"
  proof -
    from that assms(2) have "pa < pb" by (simp add: pa_def pb_def)
    with that p month_from_doy_mono[of pa pb "leap_year ya"] have "ma \<le> mb" "ma = mb \<Longrightarrow> da < db"
      by (simp_all add: ma_def mb_def da_def db_def)
    then show ?thesis by linarith
  qed
  with y d have "nat ya < nat yb \<or> nat ya = nat yb \<and> (Suc ma < Suc mb \<or> Suc ma = Suc mb \<and> nat da < nat db)"
    by linarith
  then have "(pad 4 (nat ya) @ ''-'' @ pad 2 (Suc ma) @ ''-'' @ pad 2 (nat da)) @ us
      < (pad 4 (nat yb) @ ''-'' @ pad 2 (Suc mb) @ ''-'' @ pad 2 (nat db)) @ vs"
    using y d b(1) by (intro iso_date_fields_less) simp_all
  then show ?thesis by (simp add: iso_date_def Let_def defs)
qed

theorem to_iso_less:
  assumes "iso_range t" and "iso_range t'" and "t < t'"
  shows "to_iso t < to_iso t'"
proof -
  have rng: "day_from_year 0 \<le> x div ms_per_day" "x div ms_per_day < day_from_year 10000"
    if "iso_range x" for x
    using that div_bounds[of ms_per_day x]
    unfolding iso_range_def by (auto simp: ms_per_day_def)
  have mp: "0 < ms_per_day" by (simp add: ms_per_day_def)
  from div_mod_less[OF assms(3) mp] show ?thesis
  proof
    assume "t div ms_per_day < t' div ms_per_day"
    then show ?thesis unfolding to_iso_def
      using rng[OF assms(1)] rng[OF assms(2)] by (intro iso_date_less) simp_all
  next
    assume eq: "t div ms_per_day = t' div ms_per_day \<and> t mod ms_per_day < t' mod ms_per_day"
    then have "iso_time (t mod ms_per_day) < iso_time (t' mod ms_per_day)"
      using mp by (intro iso_time_less) simp_all
    with eq show ?thesis by (simp add: to_iso_def list_less_append)
  qed
qed

corollary to_iso_le_iff:
  assumes "iso_range t" and "iso_range t'"
  shows "to_iso t \<le> to_iso t' \<longleftrightarrow> t \<le> t'"
  using to_iso_less[OF assms] to_iso_less[OF assms(2,1)]
  by (cases t t' rule: linorder_cases) auto

section \<open>Parsing a printed time\<close>

lemma is_digit_digit [simp]: "n < 10 \<Longrightarrow> is_digit (digit n)"
  by (simp add: is_digit_def)

lemma digit_val_digit [simp]: "n < 10 \<Longrightarrow> digit_val (digit n) = n"
  by (simp add: digit_val_def)

lemma pad_digits [simp]: "list_all is_digit (pad k n)"
  by (induction k arbitrary: n) auto

lemma num_val_snoc: "num_val (s @ [c]) = 10 * num_val s + digit_val c"
  by (simp add: num_val_def)

lemma num_val_pad: "n < 10 ^ k \<Longrightarrow> num_val (pad k n) = n"
proof (induction k arbitrary: n)
  case 0
  then show ?case by (simp add: num_val_def)
next
  case (Suc k)
  then have "n div 10 < 10 ^ k" by (simp add: less_mult_imp_div_less mult.commute)
  with Suc.IH show ?case by (simp add: num_val_snoc)
qed

lemma take_num_pad [simp]: "n < 10 ^ k \<Longrightarrow> take_num k (pad k n @ r) = Some (n, r)"
  by (simp add: take_num_def num_val_pad)

lemma take_lit_simp [simp]: "take_lit c (c # r) = Some r"
  by (simp add: take_lit_def)

lemma take_frac_pad [simp]:
  assumes "n < 1000"
  shows "take_frac (CHR ''.'' # pad 3 n @ ''Z'') = Some (n, ''Z'')"
proof -
  have z: "\<not> is_digit CHR ''Z''" by (simp add: is_digit_def)
  have "takeWhile is_digit (pad 3 n @ ''Z'') = pad 3 n" "dropWhile is_digit (pad 3 n @ ''Z'') = ''Z''"
    using pad_digits[of 3 n] z
    by (simp_all add: takeWhile_append2 dropWhile_append2 list_all_iff)
  moreover have "pad 3 n \<noteq> []" by (metis length_pad list.size(3) zero_neq_numeral)
  ultimately show ?thesis
    using num_val_pad[of n 3] assms by (simp add: take_frac_def Let_def)
qed

lemma date_parse_fields:
  assumes "y < 10000" "mo < 100" "d < 100" "h < 100" "mi < 100" "sc < 100" "ms < 1000"
  shows "date_parse ((pad 4 y @ ''-'' @ pad 2 mo @ ''-'' @ pad 2 d)
      @ ''T'' @ pad 2 h @ '':'' @ pad 2 mi @ '':'' @ pad 2 sc @ ''.'' @ pad 3 ms @ ''Z'')
      = make_time y mo d h mi sc ms"
proof -
  have "y < 10 ^ 4" "mo < 10 ^ 2" "d < 10 ^ 2" "h < 10 ^ 2" "mi < 10 ^ 2" "sc < 10 ^ 2"
    using assms by simp_all
  with assms(7) show ?thesis
    by (simp add: date_parse_def del: pad.simps)
qed

lemma time_of_day_split:
  fixes n :: nat
  shows "n = n div 3600000 * 3600000 + n div 60000 mod 60 * 60000 + n div 1000 mod 60 * 1000 + n mod 1000"
proof -
  have mixed: "n = h * 3600000 + mi * 60000 + sc * 1000 + r"
    if "q * 1000 + r = n" "u * 60 + sc = q" "h * 60 + mi = u" for q r u sc h mi :: nat
    using that by (simp add: algebra_simps)
  have "n div 60000 = n div 1000 div 60" "n div 3600000 = n div 1000 div 60 div 60"
    by (simp_all add: div_mult2_eq[symmetric])
  then show ?thesis
    by (simp only: mixed[OF div_mult_mod_eq div_mult_mod_eq div_mult_mod_eq, symmetric])
qed

theorem date_parse_to_iso:
  assumes "iso_range t"
  shows "date_parse (to_iso t) = Some t"
proof -
  define a where "a = t div ms_per_day"
  define n where "n = nat (t mod ms_per_day)"
  define y where "y = year_from_day a"
  define p where "p = a - day_from_year y"
  define m where "m = month_from_doy (leap_year y) p"
  define d where "d = p - month_start (leap_year y) m + 1"
  have mp: "0 < ms_per_day" by (simp add: ms_per_day_def)
  have n: "n < 86400000" "int n = t mod ms_per_day"
    using pos_mod_bound[OF mp, of t] pos_mod_sign[OF mp, of t] by (simp_all add: n_def ms_per_day_def)
  have a: "day_from_year 0 \<le> a" "a < day_from_year 10000"
    using assms div_bounds[OF mp, of t] unfolding iso_range_def a_def by (auto simp: ms_per_day_def)
  have y: "0 \<le> y" "y < 10000"
    using year_from_day_bounds[of a] day_from_year_mono[of 10000 y] day_from_year_mono[of "y + 1" 0] a
    unfolding y_def by linarith+
  have p: "0 \<le> p" "p < (if leap_year y then 366 else 365)"
    using doy_bounds[of a] by (simp_all add: p_def y_def)
  note m = month_from_doy_bounds[OF p, folded m_def]
  have d: "1 \<le> d" "d \<le> 31" "d \<le> month_start (leap_year y) (Suc m) - month_start (leap_year y) m"
    using m month_length[of m "leap_year y"] by (simp_all add: d_def)
  have "to_iso t = (pad 4 (nat y) @ ''-'' @ pad 2 (Suc m) @ ''-'' @ pad 2 (nat d))
      @ ''T'' @ pad 2 (n div 3600000) @ '':'' @ pad 2 (n div 60000 mod 60) @ '':''
      @ pad 2 (n div 1000 mod 60) @ ''.'' @ pad 3 (n mod 1000) @ ''Z''"
    unfolding to_iso_def iso_date_def iso_time_def Let_def a_def[symmetric] y_def[symmetric]
      p_def[symmetric] m_def[symmetric] d_def[symmetric] n(2)[symmetric]
    by (simp add: nat_div_distrib nat_mod_distrib)
  also have "date_parse \<dots> = make_time (nat y) (Suc m) (nat d) (n div 3600000) (n div 60000 mod 60)
      (n div 1000 mod 60) (n mod 1000)"
  proof (rule date_parse_fields)
    show "n div 60000 mod 60 < 100" "n div 1000 mod 60 < 100"
      using mod_less_divisor[of 60 "n div 60000"] mod_less_divisor[of 60 "n div 1000"] by simp_all
  qed (use y d m(1) n(1) in simp_all)
  also have "\<dots> = Some ((day_from_year y + month_start (leap_year y) m + d - 1) * ms_per_day + int n)"
  proof -
    have sum: "int n = int (n div 3600000) * 3600000 + int (n div 60000 mod 60) * 60000
        + int (n div 1000 mod 60) * 1000 + int (n mod 1000)"
      using arg_cong[OF time_of_day_split[of n], of int]
      by (simp only: of_nat_add of_nat_mult of_nat_numeral)
    have h: "n div 3600000 < 24" using n(1) by (simp add: div_less_iff_less_mult)
    show ?thesis
      unfolding make_time_def sum using y d m(1) h by (simp add: nat_le_iff)
  qed
  also have "(day_from_year y + month_start (leap_year y) m + d - 1) * ms_per_day + int n = t"
    using div_mult_mod_eq[of t ms_per_day] by (simp add: d_def p_def a_def n(2))
  finally show ?thesis by simp
qed

text \<open>What \<open>date_parse\<close> reads lies in the range that \<open>to_iso\<close> prints with four-digit years.\<close>

lemma num_val_bound: "list_all is_digit s \<Longrightarrow> num_val s < 10 ^ length s"
proof (induction s rule: rev_induct)
  case (snoc c s)
  have "digit_val c < 10" using snoc.prems by (auto simp: is_digit_def digit_val_def Let_def)
  moreover have "num_val s < 10 ^ length s" using snoc by simp
  ultimately have "10 * num_val s + digit_val c < 10 * 10 ^ length s" by linarith
  then show ?case by (simp add: num_val_snoc)
qed (simp add: num_val_def)

lemma take_num_bound: "take_num k s = Some (n, r) \<Longrightarrow> n < 10 ^ k"
  using num_val_bound[of "take k s"] by (auto simp: take_num_def split: if_splits)

lemma take_frac_bound:
  assumes "take_frac s = Some (ms, r)"
  shows "ms < 1000"
proof -
  have "num_val (take 3 (ds @ ''00'')) < 1000" if "list_all is_digit ds" "ds \<noteq> []" for ds
  proof -
    have d: "list_all is_digit (take 3 (ds @ ''00''))"
      using that set_take_subset[of 3 "ds @ ''00''"] by (auto simp: list_all_iff is_digit_def)
    have "length (take 3 (ds @ ''00'')) = 3" using that(2) by (cases ds) simp_all
    with num_val_bound[OF d] show ?thesis by (simp only:) simp
  qed
  then show ?thesis
    using assms by (auto simp: take_frac_def Let_def list_all_iff split: list.splits if_splits dest: set_takeWhileD)
qed

lemma make_time_range:
  assumes "make_time y mo d h mi sec ms = Some t" and "y < 10000" and "ms < 1000"
  shows "iso_range t"
proof -
  let ?l = "leap_year (int y)"
  from assms(1) have c: "1 \<le> mo" "mo \<le> 12" "1 \<le> d" "int d \<le> month_start ?l mo - month_start ?l (mo - 1)"
      "h < 24" "mi < 60" "sec < 60"
    and t: "t = (day_from_year (int y) + month_start ?l (mo - 1) + int d - 1) * 86400000
        + (int h * 3600000 + int mi * 60000 + int sec * 1000 + int ms)"
    by (auto simp: make_time_def Let_def ms_per_day_def split: if_splits)
  have lo: "0 \<le> month_start ?l (mo - 1)" using month_start_mono[of 0 "mo - 1" ?l] c(2) by simp
  have hi: "month_start ?l mo \<le> (if ?l then 366 else 365)" using month_start_mono[of mo 12 ?l] c(2) by simp
  have "day_from_year 0 \<le> day_from_year (int y)" by (rule day_from_year_mono) simp
  moreover have "day_from_year (int y) + (if ?l then 366 else 365) \<le> day_from_year 10000"
    using day_from_year_mono[of "int y + 1" 10000] assms(2) by (simp only: day_from_year_step)
  ultimately have "day_from_year 0 \<le> day_from_year (int y) + month_start ?l (mo - 1) + int d - 1"
    "day_from_year (int y) + month_start ?l (mo - 1) + int d - 1 \<le> day_from_year 10000 - 1"
    using lo hi c(3,4) by linarith+
  moreover have "0 \<le> int h * 3600000 + int mi * 60000 + int sec * 1000 + int ms"
    "int h * 3600000 + int mi * 60000 + int sec * 1000 + int ms < 86400000"
    using c(5-7) assms(3) by linarith+
  moreover have "lo * 86400000 \<le> D * 86400000 + r \<and> D * 86400000 + r < hi * 86400000"
    if "lo \<le> D" "D \<le> hi - 1" "0 \<le> r" "r < 86400000" for lo D hi r :: int
    using that by auto
  ultimately have "day_from_year 0 * 86400000 \<le> t \<and> t < day_from_year 10000 * 86400000"
    unfolding t by blast
  then show ?thesis unfolding iso_range_def ms_per_day_def by simp
qed

lemma date_parse_range:
  assumes "date_parse s = Some t"
  shows "iso_range t"
proof -
  from assms obtain y r ms r' r'' mo d h mi sec where "take_num 4 s = Some (y, r)" "take_frac r' = Some (ms, r'')"
    "make_time y mo d h mi sec ms = Some t"
    by (auto simp: date_parse_def bind_eq_Some_conv case_prod_beta split: if_splits)
  with take_num_bound[of 4 s y r] take_frac_bound[of r' ms r''] make_time_range show ?thesis by simp
qed

lemma date_parse_iso: "date_parse s = Some t \<Longrightarrow> date_parse (to_iso t) = Some t"
  by (rule date_parse_to_iso[OF date_parse_range])

end
