(* ===== verification/Token_Stores.thy ===== *)
theory Token_Stores
  imports Js_Date
begin

text \<open>
  The in-memory stores of short-lived secrets: \<^verbatim>\<open>EphemeralTokenStore\<close> (runtime-shared), the
  control plane's \<^verbatim>\<open>ExpiringTokenStore\<close> and its client \<^verbatim>\<open>ChatActionTokenService\<close>. The clock
  (\<^verbatim>\<open>Date.now()\<close>) and the random token are arguments of the operations; a failing operation
  returns \<^const>\<open>Inl\<close> of the error together with the store it leaves behind. The locale
  \<open>one_shot_store\<close> states what a store of one-time values promises to a client whose clock does not
  go back; the ephemeral store is shown to implement it, and to refine a plain map that never
  prunes.
\<close>

section \<open>EphemeralTokenStore\<close>

record expiring_value =
  expiresAt :: string

type_synonym 'a eph_store = "(string, 'a expiring_value_scheme) jmap"

text \<open>\<^verbatim>\<open>Date.parse(value.expiresAt) <= nowMs\<close> is false when the stamp does not parse.\<close>

definition eph_live :: "int \<Rightarrow> 'a expiring_value_scheme \<Rightarrow> bool" where
  "eph_live nowMs v = (case date_parse (expiresAt v) of None \<Rightarrow> True | Some t \<Rightarrow> \<not> t \<le> nowMs)"

definition eph_prune :: "int \<Rightarrow> 'a eph_store \<Rightarrow> 'a eph_store" where
  "eph_prune nowMs vs = filter (\<lambda>p. eph_live nowMs (snd p)) vs"

definition eph_put :: "string \<Rightarrow> 'a expiring_value_scheme \<Rightarrow> int \<Rightarrow> 'a eph_store \<Rightarrow> 'a eph_store" where
  "eph_put key v nowMs vs = jmap_set key v (eph_prune nowMs vs)"

definition eph_take ::
  "string \<Rightarrow> int \<Rightarrow> 'a eph_store \<Rightarrow> 'a expiring_value_scheme option \<times> 'a eph_store" where
  "eph_take key nowMs vs =
     (let vs = eph_prune nowMs vs; value = jmap_get vs key
      in (value, case value of Some _ \<Rightarrow> jmap_delete key vs | None \<Rightarrow> vs))"

definition eph_peek ::
  "string \<Rightarrow> int \<Rightarrow> 'a eph_store \<Rightarrow> 'a expiring_value_scheme option \<times> 'a eph_store" where
  "eph_peek key nowMs vs = (let vs = eph_prune nowMs vs in (jmap_get vs key, vs))"

definition eph_delete ::
  "string \<Rightarrow> int \<Rightarrow> 'a eph_store \<Rightarrow> 'a expiring_value_scheme option \<times> 'a eph_store" where
  "eph_delete key nowMs vs =
     (let vs = eph_prune nowMs vs; value = jmap_get vs key
      in (value, case value of Some _ \<Rightarrow> jmap_delete key vs | None \<Rightarrow> vs))"

definition eph_list :: "int \<Rightarrow> 'a eph_store \<Rightarrow> 'a expiring_value_scheme list \<times> 'a eph_store" where
  "eph_list nowMs vs = (let vs = eph_prune nowMs vs in (jmap_values vs, vs))"

text \<open>What a reader at time \<open>nowMs\<close> can see under a key.\<close>

definition eph_visible :: "'a eph_store \<Rightarrow> int \<Rightarrow> string \<Rightarrow> 'a expiring_value_scheme option" where
  "eph_visible vs nowMs key =
     (case jmap_get vs key of Some v \<Rightarrow> if eph_live nowMs v then Some v else None | None \<Rightarrow> None)"

lemma eph_live_antimono: "eph_live b v \<Longrightarrow> a \<le> b \<Longrightarrow> eph_live a v"
  by (auto simp: eph_live_def split: option.splits)

lemma eph_prune_ok [simp]: "jmap_ok vs \<Longrightarrow> jmap_ok (eph_prune now vs)"
  by (simp add: eph_prune_def)

lemma eph_prune_get: "jmap_ok vs \<Longrightarrow> jmap_get (eph_prune now vs) key = eph_visible vs now key"
  by (simp add: eph_prune_def jmap_get_filter eph_visible_def)

lemma eph_visible_prune [simp]:
  "jmap_ok vs \<Longrightarrow> now \<le> now' \<Longrightarrow> eph_visible (eph_prune now vs) now' key = eph_visible vs now' key"
  by (auto simp: eph_visible_def eph_prune_get eph_live_antimono split: option.splits)

section \<open>The contract of a one-shot store\<close>

text \<open>
  \<open>vis s t k\<close> is what a reader at time \<open>t\<close> sees; writes and takes are observed by every reader that
  is not earlier than they are.
\<close>

locale one_shot_store =
  fixes vis :: "'s \<Rightarrow> int \<Rightarrow> 'k \<Rightarrow> 'v option"
    and put :: "'k \<Rightarrow> 'v \<Rightarrow> int \<Rightarrow> 's \<Rightarrow> 's"
    and tak :: "'k \<Rightarrow> int \<Rightarrow> 's \<Rightarrow> 'v option \<times> 's"
    and alive :: "int \<Rightarrow> 'v \<Rightarrow> bool"
    and ok :: "'s \<Rightarrow> bool"
  assumes vis_put: "ok s \<Longrightarrow> t \<le> t' \<Longrightarrow>
        vis (put k v t s) t' k' = (if k' = k then (if alive t' v then Some v else None) else vis s t' k')"
    and tak_result: "ok s \<Longrightarrow> fst (tak k t s) = vis s t k"
    and vis_tak: "ok s \<Longrightarrow> t \<le> t' \<Longrightarrow>
        vis (snd (tak k t s)) t' k' = (if k' = k then None else vis s t' k')"
    and vis_alive: "ok s \<Longrightarrow> vis s t k = Some v \<Longrightarrow> alive t v"
    and ok_put: "ok s \<Longrightarrow> ok (put k v t s)"
    and ok_tak: "ok s \<Longrightarrow> ok (snd (tak k t s))"
begin

lemma tak_after_put:
  "ok s \<Longrightarrow> t \<le> t' \<Longrightarrow> fst (tak k t' (put k v t s)) = (if alive t' v then Some v else None)"
  by (simp add: tak_result ok_put vis_put)

lemma tak_once: "ok s \<Longrightarrow> t \<le> t' \<Longrightarrow> fst (tak k t' (snd (tak k t s))) = None"
  by (simp add: tak_result ok_tak vis_tak)

lemma tak_alive: "ok s \<Longrightarrow> fst (tak k t s) = Some v \<Longrightarrow> alive t v"
  by (auto simp: tak_result intro: vis_alive)

lemma tak_frame: "ok s \<Longrightarrow> t \<le> t' \<Longrightarrow> k' \<noteq> k \<Longrightarrow> fst (tak k' t' (snd (tak k t s))) = vis s t' k'"
  by (simp add: tak_result ok_tak vis_tak)

end

lemma eph_visible_take:
  assumes "jmap_ok vs" and "now \<le> now'"
  shows "eph_visible (snd (eph_take key now vs)) now' k
    = (if k = key then None else eph_visible vs now' k)"
proof (cases "jmap_get (eph_prune now vs) key")
  case None
  then have "eph_visible vs now' key = None"
    using assms eph_visible_prune[OF assms, of key] by (simp add: eph_visible_def)
  with None assms show ?thesis by (simp add: eph_take_def Let_def)
next
  case (Some v)
  have "eph_visible (jmap_delete key (eph_prune now vs)) now' k
      = (if k = key then None else eph_visible (eph_prune now vs) now' k)"
    using assms(1) by (simp add: eph_visible_def jm.get_del)
  with Some assms show ?thesis by (simp add: eph_take_def Let_def)
qed

lemma eph_visible_put:
  assumes "jmap_ok vs" and "now \<le> now'"
  shows "eph_visible (eph_put key v now vs) now' k
    = (if k = key then (if eph_live now' v then Some v else None) else eph_visible vs now' k)"
proof -
  have "eph_visible (eph_put key v now vs) now' k
      = (if k = key then (if eph_live now' v then Some v else None)
         else eph_visible (eph_prune now vs) now' k)"
    by (simp add: eph_put_def eph_visible_def jm.get_put)
  with assms show ?thesis by simp
qed

interpretation eph: one_shot_store eph_visible eph_put eph_take eph_live jmap_ok
proof unfold_locales
  fix s :: "'a eph_store" and k t
  assume ok: "jmap_ok s"
  show "fst (eph_take k t s) = eph_visible s t k"
    using ok by (simp add: eph_take_def Let_def eph_prune_get)
  show "jmap_ok (snd (eph_take k t s))"
    using ok by (simp add: eph_take_def Let_def jm.ok_del split: option.splits)
  fix v
  show "eph_visible s t k = Some v \<Longrightarrow> eph_live t v"
    by (auto simp: eph_visible_def split: option.splits if_splits)
  show "jmap_ok (eph_put k v t s)"
    using ok by (simp add: eph_put_def jm.ok_put)
qed (fact eph_visible_put eph_visible_take)+

section \<open>Refinement: a store that never prunes\<close>

text \<open>
  The specification keeps every value ever put and filters by the clock on reading. A run is a
  list of timed calls; \<open>EList\<close> is observed as the set of the returned values, since re-putting an
  expired key moves it to the end of the pruned store.
\<close>

datatype 'v eph_op = EPut string 'v | ETake string | EPeek string | EDelete string | EList

datatype 'v eph_out = ENone | EVal "'v option" | EVals "'v set"

fun eph_step :: "'a eph_store \<Rightarrow> int \<times> 'a expiring_value_scheme eph_op
    \<Rightarrow> 'a expiring_value_scheme eph_out \<times> 'a eph_store" where
  "eph_step vs (now, EPut k v) = (ENone, eph_put k v now vs)"
| "eph_step vs (now, ETake k) = (case eph_take k now vs of (r, vs') \<Rightarrow> (EVal r, vs'))"
| "eph_step vs (now, EPeek k) = (case eph_peek k now vs of (r, vs') \<Rightarrow> (EVal r, vs'))"
| "eph_step vs (now, EDelete k) = (case eph_delete k now vs of (r, vs') \<Rightarrow> (EVal r, vs'))"
| "eph_step vs (now, EList) = (case eph_list now vs of (r, vs') \<Rightarrow> (EVals (set r), vs'))"

definition spec_read :: "(string \<Rightarrow> 'a expiring_value_scheme option) \<Rightarrow> int \<Rightarrow> string
    \<Rightarrow> 'a expiring_value_scheme option" where
  "spec_read m now k = (case m k of Some v \<Rightarrow> if eph_live now v then Some v else None | None \<Rightarrow> None)"

fun spec_step :: "(string \<Rightarrow> 'a expiring_value_scheme option) \<Rightarrow> int \<times> 'a expiring_value_scheme eph_op
    \<Rightarrow> 'a expiring_value_scheme eph_out \<times> (string \<Rightarrow> 'a expiring_value_scheme option)" where
  "spec_step m (now, EPut k v) = (ENone, m(k \<mapsto> v))"
| "spec_step m (now, ETake k) = (EVal (spec_read m now k), m(k := None))"
| "spec_step m (now, EPeek k) = (EVal (spec_read m now k), m)"
| "spec_step m (now, EDelete k) = (EVal (spec_read m now k), m(k := None))"
| "spec_step m (now, EList) = (EVals {v. \<exists>k. spec_read m now k = Some v}, m)"

fun outputs :: "('s \<Rightarrow> 'e \<Rightarrow> 'o \<times> 's) \<Rightarrow> 's \<Rightarrow> 'e list \<Rightarrow> 'o list" where
  "outputs f s [] = []"
| "outputs f s (e # es) = (case f s e of (r, s') \<Rightarrow> r # outputs f s' es)"

definition eph_agree :: "int \<Rightarrow> 'a eph_store \<Rightarrow> (string \<Rightarrow> 'a expiring_value_scheme option) \<Rightarrow> bool" where
  "eph_agree now vs m \<longleftrightarrow> jmap_ok vs \<and> (\<forall>t k. now \<le> t \<longrightarrow> eph_visible vs t k = spec_read m t k)"

lemma eph_agree_later: "eph_agree a vs m \<Longrightarrow> a \<le> b \<Longrightarrow> eph_agree b vs m"
  by (auto simp: eph_agree_def)

lemma eph_delete_take: "eph_delete = eph_take"
  by (simp add: fun_eq_iff eph_delete_def eph_take_def)

lemma eph_values: "jmap_ok vs \<Longrightarrow> set (jmap_values (eph_prune now vs)) = {v. \<exists>k. eph_visible vs now k = Some v}"
  by (force simp: eph_prune_get[symmetric] jmap_get_iff)

text \<open>One call: equal outputs, and the states agree from the call's time on.\<close>

lemma eph_step_agree:
  assumes "eph_agree now vs m"
  shows "fst (eph_step vs (now, c)) = fst (spec_step m (now, c))
    \<and> eph_agree now (snd (eph_step vs (now, c))) (snd (spec_step m (now, c)))"
proof (cases c)
  case (EPut k v)
  with assms show ?thesis
    by (auto simp: eph_agree_def eph.vis_put eph.ok_put spec_read_def)
next
  case (ETake k)
  with assms show ?thesis
    by (auto simp: eph_agree_def case_prod_beta eph.tak_result eph.vis_tak eph.ok_tak spec_read_def)
next
  case (EPeek k)
  with assms show ?thesis
    by (auto simp: eph_agree_def eph_peek_def Let_def eph_prune_get)
next
  case (EDelete k)
  with assms show ?thesis
    by (auto simp: eph_agree_def eph_delete_take case_prod_beta eph.tak_result eph.vis_tak eph.ok_tak spec_read_def)
next
  case EList
  with assms show ?thesis
    by (simp add: eph_agree_def eph_list_def Let_def eph_values del: set_map)
qed

lemma eph_run_agree:
  "eph_agree now vs m \<Longrightarrow> sorted (now # map fst es) \<Longrightarrow> outputs eph_step vs es = outputs spec_step m es"
proof (induction es arbitrary: now vs m)
  case Nil
  then show ?case by simp
next
  case (Cons e es)
  obtain t c where e: "e = (t, c)" by (cases e)
  have "eph_agree t vs m" using Cons.prems e by (auto intro: eph_agree_later)
  note step = eph_step_agree[OF this, of c]
  have "outputs eph_step (snd (eph_step vs e)) es = outputs spec_step (snd (spec_step m e)) es"
    using step Cons.prems e by (intro Cons.IH[of t]) auto
  with step show ?case by (simp add: e case_prod_beta)
qed

text \<open>
  Claim C39. The ephemeral token store refines a map that never prunes: on every sequence of timed
  calls whose clock does not go back, started from the empty store, each \<^verbatim>\<open>put\<close>, \<^verbatim>\<open>take\<close>, \<^verbatim>\<open>peek\<close>,
  \<^verbatim>\<open>delete\<close> and \<^verbatim>\<open>list\<close> returns what the map, filtered by expiry at the time of the call, returns.
\<close>

theorem ephemeral_store_refines:
  assumes "sorted (map fst es)"
  shows "outputs eph_step [] es = outputs spec_step (\<lambda>_. None) es"
proof (cases es)
  case Nil
  then show ?thesis by simp
next
  case (Cons e es')
  have "eph_agree (fst e) [] (\<lambda>_. None)"
    by (simp add: eph_agree_def eph_visible_def spec_read_def)
  with assms Cons show ?thesis by (intro eph_run_agree) auto
qed

theorem ephemeral_store_refines_witness:
  "outputs eph_step []
     [(0, EPut ''k'' \<lparr>expiresAt = ''soon''\<rparr>), (5, ETake ''k''), (7, ETake ''k'')]
   = [ENone, EVal (Some \<lparr>expiresAt = ''soon''\<rparr>), EVal None]"
proof -
  have np: "date_parse ''soon'' = None" by code_simp
  have "outputs eph_step []
     [(0, EPut ''k'' \<lparr>expiresAt = ''soon''\<rparr>), (5, ETake ''k''), (7, ETake ''k'')]
   = outputs spec_step (\<lambda>_. None)
     [(0, EPut ''k'' \<lparr>expiresAt = ''soon''\<rparr>), (5, ETake ''k''), (7, ETake ''k'')]"
    by (rule ephemeral_store_refines) simp
  then show ?thesis by (simp add: spec_read_def eph_live_def np)
qed

section \<open>ExpiringTokenStore\<close>

record token_record =
  tr_token :: string
  tr_expiresAt :: string

record token_options =
  invalidMessage :: string
  invalidCode :: string
  invalidStatusCode :: "int option"
  tokenBytes :: nat
  ttlMs :: int

record token_error =
  te_message :: string
  te_statusCode :: int
  te_code :: string

type_synonym 'a token_store = "(string, 'a token_record_scheme) jmap"

text \<open>\<^verbatim>\<open>a || b\<close> on numbers: zero is falsy.\<close>

definition num_or :: "int option \<Rightarrow> int \<Rightarrow> int" where
  "num_or a b = (case a of Some n \<Rightarrow> if n \<noteq> 0 then n else b | None \<Rightarrow> b)"

definition invalidError :: "token_options \<Rightarrow> token_error" where
  "invalidError opts = \<lparr>te_message = invalidMessage opts,
     te_statusCode = num_or (invalidStatusCode opts) 400, te_code = invalidCode opts\<rparr>"

text \<open>
  \<open>rest\<close> are the caller's own fields, \<open>token\<close> the random bytes in base64url, \<open>ttl\<close> the optional
  \<^verbatim>\<open>input.ttlMs\<close> and \<open>now\<close> the value of \<^verbatim>\<open>Date.now()\<close>.
\<close>

definition create_token :: "token_options \<Rightarrow> 'a \<Rightarrow> int option \<Rightarrow> string \<Rightarrow> int \<Rightarrow> 'a token_store
    \<Rightarrow> 'a token_record_scheme \<times> 'a token_store" where
  "create_token opts rest ttl token now records =
     (let record = token_record.extend
            (token_record.make token (to_iso (now + num_or ttl (ttlMs opts)))) rest
      in (record, jmap_set token record records))"

definition resolve_token :: "token_options \<Rightarrow> string \<Rightarrow> ('a token_record_scheme \<Rightarrow> bool) option \<Rightarrow> int
    \<Rightarrow> 'a token_store \<Rightarrow> (token_error + 'a token_record_scheme) \<times> 'a token_store" where
  "resolve_token opts token predicate now records =
     (case jmap_get records token of
        None \<Rightarrow> (Inl (invalidError opts), records)
      | Some record \<Rightarrow>
          if tr_expiresAt record \<le> to_iso now
          then (Inl (invalidError opts), jmap_delete token records)
          else if (case predicate of Some p \<Rightarrow> \<not> p record | None \<Rightarrow> False)
          then (Inl (invalidError opts), records)
          else (Inr record, records))"

definition revoke_token :: "token_options \<Rightarrow> string \<Rightarrow> ('a token_record_scheme \<Rightarrow> bool) option \<Rightarrow> int
    \<Rightarrow> 'a token_store \<Rightarrow> (token_error + 'a token_record_scheme) \<times> 'a token_store" where
  "revoke_token opts token predicate now records =
     (case resolve_token opts token predicate now records of
        (Inl e, records') \<Rightarrow> (Inl e, records')
      | (Inr record, records') \<Rightarrow> (Inr record, jmap_delete token records'))"

lemma resolve_token_ok: "jmap_ok rs \<Longrightarrow> jmap_ok (snd (resolve_token opts token p now rs))"
  by (simp add: resolve_token_def jm.ok_del split: option.splits)

lemma resolve_token_Inr:
  "resolve_token opts token p now rs = (Inr r, rs') \<Longrightarrow>
     rs' = rs \<and> jmap_get rs token = Some r \<and> to_iso now < tr_expiresAt r"
  by (auto simp: resolve_token_def split: option.splits if_splits)

lemma resolve_token_absent: "jmap_get rs token = None \<Longrightarrow> resolve_token opts token p now rs = (Inl (invalidError opts), rs)"
  by (simp add: resolve_token_def)

text \<open>
  A created token resolves exactly while the clock is before its expiry: at any time
  \<open>t\<close> of the four-digit years, resolving it (with a predicate the record satisfies) returns the
  created record when \<open>t\<close> is before the creation time plus the time to live (the call's own when
  given and not zero, the store's otherwise), and the store's invalid-token error afterwards. The
  code compares the two ISO strings, so this rests on their order being the order of the times.
\<close>

theorem created_token_resolves_until_expiry:
  assumes "iso_range (now + num_or ttl (ttlMs opts))" and "iso_range t"
    and "create_token opts rest ttl token now rs = (r, rs')"
    and "case p of Some q \<Rightarrow> q r | None \<Rightarrow> True"
  shows "fst (resolve_token opts token p t rs')
    = (if t < now + num_or ttl (ttlMs opts) then Inr r else Inl (invalidError opts))"
proof -
  from assms(3) have rs': "rs' = jmap_set token r rs"
    and exp: "tr_expiresAt r = to_iso (now + num_or ttl (ttlMs opts))"
    by (auto simp: create_token_def Let_def token_record.defs)
  have "(tr_expiresAt r \<le> to_iso t) = (\<not> t < now + num_or ttl (ttlMs opts))"
    using to_iso_le_iff[OF assms(1,2)] by (simp add: exp not_less)
  with assms(4) show ?thesis
    by (auto simp: rs' resolve_token_def split: option.splits)
qed

definition demo_options :: token_options where
  "demo_options = \<lparr>invalidMessage = ''expired'', invalidCode = ''INVALID'', invalidStatusCode = None,
     tokenBytes = 9, ttlMs = 600000\<rparr>"

lemma iso_range_small: "0 \<le> t \<Longrightarrow> t \<le> 253402300799999 \<Longrightarrow> iso_range t"
  by (simp add: iso_range_def day_from_year_def ms_per_day_def)

theorem created_token_resolves_until_expiry_witness:
  "fst (resolve_token demo_options ''tok'' None 599999
        (snd (create_token demo_options () None ''tok'' 0 [])))
     = Inr (fst (create_token demo_options () None ''tok'' 0 []))
   \<and> fst (resolve_token demo_options ''tok'' None 600000
        (snd (create_token demo_options () None ''tok'' 0 []))) = Inl (invalidError demo_options)"
proof -
  have ttl: "num_or None (ttlMs demo_options) = 600000" by (simp add: num_or_def demo_options_def)
  have r: "iso_range (0 + num_or None (ttlMs demo_options))" "iso_range 599999" "iso_range 600000"
    unfolding ttl by (simp_all add: iso_range_small)
  have main: "fst (resolve_token demo_options ''tok'' None t (snd (create_token demo_options () None ''tok'' 0 [])))
      = (if t < 600000 then Inr (fst (create_token demo_options () None ''tok'' 0 []))
         else Inl (invalidError demo_options))" if "iso_range t" for t
    using created_token_resolves_until_expiry[OF r(1) that surjective_pairing, of "()" "''tok''" "[]" None]
    by (simp add: ttl)
  show ?thesis using main[OF r(2)] main[OF r(3)] by simp
qed

text \<open>
  A revoked token is gone: after a successful revocation no later resolution or
  revocation, at whatever time and with whatever predicate, succeeds; and every failing resolution
  leaves all other tokens untouched.
\<close>

theorem revoked_token_never_resolves:
  assumes "jmap_ok rs" and "revoke_token opts token p now rs = (Inr r, rs')"
  shows "fst (resolve_token opts token q t rs') = Inl (invalidError opts)
    \<and> fst (revoke_token opts token q t rs') = Inl (invalidError opts)
    \<and> (\<forall>k. k \<noteq> token \<longrightarrow> jmap_get rs' k = jmap_get rs k)"
proof -
  from assms(2) have "resolve_token opts token p now rs = (Inr r, rs)" and rs': "rs' = jmap_delete token rs"
    by (auto simp: revoke_token_def split: prod.splits sum.splits dest: resolve_token_Inr)
  then have none: "jmap_get rs' token = None" using assms(1) by simp
  show ?thesis
    using resolve_token_absent[OF none] assms(1)
    by (simp add: revoke_token_def rs' jm.get_del)
qed

theorem revoked_token_never_resolves_witness:
  "fst (resolve_token demo_options ''tok'' None 5
     (snd (revoke_token demo_options ''tok'' None 0
       (snd (create_token demo_options () None ''tok'' 0 []))))) = Inl (invalidError demo_options)"
proof -
  let ?c = "create_token demo_options () None ''tok'' 0 []"
  have ttl: "num_or None (ttlMs demo_options) = 600000" by (simp add: num_or_def demo_options_def)
  have lt: "\<not> to_iso 600000 \<le> to_iso 0" by (subst to_iso_le_iff) (simp_all add: iso_range_small)
  have rs: "snd ?c = [(''tok'', fst ?c)]" "tr_expiresAt (fst ?c) = to_iso 600000"
    by (simp_all add: create_token_def Let_def token_record.defs ttl jmap_set_def)
  have "revoke_token demo_options ''tok'' None 0 (snd ?c) = (Inr (fst ?c), [])"
    unfolding rs(1) using lt
    by (simp add: revoke_token_def resolve_token_def jmap_get_Cons rs(2) jmap_delete_def)
  from revoked_token_never_resolves[OF _ this, of None 5] show ?thesis
    unfolding \<open>revoke_token demo_options ''tok'' None 0 (snd ?c) = (Inr (fst ?c), [])\<close>
    by (simp add: rs(1))
qed

section \<open>ChatActionTokenService\<close>

datatype pending_decision = Allow | Deny | Skip

datatype chat_action_type = InstanceAppMenu | LaunchApp | PendingDecision

record chat_action_token = token_record +
  ca_type :: chat_action_type
  ca_instanceId :: "string option"
  ca_appId :: "string option"
  ca_routeId :: "string option"
  ca_decision :: "pending_decision option"
  ca_ttlMs :: "int option"

datatype chat_action_input =
    AppAction chat_action_type string "string option" "int option"
  | DecisionAction string pending_decision "int option"

definition chat_action_options :: token_options where
  "chat_action_options = \<lparr>invalidMessage = ''Chat action expired.'',
     invalidCode = ''CHAT_ACTION_TOKEN_INVALID'', invalidStatusCode = None, tokenBytes = 9,
     ttlMs = 10 * 60 * 1000\<rparr>"

type_synonym chat_action_store = "unit chat_action_token_ext token_store"

definition create_chat_action :: "chat_action_input \<Rightarrow> string \<Rightarrow> int \<Rightarrow> chat_action_store
    \<Rightarrow> chat_action_token \<times> chat_action_store" where
  "create_chat_action input token now records =
     (case input of
        AppAction ty instanceId appId ttl \<Rightarrow>
          create_token chat_action_options
            (chat_action_token.fields ty (Some instanceId) appId None None ttl) ttl token now records
      | DecisionAction routeId decision ttl \<Rightarrow>
          create_token chat_action_options
            (chat_action_token.fields PendingDecision None None (Some routeId) (Some decision) ttl)
            ttl token now records)"

definition resolve_chat_action :: "string \<Rightarrow> chat_action_type option \<Rightarrow> int \<Rightarrow> chat_action_store
    \<Rightarrow> (token_error + chat_action_token) \<times> chat_action_store" where
  "resolve_chat_action token ty now records =
     resolve_token chat_action_options token
       (Some (\<lambda>record. case ty of None \<Rightarrow> True | Some y \<Rightarrow> ca_type record = y)) now records"

text \<open>
  A chat action token resolves only for the kind of action it was created for: a lookup
  of another kind fails with the service's error and leaves the token in place, so the right kind
  still resolves.
\<close>

theorem chat_action_type_checked:
  assumes "iso_range (now + 600000)" and "iso_range t" and "t < now + 600000"
    and "create_chat_action (DecisionAction routeId d None) token now rs = (r, rs')"
  shows "ca_routeId r = Some routeId \<and> ca_decision r = Some d
    \<and> fst (resolve_chat_action token (Some PendingDecision) t rs') = Inr r
    \<and> resolve_chat_action token (Some LaunchApp) t rs' = (Inl (invalidError chat_action_options), rs')"
proof -
  from assms(4) have rs': "rs' = jmap_set token r rs" and r: "tr_expiresAt r = to_iso (now + 600000)"
    "ca_type r = PendingDecision" "ca_routeId r = Some routeId" "ca_decision r = Some d"
    by (auto simp: create_chat_action_def create_token_def Let_def token_record.defs
        chat_action_token.defs num_or_def chat_action_options_def)
  have "\<not> tr_expiresAt r \<le> to_iso t"
    using to_iso_le_iff[OF assms(1,2)] assms(3) by (simp add: r not_le)
  then show ?thesis by (simp add: resolve_chat_action_def resolve_token_def rs' r)
qed

theorem chat_action_type_checked_witness:
  "fst (resolve_chat_action ''tok'' (Some PendingDecision) 1
     (snd (create_chat_action (DecisionAction ''r'' Deny None) ''tok'' 0 [])))
   = Inr (fst (create_chat_action (DecisionAction ''r'' Deny None) ''tok'' 0 []))"
  using chat_action_type_checked[OF _ _ _ surjective_pairing, of 0 1 "''r''" Deny "''tok''" "[]"]
  by (simp add: iso_range_small)

subsection \<open>Callback data\<close>

text \<open>
  \<open>sha256_b64url\<close> stands for \<^verbatim>\<open>createHash("sha256").update(x).digest("base64url")\<close> of node:crypto.
\<close>

definition callback_prefix :: string where
  "callback_prefix = ''task_handoff:cp_p:v1:''"

fun decision_code :: "pending_decision \<Rightarrow> char" where
  "decision_code Allow = CHR ''a''"
| "decision_code Deny = CHR ''d''"
| "decision_code Skip = CHR ''s''"

definition pendingDecisionRouteFingerprint :: "(string \<Rightarrow> string) \<Rightarrow> string \<Rightarrow> string" where
  "pendingDecisionRouteFingerprint sha256_b64url routeId = take 16 (sha256_b64url routeId)"

definition b64url_char :: "char \<Rightarrow> bool" where
  "b64url_char c = (let n = of_char c :: nat in (65 \<le> n \<and> n \<le> 90) \<or> (97 \<le> n \<and> n \<le> 122)
     \<or> (48 \<le> n \<and> n \<le> 57) \<or> n = 95 \<or> n = 45)"

text \<open>
  The regular expression \<^verbatim>\<open>/^task_handoff:cp_p:v1:([ads]):([A-Za-z0-9_-]{16})$/\<close>, then the lookup of
  the code letter among the entries of \<^verbatim>\<open>pendingDecisionCodes\<close>.
\<close>

definition parsePendingDecisionCallbackData :: "string \<Rightarrow> (string \<times> pending_decision) option" where
  "parsePendingDecisionCallbackData data =
     (let n = length callback_prefix; rest = drop n data
      in if take n data = callback_prefix \<and> length rest = 18 \<and> rest ! 1 = CHR '':''
            \<and> list_all b64url_char (drop 2 rest)
         then map_option (\<lambda>d. (drop 2 rest, d))
                (List.find (\<lambda>d. decision_code d = rest ! 0) [Allow, Deny, Skip])
         else None)"

definition pendingDecisionCallbackData :: "(string \<Rightarrow> string) \<Rightarrow> string \<Rightarrow> pending_decision \<Rightarrow> string" where
  "pendingDecisionCallbackData sha256_b64url routeId d =
     callback_prefix @ [decision_code d] @ '':''
       @ pendingDecisionRouteFingerprint sha256_b64url routeId"

lemma find_decision: "List.find (\<lambda>d'. decision_code d' = decision_code d) [Allow, Deny, Skip] = Some d"
  by (cases d) simp_all

lemma find_decision_Some:
  "List.find (\<lambda>d'. decision_code d' = c) [Allow, Deny, Skip] = Some d \<Longrightarrow> c = decision_code d"
  by (auto split: if_splits)

text \<open>
  The callback parser accepts exactly the strings the printer can produce: it returns
  fingerprint \<open>fp\<close> and decision \<open>d\<close> if and only if the data is the prefix, the letter of \<open>d\<close>, a
  colon and the sixteen base64url characters \<open>fp\<close>; so parsing is injective and no other data is
  taken for a decision.
\<close>

theorem callback_parse_exact:
  "parsePendingDecisionCallbackData data = Some (fp, d)
    \<longleftrightarrow> data = callback_prefix @ decision_code d # CHR '':'' # fp \<and> length fp = 16 \<and> list_all b64url_char fp"
proof
  assume l: "parsePendingDecisionCallbackData data = Some (fp, d)"
  define rest where "rest = drop (length callback_prefix) data"
  from l have pre: "take (length callback_prefix) data = callback_prefix" and len: "length rest = 18"
    and col: "rest ! 1 = CHR '':''" and cls: "list_all b64url_char (drop 2 rest)"
    and fp: "fp = drop 2 rest" and hd: "rest ! 0 = decision_code d"
    by (auto simp: parsePendingDecisionCallbackData_def Let_def rest_def simp del: find.simps
        split: if_splits dest!: find_decision_Some)
  obtain a r0 where r0: "rest = a # r0" using len by (cases rest) auto
  obtain b r where r: "rest = a # b # r" using len r0 by (cases r0) auto
  have "data = callback_prefix @ rest" using append_take_drop_id[of "length callback_prefix" data] pre
    by (simp add: rest_def)
  with r len col cls fp hd show "data = callback_prefix @ decision_code d # CHR '':'' # fp
      \<and> length fp = 16 \<and> list_all b64url_char fp" by simp
next
  assume "data = callback_prefix @ decision_code d # CHR '':'' # fp \<and> length fp = 16 \<and> list_all b64url_char fp"
  then show "parsePendingDecisionCallbackData data = Some (fp, d)"
    by (simp add: parsePendingDecisionCallbackData_def Let_def find_decision del: find.simps)
qed

text \<open>
  Round trip of the chat callback: when the digest has the form node's crypto documents
  (43 base64url characters for SHA-256), parsing the printed callback data of a route and decision
  gives back the route's fingerprint and the decision.
\<close>

theorem callback_round_trip:
  assumes "\<And>x. length (sha256_b64url x) = 43 \<and> list_all b64url_char (sha256_b64url x)"
  shows "parsePendingDecisionCallbackData (pendingDecisionCallbackData sha256_b64url routeId d)
    = Some (pendingDecisionRouteFingerprint sha256_b64url routeId, d)"
proof -
  let ?fp = "pendingDecisionRouteFingerprint sha256_b64url routeId"
  have "length ?fp = 16" "list_all b64url_char ?fp"
    using assms[of routeId] set_take_subset[of 16 "sha256_b64url routeId"]
    by (auto simp: pendingDecisionRouteFingerprint_def list_all_iff)
  then show ?thesis
    by (simp add: parsePendingDecisionCallbackData_def pendingDecisionCallbackData_def Let_def
        find_decision del: find.simps)
qed

theorem callback_round_trip_witness:
  "parsePendingDecisionCallbackData (pendingDecisionCallbackData (\<lambda>_. replicate 43 CHR ''A'') ''route-1'' Skip)
    = Some (replicate 16 CHR ''A'', Skip)"
proof -
  have "length (replicate 43 CHR ''A'') = 43 \<and> list_all b64url_char (replicate 43 CHR ''A'')"
    by (simp add: b64url_char_def list_all_iff)
  from callback_round_trip[of "\<lambda>_. replicate 43 CHR ''A''" "''route-1''" Skip, OF this]
  show ?thesis by (simp add: pendingDecisionRouteFingerprint_def)
qed

end
