(* ===== verification/Js_Json.thy ===== *)
theory Js_Json
  imports Js_Prelude
begin

text \<open>
  JSON values and their text. A number is carried as the text JavaScript prints for it; \<open>JUndef\<close> is
  the \<^verbatim>\<open>undefined\<close> that a TypeScript object literal can hold. \<open>json_text\<close> writes a value without
  white space, with the string escapes of \<^verbatim>\<open>JSON.stringify\<close>; it is shown to be unambiguous, so that
  keys and digests built from it identify the value. The stable sort \<open>js_sort\<close> by a comparison is
  \<^verbatim>\<open>Array.prototype.sort\<close>.
\<close>

section \<open>Stable sort and join\<close>

fun js_insort :: "('a \<Rightarrow> 'a \<Rightarrow> bool) \<Rightarrow> 'a \<Rightarrow> 'a list \<Rightarrow> 'a list" where
  "js_insort le x [] = [x]"
| "js_insort le x (y # ys) = (if le x y then x # y # ys else y # js_insort le x ys)"

definition js_sort :: "('a \<Rightarrow> 'a \<Rightarrow> bool) \<Rightarrow> 'a list \<Rightarrow> 'a list" where
  "js_sort le xs = foldr (js_insort le) xs []"

fun js_join :: "string \<Rightarrow> string list \<Rightarrow> string" where
  "js_join sep [] = []"
| "js_join sep [x] = x"
| "js_join sep (x # y # zs) = x @ sep @ js_join sep (y # zs)"

lemma js_sort_simps [simp]: "js_sort le [] = []" "js_sort le (x # xs) = js_insort le x (js_sort le xs)"
  by (simp_all add: js_sort_def)

lemma set_js_insort [simp]: "set (js_insort le x xs) = insert x (set xs)"
  by (induction xs) auto

lemma set_js_sort [simp]: "set (js_sort le xs) = set xs"
  by (induction xs) auto

lemma length_js_insort [simp]: "length (js_insort le x xs) = Suc (length xs)"
  by (induction xs) auto

lemma length_js_sort [simp]: "length (js_sort le xs) = length xs"
  by (induction xs) auto

lemma distinct_map_js_insort [simp]:
  "distinct (map f (js_insort le x xs)) \<longleftrightarrow> distinct (map f (x # xs))"
  by (induction xs) auto

lemma distinct_map_js_sort [simp]: "distinct (map f (js_sort le xs)) \<longleftrightarrow> distinct (map f xs)"
  by (induction xs) auto

lemma map_js_insort:
  "(\<And>a b. le' (f a) (f b) = le a b) \<Longrightarrow> map f (js_insort le x xs) = js_insort le' (f x) (map f xs)"
  by (induction xs) auto

lemma map_js_sort:
  "(\<And>a b. le' (f a) (f b) = le a b) \<Longrightarrow> map f (js_sort le xs) = js_sort le' (map f xs)"
proof (induction xs)
  case (Cons x xs)
  then show ?case using map_js_insort[where le = le and le' = le' and f = f, of x "js_sort le xs"] by simp
qed simp

lemma js_insort_sorted:
  assumes "sorted_wrt le xs" and "\<And>a b. le a b \<or> le b a" and "\<And>a b c. le a b \<Longrightarrow> le b c \<Longrightarrow> le a c"
  shows "sorted_wrt le (js_insort le x xs)"
  using assms(1)
proof (induction xs)
  case Nil
  then show ?case by simp
next
  case (Cons y ys)
  then show ?case using assms(2)[of x y] by (auto intro: assms(3))
qed

lemma js_sort_sorted:
  assumes "\<And>a b. le a b \<or> le b a" and "\<And>a b c. le a b \<Longrightarrow> le b c \<Longrightarrow> le a c"
  shows "sorted_wrt le (js_sort le xs)"
proof (induction xs)
  case Nil
  then show ?case by simp
next
  case (Cons x xs)
  then show ?case using js_insort_sorted[OF Cons.IH assms, where x = x] by simp
qed

lemma js_sort_id: "sorted_wrt le xs \<Longrightarrow> js_sort le xs = xs"
proof (induction xs)
  case (Cons x xs)
  then show ?case by (cases xs) auto
qed simp

text \<open>Stability: the elements that compare equal to a given one keep their order.\<close>

lemma filter_js_insort:
  assumes "\<And>y. P x \<Longrightarrow> P y \<Longrightarrow> le x y"
  shows "filter P (js_insort le x xs) = (if P x then x # filter P xs else filter P xs)"
  using assms by (induction xs) auto

lemma filter_js_sort:
  assumes "\<And>x y. P x \<Longrightarrow> P y \<Longrightarrow> le x y"
  shows "filter P (js_sort le xs) = filter P xs"
  using assms by (induction xs) (auto simp: filter_js_insort)

section \<open>Values and text\<close>

datatype json =
    JUndef
  | JNull
  | JBool bool
  | JNum string
  | JStr string
  | JArr "json list"
  | JObj "(string \<times> json) list"

definition hexdig :: "nat \<Rightarrow> char" where
  "hexdig n = ''0123456789abcdef'' ! n"

definition json_esc :: "char \<Rightarrow> string" where
  "json_esc c = (let n = of_char c :: nat in
     if c = CHR 0x22 then [CHR 0x5C, CHR 0x22]
     else if c = CHR 0x5C then [CHR 0x5C, CHR 0x5C]
     else if n = 8 then [CHR 0x5C, CHR ''b'']
     else if n = 9 then [CHR 0x5C, CHR ''t'']
     else if n = 10 then [CHR 0x5C, CHR ''n'']
     else if n = 12 then [CHR 0x5C, CHR ''f'']
     else if n = 13 then [CHR 0x5C, CHR ''r'']
     else if n < 32 then [CHR 0x5C, CHR ''u'', CHR ''0'', CHR ''0'', hexdig (n div 16), hexdig (n mod 16)]
     else [c])"

definition json_quote :: "string \<Rightarrow> string" where
  "json_quote s = CHR 0x22 # concat (map json_esc s) @ [CHR 0x22]"

fun json_text :: "json \<Rightarrow> string" where
  "json_text JUndef = ''undefined''"
| "json_text JNull = ''null''"
| "json_text (JBool b) = (if b then ''true'' else ''false'')"
| "json_text (JNum s) = s"
| "json_text (JStr s) = json_quote s"
| "json_text (JArr xs) = CHR ''['' # js_join '','' (map json_text xs) @ '']''"
| "json_text (JObj kvs) =
     CHR ''{'' # js_join '','' (map (\<lambda>(k, v). json_quote k @ CHR '':'' # json_text v) kvs) @ ''}''"

section \<open>The text determines the value\<close>

definition num_char :: "char \<Rightarrow> bool" where
  "num_char c = (c \<in> set ''0123456789+-.eE'')"

fun json_wf :: "json \<Rightarrow> bool" where
  "json_wf (JNum s) = (s \<noteq> [] \<and> list_all num_char s)"
| "json_wf (JArr xs) = list_all json_wf xs"
| "json_wf (JObj kvs) = list_all (\<lambda>(k, v). json_wf v) kvs"
| "json_wf _ = True"

definition delimited :: "string \<Rightarrow> bool" where
  "delimited x = (case x of [] \<Rightarrow> True | c # _ \<Rightarrow> c \<in> set '',]}'')"

fun json_unesc :: "string \<Rightarrow> (char \<times> string) option" where
  "json_unesc [] = None"
| "json_unesc (c # r) =
     (if c \<noteq> CHR 0x5C then Some (c, r)
      else case r of
          [] \<Rightarrow> None
        | d # r' \<Rightarrow>
            if d = CHR ''u'' then
              (case r' of
                 a # b # e # f # r'' \<Rightarrow>
                   (case (find_index (\<lambda>h. h = e) ''0123456789abcdef'',
                          find_index (\<lambda>h. h = f) ''0123456789abcdef'') of
                      (Some i, Some j) \<Rightarrow> Some (char_of (16 * i + j), r'')
                    | _ \<Rightarrow> None)
               | _ \<Rightarrow> None)
            else if d = CHR ''b'' then Some (char_of (8::nat), r')
            else if d = CHR ''t'' then Some (char_of (9::nat), r')
            else if d = CHR ''n'' then Some (char_of (10::nat), r')
            else if d = CHR ''f'' then Some (char_of (12::nat), r')
            else if d = CHR ''r'' then Some (char_of (13::nat), r')
            else Some (d, r'))"

lemma control_char_cases:
  assumes "of_char c < (32::nat)"
  shows "c \<in> set (map char_of [0..<32::nat])"
proof -
  have "c = char_of (of_char c :: nat)" by simp
  with assms show ?thesis by (metis atLeastLessThan_iff image_eqI set_map set_upt zero_le)
qed

lemma json_unesc_control: "list_all (\<lambda>n. json_unesc (json_esc (char_of n) @ r) = Some (char_of n, r)) [0..<32::nat]"
  by (simp add: upt_rec json_esc_def hexdig_def)

lemma json_unesc_esc [simp]: "json_unesc (json_esc c @ r) = Some (c, r)"
proof (cases "of_char c < (32::nat)")
  case True
  from control_char_cases[OF this] json_unesc_control[of r] show ?thesis
    by (auto simp: list_all_iff)
next
  case False
  then show ?thesis by (auto simp: json_esc_def Let_def)
qed

lemma json_esc_inj: "json_esc c @ r = json_esc d @ r' \<Longrightarrow> c = d \<and> r = r'"
  by (metis json_unesc_esc option.inject prod.inject)

lemma json_esc_hd: "\<exists>a x. json_esc c = a # x \<and> a \<noteq> CHR 0x22"
  by (simp add: json_esc_def Let_def)

lemma json_body_inj:
  "concat (map json_esc s) @ CHR 0x22 # x = concat (map json_esc t) @ CHR 0x22 # y \<Longrightarrow> s = t \<and> x = y"
proof (induction s arbitrary: t)
  case Nil
  show ?case
  proof (cases t)
    case (Cons c t')
    from json_esc_hd[of c] Nil.prems show ?thesis by (auto simp: Cons)
  qed (use Nil.prems in simp)
next
  case (Cons c s)
  show ?case
  proof (cases t)
    case Nil
    with Cons.prems json_esc_hd[of c] show ?thesis by auto
  next
    case (Cons d t')
    with Cons.prems have "json_esc c @ (concat (map json_esc s) @ CHR 0x22 # x)
        = json_esc d @ (concat (map json_esc t') @ CHR 0x22 # y)" by simp
    from json_esc_inj[OF this] Cons.IH[of t'] Cons show ?thesis by simp
  qed
qed

lemma json_quote_inj: "json_quote s @ x = json_quote t @ y \<Longrightarrow> s = t \<and> x = y"
  using json_body_inj[of s x t y] by (simp add: json_quote_def)

lemma json_quote_inject [simp]: "json_quote s = json_quote t \<longleftrightarrow> s = t"
  using json_quote_inj[of s "[]" t "[]"] by auto

lemma num_prefix_inj:
  assumes "list_all num_char s" "list_all num_char t" "delimited x" "delimited y" "s @ x = t @ y"
  shows "s = t \<and> x = y"
proof -
  have tw: "takeWhile num_char (u @ z) = u" if "list_all num_char u" "delimited z" for u z
  proof -
    have "takeWhile num_char z = []" using that(2)
      by (cases z) (auto simp: delimited_def num_char_def)
    then show ?thesis using that(1) by (simp add: list_all_iff)
  qed
  have "s = t" using tw[OF assms(1,3)] tw[OF assms(2,4)] assms(5) by simp
  with assms(5) show ?thesis by simp
qed

text \<open>
  A comma-separated sequence closed by a bracket \<open>c\<close> determines its elements, when each element
  is determined by its text before a delimiter and does not start with \<open>c\<close>.
\<close>

lemma js_join_inj:
  assumes el: "\<And>a b x y. a \<in> set xs \<Longrightarrow> b \<in> set ys \<Longrightarrow> delimited x \<Longrightarrow> delimited y \<Longrightarrow>
        f a @ x = f b @ y \<Longrightarrow> a = b \<and> x = y"
    and ne: "\<And>a. a \<in> set xs \<union> set ys \<Longrightarrow> f a \<noteq> [] \<and> hd (f a) \<noteq> c"
    and c: "c = CHR '']'' \<or> c = CHR ''}''"
    and eq: "js_join '','' (map f xs) @ c # x = js_join '','' (map f ys) @ c # y"
  shows "xs = ys \<and> x = y"
  using el ne eq
proof (induction xs arbitrary: ys)
  case Nil
  then show ?case
  proof (cases ys)
    case (Cons b ys')
    with Nil.prems(2)[of b] Nil.prems(3) show ?thesis by (cases ys'; cases "f b") auto
  qed simp
next
  case (Cons a xs)
  note prems = Cons.prems and IH = Cons.IH
  show ?case
  proof (cases ys)
    case Nil
    with prems(2)[of a] prems(3) show ?thesis by (cases xs; cases "f a") auto
  next
    case (Cons b ys')
    define tl where "tl z zs w = (if zs = [] then c # w else CHR '','' # js_join '','' (map f zs) @ c # w)"
      for z :: 'a and zs w
    have split: "js_join '','' (map f (z # zs)) @ c # w = f z @ tl z zs w" for z zs w
      by (cases zs) (simp_all add: tl_def)
    have d: "delimited (tl z zs w)" for z zs w
      using c by (auto simp: tl_def delimited_def)
    have "f a @ tl a xs x = f b @ tl b ys' y"
      using prems(3) by (simp only: Cons split)
    from prems(1)[OF _ _ d d this] Cons have ab: "a = b" and r: "tl a xs x = tl b ys' y" by auto
    show ?thesis
    proof (cases "xs = [] \<or> ys' = []")
      case True
      with r c have "xs = [] \<and> ys' = [] \<and> x = y" by (auto simp: tl_def split: if_splits)
      with ab Cons show ?thesis by simp
    next
      case False
      with r have "js_join '','' (map f xs) @ c # x = js_join '','' (map f ys') @ c # y"
        by (simp add: tl_def)
      then have "xs = ys' \<and> x = y"
        using prems(1,2) Cons by (intro IH) auto
      with ab Cons show ?thesis by simp
    qed
  qed
qed

text \<open>The first character of the text tells the kind of value.\<close>

definition json_kind_char :: "json \<Rightarrow> char \<Rightarrow> bool" where
  "json_kind_char v c = (case v of
      JUndef \<Rightarrow> c = CHR ''u'' | JNull \<Rightarrow> c = CHR ''n'' | JBool b \<Rightarrow> c = (if b then CHR ''t'' else CHR ''f'')
    | JNum _ \<Rightarrow> num_char c | JStr _ \<Rightarrow> c = CHR 0x22 | JArr _ \<Rightarrow> c = CHR ''['' | JObj _ \<Rightarrow> c = CHR ''{'')"

fun json_tag :: "json \<Rightarrow> nat" where
  "json_tag JUndef = 0"
| "json_tag JNull = 1"
| "json_tag (JBool b) = (if b then 2 else 3)"
| "json_tag (JNum _) = 4"
| "json_tag (JStr _) = 5"
| "json_tag (JArr _) = 6"
| "json_tag (JObj _) = 7"

lemma num_char_other [simp]:
  "\<not> num_char CHR ''u''" "\<not> num_char CHR ''n''" "\<not> num_char CHR ''t''" "\<not> num_char CHR ''f''"
  "\<not> num_char CHR 0x22" "\<not> num_char CHR ''[''" "\<not> num_char CHR ''{''" "\<not> num_char CHR '']''" "\<not> num_char CHR ''}''"
  by (simp_all add: num_char_def)

lemma json_kind_hd: "json_wf v \<Longrightarrow> \<exists>c r. json_text v = c # r \<and> json_kind_char v c"
  by (cases v) (auto simp: json_kind_char_def json_quote_def neq_Nil_conv)

lemma json_kind_tag: "json_kind_char v c \<Longrightarrow> json_kind_char w c \<Longrightarrow> json_tag v = json_tag w"
  by (cases v; cases w) (auto simp: json_kind_char_def split: if_splits)

lemma json_text_hd:
  "json_wf v \<Longrightarrow> json_text v \<noteq> [] \<and> hd (json_text v) \<noteq> CHR '']'' \<and> hd (json_text v) \<noteq> CHR ''}''"
  using json_kind_hd[of v] by (cases v) (auto simp: json_kind_char_def split: if_splits)

lemma json_tag_eq:
  "json_tag JUndef = json_tag w \<Longrightarrow> w = JUndef"
  "json_tag JNull = json_tag w \<Longrightarrow> w = JNull"
  "json_tag (JBool b) = json_tag w \<Longrightarrow> w = JBool b"
  "json_tag (JNum s) = json_tag w \<Longrightarrow> \<exists>t. w = JNum t"
  "json_tag (JStr s) = json_tag w \<Longrightarrow> \<exists>t. w = JStr t"
  "json_tag (JArr xs) = json_tag w \<Longrightarrow> \<exists>ys. w = JArr ys"
  "json_tag (JObj kvs) = json_tag w \<Longrightarrow> \<exists>ys. w = JObj ys"
  by (cases w; simp split: if_splits)+

lemma json_text_tag:
  assumes "json_wf v" "json_wf w" "json_text v @ x = json_text w @ y"
  shows "json_tag v = json_tag w"
proof -
  from json_kind_hd[OF assms(1)] json_kind_hd[OF assms(2)] obtain c r d q
    where k: "json_text v = c # r" "json_kind_char v c" "json_text w = d # q" "json_kind_char w d" by blast
  from assms(3) have "c = d" unfolding k(1,3) by simp
  with json_kind_tag[OF k(2)] k(4) show ?thesis by simp
qed

lemma json_text_prefix:
  "json_wf v \<Longrightarrow> json_wf w \<Longrightarrow> delimited x \<Longrightarrow> delimited y \<Longrightarrow> json_text v @ x = json_text w @ y
     \<Longrightarrow> v = w \<and> x = y"
proof (induction v arbitrary: w x y)
  case JUndef
  from json_tag_eq(1)[OF json_text_tag[OF JUndef(1,2,5)]] JUndef(5) show ?case by simp
next
  case JNull
  from json_tag_eq(2)[OF json_text_tag[OF JNull(1,2,5)]] JNull(5) show ?case by simp
next
  case (JBool b)
  from json_tag_eq(3)[OF json_text_tag[OF JBool(1,2,5)]] JBool(5) show ?case by simp
next
  case (JNum s)
  from json_tag_eq(4)[OF json_text_tag[OF JNum(1,2,5)]] obtain t where "w = JNum t" by blast
  with JNum num_prefix_inj[of s t x y] show ?case by simp
next
  case (JStr s)
  from json_tag_eq(5)[OF json_text_tag[OF JStr(1,2,5)]] obtain t where "w = JStr t" by blast
  with JStr json_quote_inj[of s x t y] show ?case by simp
next
  case (JArr xs)
  from json_tag_eq(6)[OF json_text_tag[OF JArr.prems(1,2,5)]] obtain ys where w: "w = JArr ys" by blast
  have "xs = ys \<and> x = y"
  proof (rule js_join_inj[where f = json_text and c = "CHR '']''"])
    show "js_join '','' (map json_text xs) @ CHR '']'' # x = js_join '','' (map json_text ys) @ CHR '']'' # y"
      using JArr.prems(5) by (simp add: w)
  next
    fix a b p q
    assume "a \<in> set xs" "b \<in> set ys" "delimited p" "delimited q" "json_text a @ p = json_text b @ q"
    with JArr.prems(1,2) show "a = b \<and> p = q"
      by (intro JArr.IH) (auto simp: w list_all_iff)
  qed (use JArr.prems(1,2) json_text_hd in \<open>auto simp: w list_all_iff\<close>)
  with w show ?case by simp
next
  case (JObj kvs)
  from json_tag_eq(7)[OF json_text_tag[OF JObj.prems(1,2,5)]] obtain ys where w: "w = JObj ys" by blast
  let ?f = "\<lambda>(k, v). json_quote k @ CHR '':'' # json_text v"
  have "kvs = ys \<and> x = y"
  proof (rule js_join_inj[where f = ?f and c = "CHR ''}''"])
    show "js_join '','' (map ?f kvs) @ CHR ''}'' # x = js_join '','' (map ?f ys) @ CHR ''}'' # y"
      using JObj.prems(5) by (simp add: w)
  next
    fix a b p q
    assume ab: "a \<in> set kvs" "b \<in> set ys" "delimited p" "delimited q" and eq: "?f a @ p = ?f b @ q"
    from eq have k: "fst a = fst b" "json_text (snd a) @ p = json_text (snd b) @ q"
      using json_quote_inj[of "fst a" "CHR '':'' # json_text (snd a) @ p" "fst b"]
      by (auto simp: case_prod_beta)
    have "snd a = snd b \<and> p = q"
      using ab k JObj.prems(1,2)
      by (intro JObj.IH[of a "snd a"]) (auto simp: w list_all_iff snds.simps)
    with k show "a = b \<and> p = q" by (simp add: prod_eq_iff)
  qed (auto simp: json_quote_def)
  with w show ?case by simp
qed

lemma json_text_inject: "json_wf v \<Longrightarrow> json_wf w \<Longrightarrow> json_text v = json_text w \<longleftrightarrow> v = w"
  using json_text_prefix[of v w "[]" "[]"] by (auto simp: delimited_def)

text \<open>\<^verbatim>\<open>JSON.stringify\<close> of an array of strings, in which \<^verbatim>\<open>undefined\<close> becomes \<^verbatim>\<open>null\<close>.\<close>

definition json_strings :: "string option list \<Rightarrow> string" where
  "json_strings xs = json_text (JArr (map (\<lambda>x. case x of None \<Rightarrow> JNull | Some s \<Rightarrow> JStr s) xs))"

lemma json_strings_inject [simp]: "json_strings xs = json_strings ys \<longleftrightarrow> xs = ys"
proof -
  let ?c = "\<lambda>x. case x of None \<Rightarrow> JNull | Some s \<Rightarrow> JStr s"
  have wf: "json_wf (JArr (map ?c zs))" for zs
    by (auto simp: list_all_iff split: option.splits)
  have inj: "inj ?c" by (auto simp: inj_def split: option.splits)
  show ?thesis
    using json_text_inject[OF wf wf, of xs ys] inj
    by (simp add: json_strings_def inj_map_eq_map)
qed

end
