(* ===== verification/Operation_Approvals.thy ===== *)
theory Operation_Approvals
  imports Js_Date Js_Json
begin

text \<open>
  The control plane's register of operation approvals
  (\<^verbatim>\<open>packages/control-plane/src/control-plane/approvals/operation-approvals.ts\<close>): destructive
  operations are held back until an administrator approves them. The state is the \<^verbatim>\<open>Map\<close> of
  entries, the revision counter and the list of events handed to the event bus. The clock readings
  and the identifier made by \<^verbatim>\<open>createId\<close> are arguments of the operations; SHA-256 and the collation
  order of \<^verbatim>\<open>localeCompare\<close> are parameters.
\<close>

section \<open>Operations and their policy\<close>

datatype approval_operation =
    InstanceDelete | NodeRemove | NodeUpdateApply | NodeExternalListenerSet | UserAccessSet
  | UserRoleUpdate | UserRoleRemove | IdentityProviderUpdate | IdentityProviderRemove | GitCredentialAssign

fun operation_name :: "approval_operation \<Rightarrow> string" where
  "operation_name InstanceDelete = ''instance.delete''"
| "operation_name NodeRemove = ''node.remove''"
| "operation_name NodeUpdateApply = ''node.update.apply''"
| "operation_name NodeExternalListenerSet = ''node.external-listener.set''"
| "operation_name UserAccessSet = ''user.access.set''"
| "operation_name UserRoleUpdate = ''user.role.update''"
| "operation_name UserRoleRemove = ''user.role.remove''"
| "operation_name IdentityProviderUpdate = ''identity-provider.update''"
| "operation_name IdentityProviderRemove = ''identity-provider.remove''"
| "operation_name GitCredentialAssign = ''git-credential.assign''"

definition all_operations :: "approval_operation list" where
  "all_operations = [InstanceDelete, NodeRemove, NodeUpdateApply, NodeExternalListenerSet, UserAccessSet,
     UserRoleUpdate, UserRoleRemove, IdentityProviderUpdate, IdentityProviderRemove, GitCredentialAssign]"

text \<open>
  \<^verbatim>\<open>OperationApprovalPolicySchema.parse\<close>: every field is an optional boolean with a default, and an
  unknown field or a field that is no boolean makes the parse fail.
\<close>

definition policy_default :: "approval_operation \<Rightarrow> bool" where
  "policy_default op = (op \<noteq> NodeExternalListenerSet)"

definition policy_parse :: "(string \<times> json) list \<Rightarrow> (approval_operation \<Rightarrow> bool) option" where
  "policy_parse fields =
     (if list_all (\<lambda>(k, v). k \<in> operation_name ` set all_operations
          \<and> (case v of JBool _ \<Rightarrow> True | JUndef \<Rightarrow> True | _ \<Rightarrow> False)) fields
      then Some (\<lambda>op. case map_of fields (operation_name op) of
                        Some (JBool b) \<Rightarrow> b
                      | _ \<Rightarrow> policy_default op)
      else None)"

definition requiresApproval :: "(approval_operation \<Rightarrow> bool) \<Rightarrow> approval_operation \<Rightarrow> bool" where
  "requiresApproval policy op = policy op"

section \<open>The digest of a request\<close>

function canonical :: "(string \<Rightarrow> string \<Rightarrow> bool) \<Rightarrow> json \<Rightarrow> string" where
  "canonical le (JArr xs) = CHR ''['' # js_join '','' (map (canonical le) xs) @ '']''"
| "canonical le (JObj kvs) =
     CHR ''{'' # js_join '','' (map (\<lambda>(key, entry). json_quote key @ CHR '':'' # canonical le entry)
       (js_sort (\<lambda>left right. le (fst left) (fst right)) kvs)) @ ''}''"
| "canonical le JUndef = json_text JUndef"
| "canonical le JNull = json_text JNull"
| "canonical le (JBool b) = json_text (JBool b)"
| "canonical le (JNum n) = json_text (JNum n)"
| "canonical le (JStr s) = json_text (JStr s)"
  by pat_completeness auto

lemma size_json_entry: "(k, v) \<in> set kvs \<Longrightarrow> size v < Suc (size_list (size_prod (\<lambda>_. 0) size) kvs)"
  by (induction kvs) auto

lemma size_json_elem: "x \<in> set xs \<Longrightarrow> size x < Suc (size_list size xs)"
  by (induction xs) auto

termination canonical
  by (relation "measure (size \<circ> snd)") (auto simp: size_json_elem size_json_entry)

definition digest :: "(string \<Rightarrow> string) \<Rightarrow> (string \<Rightarrow> string \<Rightarrow> bool) \<Rightarrow> approval_operation \<Rightarrow> string \<Rightarrow> json
    \<Rightarrow> string" where
  "digest sha256_hex le operation targetId input =
     sha256_hex (canonical le (JObj [(''operation'', JStr (operation_name operation)),
       (''targetId'', JStr targetId), (''input'', input)]))"

text \<open>The value whose plain text \<open>canonical\<close> writes: every object sorted by its keys.\<close>

function json_norm :: "(string \<Rightarrow> string \<Rightarrow> bool) \<Rightarrow> json \<Rightarrow> json" where
  "json_norm le (JArr xs) = JArr (map (json_norm le) xs)"
| "json_norm le (JObj kvs) = JObj (map (\<lambda>(k, v). (k, json_norm le v))
       (js_sort (\<lambda>a b. le (fst a) (fst b)) kvs))"
| "json_norm le JUndef = JUndef"
| "json_norm le JNull = JNull"
| "json_norm le (JBool b) = JBool b"
| "json_norm le (JNum n) = JNum n"
| "json_norm le (JStr s) = JStr s"
  by pat_completeness auto

termination json_norm
  by (relation "measure (size \<circ> snd)") (auto simp: size_json_elem size_json_entry)

lemma canonical_norm: "canonical le v = json_text (json_norm le v)"
proof (induction le v rule: canonical.induct)
  case (1 le xs)
  then have "map (canonical le) xs = map (json_text \<circ> json_norm le) xs" by auto
  then show ?case by (simp only: canonical.simps json_norm.simps json_text.simps map_map)
next
  case (2 le kvs)
  have "map (\<lambda>(key, entry). json_quote key @ CHR '':'' # canonical le entry) (js_sort (\<lambda>a b. le (fst a) (fst b)) kvs)
      = map ((\<lambda>(k, v). json_quote k @ CHR '':'' # json_text v) \<circ> (\<lambda>(k, v). (k, json_norm le v)))
          (js_sort (\<lambda>a b. le (fst a) (fst b)) kvs)"
    using 2 by (intro map_cong) auto
  then show ?case by (simp only: canonical.simps json_norm.simps json_text.simps map_map)
qed simp_all

lemma json_norm_wf: "json_wf v \<Longrightarrow> json_wf (json_norm le v)"
  by (induction le v rule: json_norm.induct) (auto simp: list_all_iff)

text \<open>
  The digest of an approval request identifies the request: when SHA-256 does not collide
  on the two canonical texts, two requests have the same digest if and only if they have the same
  operation, the same target and inputs that are equal after sorting the keys of every object. So
  an approval cannot be spent on another operation, target or input.
\<close>

theorem digest_identifies_request:
  assumes "json_wf input" and "json_wf input'"
    and "\<And>v w. sha256_hex (canonical le v) = sha256_hex (canonical le w) \<Longrightarrow> canonical le v = canonical le w"
  shows "digest sha256_hex le op target input = digest sha256_hex le op' target' input'
    \<longleftrightarrow> op = op' \<and> target = target' \<and> json_norm le input = json_norm le input'"
proof -
  let ?r = "\<lambda>op target input. JObj [(''operation'', JStr (operation_name op)), (''targetId'', JStr target), (''input'', input)]"
  let ?n = "\<lambda>op target input. set [(''operation'', JStr (operation_name op)), (''targetId'', JStr target), (''input'', json_norm le input)]"
  have entries: "json_norm le (?r op t i) = JObj es \<Longrightarrow> set es = ?n op t i" for op t i es
    by (auto simp del: js_sort_simps)
  have "digest sha256_hex le op target input = digest sha256_hex le op' target' input'
      \<longleftrightarrow> canonical le (?r op target input) = canonical le (?r op' target' input')"
    using assms(3) unfolding digest_def by metis
  also have "\<dots> \<longleftrightarrow> json_norm le (?r op target input) = json_norm le (?r op' target' input')"
    unfolding canonical_norm using assms(1,2) by (intro json_text_inject json_norm_wf) auto
  also have "\<dots> \<longleftrightarrow> op = op' \<and> target = target' \<and> json_norm le input = json_norm le input'"
  proof
    assume eq: "json_norm le (?r op target input) = json_norm le (?r op' target' input')"
    obtain es where es: "json_norm le (?r op target input) = JObj es"
      by (simp only: json_norm.simps)
    have E: "?n op target input = ?n op' target' input'"
      by (rule trans[OF entries[OF es, symmetric] entries[OF trans[OF eq[symmetric] es]]])
    have "(''operation'', JStr (operation_name op)) \<in> ?n op' target' input'"
      "(''targetId'', JStr target) \<in> ?n op' target' input'"
      "(''input'', json_norm le input) \<in> ?n op' target' input'"
      unfolding E[symmetric] by simp_all
    then have "operation_name op = operation_name op'" "target = target'"
      "json_norm le input = json_norm le input'" by simp_all
    moreover from this(1) have "op = op'" by (cases op; cases op') simp_all
    ultimately show "op = op' \<and> target = target' \<and> json_norm le input = json_norm le input'" by simp
  next
    assume "op = op' \<and> target = target' \<and> json_norm le input = json_norm le input'"
    then show "json_norm le (?r op target input) = json_norm le (?r op' target' input')"
      by simp
  qed
  finally show ?thesis .
qed

theorem digest_identifies_request_witness:
  "digest id (\<le>) NodeRemove ''n1'' (JObj [(''b'', JNull), (''a'', JNum ''1'')])
     = digest id (\<le>) NodeRemove ''n1'' (JObj [(''a'', JNum ''1''), (''b'', JNull)])
   \<and> digest id (\<le>) NodeRemove ''n1'' JUndef \<noteq> digest id (\<le>) InstanceDelete ''n1'' JUndef"
  using digest_identifies_request[of "JObj [(''b'', JNull), (''a'', JNum ''1'')]"
      "JObj [(''a'', JNum ''1''), (''b'', JNull)]" id "(\<le>)" NodeRemove "''n1''" NodeRemove "''n1''"]
    digest_identifies_request[of JUndef JUndef id "(\<le>)" NodeRemove "''n1''" InstanceDelete "''n1''"]
  by (simp add: num_char_def)

section \<open>The register\<close>

datatype approval_status = Pending | Approved | Denied

datatype event_status = Status approval_status | Expired | Consumed | Cancelled

record pending_approval =
  pa_id :: string
  pa_userId :: string
  pa_sessionId :: string
  pa_operation :: approval_operation
  pa_targetId :: string
  pa_details :: "(string \<times> string) list option"
  pa_digest :: string
  pa_status :: approval_status
  pa_createdAt :: string
  pa_expiresAt :: string

record approval_summary =
  as_id :: string
  as_operation :: approval_operation
  as_targetId :: string
  as_details :: "(string \<times> string) list option"
  as_createdAt :: string
  as_expiresAt :: string

record approval_event =
  ev_request :: approval_summary
  ev_status :: event_status
  ev_generation :: string
  ev_revision :: nat

record approvals =
  ap_entries :: "(string, pending_approval) jmap"
  ap_generation :: string
  ap_revision :: nat
  ap_published :: "approval_event list"

record owner =
  ow_userId :: string
  ow_sessionId :: string

datatype approval_error = ApprovalInvalid | ApprovalLimit | ApprovalNotFound

datatype gate_result = GateApproved | GatePending string approval_status string

definition approval_lifetime :: int where
  "approval_lifetime = 5 * 60000"

definition approval_error_status :: "approval_error \<Rightarrow> int" where
  "approval_error_status e = (case e of ApprovalInvalid \<Rightarrow> 409 | ApprovalLimit \<Rightarrow> 429 | ApprovalNotFound \<Rightarrow> 404)"

definition summary :: "pending_approval \<Rightarrow> approval_summary" where
  "summary entry = \<lparr>as_id = pa_id entry, as_operation = pa_operation entry, as_targetId = pa_targetId entry,
     as_details = pa_details entry, as_createdAt = pa_createdAt entry, as_expiresAt = pa_expiresAt entry\<rparr>"

definition publish :: "pending_approval \<Rightarrow> event_status \<Rightarrow> approvals \<Rightarrow> approvals" where
  "publish entry status s =
     (let revision = ap_revision s + 1 in
      s\<lparr>ap_revision := revision,
        ap_published := ap_published s @ [\<lparr>ev_request = summary entry, ev_status = status,
          ev_generation = ap_generation s, ev_revision = revision\<rparr>]\<rparr>)"

text \<open>
  \<^verbatim>\<open>if (Date.parse(entry.expiresAt) > now) continue;\<close>: a stamp that does not parse gives NaN, and
  the entry is dropped. The loop visits the entries in insertion order.
\<close>

definition approval_live :: "int \<Rightarrow> pending_approval \<Rightarrow> bool" where
  "approval_live now entry = (case date_parse (pa_expiresAt entry) of Some t \<Rightarrow> t > now | None \<Rightarrow> False)"

definition sweep_entry :: "int \<Rightarrow> string \<times> pending_approval \<Rightarrow> approvals \<Rightarrow> approvals" where
  "sweep_entry now p s =
     (if approval_live now (snd p) then s
      else publish (snd p) Expired (s\<lparr>ap_entries := jmap_delete (fst p) (ap_entries s)\<rparr>))"

definition sweep :: "int \<Rightarrow> approvals \<Rightarrow> approvals" where
  "sweep now s = fold (sweep_entry now) (ap_entries s) s"

definition snapshot :: "int \<Rightarrow> approvals \<Rightarrow> (string \<times> nat \<times> approval_summary list) \<times> approvals" where
  "snapshot now s =
     (let s = sweep now s in
      ((ap_generation s, ap_revision s,
        map summary (filter (\<lambda>e. pa_status e = Pending) (jmap_values (ap_entries s)))), s))"

definition owned_by :: "owner \<Rightarrow> pending_approval \<Rightarrow> bool" where
  "owned_by ow entry = (pa_userId entry = ow_userId ow \<and> pa_sessionId entry = ow_sessionId ow)"

definition consume_approval :: "owner \<Rightarrow> string \<Rightarrow> string \<Rightarrow> approvals
    \<Rightarrow> (approval_error + gate_result) \<times> approvals" where
  "consume_approval ow requestDigest approvalId s =
     (case jmap_get (ap_entries s) approvalId of
        None \<Rightarrow> (Inl ApprovalInvalid, s)
      | Some entry \<Rightarrow>
          if \<not> owned_by ow entry \<or> pa_digest entry \<noteq> requestDigest \<or> pa_status entry \<noteq> Approved
          then (Inl ApprovalInvalid, s)
          else (Inr GateApproved,
                publish entry Consumed (s\<lparr>ap_entries := jmap_delete (pa_id entry) (ap_entries s)\<rparr>)))"

definition new_approval :: "owner \<Rightarrow> approval_operation \<Rightarrow> string \<Rightarrow> (string \<times> string) list option \<Rightarrow> string
    \<Rightarrow> string \<Rightarrow> int \<Rightarrow> pending_approval" where
  "new_approval ow operation targetId details requestDigest newId createdMs =
     \<lparr>pa_id = newId, pa_userId = ow_userId ow, pa_sessionId = ow_sessionId ow, pa_operation = operation,
      pa_targetId = targetId, pa_details = details, pa_digest = requestDigest, pa_status = Pending,
      pa_createdAt = to_iso createdMs, pa_expiresAt = to_iso (createdMs + approval_lifetime)\<rparr>"

definition request_approval :: "owner \<Rightarrow> approval_operation \<Rightarrow> string \<Rightarrow> (string \<times> string) list option \<Rightarrow> string
    \<Rightarrow> string \<Rightarrow> int \<Rightarrow> approvals \<Rightarrow> (approval_error + gate_result) \<times> approvals" where
  "request_approval ow operation targetId details requestDigest newId createdMs s =
     (case List.find (\<lambda>e. owned_by ow e \<and> pa_digest e = requestDigest) (jmap_values (ap_entries s)) of
        Some existing \<Rightarrow> (Inr (GatePending (pa_id existing) (pa_status existing) (pa_expiresAt existing)), s)
      | None \<Rightarrow>
          if 500 \<le> length (ap_entries s)
             \<or> 20 \<le> length (filter (\<lambda>e. pa_userId e = ow_userId ow) (jmap_values (ap_entries s)))
          then (Inl ApprovalLimit, s)
          else (let entry = new_approval ow operation targetId details requestDigest newId createdMs in
                (Inr (GatePending (pa_id entry) (pa_status entry) (pa_expiresAt entry)),
                 publish entry (Status Pending) (s\<lparr>ap_entries := jmap_set (pa_id entry) entry (ap_entries s)\<rparr>))))"

text \<open>
  \<open>now\<close> is the clock \<^verbatim>\<open>sweep\<close> reads, \<open>createdMs\<close> the later reading of \<^verbatim>\<open>new Date()\<close>. An empty
  approval id is falsy and counts as absent.
\<close>

definition gate :: "(string \<Rightarrow> string) \<Rightarrow> (string \<Rightarrow> string \<Rightarrow> bool) \<Rightarrow> owner \<Rightarrow> approval_operation \<Rightarrow> string \<Rightarrow> json
    \<Rightarrow> string option \<Rightarrow> (string \<times> string) list option \<Rightarrow> string \<Rightarrow> int \<Rightarrow> int \<Rightarrow> approvals
    \<Rightarrow> (approval_error + gate_result) \<times> approvals" where
  "gate sha256_hex le ow operation targetId input approvalId details newId now createdMs s =
     (let s = sweep now s; requestDigest = digest sha256_hex le operation targetId input in
      if truthy approvalId then consume_approval ow requestDigest (str_of approvalId) s
      else request_approval ow operation targetId details requestDigest newId createdMs s)"

definition approval_state :: "owner \<Rightarrow> string \<Rightarrow> int \<Rightarrow> approvals
    \<Rightarrow> (approval_error + (string \<times> approval_status \<times> string)) \<times> approvals" where
  "approval_state ow rid now s =
     (let s = sweep now s in
      case jmap_get (ap_entries s) rid of
        None \<Rightarrow> (Inl ApprovalNotFound, s)
      | Some entry \<Rightarrow> if \<not> owned_by ow entry then (Inl ApprovalNotFound, s)
                       else (Inr (pa_id entry, pa_status entry, pa_expiresAt entry), s))"

text \<open>\<^verbatim>\<open>decide\<close> writes the status into the entry object held by the \<^verbatim>\<open>Map\<close>.\<close>

definition decide :: "string \<Rightarrow> bool \<Rightarrow> int \<Rightarrow> approvals
    \<Rightarrow> (approval_error + (string \<times> approval_status)) \<times> approvals" where
  "decide rid approve now s =
     (let s = sweep now s in
      case jmap_get (ap_entries s) rid of
        None \<Rightarrow> (Inl ApprovalNotFound, s)
      | Some entry \<Rightarrow>
          if pa_status entry \<noteq> Pending then (Inl ApprovalNotFound, s)
          else (let entry = entry\<lparr>pa_status := if approve then Approved else Denied\<rparr> in
                (Inr (pa_id entry, pa_status entry),
                 publish entry (Status (pa_status entry)) (s\<lparr>ap_entries := jmap_set rid entry (ap_entries s)\<rparr>))))"

definition cancel :: "owner \<Rightarrow> string \<Rightarrow> approvals \<Rightarrow> bool \<times> approvals" where
  "cancel ow rid s =
     (case jmap_get (ap_entries s) rid of
        None \<Rightarrow> (False, s)
      | Some entry \<Rightarrow>
          if \<not> owned_by ow entry then (False, s)
          else (True, publish entry Cancelled (s\<lparr>ap_entries := jmap_delete rid (ap_entries s)\<rparr>)))"

section \<open>Elementary moves\<close>

text \<open>
  Every operation sweeps the expired entries and then makes at most one move: it removes an entry
  with a final event, creates a pending entry, or records a decision. The label of a move is the
  identifier it creates.
\<close>

inductive approval_move :: "string option \<Rightarrow> approvals \<Rightarrow> approvals \<Rightarrow> bool" where
  remove: "jmap_get (ap_entries s) k = Some e \<Longrightarrow>
      st = Expired \<or> st = Cancelled \<or> (st = Consumed \<and> pa_status e = Approved) \<Longrightarrow>
      approval_move None s (publish e st (s\<lparr>ap_entries := jmap_delete k (ap_entries s)\<rparr>))"
| create: "pa_status e = Pending \<Longrightarrow>
      (\<And>e'. e' \<in> set (jmap_values (ap_entries s)) \<Longrightarrow>
        (pa_userId e', pa_sessionId e', pa_digest e') \<noteq> (pa_userId e, pa_sessionId e, pa_digest e)) \<Longrightarrow>
      length (ap_entries s) < 500 \<Longrightarrow>
      length (filter (\<lambda>e'. pa_userId e' = pa_userId e) (jmap_values (ap_entries s))) < 20 \<Longrightarrow>
      approval_move (Some (pa_id e)) s
        (publish e (Status Pending) (s\<lparr>ap_entries := jmap_set (pa_id e) e (ap_entries s)\<rparr>))"
| decided: "jmap_get (ap_entries s) k = Some e \<Longrightarrow> pa_status e = Pending \<Longrightarrow> st = Approved \<or> st = Denied \<Longrightarrow>
      e' = e\<lparr>pa_status := st\<rparr> \<Longrightarrow>
      approval_move None s (publish e' (Status st) (s\<lparr>ap_entries := jmap_set k e' (ap_entries s)\<rparr>))"

definition ids_match :: "approvals \<Rightarrow> bool" where
  "ids_match s = (jmap_ok (ap_entries s) \<and> (\<forall>(k, e) \<in> set (ap_entries s). pa_id e = k))"

lemma publish_entries [simp]: "ap_entries (publish e st s) = ap_entries s"
  by (simp add: publish_def Let_def)

lemma ids_match_get: "ids_match s \<Longrightarrow> jmap_get (ap_entries s) k = Some e \<Longrightarrow> pa_id e = k"
  by (auto simp: ids_match_def dest: jmap_get_in)

lemma approval_move_ids: "approval_move l s s' \<Longrightarrow> ids_match s \<Longrightarrow> ids_match s'"
  by (induction rule: approval_move.induct)
     (auto simp: ids_match_def set_jmap_delete set_jmap_set jm.ok_del jm.ok_put jmap_get_iff)

text \<open>Sweeping is a sequence of removals with the event \<open>Expired\<close>.\<close>

lemma sweep_fold_induct:
  assumes move: "\<And>s k e. ids_match s \<Longrightarrow> P s \<Longrightarrow> jmap_get (ap_entries s) k = Some e \<Longrightarrow>
        P (publish e Expired (s\<lparr>ap_entries := jmap_delete k (ap_entries s)\<rparr>))"
  shows "ids_match s \<Longrightarrow> P s \<Longrightarrow> jmap_ok xs \<Longrightarrow> (\<forall>(k, e) \<in> set xs. jmap_get (ap_entries s) k = Some e) \<Longrightarrow>
    ids_match (fold (sweep_entry now) xs s) \<and> P (fold (sweep_entry now) xs s)"
proof (induction xs arbitrary: s)
  case (Cons x xs)
  obtain k e where x: "x = (k, e)" by (cases x)
  show ?case
  proof (cases "approval_live now e")
    case True
    with Cons x show ?thesis by (auto simp: sweep_entry_def)
  next
    case False
    let ?s = "publish e Expired (s\<lparr>ap_entries := jmap_delete k (ap_entries s)\<rparr>)"
    have get: "jmap_get (ap_entries s) k = Some e" using Cons.prems x by auto
    have 1: "ids_match ?s" using approval_move_ids[OF approval_move.remove[OF get]] Cons.prems(1) by blast
    have ok: "jmap_ok (ap_entries s)" using Cons.prems(1) by (simp add: ids_match_def)
    have 2: "\<forall>(k', e') \<in> set xs. jmap_get (ap_entries ?s) k' = Some e'"
    proof (rule ballI)
      fix p
      assume p: "p \<in> set xs"
      then have "fst p \<noteq> k" using Cons.prems(3) x by force
      with p Cons.prems(4) show "case p of (k', e') \<Rightarrow> jmap_get (ap_entries ?s) k' = Some e'"
        by (auto simp: jm.get_del[OF ok])
    qed
    have "sweep_entry now x s = ?s" using x False by (simp add: sweep_entry_def)
    then show ?thesis
      using Cons.IH[OF 1 move[OF Cons.prems(1,2) get] _ 2] Cons.prems(3) by simp
  qed
qed simp

lemma sweep_induct:
  assumes "ids_match s" and "P s"
    and "\<And>s k e. ids_match s \<Longrightarrow> P s \<Longrightarrow> jmap_get (ap_entries s) k = Some e \<Longrightarrow>
        P (publish e Expired (s\<lparr>ap_entries := jmap_delete k (ap_entries s)\<rparr>))"
  shows "P (sweep now s)"
proof -
  have "jmap_ok (ap_entries s)" using assms(1) by (simp add: ids_match_def)
  then show ?thesis
    using sweep_fold_induct[of P s "ap_entries s" now] assms by (auto simp: sweep_def jmap_get_iff)
qed

lemma sweep_fold_entries:
  "ap_entries (fold (sweep_entry now) xs s)
     = filter (\<lambda>p. \<not> (\<exists>q \<in> set xs. fst q = fst p \<and> \<not> approval_live now (snd q))) (ap_entries s)"
proof (induction xs arbitrary: s)
  case (Cons x xs)
  have "ap_entries (sweep_entry now x s)
      = filter (\<lambda>p. \<not> (fst x = fst p \<and> \<not> approval_live now (snd x))) (ap_entries s)"
    by (auto simp: sweep_entry_def jmap_delete_filter intro: filter_cong)
  then show ?case by (simp add: Cons.IH filter_filter conj_commute)
qed simp

lemma sweep_entries:
  "jmap_ok (ap_entries s) \<Longrightarrow> ap_entries (sweep now s) = filter (\<lambda>p. approval_live now (snd p)) (ap_entries s)"
  unfolding sweep_def sweep_fold_entries
  by (intro filter_cong) (auto dest: eq_key_imp_eq_value)

lemma sweep_ids: "ids_match s \<Longrightarrow> ids_match (sweep now s)"
  by (rule sweep_induct[of s ids_match now]) (auto intro: approval_move_ids[OF approval_move.remove])

lemma sweep_get:
  "ids_match s \<Longrightarrow> jmap_get (ap_entries (sweep now s)) k
     = (case jmap_get (ap_entries s) k of Some e \<Rightarrow> if approval_live now e then Some e else None | None \<Rightarrow> None)"
  by (simp add: ids_match_def sweep_entries jmap_get_filter)

lemma consume_moves:
  "ids_match s \<Longrightarrow> snd (consume_approval ow d k s) = s \<or> approval_move None s (snd (consume_approval ow d k s))"
  by (auto simp: consume_approval_def ids_match_get split: option.splits intro!: approval_move.remove)

lemma request_moves:
  "snd (request_approval ow op t det d newId created s) = s
     \<or> approval_move (Some newId) s (snd (request_approval ow op t det d newId created s))"
proof (cases "List.find (\<lambda>e. owned_by ow e \<and> pa_digest e = d) (jmap_values (ap_entries s))")
  case None
  let ?e = "new_approval ow op t det d newId created"
  have e: "pa_id ?e = newId" "pa_status ?e = Pending" "pa_userId ?e = ow_userId ow"
    "pa_sessionId ?e = ow_sessionId ow" "pa_digest ?e = d" by (simp_all add: new_approval_def)
  from None have "(pa_userId e', pa_sessionId e', pa_digest e') \<noteq> (pa_userId ?e, pa_sessionId ?e, pa_digest ?e)"
    if "e' \<in> set (jmap_values (ap_entries s))" for e'
    using that by (auto simp: find_None_iff owned_by_def e)
  from approval_move.create[OF e(2) this] None show ?thesis
    by (simp add: request_approval_def Let_def e not_le)
qed (simp add: request_approval_def)

lemma decide_moves:
  "snd (decide rid approve now s) = sweep now s \<or> approval_move None (sweep now s) (snd (decide rid approve now s))"
  by (auto simp: decide_def Let_def split: option.splits intro!: approval_move.decided)

lemma cancel_moves: "snd (cancel ow rid s) = s \<or> approval_move None s (snd (cancel ow rid s))"
  by (auto simp: cancel_def split: option.splits intro!: approval_move.remove)

section \<open>Runs of the register\<close>

datatype approval_op =
    OSweep int
  | OSnapshot int
  | OGate owner approval_operation string json "string option" "(string \<times> string) list option" string int int
  | OStatus owner string int
  | ODecide string bool int
  | OCancel owner string

fun approvals_step :: "(string \<Rightarrow> string) \<Rightarrow> (string \<Rightarrow> string \<Rightarrow> bool) \<Rightarrow> approvals \<Rightarrow> approval_op \<Rightarrow> approvals" where
  "approvals_step sha le s (OSweep now) = sweep now s"
| "approvals_step sha le s (OSnapshot now) = snd (snapshot now s)"
| "approvals_step sha le s (OGate ow op t input aid det newId now created) =
     snd (gate sha le ow op t input aid det newId now created s)"
| "approvals_step sha le s (OStatus ow rid now) = snd (approval_state ow rid now s)"
| "approvals_step sha le s (ODecide rid approve now) = snd (decide rid approve now s)"
| "approvals_step sha le s (OCancel ow rid) = snd (cancel ow rid s)"

fun op_new_id :: "approval_op \<Rightarrow> string option" where
  "op_new_id (OGate ow op t input aid det newId now created) = Some newId"
| "op_new_id _ = None"

definition approvals_init :: "string \<Rightarrow> approvals" where
  "approvals_init gen = \<lparr>ap_entries = [], ap_generation = gen, ap_revision = 0, ap_published = []\<rparr>"

lemma approval_state_sweep: "snd (approval_state ow rid now s) = sweep now s"
  by (simp add: approval_state_def Let_def split: option.splits)

text \<open>
  The induction principle of the register: \<open>P\<close> holds at the start and is kept by the removals of a
  sweep, and \<open>Q\<close> follows from \<open>P\<close> and after the operation's own move.
\<close>

lemma approvals_step_induct:
  assumes "ids_match s" and "P s"
    and sw: "\<And>s k e. ids_match s \<Longrightarrow> P s \<Longrightarrow> jmap_get (ap_entries s) k = Some e \<Longrightarrow>
        P (publish e Expired (s\<lparr>ap_entries := jmap_delete k (ap_entries s)\<rparr>))"
    and pq: "\<And>s. ids_match s \<Longrightarrow> P s \<Longrightarrow> Q s"
    and mv: "\<And>s l s'. ids_match s \<Longrightarrow> P s \<Longrightarrow> approval_move l s s' \<Longrightarrow> l = None \<or> l = op_new_id op \<Longrightarrow> Q s'"
  shows "ids_match (approvals_step sha le s op) \<and> Q (approvals_step sha le s op)"
proof -
  have sw1: "ids_match (sweep now s)" for now by (rule sweep_ids[OF assms(1)])
  have sw2: "P (sweep now s)" for now
    by (rule sweep_induct[of s P]) (use assms(1,2) sw in blast)+
  note swept = sw1 sw2
  have sw3: "Q (sweep now s)" for now by (rule pq[OF swept])
  have goal: "ids_match s' \<and> Q s'" if "ids_match s0" "P s0"
    "s' = s0 \<or> approval_move l s0 s'" "l = None \<or> l = op_new_id op" for s0 s' l
    using that(3)
  proof
    assume m: "approval_move l s0 s'"
    from approval_move_ids[OF m that(1)] mv[OF that(1,2) m that(4)] show ?thesis by simp
  qed (use that pq in simp)
  show ?thesis
  proof (cases op)
    case (OSweep now)
    with sw1 sw3 show ?thesis by simp
  next
    case (OSnapshot now)
    with sw1 sw3 show ?thesis by (simp add: snapshot_def Let_def)
  next
    case (OGate ow opn t input aid det newId now created)
    show ?thesis
    proof (cases "truthy aid")
      case True
      with OGate show ?thesis
        using goal[OF swept consume_moves[OF swept(1)]] by (simp add: gate_def Let_def)
    next
      case False
      with OGate show ?thesis using goal[OF swept request_moves] by (simp add: gate_def Let_def)
    qed
  next
    case (OStatus ow rid now)
    with sw1 sw3 show ?thesis by (simp add: approval_state_sweep)
  next
    case (ODecide rid approve now)
    then show ?thesis using goal[OF swept decide_moves] by simp
  next
    case (OCancel ow rid)
    then show ?thesis using goal[OF assms(1,2) cancel_moves] by simp
  qed
qed

section \<open>Limits and revisions\<close>

definition request_key :: "pending_approval \<Rightarrow> string \<times> string \<times> string" where
  "request_key e = (pa_userId e, pa_sessionId e, pa_digest e)"

definition approvals_inv :: "approvals \<Rightarrow> bool" where
  "approvals_inv s \<longleftrightarrow> ids_match s
     \<and> length (ap_entries s) \<le> 500
     \<and> (\<forall>u. length (filter (\<lambda>e. pa_userId e = u) (jmap_values (ap_entries s))) \<le> 20)
     \<and> distinct (map request_key (jmap_values (ap_entries s)))
     \<and> ap_revision s = length (ap_published s)
     \<and> map ev_revision (ap_published s) = [1..<Suc (ap_revision s)]"

lemma values_delete_filter:
  "length (filter P (jmap_values (jmap_delete k m))) \<le> length (filter P (jmap_values m))"
  unfolding jmap_delete_filter by (induction m) auto

lemma values_delete_distinct:
  "distinct (map f (jmap_values m)) \<Longrightarrow> distinct (map f (jmap_values (jmap_delete k m)))"
  unfolding jmap_delete_filter by (induction m) auto

lemma values_set_filter:
  "length (filter P (jmap_values (jmap_set k v m))) \<le> length (filter P (jmap_values m)) + (if P v then 1 else 0)"
  unfolding jmap_set_def by (induction m) auto

lemma values_set_distinct:
  "distinct (map f (jmap_values m)) \<Longrightarrow> f v \<notin> f ` set (jmap_values m)
     \<Longrightarrow> distinct (map f (jmap_values (jmap_set k v m)))"
proof (induction m)
  case (Cons p m)
  have "f (snd q) \<in> insert (f v) (f ` snd ` set m)" if "q \<in> set (AList.update k v m)" for q
    using that by (induction m) (auto split: if_splits)
  with Cons show ?case by (cases p) (force simp: jmap_set_def)
qed (simp add: jmap_set_def)

lemma length_jmap_set: "length (jmap_set k v m) \<le> Suc (length m)"
  unfolding jmap_set_def by (induction m) auto

lemma values_set_same:
  "jmap_get m k = Some e \<Longrightarrow> f e' = f e \<Longrightarrow> map f (jmap_values (jmap_set k e' m)) = map f (jmap_values m)"
  unfolding jmap_set_def jmap_get_def by (induction m) (auto split: if_splits)

lemma publish_simps [simp]:
  "ap_revision (publish e st s) = Suc (ap_revision s)"
  "ap_generation (publish e st s) = ap_generation s"
  "ap_published (publish e st s) = ap_published s @ [\<lparr>ev_request = summary e, ev_status = st,
     ev_generation = ap_generation s, ev_revision = Suc (ap_revision s)\<rparr>]"
  by (simp_all add: publish_def Let_def)

lemma filter_user_map: "length (filter (\<lambda>e. pa_userId e = u) es) = length (filter (\<lambda>x. x = u) (map pa_userId es))"
  by (simp add: filter_map comp_def)

lemma approval_move_inv: "approval_move l s s' \<Longrightarrow> approvals_inv s \<Longrightarrow> approvals_inv s'"
proof (induction rule: approval_move.induct)
  case (remove s k e st)
  have ids: "ids_match (publish e st (s\<lparr>ap_entries := jmap_delete k (ap_entries s)\<rparr>))"
    using approval_move_ids[OF approval_move.remove[OF remove(1,2)]] remove.prems by (simp add: approvals_inv_def)
  have users: "length (filter (\<lambda>e. pa_userId e = u) (jmap_values (jmap_delete k (ap_entries s)))) \<le> 20" for u
  proof (rule order_trans[OF values_delete_filter])
    show "length (filter (\<lambda>e. pa_userId e = u) (jmap_values (ap_entries s))) \<le> 20"
      using remove.prems unfolding approvals_inv_def by blast
  qed
  have keys: "distinct (map request_key (jmap_values (jmap_delete k (ap_entries s))))"
    using remove.prems unfolding approvals_inv_def by (blast intro: values_delete_distinct)
  have len: "length (jmap_delete k (ap_entries s)) \<le> 500"
    using remove.prems length_jmap_delete[of k "ap_entries s"] unfolding approvals_inv_def by linarith
  from ids users keys len remove.prems show ?case by (simp add: approvals_inv_def)
next
  case (create e s)
  have "ids_match (publish e (Status Pending) (s\<lparr>ap_entries := jmap_set (pa_id e) e (ap_entries s)\<rparr>))"
    using approval_move_ids[OF approval_move.create[OF create.hyps]] create.prems by (simp add: approvals_inv_def)
  moreover have "request_key e \<notin> request_key ` set (jmap_values (ap_entries s))"
    using create.hyps(2) unfolding request_key_def by fastforce
  then have "distinct (map request_key (jmap_values (jmap_set (pa_id e) e (ap_entries s))))"
    using create.prems unfolding approvals_inv_def by (blast intro: values_set_distinct)
  moreover have "length (jmap_set (pa_id e) e (ap_entries s)) \<le> 500"
    using create.hyps(3) length_jmap_set[of "pa_id e" e "ap_entries s"] by linarith
  moreover have "length (filter (\<lambda>e'. pa_userId e' = u) (jmap_values (jmap_set (pa_id e) e (ap_entries s)))) \<le> 20" for u
  proof -
    have "length (filter (\<lambda>e'. pa_userId e' = u) (jmap_values (ap_entries s))) + (if pa_userId e = u then 1 else 0) \<le> 20"
      using create.hyps(4) create.prems by (auto simp: approvals_inv_def)
    then show ?thesis by (rule order_trans[OF values_set_filter])
  qed
  ultimately show ?case using create.prems by (simp add: approvals_inv_def)
next
  case (decided s k e st e')
  have ids: "ids_match (publish e' (Status st) (s\<lparr>ap_entries := jmap_set k e' (ap_entries s)\<rparr>))"
    using approval_move_ids[OF approval_move.decided[OF decided.hyps]] decided.prems by (simp add: approvals_inv_def)
  have keys: "map request_key (jmap_values (jmap_set k e' (ap_entries s))) = map request_key (jmap_values (ap_entries s))"
    and users: "map pa_userId (jmap_values (jmap_set k e' (ap_entries s))) = map pa_userId (jmap_values (ap_entries s))"
    using decided.hyps(4) by (intro values_set_same[OF decided.hyps(1)]; simp add: request_key_def)+
  have len: "length (jmap_set k e' (ap_entries s)) = length (ap_entries s)"
    using arg_cong[OF keys, of length] by simp
  have "length (filter (\<lambda>e. pa_userId e = u) (jmap_values (jmap_set k e' (ap_entries s)))) \<le> 20" for u
    using decided.prems unfolding approvals_inv_def filter_user_map users by blast
  moreover have "distinct (map request_key (jmap_values (jmap_set k e' (ap_entries s))))"
    using decided.prems unfolding approvals_inv_def keys by blast
  ultimately show ?case using ids len decided.prems by (simp add: approvals_inv_def)
qed

interpretation ap: step_system "approvals_step sha le" approvals_inv for sha le
proof unfold_locales
  fix s op
  assume "approvals_inv s"
  then show "approvals_inv (approvals_step sha le s op)"
    using approvals_step_induct[of s approvals_inv approvals_inv op sha le, OF _ _ approval_move_inv[OF approval_move.remove]]
      approval_move_inv by (auto simp: approvals_inv_def[of s])
qed

lemma approvals_init_inv: "approvals_inv (approvals_init gen)"
  by (simp add: approvals_inv_def approvals_init_def ids_match_def)

text \<open>
  The approval register stays within its limits and numbers its events without gaps: after
  any sequence of calls there are at most 500 entries and at most 20 of any user, no two entries
  stand for the same request of the same user session, and the published events carry the
  revisions 1, 2, 3, ... up to the register's current revision.
\<close>

theorem approvals_limits:
  assumes "s = foldl (approvals_step sha le) (approvals_init gen) ops"
  shows "length (ap_entries s) \<le> 500
    \<and> (\<forall>u. length (filter (\<lambda>e. pa_userId e = u) (jmap_values (ap_entries s))) \<le> 20)
    \<and> distinct (map (\<lambda>e. (pa_userId e, pa_sessionId e, pa_digest e)) (jmap_values (ap_entries s)))
    \<and> map ev_revision (ap_published s) = [1..<Suc (ap_revision s)]"
proof -
  have "approvals_inv s" unfolding assms by (rule ap.good_run[OF approvals_init_inv])
  moreover have "request_key = (\<lambda>e. (pa_userId e, pa_sessionId e, pa_digest e))"
    by (simp add: fun_eq_iff request_key_def)
  ultimately show ?thesis unfolding approvals_inv_def by simp
qed

section \<open>The life of one approval\<close>

definition history :: "string \<Rightarrow> approvals \<Rightarrow> event_status list" where
  "history rid s = map ev_status (filter (\<lambda>e. as_id (ev_request e) = rid) (ap_published s))"

definition open_history :: "approval_status \<Rightarrow> event_status list" where
  "open_history st = Status Pending # (if st = Pending then [] else [Status st])"

definition closed_history :: "event_status list \<Rightarrow> bool" where
  "closed_history h = (h = [] \<or> h = open_history Approved @ [Consumed]
     \<or> (\<exists>st \<in> {Pending, Approved, Denied}. h = open_history st @ [Expired] \<or> h = open_history st @ [Cancelled]))"

text \<open>
  Runs in which every identifier made by \<^verbatim>\<open>createId\<close> is new: it is not the identifier of an earlier
  event.
\<close>

definition op_fresh :: "approvals \<Rightarrow> approval_op \<Rightarrow> bool" where
  "op_fresh s op = (\<forall>i. op_new_id op = Some i \<longrightarrow> history i s = [])"

inductive approvals_run :: "(string \<Rightarrow> string) \<Rightarrow> (string \<Rightarrow> string \<Rightarrow> bool) \<Rightarrow> approvals \<Rightarrow> approvals \<Rightarrow> bool"
  for sha le s where
  run_start: "approvals_run sha le s s"
| run_step: "approvals_run sha le s s' \<Longrightarrow> op_fresh s' op \<Longrightarrow> approvals_run sha le s (approvals_step sha le s' op)"

definition life_matches :: "pending_approval option \<Rightarrow> event_status list \<Rightarrow> bool" where
  "life_matches v h = (case v of Some e \<Rightarrow> h = open_history (pa_status e) | None \<Rightarrow> closed_history h)"

definition lifecycle_ok :: "approvals \<Rightarrow> bool" where
  "lifecycle_ok s = (\<forall>rid. life_matches (jmap_get (ap_entries s) rid) (history rid s))"

lemma life_matches_simps [simp]:
  "life_matches None h = closed_history h"
  "life_matches (Some e) h = (h = open_history (pa_status e))"
  by (simp_all add: life_matches_def)

lemma history_publish [simp]:
  "history rid (publish e st s) = history rid s @ (if pa_id e = rid then [st] else [])"
  by (simp add: history_def summary_def)

lemma history_entries [simp]: "history rid (s\<lparr>ap_entries := m\<rparr>) = history rid s"
  by (simp add: history_def)

lemma lifecycle_get: "lifecycle_ok s \<Longrightarrow> jmap_get (ap_entries s) k = Some e \<Longrightarrow> history k s = open_history (pa_status e)"
  unfolding lifecycle_ok_def by (drule spec[of _ k]) simp

lemma lifecycle_move:
  assumes "approval_move l s s'" and "ids_match s" and "lifecycle_ok s"
    and "\<And>i. l = Some i \<Longrightarrow> history i s = []"
  shows "lifecycle_ok s'"
  using assms
proof (induction rule: approval_move.induct)
  case (remove s k e st)
  have e: "pa_id e = k" "history k s = open_history (pa_status e)"
    using remove by (simp_all add: ids_match_get lifecycle_get)
  have "closed_history (open_history (pa_status e) @ [st])"
    using remove(2) by (cases "pa_status e") (auto simp: closed_history_def)
  with remove.prems e show ?case by (simp add: lifecycle_ok_def ids_match_def jm.get_del)
next
  case (create e s)
  then show ?case by (simp add: lifecycle_ok_def jm.get_put open_history_def)
next
  case (decided s k e st e')
  have "pa_id e = k" "history k s = open_history (pa_status e)"
    using decided by (simp_all add: ids_match_get lifecycle_get)
  with decided show ?case by (auto simp: lifecycle_ok_def jm.get_put open_history_def)
qed

lemma lifecycle_step:
  assumes "ids_match s" and "lifecycle_ok s" and "op_fresh s op"
  shows "ids_match (approvals_step sha le s op) \<and> lifecycle_ok (approvals_step sha le s op)"
proof (rule approvals_step_induct[where P = "\<lambda>s. lifecycle_ok s \<and> op_fresh s op"])
  fix s k e
  assume a: "ids_match s" "lifecycle_ok s \<and> op_fresh s op" "jmap_get (ap_entries s) k = Some e"
  let ?s = "publish e Expired (s\<lparr>ap_entries := jmap_delete k (ap_entries s)\<rparr>)"
  have ne: "history k s \<noteq> []" using lifecycle_get[of s k e] a by (simp add: open_history_def)
  have fresh: "op_fresh ?s op" using a(2) ne by (auto simp: op_fresh_def ids_match_get[OF a(1,3)])
  have "approval_move None s ?s" using a(3) by (intro approval_move.remove) simp_all
  from lifecycle_move[OF this a(1)] a(2) fresh show "lifecycle_ok ?s \<and> op_fresh ?s op" by simp
next
  fix s l s'
  assume a: "ids_match s" "lifecycle_ok s \<and> op_fresh s op" "approval_move l s s'" "l = None \<or> l = op_new_id op"
  have "history i s = []" if "l = Some i" for i using that a(2,4) by (auto simp: op_fresh_def)
  with a show "lifecycle_ok s'" by (intro lifecycle_move[OF a(3,1)]) simp_all
qed (use assms in simp_all)

lemma published_step:
  assumes "ids_match s"
  shows "\<exists>xs. ap_published (approvals_step sha le s op) = ap_published s @ xs"
proof -
  let ?P = "\<lambda>s' :: approvals. \<exists>xs. ap_published s' = ap_published s @ xs"
  have "?P s'" if "?P t" "approval_move l t s'" for t l s'
    using that(2,1) by (induction rule: approval_move.induct) auto
  then have mv: "\<And>s l s'. ?P s \<Longrightarrow> approval_move l s s' \<Longrightarrow> ?P s'" by blast
  have "ids_match (approvals_step sha le s op) \<and> ?P (approvals_step sha le s op)"
  proof (rule approvals_step_induct[where P = ?P])
    fix t :: approvals and k e
    assume "?P t" "jmap_get (ap_entries t) k = Some e"
    then show "?P (publish e Expired (t\<lparr>ap_entries := jmap_delete k (ap_entries t)\<rparr>))" by auto
  qed (use assms mv in simp_all)
  then show ?thesis by blast
qed

lemma run_keeps:
  assumes "approvals_run sha le s s'"
  shows "ids_match s \<Longrightarrow> lifecycle_ok s \<Longrightarrow>
    ids_match s' \<and> lifecycle_ok s' \<and> (\<exists>xs. ap_published s' = ap_published s @ xs)"
  using assms
proof (induction rule: approvals_run.induct)
  case run_start
  then show ?case by simp
next
  case (run_step s' op)
  then obtain xs where *: "ids_match s'" "lifecycle_ok s'" "ap_published s' = ap_published s @ xs" by blast
  from published_step[OF *(1), of sha le op] *(3) lifecycle_step[OF *(1,2) run_step.hyps(2)] show ?case by auto
qed

lemma init_lifecycle: "ids_match (approvals_init gen) \<and> lifecycle_ok (approvals_init gen)"
  by (simp add: approvals_init_def ids_match_def lifecycle_ok_def history_def closed_history_def)

text \<open>
  Claim C4. The events of one approval follow its life cycle: in every run whose identifiers are
  fresh, an identifier in the register has the events pending, or pending and its decision; an
  identifier not (or no longer) in the register has no event at all, or the events of an open
  approval followed by one expiry or cancellation, or pending, approved, consumed. In particular
  nothing is consumed that was not approved, nothing denied is ever approved, and nothing happens
  after the end.
\<close>

theorem approval_lifecycle:
  assumes "approvals_run sha le (approvals_init gen) s"
  shows "case jmap_get (ap_entries s) rid of
      Some e \<Rightarrow> history rid s = open_history (pa_status e)
    | None \<Rightarrow> closed_history (history rid s)"
  using run_keeps[OF assms] init_lifecycle unfolding lifecycle_ok_def life_matches_def by blast

text \<open>
  Exactly when a gated operation passes: a call of the gate with an approval id returns
  approved if and only if the register holds that id, not expired, made by the same user session
  for the same digest, with status approved; then the entry is removed and announced as consumed,
  otherwise the call fails with the invalid-approval error and leaves every live entry in place.
\<close>

theorem gate_passes_iff:
  assumes "ids_match s" and "rid \<noteq> []"
    and "gate sha le ow op t input (Some rid) det newId now created s = (r, s')"
  shows "(r = Inr GateApproved \<or> r = Inl ApprovalInvalid)
    \<and> (r = Inr GateApproved \<longleftrightarrow> (\<exists>e. jmap_get (ap_entries s) rid = Some e \<and> approval_live now e
          \<and> owned_by ow e \<and> pa_digest e = digest sha le op t input \<and> pa_status e = Approved))
    \<and> (\<forall>k. jmap_get (ap_entries s') k =
          (if k = rid \<and> r = Inr GateApproved then None else jmap_get (ap_entries (sweep now s)) k))"
proof -
  have r: "(r, s') = consume_approval ow (digest sha le op t input) rid (sweep now s)"
    using assms(2,3) by (simp add: gate_def Let_def)
  have ok: "jmap_ok (ap_entries (sweep now s))" and get: "\<And>e. jmap_get (ap_entries (sweep now s)) rid = Some e \<Longrightarrow> pa_id e = rid"
    using sweep_ids[OF assms(1), of now] by (simp add: ids_match_def, rule ids_match_get)
  note live = sweep_get[OF assms(1), of now rid]
  show ?thesis
  proof (cases "jmap_get (ap_entries (sweep now s)) rid")
    case None
    with r have "r = Inl ApprovalInvalid" "s' = sweep now s" by (simp_all add: consume_approval_def)
    with None live show ?thesis by (auto split: option.splits)
  next
    case (Some e)
    with live have e: "jmap_get (ap_entries s) rid = Some e" "approval_live now e"
      by (auto split: option.splits if_splits)
    show ?thesis
    proof (cases "owned_by ow e \<and> pa_digest e = digest sha le op t input \<and> pa_status e = Approved")
      case True
      with r Some get[OF Some] have "r = Inr GateApproved"
        "ap_entries s' = jmap_delete rid (ap_entries (sweep now s))"
        by (simp_all add: consume_approval_def)
      with True e show ?thesis by (simp add: jm.get_del[OF ok])
    next
      case False
      with r Some have "r = Inl ApprovalInvalid" "s' = sweep now s" by (auto simp: consume_approval_def)
      with False e show ?thesis by simp
    qed
  qed
qed

text \<open>
  Claim C24. An approval is spent at most once: when the gate lets an operation pass in a reachable
  state, no later call with that approval id passes, whatever happens in between.
\<close>

theorem approval_spent_once:
  assumes "approvals_run sha le (approvals_init gen) s" and "rid \<noteq> []"
    and "gate sha le ow op t input (Some rid) det newId now created s = (Inr GateApproved, s1)"
    and "history newId s = []" and "approvals_run sha le s1 s2"
  shows "fst (gate sha le ow' op' t' input' (Some rid) det' newId' now' created' s2) = Inl ApprovalInvalid"
proof -
  have ok: "ids_match s" "lifecycle_ok s" using run_keeps[OF assms(1)] init_lifecycle by blast+
  let ?o = "OGate ow op t input (Some rid) det newId now created"
  have s1: "s1 = approvals_step sha le s ?o" using assms(3) by simp
  have ok1: "ids_match s1" "lifecycle_ok s1"
    unfolding s1 using lifecycle_step[OF ok, of ?o sha le] assms(4) by (simp_all add: op_fresh_def)
  obtain e where e: "jmap_get (ap_entries (sweep now s)) rid = Some e"
    and p: "s1 = publish e Consumed (sweep now s\<lparr>ap_entries := jmap_delete (pa_id e) (ap_entries (sweep now s))\<rparr>)"
    using assms(2,3) by (auto simp: gate_def Let_def consume_approval_def split: option.splits if_splits)
  have "Consumed \<in> set (history rid s1)"
    unfolding p by (simp add: ids_match_get[OF sweep_ids[OF ok(1)] e])
  moreover obtain xs where "ap_published s2 = ap_published s1 @ xs" and ok2: "ids_match s2" "lifecycle_ok s2"
    using run_keeps[OF assms(5) ok1] by blast
  ultimately have c: "Consumed \<in> set (history rid s2)" by (auto simp: history_def)
  have "jmap_get (ap_entries s2) rid = None"
  proof (rule ccontr)
    assume "jmap_get (ap_entries s2) rid \<noteq> None"
    then obtain e where "jmap_get (ap_entries s2) rid = Some e" by blast
    from lifecycle_get[OF ok2(2) this] c show False by (auto simp: open_history_def split: if_splits)
  qed
  with sweep_get[OF ok2(1), of now' rid] assms(2) show ?thesis
    by (simp add: gate_def Let_def consume_approval_def)
qed

definition demo_owner :: owner where
  "demo_owner = \<lparr>ow_userId = ''u'', ow_sessionId = ''s''\<rparr>"

definition demo_approved :: approvals where
  "demo_approved = foldl (approvals_step id (\<le>)) (approvals_init ''g'')
     [OGate demo_owner NodeRemove ''n'' JUndef None None ''a'' 0 0, ODecide ''a'' True 1]"

lemma demo_expiry: "date_parse (to_iso (0 + approval_lifetime)) = Some 300000"
  using date_parse_to_iso[of 300000] by (simp add: approval_lifetime_def iso_range_def day_from_year_def ms_per_day_def)

lemma demo_approved_entries:
  "ap_entries demo_approved = [(''a'', (new_approval demo_owner NodeRemove ''n'' None
      (digest id (\<le>) NodeRemove ''n'' JUndef) ''a'' 0)\<lparr>pa_status := Approved\<rparr>)]"
  "map ev_status (ap_published demo_approved) = [Status Pending, Status Approved]"
  "map (as_id \<circ> ev_request) (ap_published demo_approved) = [''a'', ''a'']"
  using demo_expiry
  by (simp_all add: demo_approved_def approvals_init_def gate_def sweep_def request_approval_def Let_def
      jmap_set_def decide_def sweep_entry_def approval_live_def jmap_get_Cons new_approval_def publish_def summary_def)

lemma demo_approved_run: "approvals_run id (\<le>) (approvals_init ''g'') demo_approved"
  unfolding demo_approved_def foldl.simps
  by (intro approvals_run.intros) (simp_all add: op_fresh_def history_def approvals_init_def)

lemma demo_gate:
  "fst (gate id (\<le>) demo_owner NodeRemove ''n'' JUndef (Some ''a'') None ''b'' 2 2 demo_approved) = Inr GateApproved"
  using demo_expiry
  by (simp add: gate_def sweep_def Let_def consume_approval_def demo_approved_entries sweep_entry_def
      approval_live_def new_approval_def jmap_get_Cons owned_by_def)

theorem approval_spent_once_witness:
  "fst (gate id (\<le>) demo_owner NodeRemove ''n'' JUndef (Some ''a'') None ''c'' 3 3
     (snd (gate id (\<le>) demo_owner NodeRemove ''n'' JUndef (Some ''a'') None ''b'' 2 2 demo_approved)))
   = Inl ApprovalInvalid"
proof -
  have fresh: "history ''b'' demo_approved = []"
  proof -
    have "\<forall>e \<in> set (ap_published demo_approved). as_id (ev_request e) = ''a''"
      using arg_cong[OF demo_approved_entries(3), of set] by force
    then show ?thesis by (simp add: history_def filter_empty_conv)
  qed
  show ?thesis
    by (rule approval_spent_once[OF demo_approved_run _ _ fresh approvals_run.run_start,
          where ow = demo_owner and op = NodeRemove and t = "''n''" and input = JUndef and det = None
          and now = 2 and created = 2])
       (simp_all add: prod_eq_iff demo_gate)
qed

theorem approvals_limits_witness:
  "map ev_revision (ap_published demo_approved) = [1..<Suc (ap_revision demo_approved)]"
  using approvals_limits[OF demo_approved_def] by blast

theorem approval_lifecycle_witness: "history ''a'' demo_approved = [Status Pending, Status Approved]"
  using approval_lifecycle[OF demo_approved_run, of "''a''"]
  by (simp add: demo_approved_entries jmap_get_Cons open_history_def)

theorem gate_passes_iff_witness:
  "jmap_get (ap_entries (snd (gate id (\<le>) demo_owner NodeRemove ''n'' JUndef (Some ''a'') None ''b'' 2 2 demo_approved)))
     ''a'' = None"
proof -
  have ids: "ids_match demo_approved" using run_keeps[OF demo_approved_run] init_lifecycle by blast
  from gate_passes_iff[OF ids _ surjective_pairing, of "''a''" id "(\<le>)" demo_owner NodeRemove "''n''" JUndef None "''b''" 2 2]
  show ?thesis using demo_gate by simp
qed

end
