(* ===== verification/Session_Types.thy ===== *)
theory Session_Types
  imports Js_Date Js_Json
begin

text \<open>
  The data of an AI session as \<^verbatim>\<open>packages/protocol/src/ai-sessions.ts\<close> declares it: enumerations as
  datatypes, objects as records, optional properties as options. The zod schemas that the modelled
  code parses with at run time are given as parsers: \<^const>\<open>None\<close> is a failed \<^verbatim>\<open>safeParse\<close>, and a parse
  trims the text fields as the schema does. Numbers are integers (\<^typ>\<open>int\<close>); a string field that
  the code only tests for truthiness is the empty string when absent.
\<close>

section \<open>Enumerations\<close>

datatype ai_source = Control | Realtime | AdapterSnapshot | TranscriptTail | TranscriptScan | ProcessScan | AppSession

datatype lifecycle = Running | Waiting | Idle | Failed

datatype phase = Thinking | ToolPhase | Editing | ApprovalPhase | Responding | UnknownPhase

datatype turn_status = TQueued | TRunning | TWaiting | TCompleted | TFailed

datatype attachment_kind = ImageAttachment | FileAttachment

datatype content_state = Available | ExpiredContent | MissingContent

datatype compaction_status = CompactionRunning | CompactionCompleted

datatype subagent_status = PendingInit | SubRunning | Interrupted | Completed | Errored | Shutdown | NotFound

datatype subagent_activity = Started | Interacted | InterruptedActivity

datatype queue_status = Queued | Sending | QueueFailed

datatype permission_mode = Ask | AutoReview | FullAccess

datatype creation_source = FromAppSession | FromAiSession

datatype reasoning_effort = ENone | EMinimal | ELow | EMedium | EHigh | EXhigh | EMax | EUltra

datatype lineage =
    Fork (parentProviderSessionId: string) "string option"
  | Subagent (parentProviderSessionId: string)

datatype source_type = Inline | RuntimePath

section \<open>Text fields\<close>

text \<open>
  \<^verbatim>\<open>TrimmedTextSchema.max(n)\<close> and \<^verbatim>\<open>NonEmptyTrimmedTextSchema.max(n)\<close>: the text is trimmed first, then
  its length is checked.
\<close>

definition trimmed_text :: "nat \<Rightarrow> string \<Rightarrow> string option" where
  "trimmed_text n s = (let t = js_trim s in if length t \<le> n then Some t else None)"

definition nonempty_text :: "nat \<Rightarrow> string \<Rightarrow> string option" where
  "nonempty_text n s = (let t = js_trim s in if t \<noteq> [] \<and> length t \<le> n then Some t else None)"

definition opt_text :: "(string \<Rightarrow> string option) \<Rightarrow> string option \<Rightarrow> string option option" where
  "opt_text p v = (case v of None \<Rightarrow> Some None | Some s \<Rightarrow> map_option Some (p s))"

text \<open>
  \<^verbatim>\<open>z.string().datetime()\<close> without offset: ISO date-times in UTC, with a fraction of any number of
  digits, which are the texts \<open>date_parse\<close> reads.
\<close>

definition datetime_text :: "string \<Rightarrow> bool" where
  "datetime_text s = (date_parse s \<noteq> None)"

definition max_safe_integer :: int where
  "max_safe_integer = 9007199254740991"

section \<open>Attachments and messages\<close>

record conv_attachment =
  ca_id :: string
  ca_kind :: attachment_kind
  ca_name :: string
  ca_mime :: string
  ca_size :: int
  ca_contentState :: "content_state option"

definition conv_attachment_parse :: "conv_attachment \<Rightarrow> conv_attachment option" where
  "conv_attachment_parse a =
     (case (nonempty_text 120 (ca_id a), nonempty_text 240 (ca_name a), nonempty_text 120 (ca_mime a)) of
        (Some i, Some n, Some m) \<Rightarrow>
          if 0 \<le> ca_size a \<and> ca_size a \<le> max_safe_integer
          then Some (a\<lparr>ca_id := i, ca_name := n, ca_mime := m,
                 ca_contentState := Some (case ca_contentState a of None \<Rightarrow> Available | Some st \<Rightarrow> st)\<rparr>)
          else None
      | _ \<Rightarrow> None)"

record user_message =
  um_id :: string
  um_text :: string
  um_attachments :: "conv_attachment list"

record compaction =
  cc_id :: string
  cc_status :: compaction_status
  cc_startedAt :: "string option"
  cc_completedAt :: "string option"

section \<open>Turns\<close>

record ai_turn =
  tn_id :: string
  tn_providerTurnId :: "string option"
  tn_source :: "ai_source option"
  tn_userPrompt :: "string option"
  tn_userMessages :: "user_message list option"
  tn_status :: "turn_status option"
  tn_phase :: "phase option"
  tn_summary :: "string option"
  tn_lastMessage :: "string option"
  tn_lastMessageItemId :: "string option"
  tn_contextCompactions :: "compaction list option"
  tn_revision :: int
  tn_sourcePriority :: "int option"
  tn_snapshotVersion :: "int option"
  tn_observedAt :: "string option"
  tn_startedAt :: "string option"
  tn_updatedAt :: "string option"
  tn_completedAt :: "string option"

section \<open>Tools, sub-agents, queue\<close>

record ai_tool =
  tl_id :: "string option"
  tl_kind :: "string option"
  tl_name :: string
  tl_inputPreview :: "string option"
  tl_startedAt :: "string option"

record sub_agent =
  sa_threadId :: string
  sa_path :: "string option"
  sa_status :: subagent_status
  sa_activity :: "subagent_activity option"
  sa_message :: "string option"
  sa_updatedAt :: string

definition isCurrentAiSessionSubAgent :: "sub_agent \<Rightarrow> bool" where
  "isCurrentAiSessionSubAgent a = (sa_status a \<noteq> Completed)"

definition sub_agent_parse :: "sub_agent \<Rightarrow> sub_agent option" where
  "sub_agent_parse a =
     (case (nonempty_text 240 (sa_threadId a), opt_text (trimmed_text 4096) (sa_path a),
            opt_text (trimmed_text 1000) (sa_message a)) of
        (Some t, Some p, Some m) \<Rightarrow>
          if datetime_text (sa_updatedAt a)
          then Some (a\<lparr>sa_threadId := t, sa_path := p, sa_message := m\<rparr>) else None
      | _ \<Rightarrow> None)"

record attachment_meta =
  am_id :: string
  am_kind :: attachment_kind
  am_name :: string
  am_mime :: string
  am_size :: int
  am_sourceType :: source_type

definition attachment_meta_parse :: "attachment_meta \<Rightarrow> attachment_meta option" where
  "attachment_meta_parse a =
     (case (nonempty_text 120 (am_id a), nonempty_text 240 (am_name a), nonempty_text 120 (am_mime a)) of
        (Some i, Some n, Some m) \<Rightarrow>
          if 0 \<le> am_size a \<and> am_size a \<le> max_safe_integer
          then Some (a\<lparr>am_id := i, am_name := n, am_mime := m\<rparr>) else None
      | _ \<Rightarrow> None)"

datatype reference_kind = SkillRef | AppRef | PluginRef

record ai_reference =
  rf_kind :: reference_kind
  rf_name :: string
  rf_path :: string

text \<open>
  The path checks of \<^verbatim>\<open>AiSessionReferenceSchema\<close>: a skill path is absolute, an app or plugin path is
  its scheme followed by at least one character, none of them white space or a slash. The
  minimum lengths 7 and 10 follow from the patterns.
\<close>

definition scheme_path :: "string \<Rightarrow> string \<Rightarrow> bool" where
  "scheme_path scheme p = (let n = length scheme; rest = drop n p in
     take n p = scheme \<and> rest \<noteq> [] \<and> list_all (\<lambda>c. \<not> js_space c \<and> c \<noteq> CHR ''/'') rest)"

definition reference_parse :: "ai_reference \<Rightarrow> ai_reference option" where
  "reference_parse r =
     (case (nonempty_text 240 (rf_name r), nonempty_text 4096 (rf_path r)) of
        (Some n, Some p) \<Rightarrow>
          if (case rf_kind r of
                SkillRef \<Rightarrow> take 1 p = ''/''
              | AppRef \<Rightarrow> scheme_path ''app://'' p
              | PluginRef \<Rightarrow> scheme_path ''plugin://'' p)
          then Some (r\<lparr>rf_name := n, rf_path := p\<rparr>) else None
      | _ \<Rightarrow> None)"

record queued_message =
  qm_id :: string
  qm_messageId :: "string option"
  qm_message :: string
  qm_attachments :: "attachment_meta list"
  qm_references :: "ai_reference list"
  qm_permissionMode :: "permission_mode option"
  qm_status :: queue_status
  qm_createdAt :: string
  qm_updatedAt :: string
  qm_error :: "string option"

text \<open>\<^verbatim>\<open>AiSessionQueuedMessageSchema.safeParse\<close>; the nested arrays are parsed element by element.\<close>

definition parse_all :: "('a \<Rightarrow> 'a option) \<Rightarrow> 'a list \<Rightarrow> 'a list option" where
  "parse_all p xs = (if list_all (\<lambda>x. p x \<noteq> None) xs then Some (map (the \<circ> p) xs) else None)"

definition queued_message_parse :: "queued_message \<Rightarrow> queued_message option" where
  "queued_message_parse q =
     Option.bind (nonempty_text 120 (qm_id q)) (\<lambda>i.
     Option.bind (opt_text (nonempty_text 240) (qm_messageId q)) (\<lambda>mi.
     Option.bind (nonempty_text 20000 (qm_message q)) (\<lambda>m.
     Option.bind (opt_text (trimmed_text 4000) (qm_error q)) (\<lambda>e.
     Option.bind (parse_all attachment_meta_parse (qm_attachments q)) (\<lambda>atts.
     Option.bind (parse_all reference_parse (qm_references q)) (\<lambda>refs.
       if length atts \<le> 6 \<and> length refs \<le> 20 \<and> datetime_text (qm_createdAt q) \<and> datetime_text (qm_updatedAt q)
       then Some (q\<lparr>qm_id := i, qm_messageId := mi, qm_message := m, qm_error := e,
              qm_attachments := atts, qm_references := refs\<rparr>)
       else None))))))"

record message_queue =
  mq_revision :: int
  mq_pendingCount :: nat
  mq_paused :: "bool option"
  mq_items :: "queued_message list"

section \<open>Sessions\<close>

record ai_actions =
  ac_send :: "bool option"
  ac_interrupt :: "bool option"
  ac_approval :: "bool option"
  ac_fork :: "bool option"
  ac_rename :: "bool option"
  ac_openApp :: "bool option"
  ac_close :: "bool option"

definition no_actions :: ai_actions where
  "no_actions = \<lparr>ac_send = None, ac_interrupt = None, ac_approval = None, ac_fork = None, ac_rename = None,
     ac_openApp = None, ac_close = None\<rparr>"

record model_selection =
  ms_entityId :: string
  ms_name :: string
  ms_upstreamName :: "string option"

definition aiSessionModelSelectionIdentity :: "model_selection \<Rightarrow> string" where
  "aiSessionModelSelectionIdentity sel = str_of (js_or (ms_upstreamName sel) (Some (ms_name sel)))"

definition sameAiSessionModelSelection :: "model_selection \<Rightarrow> model_selection \<Rightarrow> bool" where
  "sameAiSessionModelSelection left right =
     (ms_entityId left = ms_entityId right
      \<and> (aiSessionModelSelectionIdentity left = aiSessionModelSelectionIdentity right
         \<or> ms_name left = ms_name right))"

record ai_counters =
  ct_toolCalls :: int
  ct_edits :: int
  ct_approvals :: int

record ai_session =
  ss_id :: string
  ss_agent :: string
  ss_creationSource :: creation_source
  ss_appSessionId :: "string option"
  ss_appId :: "string option"
  ss_providerSessionId :: "string option"
  ss_lineage :: "lineage option"
  ss_providerMeta :: "json option"
  ss_modelSelection :: "model_selection option"
  ss_reasoningEffort :: "reasoning_effort option"
  ss_storyId :: "string option"
  ss_appBindingKeys :: "string list option"
  ss_actions :: "ai_actions option"
  ss_activeTurnId :: "string option"
  ss_title :: "string option"
  ss_cwd :: "string option"
  ss_cwdFolderId :: "string option"
  ss_userPrompt :: "string option"
  ss_turns :: "ai_turn list option"
  ss_status :: lifecycle
  ss_phase :: phase
  ss_summary :: "string option"
  ss_lastMessage :: "string option"
  ss_lastMessageItemId :: "string option"
  ss_currentTool :: "ai_tool option"
  ss_toolCallsSinceLastMessage :: "int option"
  ss_subAgents :: "sub_agent list"
  ss_transcriptPath :: "string option"
  ss_transcriptSize :: "int option"
  ss_startedAt :: string
  ss_updatedAt :: string
  ss_completedAt :: "string option"
  ss_error :: "string option"
  ss_counters :: ai_counters
  ss_queue :: message_queue
  ss_unread :: bool

text \<open>The parsers are idempotent: what they return, they accept unchanged.\<close>

lemma nonempty_text_Some: "nonempty_text n s = Some t \<longleftrightarrow> t = js_trim s \<and> t \<noteq> [] \<and> length t \<le> n"
  by (auto simp: nonempty_text_def Let_def)

lemma trimmed_text_Some: "trimmed_text n s = Some t \<longleftrightarrow> t = js_trim s \<and> length t \<le> n"
  by (auto simp: trimmed_text_def Let_def)

lemma nonempty_text_idem: "nonempty_text n s = Some t \<Longrightarrow> nonempty_text n t = Some t"
  by (auto simp: nonempty_text_Some)

lemma trimmed_text_idem: "trimmed_text n s = Some t \<Longrightarrow> trimmed_text n t = Some t"
  by (auto simp: trimmed_text_Some)

lemma opt_text_idem:
  "(\<And>s t. p s = Some t \<Longrightarrow> p t = Some t) \<Longrightarrow> opt_text p v = Some w \<Longrightarrow> opt_text p w = Some w"
  by (auto simp: opt_text_def split: option.splits)

lemma conv_attachment_parse_idem:
  "conv_attachment_parse a = Some b \<Longrightarrow> conv_attachment_parse b = Some b"
  by (auto simp: conv_attachment_parse_def nonempty_text_idem split: option.splits if_splits)

lemma attachment_meta_parse_idem:
  "attachment_meta_parse a = Some b \<Longrightarrow> attachment_meta_parse b = Some b"
  by (auto simp: attachment_meta_parse_def nonempty_text_idem split: option.splits if_splits)

lemma reference_parse_idem: "reference_parse a = Some b \<Longrightarrow> reference_parse b = Some b"
  by (auto simp: reference_parse_def nonempty_text_idem split: option.splits if_splits)

lemma sub_agent_parse_idem: "sub_agent_parse a = Some b \<Longrightarrow> sub_agent_parse b = Some b"
  by (auto simp: sub_agent_parse_def nonempty_text_idem
      opt_text_idem[OF trimmed_text_idem] split: option.splits if_splits)

lemma parse_all_idem:
  assumes "\<And>a b. p a = Some b \<Longrightarrow> p b = Some b" and "parse_all p xs = Some ys"
  shows "parse_all p ys = Some ys"
proof -
  from assms(2) have ys: "ys = map (the \<circ> p) xs" and ok: "\<forall>x \<in> set xs. p x \<noteq> None"
    by (auto simp: parse_all_def list_all_iff split: if_splits)
  have "p y = Some y" if "y \<in> set ys" for y
  proof -
    from that ys obtain x where "x \<in> set xs" "y = the (p x)" by auto
    with ok have "p x = Some y" by force
    then show ?thesis by (rule assms(1))
  qed
  then show ?thesis by (auto simp: parse_all_def list_all_iff intro!: map_idI)
qed

lemma length_parse_all: "parse_all p xs = Some ys \<Longrightarrow> length ys = length xs"
  by (auto simp: parse_all_def split: if_splits)

lemma queued_message_parse_idem:
  assumes "queued_message_parse a = Some b"
  shows "queued_message_parse b = Some b"
proof -
  from assms obtain i mi m e atts refs where
    p: "nonempty_text 120 (qm_id a) = Some i" "opt_text (nonempty_text 240) (qm_messageId a) = Some mi"
    "nonempty_text 20000 (qm_message a) = Some m" "opt_text (trimmed_text 4000) (qm_error a) = Some e"
    "parse_all attachment_meta_parse (qm_attachments a) = Some atts" "parse_all reference_parse (qm_references a) = Some refs"
    and ok: "length atts \<le> 6 \<and> length refs \<le> 20 \<and> datetime_text (qm_createdAt a) \<and> datetime_text (qm_updatedAt a)"
    and b: "b = a\<lparr>qm_id := i, qm_messageId := mi, qm_message := m, qm_error := e, qm_attachments := atts, qm_references := refs\<rparr>"
    by (auto simp: queued_message_parse_def bind_eq_Some_conv split: if_splits)
  note idem = nonempty_text_idem[OF p(1)] opt_text_idem[OF nonempty_text_idem p(2)] nonempty_text_idem[OF p(3)]
    opt_text_idem[OF trimmed_text_idem p(4)] parse_all_idem[OF attachment_meta_parse_idem p(5)]
    parse_all_idem[OF reference_parse_idem p(6)]
  from ok show ?thesis by (simp add: queued_message_parse_def b idem)
qed

end
