(* ===== verification/Session_Turns.thy ===== *)
theory Session_Turns
  imports Session_Types "HOL-Library.Sublist"
begin

text \<open>
  The conversation turns of a session (\<^verbatim>\<open>packages/ai-session-runtime/src/ai-session-turns.ts\<close>):
  normalisation of turns read from any producer, the merge of an incoming list of turns into the
  stored one, and \<^verbatim>\<open>updateTurns\<close>, which applies one session patch to the list. The in-place updates of
  a turn object are updates of the list at the turn's index. SHA-1 and the random turn id are
  parameters.
\<close>

section \<open>Texts and priorities\<close>

definition compact :: "string \<Rightarrow> nat \<Rightarrow> string" where
  "compact value limit = (let text = js_trim (collapse_ws value) in
     if length text > limit then take (limit - 3) text @ ''...'' else text)"

definition messageText :: "string \<Rightarrow> string" where
  "messageText value = js_trim value"

fun SOURCE_PRIORITY :: "ai_source \<Rightarrow> int" where
  "SOURCE_PRIORITY Control = 90"
| "SOURCE_PRIORITY Realtime = 80"
| "SOURCE_PRIORITY AdapterSnapshot = 60"
| "SOURCE_PRIORITY TranscriptTail = 50"
| "SOURCE_PRIORITY AppSession = 40"
| "SOURCE_PRIORITY ProcessScan = 30"
| "SOURCE_PRIORITY TranscriptScan = 20"

definition sourcePriority :: "ai_source option \<Rightarrow> int option \<Rightarrow> int" where
  "sourcePriority source override =
     max 0 (min 100 (case override of
        Some n \<Rightarrow> n
      | None \<Rightarrow> (case source of Some s \<Rightarrow> SOURCE_PRIORITY s | None \<Rightarrow> 0)))"

text \<open>The observation metadata of a turn: \<^const>\<open>None\<close> is an absent property.\<close>

record turn_meta =
  tm_source :: "ai_source option"
  tm_sourcePriority :: "int option"
  tm_providerTurnId :: "string option"
  tm_snapshotVersion :: "int option"
  tm_observedAt :: "string option"

definition no_meta :: turn_meta where
  "no_meta = \<lparr>tm_source = None, tm_sourcePriority = None, tm_providerTurnId = None,
     tm_snapshotVersion = None, tm_observedAt = None\<rparr>"

definition turnMeta :: "ai_source option \<Rightarrow> int option \<Rightarrow> string option \<Rightarrow> int option \<Rightarrow> string option \<Rightarrow> turn_meta" where
  "turnMeta source priority providerTurnId snapshotVersion observedAt =
     \<lparr>tm_source = source,
      tm_sourcePriority = (case source of None \<Rightarrow> None | Some s \<Rightarrow> Some (sourcePriority source priority)),
      tm_providerTurnId = (if truthy providerTurnId then Some (compact (str_of providerTurnId) 240) else None),
      tm_snapshotVersion = snapshotVersion,
      tm_observedAt = (if truthy observedAt then observedAt else None)\<rparr>"

section \<open>Normalisation\<close>

definition normalizeIsoTimestamp :: "string option \<Rightarrow> string option" where
  "normalizeIsoTimestamp value =
     (case value of
        None \<Rightarrow> None
      | Some s \<Rightarrow> if js_trim s = [] then None else map_option to_iso (date_parse s))"

definition compaction_step :: "(string, compaction) jmap \<Rightarrow> compaction \<Rightarrow> (string, compaction) jmap" where
  "compaction_step byId record =
     (if js_trim (cc_id record) = [] then byId
      else let cid = compact (cc_id record) 240; previous = jmap_get byId cid in
        jmap_set cid
          \<lparr>cc_id = cid,
           cc_status = (if (case previous of Some p \<Rightarrow> cc_status p = CompactionCompleted | None \<Rightarrow> False)
                           \<or> cc_status record = CompactionCompleted
                        then CompactionCompleted else CompactionRunning),
           cc_startedAt = js_or (normalizeIsoTimestamp (cc_startedAt record)) (Option.bind previous cc_startedAt),
           cc_completedAt = js_or (normalizeIsoTimestamp (cc_completedAt record)) (Option.bind previous cc_completedAt)\<rparr>
          byId)"

definition normalizeContextCompactions :: "compaction list \<Rightarrow> compaction list option" where
  "normalizeContextCompactions value =
     (let values = last_n 20 (jmap_values (foldl compaction_step [] value)) in
      if values = [] then None else Some values)"

definition parse_attachments :: "conv_attachment list \<Rightarrow> conv_attachment list" where
  "parse_attachments as = take 6 (List.map_filter conv_attachment_parse as)"

definition user_message_step :: "(string, user_message) jmap \<Rightarrow> user_message \<Rightarrow> (string, user_message) jmap" where
  "user_message_step messages record =
     (if um_id record = [] then messages
      else let message = \<lparr>um_id = compact (um_id record) 240, um_text = messageText (um_text record),
                 um_attachments = parse_attachments (um_attachments record)\<rparr>
        in jmap_set (um_id message)
             (case jmap_get messages (um_id message) of
                Some existing \<Rightarrow> if length (um_attachments existing) > length (um_attachments message)
                                  then existing else message
              | None \<Rightarrow> message)
             messages)"

definition normalizeUserMessages :: "user_message list \<Rightarrow> user_message list option" where
  "normalizeUserMessages value =
     (let normalized = last_n 100 (jmap_values (foldl user_message_step [] value)) in
      if normalized = [] then None else Some normalized)"

definition opt_list :: "'a list option \<Rightarrow> 'a list" where
  "opt_list v = (case v of None \<Rightarrow> [] | Some xs \<Rightarrow> xs)"

definition mergeUserMessages :: "user_message list option \<Rightarrow> user_message list option \<Rightarrow> user_message list option" where
  "mergeUserMessages current incoming = normalizeUserMessages (opt_list current @ opt_list incoming)"

definition mergeContextCompactions :: "compaction list option \<Rightarrow> compaction list option \<Rightarrow> compaction list option" where
  "mergeContextCompactions current incoming = normalizeContextCompactions (opt_list current @ opt_list incoming)"

text \<open>
  \<^verbatim>\<open>new Map(pairs)\<close> keeps the last pair of a key. An incoming compaction is progress when its id is
  not known yet or when it completes a running one.
\<close>

definition hasContextCompactionProgress :: "ai_turn option \<Rightarrow> ai_turn \<Rightarrow> bool" where
  "hasContextCompactionProgress existing incoming =
     (let currentById = foldl (\<lambda>m item. jmap_set (cc_id item) (cc_status item) m) []
            (opt_list (Option.bind existing tn_contextCompactions))
      in list_ex (\<lambda>item. \<not> jmap_has currentById (cc_id item)
            \<or> jmap_get currentById (cc_id item) = Some CompactionRunning \<and> cc_status item = CompactionCompleted)
           (opt_list (tn_contextCompactions incoming)))"

section \<open>Turn identifiers\<close>

definition slug_char :: "char \<Rightarrow> bool" where
  "slug_char c = (let n = of_char c :: nat in (65 \<le> n \<and> n \<le> 90) \<or> (97 \<le> n \<and> n \<le> 122) \<or> (48 \<le> n \<and> n \<le> 57)
     \<or> c \<in> set ''_.:-'')"

text \<open>\<^verbatim>\<open>text.replace(/[^a-zA-Z0-9_.:-]+/g, "_").replace(/^_+|_+$/g, "")\<close>.\<close>

fun slug_runs :: "string \<Rightarrow> string" where
  "slug_runs [] = []"
| "slug_runs (c # cs) =
     (if slug_char c then c # slug_runs cs
      else case cs of
          [] \<Rightarrow> ''_''
        | d # _ \<Rightarrow> if slug_char d then CHR ''_'' # slug_runs cs else slug_runs cs)"

definition strip_underscores :: "string \<Rightarrow> string" where
  "strip_underscores s = rev (dropWhile (\<lambda>c. c = CHR ''_'') (rev (dropWhile (\<lambda>c. c = CHR ''_'') s)))"

definition stableTurnPart :: "(string \<Rightarrow> string) \<Rightarrow> string \<Rightarrow> string" where
  "stableTurnPart sha1_hex value =
     (let text = compact value 120; slug = strip_underscores (slug_runs text); hash = take 10 (sha1_hex text)
      in if slug \<noteq> [] then slug @ ''_'' @ hash else hash)"

definition stableGeneratedTurnId :: "(string \<Rightarrow> string) \<Rightarrow> string \<Rightarrow> string \<Rightarrow> string" where
  "stableGeneratedTurnId sha1_hex prompt seed =
     ''turn_'' @ stableTurnPart sha1_hex prompt @ ''_'' @ stableTurnPart sha1_hex seed"

fun nat_digits :: "nat \<Rightarrow> string" where
  "nat_digits n = (if n < 10 then [char_of (48 + n)] else nat_digits (n div 10) @ [char_of (48 + n mod 10)])"

declare nat_digits.simps [simp del]

definition transcriptTurnId :: "(string \<Rightarrow> string) \<Rightarrow> string \<Rightarrow> string option \<Rightarrow> nat \<Rightarrow> string" where
  "transcriptTurnId sha1_hex prompt seed occurrence =
     stableGeneratedTurnId sha1_hex prompt
       (str_of (js_or seed (Some (prompt @ '':'' @ nat_digits occurrence))))"

text \<open>
  \<^verbatim>\<open>generatedTurnId()\<close> takes 20 characters of a random UUID; the identifier is a parameter.
  \<^verbatim>\<open>legacyTurnId\<close> names a turn that was stored without id.
\<close>

definition legacyTurnId :: "(string \<Rightarrow> string) \<Rightarrow> ai_turn \<Rightarrow> nat \<Rightarrow> string" where
  "legacyTurnId sha1_hex record index =
     ''turn_legacy_'' @ nat_digits index @ ''_'' @ stableTurnPart sha1_hex
       (str_of (js_or (tn_userPrompt record) (js_or (tn_updatedAt record)
          (js_or (tn_lastMessage record) (tn_summary record)))))"

definition normalize_turn :: "(string \<Rightarrow> string) \<Rightarrow> turn_meta \<Rightarrow> nat \<Rightarrow> ai_turn \<Rightarrow> ai_turn" where
  "normalize_turn sha1_hex meta index record = \<lparr>
     tn_id = (if tn_id record \<noteq> [] then compact (tn_id record) 240 else legacyTurnId sha1_hex record index),
     tn_providerTurnId = (if truthy (tn_providerTurnId record)
        then Some (compact (str_of (tn_providerTurnId record)) 240) else tm_providerTurnId meta),
     tn_source = js_nullish (tn_source record) (tm_source meta),
     tn_userPrompt = (if truthy (tn_userPrompt record) then Some (messageText (str_of (tn_userPrompt record))) else None),
     tn_userMessages = Option.bind (tn_userMessages record) normalizeUserMessages,
     tn_status = js_nullish (tn_status record) (Some TCompleted),
     tn_phase = tn_phase record,
     tn_summary = (if truthy (tn_summary record) then Some (compact (str_of (tn_summary record)) 1000) else None),
     tn_lastMessage = (if truthy (tn_lastMessage record) then Some (messageText (str_of (tn_lastMessage record))) else None),
     tn_lastMessageItemId = (if truthy (tn_lastMessageItemId record)
        then Some (compact (str_of (tn_lastMessageItemId record)) 240) else None),
     tn_contextCompactions = Option.bind (tn_contextCompactions record) normalizeContextCompactions,
     tn_revision = max 0 (tn_revision record),
     tn_sourcePriority = js_nullish (tn_sourcePriority record) (tm_sourcePriority meta),
     tn_snapshotVersion = js_nullish (tn_snapshotVersion record) (tm_snapshotVersion meta),
     tn_observedAt = js_or (tn_observedAt record) (tm_observedAt meta),
     tn_startedAt = tn_startedAt record,
     tn_updatedAt = tn_updatedAt record,
     tn_completedAt = tn_completedAt record\<rparr>"

definition turn_has_body :: "ai_turn \<Rightarrow> bool" where
  "turn_has_body turn = (truthy (tn_userPrompt turn) \<or> opt_list (tn_userMessages turn) \<noteq> []
     \<or> truthy (tn_summary turn) \<or> truthy (tn_lastMessage turn) \<or> opt_list (tn_contextCompactions turn) \<noteq> [])"

definition normalizeTurns :: "(string \<Rightarrow> string) \<Rightarrow> turn_meta \<Rightarrow> ai_turn list option \<Rightarrow> ai_turn list" where
  "normalizeTurns sha1_hex meta values =
     last_n 50 (filter turn_has_body
       (map (\<lambda>(index, record). normalize_turn sha1_hex meta index record)
         (enumerate 0 (opt_list values))))"

section \<open>Properties of compact\<close>

definition ws_normal :: "string \<Rightarrow> bool" where
  "ws_normal s = ((\<forall>c \<in> set s. js_space c \<longrightarrow> c = CHR '' '') \<and> successively (\<lambda>c d. \<not> (js_space c \<and> js_space d)) s)"

lemma js_space_chars [simp]: "js_space CHR '' ''" "\<not> js_space CHR ''.''"
  by (simp_all add: js_space_def)

declare collapse_ws.simps(2) [simp del]

lemma collapse_ws_single: "collapse_ws [c] = (if js_space c then '' '' else [c])"
  by (simp add: collapse_ws.simps)

lemma collapse_ws_Cons:
  "cs \<noteq> [] \<Longrightarrow> collapse_ws (c # cs) =
     (if js_space c then (if js_space (hd cs) then collapse_ws cs else CHR '' '' # collapse_ws cs)
      else c # collapse_ws cs)"
  by (cases cs) (simp_all add: collapse_ws.simps(2)[of c])

lemma collapse_ws_hd: "s \<noteq> [] \<Longrightarrow> \<not> js_space (hd s) \<Longrightarrow> collapse_ws s \<noteq> [] \<and> hd (collapse_ws s) = hd s"
  by (cases s) (simp_all add: collapse_ws.simps(2))

lemma ws_normal_Cons:
  "ws_normal (c # s) \<longleftrightarrow> ws_normal s \<and> (js_space c \<longrightarrow> c = CHR '' '' \<and> (s = [] \<or> \<not> js_space (hd s)))"
  by (cases s) (auto simp: ws_normal_def)

lemma ws_normal_collapse: "ws_normal (collapse_ws s)"
proof (induction s)
  case (Cons c cs)
  show ?case
  proof (cases "cs = []")
    case True
    then show ?thesis by (simp add: collapse_ws_single ws_normal_def)
  next
    case False
    with Cons.IH collapse_ws_hd[of cs] show ?thesis by (auto simp: collapse_ws_Cons ws_normal_Cons)
  qed
qed (simp add: ws_normal_def)

lemma collapse_ws_id: "ws_normal s \<Longrightarrow> collapse_ws s = s"
proof (induction s)
  case (Cons c cs)
  then show ?case by (cases "cs = []") (auto simp: collapse_ws_single collapse_ws_Cons ws_normal_Cons)
qed simp

lemma collapse_ws_all_space: "(\<forall>c \<in> set (collapse_ws s). js_space c) \<longleftrightarrow> (\<forall>c \<in> set s. js_space c)"
proof (induction s)
  case (Cons c cs)
  then show ?case by (cases "cs = []") (auto simp: collapse_ws_single collapse_ws_Cons)
qed simp

lemma ws_normal_append_left: "ws_normal (a @ b) \<Longrightarrow> ws_normal a"
  by (auto simp: ws_normal_def successively_append_iff)

lemma ws_normal_append_right: "ws_normal (a @ b) \<Longrightarrow> ws_normal b"
  by (auto simp: ws_normal_def successively_append_iff)

lemma ws_normal_trim: "ws_normal s \<Longrightarrow> ws_normal (js_trim s)"
proof -
  let ?d = "dropWhile js_space s"
  assume "ws_normal s"
  then have "ws_normal (takeWhile js_space s @ ?d)" by simp
  then have d: "ws_normal ?d" by (rule ws_normal_append_right)
  have "rev (takeWhile js_space (rev ?d) @ dropWhile js_space (rev ?d)) = ?d" by simp
  then have eq: "js_trim s @ rev (takeWhile js_space (rev ?d)) = ?d" by (simp only: js_trim_def rev_append)
  from d have "ws_normal (js_trim s @ rev (takeWhile js_space (rev ?d)))" by (simp only: eq)
  then show ?thesis by (rule ws_normal_append_left)
qed

lemma ws_normal_dots: "ws_normal s \<Longrightarrow> ws_normal (s @ ''...'')"
  by (auto simp: ws_normal_def successively_append_iff)

lemma length_compact:
  assumes "3 \<le> n"
  shows "length (compact v n) \<le> n"
proof (cases "length (js_trim (collapse_ws v)) > n")
  case True
  then have "length (compact v n) = min (length (js_trim (collapse_ws v))) (n - 3) + 3"
    by (simp add: compact_def)
  with assms show ?thesis by simp
qed (simp add: compact_def)

text \<open>A compacted text is trimmed and has no run of white space.\<close>

lemma compact_shape: "ws_normal (compact v n) \<and> js_trim (compact v n) = compact v n"
proof -
  let ?t = "js_trim (collapse_ws v)"
  have t: "ws_normal ?t" by (rule ws_normal_trim[OF ws_normal_collapse])
  show ?thesis
  proof (cases "length ?t > n")
    case True
    let ?u = "take (n - 3) ?t @ ''...''"
    have "ws_normal (take (n - 3) ?t @ drop (n - 3) ?t)" using t by simp
    then have "ws_normal ?u" by (rule ws_normal_dots[OF ws_normal_append_left])
    moreover have "js_trim ?u = ?u"
    proof (rule js_trim_id)
      show "\<not> js_space (hd ?u)"
      proof (cases "take (n - 3) ?t = []")
        case False
        then have "hd (take (n - 3) ?t) = hd ?t" "?t \<noteq> []" by (auto simp: hd_take)
        with js_trim_hd[of "collapse_ws v"] False show ?thesis by simp
      next
        case True
        then show ?thesis by (simp only: append_Nil) simp
      qed
    qed simp
    moreover have "compact v n = ?u" using True by (simp add: compact_def)
    ultimately show ?thesis by simp
  next
    case False
    then have "compact v n = ?t" by (simp add: compact_def)
    with t show ?thesis by simp
  qed
qed

lemma compact_id: "ws_normal u \<Longrightarrow> js_trim u = u \<Longrightarrow> length u \<le> n \<Longrightarrow> compact u n = u"
  by (simp add: compact_def collapse_ws_id)

lemma compact_idem [simp]: "3 \<le> n \<Longrightarrow> compact (compact v n) n = compact v n"
  using compact_shape length_compact by (intro compact_id) simp_all

lemma js_trim_Nil_iff: "js_trim s = [] \<longleftrightarrow> (\<forall>c \<in> set s. js_space c)"
proof -
  have "js_trim s = [] \<longleftrightarrow> dropWhile js_space (rev (dropWhile js_space s)) = []" by (simp add: js_trim_def)
  also have "\<dots> \<longleftrightarrow> (\<forall>c \<in> set (dropWhile js_space s). js_space c)" by (simp only: dropWhile_eq_Nil_conv set_rev)
  also have "\<dots> \<longleftrightarrow> dropWhile js_space s = []"
    using hd_dropWhile[of js_space s] by (metis empty_iff hd_in_set list.set(1))
  also have "\<dots> \<longleftrightarrow> (\<forall>c \<in> set s. js_space c)" by (rule dropWhile_eq_Nil_conv)
  finally show ?thesis .
qed

lemma compact_Nil: "3 \<le> n \<Longrightarrow> compact s n = [] \<longleftrightarrow> js_trim s = []"
  using js_trim_Nil_iff[of "collapse_ws s"] js_trim_Nil_iff[of s] collapse_ws_all_space[of s]
  by (auto simp: compact_def Let_def)

section \<open>Normalisation is idempotent\<close>

lemma to_iso_nonblank: "js_trim (to_iso t) \<noteq> []"
proof -
  have "CHR ''T'' \<in> set (to_iso t)" by (simp add: to_iso_def iso_time_def)
  then show ?thesis unfolding js_trim_Nil_iff by (force simp: js_space_def)
qed

lemma normalizeIsoTimestamp_idem [simp]:
  "normalizeIsoTimestamp (normalizeIsoTimestamp v) = normalizeIsoTimestamp v"
  by (auto simp: normalizeIsoTimestamp_def to_iso_nonblank date_parse_iso split: option.splits)

lemma iso_js_or: "normalizeIsoTimestamp v = v \<Longrightarrow> js_or v None = v"
  by (cases v) (auto simp: normalizeIsoTimestamp_def js_or_def split: if_splits)

definition compaction_clean :: "compaction \<Rightarrow> bool" where
  "compaction_clean c = (js_trim (cc_id c) \<noteq> [] \<and> compact (cc_id c) 240 = cc_id c
     \<and> normalizeIsoTimestamp (cc_startedAt c) = cc_startedAt c
     \<and> normalizeIsoTimestamp (cc_completedAt c) = cc_completedAt c)"

lemma iso_js_or_norm:
  "normalizeIsoTimestamp b = b \<Longrightarrow> normalizeIsoTimestamp (js_or (normalizeIsoTimestamp a) b) = js_or (normalizeIsoTimestamp a) b"
  by (simp add: js_or_def)

lemma compaction_step_new:
  assumes "js_trim (cc_id x) \<noteq> []" and "jmap_ok m" and "\<forall>(k, v) \<in> set m. cc_id v = k \<and> compaction_clean v"
  shows "\<exists>v. compaction_step m x = jmap_set (cc_id v) v m \<and> compaction_clean v"
proof -
  let ?cid = "compact (cc_id x) 240"
  let ?v = "\<lparr>cc_id = ?cid,
      cc_status = (if (case jmap_get m ?cid of Some p \<Rightarrow> cc_status p = CompactionCompleted | None \<Rightarrow> False)
                       \<or> cc_status x = CompactionCompleted then CompactionCompleted else CompactionRunning),
      cc_startedAt = js_or (normalizeIsoTimestamp (cc_startedAt x)) (Option.bind (jmap_get m ?cid) cc_startedAt),
      cc_completedAt = js_or (normalizeIsoTimestamp (cc_completedAt x)) (Option.bind (jmap_get m ?cid) cc_completedAt)\<rparr>"
  have prev: "normalizeIsoTimestamp (Option.bind (jmap_get m ?cid) f) = Option.bind (jmap_get m ?cid) f"
    if "f = cc_startedAt \<or> f = cc_completedAt" for f
    using assms(3) that jmap_get_in[of m ?cid]
    by (cases "jmap_get m ?cid") (auto simp: compaction_clean_def normalizeIsoTimestamp_def)
  have "compaction_clean ?v"
    using assms(1) by (simp add: compaction_clean_def compact_shape compact_Nil iso_js_or_norm prev)
  moreover have "compaction_step m x = jmap_set (cc_id ?v) ?v m"
    using assms(1) by (simp add: compaction_step_def Let_def)
  ultimately show ?thesis by blast
qed

interpretation cc: keyed_fold cc_id compaction_step compaction_clean "\<lambda>_. True"
proof
  fix x :: compaction and m :: "(string, compaction) jmap"
  assume x: "compaction_clean x" "cc_id x \<notin> set (jmap_keys m)"
  then have "jmap_get m (cc_id x) = None" by (simp add: jmap_get_None)
  moreover have "(if cc_status x = CompactionCompleted then CompactionCompleted else CompactionRunning) = cc_status x"
    by (cases "cc_status x") simp_all
  ultimately show "compaction_step m x = m @ [(cc_id x, x)]"
    using x by (simp add: compaction_clean_def compaction_step_def Let_def jmap_set_new iso_js_or)
next
  fix x :: compaction and m :: "(string, compaction) jmap"
  assume m: "jmap_ok m \<and> (\<forall>(k, v) \<in> set m. cc_id v = k \<and> compaction_clean v)"
  show "jmap_ok (compaction_step m x) \<and> (\<forall>(k, v) \<in> set (compaction_step m x). cc_id v = k \<and> compaction_clean v)"
  proof (cases "js_trim (cc_id x) = []")
    case True
    with m show ?thesis by (simp add: compaction_step_def)
  next
    case False
    from compaction_step_new[OF False] m obtain v where "compaction_step m x = jmap_set (cc_id v) v m" "compaction_clean v"
      by blast
    with m show ?thesis by (auto simp: jm.ok_put set_jmap_set)
  qed
qed

definition user_message_clean :: "user_message \<Rightarrow> bool" where
  "user_message_clean m = (js_trim (um_id m) \<noteq> [] \<and> compact (um_id m) 240 = um_id m
     \<and> js_trim (um_text m) = um_text m \<and> parse_attachments (um_attachments m) = um_attachments m)"

text \<open>\<^verbatim>\<open>NonEmptyTrimmedTextSchema\<close>: a message id that came through the schema is not blank.\<close>

definition user_message_valid :: "user_message \<Rightarrow> bool" where
  "user_message_valid m = (js_trim (um_id m) \<noteq> [])"

lemma map_filter_fixed: "(\<And>x. x \<in> set xs \<Longrightarrow> f x = Some x) \<Longrightarrow> List.map_filter f xs = xs"
  by (induction xs) (simp_all add: List.map_filter_simps)

lemma parse_attachments_idem [simp]: "parse_attachments (parse_attachments as) = parse_attachments as"
proof -
  have "conv_attachment_parse a = Some a" if "a \<in> set (parse_attachments as)" for a
  proof -
    have "a \<in> set (List.map_filter conv_attachment_parse as)"
      using that unfolding parse_attachments_def by (rule in_set_takeD)
    then obtain b where "conv_attachment_parse b = Some a" by (auto simp: List.map_filter_def)
    then show ?thesis by (rule conv_attachment_parse_idem)
  qed
  then have "List.map_filter conv_attachment_parse (parse_attachments as) = parse_attachments as"
    by (rule map_filter_fixed)
  moreover have "length (parse_attachments as) \<le> 6" by (simp add: parse_attachments_def)
  ultimately show ?thesis unfolding parse_attachments_def[of "parse_attachments as"] by simp
qed

interpretation um: keyed_fold um_id user_message_step user_message_clean user_message_valid
proof
  fix x :: user_message and m :: "(string, user_message) jmap"
  assume x: "user_message_clean x" "um_id x \<notin> set (jmap_keys m)"
  then have "jmap_get m (um_id x) = None" "um_id x \<noteq> []" by (auto simp: jmap_get_None user_message_clean_def)
  with x show "user_message_step m x = m @ [(um_id x, x)]"
    by (simp add: user_message_clean_def user_message_step_def Let_def jmap_set_new messageText_def)
next
  fix x :: user_message and m :: "(string, user_message) jmap"
  assume v: "user_message_valid x" and m: "jmap_ok m \<and> (\<forall>(k, v) \<in> set m. um_id v = k \<and> user_message_clean v)"
  let ?x = "\<lparr>um_id = compact (um_id x) 240, um_text = messageText (um_text x),
      um_attachments = parse_attachments (um_attachments x)\<rparr>"
  have c: "user_message_clean ?x"
    using v by (simp add: user_message_clean_def user_message_valid_def compact_shape compact_Nil messageText_def)
  define w where "w = (case jmap_get m (um_id ?x) of
      Some e \<Rightarrow> if length (um_attachments e) > length (um_attachments ?x) then e else ?x | None \<Rightarrow> ?x)"
  have w: "user_message_clean w \<and> um_id w = um_id ?x"
    using c m jmap_get_in[of m "um_id ?x"] by (auto simp: w_def split: option.splits)
  have "um_id x \<noteq> []" using v by (auto simp: user_message_valid_def)
  then have "user_message_step m x = jmap_set (um_id ?x) w m"
    by (simp add: user_message_step_def Let_def w_def)
  with w m show "jmap_ok (user_message_step m x) \<and> (\<forall>(k, v) \<in> set (user_message_step m x). um_id v = k \<and> user_message_clean v)"
    by (auto simp: jm.ok_put set_jmap_set)
qed

lemma normalizeContextCompactions_idem:
  "normalizeContextCompactions xs = Some ys \<Longrightarrow> normalizeContextCompactions ys = Some ys"
  using cc.collect_idem[of xs 20]
  by (auto simp: normalizeContextCompactions_def Let_def list_all_iff last_n_id split: if_splits)

lemma normalizeUserMessages_idem:
  "list_all user_message_valid xs \<Longrightarrow> normalizeUserMessages xs = Some ys \<Longrightarrow> normalizeUserMessages ys = Some ys"
  using um.collect_idem[of xs 100]
  by (auto simp: normalizeUserMessages_def Let_def last_n_id split: if_splits)

text \<open>
  What \<^verbatim>\<open>AiSessionTurnSchema\<close> guarantees of the text fields of a turn: identifiers are not blank and
  the other texts are trimmed.
\<close>

definition trimmed_opt :: "string option \<Rightarrow> bool" where
  "trimmed_opt v = (case v of None \<Rightarrow> True | Some s \<Rightarrow> js_trim s = s)"

definition turn_valid :: "ai_turn \<Rightarrow> bool" where
  "turn_valid t = (js_trim (tn_id t) \<noteq> [] \<and> trimmed_opt (tn_providerTurnId t) \<and> trimmed_opt (tn_userPrompt t)
     \<and> trimmed_opt (tn_summary t) \<and> trimmed_opt (tn_lastMessage t) \<and> trimmed_opt (tn_lastMessageItemId t)
     \<and> list_all user_message_valid (opt_list (tn_userMessages t)))"

definition text_norm :: "(string \<Rightarrow> string) \<Rightarrow> string option \<Rightarrow> string option" where
  "text_norm f v = (if truthy v then Some (f (str_of v)) else None)"

lemma text_norm_idem:
  assumes "\<And>s. s \<noteq> [] \<Longrightarrow> js_trim s = s \<Longrightarrow> f s \<noteq> [] \<and> f (f s) = f s" and "trimmed_opt v"
  shows "text_norm f (text_norm f v) = text_norm f v"
  using assms by (cases v) (auto simp: text_norm_def trimmed_opt_def)

lemma text_norm_compact: "3 \<le> n \<Longrightarrow> trimmed_opt v \<Longrightarrow> text_norm (\<lambda>s. compact s n) (text_norm (\<lambda>s. compact s n) v) = text_norm (\<lambda>s. compact s n) v"
  by (rule text_norm_idem) (auto simp: compact_Nil)

lemma text_norm_message: "trimmed_opt v \<Longrightarrow> text_norm messageText (text_norm messageText v) = text_norm messageText v"
  by (rule text_norm_idem) (auto simp: messageText_def)

lemma normalize_turn_alt:
  "normalize_turn sha no_meta i t = \<lparr>
     tn_id = (if tn_id t \<noteq> [] then compact (tn_id t) 240 else legacyTurnId sha t i),
     tn_providerTurnId = text_norm (\<lambda>s. compact s 240) (tn_providerTurnId t),
     tn_source = tn_source t, tn_userPrompt = text_norm messageText (tn_userPrompt t),
     tn_userMessages = Option.bind (tn_userMessages t) normalizeUserMessages,
     tn_status = js_nullish (tn_status t) (Some TCompleted), tn_phase = tn_phase t,
     tn_summary = text_norm (\<lambda>s. compact s 1000) (tn_summary t),
     tn_lastMessage = text_norm messageText (tn_lastMessage t),
     tn_lastMessageItemId = text_norm (\<lambda>s. compact s 240) (tn_lastMessageItemId t),
     tn_contextCompactions = Option.bind (tn_contextCompactions t) normalizeContextCompactions,
     tn_revision = max 0 (tn_revision t), tn_sourcePriority = tn_sourcePriority t,
     tn_snapshotVersion = tn_snapshotVersion t, tn_observedAt = js_or (tn_observedAt t) None,
     tn_startedAt = tn_startedAt t, tn_updatedAt = tn_updatedAt t, tn_completedAt = tn_completedAt t\<rparr>"
  by (simp add: normalize_turn_def no_meta_def text_norm_def js_nullish_def split: option.splits)

lemma js_or_idem: "js_or (js_or v None) None = js_or v None"
  by (cases v) (auto simp: js_or_def)

lemma js_nullish_idem: "js_nullish (js_nullish v (Some x)) (Some y) = js_nullish v (Some x)"
  by (cases v) simp_all

lemma bind_user_messages_idem:
  "list_all user_message_valid (opt_list v) \<Longrightarrow>
     Option.bind (Option.bind v normalizeUserMessages) normalizeUserMessages = Option.bind v normalizeUserMessages"
  by (cases v; cases "normalizeUserMessages (opt_list v)") (auto simp: opt_list_def normalizeUserMessages_idem)

lemma bind_compactions_idem:
  "Option.bind (Option.bind v normalizeContextCompactions) normalizeContextCompactions = Option.bind v normalizeContextCompactions"
  by (cases v; cases "normalizeContextCompactions (opt_list v)")
     (auto simp: opt_list_def normalizeContextCompactions_idem)

lemma normalize_turn_idem:
  assumes "turn_valid t"
  shows "normalize_turn sha no_meta j (normalize_turn sha no_meta i t) = normalize_turn sha no_meta i t"
proof -
  have ids: "tn_id t \<noteq> []" "compact (tn_id t) 240 \<noteq> []"
    using assms by (auto simp: turn_valid_def compact_Nil)
  show ?thesis
    using assms ids unfolding turn_valid_def normalize_turn_alt
    by (simp add: text_norm_compact text_norm_message js_or_idem js_nullish_idem bind_user_messages_idem bind_compactions_idem
        del: Option.bind_assoc)
qed

definition turn_fixed :: "(string \<Rightarrow> string) \<Rightarrow> ai_turn \<Rightarrow> bool" where
  "turn_fixed sha t = ((\<forall>i. normalize_turn sha no_meta i t = t) \<and> turn_has_body t)"

lemma normalizeTurns_fixed:
  assumes "list_all (turn_fixed sha) ts"
  shows "normalizeTurns sha no_meta (Some ts) = last_n 50 ts"
proof -
  have "map (\<lambda>(i, r). normalize_turn sha no_meta i r) (enumerate n ts) = ts" for n
    using assms by (induction ts arbitrary: n) (auto simp: turn_fixed_def)
  moreover have "filter turn_has_body ts = ts"
    using assms by (auto simp: filter_id_conv turn_fixed_def list_all_iff)
  ultimately show ?thesis by (simp add: normalizeTurns_def opt_list_def)
qed

lemma normalizeTurns_all_fixed:
  assumes "list_all turn_valid (opt_list ts)"
  shows "list_all (turn_fixed sha) (normalizeTurns sha no_meta ts)"
  unfolding list_all_iff
proof
  fix t
  assume "t \<in> set (normalizeTurns sha no_meta ts)"
  then have "t \<in> set (filter turn_has_body (map (\<lambda>(i, r). normalize_turn sha no_meta i r) (enumerate 0 (opt_list ts))))"
    using set_last_n by (fastforce simp: normalizeTurns_def)
  then obtain i r where t: "t = normalize_turn sha no_meta i r" "r \<in> set (opt_list ts)" "turn_has_body t"
    by (auto simp: in_set_enumerate_eq)
  from t(2) assms have "turn_valid r" by (auto simp: list_all_iff)
  from normalize_turn_idem[OF this] t show "turn_fixed sha t" by (simp add: turn_fixed_def)
qed

lemma length_normalizeTurns: "length (normalizeTurns sha meta ts) \<le> 50"
  by (simp add: normalizeTurns_def)

text \<open>
  Normalising the turns of a session is idempotent: for turns whose texts came through
  the protocol schema, normalising the normalised list again returns it unchanged, it has at most
  50 turns, and each of them has a prompt, a message, a summary, a response or a context
  compaction. So reading a stored session back never changes it again.
\<close>

theorem normalize_turns_idempotent:
  assumes "list_all turn_valid (opt_list ts)"
  shows "normalizeTurns sha1_hex no_meta (Some (normalizeTurns sha1_hex no_meta ts)) = normalizeTurns sha1_hex no_meta ts
    \<and> length (normalizeTurns sha1_hex no_meta ts) \<le> 50
    \<and> list_all turn_has_body (normalizeTurns sha1_hex no_meta ts)"
  using normalizeTurns_fixed[OF normalizeTurns_all_fixed[OF assms, of sha1_hex]]
    normalizeTurns_all_fixed[OF assms, of sha1_hex] length_normalizeTurns[of sha1_hex no_meta ts]
  by (auto simp: last_n_id list_all_iff turn_fixed_def)

definition blank_turn :: ai_turn where
  "blank_turn = \<lparr>tn_id = [], tn_providerTurnId = None, tn_source = None, tn_userPrompt = None, tn_userMessages = None,
     tn_status = None, tn_phase = None, tn_summary = None, tn_lastMessage = None, tn_lastMessageItemId = None,
     tn_contextCompactions = None, tn_revision = 0, tn_sourcePriority = None, tn_snapshotVersion = None,
     tn_observedAt = None, tn_startedAt = None, tn_updatedAt = None, tn_completedAt = None\<rparr>"

theorem normalize_turns_idempotent_witness:
  "normalizeTurns (\<lambda>_. ''h'') no_meta (Some (normalizeTurns (\<lambda>_. ''h'') no_meta
      (Some [blank_turn\<lparr>tn_id := ''t1'', tn_userPrompt := Some ''hello''\<rparr>])))
   = normalizeTurns (\<lambda>_. ''h'') no_meta (Some [blank_turn\<lparr>tn_id := ''t1'', tn_userPrompt := Some ''hello''\<rparr>])"
  using normalize_turns_idempotent[of "Some [blank_turn\<lparr>tn_id := ''t1'', tn_userPrompt := Some ''hello''\<rparr>]" "\<lambda>_. ''h''"]
  by (simp add: opt_list_def turn_valid_def trimmed_opt_def blank_turn_def js_trim_def js_space_def)

section \<open>Merging an incoming list of turns\<close>

text \<open>\<^verbatim>\<open>Date.parse(turn.observedAt || turn.updatedAt || "")\<close>; a comparison with NaN is false.\<close>

definition turn_time :: "ai_turn \<Rightarrow> int option" where
  "turn_time t = date_parse (str_of (js_or (tn_observedAt t) (tn_updatedAt t)))"

definition turnHasResponse :: "ai_turn \<Rightarrow> bool" where
  "turnHasResponse turn = (truthy (tn_lastMessage turn) \<or> truthy (tn_summary turn))"

definition snapshot_of :: "ai_turn \<Rightarrow> int" where
  "snapshot_of t = (case tn_snapshotVersion t of None \<Rightarrow> 0 | Some n \<Rightarrow> n)"

definition shouldAcceptIncomingTurn :: "ai_turn option \<Rightarrow> ai_turn \<Rightarrow> bool" where
  "shouldAcceptIncomingTurn existing incoming =
     (case existing of
        None \<Rightarrow> True
      | Some e \<Rightarrow>
          if hasContextCompactionProgress existing incoming then True
          else let existingPriority = sourcePriority (tn_source e) (tn_sourcePriority e);
                   incomingPriority = sourcePriority (tn_source incoming) (tn_sourcePriority incoming) in
            if incomingPriority \<noteq> existingPriority
            then incomingPriority > existingPriority \<or> turnHasResponse incoming \<and> \<not> turnHasResponse e
            else if snapshot_of incoming \<noteq> snapshot_of e then snapshot_of incoming > snapshot_of e
            else tn_revision incoming \<ge> tn_revision e
              \<or> (case (turn_time incoming, turn_time e) of (Some a, Some b) \<Rightarrow> a \<ge> b | _ \<Rightarrow> False))"

text \<open>
  \<^verbatim>\<open>{ ...existing, ...mergeTurnPatch(existing, turn) }\<close>: the defined fields of the incoming turn win,
  messages and compactions are merged, and the clocks stay when neither response nor state differ.
  \<^verbatim>\<open>JSON.stringify\<close> compares lists whose objects were built with the same keys in the same order.
\<close>

definition merge_turn_patch :: "ai_turn option \<Rightarrow> ai_turn \<Rightarrow> ai_turn" where
  "merge_turn_patch existing turn =
     (let compactions = mergeContextCompactions (Option.bind existing tn_contextCompactions) (tn_contextCompactions turn);
          messages = mergeUserMessages (Option.bind existing tn_userMessages) (tn_userMessages turn)
      in case existing of
           None \<Rightarrow> turn\<lparr>tn_contextCompactions := compactions, tn_userMessages := messages\<rparr>
         | Some e \<Rightarrow>
             let sameResponse = (tn_userPrompt e = js_nullish (tn_userPrompt turn) (tn_userPrompt e)
                    \<and> tn_summary e = js_nullish (tn_summary turn) (tn_summary e)
                    \<and> tn_lastMessage e = js_nullish (tn_lastMessage turn) (tn_lastMessage e)
                    \<and> tn_lastMessageItemId e = js_nullish (tn_lastMessageItemId turn) (tn_lastMessageItemId e)
                    \<and> opt_list (tn_userMessages e) = opt_list messages
                    \<and> opt_list (tn_contextCompactions e) = opt_list compactions);
                 sameState = (tn_status e = js_nullish (tn_status turn) (tn_status e)
                    \<and> tn_phase e = js_nullish (tn_phase turn) (tn_phase e));
                 keep = sameResponse \<and> sameState
             in \<lparr>tn_id = tn_id turn,
                 tn_providerTurnId = js_nullish (tn_providerTurnId turn) (tn_providerTurnId e),
                 tn_source = js_nullish (tn_source turn) (tn_source e),
                 tn_userPrompt = js_nullish (tn_userPrompt turn) (tn_userPrompt e),
                 tn_userMessages = messages,
                 tn_status = js_nullish (tn_status turn) (tn_status e),
                 tn_phase = js_nullish (tn_phase turn) (tn_phase e),
                 tn_summary = js_nullish (tn_summary turn) (tn_summary e),
                 tn_lastMessage = js_nullish (tn_lastMessage turn) (tn_lastMessage e),
                 tn_lastMessageItemId = js_nullish (tn_lastMessageItemId turn) (tn_lastMessageItemId e),
                 tn_contextCompactions = compactions,
                 tn_revision = tn_revision turn,
                 tn_sourcePriority = js_nullish (tn_sourcePriority turn) (tn_sourcePriority e),
                 tn_snapshotVersion = js_nullish (tn_snapshotVersion turn) (tn_snapshotVersion e),
                 tn_observedAt = (if keep then tn_observedAt e else js_nullish (tn_observedAt turn) (tn_observedAt e)),
                 tn_startedAt = js_nullish (tn_startedAt turn) (tn_startedAt e),
                 tn_updatedAt = (if keep then tn_updatedAt e else js_nullish (tn_updatedAt turn) (tn_updatedAt e)),
                 tn_completedAt = (if keep then tn_completedAt e else js_nullish (tn_completedAt turn) (tn_completedAt e))\<rparr>)"

text \<open>The identities of a turn, given by its id and provider id.\<close>

definition turnIdentities :: "string \<times> string option \<Rightarrow> string list" where
  "turnIdentities t = js_uniq (filter (\<lambda>x. x \<noteq> []) (fst t # (case snd t of None \<Rightarrow> [] | Some p \<Rightarrow> [p])))"

definition turn_ident :: "ai_turn \<Rightarrow> string \<times> string option" where
  "turn_ident t = (tn_id t, tn_providerTurnId t)"

definition sharesTurnIdentity :: "string \<times> string option \<Rightarrow> string \<times> string option \<Rightarrow> bool" where
  "sharesTurnIdentity left right = list_ex (\<lambda>identity. identity \<in> set (turnIdentities left)) (turnIdentities right)"

definition hasKnownTurnIdentity :: "ai_turn list \<Rightarrow> string \<times> string option \<Rightarrow> bool" where
  "hasKnownTurnIdentity turns turn = list_ex (\<lambda>entry. sharesTurnIdentity (turn_ident entry) turn) turns"

definition findTurnIndex :: "ai_turn list \<Rightarrow> string \<times> string option \<Rightarrow> nat option" where
  "findTurnIndex turns turn = find_index (\<lambda>entry. sharesTurnIdentity (turn_ident entry) turn) turns"

text \<open>\<^verbatim>\<open>merged.splice(i, 0, turn)\<close>.\<close>

definition insert_at :: "nat \<Rightarrow> 'a \<Rightarrow> 'a list \<Rightarrow> 'a list" where
  "insert_at i x xs = take i xs @ x # drop i xs"

definition index_of_id :: "ai_turn list \<Rightarrow> string \<Rightarrow> nat option" where
  "index_of_id turns i = find_index (\<lambda>entry. tn_id entry = i) turns"

definition insertTurn :: "ai_turn list \<Rightarrow> nat \<Rightarrow> ai_turn \<Rightarrow> ai_turn list \<Rightarrow> ai_turn list" where
  "insertTurn incomingTurns incomingIndex turn merged =
     (let known = (\<lambda>entry. index_of_id merged (tn_id entry) \<noteq> None) in
      case List.find known (rev (take incomingIndex incomingTurns)) of
        Some previousKnown \<Rightarrow> insert_at (Suc (the (index_of_id merged (tn_id previousKnown)))) turn merged
      | None \<Rightarrow>
          (case List.find known (drop (Suc incomingIndex) incomingTurns) of
             Some nextKnown \<Rightarrow> insert_at (the (index_of_id merged (tn_id nextKnown))) turn merged
           | None \<Rightarrow> merged @ [turn]))"

text \<open>A stored turn that still waits for its response, which the incoming turn may carry.\<close>

definition pairs_by_prompt :: "ai_turn list \<Rightarrow> ai_turn \<Rightarrow> ai_turn \<Rightarrow> bool" where
  "pairs_by_prompt incomingTurns turn existing =
     (tn_id existing \<noteq> tn_id turn \<and> truthy (tn_userPrompt existing) \<and> tn_userPrompt existing = tn_userPrompt turn
      \<and> \<not> turnHasResponse existing \<and> turnHasResponse turn
      \<and> \<not> hasKnownTurnIdentity incomingTurns (turn_ident existing))"

definition merge_pending :: "ai_turn \<Rightarrow> ai_turn \<Rightarrow> ai_turn" where
  "merge_pending existing turn =
     (merge_turn_patch (Some existing) turn)\<lparr>tn_id := tn_id existing,
        tn_providerTurnId := js_or (tn_providerTurnId turn) (Some (tn_id turn)),
        tn_revision := max (tn_revision existing) (tn_revision turn)\<rparr>"

definition merge_known :: "ai_turn option \<Rightarrow> ai_turn \<Rightarrow> ai_turn" where
  "merge_known existing turn =
     (merge_turn_patch existing turn)\<lparr>
        tn_id := (case existing of Some e \<Rightarrow> tn_id e | None \<Rightarrow> tn_id turn),
        tn_revision := max (case existing of Some e \<Rightarrow> tn_revision e | None \<Rightarrow> 0) (tn_revision turn)\<rparr>"

definition merge_step :: "ai_turn list \<Rightarrow> ai_turn list \<Rightarrow> nat \<times> ai_turn \<Rightarrow> ai_turn list" where
  "merge_step incomingTurns merged it =
     (let incomingIndex = fst it; turn = snd it in
      case (if hasKnownTurnIdentity merged (turn_ident turn) then None
            else find_index (pairs_by_prompt incomingTurns turn) merged) of
        Some index \<Rightarrow>
          (let existing = merged ! index; updated = merge_pending existing turn in
           if shouldAcceptIncomingTurn (Some existing) updated then merged[index := updated] else merged)
      | None \<Rightarrow>
          (case findTurnIndex merged (turn_ident turn) of
             Some existingIndex \<Rightarrow>
               (if shouldAcceptIncomingTurn (Some (merged ! existingIndex)) turn
                then merged[existingIndex := merge_known (Some (merged ! existingIndex)) turn] else merged)
           | None \<Rightarrow> insertTurn incomingTurns incomingIndex (merge_known None turn) merged))"

definition merge_all :: "ai_turn list \<Rightarrow> ai_turn list \<Rightarrow> ai_turn list" where
  "merge_all incomingTurns baseline = foldl (merge_step incomingTurns) baseline (enumerate 0 incomingTurns)"

text \<open>\<^verbatim>\<open>mergeTurns\<close> returns the merged turns, cut to the last 50, and the baseline.\<close>

definition mergeTurns :: "(string \<Rightarrow> string) \<Rightarrow> ai_turn list option \<Rightarrow> ai_turn list option \<Rightarrow> turn_meta
    \<Rightarrow> ai_turn list \<times> ai_turn list" where
  "mergeTurns sha1_hex current next meta =
     (let baseline = normalizeTurns sha1_hex no_meta current;
          incomingTurns = normalizeTurns sha1_hex meta next
      in (last_n 50 (merge_all incomingTurns baseline), baseline))"

section \<open>What a merge keeps\<close>

lemma set_turnIdentities: "set (turnIdentities (i, p)) = ({i} \<union> set_option p) - {[]}"
  by (auto simp: turnIdentities_def split: option.splits)

lemma shares_iff: "sharesTurnIdentity a b \<longleftrightarrow> set (turnIdentities a) \<inter> set (turnIdentities b) \<noteq> {}"
  by (auto simp: sharesTurnIdentity_def list_ex_iff)

lemma same_id_shares: "tn_id a = tn_id b \<Longrightarrow> tn_id a \<noteq> [] \<Longrightarrow> sharesTurnIdentity (turn_ident a) (turn_ident b)"
  by (auto simp: shares_iff set_turnIdentities turn_ident_def)

lemma insertTurn_shape: "\<exists>i. insertTurn inc n t m = insert_at i t m"
proof -
  have "m @ [t] = insert_at (length m) t m" by (simp add: insert_at_def)
  then show ?thesis by (auto simp: insertTurn_def Let_def split: option.splits)
qed

text \<open>
  One step of the merge either leaves the list, replaces one turn by one with the same id and no
  smaller revision, or inserts a turn whose identity was unknown.
\<close>

lemma merge_step_cases:
  obtains (same) "merge_step inc m it = m"
  | (replace) i u where "i < length m" "merge_step inc m it = m[i := u]" "tn_id u = tn_id (m ! i)"
      "tn_revision (m ! i) \<le> tn_revision u"
  | (insert) i where "merge_step inc m it = insert_at i (merge_known None (snd it)) m"
      "\<not> hasKnownTurnIdentity m (turn_ident (snd it))"
proof (cases "if hasKnownTurnIdentity m (turn_ident (snd it)) then None else find_index (pairs_by_prompt inc (snd it)) m")
  case (Some i)
  then have i: "i < length m" by (auto dest: find_index_Some split: if_splits)
  let ?u = "merge_pending (m ! i) (snd it)"
  have "merge_step inc m it = (if shouldAcceptIncomingTurn (Some (m ! i)) ?u then m[i := ?u] else m)"
    using Some by (simp add: merge_step_def Let_def)
  moreover have "tn_id ?u = tn_id (m ! i)" "tn_revision (m ! i) \<le> tn_revision ?u"
    by (simp_all add: merge_pending_def)
  ultimately show ?thesis using i same replace by (auto split: if_splits)
next
  case None
  note pn = None
  show ?thesis
  proof (cases "findTurnIndex m (turn_ident (snd it))")
    case (Some i)
    then have i: "i < length m" by (auto simp: findTurnIndex_def dest: find_index_Some)
    let ?u = "merge_known (Some (m ! i)) (snd it)"
    have "merge_step inc m it = (if shouldAcceptIncomingTurn (Some (m ! i)) (snd it) then m[i := ?u] else m)"
      using pn Some by (simp add: merge_step_def Let_def)
    moreover have "tn_id ?u = tn_id (m ! i)" "tn_revision (m ! i) \<le> tn_revision ?u"
      by (simp_all add: merge_known_def)
    ultimately show ?thesis using i same replace by (auto split: if_splits)
  next
    case None
    then have "\<not> hasKnownTurnIdentity m (turn_ident (snd it))"
      by (simp add: findTurnIndex_def hasKnownTurnIdentity_def list_ex_iff)
    moreover obtain j where "insertTurn inc (fst it) (merge_known None (snd it)) m = insert_at j (merge_known None (snd it)) m"
      using insertTurn_shape by blast
    then have "merge_step inc m it = insert_at j (merge_known None (snd it)) m"
      using pn None by (simp add: merge_step_def Let_def)
    ultimately show ?thesis using insert by blast
  qed
qed

definition turns_extend :: "ai_turn list \<Rightarrow> ai_turn list \<Rightarrow> bool" where
  "turns_extend a b = (subseq (map tn_id a) (map tn_id b)
     \<and> (\<forall>t \<in> set a. \<exists>u \<in> set b. tn_id u = tn_id t \<and> tn_revision t \<le> tn_revision u))"

lemma turns_extend_refl: "turns_extend a a"
  by (auto simp: turns_extend_def)

lemma turns_extend_trans: "turns_extend a b \<Longrightarrow> turns_extend b c \<Longrightarrow> turns_extend a c"
proof -
  assume a: "turns_extend a b" and b: "turns_extend b c"
  have "\<exists>u \<in> set c. tn_id u = tn_id t \<and> tn_revision t \<le> tn_revision u" if "t \<in> set a" for t
  proof -
    obtain u where u: "u \<in> set b" "tn_id u = tn_id t" "tn_revision t \<le> tn_revision u"
      using a \<open>t \<in> set a\<close> by (auto simp: turns_extend_def)
    obtain v where "v \<in> set c" "tn_id v = tn_id u" "tn_revision u \<le> tn_revision v"
      using b u(1) by (auto simp: turns_extend_def)
    with u show ?thesis by (intro bexI[of _ v]) simp_all
  qed
  moreover have "subseq (map tn_id a) (map tn_id c)"
    using a b subseq_order.order_trans by (auto simp: turns_extend_def)
  ultimately show ?thesis by (simp add: turns_extend_def)
qed

lemma merge_step_extends: "turns_extend m (merge_step inc m it)"
proof (cases rule: merge_step_cases[of inc m it])
  case same
  then show ?thesis by (simp add: turns_extend_refl)
next
  case (replace i u)
  have "map tn_id (m[i := u]) = map tn_id m"
    using replace by (metis list_update_id map_update nth_map)
  moreover have "\<exists>v \<in> set (m[i := u]). tn_id v = tn_id t \<and> tn_revision t \<le> tn_revision v" if "t \<in> set m" for t
  proof -
    from that obtain j where j: "j < length m" "t = m ! j" by (auto simp: in_set_conv_nth)
    show ?thesis
    proof (cases "j = i")
      case True
      with j replace set_update_memI[OF replace(1), of u] show ?thesis by auto
    next
      case False
      with j have "m[i := u] ! j = t" "j < length (m[i := u])" by simp_all
      then have "t \<in> set (m[i := u])" by (metis nth_mem)
      then show ?thesis by auto
    qed
  qed
  ultimately show ?thesis using replace by (auto simp: turns_extend_def)
next
  case (insert i)
  let ?k = "merge_known None (snd it)"
  have "subseq (take i (map tn_id m) @ drop i (map tn_id m)) (take i (map tn_id m) @ tn_id ?k # drop i (map tn_id m))"
    by (intro list_emb_append_mono subseq_order.refl list_emb_Cons)
  then have "subseq (map tn_id m) (map tn_id (insert_at i ?k m))"
    unfolding append_take_drop_id by (simp add: insert_at_def take_map drop_map)
  moreover have "t \<in> set (insert_at i ?k m)" if "t \<in> set m" for t
    using that set_append[of "take i m" "drop i m"] by (auto simp: insert_at_def)
  ultimately show ?thesis unfolding insert(1) turns_extend_def by blast
qed

lemma merge_all_extends: "turns_extend m (foldl (merge_step inc) m its)"
proof (induction its arbitrary: m)
  case (Cons it its)
  then show ?case using turns_extend_trans[OF merge_step_extends[of m inc it] Cons.IH] by simp
qed (simp add: turns_extend_refl)

lemma merge_step_distinct:
  assumes "distinct (map tn_id m)" and "tn_id (snd it) \<noteq> []"
  shows "distinct (map tn_id (merge_step inc m it))"
proof (cases rule: merge_step_cases[of inc m it])
  case (replace i u)
  then have "map tn_id (m[i := u]) = map tn_id m" by (metis list_update_id map_update nth_map)
  with replace assms show ?thesis by simp
next
  case (insert i)
  have "tn_id (snd it) \<notin> set (map tn_id m)"
  proof
    assume "tn_id (snd it) \<in> set (map tn_id m)"
    then obtain t where "t \<in> set m" "tn_id t = tn_id (snd it)" by auto
    with assms(2) same_id_shares[of t "snd it"] insert(2) show False
      by (auto simp: hasKnownTurnIdentity_def list_ex_iff)
  qed
  moreover have "distinct (take i (map tn_id m) @ drop i (map tn_id m))" using assms(1) by simp
  moreover have "set (take i (map tn_id m)) \<union> set (drop i (map tn_id m)) = set (map tn_id m)"
    using set_append[of "take i (map tn_id m)" "drop i (map tn_id m)"] by simp
  ultimately have "distinct (take i (map tn_id m) @ tn_id (snd it) # drop i (map tn_id m))"
    unfolding distinct_append distinct.simps by auto
  then show ?thesis unfolding insert(1) by (simp add: insert_at_def take_map drop_map merge_known_def merge_turn_patch_def)
qed (use assms in simp)

lemma merge_all_distinct:
  "distinct (map tn_id m) \<Longrightarrow> \<forall>it \<in> set its. tn_id (snd it) \<noteq> [] \<Longrightarrow>
     distinct (map tn_id (foldl (merge_step inc) m its))"
  by (induction its arbitrary: m) (auto intro: merge_step_distinct)

lemma normalizeTurns_ids:
  assumes "list_all turn_valid (opt_list ts)" and "t \<in> set (normalizeTurns sha meta ts)"
  shows "tn_id t \<noteq> []"
proof -
  have "t \<in> set (map (\<lambda>(i, r). normalize_turn sha meta i r) (enumerate 0 (opt_list ts)))"
    using assms(2) set_last_n by (fastforce simp: normalizeTurns_def)
  then obtain i r where "t = normalize_turn sha meta i r" "r \<in> set (opt_list ts)" by (auto simp: in_set_enumerate_eq)
  with assms(1) show ?thesis by (auto simp: normalize_turn_def turn_valid_def list_all_iff compact_Nil)
qed

text \<open>
  Merging an incoming list of turns never loses, reorders or confuses the stored turns:
  the merged list contains every stored turn id, in the stored order, with a revision no smaller
  than before, all ids stay pairwise different, and the result is the last 50 of the merged turns.
\<close>

theorem merge_keeps_turns:
  assumes "list_all turn_valid (opt_list next)"
    and "distinct (map tn_id (normalizeTurns sha1_hex no_meta current))"
    and "merged = merge_all (normalizeTurns sha1_hex meta next) (normalizeTurns sha1_hex no_meta current)"
  shows "fst (mergeTurns sha1_hex current next meta) = last_n 50 merged
    \<and> subseq (map tn_id (normalizeTurns sha1_hex no_meta current)) (map tn_id merged)
    \<and> (\<forall>t \<in> set (normalizeTurns sha1_hex no_meta current).
         \<exists>u \<in> set merged. tn_id u = tn_id t \<and> tn_revision t \<le> tn_revision u)
    \<and> distinct (map tn_id merged)"
proof -
  let ?b = "normalizeTurns sha1_hex no_meta current" and ?i = "normalizeTurns sha1_hex meta next"
  have "turns_extend ?b merged" unfolding assms(3) merge_all_def by (rule merge_all_extends)
  moreover have "\<forall>it \<in> set (enumerate 0 ?i). tn_id (snd it) \<noteq> []"
  proof
    fix it
    assume "it \<in> set (enumerate 0 ?i)"
    then have "snd it \<in> snd ` set (enumerate 0 ?i)" by (rule imageI)
    then have "snd it \<in> set ?i" by (simp only: set_map[symmetric] map_snd_enumerate)
    then show "tn_id (snd it) \<noteq> []" by (rule normalizeTurns_ids[OF assms(1)])
  qed
  then have "distinct (map tn_id merged)"
    unfolding assms(3) merge_all_def by (rule merge_all_distinct[OF assms(2)])
  ultimately show ?thesis by (simp add: mergeTurns_def assms(3) turns_extend_def Let_def)
qed

theorem merge_keeps_turns_witness:
  "map tn_id (merge_all (normalizeTurns (\<lambda>_. ''h'') no_meta (Some [blank_turn\<lparr>tn_id := ''b'', tn_summary := Some ''x''\<rparr>]))
     (normalizeTurns (\<lambda>_. ''h'') no_meta None)) = [''b'']
   \<and> distinct (map tn_id (merge_all (normalizeTurns (\<lambda>_. ''h'') no_meta (Some [blank_turn\<lparr>tn_id := ''b'', tn_summary := Some ''x''\<rparr>]))
     (normalizeTurns (\<lambda>_. ''h'') no_meta None)))"
proof
  show "distinct (map tn_id (merge_all (normalizeTurns (\<lambda>_. ''h'') no_meta (Some [blank_turn\<lparr>tn_id := ''b'', tn_summary := Some ''x''\<rparr>]))
     (normalizeTurns (\<lambda>_. ''h'') no_meta None)))"
    using merge_keeps_turns[OF _ _ refl, of "Some [blank_turn\<lparr>tn_id := ''b'', tn_summary := Some ''x''\<rparr>]" "\<lambda>_. ''h''" None no_meta]
    by (simp add: opt_list_def turn_valid_def trimmed_opt_def blank_turn_def js_trim_def js_space_def
        normalizeTurns_def last_n_def)
qed code_simp

section \<open>Applying a session patch to the turns\<close>

record turn_patch =
  tp_activeTurnId :: "string option"
  tp_userPrompt :: "string option"
  tp_turns :: "ai_turn list option"
  tp_status :: "lifecycle option"
  tp_phase :: "phase option"
  tp_summary :: "string option"
  tp_lastMessage :: "string option"
  tp_lastMessageItemId :: "string option"
  tp_completedAt :: "string option"
  tp_userMessage :: "user_message option"

definition turnStatusFromSessionStatus :: "lifecycle option \<Rightarrow> turn_status option \<Rightarrow> turn_status option" where
  "turnStatusFromSessionStatus status fallback =
     (case status of
        Some Idle \<Rightarrow> Some TCompleted
      | Some Waiting \<Rightarrow> Some TWaiting
      | Some Failed \<Rightarrow> Some TFailed
      | Some Running \<Rightarrow> Some TRunning
      | None \<Rightarrow> fallback)"

text \<open>\<^verbatim>\<open>Object.assign(turn, meta)\<close>: only the defined fields of the metadata are written.\<close>

definition assign_meta :: "turn_meta \<Rightarrow> ai_turn \<Rightarrow> ai_turn" where
  "assign_meta meta t = t\<lparr>tn_source := js_nullish (tm_source meta) (tn_source t),
     tn_sourcePriority := js_nullish (tm_sourcePriority meta) (tn_sourcePriority t),
     tn_providerTurnId := js_nullish (tm_providerTurnId meta) (tn_providerTurnId t),
     tn_snapshotVersion := js_nullish (tm_snapshotVersion meta) (tn_snapshotVersion t),
     tn_observedAt := js_nullish (tm_observedAt meta) (tn_observedAt t)\<rparr>"

text \<open>The index of the last element with a property: \<^verbatim>\<open>[...turns].reverse().find(p)\<close>.\<close>

definition find_last_index :: "('a \<Rightarrow> bool) \<Rightarrow> 'a list \<Rightarrow> nat option" where
  "find_last_index p xs = map_option (\<lambda>i. length xs - 1 - i) (find_index p (rev xs))"

text \<open>The turn waits for a response to this prompt.\<close>

definition refresh_prompt_turn :: "string \<Rightarrow> turn_patch \<Rightarrow> string \<Rightarrow> turn_meta \<Rightarrow> ai_turn \<Rightarrow> ai_turn" where
  "refresh_prompt_turn prompt patch updatedAt meta t =
     (let nextStatus = turnStatusFromSessionStatus (tp_status patch) (Some TRunning);
          nextPhase = js_nullish (tp_phase patch) (js_nullish (tn_phase t) (Some Thinking));
          contentChanged = (tn_userPrompt t \<noteq> Some prompt \<or> tn_status t \<noteq> nextStatus \<or> tn_phase t \<noteq> nextPhase);
          observedChanged = (assign_meta meta t \<noteq> t)
      in if contentChanged \<or> observedChanged
         then (let t = assign_meta meta (t\<lparr>tn_userPrompt := Some prompt, tn_status := nextStatus, tn_phase := nextPhase\<rparr>)
               in if contentChanged then t\<lparr>tn_updatedAt := Some updatedAt, tn_revision := tn_revision t + 1\<rparr> else t)
         else t)"

definition new_turn :: "string \<Rightarrow> turn_meta \<Rightarrow> string \<Rightarrow> ai_turn" where
  "new_turn tid meta updatedAt =
     assign_meta meta (blank_turn\<lparr>tn_id := tid, tn_startedAt := Some updatedAt, tn_updatedAt := Some updatedAt\<rparr>)"

definition prompt_step :: "(string \<Rightarrow> string) \<Rightarrow> turn_patch \<Rightarrow> string \<Rightarrow> turn_meta \<Rightarrow> string \<Rightarrow> string \<Rightarrow> ai_turn list
    \<Rightarrow> ai_turn list" where
  "prompt_step sha1_hex patch updatedAt meta activeTurnId prompt turns =
     (if prompt = [] then turns
      else let activeTurn = (if activeTurnId \<noteq> [] then findTurnIndex turns (activeTurnId, None) else None);
               waiting = (\<lambda>t. tn_userPrompt t = Some prompt \<and> \<not> turnHasResponse t);
               promptTurn = js_nullish activeTurn (find_last_index waiting turns);
               represented = list_ex (\<lambda>t. truthy (tn_userPrompt t) \<and> messageText (str_of (tn_userPrompt t)) = prompt)
                 (opt_list (tp_turns patch))
        in case promptTurn of
             Some i \<Rightarrow>
               let t = turns ! i;
                   t = (if activeTurnId \<noteq> [] \<and> activeTurn = None \<and> tn_id t \<noteq> activeTurnId then t\<lparr>tn_id := activeTurnId\<rparr> else t)
               in turns[i := refresh_prompt_turn prompt patch updatedAt meta t]
           | None \<Rightarrow>
               if turns \<noteq> [] \<and> waiting (last turns)
               then turns[length turns - 1 := refresh_prompt_turn prompt patch updatedAt meta (last turns)]
               else if represented then turns
               else turns @ [(new_turn (if activeTurnId \<noteq> [] then activeTurnId else stableGeneratedTurnId sha1_hex prompt updatedAt)
                       meta updatedAt)\<lparr>tn_userPrompt := Some prompt,
                         tn_status := turnStatusFromSessionStatus (tp_status patch) (Some TRunning),
                         tn_phase := js_nullish (tp_phase patch) (Some Thinking)\<rparr>])"

text \<open>The turn a message or response belongs to: the active one, or the last one when none is given.\<close>

definition target_turn :: "string \<Rightarrow> ai_turn list \<Rightarrow> nat option" where
  "target_turn activeTurnId turns =
     (if activeTurnId \<noteq> [] then findTurnIndex turns (activeTurnId, None)
      else if turns = [] then None else Some (length turns - 1))"

definition message_step :: "(string \<Rightarrow> string) \<Rightarrow> turn_patch \<Rightarrow> string \<Rightarrow> turn_meta \<Rightarrow> string \<Rightarrow> ai_turn list
    \<Rightarrow> ai_turn list" where
  "message_step sha1_hex patch updatedAt meta activeTurnId turns =
     (case tp_userMessage patch of
        None \<Rightarrow> turns
      | Some msg \<Rightarrow>
          let found = target_turn activeTurnId turns;
              fresh = (new_turn (if activeTurnId \<noteq> [] then activeTurnId else stableGeneratedTurnId sha1_hex (um_text msg) updatedAt)
                  meta updatedAt)\<lparr>
                tn_userPrompt := (let p = messageText (um_text msg) in if p = [] then None else Some p),
                tn_status := Some (if tp_status patch = Some Waiting then TWaiting else TRunning),
                tn_phase := js_nullish (tp_phase patch) (Some Thinking)\<rparr>;
              turns = (if found = None then turns @ [fresh] else turns);
              i = (case found of Some i \<Rightarrow> i | None \<Rightarrow> length turns - 1);
              messageTurn = turns ! i;
              mergedMessages = mergeUserMessages (tn_userMessages messageTurn) (Some [msg])
          in if opt_list (tn_userMessages messageTurn) \<noteq> opt_list mergedMessages
             then turns[i := messageTurn\<lparr>tn_userMessages := mergedMessages, tn_revision := tn_revision messageTurn + 1,
                    tn_updatedAt := Some updatedAt\<rparr>]
             else turns)"

definition response_of :: "turn_patch \<Rightarrow> string \<Rightarrow> turn_meta \<Rightarrow> ai_turn option \<Rightarrow> ai_turn" where
  "response_of patch updatedAt meta prev =
     (let b = (case prev of Some t \<Rightarrow> t | None \<Rightarrow> blank_turn) in
      assign_meta meta (b\<lparr>
        tn_summary := (if truthy (tp_summary patch) then Some (compact (str_of (tp_summary patch)) 1000) else tn_summary b),
        tn_lastMessage := (if truthy (tp_lastMessage patch) then Some (messageText (str_of (tp_lastMessage patch))) else tn_lastMessage b),
        tn_lastMessageItemId := (if truthy (tp_lastMessageItemId patch)
           then Some (compact (str_of (tp_lastMessageItemId patch)) 240) else tn_lastMessageItemId b),
        tn_status := (case tp_status patch of
             Some Idle \<Rightarrow> Some TCompleted | Some Waiting \<Rightarrow> Some TWaiting | Some Failed \<Rightarrow> Some TFailed
           | _ \<Rightarrow> js_nullish (tn_status b) (Some TRunning)),
        tn_phase := js_nullish (tp_phase patch) (tn_phase b),
        tn_updatedAt := Some updatedAt,
        tn_completedAt := js_or (tp_completedAt patch)
           (if tp_status patch = Some Idle \<or> tp_status patch = Some Failed then Some updatedAt else tn_completedAt b)\<rparr>))"

text \<open>
  \<^verbatim>\<open>Object.assign(last, { ...response, ... })\<close>: the observation time of the response is that of the
  metadata, and undefined when the metadata has none.
\<close>

definition write_response :: "turn_patch \<Rightarrow> string \<Rightarrow> turn_meta \<Rightarrow> ai_turn \<Rightarrow> ai_turn" where
  "write_response patch updatedAt meta t =
     (let r = response_of patch updatedAt meta (Some t);
          isSameResponse = (tn_summary t = tn_summary r \<and> tn_lastMessage t = tn_lastMessage r
             \<and> tn_lastMessageItemId t = tn_lastMessageItemId r);
          isSameState = (tn_status t = tn_status r \<and> tn_phase t = tn_phase r);
          stableResponse = isSameResponse \<and> isSameState
      in r\<lparr>tn_observedAt := (if stableResponse then tn_observedAt t else tm_observedAt meta),
           tn_updatedAt := (if isSameResponse then tn_updatedAt t else tn_updatedAt r),
           tn_completedAt := (if stableResponse then tn_completedAt t else tn_completedAt r),
           tn_revision := (if isSameResponse \<and> isSameState then tn_revision t else tn_revision t + 1)\<rparr>)"

definition response_step :: "turn_patch \<Rightarrow> string \<Rightarrow> turn_meta \<Rightarrow> string \<Rightarrow> string \<Rightarrow> ai_turn list \<Rightarrow> ai_turn list" where
  "response_step patch updatedAt meta generatedId activeTurnId turns =
     (case target_turn activeTurnId turns of
        Some i \<Rightarrow> turns[i := write_response patch updatedAt meta (turns ! i)]
      | None \<Rightarrow>
          if activeTurnId \<noteq> [] then
            (case find_last_index (\<lambda>t. truthy (tn_userPrompt t) \<and> \<not> turnHasResponse t) turns of
               Some i \<Rightarrow> turns[i := write_response patch updatedAt meta ((turns ! i)\<lparr>tn_id := activeTurnId\<rparr>)]
             | None \<Rightarrow>
                 turns @ [write_response patch updatedAt meta ((new_turn activeTurnId meta updatedAt)\<lparr>
                   tn_status := Some (case tp_status patch of Some Waiting \<Rightarrow> TWaiting | Some Failed \<Rightarrow> TFailed | _ \<Rightarrow> TRunning),
                   tn_phase := js_nullish (tp_phase patch) (Some UnknownPhase)\<rparr>)])
          else turns @ [(response_of patch updatedAt meta None)\<lparr>tn_id := generatedId, tn_startedAt := Some updatedAt\<rparr>])"

definition status_step :: "turn_patch \<Rightarrow> string \<Rightarrow> turn_meta \<Rightarrow> string \<Rightarrow> ai_turn list \<Rightarrow> ai_turn list" where
  "status_step patch updatedAt meta activeTurnId turns =
     (let settled = (tp_status patch = Some Idle \<or> tp_status patch = Some Failed) in
      case (if activeTurnId \<noteq> [] then findTurnIndex turns (activeTurnId, None)
            else if settled \<and> turns \<noteq> [] then Some (length turns - 1) else None) of
        None \<Rightarrow> turns
      | Some i \<Rightarrow>
          let t = turns ! i;
              status = turnStatusFromSessionStatus (tp_status patch) (js_nullish (tn_status t) (Some TRunning));
              phase = js_nullish (tp_phase patch) (tn_phase t);
              completedAt = (if settled then js_or (tn_completedAt t) (js_or (tp_completedAt patch) (Some updatedAt))
                             else tn_completedAt t)
          in if tn_status t \<noteq> status \<or> tn_phase t \<noteq> phase \<or> tn_completedAt t \<noteq> completedAt
             then turns[i := assign_meta meta (t\<lparr>tn_status := status, tn_phase := phase, tn_completedAt := completedAt,
                    tn_updatedAt := Some updatedAt, tn_revision := tn_revision t + 1\<rparr>)]
             else turns)"

definition active_last_step :: "turn_patch \<Rightarrow> string \<Rightarrow> ai_turn list \<Rightarrow> ai_turn list" where
  "active_last_step patch activeTurnId turns =
     (if (tp_status patch = Some Running \<or> tp_status patch = Some Waiting) \<and> activeTurnId \<noteq> []
      then case findTurnIndex turns (activeTurnId, None) of
          Some i \<Rightarrow> if i \<noteq> length turns - 1 then take i turns @ drop (Suc i) turns @ [turns ! i] else turns
        | None \<Rightarrow> turns
      else turns)"

definition apply_turn_patch :: "(string \<Rightarrow> string) \<Rightarrow> turn_patch \<Rightarrow> string \<Rightarrow> turn_meta \<Rightarrow> string \<Rightarrow> ai_turn list \<Rightarrow> ai_turn list" where
  "apply_turn_patch sha1_hex patch updatedAt meta generatedId turns =
     (let activeTurnId = (if truthy (tp_activeTurnId patch) then compact (str_of (tp_activeTurnId patch)) 240 else []);
          activeTurnPrompt = (if activeTurnId \<noteq> []
            then Option.bind (List.find (\<lambda>t. sharesTurnIdentity (turn_ident t) (activeTurnId, None)) (opt_list (tp_turns patch))) tn_userPrompt
            else None);
          prompt = messageText (str_of (js_or activeTurnPrompt (tp_userPrompt patch)));
          turns = prompt_step sha1_hex patch updatedAt meta activeTurnId prompt turns;
          turns = message_step sha1_hex patch updatedAt meta activeTurnId turns;
          turns = (if truthy (tp_lastMessage patch) \<or> truthy (tp_summary patch)
                   then response_step patch updatedAt meta generatedId activeTurnId turns
                   else if tp_status patch \<noteq> None \<or> tp_phase patch \<noteq> None
                   then status_step patch updatedAt meta activeTurnId turns else turns)
      in active_last_step patch activeTurnId turns)"

text \<open>
  \<^verbatim>\<open>updateTurns\<close>; \<open>generatedId\<close> is the random identifier of \<^verbatim>\<open>generatedTurnId()\<close>. Both compared lists are
  normalised, so \<^verbatim>\<open>isDeepStrictEqual\<close> is equality, and an unchanged list is answered with the stored one.
\<close>

definition updateTurns :: "(string \<Rightarrow> string) \<Rightarrow> string \<Rightarrow> ai_turn list option \<Rightarrow> turn_patch \<Rightarrow> string \<Rightarrow> turn_meta
    \<Rightarrow> ai_turn list" where
  "updateTurns sha1_hex generatedId current patch updatedAt meta =
     (let (turns, baseline) = mergeTurns sha1_hex current (tp_turns patch) meta;
          normalized = normalizeTurns sha1_hex no_meta (Some (apply_turn_patch sha1_hex patch updatedAt meta generatedId turns))
      in if normalized = baseline then (case current of Some ts \<Rightarrow> ts | None \<Rightarrow> baseline) else normalized)"

section \<open>The active turn of a session\<close>

definition currentActiveTurnIsPending :: "(string \<Rightarrow> string) \<Rightarrow> ai_session \<Rightarrow> bool" where
  "currentActiveTurnIsPending sha1_hex session =
     (if \<not> truthy (ss_activeTurnId session) \<or> ss_status session \<noteq> Running then False
      else let turns = normalizeTurns sha1_hex no_meta (ss_turns session) in
        case findTurnIndex turns (str_of (ss_activeTurnId session), None) of
          Some i \<Rightarrow> \<not> turnHasResponse (turns ! i)
        | None \<Rightarrow> True)"

definition snapshotMissingPendingActiveTurn :: "(string \<Rightarrow> string) \<Rightarrow> ai_session \<Rightarrow> ai_turn list option \<Rightarrow> bool" where
  "snapshotMissingPendingActiveTurn sha1_hex session incomingTurns =
     (if \<not> currentActiveTurnIsPending sha1_hex session then False
      else let turns = normalizeTurns sha1_hex no_meta (ss_turns session);
               ident = (str_of (ss_activeTurnId session), None);
               activeTurn = map_option (\<lambda>i. turns ! i) (findTurnIndex turns ident)
        in \<not> list_ex (\<lambda>turn. sharesTurnIdentity (turn_ident turn) ident
              \<or> (case activeTurn of
                    None \<Rightarrow> False
                  | Some a \<Rightarrow> truthy (tn_userPrompt a) \<and> tn_userPrompt turn = tn_userPrompt a
                      \<and> turnHasResponse turn \<and> \<not> turnHasResponse a))
             (normalizeTurns sha1_hex no_meta incomingTurns))"

definition nextActiveTurnId :: "ai_session \<Rightarrow> string option \<Rightarrow> lifecycle option \<Rightarrow> bool \<Rightarrow> string option" where
  "nextActiveTurnId current eventActiveTurnId eventStatus staleActivitySnapshot =
     (if staleActivitySnapshot then ss_activeTurnId current
      else if eventStatus = Some Idle \<or> eventStatus = Some Failed then None
      else if truthy eventActiveTurnId then Some (compact (str_of eventActiveTurnId) 240)
      else ss_activeTurnId current)"

section \<open>An empty patch and a response\<close>

definition no_patch :: turn_patch where
  "no_patch = \<lparr>tp_activeTurnId = None, tp_userPrompt = None, tp_turns = None, tp_status = None, tp_phase = None,
     tp_summary = None, tp_lastMessage = None, tp_lastMessageItemId = None, tp_completedAt = None, tp_userMessage = None\<rparr>"

lemma normalizeTurns_None [simp]: "normalizeTurns sha meta None = []"
  by (simp add: normalizeTurns_def opt_list_def)

text \<open>
  A patch that carries nothing leaves the turns alone: \<^verbatim>\<open>updateTurns\<close> answers with the very
  list it was given, whatever the clock and the metadata of the observation, so a discovery scan
  that saw nothing new does not touch the session.
\<close>

theorem update_turns_nothing:
  assumes "list_all turn_valid ts"
  shows "updateTurns sha1_hex generatedId (Some ts) no_patch updatedAt meta = ts"
proof -
  let ?b = "normalizeTurns sha1_hex no_meta (Some ts)"
  have m: "mergeTurns sha1_hex (Some ts) None meta = (?b, ?b)"
    using length_normalizeTurns[of sha1_hex no_meta "Some ts"]
    by (simp add: mergeTurns_def merge_all_def last_n_id Let_def)
  have "apply_turn_patch sha1_hex no_patch updatedAt meta generatedId ?b = ?b"
    by (simp add: apply_turn_patch_def no_patch_def prompt_step_def message_step_def active_last_step_def messageText_def)
  moreover have "normalizeTurns sha1_hex no_meta (Some ?b) = ?b"
    using normalizeTurns_fixed[OF normalizeTurns_all_fixed, of "Some ts" sha1_hex] assms
      length_normalizeTurns[of sha1_hex no_meta "Some ts"] by (simp add: opt_list_def last_n_id)
  ultimately show ?thesis using m by (simp add: updateTurns_def no_patch_def)
qed

theorem update_turns_nothing_witness:
  "updateTurns (\<lambda>_. ''h'') ''g'' (Some [blank_turn\<lparr>tn_id := ''b''\<rparr>]) no_patch ''now'' (no_meta\<lparr>tm_snapshotVersion := Some 3\<rparr>)
     = [blank_turn\<lparr>tn_id := ''b''\<rparr>]"
  by (rule update_turns_nothing)
     (simp add: turn_valid_def trimmed_opt_def blank_turn_def opt_list_def js_trim_def js_space_def)

text \<open>The steps that apply a patch, by where the active turn stands.\<close>

lemma findTurnIndex_idents: "findTurnIndex ts x = find_index (\<lambda>e. sharesTurnIdentity e x) (map turn_ident ts)"
  unfolding findTurnIndex_def by (induction ts) simp_all

lemma find_index_snoc:
  "find_index p (xs @ [x]) = (case find_index p xs of Some i \<Rightarrow> Some i | None \<Rightarrow> if p x then Some (length xs) else None)"
  by (induction xs) (auto simp del: find_index_None split: option.splits)

lemma find_index_first:
  "find_index p xs = Some i \<longleftrightarrow> i < length xs \<and> p (xs ! i) \<and> (\<forall>j<i. \<not> p (xs ! j))"
proof
  assume "i < length xs \<and> p (xs ! i) \<and> (\<forall>j<i. \<not> p (xs ! j))"
  moreover from this obtain k where "find_index p xs = Some k"
    by (metis find_index_None nth_mem option.exhaust)
  ultimately show "find_index p xs = Some i"
    using find_index_Some[of p xs k] by (metis linorder_neqE_nat)
qed (rule find_index_Some)

lemma shares_active: "a \<noteq> [] \<Longrightarrow> sharesTurnIdentity (i, p) (a, None) \<longleftrightarrow> i = a \<or> p = Some a"
  by (auto simp: shares_iff set_turnIdentities)

text \<open>
  The list is within the limit of 50, or it is one longer and ends with the only turn that has the
  active identity.
\<close>

definition active_bound :: "string \<Rightarrow> ai_turn list \<Rightarrow> bool" where
  "active_bound a ts = (length ts \<le> 50 \<or> (length ts = 51 \<and> findTurnIndex ts (a, None) = Some 50))"

lemma active_bound_push:
  assumes "length ts \<le> 50" and "findTurnIndex ts (a, None) = None" and "tn_id t = a" and "a \<noteq> []"
  shows "active_bound a (ts @ [t])"
proof -
  have "findTurnIndex (ts @ [t]) (a, None) = Some (length ts)"
    using assms(2-4) by (simp add: findTurnIndex_def find_index_snoc turn_ident_def shares_active del: find_index_None)
  with assms(1) show ?thesis by (auto simp: active_bound_def)
qed

lemma prompt_step_bound:
  assumes "length ts \<le> 50" and "a \<noteq> []"
  shows "active_bound a (prompt_step sha patch at meta a prompt ts)"
proof (cases "prompt = [] \<or> findTurnIndex ts (a, None) \<noteq> None")
  case True
  with assms show ?thesis by (auto simp: prompt_step_def Let_def active_bound_def)
next
  case False
  then have "active_bound a (ts @ [t])" if "tn_id t = a" for t
    using active_bound_push[OF assms(1) _ that assms(2)] by simp
  moreover have "tn_id (new_turn a meta at) = a" by (simp add: new_turn_def assign_meta_def)
  ultimately show ?thesis
    using False assms by (auto simp: prompt_step_def Let_def active_bound_def split: option.splits)
qed

lemma message_step_bound:
  assumes "active_bound a ts" and "a \<noteq> []"
  shows "active_bound a (message_step sha patch at meta a ts)"
proof (cases "tp_userMessage patch")
  case (Some msg)
  have upd: "active_bound a us \<Longrightarrow> i < length us \<Longrightarrow>
      active_bound a (us[i := (us ! i)\<lparr>tn_userMessages := m, tn_revision := r, tn_updatedAt := u\<rparr>])" for us i m r u
  proof -
    assume "active_bound a us" "i < length us"
    moreover have "map turn_ident (us[i := (us ! i)\<lparr>tn_userMessages := m, tn_revision := r, tn_updatedAt := u\<rparr>]) = map turn_ident us"
      using \<open>i < length us\<close> by (simp add: map_update list_eq_iff_nth_eq nth_list_update turn_ident_def)
    ultimately show ?thesis by (simp add: active_bound_def findTurnIndex_idents)
  qed
  show ?thesis
  proof (cases "findTurnIndex ts (a, None)")
    case None
    then have "length ts \<le> 50" using assms(1) by (auto simp: active_bound_def)
    from active_bound_push[OF this None _ assms(2)]
    have push: "active_bound a (ts @ [(new_turn a meta at)\<lparr>tn_userPrompt := p, tn_status := q, tn_phase := h\<rparr>])" for p q h
      by (simp add: new_turn_def assign_meta_def)
    show ?thesis
      using Some None assms(2) push upd[OF push, of "length ts"]
      by (simp add: message_step_def Let_def target_turn_def)
  next
    case i: (Some i)
    then have "i < length ts" by (auto simp: findTurnIndex_def dest: find_index_Some)
    then show ?thesis
      using Some i assms upd[OF assms(1)] by (simp add: message_step_def Let_def target_turn_def)
  qed
qed (use assms in \<open>simp add: message_step_def\<close>)

lemma write_response_fields:
  "tn_id (write_response patch at meta t) = tn_id t"
  "tn_providerTurnId (write_response patch at meta t) = js_nullish (tm_providerTurnId meta) (tn_providerTurnId t)"
  "truthy (tp_lastMessage patch) \<Longrightarrow> tn_lastMessage (write_response patch at meta t) = Some (messageText (str_of (tp_lastMessage patch)))"
  by (simp_all add: write_response_def response_of_def assign_meta_def Let_def)

lemma write_response_shares:
  assumes "a \<noteq> []" and "tm_providerTurnId meta = None \<or> tm_providerTurnId meta = Some a"
    and "sharesTurnIdentity (turn_ident t) (a, None)"
  shows "sharesTurnIdentity (turn_ident (write_response patch at meta t)) (a, None)"
  using assms by (auto simp: turn_ident_def shares_active write_response_fields)

text \<open>
  Where the response is, after the response was written: within the last 50 turns, and no turn before it has the active identity
  if it is the 51st.
\<close>

definition holds_response :: "string \<Rightarrow> string \<Rightarrow> nat \<Rightarrow> ai_turn list \<Rightarrow> bool" where
  "holds_response a msg k ts = (k < length ts \<and> tn_lastMessage (ts ! k) = Some msg
     \<and> (length ts \<le> 50 \<or> Suc k = length ts \<and> (\<forall>j<k. \<not> sharesTurnIdentity (turn_ident (ts ! j)) (a, None))))"

text \<open>The metadata of an event names no provider turn other than the active one.\<close>

definition own_turn :: "turn_meta \<Rightarrow> string \<Rightarrow> bool" where
  "own_turn meta a = (tm_providerTurnId meta = None \<or> tm_providerTurnId meta = Some a)"

lemma findTurnIndex_update:
  assumes "i < length ts" and "sharesTurnIdentity (turn_ident u) x"
    and "\<forall>j<i. \<not> sharesTurnIdentity (turn_ident (ts ! j)) x"
  shows "findTurnIndex (ts[i := u]) x = Some i"
  unfolding findTurnIndex_def find_index_first using assms by auto

lemma response_step_holds:
  assumes b: "active_bound a ts" and a: "a \<noteq> []" and msg: "truthy (tp_lastMessage patch)"
  shows "\<exists>k. holds_response a (messageText (str_of (tp_lastMessage patch))) k (response_step patch at meta gid a ts)
    \<and> (own_turn meta a \<longrightarrow> findTurnIndex (response_step patch at meta gid a ts) (a, None) = Some k)"
proof (cases "findTurnIndex ts (a, None)")
  case (Some i)
  then have i: "i < length ts" "sharesTurnIdentity (turn_ident (ts ! i)) (a, None)"
    "\<forall>j<i. \<not> sharesTurnIdentity (turn_ident (ts ! j)) (a, None)"
    by (auto simp: findTurnIndex_def dest: find_index_Some)
  have step: "response_step patch at meta gid a ts = ts[i := write_response patch at meta (ts ! i)]"
    using Some a by (simp add: response_step_def target_turn_def)
  have "length ts \<le> 50 \<or> Suc i = length ts" using b Some by (auto simp: active_bound_def)
  then have "holds_response a (messageText (str_of (tp_lastMessage patch))) i (response_step patch at meta gid a ts)"
    using i msg by (auto simp: step holds_response_def write_response_fields)
  moreover have "findTurnIndex (response_step patch at meta gid a ts) (a, None) = Some i" if "own_turn meta a"
    unfolding step using i that by (intro findTurnIndex_update write_response_shares a) (simp_all add: own_turn_def)
  ultimately show ?thesis by blast
next
  case None
  then have len: "length ts \<le> 50" using b by (auto simp: active_bound_def)
  have none: "\<not> sharesTurnIdentity (turn_ident (ts ! j)) (a, None)" if "j < length ts" for j
    using None that by (auto simp: findTurnIndex_def)
  let ?w = "\<lambda>t. write_response patch at meta t"
  have sh: "sharesTurnIdentity (turn_ident (?w t)) (a, None)" if "tn_id t = a" for t
    using a that by (simp add: turn_ident_def shares_active write_response_fields)
  show ?thesis
  proof (cases "find_last_index (\<lambda>t. truthy (tn_userPrompt t) \<and> \<not> turnHasResponse t) ts")
    case None2: None
    let ?n = "(new_turn a meta at)\<lparr>tn_status := Some (case tp_status patch of Some Waiting \<Rightarrow> TWaiting | Some Failed \<Rightarrow> TFailed | _ \<Rightarrow> TRunning),
                   tn_phase := js_nullish (tp_phase patch) (Some UnknownPhase)\<rparr>"
    have idn: "tn_id ?n = a" by (simp add: new_turn_def assign_meta_def)
    have "findTurnIndex (ts @ [?w ?n]) (a, None) = Some (length ts)"
      using None sh[OF idn] by (simp add: findTurnIndex_def find_index_snoc del: find_index_None)
    moreover have "holds_response a (messageText (str_of (tp_lastMessage patch))) (length ts) (ts @ [?w ?n])"
      using msg none by (auto simp: holds_response_def write_response_fields nth_append)
    ultimately show ?thesis using None None2 a by (auto simp: response_step_def target_turn_def)
  next
    case (Some i)
    then have i: "i < length ts"
      by (auto simp: find_last_index_def dest!: find_index_Some)
    have "findTurnIndex (ts[i := ?w ((ts ! i)\<lparr>tn_id := a\<rparr>)]) (a, None) = Some i"
      using i none by (intro findTurnIndex_update sh) auto
    moreover have "holds_response a (messageText (str_of (tp_lastMessage patch))) i (ts[i := ?w ((ts ! i)\<lparr>tn_id := a\<rparr>)])"
      using i len msg by (simp add: holds_response_def write_response_fields)
    ultimately show ?thesis using None Some a by (auto simp: response_step_def target_turn_def)
  qed
qed

lemma active_last_holds:
  assumes h: "holds_response a msg k ts" and q: "Q \<longrightarrow> findTurnIndex ts (a, None) = Some k"
  shows "\<exists>w \<in> set (active_last_step patch a ts). tn_lastMessage w = Some msg \<and> (Q \<longrightarrow> sharesTurnIdentity (turn_ident w) (a, None))
    \<and> (length (active_last_step patch a ts) \<le> 50 \<or> w = last (active_last_step patch a ts))"
proof -
  have k: "k < length ts" "tn_lastMessage (ts ! k) = Some msg" using h by (simp_all add: holds_response_def)
  have shares: "Q \<longrightarrow> sharesTurnIdentity (turn_ident (ts ! k)) (a, None)" using q by (auto simp: findTurnIndex_def dest: find_index_Some)
  have "active_last_step patch a ts = ts
      \<or> (\<exists>i. findTurnIndex ts (a, None) = Some i \<and> Suc i \<noteq> length ts \<and> active_last_step patch a ts = take i ts @ drop (Suc i) ts @ [ts ! i])"
    by (cases "findTurnIndex ts (a, None)") (auto simp: active_last_step_def)
  then consider "active_last_step patch a ts = ts"
    | i where "findTurnIndex ts (a, None) = Some i" "Suc i \<noteq> length ts" "active_last_step patch a ts = take i ts @ drop (Suc i) ts @ [ts ! i]" by blast
  then show ?thesis
  proof cases
    case 1
    have "Suc k = length ts \<Longrightarrow> ts ! k = last ts" using k(1) by (cases ts rule: rev_cases) (auto simp: nth_append)
    with 1 h k shares show ?thesis by (intro bexI[of _ "ts ! k"]) (auto simp: holds_response_def)
  next
    case (2 i)
    then have i: "i < length ts" "sharesTurnIdentity (turn_ident (ts ! i)) (a, None)" by (auto simp: findTurnIndex_def dest: find_index_Some)
    then have "length ts \<le> 50" using h 2(2) by (auto simp: holds_response_def)
    moreover have "set (active_last_step patch a ts) = set ts"
      using i(1) unfolding 2(3) by (subst (4) id_take_nth_drop[OF i(1)]) auto
    moreover have "length (active_last_step patch a ts) = length ts" using i(1) by (simp add: 2(3))
    ultimately show ?thesis using k shares by (intro bexI[of _ "ts ! k"]) auto
  qed
qed

text \<open>Without an active turn the response belongs to the last turn.\<close>

lemma response_step_last:
  assumes "truthy (tp_lastMessage patch)"
  shows "response_step patch at meta gid [] ts \<noteq> []
    \<and> tn_lastMessage (last (response_step patch at meta gid [] ts)) = Some (messageText (str_of (tp_lastMessage patch)))"
proof (cases ts rule: rev_cases)
  case Nil
  then show ?thesis using assms by (simp add: response_step_def target_turn_def response_of_def assign_meta_def Let_def)
next
  case (snoc us u)
  then show ?thesis using assms by (simp add: response_step_def target_turn_def write_response_fields list_update_append)
qed

lemma last_n_filter_map:
  assumes "w \<in> set xs" and "length xs \<le> n \<or> w = last xs" and "0 < n" and "\<And>j. P (f j w)"
  shows "\<exists>j. f j w \<in> set (last_n n (filter P (map (\<lambda>(i, r). f i r) (enumerate m xs))))"
proof -
  let ?ys = "filter P (map (\<lambda>(i, r). f i r) (enumerate m xs))"
  show ?thesis
  proof (cases "length xs \<le> n")
    case True
    have "length ?ys \<le> n" using True length_filter_le[of P "map (\<lambda>(i, r). f i r) (enumerate m xs)"] by simp
    moreover obtain i where "i < length xs" "xs ! i = w" using assms(1) by (auto simp: in_set_conv_nth)
    then have "(m + i, w) \<in> set (enumerate m xs)" by (auto simp: in_set_enumerate_eq)
    then have "f (m + i) w \<in> set ?ys" using assms(4) by force
    ultimately have "f (m + i) w \<in> set (last_n n ?ys)" by (simp only: last_n_id)
    then show ?thesis ..
  next
    case False
    then have "w = last xs" "xs \<noteq> []" using assms(2,3) by auto
    then obtain zs where xs: "xs = zs @ [w]" by (metis append_butlast_last_id)
    have "?ys = filter P (map (\<lambda>(i, r). f i r) (enumerate m zs)) @ [f (m + length zs) w]"
      using assms(4) by (simp add: xs enumerate_append_eq)
    then have "f (m + length zs) w \<in> set (last_n n ?ys)" using assms(3) by (simp add: last_n_def)
    then show ?thesis ..
  qed
qed

definition records :: "turn_patch \<Rightarrow> turn_meta \<Rightarrow> string \<Rightarrow> ai_turn \<Rightarrow> bool" where
  "records patch meta msg t = (tn_lastMessage t = Some (messageText msg)
     \<and> (case tp_activeTurnId patch of
          None \<Rightarrow> True
        | Some active \<Rightarrow> js_trim active \<noteq> [] \<and> own_turn meta (compact active 240) \<longrightarrow> sharesTurnIdentity (turn_ident t) (compact active 240, None)))"

lemma patch_holds_response:
  assumes base: "length base \<le> 50" and msg: "tp_lastMessage patch = Some msg" "truthy (tp_lastMessage patch)"
    and F: "F = apply_turn_patch sha1_hex patch updatedAt meta generatedId base"
  shows "\<exists>w \<in> set F. records patch meta msg w \<and> (length F \<le> 50 \<or> w = last F)"
proof -
  define a where "a = (if truthy (tp_activeTurnId patch) then compact (str_of (tp_activeTurnId patch)) 240 else [])"
  obtain prompt where step: "F = active_last_step patch a (response_step patch updatedAt meta generatedId a
      (message_step sha1_hex patch updatedAt meta a (prompt_step sha1_hex patch updatedAt meta a prompt base)))"
    using msg by (simp add: F apply_turn_patch_def Let_def a_def)
  let ?ts = "message_step sha1_hex patch updatedAt meta a (prompt_step sha1_hex patch updatedAt meta a prompt base)"
  have active: "compact active 240 = a \<and> a \<noteq> []" if "tp_activeTurnId patch = Some active" "js_trim active \<noteq> []" for active
    using that compact_Nil[of 240 active] by (auto simp: a_def)
  show ?thesis
  proof (cases "a = []")
    case True
    then have last: "F \<noteq> [] \<and> tn_lastMessage (last F) = Some (messageText msg)"
      using response_step_last[OF msg(2), of updatedAt meta generatedId ?ts] msg(1) by (simp add: step active_last_step_def)
    moreover have "records patch meta msg (last F)"
      using last active True by (auto simp: records_def split: option.splits)
    ultimately show ?thesis by (intro bexI[of _ "last F"]) simp_all
  next
    case False
    have "active_bound a ?ts" by (intro message_step_bound prompt_step_bound base False)
    from response_step_holds[OF this False msg(2), of updatedAt meta generatedId] obtain k
      where "holds_response a (messageText msg) k (response_step patch updatedAt meta generatedId a ?ts)"
        "own_turn meta a \<longrightarrow> findTurnIndex (response_step patch updatedAt meta generatedId a ?ts) (a, None) = Some k"
      using msg(1) by auto
    from active_last_holds[OF this, of patch] obtain w where w: "w \<in> set F" "tn_lastMessage w = Some (messageText msg)"
      "own_turn meta a \<longrightarrow> sharesTurnIdentity (turn_ident w) (a, None)" "length F \<le> 50 \<or> w = last F" unfolding step[symmetric] by blast
    moreover have "records patch meta msg w" using w active by (auto simp: records_def split: option.splits)
    ultimately show ?thesis by blast
  qed
qed

text \<open>Normalising keeps the record of a response.\<close>

lemma normalize_records:
  assumes "w \<in> set F" "records patch meta msg w" "length F \<le> 50 \<or> w = last F" and msg: "js_trim msg \<noteq> []"
  shows "\<exists>t \<in> set (normalizeTurns sha1_hex no_meta (Some F)). records patch meta msg t"
proof -
  have n: "records patch meta msg (normalize_turn sha1_hex no_meta j w)" for j
  proof -
    have "tn_lastMessage (normalize_turn sha1_hex no_meta j w) = Some (messageText msg)"
      using assms(2) msg by (simp add: records_def normalize_turn_alt text_norm_def messageText_def)
    moreover have "sharesTurnIdentity (turn_ident (normalize_turn sha1_hex no_meta j w)) (a, None)"
      if "sharesTurnIdentity (turn_ident w) (a, None)" "compact a 240 = a" "a \<noteq> []" for a
      using that by (auto simp: turn_ident_def shares_active normalize_turn_alt text_norm_def)
    ultimately show ?thesis using assms(2) compact_Nil[of 240] by (auto simp: records_def split: option.splits)
  qed
  have body: "turn_has_body (normalize_turn sha1_hex no_meta j w)" for j
    using n[of j] msg by (simp add: records_def turn_has_body_def messageText_def)
  have "\<exists>j. normalize_turn sha1_hex no_meta j w \<in> set (normalizeTurns sha1_hex no_meta (Some F))"
    unfolding normalizeTurns_def opt_list_def option.case
    by (rule last_n_filter_map[where f = "normalize_turn sha1_hex no_meta", OF assms(1,3)]) (use body in simp_all)
  then show ?thesis using n by blast
qed

text \<open>
  Claim C32. An assistant message is recorded: when a patch carries a non-blank message, whatever turns are stored, active or
  named by the metadata, the turns that result, read in their normal form, contain a turn whose last message is that text. If the patch names an
  active turn and the metadata names no other provider turn, that turn has the identity of the active one. If the stored turns are
  in normal form the resulting list itself contains it.
\<close>

theorem response_recorded:
  assumes msg: "tp_lastMessage patch = Some msg" "js_trim msg \<noteq> []" and r: "r = updateTurns sha1_hex generatedId current patch updatedAt meta"
  shows "(\<exists>t \<in> set (normalizeTurns sha1_hex no_meta (Some r)). records patch meta msg t)
    \<and> (normalizeTurns sha1_hex no_meta current = opt_list current \<longrightarrow> (\<exists>t \<in> set r. records patch meta msg t))"
proof -
  define base where "base = fst (mergeTurns sha1_hex current (tp_turns patch) meta)"
  have "length base \<le> 50" by (simp add: base_def mergeTurns_def Let_def)
  define F where "F = apply_turn_patch sha1_hex patch updatedAt meta generatedId base"
  define N where "N = normalizeTurns sha1_hex no_meta (Some F)"
  have "truthy (tp_lastMessage patch)" using msg by auto
  then obtain w where "w \<in> set F" "records patch meta msg w" "length F \<le> 50 \<or> w = last F"
    using patch_holds_response[OF \<open>length base \<le> 50\<close> msg(1) _ F_def] by blast
  then obtain t where t: "t \<in> set N" "records patch meta msg t" using normalize_records[OF _ _ _ msg(2)] N_def by blast
  moreover have "length N \<le> 50" by (simp add: N_def length_normalizeTurns)
  ultimately have again: "\<exists>t \<in> set (normalizeTurns sha1_hex no_meta (Some N)). records patch meta msg t"
    using normalize_records[OF _ _ _ msg(2)] by blast
  have "r = N \<or> current = Some r \<and> N = normalizeTurns sha1_hex no_meta current"
    by (auto simp: r updateTurns_def F_def N_def base_def mergeTurns_def Let_def split: option.splits)
  then show ?thesis using again t by (auto simp: opt_list_def)
qed

text \<open>A message for a turn that is stored under its prompt, observed under another provider turn.\<close>

definition answered_patch :: turn_patch where
  "answered_patch = no_patch\<lparr>tp_activeTurnId := Some ''t1'', tp_lastMessage := Some ''done''\<rparr>"

definition waiting_turn :: ai_turn where
  "waiting_turn = blank_turn\<lparr>tn_id := ''t1'', tn_userPrompt := Some ''go''\<rparr>"

theorem response_recorded_witness:
  "\<exists>t \<in> set (normalizeTurns (\<lambda>_. ''h'') no_meta (Some (updateTurns (\<lambda>_. ''h'') ''g'' (Some [waiting_turn]) answered_patch ''now''
      (no_meta\<lparr>tm_providerTurnId := Some ''p9''\<rparr>)))). tn_lastMessage t = Some ''done''"
proof -
  have "messageText ''done'' = ''done''" by code_simp
  with response_recorded[OF _ _ refl, of answered_patch "''done''" "\<lambda>_. ''h''" "''g''" "Some [waiting_turn]" "''now''" "no_meta\<lparr>tm_providerTurnId := Some ''p9''\<rparr>"]
  show ?thesis by (auto simp: answered_patch_def records_def no_patch_def js_trim_def js_space_def)
qed

end
