(* ===== verification/Session_Persistence.thy ===== *)
theory Session_Persistence
  imports Session_Turns
begin

text \<open>
  The normalisers of \<^verbatim>\<open>packages/ai-session-runtime/src/ai-session/persistence.ts\<close>, which bring session
  data from storage, providers and older versions into the form of the protocol: counters, the
  message queue, sub-agents, the current tool, lifecycle and phase names. They are given on typed
  records; the branches that only reject values of another JSON type are left out, and so is the
  codec \<^verbatim>\<open>decodePersistedAiSession\<close> that reads a whole session from JSON. The collation of
  \<^verbatim>\<open>localeCompare\<close> is a parameter.
\<close>

section \<open>Numbers and names\<close>

definition normalizeAiSessionCounters :: "(int option \<times> int option \<times> int option) \<Rightarrow> ai_counters" where
  "normalizeAiSessionCounters counters =
     (let f = (\<lambda>v. max 0 (case v of None \<Rightarrow> 0 | Some n \<Rightarrow> n)) in
      \<lparr>ct_toolCalls = f (fst counters), ct_edits = f (fst (snd counters)), ct_approvals = f (snd (snd counters))\<rparr>)"

definition normalizeNonNegativeInteger :: "int \<Rightarrow> int" where
  "normalizeNonNegativeInteger value = (if value \<ge> 0 then value else 0)"

text \<open>\<^verbatim>\<open>toLowerCase()\<close> on Latin-1: the letters A to Z and the accented capitals.\<close>

definition js_lower_char :: "char \<Rightarrow> char" where
  "js_lower_char c = (let n = of_char c :: nat in
     if (65 \<le> n \<and> n \<le> 90) \<or> (192 \<le> n \<and> n \<le> 222 \<and> n \<noteq> 215) then char_of (n + 32) else c)"

definition js_lower :: "string \<Rightarrow> string" where
  "js_lower s = map js_lower_char s"

definition normalizeAiSessionLifecycle :: "string option \<Rightarrow> lifecycle" where
  "normalizeAiSessionLifecycle value =
     (let normalized = js_lower (js_trim (str_of value)) in
      if normalized = ''waiting'' then Waiting
      else if normalized = ''failed'' then Failed
      else if normalized \<in> set [''idle'', ''completed'', ''stale'', ''stopped'', ''exited''] then Idle
      else Running)"

fun lifecycle_name :: "lifecycle \<Rightarrow> string" where
  "lifecycle_name Running = ''running''"
| "lifecycle_name Waiting = ''waiting''"
| "lifecycle_name Idle = ''idle''"
| "lifecycle_name Failed = ''failed''"

fun phase_name :: "phase \<Rightarrow> string" where
  "phase_name Thinking = ''thinking''"
| "phase_name ToolPhase = ''tool''"
| "phase_name Editing = ''editing''"
| "phase_name ApprovalPhase = ''approval''"
| "phase_name Responding = ''responding''"
| "phase_name UnknownPhase = ''unknown''"

definition normalizeAiSessionPhase :: "string \<Rightarrow> phase" where
  "normalizeAiSessionPhase value =
     (case List.find (\<lambda>p. phase_name p = value) [Thinking, ToolPhase, Editing, ApprovalPhase, Responding, UnknownPhase] of
        Some p \<Rightarrow> p | None \<Rightarrow> UnknownPhase)"

lemma lifecycle_round_trip: "normalizeAiSessionLifecycle (Some (lifecycle_name s)) = s"
  by (cases s) (simp_all add: normalizeAiSessionLifecycle_def js_trim_def js_space_def js_lower_def js_lower_char_def)

lemma phase_round_trip: "normalizeAiSessionPhase (phase_name p) = p"
  by (cases p) (simp_all add: normalizeAiSessionPhase_def)

section \<open>Tools, binding keys, actions\<close>

definition nonblank_compact :: "nat \<Rightarrow> string option \<Rightarrow> string option" where
  "nonblank_compact n v = (case v of None \<Rightarrow> None | Some s \<Rightarrow> if js_trim s \<noteq> [] then Some (compact s n) else None)"

definition normalizeTool :: "ai_tool \<Rightarrow> ai_tool option" where
  "normalizeTool record =
     (if js_trim (tl_name record) = [] then None
      else Some \<lparr>tl_id = nonblank_compact 240 (tl_id record), tl_kind = nonblank_compact 80 (tl_kind record),
        tl_name = compact (tl_name record) 120, tl_inputPreview = nonblank_compact 500 (tl_inputPreview record),
        tl_startedAt = (case tl_startedAt record of Some s \<Rightarrow> if datetime_text s then Some s else None | None \<Rightarrow> None)\<rparr>)"

definition normalizeStringArray :: "string list \<Rightarrow> nat \<Rightarrow> nat \<Rightarrow> string list option" where
  "normalizeStringArray value maxItems maxLength =
     (let items = take maxItems (js_uniq (filter (\<lambda>s. s \<noteq> []) (map (\<lambda>s. compact s maxLength) value)))
      in if items = [] then None else Some items)"

definition normalizeActions :: "ai_actions \<Rightarrow> ai_actions option" where
  "normalizeActions actions = (if actions = no_actions then None else Some actions)"

section \<open>Sub-agents\<close>

definition sub_agent_time :: "sub_agent \<Rightarrow> int" where
  "sub_agent_time a = (case date_parse (sa_updatedAt a) of Some t \<Rightarrow> t | None \<Rightarrow> 0)"

definition sub_agent_step :: "(string, sub_agent) jmap \<Rightarrow> sub_agent \<Rightarrow> (string, sub_agent) jmap" where
  "sub_agent_step byThreadId item =
     (case sub_agent_parse item of
        None \<Rightarrow> byThreadId
      | Some data \<Rightarrow>
          if \<not> isCurrentAiSessionSubAgent data then byThreadId
          else (case jmap_get byThreadId (sa_threadId data) of
                  Some previous \<Rightarrow> if sub_agent_time data \<ge> sub_agent_time previous
                                     then jmap_set (sa_threadId data) data byThreadId else byThreadId
                | None \<Rightarrow> jmap_set (sa_threadId data) data byThreadId))"

text \<open>
  The comparison \<^verbatim>\<open>Date.parse(right.updatedAt) - Date.parse(left.updatedAt) || left.threadId.localeCompare(right.threadId)\<close>
  of two entries is not positive.
\<close>

definition sub_agent_le :: "(string \<Rightarrow> string \<Rightarrow> bool) \<Rightarrow> sub_agent \<Rightarrow> sub_agent \<Rightarrow> bool" where
  "sub_agent_le le left right = (sub_agent_time right < sub_agent_time left
     \<or> sub_agent_time right = sub_agent_time left \<and> le (sa_threadId left) (sa_threadId right))"

definition normalizeAiSessionSubAgents :: "(string \<Rightarrow> string \<Rightarrow> bool) \<Rightarrow> sub_agent list \<Rightarrow> sub_agent list" where
  "normalizeAiSessionSubAgents le value =
     take 50 (js_sort (sub_agent_le le) (jmap_values (foldl sub_agent_step [] value)))"

definition sub_agent_clean :: "sub_agent \<Rightarrow> bool" where
  "sub_agent_clean a = (sub_agent_parse a = Some a \<and> isCurrentAiSessionSubAgent a)"

interpretation sa: keyed_fold sa_threadId sub_agent_step sub_agent_clean "\<lambda>_. True"
proof
  fix x :: sub_agent and m :: "(string, sub_agent) jmap"
  assume "sub_agent_clean x" "sa_threadId x \<notin> set (jmap_keys m)"
  then show "sub_agent_step m x = m @ [(sa_threadId x, x)]"
    by (simp add: sub_agent_clean_def sub_agent_step_def jmap_get_None[THEN iffD2] jmap_set_new)
next
  fix x :: sub_agent and m :: "(string, sub_agent) jmap"
  assume m: "jmap_ok m \<and> (\<forall>(k, v) \<in> set m. sa_threadId v = k \<and> sub_agent_clean v)"
  show "jmap_ok (sub_agent_step m x) \<and> (\<forall>(k, v) \<in> set (sub_agent_step m x). sa_threadId v = k \<and> sub_agent_clean v)"
  proof (cases "sub_agent_parse x")
    case None
    with m show ?thesis by (simp add: sub_agent_step_def)
  next
    case (Some d)
    have "sub_agent_step m x = m \<or> sub_agent_step m x = jmap_set (sa_threadId d) d m \<and> isCurrentAiSessionSubAgent d"
      using Some by (auto simp: sub_agent_step_def split: option.splits)
    then show ?thesis
    proof
      assume 2: "sub_agent_step m x = jmap_set (sa_threadId d) d m \<and> isCurrentAiSessionSubAgent d"
      then have "sub_agent_clean d" using sub_agent_parse_idem[OF Some] by (simp add: sub_agent_clean_def)
      with 2 m show ?thesis by (auto simp: jm.ok_put set_jmap_set)
    qed (use m in simp)
  qed
qed

locale collation =
  fixes le :: "string \<Rightarrow> string \<Rightarrow> bool"
  assumes total: "le a b \<or> le b a" and trans: "le a b \<Longrightarrow> le b c \<Longrightarrow> le a c"
begin

lemma sub_agents_shape:
  "list_all sub_agent_clean (normalizeAiSessionSubAgents le xs)
   \<and> distinct (map sa_threadId (normalizeAiSessionSubAgents le xs))
   \<and> sorted_wrt (sub_agent_le le) (normalizeAiSessionSubAgents le xs)"
proof -
  let ?v = "jmap_values (foldl sub_agent_step [] xs)" and ?n = "normalizeAiSessionSubAgents le xs"
  have v: "list_all sub_agent_clean ?v" "distinct (map sa_threadId ?v)"
    using sa.values_clean[of xs] by (simp_all add: list_all_iff)
  have sorted: "sorted_wrt (sub_agent_le le) (js_sort (sub_agent_le le) ?v)"
  proof (rule js_sort_sorted)
    fix a b
    show "sub_agent_le le a b \<or> sub_agent_le le b a"
      using total[of "sa_threadId a" "sa_threadId b"] by (auto simp: sub_agent_le_def)
  next
    fix a b c
    assume "sub_agent_le le a b" "sub_agent_le le b c"
    then show "sub_agent_le le a c"
      using trans[of "sa_threadId a" "sa_threadId b" "sa_threadId c"] by (auto simp: sub_agent_le_def)
  qed
  have n: "?n = take 50 (js_sort (sub_agent_le le) ?v)" by (simp add: normalizeAiSessionSubAgents_def)
  have "list_all sub_agent_clean ?n"
    using v(1) set_take_subset[of 50 "js_sort (sub_agent_le le) ?v"] by (auto simp: n list_all_iff)
  moreover have "distinct (map sa_threadId ?n)"
  proof -
    have "distinct (map sa_threadId (js_sort (sub_agent_le le) ?v))" using v(2) by (simp only: distinct_map_js_sort)
    then show ?thesis by (simp add: n take_map[symmetric] distinct_take)
  qed
  moreover have "sorted_wrt (sub_agent_le le) ?n" using sorted by (simp add: n sorted_wrt_take)
  ultimately show ?thesis by simp
qed

lemma sub_agents_idem:
  "normalizeAiSessionSubAgents le (normalizeAiSessionSubAgents le xs) = normalizeAiSessionSubAgents le xs"
proof -
  let ?n = "normalizeAiSessionSubAgents le xs"
  have "length ?n \<le> 50" by (simp add: normalizeAiSessionSubAgents_def)
  then show ?thesis
    using sub_agents_shape[of xs] sa.collect_clean[of ?n] js_sort_id[of "sub_agent_le le" ?n]
    by (simp add: normalizeAiSessionSubAgents_def[of le ?n])
qed

end

text \<open>What the code relies on of \<^verbatim>\<open>localeCompare\<close>; the comparison by code unit is one such order.\<close>

interpretation code_units: collation "(\<le>) :: string \<Rightarrow> string \<Rightarrow> bool"
  by unfold_locales auto

text \<open>
  The sub-agents shown for a session are current and unique: after normalising any list
  there is at most one entry per thread, none of them completed, at most 50 in all, newest first
  (ties by thread id), and normalising again changes nothing.
\<close>

theorem sub_agents_normalised:
  assumes "collation le"
  shows "distinct (map sa_threadId (normalizeAiSessionSubAgents le xs))
    \<and> list_all isCurrentAiSessionSubAgent (normalizeAiSessionSubAgents le xs)
    \<and> length (normalizeAiSessionSubAgents le xs) \<le> 50
    \<and> sorted_wrt (sub_agent_le le) (normalizeAiSessionSubAgents le xs)
    \<and> normalizeAiSessionSubAgents le (normalizeAiSessionSubAgents le xs) = normalizeAiSessionSubAgents le xs"
proof -
  have "length (normalizeAiSessionSubAgents le xs) \<le> 50" by (simp add: normalizeAiSessionSubAgents_def)
  then show ?thesis
    using collation.sub_agents_shape[OF assms, of xs] collation.sub_agents_idem[OF assms, of xs]
    by (auto simp: list_all_iff sub_agent_clean_def)
qed

definition demo_sub_agent :: sub_agent where
  "demo_sub_agent = \<lparr>sa_threadId = ''t1'', sa_path = None, sa_status = SubRunning, sa_activity = None, sa_message = None,
     sa_updatedAt = to_iso 0\<rparr>"

theorem sub_agents_normalised_witness:
  "distinct (map sa_threadId (normalizeAiSessionSubAgents (\<le>) [demo_sub_agent, demo_sub_agent, demo_sub_agent\<lparr>sa_status := Completed\<rparr>]))"
  using sub_agents_normalised[OF code_units.collation_axioms] by blast

section \<open>The message queue\<close>

definition normalizeAiSessionReferences :: "ai_reference list \<Rightarrow> ai_reference list" where
  "normalizeAiSessionReferences value = take 20 (List.map_filter reference_parse value)"

definition normalizeAiSessionMessageAttachmentMetas :: "attachment_meta list \<Rightarrow> attachment_meta list" where
  "normalizeAiSessionMessageAttachmentMetas value = take 6 (List.map_filter attachment_meta_parse value)"

record message_attachment =
  ma_id :: string
  ma_kind :: attachment_kind
  ma_name :: string
  ma_mime :: string
  ma_size :: int
  ma_source :: source_type
  ma_data :: string

text \<open>The attachments of a message have been parsed before, so that \<^verbatim>\<open>parse\<close> does not throw here.\<close>

definition aiSessionAttachmentMetas :: "message_attachment list \<Rightarrow> attachment_meta list" where
  "aiSessionAttachmentMetas attachments = map (\<lambda>a. \<lparr>am_id = ma_id a, am_kind = ma_kind a, am_name = ma_name a,
     am_mime = ma_mime a, am_size = ma_size a, am_sourceType = ma_source a\<rparr>) (take 6 attachments)"

definition normalizeQueuedMessage :: "queued_message \<Rightarrow> queued_message option" where
  "normalizeQueuedMessage record = queued_message_parse (record\<lparr>
     qm_id := compact (qm_id record) 120,
     qm_messageId := nonblank_compact 240 (qm_messageId record),
     qm_message := messageText (qm_message record),
     qm_attachments := normalizeAiSessionMessageAttachmentMetas (qm_attachments record),
     qm_references := normalizeAiSessionReferences (qm_references record),
     qm_error := (if truthy (qm_error record) then Some (compact (str_of (qm_error record)) 4000) else None)\<rparr>)"

fun queueStatusRank :: "queue_status \<Rightarrow> nat" where
  "queueStatusRank Sending = 0"
| "queueStatusRank Queued = 1"
| "queueStatusRank QueueFailed = 2"

definition rank_le :: "queued_message \<Rightarrow> queued_message \<Rightarrow> bool" where
  "rank_le left right = (queueStatusRank (qm_status left) \<le> queueStatusRank (qm_status right))"

definition emptyAiSessionQueue :: message_queue where
  "emptyAiSessionQueue = \<lparr>mq_revision = 0, mq_pendingCount = 0, mq_paused = None, mq_items = []\<rparr>"

definition normalizeAiSessionQueueItems :: "queued_message list \<Rightarrow> int \<Rightarrow> bool \<Rightarrow> message_queue" where
  "normalizeAiSessionQueueItems items revision paused =
     (let normalizedItems = js_sort rank_le (take 100 (List.map_filter normalizeQueuedMessage items)) in
      \<lparr>mq_revision = normalizeNonNegativeInteger revision,
       mq_pendingCount = length (filter (\<lambda>item. qm_status item = Queued \<or> qm_status item = Sending) normalizedItems),
       mq_paused = (if paused then Some True else None),
       mq_items = normalizedItems\<rparr>)"

definition normalizeAiSessionQueue :: "message_queue \<Rightarrow> message_queue" where
  "normalizeAiSessionQueue q = normalizeAiSessionQueueItems (mq_items q) (mq_revision q) (mq_paused q = Some True)"

text \<open>
  A stored item is clean when normalising leaves it alone. Normalising gives clean items, provided
  an error text is not blank (a blank one would be dropped by the next pass).
\<close>

definition queue_item_clean :: "queued_message \<Rightarrow> bool" where
  "queue_item_clean q = (normalizeQueuedMessage q = Some q)"

definition error_not_blank :: "queued_message \<Rightarrow> bool" where
  "error_not_blank q = (case qm_error q of None \<Rightarrow> True | Some e \<Rightarrow> e = [] \<or> js_trim e \<noteq> [])"

lemma set_map_filter: "x \<in> set (List.map_filter p xs) \<longleftrightarrow> (\<exists>y \<in> set xs. p y = Some x)"
  by (induction xs) (auto simp: List.map_filter_simps split: option.splits)

lemma take_map_filter_mem:
  assumes "\<And>a b. p a = Some b \<Longrightarrow> p b = Some b" and "x \<in> set (take n (List.map_filter p xs))"
  shows "p x = Some x"
proof -
  have "x \<in> set (List.map_filter p xs)" using assms(2) by (rule in_set_takeD)
  then obtain y where "p y = Some x" by (auto simp: set_map_filter)
  then show ?thesis by (rule assms(1))
qed

lemma take_map_filter_fixed:
  assumes "\<And>a b. p a = Some b \<Longrightarrow> p b = Some b"
  shows "List.map_filter p (take n (List.map_filter p xs)) = take n (List.map_filter p xs)"
  by (rule map_filter_fixed) (rule take_map_filter_mem[OF assms])

lemma parse_all_fixed: "(\<And>x. x \<in> set xs \<Longrightarrow> p x = Some x) \<Longrightarrow> parse_all p xs = Some xs"
  by (auto simp: parse_all_def list_all_iff intro!: map_idI)

lemma metas_fixed:
  "x \<in> set (normalizeAiSessionMessageAttachmentMetas as) \<Longrightarrow> attachment_meta_parse x = Some x"
  unfolding normalizeAiSessionMessageAttachmentMetas_def
  by (rule take_map_filter_mem[OF attachment_meta_parse_idem])

lemma refs_fixed: "x \<in> set (normalizeAiSessionReferences rs) \<Longrightarrow> reference_parse x = Some x"
  unfolding normalizeAiSessionReferences_def by (rule take_map_filter_mem[OF reference_parse_idem])

lemma metas_idem:
  "normalizeAiSessionMessageAttachmentMetas (normalizeAiSessionMessageAttachmentMetas as) = normalizeAiSessionMessageAttachmentMetas as"
  unfolding normalizeAiSessionMessageAttachmentMetas_def
  by (simp only: take_map_filter_fixed[OF attachment_meta_parse_idem] take_take min.idem)

lemma refs_idem: "normalizeAiSessionReferences (normalizeAiSessionReferences rs) = normalizeAiSessionReferences rs"
  unfolding normalizeAiSessionReferences_def
  by (simp only: take_map_filter_fixed[OF reference_parse_idem] take_take min.idem)

lemma nonblank_compact_idem [simp]: "3 \<le> n \<Longrightarrow> nonblank_compact n (nonblank_compact n v) = nonblank_compact n v"
  by (cases v) (auto simp: nonblank_compact_def compact_shape compact_Nil)

lemma opt_text_nonblank:
  "3 \<le> n \<Longrightarrow> opt_text (nonempty_text n) (nonblank_compact n v) = Some (nonblank_compact n v)"
  by (cases v) (auto simp: opt_text_def nonblank_compact_def nonempty_text_def Let_def compact_shape compact_Nil length_compact)

lemma compact_nonempty_text: "3 \<le> n \<Longrightarrow> nonempty_text n (compact s n) = (if js_trim s = [] then None else Some (compact s n))"
  by (simp add: nonempty_text_def Let_def compact_shape compact_Nil length_compact)

text \<open>The normalised item, written out: the schema only rejects, it changes nothing any more.\<close>

lemma normalizeQueuedMessage_Some:
  "normalizeQueuedMessage q = Some r \<longleftrightarrow>
     js_trim (qm_id q) \<noteq> [] \<and> js_trim (qm_message q) \<noteq> [] \<and> length (js_trim (qm_message q)) \<le> 20000
     \<and> datetime_text (qm_createdAt q) \<and> datetime_text (qm_updatedAt q)
     \<and> r = q\<lparr>qm_id := compact (qm_id q) 120, qm_messageId := nonblank_compact 240 (qm_messageId q),
         qm_message := js_trim (qm_message q),
         qm_attachments := normalizeAiSessionMessageAttachmentMetas (qm_attachments q),
         qm_references := normalizeAiSessionReferences (qm_references q),
         qm_error := (if truthy (qm_error q) then Some (compact (str_of (qm_error q)) 4000) else None)\<rparr>"
proof -
  have err: "opt_text (trimmed_text 4000) (if truthy e then Some (compact (str_of e) 4000) else None)
      = Some (if truthy e then Some (compact (str_of e) 4000) else None)" for e
    by (simp add: opt_text_def trimmed_text_def compact_shape length_compact)
  have lens: "length (normalizeAiSessionMessageAttachmentMetas as) \<le> 6" "length (normalizeAiSessionReferences rs) \<le> 20" for as rs
    by (simp_all add: normalizeAiSessionMessageAttachmentMetas_def normalizeAiSessionReferences_def)
  have msg: "nonempty_text 20000 (js_trim m)
      = (if js_trim m \<noteq> [] \<and> length (js_trim m) \<le> 20000 then Some (js_trim m) else None)" for m
    by (simp add: nonempty_text_def)
  show ?thesis
    unfolding normalizeQueuedMessage_def queued_message_parse_def
    by (auto simp: compact_nonempty_text opt_text_nonblank err lens parse_all_fixed[OF metas_fixed] parse_all_fixed[OF refs_fixed]
        messageText_def msg)
qed

lemma normalizeQueuedMessage_clean:
  assumes "normalizeQueuedMessage q = Some r" and "error_not_blank q"
  shows "queue_item_clean r"
proof -
  have "nonempty_text n (compact s n) = Some (compact s n)" if "3 \<le> n" "js_trim s \<noteq> []" for n s
    using that by (simp add: compact_nonempty_text)
  then show ?thesis
    using assms unfolding queue_item_clean_def normalizeQueuedMessage_Some error_not_blank_def
    by (auto simp: compact_shape compact_Nil metas_idem refs_idem split: option.splits)
qed

text \<open>The invariant of a stored queue.\<close>

definition queue_ok :: "message_queue \<Rightarrow> bool" where
  "queue_ok q = (list_all queue_item_clean (mq_items q) \<and> sorted_wrt rank_le (mq_items q) \<and> length (mq_items q) \<le> 100
     \<and> mq_pendingCount q = length (filter (\<lambda>item. qm_status item = Queued \<or> qm_status item = Sending) (mq_items q))
     \<and> 0 \<le> mq_revision q \<and> (mq_paused q = None \<or> mq_paused q = Some True))"

lemma rank_le_sorted: "sorted_wrt rank_le (js_sort rank_le xs)"
  by (rule js_sort_sorted) (auto simp: rank_le_def)

lemma queue_items_ok:
  assumes "list_all error_not_blank items"
  shows "queue_ok (normalizeAiSessionQueueItems items revision paused)"
proof -
  have "queue_item_clean x" if "x \<in> set (take 100 (List.map_filter normalizeQueuedMessage items))" for x
  proof -
    have "x \<in> set (List.map_filter normalizeQueuedMessage items)" using that by (rule in_set_takeD)
    then obtain y where "y \<in> set items" "normalizeQueuedMessage y = Some x" by (auto simp: set_map_filter)
    with assms show ?thesis by (intro normalizeQueuedMessage_clean[of y]) (auto simp: list_all_iff)
  qed
  then show ?thesis
    using rank_le_sorted
    by (auto simp: queue_ok_def normalizeAiSessionQueueItems_def Let_def list_all_iff normalizeNonNegativeInteger_def)
qed

lemma queue_items_clean_list:
  "list_all queue_item_clean items \<Longrightarrow> mq_items (normalizeAiSessionQueueItems items revision paused) = js_sort rank_le (take 100 items)"
  by (simp add: normalizeAiSessionQueueItems_def Let_def map_filter_fixed queue_item_clean_def list_all_iff)

lemma clean_error_not_blank: "queue_item_clean q \<Longrightarrow> error_not_blank q"
proof -
  assume "queue_item_clean q"
  then have "q = q\<lparr>qm_id := compact (qm_id q) 120, qm_messageId := nonblank_compact 240 (qm_messageId q),
         qm_message := js_trim (qm_message q),
         qm_attachments := normalizeAiSessionMessageAttachmentMetas (qm_attachments q),
         qm_references := normalizeAiSessionReferences (qm_references q),
         qm_error := (if truthy (qm_error q) then Some (compact (str_of (qm_error q)) 4000) else None)\<rparr>"
    unfolding queue_item_clean_def normalizeQueuedMessage_Some by blast
  from arg_cong[OF this, of qm_error]
  have "qm_error q = (if truthy (qm_error q) then Some (compact (str_of (qm_error q)) 4000) else None)"
    by (rule trans) simp
  then have e: "e = compact e 4000" if "qm_error q = Some e" "e \<noteq> []" for e using that by simp
  have "js_trim e \<noteq> []" if "qm_error q = Some e" "e \<noteq> []" for e
    using e[OF that] that(2) compact_Nil[of 4000 e] by simp
  then show ?thesis by (auto simp: error_not_blank_def split: option.splits)
qed

end
