(* ===== verification/Session_Queue.thy ===== *)
theory Session_Queue
  imports Session_Persistence
begin

text \<open>
  The queue of messages waiting to be sent to an agent
  (\<^verbatim>\<open>packages/ai-session-runtime/src/ai-session/queue-service.ts\<close>). The service works on a session
  given by the caller and owns only the attachment payloads, a \<^verbatim>\<open>Map\<close> from queue ids; the clock
  reading and the generated queue id are arguments. The invariant of the stored queue is
  \<open>queue_ok\<close>: clean items, sending before queued before failed, at most 100, an exact pending count.
\<close>

section \<open>Operations\<close>

type_synonym payload_map = "(string, message_attachment list) jmap"

datatype reorder_result =
    ReorderUpdated ai_session
  | ReorderUnchanged ai_session
  | ReorderConflict int
  | OrderInvalid

datatype edit_result =
    EditUpdated ai_session
  | EditUnchanged ai_session
  | EditConflict int
  | EditNotFound
  | EditNotEditable

definition queuedMessages :: "ai_session option \<Rightarrow> message_queue" where
  "queuedMessages current = (case current of Some s \<Rightarrow> ss_queue s | None \<Rightarrow> emptyAiSessionQueue)"

definition withQueue :: "ai_session \<Rightarrow> queued_message list \<Rightarrow> string \<Rightarrow> ai_session" where
  "withQueue current items updatedAt =
     current\<lparr>ss_updatedAt := updatedAt,
       ss_queue := normalizeAiSessionQueueItems items (mq_revision (ss_queue current) + 1)
         (mq_paused (ss_queue current) = Some True)\<rparr>"

definition new_queue_item :: "string \<Rightarrow> string option \<Rightarrow> string \<Rightarrow> message_attachment list \<Rightarrow> ai_reference list
    \<Rightarrow> permission_mode option \<Rightarrow> string \<Rightarrow> queued_message" where
  "new_queue_item queueId messageId message attachments references permissionMode timestamp =
     \<lparr>qm_id = queueId, qm_messageId = (if truthy messageId then messageId else None), qm_message = messageText message,
      qm_attachments = aiSessionAttachmentMetas attachments, qm_references = references,
      qm_permissionMode = permissionMode, qm_status = Queued, qm_createdAt = timestamp, qm_updatedAt = timestamp,
      qm_error = None\<rparr>"

definition enqueueMessage :: "string \<Rightarrow> string \<Rightarrow> ai_session \<Rightarrow> string \<Rightarrow> message_attachment list \<Rightarrow> ai_reference list
    \<Rightarrow> permission_mode option \<Rightarrow> string option \<Rightarrow> payload_map \<Rightarrow> (ai_session \<times> queued_message) option \<times> payload_map" where
  "enqueueMessage timestamp queueId current message attachments references permissionMode messageId payloads =
     (let item = new_queue_item queueId messageId message attachments references permissionMode timestamp;
          session = withQueue current (mq_items (queuedMessages (Some current)) @ [item]) timestamp
      in if \<not> list_ex (\<lambda>entry. qm_id entry = qm_id item) (mq_items (ss_queue session)) then (None, payloads)
         else (Some (session, item),
               if attachments \<noteq> [] then jmap_set (qm_id item) (take 6 attachments) payloads else payloads))"

definition nextQueuedMessage :: "ai_session option \<Rightarrow> queued_message option" where
  "nextQueuedMessage current = List.find (\<lambda>item. qm_status item = Queued) (mq_items (queuedMessages current))"

definition queuedMessageAttachments :: "string \<Rightarrow> payload_map \<Rightarrow> message_attachment list" where
  "queuedMessageAttachments queueId payloads = (case jmap_get payloads queueId of Some xs \<Rightarrow> xs | None \<Rightarrow> [])"

definition patchQueuedMessage :: "string \<Rightarrow> ai_session \<Rightarrow> string \<Rightarrow> queue_status \<Rightarrow> string option \<Rightarrow> ai_session option" where
  "patchQueuedMessage timestamp current queueId status error =
     (let items = mq_items (queuedMessages (Some current)) in
      if list_ex (\<lambda>item. qm_id item = queueId) items
      then Some (withQueue current (map (\<lambda>item. if qm_id item \<noteq> queueId then item
             else item\<lparr>qm_status := status, qm_error := error, qm_updatedAt := timestamp\<rparr>) items) timestamp)
      else None)"

definition markQueuedMessageSending :: "string \<Rightarrow> ai_session \<Rightarrow> string \<Rightarrow> ai_session option" where
  "markQueuedMessageSending timestamp current queueId = patchQueuedMessage timestamp current queueId Sending None"

definition markQueuedMessageFailed :: "string \<Rightarrow> ai_session \<Rightarrow> string \<Rightarrow> string \<Rightarrow> ai_session option" where
  "markQueuedMessageFailed timestamp current queueId error =
     patchQueuedMessage timestamp current queueId QueueFailed (Some (compact error 4000))"

definition retryQueuedMessage :: "string \<Rightarrow> ai_session \<Rightarrow> string \<Rightarrow> ai_session option" where
  "retryQueuedMessage timestamp current queueId =
     (case List.find (\<lambda>entry. qm_id entry = queueId) (mq_items (queuedMessages (Some current))) of
        None \<Rightarrow> None
      | Some item \<Rightarrow>
          Some (withQueue current (filter (\<lambda>entry. qm_id entry \<noteq> queueId) (mq_items (queuedMessages (Some current)))
            @ [item\<lparr>qm_status := Queued, qm_error := None, qm_updatedAt := timestamp\<rparr>]) timestamp))"

definition removeQueuedMessage :: "string \<Rightarrow> ai_session \<Rightarrow> string \<Rightarrow> payload_map \<Rightarrow> ai_session option \<times> payload_map" where
  "removeQueuedMessage timestamp current queueId payloads =
     (let items = mq_items (queuedMessages (Some current)) in
      if \<not> list_ex (\<lambda>item. qm_id item = queueId) items then (None, payloads)
      else (Some (withQueue current (filter (\<lambda>item. qm_id item \<noteq> queueId) items) timestamp), jmap_delete queueId payloads))"

record attachment_update =
  au_attachments :: "attachment_meta list"
  au_payloads :: "message_attachment list"
  au_messageId :: string

definition editQueuedMessage :: "string \<Rightarrow> ai_session \<Rightarrow> string \<Rightarrow> int \<Rightarrow> string \<Rightarrow> attachment_update option
    \<Rightarrow> payload_map \<Rightarrow> edit_result \<times> payload_map" where
  "editQueuedMessage timestamp current queueId expectedRevision message attachmentUpdate payloads =
     (if mq_revision (ss_queue current) \<noteq> expectedRevision
      then (EditConflict (mq_revision (ss_queue current)), payloads)
      else case List.find (\<lambda>entry. qm_id entry = queueId) (mq_items (queuedMessages (Some current))) of
          None \<Rightarrow> (EditNotFound, payloads)
        | Some item \<Rightarrow>
            if qm_status item \<noteq> Queued then (EditNotEditable, payloads)
            else let normalizedMessage = messageText message in
              if qm_message item = normalizedMessage \<and> attachmentUpdate = None then (EditUnchanged current, payloads)
              else let items = map (\<lambda>entry. if qm_id entry = queueId
                       then (case attachmentUpdate of
                               Some u \<Rightarrow> entry\<lparr>qm_message := normalizedMessage, qm_attachments := au_attachments u,
                                   qm_messageId := Some (au_messageId u), qm_updatedAt := timestamp\<rparr>
                             | None \<Rightarrow> entry\<lparr>qm_message := normalizedMessage, qm_updatedAt := timestamp\<rparr>)
                       else entry) (mq_items (queuedMessages (Some current)))
                in (EditUpdated (withQueue current items timestamp),
                    case attachmentUpdate of
                      Some u \<Rightarrow> if au_payloads u \<noteq> [] then jmap_set queueId (au_payloads u) payloads else jmap_delete queueId payloads
                    | None \<Rightarrow> payloads))"

text \<open>
  The requested ids must be the ids of the queued items in another order: \<^verbatim>\<open>requested.size\<close> is the
  number of different ids. An id that \<^verbatim>\<open>byId\<close> does not know would give an undefined entry, which the
  normaliser of the queue drops.
\<close>

definition reorderQueuedMessages :: "string \<Rightarrow> ai_session \<Rightarrow> int \<Rightarrow> string list \<Rightarrow> reorder_result" where
  "reorderQueuedMessages timestamp current expectedRevision queueIds =
     (if mq_revision (ss_queue current) \<noteq> expectedRevision then ReorderConflict (mq_revision (ss_queue current))
      else let currentItems = mq_items (queuedMessages (Some current));
               queuedItems = filter (\<lambda>item. qm_status item = Queued) currentItems
        in if length (js_uniq queueIds) \<noteq> length queueIds \<or> length queueIds \<noteq> length queuedItems
              \<or> list_ex (\<lambda>item. qm_id item \<notin> set queueIds) queuedItems
           then OrderInvalid
           else if map qm_id queuedItems = queueIds then ReorderUnchanged current
           else let byId = foldl (\<lambda>m item. jmap_set (qm_id item) item m) [] queuedItems;
                    ordered = List.map_filter (jmap_get byId) queueIds;
                    nonQueued = filter (\<lambda>item. qm_status item \<noteq> Queued) currentItems
             in ReorderUpdated (withQueue current (nonQueued @ ordered) timestamp))"

definition setQueuePaused :: "string \<Rightarrow> ai_session \<Rightarrow> bool \<Rightarrow> ai_session" where
  "setQueuePaused timestamp current paused =
     (if (mq_paused (ss_queue current) = Some True) = paused then current
      else current\<lparr>ss_updatedAt := timestamp,
             ss_queue := normalizeAiSessionQueueItems (mq_items (queuedMessages (Some current)))
               (mq_revision (ss_queue current)) paused\<rparr>)"

section \<open>The queue invariant\<close>

datatype queue_op =
    QEnqueue string string string "message_attachment list" "ai_reference list" "permission_mode option" "string option"
  | QSending string string
  | QFailed string string string
  | QRetry string string
  | QRemove string string
  | QEdit string string int string "attachment_update option"
  | QReorder string int "string list"
  | QPause string bool

definition opt_session :: "ai_session \<Rightarrow> ai_session option \<Rightarrow> ai_session" where
  "opt_session current r = (case r of Some s \<Rightarrow> s | None \<Rightarrow> current)"

fun queue_step :: "ai_session \<times> payload_map \<Rightarrow> queue_op \<Rightarrow> ai_session \<times> payload_map" where
  "queue_step (s, p) (QEnqueue now qid message atts refs pm mid) =
     (case enqueueMessage now qid s message atts refs pm mid p of
        (Some (s', _), p') \<Rightarrow> (s', p') | (None, p') \<Rightarrow> (s, p'))"
| "queue_step (s, p) (QSending now qid) = (opt_session s (markQueuedMessageSending now s qid), p)"
| "queue_step (s, p) (QFailed now qid e) = (opt_session s (markQueuedMessageFailed now s qid e), p)"
| "queue_step (s, p) (QRetry now qid) = (opt_session s (retryQueuedMessage now s qid), p)"
| "queue_step (s, p) (QRemove now qid) = (case removeQueuedMessage now s qid p of (r, p') \<Rightarrow> (opt_session s r, p'))"
| "queue_step (s, p) (QEdit now qid er message upd) =
     (case editQueuedMessage now s qid er message upd p of (EditUpdated s', p') \<Rightarrow> (s', p') | (_, p') \<Rightarrow> (s, p'))"
| "queue_step (s, p) (QReorder now er ids) =
     (case reorderQueuedMessages now s er ids of ReorderUpdated s' \<Rightarrow> (s', p) | _ \<Rightarrow> (s, p))"
| "queue_step (s, p) (QPause now paused) = (setQueuePaused now s paused, p)"

definition queue_state_ok :: "ai_session \<times> payload_map \<Rightarrow> bool" where
  "queue_state_ok sp = queue_ok (ss_queue (fst sp))"

lemma withQueue_ok: "list_all error_not_blank items \<Longrightarrow> queue_ok (ss_queue (withQueue s items now))"
  by (simp add: withQueue_def queue_items_ok)

lemma queue_ok_errors: "queue_ok q \<Longrightarrow> list_all error_not_blank (mq_items q)"
  by (auto simp: queue_ok_def list_all_iff clean_error_not_blank)

lemma queuedMessages_Some [simp]: "queuedMessages (Some s) = ss_queue s"
  by (simp add: queuedMessages_def)

lemma patch_ok:
  assumes "queue_ok (ss_queue s)" and "case e of None \<Rightarrow> True | Some t \<Rightarrow> t = [] \<or> js_trim t \<noteq> []"
  shows "queue_ok (ss_queue (opt_session s (patchQueuedMessage now s qid st e)))"
proof -
  have "error_not_blank (item\<lparr>qm_status := st, qm_error := e, qm_updatedAt := now\<rparr>)" for item
    using assms(2) by (simp add: error_not_blank_def)
  with queue_ok_errors[OF assms(1)] have "list_all error_not_blank (map (\<lambda>item. if qm_id item \<noteq> qid then item
             else item\<lparr>qm_status := st, qm_error := e, qm_updatedAt := now\<rparr>) (mq_items (ss_queue s)))"
    by (auto simp: list_all_iff)
  with assms(1) show ?thesis by (simp add: patchQueuedMessage_def Let_def opt_session_def withQueue_ok)
qed

lemma enqueue_ok:
  assumes "queue_ok (ss_queue s)" and "enqueueMessage now qid s message atts refs pm mid p = (Some (s', item), p')"
  shows "queue_ok (ss_queue s')"
proof -
  have "s' = withQueue s (mq_items (ss_queue s) @ [new_queue_item qid mid message atts refs pm now]) now"
    using assms(2) by (auto simp: enqueueMessage_def Let_def split: if_splits)
  then show ?thesis
    using queue_ok_errors[OF assms(1)] by (simp add: withQueue_ok new_queue_item_def error_not_blank_def)
qed

lemma retry_ok:
  assumes "queue_ok (ss_queue s)"
  shows "queue_ok (ss_queue (opt_session s (retryQueuedMessage now s qid)))"
proof -
  have "list_all error_not_blank (filter (\<lambda>entry. qm_id entry \<noteq> qid) (mq_items (ss_queue s))
      @ [item\<lparr>qm_status := Queued, qm_error := None, qm_updatedAt := now\<rparr>])" for item
    using queue_ok_errors[OF assms] by (auto simp: list_all_iff error_not_blank_def[of "item\<lparr>qm_status := _, qm_error := _, qm_updatedAt := _\<rparr>"])
  with assms show ?thesis by (simp add: retryQueuedMessage_def opt_session_def withQueue_ok split: option.splits)
qed

lemma remove_ok: "queue_ok (ss_queue s) \<Longrightarrow> queue_ok (ss_queue (opt_session s (fst (removeQueuedMessage now s qid p))))"
  using queue_ok_errors[of "ss_queue s"]
  by (auto simp: removeQueuedMessage_def Let_def opt_session_def list_all_iff intro!: withQueue_ok)

lemma edit_ok:
  assumes "queue_ok (ss_queue s)" and "editQueuedMessage now s qid er message upd p = (EditUpdated s', p')"
  shows "queue_ok (ss_queue s')"
proof -
  let ?f = "\<lambda>entry. if qm_id entry = qid
      then (case upd of
              Some u \<Rightarrow> entry\<lparr>qm_message := messageText message, qm_attachments := au_attachments u,
                  qm_messageId := Some (au_messageId u), qm_updatedAt := now\<rparr>
            | None \<Rightarrow> entry\<lparr>qm_message := messageText message, qm_updatedAt := now\<rparr>)
      else entry"
  have "s' = withQueue s (map ?f (mq_items (ss_queue s))) now"
    using assms(2) by (auto simp: editQueuedMessage_def Let_def split: if_splits option.splits)
  moreover have "error_not_blank (?f e) = error_not_blank e" for e
    by (simp add: error_not_blank_def split: option.splits)
  then have "list_all error_not_blank (map ?f (mq_items (ss_queue s)))"
    using queue_ok_errors[OF assms(1)] unfolding list_all_iff set_map by (blast intro: imageE)
  ultimately show ?thesis by (simp only: withQueue_ok)
qed

lemma foldl_by_id:
  "distinct (map qm_id xs) \<Longrightarrow> set (map qm_id xs) \<inter> set (jmap_keys m) = {} \<Longrightarrow>
     foldl (\<lambda>m item. jmap_set (qm_id item) item m) m xs = m @ map (\<lambda>x. (qm_id x, x)) xs"
  by (induction xs arbitrary: m) (auto simp: jmap_set_new)

lemma by_id_get:
  assumes "jmap_get (foldl (\<lambda>m item. jmap_set (qm_id item) item m) m xs) k = Some v" and "jmap_ok m"
  shows "v \<in> set xs \<or> jmap_get m k = Some v"
  using assms
proof (induction xs arbitrary: m)
  case (Cons x xs)
  from Cons.IH[of "jmap_set (qm_id x) x m"] Cons.prems show ?case
    by (auto simp: jm.ok_put jm.get_put split: if_splits)
qed simp

lemma reorder_ok:
  assumes "queue_ok (ss_queue s)" and "reorderQueuedMessages now s er ids = ReorderUpdated s'"
  shows "queue_ok (ss_queue s')"
proof -
  define items where "items = mq_items (ss_queue s)"
  define byId where "byId = foldl (\<lambda>m item. jmap_set (qm_id item) item m) [] (filter (\<lambda>item. qm_status item = Queued) items)"
  define ordered where "ordered = List.map_filter (jmap_get byId) ids"
  have s': "s' = withQueue s (filter (\<lambda>item. qm_status item \<noteq> Queued) items @ ordered) now"
    using assms(2) by (auto simp: reorderQueuedMessages_def Let_def items_def byId_def ordered_def split: if_splits)
  have "set ordered \<subseteq> set items"
  proof
    fix v
    assume "v \<in> set ordered"
    then obtain k where "jmap_get byId k = Some v" by (auto simp: ordered_def set_map_filter)
    from by_id_get[OF this[unfolded byId_def]] show "v \<in> set items" by simp
  qed
  then have "list_all error_not_blank (filter (\<lambda>item. qm_status item \<noteq> Queued) items @ ordered)"
    using queue_ok_errors[OF assms(1), folded items_def] by (auto simp: list_all_iff)
  with s' show ?thesis by (simp only: withQueue_ok)
qed

lemma pause_ok: "queue_ok (ss_queue s) \<Longrightarrow> queue_ok (ss_queue (setQueuePaused now s paused))"
  using queue_ok_errors[of "ss_queue s"] by (simp add: setQueuePaused_def queue_items_ok)

interpretation qs: step_system queue_step queue_state_ok
proof
  fix sp op
  assume "queue_state_ok sp"
  moreover obtain s p where sp: "sp = (s, p)" by (cases sp)
  ultimately have ok: "queue_ok (ss_queue s)" by (simp add: queue_state_ok_def)
  show "queue_state_ok (queue_step sp op)"
  proof (cases op)
    case (QEnqueue now qid message atts refs pm mid)
    then show ?thesis using ok sp enqueue_ok[OF ok, of now qid message atts refs pm mid p]
      by (auto simp: queue_state_ok_def split: prod.splits option.splits)
  next
    case (QFailed now qid e)
    have "compact e 4000 = [] \<or> js_trim (compact e 4000) \<noteq> []" using compact_shape[of e 4000] by auto
    then show ?thesis using QFailed patch_ok[OF ok] sp by (simp add: queue_state_ok_def markQueuedMessageFailed_def)
  next
    case (QEdit now qid er message upd)
    then show ?thesis using ok sp edit_ok[OF ok, of now qid er message upd p]
      by (auto simp: queue_state_ok_def split: prod.splits edit_result.splits)
  next
    case (QReorder now er ids)
    then show ?thesis using ok sp reorder_ok[OF ok, of now er ids]
      by (auto simp: queue_state_ok_def split: reorder_result.splits)
  next
    case (QRemove now qid)
    then show ?thesis using sp remove_ok[OF ok] by (simp add: queue_state_ok_def case_prod_beta)
  qed (use ok sp patch_ok[OF ok] retry_ok[OF ok] pause_ok[OF ok] in \<open>simp_all add: queue_state_ok_def markQueuedMessageSending_def\<close>)
qed

text \<open>
  Claim C33. The queue of a session stays well formed: after any sequence of enqueue, mark, retry,
  remove, edit, reorder and pause calls on a session with a well-formed queue, every item satisfies
  the protocol schema and normalises to itself, sending items come before queued ones and those
  before failed ones, there are at most 100 items, and the pending count is the number of queued
  and sending items.
\<close>

theorem queue_stays_well_formed:
  assumes "queue_ok (ss_queue s)" and "(s', p') = foldl queue_step (s, p) ops"
  shows "list_all (\<lambda>item. normalizeQueuedMessage item = Some item) (mq_items (ss_queue s'))
    \<and> sorted_wrt (\<lambda>a b. queueStatusRank (qm_status a) \<le> queueStatusRank (qm_status b)) (mq_items (ss_queue s'))
    \<and> length (mq_items (ss_queue s')) \<le> 100
    \<and> mq_pendingCount (ss_queue s') = length (filter (\<lambda>item. qm_status item = Queued \<or> qm_status item = Sending) (mq_items (ss_queue s')))"
proof -
  have "queue_state_ok (foldl queue_step (s, p) ops)"
    by (rule qs.good_run) (simp add: queue_state_ok_def assms(1))
  then have "queue_state_ok (s', p')" by (simp only: assms(2))
  moreover have "rank_le = (\<lambda>a b. queueStatusRank (qm_status a) \<le> queueStatusRank (qm_status b))"
    by (simp add: fun_eq_iff rank_le_def)
  moreover have "queue_item_clean = (\<lambda>item. normalizeQueuedMessage item = Some item)"
    by (simp add: fun_eq_iff queue_item_clean_def)
  ultimately show ?thesis by (simp add: queue_state_ok_def queue_ok_def)
qed

section \<open>First in, first out\<close>

lemma find_filter_hd: "List.find P xs = (case filter P xs of [] \<Rightarrow> None | x # _ \<Rightarrow> Some x)"
  by (induction xs) auto

text \<open>A new item that the schema accepts.\<close>

definition item_acceptable :: "queued_message \<Rightarrow> bool" where
  "item_acceptable q = (normalizeQueuedMessage q \<noteq> None \<and> compact (qm_id q) 120 = qm_id q)"

lemma filter_status_sort:
  "filter (\<lambda>item. qm_status item = st) (js_sort rank_le xs) = filter (\<lambda>item. qm_status item = st) xs"
  by (rule filter_js_sort) (simp add: rank_le_def)

lemma withQueue_items:
  "mq_items (ss_queue (withQueue s items now)) = js_sort rank_le (take 100 (List.map_filter normalizeQueuedMessage items))"
  by (simp add: withQueue_def normalizeAiSessionQueueItems_def Let_def)

lemma map_filter_clean: "list_all queue_item_clean xs \<Longrightarrow> List.map_filter normalizeQueuedMessage xs = xs"
  by (rule map_filter_fixed) (simp add: list_all_iff queue_item_clean_def)

lemma map_filter_append: "List.map_filter f (xs @ ys) = List.map_filter f xs @ List.map_filter f ys"
  by (simp add: List.map_filter_def)

lemma normalize_id: "normalizeQueuedMessage q = Some r \<Longrightarrow> qm_id r = compact (qm_id q) 120 \<and> qm_status r = qm_status q"
  by (auto simp: normalizeQueuedMessage_Some)

text \<open>
  Messages are queued first in, first out: when the queue has room and the message is
  acceptable, enqueueing succeeds, the queued messages are the old ones in their order followed by
  the new one, every other item is kept, the revision grows by one, and the next message to send
  is the oldest queued one. When the queue is full the call is refused and changes nothing.
\<close>

theorem enqueue_fifo:
  assumes "queue_ok (ss_queue s)" and "item = new_queue_item qid mid message atts refs pm now"
    and "normalizeQueuedMessage item = Some stored" and "compact qid 120 = qid"
    and "qid \<notin> set (map qm_id (mq_items (ss_queue s)))"
    and "enqueueMessage now qid s message atts refs pm mid payloads = (r, payloads')"
  shows "if length (mq_items (ss_queue s)) < 100
    then \<exists>s'. r = Some (s', item)
      \<and> filter (\<lambda>i. qm_status i = Queued) (mq_items (ss_queue s')) = filter (\<lambda>i. qm_status i = Queued) (mq_items (ss_queue s)) @ [stored]
      \<and> set (mq_items (ss_queue s')) = insert stored (set (mq_items (ss_queue s)))
      \<and> mq_revision (ss_queue s') = mq_revision (ss_queue s) + 1
      \<and> (\<forall>next. nextQueuedMessage (Some s) = Some next \<longrightarrow> nextQueuedMessage (Some s') = Some next)
    else r = None \<and> payloads' = payloads"
proof -
  let ?old = "mq_items (ss_queue s)" and ?s' = "withQueue s (mq_items (ss_queue s) @ [item]) now"
  have clean: "list_all queue_item_clean ?old" and len: "length ?old \<le> 100" and rev: "0 \<le> mq_revision (ss_queue s)"
    using assms(1) by (simp_all add: queue_ok_def)
  have items: "mq_items (ss_queue ?s') = js_sort rank_le (take 100 (?old @ [stored]))"
    by (simp add: withQueue_items map_filter_append map_filter_clean[OF clean] List.map_filter_simps assms(3))
  have item_id: "qm_id item = qid" "qm_status item = Queued" by (simp_all add: assms(2) new_queue_item_def)
  then have id: "qm_id stored = qid" "qm_status stored = Queued"
    using normalize_id[OF assms(3)] assms(4) by simp_all
  have enq: "(r, payloads') = (if \<not> list_ex (\<lambda>entry. qm_id entry = qid) (mq_items (ss_queue ?s')) then (None, payloads)
      else (Some (?s', item), if atts \<noteq> [] then jmap_set qid (take 6 atts) payloads else payloads))"
    unfolding assms(6)[symmetric] enqueueMessage_def Let_def assms(2)[symmetric] item_id queuedMessages_Some ..
  show ?thesis
  proof (cases "length ?old < 100")
    case True
    then have it: "mq_items (ss_queue ?s') = js_sort rank_le (?old @ [stored])" by (simp add: items)
    have "r = Some (?s', item)" using enq it id by (simp add: list_ex_iff)
    moreover have "filter (\<lambda>i. qm_status i = Queued) (mq_items (ss_queue ?s')) = filter (\<lambda>i. qm_status i = Queued) ?old @ [stored]"
      using id by (simp only: it filter_status_sort) simp
    moreover have "set (mq_items (ss_queue ?s')) = insert stored (set ?old)" by (simp only: it set_js_sort) simp
    moreover have "mq_revision (ss_queue ?s') = mq_revision (ss_queue s) + 1"
      using rev by (simp add: withQueue_def normalizeAiSessionQueueItems_def Let_def normalizeNonNegativeInteger_def)
    ultimately show ?thesis using True
      by (auto simp: nextQueuedMessage_def find_filter_hd split: list.splits)
  next
    case False
    with len have "take 100 (?old @ [stored]) = ?old" by simp
    then have "\<not> list_ex (\<lambda>entry. qm_id entry = qid) (mq_items (ss_queue ?s'))"
      using assms(5) by (auto simp: items list_ex_iff)
    with False enq show ?thesis by simp
  qed
qed

section \<open>Reordering and optimistic concurrency\<close>

lemma map_filter_ids:
  assumes "distinct (map qm_id xs)" and "set ids \<subseteq> set (map qm_id xs)"
  shows "map qm_id (List.map_filter (jmap_get (map (\<lambda>x. (qm_id x, x)) xs)) ids) = ids
    \<and> set (List.map_filter (jmap_get (map (\<lambda>x. (qm_id x, x)) xs)) ids) = {x \<in> set xs. qm_id x \<in> set ids}"
proof -
  have get: "jmap_get (map (\<lambda>x. (qm_id x, x)) xs) k = Some x \<longleftrightarrow> x \<in> set xs \<and> qm_id x = k" for k x
    using assms(1) by (subst jmap_get_iff) (auto simp: comp_def)
  have ex: "\<exists>x. jmap_get (map (\<lambda>x. (qm_id x, x)) xs) k = Some x" if "k \<in> set ids" for k
    using that assms(2) by (auto simp: get)
  have "map qm_id (List.map_filter (jmap_get (map (\<lambda>x. (qm_id x, x)) xs)) js) = js" if "set js \<subseteq> set ids" for js
    using that
  proof (induction js)
    case (Cons k js)
    from ex[of k] Cons.prems obtain x where "jmap_get (map (\<lambda>x. (qm_id x, x)) xs) k = Some x" by auto
    moreover from this have "qm_id x = k" by (simp add: get)
    ultimately show ?case using Cons by (simp add: List.map_filter_simps)
  qed (simp add: List.map_filter_simps)
  then show ?thesis by (auto simp: set_map_filter get)
qed

text \<open>The check of the requested order accepts exactly the permutations of the queued items.\<close>

lemma reorder_accepts_permutations:
  assumes dq: "distinct (map qm_id queued)"
  shows "\<not> (length (js_uniq ids) \<noteq> length ids \<or> length ids \<noteq> length queued \<or> list_ex (\<lambda>item. qm_id item \<notin> set ids) queued)
    \<longleftrightarrow> distinct ids \<and> set ids = set (map qm_id queued)"
    (is "\<not> ?bad \<longleftrightarrow> ?perm")
proof
  have uniq: "length (js_uniq ids) = length ids \<longleftrightarrow> distinct ids"
    by (metis card_distinct distinct_card distinct_js_uniq set_js_uniq)
  show ?perm if ok: "\<not> ?bad"
  proof -
    have d: "distinct ids" and sub: "set (map qm_id queued) \<subseteq> set ids" and len: "length ids = length queued"
      using ok uniq by (auto simp: list_ex_iff)
    have "card (set ids) = card (set (map qm_id queued))"
      using distinct_card[OF d] distinct_card[OF dq] len by simp
    with sub have "set (map qm_id queued) = set ids" by (metis card_subset_eq List.finite_set)
    with d show ?thesis by simp
  qed
  show "\<not> ?bad" if ok: ?perm
  proof -
    have "length ids = length queued" using ok distinct_card[of ids] distinct_card[OF dq] by simp
    with ok uniq show ?thesis by (auto simp: list_ex_iff)
  qed
qed

text \<open>The queue after an accepted reordering.\<close>

lemma reordered_queue:
  assumes ok: "queue_ok (ss_queue s)" and queued: "queued = filter (\<lambda>i. qm_status i = Queued) (mq_items (ss_queue s))"
    and so: "set ordered = set queued" and lo: "length ordered = length queued"
    and s': "s' = withQueue s (filter (\<lambda>i. qm_status i \<noteq> Queued) (mq_items (ss_queue s)) @ ordered) now"
  shows "filter (\<lambda>i. qm_status i = Queued) (mq_items (ss_queue s')) = ordered"
    "st \<noteq> Queued \<Longrightarrow> filter (\<lambda>i. qm_status i = st) (mq_items (ss_queue s')) = filter (\<lambda>i. qm_status i = st) (mq_items (ss_queue s))"
    "mq_revision (ss_queue s') = mq_revision (ss_queue s) + 1" "set (mq_items (ss_queue s')) = set (mq_items (ss_queue s))"
proof -
  let ?items = "mq_items (ss_queue s)"
  have sq: "set queued = {x \<in> set ?items. qm_status x = Queued}" by (simp add: queued)
  have oq: "\<forall>x \<in> set ordered. qm_status x = Queued" using so sq by simp
  have all: "set (filter (\<lambda>i. qm_status i \<noteq> Queued) ?items @ ordered) = set ?items"
    unfolding set_append so sq by auto
  have clean: "list_all queue_item_clean (filter (\<lambda>i. qm_status i \<noteq> Queued) ?items @ ordered)"
    using ok unfolding list_all_iff all by (simp add: queue_ok_def list_all_iff)
  have "length (filter (\<lambda>i. qm_status i \<noteq> Queued) ?items @ ordered) = length ?items"
    using lo queued sum_length_filter_compl[of "\<lambda>i. qm_status i = Queued" ?items] by simp
  then have len: "length (filter (\<lambda>i. qm_status i \<noteq> Queued) ?items @ ordered) \<le> 100"
    using ok by (simp add: queue_ok_def)
  have items: "mq_items (ss_queue s') = js_sort rank_le (filter (\<lambda>i. qm_status i \<noteq> Queued) ?items @ ordered)"
    unfolding s' using len by (simp only: withQueue_items map_filter_clean[OF clean] take_all)
  show "filter (\<lambda>i. qm_status i = Queued) (mq_items (ss_queue s')) = ordered"
    unfolding items filter_status_sort using oq by (simp add: filter_id_conv)
  show "filter (\<lambda>i. qm_status i = st) (mq_items (ss_queue s')) = filter (\<lambda>i. qm_status i = st) ?items" if "st \<noteq> Queued"
  proof -
    have "filter (\<lambda>i. qm_status i = st) ordered = []" using oq that by (auto simp: filter_empty_conv)
    moreover have "filter (\<lambda>i. qm_status i = st) (filter (\<lambda>i. qm_status i \<noteq> Queued) ?items) = filter (\<lambda>i. qm_status i = st) ?items"
      using that by (auto simp: filter_filter intro: filter_cong)
    ultimately show ?thesis unfolding items filter_status_sort by simp
  qed
  show "mq_revision (ss_queue s') = mq_revision (ss_queue s) + 1" unfolding s'
    using ok by (simp add: withQueue_def normalizeAiSessionQueueItems_def Let_def normalizeNonNegativeInteger_def queue_ok_def)
  show "set (mq_items (ss_queue s')) = set ?items" unfolding items set_js_sort by (rule all)
qed

text \<open>
  Reordering applies exactly the requested order and loses nothing: with the current
  revision and ids that are a rearrangement of the queued ids, the queued messages get the
  requested order, the set of items and the messages being sent or failed stay as they are, and
  the revision grows by one (or nothing changes when the order is already the requested one).
  With a stale revision or other ids the call is refused.
\<close>

theorem reorder_applies_request:
  assumes "queue_ok (ss_queue s)" and "distinct (map qm_id (mq_items (ss_queue s)))"
    and "queued = filter (\<lambda>i. qm_status i = Queued) (mq_items (ss_queue s))"
  shows "case reorderQueuedMessages now s er ids of
      ReorderConflict r \<Rightarrow> er \<noteq> r \<and> r = mq_revision (ss_queue s)
    | OrderInvalid \<Rightarrow> er = mq_revision (ss_queue s) \<and> \<not> (distinct ids \<and> set ids = set (map qm_id queued))
    | ReorderUnchanged s' \<Rightarrow> er = mq_revision (ss_queue s) \<and> s' = s \<and> map qm_id queued = ids
    | ReorderUpdated s' \<Rightarrow> er = mq_revision (ss_queue s)
        \<and> map qm_id (filter (\<lambda>i. qm_status i = Queued) (mq_items (ss_queue s'))) = ids
        \<and> set (mq_items (ss_queue s')) = set (mq_items (ss_queue s))
        \<and> (\<forall>st. st \<noteq> Queued \<longrightarrow> filter (\<lambda>i. qm_status i = st) (mq_items (ss_queue s')) = filter (\<lambda>i. qm_status i = st) (mq_items (ss_queue s)))
        \<and> mq_revision (ss_queue s') = mq_revision (ss_queue s) + 1"
proof (cases "er = mq_revision (ss_queue s)")
  case False
  then show ?thesis by (simp add: reorderQueuedMessages_def)
next
  case True
  let ?bad = "length (js_uniq ids) \<noteq> length ids \<or> length ids \<noteq> length queued \<or> list_ex (\<lambda>item. qm_id item \<notin> set ids) queued"
  have dq: "distinct (map qm_id queued)" using assms(2) unfolding assms(3) by (simp add: distinct_map_filter)
  note perm = reorder_accepts_permutations[OF dq, of ids]
  consider ?bad | "\<not> ?bad" "map qm_id queued = ids" | "\<not> ?bad" "map qm_id queued \<noteq> ids" by blast
  then show ?thesis
  proof cases
    case 1
    then have "reorderQueuedMessages now s er ids = OrderInvalid"
      using True by (simp only: reorderQueuedMessages_def Let_def queuedMessages_Some assms(3)[symmetric] if_True if_False not_True_eq_False simp_thms)
    then show ?thesis using perm True 1 by (simp only: reorder_result.case) blast
  next
    case 2
    then have "reorderQueuedMessages now s er ids = ReorderUnchanged s"
      using True by (simp add: reorderQueuedMessages_def Let_def assms(3)[symmetric])
    then show ?thesis using 2 True by simp
  next
    case 3
    let ?o = "List.map_filter (jmap_get (map (\<lambda>x. (qm_id x, x)) queued)) ids"
    let ?s' = "withQueue s (filter (\<lambda>i. qm_status i \<noteq> Queued) (mq_items (ss_queue s)) @ ?o) now"
    have "foldl (\<lambda>m item. jmap_set (qm_id item) item m) [] queued = map (\<lambda>x. (qm_id x, x)) queued"
      using foldl_by_id[OF dq, of "[]"] by simp
    then have r: "reorderQueuedMessages now s er ids = ReorderUpdated ?s'"
      using True 3 by (simp add: reorderQueuedMessages_def Let_def assms(3)[symmetric])
    have ids: "map qm_id ?o = ids" and so: "set ?o = set queued"
      using map_filter_ids[OF dq, of ids] perm 3 by auto
    have "length ?o = length queued" using arg_cong[OF ids, of length] perm 3 by auto
    note q = reordered_queue[OF assms(1,3) so this refl[of ?s']]
    show ?thesis unfolding r reorder_result.case using True ids q by simp
  qed
qed

section \<open>Concrete queues\<close>

definition demo_session :: ai_session where
  "demo_session = \<lparr>ss_id = ''s1'', ss_agent = ''codex'', ss_creationSource = FromAiSession, ss_appSessionId = None,
     ss_appId = None, ss_providerSessionId = Some ''p1'', ss_lineage = None, ss_providerMeta = None,
     ss_modelSelection = None, ss_reasoningEffort = None, ss_storyId = None, ss_appBindingKeys = None,
     ss_actions = None, ss_activeTurnId = None, ss_title = None, ss_cwd = None, ss_cwdFolderId = None,
     ss_userPrompt = None, ss_turns = Some [], ss_status = Idle, ss_phase = UnknownPhase, ss_summary = None,
     ss_lastMessage = None, ss_lastMessageItemId = None, ss_currentTool = None, ss_toolCallsSinceLastMessage = Some 0,
     ss_subAgents = [], ss_transcriptPath = None, ss_transcriptSize = None,
     ss_startedAt = ''2024-01-01T00:00:00.000Z'', ss_updatedAt = ''2024-01-01T00:00:00.000Z'', ss_completedAt = None,
     ss_error = None, ss_counters = \<lparr>ct_toolCalls = 0, ct_edits = 0, ct_approvals = 0\<rparr>,
     ss_queue = emptyAiSessionQueue, ss_unread = False\<rparr>"

lemma empty_queue_ok: "queue_ok emptyAiSessionQueue"
  by (simp add: queue_ok_def emptyAiSessionQueue_def)

lemma demo_queue: "ss_queue demo_session = emptyAiSessionQueue"
  by (simp add: demo_session_def)

theorem queue_stays_well_formed_witness:
  "length (mq_items (ss_queue (fst (foldl queue_step (demo_session, []) [QPause ''now'' True, QRemove ''now'' ''q''])))) \<le> 100"
  using queue_stays_well_formed[OF _ surjective_pairing[symmetric], of demo_session "[]" "[QPause ''now'' True, QRemove ''now'' ''q'']"]
  by (simp add: demo_queue empty_queue_ok)

definition demo_time :: string where
  "demo_time = to_iso 0"

lemma demo_time_ok: "datetime_text demo_time"
proof -
  have "date_parse (to_iso 0) = Some 0"
    by (rule date_parse_to_iso) (simp add: iso_range_def day_from_year_def ms_per_day_def)
  then show ?thesis by (simp add: datetime_text_def demo_time_def)
qed

definition demo_item :: queued_message where
  "demo_item = new_queue_item ''q1'' None ''hello'' [] [] None demo_time"

lemma demo_compact: "compact ''q1'' 120 = ''q1''"
  by code_simp

lemma demo_item_clean: "normalizeQueuedMessage demo_item = Some demo_item"
  unfolding normalizeQueuedMessage_Some
  using demo_time_ok demo_compact
  by (simp add: demo_item_def new_queue_item_def aiSessionAttachmentMetas_def messageText_def js_trim_def js_space_def
      nonblank_compact_def normalizeAiSessionMessageAttachmentMetas_def normalizeAiSessionReferences_def List.map_filter_simps)

theorem enqueue_fifo_witness:
  "\<exists>s'. fst (enqueueMessage demo_time ''q1'' demo_session ''hello'' [] [] None None []) = Some (s', demo_item)
     \<and> mq_revision (ss_queue s') = 1"
  using enqueue_fifo[OF _ demo_item_def demo_item_clean demo_compact _ surjective_pairing[of "enqueueMessage demo_time ''q1'' demo_session ''hello'' [] [] None None []"]]
  by (auto simp: demo_queue empty_queue_ok[unfolded emptyAiSessionQueue_def] emptyAiSessionQueue_def)

theorem reorder_applies_request_witness:
  "reorderQueuedMessages demo_time demo_session 0 [''zz''] = OrderInvalid
   \<and> \<not> (distinct [''zz''] \<and> set [''zz''] = set (map qm_id (filter (\<lambda>i. qm_status i = Queued) (mq_items (ss_queue demo_session)))))"
proof -
  have r: "reorderQueuedMessages demo_time demo_session 0 [''zz''] = OrderInvalid"
    by (simp add: reorderQueuedMessages_def demo_queue emptyAiSessionQueue_def)
  show ?thesis
    using reorder_applies_request[OF _ _ refl, where s = demo_session and now = demo_time and er = 0 and ids = "[''zz'']"]
    by (simp add: r demo_queue empty_queue_ok[unfolded emptyAiSessionQueue_def] emptyAiSessionQueue_def)
qed

end
