(* ===== verification/Session_Reducer.thy ===== *)
theory Session_Reducer
  imports Session_Queue
begin

text \<open>
  The state reducer of a session (\<^verbatim>\<open>packages/ai-session-runtime/src/ai-session/state-reducer.ts\<close>):
  how a patch, a realtime event of a provider and a snapshot of a discovery scan change a session,
  and the comparison that decides whether a snapshot changed anything at all. The events and
  snapshots are the inputs that \<^verbatim>\<open>packages/protocol/src/ai-sessions.ts\<close> declares, with the checks its
  schema makes on a realtime event. The random turn id, SHA-1 and the collation of sub-agent
  threads are the fields of a record of parameters.
\<close>

record reducer_env =
  ev_sha1 :: "string \<Rightarrow> string"
  ev_turnId :: string
  ev_collate :: "string \<Rightarrow> string \<Rightarrow> bool"

section \<open>Patches\<close>

text \<open>
  A patch is spread over the session: a property that is present with the value \<^verbatim>\<open>undefined\<close> erases
  the stored one (\<open>Put None\<close>), an absent one leaves it (\<open>Keep\<close>). The properties that
  \<^verbatim>\<open>buildAiSessionPatch\<close> computes itself treat both alike and are plain options.
\<close>

datatype 'a upd = Keep | Put 'a

fun upd_apply :: "'a upd \<Rightarrow> 'a \<Rightarrow> 'a" where
  "upd_apply Keep old = old"
| "upd_apply (Put v) old = v"

fun upd_value :: "'a option upd \<Rightarrow> 'a option" where
  "upd_value Keep = None"
| "upd_value (Put v) = v"

record session_patch =
  pt_appSessionId :: "string option upd"
  pt_appId :: "string option upd"
  pt_providerSessionId :: "string option upd"
  pt_lineage :: "lineage option upd"
  pt_providerMeta :: "json option upd"
  pt_modelSelection :: "model_selection option upd"
  pt_reasoningEffort :: "reasoning_effort option upd"
  pt_storyId :: "string option upd"
  pt_appBindingKeys :: "string list option upd"
  pt_actions :: "ai_actions option"
  pt_activeTurnId :: "string option upd"
  pt_title :: "string option upd"
  pt_cwd :: "string option upd"
  pt_cwdFolderId :: "string option upd"
  pt_userPrompt :: "string option"
  pt_turns :: "ai_turn list option"
  pt_status :: "lifecycle option"
  pt_phase :: "phase option"
  pt_summary :: "string option"
  pt_lastMessage :: "string option"
  pt_lastMessageItemId :: "string option upd"
  pt_currentTool :: "ai_tool option upd"
  pt_toolCallsSinceLastMessage :: "int option upd"
  pt_subAgents :: "sub_agent list option"
  pt_transcriptPath :: "string option upd"
  pt_transcriptSize :: "int option upd"
  pt_completedAt :: "string option upd"
  pt_error :: "string option"
  pt_queue :: "message_queue option"
  pt_unread :: "bool option"
  pt_counters :: "int option \<times> int option \<times> int option"
  pt_userMessage :: "user_message option"

definition empty_patch :: session_patch where
  "empty_patch = \<lparr>pt_appSessionId = Keep, pt_appId = Keep, pt_providerSessionId = Keep, pt_lineage = Keep,
     pt_providerMeta = Keep, pt_modelSelection = Keep, pt_reasoningEffort = Keep, pt_storyId = Keep,
     pt_appBindingKeys = Keep, pt_actions = None, pt_activeTurnId = Keep, pt_title = Keep, pt_cwd = Keep,
     pt_cwdFolderId = Keep, pt_userPrompt = None, pt_turns = None, pt_status = None, pt_phase = None,
     pt_summary = None, pt_lastMessage = None, pt_lastMessageItemId = Keep, pt_currentTool = Keep,
     pt_toolCallsSinceLastMessage = Keep, pt_subAgents = None, pt_transcriptPath = Keep,
     pt_transcriptSize = Keep, pt_completedAt = Keep, pt_error = None, pt_queue = None, pt_unread = None,
     pt_counters = (None, None, None), pt_userMessage = None\<rparr>"

record patch_options =
  po_updatedAt :: "string option"
  po_preserveUpdatedAt :: bool
  po_replaceActivity :: bool
  po_replaceTurns :: bool
  po_clearResponse :: bool
  po_clearError :: bool
  po_suppressPromptTurn :: bool
  po_suppressTurnUpdate :: bool
  po_meta :: turn_meta

definition patch_opts :: "string \<Rightarrow> turn_meta \<Rightarrow> patch_options" where
  "patch_opts updatedAt meta = \<lparr>po_updatedAt = Some updatedAt, po_preserveUpdatedAt = False,
     po_replaceActivity = False, po_replaceTurns = False, po_clearResponse = False, po_clearError = False,
     po_suppressPromptTurn = False, po_suppressTurnUpdate = False, po_meta = meta\<rparr>"

definition latestTurnUserPrompt :: "ai_turn list option \<Rightarrow> string option" where
  "latestTurnUserPrompt turns =
     Option.bind (List.find (\<lambda>turn. js_trim (str_of (tn_userPrompt turn)) \<noteq> []) (rev (opt_list turns))) tn_userPrompt"

definition lifecycle_active :: "lifecycle \<Rightarrow> bool" where
  "lifecycle_active status = (status = Running \<or> status = Waiting)"

definition nextUnread :: "bool \<Rightarrow> lifecycle \<Rightarrow> lifecycle \<Rightarrow> bool" where
  "nextUnread current previousStatus status =
     (if lifecycle_active status then False else if lifecycle_active previousStatus then True else current)"

text \<open>The part of a patch that \<^verbatim>\<open>updateTurns\<close> reads.\<close>

definition turn_patch_of :: "session_patch \<Rightarrow> bool \<Rightarrow> turn_patch" where
  "turn_patch_of patch suppressPromptTurn = \<lparr>tp_activeTurnId = upd_value (pt_activeTurnId patch),
     tp_userPrompt = (if suppressPromptTurn then None else pt_userPrompt patch), tp_turns = pt_turns patch,
     tp_status = pt_status patch, tp_phase = pt_phase patch, tp_summary = pt_summary patch,
     tp_lastMessage = pt_lastMessage patch, tp_lastMessageItemId = upd_value (pt_lastMessageItemId patch),
     tp_completedAt = upd_value (pt_completedAt patch), tp_userMessage = pt_userMessage patch\<rparr>"

definition patched_turns :: "reducer_env \<Rightarrow> ai_session \<Rightarrow> session_patch \<Rightarrow> patch_options \<Rightarrow> string \<Rightarrow> ai_turn list option" where
  "patched_turns env current patch options updatedAt =
     (if po_suppressTurnUpdate options
      then if po_replaceTurns options then Some (normalizeTurns (ev_sha1 env) no_meta None) else ss_turns current
      else Some (updateTurns (ev_sha1 env) (ev_turnId env) (if po_replaceTurns options then None else ss_turns current)
        (turn_patch_of patch (po_suppressPromptTurn options)) updatedAt (po_meta options)))"

definition text_when :: "(string \<Rightarrow> string) \<Rightarrow> string option \<Rightarrow> string option \<Rightarrow> string option" where
  "text_when f v other = (if truthy v then Some (f (str_of v)) else other)"

definition buildAiSessionPatch :: "reducer_env \<Rightarrow> ai_session \<Rightarrow> session_patch \<Rightarrow> patch_options \<Rightarrow> ai_session" where
  "buildAiSessionPatch env current patch options =
     (let counterDelta = normalizeAiSessionCounters (pt_counters patch);
          counters = \<lparr>ct_toolCalls = ct_toolCalls (ss_counters current) + ct_toolCalls counterDelta,
            ct_edits = ct_edits (ss_counters current) + ct_edits counterDelta,
            ct_approvals = ct_approvals (ss_counters current) + ct_approvals counterDelta\<rparr>;
          updatedAt = (if po_preserveUpdatedAt options then ss_updatedAt current
            else case po_updatedAt options of Some t \<Rightarrow> t | None \<Rightarrow> ss_updatedAt current);
          turns = patched_turns env current patch options updatedAt;
          prompt = (if truthy (pt_userPrompt patch) then messageText (str_of (pt_userPrompt patch)) else []);
          latestTurn = js_last (opt_list turns);
          startsEmptyTurn = (prompt \<noteq> [] \<and> \<not> truthy (pt_lastMessage patch)
            \<and> (case latestTurn of None \<Rightarrow> False | Some t \<Rightarrow> tn_userPrompt t = Some prompt
                 \<and> \<not> truthy (tn_summary t) \<and> \<not> truthy (tn_lastMessage t)));
          status = (case pt_status patch of Some s \<Rightarrow> normalizeAiSessionLifecycle (Some (lifecycle_name s))
            | None \<Rightarrow> ss_status current);
          response = (\<lambda>f v old. if po_replaceActivity options then text_when f v None
            else if po_clearResponse options then None
            else text_when f v (if startsEmptyTurn then None else old));
          actions = (case js_nullish (pt_actions patch) (ss_actions current) of Some a \<Rightarrow> a | None \<Rightarrow> no_actions)
      in current\<lparr>
        ss_appSessionId := upd_apply (pt_appSessionId patch) (ss_appSessionId current),
        ss_appId := upd_apply (pt_appId patch) (ss_appId current),
        ss_providerSessionId := upd_apply (pt_providerSessionId patch) (ss_providerSessionId current),
        ss_lineage := upd_apply (pt_lineage patch) (ss_lineage current),
        ss_providerMeta := upd_apply (pt_providerMeta patch) (ss_providerMeta current),
        ss_modelSelection := upd_apply (pt_modelSelection patch) (ss_modelSelection current),
        ss_reasoningEffort := upd_apply (pt_reasoningEffort patch) (ss_reasoningEffort current),
        ss_storyId := upd_apply (pt_storyId patch) (ss_storyId current),
        ss_appBindingKeys := upd_apply (pt_appBindingKeys patch) (ss_appBindingKeys current),
        ss_activeTurnId := upd_apply (pt_activeTurnId patch) (ss_activeTurnId current),
        ss_title := upd_apply (pt_title patch) (ss_title current),
        ss_cwd := upd_apply (pt_cwd patch) (ss_cwd current),
        ss_cwdFolderId := upd_apply (pt_cwdFolderId patch) (ss_cwdFolderId current),
        ss_lastMessageItemId := upd_apply (pt_lastMessageItemId patch) (ss_lastMessageItemId current),
        ss_currentTool := upd_apply (pt_currentTool patch) (ss_currentTool current),
        ss_toolCallsSinceLastMessage := upd_apply (pt_toolCallsSinceLastMessage patch) (ss_toolCallsSinceLastMessage current),
        ss_transcriptPath := upd_apply (pt_transcriptPath patch) (ss_transcriptPath current),
        ss_transcriptSize := upd_apply (pt_transcriptSize patch) (ss_transcriptSize current),
        ss_completedAt := upd_apply (pt_completedAt patch) (ss_completedAt current),
        ss_updatedAt := updatedAt,
        ss_status := status,
        ss_unread := (case pt_unread patch of Some u \<Rightarrow> u | None \<Rightarrow> nextUnread (ss_unread current) (ss_status current) status),
        ss_phase := (case pt_phase patch of Some p \<Rightarrow> normalizeAiSessionPhase (phase_name p) | None \<Rightarrow> ss_phase current),
        ss_actions := Some (actions\<lparr>ac_interrupt := Some (lifecycle_active status)\<rparr>),
        ss_summary := response (\<lambda>s. compact s 1000) (pt_summary patch) (ss_summary current),
        ss_lastMessage := response messageText (pt_lastMessage patch) (ss_lastMessage current),
        ss_userPrompt := js_or (latestTurnUserPrompt turns)
          (text_when messageText (pt_userPrompt patch) (if po_replaceActivity options then None else ss_userPrompt current)),
        ss_turns := turns,
        ss_error := (if po_clearError options then None
          else text_when (\<lambda>s. compact s 4000) (pt_error patch) (ss_error current)),
        ss_counters := counters,
        ss_queue := (case pt_queue patch of Some q \<Rightarrow> normalizeAiSessionQueue q | None \<Rightarrow> ss_queue current),
        ss_subAgents := (case pt_subAgents patch of Some xs \<Rightarrow> normalizeAiSessionSubAgents (ev_collate env) xs
          | None \<Rightarrow> ss_subAgents current)\<rparr>)"

definition applyAiSessionPatch :: "reducer_env \<Rightarrow> ai_session \<Rightarrow> session_patch \<Rightarrow> patch_options \<Rightarrow> ai_session" where
  "applyAiSessionPatch env current patch options = buildAiSessionPatch env current patch options"

section \<open>Comparing two states\<close>

text \<open>
  \<^verbatim>\<open>samePersistedValue\<close> on JSON values: the order of properties and undefined properties do not matter,
  and an undefined array element counts as null.
\<close>

definition nullish_null :: "json \<Rightarrow> json" where
  "nullish_null v = (if v = JUndef then JNull else v)"

lemma size_nullish [termination_simp]: "size (nullish_null v) = size v"
  by (simp add: nullish_null_def)

lemma size_json_zip [termination_simp]: "(x, y) \<in> set (zip xs ys) \<Longrightarrow> size x < Suc (size_list size xs)"
  by (drule set_zip_leftD) (simp add: size_list_estimation less_Suc_eq_le size_list_estimation')

lemma size_json_field [termination_simp]: "(k, v) \<in> set xs \<Longrightarrow> size v < Suc (size_list (size_prod (\<lambda>_. 0) size) xs)"
  by (simp add: less_Suc_eq_le) (rule size_list_estimation', assumption, simp)

fun samePersistedValue :: "json \<Rightarrow> json \<Rightarrow> bool" where
  "samePersistedValue (JArr xs) (JArr ys) =
     (length xs = length ys
      \<and> list_all (\<lambda>(x, y). samePersistedValue (nullish_null x) (nullish_null y)) (zip xs ys))"
| "samePersistedValue (JObj xs) (JObj ys) =
     (length (filter (\<lambda>e. snd e \<noteq> JUndef) xs) = length (filter (\<lambda>e. snd e \<noteq> JUndef) ys)
      \<and> list_all (\<lambda>(k, v). v = JUndef \<or> (case map_of ys k of None \<Rightarrow> False | Some w \<Rightarrow> samePersistedValue v w)) xs)"
| "samePersistedValue left right = (left = right)"

text \<open>The observation metadata of a turn (\<^verbatim>\<open>AI_SESSION_TURN_OBSERVATION_KEYS\<close>) is left out.\<close>

definition aiSessionTurnContentValue :: "ai_turn \<Rightarrow> ai_turn" where
  "aiSessionTurnContentValue turn = turn\<lparr>tn_observedAt := None, tn_snapshotVersion := None, tn_revision := 0\<rparr>"

definition sameAiSessionTurnContent :: "ai_turn list option \<Rightarrow> ai_turn list option \<Rightarrow> bool" where
  "sameAiSessionTurnContent left right =
     (length (opt_list left) = length (opt_list right)
      \<and> list_all (\<lambda>(l, r). aiSessionTurnContentValue l = aiSessionTurnContentValue r) (zip (opt_list left) (opt_list right)))"

definition samePersistedMeta :: "json option \<Rightarrow> json option \<Rightarrow> bool" where
  "samePersistedMeta left right =
     (case (left, right) of (None, None) \<Rightarrow> True | (Some l, Some r) \<Rightarrow> samePersistedValue l r | _ \<Rightarrow> False)"

text \<open>
  The keys are compared one by one, in the order of \<^verbatim>\<open>AI_SESSION_BUSINESS_KEYS\<close>. On the typed records
  the persisted values are the same when they are equal; only the provider metadata is free JSON.
\<close>

definition sameAiSessionBusinessState :: "ai_session \<Rightarrow> ai_session \<Rightarrow> bool" where
  "sameAiSessionBusinessState current upd =
     (ss_id current = ss_id upd \<and> ss_agent current = ss_agent upd
      \<and> ss_creationSource current = ss_creationSource upd \<and> ss_appSessionId current = ss_appSessionId upd
      \<and> ss_appId current = ss_appId upd \<and> ss_providerSessionId current = ss_providerSessionId upd
      \<and> ss_lineage current = ss_lineage upd \<and> samePersistedMeta (ss_providerMeta current) (ss_providerMeta upd)
      \<and> ss_modelSelection current = ss_modelSelection upd \<and> ss_reasoningEffort current = ss_reasoningEffort upd
      \<and> ss_storyId current = ss_storyId upd \<and> ss_appBindingKeys current = ss_appBindingKeys upd
      \<and> ss_actions current = ss_actions upd \<and> ss_activeTurnId current = ss_activeTurnId upd
      \<and> ss_title current = ss_title upd \<and> ss_cwd current = ss_cwd upd
      \<and> ss_cwdFolderId current = ss_cwdFolderId upd \<and> ss_userPrompt current = ss_userPrompt upd
      \<and> sameAiSessionTurnContent (ss_turns current) (ss_turns upd) \<and> ss_status current = ss_status upd
      \<and> ss_phase current = ss_phase upd \<and> ss_summary current = ss_summary upd
      \<and> ss_lastMessage current = ss_lastMessage upd \<and> ss_lastMessageItemId current = ss_lastMessageItemId upd
      \<and> ss_currentTool current = ss_currentTool upd
      \<and> ss_toolCallsSinceLastMessage current = ss_toolCallsSinceLastMessage upd
      \<and> ss_subAgents current = ss_subAgents upd \<and> ss_transcriptPath current = ss_transcriptPath upd
      \<and> ss_transcriptSize current = ss_transcriptSize upd \<and> ss_startedAt current = ss_startedAt upd
      \<and> ss_completedAt current = ss_completedAt upd \<and> ss_error current = ss_error upd
      \<and> ss_counters current = ss_counters upd \<and> ss_queue current = ss_queue upd \<and> ss_unread current = ss_unread upd)"

section \<open>Realtime events\<close>

datatype event_kind = Lifecycle | SendAck | TurnStarted | UserMessage | AssistantMessage | ApprovalRequested
  | TurnCompleted | SessionError | ToolActivity | SubAgentActivity | ContextCompaction | ModelSelection | ReasoningEffort

text \<open>
  \<^verbatim>\<open>AiSessionRealtimeInput\<close>; \<open>rt_currentTool\<close> is absent, null or a tool.
\<close>

record realtime_input =
  rt_kind :: event_kind
  rt_source :: ai_source
  rt_sourcePriority :: "int option"
  rt_observedAt :: "string option"
  rt_snapshotVersion :: "int option"
  rt_modelSelection :: "model_selection option"
  rt_reasoningEffort :: "reasoning_effort option"
  rt_activeTurnId :: "string option"
  rt_providerTurnId :: "string option"
  rt_userPrompt :: "string option"
  rt_userMessage :: "user_message option"
  rt_text :: "string option"
  rt_itemId :: "string option"
  rt_status :: "lifecycle option"
  rt_phase :: "phase option"
  rt_summary :: "string option"
  rt_error :: "string option"
  rt_currentTool :: "ai_tool option option"
  rt_toolCallsSinceLastMessage :: "int option"
  rt_subAgents :: "sub_agent list option"
  rt_contextCompaction :: "compaction option"
  rt_counters :: "(int option \<times> int option \<times> int option) option"

text \<open>The issues that \<^verbatim>\<open>superRefine\<close> adds, by the property they are about, in the order of the code.\<close>

definition required_for :: "event_kind \<Rightarrow> event_kind \<Rightarrow> bool \<Rightarrow> string \<Rightarrow> string list" where
  "required_for kind owner present path =
     (if kind = owner then if present then [] else [path] else if present then [path] else [])"

definition realtime_issues :: "realtime_input \<Rightarrow> string list" where
  "realtime_issues input =
     required_for (rt_kind input) ModelSelection (rt_modelSelection input \<noteq> None) ''modelSelection''
     @ required_for (rt_kind input) ReasoningEffort (rt_reasoningEffort input \<noteq> None) ''reasoningEffort''
     @ (if rt_kind input = SessionError \<and> \<not> truthy (rt_error input) then [''error''] else [])
     @ required_for (rt_kind input) ContextCompaction (rt_contextCompaction input \<noteq> None) ''contextCompaction''
     @ (if rt_kind input \<noteq> SendAck \<and> rt_kind input \<noteq> UserMessage \<and> rt_userMessage input \<noteq> None then [''userMessage''] else [])
     @ required_for (rt_kind input) SubAgentActivity (rt_subAgents input \<noteq> None) ''subAgents''
     @ required_for (rt_kind input) ToolActivity (rt_currentTool input \<noteq> None) ''currentTool''
     @ required_for (rt_kind input) ToolActivity (rt_toolCallsSinceLastMessage input \<noteq> None) ''toolCallsSinceLastMessage''"

definition turn_with_id :: "reducer_env \<Rightarrow> ai_session \<Rightarrow> string option \<Rightarrow> ai_turn option" where
  "turn_with_id env current tid = List.find (\<lambda>turn. Some (tn_id turn) = tid) (normalizeTurns (ev_sha1 env) no_meta (ss_turns current))"

definition canonicalRealtimeTurnId :: "reducer_env \<Rightarrow> ai_session \<Rightarrow> ai_source \<Rightarrow> string option \<Rightarrow> string option \<Rightarrow> string option" where
  "canonicalRealtimeTurnId env current source activeTurnId userPrompt =
     (let incomingTurnId = (if truthy activeTurnId then Some (compact (str_of activeTurnId) 240) else None) in
      if source \<noteq> TranscriptTail \<or> \<not> truthy incomingTurnId \<or> \<not> truthy (ss_activeTurnId current)
         \<or> incomingTurnId = ss_activeTurnId current
      then js_or incomingTurnId (ss_activeTurnId current)
      else case turn_with_id env current (ss_activeTurnId current) of
          None \<Rightarrow> incomingTurnId
        | Some activeTurn \<Rightarrow>
            if turnHasResponse activeTurn then incomingTurnId
            else let prompt = (if truthy userPrompt then messageText (str_of userPrompt) else []) in
              if prompt \<noteq> [] \<and> truthy (tn_userPrompt activeTurn) \<and> tn_userPrompt activeTurn \<noteq> Some prompt
              then incomingTurnId else ss_activeTurnId current)"

definition or_else :: "'a option \<Rightarrow> 'a \<Rightarrow> 'a" where
  "or_else v d = (case v of Some x \<Rightarrow> x | None \<Rightarrow> d)"

definition reduce_send_ack :: "reducer_env \<Rightarrow> ai_session \<Rightarrow> realtime_input \<Rightarrow> string \<Rightarrow> turn_meta \<Rightarrow> ai_session" where
  "reduce_send_ack env current event updatedAt meta =
     (let userPrompt = messageText (str_of (rt_userPrompt event)) in
      applyAiSessionPatch env current (empty_patch\<lparr>
        pt_activeTurnId := Put (js_or (rt_activeTurnId event) (Some (stableGeneratedTurnId (ev_sha1 env) userPrompt updatedAt))),
        pt_status := Some (or_else (rt_status event) Running), pt_phase := Some (or_else (rt_phase event) Thinking),
        pt_userPrompt := Some userPrompt, pt_userMessage := rt_userMessage event\<rparr>)
        ((patch_opts updatedAt meta)\<lparr>po_clearError := True\<rparr>))"

definition reduce_lifecycle :: "reducer_env \<Rightarrow> ai_session \<Rightarrow> realtime_input \<Rightarrow> string \<Rightarrow> turn_meta \<Rightarrow> ai_session" where
  "reduce_lifecycle env current event updatedAt meta =
     (let status = or_else (rt_status event) (ss_status current);
          lifecycleTurnId = js_or (rt_activeTurnId event) (ss_activeTurnId current);
          hasLifecycleTurn = (truthy lifecycleTurnId \<and> turn_with_id env current lifecycleTurnId \<noteq> None)
      in if (status = Idle \<or> status = Failed) \<and> currentActiveTurnIsPending (ev_sha1 env) current then current
         else applyAiSessionPatch env current (empty_patch\<lparr>
           pt_activeTurnId := Put (if lifecycle_active status then js_or (rt_activeTurnId event) (ss_activeTurnId current)
             else ss_activeTurnId current),
           pt_status := Some status, pt_phase := Some (or_else (rt_phase event) (ss_phase current)),
           pt_currentTool := Put (if status = Idle \<or> status = Failed then None else ss_currentTool current)\<rparr>)
           ((patch_opts updatedAt meta)\<lparr>po_clearError := lifecycle_active status, po_suppressTurnUpdate := \<not> hasLifecycleTurn\<rparr>))"

definition reduce_user_message :: "reducer_env \<Rightarrow> ai_session \<Rightarrow> realtime_input \<Rightarrow> string \<Rightarrow> turn_meta \<Rightarrow> ai_session" where
  "reduce_user_message env current event updatedAt meta =
     applyAiSessionPatch env current (empty_patch\<lparr>
       pt_activeTurnId := Put (canonicalRealtimeTurnId env current (rt_source event) (rt_activeTurnId event) (rt_userPrompt event)),
       pt_status := Some (or_else (rt_status event) Running), pt_phase := Some (or_else (rt_phase event) Thinking),
       pt_userPrompt := rt_userPrompt event, pt_userMessage := rt_userMessage event\<rparr>)
       ((patch_opts updatedAt meta)\<lparr>po_clearError := True\<rparr>)"

definition reduce_assistant_message :: "reducer_env \<Rightarrow> ai_session \<Rightarrow> realtime_input \<Rightarrow> string \<Rightarrow> turn_meta \<Rightarrow> ai_session" where
  "reduce_assistant_message env current event updatedAt meta =
     (let completedFromTranscript = (rt_source event = TranscriptTail) in
      applyAiSessionPatch env current (empty_patch\<lparr>
        pt_activeTurnId := Put (canonicalRealtimeTurnId env current (rt_source event) (rt_activeTurnId event) None),
        pt_status := Some (or_else (rt_status event) (if completedFromTranscript then Idle else Running)),
        pt_phase := Some (or_else (rt_phase event) (if completedFromTranscript then UnknownPhase else Responding)),
        pt_summary := rt_text event, pt_lastMessage := rt_text event, pt_lastMessageItemId := Put (rt_itemId event),
        pt_currentTool := Put None, pt_toolCallsSinceLastMessage := Put (Some 0)\<rparr>)
        (patch_opts updatedAt meta))"

definition reduce_approval_requested :: "reducer_env \<Rightarrow> ai_session \<Rightarrow> realtime_input \<Rightarrow> string \<Rightarrow> turn_meta \<Rightarrow> ai_session" where
  "reduce_approval_requested env current event updatedAt meta =
     applyAiSessionPatch env current (empty_patch\<lparr>
       pt_activeTurnId := Put (js_or (rt_activeTurnId event) (ss_activeTurnId current)),
       pt_status := Some (or_else (rt_status event) Waiting), pt_phase := Some (or_else (rt_phase event) ApprovalPhase),
       pt_summary := js_or (rt_summary event) (rt_text event),
       pt_actions := Some ((or_else (ss_actions current) no_actions)\<lparr>ac_approval := Some True\<rparr>),
       pt_counters := or_else (rt_counters event) (None, None, Some 1)\<rparr>)
       (patch_opts updatedAt meta)"

definition reduce_context_compaction :: "reducer_env \<Rightarrow> ai_session \<Rightarrow> realtime_input \<Rightarrow> compaction \<Rightarrow> string \<Rightarrow> turn_meta \<Rightarrow> ai_session" where
  "reduce_context_compaction env current event compaction updatedAt meta =
     (let turnId = js_or (rt_activeTurnId event) (ss_activeTurnId current) in
      if \<not> truthy turnId then current
      else let existing = turn_with_id env current turnId;
               existingCompaction = Option.bind existing (\<lambda>turn.
                 List.find (\<lambda>item. cc_id item = cc_id compaction) (opt_list (tn_contextCompactions turn)))
        in if (case existingCompaction of None \<Rightarrow> False | Some c \<Rightarrow> cc_status c = CompactionCompleted
                 \<or> cc_status c = cc_status compaction \<and> cc_startedAt c = cc_startedAt compaction
                   \<and> cc_completedAt c = cc_completedAt compaction)
           then current
           else applyAiSessionPatch env current (empty_patch\<lparr>
             pt_turns := Some [(or_else existing blank_turn)\<lparr>
               tn_id := str_of turnId,
               tn_providerTurnId := js_or (rt_providerTurnId event) (js_or (Option.bind existing tn_providerTurnId) turnId),
               tn_source := Some (rt_source event),
               tn_status := Some (or_else (Option.bind existing tn_status) TRunning),
               tn_phase := Some (or_else (Option.bind existing tn_phase) Thinking),
               tn_contextCompactions := Some [compaction],
               tn_revision := (case existing of Some t \<Rightarrow> tn_revision t | None \<Rightarrow> 0) + 1,
               tn_updatedAt := Some updatedAt\<rparr>]\<rparr>)
             ((patch_opts updatedAt meta)\<lparr>po_suppressPromptTurn := True\<rparr>))"

definition reduce_turn_completed :: "reducer_env \<Rightarrow> ai_session \<Rightarrow> realtime_input \<Rightarrow> string \<Rightarrow> turn_meta \<Rightarrow> ai_session" where
  "reduce_turn_completed env current event updatedAt meta =
     (let errorText = text_when (\<lambda>s. compact s 4000) (rt_error event) None;
          responseText = js_or (rt_text event) (rt_summary event);
          completedTurnId = js_or (rt_activeTurnId event) (ss_activeTurnId current);
          completedTurn = (if truthy completedTurnId then turn_with_id env current completedTurnId
            else js_last (normalizeTurns (ev_sha1 env) no_meta (ss_turns current)));
          completedAt = (case completedTurn of
              Some t \<Rightarrow> if truthy (tn_completedAt t) \<and> (tn_status t = Some TCompleted \<or> tn_status t = Some TFailed)
                then tn_completedAt t else js_or (rt_observedAt event) (Some updatedAt)
            | None \<Rightarrow> js_or (rt_observedAt event) (Some updatedAt))
      in applyAiSessionPatch env current (empty_patch\<lparr>
           pt_activeTurnId := Put (if \<not> truthy (rt_activeTurnId event) \<or> rt_activeTurnId event = ss_activeTurnId current
             then None else ss_activeTurnId current),
           pt_status := Some (or_else (rt_status event) Idle), pt_phase := Some (or_else (rt_phase event) UnknownPhase),
           pt_completedAt := Put completedAt, pt_summary := responseText, pt_lastMessage := responseText,
           pt_error := errorText, pt_currentTool := Put None\<rparr>)
         ((patch_opts updatedAt meta)\<lparr>
           po_clearResponse := (\<not> truthy responseText \<and> \<not> truthy (Option.bind completedTurn tn_completedAt)),
           po_clearError := (rt_status event \<noteq> Some Failed)\<rparr>))"

definition reduceAiSessionRealtime :: "reducer_env \<Rightarrow> ai_session \<Rightarrow> realtime_input \<Rightarrow> ai_session option" where
  "reduceAiSessionRealtime env current event =
     (let updatedAt = or_else (rt_observedAt event) (ss_updatedAt current);
          meta = turnMeta (Some (rt_source event)) (rt_sourcePriority event) (rt_providerTurnId event)
            (rt_snapshotVersion event) (rt_observedAt event);
          silent = (patch_opts updatedAt meta)\<lparr>po_suppressTurnUpdate := True\<rparr>
      in case rt_kind event of
          SendAck \<Rightarrow> Some (reduce_send_ack env current event updatedAt meta)
        | ModelSelection \<Rightarrow> Some (applyAiSessionPatch env current
            (empty_patch\<lparr>pt_modelSelection := Put (rt_modelSelection event)\<rparr>) silent)
        | ReasoningEffort \<Rightarrow> Some (applyAiSessionPatch env current
            (empty_patch\<lparr>pt_reasoningEffort := Put (rt_reasoningEffort event)\<rparr>) silent)
        | Lifecycle \<Rightarrow> Some (reduce_lifecycle env current event updatedAt meta)
        | TurnStarted \<Rightarrow> Some (applyAiSessionPatch env current (empty_patch\<lparr>
              pt_activeTurnId := Put (js_or (rt_activeTurnId event) (ss_activeTurnId current)),
              pt_status := Some (or_else (rt_status event) Running), pt_phase := Some (or_else (rt_phase event) Thinking)\<rparr>)
            ((patch_opts updatedAt meta)\<lparr>po_clearError := True\<rparr>))
        | UserMessage \<Rightarrow> Some (reduce_user_message env current event updatedAt meta)
        | AssistantMessage \<Rightarrow> Some (reduce_assistant_message env current event updatedAt meta)
        | ApprovalRequested \<Rightarrow> Some (reduce_approval_requested env current event updatedAt meta)
        | ToolActivity \<Rightarrow> Some (applyAiSessionPatch env current (empty_patch\<lparr>
              pt_currentTool := Put (Option.bind (rt_currentTool event) (\<lambda>t. t)),
              pt_toolCallsSinceLastMessage := Put (rt_toolCallsSinceLastMessage event)\<rparr>) silent)
        | SubAgentActivity \<Rightarrow> Some (applyAiSessionPatch env current
            (empty_patch\<lparr>pt_subAgents := rt_subAgents event\<rparr>) silent)
        | SessionError \<Rightarrow> Some (applyAiSessionPatch env current (empty_patch\<lparr>pt_error := rt_error event\<rparr>) silent)
        | ContextCompaction \<Rightarrow> map_option (\<lambda>c. reduce_context_compaction env current event c updatedAt meta)
            (rt_contextCompaction event)
        | TurnCompleted \<Rightarrow> Some (reduce_turn_completed env current event updatedAt meta))"

section \<open>Snapshots\<close>

record snapshot_input =
  sn_source :: ai_source
  sn_sourcePriority :: "int option"
  sn_observedAt :: "string option"
  sn_snapshotVersion :: "int option"
  sn_agent :: string
  sn_creationSource :: "creation_source option"
  sn_appSessionId :: "string option"
  sn_appId :: "string option"
  sn_providerSessionId :: "string option"
  sn_lineage :: "lineage option"
  sn_providerMeta :: "json option"
  sn_modelSelection :: "model_selection option"
  sn_reasoningEffort :: "reasoning_effort option"
  sn_storyId :: "string option"
  sn_appBindingKeys :: "string list option"
  sn_actions :: "ai_actions option"
  sn_title :: "string option"
  sn_cwd :: "string option"
  sn_cwdFolderId :: "string option"
  sn_activeTurnId :: "string option"
  sn_userPrompt :: "string option"
  sn_turns :: "ai_turn list option"
  sn_status :: "lifecycle option"
  sn_phase :: "phase option"
  sn_summary :: "string option"
  sn_lastMessage :: "string option"
  sn_lastMessageItemId :: "string option"
  sn_error :: "string option"
  sn_currentTool :: "ai_tool option"
  sn_toolCallsSinceLastMessage :: "int option"
  sn_subAgents :: "sub_agent list option"
  sn_transcriptPath :: "string option"
  sn_transcriptSize :: "int option"
  sn_replaceActivity :: bool

definition isAuthoritativeAppBindingSnapshot :: "snapshot_input \<Rightarrow> bool" where
  "isAuthoritativeAppBindingSnapshot event =
     (sn_source event = AppSession
      \<or> sn_source event = AdapterSnapshot \<and> sn_agent event = ''codex'' \<and> sn_appId event = Some ''codex-app-server'')"

definition snapshot_meta :: "snapshot_input \<Rightarrow> turn_meta" where
  "snapshot_meta event = turnMeta (Some (sn_source event)) (sn_sourcePriority event) None (sn_snapshotVersion event) (sn_observedAt event)"

definition snapshot_patch :: "ai_session \<Rightarrow> snapshot_input \<Rightarrow> bool \<Rightarrow> bool \<Rightarrow> session_patch" where
  "snapshot_patch current event staleActivitySnapshot ignoreSnapshotTopLevelResponse =
     (let replaceAppBinding = isAuthoritativeAppBindingSnapshot event;
          activity = (\<lambda>old upd. if staleActivitySnapshot then old
            else if ignoreSnapshotTopLevelResponse then None else upd)
      in empty_patch\<lparr>
        pt_appSessionId := Put (if replaceAppBinding then sn_appSessionId event
          else js_or (sn_appSessionId event) (ss_appSessionId current)),
        pt_appId := Put (js_or (sn_appId event) (ss_appId current)),
        pt_providerSessionId := Put (js_or (sn_providerSessionId event) (ss_providerSessionId current)),
        pt_lineage := Put (js_nullish (ss_lineage current) (sn_lineage event)),
        pt_providerMeta := Put (js_nullish (sn_providerMeta event) (ss_providerMeta current)),
        pt_modelSelection := Put (js_nullish (sn_modelSelection event) (ss_modelSelection current)),
        pt_reasoningEffort := Put (js_nullish (sn_reasoningEffort event) (ss_reasoningEffort current)),
        pt_storyId := Put (js_or (sn_storyId event) (ss_storyId current)),
        pt_appBindingKeys := Put (if replaceAppBinding then sn_appBindingKeys event
          else js_nullish (sn_appBindingKeys event) (ss_appBindingKeys current)),
        pt_actions := js_nullish (sn_actions event) (ss_actions current),
        pt_activeTurnId := Put (nextActiveTurnId current (sn_activeTurnId event) (sn_status event) staleActivitySnapshot),
        pt_title := Put (js_or (sn_title event) (ss_title current)),
        pt_cwd := Put (js_or (sn_cwd event) (ss_cwd current)),
        pt_cwdFolderId := Put (js_or (sn_cwdFolderId event) (ss_cwdFolderId current)),
        pt_userPrompt := (if staleActivitySnapshot then ss_userPrompt current
          else js_or (sn_userPrompt event) (ss_userPrompt current)),
        pt_turns := (if staleActivitySnapshot then ss_turns current else sn_turns event),
        pt_lastMessage := activity (ss_lastMessage current) (js_or (sn_lastMessage event) (ss_lastMessage current)),
        pt_transcriptPath := Put (js_or (sn_transcriptPath event) (ss_transcriptPath current)),
        pt_transcriptSize := Put (js_nullish (sn_transcriptSize event) (ss_transcriptSize current)),
        pt_status := Some (if staleActivitySnapshot then ss_status current else or_else (sn_status event) (ss_status current)),
        pt_phase := Some (if staleActivitySnapshot then ss_phase current else or_else (sn_phase event) (ss_phase current)),
        pt_summary := activity (ss_summary current)
          (if sn_replaceActivity event then sn_summary event else js_or (sn_summary event) (ss_summary current)),
        pt_lastMessageItemId := Put (activity (ss_lastMessageItemId current)
          (js_or (sn_lastMessageItemId event) (ss_lastMessageItemId current))),
        pt_error := (if staleActivitySnapshot then ss_error current else sn_error event),
        pt_currentTool := Put (if sn_status event = Some Idle \<or> sn_status event = Some Failed then None
          else if staleActivitySnapshot then ss_currentTool current
          else if sn_replaceActivity event then sn_currentTool event
          else js_nullish (sn_currentTool event) (ss_currentTool current)),
        pt_toolCallsSinceLastMessage := Put (if staleActivitySnapshot then ss_toolCallsSinceLastMessage current
          else js_nullish (sn_toolCallsSinceLastMessage event)
            (if sn_replaceActivity event then Some 0 else ss_toolCallsSinceLastMessage current)),
        pt_subAgents := Some (if staleActivitySnapshot then ss_subAgents current
          else or_else (sn_subAgents event) (ss_subAgents current))\<rparr>)"

definition snapshot_options :: "ai_session \<Rightarrow> snapshot_input \<Rightarrow> ai_turn list \<Rightarrow> bool \<Rightarrow> patch_options" where
  "snapshot_options current event incomingTurns staleActivitySnapshot =
     (patch_opts (or_else (sn_observedAt event) (ss_updatedAt current)) (snapshot_meta event))\<lparr>
       po_replaceActivity := sn_replaceActivity event,
       po_clearError := (\<not> staleActivitySnapshot \<and> sn_replaceActivity event \<and> sn_status event \<noteq> Some Failed),
       po_suppressPromptTurn := (incomingTurns = []),
       po_suppressTurnUpdate := (incomingTurns = []),
       po_replaceTurns := (sn_replaceActivity event \<and> \<not> staleActivitySnapshot \<and> incomingTurns = []
         \<and> \<not> truthy (sn_userPrompt event) \<and> \<not> truthy (sn_summary event) \<and> \<not> truthy (sn_lastMessage event))\<rparr>"

text \<open>The result is the current state itself when the snapshot changes nothing but observation data.\<close>

definition reduceAiSessionSnapshot :: "reducer_env \<Rightarrow> ai_session \<Rightarrow> snapshot_input \<Rightarrow> ai_session" where
  "reduceAiSessionSnapshot env current event =
     (let incomingTurns = normalizeTurns (ev_sha1 env) (snapshot_meta event) (sn_turns event);
          staleActivitySnapshot = snapshotMissingPendingActiveTurn (ev_sha1 env) current (Some incomingTurns);
          incomingActiveTurn = (if truthy (ss_activeTurnId current)
            then List.find (\<lambda>turn. Some (tn_id turn) = ss_activeTurnId current) incomingTurns else None);
          ignoreSnapshotTopLevelResponse = (sn_replaceActivity event \<and> truthy (ss_activeTurnId current)
            \<and> (case incomingActiveTurn of None \<Rightarrow> False | Some t \<Rightarrow> \<not> turnHasResponse t));
          upd = buildAiSessionPatch env current
            (snapshot_patch current event staleActivitySnapshot ignoreSnapshotTopLevelResponse)
            (snapshot_options current event incomingTurns staleActivitySnapshot)
      in if sameAiSessionBusinessState current upd then current else upd)"

section \<open>What a patch leaves alone\<close>

lemma status_of_patch [simp]: "normalizeAiSessionLifecycle (Some (lifecycle_name s)) = s"
  by (rule lifecycle_round_trip)

lemma phase_of_patch [simp]: "normalizeAiSessionPhase (phase_name p) = p"
  by (rule phase_round_trip)

lemma build_identity:
  "ss_id (buildAiSessionPatch env s p opts) = ss_id s"
  "ss_agent (buildAiSessionPatch env s p opts) = ss_agent s"
  "ss_creationSource (buildAiSessionPatch env s p opts) = ss_creationSource s"
  "ss_startedAt (buildAiSessionPatch env s p opts) = ss_startedAt s"
  by (simp_all add: buildAiSessionPatch_def Let_def)

lemma build_counters:
  "ct_toolCalls (ss_counters s) \<le> ct_toolCalls (ss_counters (buildAiSessionPatch env s p opts))"
  "ct_edits (ss_counters s) \<le> ct_edits (ss_counters (buildAiSessionPatch env s p opts))"
  "ct_approvals (ss_counters s) \<le> ct_approvals (ss_counters (buildAiSessionPatch env s p opts))"
  by (simp_all add: buildAiSessionPatch_def Let_def normalizeAiSessionCounters_def)

lemma build_queue: "pt_queue p = None \<Longrightarrow> ss_queue (buildAiSessionPatch env s p opts) = ss_queue s"
  by (simp add: buildAiSessionPatch_def Let_def)

lemma build_unread:
  "pt_unread p = None \<Longrightarrow> ss_unread (buildAiSessionPatch env s p opts)
     = nextUnread (ss_unread s) (ss_status s) (ss_status (buildAiSessionPatch env s p opts))"
  by (simp add: buildAiSessionPatch_def Let_def)

lemma build_lineage: "pt_lineage p = Keep \<Longrightarrow> ss_lineage (buildAiSessionPatch env s p opts) = ss_lineage s"
  by (simp add: buildAiSessionPatch_def Let_def)

text \<open>Every realtime event is one patch, or leaves the session alone.\<close>

definition event_patch :: "session_patch \<Rightarrow> bool" where
  "event_patch p = (pt_queue p = None \<and> pt_unread p = None \<and> pt_lineage p = Keep \<and> pt_storyId p = Keep
     \<and> pt_providerSessionId p = Keep \<and> pt_appSessionId p = Keep \<and> pt_appId p = Keep \<and> pt_appBindingKeys p = Keep
     \<and> pt_providerMeta p = Keep \<and> pt_title p = Keep \<and> pt_cwd p = Keep \<and> pt_cwdFolderId p = Keep \<and> pt_transcriptPath p = Keep)"

lemma event_patch_empty [simp]: "event_patch empty_patch"
  by (simp add: event_patch_def empty_patch_def)

lemma event_patch_upd [simp]:
  "event_patch (p\<lparr>pt_activeTurnId := a\<rparr>) = event_patch p" "event_patch (p\<lparr>pt_status := b\<rparr>) = event_patch p"
  "event_patch (p\<lparr>pt_phase := c\<rparr>) = event_patch p" "event_patch (p\<lparr>pt_userPrompt := d\<rparr>) = event_patch p"
  "event_patch (p\<lparr>pt_userMessage := e\<rparr>) = event_patch p" "event_patch (p\<lparr>pt_modelSelection := f\<rparr>) = event_patch p"
  "event_patch (p\<lparr>pt_reasoningEffort := g\<rparr>) = event_patch p" "event_patch (p\<lparr>pt_currentTool := h\<rparr>) = event_patch p"
  "event_patch (p\<lparr>pt_summary := i\<rparr>) = event_patch p" "event_patch (p\<lparr>pt_lastMessage := j\<rparr>) = event_patch p"
  "event_patch (p\<lparr>pt_lastMessageItemId := k\<rparr>) = event_patch p" "event_patch (p\<lparr>pt_error := l\<rparr>) = event_patch p"
  "event_patch (p\<lparr>pt_toolCallsSinceLastMessage := m\<rparr>) = event_patch p" "event_patch (p\<lparr>pt_actions := n\<rparr>) = event_patch p"
  "event_patch (p\<lparr>pt_counters := q\<rparr>) = event_patch p" "event_patch (p\<lparr>pt_subAgents := r\<rparr>) = event_patch p"
  "event_patch (p\<lparr>pt_turns := t\<rparr>) = event_patch p" "event_patch (p\<lparr>pt_completedAt := u\<rparr>) = event_patch p"
  by (simp_all add: event_patch_def)

definition event_result :: "reducer_env \<Rightarrow> ai_session \<Rightarrow> ai_session \<Rightarrow> bool" where
  "event_result env s s' = (s' = s \<or> (\<exists>p opts. event_patch p \<and> s' = buildAiSessionPatch env s p opts))"

lemma event_result_apply [simp]: "event_patch p \<Longrightarrow> event_result env s (applyAiSessionPatch env s p opts)"
  by (auto simp: event_result_def applyAiSessionPatch_def)

lemma event_result_same [simp]: "event_result env s s"
  by (simp add: event_result_def)

lemmas event_handlers = reduce_send_ack_def reduce_lifecycle_def reduce_user_message_def reduce_assistant_message_def
  reduce_approval_requested_def reduce_turn_completed_def reduce_context_compaction_def

lemma realtime_result:
  assumes "reduceAiSessionRealtime env s event = Some s'"
  shows "event_result env s s'"
proof -
  have "event_result env s (reduce_lifecycle env s event t m)" "event_result env s (reduce_turn_completed env s event t m)"
    "event_result env s (reduce_send_ack env s event t m)" "event_result env s (reduce_user_message env s event t m)"
    "event_result env s (reduce_assistant_message env s event t m)"
    "event_result env s (reduce_approval_requested env s event t m)"
    "event_result env s (reduce_context_compaction env s event c t m)" for t m c
    by (simp_all add: event_handlers Let_def)
  with assms show ?thesis
    by (cases "rt_kind event") (auto simp: reduceAiSessionRealtime_def Let_def)
qed

text \<open>
  Claim C31. A realtime event never changes who the session is. Its id, agent, origin, start time, parent
  session, story, provider session with its metadata, app, app session and app binding keys stay, and so do title,
  folders and transcript; the queue of waiting messages is not touched; the three activity counters only grow; and the unread mark follows the lifecycle: off while the
  session is running or waiting, on when it has just stopped, unchanged otherwise.
\<close>

theorem realtime_keeps_identity:
  assumes "reduceAiSessionRealtime env s event = Some s'" and "s' \<noteq> s"
  shows "ss_id s' = ss_id s \<and> ss_agent s' = ss_agent s \<and> ss_creationSource s' = ss_creationSource s
    \<and> ss_startedAt s' = ss_startedAt s \<and> ss_lineage s' = ss_lineage s \<and> ss_storyId s' = ss_storyId s
    \<and> ss_providerSessionId s' = ss_providerSessionId s \<and> ss_providerMeta s' = ss_providerMeta s
    \<and> ss_appSessionId s' = ss_appSessionId s \<and> ss_appId s' = ss_appId s \<and> ss_appBindingKeys s' = ss_appBindingKeys s
    \<and> ss_title s' = ss_title s \<and> ss_cwd s' = ss_cwd s \<and> ss_cwdFolderId s' = ss_cwdFolderId s
    \<and> ss_transcriptPath s' = ss_transcriptPath s
    \<and> ss_queue s' = ss_queue s
    \<and> ct_toolCalls (ss_counters s) \<le> ct_toolCalls (ss_counters s')
    \<and> ct_edits (ss_counters s) \<le> ct_edits (ss_counters s')
    \<and> ct_approvals (ss_counters s) \<le> ct_approvals (ss_counters s')
    \<and> ss_unread s' = (if lifecycle_active (ss_status s') then False
         else lifecycle_active (ss_status s) \<or> ss_unread s)"
proof -
  from realtime_result[OF assms(1)] assms(2) obtain p opts
    where p: "event_patch p" and s': "s' = buildAiSessionPatch env s p opts"
    by (auto simp: event_result_def)
  have "ss_storyId s' = ss_storyId s" "ss_providerSessionId s' = ss_providerSessionId s" "ss_providerMeta s' = ss_providerMeta s"
    "ss_appSessionId s' = ss_appSessionId s" "ss_appId s' = ss_appId s" "ss_appBindingKeys s' = ss_appBindingKeys s"
    "ss_title s' = ss_title s" "ss_cwd s' = ss_cwd s" "ss_cwdFolderId s' = ss_cwdFolderId s" "ss_transcriptPath s' = ss_transcriptPath s"
    using p by (simp_all add: s' event_patch_def buildAiSessionPatch_def Let_def)
  with p build_identity[of env s p opts] build_counters[of s env p opts] build_queue[of p env s opts]
    build_lineage[of p env s opts] build_unread[of p env s opts]
  show ?thesis by (simp add: s' event_patch_def nextUnread_def)
qed

definition demo_env :: reducer_env where
  "demo_env = \<lparr>ev_sha1 = (\<lambda>_. ''h''), ev_turnId = ''g'', ev_collate = (\<le>)\<rparr>"

definition demo_event :: realtime_input where
  "demo_event = \<lparr>rt_kind = SessionError, rt_source = Realtime, rt_sourcePriority = None, rt_observedAt = Some demo_time,
     rt_snapshotVersion = None, rt_modelSelection = None, rt_reasoningEffort = None, rt_activeTurnId = None,
     rt_providerTurnId = None, rt_userPrompt = None, rt_userMessage = None, rt_text = None, rt_itemId = None,
     rt_status = None, rt_phase = None, rt_summary = None, rt_error = Some ''boom'', rt_currentTool = None,
     rt_toolCallsSinceLastMessage = None, rt_subAgents = None, rt_contextCompaction = None, rt_counters = None\<rparr>"

theorem realtime_keeps_identity_witness:
  "case reduceAiSessionRealtime demo_env demo_session demo_event of None \<Rightarrow> False
    | Some s' \<Rightarrow> ss_error s' = Some ''boom'' \<and> ss_id s' = ''s1'' \<and> ss_queue s' = ss_queue demo_session
        \<and> ss_appBindingKeys s' = ss_appBindingKeys demo_session"
proof -
  define s' where "s' = the (reduceAiSessionRealtime demo_env demo_session demo_event)"
  have r: "reduceAiSessionRealtime demo_env demo_session demo_event = Some s'"
    by (simp add: s'_def reduceAiSessionRealtime_def demo_event_def Let_def)
  have boom: "ss_error s' = Some ''boom''"
    by (simp add: s'_def reduceAiSessionRealtime_def demo_event_def Let_def applyAiSessionPatch_def buildAiSessionPatch_def
        patch_opts_def text_when_def empty_patch_def) code_simp
  then have "s' \<noteq> demo_session" by (auto simp: demo_session_def)
  moreover have "ss_id demo_session = ''s1''" by (simp add: demo_session_def)
  ultimately show ?thesis unfolding r option.case using realtime_keeps_identity[OF r] boom by simp
qed

text \<open>
  No event that the schema accepts is dropped: the reducer answers every realtime event that
  raises no issue with a state, and the only event it has no answer for is a context compaction
  without the compaction.
\<close>

theorem realtime_accepts_valid_events:
  "(realtime_issues event = [] \<longrightarrow> reduceAiSessionRealtime env s event \<noteq> None)
   \<and> (reduceAiSessionRealtime env s event = None \<longleftrightarrow> rt_kind event = ContextCompaction \<and> rt_contextCompaction event = None)"
  by (cases "rt_kind event") (simp_all add: reduceAiSessionRealtime_def realtime_issues_def required_for_def Let_def)

theorem realtime_accepts_valid_events_witness:
  "reduceAiSessionRealtime demo_env demo_session demo_event \<noteq> None"
  using realtime_accepts_valid_events[of demo_event demo_env demo_session]
  by (simp add: demo_event_def realtime_issues_def required_for_def)

section \<open>The normal form of a session\<close>

text \<open>
  A session is in normal form when its texts are as the reducer writes them, its prompt is the one of
  its latest turn that has one, its sub-agents are normalised, its interrupt action follows the
  lifecycle, and it is not unread while it is active.
\<close>

definition compacted :: "nat \<Rightarrow> string option \<Rightarrow> bool" where
  "compacted n v = (case v of None \<Rightarrow> True | Some x \<Rightarrow> compact x n = x)"

definition turns_trimmed :: "ai_turn list option \<Rightarrow> bool" where
  "turns_trimmed ts = list_all (\<lambda>t. trimmed_opt (tn_userPrompt t)) (opt_list ts)"

definition session_normal :: "reducer_env \<Rightarrow> ai_session \<Rightarrow> bool" where
  "session_normal env s =
     (compacted 1000 (ss_summary s) \<and> trimmed_opt (ss_lastMessage s) \<and> compacted 4000 (ss_error s)
      \<and> trimmed_opt (ss_userPrompt s) \<and> turns_trimmed (ss_turns s)
      \<and> (latestTurnUserPrompt (ss_turns s) = None \<or> ss_userPrompt s = latestTurnUserPrompt (ss_turns s))
      \<and> normalizeAiSessionSubAgents (ev_collate env) (ss_subAgents s) = ss_subAgents s
      \<and> (case ss_actions s of None \<Rightarrow> False | Some a \<Rightarrow> ac_interrupt a = Some (lifecycle_active (ss_status s)))
      \<and> \<not> (lifecycle_active (ss_status s) \<and> ss_unread s))"

lemma text_when_fixed:
  "compacted n old \<Longrightarrow> 3 \<le> n \<Longrightarrow> compacted n (text_when (\<lambda>s. compact s n) v old)"
  "trimmed_opt old \<Longrightarrow> trimmed_opt (text_when messageText v old)"
  by (auto simp: compacted_def text_when_def trimmed_opt_def messageText_def)

lemma normalizeTurns_trimmed: "turns_trimmed (Some (normalizeTurns sha meta ts))"
proof -
  have "trimmed_opt (tn_userPrompt (normalize_turn sha meta i t))" for i t
    by (simp add: normalize_turn_def trimmed_opt_def messageText_def)
  then show ?thesis
    using set_last_n[of 50 "filter turn_has_body (map (\<lambda>(index, record). normalize_turn sha meta index record)
      (enumerate 0 (opt_list ts)))"]
    by (auto simp: turns_trimmed_def opt_list_def normalizeTurns_def list_all_iff)
qed

lemma mergeTurns_baseline: "snd (mergeTurns sha cur inc meta) = normalizeTurns sha no_meta cur"
  by (simp add: mergeTurns_def Let_def)

lemma updateTurns_trimmed:
  assumes "turns_trimmed cur"
  shows "turns_trimmed (Some (updateTurns sha gid cur patch t meta))"
proof -
  obtain turns baseline where m: "mergeTurns sha cur (tp_turns patch) meta = (turns, baseline)" by fastforce
  then have b: "baseline = normalizeTurns sha no_meta cur"
    using mergeTurns_baseline[of sha cur "tp_turns patch" meta] by simp
  show ?thesis
    using assms normalizeTurns_trimmed[of sha no_meta] normalizeTurns_trimmed[of sha no_meta cur]
    by (auto simp: updateTurns_def m b Let_def turns_trimmed_def opt_list_def split: option.splits)
qed

lemma patched_turns_trimmed:
  "turns_trimmed (ss_turns s) \<Longrightarrow> turns_trimmed (patched_turns env s p opts t)"
  using normalizeTurns_trimmed[of "ev_sha1 env" no_meta None]
  by (auto simp: patched_turns_def intro!: updateTurns_trimmed) (simp add: turns_trimmed_def opt_list_def)

lemma latest_prompt_shape:
  assumes "turns_trimmed ts" and "latestTurnUserPrompt ts = Some x"
  shows "js_trim x = x \<and> x \<noteq> []"
proof -
  obtain t where "List.find (\<lambda>turn. js_trim (str_of (tn_userPrompt turn)) \<noteq> []) (rev (opt_list ts)) = Some t"
    and x: "tn_userPrompt t = Some x"
    using assms(2) by (auto simp: latestTurnUserPrompt_def bind_eq_Some_conv)
  then have "t \<in> set (opt_list ts)" "js_trim (str_of (tn_userPrompt t)) \<noteq> []" by (auto dest!: find_SomeD)
  with assms(1) x show ?thesis by (auto simp: turns_trimmed_def list_all_iff trimmed_opt_def)
qed

text \<open>The computed properties of a patched session; \<open>eff\<close> is what an absent text falls back to.\<close>

lemma build_status:
  "ss_status (buildAiSessionPatch env s p opts) = or_else (pt_status p) (ss_status s)"
  by (cases "pt_status p") (simp_all add: buildAiSessionPatch_def Let_def or_else_def)

lemma build_actions:
  "ss_actions (buildAiSessionPatch env s p opts) =
     Some ((or_else (js_nullish (pt_actions p) (ss_actions s)) no_actions)
       \<lparr>ac_interrupt := Some (lifecycle_active (or_else (pt_status p) (ss_status s)))\<rparr>)"
  by (cases "pt_status p") (simp_all add: buildAiSessionPatch_def Let_def or_else_def)

lemma build_sub_agents:
  "ss_subAgents (buildAiSessionPatch env s p opts) =
     (case pt_subAgents p of Some xs \<Rightarrow> normalizeAiSessionSubAgents (ev_collate env) xs | None \<Rightarrow> ss_subAgents s)"
  by (simp add: buildAiSessionPatch_def Let_def)

lemma build_turns: "\<exists>t. ss_turns (buildAiSessionPatch env s p opts) = patched_turns env s p opts t"
  by (auto simp: buildAiSessionPatch_def Let_def)

lemma build_prompt:
  "ss_userPrompt (buildAiSessionPatch env s p opts) =
     js_or (latestTurnUserPrompt (ss_turns (buildAiSessionPatch env s p opts)))
       (text_when messageText (pt_userPrompt p) (if po_replaceActivity opts then None else ss_userPrompt s))"
  by (simp add: buildAiSessionPatch_def Let_def)

lemma build_summary:
  "\<exists>eff \<in> {None, ss_summary s}. ss_summary (buildAiSessionPatch env s p opts)
     \<in> {None, text_when (\<lambda>x. compact x 1000) (pt_summary p) eff}"
  by (simp add: buildAiSessionPatch_def Let_def)

lemma build_lastMessage:
  "\<exists>eff \<in> {None, ss_lastMessage s}. ss_lastMessage (buildAiSessionPatch env s p opts)
     \<in> {None, text_when messageText (pt_lastMessage p) eff}"
  by (simp add: buildAiSessionPatch_def Let_def)

lemma build_error:
  "ss_error (buildAiSessionPatch env s p opts) =
     (if po_clearError opts then None else text_when (\<lambda>x. compact x 4000) (pt_error p) (ss_error s))"
  by (simp add: buildAiSessionPatch_def Let_def)

lemma build_read:
  "pt_unread p \<noteq> Some True \<Longrightarrow> lifecycle_active (ss_status (buildAiSessionPatch env s p opts)) \<Longrightarrow>
     \<not> ss_unread (buildAiSessionPatch env s p opts)"
  by (cases "pt_unread p") (simp_all add: buildAiSessionPatch_def Let_def nextUnread_def)

lemma build_normal:
  assumes "collation (ev_collate env)" and "session_normal env s" and "pt_unread p \<noteq> Some True"
  shows "session_normal env (buildAiSessionPatch env s p opts)"
proof -
  define r where "r = buildAiSessionPatch env s p opts"
  note n = assms(2)[unfolded session_normal_def]
  have none: "compacted k None" "trimmed_opt None" for k by (simp_all add: compacted_def trimmed_opt_def)
  have "compacted 1000 (ss_summary r)"
    using build_summary[of s env p opts, folded r_def] n none text_when_fixed(1)[of 1000] by auto
  moreover have "trimmed_opt (ss_lastMessage r)"
    using build_lastMessage[of s env p opts, folded r_def] n none text_when_fixed(2) by auto
  moreover have "compacted 4000 (ss_error r)"
    using build_error[of env s p opts, folded r_def] n none text_when_fixed(1)[of 4000] by auto
  moreover have t: "turns_trimmed (ss_turns r)"
    using build_turns[of env s p opts, folded r_def] n patched_turns_trimmed by auto
  moreover have "trimmed_opt (ss_userPrompt r)
      \<and> (latestTurnUserPrompt (ss_turns r) = None \<or> ss_userPrompt r = latestTurnUserPrompt (ss_turns r))"
  proof (cases "latestTurnUserPrompt (ss_turns r)")
    case None
    then show ?thesis using build_prompt[of env s p opts, folded r_def] n none text_when_fixed(2) by simp
  next
    case (Some x)
    then show ?thesis
      using build_prompt[of env s p opts, folded r_def] latest_prompt_shape[OF t Some] by (simp add: trimmed_opt_def)
  qed
  moreover have "normalizeAiSessionSubAgents (ev_collate env) (ss_subAgents r) = ss_subAgents r"
    using build_sub_agents[of env s p opts, folded r_def] n collation.sub_agents_idem[OF assms(1)]
    by (cases "pt_subAgents p") simp_all
  moreover have "case ss_actions r of None \<Rightarrow> False | Some a \<Rightarrow> ac_interrupt a = Some (lifecycle_active (ss_status r))"
    by (simp add: r_def build_actions build_status)
  moreover have "\<not> (lifecycle_active (ss_status r) \<and> ss_unread r)"
    using build_read[OF assms(3), of env s opts] by (auto simp: r_def)
  ultimately show ?thesis unfolding r_def[symmetric] session_normal_def by blast
qed

lemma snapshot_patch_unread: "pt_unread (snapshot_patch s e stale ignored) = None"
  by (simp add: snapshot_patch_def empty_patch_def Let_def)

text \<open>
  Claim C34. Both reducers keep a session in normal form, whatever the event or the snapshot carries: the
  texts within their limits, the prompt of the latest turn, the sub-agents, and the interrupt action
  that is offered exactly while the session is running or waiting.
\<close>

theorem reducers_keep_normal_form:
  assumes "collation (ev_collate env)" and "session_normal env s"
  shows "session_normal env (reduceAiSessionSnapshot env s snapshot)
    \<and> (case reduceAiSessionRealtime env s event of None \<Rightarrow> True | Some s' \<Rightarrow> session_normal env s')"
proof
  show "session_normal env (reduceAiSessionSnapshot env s snapshot)"
    using assms(2) build_normal[OF assms]
    by (simp add: reduceAiSessionSnapshot_def Let_def snapshot_patch_unread)
next
  show "case reduceAiSessionRealtime env s event of None \<Rightarrow> True | Some s' \<Rightarrow> session_normal env s'"
  proof (cases "reduceAiSessionRealtime env s event")
    case (Some s')
    from realtime_result[OF this] show ?thesis
      using assms(2) build_normal[OF assms] by (auto simp: Some event_result_def event_patch_def)
  qed simp
qed

definition normal_session :: ai_session where
  "normal_session = demo_session\<lparr>ss_actions := Some (no_actions\<lparr>ac_interrupt := Some False\<rparr>)\<rparr>"

lemma normal_session_normal: "session_normal demo_env normal_session"
  by (simp add: session_normal_def normal_session_def demo_session_def demo_env_def compacted_def trimmed_opt_def
      turns_trimmed_def opt_list_def latestTurnUserPrompt_def normalizeAiSessionSubAgents_def lifecycle_active_def)

lemma demo_collation: "collation (ev_collate demo_env)"
  using code_units.collation_axioms by (simp add: demo_env_def)

theorem reducers_keep_normal_form_witness:
  "case reduceAiSessionRealtime demo_env normal_session demo_event of None \<Rightarrow> True | Some s' \<Rightarrow> session_normal demo_env s'"
  using reducers_keep_normal_form[OF demo_collation normal_session_normal] by blast

section \<open>A snapshot that repeats what is known\<close>

fun json_keys_ok :: "json \<Rightarrow> bool" where
  "json_keys_ok (JArr xs) = list_all json_keys_ok xs"
| "json_keys_ok (JObj kvs) = (distinct (map fst kvs) \<and> list_all (\<lambda>(k, v). json_keys_ok v) kvs)"
| "json_keys_ok _ = True"

lemma samePersistedValue_refl: "json_keys_ok v \<Longrightarrow> samePersistedValue v v"
proof (induction v)
  case (JArr xs)
  have "samePersistedValue (nullish_null x) (nullish_null x)" if "x \<in> set xs" for x
    using JArr that by (auto simp: nullish_null_def list_all_iff)
  then show ?case by (auto simp: list_all_iff set_zip)
next
  case (JObj kvs)
  then show ?case by (force simp: list_all_iff)
qed simp_all

lemma sameAiSessionBusinessState_refl:
  assumes "case ss_providerMeta s of None \<Rightarrow> True | Some m \<Rightarrow> json_keys_ok m"
  shows "sameAiSessionBusinessState s (s\<lparr>ss_updatedAt := t\<rparr>)"
  using assms samePersistedValue_refl
  by (auto simp: sameAiSessionBusinessState_def samePersistedMeta_def sameAiSessionTurnContent_def list_all_iff
      set_zip split: option.splits)

text \<open>
  A snapshot repeats what is known when it is no authority on app bindings, carries no turns and no
  activity to replace, and reports each property of the session either not at all or as stored.
\<close>

definition repeats_known :: "ai_session \<Rightarrow> snapshot_input \<Rightarrow> bool" where
  "repeats_known s e =
     (\<not> isAuthoritativeAppBindingSnapshot e \<and> \<not> sn_replaceActivity e \<and> sn_turns e = None \<and> sn_activeTurnId e = None
      \<and> sn_appSessionId e \<in> {None, ss_appSessionId s} \<and> sn_appId e \<in> {None, ss_appId s}
      \<and> sn_providerSessionId e \<in> {None, ss_providerSessionId s} \<and> sn_lineage e \<in> {None, ss_lineage s}
      \<and> sn_providerMeta e \<in> {None, ss_providerMeta s} \<and> sn_modelSelection e \<in> {None, ss_modelSelection s}
      \<and> sn_reasoningEffort e \<in> {None, ss_reasoningEffort s} \<and> sn_storyId e \<in> {None, ss_storyId s}
      \<and> sn_appBindingKeys e \<in> {None, ss_appBindingKeys s} \<and> sn_actions e \<in> {None, ss_actions s}
      \<and> sn_title e \<in> {None, ss_title s} \<and> sn_cwd e \<in> {None, ss_cwd s} \<and> sn_cwdFolderId e \<in> {None, ss_cwdFolderId s}
      \<and> sn_userPrompt e \<in> {None, ss_userPrompt s} \<and> sn_phase e \<in> {None, Some (ss_phase s)}
      \<and> (sn_status e = None \<or> sn_status e = Some (ss_status s) \<and> lifecycle_active (ss_status s))
      \<and> sn_summary e \<in> {None, ss_summary s} \<and> sn_lastMessage e \<in> {None, ss_lastMessage s}
      \<and> sn_lastMessageItemId e \<in> {None, ss_lastMessageItemId s} \<and> sn_error e \<in> {None, ss_error s}
      \<and> sn_currentTool e \<in> {None, ss_currentTool s}
      \<and> sn_toolCallsSinceLastMessage e \<in> {None, ss_toolCallsSinceLastMessage s}
      \<and> sn_subAgents e \<in> {None, Some (ss_subAgents s)} \<and> sn_transcriptPath e \<in> {None, ss_transcriptPath s}
      \<and> sn_transcriptSize e \<in> {None, ss_transcriptSize s})"

lemma or_known [simp]:
  "v \<in> {None, w} \<Longrightarrow> js_or v w = w" "x \<in> {None, y} \<Longrightarrow> js_nullish x y = y" "x \<in> {None, y} \<Longrightarrow> js_nullish y x = y"
  "z \<in> {None, Some d} \<Longrightarrow> or_else z d = d"
  by (auto simp: js_or_def js_nullish_def or_else_def split: option.splits)

lemma text_when_known:
  "compacted n old \<Longrightarrow> v \<in> {None, old} \<Longrightarrow> text_when (\<lambda>x. compact x n) v old = old"
  "trimmed_opt old \<Longrightarrow> v \<in> {None, old} \<Longrightarrow> text_when messageText v old = old"
  by (auto simp: text_when_def compacted_def trimmed_opt_def messageText_def split: option.splits)

definition stored_patch :: "ai_session \<Rightarrow> string option \<Rightarrow> session_patch" where
  "stored_patch s err = empty_patch\<lparr>
     pt_appSessionId := Put (ss_appSessionId s), pt_appId := Put (ss_appId s),
     pt_providerSessionId := Put (ss_providerSessionId s), pt_lineage := Put (ss_lineage s),
     pt_providerMeta := Put (ss_providerMeta s), pt_modelSelection := Put (ss_modelSelection s),
     pt_reasoningEffort := Put (ss_reasoningEffort s), pt_storyId := Put (ss_storyId s),
     pt_appBindingKeys := Put (ss_appBindingKeys s), pt_actions := ss_actions s,
     pt_activeTurnId := Put (ss_activeTurnId s), pt_title := Put (ss_title s), pt_cwd := Put (ss_cwd s),
     pt_cwdFolderId := Put (ss_cwdFolderId s), pt_userPrompt := ss_userPrompt s, pt_status := Some (ss_status s),
     pt_phase := Some (ss_phase s), pt_summary := ss_summary s, pt_lastMessage := ss_lastMessage s,
     pt_lastMessageItemId := Put (ss_lastMessageItemId s), pt_currentTool := Put (ss_currentTool s),
     pt_toolCallsSinceLastMessage := Put (ss_toolCallsSinceLastMessage s), pt_subAgents := Some (ss_subAgents s),
     pt_transcriptPath := Put (ss_transcriptPath s), pt_transcriptSize := Put (ss_transcriptSize s), pt_error := err\<rparr>"

lemma known_status:
  "repeats_known s e \<Longrightarrow> sn_status e = None \<or> sn_status e = Some (ss_status s) \<and> lifecycle_active (ss_status s)"
  unfolding repeats_known_def by (elim conjE)

lemma known_error: "repeats_known s e \<Longrightarrow> sn_error e \<in> {None, ss_error s}"
  unfolding repeats_known_def by (elim conjE)

lemma known_patch:
  assumes "repeats_known s e"
  shows "\<exists>err ts. err \<in> {None, ss_error s} \<and> snapshot_patch s e stale False = (stored_patch s err)\<lparr>pt_turns := ts\<rparr>"
proof -
  note k = assms[unfolded repeats_known_def]
  have st: "or_else (sn_status e) (ss_status s) = ss_status s" "\<not> (sn_status e = Some Idle \<or> sn_status e = Some Failed)"
    using known_status[OF assms] by (auto simp: or_else_def lifecycle_active_def)
  have "nextActiveTurnId s (sn_activeTurnId e) (sn_status e) stale = ss_activeTurnId s"
    using k st(2) by (simp add: nextActiveTurnId_def)
  then have "snapshot_patch s e stale False = (stored_patch s (if stale then ss_error s else sn_error e))
      \<lparr>pt_turns := if stale then ss_turns s else sn_turns e\<rparr>"
    using k st by (simp add: snapshot_patch_def stored_patch_def Let_def)
  then show ?thesis using known_error[OF assms] by (intro exI conjI) (auto simp del: or_known)
qed

lemma text_when_stored:
  "compacted n old \<Longrightarrow> old \<noteq> Some [] \<Longrightarrow> text_when (\<lambda>x. compact x n) old (if starts then None else old) = old"
  "trimmed_opt old \<Longrightarrow> old \<noteq> Some [] \<Longrightarrow> text_when messageText old (if starts then None else old) = old"
  by (cases old; simp add: text_when_def compacted_def trimmed_opt_def messageText_def)+

lemma build_stored:
  assumes "session_normal env s" and "ss_summary s \<noteq> Some []" and "ss_lastMessage s \<noteq> Some []" and "err \<in> {None, ss_error s}"
    and o: "\<not> po_replaceActivity opts" "\<not> po_clearResponse opts" "\<not> po_clearError opts" "\<not> po_replaceTurns opts"
      "po_suppressTurnUpdate opts" "\<not> po_preserveUpdatedAt opts"
  shows "buildAiSessionPatch env s ((stored_patch s err)\<lparr>pt_turns := ts\<rparr>) opts
    = s\<lparr>ss_updatedAt := or_else (po_updatedAt opts) (ss_updatedAt s)\<rparr>"
    (is "buildAiSessionPatch env s ?p opts = ?r")
proof -
  note n = assms(1)[unfolded session_normal_def]
  obtain a where a: "ss_actions s = Some a" "ac_interrupt a = Some (lifecycle_active (ss_status s))"
    using n by (cases "ss_actions s") auto
  have turns: "patched_turns env s ?p opts t = ss_turns s" for t
    using o by (simp add: patched_turns_def)
  have prompt: "js_or (latestTurnUserPrompt (ss_turns s)) (text_when messageText (ss_userPrompt s) (ss_userPrompt s)) = ss_userPrompt s"
    using n by (auto simp: text_when_known js_or_def)
  have act: "a\<lparr>ac_interrupt := Some (lifecycle_active (ss_status s))\<rparr> = a" using a(2) by simp
  have unread: "nextUnread (ss_unread s) (ss_status s) (ss_status s) = ss_unread s"
    using n by (auto simp: nextUnread_def)
  have "text_when (\<lambda>x. compact x 4000) err (ss_error s) = ss_error s" using n assms(4) by (intro text_when_known) auto
  then show ?thesis
    unfolding buildAiSessionPatch_def turns Let_def
    using n o
    by (intro ai_session.equality)
       (simp_all add: stored_patch_def empty_patch_def a(1) act unread prompt text_when_stored assms(2,3)
         normalizeAiSessionCounters_def or_else_def)
qed

text \<open>
  A discovery scan that finds nothing new is invisible: a snapshot that repeats what a session in
  normal form already holds is answered with that very state, with the same \<^verbatim>\<open>updatedAt\<close>, whatever
  the source, the time and the version of the observation, and whether or not a turn is pending.
\<close>

theorem repeated_snapshot_changes_nothing:
  assumes "session_normal env s" and "repeats_known s e"
    and "ss_summary s \<noteq> Some []" and "ss_lastMessage s \<noteq> Some []"
    and "case ss_providerMeta s of None \<Rightarrow> True | Some m \<Rightarrow> json_keys_ok m"
  shows "reduceAiSessionSnapshot env s e = s"
proof -
  have k: "sn_turns e = None" "\<not> sn_replaceActivity e" using assms(2) by (simp_all add: repeats_known_def)
  define stale where "stale = snapshotMissingPendingActiveTurn (ev_sha1 env) s (Some [])"
  obtain err ts where "err \<in> {None, ss_error s}"
    and p: "snapshot_patch s e stale False = (stored_patch s err)\<lparr>pt_turns := ts\<rparr>"
    using known_patch[OF assms(2)] by blast
  then have "buildAiSessionPatch env s (snapshot_patch s e stale False) (snapshot_options s e [] stale)
      = s\<lparr>ss_updatedAt := or_else (po_updatedAt (snapshot_options s e [] stale)) (ss_updatedAt s)\<rparr>"
    unfolding p using k(2) assms(1,3,4)
    by (intro build_stored) (simp_all add: snapshot_options_def patch_opts_def)
  then show ?thesis
    using k sameAiSessionBusinessState_refl[OF assms(5)]
    by (simp add: reduceAiSessionSnapshot_def stale_def[symmetric] Let_def)
qed

definition demo_snapshot :: snapshot_input where
  "demo_snapshot = \<lparr>sn_source = ProcessScan, sn_sourcePriority = None, sn_observedAt = Some demo_time, sn_snapshotVersion = Some 7,
     sn_agent = ''codex'', sn_creationSource = None, sn_appSessionId = None, sn_appId = None,
     sn_providerSessionId = Some ''p1'', sn_lineage = None, sn_providerMeta = None, sn_modelSelection = None,
     sn_reasoningEffort = None, sn_storyId = None, sn_appBindingKeys = None, sn_actions = None, sn_title = None,
     sn_cwd = None, sn_cwdFolderId = None, sn_activeTurnId = None, sn_userPrompt = None, sn_turns = None,
     sn_status = None, sn_phase = None, sn_summary = None, sn_lastMessage = None, sn_lastMessageItemId = None,
     sn_error = None, sn_currentTool = None, sn_toolCallsSinceLastMessage = None, sn_subAgents = None,
     sn_transcriptPath = None, sn_transcriptSize = None, sn_replaceActivity = False\<rparr>"

theorem repeated_snapshot_changes_nothing_witness:
  "reduceAiSessionSnapshot demo_env normal_session demo_snapshot = normal_session"
proof (rule repeated_snapshot_changes_nothing[OF normal_session_normal])
  show "repeats_known normal_session demo_snapshot"
    by (simp add: repeats_known_def demo_snapshot_def isAuthoritativeAppBindingSnapshot_def normal_session_def demo_session_def)
qed (simp_all add: normal_session_def demo_session_def)

text \<open>
  The list of business keys is exhaustive: two states count as the same exactly when
  they agree on everything but \<^verbatim>\<open>updatedAt\<close>, the observation data of the turns and the
  representation of the provider metadata.
\<close>

theorem business_state_covers_session:
  "sameAiSessionBusinessState a b \<longleftrightarrow>
     a\<lparr>ss_updatedAt := [], ss_turns := None, ss_providerMeta := None\<rparr>
       = b\<lparr>ss_updatedAt := [], ss_turns := None, ss_providerMeta := None\<rparr>
     \<and> map aiSessionTurnContentValue (opt_list (ss_turns a)) = map aiSessionTurnContentValue (opt_list (ss_turns b))
     \<and> samePersistedMeta (ss_providerMeta a) (ss_providerMeta b)"
proof -
  have "sameAiSessionTurnContent x y \<longleftrightarrow>
      map aiSessionTurnContentValue (opt_list x) = map aiSessionTurnContentValue (opt_list y)" for x y
    by (fastforce simp: sameAiSessionTurnContent_def list_all_iff list_eq_iff_nth_eq set_zip)
  then show ?thesis
    by (cases a; cases b) (auto simp: sameAiSessionBusinessState_def)
qed

end
