(* ===== verification/Session_Codec.thy ===== *)
theory Session_Codec
  imports Session_Queue
begin

text \<open>
  The codec of stored sessions (\<^verbatim>\<open>packages/ai-session-runtime/src/ai-session/persistence.ts\<close>):
  \<^verbatim>\<open>encodePersistedAiSession\<close> checks a session against \<^verbatim>\<open>AiSessionStatusSchema\<close>, \<^verbatim>\<open>decodePersistedAiSession\<close>
  brings a stored record into the form of the current version and checks it again. Both are given on
  the typed record: a stored property is an option, a value of another JSON type counts as absent.
  A failed check is \<^const>\<open>None\<close>.
\<close>

section \<open>Schemas\<close>

definition opt_parse :: "('a \<Rightarrow> 'a option) \<Rightarrow> 'a option \<Rightarrow> 'a option option" where
  "opt_parse p v = (case v of None \<Rightarrow> Some None | Some x \<Rightarrow> map_option Some (p x))"

definition list_parse :: "nat \<Rightarrow> ('a \<Rightarrow> 'a option) \<Rightarrow> 'a list \<Rightarrow> 'a list option" where
  "list_parse n p xs = (if length xs \<le> n then parse_all p xs else None)"

definition checked :: "('a \<Rightarrow> bool) \<Rightarrow> 'a \<Rightarrow> 'a option" where
  "checked ok x = (if ok x then Some x else None)"

definition compaction_parse :: "compaction \<Rightarrow> compaction option" where
  "compaction_parse c =
     (case (nonempty_text 240 (cc_id c), opt_parse (checked datetime_text) (cc_startedAt c),
            opt_parse (checked datetime_text) (cc_completedAt c)) of
        (Some i, Some a, Some b) \<Rightarrow> Some (c\<lparr>cc_id := i, cc_startedAt := a, cc_completedAt := b\<rparr>)
      | _ \<Rightarrow> None)"

definition user_message_parse :: "user_message \<Rightarrow> user_message option" where
  "user_message_parse m =
     (case (nonempty_text 240 (um_id m), list_parse 6 conv_attachment_parse (um_attachments m)) of
        (Some i, Some as) \<Rightarrow> Some (m\<lparr>um_id := i, um_attachments := as\<rparr>)
      | _ \<Rightarrow> None)"

definition any_text :: "string \<Rightarrow> string option" where
  "any_text s = Some (js_trim s)"

definition turn_parse :: "ai_turn \<Rightarrow> ai_turn option" where
  "turn_parse t =
     Option.bind (nonempty_text 240 (tn_id t)) (\<lambda>i.
     Option.bind (opt_parse (trimmed_text 240) (tn_providerTurnId t)) (\<lambda>pt.
     Option.bind (opt_parse any_text (tn_userPrompt t)) (\<lambda>up.
     Option.bind (opt_parse (list_parse 100 user_message_parse) (tn_userMessages t)) (\<lambda>ms.
     Option.bind (opt_parse (trimmed_text 1000) (tn_summary t)) (\<lambda>su.
     Option.bind (opt_parse any_text (tn_lastMessage t)) (\<lambda>lm.
     Option.bind (opt_parse (trimmed_text 240) (tn_lastMessageItemId t)) (\<lambda>li.
     Option.bind (opt_parse (list_parse 20 compaction_parse) (tn_contextCompactions t)) (\<lambda>cs.
       if 0 \<le> tn_revision t \<and> pred_option (\<lambda>n. 0 \<le> n \<and> n \<le> 100) (tn_sourcePriority t)
          \<and> pred_option (\<lambda>n. 0 \<le> n) (tn_snapshotVersion t) \<and> pred_option datetime_text (tn_observedAt t)
          \<and> pred_option datetime_text (tn_startedAt t) \<and> pred_option datetime_text (tn_updatedAt t)
          \<and> pred_option datetime_text (tn_completedAt t)
       then Some (t\<lparr>tn_id := i, tn_providerTurnId := pt, tn_userPrompt := up, tn_userMessages := ms,
              tn_status := Some (case tn_status t of Some st \<Rightarrow> st | None \<Rightarrow> TRunning), tn_summary := su,
              tn_lastMessage := lm, tn_lastMessageItemId := li, tn_contextCompactions := cs\<rparr>)
       else None))))))))"

definition lineage_parse :: "lineage \<Rightarrow> lineage option" where
  "lineage_parse l =
     (case l of
        Fork p t \<Rightarrow> (case (nonempty_text 240 p, opt_parse (nonempty_text 240) t) of
            (Some p', Some t') \<Rightarrow> Some (Fork p' t') | _ \<Rightarrow> None)
      | Subagent p \<Rightarrow> map_option Subagent (nonempty_text 240 p))"

definition normalizeAiSessionLineage :: "lineage option \<Rightarrow> lineage option" where
  "normalizeAiSessionLineage value = Option.bind value lineage_parse"

definition model_selection_parse :: "model_selection \<Rightarrow> model_selection option" where
  "model_selection_parse m =
     (case (nonempty_text 120 (ms_entityId m), nonempty_text 240 (ms_name m), opt_parse (nonempty_text 240) (ms_upstreamName m)) of
        (Some e, Some n, Some u) \<Rightarrow> Some \<lparr>ms_entityId = e, ms_name = n, ms_upstreamName = u\<rparr>
      | _ \<Rightarrow> None)"

definition tool_parse :: "ai_tool \<Rightarrow> ai_tool option" where
  "tool_parse t =
     (case (opt_parse (nonempty_text 240) (tl_id t), opt_parse (nonempty_text 80) (tl_kind t), nonempty_text 120 (tl_name t),
            opt_parse (trimmed_text 500) (tl_inputPreview t), opt_parse (checked datetime_text) (tl_startedAt t)) of
        (Some i, Some k, Some n, Some p, Some d) \<Rightarrow>
          Some \<lparr>tl_id = i, tl_kind = k, tl_name = n, tl_inputPreview = p, tl_startedAt = d\<rparr>
      | _ \<Rightarrow> None)"

definition sub_agents_parse :: "sub_agent list \<Rightarrow> sub_agent list option" where
  "sub_agents_parse xs = map_option (filter isCurrentAiSessionSubAgent) (list_parse 50 sub_agent_parse xs)"

definition queue_parse :: "message_queue \<Rightarrow> message_queue option" where
  "queue_parse q =
     (if 0 \<le> mq_revision q then map_option (\<lambda>items. q\<lparr>mq_items := items\<rparr>) (list_parse 100 queued_message_parse (mq_items q))
      else None)"

definition counters_ok :: "ai_counters \<Rightarrow> bool" where
  "counters_ok c = (0 \<le> ct_toolCalls c \<and> 0 \<le> ct_edits c \<and> 0 \<le> ct_approvals c)"

fun json_object :: "json \<Rightarrow> bool" where
  "json_object (JObj _) = True"
| "json_object _ = False"

text \<open>
  The parser of each text property of a session by its name in the record, then the whole schema:
  \<open>session_ok\<close> tells that no parser fails, \<open>session_trim\<close> is what they return.
\<close>

definition session_ok :: "ai_session \<Rightarrow> bool" where
  "session_ok s =
     (nonempty_text 120 (ss_id s) \<noteq> None \<and> nonempty_text 80 (ss_agent s) \<noteq> None
      \<and> opt_parse (trimmed_text 120) (ss_appSessionId s) \<noteq> None \<and> opt_parse (trimmed_text 120) (ss_appId s) \<noteq> None
      \<and> opt_parse (trimmed_text 240) (ss_providerSessionId s) \<noteq> None \<and> pred_option json_object (ss_providerMeta s)
      \<and> opt_parse model_selection_parse (ss_modelSelection s) \<noteq> None
      \<and> opt_parse (nonempty_text 120) (ss_storyId s) \<noteq> None
      \<and> opt_parse (list_parse 20 (nonempty_text 240)) (ss_appBindingKeys s) \<noteq> None
      \<and> opt_parse (trimmed_text 240) (ss_activeTurnId s) \<noteq> None \<and> opt_parse (trimmed_text 240) (ss_title s) \<noteq> None
      \<and> opt_parse (trimmed_text 4096) (ss_cwd s) \<noteq> None \<and> opt_parse (nonempty_text 120) (ss_cwdFolderId s) \<noteq> None
      \<and> opt_parse (list_parse 50 turn_parse) (ss_turns s) \<noteq> None
      \<and> opt_parse (trimmed_text 1000) (ss_summary s) \<noteq> None
      \<and> opt_parse (trimmed_text 240) (ss_lastMessageItemId s) \<noteq> None
      \<and> opt_parse tool_parse (ss_currentTool s) \<noteq> None \<and> pred_option (\<lambda>n. 0 \<le> n) (ss_toolCallsSinceLastMessage s)
      \<and> sub_agents_parse (ss_subAgents s) \<noteq> None \<and> opt_parse (trimmed_text 4096) (ss_transcriptPath s) \<noteq> None
      \<and> pred_option (\<lambda>n. 0 \<le> n) (ss_transcriptSize s) \<and> datetime_text (ss_startedAt s) \<and> datetime_text (ss_updatedAt s)
      \<and> pred_option datetime_text (ss_completedAt s) \<and> opt_parse (trimmed_text 4000) (ss_error s) \<noteq> None
      \<and> counters_ok (ss_counters s) \<and> queue_parse (ss_queue s) \<noteq> None)"

definition session_trim :: "ai_session \<Rightarrow> ai_session" where
  "session_trim s = s\<lparr>
     ss_id := the (nonempty_text 120 (ss_id s)), ss_agent := the (nonempty_text 80 (ss_agent s)),
     ss_appSessionId := the (opt_parse (trimmed_text 120) (ss_appSessionId s)),
     ss_appId := the (opt_parse (trimmed_text 120) (ss_appId s)),
     ss_providerSessionId := the (opt_parse (trimmed_text 240) (ss_providerSessionId s)),
     ss_lineage := normalizeAiSessionLineage (ss_lineage s),
     ss_modelSelection := the (opt_parse model_selection_parse (ss_modelSelection s)),
     ss_storyId := the (opt_parse (nonempty_text 120) (ss_storyId s)),
     ss_appBindingKeys := the (opt_parse (list_parse 20 (nonempty_text 240)) (ss_appBindingKeys s)),
     ss_activeTurnId := the (opt_parse (trimmed_text 240) (ss_activeTurnId s)),
     ss_title := the (opt_parse (trimmed_text 240) (ss_title s)),
     ss_cwd := the (opt_parse (trimmed_text 4096) (ss_cwd s)),
     ss_cwdFolderId := the (opt_parse (nonempty_text 120) (ss_cwdFolderId s)),
     ss_userPrompt := the (opt_parse any_text (ss_userPrompt s)),
     ss_turns := the (opt_parse (list_parse 50 turn_parse) (ss_turns s)),
     ss_summary := the (opt_parse (trimmed_text 1000) (ss_summary s)),
     ss_lastMessage := the (opt_parse any_text (ss_lastMessage s)),
     ss_lastMessageItemId := the (opt_parse (trimmed_text 240) (ss_lastMessageItemId s)),
     ss_currentTool := the (opt_parse tool_parse (ss_currentTool s)),
     ss_toolCallsSinceLastMessage := Some (case ss_toolCallsSinceLastMessage s of Some n \<Rightarrow> n | None \<Rightarrow> 0),
     ss_subAgents := the (sub_agents_parse (ss_subAgents s)),
     ss_transcriptPath := the (opt_parse (trimmed_text 4096) (ss_transcriptPath s)),
     ss_error := the (opt_parse (trimmed_text 4000) (ss_error s)),
     ss_queue := the (queue_parse (ss_queue s))\<rparr>"

definition session_parse :: "ai_session \<Rightarrow> ai_session option" where
  "session_parse s = (if session_ok s then Some (session_trim s) else None)"

section \<open>The codec\<close>

text \<open>Only the properties that are defined are stored, which on the record is the record itself.\<close>

definition encodePersistedAiSession :: "ai_session \<Rightarrow> ai_session option" where
  "encodePersistedAiSession session = session_parse session"

definition normalizePersistedTurns :: "(string \<Rightarrow> string) \<Rightarrow> ai_turn list option \<Rightarrow> ai_turn list" where
  "normalizePersistedTurns sha1_hex value =
     (case value of None \<Rightarrow> [] | Some _ \<Rightarrow> List.map_filter turn_parse (normalizeTurns sha1_hex no_meta value))"

definition limit_text :: "nat \<Rightarrow> string option \<Rightarrow> string option" where
  "limit_text n v = text_norm (\<lambda>s. compact s n) v"

definition decode_candidate :: "(string \<Rightarrow> string) \<Rightarrow> (string \<Rightarrow> string \<Rightarrow> bool) \<Rightarrow> ai_session \<Rightarrow> ai_session" where
  "decode_candidate sha1_hex le record = record\<lparr>
     ss_id := compact (ss_id record) 120,
     ss_agent := compact (ss_agent record) 80,
     ss_appSessionId := limit_text 120 (ss_appSessionId record),
     ss_appId := limit_text 120 (ss_appId record),
     ss_providerSessionId := limit_text 240 (ss_providerSessionId record),
     ss_lineage := normalizeAiSessionLineage (ss_lineage record),
     ss_providerMeta := Option.bind (ss_providerMeta record) (checked json_object),
     ss_modelSelection := Option.bind (ss_modelSelection record) model_selection_parse,
     ss_storyId := Option.bind (ss_storyId record) (nonempty_text 120),
     ss_appBindingKeys := Option.bind (ss_appBindingKeys record) (\<lambda>ks. normalizeStringArray ks 20 240),
     ss_actions := Option.bind (ss_actions record) normalizeActions,
     ss_activeTurnId := limit_text 240 (ss_activeTurnId record),
     ss_title := limit_text 240 (ss_title record),
     ss_cwd := limit_text 4096 (ss_cwd record),
     ss_cwdFolderId := limit_text 120 (ss_cwdFolderId record),
     ss_userPrompt := text_norm messageText (ss_userPrompt record),
     ss_turns := Some (normalizePersistedTurns sha1_hex (ss_turns record)),
     ss_status := normalizeAiSessionLifecycle (Some (lifecycle_name (ss_status record))),
     ss_phase := normalizeAiSessionPhase (phase_name (ss_phase record)),
     ss_summary := limit_text 1000 (ss_summary record),
     ss_lastMessage := text_norm messageText (ss_lastMessage record),
     ss_lastMessageItemId := limit_text 240 (ss_lastMessageItemId record),
     ss_currentTool := Option.bind (ss_currentTool record) normalizeTool,
     ss_toolCallsSinceLastMessage := Some (normalizeNonNegativeInteger
       (case ss_toolCallsSinceLastMessage record of Some n \<Rightarrow> n | None \<Rightarrow> 0)),
     ss_subAgents := normalizeAiSessionSubAgents le (ss_subAgents record),
     ss_transcriptPath := limit_text 4096 (ss_transcriptPath record),
     ss_transcriptSize := Option.bind (ss_transcriptSize record) (checked (\<lambda>n. 0 \<le> n)),
     ss_completedAt := Option.bind (ss_completedAt record) (checked datetime_text),
     ss_error := limit_text 4000 (ss_error record),
     ss_counters := normalizeAiSessionCounters (Some (ct_toolCalls (ss_counters record)),
       Some (ct_edits (ss_counters record)), Some (ct_approvals (ss_counters record))),
     ss_queue := normalizeAiSessionQueue (ss_queue record)\<rparr>"

definition decodePersistedAiSession :: "(string \<Rightarrow> string) \<Rightarrow> (string \<Rightarrow> string \<Rightarrow> bool) \<Rightarrow> ai_session \<Rightarrow> ai_session option" where
  "decodePersistedAiSession sha1_hex le record = session_parse (decode_candidate sha1_hex le record)"

section \<open>Parsers accept what they return\<close>

definition stable :: "('a \<Rightarrow> 'a option) \<Rightarrow> bool" where
  "stable p \<longleftrightarrow> (\<forall>v w. p v = Some w \<longrightarrow> p w = Some w)"

lemma stableI: "(\<And>v w. p v = Some w \<Longrightarrow> p w = Some w) \<Longrightarrow> stable p"
  by (simp add: stable_def)

lemma stableD: "stable p \<Longrightarrow> p v = Some w \<Longrightarrow> p w = Some w"
  by (simp add: stable_def)

lemma stable_the [simp]: "stable p \<Longrightarrow> p v \<noteq> None \<Longrightarrow> p (the (p v)) = Some (the (p v))"
  by (auto simp: stable_def)

lemma stable_opt [simp]: "stable p \<Longrightarrow> stable (opt_parse p)"
  by (auto simp: stable_def opt_parse_def split: option.splits)

lemma stable_list [simp]: "stable p \<Longrightarrow> stable (list_parse n p)"
  using parse_all_idem[of p] length_parse_all[of p]
  by (auto simp: stable_def list_parse_def split: if_splits)

lemma stable_checked [simp]: "stable (checked ok)"
  by (auto simp: stable_def checked_def)

lemma stable_texts [simp]: "stable (nonempty_text n)" "stable (trimmed_text n)" "stable any_text"
  by (auto simp: stable_def any_text_def nonempty_text_idem trimmed_text_idem)

lemma stable_parsers [simp]:
  "stable conv_attachment_parse" "stable sub_agent_parse" "stable queued_message_parse"
  by (auto simp: stable_def conv_attachment_parse_idem sub_agent_parse_idem queued_message_parse_idem)

lemma stable_compaction [simp]: "stable compaction_parse"
proof (rule stableI)
  fix v w
  assume "compaction_parse v = Some w"
  then obtain i a b where "nonempty_text 240 (cc_id v) = Some i" "opt_parse (checked datetime_text) (cc_startedAt v) = Some a"
    "opt_parse (checked datetime_text) (cc_completedAt v) = Some b" "w = v\<lparr>cc_id := i, cc_startedAt := a, cc_completedAt := b\<rparr>"
    by (auto simp: compaction_parse_def split: option.splits)
  then show "compaction_parse w = Some w"
    using stableD[OF stable_texts(1)] stableD[OF stable_opt[OF stable_checked[of datetime_text]]]
    by (simp add: compaction_parse_def)
qed

lemma stable_user_message [simp]: "stable user_message_parse"
proof (rule stableI)
  fix v w
  assume "user_message_parse v = Some w"
  then obtain i as where "nonempty_text 240 (um_id v) = Some i" "list_parse 6 conv_attachment_parse (um_attachments v) = Some as"
    "w = v\<lparr>um_id := i, um_attachments := as\<rparr>"
    by (auto simp: user_message_parse_def split: option.splits)
  then show "user_message_parse w = Some w"
    using stableD[OF stable_texts(1)] stableD[OF stable_list[OF stable_parsers(1)]]
    by (simp add: user_message_parse_def)
qed

lemma turn_parse_Some:
  "turn_parse t = Some r \<longleftrightarrow>
     nonempty_text 240 (tn_id t) = Some (tn_id r)
     \<and> opt_parse (trimmed_text 240) (tn_providerTurnId t) = Some (tn_providerTurnId r)
     \<and> opt_parse any_text (tn_userPrompt t) = Some (tn_userPrompt r)
     \<and> opt_parse (list_parse 100 user_message_parse) (tn_userMessages t) = Some (tn_userMessages r)
     \<and> opt_parse (trimmed_text 1000) (tn_summary t) = Some (tn_summary r)
     \<and> opt_parse any_text (tn_lastMessage t) = Some (tn_lastMessage r)
     \<and> opt_parse (trimmed_text 240) (tn_lastMessageItemId t) = Some (tn_lastMessageItemId r)
     \<and> opt_parse (list_parse 20 compaction_parse) (tn_contextCompactions t) = Some (tn_contextCompactions r)
     \<and> 0 \<le> tn_revision t \<and> pred_option (\<lambda>n. 0 \<le> n \<and> n \<le> 100) (tn_sourcePriority t)
     \<and> pred_option (\<lambda>n. 0 \<le> n) (tn_snapshotVersion t) \<and> pred_option datetime_text (tn_observedAt t)
     \<and> pred_option datetime_text (tn_startedAt t) \<and> pred_option datetime_text (tn_updatedAt t)
     \<and> pred_option datetime_text (tn_completedAt t)
     \<and> tn_status r = Some (case tn_status t of Some st \<Rightarrow> st | None \<Rightarrow> TRunning)
     \<and> tn_source r = tn_source t \<and> tn_phase r = tn_phase t \<and> tn_revision r = tn_revision t
     \<and> tn_sourcePriority r = tn_sourcePriority t \<and> tn_snapshotVersion r = tn_snapshotVersion t
     \<and> tn_observedAt r = tn_observedAt t \<and> tn_startedAt r = tn_startedAt t \<and> tn_updatedAt r = tn_updatedAt t
     \<and> tn_completedAt r = tn_completedAt t"
    (is "_ \<longleftrightarrow> ?R")
proof
  assume "turn_parse t = Some r"
  then show ?R unfolding turn_parse_def by (auto simp: bind_eq_Some_conv split: if_splits)
next
  assume R: ?R
  then have "r = t\<lparr>tn_id := tn_id r, tn_providerTurnId := tn_providerTurnId r, tn_userPrompt := tn_userPrompt r,
      tn_userMessages := tn_userMessages r, tn_status := tn_status r, tn_summary := tn_summary r,
      tn_lastMessage := tn_lastMessage r, tn_lastMessageItemId := tn_lastMessageItemId r,
      tn_contextCompactions := tn_contextCompactions r\<rparr>"
    by (intro ai_turn.equality) simp_all
  with R show "turn_parse t = Some r" unfolding turn_parse_def by simp
qed

lemma stable_turn [simp]: "stable turn_parse"
proof (rule stableI)
  fix t r
  assume p: "turn_parse t = Some r"
  note d = stableD[OF stable_texts(1)] stableD[OF stable_opt[OF stable_texts(2)]] stableD[OF stable_opt[OF stable_texts(3)]]
    stableD[OF stable_opt[OF stable_list[OF stable_user_message]]] stableD[OF stable_opt[OF stable_list[OF stable_compaction]]]
  show "turn_parse r = Some r"
    using p unfolding turn_parse_Some[of r r] turn_parse_Some[of t r]
    by (elim conjE, intro conjI) ((erule d) | simp)+
qed

lemma stable_lineage [simp]: "stable lineage_parse"
proof (rule stableI)
  fix v w
  assume p: "lineage_parse v = Some w"
  note d = stableD[OF stable_texts(1)] stableD[OF stable_opt[OF stable_texts(1)]]
  show "lineage_parse w = Some w"
  proof (cases v)
    case (Fork a b)
    with p obtain a' b' where "nonempty_text 240 a = Some a'" "opt_parse (nonempty_text 240) b = Some b'" "w = Fork a' b'"
      by (auto simp: lineage_parse_def split: option.splits)
    then show ?thesis by (simp add: lineage_parse_def d)
  next
    case (Subagent a)
    with p obtain a' where "nonempty_text 240 a = Some a'" "w = Subagent a'" by (auto simp: lineage_parse_def)
    then show ?thesis by (simp add: lineage_parse_def d)
  qed
qed

lemma stable_model_selection [simp]: "stable model_selection_parse"
proof (rule stableI)
  fix v w
  assume "model_selection_parse v = Some w"
  then obtain e n u where "nonempty_text 120 (ms_entityId v) = Some e" "nonempty_text 240 (ms_name v) = Some n"
    "opt_parse (nonempty_text 240) (ms_upstreamName v) = Some u" "w = \<lparr>ms_entityId = e, ms_name = n, ms_upstreamName = u\<rparr>"
    by (auto simp: model_selection_parse_def split: option.splits)
  then show "model_selection_parse w = Some w"
    using stableD[OF stable_texts(1)] stableD[OF stable_opt[OF stable_texts(1)]] by (simp add: model_selection_parse_def)
qed

lemma tool_parse_Some:
  "tool_parse t = Some r \<longleftrightarrow>
     opt_parse (nonempty_text 240) (tl_id t) = Some (tl_id r) \<and> opt_parse (nonempty_text 80) (tl_kind t) = Some (tl_kind r)
     \<and> nonempty_text 120 (tl_name t) = Some (tl_name r) \<and> opt_parse (trimmed_text 500) (tl_inputPreview t) = Some (tl_inputPreview r)
     \<and> opt_parse (checked datetime_text) (tl_startedAt t) = Some (tl_startedAt r)"
  by (cases r) (auto simp: tool_parse_def split: option.splits)

lemma stable_tool [simp]: "stable tool_parse"
proof (rule stableI)
  fix v w
  assume p: "tool_parse v = Some w"
  note d = stableD[OF stable_texts(1)] stableD[OF stable_opt[OF stable_texts(1)]] stableD[OF stable_opt[OF stable_texts(2)]]
      stableD[OF stable_opt[OF stable_checked]]
  show "tool_parse w = Some w"
    using p unfolding tool_parse_Some by (elim conjE, intro conjI) (erule d)+
qed

lemma parse_all_self: "parse_all p xs = Some xs \<longleftrightarrow> (\<forall>x \<in> set xs. p x = Some x)"
  by (induction xs) (auto simp: parse_all_def split: if_splits)

lemma stable_sub_agents [simp]: "stable sub_agents_parse"
proof (rule stableI)
  fix v w
  assume "sub_agents_parse v = Some w"
  then obtain ys where ys: "list_parse 50 sub_agent_parse v = Some ys" and w: "w = filter isCurrentAiSessionSubAgent ys"
    by (auto simp: sub_agents_parse_def)
  from stableD[OF stable_list[OF stable_parsers(2)] ys] have "length ys \<le> 50" "\<forall>y \<in> set ys. sub_agent_parse y = Some y"
    by (auto simp: list_parse_def parse_all_self split: if_splits)
  then have "list_parse 50 sub_agent_parse w = Some w"
    using order_trans[OF length_filter_le[of isCurrentAiSessionSubAgent ys]] by (simp add: list_parse_def parse_all_self w)
  then show "sub_agents_parse w = Some w" by (simp add: sub_agents_parse_def w)
qed

lemma stable_queue [simp]: "stable queue_parse"
proof (rule stableI)
  fix v w
  assume "queue_parse v = Some w"
  then show "queue_parse w = Some w"
    using stableD[OF stable_list[OF stable_parsers(3)]] by (auto simp: queue_parse_def split: if_splits)
qed

lemma lineage_idem [simp]: "normalizeAiSessionLineage (normalizeAiSessionLineage l) = normalizeAiSessionLineage l"
  using stableD[OF stable_lineage] by (cases l) (auto simp: normalizeAiSessionLineage_def split: option.splits bind_splits)

text \<open>What the schema gives of each property, in the form the decoder uses.\<close>

definition session_fixed :: "ai_session \<Rightarrow> bool" where
  "session_fixed s \<longleftrightarrow>
     nonempty_text 120 (ss_id s) = Some (ss_id s) \<and> nonempty_text 80 (ss_agent s) = Some (ss_agent s)
     \<and> opt_parse (trimmed_text 120) (ss_appSessionId s) = Some (ss_appSessionId s)
     \<and> opt_parse (trimmed_text 120) (ss_appId s) = Some (ss_appId s)
     \<and> opt_parse (trimmed_text 240) (ss_providerSessionId s) = Some (ss_providerSessionId s)
     \<and> normalizeAiSessionLineage (ss_lineage s) = ss_lineage s
     \<and> pred_option json_object (ss_providerMeta s)
     \<and> opt_parse model_selection_parse (ss_modelSelection s) = Some (ss_modelSelection s)
     \<and> opt_parse (nonempty_text 120) (ss_storyId s) = Some (ss_storyId s)
     \<and> opt_parse (list_parse 20 (nonempty_text 240)) (ss_appBindingKeys s) = Some (ss_appBindingKeys s)
     \<and> opt_parse (trimmed_text 240) (ss_activeTurnId s) = Some (ss_activeTurnId s)
     \<and> opt_parse (trimmed_text 240) (ss_title s) = Some (ss_title s)
     \<and> opt_parse (trimmed_text 4096) (ss_cwd s) = Some (ss_cwd s)
     \<and> opt_parse (nonempty_text 120) (ss_cwdFolderId s) = Some (ss_cwdFolderId s)
     \<and> opt_parse any_text (ss_userPrompt s) = Some (ss_userPrompt s)
     \<and> opt_parse (list_parse 50 turn_parse) (ss_turns s) = Some (ss_turns s)
     \<and> opt_parse (trimmed_text 1000) (ss_summary s) = Some (ss_summary s)
     \<and> opt_parse any_text (ss_lastMessage s) = Some (ss_lastMessage s)
     \<and> opt_parse (trimmed_text 240) (ss_lastMessageItemId s) = Some (ss_lastMessageItemId s)
     \<and> opt_parse tool_parse (ss_currentTool s) = Some (ss_currentTool s)
     \<and> (\<exists>n. ss_toolCallsSinceLastMessage s = Some n \<and> 0 \<le> n)
     \<and> sub_agents_parse (ss_subAgents s) = Some (ss_subAgents s)
     \<and> opt_parse (trimmed_text 4096) (ss_transcriptPath s) = Some (ss_transcriptPath s)
     \<and> pred_option (\<lambda>n. 0 \<le> n) (ss_transcriptSize s) \<and> datetime_text (ss_startedAt s) \<and> datetime_text (ss_updatedAt s)
     \<and> pred_option datetime_text (ss_completedAt s)
     \<and> opt_parse (trimmed_text 4000) (ss_error s) = Some (ss_error s)
     \<and> counters_ok (ss_counters s) \<and> queue_parse (ss_queue s) = Some (ss_queue s)"

lemma session_parse_fixed: "session_fixed s \<Longrightarrow> session_parse s = Some s"
proof -
  assume f: "session_fixed s"
  then have "session_ok s" unfolding session_fixed_def session_ok_def by (elim conjE exE, intro conjI) simp_all
  moreover have "session_trim s = s"
    using f unfolding session_fixed_def by (elim conjE exE) (simp add: session_trim_def)
  ultimately show ?thesis by (simp add: session_parse_def)
qed

lemma session_parse_stable: "session_parse s = Some e \<Longrightarrow> session_fixed e"
proof -
  assume "session_parse s = Some e"
  then have ok: "session_ok s" and e: "e = session_trim s" by (simp_all add: session_parse_def split: if_splits)
  have "case ss_toolCallsSinceLastMessage s of None \<Rightarrow> True | Some n \<Rightarrow> 0 \<le> n"
    using ok by (simp add: session_ok_def option.pred_set split: option.splits)
  then have calls: "\<exists>n. ss_toolCallsSinceLastMessage e = Some n \<and> 0 \<le> n"
    by (simp add: e session_trim_def split: option.splits)
  have "opt_parse any_text v \<noteq> None" for v by (simp add: opt_parse_def any_text_def split: option.splits)
  then show ?thesis
    using ok calls unfolding session_fixed_def session_ok_def
    by (elim conjE, intro conjI) (simp_all add: e session_trim_def)
qed

section \<open>Decoding is idempotent on what passed the schema\<close>

lemma opt_parse_fixed: "opt_parse p v = Some v \<longleftrightarrow> (case v of None \<Rightarrow> True | Some x \<Rightarrow> p x = Some x)"
  by (auto simp: opt_parse_def split: option.splits)

lemma limit_text_fixed:
  assumes "3 \<le> n" and "opt_parse (trimmed_text n) v = Some v"
  shows "opt_parse (trimmed_text n) (limit_text n v) = Some (limit_text n v)"
    and "limit_text n (limit_text n v) = limit_text n v"
proof -
  have "trimmed_opt v"
    using assms(2) by (auto simp: opt_parse_fixed trimmed_opt_def trimmed_text_Some split: option.splits)
  then show "limit_text n (limit_text n v) = limit_text n v" by (simp add: limit_text_def text_norm_compact assms(1))
  show "opt_parse (trimmed_text n) (limit_text n v) = Some (limit_text n v)"
    using assms(1) by (simp add: opt_parse_def limit_text_def text_norm_def trimmed_text_Some compact_shape length_compact)
qed

lemma compact_text_fixed: "3 \<le> n \<Longrightarrow> nonempty_text n x = Some x \<Longrightarrow> nonempty_text n (compact x n) = Some (compact x n)"
  by (simp add: compact_nonempty_text nonempty_text_Some)

lemma limit_nonempty_fixed:
  assumes "3 \<le> n" and "opt_parse (nonempty_text n) v = Some v"
  shows "opt_parse (nonempty_text n) (limit_text n v) = Some (limit_text n v)"
    and "limit_text n (limit_text n v) = limit_text n v"
  using assms compact_text_fixed[OF assms(1)]
  by (cases v; auto simp: opt_parse_fixed limit_text_def text_norm_def compact_Nil nonempty_text_Some)+

lemma message_fixed:
  assumes "opt_parse any_text v = Some v"
  shows "opt_parse any_text (text_norm messageText v) = Some (text_norm messageText v)"
    and "text_norm messageText (text_norm messageText v) = text_norm messageText v"
proof -
  have "trimmed_opt v" using assms by (auto simp: opt_parse_fixed trimmed_opt_def any_text_def split: option.splits)
  then show "text_norm messageText (text_norm messageText v) = text_norm messageText v" by (rule text_norm_message)
  show "opt_parse any_text (text_norm messageText v) = Some (text_norm messageText v)"
    by (simp add: opt_parse_def text_norm_def any_text_def messageText_def)
qed

lemma bind_fixed: "opt_parse p v = Some v \<Longrightarrow> Option.bind v p = v"
  by (cases v) (simp_all add: opt_parse_fixed)

lemma bind_checked: "pred_option ok v \<Longrightarrow> Option.bind v (checked ok) = v"
  by (cases v) (simp_all add: checked_def)

lemma actions_fixed: "Option.bind (Option.bind v normalizeActions) normalizeActions = Option.bind v normalizeActions"
  by (cases v) (simp_all add: normalizeActions_def)

lemma status_same: "normalizeAiSessionLifecycle (Some (lifecycle_name st)) = st"
  by (rule lifecycle_round_trip)

lemma phase_same: "normalizeAiSessionPhase (phase_name ph) = ph"
  by (rule phase_round_trip)

lemma counters_fixed:
  assumes "counters_ok c"
  shows "normalizeAiSessionCounters (Some (ct_toolCalls c), Some (ct_edits c), Some (ct_approvals c)) = c"
  using assms by (cases c) (simp add: counters_ok_def normalizeAiSessionCounters_def)

text \<open>Binding keys: compacted, without blanks and duplicates, at most 20.\<close>

lemma string_array_fixed:
  assumes "normalizeStringArray ks 20 240 = Some xs"
  shows "list_parse 20 (nonempty_text 240) xs = Some xs" and "normalizeStringArray xs 20 240 = Some xs"
proof -
  let ?c = "map (\<lambda>k. compact k 240) ks"
  have xs: "xs = take 20 (js_uniq (filter (\<lambda>k. k \<noteq> []) ?c))" "xs \<noteq> []"
    using assms by (auto simp: normalizeStringArray_def Let_def split: if_splits)
  have len: "length xs \<le> 20" by (simp add: xs(1))
  have mem: "compact k 240 = k \<and> k \<noteq> [] \<and> nonempty_text 240 k = Some k" if "k \<in> set xs" for k
  proof -
    have "k \<in> set (filter (\<lambda>k. k \<noteq> []) ?c)" using that set_take_subset unfolding xs(1) by force
    then obtain k0 where k: "k = compact k0 240" "k \<noteq> []" by auto
    then have "compact k 240 = k" by simp
    then show ?thesis
      using k compact_shape[of k0 240] length_compact[of 240 k0] by (simp add: nonempty_text_Some)
  qed
  then show "list_parse 20 (nonempty_text 240) xs = Some xs"
    by (simp add: list_parse_def len parse_all_self)
  have "map (\<lambda>k. compact k 240) xs = xs" using mem by (simp add: map_idI)
  moreover have "filter (\<lambda>k. k \<noteq> []) xs = xs" using mem by (simp add: filter_id_conv)
  moreover have "distinct xs" unfolding xs(1) by (rule distinct_take) simp
  ultimately show "normalizeStringArray xs 20 240 = Some xs"
    using xs(2) len by (simp add: normalizeStringArray_def js_uniq_distinct)
qed

lemma binding_keys_fixed:
  fixes v
  defines "r \<equiv> Option.bind v (\<lambda>ks. normalizeStringArray ks 20 240)"
  shows "opt_parse (list_parse 20 (nonempty_text 240)) r = Some r" and "Option.bind r (\<lambda>ks. normalizeStringArray ks 20 240) = r"
proof -
  have "(\<exists>ks xs. r = Some xs \<and> normalizeStringArray ks 20 240 = Some xs) \<or> r = None"
    by (cases v; cases r) (auto simp: r_def)
  then show "opt_parse (list_parse 20 (nonempty_text 240)) r = Some r" "Option.bind r (\<lambda>ks. normalizeStringArray ks 20 240) = r"
    using string_array_fixed by (auto simp: opt_parse_def)
qed

text \<open>The current tool.\<close>

lemma tool_fixed:
  assumes "tool_parse t = Some t"
  shows "\<exists>r. normalizeTool t = Some r \<and> tool_parse r = Some r \<and> normalizeTool r = Some r"
proof -
  have t: "nonempty_text 120 (tl_name t) = Some (tl_name t)" "opt_parse (checked datetime_text) (tl_startedAt t) = Some (tl_startedAt t)"
    using assms by (simp_all add: tool_parse_Some)
  define r where "r = \<lparr>tl_id = nonblank_compact 240 (tl_id t), tl_kind = nonblank_compact 80 (tl_kind t),
    tl_name = compact (tl_name t) 120, tl_inputPreview = nonblank_compact 500 (tl_inputPreview t), tl_startedAt = tl_startedAt t\<rparr>"
  have d: "(case tl_startedAt t of None \<Rightarrow> None | Some s \<Rightarrow> if datetime_text s then Some s else None) = tl_startedAt t"
    using t(2) by (auto simp: opt_parse_fixed checked_def split: option.splits if_splits)
  have name: "js_trim (tl_name t) \<noteq> []" using t(1) by (simp add: nonempty_text_Some)
  then have "normalizeTool t = Some r" by (simp add: normalizeTool_def r_def d)
  moreover have "normalizeTool r = Some r"
    using name by (simp add: normalizeTool_def r_def d compact_shape compact_Nil)
  moreover have "opt_parse (nonempty_text n) (nonblank_compact n v) = Some (nonblank_compact n v)" if "3 \<le> n" for n v
    using that by (cases v) (simp_all add: opt_parse_fixed nonblank_compact_def compact_nonempty_text)
  moreover have "opt_parse (trimmed_text 500) (nonblank_compact 500 v) = Some (nonblank_compact 500 v)" for v
    by (cases v) (simp_all add: opt_parse_fixed nonblank_compact_def trimmed_text_Some compact_shape length_compact)
  ultimately show ?thesis
    using t name by (intro exI[of _ r]) (simp add: tool_parse_Some r_def compact_nonempty_text)
qed

lemma current_tool_fixed:
  fixes v
  assumes "opt_parse tool_parse v = Some v"
  defines "r \<equiv> Option.bind v normalizeTool"
  shows "opt_parse tool_parse r = Some r" and "Option.bind r normalizeTool = r"
proof -
  have "r = None \<or> (\<exists>x. r = Some x \<and> tool_parse x = Some x \<and> normalizeTool x = Some x)"
    using assms(1) tool_fixed by (cases v) (fastforce simp: r_def opt_parse_fixed)+
  then show "opt_parse tool_parse r = Some r" "Option.bind r normalizeTool = r"
    by (auto simp: opt_parse_fixed)
qed

text \<open>Sub-agents.\<close>

lemma sub_agents_fixed:
  assumes "collation le"
  shows "sub_agents_parse (normalizeAiSessionSubAgents le xs) = Some (normalizeAiSessionSubAgents le xs)"
proof -
  let ?n = "normalizeAiSessionSubAgents le xs"
  have c: "list_all sub_agent_clean ?n" using collation.sub_agents_shape[OF assms] by blast
  have "length ?n \<le> 50" by (simp add: normalizeAiSessionSubAgents_def)
  moreover have "parse_all sub_agent_parse ?n = Some ?n" using c by (simp add: parse_all_self list_all_iff sub_agent_clean_def)
  moreover have "filter isCurrentAiSessionSubAgent ?n = ?n" using c by (simp add: filter_id_conv list_all_iff sub_agent_clean_def)
  ultimately show ?thesis by (simp add: sub_agents_parse_def list_parse_def)
qed

text \<open>The message queue.\<close>

lemma parsed_error_not_blank: "queued_message_parse x = Some x \<Longrightarrow> error_not_blank x"
  by (auto simp: queued_message_parse_def error_not_blank_def bind_eq_Some_conv opt_text_def trimmed_text_Some
      split: if_splits option.splits dest!: arg_cong[of _ _ qm_error])

lemma queue_ok_fixed: "queue_ok q \<Longrightarrow> normalizeAiSessionQueue q = q"
proof -
  assume q: "queue_ok q"
  then have "List.map_filter normalizeQueuedMessage (mq_items q) = mq_items q"
    by (intro map_filter_fixed) (auto simp: queue_ok_def list_all_iff queue_item_clean_def)
  then show ?thesis
    using q by (cases q) (auto simp: queue_ok_def normalizeAiSessionQueue_def normalizeAiSessionQueueItems_def
        normalizeNonNegativeInteger_def js_sort_id)
qed

lemma clean_item_parsed: "queue_item_clean x \<Longrightarrow> queued_message_parse x = Some x"
  unfolding queue_item_clean_def normalizeQueuedMessage_def by (rule queued_message_parse_idem)

lemma queue_fixed:
  assumes "queue_parse q = Some q"
  shows "queue_parse (normalizeAiSessionQueue q) = Some (normalizeAiSessionQueue q)"
    and "normalizeAiSessionQueue (normalizeAiSessionQueue q) = normalizeAiSessionQueue q"
proof -
  have "\<forall>x \<in> set (mq_items q). queued_message_parse x = Some x"
  proof -
    have "list_parse 100 queued_message_parse (mq_items q) = Some (mq_items q)"
      using assms by (auto simp: queue_parse_def split: if_splits) (metis message_queue.select_convs(4) message_queue.surjective message_queue.update_convs(4))
    then show ?thesis by (simp add: list_parse_def parse_all_self split: if_splits)
  qed
  then have ok: "queue_ok (normalizeAiSessionQueue q)"
    unfolding normalizeAiSessionQueue_def
    by (intro queue_items_ok) (auto simp: list_all_iff parsed_error_not_blank)
  then show "normalizeAiSessionQueue (normalizeAiSessionQueue q) = normalizeAiSessionQueue q" by (rule queue_ok_fixed)
  define n where "n = normalizeAiSessionQueue q"
  have "list_parse 100 queued_message_parse (mq_items n) = Some (mq_items n)"
    using ok clean_item_parsed by (simp add: n_def[symmetric] list_parse_def parse_all_self queue_ok_def list_all_iff)
  then show "queue_parse (normalizeAiSessionQueue q) = Some (normalizeAiSessionQueue q)"
    using ok by (simp add: n_def[symmetric] queue_parse_def queue_ok_def)
qed

text \<open>
  Turns: a turn that normalising leaves alone and the schema accepts is returned by the schema as it
  is, since its texts are trimmed already and its nested lists are normalised.
\<close>

lemma text_norm_trimmed:
  assumes "text_norm f v = v" and "\<And>x. js_trim (f x) = f x"
  shows "trimmed_opt v"
  using assms by (cases v) (auto simp: text_norm_def trimmed_opt_def split: if_splits, metis)

lemma opt_trimmed_parse:
  "trimmed_opt v \<Longrightarrow> opt_parse (trimmed_text n) v = Some w \<Longrightarrow> w = v"
  "trimmed_opt v \<Longrightarrow> opt_parse any_text v = Some w \<Longrightarrow> w = v"
  by (cases v; auto simp: opt_parse_def trimmed_opt_def trimmed_text_Some any_text_def)+

lemma parse_all_same:
  assumes "parse_all p xs = Some ys" and "\<And>x y. x \<in> set xs \<Longrightarrow> p x = Some y \<Longrightarrow> y = x"
  shows "ys = xs"
  using assms by (auto simp: parse_all_def list_all_iff split: if_splits intro!: map_idI)

lemma compactions_same:
  assumes "normalizeContextCompactions xs = Some xs" and "list_parse 20 compaction_parse xs = Some ys"
  shows "ys = xs"
proof (rule parse_all_same)
  show "parse_all compaction_parse xs = Some ys" using assms(2) by (simp add: list_parse_def split: if_splits)
next
  fix x y
  assume x: "x \<in> set xs" and y: "compaction_parse x = Some y"
  let ?v = "jmap_values (foldl compaction_step [] xs)"
  have "xs = last_n 20 ?v" using assms(1) by (auto simp: normalizeContextCompactions_def Let_def split: if_splits)
  then have "compaction_clean x"
    using x cc.values_clean[of xs] set_last_n[of 20 ?v] by (auto simp: list_all_iff)
  then have "js_trim (cc_id x) = cc_id x" using compact_shape[of "cc_id x" 240] by (simp add: compaction_clean_def)
  then show "y = x"
    using y by (auto simp: compaction_parse_def opt_parse_def checked_def nonempty_text_Some split: option.splits if_splits)
qed

lemma user_messages_same:
  assumes "normalizeUserMessages xs = Some xs" and "list_parse 100 user_message_parse xs = Some ys"
  shows "ys = xs"
proof (rule parse_all_same)
  show p: "parse_all user_message_parse xs = Some ys" using assms(2) by (simp add: list_parse_def split: if_splits)
  fix x y
  assume x: "x \<in> set xs" and y: "user_message_parse x = Some y"
  have "list_all user_message_valid xs"
    using p by (fastforce simp: parse_all_def list_all_iff user_message_parse_def user_message_valid_def nonempty_text_def Let_def
        split: if_splits option.splits)
  let ?v = "jmap_values (foldl user_message_step [] xs)"
  have "xs = last_n 100 ?v" using assms(1) by (auto simp: normalizeUserMessages_def Let_def split: if_splits)
  then have c: "user_message_clean x"
    using x um.values_clean[OF \<open>list_all user_message_valid xs\<close>] set_last_n[of 100 ?v] by (auto simp: list_all_iff)
  then have i: "js_trim (um_id x) = um_id x" using compact_shape[of "um_id x" 240] by (simp add: user_message_clean_def)
  have "conv_attachment_parse a = Some a" if "a \<in> set (um_attachments x)" for a
  proof -
    have "a \<in> set (take 6 (List.map_filter conv_attachment_parse (um_attachments x)))"
      using that c by (simp add: user_message_clean_def parse_attachments_def)
    from take_map_filter_mem[of conv_attachment_parse, OF conv_attachment_parse_idem this] show ?thesis by simp
  qed
  then have "parse_all conv_attachment_parse (um_attachments x) = Some (um_attachments x)" by (simp add: parse_all_self)
  then show "y = x"
    using y i by (auto simp: user_message_parse_def list_parse_def nonempty_text_Some split: option.splits if_splits)
qed

lemma nested_same:
  assumes "\<And>xs ys. f xs = Some xs \<Longrightarrow> p xs = Some ys \<Longrightarrow> ys = xs" and "Option.bind v f = v" and "opt_parse p v = Some w"
  shows "w = v"
  using assms by (cases v) (auto simp: opt_parse_def)

lemma turn_same:
  assumes "turn_fixed sha t" and "turn_parse t = Some r"
  shows "r = t"
proof -
  have n: "normalize_turn sha no_meta i t = t" for i using assms(1) by (simp add: turn_fixed_def)
  note f = n[of 0, unfolded normalize_turn_alt]
  have fld: "g (normalize_turn sha no_meta 0 t) = g t" for g :: "ai_turn \<Rightarrow> 'x" by (simp only: n)
  have id: "tn_id t \<noteq> []" using assms(2) by (auto simp: turn_parse_Some nonempty_text_Some)
  have c: "js_trim (compact x k) = compact x k" for x k using compact_shape by blast
  have m: "js_trim (messageText x) = messageText x" for x by (simp add: messageText_def)
  have "js_trim (tn_id t) = tn_id t"
    using fld[of tn_id] id c[of "tn_id t" 240] by (simp add: normalize_turn_alt)
  moreover have "trimmed_opt (tn_providerTurnId t)"
    using text_norm_trimmed[OF _ c[of _ 240]] fld[of tn_providerTurnId] by (simp add: normalize_turn_alt)
  moreover have "trimmed_opt (tn_userPrompt t)"
    using text_norm_trimmed[OF _ m] fld[of tn_userPrompt] by (simp add: normalize_turn_alt)
  moreover have "trimmed_opt (tn_summary t)"
    using text_norm_trimmed[OF _ c[of _ 1000]] fld[of tn_summary] by (simp add: normalize_turn_alt)
  moreover have "trimmed_opt (tn_lastMessage t)"
    using text_norm_trimmed[OF _ m] fld[of tn_lastMessage] by (simp add: normalize_turn_alt)
  moreover have "trimmed_opt (tn_lastMessageItemId t)"
    using text_norm_trimmed[OF _ c[of _ 240]] fld[of tn_lastMessageItemId] by (simp add: normalize_turn_alt)
  moreover have "tn_userMessages r = tn_userMessages t"
  proof (rule nested_same[of normalizeUserMessages "list_parse 100 user_message_parse"])
    show "Option.bind (tn_userMessages t) normalizeUserMessages = tn_userMessages t"
      using fld[of tn_userMessages] by (simp add: normalize_turn_alt)
    show "opt_parse (list_parse 100 user_message_parse) (tn_userMessages t) = Some (tn_userMessages r)"
      using assms(2) unfolding turn_parse_Some by (elim conjE)
  qed (rule user_messages_same)
  moreover have "tn_contextCompactions r = tn_contextCompactions t"
  proof (rule nested_same[of normalizeContextCompactions "list_parse 20 compaction_parse"])
    show "Option.bind (tn_contextCompactions t) normalizeContextCompactions = tn_contextCompactions t"
      using fld[of tn_contextCompactions] by (simp add: normalize_turn_alt)
    show "opt_parse (list_parse 20 compaction_parse) (tn_contextCompactions t) = Some (tn_contextCompactions r)"
      using assms(2) unfolding turn_parse_Some by (elim conjE)
  qed (rule compactions_same)
  moreover have "tn_status t \<noteq> None" using fld[of tn_status] by (cases "tn_status t") (simp_all add: normalize_turn_alt)
  ultimately show ?thesis
    using assms(2) unfolding turn_parse_Some
    by (elim conjE, intro ai_turn.equality) (auto simp: nonempty_text_Some dest: opt_trimmed_parse)
qed

lemma parsed_turn_valid: "turn_parse t = Some t \<Longrightarrow> turn_valid t"
proof -
  assume p: "turn_parse t = Some t"
  have "trimmed_opt v" if "opt_parse (trimmed_text n) v = Some v \<or> opt_parse any_text v = Some v" for n v
    using that by (cases v) (auto simp: opt_parse_def trimmed_opt_def trimmed_text_Some any_text_def)
  moreover have "list_all user_message_valid (opt_list (tn_userMessages t))"
  proof (cases "tn_userMessages t")
    case (Some ms)
    with p have "\<forall>m \<in> set ms. user_message_parse m = Some m"
      by (auto simp: turn_parse_Some opt_parse_def list_parse_def parse_all_self split: if_splits)
    then show ?thesis
      by (auto simp: Some opt_list_def list_all_iff user_message_valid_def user_message_parse_def nonempty_text_Some
          split: option.splits dest!: bspec)
  qed (simp add: opt_list_def)
  ultimately show ?thesis using p unfolding turn_parse_Some turn_valid_def by (auto simp: nonempty_text_Some)
qed

lemma turns_fixed:
  assumes "opt_parse (list_parse 50 turn_parse) v = Some v"
  shows "list_parse 50 turn_parse (normalizePersistedTurns sha v) = Some (normalizePersistedTurns sha v)"
    and "normalizePersistedTurns sha (Some (normalizePersistedTurns sha v)) = normalizePersistedTurns sha v"
proof -
  define n where "n = normalizePersistedTurns sha v"
  have "list_all turn_valid (opt_list v)"
    using assms parsed_turn_valid
    by (cases v) (auto simp: opt_parse_def opt_list_def list_parse_def parse_all_self list_all_iff split: if_splits)
  then have f: "list_all (turn_fixed sha) (normalizeTurns sha no_meta v)" by (rule normalizeTurns_all_fixed)
  have n: "turn_fixed sha t \<and> turn_parse t = Some t" if "t \<in> set n" for t
  proof -
    from that obtain u where "u \<in> set (normalizeTurns sha no_meta v)" "turn_parse u = Some t"
      by (cases v) (auto simp: n_def normalizePersistedTurns_def set_map_filter)
    then show ?thesis using f turn_same[of sha u t] by (auto simp: list_all_iff)
  qed
  have "length n \<le> length (normalizeTurns sha no_meta v)"
    by (cases v) (simp_all add: n_def normalizePersistedTurns_def List.map_filter_def)
  then have len: "length n \<le> 50" using length_normalizeTurns[of sha no_meta v] by simp
  show "list_parse 50 turn_parse (normalizePersistedTurns sha v) = Some (normalizePersistedTurns sha v)"
    using len n by (simp add: n_def[symmetric] list_parse_def parse_all_self)
  have "normalizeTurns sha no_meta (Some n) = n"
    using normalizeTurns_fixed[of sha n] n len by (simp add: list_all_iff last_n_id)
  then show "normalizePersistedTurns sha (Some (normalizePersistedTurns sha v)) = normalizePersistedTurns sha v"
    using n unfolding n_def[symmetric] normalizePersistedTurns_def[of sha "Some n"] option.case by (simp add: map_filter_fixed)
qed

text \<open>The whole record.\<close>

lemma candidate_fixed:
  assumes "collation le" and "session_fixed e"
  shows "session_fixed (decode_candidate sha le e)"
    and "decode_candidate sha le (decode_candidate sha le e) = decode_candidate sha le e"
proof -
  note f = assms(2)[unfolded session_fixed_def]
  obtain n where n: "ss_toolCallsSinceLastMessage e = Some n" "0 \<le> n" using f by blast
  have counters: "normalizeAiSessionCounters (Some (ct_toolCalls (ss_counters e)), Some (ct_edits (ss_counters e)),
      Some (ct_approvals (ss_counters e))) = ss_counters e"
    using f by (intro counters_fixed) (elim conjE)
  note same = bind_fixed bind_checked lineage_idem limit_text_fixed limit_nonempty_fixed message_fixed compact_text_fixed
    binding_keys_fixed current_tool_fixed turns_fixed queue_fixed sub_agents_fixed[OF assms(1)]
    collation.sub_agents_idem[OF assms(1)] actions_fixed status_same phase_same
  show "session_fixed (decode_candidate sha le e)"
    using f n counters unfolding session_fixed_def
    by (elim conjE, intro conjI)
       (simp_all add: decode_candidate_def same opt_parse_fixed normalizeNonNegativeInteger_def del: Option.bind_assoc)
  show "decode_candidate sha le (decode_candidate sha le e) = decode_candidate sha le e"
    using f n counters by (elim conjE, intro ai_session.equality)
      (simp_all add: decode_candidate_def same normalizeNonNegativeInteger_def del: Option.bind_assoc)
qed

text \<open>
  Claim C8. What the store has saved is what a restart reads. Encoding a session that passes the schema
  gives a record that decoding never rejects, so saving cannot fail half way; the session it decodes
  to is encoded as itself and decoded to itself, so it never changes again on its way through the
  file.
\<close>

theorem saved_session_reloads:
  assumes "collation le" and "encodePersistedAiSession s = Some e"
  shows "\<exists>c. decodePersistedAiSession sha1_hex le e = Some c
    \<and> encodePersistedAiSession c = Some c \<and> decodePersistedAiSession sha1_hex le c = Some c"
proof -
  have e: "session_fixed e" using assms(2) session_parse_stable by (simp add: encodePersistedAiSession_def)
  let ?c = "decode_candidate sha1_hex le e"
  have "session_parse ?c = Some ?c" by (rule session_parse_fixed[OF candidate_fixed(1)[OF assms(1) e]])
  then show ?thesis
    by (intro exI[of _ ?c])
       (simp add: decodePersistedAiSession_def encodePersistedAiSession_def candidate_fixed(2)[OF assms(1) e])
qed

lemma demo_date: "date_parse ''2024-01-01T00:00:00.000Z'' = Some 1704067200000"
  by code_simp

lemma demo_encodes: "encodePersistedAiSession demo_session = Some demo_session"
  unfolding encodePersistedAiSession_def
  by (rule session_parse_fixed)
     (simp add: session_fixed_def demo_session_def nonempty_text_Some opt_parse_def trimmed_text_def js_trim_def js_space_def
       normalizeAiSessionLineage_def list_parse_def parse_all_def sub_agents_parse_def datetime_text_def demo_date
       counters_ok_def queue_parse_def emptyAiSessionQueue_def)

theorem saved_session_reloads_witness:
  "\<exists>c. decodePersistedAiSession (\<lambda>_. ''h'') (\<le>) demo_session = Some c \<and> encodePersistedAiSession c = Some c"
  using saved_session_reloads[OF code_units.collation_axioms demo_encodes, of "\<lambda>_. ''h''"] by blast

end
