(* ===== verification/Session_Store.thy ===== *)
theory Session_Store
  imports Session_Codec
begin

text \<open>
  The authority over stored sessions in \<^verbatim>\<open>packages/ai-session-runtime/src/ai-session\<close>: the index of
  provider identities (\<^verbatim>\<open>identity-index.ts\<close>), the store that keeps the sessions and the index together
  (\<^verbatim>\<open>file-store.ts\<close>). The directory is part of the state: it maps the name of a file, without its suffix, to
  the record in it, or to nothing when its content is no such record. A write that the file system
  refuses throws before anything changes and is left out. A JavaScript \<^verbatim>\<open>Set\<close> is a list without
  duplicates in insertion order.
\<close>

section \<open>The index of provider identities\<close>

definition normalizeIdentityPart :: "string \<Rightarrow> nat \<Rightarrow> string" where
  "normalizeIdentityPart value maxLength =
     (let normalized = js_trim (collapse_ws value) in
      if length normalized > maxLength then take (maxLength - 3) normalized @ ''...'' else normalized)"

record provider_identity =
  pi_agent :: string
  pi_providerSessionId :: string
  pi_key :: string

definition providerSessionIdentity :: "string \<Rightarrow> string \<Rightarrow> provider_identity option" where
  "providerSessionIdentity agent providerSessionId =
     (let normalizedAgent = normalizeIdentityPart agent 80;
          normalizedProviderSessionId = normalizeIdentityPart providerSessionId 240
      in if normalizedAgent = [] \<or> normalizedProviderSessionId = [] then None
         else Some \<lparr>pi_agent = normalizedAgent, pi_providerSessionId = normalizedProviderSessionId,
           pi_key = normalizedAgent @ [CHR 0x00] @ normalizedProviderSessionId\<rparr>)"

record identity_index =
  ix_sessionIdsByProvider :: "(string, string list) jmap"
  ix_providerKeysBySessionId :: "(string, string list) jmap"

definition index_clear :: identity_index where
  "index_clear = \<lparr>ix_sessionIdsByProvider = [], ix_providerKeysBySessionId = []\<rparr>"

definition index_candidates :: "identity_index \<Rightarrow> string \<Rightarrow> string \<Rightarrow> string list" where
  "index_candidates ix agent providerSessionId =
     (case providerSessionIdentity agent providerSessionId of
        None \<Rightarrow> []
      | Some ident \<Rightarrow> opt_list (jmap_get (ix_sessionIdsByProvider ix) (pi_key ident)))"

definition index_drop_key :: "string \<Rightarrow> (string, string list) jmap \<Rightarrow> string \<Rightarrow> (string, string list) jmap" where
  "index_drop_key sessionId m key =
     (let sessionIds = filter (\<lambda>x. x \<noteq> sessionId) (opt_list (jmap_get m key)) in
      if sessionIds = [] then jmap_delete key m else jmap_set key sessionIds m)"

definition index_remove :: "string \<Rightarrow> identity_index \<Rightarrow> identity_index" where
  "index_remove sessionId ix =
     (case jmap_get (ix_providerKeysBySessionId ix) sessionId of
        None \<Rightarrow> ix
      | Some keys \<Rightarrow> \<lparr>ix_sessionIdsByProvider = foldl (index_drop_key sessionId) (ix_sessionIdsByProvider ix) keys,
          ix_providerKeysBySessionId = jmap_delete sessionId (ix_providerKeysBySessionId ix)\<rparr>)"

definition set_add :: "'a \<Rightarrow> 'a list \<Rightarrow> 'a list" where
  "set_add x xs = (if x \<in> set xs then xs else xs @ [x])"

definition session_identity :: "ai_session \<Rightarrow> provider_identity option" where
  "session_identity session =
     (if truthy (ss_providerSessionId session)
      then providerSessionIdentity (ss_agent session) (str_of (ss_providerSessionId session)) else None)"

definition index_replace :: "ai_session \<Rightarrow> identity_index \<Rightarrow> identity_index" where
  "index_replace session ix0 =
     (let ix = index_remove (ss_id session) ix0 in
      case session_identity session of
        None \<Rightarrow> ix
      | Some ident \<Rightarrow>
          \<lparr>ix_sessionIdsByProvider = jmap_set (pi_key ident)
             (set_add (ss_id session) (opt_list (jmap_get (ix_sessionIdsByProvider ix) (pi_key ident)))) (ix_sessionIdsByProvider ix),
           ix_providerKeysBySessionId = jmap_set (ss_id session) [pi_key ident] (ix_providerKeysBySessionId ix)\<rparr>)"

definition index_rebuild :: "ai_session list \<Rightarrow> identity_index" where
  "index_rebuild sessions = foldl (\<lambda>ix session. index_replace session ix) index_clear sessions"

section \<open>The store\<close>

record session_store =
  st_sessions :: "(string, ai_session) jmap"
  st_index :: identity_index
  st_files :: "(string, ai_session option) jmap"

datatype store_error = InvalidSessionId string | SchemaRejected | DecodeFailed string | IdChanged string string

definition isSafeSessionId :: "string \<Rightarrow> bool" where
  "isSafeSessionId sid = (sid \<noteq> [] \<and> sid \<noteq> ''.'' \<and> sid \<noteq> ''..'' \<and> CHR ''/'' \<notin> set sid \<and> CHR 0x5C \<notin> set sid \<and> CHR 0x00 \<notin> set sid)"

definition store_get :: "session_store \<Rightarrow> string \<Rightarrow> ai_session option" where
  "store_get st sid = (if isSafeSessionId sid then jmap_get (st_sessions st) sid else None)"

text \<open>\<^verbatim>\<open>Date.parse\<close> of an unreadable time is NaN: comparisons with it are false, as a sort key it ties.\<close>

definition session_time :: "ai_session \<Rightarrow> int option" where
  "session_time s = date_parse (ss_updatedAt s)"

definition newer_first :: "ai_session \<Rightarrow> ai_session \<Rightarrow> bool" where
  "newer_first lhs rhs =
     (case (session_time lhs, session_time rhs) of (Some l, Some r) \<Rightarrow> r \<le> l | _ \<Rightarrow> True)"

definition store_list :: "session_store \<Rightarrow> ai_session list" where
  "store_list st = js_sort newer_first (jmap_values (st_sessions st))"

text \<open>
  The code writes the file before it decodes what it wrote. The file of a failing decode is not recorded, since the decode of an
  encoded session never fails (\<open>saved_session_reloads\<close>).
\<close>

definition store_save :: "(string \<Rightarrow> string) \<Rightarrow> (string \<Rightarrow> string \<Rightarrow> bool) \<Rightarrow> ai_session \<Rightarrow> session_store
    \<Rightarrow> store_error + ai_session \<times> session_store" where
  "store_save sha1_hex le session st =
     (if \<not> isSafeSessionId (ss_id session) then Inl (InvalidSessionId (ss_id session))
      else case encodePersistedAiSession session of
          None \<Rightarrow> Inl SchemaRejected
        | Some persisted \<Rightarrow> (case decodePersistedAiSession sha1_hex le persisted of
            None \<Rightarrow> Inl (DecodeFailed (ss_id session))
          | Some committed \<Rightarrow> Inr (committed, \<lparr>st_sessions = jmap_set (ss_id committed) committed (st_sessions st),
              st_index = index_replace committed (st_index st),
              st_files = jmap_set (ss_id session) (Some persisted) (st_files st)\<rparr>)))"

definition store_update :: "(string \<Rightarrow> string) \<Rightarrow> (string \<Rightarrow> string \<Rightarrow> bool) \<Rightarrow> string \<Rightarrow> (ai_session \<Rightarrow> ai_session) \<Rightarrow> session_store
    \<Rightarrow> store_error + ai_session option \<times> session_store" where
  "store_update sha1_hex le sid mutate st =
     (case store_get st sid of
        None \<Rightarrow> Inr (None, st)
      | Some current \<Rightarrow>
          let upd = mutate current in
          if ss_id upd \<noteq> sid then Inl (IdChanged sid (ss_id upd))
          else (case store_save sha1_hex le upd st of Inl e \<Rightarrow> Inl e | Inr (c, st') \<Rightarrow> Inr (Some c, st')))"

definition store_remove :: "string \<Rightarrow> session_store \<Rightarrow> store_error + bool \<times> session_store" where
  "store_remove sid st =
     (if \<not> isSafeSessionId sid then Inl (InvalidSessionId sid)
      else Inr (jmap_has (st_sessions st) sid,
        \<lparr>st_sessions = jmap_delete sid (st_sessions st), st_index = index_remove sid (st_index st),
          st_files = jmap_delete sid (st_files st)\<rparr>))"

text \<open>An unsafe id throws in the middle: the ids before it are removed already.\<close>

fun remove_each :: "string list \<Rightarrow> nat \<Rightarrow> session_store \<Rightarrow> (store_error + nat) \<times> session_store" where
  "remove_each [] removed st = (Inr removed, st)"
| "remove_each (sid # ids) removed st =
     (case store_remove sid st of
        Inl e \<Rightarrow> (Inl e, st)
      | Inr (existed, st') \<Rightarrow> remove_each ids (removed + of_bool existed) st')"

definition store_removeMany :: "string list \<Rightarrow> session_store \<Rightarrow> (store_error + nat) \<times> session_store" where
  "store_removeMany ids st = remove_each (js_uniq ids) 0 st"

text \<open>The default choice among several sessions of one provider identity.\<close>

definition newestSession :: "(string \<Rightarrow> string \<Rightarrow> bool) \<Rightarrow> ai_session list \<Rightarrow> ai_session option" where
  "newestSession le sessions =
     (let before = (\<lambda>lhs rhs. case (session_time lhs, session_time rhs) of
            (Some l, Some r) \<Rightarrow> r < l \<or> r = l \<and> le (ss_id rhs) (ss_id lhs)
          | _ \<Rightarrow> le (ss_id rhs) (ss_id lhs))
      in case js_sort before sessions of [] \<Rightarrow> None | s # _ \<Rightarrow> Some s)"

definition store_matches :: "session_store \<Rightarrow> provider_identity \<Rightarrow> ai_session list" where
  "store_matches st ident =
     filter (\<lambda>s. ss_agent s = pi_agent ident \<and> ss_providerSessionId s = Some (pi_providerSessionId ident))
       (List.map_filter (jmap_get (st_sessions st)) (index_candidates (st_index st) (pi_agent ident) (pi_providerSessionId ident)))"

text \<open>\<^verbatim>\<open>selectProviderCandidate\<close> is an argument: the newest session, or the better of two in turn.\<close>

definition findByProviderSession :: "(ai_session list \<Rightarrow> ai_session option) \<Rightarrow> session_store \<Rightarrow> string \<Rightarrow> string \<Rightarrow> ai_session option" where
  "findByProviderSession selectProviderCandidate st agent providerSessionId =
     (case providerSessionIdentity agent providerSessionId of
        None \<Rightarrow> None
      | Some ident \<Rightarrow> (let matches = store_matches st ident in
          if matches \<noteq> [] then selectProviderCandidate matches else None))"

text \<open>Loading: the files in the order of the directory, each kept when it decodes and its id is its file name.\<close>

definition load_file :: "(string \<Rightarrow> string) \<Rightarrow> (string \<Rightarrow> string \<Rightarrow> bool) \<Rightarrow> (string, ai_session) jmap
    \<Rightarrow> string \<times> ai_session option \<Rightarrow> (string, ai_session) jmap" where
  "load_file sha1_hex le m file =
     (case Option.bind (snd file) (decodePersistedAiSession sha1_hex le) of
        Some s \<Rightarrow> if ss_id s = fst file then jmap_set (ss_id s) s m else m
      | None \<Rightarrow> m)"

definition store_load :: "(string \<Rightarrow> string) \<Rightarrow> (string \<Rightarrow> string \<Rightarrow> bool) \<Rightarrow> (string, ai_session option) jmap \<Rightarrow> session_store" where
  "store_load sha1_hex le files =
     (let sessions = foldl (load_file sha1_hex le) [] files
      in \<lparr>st_sessions = sessions, st_index = index_rebuild (jmap_values sessions), st_files = files\<rparr>)"

section \<open>The index follows the sessions\<close>

text \<open>
  What the store relies on of an index: after a session was replaced or removed, a lookup by key
  gives the names it gave before, less that session, plus the session under its new key. Then an
  index that is kept beside a map by these operations always agrees with it.
\<close>

locale key_index =
  fixes clear :: 'ix
    and replace :: "'a \<Rightarrow> 'ix \<Rightarrow> 'ix"
    and remove :: "string \<Rightarrow> 'ix \<Rightarrow> 'ix"
    and lookup :: "'ix \<Rightarrow> 'k \<Rightarrow> string list"
    and name :: "'a \<Rightarrow> string"
    and key :: "'a \<Rightarrow> 'k option"
    and ok :: "'ix \<Rightarrow> bool"
  assumes ok_clear: "ok clear" and lookup_clear: "lookup clear k = []"
    and ok_remove: "ok ix \<Longrightarrow> ok (remove n ix)"
    and lookup_remove: "ok ix \<Longrightarrow> set (lookup (remove n ix) k) = set (lookup ix k) - {n}"
    and ok_replace: "ok ix \<Longrightarrow> ok (replace a ix)"
    and lookup_replace: "ok ix \<Longrightarrow> set (lookup (replace a ix) k)
        = (set (lookup ix k) - {name a}) \<union> (if key a = Some k then {name a} else {})"
begin

definition agrees :: "'ix \<Rightarrow> (string, 'a) jmap \<Rightarrow> bool" where
  "agrees ix m \<longleftrightarrow> ok ix \<and> (\<forall>k n. n \<in> set (lookup ix k) \<longleftrightarrow> (\<exists>a. jmap_get m n = Some a \<and> key a = Some k))"

lemma agrees_clear: "agrees clear []"
  by (simp add: agrees_def ok_clear lookup_clear)

lemma agrees_save: "agrees ix m \<Longrightarrow> agrees (replace a ix) (jmap_set (name a) a m)"
  by (auto simp: agrees_def ok_replace lookup_replace jm.get_put split: if_splits)

lemma agrees_remove: "agrees ix m \<Longrightarrow> jmap_ok m \<Longrightarrow> agrees (remove n ix) (jmap_delete n m)"
  by (auto simp: agrees_def ok_remove lookup_remove jm.get_del split: if_splits)

lemma agrees_rebuild:
  assumes "jmap_ok m" and "\<forall>(k, v) \<in> set m. name v = k"
  shows "agrees (foldl (\<lambda>ix a. replace a ix) clear (jmap_values m)) m"
  using assms
proof (induction m rule: rev_induct)
  case (snoc p m)
  obtain k v where p: "p = (k, v)" by fastforce
  with snoc.prems have "jmap_set (name v) v m = m @ [p]" by (intro trans[OF jmap_set_new]) auto
  moreover have "agrees (foldl (\<lambda>ix a. replace a ix) clear (jmap_values m)) m" using snoc by auto
  ultimately show ?case using agrees_save[of _ m v] by (simp add: p)
qed (simp add: agrees_clear)

end

definition index_lookup :: "identity_index \<Rightarrow> string \<Rightarrow> string list" where
  "index_lookup ix key = opt_list (jmap_get (ix_sessionIdsByProvider ix) key)"

definition session_key :: "ai_session \<Rightarrow> string option" where
  "session_key s = map_option pi_key (session_identity s)"

text \<open>The two maps of the index are inverse to each other.\<close>

definition index_ok :: "identity_index \<Rightarrow> bool" where
  "index_ok ix \<longleftrightarrow> jmap_ok (ix_sessionIdsByProvider ix) \<and> jmap_ok (ix_providerKeysBySessionId ix)
     \<and> (\<forall>n keys. jmap_get (ix_providerKeysBySessionId ix) n = Some keys \<longrightarrow> (\<exists>k. keys = [k]))
     \<and> (\<forall>k n. n \<in> set (index_lookup ix k) \<longleftrightarrow> jmap_get (ix_providerKeysBySessionId ix) n = Some [k])"

lemma drop_key_get:
  assumes "jmap_ok m"
  shows "jmap_ok (index_drop_key n m key)"
    and "set (opt_list (jmap_get (index_drop_key n m key) k)) = set (opt_list (jmap_get m k)) - (if k = key then {n} else {})"
proof -
  show "jmap_ok (index_drop_key n m key)"
    using assms by (simp add: index_drop_key_def Let_def jm.ok_put jm.ok_del)
  have "set (filter (\<lambda>x. x \<noteq> n) xs) = set xs - {n}" for xs by auto
  then show "set (opt_list (jmap_get (index_drop_key n m key) k)) = set (opt_list (jmap_get m k)) - (if k = key then {n} else {})"
    using assms by (auto simp: index_drop_key_def Let_def jm.get_put jm.get_del opt_list_def filter_empty_conv split: option.splits)
qed

lemma index_remove_shape:
  assumes "index_ok ix"
  shows "jmap_ok (ix_sessionIdsByProvider (index_remove n ix)) \<and> jmap_ok (ix_providerKeysBySessionId (index_remove n ix))"
    and "jmap_get (ix_providerKeysBySessionId (index_remove n ix)) n'
      = (if n' = n then None else jmap_get (ix_providerKeysBySessionId ix) n')"
    and "set (index_lookup (index_remove n ix) k) = set (index_lookup ix k) - {n}"
proof -
  have ok: "jmap_ok (ix_sessionIdsByProvider ix)" "jmap_ok (ix_providerKeysBySessionId ix)"
    and inv: "\<And>k n. n \<in> set (index_lookup ix k) \<longleftrightarrow> jmap_get (ix_providerKeysBySessionId ix) n = Some [k]"
    using assms by (simp_all add: index_ok_def)
  consider (none) "jmap_get (ix_providerKeysBySessionId ix) n = None"
    | (one) key where "jmap_get (ix_providerKeysBySessionId ix) n = Some [key]"
    using assms unfolding index_ok_def by (metis option.exhaust)
  then have all: "(jmap_ok (ix_sessionIdsByProvider (index_remove n ix)) \<and> jmap_ok (ix_providerKeysBySessionId (index_remove n ix)))
    \<and> jmap_get (ix_providerKeysBySessionId (index_remove n ix)) n'
      = (if n' = n then None else jmap_get (ix_providerKeysBySessionId ix) n')
    \<and> set (index_lookup (index_remove n ix) k) = set (index_lookup ix k) - {n}"
  proof cases
    case none
    then show ?thesis using ok inv[of n k] by (auto simp: index_remove_def)
  next
    case (one key)
    then have r: "index_remove n ix = \<lparr>ix_sessionIdsByProvider = index_drop_key n (ix_sessionIdsByProvider ix) key,
        ix_providerKeysBySessionId = jmap_delete n (ix_providerKeysBySessionId ix)\<rparr>"
      by (simp add: index_remove_def)
    show ?thesis
      using ok inv[of n k] one drop_key_get[OF ok(1), of n key] by (auto simp: r jm.ok_del jm.get_del index_lookup_def)
  qed
  then show "jmap_ok (ix_sessionIdsByProvider (index_remove n ix)) \<and> jmap_ok (ix_providerKeysBySessionId (index_remove n ix))"
    "jmap_get (ix_providerKeysBySessionId (index_remove n ix)) n'
      = (if n' = n then None else jmap_get (ix_providerKeysBySessionId ix) n')"
    "set (index_lookup (index_remove n ix) k) = set (index_lookup ix k) - {n}" by blast+
qed

lemma index_remove_ok: "index_ok ix \<Longrightarrow> index_ok (index_remove n ix)"
  using index_remove_shape[of ix n] by (auto simp: index_ok_def split: if_splits)

lemma index_replace_shape:
  assumes "index_ok ix"
  shows "index_ok (index_replace a ix)"
    and "set (index_lookup (index_replace a ix) k)
      = (set (index_lookup ix k) - {ss_id a}) \<union> (if session_key a = Some k then {ss_id a} else {})"
proof -
  define r where "r = index_remove (ss_id a) ix"
  have ok: "index_ok r" and look: "\<And>k. set (index_lookup r k) = set (index_lookup ix k) - {ss_id a}"
    and gone: "jmap_get (ix_providerKeysBySessionId r) (ss_id a) = None"
    using index_remove_ok[OF assms] index_remove_shape[OF assms] by (simp_all add: r_def)
  have "index_ok (index_replace a ix) \<and> set (index_lookup (index_replace a ix) k)
      = (set (index_lookup ix k) - {ss_id a}) \<union> (if session_key a = Some k then {ss_id a} else {})"
  proof (cases "session_identity a")
    case None
    then have "index_replace a ix = r" by (simp add: index_replace_def r_def)
    then show ?thesis using ok look by (simp add: session_key_def None)
  next
    case (Some i)
    let ?x = "index_replace a ix"
    have x: "?x = \<lparr>ix_sessionIdsByProvider = jmap_set (pi_key i) (set_add (ss_id a) (index_lookup r (pi_key i))) (ix_sessionIdsByProvider r),
        ix_providerKeysBySessionId = jmap_set (ss_id a) [pi_key i] (ix_providerKeysBySessionId r)\<rparr>"
      by (simp add: index_replace_def r_def[symmetric] Some index_lookup_def Let_def)
    have l: "set (index_lookup ?x k) = set (index_lookup r k) \<union> (if k = pi_key i then {ss_id a} else {})" for k
      by (auto simp: x index_lookup_def jm.get_put opt_list_def set_add_def)
    have g: "jmap_get (ix_providerKeysBySessionId ?x) n = (if n = ss_id a then Some [pi_key i] else jmap_get (ix_providerKeysBySessionId r) n)" for n
      by (simp add: x jm.get_put)
    have maps: "jmap_ok (ix_sessionIdsByProvider ?x)" "jmap_ok (ix_providerKeysBySessionId ?x)"
      using ok by (simp_all add: x index_ok_def jm.ok_put)
    have "index_ok ?x"
      unfolding index_ok_def
    proof (intro conjI allI impI)
      fix k n
      show "n \<in> set (index_lookup ?x k) \<longleftrightarrow> jmap_get (ix_providerKeysBySessionId ?x) n = Some [k]"
        using ok look gone by (auto simp: l g index_ok_def)
    next
      fix n keys
      assume "jmap_get (ix_providerKeysBySessionId ?x) n = Some keys"
      then show "\<exists>k. keys = [k]" using ok by (auto simp: g index_ok_def split: if_splits)
    qed (use maps in auto)
    then show ?thesis using l[of k] look[of k] by (auto simp: session_key_def Some)
  qed
  then show "index_ok (index_replace a ix)" "set (index_lookup (index_replace a ix) k)
      = (set (index_lookup ix k) - {ss_id a}) \<union> (if session_key a = Some k then {ss_id a} else {})" by blast+
qed

interpretation ki: key_index index_clear index_replace index_remove index_lookup ss_id session_key index_ok
proof
  show "index_ok index_clear" by (simp add: index_ok_def index_clear_def index_lookup_def opt_list_def)
  show "index_lookup index_clear k = []" for k by (simp add: index_clear_def index_lookup_def opt_list_def)
qed (fact index_remove_ok index_remove_shape(3) index_replace_shape)+

definition store_ok :: "session_store \<Rightarrow> bool" where
  "store_ok st \<longleftrightarrow> jmap_ok (st_sessions st) \<and> (\<forall>(k, v) \<in> set (st_sessions st). ss_id v = k) \<and> ki.agrees (st_index st) (st_sessions st)"

lemma store_ok_put:
  "store_ok st \<Longrightarrow> store_ok \<lparr>st_sessions = jmap_set (ss_id c) c (st_sessions st), st_index = index_replace c (st_index st), st_files = fs\<rparr>"
  by (auto simp: store_ok_def jm.ok_put set_jmap_set intro: ki.agrees_save)

lemma store_ok_save: "store_ok st \<Longrightarrow> store_save sha le s st = Inr (c, st') \<Longrightarrow> store_ok st'"
  by (auto simp: store_save_def split: if_splits option.splits intro: store_ok_put)

lemma store_ok_remove: "store_ok st \<Longrightarrow> store_remove n st = Inr (b, st') \<Longrightarrow> store_ok st'"
  by (auto simp: store_remove_def store_ok_def jm.ok_del set_jmap_delete split: if_splits intro: ki.agrees_remove)

lemma store_load_ok: "store_ok (store_load sha le files)"
proof -
  have "jmap_ok (foldl (load_file sha le) m files) \<and> (\<forall>(k, v) \<in> set (foldl (load_file sha le) m files). ss_id v = k)"
    if "jmap_ok m" "\<forall>(k, v) \<in> set m. ss_id v = k" for m
    using that
  proof (induction files arbitrary: m)
    case (Cons f files)
    have "jmap_ok (load_file sha le m f) \<and> (\<forall>(k, v) \<in> set (load_file sha le m f). ss_id v = k)"
      using Cons.prems by (auto simp: load_file_def jm.ok_put set_jmap_set split: option.splits)
    then show ?case using Cons.IH[of "load_file sha le m f"] by simp
  qed simp
  from this[of "[]"] show ?thesis
    using ki.agrees_rebuild[of "foldl (load_file sha le) [] files"]
    by (simp add: store_load_def store_ok_def Let_def index_rebuild_def)
qed

section \<open>The directory and the sessions\<close>

text \<open>What a file stands for, and the store whose sessions are those its directory stands for.\<close>

definition file_session :: "(string \<Rightarrow> string) \<Rightarrow> (string \<Rightarrow> string \<Rightarrow> bool) \<Rightarrow> (string, ai_session option) jmap \<Rightarrow> string \<Rightarrow> ai_session option" where
  "file_session sha1_hex le files name =
     (case jmap_get files name of
        Some (Some e) \<Rightarrow> Option.bind (decodePersistedAiSession sha1_hex le e) (\<lambda>s. if ss_id s = name then Some s else None)
      | _ \<Rightarrow> None)"

definition store_synced :: "(string \<Rightarrow> string) \<Rightarrow> (string \<Rightarrow> string \<Rightarrow> bool) \<Rightarrow> session_store \<Rightarrow> bool" where
  "store_synced sha1_hex le st \<longleftrightarrow> jmap_ok (st_files st) \<and> store_ok st
     \<and> (\<forall>k. jmap_get (st_sessions st) k = file_session sha1_hex le (st_files st) k)"

lemma load_files_get:
  "jmap_ok files \<Longrightarrow> jmap_get (foldl (load_file sha le) m files) k
     = (case file_session sha le files k of Some s \<Rightarrow> Some s | None \<Rightarrow> jmap_get m k)"
proof (induction files arbitrary: m)
  case (Cons f files)
  obtain name content where f: "f = (name, content)" by fastforce
  have "file_session sha le files name = None"
  proof -
    have "jmap_get files name = None" using Cons.prems by (simp add: f jmap_get_def map_of_eq_None_iff)
    then show ?thesis by (simp add: file_session_def)
  qed
  moreover have "jmap_get (load_file sha le m f) k
      = (if k = name then case file_session sha le [f] k of Some s \<Rightarrow> Some s | None \<Rightarrow> jmap_get m k else jmap_get m k)"
    by (cases content) (auto simp: f load_file_def file_session_def jm.get_put jmap_get_def[of "[_]"] split: option.splits)
  moreover have "file_session sha le (f # files) k = (if k = name then file_session sha le [f] k else file_session sha le files k)"
    by (cases "k = name") (simp_all add: f file_session_def jmap_get_def)
  ultimately show ?case using Cons by (cases "k = name"; cases "file_session sha le files k") simp_all
qed (simp add: file_session_def jmap_get_def)

lemma store_load_synced: "jmap_ok files \<Longrightarrow> store_synced sha le (store_load sha le files)"
  using store_load_ok[of sha le files]
  by (simp add: store_synced_def store_load_def Let_def load_files_get jmap_get_def[of "[]"] split: option.split)

text \<open>Reading the directory again, in whatever order it is listed, gives the sessions of the store.\<close>

lemma store_reload:
  assumes "store_synced sha le st" and "jmap_ok dir" and "set dir = set (st_files st)"
  shows "store_get (store_load sha le dir) k = store_get st k"
proof -
  have "map_of dir = map_of (st_files st)"
    using assms by (intro map_of_inject_set[THEN iffD2]) (simp_all add: store_synced_def)
  then have "file_session sha le dir = file_session sha le (st_files st)"
    by (simp add: file_session_def jmap_get_def fun_eq_iff)
  then show ?thesis
    using assms store_load_synced[of dir sha le] by (simp add: store_get_def store_synced_def store_load_def Let_def)
qed

text \<open>An id that normalising leaves alone names the file its session is read back from.\<close>

definition canonical_id :: "string \<Rightarrow> bool" where
  "canonical_id sid \<longleftrightarrow> compact sid 120 = sid"

lemma parsed_id: "session_parse s = Some e \<Longrightarrow> ss_id e = js_trim (ss_id s)"
proof -
  assume "session_parse s = Some e"
  then have ok: "session_ok s" and e: "e = session_trim s" by (simp_all add: session_parse_def split: if_splits)
  have "nonempty_text 120 (ss_id s) \<noteq> None" using ok unfolding session_ok_def by (elim conjE)
  then have "the (nonempty_text 120 (ss_id s)) = js_trim (ss_id s)" by (simp add: nonempty_text_def Let_def split: if_splits)
  then show ?thesis by (simp add: e session_trim_def)
qed

lemma committed_id:
  assumes "canonical_id (ss_id s)" and "encodePersistedAiSession s = Some e" and "decodePersistedAiSession sha le e = Some c"
  shows "ss_id c = ss_id s"
proof -
  have t: "js_trim (ss_id s) = ss_id s" using assms(1) compact_shape[of "ss_id s" 120] by (simp add: canonical_id_def)
  have "ss_id e = ss_id s" using assms(2) t parsed_id by (simp add: encodePersistedAiSession_def)
  then have "ss_id (decode_candidate sha le e) = ss_id s" using assms(1) by (simp add: decode_candidate_def canonical_id_def)
  then show ?thesis using parsed_id[of "decode_candidate sha le e" c] assms(3) t by (simp add: decodePersistedAiSession_def)
qed

lemma store_synced_save:
  assumes "store_synced sha le st" and "canonical_id (ss_id s)" and "store_save sha le s st = Inr (c, st')"
  shows "store_synced sha le st'" and "ss_id c = ss_id s"
proof -
  obtain e where e: "encodePersistedAiSession s = Some e" and c: "decodePersistedAiSession sha le e = Some c"
    and st': "st' = \<lparr>st_sessions = jmap_set (ss_id c) c (st_sessions st), st_index = index_replace c (st_index st),
      st_files = jmap_set (ss_id s) (Some e) (st_files st)\<rparr>"
    using assms(3) by (auto simp: store_save_def split: if_splits option.splits)
  show i: "ss_id c = ss_id s" by (rule committed_id[OF assms(2) e c])
  show "store_synced sha le st'"
    using assms(1) c i store_ok_put[of st c] by (auto simp: st' store_synced_def jm.ok_put jm.get_put file_session_def)
qed

lemma store_synced_remove: "store_synced sha le st \<Longrightarrow> store_remove n st = Inr (b, st') \<Longrightarrow> store_synced sha le st'"
  using store_ok_remove[of st n b st']
  by (auto simp: store_remove_def store_synced_def store_ok_def[of st] jm.ok_del jm.get_del file_session_def split: if_splits)

datatype store_op = SaveSession ai_session | RemoveSession string

text \<open>One operation; a refused one throws and leaves the store as it was.\<close>

fun store_step :: "(string \<Rightarrow> string) \<Rightarrow> (string \<Rightarrow> string \<Rightarrow> bool) \<Rightarrow> session_store \<Rightarrow> store_op \<Rightarrow> session_store" where
  "store_step sha le st (SaveSession s) = (case store_save sha le s st of Inr (_, st') \<Rightarrow> st' | Inl _ \<Rightarrow> st)"
| "store_step sha le st (RemoveSession n) = (case store_remove n st of Inr (_, st') \<Rightarrow> st' | Inl _ \<Rightarrow> st)"

interpretation ss: step_system "store_step sha le" store_ok for sha le
proof
  fix st op
  assume "store_ok st"
  then show "store_ok (store_step sha le st op)"
    by (cases op) (auto split: sum.splits intro: store_ok_save store_ok_remove)
qed

lemma identity_part: "normalizeIdentityPart v n = compact v n"
  by (simp add: normalizeIdentityPart_def compact_def Let_def)

lemma identity_fixed:
  assumes "providerSessionIdentity agent pid = Some i"
  shows "providerSessionIdentity (pi_agent i) (pi_providerSessionId i) = Some i" and "pi_providerSessionId i \<noteq> []"
  using assms by (auto simp: providerSessionIdentity_def identity_part Let_def split: if_splits)

text \<open>
  Claim C26. Looking a session up by its provider identity through the index is the same as
  scanning every stored session for it: after any sequence of saves and removals from any loaded
  directory, the matches are exactly the stored sessions with that agent and provider session id,
  and the lookup answers nothing exactly when there is none.
\<close>

theorem provider_lookup_equals_scan:
  assumes "st = foldl (store_step sha1_hex le) (store_load sha1_hex le files) ops"
    and "providerSessionIdentity agent pid = Some i"
    and "\<And>xs. xs \<noteq> [] \<Longrightarrow> \<exists>x \<in> set xs. select xs = Some x"
  shows "set (store_matches st i) = {s \<in> set (jmap_values (st_sessions st)).
      ss_agent s = pi_agent i \<and> ss_providerSessionId s = Some (pi_providerSessionId i)}
    \<and> (case findByProviderSession select st agent pid of
         Some s \<Rightarrow> s \<in> set (store_matches st i)
       | None \<Rightarrow> store_matches st i = [])"
proof
  have ok: "store_ok st" unfolding assms(1) by (rule ss.good_run[OF store_load_ok])
  then have maps: "jmap_ok (st_sessions st)" and agree: "ki.agrees (st_index st) (st_sessions st)"
    by (simp_all add: store_ok_def)
  have cand: "index_candidates (st_index st) (pi_agent i) (pi_providerSessionId i) = index_lookup (st_index st) (pi_key i)"
    by (simp add: index_candidates_def identity_fixed(1)[OF assms(2)] index_lookup_def)
  have key: "session_key s = Some (pi_key i)"
    if "ss_agent s = pi_agent i" "ss_providerSessionId s = Some (pi_providerSessionId i)" for s
    using that identity_fixed[OF assms(2)] by (simp add: session_key_def session_identity_def)
  show "set (store_matches st i) = {s \<in> set (jmap_values (st_sessions st)).
      ss_agent s = pi_agent i \<and> ss_providerSessionId s = Some (pi_providerSessionId i)}"
  proof (rule set_eqI)
    fix s
    have "s \<in> set (jmap_values (st_sessions st)) \<longleftrightarrow> (\<exists>n. jmap_get (st_sessions st) n = Some s)"
      using maps by (force simp: jmap_get_iff)
    then show "s \<in> set (store_matches st i) \<longleftrightarrow> s \<in> {s \<in> set (jmap_values (st_sessions st)).
        ss_agent s = pi_agent i \<and> ss_providerSessionId s = Some (pi_providerSessionId i)}"
      using agree key[of s] by (auto simp: store_matches_def cand set_map_filter ki.agrees_def)
  qed
  show "case findByProviderSession select st agent pid of
      Some s \<Rightarrow> s \<in> set (store_matches st i) | None \<Rightarrow> store_matches st i = []"
    using assms(3)[of "store_matches st i"]
    by (cases "store_matches st i = []") (auto simp: findByProviderSession_def assms(2))
qed

definition stored_demo :: session_store where
  "stored_demo = store_load (\<lambda>_. ''h'') (\<le>) [(''s1'', Some demo_session), (''other'', Some demo_session)]"

lemma demo_decodes: "decodePersistedAiSession (\<lambda>_. ''h'') (\<le>) demo_session = Some demo_session"
proof -
  have t: "compact ''s1'' 120 = ''s1''" "compact ''codex'' 80 = ''codex''" "compact ''p1'' 240 = ''p1''" by code_simp+
  have "decode_candidate (\<lambda>_. ''h'') (\<le>) demo_session = demo_session"
    by (simp add: decode_candidate_def demo_session_def t limit_text_def text_norm_def emptyAiSessionQueue_def
        normalizeAiSessionQueue_def normalizeAiSessionQueueItems_def normalizePersistedTurns_def normalizeTurns_def
        normalizeAiSessionCounters_def normalizeNonNegativeInteger_def normalizeAiSessionLineage_def normalizeAiSessionSubAgents_def
        opt_list_def last_n_def List.map_filter_def status_same[of Idle, simplified] phase_same[of UnknownPhase, simplified])
  then show ?thesis using demo_encodes by (simp add: decodePersistedAiSession_def encodePersistedAiSession_def)
qed

theorem provider_lookup_equals_scan_witness:
  "case findByProviderSession (\<lambda>xs. Some (hd xs)) (foldl (store_step (\<lambda>_. ''h'') (\<le>)) stored_demo []) ''codex'' ''p1'' of
     Some s \<Rightarrow> s = demo_session | None \<Rightarrow> False"
proof -
  define i where "i = \<lparr>pi_agent = ''codex'', pi_providerSessionId = ''p1'', pi_key = ''codex'' @ [CHR 0x00] @ ''p1''\<rparr>"
  have i: "providerSessionIdentity ''codex'' ''p1'' = Some i"
    unfolding i_def by code_simp
  have sel: "\<exists>x \<in> set xs. Some (hd xs) = Some x" if "xs \<noteq> []" for xs :: "ai_session list" using that by simp
  have v: "jmap_values (st_sessions stored_demo) = [demo_session]"
    by (simp add: stored_demo_def store_load_def load_file_def demo_decodes) (simp add: demo_session_def jmap_set_new)
  have a: "ss_agent demo_session = ''codex''" "ss_providerSessionId demo_session = Some ''p1''"
    by (simp_all add: demo_session_def)
  from provider_lookup_equals_scan[where ops = "[]", OF refl i sel,
      of "\<lambda>_. ''h''" "(\<le>)" "[(''s1'', Some demo_session), (''other'', Some demo_session)]"] v a
  show ?thesis by (auto simp: i_def stored_demo_def[symmetric] split: option.splits)
qed

end
