(* ===== verification/Session_Reconcile.thy ===== *)
theory Session_Reconcile
  imports Session_Store
begin

text \<open>
  The reconciliation decisions of \<^verbatim>\<open>packages/ai-session-runtime/src/ai-session/reconciliation-service.ts\<close>:
  which of several records of one conversation is the canonical one, which sessions are hidden or
  removed because their app or provider session is gone, and which ones retention prunes. The only
  state of the service is the time at which a session was first seen without its app.
\<close>

section \<open>Canonical sessions\<close>

definition sessionIdentityKey :: "ai_session \<Rightarrow> string" where
  "sessionIdentityKey session =
     (if truthy (ss_providerSessionId session) then ss_agent session @ '':provider:'' @ str_of (ss_providerSessionId session)
      else if truthy (ss_appSessionId session) then ss_agent session @ '':app:'' @ str_of (ss_appSessionId session)
      else if truthy (ss_transcriptPath session) then ss_agent session @ '':transcript:'' @ str_of (ss_transcriptPath session)
      else ss_agent session @ '':id:'' @ ss_id session)"

definition activityScore :: "ai_session \<Rightarrow> nat" where
  "activityScore session =
     of_bool (truthy (ss_userPrompt session)) + of_bool (truthy (ss_summary session))
     + of_bool (truthy (ss_lastMessage session)) + length (opt_list (ss_turns session))"

definition betterCanonicalSession :: "ai_session \<Rightarrow> ai_session \<Rightarrow> ai_session" where
  "betterCanonicalSession lhs rhs =
     (let lhsActivity = activityScore lhs; rhsActivity = activityScore rhs in
      if lhsActivity \<noteq> rhsActivity then if lhsActivity > rhsActivity then lhs else rhs
      else case (session_time lhs, session_time rhs) of (Some l, Some r) \<Rightarrow> if l \<ge> r then lhs else rhs | _ \<Rightarrow> rhs)"

definition canonical_step :: "(string, ai_session) jmap \<Rightarrow> ai_session \<Rightarrow> (string, ai_session) jmap" where
  "canonical_step byIdentity session =
     (let key = sessionIdentityKey session in
      jmap_set key (case jmap_get byIdentity key of Some existing \<Rightarrow> betterCanonicalSession existing session | None \<Rightarrow> session)
        byIdentity)"

definition canonicalAiSessions :: "ai_session list \<Rightarrow> ai_session list" where
  "canonicalAiSessions sessions = js_sort newer_first (jmap_values (foldl canonical_step [] sessions))"

section \<open>App and adapter sessions\<close>

record app_presence =
  ap_id :: "string option"
  ap_status :: "string option"

definition activeAppSessionIds :: "app_presence list \<Rightarrow> string list" where
  "activeAppSessionIds appSessions =
     js_uniq (filter (\<lambda>i. i \<noteq> []) (map (\<lambda>s. js_trim (str_of (ap_id s)))
       (filter (\<lambda>s. ap_status s = None \<or> ap_status s = Some ''running'') appSessions)))"

type_synonym orphans = "(string, int) jmap"

datatype orphan_change = Marked string int | Cleared string

definition visibility :: "orphans \<Rightarrow> ai_session list \<Rightarrow> string list \<times> string list" where
  "visibility orphanedAppSessionAt sessions =
     (let hiddenSessionIds = map ss_id (filter (\<lambda>s. jmap_has orphanedAppSessionAt (ss_id s)) sessions);
          visibleSessionIds = map ss_id (canonicalAiSessions (filter (\<lambda>s. ss_id s \<notin> set hiddenSessionIds) sessions))
      in (visibleSessionIds, hiddenSessionIds))"

definition recordOrphanClear :: "string \<Rightarrow> orphans \<times> orphan_change list \<Rightarrow> orphans \<times> orphan_change list" where
  "recordOrphanClear sessionId = (\<lambda>(orphaned, changes).
     (jmap_delete sessionId orphaned, if jmap_has orphaned sessionId then changes @ [Cleared sessionId] else changes))"

record reconcile_acc =
  ra_orphans :: orphans
  ra_changes :: "orphan_change list"
  ra_remove :: "string list"
  ra_hidden :: "string list"

definition clear_orphan :: "string \<Rightarrow> reconcile_acc \<Rightarrow> reconcile_acc" where
  "clear_orphan sessionId acc =
     (let (orphaned, changes) = recordOrphanClear sessionId (ra_orphans acc, ra_changes acc)
      in acc\<lparr>ra_orphans := orphaned, ra_changes := changes\<rparr>)"

definition reconcile_app_step :: "string list \<Rightarrow> int \<Rightarrow> int \<Rightarrow> reconcile_acc \<Rightarrow> ai_session \<Rightarrow> reconcile_acc" where
  "reconcile_app_step appSessionIds now orphanRetentionMs acc session =
     (if ss_creationSource session = FromAppSession \<and> \<not> truthy (ss_appSessionId session)
      then clear_orphan (ss_id session) (acc\<lparr>ra_remove := ra_remove acc @ [ss_id session]\<rparr>)
      else if \<not> truthy (ss_appSessionId session) \<or> str_of (ss_appSessionId session) \<in> set appSessionIds
      then clear_orphan (ss_id session) acc
      else let known = jmap_get (ra_orphans acc) (ss_id session);
               orphanedAt = (case known of Some t \<Rightarrow> t | None \<Rightarrow> now);
               acc = (if known = None then acc\<lparr>ra_orphans := jmap_set (ss_id session) now (ra_orphans acc),
                   ra_changes := ra_changes acc @ [Marked (ss_id session) now]\<rparr> else acc);
               acc = acc\<lparr>ra_hidden := ra_hidden acc @ [ss_id session]\<rparr>
           in if now - orphanedAt \<ge> orphanRetentionMs
              then clear_orphan (ss_id session) (acc\<lparr>ra_remove := ra_remove acc @ [ss_id session]\<rparr>)
              else acc)"

record reconcile_result =
  rr_visible :: "string list"
  rr_hidden :: "string list"
  rr_remove :: "string list"
  rr_changes :: "orphan_change list"

definition reconcileAppSessionBindings :: "ai_session list \<Rightarrow> app_presence list \<Rightarrow> int \<Rightarrow> int \<Rightarrow> orphans
    \<Rightarrow> reconcile_result \<times> orphans" where
  "reconcileAppSessionBindings sessions appSessions now orphanRetentionMs orphaned =
     (let acc = foldl (reconcile_app_step (activeAppSessionIds appSessions) now orphanRetentionMs)
            \<lparr>ra_orphans = orphaned, ra_changes = [], ra_remove = [], ra_hidden = []\<rparr> sessions;
          unavailable = ra_hidden acc @ ra_remove acc
      in (\<lparr>rr_visible = map ss_id (canonicalAiSessions (filter (\<lambda>s. ss_id s \<notin> set unavailable) sessions)),
           rr_hidden = ra_hidden acc, rr_remove = ra_remove acc, rr_changes = ra_changes acc\<rparr>, ra_orphans acc))"

text \<open>\<^verbatim>\<open>session.providerMeta?.short\<close>: a free JSON property; only a string is compared.\<close>

fun json_truthy :: "json \<Rightarrow> bool" where
  "json_truthy JUndef = False"
| "json_truthy JNull = False"
| "json_truthy (JBool b) = b"
| "json_truthy (JNum n) = (n \<noteq> ''0'' \<and> n \<noteq> ''-0'')"
| "json_truthy (JStr s) = (s \<noteq> [])"
| "json_truthy _ = True"

definition meta_short :: "ai_session \<Rightarrow> json" where
  "meta_short session = (case ss_providerMeta session of
     Some (JObj kvs) \<Rightarrow> (case map_of kvs ''short'' of Some v \<Rightarrow> v | None \<Rightarrow> JUndef) | _ \<Rightarrow> JUndef)"

definition adapter_present :: "string list \<Rightarrow> string list \<Rightarrow> string list \<Rightarrow> ai_session \<Rightarrow> bool" where
  "adapter_present appSessionIds providerSessionIds providerShorts session =
     (let short = (case meta_short session of JStr s \<Rightarrow> s | _ \<Rightarrow> []) in
      truthy (ss_appSessionId session) \<and> str_of (ss_appSessionId session) \<in> set appSessionIds
      \<or> truthy (ss_providerSessionId session) \<and> str_of (ss_providerSessionId session) \<in> set providerSessionIds
      \<or> short \<noteq> [] \<and> short \<in> set providerShorts)"

definition reconcile_adapter_step :: "string \<Rightarrow> string list \<Rightarrow> string list \<Rightarrow> string list \<Rightarrow> reconcile_acc \<Rightarrow> ai_session \<Rightarrow> reconcile_acc" where
  "reconcile_adapter_step agent appSessionIds providerSessionIds providerShorts acc session =
     (if ss_agent session \<noteq> agent then acc
      else if \<not> truthy (ss_appSessionId session) \<and> \<not> truthy (ss_providerSessionId session) \<and> \<not> json_truthy (meta_short session)
      then acc
      else if adapter_present appSessionIds providerSessionIds providerShorts session
      then clear_orphan (ss_id session) acc
      else clear_orphan (ss_id session) (acc\<lparr>ra_remove := ra_remove acc @ [ss_id session]\<rparr>))"

definition reconcileAdapterSessions :: "ai_session list \<Rightarrow> string \<Rightarrow> string list \<Rightarrow> string list \<Rightarrow> string list \<Rightarrow> orphans
    \<Rightarrow> reconcile_result \<times> orphans" where
  "reconcileAdapterSessions sessions agent appSessionIds providerSessionIds providerShorts orphaned =
     (let acc = foldl (reconcile_adapter_step agent appSessionIds providerSessionIds providerShorts)
            \<lparr>ra_orphans = orphaned, ra_changes = [], ra_remove = [], ra_hidden = []\<rparr> sessions;
          remaining = filter (\<lambda>s. ss_id s \<notin> set (ra_remove acc)) sessions;
          (visible, hidden) = visibility (ra_orphans acc) remaining
      in (\<lparr>rr_visible = visible, rr_hidden = hidden, rr_remove = ra_remove acc, rr_changes = ra_changes acc\<rparr>, ra_orphans acc))"

section \<open>Pruning\<close>

record prune_result =
  pr_canonical :: "string list"
  pr_duplicate :: "string list"
  pr_expired :: "string list"
  pr_remove :: "string list"

definition prune :: "ai_session list \<Rightarrow> int \<Rightarrow> int \<Rightarrow> prune_result" where
  "prune sessions now retentionMs =
     (let canonicalSessionIds = map ss_id (canonicalAiSessions sessions);
          duplicateSessionIds = map ss_id (filter (\<lambda>s. ss_id s \<notin> set canonicalSessionIds) sessions);
          cutoff = now - retentionMs;
          expiredSessionIds = map ss_id (filter (\<lambda>s. (ss_status s = Idle \<or> ss_status s = Failed)
              \<and> (case session_time s of Some t \<Rightarrow> t < cutoff | None \<Rightarrow> False))
            (filter (\<lambda>s. ss_id s \<notin> set duplicateSessionIds) sessions))
      in \<lparr>pr_canonical = canonicalSessionIds, pr_duplicate = duplicateSessionIds, pr_expired = expiredSessionIds,
          pr_remove = duplicateSessionIds @ expiredSessionIds\<rparr>)"

definition clearOrphan :: "string \<Rightarrow> orphans \<Rightarrow> orphans" where
  "clearOrphan sessionId orphaned = jmap_delete sessionId orphaned"

definition forgetSession :: "string \<Rightarrow> orphans \<Rightarrow> orphans" where
  "forgetSession sessionId orphaned = jmap_delete sessionId orphaned"

section \<open>One record per conversation\<close>

text \<open>The records chosen so far: one per identity, each one of those seen and as active as any of them.\<close>

definition chosen :: "ai_session list \<Rightarrow> (string, ai_session) jmap \<Rightarrow> bool" where
  "chosen xs m \<longleftrightarrow> jmap_ok m \<and> set (jmap_keys m) = sessionIdentityKey ` set xs
     \<and> (\<forall>(k, v) \<in> set m. sessionIdentityKey v = k \<and> v \<in> set xs
          \<and> (\<forall>x \<in> set xs. sessionIdentityKey x = k \<longrightarrow> activityScore x \<le> activityScore v))"

lemma better_choice:
  "betterCanonicalSession a b \<in> {a, b}"
  "activityScore a \<le> activityScore (betterCanonicalSession a b)"
  "activityScore b \<le> activityScore (betterCanonicalSession a b)"
  by (auto simp: betterCanonicalSession_def Let_def split: option.splits)

lemma chosen_step:
  assumes "chosen xs m"
  shows "chosen (xs @ [x]) (canonical_step m x)"
proof -
  define v where "v = (case jmap_get m (sessionIdentityKey x) of Some e \<Rightarrow> betterCanonicalSession e x | None \<Rightarrow> x)"
  have step: "canonical_step m x = jmap_set (sessionIdentityKey x) v m"
    by (simp add: canonical_step_def v_def Let_def)
  have ok: "jmap_ok m" using assms by (simp add: chosen_def)
  have v: "sessionIdentityKey v = sessionIdentityKey x \<and> v \<in> set (xs @ [x])
      \<and> (\<forall>y \<in> set (xs @ [x]). sessionIdentityKey y = sessionIdentityKey x \<longrightarrow> activityScore y \<le> activityScore v)"
  proof (cases "jmap_get m (sessionIdentityKey x)")
    case None
    then have "sessionIdentityKey y \<noteq> sessionIdentityKey x" if "y \<in> set xs" for y
      using assms imageI[OF that, of sessionIdentityKey] by (auto simp: jmap_get_None chosen_def simp del: set_map)
    then show ?thesis using None by (auto simp: v_def)
  next
    case (Some e)
    then have e: "sessionIdentityKey e = sessionIdentityKey x" "e \<in> set xs"
        "\<forall>y \<in> set xs. sessionIdentityKey y = sessionIdentityKey x \<longrightarrow> activityScore y \<le> activityScore e"
      using assms by (auto simp: chosen_def dest!: jmap_get_in)
    then show ?thesis
      using better_choice[where a = e and b = x] by (auto simp: v_def Some intro: order_trans)
  qed
  have keys: "set (jmap_keys (jmap_set (sessionIdentityKey x) v m)) = sessionIdentityKey ` set (xs @ [x])"
    using assms by (auto simp: keys_jmap_set chosen_def simp del: set_map)
  show ?thesis
    using assms v ok unfolding step chosen_def keys by (auto simp: jm.ok_put set_jmap_set)
qed

lemma chosen_all: "chosen xs (foldl canonical_step [] xs)"
proof (induction xs rule: rev_induct)
  case (snoc x xs)
  then show ?case using chosen_step by simp
qed (simp add: chosen_def)


lemma canonical_facts:
  shows "set (canonicalAiSessions xs) \<subseteq> set xs"
    and "distinct (map sessionIdentityKey (canonicalAiSessions xs))"
    and "sessionIdentityKey ` set (canonicalAiSessions xs) = sessionIdentityKey ` set xs"
    and "c \<in> set (canonicalAiSessions xs) \<Longrightarrow> x \<in> set xs \<Longrightarrow> sessionIdentityKey x = sessionIdentityKey c \<Longrightarrow> activityScore x \<le> activityScore c"
proof -
  define m where "m = foldl canonical_step [] xs"
  have m: "chosen xs m" unfolding m_def by (rule chosen_all)
  then have kv: "map sessionIdentityKey (jmap_values m) = jmap_keys m"
    by (auto simp: chosen_def case_prod_beta)
  have c: "canonicalAiSessions xs = js_sort newer_first (jmap_values m)"
    by (simp add: canonicalAiSessions_def m_def)
  show "set (canonicalAiSessions xs) \<subseteq> set xs" using m by (auto simp: c chosen_def)
  have "distinct (map sessionIdentityKey (jmap_values m))" using m unfolding kv by (simp add: chosen_def)
  then show "distinct (map sessionIdentityKey (canonicalAiSessions xs))" unfolding c by (simp only: distinct_map_js_sort)
  have "sessionIdentityKey ` set (jmap_values m) = set (jmap_keys m)"
    using arg_cong[OF kv, of set] by (simp only: set_map)
  then show "sessionIdentityKey ` set (canonicalAiSessions xs) = sessionIdentityKey ` set xs"
    using m by (simp add: c chosen_def del: set_map)
  show "activityScore x \<le> activityScore c"
    if "c \<in> set (canonicalAiSessions xs)" "x \<in> set xs" "sessionIdentityKey x = sessionIdentityKey c"
    using m that by (auto simp: c chosen_def)
qed

lemma id_mem:
  assumes "distinct (map ss_id xs)" and "x \<in> set xs"
  shows "ss_id x \<in> set (map ss_id (filter P xs)) \<longleftrightarrow> P x"
  using assms by (auto simp: distinct_map inj_on_def)

lemma canonical_ids:
  assumes "distinct (map ss_id xs)" "x \<in> set xs"
  shows "ss_id x \<in> set (map ss_id (canonicalAiSessions xs)) \<longleftrightarrow> x \<in> set (canonicalAiSessions xs)"
proof -
  have "x = y" if "y \<in> set xs" "ss_id x = ss_id y" for y using assms that by (auto simp: distinct_map inj_on_def)
  then show ?thesis using canonical_facts(1)[of xs] by auto
qed

text \<open>Which sessions are pruned.\<close>

lemma prune_removes:
  assumes "distinct (map ss_id xs)" "x \<in> set xs"
  shows "ss_id x \<in> set (pr_remove (prune xs now retention)) \<longleftrightarrow> x \<notin> set (canonicalAiSessions xs)
    \<or> (ss_status x = Idle \<or> ss_status x = Failed) \<and> (\<exists>t. session_time x = Some t \<and> t < now - retention)"
proof -
  define D where "D = filter (\<lambda>s. ss_id s \<notin> set (map ss_id (canonicalAiSessions xs))) xs"
  have "ss_id x \<in> set (map ss_id D) \<longleftrightarrow> x \<notin> set (canonicalAiSessions xs)"
    unfolding D_def id_mem[OF assms] canonical_ids[OF assms] ..
  moreover have "pr_remove (prune xs now retention) = map ss_id D @ map ss_id (filter (\<lambda>s. (ss_status s = Idle \<or> ss_status s = Failed)
      \<and> (case session_time s of Some t \<Rightarrow> t < now - retention | None \<Rightarrow> False) \<and> ss_id s \<notin> set (map ss_id D)) xs)"
    by (simp add: prune_def Let_def D_def conj_ac)
  ultimately show ?thesis
    by (simp only: set_append Un_iff id_mem[OF assms]) (auto split: option.splits)
qed

definition expired :: "int \<Rightarrow> int \<Rightarrow> ai_session \<Rightarrow> bool" where
  "expired now retention s = ((ss_status s = Idle \<or> ss_status s = Failed) \<and> (case session_time s of Some t \<Rightarrow> t < now - retention | None \<Rightarrow> False))"

text \<open>
  Claim C37. For stored sessions with distinct ids, every conversation has one preferred record, at least as active as
  each of the others. Pruning removes all the others, and removes the preferred one exactly if it is idle or failed and was updated last
  before the retention period; so what remains has at most one record per conversation, and a conversation is left without a
  record only if its preferred record has expired.
\<close>

theorem prune_keeps_conversations:
  assumes "distinct (map ss_id xs)" and rest: "rest = filter (\<lambda>s. ss_id s \<notin> set (pr_remove (prune xs now retention))) xs"
  shows "distinct (map sessionIdentityKey rest)
    \<and> (\<forall>x \<in> set xs. \<exists>c \<in> set xs. sessionIdentityKey c = sessionIdentityKey x
        \<and> (\<forall>y \<in> set xs. sessionIdentityKey y = sessionIdentityKey x \<longrightarrow> activityScore y \<le> activityScore c
             \<and> (y \<in> set rest \<longleftrightarrow> y = c \<and> \<not> expired now retention c)))"
proof -
  define C where "C = canonicalAiSessions xs"
  note C = canonical_facts[where xs = xs, folded C_def]
  have kept: "x \<in> set rest \<longleftrightarrow> x \<in> set C \<and> \<not> expired now retention x" if "x \<in> set xs" for x
    using prune_removes[OF assms(1) that, folded C_def, of now retention] that by (auto simp: rest expired_def split: option.splits)
  have inj: "c = c'" if "c \<in> set C" "c' \<in> set C" "sessionIdentityKey c = sessionIdentityKey c'" for c c'
    using C(2) that by (auto simp: distinct_map inj_on_def)
  have "set rest \<subseteq> set C" using kept by (auto simp: rest)
  moreover have "distinct rest" using assms(1) by (simp add: rest distinct_map)
  ultimately have "distinct (map sessionIdentityKey rest)" using inj by (auto simp: distinct_map inj_on_def)
  moreover have "\<exists>c \<in> set xs. sessionIdentityKey c = sessionIdentityKey x
      \<and> (\<forall>y \<in> set xs. sessionIdentityKey y = sessionIdentityKey x \<longrightarrow> activityScore y \<le> activityScore c
           \<and> (y \<in> set rest \<longleftrightarrow> y = c \<and> \<not> expired now retention c))" if x: "x \<in> set xs" for x
  proof -
    from x C(3) obtain c where c: "c \<in> set C" "sessionIdentityKey c = sessionIdentityKey x" by (metis imageE imageI)
    then have "y = c" if "y \<in> set C" "sessionIdentityKey y = sessionIdentityKey x" for y using inj that by simp
    then have "y \<in> set rest \<longleftrightarrow> y = c \<and> \<not> expired now retention c" if "y \<in> set xs" "sessionIdentityKey y = sessionIdentityKey x" for y
      using kept[OF that(1)] that(2) c(1) by blast
    moreover have "activityScore y \<le> activityScore c" if "y \<in> set xs" "sessionIdentityKey y = sessionIdentityKey x" for y
      using C(4)[OF c(1) that(1)] that(2) c(2) by simp
    moreover have "c \<in> set xs" using c(1) C(1) by blast
    ultimately show ?thesis using c(2) by blast
  qed
  ultimately show ?thesis by blast
qed

text \<open>Two records of one conversation, of which the second is preferred, and another conversation that has expired.\<close>

definition pruned_sample :: "ai_session list" where
  "pruned_sample = [demo_session, demo_session\<lparr>ss_id := ''s2'', ss_summary := Some ''x'', ss_status := Running\<rparr>,
     demo_session\<lparr>ss_id := ''s3'', ss_agent := ''other'', ss_status := Failed\<rparr>]"

definition pruned_rest :: "ai_session list" where
  "pruned_rest = filter (\<lambda>s. ss_id s \<notin> set (pr_remove (prune pruned_sample 10000000000000 1000))) pruned_sample"

lemma pruned_sample_facts:
  "map ss_id pruned_rest = [''s2'']" "distinct (map ss_id pruned_sample)" "pruned_sample ! 1 \<in> set pruned_rest"
  "pruned_sample ! 0 \<in> set pruned_sample" "pruned_sample ! 1 \<in> set pruned_sample"
  "sessionIdentityKey (pruned_sample ! 1) = sessionIdentityKey (pruned_sample ! 0)"
  by code_simp+

theorem prune_keeps_conversations_witness:
  "map ss_id pruned_rest = [''s2''] \<and> activityScore (pruned_sample ! 0) \<le> activityScore (pruned_sample ! 1)
    \<and> \<not> expired 10000000000000 1000 (pruned_sample ! 1)"
proof -
  from prune_keeps_conversations[OF pruned_sample_facts(2) pruned_rest_def] pruned_sample_facts(4) obtain c
    where c: "\<forall>y \<in> set pruned_sample. sessionIdentityKey y = sessionIdentityKey (pruned_sample ! 0) \<longrightarrow> activityScore y \<le> activityScore c
      \<and> (y \<in> set pruned_rest \<longleftrightarrow> y = c \<and> \<not> expired 10000000000000 1000 c)" by blast
  then have "pruned_sample ! 1 = c" "\<not> expired 10000000000000 1000 c" using pruned_sample_facts(3,5,6) by blast+
  then show ?thesis using c pruned_sample_facts(1,4) by blast
qed

section \<open>The grace period of an orphaned session\<close>

definition app_missing :: "string list \<Rightarrow> ai_session \<Rightarrow> bool" where
  "app_missing ids s = (truthy (ss_appSessionId s) \<and> str_of (ss_appSessionId s) \<notin> set ids)"

definition orphaned_since :: "orphans \<Rightarrow> int \<Rightarrow> ai_session \<Rightarrow> int" where
  "orphaned_since m now s = (case jmap_get m (ss_id s) of Some t \<Rightarrow> t | None \<Rightarrow> now)"

definition app_removed :: "string list \<Rightarrow> int \<Rightarrow> int \<Rightarrow> orphans \<Rightarrow> ai_session \<Rightarrow> bool" where
  "app_removed ids now retention m s =
     (ss_creationSource s = FromAppSession \<and> \<not> truthy (ss_appSessionId s)
      \<or> app_missing ids s \<and> now - orphaned_since m now s \<ge> retention)"

lemma clear_orphan_simps [simp]:
  "ra_orphans (clear_orphan n acc) = jmap_delete n (ra_orphans acc)"
  "ra_remove (clear_orphan n acc) = ra_remove acc" "ra_hidden (clear_orphan n acc) = ra_hidden acc"
  by (simp_all add: clear_orphan_def recordOrphanClear_def Let_def)

lemma app_step_effect:
  assumes "jmap_ok (ra_orphans acc)"
  shows "ra_hidden (reconcile_app_step ids now ret acc s) = ra_hidden acc @ (if app_missing ids s then [ss_id s] else [])"
    and "ra_remove (reconcile_app_step ids now ret acc s) = ra_remove acc @ (if app_removed ids now ret (ra_orphans acc) s then [ss_id s] else [])"
    and "jmap_ok (ra_orphans (reconcile_app_step ids now ret acc s))"
    and "jmap_get (ra_orphans (reconcile_app_step ids now ret acc s)) n =
      (if n = ss_id s then if app_missing ids s \<and> \<not> app_removed ids now ret (ra_orphans acc) s
         then Some (orphaned_since (ra_orphans acc) now s) else None
       else jmap_get (ra_orphans acc) n)"
  using assms
  by (auto simp: reconcile_app_step_def app_missing_def app_removed_def orphaned_since_def Let_def jm.ok_put jm.ok_del
      jm.get_put jm.get_del split: option.splits)

lemma app_fold_effect:
  assumes "jmap_ok (ra_orphans acc)" and "distinct (map ss_id xs)"
  shows "ra_hidden (foldl (reconcile_app_step ids now ret) acc xs) = ra_hidden acc @ map ss_id (filter (app_missing ids) xs)
    \<and> ra_remove (foldl (reconcile_app_step ids now ret) acc xs) = ra_remove acc @ map ss_id (filter (app_removed ids now ret (ra_orphans acc)) xs)
    \<and> jmap_ok (ra_orphans (foldl (reconcile_app_step ids now ret) acc xs))
    \<and> (\<forall>s \<in> set xs. jmap_get (ra_orphans (foldl (reconcile_app_step ids now ret) acc xs)) (ss_id s) =
        (if app_missing ids s \<and> \<not> app_removed ids now ret (ra_orphans acc) s then Some (orphaned_since (ra_orphans acc) now s) else None))
    \<and> (\<forall>n. n \<notin> set (map ss_id xs) \<longrightarrow> jmap_get (ra_orphans (foldl (reconcile_app_step ids now ret) acc xs)) n = jmap_get (ra_orphans acc) n)"
  using assms
proof (induction xs arbitrary: acc)
  case (Cons x xs)
  let ?a = "reconcile_app_step ids now ret acc x"
  note e = app_step_effect[OF Cons.prems(1), of ids now ret x]
  have same: "jmap_get (ra_orphans ?a) (ss_id s) = jmap_get (ra_orphans acc) (ss_id s)" if "s \<in> set xs" for s
  proof -
    have "ss_id s \<noteq> ss_id x" using Cons.prems(2) imageI[OF that, of ss_id] by auto
    then show ?thesis by (simp add: e(4))
  qed
  have p: "app_removed ids now ret (ra_orphans ?a) s = app_removed ids now ret (ra_orphans acc) s
      \<and> orphaned_since (ra_orphans ?a) now s = orphaned_since (ra_orphans acc) now s" if "s \<in> set xs" for s
    using same[OF that] by (simp add: app_removed_def orphaned_since_def)
  have f: "filter (app_removed ids now ret (ra_orphans ?a)) xs = filter (app_removed ids now ret (ra_orphans acc)) xs"
    using p by (intro filter_cong) auto
  have x: "ss_id x \<notin> set (map ss_id xs)" using Cons.prems(2) by simp
  have "distinct (map ss_id xs)" using Cons.prems(2) by simp
  from Cons.IH[OF e(3) this] show ?case
    using p x by (auto simp: f e(1,2) e(4)[of "ss_id x"] e(4))
qed simp

text \<open>
  A session whose app disappears is hidden at once but kept for a grace period. One
  reconciliation hides exactly the sessions whose app session is not running, and removes, besides the app
  sessions that never had one, exactly those first seen without it at least the retention period
  ago; a session that is missing its app for the first time is only marked with the current time; and as soon
  as its app is back, the mark is gone and the period starts anew.
\<close>

theorem orphans_have_grace_period:
  assumes "distinct (map ss_id xs)" and "jmap_ok m"
    and "reconcileAppSessionBindings xs apps now retention m = (r, m')"
  shows "rr_hidden r = map ss_id (filter (app_missing (activeAppSessionIds apps)) xs)
    \<and> rr_remove r = map ss_id (filter (app_removed (activeAppSessionIds apps) now retention m) xs)
    \<and> (\<forall>s \<in> set xs. jmap_get m' (ss_id s) =
         (if app_missing (activeAppSessionIds apps) s \<and> ss_id s \<notin> set (rr_remove r)
          then Some (orphaned_since m now s) else None))
    \<and> (\<forall>s \<in> set xs. 0 < retention \<and> truthy (ss_appSessionId s) \<and> jmap_get m (ss_id s) = None \<longrightarrow> ss_id s \<notin> set (rr_remove r))
    \<and> set (rr_visible r) \<subseteq> set (map ss_id xs) - set (rr_hidden r) - set (rr_remove r)"
proof -
  let ?ids = "activeAppSessionIds apps"
  define acc where "acc = foldl (reconcile_app_step ?ids now retention)
    \<lparr>ra_orphans = m, ra_changes = [], ra_remove = [], ra_hidden = []\<rparr> xs"
  have m': "m' = ra_orphans acc" and h: "rr_hidden r = ra_hidden acc" and rm: "rr_remove r = ra_remove acc"
    and v: "rr_visible r = map ss_id (canonicalAiSessions (filter (\<lambda>s. ss_id s \<notin> set (ra_hidden acc @ ra_remove acc)) xs))"
    using assms(3) by (auto simp: reconcileAppSessionBindings_def Let_def acc_def)
  note f = app_fold_effect[of "\<lparr>ra_orphans = m, ra_changes = [], ra_remove = [], ra_hidden = []\<rparr>" xs ?ids now retention,
      folded acc_def, simplified, OF assms(2,1)]
  have mem: "ss_id s \<in> set (rr_remove r) \<longleftrightarrow> app_removed ?ids now retention m s" if "s \<in> set xs" for s
    using that assms(1) f by (auto simp: rm distinct_map inj_on_def)
  have "ss_id s \<notin> set (rr_remove r)"
    if "s \<in> set xs" "0 < retention" "truthy (ss_appSessionId s)" "jmap_get m (ss_id s) = None" for s
    using that mem[OF that(1)] by (simp add: app_removed_def orphaned_since_def)
  moreover have "set (rr_visible r) \<subseteq> set (map ss_id xs) - set (rr_hidden r) - set (rr_remove r)"
    using canonical_facts(1)[where xs = "filter (\<lambda>s. ss_id s \<notin> set (ra_hidden acc @ ra_remove acc)) xs"] by (auto simp: v h rm)
  ultimately show ?thesis using f mem by (simp add: m' h rm)
qed

definition app_demo :: ai_session where
  "app_demo = demo_session\<lparr>ss_appSessionId := Some ''app1''\<rparr>"

theorem orphans_have_grace_period_witness:
  "rr_hidden (fst (reconcileAppSessionBindings [app_demo] [] 5 1000 [])) = [''s1'']
   \<and> rr_remove (fst (reconcileAppSessionBindings [app_demo] [] 5 1000 [])) = []
   \<and> rr_remove (fst (reconcileAppSessionBindings [app_demo] [] 1005 1000 [(''s1'', 5)])) = [''s1'']"
proof -
  have a: "ss_id app_demo = ''s1''" "truthy (ss_appSessionId app_demo)" "ss_creationSource app_demo = FromAiSession"
    by (simp_all add: app_demo_def demo_session_def)
  have ids: "activeAppSessionIds [] = []" by (simp add: activeAppSessionIds_def)
  show ?thesis
    using orphans_have_grace_period[OF _ _ surjective_pairing, of "[app_demo]" "[]" "[]" 5 1000]
      orphans_have_grace_period[OF _ _ surjective_pairing, of "[app_demo]" "[(''s1'', 5)]" "[]" 1005 1000] a
    by (simp add: ids app_missing_def app_removed_def orphaned_since_def jmap_get_def)
qed

end
