(* ===== verification/Session_Registry.thy ===== *)
theory Session_Registry
  imports Session_Reducer Session_Reconcile
begin

text \<open>
  The registry of AI sessions (class \<^verbatim>\<open>AiSessionRegistry\<close> in
  \<^verbatim>\<open>packages/ai-session-runtime/src/ai-session-registry.ts\<close>): it reads the current session from the
  store, computes the next one with the reducer, the queue service or the reconciliation service,
  commits it and tells its listeners. This is the registry without a store of conversation
  attachments (the option \<^verbatim>\<open>conversationAttachments\<close> left out) and without diagnostics. An operation
  returns its result or the error it throws, together with the registry it leaves behind.
\<close>

record registry =
  rg_store :: session_store
  rg_orphans :: orphans
  rg_payloads :: payload_map
  rg_changes :: "string list"
  rg_batchDepth :: nat
  rg_pending :: "string option"

text \<open>
  The parameters of one call: the reducer's, the clock as text and as a number, 20 characters of a
  random identifier, and the retention periods of the registry.
\<close>

record registry_env =
  re_reducer :: reducer_env
  re_now :: string
  re_nowMs :: int
  re_uuid :: string
  re_retentionMs :: int
  re_orphanRetentionMs :: int

type_synonym 'a registry_result = "(store_error + 'a) \<times> registry"

section \<open>Change events\<close>

definition emitChange :: "string \<Rightarrow> registry \<Rightarrow> registry" where
  "emitChange reason rg =
     (if rg_batchDepth rg > 0 then rg\<lparr>rg_pending := js_or (rg_pending rg) (Some reason)\<rparr>
      else rg\<lparr>rg_changes := rg_changes rg @ [reason]\<rparr>)"

text \<open>\<^verbatim>\<open>batchChanges(run)\<close>: what happens before and after \<^verbatim>\<open>run\<close>, which may return or throw.\<close>

definition batch_begin :: "registry \<Rightarrow> registry" where
  "batch_begin rg = rg\<lparr>rg_batchDepth := rg_batchDepth rg + 1\<rparr>"

definition batch_end :: "registry \<Rightarrow> registry" where
  "batch_end rg =
     (let rg = rg\<lparr>rg_batchDepth := rg_batchDepth rg - 1\<rparr> in
      if rg_batchDepth rg = 0 \<and> truthy (rg_pending rg)
      then rg\<lparr>rg_pending := None, rg_changes := rg_changes rg @ [str_of (rg_pending rg)]\<rparr> else rg)"

section \<open>Committing a session\<close>

definition registry_get :: "registry \<Rightarrow> string \<Rightarrow> ai_session option" where
  "registry_get rg sid = store_get (rg_store rg) sid"

definition registry_put :: "registry_env \<Rightarrow> ai_session \<Rightarrow> registry \<Rightarrow> ai_session registry_result" where
  "registry_put env session rg =
     (case registry_get rg (ss_id session) of
        Some current \<Rightarrow> if sameAiSessionBusinessState current session then (Inr current, rg)
          else (case store_save (ev_sha1 (re_reducer env)) (ev_collate (re_reducer env)) session (rg_store rg) of
              Inl e \<Rightarrow> (Inl e, rg)
            | Inr (committed, st) \<Rightarrow> (Inr committed, emitChange ''write'' (rg\<lparr>rg_store := st\<rparr>)))
      | None \<Rightarrow> (case store_save (ev_sha1 (re_reducer env)) (ev_collate (re_reducer env)) session (rg_store rg) of
              Inl e \<Rightarrow> (Inl e, rg)
            | Inr (committed, st) \<Rightarrow> (Inr committed, emitChange ''write'' (rg\<lparr>rg_store := st\<rparr>))))"

definition put_some :: "registry_env \<Rightarrow> ai_session option \<Rightarrow> registry \<Rightarrow> ai_session option registry_result" where
  "put_some env session rg =
     (case session of
        None \<Rightarrow> (Inr None, rg)
      | Some s \<Rightarrow> (case registry_put env s rg of (Inl e, rg') \<Rightarrow> (Inl e, rg') | (Inr c, rg') \<Rightarrow> (Inr (Some c), rg')))"

definition removeStoredSession :: "string \<Rightarrow> registry \<Rightarrow> bool registry_result" where
  "removeStoredSession sid rg =
     (case store_remove sid (rg_store rg) of
        Inl e \<Rightarrow> (Inl e, rg)
      | Inr (removed, st) \<Rightarrow>
          let rg = rg\<lparr>rg_store := st, rg_orphans := forgetSession sid (rg_orphans rg)\<rparr>
          in (Inr removed, if removed then emitChange ''delete'' rg else rg))"

fun remove_sessions :: "string list \<Rightarrow> nat \<Rightarrow> registry \<Rightarrow> nat registry_result" where
  "remove_sessions [] deleted rg = (Inr deleted, rg)"
| "remove_sessions (sid # ids) deleted rg =
     (case removeStoredSession sid rg of
        (Inl e, rg') \<Rightarrow> (Inl e, rg')
      | (Inr removed, rg') \<Rightarrow> remove_sessions ids (deleted + of_bool removed) rg')"

section \<open>New sessions\<close>

record start_input =
  si_agent :: string
  si_creationSource :: "creation_source option"
  si_appSessionId :: "string option"
  si_appId :: "string option"
  si_providerSessionId :: "string option"
  si_lineage :: "lineage option"
  si_modelSelection :: "model_selection option"
  si_reasoningEffort :: "reasoning_effort option"
  si_storyId :: "string option"
  si_title :: "string option"
  si_cwd :: "string option"
  si_cwdFolderId :: "string option"
  si_userPrompt :: "string option"
  si_turns :: "ai_turn list option"
  si_status :: "lifecycle option"
  si_phase :: "phase option"
  si_summary :: "string option"

definition initialSession :: "registry_env \<Rightarrow> start_input \<Rightarrow> turn_meta option \<Rightarrow> string option \<Rightarrow> bool \<Rightarrow> ai_session" where
  "initialSession env input optMeta optTimestamp suppressPromptTurn =
     (let timestamp = str_of (js_or optTimestamp (Some (re_now env)));
          meta = (case optMeta of Some m \<Rightarrow> m | None \<Rightarrow> turnMeta (Some Control) None None None (Some timestamp))
      in \<lparr>ss_id = ''ais_'' @ re_uuid env,
          ss_agent = compact (str_of (js_or (Some (si_agent input)) (Some ''unknown''))) 80,
          ss_creationSource = or_else (si_creationSource input) FromAppSession,
          ss_appSessionId = limit_text 120 (si_appSessionId input),
          ss_appId = limit_text 120 (si_appId input),
          ss_providerSessionId = limit_text 240 (si_providerSessionId input),
          ss_lineage = si_lineage input, ss_providerMeta = None, ss_modelSelection = si_modelSelection input,
          ss_reasoningEffort = si_reasoningEffort input, ss_storyId = si_storyId input, ss_appBindingKeys = None,
          ss_actions = None, ss_activeTurnId = None,
          ss_title = limit_text 240 (si_title input), ss_cwd = limit_text 4096 (si_cwd input),
          ss_cwdFolderId = limit_text 120 (si_cwdFolderId input),
          ss_userPrompt = text_norm messageText (si_userPrompt input),
          ss_turns = Some (updateTurns (ev_sha1 (re_reducer env)) (ev_turnId (re_reducer env)) None
            (no_patch\<lparr>tp_userPrompt := (if suppressPromptTurn then None else si_userPrompt input),
               tp_turns := si_turns input, tp_status := si_status input\<rparr>) timestamp meta),
          ss_status = or_else (si_status input) Idle, ss_phase = or_else (si_phase input) UnknownPhase,
          ss_summary = limit_text 1000 (si_summary input), ss_lastMessage = None, ss_lastMessageItemId = None,
          ss_currentTool = None, ss_toolCallsSinceLastMessage = Some 0, ss_subAgents = [],
          ss_transcriptPath = None, ss_transcriptSize = None, ss_startedAt = timestamp, ss_updatedAt = timestamp,
          ss_completedAt = None, ss_error = None, ss_counters = \<lparr>ct_toolCalls = 0, ct_edits = 0, ct_approvals = 0\<rparr>,
          ss_queue = emptyAiSessionQueue, ss_unread = False\<rparr>)"

definition registry_start :: "registry_env \<Rightarrow> start_input \<Rightarrow> registry \<Rightarrow> ai_session registry_result" where
  "registry_start env input rg = registry_put env (initialSession env input None None False) rg"

record history_item =
  hi_id :: string
  hi_agent :: string
  hi_creationSource :: creation_source
  hi_providerSessionId :: string
  hi_lineage :: "lineage option"
  hi_modelSelection :: "model_selection option"
  hi_reasoningEffort :: "reasoning_effort option"
  hi_storyId :: "string option"
  hi_title :: "string option"
  hi_userPrompt :: "string option"
  hi_lastMessage :: "string option"
  hi_cwd :: string
  hi_cwdFolderId :: "string option"
  hi_lastActiveAt :: string

definition restored_session :: "registry_env \<Rightarrow> history_item \<Rightarrow> ai_session option \<Rightarrow> ai_session" where
  "restored_session env item current =
     \<lparr>ss_id = hi_id item, ss_agent = hi_agent item, ss_creationSource = hi_creationSource item, ss_appSessionId = None,
      ss_appId = Some (hi_agent item), ss_providerSessionId = Some (hi_providerSessionId item), ss_lineage = hi_lineage item,
      ss_providerMeta = None, ss_modelSelection = hi_modelSelection item, ss_reasoningEffort = hi_reasoningEffort item,
      ss_storyId = hi_storyId item, ss_appBindingKeys = None, ss_actions = None, ss_activeTurnId = None,
      ss_title = hi_title item, ss_cwd = Some (hi_cwd item), ss_cwdFolderId = hi_cwdFolderId item,
      ss_userPrompt = hi_userPrompt item, ss_turns = Some (opt_list (Option.bind current ss_turns)),
      ss_status = Idle, ss_phase = UnknownPhase, ss_summary = None, ss_lastMessage = hi_lastMessage item,
      ss_lastMessageItemId = None, ss_currentTool = None, ss_toolCallsSinceLastMessage = Some 0, ss_subAgents = [],
      ss_transcriptPath = None, ss_transcriptSize = None,
      ss_startedAt = (case current of Some c \<Rightarrow> if ss_startedAt c \<noteq> [] then ss_startedAt c else hi_lastActiveAt item
        | None \<Rightarrow> hi_lastActiveAt item),
      ss_updatedAt = re_now env, ss_completedAt = None, ss_error = None,
      ss_counters = (case current of Some c \<Rightarrow> ss_counters c | None \<Rightarrow> \<lparr>ct_toolCalls = 0, ct_edits = 0, ct_approvals = 0\<rparr>),
      ss_queue = (case current of Some c \<Rightarrow> ss_queue c | None \<Rightarrow> emptyAiSessionQueue),
      ss_unread = (case current of Some c \<Rightarrow> ss_unread c | None \<Rightarrow> False)\<rparr>"

definition restoreHistory :: "registry_env \<Rightarrow> history_item \<Rightarrow> registry \<Rightarrow> ai_session registry_result" where
  "restoreHistory env item rg = registry_put env (restored_session env item (registry_get rg (hi_id item))) rg"

section \<open>Updates and queue operations\<close>

definition registry_update :: "registry_env \<Rightarrow> string \<Rightarrow> session_patch \<Rightarrow> bool \<Rightarrow> registry \<Rightarrow> ai_session option registry_result" where
  "registry_update env sid patch preserveUpdatedAt rg =
     put_some env (map_option (\<lambda>current. applyAiSessionPatch (re_reducer env) current patch
       ((patch_opts (if preserveUpdatedAt then ss_updatedAt current else re_now env) no_meta)
         \<lparr>po_preserveUpdatedAt := preserveUpdatedAt\<rparr>)) (registry_get rg sid)) rg"

definition markRead :: "registry_env \<Rightarrow> string \<Rightarrow> registry \<Rightarrow> ai_session option registry_result" where
  "markRead env sid rg = registry_update env sid (empty_patch\<lparr>pt_unread := Some False\<rparr>) True rg"

definition bindProviderSession :: "registry_env \<Rightarrow> (string \<Rightarrow> string option \<Rightarrow> string option \<Rightarrow> string option) \<Rightarrow> string \<Rightarrow> string \<Rightarrow> registry
    \<Rightarrow> ai_session option registry_result" where
  "bindProviderSession env resolveAiSessionTranscript sid providerSessionId rg =
     (let current = registry_get rg sid;
          transcriptPath = Option.bind current (\<lambda>c. resolveAiSessionTranscript (ss_agent c) (Some providerSessionId) (ss_cwd c));
          agent = (case current of Some c \<Rightarrow> if ss_agent c \<noteq> [] then ss_agent c else ''AI'' | None \<Rightarrow> ''AI'')
      in registry_update env sid (empty_patch\<lparr>pt_providerSessionId := Put (Some providerSessionId),
           pt_transcriptPath := Put transcriptPath, pt_status := Some Running, pt_phase := Some Thinking,
           pt_summary := Some (agent @ '' session '' @ providerSessionId @ '' started'')\<rparr>) False rg)"

text \<open>
  The queue operations: the session the service computes is committed when there is one, and the
  answer carries what was committed. The payloads the service keeps have changed before a commit
  may throw.
\<close>

definition registry_enqueueMessage :: "registry_env \<Rightarrow> string \<Rightarrow> string \<Rightarrow> string \<Rightarrow> message_attachment list \<Rightarrow> ai_reference list
    \<Rightarrow> permission_mode option \<Rightarrow> string option \<Rightarrow> registry \<Rightarrow> (ai_session \<times> queued_message) option registry_result" where
  "registry_enqueueMessage env queueId sid message attachments references permissionMode messageId rg =
     (case registry_get rg sid of
        None \<Rightarrow> (Inr None, rg)
      | Some current \<Rightarrow> (case enqueueMessage (re_now env) queueId current message attachments references permissionMode messageId (rg_payloads rg) of
          (None, payloads) \<Rightarrow> (Inr None, rg\<lparr>rg_payloads := payloads\<rparr>)
        | (Some (session, item), payloads) \<Rightarrow> (case registry_put env session (rg\<lparr>rg_payloads := payloads\<rparr>) of
            (Inl e, rg') \<Rightarrow> (Inl e, rg')
          | (Inr committed, rg') \<Rightarrow> (Inr (Some (committed, item)), rg'))))"

definition registry_queuedMessages :: "registry \<Rightarrow> string \<Rightarrow> message_queue" where
  "registry_queuedMessages rg sid = queuedMessages (registry_get rg sid)"

definition registry_nextQueuedMessage :: "registry \<Rightarrow> string \<Rightarrow> queued_message option" where
  "registry_nextQueuedMessage rg sid = nextQueuedMessage (registry_get rg sid)"

definition registry_markQueuedMessageSending :: "registry_env \<Rightarrow> string \<Rightarrow> string \<Rightarrow> registry \<Rightarrow> ai_session option registry_result" where
  "registry_markQueuedMessageSending env sid queueId rg =
     put_some env (Option.bind (registry_get rg sid) (\<lambda>current. markQueuedMessageSending (re_now env) current queueId)) rg"

definition registry_markQueuedMessageFailed :: "registry_env \<Rightarrow> string \<Rightarrow> string \<Rightarrow> string \<Rightarrow> registry \<Rightarrow> ai_session option registry_result" where
  "registry_markQueuedMessageFailed env sid queueId error rg =
     put_some env (Option.bind (registry_get rg sid) (\<lambda>current. markQueuedMessageFailed (re_now env) current queueId error)) rg"

definition registry_retryQueuedMessage :: "registry_env \<Rightarrow> string \<Rightarrow> string \<Rightarrow> registry \<Rightarrow> ai_session option registry_result" where
  "registry_retryQueuedMessage env sid queueId rg =
     put_some env (Option.bind (registry_get rg sid) (\<lambda>current. retryQueuedMessage (re_now env) current queueId)) rg"

definition registry_removeQueuedMessage :: "registry_env \<Rightarrow> string \<Rightarrow> string \<Rightarrow> registry \<Rightarrow> ai_session option registry_result" where
  "registry_removeQueuedMessage env sid queueId rg =
     (case registry_get rg sid of
        None \<Rightarrow> (Inr None, rg)
      | Some current \<Rightarrow> (case removeQueuedMessage (re_now env) current queueId (rg_payloads rg) of
          (updated, payloads) \<Rightarrow> put_some env updated (rg\<lparr>rg_payloads := payloads\<rparr>)))"

definition registry_editQueuedMessage :: "registry_env \<Rightarrow> string \<Rightarrow> string \<Rightarrow> int \<Rightarrow> string \<Rightarrow> attachment_update option \<Rightarrow> registry
    \<Rightarrow> edit_result option registry_result" where
  "registry_editQueuedMessage env sid queueId expectedRevision message attachmentUpdate rg =
     (case registry_get rg sid of
        None \<Rightarrow> (Inr None, rg)
      | Some current \<Rightarrow> (case editQueuedMessage (re_now env) current queueId expectedRevision message attachmentUpdate (rg_payloads rg) of
          (EditUpdated session, payloads) \<Rightarrow> (case registry_put env session (rg\<lparr>rg_payloads := payloads\<rparr>) of
            (Inl e, rg') \<Rightarrow> (Inl e, rg')
          | (Inr committed, rg') \<Rightarrow> (Inr (Some (EditUpdated committed)), rg'))
        | (result, payloads) \<Rightarrow> (Inr (Some result), rg\<lparr>rg_payloads := payloads\<rparr>)))"

definition registry_reorderQueuedMessages :: "registry_env \<Rightarrow> string \<Rightarrow> int \<Rightarrow> string list \<Rightarrow> registry
    \<Rightarrow> reorder_result option registry_result" where
  "registry_reorderQueuedMessages env sid expectedRevision queueIds rg =
     (case registry_get rg sid of
        None \<Rightarrow> (Inr None, rg)
      | Some current \<Rightarrow> (case reorderQueuedMessages (re_now env) current expectedRevision queueIds of
          ReorderUpdated session \<Rightarrow> (case registry_put env session rg of
            (Inl e, rg') \<Rightarrow> (Inl e, rg')
          | (Inr committed, rg') \<Rightarrow> (Inr (Some (ReorderUpdated committed)), rg'))
        | result \<Rightarrow> (Inr (Some result), rg)))"

definition registry_setQueuePaused :: "registry_env \<Rightarrow> string \<Rightarrow> bool \<Rightarrow> registry \<Rightarrow> ai_session option registry_result" where
  "registry_setQueuePaused env sid paused rg =
     (case registry_get rg sid of
        None \<Rightarrow> (Inr None, rg)
      | Some current \<Rightarrow> (let updated = setQueuePaused (re_now env) current paused
          in if updated = current then (Inr (Some current), rg) else put_some env (Some updated) rg))"

section \<open>Events and snapshots\<close>

definition observed :: "registry_env \<Rightarrow> string option \<Rightarrow> string option" where
  "observed env observedAt = js_or observedAt (Some (re_now env))"

definition apply_realtime :: "registry_env \<Rightarrow> string \<Rightarrow> realtime_input \<Rightarrow> registry \<Rightarrow> ai_session option registry_result" where
  "apply_realtime env sid event0 rg =
     (let event = event0\<lparr>rt_observedAt := observed env (rt_observedAt event0),
            rt_sourcePriority := Some (sourcePriority (Some (rt_source event0)) (rt_sourcePriority event0))\<rparr>
      in case registry_get rg sid of
          None \<Rightarrow> (Inr None, rg)
        | Some current \<Rightarrow> (case reduceAiSessionRealtime (re_reducer env) current event of
            None \<Rightarrow> (Inr None, rg)
          | Some updated \<Rightarrow> if updated = current then (Inr (Some current), rg) else put_some env (Some updated) rg))"

definition readSessions :: "registry \<Rightarrow> ai_session list" where
  "readSessions rg = js_sort newer_first (store_list (rg_store rg))"

definition select_better :: "ai_session list \<Rightarrow> ai_session option" where
  "select_better sessions = (case sessions of [] \<Rightarrow> None | s # rest \<Rightarrow> Some (foldl betterCanonicalSession s rest))"

definition getByProviderSessionId :: "registry \<Rightarrow> string \<Rightarrow> string \<Rightarrow> ai_session option" where
  "getByProviderSessionId rg agent providerSessionId =
     findByProviderSession select_better (rg_store rg) (compact agent 80) (compact providerSessionId 240)"

definition findTranscriptSession :: "registry \<Rightarrow> string \<Rightarrow> string option \<Rightarrow> ai_session option" where
  "findTranscriptSession rg transcriptPath providerSessionId =
     List.find (\<lambda>s. ss_transcriptPath s = Some transcriptPath
       \<or> truthy providerSessionId \<and> ss_providerSessionId s = providerSessionId) (readSessions rg)"

definition snapshot_target :: "registry \<Rightarrow> snapshot_input \<Rightarrow> ai_session option" where
  "snapshot_target rg input =
     js_nullish (if truthy (sn_providerSessionId input)
         then getByProviderSessionId rg (sn_agent input) (str_of (sn_providerSessionId input)) else None)
       (List.find (\<lambda>s. truthy (sn_appSessionId input) \<and> ss_appSessionId s = sn_appSessionId input
          \<or> truthy (sn_transcriptPath input) \<and> ss_transcriptPath s = sn_transcriptPath input) (readSessions rg))"

definition snapshot_new_session :: "registry_env \<Rightarrow> snapshot_input \<Rightarrow> ai_session" where
  "snapshot_new_session env input =
     (let meta = snapshot_meta input;
          noTurns = (opt_list (sn_turns input) = []);
          session = initialSession env \<lparr>si_agent = sn_agent input, si_creationSource = sn_creationSource input,
            si_appSessionId = sn_appSessionId input, si_appId = sn_appId input,
            si_providerSessionId = sn_providerSessionId input, si_lineage = sn_lineage input,
            si_modelSelection = sn_modelSelection input, si_reasoningEffort = sn_reasoningEffort input,
            si_storyId = sn_storyId input, si_title = sn_title input, si_cwd = sn_cwd input,
            si_cwdFolderId = sn_cwdFolderId input, si_userPrompt = sn_userPrompt input, si_turns = sn_turns input,
            si_status = Some (or_else (sn_status input) Idle), si_phase = Some (or_else (sn_phase input) UnknownPhase),
            si_summary = sn_summary input\<rparr> (Some meta) (sn_observedAt input) noTurns
      in applyAiSessionPatch (re_reducer env) session (empty_patch\<lparr>
           pt_providerMeta := Put (sn_providerMeta input), pt_modelSelection := Put (sn_modelSelection input),
           pt_reasoningEffort := Put (sn_reasoningEffort input), pt_storyId := Put (js_or (sn_storyId input) None),
           pt_lineage := Put (sn_lineage input), pt_appBindingKeys := Put (sn_appBindingKeys input),
           pt_actions := sn_actions input, pt_activeTurnId := Put (sn_activeTurnId input),
           pt_lastMessage := sn_lastMessage input, pt_lastMessageItemId := Put (sn_lastMessageItemId input),
           pt_error := sn_error input,
           pt_currentTool := Put (if sn_status input = Some Running \<or> sn_status input = Some Waiting
             then sn_currentTool input else None),
           pt_toolCallsSinceLastMessage := Put (js_nullish (sn_toolCallsSinceLastMessage input) (Some 0)),
           pt_subAgents := Some (opt_list (sn_subAgents input)), pt_transcriptPath := Put (sn_transcriptPath input),
           pt_transcriptSize := Put (sn_transcriptSize input),
           pt_status := Some (or_else (sn_status input) (ss_status session)),
           pt_phase := Some (or_else (sn_phase input) UnknownPhase)\<rparr>)
         \<lparr>po_updatedAt = sn_observedAt input, po_preserveUpdatedAt = False, po_replaceActivity = False,
          po_replaceTurns = False, po_clearResponse = False, po_clearError = False, po_suppressPromptTurn = False,
          po_suppressTurnUpdate = noTurns, po_meta = meta\<rparr>)"

definition apply_snapshot :: "registry_env \<Rightarrow> snapshot_input \<Rightarrow> registry \<Rightarrow> ai_session option registry_result" where
  "apply_snapshot env input0 rg =
     (let input = input0\<lparr>sn_observedAt := observed env (sn_observedAt input0),
            sn_sourcePriority := Some (sourcePriority (Some (sn_source input0)) (sn_sourcePriority input0))\<rparr>
      in case snapshot_target rg input of
          None \<Rightarrow> put_some env (Some (snapshot_new_session env input)) rg
        | Some existing \<Rightarrow>
            let rg = rg\<lparr>rg_orphans := clearOrphan (ss_id existing) (rg_orphans rg)\<rparr>;
                updated = reduceAiSessionSnapshot (re_reducer env) existing input
            in if updated = existing then (Inr (Some existing), rg) else put_some env (Some updated) rg)"

text \<open>The inputs the registry builds itself: an event or a snapshot that carries nothing but the named values.\<close>

definition plain_event :: "event_kind \<Rightarrow> ai_source \<Rightarrow> realtime_input" where
  "plain_event kind source = \<lparr>rt_kind = kind, rt_source = source, rt_sourcePriority = None, rt_observedAt = None,
     rt_snapshotVersion = None, rt_modelSelection = None, rt_reasoningEffort = None, rt_activeTurnId = None,
     rt_providerTurnId = None, rt_userPrompt = None, rt_userMessage = None, rt_text = None, rt_itemId = None,
     rt_status = None, rt_phase = None, rt_summary = None, rt_error = None, rt_currentTool = None,
     rt_toolCallsSinceLastMessage = None, rt_subAgents = None, rt_contextCompaction = None, rt_counters = None\<rparr>"

definition plain_snapshot :: "ai_source \<Rightarrow> string \<Rightarrow> snapshot_input" where
  "plain_snapshot source agent = \<lparr>sn_source = source, sn_sourcePriority = None, sn_observedAt = None, sn_snapshotVersion = None,
     sn_agent = agent, sn_creationSource = None, sn_appSessionId = None, sn_appId = None, sn_providerSessionId = None,
     sn_lineage = None, sn_providerMeta = None, sn_modelSelection = None, sn_reasoningEffort = None, sn_storyId = None,
     sn_appBindingKeys = None, sn_actions = None, sn_title = None, sn_cwd = None, sn_cwdFolderId = None,
     sn_activeTurnId = None, sn_userPrompt = None, sn_turns = None, sn_status = None, sn_phase = None,
     sn_summary = None, sn_lastMessage = None, sn_lastMessageItemId = None, sn_error = None, sn_currentTool = None,
     sn_toolCallsSinceLastMessage = None, sn_subAgents = None, sn_transcriptPath = None, sn_transcriptSize = None,
     sn_replaceActivity = False\<rparr>"

text \<open>
  The regular expressions of \<^verbatim>\<open>deriveProgressPatch\<close>: a lower-case pattern against a text without
  regard to case, and \<^verbatim>\<open>\b\<close> after a pattern that ends in a letter.
\<close>

definition lower_char :: "char \<Rightarrow> char" where
  "lower_char c = (let n = of_char c :: nat in if 65 \<le> n \<and> n \<le> 90 then char_of (n + 32) else c)"

definition word_char :: "char \<Rightarrow> bool" where
  "word_char c = (let n = of_char c :: nat in 48 \<le> n \<and> n \<le> 57 \<or> 65 \<le> n \<and> n \<le> 90 \<or> n = 95 \<or> 97 \<le> n \<and> n \<le> 122)"

definition starts_ci :: "string \<Rightarrow> string \<Rightarrow> bool" where
  "starts_ci pattern s = (map lower_char (take (length pattern) s) = pattern)"

definition starts_word :: "string \<Rightarrow> string \<Rightarrow> bool" where
  "starts_word pattern s = (starts_ci pattern s \<and> (case drop (length pattern) s of [] \<Rightarrow> True | c # _ \<Rightarrow> \<not> word_char c))"

definition somewhere :: "(string \<Rightarrow> bool) \<Rightarrow> string \<Rightarrow> bool" where
  "somewhere p s = list_ex (\<lambda>i. p (drop i s)) [0..<Suc (length s)]"

datatype progress_kind = UserText | AssistantText | ToolText

definition deriveProgressPatch :: "string \<Rightarrow> progress_kind option \<Rightarrow> session_patch" where
  "deriveProgressPatch text kind =
     (let summary = compact text 1000 in
      if kind = Some UserText then empty_patch\<lparr>pt_userPrompt := Some (messageText text)\<rparr>
      else if kind = Some AssistantText
      then empty_patch\<lparr>pt_status := Some Running, pt_phase := Some Responding, pt_summary := Some summary,
             pt_lastMessage := Some (messageText text)\<rparr>
      else if somewhere (starts_ci ''approval'') summary \<or> somewhere (starts_ci ''permission'') summary
            \<or> somewhere (starts_ci ''approve'') summary \<or> somewhere (starts_ci ''deny'') summary
      then empty_patch\<lparr>pt_status := Some Waiting, pt_phase := Some ApprovalPhase, pt_summary := Some summary,
             pt_counters := (None, None, Some 1)\<rparr>
      else if starts_word ''editing'' summary \<or> somewhere (starts_word ''finished editing'') summary
            \<or> somewhere (starts_ci ''edit failed'') summary
      then empty_patch\<lparr>pt_status := Some Running, pt_phase := Some Editing, pt_summary := Some summary,
             pt_counters := (None, Some 1, None)\<rparr>
      else if starts_word ''tool'' summary \<or> starts_word ''running'' summary \<or> starts_word ''finished'' summary
            \<or> starts_word ''failed'' summary
      then empty_patch\<lparr>pt_status := Some Running, pt_phase := Some ToolPhase, pt_summary := Some summary,
             pt_counters := (Some 1, None, None)\<rparr>
      else if summary \<noteq> []
      then empty_patch\<lparr>pt_status := Some Running, pt_phase := Some Responding, pt_summary := Some summary,
             pt_lastMessage := Some (messageText text)\<rparr>
      else empty_patch)"

definition progress :: "registry_env \<Rightarrow> string \<Rightarrow> string \<Rightarrow> progress_kind option \<Rightarrow> registry \<Rightarrow> ai_session option registry_result" where
  "progress env sid text kind rg =
     (if kind = Some UserText
      then apply_realtime env sid ((plain_event UserMessage Realtime)\<lparr>rt_userPrompt := Some text\<rparr>) rg
      else if kind = Some AssistantText
      then apply_realtime env sid ((plain_event AssistantMessage Realtime)\<lparr>rt_text := Some text\<rparr>) rg
      else let patch = deriveProgressPatch text kind in
        apply_realtime env sid ((plain_event (if pt_status patch = Some Waiting then ApprovalRequested else AssistantMessage) Realtime)
          \<lparr>rt_text := js_or (pt_summary patch) (Some text), rt_status := pt_status patch, rt_phase := pt_phase patch,
           rt_counters := (if pt_counters patch = (None, None, None) then None else Some (pt_counters patch))\<rparr>) rg)"

definition complete_session :: "registry_env \<Rightarrow> string \<Rightarrow> string option \<Rightarrow> registry \<Rightarrow> ai_session option registry_result" where
  "complete_session env sid output rg =
     apply_realtime env sid ((plain_event TurnCompleted Control)\<lparr>rt_status := Some Idle, rt_phase := Some Responding,
       rt_text := Some (if truthy output then messageText (str_of output) else ''Completed'')\<rparr>) rg"

definition fail_session :: "registry_env \<Rightarrow> string \<Rightarrow> string \<Rightarrow> registry \<Rightarrow> ai_session option registry_result" where
  "fail_session env sid message rg =
     apply_realtime env sid ((plain_event TurnCompleted Control)\<lparr>rt_status := Some Failed, rt_phase := Some UnknownPhase,
       rt_text := Some (''Failed: '' @ message)\<rparr>) rg"

definition attachTranscript :: "registry_env \<Rightarrow> (string \<Rightarrow> string option \<Rightarrow> string option \<Rightarrow> string option) \<Rightarrow> string \<Rightarrow> string option
    \<Rightarrow> registry \<Rightarrow> ai_session option registry_result" where
  "attachTranscript env resolveAiSessionTranscript sid transcriptPath rg =
     (let current = registry_get rg sid;
          path = (if truthy transcriptPath then transcriptPath
            else Option.bind current (\<lambda>c. resolveAiSessionTranscript (ss_agent c) (ss_providerSessionId c) (ss_cwd c)))
      in case current of
          Some c \<Rightarrow> if truthy path
            then apply_snapshot env ((plain_snapshot TranscriptScan (ss_agent c))\<lparr>sn_appId := ss_appId c,
                   sn_appSessionId := ss_appSessionId c, sn_providerSessionId := ss_providerSessionId c, sn_cwd := ss_cwd c,
                   sn_transcriptPath := path, sn_status := Some (ss_status c), sn_phase := Some (ss_phase c)\<rparr>) rg
            else (Inr (Some c), rg)
        | None \<Rightarrow> (Inr None, rg))"

section \<open>Reconciliation\<close>

definition registry_list :: "registry \<Rightarrow> ai_session list" where
  "registry_list rg =
     (let sessions = readSessions rg;
          byId = foldl (\<lambda>m s. jmap_set (ss_id s) s m) [] sessions
      in List.map_filter (jmap_get byId) (fst (visibility (rg_orphans rg) sessions)))"

definition registry_reconcileApps :: "registry_env \<Rightarrow> app_presence list \<Rightarrow> registry \<Rightarrow> (nat \<times> nat) registry_result" where
  "registry_reconcileApps env appSessions rg =
     (let (result, orphaned) = reconcileAppSessionBindings (readSessions rg) appSessions (re_nowMs env)
            (re_orphanRetentionMs env) (rg_orphans rg)
      in case remove_sessions (rr_remove result) 0 (rg\<lparr>rg_orphans := orphaned\<rparr>) of
          (Inl e, rg') \<Rightarrow> (Inl e, rg')
        | (Inr deleted, rg') \<Rightarrow> (Inr (length (rr_hidden result), deleted), rg'))"

definition registry_reconcileAdapter :: "string \<Rightarrow> string list \<Rightarrow> string list \<Rightarrow> string list \<Rightarrow> registry \<Rightarrow> nat registry_result" where
  "registry_reconcileAdapter agent appSessionIds providerSessionIds providerShorts rg =
     (let (result, orphaned) = reconcileAdapterSessions (readSessions rg) agent appSessionIds providerSessionIds
            providerShorts (rg_orphans rg)
      in remove_sessions (rr_remove result) 0 (rg\<lparr>rg_orphans := orphaned\<rparr>))"

definition registry_prune :: "registry_env \<Rightarrow> registry \<Rightarrow> nat registry_result" where
  "registry_prune env rg = remove_sessions (pr_remove (prune (readSessions rg) (re_nowMs env) (re_retentionMs env))) 0 rg"

definition boundSessions :: "app_presence list \<Rightarrow> registry \<Rightarrow> ai_session list" where
  "boundSessions appSessions rg =
     filter (\<lambda>s. if truthy (ss_appSessionId s) then str_of (ss_appSessionId s) \<in> set (activeAppSessionIds appSessions)
        else ss_creationSource s = FromAiSession \<and> truthy (ss_providerSessionId s)) (registry_list rg)"

record active_process =
  ap_agent :: string
  ap_providerSessionId :: "string option"
  ap_transcriptPath :: "string option"
  ap_cwd :: "string option"

definition process_snapshot :: "active_process \<Rightarrow> ai_session \<Rightarrow> snapshot_input" where
  "process_snapshot process session = (plain_snapshot ProcessScan (ss_agent session))\<lparr>sn_appId := ss_appId session,
     sn_appSessionId := ss_appSessionId session,
     sn_providerSessionId := js_or (ap_providerSessionId process) (ss_providerSessionId session),
     sn_cwd := js_or (ap_cwd process) (ss_cwd session), sn_title := ss_title session,
     sn_userPrompt := ss_userPrompt session, sn_turns := ss_turns session, sn_summary := ss_summary session,
     sn_lastMessage := ss_lastMessage session, sn_lastMessageItemId := ss_lastMessageItemId session,
     sn_status := Some Running, sn_phase := Some (if ss_phase session = UnknownPhase then Thinking else ss_phase session),
     sn_transcriptPath := js_or (ap_transcriptPath process) (ss_transcriptPath session)\<rparr>"

text \<open>The loop over the running processes, each with the clock of its turn; an error ends it.\<close>

fun reconcileActiveProcesses :: "(registry_env \<times> active_process) list \<Rightarrow> string list \<Rightarrow> registry \<Rightarrow> string list registry_result" where
  "reconcileActiveProcesses [] matched rg = (Inr matched, rg)"
| "reconcileActiveProcesses ((env, process) # processes) matched rg =
     (case List.find (\<lambda>entry. ss_agent entry = ap_agent process
          \<and> (truthy (ap_providerSessionId process) \<and> ss_providerSessionId entry = ap_providerSessionId process
             \<or> truthy (ap_transcriptPath process) \<and> ss_transcriptPath entry = ap_transcriptPath process)) (registry_list rg) of
        None \<Rightarrow> reconcileActiveProcesses processes matched rg
      | Some session \<Rightarrow> (case apply_snapshot env (process_snapshot process session) rg of
          (Inl e, rg') \<Rightarrow> (Inl e, rg')
        | (Inr _, rg') \<Rightarrow> reconcileActiveProcesses processes (set_add (ss_id session) matched) rg'))"

text \<open>What a client may do with a session.\<close>

definition actionsForSession :: "ai_session \<Rightarrow> ai_actions" where
  "actionsForSession session =
     (let configured = or_else (ss_actions session) no_actions in
      \<lparr>ac_send = Some (or_else (ac_send configured) True),
       ac_interrupt = Some (lifecycle_active (ss_status session) \<and> ac_interrupt configured \<noteq> Some False),
       ac_approval = Some (ss_status session = Waiting \<and> ss_phase session = ApprovalPhase \<and> ac_approval configured \<noteq> Some False),
       ac_fork = Some (or_else (ac_fork configured) False), ac_rename = Some (or_else (ac_rename configured) False),
       ac_openApp = Some (or_else (ac_openApp configured) (truthy (ss_providerSessionId session) \<and> \<not> truthy (ss_appSessionId session))),
       ac_close = Some (or_else (ac_close configured) (truthy (ss_providerSessionId session)))\<rparr>)"

section \<open>Every operation goes through the same two doors\<close>

datatype registry_op =
    RStart start_input
  | RRestoreHistory history_item
  | RRestoreAuthority ai_session
  | RDiscard string
  | RPatch string session_patch
  | RMarkRead string
  | RBindProvider "string \<Rightarrow> string option \<Rightarrow> string option \<Rightarrow> string option" string string
  | REnqueue string string string "message_attachment list" "ai_reference list" "permission_mode option" "string option"
  | RSending string string
  | RFailedMessage string string string
  | RRetry string string
  | RRemoveMessage string string
  | REdit string string int string "attachment_update option"
  | RReorder string int "string list"
  | RPause string bool
  | REvent string realtime_input
  | RSnapshot snapshot_input
  | RAttachTranscript "string \<Rightarrow> string option \<Rightarrow> string option \<Rightarrow> string option" string "string option"
  | RProgress string string "progress_kind option"
  | RComplete string "string option"
  | RFail string string
  | RApps "app_presence list"
  | RAdapter string "string list" "string list" "string list"
  | RPrune
  | RProcesses "(registry_env \<times> active_process) list"
  | RBatchBegin
  | RBatchEnd

fun registry_step :: "registry \<Rightarrow> registry_env \<times> registry_op \<Rightarrow> registry" where
  "registry_step rg (env, RStart input) = snd (registry_start env input rg)"
| "registry_step rg (env, RRestoreHistory item) = snd (restoreHistory env item rg)"
| "registry_step rg (env, RRestoreAuthority session) = snd (registry_put env session rg)"
| "registry_step rg (env, RDiscard sid) = snd (removeStoredSession sid rg)"
| "registry_step rg (env, RPatch sid patch) = snd (registry_update env sid patch False rg)"
| "registry_step rg (env, RMarkRead sid) = snd (markRead env sid rg)"
| "registry_step rg (env, RBindProvider resolve sid pid) = snd (bindProviderSession env resolve sid pid rg)"
| "registry_step rg (env, REnqueue qid sid message atts refs pm mid) = snd (registry_enqueueMessage env qid sid message atts refs pm mid rg)"
| "registry_step rg (env, RSending sid qid) = snd (registry_markQueuedMessageSending env sid qid rg)"
| "registry_step rg (env, RFailedMessage sid qid err) = snd (registry_markQueuedMessageFailed env sid qid err rg)"
| "registry_step rg (env, RRetry sid qid) = snd (registry_retryQueuedMessage env sid qid rg)"
| "registry_step rg (env, RRemoveMessage sid qid) = snd (registry_removeQueuedMessage env sid qid rg)"
| "registry_step rg (env, REdit sid qid er message upd) = snd (registry_editQueuedMessage env sid qid er message upd rg)"
| "registry_step rg (env, RReorder sid er ids) = snd (registry_reorderQueuedMessages env sid er ids rg)"
| "registry_step rg (env, RPause sid paused) = snd (registry_setQueuePaused env sid paused rg)"
| "registry_step rg (env, REvent sid event) = snd (apply_realtime env sid event rg)"
| "registry_step rg (env, RSnapshot input) = snd (apply_snapshot env input rg)"
| "registry_step rg (env, RAttachTranscript resolve sid path) = snd (attachTranscript env resolve sid path rg)"
| "registry_step rg (env, RProgress sid text kind) = snd (progress env sid text kind rg)"
| "registry_step rg (env, RComplete sid output) = snd (complete_session env sid output rg)"
| "registry_step rg (env, RFail sid message) = snd (fail_session env sid message rg)"
| "registry_step rg (env, RApps apps) = snd (registry_reconcileApps env apps rg)"
| "registry_step rg (env, RAdapter agent a p sh) = snd (registry_reconcileAdapter agent a p sh rg)"
| "registry_step rg (env, RPrune) = snd (registry_prune env rg)"
| "registry_step rg (env, RProcesses ps) = snd (reconcileActiveProcesses ps [] rg)"
| "registry_step rg (env, RBatchBegin) = batch_begin rg"
| "registry_step rg (env, RBatchEnd) = batch_end rg"

text \<open>
  The operations change the store only by committing a session and by removing one. A statement about
  the registry that both keep is therefore kept by every operation; \<open>env_ok\<close> and \<open>id_ok\<close> are what it
  needs of the environment of a call and of the id of a session that is committed.
\<close>

definition op_ok :: "(registry_env \<Rightarrow> bool) \<Rightarrow> (string \<Rightarrow> bool) \<Rightarrow> registry_env \<times> registry_op \<Rightarrow> bool" where
  "op_ok env_ok id_ok eop \<longleftrightarrow> env_ok (fst eop) \<and> (case snd eop of
      RRestoreHistory item \<Rightarrow> id_ok (hi_id item)
    | RRestoreAuthority session \<Rightarrow> id_ok (ss_id session)
    | RProcesses ps \<Rightarrow> list_all (\<lambda>(env, _). env_ok env) ps
    | _ \<Rightarrow> True)"

definition is_batch :: "registry_op \<Rightarrow> bool" where
  "is_batch op = (case op of RBatchBegin \<Rightarrow> True | RBatchEnd \<Rightarrow> True | _ \<Rightarrow> False)"

text \<open>No computation of the next session changes its id.\<close>

lemma build_id [simp]: "ss_id (buildAiSessionPatch env s p opts) = ss_id s"
  by (simp add: buildAiSessionPatch_def Let_def)

lemma apply_patch_id [simp]: "ss_id (applyAiSessionPatch env s p opts) = ss_id s"
  by (simp add: applyAiSessionPatch_def Let_def)

lemma snapshot_id [simp]: "ss_id (reduceAiSessionSnapshot env s e) = ss_id s"
  by (simp add: reduceAiSessionSnapshot_def Let_def)

lemma realtime_id: "reduceAiSessionRealtime env s e = Some s' \<Longrightarrow> ss_id s' = ss_id s"
  by (drule realtime_result) (auto simp: event_result_def)

lemma withQueue_id [simp]: "ss_id (withQueue s items t) = ss_id s"
  by (simp add: withQueue_def)

lemma queue_ids:
  "enqueueMessage t q s m a r pm mid p = (Some (s', item), p') \<Longrightarrow> ss_id s' = ss_id s"
  "markQueuedMessageSending t s q = Some s' \<Longrightarrow> ss_id s' = ss_id s"
  "markQueuedMessageFailed t s q err = Some s' \<Longrightarrow> ss_id s' = ss_id s"
  "retryQueuedMessage t s q = Some s' \<Longrightarrow> ss_id s' = ss_id s"
  "removeQueuedMessage t s q p = (Some s', p') \<Longrightarrow> ss_id s' = ss_id s"
  "editQueuedMessage t s q er m u p = (EditUpdated s', p') \<Longrightarrow> ss_id s' = ss_id s"
  "reorderQueuedMessages t s er qs = ReorderUpdated s' \<Longrightarrow> ss_id s' = ss_id s"
  "ss_id (setQueuePaused t s b) = ss_id s"
  by (auto simp: enqueueMessage_def markQueuedMessageSending_def markQueuedMessageFailed_def patchQueuedMessage_def
      retryQueuedMessage_def removeQueuedMessage_def editQueuedMessage_def reorderQueuedMessages_def setQueuePaused_def Let_def
      split: if_splits option.splits)

text \<open>The session a snapshot is about is one of the stored sessions.\<close>

lemma better_mem: "foldl betterCanonicalSession x xs \<in> set (x # xs)"
proof (induction xs arbitrary: x)
  case (Cons y ys)
  have "betterCanonicalSession x y \<in> {x, y}"
    by (auto simp: betterCanonicalSession_def Let_def split: option.split)
  then show ?case using Cons.IH[of "betterCanonicalSession x y"] by auto
qed simp

lemma select_better_mem: "select_better xs = Some s \<Longrightarrow> s \<in> set xs"
  using better_mem by (auto simp: select_better_def split: list.splits)

lemma set_readSessions [simp]: "set (readSessions rg) = set (jmap_values (st_sessions (rg_store rg)))"
  by (simp add: readSessions_def store_list_def)

lemma target_mem: "snapshot_target rg e = Some s \<Longrightarrow> s \<in> set (jmap_values (st_sessions (rg_store rg)))"
proof -
  assume t: "snapshot_target rg e = Some s"
  have p: "s \<in> set (jmap_values (st_sessions (rg_store rg)))" if "getByProviderSessionId rg a i = Some s" for a i
  proof -
    from that obtain ident where "select_better (store_matches (rg_store rg) ident) = Some s"
      by (auto simp: getByProviderSessionId_def findByProviderSession_def Let_def split: option.splits if_splits)
    then have "s \<in> set (store_matches (rg_store rg) ident)" by (rule select_better_mem)
    then obtain k where "jmap_get (st_sessions (rg_store rg)) k = Some s" by (auto simp: store_matches_def set_map_filter)
    then show ?thesis by (force simp: jmap_get_def dest: map_of_SomeD)
  qed
  have f: "s \<in> set (readSessions rg)" if "List.find Q (readSessions rg) = Some s" for Q
    using that unfolding find_Some_iff by (metis nth_mem)
  show ?thesis using t p f by (auto simp: snapshot_target_def js_nullish_def split: option.splits if_splits)
qed

locale registry_invariant =
  fixes P :: "registry \<Rightarrow> bool"
    and env_ok :: "registry_env \<Rightarrow> bool"
    and id_ok :: "string \<Rightarrow> bool"
  assumes put: "P rg \<Longrightarrow> env_ok env \<Longrightarrow> id_ok (ss_id s) \<Longrightarrow> P (snd (registry_put env s rg))"
    and remove: "P rg \<Longrightarrow> P (snd (removeStoredSession sid rg))"
    and orphans: "P rg \<Longrightarrow> P (rg\<lparr>rg_orphans := os\<rparr>)"
    and payloads: "P rg \<Longrightarrow> P (rg\<lparr>rg_payloads := ps\<rparr>)"
    and stored: "P rg \<Longrightarrow> s \<in> set (jmap_values (st_sessions (rg_store rg))) \<Longrightarrow> id_ok (ss_id s)"
    and fresh: "env_ok env \<Longrightarrow> id_ok (''ais_'' @ re_uuid env)"
begin

lemma put_result: "registry_put env s rg = (r, rg') \<Longrightarrow> P rg \<Longrightarrow> env_ok env \<Longrightarrow> id_ok (ss_id s) \<Longrightarrow> P rg'"
  using put[of rg env s] by simp

lemma got: "P rg \<Longrightarrow> registry_get rg sid = Some s \<Longrightarrow> id_ok (ss_id s)"
  by (auto simp: registry_get_def store_get_def jmap_get_def split: if_splits dest!: map_of_SomeD intro!: stored rev_image_eqI)

lemma put_kept:
  "registry_put env s' rg' = (r, rg'') \<Longrightarrow> ss_id s' = ss_id s \<Longrightarrow> registry_get rg sid = Some s \<Longrightarrow> P rg \<Longrightarrow> P rg' \<Longrightarrow> env_ok env \<Longrightarrow> P rg''"
  using got[of rg sid s] put_result[of env s' rg' r rg''] by simp

lemma put_some: "P rg \<Longrightarrow> env_ok env \<Longrightarrow> (\<And>x. s = Some x \<Longrightarrow> id_ok (ss_id x)) \<Longrightarrow> P (snd (put_some env s rg))"
  by (auto simp: put_some_def split: option.splits prod.splits sum.splits intro: put_result)

lemma update: "P rg \<Longrightarrow> env_ok env \<Longrightarrow> P (snd (registry_update env sid p b rg))"
  by (auto simp: registry_update_def intro!: put_some dest: got)

lemma remove_all: "P rg \<Longrightarrow> P (snd (remove_sessions ids n rg))"
proof (induction ids arbitrary: n rg)
  case (Cons i ids)
  then show ?case using remove[of rg i] by (auto split: prod.splits sum.splits)
qed simp

lemma realtime: "P rg \<Longrightarrow> env_ok env \<Longrightarrow> P (snd (apply_realtime env sid e rg))"
  using got by (auto simp: apply_realtime_def Let_def realtime_id split: option.splits intro!: put_some)

lemma enqueue: "P rg \<Longrightarrow> env_ok env \<Longrightarrow> P (snd (registry_enqueueMessage env q sid m a r pm mid rg))"
  by (auto simp: registry_enqueueMessage_def split: option.splits prod.splits sum.splits
      intro!: payloads intro: put_kept[OF _ queue_ids(1) _ _ payloads])

lemma edit: "P rg \<Longrightarrow> env_ok env \<Longrightarrow> P (snd (registry_editQueuedMessage env sid q er m u rg))"
  by (auto simp: registry_editQueuedMessage_def split: option.splits prod.splits sum.splits edit_result.splits
      intro!: payloads intro: put_kept[OF _ queue_ids(6) _ _ payloads])

lemma reorder: "P rg \<Longrightarrow> env_ok env \<Longrightarrow> P (snd (registry_reorderQueuedMessages env sid er ids rg))"
  by (auto simp: registry_reorderQueuedMessages_def split: option.splits prod.splits sum.splits reorder_result.splits
      intro: put_kept[OF _ queue_ids(7)])

lemma put_bind:
  assumes "P rg" and "env_ok env" and "\<And>s s'. f s = Some s' \<Longrightarrow> ss_id s' = ss_id s"
  shows "P (snd (put_some env (Option.bind (registry_get rg sid) f) rg))"
  using assms got[OF assms(1)] by (intro put_some) (auto simp: bind_eq_Some_conv)

lemma queue_patches:
  assumes "P rg" and "env_ok env"
  shows "P (snd (registry_markQueuedMessageSending env sid q rg))"
    and "P (snd (registry_markQueuedMessageFailed env sid q err rg))"
    and "P (snd (registry_retryQueuedMessage env sid q rg))"
  unfolding registry_markQueuedMessageSending_def registry_markQueuedMessageFailed_def registry_retryQueuedMessage_def
  by (rule put_bind[OF assms], erule queue_ids)+

lemma remove_message: "P rg \<Longrightarrow> env_ok env \<Longrightarrow> P (snd (registry_removeQueuedMessage env sid q rg))"
  using got[of rg sid]
  by (auto simp: registry_removeQueuedMessage_def queue_ids(5) split: option.split prod.split intro!: put_some payloads)

lemma pause: "P rg \<Longrightarrow> env_ok env \<Longrightarrow> P (snd (registry_setQueuePaused env sid b rg))"
  using got[of rg sid]
  by (auto simp: registry_setQueuePaused_def Let_def queue_ids(8) split: option.split intro!: put_some)

lemma snapshot: "P rg \<Longrightarrow> env_ok env \<Longrightarrow> P (snd (apply_snapshot env e rg))"
  by (auto simp: apply_snapshot_def Let_def snapshot_new_session_def initialSession_def fresh[simplified] stored[OF _ target_mem] orphans
      split: option.split intro!: put_some)

lemma processes: "P rg \<Longrightarrow> list_all (\<lambda>(env, _). env_ok env) ps \<Longrightarrow> P (snd (reconcileActiveProcesses ps matched rg))"
proof (induction ps arbitrary: matched rg)
  case (Cons p ps)
  obtain env process where p: "p = (env, process)" by fastforce
  with Cons.prems have "P (snd (apply_snapshot env e rg))" for e by (simp add: snapshot)
  then show ?case using Cons p by (auto split: option.split prod.split sum.split) (metis snd_conv)+
qed simp

lemma good_step:
  assumes "P rg" and "op_ok env_ok id_ok (env, op)" and "\<not> is_batch op"
  shows "P (registry_step rg (env, op))"
proof -
  have e: "env_ok env" using assms(2) by (simp add: op_ok_def)
  show ?thesis
  proof (cases op)
    case (RProcesses ps)
    then show ?thesis using assms processes[of rg ps] by (simp add: op_ok_def)
  next
    case (RApps apps)
    obtain result os where "reconcileAppSessionBindings (readSessions rg) apps (re_nowMs env) (re_orphanRetentionMs env) (rg_orphans rg)
        = (result, os)" by fastforce
    then show ?thesis using remove_all[OF orphans[OF assms(1), of os], of "rr_remove result" 0] RApps
      by (auto simp: registry_reconcileApps_def split: prod.splits sum.splits)
  next
    case (RAttachTranscript resolve sid path)
    then show ?thesis using assms e snapshot by (auto simp: attachTranscript_def Let_def split: option.split)
  qed (use assms e in \<open>auto simp: op_ok_def is_batch_def registry_start_def initialSession_def fresh[simplified] restoreHistory_def
      restored_session_def markRead_def bindProviderSession_def Let_def progress_def complete_session_def fail_session_def
      registry_reconcileAdapter_def registry_prune_def
      intro!: put remove update enqueue queue_patches remove_message edit reorder pause realtime snapshot remove_all orphans
      split: prod.split sum.split\<close>)
qed

lemma good_run:
  "P rg \<Longrightarrow> list_all (\<lambda>eop. op_ok env_ok id_ok eop \<and> \<not> is_batch (snd eop)) ops \<Longrightarrow> P (foldl registry_step rg ops)"
proof (induction ops arbitrary: rg)
  case (Cons eop ops)
  then show ?case using good_step[of rg "fst eop" "snd eop"] by simp
qed simp

end

locale registry_batch_invariant = registry_invariant +
  assumes batch: "P rg \<Longrightarrow> P (batch_begin rg)" "P rg \<Longrightarrow> P (batch_end rg)"
begin

lemma any_run: "P rg \<Longrightarrow> list_all (op_ok env_ok id_ok) ops \<Longrightarrow> P (foldl registry_step rg ops)"
proof (induction ops arbitrary: rg)
  case (Cons eop ops)
  obtain env op where e: "eop = (env, op)" by fastforce
  have "P (registry_step rg eop)"
    using Cons.prems good_step[of rg env op] batch[of rg] by (cases op) (auto simp: e is_batch_def)
  then show ?case using Cons by simp
qed simp

end

section \<open>A restart gives the same sessions\<close>


lemma emit_store [simp]: "rg_store (emitChange r rg) = rg_store rg"
  by (simp add: emitChange_def)

lemma put_effect:
  obtains "snd (registry_put env s rg) = rg"
  | c st where "store_save (ev_sha1 (re_reducer env)) (ev_collate (re_reducer env)) s (rg_store rg) = Inr (c, st)"
      "snd (registry_put env s rg) = emitChange ''write'' (rg\<lparr>rg_store := st\<rparr>)"
proof (cases "store_save (ev_sha1 (re_reducer env)) (ev_collate (re_reducer env)) s (rg_store rg)")
  case (Inl e)
  then show ?thesis using that(1) by (simp add: registry_put_def split: option.splits)
next
  case (Inr r)
  then show ?thesis using that(1) that(2)[of "fst r" "snd r"]
    by (cases "registry_get rg (ss_id s)"; cases "sameAiSessionBusinessState (the (registry_get rg (ss_id s))) s")
       (auto simp: registry_put_def case_prod_beta)
qed

lemma remove_effect:
  obtains "snd (removeStoredSession sid rg) = rg"
  | removed st where "store_remove sid (rg_store rg) = Inr (removed, st)"
      "snd (removeStoredSession sid rg) = (if removed then emitChange ''delete'' else id)
         (rg\<lparr>rg_store := st, rg_orphans := forgetSession sid (rg_orphans rg)\<rparr>)"
proof (cases "store_remove sid (rg_store rg)")
  case (Inl e)
  then show ?thesis using that(1) by (simp add: removeStoredSession_def)
next
  case (Inr r)
  then show ?thesis using that(2)[of "fst r" "snd r"] by (simp add: removeStoredSession_def Let_def case_prod_beta)
qed




definition registry_load :: "(string \<Rightarrow> string) \<Rightarrow> (string \<Rightarrow> string \<Rightarrow> bool) \<Rightarrow> (string, ai_session option) jmap \<Rightarrow> registry" where
  "registry_load sha1_hex le files = \<lparr>rg_store = store_load sha1_hex le files, rg_orphans = [], rg_payloads = [], rg_changes = [],
     rg_batchDepth = 0, rg_pending = None\<rparr>"


definition demo_registry_env :: registry_env where
  "demo_registry_env = \<lparr>re_reducer = demo_env, re_now = demo_time, re_nowMs = 0, re_uuid = ''0123456789'', re_retentionMs = 1000,
     re_orphanRetentionMs = 1000\<rparr>"

definition demo_files :: "(string, ai_session option) jmap" where
  "demo_files = [(''broken'', None), (''s1'', Some demo_session)]"



section \<open>Every change is announced\<close>

abbreviation sessions_of :: "registry \<Rightarrow> (string, ai_session) jmap" where
  "sessions_of rg \<equiv> st_sessions (rg_store rg)"

definition announced :: "registry \<Rightarrow> registry \<Rightarrow> bool" where
  "announced rg0 rg \<longleftrightarrow> (\<exists>told. rg_changes rg = rg_changes rg0 @ told
     \<and> (sessions_of rg = sessions_of rg0 \<or> told \<noteq> [] \<or> 0 < rg_batchDepth rg \<and> truthy (rg_pending rg)))"

definition batched :: "registry \<Rightarrow> registry \<Rightarrow> bool" where
  "batched rg0 rg \<longleftrightarrow> rg_batchDepth rg = 1 \<and> rg_changes rg = rg_changes rg0
     \<and> (rg_pending rg = None \<and> sessions_of rg = sessions_of rg0 \<or> rg_pending rg \<in> {Some ''write'', Some ''delete''})"

lemma truthy_pending [simp]: "x \<noteq> [] \<Longrightarrow> truthy (js_or p (Some x))"
  by (auto simp: truthy_def js_or_def split: option.splits)

lemma announced_emit: "announced rg0 rg \<Longrightarrow> x \<noteq> [] \<Longrightarrow> announced rg0 (emitChange x (rg\<lparr>rg_store := st, rg_orphans := os\<rparr>))"
  by (auto simp: announced_def emitChange_def)

lemma announced_write: "announced rg0 rg \<Longrightarrow> announced rg0 (emitChange ''write'' (rg\<lparr>rg_store := st\<rparr>))"
  using announced_emit[of rg0 rg "''write''" "rg_orphans rg" st] by simp

lemma remove_missing: "store_remove sid st = Inr (False, st') \<Longrightarrow> st_sessions st' = st_sessions st"
  by (auto simp: store_remove_def jmap_has_def jmap_get_def jmap_delete_def delete_id map_of_eq_None_iff split: if_splits)

interpretation told: registry_batch_invariant "announced rg0" "\<lambda>_. True" "\<lambda>_. True" for rg0
proof
  fix rg :: registry and env and s :: ai_session
  assume "announced rg0 rg"
  then show "announced rg0 (snd (registry_put env s rg))"
    by (cases env s rg rule: put_effect) (auto intro: announced_write)
next
  fix rg :: registry and sid
  assume a: "announced rg0 rg"
  then show "announced rg0 (snd (removeStoredSession sid rg))"
  proof (cases sid rg rule: remove_effect)
    case (2 removed st)
    then show ?thesis using a remove_missing[of sid "rg_store rg" st] announced_emit[OF a]
      by (cases removed) (auto simp: announced_def)
  qed simp
next
  fix rg :: registry
  assume "announced rg0 rg"
  then show "announced rg0 (batch_begin rg)" "announced rg0 (batch_end rg)"
    by (auto simp: announced_def batch_begin_def batch_end_def Let_def)
qed (auto simp: announced_def)

interpretation quiet: registry_invariant "batched rg0" "\<lambda>_. True" "\<lambda>_. True" for rg0
proof
  fix rg :: registry and env and s :: ai_session
  assume "batched rg0 rg"
  then show "batched rg0 (snd (registry_put env s rg))"
    by (cases env s rg rule: put_effect) (auto simp: batched_def emitChange_def js_or_def truthy_def)
next
  fix rg :: registry and sid
  assume a: "batched rg0 rg"
  then show "batched rg0 (snd (removeStoredSession sid rg))"
  proof (cases sid rg rule: remove_effect)
    case (2 removed st)
    then show ?thesis using a remove_missing[of sid "rg_store rg" st]
      by (cases removed) (auto simp: batched_def emitChange_def js_or_def truthy_def)
  qed simp
qed (auto simp: batched_def)

text \<open>
  Claim C21. Listeners are told of every change. After any sequence of operations and batches, either the
  stored sessions are the ones from before, or a listener has been told since, or a batch is open and
  holds a reason that its end will tell; and a batch tells at most once, and does so exactly once
  when the sessions are not the same at its end.
\<close>

theorem session_changes_are_announced:
  "announced rg (foldl registry_step rg ops)
   \<and> (rg_batchDepth rg = 0 \<and> rg_pending rg = None \<and> list_all (\<lambda>eop. \<not> is_batch (snd eop)) ops \<longrightarrow>
      (let rg' = batch_end (foldl registry_step (batch_begin rg) ops) in
       (rg_changes rg' = rg_changes rg \<and> sessions_of rg' = sessions_of rg
        \<or> (\<exists>reason \<in> {''write'', ''delete''}. rg_changes rg' = rg_changes rg @ [reason]))
       \<and> rg_batchDepth rg' = 0 \<and> rg_pending rg' = None))"
proof (intro conjI impI)
  have ok: "list_all (op_ok (\<lambda>_. True) (\<lambda>_. True)) ops"
    by (auto simp: op_ok_def list_all_iff split: registry_op.split)
  show "announced rg (foldl registry_step rg ops)"
    by (rule told.any_run[OF _ ok]) (simp add: announced_def)
  assume r: "rg_batchDepth rg = 0 \<and> rg_pending rg = None \<and> list_all (\<lambda>eop. \<not> is_batch (snd eop)) ops"
  have "batched rg (foldl registry_step (batch_begin rg) ops)"
    using r ok by (intro quiet.good_run) (auto simp: batched_def batch_begin_def list_all_iff)
  then show "let rg' = batch_end (foldl registry_step (batch_begin rg) ops) in
       (rg_changes rg' = rg_changes rg \<and> sessions_of rg' = sessions_of rg
        \<or> (\<exists>reason \<in> {''write'', ''delete''}. rg_changes rg' = rg_changes rg @ [reason]))
       \<and> rg_batchDepth rg' = 0 \<and> rg_pending rg' = None"
    by (auto simp: batched_def batch_end_def Let_def truthy_def str_of_def)
qed

theorem session_changes_are_announced_witness:
  "let rg = registry_load (\<lambda>_. ''h'') (\<le>) demo_files; ops = [(demo_registry_env, RDiscard ''s1''), (demo_registry_env, RDiscard ''x'')];
       rg' = batch_end (foldl registry_step (batch_begin rg) ops)
   in announced rg (foldl registry_step rg ops) \<and> rg_batchDepth rg' = 0"
  using session_changes_are_announced[of "registry_load (\<lambda>_. ''h'') (\<le>) demo_files"
      "[(demo_registry_env, RDiscard ''s1''), (demo_registry_env, RDiscard ''x'')]"]
  by (simp add: Let_def registry_load_def is_batch_def)

end
