(* ===== verification/Session_Stream.thy ===== *)
theory Session_Stream
  imports Session_Types "HOL-Library.Multiset"
begin

text \<open>
  The stream of AI session events between an instance and its consumers: the authority that turns
  registry snapshots into revisioned events (\<^verbatim>\<open>ai-session-authority-events.ts\<close> and the publishing part
  of \<^verbatim>\<open>server.ts\<close> in \<^verbatim>\<open>packages/controlled-instance/src/web\<close>), the retained history behind the delta
  endpoint, and the projection a consumer folds the events into (\<^verbatim>\<open>applyAiSessionStreamEvent\<close> and the
  compatibility projections in \<^verbatim>\<open>packages/protocol/src/ai-sessions.ts\<close>). A session summary is read
  only for its identifier, its status and its lineage; everything else it carries is the extension
  of the record. Values on the stream have passed their schemas, which leave such values as they
  are. Logging is left out.
\<close>

section \<open>Snapshots, states and events\<close>

record session_summary =
  su_id :: string
  su_status :: lifecycle
  su_lineage :: "lineage option"

record 's sessions_snapshot =
  sp_runningCount :: nat
  sp_waitingCount :: nat
  sp_staleCount :: nat
  sp_sessions :: "'s list"
  sp_updatedAt :: string

record 's sessions_state =
  sx_streamId :: string
  sx_revision :: nat
  sx_lastEventAt :: string
  sx_snapshot :: "'s sessions_snapshot"

datatype event_reason = ProviderEvent | AppSessionCreated | AppSessionUpdated | AppSessionDeleted | DiscoveryScan
  | ControlAction | HeartbeatSync | Startup

record event_meta =
  em_streamId :: string
  em_instanceId :: string
  em_nodeId :: "string option"
  em_revision :: nat
  em_previousRevision :: "nat option"
  em_traceId :: string
  em_generatedAt :: string
  em_reason :: event_reason

datatype 's stream_event =
    SnapshotEvent (meta: event_meta) (ev_snapshot: "'s sessions_snapshot")
  | PatchEvent (meta: event_meta) (ev_upserted: "'s list") (ev_removed: "string list")
  | RemovedEvent (meta: event_meta) (ev_sessionIds: "string list") (ev_expiresAt: string)

definition countStatus :: "lifecycle \<Rightarrow> 'a session_summary_scheme list \<Rightarrow> nat" where
  "countStatus status sessions = length (filter (\<lambda>s. su_status s = status) sessions)"

definition emptyAiSessionsSnapshot :: "string \<Rightarrow> 'a session_summary_scheme sessions_snapshot" where
  "emptyAiSessionsSnapshot now = \<lparr>sp_runningCount = 0, sp_waitingCount = 0, sp_staleCount = 0, sp_sessions = [], sp_updatedAt = now\<rparr>"

text \<open>\<^verbatim>\<open>new Map(sessions.map((session) => [session.id, session]))\<close>\<close>

definition byId :: "'a session_summary_scheme list \<Rightarrow> (string, 'a session_summary_scheme) jmap" where
  "byId sessions = fold (\<lambda>s. jmap_set (su_id s) s) sessions []"

section \<open>The projection of a consumer\<close>

datatype 's apply_result =
    Applied (projection: "'s sessions_state")
  | Duplicate "'s sessions_state"
  | Stale "'s sessions_state"
  | Gap "'s sessions_state" (expectedRevision: nat) (receivedRevision: nat)
  | SnapshotRequired "'s sessions_state option" string

fun patched_sessions :: "'a session_summary_scheme stream_event \<Rightarrow> (string, 'a session_summary_scheme) jmap \<Rightarrow> (string, 'a session_summary_scheme) jmap" where
  "patched_sessions (PatchEvent _ upserted removed) sessions =
     fold jmap_delete removed (fold (\<lambda>s. jmap_set (su_id s) s) upserted sessions)"
| "patched_sessions (RemovedEvent _ sessionIds _) sessions = fold jmap_delete sessionIds sessions"
| "patched_sessions (SnapshotEvent _ _) sessions = sessions"

definition applyAiSessionStreamEvent :: "'a session_summary_scheme sessions_state option \<Rightarrow> 'a session_summary_scheme stream_event
    \<Rightarrow> 'a session_summary_scheme apply_result" where
  "applyAiSessionStreamEvent current event =
     (let m = meta event in
      case (event, current) of
        (SnapshotEvent _ snapshot, Some c) \<Rightarrow>
          (if sx_streamId c = em_streamId m \<and> em_revision m = sx_revision c then Duplicate c
           else if sx_streamId c = em_streamId m \<and> em_revision m < sx_revision c then Stale c
           else Applied \<lparr>sx_streamId = em_streamId m, sx_revision = em_revision m, sx_lastEventAt = em_generatedAt m, sx_snapshot = snapshot\<rparr>)
      | (SnapshotEvent _ snapshot, None) \<Rightarrow>
          Applied \<lparr>sx_streamId = em_streamId m, sx_revision = em_revision m, sx_lastEventAt = em_generatedAt m, sx_snapshot = snapshot\<rparr>
      | (_, None) \<Rightarrow> SnapshotRequired None (em_streamId m)
      | (_, Some c) \<Rightarrow>
          (if sx_streamId c \<noteq> em_streamId m then SnapshotRequired (Some c) (em_streamId m)
           else if em_revision m = sx_revision c then Duplicate c
           else if em_revision m < sx_revision c then Stale c
           else if em_revision m \<noteq> sx_revision c + 1 \<or> em_previousRevision m \<noteq> Some (sx_revision c)
           then Gap c (sx_revision c + 1) (em_revision m)
           else
             let values = jmap_values (patched_sessions event (byId (sp_sessions (sx_snapshot c))));
                 snapshot = \<lparr>sp_runningCount = countStatus Running values, sp_waitingCount = countStatus Waiting values,
                   sp_staleCount = sp_staleCount (sx_snapshot c), sp_sessions = values, sp_updatedAt = em_generatedAt m\<rparr>
             in Applied \<lparr>sx_streamId = em_streamId m, sx_revision = em_revision m, sx_lastEventAt = em_generatedAt m, sx_snapshot = snapshot\<rparr>))"

section \<open>Consumers without a hierarchy\<close>

text \<open>
  A consumer that does not announce support for sub-agents receives every session, with the
  sub-agent relation removed.
\<close>

definition projectSessionLineageForConsumer :: "bool \<Rightarrow> 'a session_summary_scheme \<Rightarrow> 'a session_summary_scheme" where
  "projectSessionLineageForConsumer subagents session =
     (case su_lineage session of
        Some (Subagent _) \<Rightarrow> if subagents then session else session\<lparr>su_lineage := None\<rparr>
      | _ \<Rightarrow> session)"

definition projectAiSessionsSnapshotForConsumer :: "bool \<Rightarrow> 'a session_summary_scheme sessions_snapshot \<Rightarrow> 'a session_summary_scheme sessions_snapshot" where
  "projectAiSessionsSnapshotForConsumer subagents snapshot =
     (if subagents then snapshot
      else snapshot\<lparr>sp_sessions := map (projectSessionLineageForConsumer subagents) (sp_sessions snapshot)\<rparr>)"

fun projectAiSessionStreamEventForConsumer :: "bool \<Rightarrow> 'a session_summary_scheme stream_event \<Rightarrow> 'a session_summary_scheme stream_event" where
  "projectAiSessionStreamEventForConsumer subagents (RemovedEvent m ids expiresAt) = RemovedEvent m ids expiresAt"
| "projectAiSessionStreamEventForConsumer subagents (SnapshotEvent m snapshot) =
     (if subagents then SnapshotEvent m snapshot
      else SnapshotEvent m (projectAiSessionsSnapshotForConsumer subagents snapshot))"
| "projectAiSessionStreamEventForConsumer subagents (PatchEvent m upserted removed) =
     (if subagents then PatchEvent m upserted removed
      else PatchEvent m (map (projectSessionLineageForConsumer subagents) upserted) removed)"

record 's delta_response =
  dr_streamId :: string
  dr_instanceId :: string
  dr_sinceRevision :: nat
  dr_latestRevision :: nat
  dr_earliestRetainedRevision :: nat
  dr_syncRequired :: bool
  dr_events :: "'s stream_event list"

fun project_delta_event :: "bool \<Rightarrow> 'a session_summary_scheme stream_event \<Rightarrow> 'a session_summary_scheme stream_event" where
  "project_delta_event subagents (SnapshotEvent m snapshot) = SnapshotEvent m (projectAiSessionsSnapshotForConsumer subagents snapshot)"
| "project_delta_event subagents (PatchEvent m upserted removed) =
     PatchEvent m (map (projectSessionLineageForConsumer subagents) upserted) removed"
| "project_delta_event subagents (RemovedEvent m ids expiresAt) = RemovedEvent m ids expiresAt"

definition projectAiSessionDeltaForConsumer :: "bool \<Rightarrow> 'a session_summary_scheme delta_response \<Rightarrow> 'a session_summary_scheme delta_response" where
  "projectAiSessionDeltaForConsumer subagents delta =
     (if subagents then delta else delta\<lparr>dr_events := map (project_delta_event subagents) (dr_events delta)\<rparr>)"

section \<open>The authority\<close>

datatype 's authority_change =
    FullSnapshot "'s sessions_snapshot"
  | PatchChange "'s list" "string list"
  | Unchanged

text \<open>\<^verbatim>\<open>sameSession\<close> compares the printed summaries, which carry their fields in one order.\<close>

definition sameSession :: "'a session_summary_scheme \<Rightarrow> 'a session_summary_scheme \<Rightarrow> bool" where
  "sameSession previous next = (previous = next)"

definition projectAiSessionAuthorityChange :: "'a session_summary_scheme sessions_snapshot option \<Rightarrow> 'a session_summary_scheme sessions_snapshot
    \<Rightarrow> 'a session_summary_scheme authority_change" where
  "projectAiSessionAuthorityChange previous next' =
     (case previous of
        None \<Rightarrow> FullSnapshot next'
      | Some prev \<Rightarrow>
          let previousById = byId (sp_sessions prev);
              nextById = byId (sp_sessions next');
              upserted = filter (\<lambda>s. case jmap_get previousById (su_id s) of
                None \<Rightarrow> True | Some previousSession \<Rightarrow> \<not> sameSession previousSession s) (sp_sessions next');
              removed = map su_id (filter (\<lambda>s. \<not> jmap_has nextById (su_id s)) (sp_sessions prev))
          in if upserted \<noteq> [] \<or> removed \<noteq> [] then PatchChange upserted removed else Unchanged)"

definition AI_SESSION_DELTA_RETENTION_MS :: int where
  "AI_SESSION_DELTA_RETENTION_MS = 60 * 60 * 1000"

text \<open>What publishing does besides the stream: flushing the coalesced message deltas and running the triggers.\<close>

datatype 's side_effect = FlushDeltas | Published "'s stream_event" | HandleTriggers "'s sessions_snapshot"

record 's authority =
  au_streamId :: string
  au_instanceId :: string
  au_nodeId :: "string option"
  au_startedAt :: string
  au_revision :: nat
  au_last :: "'s sessions_snapshot option"
  au_history :: "('s stream_event \<times> int) list"
  au_effects :: "'s side_effect list"
  au_discoveryUnchanged :: nat
  au_discoveryCorrections :: nat

text \<open>The parameters of one call: the clock as a number and as text, and the random trace identifier.\<close>

record stream_env =
  en_nowMs :: int
  en_now :: string
  en_traceId :: string

definition authority_start :: "string \<Rightarrow> string \<Rightarrow> string option \<Rightarrow> string \<Rightarrow> 's authority" where
  "authority_start streamId instanceId nodeId startedAt =
     \<lparr>au_streamId = streamId, au_instanceId = instanceId, au_nodeId = nodeId, au_startedAt = startedAt, au_revision = 0,
      au_last = None, au_history = [], au_effects = [], au_discoveryUnchanged = 0, au_discoveryCorrections = 0\<rparr>"

definition withoutAgentRunMemberSessions :: "(string \<Rightarrow> bool) \<Rightarrow> 'a session_summary_scheme sessions_snapshot \<Rightarrow> 'a session_summary_scheme sessions_snapshot" where
  "withoutAgentRunMemberSessions isMember snapshot =
     (let sessions = filter (\<lambda>s. \<not> isMember (su_id s)) (sp_sessions snapshot)
      in snapshot\<lparr>sp_sessions := sessions, sp_runningCount := countStatus Running sessions,
           sp_waitingCount := countStatus Waiting sessions, sp_staleCount := 0\<rparr>)"

definition createAiSessionMeta :: "stream_env \<Rightarrow> event_reason \<Rightarrow> 's authority \<Rightarrow> event_meta" where
  "createAiSessionMeta env reason au =
     \<lparr>em_streamId = au_streamId au, em_instanceId = au_instanceId au, em_nodeId = au_nodeId au, em_revision = au_revision au,
      em_previousRevision = (if au_revision au > 0 then Some (au_revision au - 1) else None),
      em_traceId = en_traceId env, em_generatedAt = en_now env, em_reason = reason\<rparr>"

definition pruneAiSessionEventHistory :: "stream_env \<Rightarrow> 's authority \<Rightarrow> 's authority" where
  "pruneAiSessionEventHistory env au =
     au\<lparr>au_history := dropWhile (\<lambda>(_, createdAtMs). createdAtMs < en_nowMs env - AI_SESSION_DELTA_RETENTION_MS) (au_history au)\<rparr>"

definition rememberAiSessionEvent :: "stream_env \<Rightarrow> 's stream_event \<Rightarrow> 's authority \<Rightarrow> 's authority" where
  "rememberAiSessionEvent env event au =
     pruneAiSessionEventHistory env (au\<lparr>au_history := au_history au @ [(event, en_nowMs env)]\<rparr>)"

definition publishAiSessionEvent :: "stream_env \<Rightarrow> 's stream_event \<Rightarrow> 's authority \<Rightarrow> 's authority" where
  "publishAiSessionEvent env event au =
     (let au = rememberAiSessionEvent env event au in au\<lparr>au_effects := au_effects au @ [Published event]\<rparr>)"

text \<open>\<open>bound\<close> is \<^verbatim>\<open>aiSessions.boundSnapshot(...)\<close> at the time of the call.\<close>

definition publishAiSessionSnapshot :: "stream_env \<Rightarrow> (string \<Rightarrow> bool) \<Rightarrow> event_reason \<Rightarrow> 'a session_summary_scheme sessions_snapshot
    \<Rightarrow> 'a session_summary_scheme authority \<Rightarrow> 'a session_summary_scheme authority" where
  "publishAiSessionSnapshot env isMember reason bound au0 =
     (let au = au0\<lparr>au_effects := au_effects au0 @ [FlushDeltas]\<rparr>;
          snapshot = withoutAgentRunMemberSessions isMember bound
      in case projectAiSessionAuthorityChange (au_last au) snapshot of
           Unchanged \<Rightarrow>
             if reason = DiscoveryScan then au\<lparr>au_discoveryUnchanged := au_discoveryUnchanged au + 1\<rparr> else au
         | change \<Rightarrow>
             let au = au\<lparr>au_revision := au_revision au + 1\<rparr>;
                 m = createAiSessionMeta env reason au;
                 event = (case change of PatchChange upserted removed \<Rightarrow> PatchEvent m upserted removed
                   | _ \<Rightarrow> SnapshotEvent m snapshot);
                 au = publishAiSessionEvent env event au;
                 au = au\<lparr>au_last := Some snapshot, au_effects := au_effects au @ [HandleTriggers snapshot]\<rparr>
             in if reason = DiscoveryScan then au\<lparr>au_discoveryCorrections := au_discoveryCorrections au + 1\<rparr> else au)"

definition earliestRetained :: "'s authority \<Rightarrow> nat" where
  "earliestRetained au = (case au_history au of (event, _) # _ \<Rightarrow> em_revision (meta event) | [] \<Rightarrow> au_revision au + 1)"

definition aiSessionDeltaSince :: "stream_env \<Rightarrow> string \<Rightarrow> nat \<Rightarrow> 's authority \<Rightarrow> 's delta_response \<times> 's authority" where
  "aiSessionDeltaSince env streamId sinceRevision au0 =
     (let au = pruneAiSessionEventHistory env au0;
          response = (\<lambda>syncRequired events. \<lparr>dr_streamId = au_streamId au, dr_instanceId = au_instanceId au,
            dr_sinceRevision = sinceRevision, dr_latestRevision = au_revision au,
            dr_earliestRetainedRevision = earliestRetained au, dr_syncRequired = syncRequired, dr_events = events\<rparr>)
      in if streamId \<noteq> au_streamId au \<or> sinceRevision > au_revision au then (response True [], au)
         else if sinceRevision = au_revision au then (response False [], au)
         else
           let eventsAfterRevision = filter (\<lambda>event. em_revision (meta event) > sinceRevision) (map fst (au_history au));
               syncRequired = (case eventsAfterRevision of [] \<Rightarrow> True | e # _ \<Rightarrow> em_revision (meta e) \<noteq> sinceRevision + 1)
           in (response syncRequired (if syncRequired then [] else eventsAfterRevision), au))"

text \<open>The state endpoint. Before the first event it answers with the live snapshot of the registry.\<close>

definition aiSessionsState :: "bool \<Rightarrow> (string \<Rightarrow> bool) \<Rightarrow> 'a session_summary_scheme sessions_snapshot \<Rightarrow> 'a session_summary_scheme authority
    \<Rightarrow> 'a session_summary_scheme sessions_state" where
  "aiSessionsState subagents isMember bound au =
     \<lparr>sx_streamId = au_streamId au, sx_revision = au_revision au,
      sx_lastEventAt = (if au_history au = [] then au_startedAt au else
        let g = em_generatedAt (meta (fst (last (au_history au)))) in if g = [] then au_startedAt au else g),
      sx_snapshot = projectAiSessionsSnapshotForConsumer subagents
        (case au_last au of Some snapshot \<Rightarrow> snapshot | None \<Rightarrow> withoutAgentRunMemberSessions isMember bound)\<rparr>"

section \<open>Maps of sessions\<close>

lemma get_fold_set:
  "jmap_get (fold (\<lambda>s. jmap_set (su_id s) s) ss m) k = (jmap_get m ++ map_of (rev (map (\<lambda>s. (su_id s, s)) ss))) k"
  by (induction ss arbitrary: m) (auto simp: map_add_def jm.get_put split: option.splits)

lemma get_fold_delete: "jmap_get (fold jmap_delete ids m) k = (if k \<in> set ids then None else jmap_get m k)"
  by (induction ids arbitrary: m) (auto simp: jmap_get_def jmap_delete_def delete_conv)

lemma fold_set_ok: "jmap_ok m \<Longrightarrow> jmap_ok (fold (\<lambda>s. jmap_set (su_id s) s) ss m)"
  by (induction ss arbitrary: m) (auto simp: jm.ok_put)

lemma fold_delete_ok: "jmap_ok m \<Longrightarrow> jmap_ok (fold jmap_delete ids m)"
  by (induction ids arbitrary: m) (auto simp: jm.ok_del)

lemma patched_ok: "jmap_ok m \<Longrightarrow> jmap_ok (patched_sessions ev m)"
  by (cases ev) (auto simp: fold_set_ok fold_delete_ok)

lemma patched_cong:
  "(\<And>k. jmap_get m k = jmap_get m' k) \<Longrightarrow> jmap_get (patched_sessions ev m) k = jmap_get (patched_sessions ev m') k"
  by (cases ev) (auto simp: get_fold_delete get_fold_set map_add_def split: option.splits)

lemma fold_set_distinct:
  "distinct (jmap_keys m @ map su_id ss) \<Longrightarrow>
     fold (\<lambda>s. jmap_set (su_id s) s) ss m = m @ map (\<lambda>s. (su_id s, s)) ss"
proof (induction ss arbitrary: m)
  case (Cons s ss)
  then have "jmap_set (su_id s) s m = m @ [(su_id s, s)]" by (intro jmap_set_new) auto
  with Cons show ?case by simp
qed simp

lemma byId_distinct: "distinct (map su_id ss) \<Longrightarrow> byId ss = map (\<lambda>s. (su_id s, s)) ss"
  unfolding byId_def by (subst fold_set_distinct) auto

lemma byId_ok: "jmap_ok (byId ss)"
  unfolding byId_def by (rule fold_set_ok) simp

lemma byId_get: "distinct (map su_id ss) \<Longrightarrow> jmap_get (byId ss) k = Some s \<longleftrightarrow> s \<in> set ss \<and> su_id s = k"
  by (subst jmap_get_iff [OF byId_ok]) (auto simp: byId_distinct)

lemma byId_has: "distinct (map su_id ss) \<Longrightarrow> jmap_has (byId ss) k \<longleftrightarrow> k \<in> su_id ` set ss"
  by (simp add: jmap_has_iff byId_distinct)

lemma byId_cong:
  assumes "mset xs = mset ys" "distinct (map su_id xs)"
  shows "jmap_get (byId xs) k = jmap_get (byId ys) k"
proof -
  have "mset (map su_id xs) = mset (map su_id ys)" using assms(1) by simp
  then have ys: "distinct (map su_id ys)" using assms(2) by (metis mset_eq_imp_distinct_iff)
  have "set xs = set ys" using assms(1) by (rule mset_eq_setD)
  then have "jmap_get (byId xs) k = Some s \<longleftrightarrow> jmap_get (byId ys) k = Some s" for s
    using byId_get [OF assms(2)] byId_get [OF ys] by blast
  then show ?thesis by (metis option.exhaust)
qed

lemma distinct_mapI0: "distinct (map f xs) \<Longrightarrow> distinct xs"
  by (simp add: distinct_map)

lemma values_cong:
  assumes "jmap_ok m" "jmap_ok m'" "\<And>k. jmap_get m k = jmap_get m' k"
  shows "mset (jmap_values m) = mset (jmap_values m')"
proof -
  have "p \<in> set m \<longleftrightarrow> p \<in> set m'" for p
    using assms(3) [of "fst p"] jmap_get_iff [OF assms(1), of "fst p" "snd p"] jmap_get_iff [OF assms(2), of "fst p" "snd p"] by simp
  then have "set m = set m'" by blast
  moreover have "distinct m" "distinct m'" using assms(1,2) by (auto dest: distinct_mapI0)
  ultimately have "mset m = mset m'" by (simp add: set_eq_iff_mset_eq_distinct)
  then show ?thesis by simp
qed

lemma values_byId: "distinct (map su_id ss) \<Longrightarrow> jmap_values (byId ss) = ss"
  by (simp add: byId_distinct comp_def)

text \<open>Every entry of the map stands under its own identifier, so the values have distinct identifiers.\<close>

definition keyed_by_id :: "(string, 'a session_summary_scheme) jmap \<Rightarrow> bool" where
  "keyed_by_id m \<longleftrightarrow> (\<forall>k s. jmap_get m k = Some s \<longrightarrow> su_id s = k)"

lemma keyed_set: "keyed_by_id m \<Longrightarrow> keyed_by_id (jmap_set (su_id s) s m)"
  by (auto simp: keyed_by_id_def jm.get_put)

lemma keyed_fold_set: "keyed_by_id m \<Longrightarrow> keyed_by_id (fold (\<lambda>s. jmap_set (su_id s) s) ss m)"
  by (induction ss arbitrary: m) (auto simp: keyed_set)

lemma keyed_fold_delete: "keyed_by_id m \<Longrightarrow> keyed_by_id (fold jmap_delete ids m)"
  by (auto simp: keyed_by_id_def get_fold_delete split: if_splits)

lemma keyed_patched: "keyed_by_id m \<Longrightarrow> keyed_by_id (patched_sessions ev m)"
  by (cases ev) (auto simp: keyed_fold_set keyed_fold_delete)

lemma keyed_byId: "keyed_by_id (byId ss)"
  unfolding byId_def by (rule keyed_fold_set) (simp add: keyed_by_id_def)

lemma keyed_values_distinct:
  assumes "keyed_by_id m" "jmap_ok m"
  shows "distinct (map su_id (jmap_values m))"
proof -
  have "su_id (snd p) = fst p" if "p \<in> set m" for p
    using that assms jmap_get_iff [OF assms(2), of "fst p" "snd p"] by (simp add: keyed_by_id_def)
  then have "map su_id (jmap_values m) = jmap_keys m" by simp
  then show ?thesis using assms(2) by (simp only:)
qed

lemmas patched_values_distinct = keyed_values_distinct [OF keyed_patched [OF keyed_byId] patched_ok [OF byId_ok]]

section \<open>What the authority published\<close>

text \<open>
  The specification of the stream is the table of the snapshots that were current when a revision
  was published, by stream and revision. A state is authentic when it holds exactly the sessions of
  its revision, in whatever order; an event is authentic when it leads from the sessions of one
  revision to those of the next. Revision 0 stands for the time before the first event, where the
  state endpoint answers with the live snapshot.
\<close>

type_synonym 's truth = "string \<times> nat \<rightharpoonup> 's sessions_snapshot"

definition snapshot_ok :: "'a session_summary_scheme sessions_snapshot \<Rightarrow> bool" where
  "snapshot_ok p \<longleftrightarrow> distinct (map su_id (sp_sessions p)) \<and> sp_runningCount p = countStatus Running (sp_sessions p)
     \<and> sp_waitingCount p = countStatus Waiting (sp_sessions p) \<and> sp_staleCount p = 0"

definition same_content :: "'a session_summary_scheme sessions_snapshot \<Rightarrow> 'a session_summary_scheme sessions_snapshot \<Rightarrow> bool" where
  "same_content p q \<longleftrightarrow> mset (sp_sessions p) = mset (sp_sessions q) \<and> sp_runningCount p = sp_runningCount q
     \<and> sp_waitingCount p = sp_waitingCount q \<and> sp_staleCount p = sp_staleCount q"

definition published_as :: "'a session_summary_scheme truth \<Rightarrow> string \<Rightarrow> nat \<Rightarrow> 'a session_summary_scheme sessions_snapshot \<Rightarrow> bool" where
  "published_as T streamId revision p \<longleftrightarrow> snapshot_ok p \<and> (\<forall>n. revision = Suc n \<longrightarrow> (\<exists>q. T (streamId, revision) = Some q \<and> same_content p q))"

definition state_authentic :: "'a session_summary_scheme truth \<Rightarrow> 'a session_summary_scheme sessions_state \<Rightarrow> bool" where
  "state_authentic T st \<longleftrightarrow> published_as T (sx_streamId st) (sx_revision st) (sx_snapshot st)"

definition leads_to :: "'a session_summary_scheme truth \<Rightarrow> 'a session_summary_scheme stream_event \<Rightarrow> bool" where
  "leads_to T ev \<longleftrightarrow> (\<exists>r q q'. em_revision (meta ev) = Suc (Suc r) \<and> em_previousRevision (meta ev) = Some (Suc r)
     \<and> T (em_streamId (meta ev), Suc r) = Some q \<and> T (em_streamId (meta ev), Suc (Suc r)) = Some q' \<and> snapshot_ok q \<and> snapshot_ok q'
     \<and> (\<forall>k. jmap_get (patched_sessions ev (byId (sp_sessions q))) k = jmap_get (byId (sp_sessions q')) k))"

fun event_authentic :: "'a session_summary_scheme truth \<Rightarrow> 'a session_summary_scheme stream_event \<Rightarrow> bool" where
  "event_authentic T (SnapshotEvent m p) = published_as T (em_streamId m) (em_revision m) p"
| "event_authentic T ev = leads_to T ev"

lemma same_content_refl [simp]: "same_content p p"
  by (simp add: same_content_def)

lemma same_content_trans: "same_content p q \<Longrightarrow> same_content q r \<Longrightarrow> same_content p r"
  by (simp add: same_content_def)

lemma countStatus_mset: "mset xs = mset ys \<Longrightarrow> countStatus st xs = countStatus st ys"
  unfolding countStatus_def by (metis mset_filter size_mset)

lemma published_as_mono: "T \<subseteq>\<^sub>m T' \<Longrightarrow> published_as T s r p \<Longrightarrow> published_as T' s r p"
  unfolding published_as_def map_le_def by (metis domI)

lemma state_authentic_mono: "T \<subseteq>\<^sub>m T' \<Longrightarrow> state_authentic T st \<Longrightarrow> state_authentic T' st"
  by (simp add: state_authentic_def published_as_mono)

lemma leads_to_mono: "T \<subseteq>\<^sub>m T' \<Longrightarrow> leads_to T ev \<Longrightarrow> leads_to T' ev"
  unfolding leads_to_def map_le_def by (metis domI)

lemma event_authentic_mono: "T \<subseteq>\<^sub>m T' \<Longrightarrow> event_authentic T ev \<Longrightarrow> event_authentic T' ev"
  by (cases ev) (auto simp: published_as_mono leads_to_mono)

text \<open>One step of the projection: from the sessions of a revision to those of the next.\<close>

lemma patch_reaches_next:
  assumes lead: "leads_to T ev" and st: "published_as T (em_streamId (meta ev)) r (sx_snapshot c)"
    and r: "em_previousRevision (meta ev) = Some r"
    and values_eq: "values = jmap_values (patched_sessions ev (byId (sp_sessions (sx_snapshot c))))"
  shows "published_as T (em_streamId (meta ev)) (em_revision (meta ev))
    \<lparr>sp_runningCount = countStatus Running values, sp_waitingCount = countStatus Waiting values,
     sp_staleCount = sp_staleCount (sx_snapshot c), sp_sessions = values, sp_updatedAt = u\<rparr>"
proof -
  obtain n q q' where n: "em_revision (meta ev) = Suc (Suc n)" "em_previousRevision (meta ev) = Some (Suc n)"
      "T (em_streamId (meta ev), Suc n) = Some q" "T (em_streamId (meta ev), Suc (Suc n)) = Some q'" and ok: "snapshot_ok q" "snapshot_ok q'"
      and patch: "\<And>k. jmap_get (patched_sessions ev (byId (sp_sessions q))) k = jmap_get (byId (sp_sessions q')) k"
    using lead unfolding leads_to_def by blast
  have c: "mset (sp_sessions (sx_snapshot c)) = mset (sp_sessions q)" "distinct (map su_id (sp_sessions (sx_snapshot c)))" "sp_staleCount (sx_snapshot c) = 0"
    using st r n by (auto simp: published_as_def same_content_def snapshot_ok_def)
  have "jmap_get (patched_sessions ev (byId (sp_sessions (sx_snapshot c)))) k = jmap_get (byId (sp_sessions q')) k" for k
    using patched_cong [of "byId (sp_sessions (sx_snapshot c))" "byId (sp_sessions q)", OF byId_cong [OF c(1,2)]] patch by simp
  then have "mset values = mset (jmap_values (byId (sp_sessions q')))"
    unfolding values_eq by (intro values_cong patched_ok byId_ok)
  then have v: "mset values = mset (sp_sessions q')"
    using ok(2) values_byId [of "sp_sessions q'"] by (simp only: snapshot_ok_def)
  have "distinct (map su_id values)" unfolding values_eq by (rule patched_values_distinct)
  then show ?thesis
    using n ok(2) c(3) v countStatus_mset [OF v]
    by (auto simp: published_as_def snapshot_ok_def same_content_def)
qed

definition next_state :: "'a session_summary_scheme sessions_state \<Rightarrow> 'a session_summary_scheme stream_event \<Rightarrow> 'a session_summary_scheme sessions_state" where
  "next_state c ev = (let values = jmap_values (patched_sessions ev (byId (sp_sessions (sx_snapshot c)))) in
     \<lparr>sx_streamId = em_streamId (meta ev), sx_revision = em_revision (meta ev), sx_lastEventAt = em_generatedAt (meta ev),
      sx_snapshot = \<lparr>sp_runningCount = countStatus Running values, sp_waitingCount = countStatus Waiting values,
        sp_staleCount = sp_staleCount (sx_snapshot c), sp_sessions = values, sp_updatedAt = em_generatedAt (meta ev)\<rparr>\<rparr>)"

lemma apply_patch:
  "\<not> is_SnapshotEvent ev \<Longrightarrow> applyAiSessionStreamEvent current ev = Applied st \<longleftrightarrow>
     (\<exists>c. current = Some c \<and> sx_streamId c = em_streamId (meta ev) \<and> em_previousRevision (meta ev) = Some (sx_revision c)
        \<and> em_revision (meta ev) = Suc (sx_revision c) \<and> st = next_state c ev)"
  by (cases ev; cases current) (auto simp: applyAiSessionStreamEvent_def next_state_def Let_def)

lemma apply_snapshot_event:
  "applyAiSessionStreamEvent current (SnapshotEvent m p) = Applied st \<longleftrightarrow>
     (\<forall>c. current = Some c \<longrightarrow> sx_streamId c = em_streamId m \<longrightarrow> sx_revision c < em_revision m)
     \<and> st = \<lparr>sx_streamId = em_streamId m, sx_revision = em_revision m, sx_lastEventAt = em_generatedAt m, sx_snapshot = p\<rparr>"
  by (cases current) (auto simp: applyAiSessionStreamEvent_def Let_def)

lemma event_authentic_patch: "\<not> is_SnapshotEvent ev \<Longrightarrow> event_authentic T ev = leads_to T ev"
  by (cases ev) auto

lemma apply_authentic:
  assumes ev: "event_authentic T ev" and cur: "\<And>c. current = Some c \<Longrightarrow> state_authentic T c"
    and app: "applyAiSessionStreamEvent current ev = Applied st"
  shows "state_authentic T st"
proof (cases "is_SnapshotEvent ev")
  case True
  then obtain m p where "ev = SnapshotEvent m p" by (cases ev) auto
  with ev app show ?thesis by (auto simp: apply_snapshot_event state_authentic_def)
next
  case False
  with app obtain c where c: "current = Some c" "sx_streamId c = em_streamId (meta ev)"
      "em_previousRevision (meta ev) = Some (sx_revision c)" "st = next_state c ev"
    by (auto simp: apply_patch)
  have "published_as T (em_streamId (meta ev)) (sx_revision c) (sx_snapshot c)"
    using cur [OF c(1)] c(2) by (simp add: state_authentic_def)
  from patch_reaches_next [OF _ this c(3) refl] show ?thesis
    using ev False c(4) by (simp add: event_authentic_patch state_authentic_def next_state_def Let_def)
qed

lemma apply_Applied:
  assumes "applyAiSessionStreamEvent current ev = Applied st"
  shows "sx_streamId st = em_streamId (meta ev)" "sx_revision st = em_revision (meta ev)" "sx_lastEventAt st = em_generatedAt (meta ev)"
    and "current = Some c \<Longrightarrow> sx_streamId c = sx_streamId st \<Longrightarrow> sx_revision c < sx_revision st"
proof -
  consider "\<not> is_SnapshotEvent ev" | m p where "ev = SnapshotEvent m p" by (cases ev) auto
  then have "sx_streamId st = em_streamId (meta ev) \<and> sx_revision st = em_revision (meta ev) \<and> sx_lastEventAt st = em_generatedAt (meta ev)
     \<and> (current = Some c \<longrightarrow> sx_streamId c = sx_streamId st \<longrightarrow> sx_revision c < sx_revision st)"
  proof cases
    case 1
    then show ?thesis using assms by (auto simp: apply_patch next_state_def Let_def)
  next
    case 2
    then show ?thesis using assms by (auto simp: apply_snapshot_event)
  qed
  then show "sx_streamId st = em_streamId (meta ev)" "sx_revision st = em_revision (meta ev)" "sx_lastEventAt st = em_generatedAt (meta ev)"
    and "current = Some c \<Longrightarrow> sx_streamId c = sx_streamId st \<Longrightarrow> sx_revision c < sx_revision st" by auto
qed

section \<open>The authority publishes authentic events\<close>

definition revisions :: "('s stream_event \<times> int) list \<Rightarrow> nat list" where
  "revisions h = map (\<lambda>e. em_revision (meta (fst e))) h"

definition event_of :: "'s authority \<Rightarrow> 's stream_event \<Rightarrow> bool" where
  "event_of au ev \<longleftrightarrow> em_streamId (meta ev) = au_streamId au \<and> em_instanceId (meta ev) = au_instanceId au
     \<and> (\<not> is_SnapshotEvent ev \<longrightarrow> em_previousRevision (meta ev) = Some (em_revision (meta ev) - 1))"

definition authority_inv :: "'a session_summary_scheme truth \<Rightarrow> 'a session_summary_scheme authority \<Rightarrow> bool" where
  "authority_inv T au \<longleftrightarrow>
     (au_last au = None \<longrightarrow> au_revision au = 0)
     \<and> (\<forall>p. au_last au = Some p \<longrightarrow> au_revision au > 0 \<and> T (au_streamId au, au_revision au) = Some p \<and> snapshot_ok p)
     \<and> (\<forall>r > au_revision au. T (au_streamId au, r) = None)
     \<and> length (au_history au) \<le> au_revision au
     \<and> revisions (au_history au) = [Suc (au_revision au) - length (au_history au) ..< Suc (au_revision au)]
     \<and> (\<forall>e \<in> set (au_history au). event_of au (fst e) \<and> event_authentic T (fst e))"

lemma withoutMembers_ok:
  "distinct (map su_id (sp_sessions bound)) \<Longrightarrow> snapshot_ok (withoutAgentRunMemberSessions isMember bound)"
  by (auto simp: snapshot_ok_def withoutAgentRunMemberSessions_def Let_def distinct_map inj_on_def)

text \<open>The patch between two snapshots leads from the one to the other.\<close>

lemma change_leads:
  assumes ok: "snapshot_ok q" "snapshot_ok q'" and change: "projectAiSessionAuthorityChange (Some q) q' = PatchChange up rem"
  shows "jmap_get (patched_sessions (PatchEvent m up rem) (byId (sp_sessions q))) k = jmap_get (byId (sp_sessions q')) k"
proof -
  have d: "distinct (map su_id (sp_sessions q))" "distinct (map su_id (sp_sessions q'))"
    using ok by (auto simp: snapshot_ok_def)
  have up: "up = filter (\<lambda>s. case jmap_get (byId (sp_sessions q)) (su_id s) of None \<Rightarrow> True | Some p \<Rightarrow> p \<noteq> s) (sp_sessions q')"
    and rem: "rem = map su_id (filter (\<lambda>s. \<not> jmap_has (byId (sp_sessions q')) (su_id s)) (sp_sessions q))"
    using change by (auto simp: projectAiSessionAuthorityChange_def sameSession_def Let_def cong: option.case_cong split: if_splits)
  have dup: "distinct (map su_id up)" unfolding up using d(2) by (rule distinct_map_filter)
  have mem_up: "s \<in> set up \<longleftrightarrow> s \<in> set (sp_sessions q') \<and> s \<notin> set (sp_sessions q)" for s
    unfolding up using byId_get [OF d(1), of "su_id s" s] by (auto split: option.splits)
  have mem_rem: "k \<in> set rem \<longleftrightarrow> k \<in> su_id ` set (sp_sessions q) \<and> k \<notin> su_id ` set (sp_sessions q')" for k
    unfolding rem by (auto simp: byId_has [OF d(2)])
  have ups: "map_of (rev (map (\<lambda>s. (su_id s, s)) up)) k = jmap_get (byId up) k" for k
    using get_fold_set [of up "[]" k] by (simp add: byId_def map_add_def split: option.splits)
  have "jmap_get (patched_sessions (PatchEvent m up rem) (byId (sp_sessions q))) k
      = (if k \<in> set rem then None else case jmap_get (byId up) k of Some s \<Rightarrow> Some s | None \<Rightarrow> jmap_get (byId (sp_sessions q)) k)"
    by (simp add: get_fold_delete get_fold_set map_add_def ups)
  also have "\<dots> = jmap_get (byId (sp_sessions q')) k"
  proof (cases "jmap_get (byId (sp_sessions q')) k")
    case None
    then have absent: "k \<notin> su_id ` set (sp_sessions q')" using byId_has [OF d(2), of k] by (simp add: jmap_has_def)
    then have "jmap_get (byId up) k = None" using byId_get [OF dup, of k] mem_up by (metis imageI not_None_eq)
    moreover have "jmap_get (byId (sp_sessions q)) k = None" if "k \<notin> set rem"
      using that absent mem_rem byId_has [OF d(1), of k] by (simp add: jmap_has_def)
    ultimately show ?thesis using None by simp
  next
    case (Some s)
    then have s: "s \<in> set (sp_sessions q')" "su_id s = k" using byId_get [OF d(2)] by auto
    then have "k \<notin> set rem" using mem_rem by blast
    moreover have "jmap_get (byId up) k = Some s" if "s \<notin> set (sp_sessions q)"
      using that s mem_up byId_get [OF dup] by blast
    moreover have "jmap_get (byId up) k = None \<and> jmap_get (byId (sp_sessions q)) k = Some s" if "s \<in> set (sp_sessions q)"
    proof
      show "jmap_get (byId (sp_sessions q)) k = Some s" using that s byId_get [OF d(1)] by blast
      have "\<not> (x \<in> set up \<and> su_id x = k)" for x
        using that s mem_up [of x] Some byId_get [OF d(2), of k x] by auto
      then show "jmap_get (byId up) k = None" using byId_get [OF dup, of k] by (metis option.exhaust)
    qed
    ultimately show ?thesis using Some by (cases "s \<in> set (sp_sessions q)") auto
  qed
  finally show ?thesis .
qed

text \<open>The history keeps the last revisions, whatever the clock does.\<close>

lemma dropWhile_upt: "\<exists>k. dropWhile P xs = drop k xs \<and> k \<le> length xs"
  by (metis dropWhile_eq_drop length_takeWhile_le)

lemma prune_inv: "authority_inv T au \<Longrightarrow> authority_inv T (pruneAiSessionEventHistory env au)"
proof -
  assume inv: "authority_inv T au"
  obtain k where k: "au_history (pruneAiSessionEventHistory env au) = drop k (au_history au)" "k \<le> length (au_history au)"
    using dropWhile_upt by (fastforce simp: pruneAiSessionEventHistory_def)
  have rest: "au_last (pruneAiSessionEventHistory env au) = au_last au" "au_revision (pruneAiSessionEventHistory env au) = au_revision au"
      "au_streamId (pruneAiSessionEventHistory env au) = au_streamId au" "event_of (pruneAiSessionEventHistory env au) = event_of au"
    by (simp_all add: pruneAiSessionEventHistory_def event_of_def fun_eq_iff)
  have "revisions (drop k (au_history au)) = drop k (revisions (au_history au))" by (simp add: revisions_def drop_map)
  also have "\<dots> = [Suc (au_revision au) - length (drop k (au_history au)) ..< Suc (au_revision au)]"
    using inv k(2) by (simp add: authority_inv_def drop_upt del: upt_Suc)
  finally show ?thesis
    using inv k unfolding authority_inv_def rest by (auto simp: in_set_dropD simp del: upt_Suc)
qed

definition publish_event :: "stream_env \<Rightarrow> event_reason \<Rightarrow> 'a session_summary_scheme authority_change \<Rightarrow> 'a session_summary_scheme sessions_snapshot
    \<Rightarrow> 'a session_summary_scheme authority \<Rightarrow> 'a session_summary_scheme stream_event" where
  "publish_event env reason change snapshot au =
     (let m = createAiSessionMeta env reason (au\<lparr>au_revision := au_revision au + 1\<rparr>) in
      case change of PatchChange upserted removed \<Rightarrow> PatchEvent m upserted removed | _ \<Rightarrow> SnapshotEvent m snapshot)"

lemma publish_cases:
  fixes au :: "'a session_summary_scheme authority" and bound isMember env reason
  defines "change \<equiv> projectAiSessionAuthorityChange (au_last au) (withoutAgentRunMemberSessions isMember bound)"
  defines "au' \<equiv> publishAiSessionSnapshot env isMember reason bound au"
  shows "change = Unchanged \<Longrightarrow> au_revision au' = au_revision au \<and> au_last au' = au_last au \<and> au_history au' = au_history au
      \<and> au_streamId au' = au_streamId au \<and> au_instanceId au' = au_instanceId au \<and> au_effects au' = au_effects au @ [FlushDeltas]"
    and "change \<noteq> Unchanged \<Longrightarrow> au_revision au' = Suc (au_revision au) \<and> au_last au' = Some (withoutAgentRunMemberSessions isMember bound)
      \<and> au_history au' = au_history (rememberAiSessionEvent env (publish_event env reason change (withoutAgentRunMemberSessions isMember bound) au) au)
      \<and> au_streamId au' = au_streamId au \<and> au_instanceId au' = au_instanceId au
      \<and> au_effects au' = au_effects au @ [FlushDeltas, Published (publish_event env reason change (withoutAgentRunMemberSessions isMember bound) au),
          HandleTriggers (withoutAgentRunMemberSessions isMember bound)]"
  unfolding au'_def change_def
  by (auto simp: publishAiSessionSnapshot_def publishAiSessionEvent_def rememberAiSessionEvent_def pruneAiSessionEventHistory_def
      publish_event_def createAiSessionMeta_def Let_def split: authority_change.splits)

definition truth_after :: "(string \<Rightarrow> bool) \<Rightarrow> 'a session_summary_scheme sessions_snapshot \<Rightarrow> 'a session_summary_scheme authority
    \<Rightarrow> 'a session_summary_scheme truth \<Rightarrow> 'a session_summary_scheme truth" where
  "truth_after isMember bound au T =
     (let snapshot = withoutAgentRunMemberSessions isMember bound in
      case projectAiSessionAuthorityChange (au_last au) snapshot of
        Unchanged \<Rightarrow> T
      | _ \<Rightarrow> T((au_streamId au, Suc (au_revision au)) \<mapsto> snapshot))"

lemma truth_grows: "authority_inv T au \<Longrightarrow> T \<subseteq>\<^sub>m truth_after isMember bound au T"
  unfolding authority_inv_def truth_after_def Let_def map_le_def
  by (auto split: authority_change.splits)

lemma publish_event_meta:
  "meta (publish_event env reason change snapshot au) = createAiSessionMeta env reason (au\<lparr>au_revision := au_revision au + 1\<rparr>)"
  by (simp add: publish_event_def Let_def split: authority_change.splits)

lemma publish_event_of: "event_of au (publish_event env reason change snapshot au)"
  by (simp add: event_of_def publish_event_meta createAiSessionMeta_def)

lemma publish_event_authentic:
  assumes inv: "authority_inv T au" and bound: "distinct (map su_id (sp_sessions bound))"
    and change: "change = projectAiSessionAuthorityChange (au_last au) (withoutAgentRunMemberSessions isMember bound)" "change \<noteq> Unchanged"
  shows "event_authentic (truth_after isMember bound au T) (publish_event env reason change (withoutAgentRunMemberSessions isMember bound) au)"
proof -
  define snap where "snap = withoutAgentRunMemberSessions isMember bound"
  have ok: "snapshot_ok snap" using withoutMembers_ok [OF bound] by (simp add: snap_def)
  have T': "truth_after isMember bound au T = T((au_streamId au, Suc (au_revision au)) \<mapsto> snap)"
    using change by (simp add: truth_after_def snap_def Let_def split: authority_change.splits)
  show ?thesis
  proof (cases "au_last au")
    case None
    then have "change = FullSnapshot snap" using change by (simp add: projectAiSessionAuthorityChange_def snap_def)
    then show ?thesis using ok by (simp add: publish_event_def Let_def T' published_as_def createAiSessionMeta_def flip: snap_def)
  next
    case (Some q)
    then obtain up rem where up: "change = PatchChange up rem"
      using change by (auto simp: projectAiSessionAuthorityChange_def Let_def cong: option.case_cong split: if_splits)
    obtain r where r: "au_revision au = Suc r" "T (au_streamId au, Suc r) = Some q" "snapshot_ok q"
      using inv Some by (cases "au_revision au") (auto simp: authority_inv_def)
    have "jmap_get (patched_sessions (PatchEvent m up rem) (byId (sp_sessions q))) k = jmap_get (byId (sp_sessions snap)) k" for m k
      using change_leads [OF r(3) ok] change up Some by (simp add: snap_def)
    then show ?thesis
      using ok r by (simp add: up publish_event_def Let_def leads_to_def createAiSessionMeta_def T' flip: snap_def)
  qed
qed

lemma remember_inv:
  assumes "authority_inv T au" "event_of au ev" "event_authentic T' ev" "T \<subseteq>\<^sub>m T'" "em_revision (meta ev) = Suc (au_revision au)"
    and "T' (au_streamId au, Suc (au_revision au)) = Some p" "snapshot_ok p" "\<forall>r > Suc (au_revision au). T' (au_streamId au, r) = None"
  shows "authority_inv T' (au\<lparr>au_revision := Suc (au_revision au), au_last := Some p, au_history := au_history au @ [(ev, now)]\<rparr>)"
proof -
  have "revisions (au_history au @ [(ev, now)]) = [Suc (au_revision au) - length (au_history au) ..< Suc (au_revision au)] @ [Suc (au_revision au)]"
    using assms(1,5) by (simp add: revisions_def authority_inv_def)
  also have "\<dots> = [Suc (Suc (au_revision au)) - length (au_history au @ [(ev, now)]) ..< Suc (Suc (au_revision au))]"
    using upt_Suc [of "Suc (au_revision au) - length (au_history au)" "Suc (au_revision au)"] by simp
  finally have rev: "revisions (au_history au @ [(ev, now)]) = [Suc (Suc (au_revision au)) - length (au_history au @ [(ev, now)]) ..< Suc (Suc (au_revision au))]" .
  show ?thesis
    unfolding authority_inv_def
    using assms rev event_authentic_mono [OF assms(4)] by (auto simp: authority_inv_def event_of_def)
qed

lemma publish_inv:
  assumes inv: "authority_inv T au" and bound: "distinct (map su_id (sp_sessions bound))"
  shows "authority_inv (truth_after isMember bound au T) (publishAiSessionSnapshot env isMember reason bound au)"
proof -
  define snap where "snap = withoutAgentRunMemberSessions isMember bound"
  define change where "change = projectAiSessionAuthorityChange (au_last au) snap"
  define ev where "ev = publish_event env reason change snap au"
  define au' where "au' = publishAiSessionSnapshot env isMember reason bound au"
  define T' where "T' = truth_after isMember bound au T"
  have "authority_inv T' au'"
  proof (cases "change = Unchanged")
    case True
    with publish_cases(1) [of au isMember bound env reason] have
      "au_revision au' = au_revision au" "au_last au' = au_last au" "au_history au' = au_history au" "au_streamId au' = au_streamId au"
      "au_instanceId au' = au_instanceId au" and "T' = T"
      by (simp_all add: change_def snap_def au'_def T'_def truth_after_def Let_def)
    then show ?thesis using inv by (simp add: authority_inv_def event_of_def)
  next
    case False
    from publish_cases(2) [of au isMember bound env reason] False have
      eqs: "au_revision au' = Suc (au_revision au)" "au_last au' = Some snap" "au_history au' = au_history (rememberAiSessionEvent env ev au)"
      "au_streamId au' = au_streamId au" "au_instanceId au' = au_instanceId au"
      by (simp_all add: change_def snap_def au'_def ev_def)
    have T': "T' = T((au_streamId au, Suc (au_revision au)) \<mapsto> snap)"
      using False by (simp add: T'_def truth_after_def change_def snap_def Let_def split: authority_change.splits)
    define mid where "mid = au\<lparr>au_revision := Suc (au_revision au), au_last := Some snap, au_history := au_history au @ [(ev, en_nowMs env)]\<rparr>"
    have "authority_inv T' mid"
      unfolding mid_def
    proof (rule remember_inv [OF inv])
      show "event_of au ev" unfolding ev_def by (rule publish_event_of)
      show "event_authentic T' ev" using publish_event_authentic [OF inv bound refl] False by (simp add: T'_def ev_def change_def snap_def)
      show "T \<subseteq>\<^sub>m T'" unfolding T'_def by (rule truth_grows [OF inv])
      show "em_revision (meta ev) = Suc (au_revision au)" by (simp add: ev_def publish_event_meta createAiSessionMeta_def)
      show "snapshot_ok snap" unfolding snap_def by (rule withoutMembers_ok [OF bound])
    qed (use inv in \<open>simp_all add: T' authority_inv_def\<close>)
    then have "authority_inv T' (pruneAiSessionEventHistory env mid)" by (rule prune_inv)
    then show ?thesis
      by (simp add: authority_inv_def event_of_def eqs rememberAiSessionEvent_def pruneAiSessionEventHistory_def mid_def)
  qed
  then show ?thesis by (simp add: T'_def au'_def)
qed

section \<open>Deltas and states\<close>

lemma state_endpoint_authentic:
  assumes "authority_inv T au" "distinct (map su_id (sp_sessions bound))"
  shows "state_authentic T (aiSessionsState True isMember bound au)"
  using assms withoutMembers_ok [OF assms(2)]
  by (cases "au_last au") (auto simp: authority_inv_def aiSessionsState_def state_authentic_def published_as_def
      projectAiSessionsSnapshotForConsumer_def)

text \<open>A delta carries the consecutive events after the requested revision, or asks for a snapshot.\<close>

definition delta_authentic :: "'a session_summary_scheme truth \<Rightarrow> 'a session_summary_scheme delta_response \<Rightarrow> bool" where
  "delta_authentic T d \<longleftrightarrow> (\<forall>ev \<in> set (dr_events d). event_authentic T ev \<and> em_streamId (meta ev) = dr_streamId d)
     \<and> (\<not> dr_syncRequired d \<longrightarrow> dr_sinceRevision d \<le> dr_latestRevision d
          \<and> map (\<lambda>ev. em_revision (meta ev)) (dr_events d) = [Suc (dr_sinceRevision d) ..< Suc (dr_latestRevision d)]
          \<and> (\<forall>ev \<in> set (dr_events d). \<not> is_SnapshotEvent ev \<longrightarrow> em_previousRevision (meta ev) = Some (em_revision (meta ev) - 1)))"

lemma filter_upt_gt: "filter (\<lambda>r. s < r) [a ..< b] = [max a (Suc s) ..< b]"
proof (induction b)
  case (Suc b)
  then show ?case by (auto simp: max_def)
qed simp

lemma delta_since_authentic:
  assumes inv: "authority_inv T au"
  shows "delta_authentic T (fst (aiSessionDeltaSince env streamId since au))"
proof -
  define au1 where "au1 = pruneAiSessionEventHistory env au"
  define evs where "evs = filter (\<lambda>ev. em_revision (meta ev) > since) (map fst (au_history au1))"
  have inv1: "authority_inv T au1" unfolding au1_def using inv by (rule prune_inv)
  let ?n = "length (au_history au1)"
  have sub: "event_of au1 ev \<and> event_authentic T ev" if "ev \<in> set evs" for ev
    using that inv1 by (auto simp: evs_def authority_inv_def)
  have "map (\<lambda>ev. em_revision (meta ev)) evs = filter (\<lambda>r. since < r) (revisions (au_history au1))"
    by (simp add: evs_def revisions_def filter_map comp_def)
  also have "\<dots> = [max (Suc (au_revision au1) - ?n) (Suc since) ..< Suc (au_revision au1)]"
    using inv1 filter_upt_gt by (simp add: authority_inv_def del: upt_Suc)
  finally have revs: "map (\<lambda>ev. em_revision (meta ev)) evs = [max (Suc (au_revision au1) - ?n) (Suc since) ..< Suc (au_revision au1)]" .
  have cont: "map (\<lambda>ev. em_revision (meta ev)) evs = [Suc since ..< Suc (au_revision au1)]"
    if "evs = e # es" "em_revision (meta e) = Suc since" for e es
  proof -
    have "max (Suc (au_revision au1) - ?n) (Suc since) = Suc since"
      using revs that by (metis hd_upt list.sel(1) list.simps(8) list.simps(9) upt_eq_Nil_conv not_Cons_self2 linorder_not_le list.distinct(1))
    then show ?thesis using revs by simp
  qed
  have "au_streamId au1 = em_streamId (meta ev) \<and> (\<not> is_SnapshotEvent ev \<longrightarrow> em_previousRevision (meta ev) = Some (em_revision (meta ev) - 1))"
    if "ev \<in> set evs" for ev using sub [OF that] by (simp add: event_of_def)
  then show ?thesis
    using sub cont unfolding aiSessionDeltaSince_def Let_def au1_def [symmetric] evs_def [symmetric] delta_authentic_def
    by (auto simp del: upt_Suc split: list.splits)
qed

text \<open>Folding the events of a delta into a projection that stands at the requested revision reaches the latest one.\<close>

fun apply_all :: "'a session_summary_scheme sessions_state option \<Rightarrow> 'a session_summary_scheme stream_event list \<Rightarrow> 'a session_summary_scheme sessions_state option" where
  "apply_all current [] = current"
| "apply_all current (ev # evs) =
     (case applyAiSessionStreamEvent current ev of Applied st \<Rightarrow> apply_all (Some st) evs | _ \<Rightarrow> apply_all current evs)"

lemma apply_next:
  assumes "em_streamId (meta ev) = sx_streamId c" "em_revision (meta ev) = Suc (sx_revision c)"
    "\<not> is_SnapshotEvent ev \<longrightarrow> em_previousRevision (meta ev) = Some (sx_revision c)"
  shows "\<exists>st. applyAiSessionStreamEvent (Some c) ev = Applied st"
proof (cases "is_SnapshotEvent ev")
  case True
  then obtain m p where "ev = SnapshotEvent m p" by (cases ev) auto
  then show ?thesis using assms by (auto simp: apply_snapshot_event)
next
  case False
  then show ?thesis using assms by (auto simp: apply_patch)
qed

lemma apply_all_reaches:
  assumes "\<forall>ev \<in> set evs. em_streamId (meta ev) = sx_streamId c
      \<and> (\<not> is_SnapshotEvent ev \<longrightarrow> em_previousRevision (meta ev) = Some (em_revision (meta ev) - 1))"
    and "map (\<lambda>ev. em_revision (meta ev)) evs = [Suc (sx_revision c) ..< Suc n]" "sx_revision c \<le> n"
  shows "\<exists>st. apply_all (Some c) evs = Some st \<and> sx_streamId st = sx_streamId c \<and> sx_revision st = n"
  using assms
proof (induction evs arbitrary: c)
  case Nil
  then have "[Suc (sx_revision c) ..< Suc n] = []" by (simp only: list.map)
  then have "sx_revision c = n" using Nil(3) by (simp add: upt_eq_Nil_conv del: upt_Suc)
  then show ?case by simp
next
  case (Cons ev evs)
  have lt: "sx_revision c < n" using Cons.prems(2) by (cases "sx_revision c < n") auto
  then have revs: "em_revision (meta ev) = Suc (sx_revision c)" "map (\<lambda>ev. em_revision (meta ev)) evs = [Suc (Suc (sx_revision c)) ..< Suc n]"
    using Cons.prems(2) by (auto simp: upt_conv_Cons simp del: upt_Suc)
  obtain st where st: "applyAiSessionStreamEvent (Some c) ev = Applied st"
    using apply_next [of ev c] Cons.prems(1) revs(1) by auto
  note ap = apply_Applied [OF st]
  have "\<exists>st'. apply_all (Some st) evs = Some st' \<and> sx_streamId st' = sx_streamId st \<and> sx_revision st' = n"
    using Cons.prems(1) ap revs lt by (intro Cons.IH) (auto simp del: upt_Suc)
  then show ?case using st ap Cons.prems(1) by simp
qed

lemma apply_all_authentic:
  "\<forall>ev \<in> set evs. event_authentic T ev \<Longrightarrow> \<forall>c. current = Some c \<longrightarrow> state_authentic T c \<Longrightarrow>
     apply_all current evs = Some st \<Longrightarrow> state_authentic T st"
proof (induction evs arbitrary: current)
  case (Cons ev evs)
  have step: "state_authentic T st'" if "applyAiSessionStreamEvent current ev = Applied st'" for st'
    by (rule apply_authentic [OF _ _ that]) (simp_all add: Cons.prems(1,2))
  show ?case
  proof (cases "\<exists>st'. applyAiSessionStreamEvent current ev = Applied st'")
    case True
    then obtain st' where st': "applyAiSessionStreamEvent current ev = Applied st'" ..
    show ?thesis by (rule Cons.IH [of "Some st'"]) (use Cons.prems step st' in auto)
  next
    case False
    then have "apply_all current (ev # evs) = apply_all current evs" by (simp split: apply_result.splits)
    then show ?thesis using Cons.prems by (intro Cons.IH [of current]) auto
  qed
qed simp

section \<open>Consumers without a hierarchy see the same stream\<close>

definition project_state :: "bool \<Rightarrow> 'a session_summary_scheme sessions_state \<Rightarrow> 'a session_summary_scheme sessions_state" where
  "project_state subagents st = st\<lparr>sx_snapshot := projectAiSessionsSnapshotForConsumer subagents (sx_snapshot st)\<rparr>"

fun project_result :: "bool \<Rightarrow> 'a session_summary_scheme apply_result \<Rightarrow> 'a session_summary_scheme apply_result" where
  "project_result b (Applied st) = Applied (project_state b st)"
| "project_result b (Duplicate st) = Duplicate (project_state b st)"
| "project_result b (Stale st) = Stale (project_state b st)"
| "project_result b (Gap st expected received) = Gap (project_state b st) expected received"
| "project_result b (SnapshotRequired st streamId) = SnapshotRequired (map_option (project_state b) st) streamId"

abbreviation on_values :: "('v \<Rightarrow> 'w) \<Rightarrow> ('k, 'v) jmap \<Rightarrow> ('k, 'w) jmap" where
  "on_values f m \<equiv> map (\<lambda>(k, v). (k, f v)) m"

lemma set_on_values: "jmap_set k (f v) (on_values f m) = on_values f (jmap_set k v m)"
  by (induction m) (auto simp: jmap_set_def)

lemma delete_on_values: "jmap_delete k (on_values f m) = on_values f (jmap_delete k m)"
  by (induction m) (auto simp: jmap_delete_def)

lemma fold_set_on_values:
  assumes "\<And>s. su_id (f s) = su_id s"
  shows "fold (\<lambda>s. jmap_set (su_id s) s) (map f ss) (on_values f m) = on_values f (fold (\<lambda>s. jmap_set (su_id s) s) ss m)"
  by (induction ss arbitrary: m) (simp_all add: assms set_on_values)

lemma fold_delete_on_values: "fold jmap_delete ids (on_values f m) = on_values f (fold jmap_delete ids m)"
  by (induction ids arbitrary: m) (simp_all add: delete_on_values)

lemma project_lineage_kept [simp]:
  "su_id (projectSessionLineageForConsumer b s) = su_id s" "su_status (projectSessionLineageForConsumer b s) = su_status s"
  by (simp_all add: projectSessionLineageForConsumer_def split: option.splits lineage.splits)

lemma project_lineage_True: "projectSessionLineageForConsumer True = (\<lambda>s. s)"
  by (auto simp: projectSessionLineageForConsumer_def fun_eq_iff split: option.splits lineage.splits)

lemma project_snapshot: "projectAiSessionsSnapshotForConsumer b p = p\<lparr>sp_sessions := map (projectSessionLineageForConsumer b) (sp_sessions p)\<rparr>"
  by (cases b) (simp_all add: projectAiSessionsSnapshotForConsumer_def project_lineage_True)

lemma byId_project: "byId (map (projectSessionLineageForConsumer b) ss) = on_values (projectSessionLineageForConsumer b) (byId ss)"
  unfolding byId_def using fold_set_on_values [of "projectSessionLineageForConsumer b" ss "[]"] by simp

lemma patched_project:
  "patched_sessions (projectAiSessionStreamEventForConsumer b ev) (on_values (projectSessionLineageForConsumer b) m)
     = on_values (projectSessionLineageForConsumer b) (patched_sessions ev m)"
  by (cases ev; cases b) (simp_all add: fold_delete_on_values fold_set_on_values [of "projectSessionLineageForConsumer False"] project_lineage_True case_prod_eta)

lemma count_project: "countStatus st (map (projectSessionLineageForConsumer b) ss) = countStatus st ss"
  by (simp add: countStatus_def filter_map comp_def)

lemma project_event_meta [simp]:
  "meta (projectAiSessionStreamEventForConsumer b ev) = meta ev"
  "is_SnapshotEvent (projectAiSessionStreamEventForConsumer b ev) = is_SnapshotEvent ev"
  by (cases ev; cases b; simp)+

lemma values_on_values: "jmap_values (on_values f m) = map f (jmap_values m)"
  by (induction m) auto

lemma next_state_project:
  "next_state (project_state b c) (projectAiSessionStreamEventForConsumer b ev) = project_state b (next_state c ev)"
proof -
  have sessions: "sp_sessions (sx_snapshot (project_state b c)) = map (projectSessionLineageForConsumer b) (sp_sessions (sx_snapshot c))"
    by (simp add: project_state_def project_snapshot)
  have "jmap_values (patched_sessions (projectAiSessionStreamEventForConsumer b ev) (byId (sp_sessions (sx_snapshot (project_state b c)))))
      = map (projectSessionLineageForConsumer b) (jmap_values (patched_sessions ev (byId (sp_sessions (sx_snapshot c)))))"
    unfolding sessions by (simp only: byId_project patched_project values_on_values)
  then show ?thesis
    unfolding next_state_def by (simp only: Let_def count_project project_event_meta) (simp add: project_state_def project_snapshot)
qed

lemma project_delta_event_eq: "project_delta_event b ev = projectAiSessionStreamEventForConsumer b ev"
  by (cases ev; cases b) (simp_all add: project_snapshot project_lineage_True)

lemma apply_rejects:
  "\<not> is_SnapshotEvent ev \<Longrightarrow> applyAiSessionStreamEvent None ev = SnapshotRequired None (em_streamId (meta ev))"
  "\<not> is_SnapshotEvent ev \<Longrightarrow> sx_streamId c \<noteq> em_streamId (meta ev) \<Longrightarrow>
     applyAiSessionStreamEvent (Some c) ev = SnapshotRequired (Some c) (em_streamId (meta ev))"
  "sx_streamId c = em_streamId (meta ev) \<Longrightarrow> em_revision (meta ev) = sx_revision c \<Longrightarrow> applyAiSessionStreamEvent (Some c) ev = Duplicate c"
  "sx_streamId c = em_streamId (meta ev) \<Longrightarrow> em_revision (meta ev) < sx_revision c \<Longrightarrow> applyAiSessionStreamEvent (Some c) ev = Stale c"
  "\<not> is_SnapshotEvent ev \<Longrightarrow> sx_streamId c = em_streamId (meta ev) \<Longrightarrow> em_revision (meta ev) > sx_revision c \<Longrightarrow>
     em_revision (meta ev) \<noteq> Suc (sx_revision c) \<or> em_previousRevision (meta ev) \<noteq> Some (sx_revision c) \<Longrightarrow>
     applyAiSessionStreamEvent (Some c) ev = Gap c (Suc (sx_revision c)) (em_revision (meta ev))"
  by (cases ev; simp add: applyAiSessionStreamEvent_def Let_def)+

text \<open>
  
  For a consumer without a hierarchy the instance removes the sub-agent relation from every snapshot and from every event.
  Folding the flattened event into the flattened projection gives exactly the flattened result, on every branch:
  such a consumer follows the same stream and misses nothing but the relation.
\<close>

theorem flattened_stream_equivalent:
  "applyAiSessionStreamEvent (map_option (project_state b) current) (projectAiSessionStreamEventForConsumer b ev)
     = project_result b (applyAiSessionStreamEvent current ev)"
proof (cases "is_SnapshotEvent ev")
  case True
  then obtain m p where ev: "ev = SnapshotEvent m p" by (cases ev) auto
  have "projectAiSessionStreamEventForConsumer b ev = SnapshotEvent m (projectAiSessionsSnapshotForConsumer b p)"
    by (simp add: ev project_snapshot project_lineage_True)
  then show ?thesis
    by (cases current) (simp_all add: ev applyAiSessionStreamEvent_def Let_def project_state_def)
next
  case False
  then show ?thesis
  proof (cases current)
    case None
    then show ?thesis using False by (simp add: apply_rejects)
  next
    case (Some c)
    have [simp]: "sx_streamId (project_state b c) = sx_streamId c" "sx_revision (project_state b c) = sx_revision c"
      by (simp_all add: project_state_def)
    consider "\<exists>st. applyAiSessionStreamEvent (Some c) ev = Applied st" | "sx_streamId c \<noteq> em_streamId (meta ev)"
      | "sx_streamId c = em_streamId (meta ev)" "em_revision (meta ev) = sx_revision c"
      | "sx_streamId c = em_streamId (meta ev)" "em_revision (meta ev) < sx_revision c"
      | "sx_streamId c = em_streamId (meta ev)" "em_revision (meta ev) > sx_revision c"
        "em_revision (meta ev) \<noteq> Suc (sx_revision c) \<or> em_previousRevision (meta ev) \<noteq> Some (sx_revision c)"
      using False by (auto simp: apply_patch) (metis linorder_less_linear)
    then show ?thesis
    proof cases
      case 1
      then obtain st where st: "applyAiSessionStreamEvent (Some c) ev = Applied st" ..
      then have "applyAiSessionStreamEvent (Some (project_state b c)) (projectAiSessionStreamEventForConsumer b ev) = Applied (project_state b st)"
        using False by (auto simp: apply_patch next_state_project)
      then show ?thesis using Some st by simp
    qed (use False Some in \<open>simp_all add: apply_rejects\<close>)
  qed
qed

end
