(* ===== verification/Session_Aggregator.thy ===== *)
theory Session_Aggregator
  imports Session_Stream
begin

text \<open>
  The control plane's view of the sessions of all instances (class \<^verbatim>\<open>ControlPlaneAiSessionAggregator\<close> in
  \<^verbatim>\<open>packages/control-plane/src/control-plane/sessions/ai-session-aggregator.ts\<close>): it folds the event
  streams of the instances into projections, retains the accepted events for its own consumers and,
  when a stream has a gap, recovers it with a delta or a snapshot. The asynchronous functions are
  split at every \<^verbatim>\<open>await\<close>: a recovery that waits is a record that says what it waits for, and
  \<open>recovery_resume\<close> is what runs when the answer arrives. The code compares projections by object
  identity; every stored projection therefore carries the serial number of its creation. When the
  loop of a recovery has returned or thrown, its record stays until the callback of \<^verbatim>\<open>finally\<close>
  runs as a job of its own: such a record waits for \<open>AwaitFinally\<close>, and \<open>recovery_finally\<close> is
  that callback. Logging is left out.
\<close>

section \<open>State\<close>

record stream_descriptor =
  sd_streamId :: string
  sd_latestRevision :: nat
  sd_earliestRetainedRevision :: nat

text \<open>\<open>AwaitFinally failed\<close>: the loop has ended, by an exception if \<open>failed\<close>, and the record is about to be deleted.\<close>

datatype await = AwaitState | AwaitDelta string nat | AwaitFallback | AwaitFinally bool

record recovery =
  rc_streamId :: string
  rc_highWater :: nat
  rc_number :: nat
  rc_await :: await
  rc_waiters :: nat

record agg_counters =
  co_streamResets :: nat
  co_gaps :: nat
  co_deltaRecoveries :: nat
  co_snapshotRecoveries :: nat
  co_recoveryFailures :: nat

record 's instance_entry =
  ie_instanceId :: string
  ie_streamId :: string
  ie_aiSessions :: "'s sessions_snapshot"
  ie_revision :: nat
  ie_lastEventAt :: string

type_synonym 's stored = "nat \<times> 's sessions_state"

record 's aggregator =
  ag_snapshots :: "(string, 's stored) jmap"
  ag_history :: "(string, ('s stream_event \<times> int) list) jmap"
  ag_advertised :: "(string, stream_descriptor) jmap"
  ag_recoveries :: "(string, recovery) jmap"
  ag_recoveryCount :: nat
  ag_counters :: agg_counters
  ag_hasRecoverDelta :: bool
  ag_hasRecoverSnapshot :: bool
  ag_serial :: nat
  ag_updates :: "'s instance_entry list"
  ag_recovered :: "'s stream_event list"

definition aggregator_new :: "bool \<Rightarrow> bool \<Rightarrow> 's aggregator" where
  "aggregator_new hasDelta hasSnapshot =
     \<lparr>ag_snapshots = [], ag_history = [], ag_advertised = [], ag_recoveries = [], ag_recoveryCount = 0,
      ag_counters = \<lparr>co_streamResets = 0, co_gaps = 0, co_deltaRecoveries = 0, co_snapshotRecoveries = 0, co_recoveryFailures = 0\<rparr>,
      ag_hasRecoverDelta = hasDelta, ag_hasRecoverSnapshot = hasSnapshot, ag_serial = 0, ag_updates = [], ag_recovered = []\<rparr>"

definition projection_of :: "'s aggregator \<Rightarrow> string \<Rightarrow> 's sessions_state option" where
  "projection_of ag i = map_option snd (jmap_get (ag_snapshots ag) i)"

definition snapshotForInstance :: "'s aggregator \<Rightarrow> string \<Rightarrow> 's sessions_snapshot option" where
  "snapshotForInstance ag i = map_option sx_snapshot (projection_of ag i)"

section \<open>Retained events\<close>

definition retained_events :: "'s aggregator \<Rightarrow> string \<Rightarrow> ('s stream_event \<times> int) list" where
  "retained_events ag i = (case jmap_get (ag_history ag) i of Some events \<Rightarrow> events | None \<Rightarrow> [])"

definition agg_pruneHistory :: "stream_env \<Rightarrow> string \<Rightarrow> 's aggregator \<Rightarrow> 's aggregator" where
  "agg_pruneHistory env i ag =
     (case jmap_get (ag_history ag) i of
        None \<Rightarrow> ag
      | Some [] \<Rightarrow> ag
      | Some events \<Rightarrow>
          let retained = filter (\<lambda>(_, createdAtMs). createdAtMs \<ge> en_nowMs env - AI_SESSION_DELTA_RETENTION_MS) events
          in if retained \<noteq> [] then ag\<lparr>ag_history := jmap_set i retained (ag_history ag)\<rparr>
             else ag\<lparr>ag_history := jmap_delete i (ag_history ag)\<rparr>)"

definition agg_rememberEvent :: "stream_env \<Rightarrow> string \<Rightarrow> 's stream_event \<Rightarrow> 's aggregator \<Rightarrow> 's aggregator" where
  "agg_rememberEvent env i event ag =
     (let current = retained_events ag i;
          events = (case current of (e, _) # _ \<Rightarrow> if em_streamId (meta e) \<noteq> em_streamId (meta event) then [] else current | [] \<Rightarrow> current)
      in agg_pruneHistory env i (ag\<lparr>ag_history := jmap_set i (events @ [(event, en_nowMs env)]) (ag_history ag)\<rparr>))"

section \<open>Recovery\<close>

text \<open>
  From the top of the recovery loop to its next \<^verbatim>\<open>await\<close> or its end. When neither branch of the
  loop applies nothing was awaited and the closing test of the loop, the same comparison, ends it.
\<close>

definition recovery_top :: "string \<Rightarrow> 's aggregator \<Rightarrow> recovery \<Rightarrow> recovery" where
  "recovery_top i ag rc0 =
     (case jmap_get (ag_advertised ag) i of
        None \<Rightarrow> rc0\<lparr>rc_await := AwaitFinally False\<rparr>
      | Some descriptor \<Rightarrow>
          let rc = (if rc_streamId rc0 \<noteq> sd_streamId descriptor
                then rc0\<lparr>rc_streamId := sd_streamId descriptor, rc_highWater := sd_latestRevision descriptor\<rparr> else rc0)
          in case projection_of ag i of
               None \<Rightarrow> rc\<lparr>rc_await := AwaitState\<rparr>
             | Some current \<Rightarrow>
                 if sx_streamId current \<noteq> sd_streamId descriptor then rc\<lparr>rc_await := AwaitState\<rparr>
                 else if sx_revision current < max (sd_latestRevision descriptor) (rc_highWater rc)
                 then rc\<lparr>rc_await := AwaitDelta (sx_streamId current) (sx_revision current)\<rparr>
                 else rc\<lparr>rc_await := AwaitFinally False\<rparr>)"

definition recoverStream :: "string \<Rightarrow> string \<Rightarrow> nat \<Rightarrow> 's aggregator \<Rightarrow> 's aggregator" where
  "recoverStream i streamId highWater ag =
     (case jmap_get (ag_recoveries ag) i of
        Some existing \<Rightarrow>
          let rc = (if rc_streamId existing = streamId then existing\<lparr>rc_highWater := max (rc_highWater existing) highWater\<rparr>
                else existing\<lparr>rc_streamId := streamId, rc_highWater := highWater\<rparr>)
          in ag\<lparr>ag_recoveries := jmap_set i rc (ag_recoveries ag)\<rparr>
      | None \<Rightarrow>
          if \<not> ag_hasRecoverDelta ag \<or> \<not> ag_hasRecoverSnapshot ag then ag
          else
            let ag = ag\<lparr>ag_recoveryCount := ag_recoveryCount ag + 1\<rparr>;
                rc = \<lparr>rc_streamId = streamId, rc_highWater = highWater, rc_number = ag_recoveryCount ag, rc_await = AwaitState, rc_waiters = 0\<rparr>
            in ag\<lparr>ag_recoveries := jmap_set i (recovery_top i ag rc) (ag_recoveries ag)\<rparr>)"

definition raise_highWater :: "string \<Rightarrow> nat \<Rightarrow> 's aggregator \<Rightarrow> 's aggregator" where
  "raise_highWater i revision ag =
     (case jmap_get (ag_recoveries ag) i of
        None \<Rightarrow> ag
      | Some rc \<Rightarrow> ag\<lparr>ag_recoveries := jmap_set i (rc\<lparr>rc_highWater := max (rc_highWater rc) revision\<rparr>) (ag_recoveries ag)\<rparr>)"

section \<open>Applying events\<close>

definition entry_of :: "string \<Rightarrow> 's sessions_state \<Rightarrow> 's instance_entry" where
  "entry_of i st = \<lparr>ie_instanceId = i, ie_streamId = sx_streamId st, ie_aiSessions = sx_snapshot st, ie_revision = sx_revision st,
     ie_lastEventAt = sx_lastEventAt st\<rparr>"

definition obsolete_stream :: "'s aggregator \<Rightarrow> string \<Rightarrow> string \<Rightarrow> bool" where
  "obsolete_stream ag i streamId = (case jmap_get (ag_advertised ag) i of
     Some d \<Rightarrow> sd_streamId d \<noteq> [] \<and> sd_streamId d \<noteq> streamId | None \<Rightarrow> False)"

definition count_reset :: "'a session_summary_scheme stream_event \<Rightarrow> 'a session_summary_scheme aggregator \<Rightarrow> 'a session_summary_scheme aggregator" where
  "count_reset event ag =
     (case projection_of ag (em_instanceId (meta event)) of
        Some c \<Rightarrow> if is_SnapshotEvent event \<and> sx_streamId c \<noteq> em_streamId (meta event)
          then ag\<lparr>ag_counters := (ag_counters ag)\<lparr>co_streamResets := co_streamResets (ag_counters ag) + 1\<rparr>\<rparr> else ag
      | None \<Rightarrow> ag)"

definition agg_accept :: "stream_env \<Rightarrow> 'a session_summary_scheme stream_event \<Rightarrow> 'a session_summary_scheme sessions_state \<Rightarrow> 'a session_summary_scheme aggregator
    \<Rightarrow> 'a session_summary_scheme aggregator" where
  "agg_accept env event st ag =
     (let i = em_instanceId (meta event);
          ag = ag\<lparr>ag_snapshots := jmap_set i (ag_serial ag, st) (ag_snapshots ag), ag_serial := ag_serial ag + 1\<rparr>;
          ag = agg_rememberEvent env i event ag
      in ag\<lparr>ag_updates := ag_updates ag @ [entry_of i st]\<rparr>)"

definition agg_apply :: "stream_env \<Rightarrow> bool \<Rightarrow> 'a session_summary_scheme stream_event \<Rightarrow> 'a session_summary_scheme aggregator
    \<Rightarrow> bool \<times> 'a session_summary_scheme aggregator" where
  "agg_apply env recovering event ag =
     (let m = meta event; i = em_instanceId m in
      if obsolete_stream ag i (em_streamId m) then (False, ag)
      else if jmap_has (ag_recoveries ag) i \<and> \<not> recovering then
        (False, if map_option rc_streamId (jmap_get (ag_recoveries ag) i) = Some (em_streamId m) then raise_highWater i (em_revision m) ag else ag)
      else
        let current = projection_of ag i; ag = count_reset event ag in
        case applyAiSessionStreamEvent current event of
          Applied st \<Rightarrow> (True, agg_accept env event st ag)
        | Gap _ _ _ \<Rightarrow> (False, recoverStream i (em_streamId m) (em_revision m)
            (ag\<lparr>ag_counters := (ag_counters ag)\<lparr>co_gaps := co_gaps (ag_counters ag) + 1\<rparr>\<rparr>))
        | SnapshotRequired _ _ \<Rightarrow> (False, recoverStream i (em_streamId m) (em_revision m) ag)
        | _ \<Rightarrow> (False, ag))"

definition applySnapshot :: "stream_env \<Rightarrow> event_meta \<Rightarrow> 'a session_summary_scheme sessions_snapshot \<Rightarrow> 'a session_summary_scheme aggregator
    \<Rightarrow> bool \<times> 'a session_summary_scheme aggregator" where
  "applySnapshot env m snapshot ag =
     (if obsolete_stream ag (em_instanceId m) (em_streamId m) then (False, ag) else agg_apply env False (SnapshotEvent m snapshot) ag)"

text \<open>
  An envelope from the event bus, after the schema of its type: transient events are only checked,
  events of another type are refused.
\<close>

datatype 's envelope = TransientEvent bool | StreamEnvelope "'s stream_event" | InvalidStreamEvent | OtherEvent

fun agg_handleEvent :: "stream_env \<Rightarrow> 'a session_summary_scheme envelope \<Rightarrow> 'a session_summary_scheme aggregator \<Rightarrow> bool \<times> 'a session_summary_scheme aggregator" where
  "agg_handleEvent env (TransientEvent valid) ag = (valid, ag)"
| "agg_handleEvent env OtherEvent ag = (False, ag)"
| "agg_handleEvent env InvalidStreamEvent ag = (False, ag)"
| "agg_handleEvent env (StreamEnvelope (SnapshotEvent m p)) ag = applySnapshot env m p ag"
| "agg_handleEvent env (StreamEnvelope event) ag = agg_apply env False event ag"

definition apply_and_forward :: "stream_env \<Rightarrow> bool \<Rightarrow> 'a session_summary_scheme stream_event \<Rightarrow> 'a session_summary_scheme aggregator \<Rightarrow> 'a session_summary_scheme aggregator" where
  "apply_and_forward env recovering event ag =
     (case agg_apply env recovering event ag of (accepted, ag) \<Rightarrow>
        if accepted then ag\<lparr>ag_recovered := ag_recovered ag @ [event]\<rparr> else ag)"

definition advertiseStream :: "string \<Rightarrow> stream_descriptor \<Rightarrow> 's aggregator \<Rightarrow> 's aggregator" where
  "advertiseStream i descriptor ag =
     (let ag = recoverStream i (sd_streamId descriptor) (sd_latestRevision descriptor)
            (ag\<lparr>ag_advertised := jmap_set i descriptor (ag_advertised ag)\<rparr>)
      in case jmap_get (ag_recoveries ag) i of
           None \<Rightarrow> ag
         | Some rc \<Rightarrow> ag\<lparr>ag_recoveries := jmap_set i (rc\<lparr>rc_waiters := rc_waiters rc + 1\<rparr>) (ag_recoveries ag)\<rparr>)"

definition removeInstance :: "string \<Rightarrow> 's aggregator \<Rightarrow> 's aggregator" where
  "removeInstance i ag = ag\<lparr>ag_snapshots := jmap_delete i (ag_snapshots ag), ag_history := jmap_delete i (ag_history ag),
     ag_advertised := jmap_delete i (ag_advertised ag)\<rparr>"

section \<open>Resuming a recovery\<close>

text \<open>A snapshot read over HTTP enters the projection as a snapshot event of the aggregator's own making.\<close>

definition state_event :: "stream_env \<Rightarrow> string \<Rightarrow> 'a session_summary_scheme sessions_state \<Rightarrow> 'a session_summary_scheme stream_event" where
  "state_event env i st = SnapshotEvent \<lparr>em_streamId = sx_streamId st, em_instanceId = i, em_nodeId = None, em_revision = sx_revision st,
     em_previousRevision = None, em_traceId = en_traceId env, em_generatedAt = sx_lastEventAt st, em_reason = Startup\<rparr> (sx_snapshot st)"

datatype 's answer = StateAnswer "'s sessions_state" | DeltaAnswer "'s delta_response" | Failure

definition recovery_loop :: "string \<Rightarrow> 's aggregator \<Rightarrow> 's aggregator" where
  "recovery_loop i ag =
     (case jmap_get (ag_recoveries ag) i of
        None \<Rightarrow> ag
      | Some rc \<Rightarrow> ag\<lparr>ag_recoveries := jmap_set i (recovery_top i ag rc) (ag_recoveries ag)\<rparr>)"

definition recovered_now :: "string \<Rightarrow> recovery \<Rightarrow> 's aggregator \<Rightarrow> bool" where
  "recovered_now i rc ag =
     (case (projection_of ag i, jmap_get (ag_advertised ag) i) of
        (Some latest, Some advertised) \<Rightarrow> sx_streamId latest = sd_streamId advertised
          \<and> sx_revision latest \<ge> max (sd_latestRevision advertised) (rc_highWater rc)
      | _ \<Rightarrow> False)"

definition recovery_bottom :: "string \<Rightarrow> 's aggregator \<Rightarrow> 's aggregator" where
  "recovery_bottom i ag =
     (case jmap_get (ag_recoveries ag) i of
        None \<Rightarrow> ag
      | Some rc \<Rightarrow>
          if recovered_now i rc ag then ag\<lparr>ag_recoveries := jmap_set i (rc\<lparr>rc_await := AwaitFinally False\<rparr>) (ag_recoveries ag)\<rparr>
          else recovery_loop i ag)"

definition advertised_stream :: "'s aggregator \<Rightarrow> string \<Rightarrow> string option" where
  "advertised_stream ag i = map_option sd_streamId (jmap_get (ag_advertised ag) i)"

definition resume_state :: "stream_env \<Rightarrow> string \<Rightarrow> 'a session_summary_scheme sessions_state \<Rightarrow> 'a session_summary_scheme aggregator
    \<Rightarrow> 'a session_summary_scheme aggregator" where
  "resume_state env i st ag =
     (if advertised_stream ag i \<noteq> Some (sx_streamId st) then recovery_loop i ag
      else
        let ag = apply_and_forward env True (state_event env i st) ag;
            ag = ag\<lparr>ag_counters := (ag_counters ag)\<lparr>co_snapshotRecoveries := co_snapshotRecoveries (ag_counters ag) + 1\<rparr>\<rparr>
        in recovery_bottom i ag)"

definition resume_delta :: "stream_env \<Rightarrow> string \<Rightarrow> 'a session_summary_scheme delta_response \<Rightarrow> recovery \<Rightarrow> 'a session_summary_scheme aggregator
    \<Rightarrow> 'a session_summary_scheme aggregator" where
  "resume_delta env i delta rc ag =
     (if advertised_stream ag i \<noteq> Some (dr_streamId delta) \<or> rc_streamId rc \<noteq> dr_streamId delta then recovery_loop i ag
      else if dr_syncRequired delta then ag\<lparr>ag_recoveries := jmap_set i (rc\<lparr>rc_await := AwaitFallback\<rparr>) (ag_recoveries ag)\<rparr>
      else
        let ag = fold (apply_and_forward env True) (dr_events delta) ag;
            ag = ag\<lparr>ag_counters := (ag_counters ag)\<lparr>co_deltaRecoveries := co_deltaRecoveries (ag_counters ag) + 1\<rparr>\<rparr>;
            ag = raise_highWater i (dr_latestRevision delta) ag
        in recovery_bottom i ag)"

text \<open>The answer to what a recovery waits for; every other answer finds nobody waiting for it.\<close>

definition recovery_resume :: "stream_env \<Rightarrow> string \<Rightarrow> 'a session_summary_scheme answer \<Rightarrow> 'a session_summary_scheme aggregator \<Rightarrow> 'a session_summary_scheme aggregator" where
  "recovery_resume env i answer ag =
     (case jmap_get (ag_recoveries ag) i of
        None \<Rightarrow> ag
      | Some rc \<Rightarrow> (case (answer, rc_await rc) of
          (_, AwaitFinally _) \<Rightarrow> ag
        | (Failure, _) \<Rightarrow> ag\<lparr>ag_recoveries := jmap_set i (rc\<lparr>rc_await := AwaitFinally True\<rparr>) (ag_recoveries ag)\<rparr>
        | (StateAnswer st, AwaitState) \<Rightarrow> resume_state env i st ag
        | (StateAnswer st, AwaitFallback) \<Rightarrow> resume_state env i st ag
        | (DeltaAnswer delta, AwaitDelta _ _) \<Rightarrow> resume_delta env i delta rc ag
        | _ \<Rightarrow> ag))"

text \<open>
  The callback of \<^verbatim>\<open>finally\<close>. The promise of a failed recovery is rejected after it, which every caller of
  \<open>advertiseStream\<close> that got this promise counts.
\<close>

definition recovery_finally :: "string \<Rightarrow> 's aggregator \<Rightarrow> 's aggregator" where
  "recovery_finally i ag =
     (case jmap_get (ag_recoveries ag) i of
        None \<Rightarrow> ag
      | Some rc \<Rightarrow> (case rc_await rc of
          AwaitFinally failed \<Rightarrow>
            let ag = ag\<lparr>ag_recoveries := jmap_delete i (ag_recoveries ag)\<rparr>
            in if failed
               then ag\<lparr>ag_counters := (ag_counters ag)\<lparr>co_recoveryFailures := co_recoveryFailures (ag_counters ag) + rc_waiters rc\<rparr>\<rparr> else ag
        | _ \<Rightarrow> ag))"

section \<open>Reading from the instances\<close>

text \<open>
  What runs after the answer of \<^verbatim>\<open>bootstrap()\<close> and of \<^verbatim>\<open>recoverSnapshot(instanceId)\<close>; \<open>atStart\<close> holds
  the projections of the moment the request was made.
\<close>

definition bootstrap_forget :: "string list \<Rightarrow> string \<times> 's stored \<Rightarrow> 's aggregator \<Rightarrow> 's aggregator" where
  "bootstrap_forget authoritative start ag =
     (if fst start \<in> set authoritative \<or> map_option fst (jmap_get (ag_snapshots ag) (fst start)) \<noteq> Some (fst (snd start)) then ag
      else removeInstance (fst start) ag)"

definition entry_state :: "'s instance_entry \<Rightarrow> 's sessions_state" where
  "entry_state e = \<lparr>sx_streamId = ie_streamId e, sx_revision = ie_revision e, sx_lastEventAt = ie_lastEventAt e, sx_snapshot = ie_aiSessions e\<rparr>"

definition install_state :: "stream_env \<Rightarrow> string \<Rightarrow> nat option \<Rightarrow> 'a session_summary_scheme sessions_state \<Rightarrow> 'a session_summary_scheme aggregator
    \<Rightarrow> 'a session_summary_scheme aggregator" where
  "install_state env i startSerial st ag =
     (if map_option fst (jmap_get (ag_snapshots ag) i) \<noteq> startSerial then ag
      else if obsolete_stream ag i (sx_streamId st) then ag
      else if (case projection_of ag i of Some c \<Rightarrow> sx_streamId c = sx_streamId st \<and> sx_revision c \<ge> sx_revision st | None \<Rightarrow> False) then ag
      else apply_and_forward env False (state_event env i st) ag)"

definition bootstrapFromInstances :: "stream_env \<Rightarrow> (string, 'a session_summary_scheme stored) jmap \<Rightarrow> 'a session_summary_scheme instance_entry list
    \<Rightarrow> 'a session_summary_scheme aggregator \<Rightarrow> 'a session_summary_scheme aggregator" where
  "bootstrapFromInstances env atStart instances ag =
     (let ag = fold (bootstrap_forget (map ie_instanceId instances)) atStart ag
      in fold (\<lambda>e. install_state env (ie_instanceId e) (map_option fst (jmap_get atStart (ie_instanceId e))) (entry_state e)) instances ag)"

definition refreshInstance :: "stream_env \<Rightarrow> string \<Rightarrow> nat option \<Rightarrow> 'a session_summary_scheme sessions_state \<Rightarrow> 'a session_summary_scheme aggregator
    \<Rightarrow> 'a session_summary_scheme aggregator" where
  "refreshInstance env i startSerial st ag = install_state env i startSerial st ag"

section \<open>Serving consumers\<close>

definition agg_view :: "string option \<Rightarrow> 's aggregator \<Rightarrow> 's instance_entry list" where
  "agg_view instanceId ag =
     map (\<lambda>(i, stored). entry_of i (snd stored)) (filter (\<lambda>(i, _). \<not> truthy instanceId \<or> Some i = instanceId) (ag_snapshots ag))"

definition agg_earliest :: "'s aggregator \<Rightarrow> string \<Rightarrow> nat \<Rightarrow> nat" where
  "agg_earliest ag i latest = (case retained_events ag i of (e, _) # _ \<Rightarrow> em_revision (meta e) | [] \<Rightarrow> latest + 1)"

definition streamDescriptors :: "'s aggregator \<Rightarrow> (string \<times> stream_descriptor) list" where
  "streamDescriptors ag = map (\<lambda>(i, stored). (i, \<lparr>sd_streamId = sx_streamId (snd stored), sd_latestRevision = sx_revision (snd stored),
     sd_earliestRetainedRevision = agg_earliest ag i (sx_revision (snd stored))\<rparr>)) (ag_snapshots ag)"

datatype agg_error = DeltaInstanceIdRequired

definition resolveDeltaInstanceId :: "string option \<Rightarrow> 's aggregator \<Rightarrow> agg_error + string" where
  "resolveDeltaInstanceId instanceId ag =
     (if truthy instanceId then Inr (str_of instanceId)
      else case jmap_keys (ag_snapshots ag) of [i] \<Rightarrow> Inr i | _ \<Rightarrow> Inl DeltaInstanceIdRequired)"

text \<open>\<^verbatim>\<open>delta(input)\<close> once the aggregator has some projection.\<close>

definition agg_delta :: "stream_env \<Rightarrow> string option \<Rightarrow> string \<Rightarrow> nat \<Rightarrow> 's aggregator \<Rightarrow> (agg_error + 's delta_response) \<times> 's aggregator" where
  "agg_delta env instanceId inStreamId since ag0 =
     (case resolveDeltaInstanceId instanceId ag0 of
        Inl e \<Rightarrow> (Inl e, ag0)
      | Inr i \<Rightarrow>
          let ag = agg_pruneHistory env i ag0;
              latestRevision = (case projection_of ag i of Some st \<Rightarrow> sx_revision st | None \<Rightarrow> 0);
              streamId = (case projection_of ag i of Some st \<Rightarrow> if sx_streamId st \<noteq> [] then sx_streamId st else ''unavailable'' | None \<Rightarrow> ''unavailable'');
              response = (\<lambda>syncRequired events. \<lparr>dr_streamId = streamId, dr_instanceId = i, dr_sinceRevision = since,
                dr_latestRevision = latestRevision, dr_earliestRetainedRevision = agg_earliest ag i latestRevision,
                dr_syncRequired = syncRequired, dr_events = events\<rparr>)
          in if inStreamId \<noteq> streamId \<or> since > latestRevision then (Inr (response True []), ag)
             else if since = latestRevision then (Inr (response False []), ag)
             else
               let events = filter (\<lambda>event. em_revision (meta event) > since) (map fst (retained_events ag i));
                   syncRequired = (case events of [] \<Rightarrow> True | e # _ \<Rightarrow> em_revision (meta e) \<noteq> since + 1)
               in (Inr (response syncRequired (if syncRequired then [] else events)), ag))"

text \<open>What \<^verbatim>\<open>list(options)\<close> does before it serves the view.\<close>

datatype list_plan = RefreshOne string | BootstrapAll | ServeView

definition agg_list_plan :: "bool \<Rightarrow> string option \<Rightarrow> 's aggregator \<Rightarrow> list_plan" where
  "agg_list_plan refresh instanceId ag =
     (if refresh \<and> truthy instanceId \<and> ag_hasRecoverSnapshot ag then RefreshOne (str_of instanceId)
      else if refresh \<or> ag_snapshots ag = [] then BootstrapAll else ServeView)"

section \<open>Runs\<close>

datatype 's agg_op =
    AHandle "'s envelope"
  | AAdvertise string stream_descriptor
  | ARemove string
  | AResume string "'s answer"
  | AFinally string
  | ABootstrap "(string, 's stored) jmap" "'s instance_entry list"
  | ARefresh string "nat option" "'s sessions_state"
  | ADelta "string option" string nat

fun agg_step :: "'a session_summary_scheme aggregator \<Rightarrow> stream_env \<times> 'a session_summary_scheme agg_op \<Rightarrow> 'a session_summary_scheme aggregator" where
  "agg_step ag (env, AHandle envelope) = snd (agg_handleEvent env envelope ag)"
| "agg_step ag (env, AAdvertise i descriptor) = advertiseStream i descriptor ag"
| "agg_step ag (env, ARemove i) = removeInstance i ag"
| "agg_step ag (env, AResume i answer) = recovery_resume env i answer ag"
| "agg_step ag (env, AFinally i) = recovery_finally i ag"
| "agg_step ag (env, ABootstrap atStart instances) = bootstrapFromInstances env atStart instances ag"
| "agg_step ag (env, ARefresh i startSerial st) = refreshInstance env i startSerial st ag"
| "agg_step ag (env, ADelta instanceId streamId since) = snd (agg_delta env instanceId streamId since ag)"

section \<open>Frames\<close>

text \<open>The projections and the retained events, which recovery bookkeeping leaves alone.\<close>

definition core :: "'s aggregator \<Rightarrow> (string, 's stored) jmap \<times> (string, ('s stream_event \<times> int) list) jmap" where
  "core ag = (ag_snapshots ag, ag_history ag)"

lemma core_frame [simp]:
  "core (ag\<lparr>ag_recoveries := x\<rparr>) = core ag" "core (ag\<lparr>ag_counters := c\<rparr>) = core ag" "core (ag\<lparr>ag_advertised := a\<rparr>) = core ag"
  "core (ag\<lparr>ag_recoveryCount := n\<rparr>) = core ag" "core (ag\<lparr>ag_recovered := es\<rparr>) = core ag" "core (ag\<lparr>ag_updates := us\<rparr>) = core ag"
  by (simp_all add: core_def)

lemma core_recoverStream [simp]: "core (recoverStream i s n ag) = core ag"
  by (simp add: recoverStream_def Let_def split: option.splits)

lemma core_raise [simp]: "core (raise_highWater i n ag) = core ag"
  by (simp add: raise_highWater_def split: option.splits)

lemma core_loop [simp]: "core (recovery_loop i ag) = core ag"
  by (simp add: recovery_loop_def split: option.splits)

lemma core_bottom [simp]: "core (recovery_bottom i ag) = core ag"
  by (simp add: recovery_bottom_def split: option.splits)

lemma core_finally [simp]: "core (recovery_finally i ag) = core ag"
  by (simp add: recovery_finally_def core_def Let_def split: option.splits await.splits)

lemma core_reset [simp]: "core (count_reset ev ag) = core ag"
  by (simp add: count_reset_def split: option.splits)

lemma core_advertise [simp]: "core (advertiseStream i d ag) = core ag"
  by (simp add: advertiseStream_def Let_def split: option.splits)

lemma get_delete: "jmap_get (jmap_delete k m) k' = (if k' = k then None else jmap_get m k')"
  by (simp add: jmap_get_def jmap_delete_def delete_conv)

lemma retained_put: "retained_events (ag\<lparr>ag_history := jmap_set i es (ag_history ag)\<rparr>) j = (if j = i then es else retained_events ag j)"
  by (simp add: retained_events_def jm.get_put)

lemma retained_del: "retained_events (ag\<lparr>ag_history := jmap_delete i (ag_history ag)\<rparr>) j = (if j = i then [] else retained_events ag j)"
  by (simp add: retained_events_def get_delete)

lemma retained_prune:
  "retained_events (agg_pruneHistory env i ag) j
     = (if j = i then filter (\<lambda>e. snd e \<ge> en_nowMs env - AI_SESSION_DELTA_RETENTION_MS) (retained_events ag i) else retained_events ag j)"
proof (cases "jmap_get (ag_history ag) i")
  case None
  then show ?thesis by (simp add: agg_pruneHistory_def retained_events_def)
next
  case (Some es)
  then have es: "retained_events ag i = es" by (simp add: retained_events_def)
  show ?thesis
    using Some es by (cases es) (auto simp: agg_pruneHistory_def Let_def retained_put retained_del case_prod_beta')
qed

lemma retained_prune_subset: "set (retained_events (agg_pruneHistory env i ag) j) \<subseteq> set (retained_events ag j)"
  by (auto simp: retained_prune)

lemma retained_remember: "set (retained_events (agg_rememberEvent env i ev ag) j) \<subseteq> insert (ev, en_nowMs env) (set (retained_events ag j))"
  by (auto simp: agg_rememberEvent_def Let_def retained_prune retained_put split: list.splits if_splits)

lemma snapshots_prune [simp]: "ag_snapshots (agg_pruneHistory env i ag) = ag_snapshots ag"
  by (simp add: agg_pruneHistory_def Let_def split: option.splits list.splits)

lemma snapshots_remember [simp]: "ag_snapshots (agg_rememberEvent env i ev ag) = ag_snapshots ag"
  by (simp add: agg_rememberEvent_def Let_def)

section \<open>What every operation keeps of the projections\<close>

locale projection_invariant =
  fixes good_state :: "'a session_summary_scheme sessions_state \<Rightarrow> bool"
    and good_event :: "'a session_summary_scheme stream_event \<Rightarrow> bool"
  assumes applied: "good_event ev \<Longrightarrow> \<forall>c. current = Some c \<longrightarrow> good_state c \<Longrightarrow> applyAiSessionStreamEvent current ev = Applied st \<Longrightarrow> good_state st"
    and from_state: "good_state st \<Longrightarrow> good_event (state_event env i st)"
begin

definition good :: "'a session_summary_scheme aggregator \<Rightarrow> bool" where
  "good ag \<longleftrightarrow> jmap_ok (ag_snapshots ag) \<and> (\<forall>i s. jmap_get (ag_snapshots ag) i = Some s \<longrightarrow> good_state (snd s))
     \<and> (\<forall>i e. e \<in> set (retained_events ag i) \<longrightarrow> good_event (fst e))"

lemma good_core: "core ag = core ag' \<Longrightarrow> good ag = good ag'"
  by (simp add: good_def core_def retained_events_def)

lemma good_prune: "good ag \<Longrightarrow> good (agg_pruneHistory env i ag)"
  unfolding good_def snapshots_prune using retained_prune_subset by blast

lemma good_remember: "good ag \<Longrightarrow> good_event ev \<Longrightarrow> good (agg_rememberEvent env i ev ag)"
  unfolding good_def using retained_remember by fastforce

lemma good_accept:
  assumes "good ag" "good_event ev" "good_state st"
  shows "good (agg_accept env ev st ag)"
proof -
  have "good (ag\<lparr>ag_snapshots := jmap_set i (n, st) (ag_snapshots ag), ag_serial := m\<rparr>)" for i n m
    using assms by (auto simp: good_def jm.get_put jm.ok_put retained_events_def)
  then show ?thesis
    using good_core [of "_\<lparr>ag_updates := _\<rparr>"] good_remember assms(2) by (simp add: agg_accept_def Let_def)
qed

lemma good_apply: "good ag \<Longrightarrow> good_event ev \<Longrightarrow> good (snd (agg_apply env recovering ev ag))"
proof -
  assume ag: "good ag" and ev: "good_event ev"
  have reset: "good (count_reset ev ag)" using ag good_core [of "count_reset ev ag" ag] by simp
  have st: "good_state st" if "applyAiSessionStreamEvent (projection_of ag i) ev = Applied st" for st i
    using that ag ev by (intro applied [of ev "projection_of ag i"]) (auto simp: good_def projection_of_def)
  show ?thesis
    using ag reset good_accept [OF reset ev st]
    by (auto simp: agg_apply_def Let_def good_core [of "raise_highWater _ _ _" ag] good_core [of "recoverStream _ _ _ _" "count_reset ev ag"]
        split: apply_result.splits)
qed

lemma good_handle: "good ag \<Longrightarrow> (\<And>ev. envelope = StreamEnvelope ev \<Longrightarrow> good_event ev) \<Longrightarrow> good (snd (agg_handleEvent env envelope ag))"
  by (cases "(env, envelope, ag)" rule: agg_handleEvent.cases) (auto simp: applySnapshot_def good_apply)

lemma good_forward: "good ag \<Longrightarrow> good_event ev \<Longrightarrow> good (apply_and_forward env recovering ev ag)"
  using good_apply [of ag ev env recovering] by (auto simp: apply_and_forward_def good_core [of "_\<lparr>ag_recovered := _\<rparr>"] split: prod.splits)

lemma good_forward_all: "good ag \<Longrightarrow> \<forall>ev \<in> set evs. good_event ev \<Longrightarrow> good (fold (apply_and_forward env recovering) evs ag)"
  by (induction evs arbitrary: ag) (auto simp: good_forward)

lemma good_bottom: "good ag \<Longrightarrow> good (recovery_bottom i ag)"
  using good_core [of "recovery_bottom i ag" ag] by simp

lemma good_loop: "good ag \<Longrightarrow> good (recovery_loop i ag)"
  using good_core [of "recovery_loop i ag" ag] by simp

lemma good_resume_state: "good ag \<Longrightarrow> good_state st \<Longrightarrow> good (resume_state env i st ag)"
  using good_forward [OF _ from_state] by (simp add: resume_state_def Let_def good_loop good_bottom good_core [of "_\<lparr>ag_counters := _\<rparr>"])

lemma good_resume_delta: "good ag \<Longrightarrow> \<forall>ev \<in> set (dr_events d). good_event ev \<Longrightarrow> good (resume_delta env i d rc ag)"
  using good_forward_all [of ag "dr_events d" env True]
  by (simp add: resume_delta_def Let_def good_loop good_bottom good_core [of "_\<lparr>ag_counters := _\<rparr>"] good_core [of "_\<lparr>ag_recoveries := _\<rparr>"]
      good_core [of "raise_highWater _ _ _"])

lemma good_resume:
  assumes "good ag" "\<And>st. answer = StateAnswer st \<Longrightarrow> good_state st" "\<And>d. answer = DeltaAnswer d \<Longrightarrow> \<forall>ev \<in> set (dr_events d). good_event ev"
  shows "good (recovery_resume env i answer ag)"
  using assms good_core [of "_\<lparr>ag_recoveries := _\<rparr>" ag]
  by (auto simp: recovery_resume_def good_resume_state good_resume_delta split: option.splits answer.splits await.splits)

lemma good_remove: "good ag \<Longrightarrow> good (removeInstance i ag)"
  by (auto simp: good_def removeInstance_def get_delete jm.ok_del retained_events_def split: if_splits)

lemma good_install: "good ag \<Longrightarrow> good_state st \<Longrightarrow> good (install_state env i n st ag)"
  by (simp add: install_state_def good_forward from_state)

lemma good_forget: "good ag \<Longrightarrow> good (fold (bootstrap_forget is) starts ag)"
  by (induction starts arbitrary: ag) (auto simp: bootstrap_forget_def good_remove)

lemma good_bootstrap:
  assumes "good ag" "\<forall>e \<in> set instances. good_state (entry_state e)"
  shows "good (bootstrapFromInstances env atStart instances ag)"
proof -
  have "good (fold (\<lambda>e. install_state env (ie_instanceId e) (f e) (entry_state e)) es ag')" if "good ag'" "\<forall>e \<in> set es. good_state (entry_state e)" for es ag' f
    using that by (induction es arbitrary: ag') (auto simp: good_install)
  then show ?thesis using assms good_forget by (simp add: bootstrapFromInstances_def Let_def)
qed

lemma good_delta: "good ag \<Longrightarrow> good (snd (agg_delta env j s n ag))"
  by (auto simp: agg_delta_def Let_def good_prune split: sum.splits)

lemma good_new: "good (aggregator_new hasDelta hasSnapshot)"
  by (simp add: good_def aggregator_new_def retained_events_def)

fun good_op :: "'a session_summary_scheme agg_op \<Rightarrow> bool" where
  "good_op (AHandle (StreamEnvelope ev)) = good_event ev"
| "good_op (AResume i (StateAnswer st)) = good_state st"
| "good_op (AResume i (DeltaAnswer d)) = (\<forall>ev \<in> set (dr_events d). good_event ev)"
| "good_op (ABootstrap atStart instances) = (\<forall>e \<in> set instances. good_state (entry_state e))"
| "good_op (ARefresh i n st) = good_state st"
| "good_op _ = True"

lemma good_step: "good ag \<Longrightarrow> good_op op \<Longrightarrow> good (agg_step ag (env, op))"
proof (cases op)
  case (AHandle envelope)
  assume "good ag" "good_op op"
  with AHandle show ?thesis by (auto intro!: good_handle)
next
  case (AResume i answer)
  assume "good ag" "good_op op"
  with AResume show ?thesis by (auto intro!: good_resume)
qed (auto simp: good_remove good_bootstrap good_install refreshInstance_def good_delta good_core [of "advertiseStream _ _ ag" ag for ag]
      good_core [of "recovery_finally _ ag" ag for ag])

lemma good_run: "good ag \<Longrightarrow> \<forall>x \<in> set ops. good_op (snd x) \<Longrightarrow> good (foldl agg_step ag ops)"
proof (induction ops arbitrary: ag)
  case (Cons x ops)
  then have "good (agg_step ag x)" by (cases x) (auto intro: good_step)
  then show ?case using Cons by simp
qed simp

lemma good_projection: "good ag \<Longrightarrow> projection_of ag i = Some st \<Longrightarrow> good_state st"
  by (auto simp: good_def projection_of_def)

end

text \<open>
  Two instances: projections hold the sessions that were published as their revision, and, whatever
  the patches say, their identifiers are distinct and their counters agree with their sessions.
\<close>

interpretation authentic: projection_invariant "state_authentic T" "event_authentic T" for T :: "'a session_summary_scheme truth"
proof unfold_locales
  fix ev :: "'a session_summary_scheme stream_event" and current st
  assume "event_authentic T ev" "\<forall>c. current = Some c \<longrightarrow> state_authentic T c" "applyAiSessionStreamEvent current ev = Applied st"
  then show "state_authentic T st" using apply_authentic [of T ev current st] by blast
qed (simp add: state_authentic_def state_event_def)

definition state_counted :: "'a session_summary_scheme sessions_state \<Rightarrow> bool" where
  "state_counted st \<longleftrightarrow> snapshot_ok (sx_snapshot st)"

fun event_counted :: "'a session_summary_scheme stream_event \<Rightarrow> bool" where
  "event_counted (SnapshotEvent m p) = snapshot_ok p"
| "event_counted ev = True"

interpretation counted: projection_invariant state_counted event_counted
proof unfold_locales
  fix ev :: "'a session_summary_scheme stream_event" and current st
  assume asms: "event_counted ev" "\<forall>c. current = Some c \<longrightarrow> state_counted c" "applyAiSessionStreamEvent current ev = Applied st"
  show "state_counted st"
  proof (cases "is_SnapshotEvent ev")
    case True
    then obtain m p where "ev = SnapshotEvent m p" by (cases ev) auto
    then show ?thesis using asms by (auto simp: apply_snapshot_event state_counted_def)
  next
    case False
    then obtain c where c: "current = Some c" "st = next_state c ev" using asms(3) by (auto simp: apply_patch)
    then show ?thesis
      using asms(2) patched_values_distinct by (auto simp: state_counted_def snapshot_ok_def next_state_def Let_def simp del: map_map)
  qed
qed (simp add: state_counted_def state_event_def)

end
