(* ===== verification/Stream_System.thy ===== *)
theory Stream_System
  imports Session_Aggregator
begin

text \<open>
  The whole path of the session stream: the authorities of the instances, the aggregator of the
  control plane and a client of the control plane. The network between them is any: a message that
  was ever sent may arrive any number of times, late, in any order or never. The client's fold is
  \<^verbatim>\<open>applyControlPlaneAiSessionStreamEvent\<close> in \<^verbatim>\<open>packages/control-plane-client/src/ai-session-state.ts\<close>,
  the endpoint it reconnects with is \<^verbatim>\<open>/api/ai-sessions/sync\<close> in
  \<^verbatim>\<open>packages/control-plane/src/control-plane/http/session-routes.ts\<close>.
\<close>

section \<open>The client\<close>

record 's client_entry =
  ce_instanceId :: string
  ce_streamId :: string
  ce_revision :: "nat option"
  ce_lastEventAt :: "string option"
  ce_aiSessions :: "'s sessions_snapshot"

definition client_projection :: "'s client_entry \<Rightarrow> 's sessions_state" where
  "client_projection c = \<lparr>sx_streamId = ce_streamId c, sx_revision = (case ce_revision c of Some r \<Rightarrow> r | None \<Rightarrow> 0),
     sx_lastEventAt = (case ce_lastEventAt c of Some t \<Rightarrow> t | None \<Rightarrow> sp_updatedAt (ce_aiSessions c)), sx_snapshot = ce_aiSessions c\<rparr>"

definition applyControlPlaneAiSessionStreamEvent :: "'a session_summary_scheme client_entry option \<Rightarrow> 'a session_summary_scheme stream_event
    \<Rightarrow> 'a session_summary_scheme apply_result \<times> 'a session_summary_scheme client_entry option" where
  "applyControlPlaneAiSessionStreamEvent current event =
     (let result = applyAiSessionStreamEvent (map_option client_projection current) event in
      case result of
        Applied st \<Rightarrow> (result, Some \<lparr>ce_instanceId = em_instanceId (meta event), ce_streamId = sx_streamId st, ce_revision = Some (sx_revision st),
          ce_lastEventAt = Some (sx_lastEventAt st), ce_aiSessions = sx_snapshot st\<rparr>)
      | _ \<Rightarrow> (result, current))"

section \<open>Reconnecting\<close>

record known_instance =
  ki_instanceId :: string
  ki_streamId :: string
  ki_revision :: nat

datatype 's sync_item = SyncSnapshot "'s instance_entry" | SyncDelta string string "'s delta_response"

definition snapshotOf :: "bool \<Rightarrow> string \<Rightarrow> 'a session_summary_scheme aggregator \<Rightarrow> 'a session_summary_scheme sync_item list" where
  "snapshotOf subagents i ag =
     (case List.find (\<lambda>e. ie_instanceId e = i) (agg_view (Some i) ag) of
        None \<Rightarrow> []
      | Some e \<Rightarrow> [SyncSnapshot (e\<lparr>ie_aiSessions := projectAiSessionsSnapshotForConsumer subagents (ie_aiSessions e)\<rparr>)])"

definition sync_instance :: "stream_env \<Rightarrow> bool \<Rightarrow> (string, known_instance) jmap \<Rightarrow> string \<times> stream_descriptor \<Rightarrow> 'a session_summary_scheme aggregator
    \<Rightarrow> 'a session_summary_scheme sync_item list \<times> 'a session_summary_scheme aggregator" where
  "sync_instance env subagents known d ag =
     (case jmap_get known (fst d) of
        None \<Rightarrow> (snapshotOf subagents (fst d) ag, ag)
      | Some k \<Rightarrow>
          if ki_streamId k \<noteq> sd_streamId (snd d) \<or> ki_revision k > sd_latestRevision (snd d) then (snapshotOf subagents (fst d) ag, ag)
          else if ki_revision k = sd_latestRevision (snd d) then ([], ag)
          else case agg_delta env (Some (fst d)) (sd_streamId (snd d)) (ki_revision k) ag of
                 (Inl _, ag) \<Rightarrow> ([], ag)
               | (Inr delta, ag) \<Rightarrow> if dr_syncRequired delta then (snapshotOf subagents (fst d) ag, ag)
                   else ([SyncDelta (fst d) (dr_streamId delta) (projectAiSessionDeltaForConsumer subagents delta)], ag))"

fun sync_instances :: "stream_env \<Rightarrow> bool \<Rightarrow> (string \<Rightarrow> bool) \<Rightarrow> (string, known_instance) jmap \<Rightarrow> (string \<times> stream_descriptor) list
    \<Rightarrow> 'a session_summary_scheme aggregator \<Rightarrow> 'a session_summary_scheme sync_item list \<times> 'a session_summary_scheme aggregator" where
  "sync_instances env subagents visible known [] ag = ([], ag)"
| "sync_instances env subagents visible known (d # ds) ag =
     (if visible (fst d) then
        (case sync_instance env subagents known d ag of (items, ag) \<Rightarrow>
         case sync_instances env subagents visible known ds ag of (rest, ag) \<Rightarrow> (items @ rest, ag))
      else sync_instances env subagents visible known ds ag)"

text \<open>
  The endpoint, on an aggregator that has some projection and whose calls therefore answer without
  reading from the instances; \<open>visible\<close> is what the request may see.
\<close>

definition ai_sessions_sync :: "stream_env \<Rightarrow> bool \<Rightarrow> (string \<Rightarrow> bool) \<Rightarrow> known_instance list \<Rightarrow> 'a session_summary_scheme aggregator
    \<Rightarrow> ('a session_summary_scheme sync_item list \<times> string list) \<times> 'a session_summary_scheme aggregator" where
  "ai_sessions_sync env subagents visible input ag =
     (let descriptors = streamDescriptors ag;
          known = fold (\<lambda>k. jmap_set (ki_instanceId k) k) input []
      in case sync_instances env subagents visible known descriptors ag of (instances, ag') \<Rightarrow>
           ((instances, filter (\<lambda>i. i \<notin> set (filter visible (map fst descriptors))) (jmap_keys known)), ag'))"

section \<open>The system\<close>

record 's system =
  sy_authorities :: "string \<rightharpoonup> 's authority"
  sy_truth :: "'s truth"
  sy_events :: "'s stream_event set"
  sy_states :: "'s sessions_state set"
  sy_deltas :: "'s delta_response set"
  sy_aggregator :: "'s aggregator"
  sy_client :: "string \<rightharpoonup> 's client_entry"

definition system_start :: "bool \<Rightarrow> bool \<Rightarrow> 's system" where
  "system_start hasDelta hasSnapshot = \<lparr>sy_authorities = Map.empty, sy_truth = Map.empty, sy_events = {}, sy_states = {}, sy_deltas = {},
     sy_aggregator = aggregator_new hasDelta hasSnapshot, sy_client = Map.empty\<rparr>"

text \<open>The messages an operation of the aggregator consumes were sent by an instance; descriptors and the moment of a request are any.\<close>

fun op_from :: "'s system \<Rightarrow> 's agg_op \<Rightarrow> bool" where
  "op_from w (AHandle (StreamEnvelope ev)) = (ev \<in> sy_events w)"
| "op_from w (AResume i (StateAnswer st)) = (st \<in> sy_states w)"
| "op_from w (AResume i (DeltaAnswer d)) = (d \<in> sy_deltas w)"
| "op_from w (ABootstrap atStart instances) = (\<forall>e \<in> set instances. entry_state e \<in> sy_states w)"
| "op_from w (ARefresh i n st) = (st \<in> sy_states w)"
| "op_from w _ = True"

definition published_events :: "'s authority \<Rightarrow> 's stream_event set" where
  "published_events au = {ev. Published ev \<in> set (au_effects au)}"

text \<open>The events a client can be sent: those on the bus, those the aggregator recovered, and those in its deltas.\<close>

definition client_events :: "'s system \<Rightarrow> 's stream_event set" where
  "client_events w = sy_events w \<union> {ev. \<exists>i t. (ev, t) \<in> set (retained_events (sy_aggregator w) i)}"

definition client_of_view :: "'s instance_entry \<Rightarrow> 's client_entry" where
  "client_of_view e = \<lparr>ce_instanceId = ie_instanceId e, ce_streamId = ie_streamId e, ce_revision = Some (ie_revision e),
     ce_lastEventAt = Some (ie_lastEventAt e), ce_aiSessions = ie_aiSessions e\<rparr>"

inductive reachable :: "'a session_summary_scheme system \<Rightarrow> bool" where
  start: "reachable (system_start hasDelta hasSnapshot)"
| boot: "reachable w \<Longrightarrow> \<forall>r. sy_truth w (sid, r) = None \<Longrightarrow> \<forall>j au. sy_authorities w j = Some au \<longrightarrow> au_streamId au \<noteq> sid \<Longrightarrow>
    reachable (w\<lparr>sy_authorities := (sy_authorities w)(i \<mapsto> authority_start sid i nodeId startedAt)\<rparr>)"
| publish: "reachable w \<Longrightarrow> sy_authorities w i = Some au \<Longrightarrow> distinct (map su_id (sp_sessions bound)) \<Longrightarrow>
    au' = publishAiSessionSnapshot env isMember reason bound au \<Longrightarrow>
    reachable (w\<lparr>sy_authorities := (sy_authorities w)(i \<mapsto> au'), sy_truth := truth_after isMember bound au (sy_truth w),
      sy_events := sy_events w \<union> published_events au'\<rparr>)"
| serve_state: "reachable w \<Longrightarrow> sy_authorities w i = Some au \<Longrightarrow> distinct (map su_id (sp_sessions bound)) \<Longrightarrow>
    reachable (w\<lparr>sy_states := insert (aiSessionsState True isMember bound au) (sy_states w)\<rparr>)"
| serve_delta: "reachable w \<Longrightarrow> sy_authorities w i = Some au \<Longrightarrow> aiSessionDeltaSince env streamId since au = (d, au') \<Longrightarrow>
    reachable (w\<lparr>sy_authorities := (sy_authorities w)(i \<mapsto> au'), sy_deltas := insert d (sy_deltas w)\<rparr>)"
| aggregate: "reachable w \<Longrightarrow> op_from w op \<Longrightarrow> reachable (w\<lparr>sy_aggregator := agg_step (sy_aggregator w) (env, op)\<rparr>)"
| client_event: "reachable w \<Longrightarrow> ev \<in> client_events w \<Longrightarrow>
    reachable (w\<lparr>sy_client := (sy_client w)(i := snd (applyControlPlaneAiSessionStreamEvent (sy_client w i) ev))\<rparr>)"
| client_view: "reachable w \<Longrightarrow> e \<in> set (agg_view j (sy_aggregator w)) \<Longrightarrow>
    reachable (w\<lparr>sy_client := (sy_client w)(i \<mapsto> client_of_view e)\<rparr>)"

definition authorities_inv :: "'a session_summary_scheme truth \<Rightarrow> (string \<rightharpoonup> 'a session_summary_scheme authority) \<Rightarrow> bool" where
  "authorities_inv T A \<longleftrightarrow> (\<forall>i au. A i = Some au \<longrightarrow> authority_inv T au \<and> (\<forall>ev \<in> published_events au. event_authentic T ev))
     \<and> (\<forall>i j a b. A i = Some a \<longrightarrow> A j = Some b \<longrightarrow> i \<noteq> j \<longrightarrow> au_streamId a \<noteq> au_streamId b)"

definition system_inv :: "'a session_summary_scheme system \<Rightarrow> bool" where
  "system_inv w \<longleftrightarrow> authorities_inv (sy_truth w) (sy_authorities w)
     \<and> (\<forall>ev \<in> sy_events w. event_authentic (sy_truth w) ev)
     \<and> (\<forall>st \<in> sy_states w. state_authentic (sy_truth w) st)
     \<and> (\<forall>d \<in> sy_deltas w. \<forall>ev \<in> set (dr_events d). event_authentic (sy_truth w) ev)
     \<and> authentic.good (sy_truth w) (sy_aggregator w)
     \<and> (\<forall>i c. sy_client w i = Some c \<longrightarrow> state_authentic (sy_truth w) (client_projection c))"

lemma good_mono: "T \<subseteq>\<^sub>m T' \<Longrightarrow> authentic.good T ag \<Longrightarrow> authentic.good T' ag"
  unfolding authentic.good_def using state_authentic_mono event_authentic_mono by blast

lemma op_from_good:
  assumes "system_inv w" "op_from w op"
  shows "authentic.good_op (sy_truth w) op"
  using assms by (cases "(w, op)" rule: op_from.cases) (auto simp: system_inv_def)

lemma client_projection_applied:
  "applyControlPlaneAiSessionStreamEvent current ev = (Applied st, Some c) \<Longrightarrow> client_projection c = st"
  by (auto simp: applyControlPlaneAiSessionStreamEvent_def client_projection_def Let_def split: apply_result.splits)

lemma client_keeps:
  assumes "event_authentic T ev" "\<forall>c. current = Some c \<longrightarrow> state_authentic T (client_projection c)"
    and c: "snd (applyControlPlaneAiSessionStreamEvent current ev) = Some c"
  shows "state_authentic T (client_projection c)"
proof (cases "\<exists>st. applyAiSessionStreamEvent (map_option client_projection current) ev = Applied st")
  case True
  then obtain st where st: "applyAiSessionStreamEvent (map_option client_projection current) ev = Applied st" ..
  have "state_authentic T st"
    using assms(1,2) by (intro apply_authentic [OF _ _ st]) auto
  moreover have "client_projection c = st"
    using st c by (auto simp: applyControlPlaneAiSessionStreamEvent_def client_projection_def)
  ultimately show ?thesis by simp
next
  case False
  then have "snd (applyControlPlaneAiSessionStreamEvent current ev) = current"
    by (auto simp: applyControlPlaneAiSessionStreamEvent_def Let_def split: apply_result.splits)
  then show ?thesis using assms by simp
qed

lemma client_event_authentic: "system_inv w \<Longrightarrow> ev \<in> client_events w \<Longrightarrow> event_authentic (sy_truth w) ev"
  by (force simp: system_inv_def client_events_def authentic.good_def)

lemma view_authentic:
  assumes "authentic.good T ag" "e \<in> set (agg_view j ag)"
  shows "state_authentic T (client_projection (client_of_view e))"
  using assms by (auto simp: agg_view_def authentic.good_def client_projection_def client_of_view_def entry_of_def jmap_get_iff state_authentic_def)

lemma authority_inv_other:
  assumes "authority_inv T au" "T \<subseteq>\<^sub>m T'" "\<forall>r. T' (au_streamId au, r) = T (au_streamId au, r)"
  shows "authority_inv T' au"
  using assms event_authentic_mono [OF assms(2)] unfolding authority_inv_def by simp

lemma truth_after_other: "s \<noteq> au_streamId au \<Longrightarrow> truth_after isMember bound au T (s, r) = T (s, r)"
  by (simp add: truth_after_def Let_def split: authority_change.splits)

lemma publish_streamId [simp]: "au_streamId (publishAiSessionSnapshot env isMember reason bound au) = au_streamId au"
  by (auto simp: publishAiSessionSnapshot_def publishAiSessionEvent_def rememberAiSessionEvent_def pruneAiSessionEventHistory_def
      Let_def split: authority_change.splits)

lemma publish_published:
  assumes "authority_inv T au" "distinct (map su_id (sp_sessions bound))" "ev \<in> published_events (publishAiSessionSnapshot env isMember reason bound au)"
  shows "ev \<in> published_events au \<or> event_authentic (truth_after isMember bound au T) ev"
proof (cases "projectAiSessionAuthorityChange (au_last au) (withoutAgentRunMemberSessions isMember bound) = Unchanged")
  case True
  then show ?thesis using assms(3) publish_cases(1) [OF True, of env reason] by (auto simp: published_events_def)
next
  case False
  then show ?thesis
    using assms(3) publish_cases(2) [OF False, of env reason] publish_event_authentic [OF assms(1,2) refl False, of env reason]
    by (auto simp: published_events_def)
qed

lemma authorities_publish:
  assumes inv: "authorities_inv T A" and au: "A i = Some au" and bound: "distinct (map su_id (sp_sessions bound))"
  shows "authorities_inv (truth_after isMember bound au T) (A(i \<mapsto> publishAiSessionSnapshot env isMember reason bound au))"
proof -
  let ?T' = "truth_after isMember bound au T"
  have ai: "authority_inv T au" and evs: "\<forall>ev \<in> published_events au. event_authentic T ev"
    using inv au by (auto simp: authorities_inv_def)
  have grow: "T \<subseteq>\<^sub>m ?T'" by (rule truth_grows [OF ai])
  have "authority_inv ?T' b \<and> (\<forall>ev \<in> published_events b. event_authentic ?T' ev)" if "A j = Some b" "j \<noteq> i" for j b
  proof -
    have "au_streamId b \<noteq> au_streamId au" using inv au that by (auto simp: authorities_inv_def)
    moreover have "authority_inv T b" "\<forall>ev \<in> published_events b. event_authentic T ev" using inv that by (auto simp: authorities_inv_def)
    ultimately show ?thesis
      using authority_inv_other [OF _ grow, of b] truth_after_other [of "au_streamId b" au] event_authentic_mono [OF grow] by simp
  qed
  moreover have "\<forall>ev \<in> published_events (publishAiSessionSnapshot env isMember reason bound au). event_authentic ?T' ev"
    using publish_published [OF ai bound] evs event_authentic_mono [OF grow] by blast
  ultimately show ?thesis
    using inv au publish_inv [OF ai bound] by (auto simp: authorities_inv_def)
qed

lemma delta_authority: "aiSessionDeltaSince env streamId since au = (d, au') \<Longrightarrow> au' = pruneAiSessionEventHistory env au"
  by (auto simp: aiSessionDeltaSince_def Let_def split: if_splits)

lemma authorities_delta:
  assumes "authorities_inv T A" "A i = Some au" "aiSessionDeltaSince env streamId since au = (d, au')"
  shows "authorities_inv T (A(i \<mapsto> au'))"
proof -
  have au': "au' = pruneAiSessionEventHistory env au" using assms(3) by (rule delta_authority)
  have "authority_inv T au" using assms(1,2) by (simp add: authorities_inv_def)
  then have "authority_inv T au'" unfolding au' by (rule prune_inv)
  moreover have "published_events au' = published_events au" "au_streamId au' = au_streamId au"
    by (simp_all add: au' published_events_def pruneAiSessionEventHistory_def)
  ultimately show ?thesis using assms(1,2) by (auto simp: authorities_inv_def)
qed

lemma authorities_boot:
  assumes "authorities_inv T A" "\<forall>r. T (sid, r) = None" "\<forall>j au. A j = Some au \<longrightarrow> au_streamId au \<noteq> sid"
  shows "authorities_inv T (A(i \<mapsto> authority_start sid i nodeId startedAt))"
proof -
  have "authority_inv T (authority_start sid i nodeId startedAt)" "published_events (authority_start sid i nodeId startedAt) = {}"
    using assms(2) by (simp_all add: authority_inv_def authority_start_def revisions_def published_events_def)
  moreover have "au_streamId a \<noteq> au_streamId (authority_start sid i nodeId startedAt)" if "A j = Some a" for j a
    using assms(3) that by (simp add: authority_start_def)
  ultimately show ?thesis using assms(1) unfolding authorities_inv_def by (auto dest: sym)
qed

lemma system_invariant: "reachable w \<Longrightarrow> system_inv w"
proof (induction rule: reachable.induct)
  case start
  then show ?case by (simp add: system_inv_def system_start_def authorities_inv_def authentic.good_new)
next
  case (boot w sid i nodeId startedAt)
  then have "authorities_inv (sy_truth w) ((sy_authorities w)(i \<mapsto> authority_start sid i nodeId startedAt))"
    by (intro authorities_boot) (auto simp: system_inv_def)
  then show ?case using boot.IH by (simp add: system_inv_def)
next
  case (publish w i au bound au' env isMember reason)
  let ?T' = "truth_after isMember bound au (sy_truth w)"
  have grow: "sy_truth w \<subseteq>\<^sub>m ?T'" using publish by (intro truth_grows) (auto simp: system_inv_def authorities_inv_def)
  have auths: "authorities_inv ?T' ((sy_authorities w)(i \<mapsto> au'))"
    using publish by (auto simp: system_inv_def intro: authorities_publish)
  have new: "\<forall>ev \<in> published_events au'. event_authentic ?T' ev" using auths unfolding authorities_inv_def by (metis fun_upd_same)
  show ?case
    using publish.IH auths new event_authentic_mono [OF grow] state_authentic_mono [OF grow] good_mono [OF grow]
    unfolding system_inv_def by (simp del: fun_upd_apply) blast
next
  case (serve_state w i au bound isMember)
  then show ?case using state_endpoint_authentic [of "sy_truth w" au bound isMember] by (auto simp: system_inv_def authorities_inv_def)
next
  case (serve_delta w i au env streamId since d au')
  have "delta_authentic (sy_truth w) d"
    using serve_delta delta_since_authentic [of "sy_truth w" au env streamId since] by (auto simp: system_inv_def authorities_inv_def)
  moreover have "authorities_inv (sy_truth w) ((sy_authorities w)(i \<mapsto> au'))"
    using serve_delta by (intro authorities_delta [of _ _ i au]) (auto simp: system_inv_def)
  ultimately show ?case using serve_delta.IH by (simp add: system_inv_def delta_authentic_def del: fun_upd_apply)
next
  case (aggregate w op env)
  then show ?case using op_from_good [of w op] authentic.good_step [of "sy_truth w"] by (simp add: system_inv_def)
next
  case (client_event w ev i)
  then show ?case using client_keeps [OF client_event_authentic [of w ev], of "sy_client w i"] by (simp add: system_inv_def)
next
  case (client_view w e j i)
  then show ?case using view_authentic [of "sy_truth w" "sy_aggregator w" e j] by (simp add: system_inv_def)
qed

text \<open>
  Claim C1.
  Whatever the network loses, repeats, delays or reorders, and however often instances restart under a new stream: what the
  aggregator and every client hold as revision r of a stream are exactly the sessions and counters the instance had when it
  published revision r.
\<close>

theorem stream_is_authentic:
  assumes "reachable w"
    and "projection_of (sy_aggregator w) i = Some st \<or> (\<exists>c. sy_client w i = Some c \<and> st = client_projection c)"
    and "sx_revision st > 0"
  shows "\<exists>p. sy_truth w (sx_streamId st, sx_revision st) = Some p \<and> mset (sp_sessions (sx_snapshot st)) = mset (sp_sessions p)
    \<and> sp_runningCount (sx_snapshot st) = sp_runningCount p \<and> sp_waitingCount (sx_snapshot st) = sp_waitingCount p"
proof -
  have "state_authentic (sy_truth w) st"
    using assms(2) system_invariant [OF assms(1)] authentic.good_projection [of "sy_truth w" "sy_aggregator w" i st]
    by (auto simp: system_inv_def)
  moreover obtain n where "sx_revision st = Suc n" using assms(3) by (cases "sx_revision st") auto
  ultimately show ?thesis by (auto simp: state_authentic_def published_as_def same_content_def)
qed

text \<open>One instance publishes two revisions; a client receives both and then the first again.\<close>

definition demo_session :: "string \<Rightarrow> lifecycle \<Rightarrow> session_summary" where
  "demo_session i st = \<lparr>su_id = i, su_status = st, su_lineage = None\<rparr>"

definition demo_bound :: "session_summary list \<Rightarrow> session_summary sessions_snapshot" where
  "demo_bound ss = \<lparr>sp_runningCount = 0, sp_waitingCount = 0, sp_staleCount = 0, sp_sessions = ss, sp_updatedAt = ''t''\<rparr>"

definition demo_env :: stream_env where
  "demo_env = \<lparr>en_nowMs = 0, en_now = ''t'', en_traceId = ''x''\<rparr>"

abbreviation demo_publish :: "session_summary list \<Rightarrow> session_summary authority \<Rightarrow> session_summary authority" where
  "demo_publish ss \<equiv> publishAiSessionSnapshot demo_env (\<lambda>_. False) ProviderEvent (demo_bound ss)"

definition demo_boot :: "session_summary system" where
  "demo_boot = (system_start True True)\<lparr>sy_authorities := [''i'' \<mapsto> authority_start ''s'' ''i'' None ''t'']\<rparr>"

definition demo_step :: "session_summary list \<Rightarrow> session_summary system \<Rightarrow> session_summary system" where
  "demo_step ss w = (let au = the (sy_authorities w ''i''); au' = demo_publish ss au in
     w\<lparr>sy_authorities := (sy_authorities w)(''i'' \<mapsto> au'), sy_truth := truth_after (\<lambda>_. False) (demo_bound ss) au (sy_truth w),
       sy_events := sy_events w \<union> published_events au'\<rparr>)"

definition demo_receive :: "session_summary stream_event \<Rightarrow> session_summary system \<Rightarrow> session_summary system" where
  "demo_receive ev w = w\<lparr>sy_client := (sy_client w)(''i'' := snd (applyControlPlaneAiSessionStreamEvent (sy_client w ''i'') ev))\<rparr>"

definition demo_published :: "session_summary system" where
  "demo_published = demo_step [demo_session ''b'' Idle, demo_session ''a'' Running] (demo_step [demo_session ''a'' Waiting] demo_boot)"

definition demo_au :: "session_summary authority" where
  "demo_au = demo_publish [demo_session ''b'' Idle, demo_session ''a'' Running]
     (demo_publish [demo_session ''a'' Waiting] (authority_start ''s'' ''i'' None ''t''))"

definition demo_events :: "session_summary stream_event list" where
  "demo_events = map fst (au_history demo_au)"

definition demo_world :: "session_summary system" where
  "demo_world = fold demo_receive (demo_events @ demo_events) demo_published"

lemma demo_step_reachable:
  "reachable w \<Longrightarrow> sy_authorities w ''i'' = Some au \<Longrightarrow> distinct (map su_id ss) \<Longrightarrow> reachable (demo_step ss w)"
  unfolding demo_step_def Let_def by (auto simp: demo_bound_def intro!: reachable.publish)

lemma demo_step_authority [simp]: "sy_authorities (demo_step ss w) ''i'' = Some (demo_publish ss (the (sy_authorities w ''i'')))"
  by (simp add: demo_step_def Let_def)

lemma demo_published_reachable: "reachable demo_published"
proof -
  have "reachable demo_boot" unfolding demo_boot_def
    using reachable.boot [OF reachable.start, of True True "''s''" "''i''" None "''t''"] by (simp add: system_start_def)
  then have "reachable (demo_step [demo_session ''a'' Waiting] demo_boot)"
    by (rule demo_step_reachable) (simp_all add: demo_boot_def)
  then show ?thesis
    unfolding demo_published_def by (rule demo_step_reachable) (simp_all add: demo_session_def)
qed

lemma demo_history: "\<forall>e \<in> set (au_history demo_au). Published (fst e) \<in> set (au_effects demo_au)"
  by code_simp

lemma demo_events_sent: "set demo_events \<subseteq> sy_events demo_published"
proof -
  have "published_events demo_au \<subseteq> sy_events demo_published"
    by (simp add: demo_published_def demo_step_def [of "[demo_session ''b'' Idle, demo_session ''a'' Running]"] Let_def)
       (simp add: demo_step_def demo_boot_def demo_au_def Let_def)
  moreover have "set demo_events \<subseteq> published_events demo_au"
    using demo_history by (auto simp: demo_events_def published_events_def)
  ultimately show ?thesis by blast
qed

lemma demo_reachable: "reachable demo_world"
proof -
  have run: "reachable (fold demo_receive evs w)" if "reachable w" "set evs \<subseteq> sy_events w" for evs w
    using that
  proof (induction evs arbitrary: w)
    case (Cons ev evs)
    have "reachable (demo_receive ev w)" unfolding demo_receive_def
      using Cons.prems by (intro reachable.client_event) (auto simp: client_events_def)
    moreover have "sy_events (demo_receive ev w) = sy_events w" by (simp add: demo_receive_def)
    ultimately show ?case using Cons by simp
  qed simp
  show ?thesis unfolding demo_world_def
    by (rule run [OF demo_published_reachable]) (use demo_events_sent in auto)
qed

abbreviation demo_fold :: "session_summary stream_event list \<Rightarrow> session_summary client_entry option \<Rightarrow> session_summary client_entry option" where
  "demo_fold evs c \<equiv> fold (\<lambda>ev c. snd (applyControlPlaneAiSessionStreamEvent c ev)) evs c"

lemma demo_receive_fold: "sy_client (fold demo_receive evs w) ''i'' = demo_fold evs (sy_client w ''i'')"
  by (induction evs arbitrary: w) (simp_all add: demo_receive_def)

lemma demo_fold_eval:
  "map_option (\<lambda>c. (ce_streamId c, ce_revision c, map su_id (sp_sessions (ce_aiSessions c)))) (demo_fold (demo_events @ demo_events) None)
     = Some (''s'', Some 2, [''a'', ''b''])"
  by code_simp

lemma demo_client: "\<exists>c. sy_client demo_world ''i'' = Some c \<and> ce_streamId c = ''s'' \<and> ce_revision c = Some 2
    \<and> map su_id (sp_sessions (ce_aiSessions c)) = [''a'', ''b'']"
proof -
  have "sy_client demo_published ''i'' = None"
    by (simp add: demo_published_def demo_step_def demo_boot_def system_start_def Let_def)
  then show ?thesis
    using demo_fold_eval by (auto simp: demo_world_def demo_receive_fold)
qed

theorem stream_is_authentic_witness:
  "\<exists>c p. sy_client demo_world ''i'' = Some c \<and> sy_truth demo_world (''s'', 2) = Some p
     \<and> mset (sp_sessions (ce_aiSessions c)) = mset (sp_sessions p) \<and> map su_id (sp_sessions (ce_aiSessions c)) = [''a'', ''b'']"
proof -
  obtain c where c: "sy_client demo_world ''i'' = Some c" "ce_streamId c = ''s''" "ce_revision c = Some 2"
      "map su_id (sp_sessions (ce_aiSessions c)) = [''a'', ''b'']" using demo_client by (elim exE conjE)
  have st: "sx_streamId (client_projection c) = ''s''" "sx_revision (client_projection c) = 2" "sx_snapshot (client_projection c) = ce_aiSessions c"
    using c by (simp_all add: client_projection_def)
  have held: "projection_of (sy_aggregator demo_world) ''i'' = Some (client_projection c)
      \<or> (\<exists>d. sy_client demo_world ''i'' = Some d \<and> client_projection c = client_projection d)" using c(1) by blast
  have "sx_revision (client_projection c) > 0" using st(2) by simp
  from stream_is_authentic [OF demo_reachable held this] show ?thesis unfolding st using c by metis
qed

end
