(* ===== verification/Stream_Recovery.thy ===== *)
theory Stream_Recovery
  imports Stream_System
begin

text \<open>
  Gaps of the session stream: the aggregator does not forget a revision it has heard of. Until its
  projection has reached that revision, a recovery with at least that high-water mark is running;
  and a recovery whose requests are answered by the instance ends with the projection caught up.
  The exception is a revision heard of after the loop of a recovery has ended and before its record
  is deleted.
\<close>

section \<open>Recoveries and advertised streams\<close>

definition recovery_of :: "'s aggregator \<Rightarrow> string \<Rightarrow> recovery option" where
  "recovery_of ag i = jmap_get (ag_recoveries ag) i"

text \<open>A record whose loop runs, and one that only waits to be deleted.\<close>

definition recovery_live :: "recovery \<Rightarrow> bool" where
  "recovery_live rc = (case rc_await rc of AwaitFinally _ \<Rightarrow> False | _ \<Rightarrow> True)"

definition in_recovery :: "'s aggregator \<Rightarrow> string \<Rightarrow> bool" where
  "in_recovery ag i = (case recovery_of ag i of None \<Rightarrow> False | Some rc \<Rightarrow> recovery_live rc)"

definition recovery_ended :: "'s aggregator \<Rightarrow> string \<Rightarrow> bool" where
  "recovery_ended ag i = (case recovery_of ag i of None \<Rightarrow> False | Some rc \<Rightarrow> \<not> recovery_live rc)"

lemma recovery_live_simps [simp]:
  "recovery_live (rc\<lparr>rc_streamId := s\<rparr>) = recovery_live rc" "recovery_live (rc\<lparr>rc_highWater := n\<rparr>) = recovery_live rc"
  "recovery_live (rc\<lparr>rc_waiters := m\<rparr>) = recovery_live rc" "recovery_live (rc\<lparr>rc_await := AwaitFinally b\<rparr>) = False"
  "recovery_live (rc\<lparr>rc_await := AwaitState\<rparr>)" "recovery_live (rc\<lparr>rc_await := AwaitFallback\<rparr>)" "recovery_live (rc\<lparr>rc_await := AwaitDelta t k\<rparr>)"
  by (simp_all add: recovery_live_def)

text \<open>The aggregator can recover, and a recovery works on the stream its instance advertises.\<close>

definition recoveries_ok :: "string \<Rightarrow> 's aggregator \<Rightarrow> bool" where
  "recoveries_ok i ag \<longleftrightarrow> ag_hasRecoverDelta ag \<and> ag_hasRecoverSnapshot ag
     \<and> (\<forall>d. jmap_get (ag_advertised ag) i = Some d \<longrightarrow> sd_streamId d \<noteq> [])
     \<and> (\<forall>rc d. recovery_of ag i = Some rc \<longrightarrow> jmap_get (ag_advertised ag) i = Some d \<longrightarrow> rc_streamId rc = sd_streamId d)"

definition covers :: "'s aggregator \<Rightarrow> string \<Rightarrow> string \<Rightarrow> nat \<Rightarrow> bool" where
  "covers ag i s r \<longleftrightarrow> (\<exists>st. projection_of ag i = Some st \<and> sx_streamId st = s \<and> r \<le> sx_revision st)
     \<or> (\<exists>rc. recovery_of ag i = Some rc \<and> recovery_live rc \<and> rc_streamId rc = s \<and> r \<le> rc_highWater rc)"

text \<open>\<open>watches\<close> is the situation in which the aggregator owes its consumers revision \<open>r\<close> of the stream \<open>s\<close> of instance \<open>i\<close>.\<close>

definition watches :: "string \<Rightarrow> string \<Rightarrow> nat \<Rightarrow> 's aggregator \<Rightarrow> bool" where
  "watches i s r ag \<longleftrightarrow> recoveries_ok i ag \<and> advertised_stream ag i = Some s \<and> covers ag i s r"

lemma watches_cong:
  "projection_of ag i = projection_of ag' i \<Longrightarrow> ag_recoveries ag = ag_recoveries ag' \<Longrightarrow> ag_advertised ag = ag_advertised ag' \<Longrightarrow>
     ag_hasRecoverDelta ag = ag_hasRecoverDelta ag' \<Longrightarrow> ag_hasRecoverSnapshot ag = ag_hasRecoverSnapshot ag' \<Longrightarrow>
     watches i s r ag = watches i s r ag'"
  by (simp add: watches_def recoveries_ok_def covers_def recovery_of_def advertised_stream_def)

lemma ok_cong: "ag_recoveries ag = ag_recoveries ag' \<Longrightarrow> ag_advertised ag = ag_advertised ag' \<Longrightarrow>
    ag_hasRecoverDelta ag = ag_hasRecoverDelta ag' \<Longrightarrow> ag_hasRecoverSnapshot ag = ag_hasRecoverSnapshot ag' \<Longrightarrow> recoveries_ok i ag = recoveries_ok i ag'"
  by (simp add: recoveries_ok_def recovery_of_def)

lemma projection_core: "core ag = core ag' \<Longrightarrow> projection_of ag i = projection_of ag' i"
  by (simp add: core_def projection_of_def)

lemma projection_frame [simp]:
  "projection_of (recoverStream j s n ag) i = projection_of ag i"
  "projection_of (raise_highWater j n ag) i = projection_of ag i"
  "projection_of (recovery_loop j ag) i = projection_of ag i"
  "projection_of (recovery_bottom j ag) i = projection_of ag i"
  "projection_of (recovery_finally j ag) i = projection_of ag i"
  "projection_of (ag\<lparr>ag_recoveries := x\<rparr>) i = projection_of ag i"
  "projection_of (ag\<lparr>ag_counters := y\<rparr>) i = projection_of ag i"
  "projection_of (ag\<lparr>ag_recoveryCount := m\<rparr>) i = projection_of ag i"
  "projection_of (ag\<lparr>ag_advertised := x'\<rparr>) i = projection_of ag i"
  "projection_of (ag\<lparr>ag_recovered := z\<rparr>) i = projection_of ag i"
  "projection_of (advertiseStream j d ag) i = projection_of ag i"
  by (rule projection_core; simp)+

lemma projection_reset [simp]: "projection_of (count_reset ev ag) i = projection_of ag i"
  by (rule projection_core) simp

lemma recoveries_frame [simp]:
  "ag_recoveries (agg_pruneHistory env j ag) = ag_recoveries ag" "ag_advertised (agg_pruneHistory env j ag) = ag_advertised ag"
  "ag_recoveries (agg_rememberEvent env j ev ag) = ag_recoveries ag" "ag_advertised (agg_rememberEvent env j ev ag) = ag_advertised ag"
  by (auto simp: agg_pruneHistory_def agg_rememberEvent_def Let_def split: option.splits list.splits)

lemma recoveries_frame_accept [simp]:
  "ag_recoveries (count_reset ev ag) = ag_recoveries ag" "ag_advertised (count_reset ev ag) = ag_advertised ag"
  "ag_recoveries (agg_accept env ev st ag) = ag_recoveries ag" "ag_advertised (agg_accept env ev st ag) = ag_advertised ag"
  by (auto simp: count_reset_def agg_accept_def Let_def split: option.splits)

lemma advertised_frame [simp]:
  "ag_advertised (recoverStream j s n ag) = ag_advertised ag"
  "ag_advertised (raise_highWater j n ag) = ag_advertised ag"
  "ag_advertised (recovery_loop j ag) = ag_advertised ag"
  "ag_advertised (recovery_bottom j ag) = ag_advertised ag"
  "ag_advertised (recovery_finally j ag) = ag_advertised ag"
  by (auto simp: recoverStream_def raise_highWater_def recovery_loop_def recovery_bottom_def recovery_finally_def Let_def split: option.splits await.splits)

lemma config_frame [simp]:
  "ag_hasRecoverDelta (recoverStream j s n ag) = ag_hasRecoverDelta ag" "ag_hasRecoverSnapshot (recoverStream j s n ag) = ag_hasRecoverSnapshot ag"
  "ag_hasRecoverDelta (raise_highWater j n ag) = ag_hasRecoverDelta ag" "ag_hasRecoverSnapshot (raise_highWater j n ag) = ag_hasRecoverSnapshot ag"
  "ag_hasRecoverDelta (recovery_loop j ag) = ag_hasRecoverDelta ag" "ag_hasRecoverSnapshot (recovery_loop j ag) = ag_hasRecoverSnapshot ag"
  "ag_hasRecoverDelta (recovery_bottom j ag) = ag_hasRecoverDelta ag" "ag_hasRecoverSnapshot (recovery_bottom j ag) = ag_hasRecoverSnapshot ag"
  "ag_hasRecoverDelta (recovery_finally j ag) = ag_hasRecoverDelta ag" "ag_hasRecoverSnapshot (recovery_finally j ag) = ag_hasRecoverSnapshot ag"
  "ag_hasRecoverDelta (advertiseStream j d ag) = ag_hasRecoverDelta ag" "ag_hasRecoverSnapshot (advertiseStream j d ag) = ag_hasRecoverSnapshot ag"
  "ag_hasRecoverDelta (agg_pruneHistory env j ag) = ag_hasRecoverDelta ag" "ag_hasRecoverSnapshot (agg_pruneHistory env j ag) = ag_hasRecoverSnapshot ag"
  "ag_hasRecoverDelta (agg_rememberEvent env j ev ag) = ag_hasRecoverDelta ag" "ag_hasRecoverSnapshot (agg_rememberEvent env j ev ag) = ag_hasRecoverSnapshot ag"
  by (auto simp: recoverStream_def raise_highWater_def recovery_loop_def recovery_bottom_def recovery_finally_def advertiseStream_def agg_pruneHistory_def
      agg_rememberEvent_def Let_def split: option.splits list.splits await.splits)

lemma config_frame_accept [simp]:
  "ag_hasRecoverDelta (count_reset ev ag) = ag_hasRecoverDelta ag" "ag_hasRecoverSnapshot (count_reset ev ag) = ag_hasRecoverSnapshot ag"
  "ag_hasRecoverDelta (agg_accept env ev st ag) = ag_hasRecoverDelta ag" "ag_hasRecoverSnapshot (agg_accept env ev st ag) = ag_hasRecoverSnapshot ag"
  by (auto simp: count_reset_def agg_accept_def Let_def split: option.splits)

lemma projection_accept [simp]:
  "projection_of (agg_accept env ev st ag) i = (if i = em_instanceId (meta ev) then Some st else projection_of ag i)"
proof -
  have "ag_snapshots (agg_accept env ev st ag) = jmap_set (em_instanceId (meta ev)) (ag_serial ag, st) (ag_snapshots ag)"
    by (simp add: agg_accept_def Let_def)
  then show ?thesis by (simp add: projection_of_def jm.get_put)
qed

lemma has_recovery: "jmap_has (ag_recoveries ag) i \<longleftrightarrow> recovery_of ag i \<noteq> None"
  by (simp add: jmap_has_def recovery_of_def)

section \<open>The bookkeeping of recoveries\<close>

lemma top_keeps:
  "jmap_get (ag_advertised ag) i = Some d \<Longrightarrow> rc_streamId (recovery_top i ag rc) = sd_streamId d
     \<and> (rc_streamId rc = sd_streamId d \<longrightarrow> rc_highWater (recovery_top i ag rc) = rc_highWater rc)"
  by (auto simp: recovery_top_def Let_def split: option.splits if_splits)

lemma top_done:
  "\<not> recovery_live (recovery_top i ag rc) \<Longrightarrow> jmap_get (ag_advertised ag) i = Some d \<Longrightarrow> rc_streamId rc = sd_streamId d \<Longrightarrow>
     \<exists>st. projection_of ag i = Some st \<and> sx_streamId st = sd_streamId d \<and> max (sd_latestRevision d) (rc_highWater rc) \<le> sx_revision st"
  by (auto simp: recovery_top_def Let_def split: option.splits if_splits)

lemma recoverStream_recovery:
  "recovery_of (recoverStream j s n ag) i = (if i \<noteq> j then recovery_of ag i else
     case recovery_of ag j of
       Some rc \<Rightarrow> Some (if rc_streamId rc = s then rc\<lparr>rc_highWater := max (rc_highWater rc) n\<rparr> else rc\<lparr>rc_streamId := s, rc_highWater := n\<rparr>)
     | None \<Rightarrow> if ag_hasRecoverDelta ag \<and> ag_hasRecoverSnapshot ag
         then Some (recovery_top j ag \<lparr>rc_streamId = s, rc_highWater = n, rc_number = Suc (ag_recoveryCount ag), rc_await = AwaitState, rc_waiters = 0\<rparr>)
         else None)"
proof -
  have "recovery_top j (ag\<lparr>ag_recoveryCount := m\<rparr>) rc = recovery_top j ag rc" for m rc
    by (simp add: recovery_top_def cong: option.case_cong)
  then show ?thesis
    by (auto simp: recovery_of_def recoverStream_def Let_def jm.get_put split: option.splits)
qed

lemma raise_recovery:
  "recovery_of (raise_highWater j n ag) i = (if i = j then map_option (\<lambda>rc. rc\<lparr>rc_highWater := max (rc_highWater rc) n\<rparr>) (recovery_of ag j)
     else recovery_of ag i)"
  by (auto simp: recovery_of_def raise_highWater_def jm.get_put split: option.splits)

lemma loop_recovery:
  "recovery_of (recovery_loop j ag) i = (if i = j then map_option (recovery_top j ag) (recovery_of ag j) else recovery_of ag i)"
  by (auto simp: recovery_of_def recovery_loop_def jm.get_put split: option.splits)

lemma bottom_recovery:
  "recovery_of (recovery_bottom j ag) i = (if i = j then map_option
     (\<lambda>rc. if recovered_now j rc ag then rc\<lparr>rc_await := AwaitFinally False\<rparr> else recovery_top j ag rc) (recovery_of ag j) else recovery_of ag i)"
  using loop_recovery [of j ag i]
  by (auto simp: recovery_of_def recovery_bottom_def jm.get_put split: option.splits)

lemma finally_recovery:
  "recovery_of (recovery_finally j ag) i = (if i = j \<and> recovery_ended ag j then None else recovery_of ag i)"
  by (auto simp: recovery_of_def recovery_finally_def recovery_ended_def recovery_live_def get_delete Let_def split: option.splits await.splits)

lemma recoverStream_ok:
  assumes "recoveries_ok i ag" "\<And>d. j = i \<Longrightarrow> jmap_get (ag_advertised ag) i = Some d \<Longrightarrow> sd_streamId d = s"
  shows "recoveries_ok i (recoverStream j s n ag)"
  using assms top_keeps [of ag j] unfolding recoveries_ok_def
  by (fastforce simp: recoverStream_recovery split: option.splits if_splits)

lemma raise_ok: "recoveries_ok i ag \<Longrightarrow> recoveries_ok i (raise_highWater j n ag)"
  unfolding recoveries_ok_def by (auto simp: raise_recovery)

lemma loop_ok: "recoveries_ok i ag \<Longrightarrow> recoveries_ok i (recovery_loop j ag)"
  using top_keeps [of ag j] unfolding recoveries_ok_def by (fastforce simp: loop_recovery split: if_splits)

lemma bottom_ok: "recoveries_ok i ag \<Longrightarrow> recoveries_ok i (recovery_bottom j ag)"
  using top_keeps [of ag j] unfolding recoveries_ok_def by (fastforce simp: bottom_recovery split: if_splits)

section \<open>No revision is forgotten\<close>

lemma watched_stream: "watches i s r ag \<Longrightarrow> \<exists>d. jmap_get (ag_advertised ag) i = Some d \<and> sd_streamId d = s \<and> s \<noteq> []"
  by (auto simp: watches_def advertised_stream_def recoveries_ok_def)

lemma watched_recovery: "watches i s r ag \<Longrightarrow> recovery_of ag i = Some rc \<Longrightarrow> rc_streamId rc = s"
  by (auto simp: watches_def advertised_stream_def recoveries_ok_def)

lemma advertised_stream_frame [simp]:
  "advertised_stream (recoverStream j t n ag) i = advertised_stream ag i"
  "advertised_stream (raise_highWater j n ag) i = advertised_stream ag i"
  "advertised_stream (recovery_loop j ag) i = advertised_stream ag i"
  "advertised_stream (recovery_bottom j ag) i = advertised_stream ag i"
  "advertised_stream (recovery_finally j ag) i = advertised_stream ag i"
  by (simp_all add: advertised_stream_def)

lemma advertised_stream_accept [simp]: "advertised_stream (agg_accept env ev st (count_reset ev ag)) i = advertised_stream ag i"
  by (simp add: advertised_stream_def)

lemma watches_recoverStream:
  assumes w: "watches i s r ag" and j: "\<And>d. j = i \<Longrightarrow> jmap_get (ag_advertised ag) i = Some d \<Longrightarrow> sd_streamId d = s'"
  shows "watches i s r (recoverStream j s' n ag)"
proof -
  have ok: "recoveries_ok i (recoverStream j s' n ag)" using w j by (intro recoverStream_ok) (auto simp: watches_def)
  have eq: "s' = s" if "j = i" using watched_stream [OF w] j that by auto
  have "covers (recoverStream j s' n ag) i s r"
    using w watched_recovery [OF w] eq unfolding watches_def covers_def
    by (auto simp: recoverStream_recovery split: option.splits)
  then show ?thesis using ok w by (simp add: watches_def)
qed

lemma watches_raise:
  assumes "watches i s r ag"
  shows "watches i s r (raise_highWater j n ag)"
  using assms raise_ok [of i ag j n] unfolding watches_def covers_def by (auto simp: raise_recovery)

lemma covers_done:
  assumes w: "watches i s r ag" and rc: "recovery_of ag i = Some rc"
    and st: "projection_of ag i = Some st" "sx_streamId st = s" "rc_highWater rc \<le> sx_revision st"
    and ag': "\<And>k. projection_of ag' k = projection_of ag k"
  shows "covers ag' i s r"
  using w rc st ag' unfolding watches_def covers_def by (auto intro: le_trans)

lemma watches_loop:
  assumes w: "watches i s r ag"
  shows "watches i s r (recovery_loop j ag)"
proof -
  obtain d where d: "jmap_get (ag_advertised ag) i = Some d" "sd_streamId d = s" using watched_stream [OF w] by blast
  have "covers (recovery_loop j ag) i s r"
  proof (cases "i = j \<and> recovery_of ag j \<noteq> None")
    case False
    then show ?thesis using w unfolding watches_def covers_def by (auto simp: loop_recovery)
  next
    case True
    then obtain rc where rc: "recovery_of ag i = Some rc" "i = j" by auto
    have s: "rc_streamId rc = s" using watched_recovery [OF w rc(1)] .
    show ?thesis
    proof (cases "recovery_live (recovery_top i ag rc)")
      case False
      from top_done [OF False d(1)] s d(2) obtain st where
        st: "projection_of ag i = Some st" "sx_streamId st = s" "rc_highWater rc \<le> sx_revision st" by auto
      show ?thesis by (rule covers_done [OF w rc(1) st]) simp
    next
      case True
      moreover have "recovery_of (recovery_loop j ag) i = Some (recovery_top i ag rc)" "rc_streamId (recovery_top i ag rc) = s"
          "rc_highWater (recovery_top i ag rc) = rc_highWater rc"
        using rc s d top_keeps [OF d(1)] by (auto simp: loop_recovery)
      ultimately show ?thesis using w rc(1) s unfolding watches_def covers_def by auto
    qed
  qed
  then show ?thesis using w loop_ok [of i ag j] by (simp add: watches_def)
qed

lemma bottom_eq:
  "recovery_bottom j ag = (case recovery_of ag j of None \<Rightarrow> ag | Some rc \<Rightarrow>
     if recovered_now j rc ag then ag\<lparr>ag_recoveries := jmap_set j (rc\<lparr>rc_await := AwaitFinally False\<rparr>) (ag_recoveries ag)\<rparr> else recovery_loop j ag)"
  by (simp add: recovery_bottom_def recovery_of_def)

lemma watches_bottom:
  assumes w: "watches i s r ag"
  shows "watches i s r (recovery_bottom j ag)"
proof (cases "\<exists>rc. recovery_of ag j = Some rc \<and> recovered_now j rc ag")
  case False
  then show ?thesis using w watches_loop [OF w] by (auto simp: bottom_eq split: option.splits)
next
  case True
  then obtain rc where rc: "recovery_of ag j = Some rc" "recovered_now j rc ag" by blast
  have "covers (recovery_bottom j ag) i s r"
  proof (cases "i = j")
    case True
    obtain d where d: "jmap_get (ag_advertised ag) i = Some d" "sd_streamId d = s" using watched_stream [OF w] by blast
    with rc True obtain st where st: "projection_of ag i = Some st" "sx_streamId st = s" "rc_highWater rc \<le> sx_revision st"
      by (auto simp: recovered_now_def split: option.splits)
    show ?thesis using covers_done [OF w _ st, of "recovery_bottom j ag"] rc True by simp
  next
    case False
    then show ?thesis using w unfolding watches_def covers_def by (auto simp: bottom_recovery)
  qed
  then show ?thesis using w bottom_ok [of i ag j] by (simp add: watches_def)
qed

lemma not_obsolete:
  "recoveries_ok j ag \<Longrightarrow> \<not> obsolete_stream ag j s' \<Longrightarrow> jmap_get (ag_advertised ag) j = Some d \<Longrightarrow> sd_streamId d = s'"
  by (auto simp: obsolete_stream_def recoveries_ok_def)

lemma watches_accept:
  assumes w: "watches i s r ag" and ob: "\<not> obsolete_stream ag (em_instanceId (meta ev)) (em_streamId (meta ev))"
    and st: "applyAiSessionStreamEvent (projection_of ag (em_instanceId (meta ev))) ev = Applied st"
  shows "watches i s r (agg_accept env ev st (count_reset ev ag))"
proof -
  let ?ag = "agg_accept env ev st (count_reset ev ag)"
  have ok: "recoveries_ok i ?ag" using w ok_cong [of ?ag ag i] by (simp add: watches_def)
  have "em_streamId (meta ev) = s" if "em_instanceId (meta ev) = i"
    using not_obsolete [OF _ ob] w watched_stream [OF w] that by (auto simp: watches_def)
  then have "\<exists>st'. projection_of ?ag i = Some st' \<and> sx_streamId st' = s \<and> r \<le> sx_revision st'"
    if "projection_of ag i = Some c" "sx_streamId c = s" "r \<le> sx_revision c" for c
    using that apply_Applied(1,2) [OF st] apply_Applied(4) [OF st, of c] by fastforce
  moreover have "recovery_of ?ag i = recovery_of ag i" by (simp add: recovery_of_def)
  ultimately have "covers ?ag i s r" using w unfolding watches_def covers_def by auto
  then show ?thesis using ok w by (simp add: watches_def)
qed

lemma watches_apply:
  assumes w: "watches i s r ag"
  shows "watches i s r (snd (agg_apply env recovering ev ag))"
proof -
  let ?j = "em_instanceId (meta ev)"
  let ?t = "em_streamId (meta ev)"
  have reset: "watches i s r (count_reset ev ag)" "watches i s r ((count_reset ev ag)\<lparr>ag_counters := c\<rparr>)" for c
    using w watches_cong [of "count_reset ev ag" i ag] watches_cong [of "(count_reset ev ag)\<lparr>ag_counters := c\<rparr>" i ag] by simp_all
  show ?thesis
  proof (cases "obsolete_stream ag ?j ?t \<or> jmap_has (ag_recoveries ag) ?j \<and> \<not> recovering")
    case True
    then show ?thesis using w watches_raise [OF w] by (auto simp: agg_apply_def Let_def)
  next
    case False
    then have ob: "\<not> obsolete_stream ag ?j ?t" by blast
    have adv: "sd_streamId d = ?t" if "?j = i" "jmap_get (ag_advertised ag) i = Some d" for d
      using not_obsolete [of i ag ?t d] ob that w by (simp add: watches_def)
    show ?thesis
      using False w reset watches_accept [OF w ob] watches_recoverStream [OF reset(1), where j = ?j and s' = ?t] watches_recoverStream [OF reset(2), where j = ?j and s' = ?t] adv
      by (auto simp: agg_apply_def Let_def split: apply_result.splits)
  qed
qed

lemma watches_ignores [simp]:
  "watches i s r (ag\<lparr>ag_counters := c\<rparr>) = watches i s r ag" "watches i s r (ag\<lparr>ag_recovered := es\<rparr>) = watches i s r ag"
  by (rule watches_cong; simp)+

lemma watches_forward: "watches i s r ag \<Longrightarrow> watches i s r (apply_and_forward env recovering ev ag)"
  using watches_apply [of i s r ag env recovering ev] by (auto simp: apply_and_forward_def split: prod.splits)

lemma watches_forward_all: "watches i s r ag \<Longrightarrow> watches i s r (fold (apply_and_forward env recovering) evs ag)"
  by (induction evs arbitrary: ag) (auto simp: watches_forward)

lemma watches_resume_state: "watches i s r ag \<Longrightarrow> watches i s r (resume_state env j st ag)"
  by (simp add: resume_state_def Let_def watches_loop watches_bottom watches_forward)

lemma watches_await:
  assumes w: "watches i s r ag" and rc: "recovery_of ag j = Some rc" and a: "j = i \<Longrightarrow> recovery_live (rc\<lparr>rc_await := a\<rparr>)"
  shows "watches i s r (ag\<lparr>ag_recoveries := jmap_set j (rc\<lparr>rc_await := a\<rparr>) (ag_recoveries ag)\<rparr>)"
proof -
  let ?ag = "ag\<lparr>ag_recoveries := jmap_set j (rc\<lparr>rc_await := a\<rparr>) (ag_recoveries ag)\<rparr>"
  have rec: "recovery_of ?ag k = (if k = j then Some (rc\<lparr>rc_await := a\<rparr>) else recovery_of ag k)" for k
    by (simp add: recovery_of_def jm.get_put)
  then show ?thesis
    using w rc a unfolding watches_def covers_def recoveries_ok_def rec by (auto simp: advertised_stream_def)
qed

lemma watches_resume_delta:
  "watches i s r ag \<Longrightarrow> recovery_of ag j = Some rc \<Longrightarrow> watches i s r (resume_delta env j d rc ag)"
  by (simp add: resume_delta_def Let_def watches_loop watches_bottom watches_raise watches_forward_all watches_await)

lemma watches_remove:
  assumes w: "watches i s r ag" and "j \<noteq> i"
  shows "watches i s r (removeInstance j ag)"
  using assms unfolding watches_def covers_def recoveries_ok_def recovery_of_def
  by (auto simp: removeInstance_def get_delete projection_of_def advertised_stream_def split: if_splits)

lemma watches_resume:
  assumes w: "watches i s r ag" and ans: "answer = Failure \<Longrightarrow> j \<noteq> i"
  shows "watches i s r (recovery_resume env j answer ag)"
  using w ans watches_resume_state [OF w] watches_resume_delta [OF w] watches_await [OF w, of j _ "AwaitFinally True"]
  by (auto simp: recovery_resume_def recovery_of_def split: option.splits answer.splits await.splits)

lemma watches_finally: "watches i s r ag \<Longrightarrow> watches i s r (recovery_finally j ag)"
  unfolding watches_def covers_def recoveries_ok_def by (auto simp: finally_recovery recovery_ended_def)

lemma watches_install: "watches i s r ag \<Longrightarrow> watches i s r (install_state env j n st ag)"
  by (simp add: install_state_def watches_forward)

lemma watches_bootstrap:
  assumes w: "watches i s r ag" and i: "i \<in> ie_instanceId ` set instances"
  shows "watches i s r (bootstrapFromInstances env atStart instances ag)"
proof -
  have forget: "watches i s r (fold (bootstrap_forget (map ie_instanceId instances)) starts ag')" if "watches i s r ag'" for starts ag'
    using that
  proof (induction starts arbitrary: ag')
    case (Cons x starts)
    have "watches i s r (bootstrap_forget (map ie_instanceId instances) x ag')"
      using Cons.prems i by (auto simp: bootstrap_forget_def intro!: watches_remove)
    then show ?case using Cons.IH by simp
  qed simp
  have install: "watches i s r (fold (\<lambda>e. install_state env (ie_instanceId e) (f e) (entry_state e)) es ag')" if "watches i s r ag'" for es ag' f
    using that by (induction es arbitrary: ag') (auto simp: watches_install)
  show ?thesis unfolding bootstrapFromInstances_def Let_def by (intro install forget w)
qed

lemma advertise_recovery:
  "recovery_of (advertiseStream j d ag) i =
     (let ag' = recoverStream j (sd_streamId d) (sd_latestRevision d) (ag\<lparr>ag_advertised := jmap_set j d (ag_advertised ag)\<rparr>)
      in if i = j then map_option (\<lambda>rc. rc\<lparr>rc_waiters := rc_waiters rc + 1\<rparr>) (recovery_of ag' i) else recovery_of ag i)"
  by (auto simp: advertiseStream_def Let_def recovery_of_def jm.get_put recoverStream_def split: option.splits)

lemma advertised_advertise: "ag_advertised (advertiseStream j d ag) = jmap_set j d (ag_advertised ag)"
  by (simp add: advertiseStream_def Let_def split: option.splits)

lemma advertise_recovery_other: "i \<noteq> j \<Longrightarrow> recovery_of (advertiseStream j d ag) i = recovery_of ag i"
  by (simp add: advertise_recovery Let_def)

lemma advertise_recovery_same:
  assumes rc: "recovery_of (advertiseStream j d ag) j = Some rc'"
  shows "rc_streamId rc' = sd_streamId d"
    and "recovery_of ag j = Some rc \<Longrightarrow> rc_streamId rc = sd_streamId d \<Longrightarrow> rc_highWater rc \<le> rc_highWater rc'"
proof -
  let ?ag = "ag\<lparr>ag_advertised := jmap_set j d (ag_advertised ag)\<rparr>"
  have same: "recovery_of ?ag j = recovery_of ag j" by (simp add: recovery_of_def)
  obtain rc1 where rc1: "recovery_of (recoverStream j (sd_streamId d) (sd_latestRevision d) ?ag) j = Some rc1" "rc' = rc1\<lparr>rc_waiters := rc_waiters rc1 + 1\<rparr>"
    using rc by (auto simp: advertise_recovery Let_def)
  have "rc_streamId rc1 = sd_streamId d \<and> (\<forall>rc. recovery_of ag j = Some rc \<longrightarrow> rc_streamId rc = sd_streamId d \<longrightarrow> rc_highWater rc \<le> rc_highWater rc1)"
  proof (cases "recovery_of ag j")
    case None
    then obtain rc0 where top: "rc1 = recovery_top j ?ag rc0"
      using rc1(1) same by (auto simp: recoverStream_recovery split: if_splits)
    show ?thesis using top_keeps [of ?ag j d rc0] top None by (auto simp: jm.get_put)
  next
    case (Some rc0)
    then show ?thesis using rc1(1) same by (auto simp: recoverStream_recovery split: if_splits)
  qed
  then show "rc_streamId rc' = sd_streamId d"
    and "recovery_of ag j = Some rc \<Longrightarrow> rc_streamId rc = sd_streamId d \<Longrightarrow> rc_highWater rc \<le> rc_highWater rc'"
    using rc1(2) by auto
qed

lemma advertise_recovery_kept:
  "recovery_of ag j = Some rc \<Longrightarrow> \<exists>rc'. recovery_of (advertiseStream j d ag) j = Some rc' \<and> recovery_live rc' = recovery_live rc"
  by (simp add: advertise_recovery Let_def recoverStream_recovery) (simp add: recovery_of_def)

lemma ok_advertise:
  assumes ok: "j = i \<and> ag_hasRecoverDelta ag \<and> ag_hasRecoverSnapshot ag \<or> recoveries_ok i ag" and d: "sd_streamId d \<noteq> []"
  shows "recoveries_ok i (advertiseStream j d ag)"
  unfolding recoveries_ok_def advertised_advertise
proof (intro conjI allI impI)
  show "ag_hasRecoverDelta (advertiseStream j d ag)" "ag_hasRecoverSnapshot (advertiseStream j d ag)"
    using ok by (auto simp: recoveries_ok_def)
next
  fix e
  assume "jmap_get (jmap_set j d (ag_advertised ag)) i = Some e"
  then show "sd_streamId e \<noteq> []" using ok d by (auto simp: jm.get_put recoveries_ok_def split: if_splits)
next
  fix rc e
  assume "recovery_of (advertiseStream j d ag) i = Some rc" "jmap_get (jmap_set j d (ag_advertised ag)) i = Some e"
  then show "rc_streamId rc = sd_streamId e"
    using ok advertise_recovery_same(1) by (cases "i = j") (auto simp: jm.get_put recoveries_ok_def advertise_recovery_other)
qed

lemma watches_advertise:
  assumes w: "watches i s r ag" and d: "sd_streamId d \<noteq> []" "j = i \<Longrightarrow> sd_streamId d = s"
  shows "watches i s r (advertiseStream j d ag)"
proof -
  have adv: "advertised_stream (advertiseStream j d ag) i = (if i = j then Some (sd_streamId d) else advertised_stream ag i)"
    by (simp add: advertised_stream_def advertised_advertise jm.get_put)
  have "\<exists>rc'. recovery_of (advertiseStream j d ag) i = Some rc' \<and> recovery_live rc' \<and> rc_streamId rc' = s \<and> r \<le> rc_highWater rc'"
    if rc: "recovery_of ag i = Some rc" "recovery_live rc" "rc_streamId rc = s" "r \<le> rc_highWater rc" for rc
  proof (cases "i = j")
    case True
    then obtain rc' where rc': "recovery_of (advertiseStream j d ag) j = Some rc'" "recovery_live rc'" using rc advertise_recovery_kept by blast
    show ?thesis
      using advertise_recovery_same [OF rc'(1)] rc rc' True d(2) by (auto intro: le_trans)
  qed (use rc in \<open>simp add: advertise_recovery_other\<close>)
  then have "covers (advertiseStream j d ag) i s r" using w unfolding watches_def covers_def by auto
  then show ?thesis using w ok_advertise [of j i ag d] d adv by (auto simp: watches_def)
qed

text \<open>The operations that let the aggregator off: the instance is removed, disappears or changes its stream, or the recovery fails.\<close>

fun keeps_watch :: "string \<Rightarrow> string \<Rightarrow> 's agg_op \<Rightarrow> bool" where
  "keeps_watch i s (AAdvertise j d) = (sd_streamId d \<noteq> [] \<and> (j = i \<longrightarrow> sd_streamId d = s))"
| "keeps_watch i s (ARemove j) = (j \<noteq> i)"
| "keeps_watch i s (AResume j Failure) = (j \<noteq> i)"
| "keeps_watch i s (ABootstrap atStart instances) = (i \<in> ie_instanceId ` set instances)"
| "keeps_watch i s _ = True"

lemma watches_handle: "watches i s r ag \<Longrightarrow> watches i s r (snd (agg_handleEvent env envelope ag))"
  by (cases "(env, envelope, ag)" rule: agg_handleEvent.cases) (auto simp: applySnapshot_def watches_apply)

lemma watches_delta: "watches i s r ag \<Longrightarrow> watches i s r (snd (agg_delta env j t n ag))"
proof -
  assume w: "watches i s r ag"
  have "watches i s r (agg_pruneHistory env k ag)" for k
    using w watches_cong [of "agg_pruneHistory env k ag" i ag] by (simp add: projection_of_def)
  then show ?thesis using w by (auto simp: agg_delta_def Let_def split: sum.splits)
qed

lemma watches_step: "watches i s r ag \<Longrightarrow> keeps_watch i s op \<Longrightarrow> watches i s r (agg_step ag (env, op))"
proof (cases op)
  case (AResume j answer)
  assume "watches i s r ag" "keeps_watch i s op"
  then show ?thesis unfolding AResume by (cases answer) (auto intro!: watches_resume)
qed (auto simp: watches_handle watches_advertise watches_finally watches_remove watches_bootstrap watches_install refreshInstance_def watches_delta)

lemma watches_run: "watches i s r ag \<Longrightarrow> \<forall>x \<in> set ops. keeps_watch i s (snd x) \<Longrightarrow> watches i s r (foldl agg_step ag ops)"
proof (induction ops arbitrary: ag)
  case (Cons x ops)
  then have "watches i s r (agg_step ag x)" by (cases x) (auto intro: watches_step)
  then show ?case using Cons by simp
qed simp

section \<open>What starts a watch\<close>

lemma apply_known:
  "applyAiSessionStreamEvent current ev = Duplicate c \<Longrightarrow>
     current = Some c \<and> sx_streamId c = em_streamId (meta ev) \<and> em_revision (meta ev) \<le> sx_revision c"
  "applyAiSessionStreamEvent current ev = Stale c \<Longrightarrow>
     current = Some c \<and> sx_streamId c = em_streamId (meta ev) \<and> em_revision (meta ev) \<le> sx_revision c"
  by (auto simp: applyAiSessionStreamEvent_def Let_def split: option.splits stream_event.splits if_splits)

lemma recoverStream_covers:
  assumes ok: "ag_hasRecoverDelta ag" "ag_hasRecoverSnapshot ag" and d: "jmap_get (ag_advertised ag) i = Some d" "sd_streamId d = s"
    and live: "\<not> recovery_ended ag i"
  shows "covers (recoverStream i s n ag) i s n"
proof (cases "recovery_of ag i")
  case (Some rc)
  then show ?thesis using live by (auto simp: covers_def recoverStream_recovery recovery_ended_def)
next
  case None
  define rc0 where "rc0 = \<lparr>rc_streamId = s, rc_highWater = n, rc_number = Suc (ag_recoveryCount ag), rc_await = AwaitState, rc_waiters = 0\<rparr>"
  have rec: "recovery_of (recoverStream i s n ag) i = Some (recovery_top i ag rc0)"
    using None ok by (simp add: recoverStream_recovery rc0_def)
  show ?thesis
  proof (cases "recovery_live (recovery_top i ag rc0)")
    case False
    from top_done [OF False d(1)] d(2) show ?thesis by (auto simp: covers_def rc0_def)
  next
    case True
    then show ?thesis using rec top_keeps [OF d(1), of rc0] d by (auto simp: covers_def rc0_def)
  qed
qed

lemma advertise_watches:
  assumes ok: "ag_hasRecoverDelta ag" "ag_hasRecoverSnapshot ag" and d: "sd_streamId d \<noteq> []" and live: "\<not> recovery_ended ag i"
  shows "watches i (sd_streamId d) (sd_latestRevision d) (advertiseStream i d ag)"
proof -
  let ?ag = "ag\<lparr>ag_advertised := jmap_set i d (ag_advertised ag)\<rparr>"
  have "covers (recoverStream i (sd_streamId d) (sd_latestRevision d) ?ag) i (sd_streamId d) (sd_latestRevision d)"
    by (rule recoverStream_covers [of ?ag i d]) (use ok live in \<open>simp_all add: recovery_ended_def recovery_of_def\<close>)
  then have "covers (advertiseStream i d ag) i (sd_streamId d) (sd_latestRevision d)"
    by (auto simp: covers_def advertise_recovery Let_def)
  then show ?thesis
    using ok_advertise [of i i ag d] ok d by (simp add: watches_def advertised_stream_def advertised_advertise)
qed

lemma event_watches:
  assumes w: "watches i s r ag" and ev: "em_instanceId (meta ev) = i" "em_streamId (meta ev) = s" and live: "\<not> recovery_ended ag i"
  shows "watches i s (em_revision (meta ev)) (snd (agg_apply env False ev ag))"
proof -
  let ?n = "em_revision (meta ev)"
  let ?ag = "snd (agg_apply env False ev ag)"
  obtain d where d: "jmap_get (ag_advertised ag) i = Some d" "sd_streamId d = s" using watched_stream [OF w] by blast
  have ok: "ag_hasRecoverDelta ag" "ag_hasRecoverSnapshot ag" using w by (auto simp: watches_def recoveries_ok_def)
  have ob: "\<not> obsolete_stream ag i s" using d by (simp add: obsolete_stream_def)
  have rs: "covers (recoverStream i s ?n (count_reset ev ag)) i s ?n"
      "covers (recoverStream i s ?n ((count_reset ev ag)\<lparr>ag_counters := c\<rparr>)) i s ?n" for c
    using ok d live by (auto intro!: recoverStream_covers simp: recovery_ended_def recovery_of_def)
  have "covers ?ag i s ?n"
  proof (cases "recovery_of ag i")
    case (Some rc)
    moreover have "rc_streamId rc = s" by (rule watched_recovery [OF w Some])
    ultimately show ?thesis
      using ob ev live has_recovery [of ag i]
      by (auto simp: agg_apply_def Let_def covers_def raise_recovery recovery_ended_def recovery_of_def [symmetric])
  next
    case None
    then have step: "?ag = snd (case applyAiSessionStreamEvent (projection_of ag i) ev of
          Applied st \<Rightarrow> (True, agg_accept env ev st (count_reset ev ag))
        | Gap _ _ _ \<Rightarrow> (False, recoverStream i s ?n
            ((count_reset ev ag)\<lparr>ag_counters := (ag_counters (count_reset ev ag))\<lparr>co_gaps := co_gaps (ag_counters (count_reset ev ag)) + 1\<rparr>\<rparr>))
        | SnapshotRequired _ _ \<Rightarrow> (False, recoverStream i s ?n (count_reset ev ag))
        | _ \<Rightarrow> (False, count_reset ev ag))"
      using ob ev has_recovery [of ag i] by (simp add: agg_apply_def Let_def cong: apply_result.case_cong)
    show ?thesis
    proof (cases "applyAiSessionStreamEvent (projection_of ag i) ev")
      case (Applied st)
      then show ?thesis using step ev apply_Applied(1,2) [OF Applied] by (auto simp: covers_def)
    next
      case (Duplicate c)
      then show ?thesis using step ev by (auto simp: covers_def dest!: apply_known)
    next
      case (Stale c)
      then show ?thesis using step ev by (auto simp: covers_def dest!: apply_known)
    qed (use step rs in auto)
  qed
  then show ?thesis using watches_apply [OF w, of env False ev] by (simp add: watches_def)
qed

lemma handle_watches:
  assumes w: "watches i s r ag" and ev: "em_instanceId (meta ev) = i" "em_streamId (meta ev) = s" and live: "\<not> recovery_ended ag i"
  shows "watches i s (em_revision (meta ev)) (snd (agg_handleEvent env (StreamEnvelope ev) ag))"
proof -
  have "\<not> obsolete_stream ag i s" using watched_stream [OF w] by (auto simp: obsolete_stream_def)
  then have "agg_handleEvent env (StreamEnvelope ev) ag = agg_apply env False ev ag"
    using ev by (cases ev) (simp_all add: applySnapshot_def)
  then show ?thesis using event_watches [OF w ev live] by simp
qed

lemma watches_both: "watches i s m ag \<Longrightarrow> watches i s n ag \<Longrightarrow> \<not> in_recovery ag i \<Longrightarrow>
    \<exists>st. projection_of ag i = Some st \<and> sx_streamId st = s \<and> max m n \<le> sx_revision st"
  by (auto simp: watches_def covers_def in_recovery_def)

text \<open>
  Claim C3.
  Once a stream is advertised, the aggregator misses no revision it hears of, except in the moment between the end of a
  recovery's loop and the deletion of its record: whatever else arrives, and however many events are dropped because they are out
  of order or arrive during a recovery, as soon as no recovery of the instance is running the projection has reached the
  advertised revision and that of every event received. Only removing the instance, a new stream or a failed recovery ends this
  promise.
\<close>

theorem no_revision_lost:
  assumes "ag_hasRecoverDelta ag" "ag_hasRecoverSnapshot ag" "sd_streamId d \<noteq> []" "\<not> recovery_ended ag i"
    and ops: "\<forall>x \<in> set ops1. keeps_watch i (sd_streamId d) (snd x)" "\<forall>x \<in> set ops2. keeps_watch i (sd_streamId d) (snd x)"
    and ev: "em_instanceId (meta ev) = i" "em_streamId (meta ev) = sd_streamId d"
    and ag1: "ag1 = foldl agg_step (advertiseStream i d ag) ops1" "\<not> recovery_ended ag1 i"
    and ag': "ag' = foldl agg_step ag1 ((env, AHandle (StreamEnvelope ev)) # ops2)"
    and idle: "\<not> in_recovery ag' i"
  shows "\<exists>st. projection_of ag' i = Some st \<and> sx_streamId st = sd_streamId d
    \<and> max (sd_latestRevision d) (em_revision (meta ev)) \<le> sx_revision st"
proof -
  let ?s = "sd_streamId d"
  have "watches i ?s (sd_latestRevision d) ag1"
    unfolding ag1(1) by (rule watches_run [OF advertise_watches [OF assms(1-4)] ops(1)])
  then have "watches i ?s (sd_latestRevision d) (snd (agg_handleEvent env (StreamEnvelope ev) ag1))"
      "watches i ?s (em_revision (meta ev)) (snd (agg_handleEvent env (StreamEnvelope ev) ag1))"
    using watches_handle handle_watches ev ag1(2) by blast+
  then have "watches i ?s (sd_latestRevision d) ag'" "watches i ?s (em_revision (meta ev)) ag'"
    unfolding ag' using watches_run [OF _ ops(2)] by simp_all
  then show ?thesis using idle by (intro watches_both)
qed

text \<open>
  Claim C17.
  The exception is real. An event that the projection is ready for is applied when it is handled after the record of an ended
  recovery was deleted; handled just before, it is dropped without a trace: the projection stays, and no recovery is left that would
  fetch the revision.
\<close>

theorem event_before_finally_is_lost:
  assumes ended: "recovery_ended ag i" and ev: "em_instanceId (meta ev) = i" "advertised_stream ag i = Some (em_streamId (meta ev))"
    and st: "applyAiSessionStreamEvent (projection_of ag i) ev = Applied st"
  shows "projection_of (foldl agg_step ag [(env, AFinally i), (env, AHandle (StreamEnvelope ev))]) i = Some st
    \<and> projection_of (foldl agg_step ag [(env, AHandle (StreamEnvelope ev)), (env, AFinally i)]) i = projection_of ag i
    \<and> jmap_get (ag_recoveries (foldl agg_step ag [(env, AHandle (StreamEnvelope ev)), (env, AFinally i)])) i = None"
proof -
  have handle: "agg_handleEvent env (StreamEnvelope ev) ag' = agg_apply env False ev ag'" if "ag_advertised ag' = ag_advertised ag" for ag'
    using ev that by (cases ev) (auto simp: applySnapshot_def obsolete_stream_def advertised_stream_def)
  have ob: "\<not> obsolete_stream ag' i (em_streamId (meta ev))" if "ag_advertised ag' = ag_advertised ag" for ag'
    using ev(2) that by (auto simp: obsolete_stream_def advertised_stream_def)
  have "recovery_of (recovery_finally i ag) i = None" using ended by (simp add: finally_recovery)
  then have "snd (agg_apply env False ev (recovery_finally i ag)) = agg_accept env ev st (count_reset ev (recovery_finally i ag))"
    using ob [of "recovery_finally i ag"] ev(1) st has_recovery [of "recovery_finally i ag" i] by (simp add: agg_apply_def Let_def)
  moreover have "jmap_has (ag_recoveries ag) i" using ended by (auto simp: has_recovery recovery_ended_def split: option.splits)
  then have "snd (agg_apply env False ev ag) = ag \<or> snd (agg_apply env False ev ag) = raise_highWater i (em_revision (meta ev)) ag"
    using ob ev(1) by (auto simp: agg_apply_def Let_def)
  moreover have "recovery_ended (raise_highWater i n ag) i" for n using ended by (auto simp: recovery_ended_def raise_recovery split: option.splits)
  moreover have "jmap_get (ag_recoveries (recovery_finally i ag')) i = None" if "recovery_ended ag' i" for ag' :: "'a session_summary_scheme aggregator"
    using finally_recovery [of i ag' i] that by (simp add: recovery_of_def)
  ultimately show ?thesis using handle ended ev(1) by auto
qed

section \<open>Recoveries end\<close>

text \<open>
  The answers of the instance whose stream it is, and the steps of the recovery they allow: the answer, and the deletion of the
  record when it has ended the loop.
\<close>

definition honest_answer :: "stream_env \<Rightarrow> (string \<Rightarrow> bool) \<Rightarrow> 'a session_summary_scheme sessions_snapshot \<Rightarrow> 'a session_summary_scheme authority \<Rightarrow> recovery
    \<Rightarrow> 'a session_summary_scheme answer" where
  "honest_answer env isMember bound au rc =
     (case rc_await rc of
        AwaitDelta streamId since \<Rightarrow> DeltaAnswer (fst (aiSessionDeltaSince env streamId since au))
      | _ \<Rightarrow> StateAnswer (aiSessionsState True isMember bound au))"

definition recovery_round :: "stream_env \<Rightarrow> (string \<Rightarrow> bool) \<Rightarrow> 'a session_summary_scheme sessions_snapshot \<Rightarrow> 'a session_summary_scheme authority \<Rightarrow> string
    \<Rightarrow> 'a session_summary_scheme aggregator \<Rightarrow> 'a session_summary_scheme aggregator" where
  "recovery_round env isMember bound au i ag =
     (case jmap_get (ag_recoveries ag) i of
        None \<Rightarrow> ag
      | Some rc \<Rightarrow> recovery_finally i (recovery_resume env i (honest_answer env isMember bound au rc) ag))"

lemma delta_events_instance:
  assumes "authority_inv T au" "ev \<in> set (dr_events (fst (aiSessionDeltaSince env streamId since au)))"
  shows "em_instanceId (meta ev) = au_instanceId au"
proof -
  have inv: "authority_inv T (pruneAiSessionEventHistory env au)" using assms(1) by (rule prune_inv)
  have "ev \<in> fst ` set (au_history (pruneAiSessionEventHistory env au))"
    using assms(2) by (auto simp: aiSessionDeltaSince_def Let_def split: if_splits)
  then show ?thesis using inv by (auto simp: authority_inv_def event_of_def pruneAiSessionEventHistory_def)
qed

lemma forward_applied:
  assumes d: "advertised_stream ag i = Some s" and ev: "em_instanceId (meta ev) = i" "em_streamId (meta ev) = s"
    and st: "applyAiSessionStreamEvent (projection_of ag i) ev = Applied st"
  shows "ag_recoveries (apply_and_forward env True ev ag) = ag_recoveries ag" "ag_advertised (apply_and_forward env True ev ag) = ag_advertised ag"
    and "projection_of (apply_and_forward env True ev ag) i = Some st"
proof -
  have "\<not> obsolete_stream ag i s" using d by (auto simp: obsolete_stream_def advertised_stream_def)
  then have "agg_apply env True ev ag = (True, agg_accept env ev st (count_reset ev ag))"
    using ev st by (simp add: agg_apply_def Let_def)
  then show "ag_recoveries (apply_and_forward env True ev ag) = ag_recoveries ag" "ag_advertised (apply_and_forward env True ev ag) = ag_advertised ag"
    and "projection_of (apply_and_forward env True ev ag) i = Some st"
    using ev by (simp_all add: apply_and_forward_def)
qed

lemma forward_all_reaches:
  assumes "advertised_stream ag i = Some s" "projection_of ag i = Some c" "sx_streamId c = s"
    and "\<forall>ev \<in> set evs. em_streamId (meta ev) = s \<and> em_instanceId (meta ev) = i
      \<and> (\<not> is_SnapshotEvent ev \<longrightarrow> em_previousRevision (meta ev) = Some (em_revision (meta ev) - 1))"
    and "map (\<lambda>ev. em_revision (meta ev)) evs = [Suc (sx_revision c) ..< Suc n]" "sx_revision c \<le> n"
    and "ag' = fold (apply_and_forward env True) evs ag"
  shows "ag_recoveries ag' = ag_recoveries ag \<and> ag_advertised ag' = ag_advertised ag
    \<and> (\<exists>st. projection_of ag' i = Some st \<and> sx_streamId st = s \<and> sx_revision st = n)"
  using assms
proof (induction evs arbitrary: ag c)
  case Nil
  then have "[Suc (sx_revision c) ..< Suc n] = []" by (simp only: list.map)
  then have "sx_revision c = n" using Nil(6) by (simp add: upt_eq_Nil_conv del: upt_Suc)
  then show ?case using Nil by simp
next
  case (Cons ev evs)
  have lt: "sx_revision c < n" using Cons.prems(5) by (cases "sx_revision c < n") auto
  then have revs: "em_revision (meta ev) = Suc (sx_revision c)" "map (\<lambda>ev. em_revision (meta ev)) evs = [Suc (Suc (sx_revision c)) ..< Suc n]"
    using Cons.prems(5) by (auto simp: upt_conv_Cons simp del: upt_Suc)
  obtain st where st: "applyAiSessionStreamEvent (Some c) ev = Applied st"
    using apply_next [of ev c] Cons.prems(3,4) revs(1) by auto
  have ev: "em_instanceId (meta ev) = i" "em_streamId (meta ev) = s" using Cons.prems(4) by auto
  note fwd = forward_applied [OF Cons.prems(1) ev, of st env]
  have st': "applyAiSessionStreamEvent (projection_of ag i) ev = Applied st" using st Cons.prems(2) by simp
  let ?ag = "apply_and_forward env True ev ag"
  have "ag_recoveries ag' = ag_recoveries ?ag \<and> ag_advertised ag' = ag_advertised ?ag
    \<and> (\<exists>st. projection_of ag' i = Some st \<and> sx_streamId st = s \<and> sx_revision st = n)"
    using Cons.prems fwd [OF st'] apply_Applied(1,2) [OF st] ev revs lt
    by (intro Cons.IH [of ?ag st]) (auto simp: advertised_stream_def simp del: upt_Suc)
  then show ?case using fwd [OF st'] by simp
qed

lemma state_event_apply:
  assumes "\<And>c. current = Some c \<Longrightarrow> sx_streamId c = sx_streamId st \<Longrightarrow> sx_revision c \<le> sx_revision st"
  shows "applyAiSessionStreamEvent current (state_event env i st) = Applied st
    \<or> (\<exists>c. current = Some c \<and> sx_streamId c = sx_streamId st \<and> sx_revision c = sx_revision st
        \<and> applyAiSessionStreamEvent current (state_event env i st) = Duplicate c)"
  using assms by (cases current) (auto simp: applyAiSessionStreamEvent_def state_event_def Let_def)

lemma bottom_done:
  assumes "recovery_of ag i = Some rc" "jmap_get (ag_advertised ag) i = Some d" "projection_of ag i = Some st"
    "sx_streamId st = sd_streamId d" "sd_latestRevision d \<le> sx_revision st" "rc_highWater rc \<le> sx_revision st"
  shows "recovery_of (recovery_finally i (recovery_bottom i ag)) i = None"
  using assms by (simp add: finally_recovery recovery_ended_def bottom_recovery recovered_now_def)

lemma round_state:
  assumes rc: "recovery_of ag i = Some rc" "rc_await rc \<in> {AwaitState, AwaitFallback}" "rc_highWater rc \<le> au_revision au"
    and d: "jmap_get (ag_advertised ag) i = Some d" "sd_streamId d = au_streamId au" "sd_latestRevision d \<le> au_revision au"
    and c: "\<And>c. projection_of ag i = Some c \<Longrightarrow> sx_streamId c = au_streamId au \<Longrightarrow> sx_revision c \<le> au_revision au"
    and ag': "ag' = recovery_round env isMember bound au i ag"
  shows "recovery_of ag' i = None \<and> (\<exists>st. projection_of ag' i = Some st \<and> sx_streamId st = au_streamId au \<and> sx_revision st = au_revision au)"
proof -
  define st where "st = aiSessionsState True isMember bound au"
  have st: "sx_streamId st = au_streamId au" "sx_revision st = au_revision au" by (simp_all add: st_def aiSessionsState_def)
  define ag1 where "ag1 = apply_and_forward env True (state_event env i st) ag"
  have ob: "\<not> obsolete_stream ag i (au_streamId au)" using d by (simp add: obsolete_stream_def)
  have m: "em_instanceId (meta (state_event env i st)) = i" "em_streamId (meta (state_event env i st)) = au_streamId au"
    using st by (simp_all add: state_event_def)
  have adv: "advertised_stream ag i = Some (au_streamId au)" using d by (simp add: advertised_stream_def)
  have ag1: "ag_recoveries ag1 = ag_recoveries ag \<and> ag_advertised ag1 = ag_advertised ag
      \<and> (\<exists>c. projection_of ag1 i = Some c \<and> sx_streamId c = au_streamId au \<and> sx_revision c = au_revision au)"
  proof -
    have "applyAiSessionStreamEvent (projection_of ag i) (state_event env i st) = Applied st
      \<or> (\<exists>c. projection_of ag i = Some c \<and> sx_streamId c = sx_streamId st \<and> sx_revision c = sx_revision st
        \<and> applyAiSessionStreamEvent (projection_of ag i) (state_event env i st) = Duplicate c)"
      using c st by (intro state_event_apply) auto
    then show ?thesis
    proof
    assume "applyAiSessionStreamEvent (projection_of ag i) (state_event env i st) = Applied st"
    from forward_applied [OF adv m this, of env] show ?thesis unfolding ag1_def using st by simp
  next
    assume "\<exists>c. projection_of ag i = Some c \<and> sx_streamId c = sx_streamId st \<and> sx_revision c = sx_revision st
        \<and> applyAiSessionStreamEvent (projection_of ag i) (state_event env i st) = Duplicate c"
    then obtain c where c: "projection_of ag i = Some c" "sx_streamId c = sx_streamId st" "sx_revision c = sx_revision st"
        "applyAiSessionStreamEvent (projection_of ag i) (state_event env i st) = Duplicate c" by blast
    then have "agg_apply env True (state_event env i st) ag = (False, count_reset (state_event env i st) ag)"
      using ob m by (simp add: agg_apply_def Let_def)
    then show ?thesis unfolding ag1_def using c st by (simp add: apply_and_forward_def)
    qed
  qed
  define ag2 where "ag2 = ag1\<lparr>ag_counters := (ag_counters ag1)\<lparr>co_snapshotRecoveries := co_snapshotRecoveries (ag_counters ag1) + 1\<rparr>\<rparr>"
  have "ag' = recovery_finally i (recovery_bottom i ag2)"
    using rc(1,2) adv st by (auto simp: ag' recovery_round_def recovery_resume_def honest_answer_def recovery_of_def resume_state_def Let_def
        ag2_def ag1_def st_def)
  moreover obtain c' where "projection_of ag2 i = Some c'" "sx_streamId c' = au_streamId au" "sx_revision c' = au_revision au"
    using ag1 by (auto simp: ag2_def)
  moreover have "recovery_of ag2 i = Some rc" "jmap_get (ag_advertised ag2) i = Some d"
    using ag1 rc(1) d(1) by (auto simp: ag2_def recovery_of_def)
  ultimately show ?thesis using bottom_done [of ag2 i rc d c'] rc(3) d(2,3) by simp
qed

lemma round_delta:
  assumes inv: "authority_inv T au" "au_instanceId au = i"
    and rc: "recovery_of ag i = Some rc" "rc_await rc = AwaitDelta (au_streamId au) (sx_revision c)" "rc_highWater rc \<le> au_revision au"
      "rc_streamId rc = au_streamId au"
    and d: "jmap_get (ag_advertised ag) i = Some d" "sd_streamId d = au_streamId au" "sd_latestRevision d \<le> au_revision au"
    and c: "projection_of ag i = Some c" "sx_streamId c = au_streamId au" "sx_revision c \<le> au_revision au"
    and ag': "ag' = recovery_round env isMember bound au i ag"
  shows "(recovery_of ag' i = None \<and> (\<exists>st. projection_of ag' i = Some st \<and> sx_streamId st = au_streamId au \<and> sx_revision st = au_revision au))
    \<or> (recovery_of ag' i = Some (rc\<lparr>rc_await := AwaitFallback\<rparr>) \<and> ag_advertised ag' = ag_advertised ag \<and> projection_of ag' i = projection_of ag i)"
proof -
  define dl where "dl = fst (aiSessionDeltaSince env (au_streamId au) (sx_revision c) au)"
  have dl: "dr_streamId dl = au_streamId au" "dr_latestRevision dl = au_revision au" "dr_sinceRevision dl = sx_revision c"
    by (auto simp: dl_def aiSessionDeltaSince_def Let_def pruneAiSessionEventHistory_def)
  have adv: "advertised_stream ag i = Some (au_streamId au)" using d by (simp add: advertised_stream_def)
  have run: "ag' = recovery_finally i (resume_delta env i dl rc ag)"
    using rc by (simp add: ag' recovery_round_def recovery_resume_def honest_answer_def recovery_of_def dl_def)
  show ?thesis
  proof (cases "dr_syncRequired dl")
    case True
    then have "resume_delta env i dl rc ag = ag\<lparr>ag_recoveries := jmap_set i (rc\<lparr>rc_await := AwaitFallback\<rparr>) (ag_recoveries ag)\<rparr>" (is "_ = ?ag")
      using adv rc dl by (simp add: resume_delta_def)
    moreover have "recovery_of ?ag i = Some (rc\<lparr>rc_await := AwaitFallback\<rparr>)" by (simp add: recovery_of_def)
    ultimately show ?thesis using run by (simp add: finally_recovery recovery_ended_def)
  next
    case False
    define ag1 where "ag1 = fold (apply_and_forward env True) (dr_events dl) ag"
    have au: "delta_authentic T dl" unfolding dl_def by (rule delta_since_authentic [OF inv(1)])
    have inst: "em_instanceId (meta ev) = i" if "ev \<in> set (dr_events dl)" for ev
      using delta_events_instance [OF inv(1)] that inv(2) by (simp add: dl_def)
    have ag1: "ag_recoveries ag1 = ag_recoveries ag \<and> ag_advertised ag1 = ag_advertised ag
        \<and> (\<exists>st. projection_of ag1 i = Some st \<and> sx_streamId st = au_streamId au \<and> sx_revision st = au_revision au)"
      by (rule forward_all_reaches [OF adv c(1,2) _ _ c(3) ag1_def]) (use au dl False inst in \<open>auto simp: delta_authentic_def simp del: upt_Suc\<close>)
    define ag2 where "ag2 = raise_highWater i (au_revision au) (ag1\<lparr>ag_counters := (ag_counters ag1)\<lparr>co_deltaRecoveries := co_deltaRecoveries (ag_counters ag1) + 1\<rparr>\<rparr>)"
    have "ag' = recovery_finally i (recovery_bottom i ag2)"
      using run adv rc(4) dl False by (simp add: resume_delta_def Let_def ag2_def ag1_def)
    moreover obtain st where "projection_of ag2 i = Some st" "sx_streamId st = au_streamId au" "sx_revision st = au_revision au"
      using ag1 by (auto simp: ag2_def)
    moreover have "recovery_of ag2 i = Some (rc\<lparr>rc_highWater := max (rc_highWater rc) (au_revision au)\<rparr>)" "jmap_get (ag_advertised ag2) i = Some d"
      using ag1 rc(1) d(1) by (simp_all add: ag2_def raise_recovery) (simp add: recovery_of_def)
    ultimately show ?thesis using bottom_done [of ag2 i _ d st] rc(3) d(2,3) by simp
  qed
qed

lemma advertise_awaits:
  assumes none: "recovery_of ag i = None" and ok: "ag_hasRecoverDelta ag" "ag_hasRecoverSnapshot ag"
    and rc: "recovery_of (advertiseStream i d ag) i = Some rc"
  shows "rc_streamId rc = sd_streamId d \<and> rc_highWater rc = sd_latestRevision d
    \<and> (\<not> recovery_live rc \<or> rc_await rc = AwaitState \<or> (\<exists>c. projection_of ag i = Some c \<and> sx_streamId c = sd_streamId d \<and> sx_revision c < sd_latestRevision d
        \<and> rc_await rc = AwaitDelta (sd_streamId d) (sx_revision c)))"
proof -
  let ?ag = "ag\<lparr>ag_advertised := jmap_set i d (ag_advertised ag)\<rparr>"
  define rc0 where "rc0 = \<lparr>rc_streamId = sd_streamId d, rc_highWater = sd_latestRevision d, rc_number = Suc (ag_recoveryCount ag),
      rc_await = AwaitState, rc_waiters = 0\<rparr>"
  have "recovery_of ?ag i = None" using none by (simp add: recovery_of_def)
  then have "recovery_of (recoverStream i (sd_streamId d) (sd_latestRevision d) ?ag) i = Some (recovery_top i ?ag rc0)"
    using ok by (simp add: recoverStream_recovery rc0_def)
  then obtain rc1 where rc1: "recovery_top i ?ag rc0 = rc1" "rc = rc1\<lparr>rc_waiters := rc_waiters rc1 + 1\<rparr>"
    using rc by (auto simp: advertise_recovery Let_def)
  have "jmap_get (ag_advertised ?ag) i = Some d" by simp
  then show ?thesis
    using rc1 by (auto simp: recovery_top_def recovery_live_def Let_def rc0_def split: option.splits if_splits)
qed

text \<open>
  Claim C10.
  When the instance answers, a recovery ends: after a stream is advertised to an aggregator that is not recovering it, at most
  two answers of the instance, a delta and possibly a snapshot, end the recovery with the projection at the advertised
  revision or later.
\<close>

theorem advertised_stream_is_recovered:
  assumes inv: "authority_inv T au" and i: "au_instanceId au = i" and d: "sd_streamId d = au_streamId au" "sd_latestRevision d \<le> au_revision au"
    and ag: "ag_hasRecoverDelta ag" "ag_hasRecoverSnapshot ag" "jmap_get (ag_recoveries ag) i = None" "au_streamId au \<noteq> []"
    and c: "\<And>c. projection_of ag i = Some c \<Longrightarrow> sx_streamId c = au_streamId au \<Longrightarrow> sx_revision c \<le> au_revision au"
  shows "\<exists>n \<le> 2. \<exists>ag'. ag' = ((recovery_round env isMember bound au i) ^^ n) (advertiseStream i d ag)
    \<and> jmap_get (ag_recoveries ag') i = None
    \<and> (\<exists>st. projection_of ag' i = Some st \<and> sx_streamId st = au_streamId au \<and> sd_latestRevision d \<le> sx_revision st)"
proof -
  define ag1 where "ag1 = advertiseStream i d ag"
  let ?round = "recovery_round env isMember bound au i"
  define finished where "finished ag' \<longleftrightarrow> recovery_of ag' i = None
    \<and> (\<exists>st. projection_of ag' i = Some st \<and> sx_streamId st = au_streamId au \<and> sd_latestRevision d \<le> sx_revision st)"
    for ag' :: "'a session_summary_scheme aggregator"
  have adv: "jmap_get (ag_advertised ag1) i = Some d" by (simp add: ag1_def advertised_advertise)
  have proj: "projection_of ag1 i = projection_of ag i" by (simp add: ag1_def)
  have none: "recovery_of ag i = None" using ag(3) by (simp add: recovery_of_def)
  have watch: "watches i (sd_streamId d) (sd_latestRevision d) ag1"
    unfolding ag1_def using ag(1,2,4) d none by (intro advertise_watches) (simp_all add: recovery_ended_def)
  have "\<exists>n \<le> 2. finished ((?round ^^ n) ag1)"
  proof (cases "recovery_of ag1 i")
    case None
    with watch have "finished ((?round ^^ 0) ag1)" using None d unfolding finished_def watches_def covers_def by auto
    then show ?thesis by blast
  next
    case (Some rc)
    note await = advertise_awaits [OF none ag(1,2) Some [unfolded ag1_def]]
    then consider "\<not> recovery_live rc" | "recovery_live rc" "rc_await rc = AwaitState" | c where "projection_of ag i = Some c" "sx_streamId c = au_streamId au"
        "sx_revision c < sd_latestRevision d" "rc_await rc = AwaitDelta (au_streamId au) (sx_revision c)" using d by auto
    then show ?thesis
    proof cases
      case 1
      then have "?round ag1 = recovery_finally i ag1"
        using Some by (auto simp: recovery_round_def recovery_resume_def recovery_of_def recovery_live_def split: await.splits answer.splits)
      moreover have "recovery_ended ag1 i" using Some 1 by (simp add: recovery_ended_def)
      ultimately have "finished ((?round ^^ 1) ag1)"
        using watch Some 1 d unfolding watches_def covers_def by (auto simp: finished_def finally_recovery)
      then show ?thesis by (intro exI [of _ 1]) auto
    next
      case 2
      have "finished ((?round ^^ 1) ag1)"
        using round_state [OF Some _ _ adv d, of "?round ag1" env isMember bound] 2 await d c proj by (auto simp: finished_def)
      then show ?thesis by (intro exI [of _ 1]) auto
    next
      case 3
      have hw: "rc_highWater rc \<le> au_revision au" "rc_streamId rc = au_streamId au" using await d by auto
      have fallback: "finished (?round ag')" if "recovery_of ag' i = Some (rc\<lparr>rc_await := AwaitFallback\<rparr>)" "ag_advertised ag' = ag_advertised ag1"
          "projection_of ag' i = projection_of ag1 i" for ag'
        using round_state [OF that(1) _ _ _ d, of "?round ag'" env isMember bound] that(2,3) adv hw c proj d(2) by (auto simp: finished_def)
      have "finished (?round ag1) \<or> finished (?round (?round ag1))"
        using round_delta [OF inv i Some 3(4) hw adv d _ 3(2) _ refl, of env isMember bound] 3 proj d(2) fallback
        by (auto simp: finished_def)
      then have "finished ((?round ^^ 1) ag1) \<or> finished ((?round ^^ 2) ag1)" by (simp add: numeral_2_eq_2)
      then show ?thesis by (metis le_refl one_le_numeral)
    qed
  qed
  then show ?thesis by (auto simp: finished_def recovery_of_def ag1_def)
qed

text \<open>The instance of the previous theory, advertised to a new aggregator.\<close>

definition demo_descriptor :: stream_descriptor where
  "demo_descriptor = \<lparr>sd_streamId = ''s'', sd_latestRevision = 2, sd_earliestRetainedRevision = 1\<rparr>"

lemma demo_authority: "authority_inv (sy_truth demo_published) demo_au"
proof -
  have "sy_authorities demo_published ''i'' = Some demo_au"
    by (simp add: demo_published_def demo_au_def) (simp add: demo_boot_def)
  then show ?thesis
    using system_invariant [OF demo_published_reachable] by (auto simp: system_inv_def authorities_inv_def)
qed

lemma demo_au_meta: "au_instanceId demo_au = ''i'' \<and> au_streamId demo_au = ''s'' \<and> au_revision demo_au = 2"
  by code_simp

theorem advertised_stream_is_recovered_witness:
  "\<exists>n \<le> 2. \<exists>ag'. ag' = ((recovery_round demo_env (\<lambda>_. False) (demo_bound []) demo_au ''i'') ^^ n)
        (advertiseStream ''i'' demo_descriptor (aggregator_new True True))
    \<and> jmap_get (ag_recoveries ag') ''i'' = None
    \<and> (\<exists>st. projection_of ag' ''i'' = Some st \<and> sx_streamId st = au_streamId demo_au \<and> sd_latestRevision demo_descriptor \<le> sx_revision st)"
  by (rule advertised_stream_is_recovered [OF demo_authority])
    (simp_all add: demo_au_meta demo_descriptor_def aggregator_new_def projection_of_def)

definition demo_answer :: "nat \<Rightarrow> session_summary agg_op" where
  "demo_answer n = AResume ''i'' (StateAnswer ((aiSessionsState True (\<lambda>_. False) (demo_bound []) demo_au)\<lparr>sx_revision := n\<rparr>))"

definition demo_advertised :: "session_summary aggregator" where
  "demo_advertised = advertiseStream ''i'' demo_descriptor (aggregator_new True True)"

definition demo_recovery :: "session_summary aggregator" where
  "demo_recovery = foldl agg_step demo_advertised
     ((demo_env, AHandle (StreamEnvelope (demo_events ! 1))) # [(demo_env, demo_answer 2), (demo_env, AFinally ''i'')])"

lemma demo_recovery_idle: "\<not> in_recovery demo_recovery ''i''" "\<not> recovery_ended demo_advertised ''i''" "in_recovery demo_advertised ''i''"
  by code_simp+

lemma demo_event_meta: "em_instanceId (meta (demo_events ! 1)) = ''i'' \<and> em_streamId (meta (demo_events ! 1)) = ''s'' \<and> em_revision (meta (demo_events ! 1)) = 2"
  by code_simp

text \<open>An event handled while the recovery waits; the answer ends the recovery, and its record is deleted.\<close>

theorem no_revision_lost_witness:
  "in_recovery demo_advertised ''i'' \<and> (\<exists>st. projection_of demo_recovery ''i'' = Some st \<and> sx_streamId st = ''s'' \<and> 2 \<le> sx_revision st)"
  using no_revision_lost [of "aggregator_new True True" demo_descriptor "''i''" "[]" "[(demo_env, demo_answer 2), (demo_env, AFinally ''i'')]"
      "demo_events ! 1" demo_advertised demo_recovery demo_env, OF _ _ _ _ _ _ _ _ _ demo_recovery_idle(2) demo_recovery_def demo_recovery_idle(1)]
    demo_event_meta demo_recovery_idle(3)
  by (simp add: aggregator_new_def demo_descriptor_def demo_advertised_def demo_answer_def recovery_ended_def recovery_of_def)

text \<open>The recovery of an instance that advertised revision 1 has just been answered when the event of revision 2 arrives.\<close>

definition demo_ended :: "session_summary aggregator" where
  "demo_ended = foldl agg_step (advertiseStream ''i'' (demo_descriptor\<lparr>sd_latestRevision := 1\<rparr>) (aggregator_new True True)) [(demo_env, demo_answer 1)]"

lemma demo_ended_state:
  "recovery_ended demo_ended ''i''" "advertised_stream demo_ended ''i'' = Some (em_streamId (meta (demo_events ! 1)))"
  "map_option sx_revision (projection_of demo_ended ''i'') = Some 1"
  "(case applyAiSessionStreamEvent (projection_of demo_ended ''i'') (demo_events ! 1) of Applied st \<Rightarrow> sx_revision st = 2 | _ \<Rightarrow> False)"
  by code_simp+

theorem event_before_finally_is_lost_witness:
  "map_option sx_revision (projection_of (foldl agg_step demo_ended [(demo_env, AFinally ''i''), (demo_env, AHandle (StreamEnvelope (demo_events ! 1)))]) ''i'') = Some 2
    \<and> map_option sx_revision (projection_of (foldl agg_step demo_ended [(demo_env, AHandle (StreamEnvelope (demo_events ! 1))), (demo_env, AFinally ''i'')]) ''i'') = Some 1"
proof -
  obtain st where st: "applyAiSessionStreamEvent (projection_of demo_ended ''i'') (demo_events ! 1) = Applied st" "sx_revision st = 2"
    using demo_ended_state(4) by (auto split: apply_result.splits)
  from event_before_finally_is_lost [OF demo_ended_state(1) _ demo_ended_state(2) st(1), of demo_env] demo_event_meta demo_ended_state(3) st(2)
  show ?thesis by simp
qed

end
