(* ===== verification/Session_Hierarchy.thy ===== *)
theory Session_Hierarchy
  imports Js_Date Js_Json Session_Types "HOL-Library.Multiset"
begin

text \<open>
  The forest of AI sessions (\<^verbatim>\<open>packages/protocol/src/ai-session-hierarchy.ts\<close>): sub-agent sessions name
  the provider session of their parent; from a flat list of sessions the code derives parents, breaks
  cycles, links children, aggregates times bottom-up and sorts. A node is its position in the list of
  sessions, and the objects the code mutates are the list of node records. A stack is a list with its
  top first. The loops over a stack get fuel; that it is always enough is proved. \<open>le\<close> stands for
  \<^verbatim>\<open>localeCompare\<close>.
\<close>

section \<open>Records\<close>

record hierarchy_record =
  hr_id :: string
  hr_instanceId :: "string option"
  hr_agent :: string
  hr_providerSessionId :: "string option"
  hr_lineage :: "lineage option"
  hr_status :: "lifecycle option"
  hr_lastUserMessageAt :: "string option"
  hr_updatedAt :: string
  hr_completedAt :: "string option"

datatype hierarchy_code = DuplicateProviderIdentity | OrphanParent | CrossAgentParent | CrossInstanceParent | SelfParent | Cycle

record hierarchy_diagnostic =
  hd_sessionId :: string
  hd_code :: hierarchy_code
  hd_parentProviderSessionId :: "string option"

record tree_node =
  tn_session :: hierarchy_record
  tn_parentSessionId :: "string option"
  tn_children :: "nat list"
  tn_aggregateUpdatedAt :: string
  tn_aggregateLastActiveAt :: string

record forest =
  fo_nodes :: "tree_node list"
  fo_nodesById :: "(string, nat) jmap"
  fo_roots :: "nat list"
  fo_diagnostics :: "hierarchy_diagnostic list"

datatype forest_order = UpdatedAt | LastUserMessage

definition NUL :: string where
  "NUL = [CHR 0x00]"

definition identityKey :: "string option \<Rightarrow> string \<Rightarrow> string option \<Rightarrow> string" where
  "identityKey instanceId agent providerSessionId = str_of instanceId @ NUL @ agent @ NUL @ str_of providerSessionId"

definition timestamp :: "string option \<Rightarrow> int" where
  "timestamp value = (if truthy value then (case date_parse (str_of value) of Some t \<Rightarrow> t | None \<Rightarrow> 0) else 0)"

definition latestTimestamp :: "string \<Rightarrow> string \<Rightarrow> string" where
  "latestTimestamp left right = (if timestamp (Some right) > timestamp (Some left) then right else left)"

definition stableHierarchyKey :: "hierarchy_record \<Rightarrow> string" where
  "stableHierarchyKey s = str_of (hr_instanceId s) @ NUL @ hr_agent s @ NUL
     @ (if truthy (hr_providerSessionId s) then str_of (hr_providerSessionId s) else hr_id s) @ NUL @ hr_id s"

definition ownLastActiveAt :: "hierarchy_record \<Rightarrow> string" where
  "ownLastActiveAt s = (if timestamp (hr_completedAt s) > timestamp (Some (hr_updatedAt s)) then str_of (hr_completedAt s) else hr_updatedAt s)"

section \<open>Candidate parents\<close>

definition new_node :: "hierarchy_record \<Rightarrow> tree_node" where
  "new_node s = \<lparr>tn_session = s, tn_parentSessionId = None, tn_children = [], tn_aggregateUpdatedAt = hr_updatedAt s,
     tn_aggregateLastActiveAt = ownLastActiveAt s\<rparr>"

abbreviation diagnostic :: "hierarchy_record \<Rightarrow> hierarchy_code \<Rightarrow> string option \<Rightarrow> hierarchy_diagnostic" where
  "diagnostic s code parent \<equiv> \<lparr>hd_sessionId = hr_id s, hd_code = code, hd_parentProviderSessionId = parent\<rparr>"

text \<open>The first session of every provider identity, and a diagnostic for every later one.\<close>

definition index_identity :: "hierarchy_record \<Rightarrow> (string, hierarchy_record) jmap \<times> hierarchy_diagnostic list
    \<Rightarrow> (string, hierarchy_record) jmap \<times> hierarchy_diagnostic list" where
  "index_identity s acc =
     (if \<not> truthy (hr_providerSessionId s) then acc
      else let key = identityKey (hr_instanceId s) (hr_agent s) (hr_providerSessionId s) in
           if jmap_has (fst acc) key then (fst acc, snd acc @ [diagnostic s DuplicateProviderIdentity None])
           else (jmap_set key s (fst acc), snd acc))"

definition missing_parent_code :: "hierarchy_record list \<Rightarrow> hierarchy_record \<Rightarrow> string \<Rightarrow> hierarchy_code" where
  "missing_parent_code sessions s parentId =
     (let sameProvider = filter (\<lambda>c. truthy (hr_providerSessionId c) \<and> hr_providerSessionId c = Some parentId) sessions in
      if \<exists>c \<in> set sameProvider. hr_instanceId c \<noteq> hr_instanceId s then CrossInstanceParent
      else if \<exists>c \<in> set sameProvider. hr_agent c \<noteq> hr_agent s then CrossAgentParent
      else OrphanParent)"

definition candidate_parent :: "hierarchy_record list \<Rightarrow> (string, hierarchy_record) jmap \<Rightarrow> hierarchy_record
    \<Rightarrow> (string, string) jmap \<times> hierarchy_diagnostic list \<Rightarrow> (string, string) jmap \<times> hierarchy_diagnostic list" where
  "candidate_parent sessions byIdentity s acc =
     (case hr_lineage s of
        Some (Subagent parentId) \<Rightarrow>
          (case jmap_get byIdentity (identityKey (hr_instanceId s) (hr_agent s) (Some parentId)) of
             None \<Rightarrow> (fst acc, snd acc @ [diagnostic s (missing_parent_code sessions s parentId) (Some parentId)])
           | Some parent \<Rightarrow>
               if hr_id parent = hr_id s then (fst acc, snd acc @ [diagnostic s SelfParent (Some parentId)])
               else (jmap_set (hr_id s) (hr_id parent) (fst acc), snd acc))
      | _ \<Rightarrow> acc)"

section \<open>Cycles\<close>

text \<open>The parent the loops follow: an empty identifier stops them.\<close>

definition parent_of :: "(string, string) jmap \<Rightarrow> string \<Rightarrow> string option" where
  "parent_of parents c = (case jmap_get parents c of Some p \<Rightarrow> if p = [] then None else Some p | None \<Rightarrow> None)"

text \<open>From one session up to a finished session, to a session without a parent or back into the path.\<close>

function follow_path :: "(string, string) jmap \<Rightarrow> string list \<Rightarrow> string list \<Rightarrow> string option \<Rightarrow> string list \<times> string list" where
  "follow_path parents complete path current =
     (case current of
        None \<Rightarrow> (path, [])
      | Some c \<Rightarrow>
          if c \<in> set complete then (path, [])
          else if c \<in> set path then (path, dropWhile (\<lambda>x. x \<noteq> c) path)
          else follow_path parents complete (path @ [c]) (parent_of parents c))"
  by pat_completeness auto
termination
proof (relation "measure (\<lambda>(parents, complete, path, current).
      2 * card (set (jmap_keys parents) - set path) + (if current = None then 0 else 1))")
  show "wf (measure (\<lambda>(parents, complete, path, current).
      2 * card (set (jmap_keys parents) - set path) + (if current = None then 0 else 1)))" by simp
  fix parents :: "(string, string) jmap" and complete path :: "string list" and current :: "string option" and c :: string
  assume c: "current = Some c" "c \<notin> set complete" "c \<notin> set path"
  let ?K = "set (jmap_keys parents)"
  show "((parents, complete, path @ [c], parent_of parents c), parents, complete, path, current)
      \<in> measure (\<lambda>(parents, complete, path, current). 2 * card (set (jmap_keys parents) - set path) + (if current = None then 0 else 1))"
  proof (cases "parent_of parents c")
    case None
    have "card (?K - set (path @ [c])) \<le> card (?K - set path)" by (rule card_mono) auto
    then show ?thesis using None c by simp
  next
    case (Some p)
    then have "c \<in> ?K" using jmap_get_None [of parents c] by (auto simp: parent_of_def split: option.splits)
    then have "?K - set (path @ [c]) \<subset> ?K - set path" using c by auto
    then have "card (?K - set (path @ [c])) < card (?K - set path)" by (intro psubset_card_mono) auto
    then show ?thesis using Some c by simp
  qed
qed

declare follow_path.simps [simp del]

text \<open>The outer loop: \<open>complete\<close> and \<open>cycleMembers\<close> are sets in insertion order.\<close>

definition cycle_step :: "(string, string) jmap \<Rightarrow> string \<Rightarrow> string list \<times> string list \<Rightarrow> string list \<times> string list" where
  "cycle_step parents sid acc =
     (if sid \<in> set (fst acc) then acc
      else case follow_path parents (fst acc) [] (if sid = [] then None else Some sid) of
             (path, members) \<Rightarrow> (js_uniq (fst acc @ path), js_uniq (snd acc @ members)))"

definition cycle_members :: "string list \<Rightarrow> (string, string) jmap \<Rightarrow> string list" where
  "cycle_members sids parents = snd (fold (cycle_step parents) sids ([], []))"

section \<open>Linking\<close>

definition link_node :: "(string, string) jmap \<Rightarrow> (string, nat) jmap \<Rightarrow> nat \<Rightarrow> tree_node list \<times> nat list \<Rightarrow> tree_node list \<times> nat list" where
  "link_node parents nodesById n acc =
     (let nodes = fst acc in
      case Option.bind (parent_of parents (hr_id (tn_session (nodes ! n)))) (jmap_get nodesById) of
        None \<Rightarrow> (nodes, snd acc @ [n])
      | Some p \<Rightarrow>
          let nodes = nodes[n := (nodes ! n)\<lparr>tn_parentSessionId := Some (hr_id (tn_session (nodes ! p)))\<rparr>]
          in (nodes[p := (nodes ! p)\<lparr>tn_children := tn_children (nodes ! p) @ [n]\<rparr>], snd acc))"

section \<open>Walking the trees\<close>

text \<open>The stack of \<^verbatim>\<open>{ node, visited }\<close> entries; \<open>None\<close> means the fuel ran out.\<close>

fun postorder_loop :: "nat \<Rightarrow> (nat \<Rightarrow> nat list) \<Rightarrow> (nat \<times> bool) list \<Rightarrow> nat list \<Rightarrow> nat list option" where
  "postorder_loop fuel ch [] acc = Some acc"
| "postorder_loop 0 ch (e # st) acc = None"
| "postorder_loop (Suc fuel) ch ((v, True) # st) acc = postorder_loop fuel ch st (acc @ [v])"
| "postorder_loop (Suc fuel) ch ((v, False) # st) acc =
     postorder_loop fuel ch (map (\<lambda>c. (c, False)) (rev (ch v)) @ (v, True) # st) acc"

abbreviation children_of :: "tree_node list \<Rightarrow> nat \<Rightarrow> nat list" where
  "children_of nodes v \<equiv> tn_children (nodes ! v)"

definition postorder_fuel :: "tree_node list \<Rightarrow> nat" where
  "postorder_fuel nodes = 2 * length nodes"

definition hierarchyOrderTime :: "forest_order option \<Rightarrow> tree_node \<Rightarrow> int" where
  "hierarchyOrderTime orderBy node =
     timestamp (if orderBy = Some LastUserMessage then hr_lastUserMessageAt (tn_session node) else Some (tn_aggregateUpdatedAt node))"

definition hierarchyOrderFallback :: "(string \<Rightarrow> string \<Rightarrow> bool) \<Rightarrow> forest_order option \<Rightarrow> (string, nat) jmap \<Rightarrow> tree_node \<Rightarrow> tree_node \<Rightarrow> bool" where
  "hierarchyOrderFallback le orderBy indexById left right =
     (if orderBy = Some LastUserMessage then le (stableHierarchyKey (tn_session left)) (stableHierarchyKey (tn_session right))
      else (case jmap_get indexById (hr_id (tn_session left)) of Some i \<Rightarrow> i | None \<Rightarrow> 0)
         \<le> (case jmap_get indexById (hr_id (tn_session right)) of Some i \<Rightarrow> i | None \<Rightarrow> 0))"

definition node_le :: "(string \<Rightarrow> string \<Rightarrow> bool) \<Rightarrow> forest_order option \<Rightarrow> (string, nat) jmap \<Rightarrow> tree_node list \<Rightarrow> nat \<Rightarrow> nat \<Rightarrow> bool" where
  "node_le le orderBy indexById nodes left right =
     (let l = hierarchyOrderTime orderBy (nodes ! left); r = hierarchyOrderTime orderBy (nodes ! right) in
      l > r \<or> l = r \<and> hierarchyOrderFallback le orderBy indexById (nodes ! left) (nodes ! right))"

definition absorb_child :: "tree_node list \<Rightarrow> nat \<Rightarrow> tree_node \<Rightarrow> tree_node" where
  "absorb_child nodes child node = node\<lparr>
     tn_aggregateUpdatedAt := latestTimestamp (tn_aggregateUpdatedAt node) (tn_aggregateUpdatedAt (nodes ! child)),
     tn_aggregateLastActiveAt := latestTimestamp (tn_aggregateLastActiveAt node) (tn_aggregateLastActiveAt (nodes ! child))\<rparr>"

definition aggregate_node :: "(string \<Rightarrow> string \<Rightarrow> bool) \<Rightarrow> forest_order option \<Rightarrow> (string, nat) jmap \<Rightarrow> nat \<Rightarrow> tree_node list \<Rightarrow> tree_node list" where
  "aggregate_node le orderBy indexById v nodes =
     (let node = fold (absorb_child nodes) (children_of nodes v) (nodes ! v)
      in nodes[v := node\<lparr>tn_children := js_sort (node_le le orderBy indexById nodes) (tn_children node)\<rparr>])"

section \<open>The forest\<close>

definition candidate_parents :: "hierarchy_record list \<Rightarrow> (string, string) jmap \<times> hierarchy_diagnostic list" where
  "candidate_parents sessions =
     (let (byIdentity, diagnostics) = fold index_identity sessions ([], [])
      in fold (candidate_parent sessions byIdentity) sessions ([], diagnostics))"

definition cycle_diagnostic :: "hierarchy_record list \<Rightarrow> (string, nat) jmap \<Rightarrow> string \<Rightarrow> hierarchy_diagnostic" where
  "cycle_diagnostic sessions nodesById sid = \<lparr>hd_sessionId = sid, hd_code = Cycle,
     hd_parentProviderSessionId = Option.bind (jmap_get nodesById sid) (\<lambda>n. map_option parentProviderSessionId (hr_lineage (sessions ! n)))\<rparr>"

definition nodes_by_id :: "hierarchy_record list \<Rightarrow> (string, nat) jmap" where
  "nodes_by_id sessions = fold (\<lambda>(s, n). jmap_set (hr_id s) n) (zip sessions [0 ..< length sessions]) []"

definition deriveAiSessionForest :: "(string \<Rightarrow> string \<Rightarrow> bool) \<Rightarrow> forest_order option \<Rightarrow> hierarchy_record list \<Rightarrow> forest option" where
  "deriveAiSessionForest le orderBy sessions =
     (let nodesById = nodes_by_id sessions;
          (parents, diagnostics) = candidate_parents sessions;
          members = cycle_members (map hr_id sessions) parents;
          parents = fold jmap_delete members parents;
          diagnostics = diagnostics @ map (cycle_diagnostic sessions nodesById) members;
          (nodes, roots) = fold (link_node parents nodesById) [0 ..< length sessions] (map new_node sessions, [])
      in case postorder_loop (postorder_fuel nodes) (children_of nodes) (map (\<lambda>r. (r, False)) (rev roots)) [] of
           None \<Rightarrow> None
         | Some postorder \<Rightarrow>
             let nodes = fold (aggregate_node le orderBy nodesById) postorder nodes
             in Some \<lparr>fo_nodes = nodes, fo_nodesById = nodesById, fo_roots = js_sort (node_le le orderBy nodesById nodes) roots,
                  fo_diagnostics = diagnostics\<rparr>)"

section \<open>Reading a forest\<close>

definition aiSessionSubtreePostorder :: "forest \<Rightarrow> string \<Rightarrow> nat list option" where
  "aiSessionSubtreePostorder f sid =
     (case jmap_get (fo_nodesById f) sid of
        None \<Rightarrow> Some []
      | Some root \<Rightarrow> postorder_loop (postorder_fuel (fo_nodes f)) (children_of (fo_nodes f)) [(root, False)] [])"

text \<open>The loops that climb to the root: \<open>None\<close> again means the fuel ran out.\<close>

fun climb :: "nat \<Rightarrow> forest \<Rightarrow> nat option \<Rightarrow> string list \<Rightarrow> (nat option \<times> string list) option" where
  "climb fuel f None acc = Some (None, acc)"
| "climb fuel f (Some n) acc =
     (if truthy (tn_parentSessionId (fo_nodes f ! n)) then
        case fuel of
          0 \<Rightarrow> None
        | Suc fuel \<Rightarrow> climb fuel f (jmap_get (fo_nodesById f) (str_of (tn_parentSessionId (fo_nodes f ! n))))
            (acc @ [str_of (tn_parentSessionId (fo_nodes f ! n))])
      else Some (Some n, acc))"

definition aiSessionRootNode :: "forest \<Rightarrow> string \<Rightarrow> nat option option" where
  "aiSessionRootNode f sid = map_option fst (climb (length (fo_nodes f)) f (jmap_get (fo_nodesById f) sid) [])"

definition aiSessionAncestorIds :: "forest \<Rightarrow> string option \<Rightarrow> string list option" where
  "aiSessionAncestorIds f sid =
     map_option snd (climb (length (fo_nodes f)) f (if truthy sid then jmap_get (fo_nodesById f) (str_of sid) else None) [])"

definition is_subagent :: "hierarchy_record \<Rightarrow> bool" where
  "is_subagent s = (case hr_lineage s of Some (Subagent _) \<Rightarrow> True | _ \<Rightarrow> False)"

definition countAiSessionRootTrees :: "forest \<Rightarrow> nat" where
  "countAiSessionRootTrees f = length (filter (\<lambda>n. \<not> is_subagent (tn_session (fo_nodes f ! n))) (fo_roots f))"

definition filterAiSessionForest :: "forest \<Rightarrow> (hierarchy_record \<Rightarrow> bool) \<Rightarrow> (string list \<times> string list) option" where
  "filterAiSessionForest f predicate =
     (let matching = filter (\<lambda>n. predicate (tn_session (fo_nodes f ! n))) (jmap_values (fo_nodesById f));
          climbed = map (\<lambda>n. map_option (\<lambda>c. takeWhile (jmap_has (fo_nodesById f)) (snd c))
                        (climb (length (fo_nodes f)) f (Some n) [])) matching
      in if None \<in> set climbed then None
         else Some (js_uniq (concat (map (\<lambda>(n, a). hr_id (tn_session (fo_nodes f ! n)) # the a) (zip matching climbed))),
                js_uniq (concat (map the climbed))))"

fun flatten_loop :: "nat \<Rightarrow> forest \<Rightarrow> (string \<Rightarrow> bool) \<Rightarrow> (string \<Rightarrow> bool) \<Rightarrow> (nat \<times> nat) list \<Rightarrow> (nat \<times> nat) list \<Rightarrow> (nat \<times> nat) list option" where
  "flatten_loop fuel f visible expanded [] acc = Some acc"
| "flatten_loop 0 f visible expanded (e # st) acc = None"
| "flatten_loop (Suc fuel) f visible expanded ((n, depth) # st) acc =
     (let sid = hr_id (tn_session (fo_nodes f ! n)) in
      if \<not> visible sid then flatten_loop fuel f visible expanded st acc
      else if \<not> expanded sid then flatten_loop fuel f visible expanded st (acc @ [(n, depth)])
      else flatten_loop fuel f visible expanded (map (\<lambda>c. (c, Suc depth)) (children_of (fo_nodes f) n) @ st) (acc @ [(n, depth)]))"

definition flattenAiSessionForest :: "forest \<Rightarrow> string list option \<Rightarrow> string list option \<Rightarrow> string list option \<Rightarrow> (nat \<times> nat) list option" where
  "flattenAiSessionForest f expandedSessionIds forcedExpandedSessionIds visibleSessionIds =
     flatten_loop (length (fo_nodes f)) f (\<lambda>sid. case visibleSessionIds of None \<Rightarrow> True | Some ids \<Rightarrow> sid \<in> set ids)
       (\<lambda>sid. (case expandedSessionIds of None \<Rightarrow> False | Some ids \<Rightarrow> sid \<in> set ids)
            \<or> (case forcedExpandedSessionIds of None \<Rightarrow> False | Some ids \<Rightarrow> sid \<in> set ids))
       (map (\<lambda>r. (r, 0)) (fo_roots f)) []"

record retention_candidate =
  ca_root :: hierarchy_record
  ca_sessionIds :: "string list"
  ca_lastActiveAt :: string

definition retention_of_root :: "forest \<Rightarrow> (hierarchy_record \<Rightarrow> bool) \<Rightarrow> nat \<Rightarrow> retention_candidate list option" where
  "retention_of_root f isIdle r =
     (let root = tn_session (fo_nodes f ! r) in
      if is_subagent root then Some []
      else case aiSessionSubtreePostorder f (hr_id root) of
             None \<Rightarrow> None
           | Some nodes \<Rightarrow>
               if \<not> (\<forall>n \<in> set nodes. isIdle (tn_session (fo_nodes f ! n))) then Some []
               else Some [\<lparr>ca_root = root, ca_sessionIds = map (\<lambda>n. hr_id (tn_session (fo_nodes f ! n))) nodes,
                      ca_lastActiveAt = tn_aggregateLastActiveAt (fo_nodes f ! r)\<rparr>])"

fun concat_some :: "'a list option list \<Rightarrow> 'a list option" where
  "concat_some [] = Some []"
| "concat_some (x # xs) = Option.bind x (\<lambda>a. map_option (\<lambda>b. a @ b) (concat_some xs))"

definition aiSessionRetentionCandidates :: "forest \<Rightarrow> (hierarchy_record \<Rightarrow> bool) \<Rightarrow> retention_candidate list option" where
  "aiSessionRetentionCandidates f isIdle =
     map_option (js_sort (\<lambda>l r. timestamp (Some (ca_lastActiveAt l)) \<le> timestamp (Some (ca_lastActiveAt r))))
       (concat_some (map (retention_of_root f isIdle) (fo_roots f)))"

section \<open>The cycle search finds the sessions on cycles\<close>

definition up :: "(string, string) jmap \<Rightarrow> (string \<times> string) set" where
  "up parents = {(c, p). parent_of parents c = Some p}"

lemma up_single: "(c, p) \<in> up ps \<Longrightarrow> (c, q) \<in> up ps \<Longrightarrow> p = q"
  by (simp add: up_def)

lemma up_finite: "finite (up ps)"
proof -
  have "up ps \<subseteq> set ps" using jmap_get_in by (fastforce simp: up_def parent_of_def split: option.splits if_splits)
  then show ?thesis by (rule finite_subset) simp
qed

text \<open>A path along parents, and where it leads next.\<close>

fun chain :: "(string, string) jmap \<Rightarrow> string list \<Rightarrow> string option \<Rightarrow> bool" where
  "chain ps [] nxt = True"
| "chain ps [x] nxt = (parent_of ps x = nxt)"
| "chain ps (x # y # xs) nxt = (parent_of ps x = Some y \<and> chain ps (y # xs) nxt)"

lemma chain_snoc: "chain ps xs (Some y) \<Longrightarrow> xs \<noteq> [] \<Longrightarrow> chain ps (xs @ [y]) (parent_of ps y)"
  by (induction ps xs "Some y" rule: chain.induct) auto

lemma chain_Cons: "chain ps (x # xs) nxt \<Longrightarrow> chain ps xs nxt"
  by (cases xs) auto

lemma chain_drop: "chain ps (xs @ ys) nxt \<Longrightarrow> chain ps ys nxt"
  by (induction xs) (auto dest: chain_Cons)

lemma chain_next: "chain ps xs nxt \<Longrightarrow> x \<in> set xs \<Longrightarrow> parent_of ps x = Some y \<Longrightarrow> y \<in> set xs \<or> nxt = Some y"
  by (induction ps xs nxt rule: chain.induct) auto

lemma chain_reach: "chain ps (x # xs) (Some y) \<Longrightarrow> (x, y) \<in> (up ps)\<^sup>+"
proof (induction xs arbitrary: x)
  case Nil
  then show ?case by (auto simp: up_def)
next
  case (Cons z xs)
  then have "(x, z) \<in> up ps" "(z, y) \<in> (up ps)\<^sup>+" by (auto simp: up_def)
  then show ?case by (rule trancl_into_trancl2)
qed

lemma follow_path_spec:
  assumes "follow_path ps complete path current = (path', members)"
    and "chain ps path current" "distinct path" "set path \<inter> set complete = {}"
  shows "\<exists>nxt. chain ps path' nxt \<and> distinct path' \<and> set path' \<inter> set complete = {} \<and> set path \<subseteq> set path'
    \<and> (\<forall>c. current = Some c \<longrightarrow> c \<in> set path' \<union> set complete)
    \<and> (nxt = None \<and> members = [] \<or> (\<exists>c. nxt = Some c \<and> c \<in> set complete \<and> members = [])
       \<or> (\<exists>c. nxt = Some c \<and> c \<in> set path' \<and> members = dropWhile (\<lambda>x. x \<noteq> c) path'))"
  using assms
proof (induction ps complete path current rule: follow_path.induct)
  case (1 ps complete path current)
  show ?case
  proof (cases current)
    case None
    then show ?thesis using 1(2-) by (auto simp: follow_path.simps)
  next
    case (Some c)
    show ?thesis
    proof (cases "c \<in> set complete \<or> c \<in> set path")
      case True
      then show ?thesis using 1(2-) Some by (cases "c \<in> set complete") (auto simp: follow_path.simps)
    next
      case False
      have ch: "chain ps (path @ [c]) (parent_of ps c)"
        using chain_snoc [of ps path c] 1(3) Some by (cases path) auto
      have "follow_path ps complete (path @ [c]) (parent_of ps c) = (path', members)"
        using 1(2) Some False by (simp add: follow_path.simps [of ps complete path])
      from 1(1) [OF Some _ _ this ch] False 1(4,5) obtain nxt where
        "chain ps path' nxt \<and> distinct path' \<and> set path' \<inter> set complete = {} \<and> set (path @ [c]) \<subseteq> set path'
    \<and> (nxt = None \<and> members = [] \<or> (\<exists>c. nxt = Some c \<and> c \<in> set complete \<and> members = [])
       \<or> (\<exists>c. nxt = Some c \<and> c \<in> set path' \<and> members = dropWhile (\<lambda>x. x \<noteq> c) path'))" by auto
      then show ?thesis using Some by auto
    qed
  qed
qed

lemma cycle_return:
  assumes "(x, x) \<in> (up ps)\<^sup>+" "(x, y) \<in> (up ps)\<^sup>*"
  shows "(y, x) \<in> (up ps)\<^sup>*"
  using assms(2)
proof (induction rule: rtrancl_induct)
  case (step y z)
  show ?case
  proof (cases "y = x")
    case True
    then obtain w where "(x, w) \<in> up ps" "(w, x) \<in> (up ps)\<^sup>*" using tranclD [OF assms(1)] by auto
    then show ?thesis using True step.hyps(2) up_single by metis
  next
    case False
    then obtain w where "(y, w) \<in> up ps" "(w, x) \<in> (up ps)\<^sup>*" using step.IH by (metis converse_rtranclE)
    then show ?thesis using step.hyps(2) up_single by metis
  qed
qed simp

lemma closed_reach: "(x, y) \<in> (up ps)\<^sup>* \<Longrightarrow> x \<in> C \<Longrightarrow> \<forall>c \<in> C. \<forall>p. parent_of ps c = Some p \<longrightarrow> p \<in> C \<Longrightarrow> y \<in> C"
  by (induction rule: rtrancl_induct) (auto simp: up_def)

lemma chain_from_head: "chain ps (x # xs) nxt \<Longrightarrow> y \<in> set (x # xs) \<Longrightarrow> (x, y) \<in> (up ps)\<^sup>*"
proof (induction xs arbitrary: x)
  case (Cons z xs)
  show ?case
  proof (cases "y = x")
    case False
    then have "(z, y) \<in> (up ps)\<^sup>*" using Cons by auto
    moreover have "(x, z) \<in> up ps" using Cons.prems(1) by (simp add: up_def)
    ultimately show ?thesis by (rule converse_rtrancl_into_rtrancl [rotated])
  qed simp
qed simp

lemma chain_to_end:
  assumes "chain ps xs (Some c)" "y \<in> set xs"
  shows "(y, c) \<in> (up ps)\<^sup>+"
proof -
  obtain us vs where "xs = us @ y # vs" using assms(2) split_list by metis
  then show ?thesis using chain_drop [of ps us "y # vs"] assms(1) by (intro chain_reach) auto
qed

definition cycle_inv :: "(string, string) jmap \<Rightarrow> string list \<times> string list \<Rightarrow> bool" where
  "cycle_inv ps acc \<longleftrightarrow> (\<forall>c \<in> set (fst acc). \<forall>p. parent_of ps c = Some p \<longrightarrow> p \<in> set (fst acc))
     \<and> set (snd acc) = {x \<in> set (fst acc). (x, x) \<in> (up ps)\<^sup>+}"

text \<open>On a new path the cycle, if it has one, is the part from the point where the path meets itself.\<close>

lemma path_cycle:
  assumes ch: "chain ps path nxt" "distinct path" and disj: "set path \<inter> C = {}"
    and closed: "\<forall>c \<in> C. \<forall>p. parent_of ps c = Some p \<longrightarrow> p \<in> C"
    and x: "x \<in> set path"
    and nxt: "nxt = None \<and> members = [] \<or> (\<exists>c. nxt = Some c \<and> c \<in> C \<and> members = [])
       \<or> (\<exists>c. nxt = Some c \<and> c \<in> set path \<and> members = dropWhile (\<lambda>x. x \<noteq> c) path)"
  shows "(x, x) \<in> (up ps)\<^sup>+ \<longleftrightarrow> x \<in> set members"
  using nxt
proof (elim disjE exE conjE)
  assume none: "nxt = None" "members = []"
  obtain l where l: "path = butlast path @ [l]" using x by (metis append_butlast_last_id empty_iff list.set(1))
  then have end_l: "parent_of ps l = None" using chain_drop [of ps "butlast path" "[l]" nxt] ch(1) none by simp
  obtain us vs where path: "path = us @ x # vs" using x split_list by metis
  then have "l \<in> set (x # vs)" using l by (metis last_appendR last_in_set last_snoc list.distinct(1))
  then have reach: "(x, l) \<in> (up ps)\<^sup>*" using chain_from_head chain_drop ch(1) path by metis
  have "(x, x) \<notin> (up ps)\<^sup>+"
  proof
    assume cyc: "(x, x) \<in> (up ps)\<^sup>+"
    then have "(l, x) \<in> (up ps)\<^sup>*" using reach by (rule cycle_return)
    then have "l = x" using end_l by (auto simp: up_def elim: converse_rtranclE)
    then show False using cyc end_l by (auto simp: up_def dest: tranclD)
  qed
  then show ?thesis using none by simp
next
  fix c
  assume c: "nxt = Some c" "c \<in> C" "members = []"
  have "(x, c) \<in> (up ps)\<^sup>*" using chain_to_end [of ps path c x] ch(1) c(1) x by (simp add: trancl_into_rtrancl)
  then have "(x, x) \<in> (up ps)\<^sup>+ \<Longrightarrow> x \<in> C" using cycle_return closed_reach c(2) closed by metis
  then show ?thesis using disj x c(3) by auto
next
  fix c
  assume c: "nxt = Some c" "c \<in> set path" "members = dropWhile (\<lambda>x. x \<noteq> c) path"
  obtain us vs where path: "path = us @ c # vs" "c \<notin> set us" using c(2) split_list_first by metis
  then have mem: "members = c # vs" using c(3) by (subst (asm) path(1), subst (asm) dropWhile_append2) auto
  have suffix: "chain ps (c # vs) (Some c)" using chain_drop ch(1) path(1) c(1) by metis
  have closed_suffix: "\<forall>y \<in> set (c # vs). \<forall>p. parent_of ps y = Some p \<longrightarrow> p \<in> set (c # vs)"
    using chain_next [OF suffix] by fastforce
  show ?thesis
  proof
    assume cyc: "(x, x) \<in> (up ps)\<^sup>+"
    have "(x, c) \<in> (up ps)\<^sup>*" using chain_to_end [of ps path c x] ch(1) c(1) x by (simp add: trancl_into_rtrancl)
    then have "(c, x) \<in> (up ps)\<^sup>*" using cyc cycle_return by metis
    then show "x \<in> set members" using closed_reach [OF _ _ closed_suffix] mem by simp
  next
    assume "x \<in> set members"
    then have "(c, x) \<in> (up ps)\<^sup>*" "(x, c) \<in> (up ps)\<^sup>+"
      using chain_from_head [OF suffix] chain_to_end [OF suffix] mem by auto
    then show "(x, x) \<in> (up ps)\<^sup>+" by (rule trancl_rtrancl_trancl [rotated])
  qed
qed

lemma dropWhile_sub: "set (dropWhile P xs) \<subseteq> set xs"
  using set_dropWhileD by fastforce

lemma cycle_step_inv:
  assumes inv: "cycle_inv ps acc"
  shows "cycle_inv ps (cycle_step ps sid acc)"
    and "set (fst acc) \<subseteq> set (fst (cycle_step ps sid acc))" "sid = [] \<or> sid \<in> set (fst (cycle_step ps sid acc))"
proof -
  have "cycle_inv ps (cycle_step ps sid acc) \<and> set (fst acc) \<subseteq> set (fst (cycle_step ps sid acc)) \<and> (sid = [] \<or> sid \<in> set (fst (cycle_step ps sid acc)))"
  proof (cases "sid \<in> set (fst acc)")
    case True
    then show ?thesis using inv by (simp add: cycle_step_def)
  next
    case False
    define start where "start = (if sid = [] then None else Some sid)"
    obtain path members where fp: "follow_path ps (fst acc) [] start = (path, members)" by fastforce
    from follow_path_spec [OF fp] obtain nxt where
      ch: "chain ps path nxt" "distinct path" "set path \<inter> set (fst acc) = {}" and st: "\<forall>c. start = Some c \<longrightarrow> c \<in> set path \<union> set (fst acc)"
      and nxt: "nxt = None \<and> members = [] \<or> (\<exists>c. nxt = Some c \<and> c \<in> set (fst acc) \<and> members = [])
       \<or> (\<exists>c. nxt = Some c \<and> c \<in> set path \<and> members = dropWhile (\<lambda>x. x \<noteq> c) path)" by auto
    have closed: "\<forall>c \<in> set (fst acc). \<forall>p. parent_of ps c = Some p \<longrightarrow> p \<in> set (fst acc)" using inv by (simp add: cycle_inv_def)
    have mem: "(x, x) \<in> (up ps)\<^sup>+ \<longleftrightarrow> x \<in> set members" if "x \<in> set path" for x
      by (rule path_cycle [OF ch closed that nxt])
    have sub: "set members \<subseteq> set path" using nxt dropWhile_sub by fastforce
    have res: "cycle_step ps sid acc = (js_uniq (fst acc @ path), js_uniq (snd acc @ members))"
      using False fp by (simp add: cycle_step_def start_def)
    have in_path: "p \<in> set (fst acc @ path)" if "c \<in> set path" "parent_of ps c = Some p" for c p
      using chain_next [OF ch(1) that] nxt by auto
    have "\<forall>c \<in> set (fst acc @ path). \<forall>p. parent_of ps c = Some p \<longrightarrow> p \<in> set (fst acc @ path)"
      using closed in_path by (metis UnE UnI1 set_append)
    moreover have "set (snd acc @ members) = {x \<in> set (fst acc @ path). (x, x) \<in> (up ps)\<^sup>+}"
      using inv mem sub by (auto simp: cycle_inv_def)
    ultimately show ?thesis using res st by (auto simp: cycle_inv_def set_js_uniq start_def)
  qed
  then show "cycle_inv ps (cycle_step ps sid acc)"
    and "set (fst acc) \<subseteq> set (fst (cycle_step ps sid acc))" "sid = [] \<or> sid \<in> set (fst (cycle_step ps sid acc))" by blast+
qed

lemma cycle_fold:
  assumes "cycle_inv ps acc"
  shows "cycle_inv ps (fold (cycle_step ps) sids acc) \<and> set (fst acc) \<subseteq> set (fst (fold (cycle_step ps) sids acc))
    \<and> (\<forall>sid \<in> set sids. sid = [] \<or> sid \<in> set (fst (fold (cycle_step ps) sids acc)))"
  using assms
proof (induction sids arbitrary: acc)
  case (Cons sid sids)
  show ?case using Cons.IH [OF cycle_step_inv(1) [OF Cons.prems]] cycle_step_inv(2,3) [OF Cons.prems, of sid] by fastforce
qed simp

lemma up_target_nonempty: "(x, y) \<in> (up ps)\<^sup>+ \<Longrightarrow> y \<noteq> []"
  by (induction rule: trancl_induct) (auto simp: up_def parent_of_def split: option.splits if_splits)

lemma cycle_members_iff:
  assumes "set (jmap_keys ps) \<subseteq> set sids"
  shows "x \<in> set (cycle_members sids ps) \<longleftrightarrow> (x, x) \<in> (up ps)\<^sup>+"
proof -
  let ?acc = "fold (cycle_step ps) sids ([], [])"
  have inv: "cycle_inv ps ?acc" and all: "\<forall>sid \<in> set sids. sid = [] \<or> sid \<in> set (fst ?acc)"
    using cycle_fold [of ps "([], [])" sids] by (auto simp: cycle_inv_def)
  have "x \<in> set (fst ?acc)" if cyc: "(x, x) \<in> (up ps)\<^sup>+"
  proof -
    obtain p where "parent_of ps x = Some p" using tranclD [OF cyc] by (auto simp: up_def)
    then have "x \<in> set (jmap_keys ps)" using jmap_get_None [of ps x] by (auto simp: parent_of_def split: option.splits)
    then show ?thesis using assms all up_target_nonempty [OF cyc] by blast
  qed
  then show ?thesis using inv by (auto simp: cycle_members_def cycle_inv_def)
qed

section \<open>Walking a forest\<close>

text \<open>The order in which the stack loop leaves the nodes of a tree.\<close>

inductive subtree_post :: "(nat \<Rightarrow> nat list) \<Rightarrow> nat \<Rightarrow> nat list \<Rightarrow> bool" for ch where
  subtree: "list_all2 (subtree_post ch) (rev (ch v)) pss \<Longrightarrow> subtree_post ch v (concat pss @ [v])"
monos list_all2_mono

lemma list_all2_mono_on:
  assumes "list_all2 P xs ys" "\<And>x y. y \<in> set ys \<Longrightarrow> P x y \<Longrightarrow> Q x y"
  shows "list_all2 Q xs ys"
  using assms by (auto simp: list_all2_conv_all_nth)

lemma postorder_subtrees:
  assumes "list_all2 (\<lambda>c ps. \<forall>f st acc. postorder_loop (f + 2 * length ps) ch ((c, False) # st) acc = postorder_loop f ch st (acc @ ps)) cs pss"
  shows "postorder_loop (f + 2 * length (concat pss)) ch (map (\<lambda>c. (c, False)) cs @ st) acc = postorder_loop f ch st (acc @ concat pss)"
  using assms
proof (induction arbitrary: acc rule: list_all2_induct)
  case (Cons c cs ps pss)
  have "f + 2 * length (concat (ps # pss)) = (f + 2 * length (concat pss)) + 2 * length ps" by simp
  then have "postorder_loop (f + 2 * length (concat (ps # pss))) ch (map (\<lambda>c. (c, False)) (c # cs) @ st) acc
      = postorder_loop (f + 2 * length (concat pss)) ch (map (\<lambda>c. (c, False)) cs @ st) (acc @ ps)"
    using Cons.hyps(1) by (simp only: list.map append_Cons)
  also have "\<dots> = postorder_loop f ch st (acc @ concat (ps # pss))" using Cons.IH by simp
  finally show ?case .
qed simp

lemma postorder_subtree: "subtree_post ch v ps \<Longrightarrow> postorder_loop (f + 2 * length ps) ch ((v, False) # st) acc = postorder_loop f ch st (acc @ ps)"
proof (induction arbitrary: f st acc rule: subtree_post.induct)
  case (subtree v pss)
  have "list_all2 (\<lambda>c ps. \<forall>f st acc. postorder_loop (f + 2 * length ps) ch ((c, False) # st) acc = postorder_loop f ch st (acc @ ps)) (rev (ch v)) pss"
    by (rule list_all2_mono [OF subtree]) auto
  from postorder_subtrees [OF this, of "Suc f" "(v, True) # st" acc]
  show ?case by (simp add: add.commute)
qed

lemma postorder_forest:
  assumes "list_all2 (subtree_post ch) cs pss"
  shows "postorder_loop (f + 2 * length (concat pss)) ch (map (\<lambda>c. (c, False)) cs @ st) acc = postorder_loop f ch st (acc @ concat pss)"
proof (rule postorder_subtrees)
  show "list_all2 (\<lambda>c ps. \<forall>f st acc. postorder_loop (f + 2 * length ps) ch ((c, False) # st) acc = postorder_loop f ch st (acc @ ps)) cs pss"
    using assms by (rule list_all2_mono) (auto simp: postorder_subtree)
qed

text \<open>The loop in a forest whose parent relation is acyclic.\<close>

locale parent_forest =
  fixes ch :: "nat \<Rightarrow> nat list" and R :: "(nat \<times> nat) set"
  assumes children: "set (ch v) = {c. (c, v) \<in> R}"
    and distinct_children: "distinct (ch v)"
    and finite_parents: "finite R"
    and acyclic_parents: "acyclic R"
    and one_parent: "(c, v) \<in> R \<Longrightarrow> (c, w) \<in> R \<Longrightarrow> v = w"
begin

lemma wf_parents: "wf R"
  by (rule finite_acyclic_wf [OF finite_parents acyclic_parents])

lemma single: "single_valued R"
  using one_parent by (auto simp: single_valued_def)

definition below :: "nat \<Rightarrow> nat set" where
  "below v = {x. (x, v) \<in> R\<^sup>*}"

lemma below_unfold: "below v = insert v (\<Union>c \<in> set (ch v). below c)"
  unfolding below_def children by (auto elim: rtranclE intro: rtrancl_into_rtrancl)

lemma not_below_child: "c \<in> set (ch v) \<Longrightarrow> v \<notin> below c"
  using acyclic_parents unfolding below_def children acyclic_def by (auto dest: rtrancl_into_trancl1)

lemma siblings_disjoint:
  assumes "c \<in> set (ch v)" "d \<in> set (ch v)" "c \<noteq> d"
  shows "below c \<inter> below d = {}"
proof -
  have no: False if cd: "(c', d') \<in> R\<^sup>*" "c' \<noteq> d'" "(c', v) \<in> R" "(d', v) \<in> R" for c' d'
  proof -
    obtain w where "(c', w) \<in> R" "(w, d') \<in> R\<^sup>*" using cd(1,2) by (metis converse_rtranclE)
    then have "(v, d') \<in> R\<^sup>*" using cd(3) one_parent by metis
    then have "(v, v) \<in> R\<^sup>+" using cd(4) by (rule rtrancl_into_trancl1)
    then show False using acyclic_parents by (simp add: acyclic_def)
  qed
  show ?thesis
  proof (rule ccontr)
    assume "below c \<inter> below d \<noteq> {}"
    then obtain x where "(x, c) \<in> R\<^sup>*" "(x, d) \<in> R\<^sup>*" by (auto simp: below_def)
    then have "(c, d) \<in> R\<^sup>* \<or> (d, c) \<in> R\<^sup>*" by (rule single_valued_confluent [OF single])
    then show False using no assms by (auto simp: children)
  qed
qed

lemma subtrees_distinct:
  assumes "list_all2 (\<lambda>c ps. set ps = below c \<and> distinct ps) cs pss" "distinct cs"
    and "\<And>c d. c \<in> set cs \<Longrightarrow> d \<in> set cs \<Longrightarrow> c \<noteq> d \<Longrightarrow> below c \<inter> below d = {}"
  shows "set (concat pss) = (\<Union>c \<in> set cs. below c) \<and> distinct (concat pss)"
  using assms
proof (induction rule: list_all2_induct)
  case (Cons c cs ps pss)
  then have "set (concat pss) = (\<Union>c \<in> set cs. below c)" "distinct (concat pss)" by auto
  moreover have "below c \<inter> (\<Union>d \<in> set cs. below d) = {}" using Cons.prems by fastforce
  ultimately show ?case using Cons.hyps(1) by auto
qed simp

lemma subtree_exists: "\<exists>ps. subtree_post ch v ps \<and> set ps = below v \<and> distinct ps"
proof (induction v rule: wf_induct_rule [OF wf_parents])
  case (1 v)
  then have "\<forall>c \<in> set (ch v). \<exists>ps. subtree_post ch c ps \<and> set ps = below c \<and> distinct ps" by (simp add: children)
  then obtain g where g: "\<forall>c \<in> set (ch v). subtree_post ch c (g c) \<and> set (g c) = below c \<and> distinct (g c)" by metis
  define pss where "pss = map g (rev (ch v))"
  have "list_all2 (subtree_post ch) (rev (ch v)) pss" using g by (auto simp: pss_def list_all2_conv_all_nth rev_nth)
  then have sub: "subtree_post ch v (concat pss @ [v])" by (rule subtree_post.subtree)
  have "list_all2 (\<lambda>c ps. set ps = below c \<and> distinct ps) (rev (ch v)) pss"
    using g by (auto simp: pss_def list_all2_conv_all_nth rev_nth)
  then have "set (concat pss) = (\<Union>c \<in> set (rev (ch v)). below c) \<and> distinct (concat pss)"
    by (rule subtrees_distinct) (use siblings_disjoint in \<open>auto simp: distinct_children\<close>)
  then show ?case
    using sub below_unfold [of v] not_below_child [of _ v] by (intro exI [of _ "concat pss @ [v]"]) auto
qed

lemma roots_disjoint:
  assumes "\<And>w. (r, w) \<notin> R" "\<And>w. (s, w) \<notin> R" "r \<noteq> s"
  shows "below r \<inter> below s = {}"
proof (rule ccontr)
  assume "below r \<inter> below s \<noteq> {}"
  then obtain x where "(x, r) \<in> R\<^sup>*" "(x, s) \<in> R\<^sup>*" by (auto simp: below_def)
  then have "(r, s) \<in> R\<^sup>* \<or> (s, r) \<in> R\<^sup>*" by (rule single_valued_confluent [OF single])
  then show False using assms by (metis converse_rtranclE)
qed

lemma reaches_root: "\<exists>r. x \<in> below r \<and> (\<forall>w. (r, w) \<notin> R)"
proof -
  have "wf (R\<inverse>)" by (rule finite_acyclic_wf_converse [OF finite_parents acyclic_parents])
  then show ?thesis
  proof (induction x rule: wf_induct_rule)
    case (less x)
    show ?case
    proof (cases "\<exists>w. (x, w) \<in> R")
      case True
      then obtain w where w: "(x, w) \<in> R" by blast
      then obtain r where "w \<in> below r" "\<forall>w. (r, w) \<notin> R" using less by auto
      then show ?thesis using w by (auto simp: below_def intro: converse_rtrancl_into_rtrancl)
    qed (auto simp: below_def)
  qed
qed

lemma forest_exists:
  assumes "distinct roots" "\<And>r. r \<in> set roots \<Longrightarrow> \<forall>w. (r, w) \<notin> R"
  shows "\<exists>pss. list_all2 (subtree_post ch) roots pss \<and> set (concat pss) = (\<Union>r \<in> set roots. below r) \<and> distinct (concat pss)"
proof -
  obtain g where g: "\<forall>v. subtree_post ch v (g v) \<and> set (g v) = below v \<and> distinct (g v)" using subtree_exists by metis
  have "list_all2 (\<lambda>c ps. set ps = below c \<and> distinct ps) roots (map g roots)"
    using g by (auto simp: list_all2_conv_all_nth)
  then have "set (concat (map g roots)) = (\<Union>c \<in> set roots. below c) \<and> distinct (concat (map g roots))"
    by (rule subtrees_distinct [OF _ assms(1)]) (use assms(2) roots_disjoint in blast)
  moreover have "list_all2 (subtree_post ch) roots (map g roots)" using g by (auto simp: list_all2_conv_all_nth)
  ultimately show ?thesis by blast
qed

end

section \<open>The derived parents form a forest\<close>

definition linked_parent :: "(string, string) jmap \<Rightarrow> hierarchy_record list \<Rightarrow> nat \<Rightarrow> nat option" where
  "linked_parent ps sessions n = Option.bind (parent_of ps (hr_id (sessions ! n))) (jmap_get (nodes_by_id sessions))"

definition broken_parents :: "hierarchy_record list \<Rightarrow> (string, string) jmap" where
  "broken_parents sessions = (let ps = fst (candidate_parents sessions) in fold jmap_delete (cycle_members (map hr_id sessions) ps) ps)"

definition linked_children :: "hierarchy_record list \<Rightarrow> nat \<Rightarrow> nat list" where
  "linked_children sessions v = filter (\<lambda>n. linked_parent (broken_parents sessions) sessions n = Some v) [0 ..< length sessions]"

definition linked_up :: "hierarchy_record list \<Rightarrow> (nat \<times> nat) set" where
  "linked_up sessions = {(n, v). n < length sessions \<and> linked_parent (broken_parents sessions) sessions n = Some v}"

lemma nodes_by_id_fold:
  assumes "jmap_get (fold (\<lambda>(s, n). jmap_set (hr_id s) n) xs m) y = Some v"
  shows "(\<exists>s. (s, v) \<in> set xs \<and> hr_id s = y) \<or> jmap_get m y = Some v"
  using assms by (induction xs arbitrary: m) (fastforce simp: jm.get_put split: if_splits)+

lemma nodes_by_id_get: "jmap_get (nodes_by_id sessions) y = Some v \<Longrightarrow> v < length sessions \<and> hr_id (sessions ! v) = y"
  unfolding nodes_by_id_def by (drule nodes_by_id_fold) (auto simp: set_zip)

lemma keys_set: "fst ` set (jmap_set k v m) = insert k (fst ` set m)"
  using arg_cong [OF keys_jmap_set [of k v m], of set] by (auto split: if_splits)

lemma candidate_keys:
  "set (jmap_keys (fst (fold (candidate_parent all byId) ss acc))) \<subseteq> set (jmap_keys (fst acc)) \<union> hr_id ` set ss"
proof (induction ss arbitrary: acc)
  case (Cons s ss)
  have "set (jmap_keys (fst (candidate_parent all byId s acc))) \<subseteq> set (jmap_keys (fst acc)) \<union> {hr_id s}"
    by (auto simp: candidate_parent_def keys_set split: option.splits lineage.splits if_splits)
  then show ?case using Cons.IH [of "candidate_parent all byId s acc"] unfolding fold_simps list.set image_insert by blast
qed simp

lemma candidate_parents_keys: "set (jmap_keys (fst (candidate_parents sessions))) \<subseteq> set (map hr_id sessions)"
  using candidate_keys [of sessions _ sessions "([], _)"] by (simp add: candidate_parents_def split: prod.splits)

lemma get_fold_delete_keys: "jmap_get (fold jmap_delete ids m) k = (if k \<in> set ids then None else jmap_get m k)"
  by (induction ids arbitrary: m) (auto simp: jmap_get_def jmap_delete_def delete_conv)

lemma broken_parent_of: "parent_of (broken_parents sessions) c = Some p \<longleftrightarrow>
    parent_of (fst (candidate_parents sessions)) c = Some p \<and> (c, c) \<notin> (up (fst (candidate_parents sessions)))\<^sup>+"
  using cycle_members_iff [OF candidate_parents_keys, of c]
  by (auto simp: broken_parents_def parent_of_def get_fold_delete_keys Let_def)

lemma broken_acyclic: "acyclic (up (broken_parents sessions))"
proof -
  let ?ps = "fst (candidate_parents sessions)"
  have sub: "up (broken_parents sessions) \<subseteq> up ?ps" by (auto simp: up_def broken_parent_of)
  show ?thesis
    unfolding acyclic_def
  proof (intro allI notI)
    fix x assume cyc: "(x, x) \<in> (up (broken_parents sessions))\<^sup>+"
    then have "(x, x) \<in> (up ?ps)\<^sup>+" using trancl_mono [OF _ sub] by blast
    moreover obtain p where "(x, p) \<in> up (broken_parents sessions)" using tranclD [OF cyc] by blast
    ultimately show False by (simp add: up_def broken_parent_of)
  qed
qed

lemma linked_up_step: "(n, v) \<in> linked_up sessions \<Longrightarrow> (hr_id (sessions ! n), hr_id (sessions ! v)) \<in> up (broken_parents sessions)"
  by (auto simp: linked_up_def linked_parent_def up_def bind_eq_Some_conv dest!: nodes_by_id_get)

lemma linked_up_trancl:
  "(n, v) \<in> (linked_up sessions)\<^sup>+ \<Longrightarrow> (hr_id (sessions ! n), hr_id (sessions ! v)) \<in> (up (broken_parents sessions))\<^sup>+"
  by (induction rule: trancl_induct) (auto intro: linked_up_step trancl_into_trancl)

interpretation linked: parent_forest "linked_children sessions" "linked_up sessions" for sessions
proof unfold_locales
  show "finite (linked_up sessions)"
  proof (rule finite_subset)
    show "linked_up sessions \<subseteq> {..< length sessions} \<times> {..< length sessions}"
      by (auto simp: linked_up_def linked_parent_def bind_eq_Some_conv dest: nodes_by_id_get)
  qed simp
  show "acyclic (linked_up sessions)"
    using broken_acyclic [of sessions] linked_up_trancl [of _ _ sessions] unfolding acyclic_def by blast
qed (auto simp: linked_children_def linked_up_def)

text \<open>What the linking loop leaves behind after the first \<open>k\<close> nodes.\<close>

definition linked_node :: "(string, string) jmap \<Rightarrow> hierarchy_record list \<Rightarrow> nat \<Rightarrow> nat \<Rightarrow> tree_node" where
  "linked_node ps sessions k v = (new_node (sessions ! v))\<lparr>
     tn_parentSessionId := (if v < k then map_option (\<lambda>p. hr_id (sessions ! p)) (linked_parent ps sessions v) else None),
     tn_children := filter (\<lambda>n. linked_parent ps sessions n = Some v) [0 ..< k]\<rparr>"

lemma linked_node_simps [simp]:
  "tn_session (linked_node ps sessions k v) = sessions ! v"
  "tn_children (linked_node ps sessions k v) = filter (\<lambda>n. linked_parent ps sessions n = Some v) [0 ..< k]"
  "tn_parentSessionId (linked_node ps sessions k v) = (if v < k then map_option (\<lambda>p. hr_id (sessions ! p)) (linked_parent ps sessions v) else None)"
  "tn_aggregateUpdatedAt (linked_node ps sessions k v) = hr_updatedAt (sessions ! v)"
  "tn_aggregateLastActiveAt (linked_node ps sessions k v) = ownLastActiveAt (sessions ! v)"
  by (simp_all add: linked_node_def new_node_def)

lemma linked_parent_bound: "linked_parent ps sessions n = Some v \<Longrightarrow> v < length sessions"
  by (auto simp: linked_parent_def bind_eq_Some_conv dest: nodes_by_id_get)

lemma link_step:
  assumes k: "k < length sessions"
  shows "link_node ps (nodes_by_id sessions) k
      (map (linked_node ps sessions k) [0 ..< length sessions], filter (\<lambda>n. linked_parent ps sessions n = None) [0 ..< k])
    = (map (linked_node ps sessions (Suc k)) [0 ..< length sessions], filter (\<lambda>n. linked_parent ps sessions n = None) [0 ..< Suc k])"
proof (cases "linked_parent ps sessions k")
  case None
  have "linked_node ps sessions (Suc k) v = linked_node ps sessions k v" for v
    using None by (auto simp: linked_node_def less_Suc_eq)
  then show ?thesis using None k by (simp add: link_node_def Let_def linked_parent_def)
next
  case (Some p)
  then have p: "p < length sessions" by (rule linked_parent_bound)
  let ?nodes = "map (linked_node ps sessions k) [0 ..< length sessions]"
  define nodes1 where "nodes1 = ?nodes[k := (?nodes ! k)\<lparr>tn_parentSessionId := Some (hr_id (sessions ! p))\<rparr>]"
  have "nodes1[p := (nodes1 ! p)\<lparr>tn_children := tn_children (nodes1 ! p) @ [k]\<rparr>] = map (linked_node ps sessions (Suc k)) [0 ..< length sessions]"
  proof (rule nth_equalityI)
    fix v assume "v < length (nodes1[p := (nodes1 ! p)\<lparr>tn_children := tn_children (nodes1 ! p) @ [k]\<rparr>])"
    then have v: "v < length sessions" by (simp add: nodes1_def)
    show "nodes1[p := (nodes1 ! p)\<lparr>tn_children := tn_children (nodes1 ! p) @ [k]\<rparr>] ! v = map (linked_node ps sessions (Suc k)) [0 ..< length sessions] ! v"
      using v p k Some by (cases "v = p"; cases "v = k"; cases "k = p") (auto simp: nodes1_def linked_node_def nth_list_update less_Suc_eq)
  qed (simp add: nodes1_def)
  then show ?thesis
    using Some k p by (simp add: link_node_def Let_def linked_parent_def nodes1_def del: upt_Suc) (simp add: linked_parent_def)
qed

lemma link_fold:
  "k \<le> length sessions \<Longrightarrow> fold (link_node ps (nodes_by_id sessions)) [0 ..< k] (map new_node sessions, [])
    = (map (linked_node ps sessions k) [0 ..< length sessions], filter (\<lambda>n. linked_parent ps sessions n = None) [0 ..< k])"
proof (induction k)
  case 0
  have "map new_node sessions = map (\<lambda>v. new_node (sessions ! v)) [0 ..< length sessions]"
    by (rule nth_equalityI) simp_all
  moreover have "linked_node ps sessions 0 v = new_node (sessions ! v)" for v
    by (simp add: linked_node_def new_node_def)
  ultimately show ?case by simp
next
  case (Suc k)
  then show ?case using link_step [of k sessions ps] by simp
qed

definition linked_nodes :: "hierarchy_record list \<Rightarrow> tree_node list" where
  "linked_nodes sessions = map (linked_node (broken_parents sessions) sessions (length sessions)) [0 ..< length sessions]"

definition linked_roots :: "hierarchy_record list \<Rightarrow> nat list" where
  "linked_roots sessions = filter (\<lambda>n. linked_parent (broken_parents sessions) sessions n = None) [0 ..< length sessions]"

lemma linked_nodes_children: "v < length sessions \<Longrightarrow> children_of (linked_nodes sessions) v = linked_children sessions v"
  by (simp add: linked_nodes_def linked_children_def)

lemma subtree_post_cong: "subtree_post ch v ps \<Longrightarrow> \<forall>x \<in> set ps. ch' x = ch x \<Longrightarrow> subtree_post ch' v ps"
proof (induction rule: subtree_post.induct)
  case (subtree v pss)
  have "list_all2 (subtree_post ch') (rev (ch v)) pss"
    using subtree.IH
  proof (rule list_all2_mono_on)
    fix c ps
    assume "ps \<in> set pss" "subtree_post ch c ps \<and> ((\<forall>x \<in> set ps. ch' x = ch x) \<longrightarrow> subtree_post ch' c ps)"
    then show "subtree_post ch' c ps" using subtree.prems by auto
  qed
  then show ?case using subtree.prems subtree_post.subtree [of ch' v pss] by simp
qed

lemma linked_below: "r < length sessions \<Longrightarrow> linked.below sessions r \<subseteq> {..< length sessions}"
proof
  fix x assume "r < length sessions" "x \<in> linked.below sessions r"
  then have "(x, r) \<in> (linked_up sessions)\<^sup>*" "r < length sessions" by (simp_all add: linked.below_def)
  then show "x \<in> {..< length sessions}" by (induction rule: converse_rtrancl_induct) (auto simp: linked_up_def)
qed

lemma linked_roots_iff: "r \<in> set (linked_roots sessions) \<longleftrightarrow> r < length sessions \<and> (\<forall>w. (r, w) \<notin> linked_up sessions)"
  by (auto simp: linked_roots_def linked_up_def)

lemma linked_roots_cover: "(\<Union>r \<in> set (linked_roots sessions). linked.below sessions r) = {..< length sessions}"
proof
  show "(\<Union>r \<in> set (linked_roots sessions). linked.below sessions r) \<subseteq> {..< length sessions}"
    using linked_below by (fastforce simp: linked_roots_iff)
  show "{..< length sessions} \<subseteq> (\<Union>r \<in> set (linked_roots sessions). linked.below sessions r)"
  proof
    fix x assume x: "x \<in> {..< length sessions}"
    obtain r where r: "x \<in> linked.below sessions r" "\<forall>w. (r, w) \<notin> linked_up sessions" using linked.reaches_root by blast
    have "(x, r) \<in> (linked_up sessions)\<^sup>*" using r(1) by (simp add: linked.below_def)
    then have "r < length sessions"
      using x linked_parent_bound by (cases rule: rtranclE) (auto simp: linked_up_def)
    then show "x \<in> (\<Union>r \<in> set (linked_roots sessions). linked.below sessions r)" using r by (auto simp: linked_roots_iff)
  qed
qed

text \<open>The walk over the linked nodes ends within its fuel and meets every node once.\<close>

lemma linked_postorder:
  "\<exists>po pss. postorder_loop (postorder_fuel (linked_nodes sessions)) (children_of (linked_nodes sessions))
       (map (\<lambda>r. (r, False)) (rev (linked_roots sessions))) [] = Some po
     \<and> po = concat pss \<and> list_all2 (subtree_post (linked_children sessions)) (rev (linked_roots sessions)) pss
     \<and> set po = {..< length sessions} \<and> distinct po"
proof -
  have roots: "distinct (rev (linked_roots sessions))" by (simp add: linked_roots_def)
  obtain pss where pss: "list_all2 (subtree_post (linked_children sessions)) (rev (linked_roots sessions)) pss"
      "set (concat pss) = (\<Union>r \<in> set (rev (linked_roots sessions)). linked.below sessions r)" "distinct (concat pss)"
    using linked.forest_exists [OF roots, of sessions] by (auto simp: linked_roots_iff)
  have all: "set (concat pss) = {..< length sessions}" using pss(2) linked_roots_cover by simp
  then have len: "length (concat pss) = length sessions" using distinct_card [OF pss(3)] by simp
  have "list_all2 (subtree_post (children_of (linked_nodes sessions))) (rev (linked_roots sessions)) pss"
    using pss(1)
  proof (rule list_all2_mono_on)
    fix r ps assume "ps \<in> set pss" "subtree_post (linked_children sessions) r ps"
    moreover have "\<forall>x \<in> set ps. children_of (linked_nodes sessions) x = linked_children sessions x"
      using all \<open>ps \<in> set pss\<close> by (auto intro!: linked_nodes_children)
    ultimately show "subtree_post (children_of (linked_nodes sessions)) r ps" by (blast intro: subtree_post_cong)
  qed
  from postorder_forest [OF this, of 0 "[]" "[]"] len
  have "postorder_loop (postorder_fuel (linked_nodes sessions)) (children_of (linked_nodes sessions))
       (map (\<lambda>r. (r, False)) (rev (linked_roots sessions))) [] = Some (concat pss)"
    by (simp add: postorder_fuel_def linked_nodes_def)
  then show ?thesis using pss all by blast
qed

lemma derive_linked:
  "deriveAiSessionForest le orderBy sessions =
     (let nodesById = nodes_by_id sessions; nodes = linked_nodes sessions; roots = linked_roots sessions;
          members = cycle_members (map hr_id sessions) (fst (candidate_parents sessions))
      in map_option (\<lambda>postorder. let nodes = fold (aggregate_node le orderBy nodesById) postorder nodes in
          \<lparr>fo_nodes = nodes, fo_nodesById = nodesById, fo_roots = js_sort (node_le le orderBy nodesById nodes) roots,
           fo_diagnostics = snd (candidate_parents sessions) @ map (cycle_diagnostic sessions nodesById) members\<rparr>)
        (postorder_loop (postorder_fuel nodes) (children_of nodes) (map (\<lambda>r. (r, False)) (rev roots)) []))"
proof -
  have "fold (link_node (broken_parents sessions) (nodes_by_id sessions)) [0 ..< length sessions] (map new_node sessions, [])
      = (linked_nodes sessions, linked_roots sessions)"
    by (simp add: link_fold linked_nodes_def linked_roots_def)
  then show ?thesis
    by (simp add: deriveAiSessionForest_def Let_def broken_parents_def case_prod_unfold split: option.splits)
qed

section \<open>Aggregated times\<close>

fun children_first :: "(nat \<Rightarrow> nat list) \<Rightarrow> nat set \<Rightarrow> nat list \<Rightarrow> bool" where
  "children_first ch seen [] = True"
| "children_first ch seen (v # ps) = (set (ch v) \<subseteq> seen \<and> children_first ch (insert v seen) ps)"

lemma children_first_append: "children_first ch seen (ps @ qs) = (children_first ch seen ps \<and> children_first ch (seen \<union> set ps) qs)"
  by (induction ps arbitrary: seen) auto

lemma children_first_mono: "children_first ch seen ps \<Longrightarrow> seen \<subseteq> seen' \<Longrightarrow> children_first ch seen' ps"
proof (induction ps arbitrary: seen seen')
  case (Cons v ps)
  then show ?case using Cons.IH [of "insert v seen" "insert v seen'"] by auto
qed simp

lemma subtree_post_root: "subtree_post ch v ps \<Longrightarrow> v \<in> set ps"
  by (auto elim: subtree_post.cases)

lemma subtrees_children_first:
  "list_all2 (\<lambda>c ps. v_in c ps \<and> (\<forall>seen. children_first ch seen ps)) cs pss \<Longrightarrow> children_first ch seen (concat pss)"
proof (induction arbitrary: seen rule: list_all2_induct)
  case (Cons c cs ps pss)
  then show ?case by (auto simp: children_first_append)
qed simp

lemma subtree_children_first: "subtree_post ch v ps \<Longrightarrow> children_first ch seen ps"
proof (induction arbitrary: seen rule: subtree_post.induct)
  case (subtree v pss)
  have all: "list_all2 (\<lambda>c ps. True \<and> (\<forall>seen. children_first ch seen ps)) (rev (ch v)) pss"
    using subtree.IH by (rule list_all2_mono) auto
  have "list_all2 (\<lambda>c ps. c \<in> set ps) (rev (ch v)) pss"
    using subtree.IH by (rule list_all2_mono) (auto dest: subtree_post_root)
  then have "set (rev (ch v)) \<subseteq> set (concat pss)" by (induction rule: list_all2_induct) auto
  then show ?case using subtrees_children_first [OF all] by (auto simp: children_first_append)
qed

lemma forest_children_first: "list_all2 (subtree_post ch) cs pss \<Longrightarrow> children_first ch seen (concat pss)"
  by (rule subtrees_children_first [where v_in = "\<lambda>c ps. True"]) (auto elim!: list_all2_mono simp: subtree_children_first)

definition same_shape :: "tree_node list \<Rightarrow> tree_node list \<Rightarrow> bool" where
  "same_shape nodes nodes' \<longleftrightarrow> length nodes' = length nodes \<and> (\<forall>v < length nodes. tn_session (nodes' ! v) = tn_session (nodes ! v)
     \<and> tn_parentSessionId (nodes' ! v) = tn_parentSessionId (nodes ! v) \<and> mset (children_of nodes' v) = mset (children_of nodes v))"

lemma mset_js_sort [simp]: "mset (js_sort le xs) = mset xs"
proof -
  have "mset (js_insort le x xs) = add_mset x (mset xs)" for x xs by (induction xs) auto
  then show ?thesis by (induction xs) auto
qed

lemma absorb_keeps:
  "tn_session (fold (absorb_child nodes) cs n) = tn_session n" "tn_parentSessionId (fold (absorb_child nodes) cs n) = tn_parentSessionId n"
  "tn_children (fold (absorb_child nodes) cs n) = tn_children n"
  by (induction cs arbitrary: n) (simp_all add: absorb_child_def)

lemma aggregate_shape: "same_shape nodes (aggregate_node le orderBy m v nodes)"
  by (cases "v < length nodes") (auto simp: same_shape_def aggregate_node_def Let_def absorb_keeps nth_list_update list_update_beyond)

lemma same_shape_trans: "same_shape a b \<Longrightarrow> same_shape b c \<Longrightarrow> same_shape a c"
  by (simp add: same_shape_def)

lemma aggregate_all_shape: "same_shape nodes (fold (aggregate_node le orderBy m) po nodes)"
proof (induction po arbitrary: nodes)
  case (Cons v po)
  then show ?case using aggregate_shape same_shape_trans by (metis fold_simps(2))
qed (simp add: same_shape_def)

lemma timestamp_latest: "timestamp (Some (latestTimestamp l r)) = max (timestamp (Some l)) (timestamp (Some r))"
  by (simp add: latestTimestamp_def max_def)

lemma Max_insert_max: "finite S \<Longrightarrow> Max (insert (max a b) S) = Max (insert a (insert (b :: int) S))"
  by (cases "S = {}") (simp_all add: max.assoc)

lemma absorb_time:
  "timestamp (Some (tn_aggregateUpdatedAt (fold (absorb_child nodes) cs n)))
     = Max (insert (timestamp (Some (tn_aggregateUpdatedAt n))) ((\<lambda>c. timestamp (Some (tn_aggregateUpdatedAt (nodes ! c)))) ` set cs))"
proof (induction cs arbitrary: n)
  case (Cons c cs)
  have "tn_aggregateUpdatedAt (absorb_child nodes c n) = latestTimestamp (tn_aggregateUpdatedAt n) (tn_aggregateUpdatedAt (nodes ! c))"
    by (simp add: absorb_child_def)
  then show ?case using Cons.IH [of "absorb_child nodes c n"] by (simp only: fold_simps timestamp_latest list.set image_insert) (simp only: Max_insert_max finite_imageI finite_set)
qed simp

definition updated_time :: "hierarchy_record list \<Rightarrow> nat \<Rightarrow> int" where
  "updated_time sessions x = timestamp (Some (hr_updatedAt (sessions ! x)))"

definition aggregated :: "hierarchy_record list \<Rightarrow> nat set \<Rightarrow> tree_node list \<Rightarrow> bool" where
  "aggregated sessions seen nodes \<longleftrightarrow> same_shape (linked_nodes sessions) nodes
     \<and> (\<forall>v < length sessions. timestamp (Some (tn_aggregateUpdatedAt (nodes ! v)))
         = (if v \<in> seen then Max (updated_time sessions ` linked.below sessions v) else updated_time sessions v))"

lemma linked_nodes_length [simp]: "length (linked_nodes sessions) = length sessions"
  by (simp add: linked_nodes_def)

lemma below_finite: "v < length sessions \<Longrightarrow> finite (linked.below sessions v)"
  using linked_below finite_subset by blast

lemma shape_children: "same_shape (linked_nodes sessions) nodes \<Longrightarrow> v < length sessions \<Longrightarrow> set (children_of nodes v) = set (linked_children sessions v)"
  using linked_nodes_children [of v sessions] by (metis linked_nodes_length mset_eq_setD same_shape_def)

lemma linked_child_bound: "c \<in> set (linked_children sessions v) \<Longrightarrow> c < length sessions"
  by (simp add: linked_children_def)

lemma Max_UN:
  "finite C \<Longrightarrow> C \<noteq> {} \<Longrightarrow> \<forall>c \<in> C. finite (f c) \<and> f c \<noteq> {} \<Longrightarrow> Max (\<Union>c \<in> C. f c) = Max ((\<lambda>c. Max (f c) :: int) ` C)"
  by (induction C rule: finite_ne_induct) (auto simp: Max_Un)

lemma below_time:
  assumes v: "v < length sessions"
  shows "Max (updated_time sessions ` linked.below sessions v)
    = Max (insert (updated_time sessions v) ((\<lambda>c. Max (updated_time sessions ` linked.below sessions c)) ` set (linked_children sessions v)))"
proof -
  let ?U = "updated_time sessions" and ?B = "linked.below sessions" and ?C = "set (linked_children sessions v)"
  have fin: "finite (?U ` ?B c)" "?U ` ?B c \<noteq> {}" if "c \<in> ?C" for c
    using below_finite [OF linked_child_bound [OF that]] by (auto simp: linked.below_def)
  have "Max (?U ` ?B v) = Max (insert (?U v) (\<Union>c \<in> ?C. ?U ` ?B c))"
    by (subst linked.below_unfold) (simp add: image_UN)
  also have "\<dots> = Max (insert (?U v) ((\<lambda>c. Max (?U ` ?B c)) ` ?C))"
  proof (cases "?C = {}")
    case False
    have "Max (\<Union>c \<in> ?C. ?U ` ?B c) = Max ((\<lambda>c. Max (?U ` ?B c)) ` ?C)"
      using fin False by (intro Max_UN) auto
    then show ?thesis using fin False by (subst (1 2) Max_insert) auto
  qed simp
  finally show ?thesis .
qed

lemma aggregate_step:
  assumes inv: "aggregated sessions seen nodes" and v: "v < length sessions" "v \<notin> seen" "set (linked_children sessions v) \<subseteq> seen"
  shows "aggregated sessions (insert v seen) (aggregate_node le orderBy m v nodes)"
proof -
  let ?t = "\<lambda>nodes x. timestamp (Some (tn_aggregateUpdatedAt (nodes ! x)))"
  let ?nodes' = "aggregate_node le orderBy m v nodes"
  have shape: "same_shape (linked_nodes sessions) nodes" using inv by (simp add: aggregated_def)
  have len: "v < length nodes" using shape v(1) by (simp add: same_shape_def)
  have other: "?nodes' ! x = nodes ! x" if "x \<noteq> v" for x using that by (simp add: aggregate_node_def Let_def)
  have "?t ?nodes' v = ?t [fold (absorb_child nodes) (children_of nodes v) (nodes ! v)] 0"
    using len by (simp add: aggregate_node_def Let_def)
  also have "\<dots> = Max (insert (?t nodes v) (?t nodes ` set (children_of nodes v)))" by (simp add: absorb_time)
  also have "\<dots> = Max (insert (updated_time sessions v) ((\<lambda>c. Max (updated_time sessions ` linked.below sessions c)) ` set (linked_children sessions v)))"
    using inv v linked_child_bound unfolding shape_children [OF shape v(1)]
    by (intro arg_cong [where f = Max] arg_cong2 [where f = insert] image_cong) (auto simp: aggregated_def)
  finally have "?t ?nodes' v = Max (updated_time sessions ` linked.below sessions v)" using below_time [OF v(1)] by simp
  then have "?t ?nodes' x = (if x \<in> insert v seen then Max (updated_time sessions ` linked.below sessions x) else updated_time sessions x)"
    if "x < length sessions" for x
    using inv other [of x] that by (cases "x = v") (simp_all add: aggregated_def)
  then show ?thesis
    using same_shape_trans [OF shape aggregate_shape] by (simp add: aggregated_def)
qed

lemma aggregate_all:
  assumes "aggregated sessions seen nodes" "children_first (linked_children sessions) seen po" "distinct po" "set po \<inter> seen = {}"
    "set po \<subseteq> {..< length sessions}"
  shows "aggregated sessions (seen \<union> set po) (fold (aggregate_node le orderBy m) po nodes)"
  using assms
proof (induction po arbitrary: seen nodes)
  case (Cons v po)
  have "aggregated sessions (insert v seen) (aggregate_node le orderBy m v nodes)" using Cons.prems by (intro aggregate_step) auto
  then show ?case using Cons.IH [of "insert v seen"] Cons.prems by auto
qed simp

section \<open>The forest that is returned\<close>

lemma derive_facts:
  "\<exists>f. deriveAiSessionForest le orderBy sessions = Some f \<and> aggregated sessions {..< length sessions} (fo_nodes f)
     \<and> fo_nodesById f = nodes_by_id sessions \<and> mset (fo_roots f) = mset (linked_roots sessions)
     \<and> fo_diagnostics f = snd (candidate_parents sessions)
         @ map (cycle_diagnostic sessions (nodes_by_id sessions)) (cycle_members (map hr_id sessions) (fst (candidate_parents sessions)))"
proof -
  obtain po pss where po: "postorder_loop (postorder_fuel (linked_nodes sessions)) (children_of (linked_nodes sessions))
       (map (\<lambda>r. (r, False)) (rev (linked_roots sessions))) [] = Some po" "po = concat pss"
      "list_all2 (subtree_post (linked_children sessions)) (rev (linked_roots sessions)) pss" "set po = {..< length sessions}" "distinct po"
    using linked_postorder by blast
  have "aggregated sessions {} (linked_nodes sessions)"
    by (simp add: aggregated_def same_shape_def linked_nodes_def updated_time_def)
  then have "aggregated sessions ({} \<union> set po) (fold (aggregate_node le orderBy (nodes_by_id sessions)) po (linked_nodes sessions))"
    using po(2-5) forest_children_first by (intro aggregate_all) auto
  then show ?thesis using po(1,4) by (simp add: derive_linked Let_def)
qed

definition final_children :: "(string \<Rightarrow> string \<Rightarrow> bool) \<Rightarrow> forest_order option \<Rightarrow> hierarchy_record list \<Rightarrow> nat \<Rightarrow> nat list" where
  "final_children le orderBy sessions v = (case deriveAiSessionForest le orderBy sessions of
     Some f \<Rightarrow> if v < length (fo_nodes f) then children_of (fo_nodes f) v else [] | None \<Rightarrow> [])"

lemma aggregated_nodes:
  assumes "aggregated sessions seen nodes"
  shows "length nodes = length sessions" "v < length sessions \<Longrightarrow> tn_session (nodes ! v) = sessions ! v"
    "v < length sessions \<Longrightarrow> mset (children_of nodes v) = mset (linked_children sessions v)"
    "v < length sessions \<Longrightarrow> tn_parentSessionId (nodes ! v) = map_option (\<lambda>p. hr_id (sessions ! p)) (linked_parent (broken_parents sessions) sessions v)"
  using assms linked_nodes_children [of v sessions] by (auto simp: aggregated_def same_shape_def) (auto simp: linked_nodes_def)

lemma final_children_mset: "mset (final_children le orderBy sessions v) = mset (linked_children sessions v)"
proof -
  obtain f where f: "deriveAiSessionForest le orderBy sessions = Some f" "aggregated sessions {..< length sessions} (fo_nodes f)"
    using derive_facts by blast
  have "linked_children sessions v = []" if "\<not> v < length sessions"
    using that linked_parent_bound by (auto simp: linked_children_def filter_empty_conv)
  then show ?thesis using f aggregated_nodes [OF f(2)] by (simp add: final_children_def)
qed

interpretation final: parent_forest "final_children le orderBy sessions" "linked_up sessions" for le orderBy sessions
proof unfold_locales
  fix v
  show "set (final_children le orderBy sessions v) = {c. (c, v) \<in> linked_up sessions}"
    using mset_eq_setD [OF final_children_mset] linked.children by blast
  show "distinct (final_children le orderBy sessions v)"
    using mset_eq_imp_distinct_iff [OF final_children_mset] linked.distinct_children by blast
  show "finite (linked_up sessions)" by (rule linked.finite_parents)
  show "acyclic (linked_up sessions)" by (rule linked.acyclic_parents)
qed (rule linked.one_parent)

lemma fold_has:
  "k \<in> hr_id ` fst ` set xs \<or> jmap_get m k \<noteq> None \<Longrightarrow> jmap_get (fold (\<lambda>(s, n). jmap_set (hr_id s) n) xs m) k \<noteq> None"
proof (induction xs arbitrary: m)
  case (Cons x xs)
  obtain s n where x: "x = (s, n)" by fastforce
  have "k \<in> hr_id ` fst ` set xs \<or> jmap_get (jmap_set (hr_id s) n m) k \<noteq> None" using Cons.prems x by (auto simp: jm.get_put)
  from Cons.IH [OF this] show ?case by (simp add: x)
qed simp

lemma nodes_by_id_self:
  assumes "distinct (map hr_id sessions)" "v < length sessions"
  shows "jmap_get (nodes_by_id sessions) (hr_id (sessions ! v)) = Some v"
proof -
  have "map fst (zip sessions [0 ..< length sessions]) = sessions" by simp
  then have "fst ` set (zip sessions [0 ..< length sessions]) = set sessions" by (metis set_map)
  then have "hr_id (sessions ! v) \<in> hr_id ` fst ` set (zip sessions [0 ..< length sessions])" using assms(2) by simp
  then have "\<exists>w. jmap_get (nodes_by_id sessions) (hr_id (sessions ! v)) = Some w"
    unfolding nodes_by_id_def using fold_has [of "hr_id (sessions ! v)" "zip sessions [0 ..< length sessions]" "[]"] by blast
  then obtain w where w: "jmap_get (nodes_by_id sessions) (hr_id (sessions ! v)) = Some w" ..
  then have "w < length sessions" "hr_id (sessions ! w) = hr_id (sessions ! v)" using nodes_by_id_get by auto
  then have "w = v" using assms by (metis distinct_conv_nth length_map nth_map)
  then show ?thesis using w by simp
qed

lemma subtree_of_final:
  assumes f: "deriveAiSessionForest le orderBy sessions = Some f" and d: "distinct (map hr_id sessions)" and v: "v < length sessions"
  shows "\<exists>ps. aiSessionSubtreePostorder f (hr_id (sessions ! v)) = Some ps \<and> set ps = linked.below sessions v \<and> distinct ps"
proof -
  have agg: "aggregated sessions {..< length sessions} (fo_nodes f)" and ids: "fo_nodesById f = nodes_by_id sessions"
    using derive_facts [of le orderBy sessions] f by auto
  obtain ps where ps: "subtree_post (final_children le orderBy sessions) v ps" "set ps = linked.below sessions v" "distinct ps"
    using final.subtree_exists [of le orderBy sessions v] by blast
  have bound: "set ps \<subseteq> {..< length sessions}" using ps(2) linked_below [OF v] by simp
  have "subtree_post (children_of (fo_nodes f)) v ps"
    by (rule subtree_post_cong [OF ps(1)]) (use bound aggregated_nodes(1) [OF agg] f in \<open>auto simp: final_children_def\<close>)
  from postorder_subtree [OF this, of "2 * (length sessions - length ps)" "[]" "[]"]
  have "postorder_loop (2 * (length sessions - length ps) + 2 * length ps) (children_of (fo_nodes f)) [(v, False)] [] = Some ps" by simp
  moreover have "length ps \<le> length sessions"
    using card_mono [OF _ bound] distinct_card [OF ps(3)] by simp
  ultimately have "postorder_loop (postorder_fuel (fo_nodes f)) (children_of (fo_nodes f)) [(v, False)] [] = Some ps"
    using aggregated_nodes(1) [OF agg] by (simp add: postorder_fuel_def flip: add_mult_distrib2)
  then show ?thesis using ps ids nodes_by_id_self [OF d v] by (simp add: aiSessionSubtreePostorder_def)
qed

text \<open>The climb to the root ends within its fuel.\<close>

definition ancestors :: "hierarchy_record list \<Rightarrow> nat \<Rightarrow> nat set" where
  "ancestors sessions n = {v. (n, v) \<in> (linked_up sessions)\<^sup>+}"

lemma ancestors_bound: "ancestors sessions n \<subseteq> {..< length sessions}"
proof
  fix v assume "v \<in> ancestors sessions n"
  then obtain w where "(w, v) \<in> linked_up sessions" by (auto simp: ancestors_def elim: tranclE)
  then show "v \<in> {..< length sessions}" using linked_parent_bound by (auto simp: linked_up_def)
qed

lemma ancestors_parent:
  assumes "(n, p) \<in> linked_up sessions"
  shows "card (ancestors sessions p) < card (ancestors sessions n)"
proof (rule psubset_card_mono)
  show "finite (ancestors sessions n)" using ancestors_bound finite_subset by blast
  have "p \<notin> ancestors sessions p" using linked.acyclic_parents [of sessions] by (simp add: ancestors_def acyclic_def)
  moreover have "p \<in> ancestors sessions n" "ancestors sessions p \<subseteq> ancestors sessions n"
    using assms by (auto simp: ancestors_def intro: trancl_into_trancl2)
  ultimately show "ancestors sessions p \<subset> ancestors sessions n" by blast
qed

lemma ancestors_step:
  assumes "(n, p) \<in> linked_up sessions"
  shows "ancestors sessions n = insert p (ancestors sessions p)"
proof (intro equalityI subsetI)
  fix v assume "v \<in> ancestors sessions n"
  then obtain w where w: "(n, w) \<in> linked_up sessions" "(w, v) \<in> (linked_up sessions)\<^sup>*"
    by (auto simp: ancestors_def dest: tranclD)
  have "w = p" using linked.one_parent [OF w(1) assms] .
  then show "v \<in> insert p (ancestors sessions p)" using rtranclD [OF w(2)] by (auto simp: ancestors_def)
qed (use assms in \<open>auto simp: ancestors_def intro: trancl_into_trancl2\<close>)

lemma climb_reaches:
  assumes agg: "aggregated sessions {..< length sessions} (fo_nodes f)" and ids: "fo_nodesById f = nodes_by_id sessions"
    and n: "n < length sessions" "card (ancestors sessions n) \<le> fuel"
  shows "\<exists>r above. climb fuel f (Some n) acc = Some (Some r, acc @ above) \<and> n \<in> linked.below sessions r \<and> r \<in> set (linked_roots sessions)
    \<and> set above = (\<lambda>v. hr_id (sessions ! v)) ` ancestors sessions n"
  using n
proof (induction fuel arbitrary: n acc)
  case 0
  have "ancestors sessions n = {}" using 0(2) ancestors_bound [of sessions n] finite_subset by fastforce
  then have none: "linked_parent (broken_parents sessions) sessions n = None"
    using 0(1) by (cases "linked_parent (broken_parents sessions) sessions n") (auto simp: ancestors_def linked_up_def)
  then show ?case using 0(1) aggregated_nodes(4) [OF agg 0(1)] \<open>ancestors sessions n = {}\<close>
    by (auto simp: linked.below_def linked_roots_def)
next
  case (Suc fuel)
  show ?case
  proof (cases "linked_parent (broken_parents sessions) sessions n")
    case None
    then have "ancestors sessions n = {}" by (auto simp: ancestors_def linked_up_def dest: tranclD)
    then show ?thesis using None Suc.prems(1) aggregated_nodes(4) [OF agg Suc.prems(1)]
      by (auto simp: linked.below_def linked_roots_def)
  next
    case (Some p)
    have up: "(n, p) \<in> linked_up sessions" using Some Suc.prems(1) by (simp add: linked_up_def)
    obtain y where y: "parent_of (broken_parents sessions) (hr_id (sessions ! n)) = Some y" "jmap_get (nodes_by_id sessions) y = Some p"
      using Some by (auto simp: linked_parent_def bind_eq_Some_conv)
    have p: "p < length sessions" "hr_id (sessions ! p) = y" using nodes_by_id_get [OF y(2)] by auto
    have ne: "y \<noteq> []" using y(1) by (auto simp: parent_of_def split: option.splits if_splits)
    have "climb (Suc fuel) f (Some n) acc = climb fuel f (Some p) (acc @ [y])"
      using aggregated_nodes(4) [OF agg Suc.prems(1)] Some p y(2) ne ids by simp
    moreover obtain r above where "climb fuel f (Some p) (acc @ [y]) = Some (Some r, (acc @ [y]) @ above)" "p \<in> linked.below sessions r"
        "r \<in> set (linked_roots sessions)" "set above = (\<lambda>v. hr_id (sessions ! v)) ` ancestors sessions p"
      using Suc.IH [OF p(1), of "acc @ [y]"] ancestors_parent [OF up] Suc.prems(2) by auto
    moreover note ancestors_step [OF up]
    ultimately show ?thesis
      using up p(2) by (intro exI [of _ r] exI [of _ "y # above"]) (auto simp: linked.below_def intro: converse_rtrancl_into_rtrancl)
  qed
qed

lemma root_of_final:
  assumes f: "deriveAiSessionForest le orderBy sessions = Some f" and d: "distinct (map hr_id sessions)" and n: "n < length sessions"
  shows "aiSessionRootNode f (hr_id (sessions ! n)) = Some (Some r) \<longleftrightarrow> r \<in> set (fo_roots f) \<and> n \<in> linked.below sessions r"
proof -
  have agg: "aggregated sessions {..< length sessions} (fo_nodes f)" and ids: "fo_nodesById f = nodes_by_id sessions"
    and roots: "set (fo_roots f) = set (linked_roots sessions)"
    using derive_facts [of le orderBy sessions] f by (auto dest: mset_eq_setD)
  have "card (ancestors sessions n) \<le> length (fo_nodes f)"
    using card_mono [OF _ ancestors_bound] aggregated_nodes(1) [OF agg] by simp
  then obtain q above where q: "climb (length (fo_nodes f)) f (Some n) [] = Some (Some q, [] @ above)" "n \<in> linked.below sessions q"
      "q \<in> set (linked_roots sessions)" using climb_reaches [OF agg ids n] by blast
  have "aiSessionRootNode f (hr_id (sessions ! n)) = Some (Some q)"
    using q(1) ids nodes_by_id_self [OF d n] by (simp add: aiSessionRootNode_def)
  moreover have "r = q" if "r \<in> set (linked_roots sessions)" "n \<in> linked.below sessions r"
    using that q(2,3) linked.roots_disjoint [of r sessions q] by (auto simp: linked_roots_iff)
  ultimately show ?thesis using q(2,3) roots by auto
qed

lemma trees_of_final:
  assumes f: "deriveAiSessionForest le orderBy sessions = Some f" and d: "distinct (map hr_id sessions)"
  shows "\<exists>pss. list_all2 (\<lambda>r ps. aiSessionSubtreePostorder f (hr_id (sessions ! r)) = Some ps \<and> set ps = linked.below sessions r \<and> distinct ps) (fo_roots f) pss
    \<and> mset (concat pss) = mset [0 ..< length sessions]"
proof -
  have roots: "mset (fo_roots f) = mset (linked_roots sessions)" using derive_facts [of le orderBy sessions] f by auto
  have rset: "set (fo_roots f) = set (linked_roots sessions)" using roots by (rule mset_eq_setD)
  have rdist: "distinct (fo_roots f)" using mset_eq_imp_distinct_iff [OF roots] by (simp add: linked_roots_def)
  have bound: "r < length sessions" if "r \<in> set (fo_roots f)" for r using that rset by (simp add: linked_roots_def)
  define pss where "pss = map (\<lambda>r. the (aiSessionSubtreePostorder f (hr_id (sessions ! r)))) (fo_roots f)"
  have trees: "list_all2 (\<lambda>r ps. aiSessionSubtreePostorder f (hr_id (sessions ! r)) = Some ps \<and> set ps = linked.below sessions r \<and> distinct ps) (fo_roots f) pss"
    unfolding pss_def list_all2_map2 by (rule list.rel_refl_strong) (use subtree_of_final [OF f d] bound in fastforce)
  have "list_all2 (\<lambda>r ps. set ps = linked.below sessions r \<and> distinct ps) (fo_roots f) pss" using trees by (rule list_all2_mono) auto
  then have "set (concat pss) = (\<Union>r \<in> set (fo_roots f). linked.below sessions r) \<and> distinct (concat pss)"
    by (rule linked.subtrees_distinct [OF _ rdist]) (use rset linked.roots_disjoint in \<open>simp add: linked_roots_iff\<close>)
  then have "mset (concat pss) = mset [0 ..< length sessions]"
    using rset linked_roots_cover [of sessions] set_eq_iff_mset_eq_distinct [of "concat pss" "[0 ..< length sessions]"] by (simp only: set_upt distinct_upt atLeast0LessThan) simp
  then show ?thesis using trees by blast
qed

text \<open>
  Claim C12.
  Whatever lineage the sessions claim, with cycles, missing or foreign parents: deriving the forest ends, keeps every session,
  and the trees below the roots contain every session exactly once; climbing from a session ends at the root of its tree.
\<close>

theorem session_forest_partitions:
  assumes d: "distinct (map hr_id sessions)"
  shows "\<exists>f pss. deriveAiSessionForest le orderBy sessions = Some f \<and> map tn_session (fo_nodes f) = sessions
    \<and> list_all2 (\<lambda>r ps. aiSessionSubtreePostorder f (hr_id (sessions ! r)) = Some ps) (fo_roots f) pss
    \<and> mset (concat pss) = mset [0 ..< length sessions]
    \<and> (\<forall>n < length sessions. \<exists>r \<in> set (fo_roots f). aiSessionRootNode f (hr_id (sessions ! n)) = Some (Some r)
         \<and> (\<exists>ps. aiSessionSubtreePostorder f (hr_id (sessions ! r)) = Some ps \<and> n \<in> set ps))"
proof -
  obtain f where f: "deriveAiSessionForest le orderBy sessions = Some f" and agg: "aggregated sessions {..< length sessions} (fo_nodes f)"
    and rset: "set (fo_roots f) = set (linked_roots sessions)"
    using derive_facts [of le orderBy sessions] by (auto dest: mset_eq_setD)
  have nodes: "map tn_session (fo_nodes f) = sessions"
    by (rule nth_equalityI) (simp_all add: aggregated_nodes [OF agg])
  obtain pss where trees: "list_all2 (\<lambda>r ps. aiSessionSubtreePostorder f (hr_id (sessions ! r)) = Some ps \<and> set ps = linked.below sessions r \<and> distinct ps) (fo_roots f) pss"
    and all: "mset (concat pss) = mset [0 ..< length sessions]"
    using trees_of_final [OF f d] by blast
  have "\<exists>r \<in> set (fo_roots f). aiSessionRootNode f (hr_id (sessions ! n)) = Some (Some r)
      \<and> (\<exists>ps. aiSessionSubtreePostorder f (hr_id (sessions ! r)) = Some ps \<and> n \<in> set ps)" if n: "n < length sessions" for n
  proof -
    obtain r where r: "r \<in> set (fo_roots f)" "n \<in> linked.below sessions r"
      using linked_roots_cover [of sessions] rset n by blast
    then have "r < length sessions" using rset by (simp add: linked_roots_def)
    then show ?thesis using r root_of_final [OF f d n] subtree_of_final [OF f d, of r] by auto
  qed
  then show ?thesis
    using f nodes trees all by (intro exI [of _ f] exI [of _ pss]) (auto elim!: list_all2_mono)
qed

text \<open>A session with a child, a session in a cycle with itself through another one, and an orphan.\<close>

definition sample_session :: "string \<Rightarrow> lineage option \<Rightarrow> hierarchy_record" where
  "sample_session sid l = \<lparr>hr_id = sid, hr_instanceId = None, hr_agent = ''codex'', hr_providerSessionId = Some (sid @ ''p''), hr_lineage = l,
     hr_status = None, hr_lastUserMessageAt = None, hr_updatedAt = ''2026-01-01T00:00:00.000Z'', hr_completedAt = None\<rparr>"

definition sample_sessions :: "hierarchy_record list" where
  "sample_sessions = [sample_session ''a'' None, sample_session ''b'' (Some (Subagent ''ap'')), sample_session ''c'' (Some (Subagent ''dp'')),
     sample_session ''d'' (Some (Subagent ''cp'')), sample_session ''e'' (Some (Subagent ''zp''))]"

theorem session_forest_partitions_witness:
  "\<exists>f pss. deriveAiSessionForest (\<lambda>_ _. True) None sample_sessions = Some f \<and> map tn_session (fo_nodes f) = sample_sessions
    \<and> list_all2 (\<lambda>r ps. aiSessionSubtreePostorder f (hr_id (sample_sessions ! r)) = Some ps) (fo_roots f) pss
    \<and> mset (concat pss) = mset [0 ..< length sample_sessions]
    \<and> (\<forall>n < length sample_sessions. \<exists>r \<in> set (fo_roots f). aiSessionRootNode f (hr_id (sample_sessions ! n)) = Some (Some r)
         \<and> (\<exists>ps. aiSessionSubtreePostorder f (hr_id (sample_sessions ! r)) = Some ps \<and> n \<in> set ps))"
  by (rule session_forest_partitions) (simp add: sample_sessions_def sample_session_def)

section \<open>Cycles are broken and nothing else\<close>

lemma identity_sessions:
  "\<forall>k s. jmap_get (fst acc) k = Some s \<longrightarrow> s \<in> A \<Longrightarrow> set ss \<subseteq> A
    \<Longrightarrow> \<forall>k s. jmap_get (fst (fold index_identity ss acc)) k = Some s \<longrightarrow> s \<in> A"
proof (induction ss arbitrary: acc)
  case (Cons s ss)
  have "\<forall>k t. jmap_get (fst (index_identity s acc)) k = Some t \<longrightarrow> t \<in> A"
    using Cons.prems by (auto simp: index_identity_def Let_def jm.get_put split: if_splits)
  then show ?case using Cons.IH Cons.prems by simp
qed simp

lemma candidate_values:
  assumes "\<forall>k s. jmap_get byId k = Some s \<longrightarrow> s \<in> A" "\<forall>k p. jmap_get (fst acc) k = Some p \<longrightarrow> p \<in> hr_id ` A"
  shows "\<forall>k p. jmap_get (fst (fold (candidate_parent allSessions byId) ss acc)) k = Some p \<longrightarrow> p \<in> hr_id ` A"
  using assms(2)
proof (induction ss arbitrary: acc)
  case (Cons s ss)
  have "\<forall>k p. jmap_get (fst (candidate_parent allSessions byId s acc)) k = Some p \<longrightarrow> p \<in> hr_id ` A"
    using Cons.prems assms(1) by (auto simp: candidate_parent_def jm.get_put split: option.splits lineage.splits if_splits)
  then show ?case using Cons.IH by simp
qed simp

lemma candidate_parents_values:
  assumes "parent_of (fst (candidate_parents sessions)) c = Some p"
  shows "p \<in> hr_id ` set sessions"
proof -
  let ?byId = "fst (fold index_identity sessions ([], []))"
  have "\<forall>k s. jmap_get ?byId k = Some s \<longrightarrow> s \<in> set sessions" by (rule identity_sessions) auto
  then have "\<forall>k p. jmap_get (fst (candidate_parents sessions)) k = Some p \<longrightarrow> p \<in> hr_id ` set sessions"
    unfolding candidate_parents_def case_prod_beta Let_def by (rule candidate_values) simp
  then show ?thesis using assms by (auto simp: parent_of_def split: option.splits if_splits)
qed

lemma option_restrict: "(\<And>x. a = Some x \<longleftrightarrow> b = Some x \<and> \<not> C) \<Longrightarrow> a = (if C then None else b)"
  by (cases a; cases b) auto

lemma candidate_codes: "g \<in> set (snd (candidate_parents sessions)) \<Longrightarrow> hd_code g \<noteq> Cycle"
proof -
  have index: "\<forall>g \<in> set (snd acc). hd_code g \<noteq> Cycle \<Longrightarrow> \<forall>g \<in> set (snd (fold index_identity ss acc)). hd_code g \<noteq> Cycle" for ss acc
  proof (induction ss arbitrary: acc)
    case (Cons s ss)
    have "\<forall>g \<in> set (snd (index_identity s acc)). hd_code g \<noteq> Cycle" using Cons.prems by (auto simp: index_identity_def Let_def)
    then show ?case using Cons.IH by simp
  qed simp
  have parents: "\<forall>g \<in> set (snd acc). hd_code g \<noteq> Cycle \<Longrightarrow> \<forall>g \<in> set (snd (fold (candidate_parent al byId) ss acc)). hd_code g \<noteq> Cycle" for al byId ss acc
  proof (induction ss arbitrary: acc)
    case (Cons s ss)
    have "\<forall>g \<in> set (snd (candidate_parent al byId s acc)). hd_code g \<noteq> Cycle"
      using Cons.prems by (auto simp: candidate_parent_def missing_parent_code_def Let_def split: option.splits lineage.splits)
    then show ?case using Cons.IH by simp
  qed simp
  show "g \<in> set (snd (candidate_parents sessions)) \<Longrightarrow> hd_code g \<noteq> Cycle"
    using parents [of "([], snd (fold index_identity sessions ([], [])))"] index [of "([], [])" sessions]
    by (auto simp: candidate_parents_def case_prod_beta)
qed

text \<open>
  Claim C27.
  Cycles are broken and nothing else changes: a session keeps the parent its lineage resolves to exactly when following
  resolved parents from it does not lead back to it, and exactly the other sessions get a \<^verbatim>\<open>cycle\<close> diagnostic.
\<close>

theorem only_cycles_are_cut:
  assumes f: "deriveAiSessionForest le orderBy sessions = Some f" and d: "distinct (map hr_id sessions)" and n: "n < length sessions"
  shows "tn_parentSessionId (fo_nodes f ! n)
      = (if (hr_id (sessions ! n), hr_id (sessions ! n)) \<in> (up (fst (candidate_parents sessions)))\<^sup>+ then None
         else parent_of (fst (candidate_parents sessions)) (hr_id (sessions ! n)))
    \<and> ((\<exists>g. g \<in> set (fo_diagnostics f) \<and> hd_sessionId g = hr_id (sessions ! n) \<and> hd_code g = Cycle)
      \<longleftrightarrow> (hr_id (sessions ! n), hr_id (sessions ! n)) \<in> (up (fst (candidate_parents sessions)))\<^sup>+)"
proof -
  let ?i = "hr_id (sessions ! n)" and ?ps = "fst (candidate_parents sessions)"
  have agg: "aggregated sessions {..< length sessions} (fo_nodes f)"
    and diag: "fo_diagnostics f = snd (candidate_parents sessions)
         @ map (cycle_diagnostic sessions (nodes_by_id sessions)) (cycle_members (map hr_id sessions) ?ps)"
    using derive_facts [of le orderBy sessions] f by auto
  have "map_option (\<lambda>p. hr_id (sessions ! p)) (linked_parent (broken_parents sessions) sessions n) = parent_of (broken_parents sessions) ?i"
  proof (cases "parent_of (broken_parents sessions) ?i")
    case (Some p)
    then have "p \<in> hr_id ` set sessions" using candidate_parents_values by (auto simp: broken_parent_of)
    then obtain m where m: "m < length sessions" "hr_id (sessions ! m) = p" by (auto simp: in_set_conv_nth)
    then show ?thesis using Some nodes_by_id_self [OF d m(1)] by (simp add: linked_parent_def)
  qed (simp add: linked_parent_def)
  moreover have "parent_of (broken_parents sessions) ?i = (if (?i, ?i) \<in> (up ?ps)\<^sup>+ then None else parent_of ?ps ?i)"
    by (rule option_restrict) (rule broken_parent_of)
  ultimately have parent: "tn_parentSessionId (fo_nodes f ! n) = (if (?i, ?i) \<in> (up ?ps)\<^sup>+ then None else parent_of ?ps ?i)"
    using aggregated_nodes(4) [OF agg n] by simp
  have "(\<exists>g. g \<in> set (fo_diagnostics f) \<and> hd_sessionId g = ?i \<and> hd_code g = Cycle) \<longleftrightarrow> ?i \<in> set (cycle_members (map hr_id sessions) ?ps)"
    using candidate_codes [of _ sessions] unfolding diag by (auto simp: cycle_diagnostic_def)
  then have "(\<exists>g. g \<in> set (fo_diagnostics f) \<and> hd_sessionId g = ?i \<and> hd_code g = Cycle) \<longleftrightarrow> (?i, ?i) \<in> (up ?ps)\<^sup>+"
    using cycle_members_iff [OF candidate_parents_keys, of ?i] by (rule trans)
  with parent show ?thesis by (rule conjI)
qed

theorem only_cycles_are_cut_witness:
  "\<exists>f. deriveAiSessionForest (\<lambda>_ _. True) None sample_sessions = Some f
    \<and> tn_parentSessionId (fo_nodes f ! 1) = Some ''a'' \<and> tn_parentSessionId (fo_nodes f ! 2) = None
    \<and> (\<exists>g. g \<in> set (fo_diagnostics f) \<and> hd_sessionId g = ''c'' \<and> hd_code g = Cycle)
    \<and> \<not> (\<exists>g. g \<in> set (fo_diagnostics f) \<and> hd_sessionId g = ''b'' \<and> hd_code g = Cycle)"
proof -
  let ?ps = "[(''b'', ''a''), (''c'', ''d''), (''d'', ''c'')]"
  have ps: "fst (candidate_parents sample_sessions) = ?ps" by code_simp
  have ids: "distinct (map hr_id sample_sessions)" "1 < length sample_sessions" "2 < length sample_sessions"
      "hr_id (sample_sessions ! 1) = ''b''" "hr_id (sample_sessions ! 2) = ''c''"
    by (simp_all add: sample_sessions_def sample_session_def)
  have "(''c'', ''d'') \<in> up ?ps" "(''d'', ''c'') \<in> up ?ps"
    by (simp_all add: up_def parent_of_def jmap_get_def)
  then have c: "(''c'', ''c'') \<in> (up ?ps)\<^sup>+" by (meson r_into_trancl trancl_trans)
  have a: "(''a'', x) \<notin> up ?ps" and ab: "(''b'', x) \<in> up ?ps \<Longrightarrow> x = ''a''" for x
    by (auto simp: up_def parent_of_def jmap_get_def)
  have b: "(''b'', ''b'') \<notin> (up ?ps)\<^sup>+"
  proof
    assume "(''b'', ''b'') \<in> (up ?ps)\<^sup>+"
    then obtain w where "(''b'', w) \<in> up ?ps" "(w, ''b'') \<in> (up ?ps)\<^sup>*" by (rule tranclD [THEN exE]) (elim conjE)
    then have "(''a'', ''b'') \<in> (up ?ps)\<^sup>*" using ab by metis
    then show False by (rule converse_rtranclE) (simp_all add: a)
  qed
  have pb: "parent_of ?ps ''b'' = Some ''a''" by code_simp
  obtain f where f: "deriveAiSessionForest (\<lambda>_ _. True) None sample_sessions = Some f" using derive_facts by blast
  then show ?thesis
    using only_cycles_are_cut [OF f ids(1,2)] only_cycles_are_cut [OF f ids(1,3)] b c pb unfolding ids ps by auto
qed

section \<open>Retention\<close>

lemma concat_some_Some: "concat_some (map g xs) = Some ys \<longleftrightarrow> (\<forall>x \<in> set xs. g x \<noteq> None) \<and> ys = concat (map (\<lambda>x. the (g x)) xs)"
  by (induction xs arbitrary: ys) (auto simp: bind_eq_Some_conv)

lemma root_bound:
  assumes "deriveAiSessionForest le orderBy sessions = Some f" "r \<in> set (fo_roots f)"
  shows "r < length sessions"
proof -
  have "set (fo_roots f) = set (linked_roots sessions)" using derive_facts [of le orderBy sessions] assms(1) by (auto dest: mset_eq_setD)
  then show ?thesis using assms(2) by (simp add: linked_roots_def)
qed

lemma retention_of_final:
  assumes f: "deriveAiSessionForest le orderBy sessions = Some f" and d: "distinct (map hr_id sessions)"
    and tree: "aiSessionSubtreePostorder f (hr_id (sessions ! r)) = Some ps" "set ps = linked.below sessions r" and r: "r < length sessions"
  shows "\<exists>cs. retention_of_root f isIdle r = Some cs \<and> concat (map ca_sessionIds cs)
     = (if \<not> is_subagent (sessions ! r) \<and> (\<forall>n \<in> set ps. isIdle (sessions ! n)) then map (\<lambda>n. hr_id (sessions ! n)) ps else [])"
proof -
  have agg: "aggregated sessions {..< length sessions} (fo_nodes f)" using derive_facts [of le orderBy sessions] f by auto
  have "tn_session (fo_nodes f ! n) = sessions ! n" if "n \<in> set ps" for n
    using that aggregated_nodes [OF agg] linked_below [OF r] tree(2) by auto
  then show ?thesis using tree(1) r aggregated_nodes [OF agg] by (auto simp: retention_of_root_def Let_def)
qed

definition offered :: "(hierarchy_record \<Rightarrow> bool) \<Rightarrow> hierarchy_record list \<Rightarrow> nat \<Rightarrow> bool" where
  "offered isIdle sessions r \<longleftrightarrow> \<not> is_subagent (sessions ! r) \<and> (\<forall>n \<in> linked.below sessions r. isIdle (sessions ! n))"

lemma mset_concat_sort: "mset (concat (map g (js_sort le xs))) = mset (concat (map g xs))"
proof -
  have "mset (concat (map g ys)) = sum_mset (image_mset (\<lambda>y. mset (g y)) (mset ys))" for ys by (induction ys) auto
  then show ?thesis by simp
qed

lemma concat_filter: "concat (map (\<lambda>x. if P x then h x else []) xs) = concat (map h (filter P xs))"
  by (induction xs) auto

lemma concat_concat_map: "concat (map g (concat (map h xs))) = concat (map (\<lambda>x. concat (map g (h x))) xs)"
  by (induction xs) auto

lemma distinct_concat_filter: "distinct (concat (map h xs)) \<Longrightarrow> distinct (concat (map h (filter P xs)))"
  by (induction xs) auto

lemma retention_offers:
  assumes f: "deriveAiSessionForest le orderBy sessions = Some f" and d: "distinct (map hr_id sessions)"
  shows "\<exists>cs tree. aiSessionRetentionCandidates f isIdle = Some cs \<and> (\<forall>r \<in> set (fo_roots f). set (tree r) = linked.below sessions r)
    \<and> distinct (concat (map tree (fo_roots f)))
    \<and> mset (concat (map ca_sessionIds cs)) = mset (map (\<lambda>n. hr_id (sessions ! n)) (concat (map tree (filter (offered isIdle sessions) (fo_roots f)))))"
proof -
  let ?id = "\<lambda>n. hr_id (sessions ! n)" and ?off = "offered isIdle sessions"
  define tree where "tree r = the (aiSessionSubtreePostorder f (?id r))" for r
  define found where "found = (\<lambda>r. the (retention_of_root f isIdle r))"
  obtain pss where trees: "list_all2 (\<lambda>r ps. aiSessionSubtreePostorder f (?id r) = Some ps \<and> set ps = linked.below sessions r \<and> distinct ps) (fo_roots f) pss"
    and all: "mset (concat pss) = mset [0 ..< length sessions]"
    using trees_of_final [OF f d] by (elim exE conjE)
  have "pss = map tree (fo_roots f)"
    using trees by (auto simp: tree_def list_all2_conv_all_nth intro!: nth_equalityI)
  then have dist: "distinct (concat (map tree (fo_roots f)))" using mset_eq_imp_distinct_iff [OF all] by simp
  have tree: "aiSessionSubtreePostorder f (?id r) = Some (tree r)" "set (tree r) = linked.below sessions r" if r: "r \<in> set (fo_roots f)" for r
  proof -
    obtain ps where "aiSessionSubtreePostorder f (?id r) = Some ps" "set ps = linked.below sessions r"
      using subtree_of_final [OF f d root_bound [OF f r]] by (elim exE conjE)
    then show "aiSessionSubtreePostorder f (?id r) = Some (tree r)" "set (tree r) = linked.below sessions r"
      by (simp_all add: tree_def)
  qed
  have root: "retention_of_root f isIdle r \<noteq> None \<and> concat (map ca_sessionIds (found r)) = (if ?off r then map ?id (tree r) else [])"
    if r: "r \<in> set (fo_roots f)" for r
  proof -
    obtain cs where "retention_of_root f isIdle r = Some cs" "concat (map ca_sessionIds cs) = (if ?off r then map ?id (tree r) else [])"
      using retention_of_final [OF f d tree [OF r] root_bound [OF f r], of isIdle] unfolding tree(2) [OF r] offered_def by (elim exE conjE)
    then show ?thesis by (simp only: found_def option.sel) simp
  qed
  have "concat (map ca_sessionIds (concat (map found (fo_roots f)))) = concat (map (\<lambda>r. concat (map ca_sessionIds (found r))) (fo_roots f))"
    by (rule concat_concat_map)
  also have "\<dots> = concat (map (\<lambda>r. if ?off r then map ?id (tree r) else []) (fo_roots f))"
    using root by (intro arg_cong [where f = concat] map_cong refl) blast
  also have "\<dots> = map ?id (concat (map tree (filter ?off (fo_roots f))))"
    by (simp add: concat_filter map_concat comp_def)
  finally have "concat (map ca_sessionIds (concat (map found (fo_roots f)))) = map ?id (concat (map tree (filter ?off (fo_roots f))))" .
  moreover have "concat_some (map (retention_of_root f isIdle) (fo_roots f)) = Some (concat (map found (fo_roots f)))"
    using root by (simp add: concat_some_Some found_def)
  ultimately show ?thesis
    using dist tree(2) unfolding aiSessionRetentionCandidates_def
    by (intro exI [of _ tree] exI conjI) (auto simp: mset_concat_sort)
qed

text \<open>
  
  Retention offers whole idle conversations and nothing else: a session is offered for removal exactly when the root of
  its tree is not a sub-agent and every session of the tree is idle, and no session is offered twice.
\<close>

theorem retention_takes_idle_trees:
  assumes f: "deriveAiSessionForest le orderBy sessions = Some f" and d: "distinct (map hr_id sessions)"
  shows "\<exists>cs. aiSessionRetentionCandidates f isIdle = Some cs \<and> distinct (concat (map ca_sessionIds cs))
    \<and> (\<forall>n < length sessions. hr_id (sessions ! n) \<in> set (concat (map ca_sessionIds cs)) \<longleftrightarrow>
         (\<exists>r. aiSessionRootNode f (hr_id (sessions ! n)) = Some (Some r) \<and> \<not> is_subagent (sessions ! r)
            \<and> (\<forall>m < length sessions. aiSessionRootNode f (hr_id (sessions ! m)) = Some (Some r) \<longrightarrow> isIdle (sessions ! m))))"
proof -
  let ?id = "\<lambda>n. hr_id (sessions ! n)" and ?off = "offered isIdle sessions"
  obtain cs tree where cs: "aiSessionRetentionCandidates f isIdle = Some cs"
    and tree: "\<And>r. r \<in> set (fo_roots f) \<Longrightarrow> set (tree r) = linked.below sessions r" and dist: "distinct (concat (map tree (fo_roots f)))"
    and ids: "mset (concat (map ca_sessionIds cs)) = mset (map ?id (concat (map tree (filter ?off (fo_roots f)))))"
    using retention_offers [OF f d, of isIdle] by (elim exE conjE) blast
  let ?ns = "concat (map tree (filter ?off (fo_roots f)))"
  have bound: "linked.below sessions r \<subseteq> {..< length sessions}" if "r \<in> set (fo_roots f)" for r
    using that linked_below [of r sessions] root_bound [OF f] by blast
  have inj: "inj_on ?id {..< length sessions}" using d by (auto simp: inj_on_def distinct_conv_nth)
  have sub: "set ?ns \<subseteq> {..< length sessions}" using tree bound by auto
  have "distinct ?ns" using dist by (rule distinct_concat_filter)
  then have "distinct (map ?id ?ns)" using inj_on_subset [OF inj sub] by (simp only: distinct_map)
  then have "distinct (concat (map ca_sessionIds cs))" using mset_eq_imp_distinct_iff [OF ids] by simp
  moreover have "?id n \<in> set (concat (map ca_sessionIds cs)) \<longleftrightarrow> (\<exists>r. aiSessionRootNode f (?id n) = Some (Some r) \<and> \<not> is_subagent (sessions ! r)
            \<and> (\<forall>m < length sessions. aiSessionRootNode f (?id m) = Some (Some r) \<longrightarrow> isIdle (sessions ! m)))" if n: "n < length sessions" for n
  proof -
    have "?id n \<in> set (concat (map ca_sessionIds cs)) \<longleftrightarrow> ?id n \<in> ?id ` set ?ns" using mset_eq_setD [OF ids] by simp
    also have "\<dots> \<longleftrightarrow> n \<in> set ?ns" using inj_on_image_mem_iff [OF inj, of n] n sub by simp
    also have "\<dots> \<longleftrightarrow> (\<exists>r \<in> set (fo_roots f). n \<in> linked.below sessions r \<and> ?off r)" using tree by auto
    also have "\<dots> \<longleftrightarrow> (\<exists>r. aiSessionRootNode f (?id n) = Some (Some r) \<and> \<not> is_subagent (sessions ! r)
            \<and> (\<forall>m < length sessions. aiSessionRootNode f (?id m) = Some (Some r) \<longrightarrow> isIdle (sessions ! m)))"
      using bound unfolding offered_def by (auto simp: root_of_final [OF f d] n)
    finally show ?thesis .
  qed
  ultimately show ?thesis using cs by blast
qed

text \<open>The parent and child are idle; the sessions of the broken cycle and the orphan are sub-agents.\<close>

theorem retention_takes_idle_trees_witness:
  "\<exists>f cs. deriveAiSessionForest (\<lambda>_ _. True) None sample_sessions = Some f
    \<and> aiSessionRetentionCandidates f (\<lambda>_. True) = Some cs \<and> distinct (concat (map ca_sessionIds cs))
    \<and> (\<forall>n < length sample_sessions. hr_id (sample_sessions ! n) \<in> set (concat (map ca_sessionIds cs)) \<longleftrightarrow>
         (\<exists>r. aiSessionRootNode f (hr_id (sample_sessions ! n)) = Some (Some r) \<and> \<not> is_subagent (sample_sessions ! r)))"
proof -
  obtain f where f: "deriveAiSessionForest (\<lambda>_ _. True) None sample_sessions = Some f" using derive_facts by blast
  have "distinct (map hr_id sample_sessions)" by (simp add: sample_sessions_def sample_session_def)
  from retention_takes_idle_trees [OF f this, of "\<lambda>_. True"] show ?thesis using f by auto
qed

end
