(* ===== verification/Orchestration_Graph.thy ===== *)
theory Orchestration_Graph
  imports Js_Json
begin

text \<open>
  The graph of an agent orchestration (\<^verbatim>\<open>packages/protocol/src/agent-orchestrations.ts\<close>): its entry nodes,
  its normal form, and the depth first search that both the service and the clients use to refuse a
  cycle. The search is recursive over mutable maps; the model passes their state along and bounds the
  depth of the recursion by fuel, where \<^term>\<open>None\<close> is a recursion that did not come back. The bound that
  \<open>findAgentOrchestrationCycle\<close> starts with is the number of nodes and edges, and it is always enough.
\<close>

section \<open>The graph\<close>

record edge =
  ed_fromAgentId :: string
  ed_toAgentId :: string

record orch_graph =
  og_agentIds :: "string list"
  og_edges :: "edge list"

definition agentOrchestrationEntryAgentIds :: "orch_graph \<Rightarrow> string list" where
  "agentOrchestrationEntryAgentIds g =
     (let called = map ed_toAgentId (og_edges g) in filter (\<lambda>agentId. agentId \<notin> set called) (og_agentIds g))"

definition agentOrchestrationContainsAgent :: "orch_graph \<Rightarrow> string \<Rightarrow> bool" where
  "agentOrchestrationContainsAgent g agentId = (agentId \<in> set (og_agentIds g))"

definition agentOrchestrationHasEdge :: "orch_graph \<Rightarrow> string \<Rightarrow> string \<Rightarrow> bool" where
  "agentOrchestrationHasEdge g fromAgentId toAgentId =
     list_ex (\<lambda>edge. ed_fromAgentId edge = fromAgentId \<and> ed_toAgentId edge = toAgentId) (og_edges g)"

definition edge_key :: "edge \<Rightarrow> string" where
  "edge_key e = ed_fromAgentId e @ [CHR 0x1F] @ ed_toAgentId e"

text \<open>The order of edges; \<open>le\<close> is \<^verbatim>\<open>localeCompare\<close>, the ids themselves are sorted by code units.\<close>

definition edge_le :: "(string \<Rightarrow> string \<Rightarrow> bool) \<Rightarrow> edge \<Rightarrow> edge \<Rightarrow> bool" where
  "edge_le le a b = (if ed_fromAgentId a = ed_fromAgentId b then le (ed_toAgentId a) (ed_toAgentId b)
     else le (ed_fromAgentId a) (ed_fromAgentId b))"

definition normalizeAgentOrchestrationGraph :: "(string \<Rightarrow> string \<Rightarrow> bool) \<Rightarrow> orch_graph \<Rightarrow> orch_graph" where
  "normalizeAgentOrchestrationGraph le g =
     \<lparr>og_agentIds = js_sort (\<le>) (js_uniq (og_agentIds g)),
      og_edges = js_sort (edge_le le) (jmap_values (foldl (\<lambda>m e. jmap_set (edge_key e) e m) [] (og_edges g)))\<rparr>"

section \<open>The search for a cycle\<close>

datatype mark = Visiting | Visited

record search =
  sr_state :: "(string, mark) jmap"
  sr_path :: "string list"

definition adjacency :: "orch_graph \<Rightarrow> (string, string list) jmap" where
  "adjacency g =
     foldl (\<lambda>m e. case jmap_get m (ed_fromAgentId e) of
         Some xs \<Rightarrow> jmap_set (ed_fromAgentId e) (xs @ [ed_toAgentId e]) m | None \<Rightarrow> m)
       (foldl (\<lambda>m a. jmap_set a [] m) [] (og_agentIds g)) (og_edges g)"

definition successors :: "(string, string list) jmap \<Rightarrow> string \<Rightarrow> string list" where
  "successors adj a = (case jmap_get adj a of Some xs \<Rightarrow> xs | None \<Rightarrow> [])"

text \<open>\<^verbatim>\<open>path.slice(path.indexOf(next))\<close>; an index of -1 would be the last element.\<close>

definition slice_from :: "string \<Rightarrow> string list \<Rightarrow> string list" where
  "slice_from x path = (case find_index (\<lambda>y. y = x) path of Some i \<Rightarrow> drop i path | None \<Rightarrow> last_n 1 path)"

function walk :: "(string, string list) jmap \<Rightarrow> nat \<Rightarrow> string \<Rightarrow> search \<Rightarrow> (string list option \<times> search) option"
  and walk_each :: "(string, string list) jmap \<Rightarrow> nat \<Rightarrow> string list \<Rightarrow> search \<Rightarrow> (string list option \<times> search) option" where
  "walk adj 0 agentId s = None"
| "walk adj (Suc n) agentId s =
     (case walk_each adj n (successors adj agentId) (s\<lparr>sr_state := jmap_set agentId Visiting (sr_state s), sr_path := sr_path s @ [agentId]\<rparr>) of
        None \<Rightarrow> None
      | Some (Some cycle, s') \<Rightarrow> Some (Some cycle, s')
      | Some (None, s') \<Rightarrow> Some (None, s'\<lparr>sr_path := butlast (sr_path s'), sr_state := jmap_set agentId Visited (sr_state s')\<rparr>))"
| "walk_each adj n [] s = Some (None, s)"
| "walk_each adj n (x # xs) s =
     (if jmap_get (sr_state s) x = Some Visiting then Some (Some (slice_from x (sr_path s) @ [x]), s)
      else if jmap_get (sr_state s) x = Some Visited then walk_each adj n xs s
      else case walk adj n x s of
          None \<Rightarrow> None
        | Some (Some cycle, s') \<Rightarrow> Some (Some cycle, s')
        | Some (None, s') \<Rightarrow> walk_each adj n xs s')"
  by pat_completeness auto
termination
  by (relation "measures [\<lambda>x. case x of Inl (_, n, _) \<Rightarrow> n | Inr (_, n, _) \<Rightarrow> n,
      \<lambda>x. case x of Inl _ \<Rightarrow> 0 | Inr (_, _, xs, _) \<Rightarrow> Suc (length xs)]") auto

text \<open>The loop over all nodes; \<^verbatim>\<open>path.length = 0\<close> after each.\<close>

fun walk_all :: "(string, string list) jmap \<Rightarrow> nat \<Rightarrow> string list \<Rightarrow> search \<Rightarrow> string list option option" where
  "walk_all adj n [] s = Some None"
| "walk_all adj n (a # rest) s =
     (if jmap_has (sr_state s) a then walk_all adj n rest s
      else case walk adj n a s of
          None \<Rightarrow> None
        | Some (Some cycle, s') \<Rightarrow> Some (Some cycle)
        | Some (None, s') \<Rightarrow> walk_all adj n rest (s'\<lparr>sr_path := []\<rparr>))"

definition findAgentOrchestrationCycle :: "orch_graph \<Rightarrow> string list option option" where
  "findAgentOrchestrationCycle g =
     walk_all (adjacency g) (length (og_agentIds g) + length (og_edges g)) (og_agentIds g) \<lparr>sr_state = [], sr_path = []\<rparr>"

section \<open>The search is a depth first search\<close>

text \<open>
  A state of the search: the nodes on the path are the ones being visited, in the order of a walk
  through the graph, and what has been visited is closed under the edges and free of cycles.
\<close>

definition arcs :: "(string, string list) jmap \<Rightarrow> (string \<times> string) set" where
  "arcs adj = {(a, b). b \<in> set (successors adj a)}"

fun is_walk :: "(string \<times> string) set \<Rightarrow> string list \<Rightarrow> bool" where
  "is_walk R (a # b # xs) \<longleftrightarrow> (a, b) \<in> R \<and> is_walk R (b # xs)"
| "is_walk R _ \<longleftrightarrow> True"

definition visited :: "search \<Rightarrow> string set" where
  "visited s = {a. jmap_get (sr_state s) a = Some Visited}"

definition search_ok :: "(string \<times> string) set \<Rightarrow> search \<Rightarrow> bool" where
  "search_ok R s \<longleftrightarrow> jmap_ok (sr_state s) \<and> distinct (sr_path s)
     \<and> (\<forall>a. jmap_get (sr_state s) a = Some Visiting \<longleftrightarrow> a \<in> set (sr_path s))
     \<and> is_walk R (sr_path s) \<and> R `` visited s \<subseteq> visited s \<and> acyclic (R \<inter> visited s \<times> UNIV)"

definition closed_walk :: "(string \<times> string) set \<Rightarrow> string list \<Rightarrow> bool" where
  "closed_walk R c \<longleftrightarrow> 2 \<le> length c \<and> hd c = last c \<and> is_walk R c"

lemma is_walk_append: "is_walk R (xs @ [y]) \<longleftrightarrow> is_walk R xs \<and> (xs = [] \<or> (last xs, y) \<in> R)"
  by (induction xs rule: is_walk.induct) auto

lemma is_walk_drop: "is_walk R xs \<Longrightarrow> is_walk R (drop n xs)"
proof (induction n arbitrary: xs)
  case (Suc n)
  then show ?case by (cases "(R, xs)" rule: is_walk.cases) auto
qed simp

lemma slice_walk:
  assumes "is_walk R p" and "(last p, x) \<in> R" and "x \<in> set p"
  shows "closed_walk R (slice_from x p @ [x])"
proof -
  obtain i where i: "find_index (\<lambda>y. y = x) p = Some i" using assms(3) by (cases "find_index (\<lambda>y. y = x) p") auto
  then have lt: "i < length p" and "p ! i = x" by (auto dest: find_index_Some)
  then have "hd (drop i p) = x" "drop i p \<noteq> []" "last (drop i p) = last p" by (auto simp: hd_drop_conv_nth)
  moreover from this have "is_walk R (drop i p @ [x])" using assms(2) is_walk_drop[OF assms(1), of i] by (simp add: is_walk_append)
  ultimately show ?thesis
    using i by (simp add: closed_walk_def slice_from_def hd_append)
qed

lemma acyclic_insert:
  assumes "acyclic (R \<inter> V \<times> UNIV)" and "R `` V \<subseteq> V" and "R `` {a} \<subseteq> V" and "a \<notin> V"
  shows "acyclic (R \<inter> insert a V \<times> UNIV)"
proof -
  let ?S = "R \<inter> V \<times> UNIV" and ?T = "R \<inter> insert a V \<times> UNIV"
  have stay: "(x, y) \<in> ?T\<^sup>+ \<Longrightarrow> x \<in> V \<Longrightarrow> (x, y) \<in> ?S\<^sup>+ \<and> y \<in> V" for x y
  proof (induction rule: trancl_induct)
    case (base y)
    then show ?case using assms(2) by auto
  next
    case (step y z)
    then have "(y, z) \<in> ?S" using assms(4) by auto
    then show ?case using step assms(2) by (meson ImageI IntD1 subsetD trancl.trancl_into_trancl)
  qed
  have into: "y \<in> V" if "(x, y) \<in> ?T\<^sup>+" "x \<in> insert a V" for x y
    using that
  proof (induction rule: trancl_induct)
    case (step y z)
    then show ?case using assms(2) by auto
  qed (use assms in auto)
  show ?thesis
  proof (rule acyclicI, intro allI notI)
    fix x
    assume c: "(x, x) \<in> ?T\<^sup>+"
    then have "x \<in> insert a V" by (meson IntD2 SigmaD1 tranclD)
    then have "x \<in> V" using into[OF c] by blast
    then show False using stay[OF c] assms(1) by (auto simp: acyclic_def)
  qed
qed

definition free :: "string set \<Rightarrow> search \<Rightarrow> nat" where
  "free U s = card {a \<in> U. jmap_get (sr_state s) a = None}"

lemma free_le: "finite U \<Longrightarrow> (\<And>a. jmap_get (sr_state s) a \<noteq> None \<Longrightarrow> jmap_get (sr_state s') a \<noteq> None) \<Longrightarrow> free U s' \<le> free U s"
  unfolding free_def by (rule card_mono) (simp, blast)

lemma free_mark:
  assumes "finite U" and "a \<in> U" and "jmap_get (sr_state s) a = None"
  shows "Suc (free U (s\<lparr>sr_state := jmap_set a m (sr_state s), sr_path := p\<rparr>)) = free U s"
proof -
  have "{x \<in> U. jmap_get (sr_state s) x = None} = insert a {x \<in> U. jmap_get (jmap_set a m (sr_state s)) x = None}"
    using assms by (auto simp: jm.get_put split: if_splits)
  then show ?thesis using assms(1) by (simp add: free_def jm.get_put)
qed

text \<open>What a call leaves behind when it found no cycle.\<close>

definition advanced :: "(string \<times> string) set \<Rightarrow> search \<Rightarrow> search \<Rightarrow> bool" where
  "advanced R s s' \<longleftrightarrow> search_ok R s' \<and> sr_path s' = sr_path s \<and> visited s \<subseteq> visited s'
     \<and> (\<forall>a. jmap_get (sr_state s) a \<noteq> None \<longrightarrow> jmap_get (sr_state s') a \<noteq> None)"

lemma advanced_refl: "search_ok R s \<Longrightarrow> advanced R s s"
  by (simp add: advanced_def)

lemma advanced_trans: "advanced R a b \<Longrightarrow> advanced R b c \<Longrightarrow> advanced R a c"
  by (auto simp: advanced_def)

lemma enter:
  assumes "search_ok R s" and "jmap_get (sr_state s) a = None" and "sr_path s = [] \<or> (last (sr_path s), a) \<in> R"
  defines "s1 \<equiv> s\<lparr>sr_state := jmap_set a Visiting (sr_state s), sr_path := sr_path s @ [a]\<rparr>"
  shows "search_ok R s1" and "visited s1 = visited s"
proof -
  show v: "visited s1 = visited s" using assms(2) by (auto simp: visited_def s1_def jm.get_put split: if_splits)
  have "a \<notin> set (sr_path s)" using assms(1,2) unfolding search_ok_def by (metis option.distinct(1))
  then show "search_ok R s1"
    using assms unfolding search_ok_def v by (auto simp: s1_def jm.ok_put jm.get_put is_walk_append)
qed

lemma leave:
  assumes "search_ok R s" and "sr_path s = p @ [a]" and "R `` {a} \<subseteq> visited s"
  defines "s2 \<equiv> s\<lparr>sr_path := butlast (sr_path s), sr_state := jmap_set a Visited (sr_state s)\<rparr>"
  shows "search_ok R s2" and "visited s2 = insert a (visited s)" and "sr_path s2 = p"
proof -
  show v: "visited s2 = insert a (visited s)" by (auto simp: visited_def s2_def jm.get_put)
  show "sr_path s2 = p" by (simp add: s2_def assms(2))
  have "jmap_get (sr_state s) a = Some Visiting" using assms(1,2) by (simp add: search_ok_def)
  then have "a \<notin> visited s" by (simp add: visited_def)
  then have "acyclic (R \<inter> insert a (visited s) \<times> UNIV)"
    using assms(1,3) by (intro acyclic_insert) (auto simp: search_ok_def)
  moreover have "(\<forall>x. jmap_get (sr_state s2) x = Some Visiting \<longleftrightarrow> x \<in> set p)"
    using assms(1,2) by (auto simp: search_ok_def s2_def jm.get_put)
  moreover have "is_walk R p" using assms(1,2) by (simp add: search_ok_def is_walk_append)
  ultimately show "search_ok R s2"
    using assms(1,2,3) unfolding search_ok_def v by (auto simp: s2_def jm.ok_put)
qed

definition walk_finds :: "(string, string list) jmap \<Rightarrow> string set \<Rightarrow> nat \<Rightarrow> bool" where
  "walk_finds adj U n \<longleftrightarrow> (\<forall>a s. search_ok (arcs adj) s \<and> a \<in> U \<and> jmap_get (sr_state s) a = None
       \<and> (sr_path s = [] \<or> (last (sr_path s), a) \<in> arcs adj) \<and> free U s \<le> n \<longrightarrow>
     (\<exists>r s'. walk adj n a s = Some (r, s')
       \<and> (case r of Some c \<Rightarrow> closed_walk (arcs adj) c | None \<Rightarrow> advanced (arcs adj) s s' \<and> a \<in> visited s')))"

lemma walk_each_finds:
  assumes U: "finite U" "\<And>a. set (successors adj a) \<subseteq> U" and W: "walk_finds adj U n"
    and "search_ok (arcs adj) s" and "sr_path s \<noteq> []" and "set xs \<subseteq> set (successors adj (last (sr_path s)))" and "free U s \<le> n"
  shows "\<exists>r s'. walk_each adj n xs s = Some (r, s')
    \<and> (case r of Some c \<Rightarrow> closed_walk (arcs adj) c | None \<Rightarrow> advanced (arcs adj) s s' \<and> set xs \<subseteq> visited s')"
  using assms(4-)
proof (induction xs arbitrary: s)
  case Nil
  then show ?case by (simp add: advanced_refl)
next
  case (Cons x xs)
  have arc: "(last (sr_path s), x) \<in> arcs adj" and "x \<in> U" using Cons.prems U(2) by (auto simp: arcs_def)
  consider (visiting) "jmap_get (sr_state s) x = Some Visiting" | (visited) "jmap_get (sr_state s) x = Some Visited"
    | (new) "jmap_get (sr_state s) x = None"
    by (metis mark.exhaust option.exhaust)
  then show ?case
  proof cases
    case visiting
    then have "x \<in> set (sr_path s)" using Cons.prems(1) by (simp add: search_ok_def)
    then have "closed_walk (arcs adj) (slice_from x (sr_path s) @ [x])"
      using Cons.prems(1) arc by (intro slice_walk) (simp_all add: search_ok_def)
    then show ?thesis using visiting by simp
  next
    case visited
    then have "x \<in> Orchestration_Graph.visited s" by (simp add: visited_def)
    with visited Cons.IH[OF Cons.prems(1,2)] Cons.prems show ?thesis
      by (fastforce simp: advanced_def split: option.splits)
  next
    case new
    with W Cons.prems arc \<open>x \<in> U\<close> obtain r s1 where w: "walk adj n x s = Some (r, s1)"
      and r: "case r of Some c \<Rightarrow> closed_walk (arcs adj) c | None \<Rightarrow> advanced (arcs adj) s s1 \<and> x \<in> visited s1"
      unfolding walk_finds_def by blast
    show ?thesis
    proof (cases r)
      case None
      with r have a: "advanced (arcs adj) s s1" "x \<in> visited s1" by simp_all
      then have "free U s1 \<le> n" using free_le[OF U(1), of s s1] Cons.prems(4) by (simp add: advanced_def)
      with a Cons.IH[of s1] Cons.prems obtain r2 s2 where "walk_each adj n xs s1 = Some (r2, s2)"
        "case r2 of Some c \<Rightarrow> closed_walk (arcs adj) c | None \<Rightarrow> advanced (arcs adj) s1 s2 \<and> set xs \<subseteq> visited s2"
        by (auto simp: advanced_def)
      then show ?thesis using new w None a advanced_trans[of _ s s1 s2] by (auto simp: advanced_def split: option.splits)
    qed (use new w r in simp)
  qed
qed

lemma walk_finds_all:
  assumes U: "finite U" "\<And>a. set (successors adj a) \<subseteq> U"
  shows "walk_finds adj U n"
proof (induction n)
  case 0
  have "free U s \<noteq> 0" if "a \<in> U" "jmap_get (sr_state s) a = None" for a s
    using that U(1) by (auto simp: free_def)
  then show ?case unfolding walk_finds_def by (metis le_zero_eq)
next
  case (Suc n)
  show ?case
    unfolding walk_finds_def
  proof (intro allI impI, elim conjE)
    fix a and s :: search
    assume s: "search_ok (arcs adj) s" "a \<in> U" "jmap_get (sr_state s) a = None"
      "sr_path s = [] \<or> (last (sr_path s), a) \<in> arcs adj" "free U s \<le> Suc n"
    define s1 where "s1 = s\<lparr>sr_state := jmap_set a Visiting (sr_state s), sr_path := sr_path s @ [a]\<rparr>"
    have s1: "search_ok (arcs adj) s1" "visited s1 = visited s" "sr_path s1 = sr_path s @ [a]"
      using enter[OF s(1,3,4)] by (simp_all add: s1_def)
    have "free U s1 \<le> n" using free_mark[OF U(1) s(2,3), where m = Visiting and p = "sr_path s @ [a]"] s(5) by (simp add: s1_def)
    then obtain r s2 where w: "walk_each adj n (successors adj a) s1 = Some (r, s2)"
      and r: "case r of Some c \<Rightarrow> closed_walk (arcs adj) c
        | None \<Rightarrow> advanced (arcs adj) s1 s2 \<and> set (successors adj a) \<subseteq> visited s2"
      using walk_each_finds[OF U Suc.IH s1(1), of "successors adj a"] s1(3) by auto
    show "\<exists>r s'. walk adj (Suc n) a s = Some (r, s')
      \<and> (case r of Some c \<Rightarrow> closed_walk (arcs adj) c | None \<Rightarrow> advanced (arcs adj) s s' \<and> a \<in> visited s')"
    proof (cases r)
      case None
      with r have a: "advanced (arcs adj) s1 s2" "set (successors adj a) \<subseteq> visited s2" by simp_all
      let ?s3 = "s2\<lparr>sr_path := butlast (sr_path s2), sr_state := jmap_set a Visited (sr_state s2)\<rparr>"
      have l: "search_ok (arcs adj) ?s3" "visited ?s3 = insert a (visited s2)" "sr_path ?s3 = sr_path s"
        using a s1(3) leave[of "arcs adj" s2 "sr_path s" a] by (auto simp: advanced_def arcs_def)
      have "jmap_get (sr_state ?s3) x \<noteq> None" if "jmap_get (sr_state s) x \<noteq> None" for x
        using that a(1) by (auto simp: advanced_def s1_def jm.get_put split: if_splits)
      then have "advanced (arcs adj) s ?s3" using a(1) s1(2) l by (auto simp: advanced_def)
      then show ?thesis using w None l(2) by (simp add: s1_def[symmetric])
    qed (use w r in \<open>simp add: s1_def[symmetric]\<close>)
  qed
qed

lemma walk_all_finds:
  assumes U: "finite U" "\<And>a. set (successors adj a) \<subseteq> U"
    and "search_ok (arcs adj) s" and "sr_path s = []" and "set as \<subseteq> U" and "free U s \<le> n"
  shows "\<exists>r. walk_all adj n as s = Some r
    \<and> (case r of Some c \<Rightarrow> closed_walk (arcs adj) c
       | None \<Rightarrow> \<exists>V. set as \<union> visited s \<subseteq> V \<and> acyclic (arcs adj \<inter> V \<times> UNIV))"
  using assms(3-)
proof (induction "as" arbitrary: s)
  case Nil
  then show ?case by (auto simp: search_ok_def)
next
  case (Cons a as)
  show ?case
  proof (cases "jmap_get (sr_state s) a")
    case None
    then obtain r s1 where w: "walk adj n a s = Some (r, s1)"
      and r: "case r of Some c \<Rightarrow> closed_walk (arcs adj) c | None \<Rightarrow> advanced (arcs adj) s s1 \<and> a \<in> visited s1"
      using walk_finds_all[OF U, of n] Cons.prems unfolding walk_finds_def by (metis insert_subset list.set(2))
    show ?thesis
    proof (cases r)
      case None
      with r have a: "advanced (arcs adj) s s1" "a \<in> visited s1" by simp_all
      then have s1: "s1\<lparr>sr_path := []\<rparr> = s1" "search_ok (arcs adj) s1" "sr_path s1 = []" using Cons.prems(2) by (simp_all add: advanced_def)
      have "free U s1 \<le> n" using free_le[OF U(1), of s s1] a Cons.prems(4) by (simp add: advanced_def)
      with Cons.IH[OF s1(2,3)] Cons.prems(3) obtain r2 where r2: "walk_all adj n as s1 = Some r2"
        "case r2 of Some c \<Rightarrow> closed_walk (arcs adj) c
          | None \<Rightarrow> \<exists>V. set as \<union> visited s1 \<subseteq> V \<and> acyclic (arcs adj \<inter> V \<times> UNIV)" by auto
      have "walk_all adj n (a # as) s = Some r2"
        using w None \<open>jmap_get (sr_state s) a = None\<close> r2(1) s1(1) by (simp add: jmap_has_def)
      then show ?thesis using r2(2) a by (cases r2) (auto simp: advanced_def)
    next
      case (Some c)
      then show ?thesis using w r \<open>jmap_get (sr_state s) a = None\<close> by (simp add: jmap_has_def)
    qed
  next
    case (Some m)
    then have "m = Visited" using Cons.prems(1,2) by (cases m) (auto simp: search_ok_def)
    then have "a \<in> visited s" using Some by (simp add: visited_def)
    moreover have "walk_all adj n (a # as) s = walk_all adj n as s" using Some by (simp add: jmap_has_def)
    moreover obtain r where r: "walk_all adj n as s = Some r" "case r of Some c \<Rightarrow> closed_walk (arcs adj) c
        | None \<Rightarrow> \<exists>V. set as \<union> visited s \<subseteq> V \<and> acyclic (arcs adj \<inter> V \<times> UNIV)"
      using Cons.IH[of s] Cons.prems by auto
    ultimately show ?thesis by (cases r) auto
  qed
qed

section \<open>What the search answers\<close>

definition graph_arcs :: "orch_graph \<Rightarrow> (string \<times> string) set" where
  "graph_arcs g = {(a, b). a \<in> set (og_agentIds g) \<and> agentOrchestrationHasEdge g a b}"

lemma adjacency_get:
  "jmap_get (adjacency g) a = (if a \<in> set (og_agentIds g)
     then Some (map ed_toAgentId (filter (\<lambda>e. ed_fromAgentId e = a) (og_edges g))) else None)"
proof -
  have nodes: "jmap_get (foldl (\<lambda>m a. jmap_set a [] m) m xs) a = (if a \<in> set xs then Some [] else jmap_get m a)"
    for m :: "(string, string list) jmap" and xs
    by (induction xs arbitrary: m) (auto simp: jm.get_put)
  have edges: "jmap_get (foldl (\<lambda>m e. case jmap_get m (ed_fromAgentId e) of
         Some xs \<Rightarrow> jmap_set (ed_fromAgentId e) (xs @ [ed_toAgentId e]) m | None \<Rightarrow> m) m es) a
      = map_option (\<lambda>xs. xs @ map ed_toAgentId (filter (\<lambda>e. ed_fromAgentId e = a) es)) (jmap_get m a)" for m es
    by (induction es arbitrary: m) (auto simp: jm.get_put option.map_comp o_def option.map_ident split: option.split)
  show ?thesis by (simp add: adjacency_def nodes edges jmap_get_def[of "[]"])
qed

lemma arcs_adjacency: "arcs (adjacency g) = graph_arcs g"
  by (auto simp: arcs_def graph_arcs_def successors_def adjacency_get agentOrchestrationHasEdge_def list_ex_iff split: if_splits)

lemma closed_walk_cycle: "closed_walk R c \<Longrightarrow> \<not> acyclic R"
proof -
  assume c: "closed_walk R c"
  have "is_walk R xs \<Longrightarrow> 2 \<le> length xs \<Longrightarrow> (hd xs, last xs) \<in> R\<^sup>+" for xs
  proof (induction R xs rule: is_walk.induct)
    case (1 R a b xs)
    then show ?case by (cases xs) (auto intro: trancl_into_trancl2)
  qed auto
  from this[of c] c have "(hd c, hd c) \<in> R\<^sup>+" by (simp add: closed_walk_def)
  then show ?thesis by (auto simp: acyclic_def)
qed

lemma search_decides:
  "\<exists>r. findAgentOrchestrationCycle g = Some r \<and> (r = None \<longleftrightarrow> acyclic (graph_arcs g))
     \<and> (case r of None \<Rightarrow> True | Some c \<Rightarrow> closed_walk (graph_arcs g) c)"
proof -
  define U where "U = set (og_agentIds g) \<union> ed_toAgentId ` set (og_edges g)"
  let ?s = "\<lparr>sr_state = [], sr_path = []\<rparr> :: search"
  have U: "finite U" "\<And>a. set (successors (adjacency g) a) \<subseteq> U"
    by (auto simp: U_def successors_def adjacency_get)
  have "free U ?s = card U" by (simp add: free_def jmap_get_def)
  also have "\<dots> \<le> card (set (og_agentIds g)) + card (ed_toAgentId ` set (og_edges g))" unfolding U_def by (rule card_Un_le)
  also have "\<dots> \<le> length (og_agentIds g) + length (og_edges g)"
    using card_length[of "og_agentIds g"] card_length[of "map ed_toAgentId (og_edges g)"] by simp
  finally have fuel: "free U ?s \<le> length (og_agentIds g) + length (og_edges g)" .
  have "search_ok (arcs (adjacency g)) ?s" by (auto simp: search_ok_def visited_def jmap_get_def acyclic_def)
  from walk_all_finds[OF U this _ _ fuel, of "og_agentIds g"] obtain r where
    r: "findAgentOrchestrationCycle g = Some r" "case r of Some c \<Rightarrow> closed_walk (graph_arcs g) c
       | None \<Rightarrow> \<exists>V. set (og_agentIds g) \<union> visited ?s \<subseteq> V \<and> acyclic (graph_arcs g \<inter> V \<times> UNIV)"
    unfolding findAgentOrchestrationCycle_def arcs_adjacency by (auto simp: U_def)
  have "acyclic (graph_arcs g)" if "r = None"
  proof -
    from that r(2) obtain V where V: "set (og_agentIds g) \<subseteq> V" "acyclic (graph_arcs g \<inter> V \<times> UNIV)" by auto
    have "graph_arcs g \<inter> V \<times> UNIV = graph_arcs g" using V(1) by (auto simp: graph_arcs_def)
    with V(2) show ?thesis by simp
  qed
  then show ?thesis using r closed_walk_cycle[of "graph_arcs g"] by (cases r) auto
qed

text \<open>
  Claim C19. The search for a cycle always comes back, whatever edges the graph has: it answers that there is
  none exactly when the graph is acyclic, and otherwise with a walk along edges of the graph that
  ends where it began.
\<close>

theorem cycle_search_decides:
  "\<exists>r. findAgentOrchestrationCycle g = Some r \<and> (r = None \<longleftrightarrow> acyclic (graph_arcs g))
     \<and> (case r of None \<Rightarrow> True | Some c \<Rightarrow> closed_walk (graph_arcs g) c)"
  by (rule search_decides)

text \<open>An acyclic graph whose edges stay inside it has an entry node.\<close>

lemma acyclic_has_entry:
  assumes "acyclic (graph_arcs g)" and "og_agentIds g \<noteq> []" and "\<forall>e \<in> set (og_edges g). ed_fromAgentId e \<in> set (og_agentIds g)"
  shows "agentOrchestrationEntryAgentIds g \<noteq> []"
proof -
  have "graph_arcs g \<subseteq> set (og_agentIds g) \<times> ed_toAgentId ` set (og_edges g)"
    by (auto simp: graph_arcs_def agentOrchestrationHasEdge_def list_ex_iff)
  then have "finite (graph_arcs g)" by (rule finite_subset) simp
  then have "wf (graph_arcs g)" using assms(1) by (rule finite_acyclic_wf)
  then obtain a where a: "a \<in> set (og_agentIds g)" "\<And>b. (b, a) \<in> graph_arcs g \<Longrightarrow> b \<notin> set (og_agentIds g)"
    using assms(2) unfolding wf_eq_minimal by (metis list.set_intros(1) neq_Nil_conv)
  have "a \<notin> ed_toAgentId ` set (og_edges g)"
  proof
    assume "a \<in> ed_toAgentId ` set (og_edges g)"
    then obtain e where e: "e \<in> set (og_edges g)" "ed_toAgentId e = a" by auto
    then have "(ed_fromAgentId e, a) \<in> graph_arcs g"
      using assms(3) by (auto simp: graph_arcs_def agentOrchestrationHasEdge_def list_ex_iff)
    then show False using a(2) assms(3) e(1) by blast
  qed
  then show ?thesis using a(1) by (auto simp: agentOrchestrationEntryAgentIds_def filter_empty_conv)
qed

end
