(* ===== verification/Agent_Service.thy ===== *)
theory Agent_Service
  imports Orchestration_Graph Session_Codec
begin

text \<open>
  Agent definitions and their orchestrations on a node: the schemas
  (\<^verbatim>\<open>packages/protocol/src/agent-definitions.ts\<close>, \<^verbatim>\<open>agent-orchestrations.ts\<close>), the repositories
  (\<^verbatim>\<open>packages/node-agent/src/persistence\<close>) and the two services (\<^verbatim>\<open>packages/node-agent/src/agents\<close>). A table is a
  map from its primary key to its rows; a transaction computes the next database or throws, and then
  the database is the one from before. SHA-256, \<^verbatim>\<open>localeCompare\<close>, the generated ids and the clock are
  arguments, and so is what the node knows about instances, folders and providers.
\<close>

section \<open>Definitions\<close>

definition id_pattern :: "string \<Rightarrow> bool" where
  "id_pattern s =
     (let alnum = (\<lambda>c. let n = of_char c :: nat in 48 \<le> n \<and> n \<le> 57 \<or> 65 \<le> n \<and> n \<le> 90 \<or> 97 \<le> n \<and> n \<le> 122) in
      case s of [] \<Rightarrow> False | c # cs \<Rightarrow> alnum c \<and> list_all (\<lambda>d. alnum d \<or> d \<in> set ''_.:-'') cs)"

text \<open>\<^verbatim>\<open>StableIdSchema\<close> of the two modules: 120 characters for agents, 160 for orchestrations.\<close>

definition stable_id :: "nat \<Rightarrow> string \<Rightarrow> string option" where
  "stable_id n s = Option.bind (nonempty_text n s) (checked id_pattern)"

definition revision_text :: "string \<Rightarrow> bool" where
  "revision_text s = (length s = 64 \<and> list_all (\<lambda>c. c \<in> set ''0123456789abcdef'') s)"

datatype materializer = OverlayCopyOnWrite | Worktree
datatype sandbox = InstanceSandbox | ContainerSandbox | LocalRuntime

record execution_policy =
  ep_workspaceMaterializer :: materializer
  ep_processSandbox :: sandbox

definition isPublishedAgentExecutionPolicy :: "execution_policy \<Rightarrow> bool" where
  "isPublishedAgentExecutionPolicy policy =
     list_ex (\<lambda>candidate. candidate = policy) [\<lparr>ep_workspaceMaterializer = OverlayCopyOnWrite, ep_processSandbox = InstanceSandbox\<rparr>]"

record definition_fields =
  df_name :: string
  df_description :: string
  df_appendedPrompt :: string
  df_targetInstanceId :: string
  df_cwdFolderId :: string
  df_providerId :: string
  df_modelEntityId :: "string option"
  df_modelName :: "string option"
  df_modelUpstreamName :: "string option"
  df_reasoningEffort :: "string option"
  df_permissionMode :: "string option"
  df_executionPolicy :: execution_policy

record agent_definition =
  ad_id :: string
  ad_revision :: string
  ad_fields :: definition_fields
  ad_createdAt :: string
  ad_updatedAt :: string

definition fields_ok :: "definition_fields \<Rightarrow> bool" where
  "fields_ok f \<longleftrightarrow> nonempty_text 120 (df_name f) \<noteq> None \<and> trimmed_text 2000 (df_description f) \<noteq> None
     \<and> length (df_appendedPrompt f) \<le> 32000 \<and> stable_id 120 (df_targetInstanceId f) \<noteq> None
     \<and> stable_id 120 (df_cwdFolderId f) \<noteq> None \<and> stable_id 120 (df_providerId f) \<noteq> None
     \<and> opt_parse (stable_id 120) (df_modelEntityId f) \<noteq> None \<and> opt_parse (nonempty_text 120) (df_modelName f) \<noteq> None
     \<and> opt_parse (nonempty_text 240) (df_modelUpstreamName f) \<noteq> None
     \<and> opt_parse (nonempty_text 120) (df_reasoningEffort f) \<noteq> None \<and> opt_parse (nonempty_text 120) (df_permissionMode f) \<noteq> None"

definition fields_trim :: "definition_fields \<Rightarrow> definition_fields" where
  "fields_trim f = f\<lparr>df_name := the (nonempty_text 120 (df_name f)), df_description := the (trimmed_text 2000 (df_description f)),
     df_targetInstanceId := the (stable_id 120 (df_targetInstanceId f)), df_cwdFolderId := the (stable_id 120 (df_cwdFolderId f)),
     df_providerId := the (stable_id 120 (df_providerId f)), df_modelEntityId := the (opt_parse (stable_id 120) (df_modelEntityId f)),
     df_modelName := the (opt_parse (nonempty_text 120) (df_modelName f)),
     df_modelUpstreamName := the (opt_parse (nonempty_text 240) (df_modelUpstreamName f)),
     df_reasoningEffort := the (opt_parse (nonempty_text 120) (df_reasoningEffort f)),
     df_permissionMode := the (opt_parse (nonempty_text 120) (df_permissionMode f))\<rparr>"

text \<open>\<^verbatim>\<open>AgentDefinitionCreateInputSchema\<close>, whose absent policy is \<^verbatim>\<open>fieldsFromInput\<close>'s default, and the stored record.\<close>

definition fields_parse :: "definition_fields \<Rightarrow> definition_fields option" where
  "fields_parse f = (if fields_ok f then Some (fields_trim f) else None)"

definition sanitizeAgentDefinition :: "agent_definition \<Rightarrow> agent_definition option" where
  "sanitizeAgentDefinition d =
     (case (stable_id 120 (ad_id d), fields_parse (ad_fields d)) of
        (Some i, Some f) \<Rightarrow> if revision_text (ad_revision d) \<and> datetime_text (ad_createdAt d) \<and> datetime_text (ad_updatedAt d)
          then Some (d\<lparr>ad_id := i, ad_fields := f\<rparr>) else None
      | _ \<Rightarrow> None)"

section \<open>Orchestrations\<close>

record orchestration =
  oc_id :: string
  oc_revision :: string
  oc_name :: string
  oc_agentIds :: "string list"
  oc_edges :: "edge list"
  oc_createdAt :: string
  oc_updatedAt :: string

definition default_prefix :: string where
  "default_prefix = ''default:''"

definition defaultAgentOrchestrationId :: "string \<Rightarrow> string option" where
  "defaultAgentOrchestrationId agentId = map_option ((@) default_prefix) (stable_id 120 agentId)"

definition isDefaultAgentOrchestrationId :: "string \<Rightarrow> bool" where
  "isDefaultAgentOrchestrationId orchestrationId = (take (length default_prefix) orchestrationId = default_prefix)"

definition defaultAgentOrchestrationOwnerAgentId :: "string \<Rightarrow> string option" where
  "defaultAgentOrchestrationOwnerAgentId orchestrationId =
     (if \<not> isDefaultAgentOrchestrationId orchestrationId then None
      else let ownerAgentId = drop (length default_prefix) orchestrationId in
        if stable_id 120 ownerAgentId \<noteq> None then Some ownerAgentId else None)"

definition edge_parse :: "edge \<Rightarrow> edge option" where
  "edge_parse e =
     (case (stable_id 120 (ed_fromAgentId e), stable_id 120 (ed_toAgentId e)) of
        (Some a, Some b) \<Rightarrow> Some \<lparr>ed_fromAgentId = a, ed_toAgentId = b\<rparr> | _ \<Rightarrow> None)"

definition sanitizeAgentOrchestration :: "orchestration \<Rightarrow> orchestration option" where
  "sanitizeAgentOrchestration r =
     (case (stable_id 160 (oc_id r), nonempty_text 120 (oc_name r), list_parse 50 (stable_id 120) (oc_agentIds r),
         list_parse 200 edge_parse (oc_edges r)) of
        (Some i, Some n, Some as, Some es) \<Rightarrow>
          if revision_text (oc_revision r) \<and> datetime_text (oc_createdAt r) \<and> datetime_text (oc_updatedAt r)
          then Some (r\<lparr>oc_id := i, oc_name := n, oc_agentIds := as, oc_edges := es\<rparr>) else None
      | _ \<Rightarrow> None)"

record content =
  cn_name :: string
  cn_agentIds :: "string list"
  cn_edges :: "edge list"

definition content_graph :: "content \<Rightarrow> orch_graph" where
  "content_graph c = \<lparr>og_agentIds = cn_agentIds c, og_edges = cn_edges c\<rparr>"

definition create_parse :: "content \<Rightarrow> content option" where
  "create_parse c =
     (case (nonempty_text 120 (cn_name c), list_parse 50 (stable_id 120) (cn_agentIds c), list_parse 200 edge_parse (cn_edges c)) of
        (Some n, Some as, Some es) \<Rightarrow> if as \<noteq> [] then Some \<lparr>cn_name = n, cn_agentIds = as, cn_edges = es\<rparr> else None
      | _ \<Rightarrow> None)"

record orch_update =
  ou_expectedRevision :: string
  ou_name :: "string option"
  ou_agentIds :: "string list option"
  ou_edges :: "edge list option"

definition update_parse :: "orch_update \<Rightarrow> orch_update option" where
  "update_parse u =
     (case (opt_parse (nonempty_text 120) (ou_name u), opt_parse (list_parse 50 (stable_id 120)) (ou_agentIds u),
         opt_parse (list_parse 200 edge_parse) (ou_edges u)) of
        (Some n, Some as, Some es) \<Rightarrow> if revision_text (ou_expectedRevision u) \<and> as \<noteq> Some []
          then Some (u\<lparr>ou_name := n, ou_agentIds := as, ou_edges := es\<rparr>) else None
      | _ \<Rightarrow> None)"

section \<open>The repositories\<close>

datatype agent_error =
    InvalidInput
  | DefinitionNotFound string
  | DefinitionConflict string string
  | TargetInstanceUnknown string
  | FolderUnknown string
  | ProviderUnsupported string string
  | PolicyUnsupported
  | OrchestrationNotFound string
  | OrchestrationConflict string string
  | SelfCall string
  | EdgeOutsideGraph string string
  | AgentUnknown string
  | GraphCycle "string list"
  | DefaultProtected string
  | StoredDefinitionInvalid
  | StoredOrchestrationInvalid
  | ConstraintViolated

record agent_db =
  db_definitions :: "(string, agent_definition) jmap"
  db_orchestrations :: "(string, orchestration) jmap"

text \<open>The parameters of one call.\<close>

record agent_env =
  ae_sha256 :: "string \<Rightarrow> string"
  ae_collate :: "string \<Rightarrow> string \<Rightarrow> bool"
  ae_now :: string
  ae_idPayload :: string

definition edge_json :: "edge \<Rightarrow> json" where
  "edge_json e = JObj [(''fromAgentId'', JStr (ed_fromAgentId e)), (''toAgentId'', JStr (ed_toAgentId e))]"

definition agentOrchestrationRevision :: "agent_env \<Rightarrow> content \<Rightarrow> string" where
  "agentOrchestrationRevision env c =
     (let graph = normalizeAgentOrchestrationGraph (ae_collate env) (content_graph c) in
      ae_sha256 env (json_text (JArr [JStr (cn_name c), JArr (map JStr (og_agentIds graph)), JArr (map edge_json (og_edges graph))])))"

definition normalizeContent :: "agent_env \<Rightarrow> content \<Rightarrow> content" where
  "normalizeContent env c =
     (let graph = normalizeAgentOrchestrationGraph (ae_collate env) (content_graph c) in
      \<lparr>cn_name = cn_name c, cn_agentIds = og_agentIds graph, cn_edges = og_edges graph\<rparr>)"

text \<open>Reading a row: the rows of the two graph tables come in the order of their columns.\<close>

definition edge_row_le :: "edge \<Rightarrow> edge \<Rightarrow> bool" where
  "edge_row_le a b = (if ed_fromAgentId a = ed_fromAgentId b then ed_toAgentId a \<le> ed_toAgentId b
     else ed_fromAgentId a \<le> ed_fromAgentId b)"

definition orchestrationFromRow :: "agent_env \<Rightarrow> orchestration \<Rightarrow> agent_error + orchestration" where
  "orchestrationFromRow env row =
     (let content = normalizeContent env \<lparr>cn_name = oc_name row, cn_agentIds = js_sort (\<le>) (oc_agentIds row),
            cn_edges = js_sort edge_row_le (oc_edges row)\<rparr>;
          revision = (if revision_text (oc_revision row) then oc_revision row else agentOrchestrationRevision env content)
      in case sanitizeAgentOrchestration (row\<lparr>oc_revision := revision, oc_name := cn_name content, oc_agentIds := cn_agentIds content,
             oc_edges := cn_edges content\<rparr>) of
          Some orch \<Rightarrow> Inr orch
        | None \<Rightarrow> Inl StoredOrchestrationInvalid)"

definition orch_get :: "agent_env \<Rightarrow> agent_db \<Rightarrow> string \<Rightarrow> agent_error + orchestration option" where
  "orch_get env db oid =
     (case jmap_get (db_orchestrations db) oid of
        None \<Rightarrow> Inr None
      | Some row \<Rightarrow> (case orchestrationFromRow env row of Inl e \<Rightarrow> Inl e | Inr orch \<Rightarrow> Inr (Some orch)))"

definition requireOrchestration :: "agent_env \<Rightarrow> agent_db \<Rightarrow> string \<Rightarrow> agent_error + orchestration" where
  "requireOrchestration env db oid =
     (case orch_get env db oid of Inl e \<Rightarrow> Inl e | Inr None \<Rightarrow> Inl (OrchestrationNotFound oid) | Inr (Some orch) \<Rightarrow> Inr orch)"

definition idsReferencingAgent :: "agent_db \<Rightarrow> string \<Rightarrow> string list" where
  "idsReferencingAgent db agentId =
     js_sort (\<le>) (map fst (filter (\<lambda>(_, row). agentId \<in> set (oc_agentIds row)) (db_orchestrations db)))"

definition orch_insert :: "agent_env \<Rightarrow> string \<Rightarrow> content \<Rightarrow> agent_db \<Rightarrow> agent_error + orchestration \<times> agent_db" where
  "orch_insert env oid input db =
     (let content = normalizeContent env input in
      if jmap_has (db_orchestrations db) oid then Inl ConstraintViolated
      else let row = \<lparr>oc_id = oid, oc_revision = agentOrchestrationRevision env content, oc_name = cn_name content,
                 oc_agentIds = cn_agentIds content, oc_edges = cn_edges content, oc_createdAt = ae_now env, oc_updatedAt = ae_now env\<rparr>;
               db' = db\<lparr>db_orchestrations := jmap_set oid row (db_orchestrations db)\<rparr>
        in case requireOrchestration env db' oid of Inl e \<Rightarrow> Inl e | Inr orch \<Rightarrow> Inr (orch, db'))"

datatype orch_mutation = OrchUpdated orchestration | OrchRevisionConflict orchestration | OrchMissing

definition orch_update_row :: "agent_env \<Rightarrow> string \<Rightarrow> string \<Rightarrow> content \<Rightarrow> agent_db \<Rightarrow> agent_error + orch_mutation \<times> agent_db" where
  "orch_update_row env oid expectedRevision input db =
     (case orch_get env db oid of
        Inl e \<Rightarrow> Inl e
      | Inr None \<Rightarrow> Inr (OrchMissing, db)
      | Inr (Some current) \<Rightarrow>
          if oc_revision current \<noteq> expectedRevision then Inr (OrchRevisionConflict current, db)
          else let normalized = normalizeContent env input;
                   row = the (jmap_get (db_orchestrations db) oid);
                   db' = db\<lparr>db_orchestrations := jmap_set oid (row\<lparr>oc_name := cn_name normalized,
                       oc_revision := agentOrchestrationRevision env normalized, oc_updatedAt := ae_now env,
                       oc_agentIds := cn_agentIds normalized, oc_edges := cn_edges normalized\<rparr>) (db_orchestrations db)\<rparr>
            in case requireOrchestration env db' oid of Inl e \<Rightarrow> Inl e | Inr orch \<Rightarrow> Inr (OrchUpdated orch, db'))"

definition orch_delete :: "string \<Rightarrow> agent_db \<Rightarrow> bool \<times> agent_db" where
  "orch_delete oid db =
     (jmap_has (db_orchestrations db) oid, db\<lparr>db_orchestrations := jmap_delete oid (db_orchestrations db)\<rparr>)"

definition orch_deleteMany :: "string list \<Rightarrow> agent_db \<Rightarrow> agent_db" where
  "orch_deleteMany ids db = foldl (\<lambda>db oid. db\<lparr>db_orchestrations := jmap_delete oid (db_orchestrations db)\<rparr>) db (js_uniq ids)"

definition agentDefinitionRevision :: "agent_env \<Rightarrow> definition_fields \<Rightarrow> string" where
  "agentDefinitionRevision env f =
     ae_sha256 env (json_strings [Some (df_name f), Some (df_description f), Some (df_appendedPrompt f), Some (df_targetInstanceId f),
       Some (df_cwdFolderId f), Some (df_providerId f), df_modelEntityId f, df_modelName f, df_modelUpstreamName f,
       df_reasoningEffort f, df_permissionMode f,
       Some (case ep_workspaceMaterializer (df_executionPolicy f) of OverlayCopyOnWrite \<Rightarrow> ''overlay-copy-on-write'' | Worktree \<Rightarrow> ''worktree''),
       Some (case ep_processSandbox (df_executionPolicy f) of InstanceSandbox \<Rightarrow> ''instance''
         | ContainerSandbox \<Rightarrow> ''container'' | LocalRuntime \<Rightarrow> ''local-runtime'')])"

definition definition_get :: "agent_db \<Rightarrow> string \<Rightarrow> agent_error + agent_definition option" where
  "definition_get db i =
     (case jmap_get (db_definitions db) i of
        None \<Rightarrow> Inr None
      | Some row \<Rightarrow> (case sanitizeAgentDefinition row of Some d \<Rightarrow> Inr (Some d) | None \<Rightarrow> Inl StoredDefinitionInvalid))"

definition requireDefinition :: "agent_db \<Rightarrow> string \<Rightarrow> agent_error + agent_definition" where
  "requireDefinition db i =
     (case definition_get db i of Inl e \<Rightarrow> Inl e | Inr None \<Rightarrow> Inl (DefinitionNotFound i) | Inr (Some d) \<Rightarrow> Inr d)"

definition definition_insert :: "agent_env \<Rightarrow> string \<Rightarrow> definition_fields \<Rightarrow> agent_db \<Rightarrow> agent_error + agent_definition \<times> agent_db" where
  "definition_insert env i flds db =
     (if jmap_has (db_definitions db) i then Inl ConstraintViolated
      else let db' = db\<lparr>db_definitions := jmap_set i \<lparr>ad_id = i, ad_revision = agentDefinitionRevision env flds, ad_fields = flds,
                 ad_createdAt = ae_now env, ad_updatedAt = ae_now env\<rparr> (db_definitions db)\<rparr>
        in case requireDefinition db' i of Inl e \<Rightarrow> Inl e | Inr d \<Rightarrow> Inr (d, db'))"

datatype definition_mutation = DefUpdated agent_definition | DefRevisionConflict agent_definition | DefMissing

definition definition_update_row :: "agent_env \<Rightarrow> string \<Rightarrow> string \<Rightarrow> definition_fields \<Rightarrow> agent_db
    \<Rightarrow> agent_error + definition_mutation \<times> agent_db" where
  "definition_update_row env i expectedRevision flds db =
     (case definition_get db i of
        Inl e \<Rightarrow> Inl e
      | Inr None \<Rightarrow> Inr (DefMissing, db)
      | Inr (Some current) \<Rightarrow>
          if ad_revision current \<noteq> expectedRevision then Inr (DefRevisionConflict current, db)
          else let row = the (jmap_get (db_definitions db) i);
                   db' = db\<lparr>db_definitions := jmap_set i (row\<lparr>ad_fields := flds, ad_revision := agentDefinitionRevision env flds,
                       ad_updatedAt := ae_now env\<rparr>) (db_definitions db)\<rparr>
            in case requireDefinition db' i of Inl e \<Rightarrow> Inl e | Inr d \<Rightarrow> Inr (DefUpdated d, db'))"

definition definition_delete :: "string \<Rightarrow> agent_db \<Rightarrow> bool \<times> agent_db" where
  "definition_delete i db = (jmap_has (db_definitions db) i, db\<lparr>db_definitions := jmap_delete i (db_definitions db)\<rparr>)"

section \<open>The services\<close>

datatype change = Created | Updated | Deleted

datatype agent_event = DefinitionChanged change agent_definition | OrchestrationChanged change orchestration

record agent_state =
  as_db :: agent_db
  as_events :: "agent_event list"

type_synonym 'a agent_result = "(agent_error + 'a) \<times> agent_state"

text \<open>
  \<^verbatim>\<open>runInTransaction\<close> at the outermost level: a throw rolls back. The callbacks of \<^verbatim>\<open>afterCommit\<close> run after the
  commit, here the events that are published.
\<close>

definition transaction :: "(agent_db \<Rightarrow> agent_error + 'a \<times> agent_db) \<Rightarrow> agent_state \<Rightarrow> 'a agent_result" where
  "transaction operation s = (case operation (as_db s) of Inl e \<Rightarrow> (Inl e, s) | Inr (r, db) \<Rightarrow> (Inr r, s\<lparr>as_db := db\<rparr>))"

definition agent_publish :: "agent_event list \<Rightarrow> agent_state \<Rightarrow> agent_state" where
  "agent_publish events s = s\<lparr>as_events := as_events s @ events\<rparr>"

fun first_error :: "('a \<Rightarrow> agent_error option) \<Rightarrow> 'a list \<Rightarrow> agent_error option" where
  "first_error check [] = None"
| "first_error check (x # xs) = (case check x of Some e \<Rightarrow> Some e | None \<Rightarrow> first_error check xs)"

definition edge_error :: "string list \<Rightarrow> edge \<Rightarrow> agent_error option" where
  "edge_error knownIds e =
     (if ed_fromAgentId e = ed_toAgentId e then Some (SelfCall (ed_fromAgentId e))
      else if ed_fromAgentId e \<notin> set knownIds \<or> ed_toAgentId e \<notin> set knownIds
      then Some (EdgeOutsideGraph (ed_fromAgentId e) (ed_toAgentId e)) else None)"

definition node_error :: "agent_db \<Rightarrow> string list \<Rightarrow> string \<Rightarrow> agent_error option" where
  "node_error db existingIds agentId =
     (case definition_get db agentId of
        Inl e \<Rightarrow> Some e
      | Inr (Some _) \<Rightarrow> None
      | Inr None \<Rightarrow> if agentId \<in> set existingIds then None else Some (AgentUnknown agentId))"

definition owner_error :: "agent_db \<Rightarrow> string list \<Rightarrow> string \<Rightarrow> agent_error option" where
  "owner_error db knownIds orchestrationId =
     (case defaultAgentOrchestrationOwnerAgentId orchestrationId of
        None \<Rightarrow> None
      | Some owner \<Rightarrow> (case definition_get db owner of
          Inl e \<Rightarrow> Some e
        | Inr None \<Rightarrow> Some (DefaultProtected owner)
        | Inr (Some _) \<Rightarrow> if owner \<notin> set knownIds then Some (DefaultProtected owner) else None))"

definition validateGraph :: "agent_env \<Rightarrow> agent_db \<Rightarrow> content \<Rightarrow> string \<Rightarrow> orchestration option \<Rightarrow> agent_error option" where
  "validateGraph env db content orchestrationId existing =
     (let graph = normalizeAgentOrchestrationGraph (ae_collate env) (content_graph content);
          existingIds = (case existing of Some o' \<Rightarrow> oc_agentIds o' | None \<Rightarrow> [])
      in case first_error (edge_error (og_agentIds graph)) (og_edges graph) of
          Some e \<Rightarrow> Some e
        | None \<Rightarrow> (case first_error (node_error db existingIds) (og_agentIds graph) of
            Some e \<Rightarrow> Some e
          | None \<Rightarrow> (case findAgentOrchestrationCycle graph of
              Some (Some cycle) \<Rightarrow> Some (GraphCycle cycle)
            | _ \<Rightarrow> owner_error db (og_agentIds graph) orchestrationId)))"

definition createId :: "string \<Rightarrow> agent_env \<Rightarrow> string" where
  "createId kind env = kind @ ''_'' @ ae_idPayload env"

definition orchestration_create :: "agent_env \<Rightarrow> content \<Rightarrow> agent_state \<Rightarrow> orchestration agent_result" where
  "orchestration_create env input s =
     (case create_parse input of
        None \<Rightarrow> (Inl InvalidInput, s)
      | Some parsed \<Rightarrow>
          let oid = createId ''orchestration'' env in
          case transaction (\<lambda>db. case validateGraph env db parsed oid None of Some e \<Rightarrow> Inl e | None \<Rightarrow> orch_insert env oid parsed db) s of
            (Inl e, s') \<Rightarrow> (Inl e, s')
          | (Inr orch, s') \<Rightarrow> (Inr orch, agent_publish [OrchestrationChanged Created orch] s'))"

definition updated_content :: "orch_update \<Rightarrow> orchestration \<Rightarrow> content" where
  "updated_content parsed current =
     \<lparr>cn_name = (case ou_name parsed of Some n \<Rightarrow> n | None \<Rightarrow> oc_name current),
      cn_agentIds = (case ou_agentIds parsed of Some as \<Rightarrow> as | None \<Rightarrow> oc_agentIds current),
      cn_edges = (case ou_edges parsed of Some es \<Rightarrow> es | None \<Rightarrow> oc_edges current)\<rparr>"

definition orchestration_update :: "agent_env \<Rightarrow> string \<Rightarrow> orch_update \<Rightarrow> agent_state \<Rightarrow> orchestration agent_result" where
  "orchestration_update env oid input s =
     (case update_parse input of
        None \<Rightarrow> (Inl InvalidInput, s)
      | Some parsed \<Rightarrow>
          (case transaction (\<lambda>db. case orch_get env db oid of
                 Inl e \<Rightarrow> Inl e
               | Inr None \<Rightarrow> Inr (OrchMissing, db)
               | Inr (Some current) \<Rightarrow> (case validateGraph env db (updated_content parsed current) oid (Some current) of
                   Some e \<Rightarrow> Inl e
                 | None \<Rightarrow> orch_update_row env oid (ou_expectedRevision parsed) (updated_content parsed current) db)) s of
            (Inl e, s') \<Rightarrow> (Inl e, s')
          | (Inr OrchMissing, s') \<Rightarrow> (Inl (OrchestrationNotFound oid), s')
          | (Inr (OrchRevisionConflict orch), s') \<Rightarrow> (Inl (OrchestrationConflict (ou_expectedRevision parsed) (oc_revision orch)), s')
          | (Inr (OrchUpdated orch), s') \<Rightarrow> (Inr orch, agent_publish [OrchestrationChanged Updated orch] s')))"

definition orchestration_delete :: "agent_env \<Rightarrow> string \<Rightarrow> agent_state \<Rightarrow> bool agent_result" where
  "orchestration_delete env oid s =
     (case orch_get env (as_db s) oid of
        Inl e \<Rightarrow> (Inl e, s)
      | Inr None \<Rightarrow> (Inl (OrchestrationNotFound oid), s)
      | Inr (Some existing) \<Rightarrow>
          if truthy (defaultAgentOrchestrationOwnerAgentId oid) then (Inl (DefaultProtected oid), s)
          else (case orch_delete oid (as_db s) of (deleted, db) \<Rightarrow>
            if \<not> deleted then (Inr False, s\<lparr>as_db := db\<rparr>)
            else (Inr True, agent_publish [OrchestrationChanged Deleted existing] (s\<lparr>as_db := db\<rparr>))))"

definition insertDefaultForAgent :: "agent_env \<Rightarrow> string \<Rightarrow> string \<Rightarrow> agent_db \<Rightarrow> agent_error + orchestration \<times> agent_db" where
  "insertDefaultForAgent env agentId name db =
     (case defaultAgentOrchestrationId agentId of
        None \<Rightarrow> Inl InvalidInput
      | Some oid \<Rightarrow> orch_insert env oid \<lparr>cn_name = name, cn_agentIds = [agentId], cn_edges = []\<rparr> db)"

fun get_each :: "agent_env \<Rightarrow> agent_db \<Rightarrow> string list \<Rightarrow> agent_error + orchestration list" where
  "get_each env db [] = Inr []"
| "get_each env db (i # ids) =
     (case orch_get env db i of
        Inl e \<Rightarrow> Inl e
      | Inr found \<Rightarrow> (case get_each env db ids of
          Inl e \<Rightarrow> Inl e | Inr rest \<Rightarrow> Inr ((case found of Some orch \<Rightarrow> [orch] | None \<Rightarrow> []) @ rest)))"

definition deleteForAgent :: "agent_env \<Rightarrow> string \<Rightarrow> bool \<Rightarrow> agent_db \<Rightarrow> agent_error + orchestration list \<times> agent_db" where
  "deleteForAgent env agentId deleteReferencing db =
     (case defaultAgentOrchestrationId agentId of
        None \<Rightarrow> Inl InvalidInput
      | Some defaultId \<Rightarrow>
          let referencingIds = idsReferencingAgent db agentId;
              deletable = (if deleteReferencing
                then filter (\<lambda>i. i = defaultId \<or> \<not> truthy (defaultAgentOrchestrationOwnerAgentId i)) referencingIds else []);
              deletedIds = js_uniq (defaultId # deletable)
          in case get_each env db deletedIds of
              Inl e \<Rightarrow> Inl e
            | Inr deleted \<Rightarrow> Inr (deleted, orch_deleteMany (map oc_id deleted) db))"

text \<open>What the node knows about an instance and its folders.\<close>

datatype folder_resolution = FolderResolved | UnknownFolder | FolderUnresolvable

record node_view =
  nv_hasInstance :: "string \<Rightarrow> bool"
  nv_resolveFolder :: "string \<Rightarrow> string \<Rightarrow> folder_resolution"
  nv_supportsProvider :: "string \<Rightarrow> string \<Rightarrow> bool"

definition validate_fields :: "node_view \<Rightarrow> definition_fields \<Rightarrow> agent_error option" where
  "validate_fields node f =
     (if \<not> nv_hasInstance node (df_targetInstanceId f) then Some (TargetInstanceUnknown (df_targetInstanceId f))
      else if nv_resolveFolder node (df_targetInstanceId f) (df_cwdFolderId f) \<noteq> FolderResolved then Some (FolderUnknown (df_cwdFolderId f))
      else if \<not> nv_supportsProvider node (df_targetInstanceId f) (df_providerId f)
      then Some (ProviderUnsupported (df_targetInstanceId f) (df_providerId f))
      else if \<not> isPublishedAgentExecutionPolicy (df_executionPolicy f) then Some PolicyUnsupported else None)"

definition resolveExecution :: "node_view \<Rightarrow> string \<Rightarrow> agent_db \<Rightarrow> agent_error + agent_definition" where
  "resolveExecution node i db =
     (case requireDefinition db i of
        Inl e \<Rightarrow> Inl e
      | Inr d \<Rightarrow> (case validate_fields node (ad_fields d) of Some e \<Rightarrow> Inl e | None \<Rightarrow> Inr d))"

definition definition_create :: "agent_env \<Rightarrow> node_view \<Rightarrow> definition_fields \<Rightarrow> agent_state \<Rightarrow> agent_definition agent_result" where
  "definition_create env node input s =
     (case fields_parse input of
        None \<Rightarrow> (Inl InvalidInput, s)
      | Some flds \<Rightarrow>
          let i = createId ''agent'' env in
          case transaction (\<lambda>db. case validate_fields node flds of
                 Some e \<Rightarrow> Inl e
               | None \<Rightarrow> (case definition_insert env i flds db of
                   Inl e \<Rightarrow> Inl e
                 | Inr (d, db1) \<Rightarrow> (case insertDefaultForAgent env i (df_name flds) db1 of
                     Inl e \<Rightarrow> Inl e | Inr (orch, db2) \<Rightarrow> Inr ((d, orch), db2)))) s of
            (Inl e, s') \<Rightarrow> (Inl e, s')
          | (Inr (d, orch), s') \<Rightarrow> (Inr d, agent_publish [DefinitionChanged Created d, OrchestrationChanged Created orch] s'))"

text \<open>
  A patch of a definition: a field is left out, set, or cleared by an explicit null.
\<close>

datatype 'a patched = Absent | Null | Given 'a

record definition_update =
  du_expectedRevision :: string
  du_name :: "string option"
  du_description :: "string patched"
  du_appendedPrompt :: "string patched"
  du_targetInstanceId :: "string option"
  du_cwdFolderId :: "string option"
  du_providerId :: "string option"
  du_modelEntityId :: "string patched"
  du_modelName :: "string patched"
  du_modelUpstreamName :: "string patched"
  du_reasoningEffort :: "string patched"
  du_permissionMode :: "string patched"
  du_executionPolicy :: "execution_policy option"

definition clearable :: "string patched \<Rightarrow> string option \<Rightarrow> string option" where
  "clearable v fallback = (case v of Null \<Rightarrow> None | Absent \<Rightarrow> fallback | Given x \<Rightarrow> Some x)"

definition emptied :: "string patched \<Rightarrow> string \<Rightarrow> string" where
  "emptied v current = (case v of Null \<Rightarrow> [] | Absent \<Rightarrow> current | Given x \<Rightarrow> x)"

definition fieldsFromUpdate :: "definition_fields \<Rightarrow> definition_update \<Rightarrow> definition_fields" where
  "fieldsFromUpdate current input =
     (let keep = (\<lambda>v c. case v of Some x \<Rightarrow> x | None \<Rightarrow> c) in
      \<lparr>df_name = keep (du_name input) (df_name current),
       df_description = emptied (du_description input) (df_description current),
       df_appendedPrompt = emptied (du_appendedPrompt input) (df_appendedPrompt current),
       df_targetInstanceId = keep (du_targetInstanceId input) (df_targetInstanceId current),
       df_cwdFolderId = keep (du_cwdFolderId input) (df_cwdFolderId current),
       df_providerId = keep (du_providerId input) (df_providerId current),
       df_modelEntityId = clearable (du_modelEntityId input) (df_modelEntityId current),
       df_modelName = clearable (du_modelName input) (df_modelName current),
       df_modelUpstreamName = clearable (du_modelUpstreamName input) (df_modelUpstreamName current),
       df_reasoningEffort = clearable (du_reasoningEffort input) (df_reasoningEffort current),
       df_permissionMode = clearable (du_permissionMode input) (df_permissionMode current),
       df_executionPolicy = (case du_executionPolicy input of Some p \<Rightarrow> p | None \<Rightarrow> df_executionPolicy current)\<rparr>)"

definition patched_parse :: "(string \<Rightarrow> string option) \<Rightarrow> string patched \<Rightarrow> string patched option" where
  "patched_parse p v = (case v of Given x \<Rightarrow> map_option Given (p x) | _ \<Rightarrow> Some v)"

definition definition_update_parse :: "definition_update \<Rightarrow> definition_update option" where
  "definition_update_parse u =
     (case (opt_parse (nonempty_text 120) (du_name u), patched_parse (trimmed_text 2000) (du_description u),
         patched_parse (\<lambda>t. if length t \<le> 32000 then Some t else None) (du_appendedPrompt u),
         opt_parse (stable_id 120) (du_targetInstanceId u), opt_parse (stable_id 120) (du_cwdFolderId u),
         opt_parse (stable_id 120) (du_providerId u)) of
        (Some n, Some d, Some a, Some t, Some c, Some p) \<Rightarrow>
          (case (patched_parse (stable_id 120) (du_modelEntityId u), patched_parse (nonempty_text 120) (du_modelName u),
              patched_parse (nonempty_text 240) (du_modelUpstreamName u), patched_parse (nonempty_text 120) (du_reasoningEffort u),
              patched_parse (nonempty_text 120) (du_permissionMode u)) of
             (Some me, Some mn, Some mu, Some re, Some pm) \<Rightarrow>
               if revision_text (du_expectedRevision u)
               then Some (u\<lparr>du_name := n, du_description := d, du_appendedPrompt := a, du_targetInstanceId := t, du_cwdFolderId := c,
                 du_providerId := p, du_modelEntityId := me, du_modelName := mn, du_modelUpstreamName := mu, du_reasoningEffort := re,
                 du_permissionMode := pm\<rparr>) else None
           | _ \<Rightarrow> None)
      | _ \<Rightarrow> None)"

definition definition_update_op :: "agent_env \<Rightarrow> node_view \<Rightarrow> string \<Rightarrow> definition_update \<Rightarrow> agent_state \<Rightarrow> agent_definition agent_result" where
  "definition_update_op env node i input s =
     (case definition_update_parse input of
        None \<Rightarrow> (Inl InvalidInput, s)
      | Some parsed \<Rightarrow>
          (case transaction (\<lambda>db. case definition_get db i of
                 Inl e \<Rightarrow> Inl e
               | Inr None \<Rightarrow> Inr (DefMissing, db)
               | Inr (Some current) \<Rightarrow>
                   let flds = fieldsFromUpdate (ad_fields current) parsed in
                   case validate_fields node flds of
                     Some e \<Rightarrow> Inl e
                   | None \<Rightarrow> definition_update_row env i (du_expectedRevision parsed) flds db) s of
            (Inl e, s') \<Rightarrow> (Inl e, s')
          | (Inr DefMissing, s') \<Rightarrow> (Inl (DefinitionNotFound i), s')
          | (Inr (DefRevisionConflict d), s') \<Rightarrow> (Inl (DefinitionConflict (du_expectedRevision parsed) (ad_revision d)), s')
          | (Inr (DefUpdated d), s') \<Rightarrow> (Inr d, agent_publish [DefinitionChanged Updated d] s')))"

text \<open>
  Deleting: a transaction whose operation returns \<^verbatim>\<open>undefined\<close> commits what it did before.
\<close>

definition definition_delete_op :: "agent_env \<Rightarrow> string \<Rightarrow> bool \<Rightarrow> agent_state \<Rightarrow> string list agent_result" where
  "definition_delete_op env i deleteReferencing s =
     (case requireDefinition (as_db s) i of
        Inl e \<Rightarrow> (Inl e, s)
      | Inr existing \<Rightarrow>
          (case transaction (\<lambda>db. case deleteForAgent env i deleteReferencing db of
                 Inl e \<Rightarrow> Inl e
               | Inr (deleted, db1) \<Rightarrow> (case definition_delete i db1 of
                   (removed, db2) \<Rightarrow> Inr (if removed then Some deleted else None, db2))) s of
            (Inl e, s') \<Rightarrow> (Inl e, s')
          | (Inr None, s') \<Rightarrow> (Inl (DefinitionNotFound i), s')
          | (Inr (Some deleted), s') \<Rightarrow> (Inr (map oc_id deleted),
              agent_publish (DefinitionChanged Deleted existing # map (OrchestrationChanged Deleted) deleted) s')))"

section \<open>What the database always satisfies\<close>

definition row_graph :: "orchestration \<Rightarrow> orch_graph" where
  "row_graph r = \<lparr>og_agentIds = oc_agentIds r, og_edges = oc_edges r\<rparr>"

definition graph_ok :: "orch_graph \<Rightarrow> bool" where
  "graph_ok g \<longleftrightarrow> og_agentIds g \<noteq> []
     \<and> (\<forall>e \<in> set (og_edges g). ed_fromAgentId e \<noteq> ed_toAgentId e \<and> {ed_fromAgentId e, ed_toAgentId e} \<subseteq> set (og_agentIds g))
     \<and> acyclic (graph_arcs g)"

definition definition_row_ok :: "agent_db \<Rightarrow> string \<Rightarrow> bool" where
  "definition_row_ok db i \<longleftrightarrow> stable_id 120 i = Some i \<and> jmap_has (db_orchestrations db) (default_prefix @ i)"

definition orchestration_row_ok :: "agent_db \<Rightarrow> string \<Rightarrow> orchestration \<Rightarrow> bool" where
  "orchestration_row_ok db k r \<longleftrightarrow> oc_id r = k \<and> stable_id 160 k = Some k \<and> graph_ok (row_graph r)
     \<and> (\<forall>a. defaultAgentOrchestrationOwnerAgentId k = Some a \<longrightarrow> jmap_has (db_definitions db) a \<and> a \<in> set (oc_agentIds r))"

definition db_ok :: "agent_db \<Rightarrow> bool" where
  "db_ok db \<longleftrightarrow> jmap_ok (db_definitions db) \<and> jmap_ok (db_orchestrations db)
     \<and> (\<forall>i. jmap_has (db_definitions db) i \<longrightarrow> definition_row_ok db i)
     \<and> (\<forall>k r. jmap_get (db_orchestrations db) k = Some r \<longrightarrow> orchestration_row_ok db k r)"

lemma set_normalize_nodes [simp]: "set (og_agentIds (normalizeAgentOrchestrationGraph le g)) = set (og_agentIds g)"
  by (simp add: normalizeAgentOrchestrationGraph_def)

lemma set_normalize_edges: "set (og_edges (normalizeAgentOrchestrationGraph le g)) \<subseteq> set (og_edges g)"
proof -
  have "snd ` set (foldl (\<lambda>m e. jmap_set (edge_key e) e m) m es) \<subseteq> snd ` set m \<union> set es" if "jmap_ok m" for m es
    using that
  proof (induction es arbitrary: m)
    case (Cons e es)
    have "jmap_ok (jmap_set (edge_key e) e m)" using Cons.prems by (simp add: jm.ok_put)
    moreover have "snd ` set (jmap_set (edge_key e) e m) \<subseteq> insert e (snd ` set m)"
      using Cons.prems by (auto simp: set_jmap_set)
    ultimately show ?case using Cons.IH[of "jmap_set (edge_key e) e m"] by (simp, blast)
  qed simp
  from this[of "[]" "og_edges g"] show ?thesis by (simp add: normalizeAgentOrchestrationGraph_def)
qed

lemma first_error_None: "first_error check xs = None \<longleftrightarrow> (\<forall>x \<in> set xs. check x = None)"
  by (induction xs) (auto split: option.splits)

lemma first_error_Some: "first_error check xs = Some e \<Longrightarrow> \<exists>x \<in> set xs. check x = Some e"
  by (induction xs) (auto split: option.splits)

lemma owner_truthy [simp]: "truthy (defaultAgentOrchestrationOwnerAgentId k) \<longleftrightarrow> defaultAgentOrchestrationOwnerAgentId k \<noteq> None"
  by (auto simp: defaultAgentOrchestrationOwnerAgentId_def truthy_def Let_def stable_id_def nonempty_text_def js_trim_def
      split: option.splits)

lemma owner_Some:
  "defaultAgentOrchestrationOwnerAgentId k = Some a \<longleftrightarrow> k = default_prefix @ a \<and> stable_id 120 a \<noteq> None"
  by (auto simp: defaultAgentOrchestrationOwnerAgentId_def isDefaultAgentOrchestrationId_def Let_def)
     (metis append_take_drop_id)+

lemma owner_created [simp]: "defaultAgentOrchestrationOwnerAgentId (createId ''orchestration'' env) = None"
  by (simp add: defaultAgentOrchestrationOwnerAgentId_def isDefaultAgentOrchestrationId_def createId_def default_prefix_def)

lemma stable_id_fixed: "stable_id n k = Some k' \<Longrightarrow> stable_id n k' = Some k' \<and> k' = js_trim k"
  by (auto simp: stable_id_def bind_eq_Some_conv nonempty_text_Some checked_def split: if_splits)

lemma default_id: "stable_id 120 i = Some i \<Longrightarrow> defaultAgentOrchestrationId i = Some (default_prefix @ i)
    \<and> stable_id 160 (default_prefix @ i) = Some (default_prefix @ i) \<and> defaultAgentOrchestrationOwnerAgentId (default_prefix @ i) = Some i"
proof (intro conjI)
  assume i: "stable_id 120 i = Some i"
  then show "defaultAgentOrchestrationId i = Some (default_prefix @ i)" by (simp add: defaultAgentOrchestrationId_def)
  show "defaultAgentOrchestrationOwnerAgentId (default_prefix @ i) = Some i" using i by (simp add: owner_Some)
  have p: "id_pattern i" "js_trim i = i" "length i \<le> 120" "i \<noteq> []"
    using i by (auto simp: stable_id_def bind_eq_Some_conv nonempty_text_Some checked_def split: if_splits)
  have "id_pattern (default_prefix @ i)"
    using p(1) by (cases i) (auto simp: id_pattern_def default_prefix_def Let_def)
  moreover have "js_trim (default_prefix @ i) = default_prefix @ i"
  proof -
    have "\<not> js_space (last i)" using p(2,4) js_trim_last[of i] by simp
    then show ?thesis using p(4) by (intro js_trim_id) (auto simp: default_prefix_def js_space_def)
  qed
  ultimately show "stable_id 160 (default_prefix @ i) = Some (default_prefix @ i)"
    using p by (simp add: stable_id_def nonempty_text_def checked_def default_prefix_def)
qed

lemma normalize_ok: "graph_ok g \<Longrightarrow> graph_ok (normalizeAgentOrchestrationGraph le g)"
proof -
  assume g: "graph_ok g"
  let ?n = "normalizeAgentOrchestrationGraph le g"
  have "graph_arcs ?n \<subseteq> graph_arcs g"
    using set_normalize_edges[of le g] by (auto simp: graph_arcs_def agentOrchestrationHasEdge_def list_ex_iff)
  then have "acyclic (graph_arcs ?n)" using g acyclic_subset by (auto simp: graph_ok_def)
  moreover have "og_agentIds ?n \<noteq> []" using g set_normalize_nodes[of le g] by (auto simp: graph_ok_def simp flip: set_empty)
  ultimately show ?thesis using g set_normalize_edges[of le g] by (auto simp: graph_ok_def)
qed

lemma content_normalized: "content_graph (normalizeContent env c) = normalizeAgentOrchestrationGraph (ae_collate env) (content_graph c)"
  by (simp add: content_graph_def normalizeContent_def Let_def)

lemma validateGraph_None:
  assumes "validateGraph env db c k existing = None" and "cn_agentIds c \<noteq> []"
  shows "graph_ok (content_graph (normalizeContent env c))"
    and "defaultAgentOrchestrationOwnerAgentId k = Some a \<Longrightarrow> jmap_has (db_definitions db) a \<and> a \<in> set (cn_agentIds c)"
proof -
  let ?g = "normalizeAgentOrchestrationGraph (ae_collate env) (content_graph c)"
  obtain r where r: "findAgentOrchestrationCycle ?g = Some r" "r = None \<longleftrightarrow> acyclic (graph_arcs ?g)"
    using search_decides[of ?g] by blast
  have e: "first_error (edge_error (og_agentIds ?g)) (og_edges ?g) = None" and "r = None"
    and own: "owner_error db (og_agentIds ?g) k = None"
    using assms(1) r by (auto simp: validateGraph_def Let_def split: option.splits)
  then have "acyclic (graph_arcs ?g)" using r by simp
  moreover have "og_agentIds ?g \<noteq> []"
    using assms(2) set_normalize_nodes[of "ae_collate env" "content_graph c"] by (auto simp: content_graph_def simp flip: set_empty)
  ultimately have "graph_ok ?g"
    using e by (auto simp: graph_ok_def first_error_None edge_error_def split: if_splits)
  then show "graph_ok (content_graph (normalizeContent env c))"
    by (simp add: content_normalized)
  show "jmap_has (db_definitions db) a \<and> a \<in> set (cn_agentIds c)" if "defaultAgentOrchestrationOwnerAgentId k = Some a"
    using own that by (auto simp: owner_error_def definition_get_def jmap_has_def content_graph_def split: option.splits if_splits sum.splits)
qed

text \<open>Writing an orchestration.\<close>

lemma orch_row_put:
  assumes "db_ok db" and "oc_id row = k" and "stable_id 160 k = Some k" and "graph_ok (row_graph row)"
    and "\<And>a. defaultAgentOrchestrationOwnerAgentId k = Some a \<Longrightarrow> jmap_has (db_definitions db) a \<and> a \<in> set (oc_agentIds row)"
  shows "db_ok (db\<lparr>db_orchestrations := jmap_set k row (db_orchestrations db)\<rparr>)"
  using assms unfolding db_ok_def definition_row_ok_def orchestration_row_ok_def
  by (auto simp: jm.ok_put jm.get_put jmap_has_def split: option.splits if_splits)

lemma orch_insert_ok:
  assumes "orch_insert env k c db = Inr (orch, db')" and "db_ok db" and "stable_id 160 k = Some k"
    and "graph_ok (content_graph (normalizeContent env c))"
    and "\<And>a. defaultAgentOrchestrationOwnerAgentId k = Some a \<Longrightarrow> jmap_has (db_definitions db) a \<and> a \<in> set (cn_agentIds c)"
  shows "db_ok db'" and "db_definitions db' = db_definitions db" and "jmap_has (db_orchestrations db') k"
    and "jmap_has (db_orchestrations db) j \<Longrightarrow> jmap_has (db_orchestrations db') j"
proof -
  obtain row where row: "db' = db\<lparr>db_orchestrations := jmap_set k row (db_orchestrations db)\<rparr>" "oc_id row = k"
    "row_graph row = content_graph (normalizeContent env c)" "set (oc_agentIds row) = set (cn_agentIds c)"
    using assms(1) by (auto simp: orch_insert_def Let_def row_graph_def content_graph_def normalizeContent_def split: if_splits sum.splits)
  show "db_ok db'" unfolding row(1) by (rule orch_row_put) (use assms row in auto)
  show "db_definitions db' = db_definitions db" "jmap_has (db_orchestrations db') k"
    "jmap_has (db_orchestrations db) j \<Longrightarrow> jmap_has (db_orchestrations db') j"
    by (auto simp: row(1) jmap_has_def jm.get_put)
qed

lemma orch_update_row_ok:
  assumes "orch_update_row env k er c db = Inr (m, db')" and "db_ok db" and "graph_ok (content_graph (normalizeContent env c))"
    and "\<And>a. defaultAgentOrchestrationOwnerAgentId k = Some a \<Longrightarrow> jmap_has (db_definitions db) a \<and> a \<in> set (cn_agentIds c)"
  shows "db_ok db'"
proof (cases "db' = db")
  case False
  obtain r where r: "jmap_get (db_orchestrations db) k = Some r"
    using assms(1) False by (auto simp: orch_update_row_def orch_get_def split: option.splits sum.splits if_splits)
  then have ok: "orchestration_row_ok db k r" using assms(2) by (simp add: db_ok_def)
  define row where "row = r\<lparr>oc_name := cn_name (normalizeContent env c), oc_revision := agentOrchestrationRevision env (normalizeContent env c),
      oc_updatedAt := ae_now env, oc_agentIds := cn_agentIds (normalizeContent env c), oc_edges := cn_edges (normalizeContent env c)\<rparr>"
  have "db' = db\<lparr>db_orchestrations := jmap_set k row (db_orchestrations db)\<rparr>"
    using assms(1) False r by (auto simp: orch_update_row_def row_def Let_def split: option.splits sum.splits if_splits)
  moreover have "set (oc_agentIds row) = set (cn_agentIds c)" "row_graph row = content_graph (normalizeContent env c)" "oc_id row = k"
    using ok by (simp_all add: row_def normalizeContent_def Let_def content_graph_def row_graph_def orchestration_row_ok_def)
  ultimately show ?thesis using assms ok by (auto intro!: orch_row_put simp: orchestration_row_ok_def)
qed (use assms(2) in simp)

lemma read_agent_ids: "orchestrationFromRow env r = Inr orch \<Longrightarrow> graph_ok (row_graph r) \<Longrightarrow> oc_agentIds orch \<noteq> []"
  and read_id: "orchestrationFromRow env r = Inr orch \<Longrightarrow> oc_id r = k \<Longrightarrow> stable_id 160 k = Some k \<Longrightarrow> oc_id orch = k"
proof -
  define n where "n = normalizeContent env \<lparr>cn_name = oc_name r, cn_agentIds = js_sort (\<le>) (oc_agentIds r),
    cn_edges = js_sort edge_row_le (oc_edges r)\<rparr>"
  assume "orchestrationFromRow env r = Inr orch"
  then obtain as es i where as: "list_parse 50 (stable_id 120) (cn_agentIds n) = Some as" and i: "stable_id 160 (oc_id r) = Some i"
    and o: "oc_agentIds orch = as" "oc_id orch = i"
    by (auto simp: orchestrationFromRow_def Let_def n_def[symmetric] sanitizeAgentOrchestration_def split: option.splits if_splits)
  have "length as = length (cn_agentIds n)"
    using as length_parse_all by (auto simp: list_parse_def split: if_splits)
  moreover have "cn_agentIds n \<noteq> []" if "graph_ok (row_graph r)"
  proof -
    have "set (cn_agentIds n) = set (oc_agentIds r)"
      by (simp add: n_def normalizeContent_def Let_def content_graph_def)
    then show ?thesis using that by (auto simp: graph_ok_def row_graph_def simp flip: set_empty)
  qed
  ultimately show "graph_ok (row_graph r) \<Longrightarrow> oc_agentIds orch \<noteq> []" using o by auto
  show "oc_id r = k \<Longrightarrow> stable_id 160 k = Some k \<Longrightarrow> oc_id orch = k" using i o by simp
qed

section \<open>Every operation keeps it\<close>

datatype agent_op =
    CreateAgent definition_fields
  | UpdateAgent string definition_update
  | DeleteAgent string bool
  | CreateOrchestration content
  | UpdateOrchestration string orch_update
  | DeleteOrchestration string

fun agent_step :: "agent_state \<Rightarrow> agent_env \<times> node_view \<times> agent_op \<Rightarrow> agent_state" where
  "agent_step s (env, node, CreateAgent input) = snd (definition_create env node input s)"
| "agent_step s (env, node, UpdateAgent i input) = snd (definition_update_op env node i input s)"
| "agent_step s (env, node, DeleteAgent i deleteReferencing) = snd (definition_delete_op env i deleteReferencing s)"
| "agent_step s (env, node, CreateOrchestration input) = snd (orchestration_create env input s)"
| "agent_step s (env, node, UpdateOrchestration k input) = snd (orchestration_update env k input s)"
| "agent_step s (env, node, DeleteOrchestration k) = snd (orchestration_delete env k s)"

text \<open>What \<^verbatim>\<open>createEntityId\<close> is relied on for: its payload makes ids of the form the schemas ask for.\<close>

definition ids_ok :: "agent_env \<Rightarrow> bool" where
  "ids_ok env \<longleftrightarrow> stable_id 120 (createId ''agent'' env) = Some (createId ''agent'' env)
     \<and> stable_id 160 (createId ''orchestration'' env) = Some (createId ''orchestration'' env)"

lemma transaction_ok:
  assumes "db_ok (as_db s)" and "\<And>r db. operation (as_db s) = Inr (r, db) \<Longrightarrow> db_ok db"
  shows "db_ok (as_db (snd (transaction operation s)))"
  using assms by (auto simp: transaction_def split: sum.splits)

lemma publish_db [simp]: "as_db (agent_publish es s) = as_db s"
  by (simp add: agent_publish_def)

lemma create_parse_nonempty: "create_parse c = Some p \<Longrightarrow> cn_agentIds p \<noteq> []"
  by (auto simp: create_parse_def split: option.splits if_splits)

lemma orchestration_create_ok:
  assumes "db_ok (as_db s)" and "ids_ok env"
  shows "db_ok (as_db (snd (orchestration_create env input s)))"
proof (cases "create_parse input")
  case (Some p)
  let ?id = "createId ''orchestration'' env"
  let ?op = "\<lambda>db. case validateGraph env db p ?id None of Some e \<Rightarrow> Inl e | None \<Rightarrow> orch_insert env ?id p db"
  have "db_ok (as_db (snd (transaction ?op s)))"
  proof (rule transaction_ok[OF assms(1)])
    fix r db
    assume r: "?op (as_db s) = Inr (r, db)"
    then have v: "validateGraph env (as_db s) p ?id None = None" by (simp split: option.splits)
    show "db_ok db"
      using r v assms validateGraph_None[OF v create_parse_nonempty[OF Some]]
      by (intro orch_insert_ok(1)[of env ?id p "as_db s" r db]) (auto simp: ids_ok_def)
  qed
  then show ?thesis by (auto simp: orchestration_create_def Some Let_def split: prod.splits sum.splits)
qed (use assms in \<open>simp add: orchestration_create_def\<close>)

lemma orchestration_update_ok:
  assumes "db_ok (as_db s)"
  shows "db_ok (as_db (snd (orchestration_update env k input s)))"
proof (cases "update_parse input")
  case (Some p)
  let ?op = "\<lambda>db. case orch_get env db k of
                 Inl e \<Rightarrow> Inl e
               | Inr None \<Rightarrow> Inr (OrchMissing, db)
               | Inr (Some current) \<Rightarrow> (case validateGraph env db (updated_content p current) k (Some current) of
                   Some e \<Rightarrow> Inl e
                 | None \<Rightarrow> orch_update_row env k (ou_expectedRevision p) (updated_content p current) db)"
  have "db_ok (as_db (snd (transaction ?op s)))"
  proof (rule transaction_ok[OF assms])
    fix r db
    assume r: "?op (as_db s) = Inr (r, db)"
    show "db_ok db"
    proof (cases "orch_get env (as_db s) k")
      case (Inr found)
      show ?thesis
      proof (cases found)
        case (Some current)
        obtain row where "jmap_get (db_orchestrations (as_db s)) k = Some row" "orchestrationFromRow env row = Inr current"
          using Inr Some by (auto simp: orch_get_def split: option.splits sum.splits)
        then have "oc_agentIds current \<noteq> []"
          using assms read_agent_ids by (auto simp: db_ok_def orchestration_row_ok_def)
        moreover have "ou_agentIds p \<noteq> Some []"
          using \<open>update_parse input = Some p\<close> by (auto simp: update_parse_def split: option.splits if_splits)
        ultimately have ne: "cn_agentIds (updated_content p current) \<noteq> []"
          by (auto simp: updated_content_def split: option.splits)
        have v: "validateGraph env (as_db s) (updated_content p current) k (Some current) = None"
          and u: "orch_update_row env k (ou_expectedRevision p) (updated_content p current) (as_db s) = Inr (r, db)"
          using r Inr Some by (auto split: option.splits)
        show ?thesis by (rule orch_update_row_ok[OF u assms validateGraph_None(1)[OF v ne]]) (rule validateGraph_None(2)[OF v ne])
      qed (use r Inr assms in simp)
    qed (use r in simp)
  qed
  then show ?thesis by (auto simp: orchestration_update_def Some split: prod.splits sum.splits orch_mutation.splits)
qed (use assms in \<open>simp add: orchestration_update_def\<close>)

text \<open>Removing orchestrations that no definition owns.\<close>

lemma drop_orchestrations_ok:
  assumes "db_ok db" and "\<And>k. k \<notin> K \<Longrightarrow> jmap_get m k = jmap_get (db_orchestrations db) k" and "\<And>k. k \<in> K \<Longrightarrow> jmap_get m k = None"
    and "jmap_ok m" and "jmap_ok d" and "\<And>i. jmap_has d i \<longleftrightarrow> jmap_has (db_definitions db) i \<and> i \<notin> D"
    and "\<And>i. stable_id 120 i = Some i \<Longrightarrow> default_prefix @ i \<in> K \<longleftrightarrow> i \<in> D"
    and "\<And>i. i \<in> D \<Longrightarrow> stable_id 120 i = Some i"
  shows "db_ok (db\<lparr>db_orchestrations := m, db_definitions := d\<rparr>)"
proof -
  have "definition_row_ok (db\<lparr>db_orchestrations := m, db_definitions := d\<rparr>) i" if "jmap_has d i" for i
  proof -
    have i: "i \<notin> D" "stable_id 120 i = Some i" "jmap_has (db_orchestrations db) (default_prefix @ i)"
      using that assms(1,6) by (auto simp: db_ok_def definition_row_ok_def)
    then have "default_prefix @ i \<notin> K" using assms(7) by blast
    then show ?thesis using i assms(2) by (simp add: definition_row_ok_def jmap_has_def)
  qed
  moreover have "orchestration_row_ok (db\<lparr>db_orchestrations := m, db_definitions := d\<rparr>) k r" if "jmap_get m k = Some r" for k r
  proof -
    have k: "k \<notin> K" using that assms(3)[of k] by (auto)
    then have r: "orchestration_row_ok db k r" using that assms(1,2) by (simp add: db_ok_def)
    have "a \<notin> D" if "defaultAgentOrchestrationOwnerAgentId k = Some a" for a
      using that k assms(7,8) by (auto simp: owner_Some)
    then show ?thesis using r assms(6) by (auto simp: orchestration_row_ok_def split: option.splits)
  qed
  ultimately show ?thesis using assms(4,5) by (simp add: db_ok_def)
qed

lemma orchestration_delete_ok:
  assumes "db_ok (as_db s)"
  shows "db_ok (as_db (snd (orchestration_delete env k s)))"
proof -
  let ?db = "as_db s"
  have "db_ok (?db\<lparr>db_orchestrations := jmap_delete k (db_orchestrations ?db), db_definitions := db_definitions ?db\<rparr>)"
    if "defaultAgentOrchestrationOwnerAgentId k = None"
    using assms that by (intro drop_orchestrations_ok[where K = "{k}" and D = "{}"])
      (auto simp: db_ok_def jm.ok_del jm.get_del owner_Some dest: default_id)
  then show ?thesis using assms
    by (auto simp: orchestration_delete_def orch_delete_def split: sum.splits option.splits)
qed

lemma db_row: "db_ok db \<Longrightarrow> jmap_get (db_orchestrations db) k = Some r \<Longrightarrow> oc_id r = k \<and> stable_id 160 k = Some k \<and> graph_ok (row_graph r)"
  by (simp add: db_ok_def orchestration_row_ok_def)

lemma get_each_ids:
  assumes "get_each env db ids = Inr found" and "db_ok db"
  shows "set (map oc_id found) = {k \<in> set ids. jmap_has (db_orchestrations db) k}"
  using assms(1)
proof (induction ids arbitrary: found)
  case (Cons k ids)
  then obtain f rest where f: "orch_get env db k = Inr f" "get_each env db ids = Inr rest"
    "found = (case f of Some orch \<Rightarrow> [orch] | None \<Rightarrow> []) @ rest"
    by (auto split: sum.splits)
  have "set (map oc_id (case f of Some orch \<Rightarrow> [orch] | None \<Rightarrow> [])) = (if jmap_has (db_orchestrations db) k then {k} else {})"
  proof (cases "jmap_get (db_orchestrations db) k")
    case (Some r)
    then obtain orch where "orchestrationFromRow env r = Inr orch" "f = Some orch"
      using f(1) by (auto simp: orch_get_def split: sum.splits)
    then show ?thesis using Some db_row[OF assms(2) Some] read_id[of env r orch k] by (simp add: jmap_has_def)
  qed (use f(1) in \<open>simp add: orch_get_def jmap_has_def\<close>)
  then show ?case using Cons.IH[OF f(2)] f(3) by auto
qed simp

lemma deleteMany_get:
  assumes "jmap_ok (db_orchestrations db)"
  shows "jmap_get (db_orchestrations (orch_deleteMany ids db)) k = (if k \<in> set ids then None else jmap_get (db_orchestrations db) k)"
    and "jmap_ok (db_orchestrations (orch_deleteMany ids db))" and "db_definitions (orch_deleteMany ids db) = db_definitions db"
proof -
  have "jmap_get (db_orchestrations (foldl f db xs)) k = (if k \<in> set xs then None else jmap_get (db_orchestrations db) k)
      \<and> jmap_ok (db_orchestrations (foldl f db xs)) \<and> db_definitions (foldl f db xs) = db_definitions db"
    if "f = (\<lambda>db oid. db\<lparr>db_orchestrations := jmap_delete oid (db_orchestrations db)\<rparr>)" "jmap_ok (db_orchestrations db)" for f xs and db :: agent_db
    using that(2) by (induction xs arbitrary: db) (simp_all add: that(1) jm.get_del jm.ok_del)
  from this[OF refl assms, of "js_uniq ids"] show
    "jmap_get (db_orchestrations (orch_deleteMany ids db)) k = (if k \<in> set ids then None else jmap_get (db_orchestrations db) k)"
    "jmap_ok (db_orchestrations (orch_deleteMany ids db))" "db_definitions (orch_deleteMany ids db) = db_definitions db"
    by (simp_all add: orch_deleteMany_def)
qed

lemma agent_delete_ok:
  assumes "db_ok (as_db s)"
  shows "db_ok (as_db (snd (definition_delete_op env i deleteReferencing s)))"
proof (cases "requireDefinition (as_db s) i")
  case (Inr existing)
  let ?op = "\<lambda>db. case deleteForAgent env i deleteReferencing db of Inl e \<Rightarrow> Inl e
      | Inr (deleted, db1) \<Rightarrow> (case definition_delete i db1 of (removed, db2) \<Rightarrow> Inr (if removed then Some deleted else None, db2))"
  have has: "jmap_has (db_definitions (as_db s)) i"
    using Inr by (auto simp: requireDefinition_def definition_get_def jmap_has_def split: option.splits sum.splits)
  then have i: "stable_id 120 i = Some i" "jmap_has (db_orchestrations (as_db s)) (default_prefix @ i)"
    using assms by (auto simp: db_ok_def definition_row_ok_def)
  have maps: "jmap_ok (db_orchestrations (as_db s))" "jmap_ok (db_definitions (as_db s))" using assms by (auto simp: db_ok_def)
  have "db_ok (as_db (snd (transaction ?op s)))"
  proof (rule transaction_ok[OF assms])
    fix r db
    assume r: "?op (as_db s) = Inr (r, db)"
    define ids where "ids = js_uniq ((default_prefix @ i) # (if deleteReferencing
        then filter (\<lambda>k. k = default_prefix @ i \<or> \<not> truthy (defaultAgentOrchestrationOwnerAgentId k)) (idsReferencingAgent (as_db s) i)
        else []))"
    have ids: "default_prefix @ i \<in> set ids" "\<And>k. k \<in> set ids \<Longrightarrow> k = default_prefix @ i \<or> defaultAgentOrchestrationOwnerAgentId k = None"
      by (auto simp: ids_def split: if_splits)
    have "deleteForAgent env i deleteReferencing (as_db s) = (case get_each env (as_db s) ids of
        Inl e \<Rightarrow> Inl e | Inr deleted \<Rightarrow> Inr (deleted, orch_deleteMany (map oc_id deleted) (as_db s)))"
      unfolding deleteForAgent_def ids_def Let_def by (simp only: default_id[OF i(1)] option.case)
    then obtain deleted where g: "get_each env (as_db s) ids = Inr deleted"
      and db: "db = snd (definition_delete i (orch_deleteMany (map oc_id deleted) (as_db s)))"
      using r by (auto split: sum.splits prod.splits)
    let ?K = "set (map oc_id deleted)"
    have K: "?K = {k \<in> set ids. jmap_has (db_orchestrations (as_db s)) k}" by (rule get_each_ids[OF g assms])
    have "db_ok ((as_db s)\<lparr>db_orchestrations := db_orchestrations db, db_definitions := db_definitions db\<rparr>)"
    proof (rule drop_orchestrations_ok[where K = ?K and D = "{i}", OF assms])
      fix j
      assume j: "stable_id 120 j = Some j"
      show "default_prefix @ j \<in> ?K \<longleftrightarrow> j \<in> {i}"
        using ids(1) ids(2)[of "default_prefix @ j"] i(2) default_id[OF j] unfolding K by auto
    qed (use maps i(1) in \<open>auto simp: db definition_delete_def deleteMany_get jm.ok_del jm.get_del jmap_has_def\<close>)
    moreover have "(as_db s)\<lparr>db_orchestrations := db_orchestrations db, db_definitions := db_definitions db\<rparr> = db"
      by (rule agent_db.equality) simp_all
    ultimately show "db_ok db" by simp
  qed
  then show ?thesis by (auto simp: definition_delete_op_def Inr split: prod.splits sum.splits option.splits)
qed (use assms in \<open>simp add: definition_delete_op_def\<close>)

lemma definition_row_put:
  assumes "db_ok db" and "jmap_has (db_definitions db) i"
  shows "db_ok (db\<lparr>db_definitions := jmap_set i row (db_definitions db)\<rparr>)"
proof -
  have "jmap_has (jmap_set i row (db_definitions db)) j \<longleftrightarrow> jmap_has (db_definitions db) j" for j
    using assms(2) by (auto simp: jmap_has_def jm.get_put)
  then show ?thesis
    using assms(1) by (simp add: db_ok_def definition_row_ok_def orchestration_row_ok_def jm.ok_put)
qed

lemma agent_update_ok:
  assumes "db_ok (as_db s)"
  shows "db_ok (as_db (snd (definition_update_op env node i input s)))"
proof (cases "definition_update_parse input")
  case (Some p)
  let ?op = "\<lambda>db. case definition_get db i of
                 Inl e \<Rightarrow> Inl e
               | Inr None \<Rightarrow> Inr (DefMissing, db)
               | Inr (Some current) \<Rightarrow>
                   let flds = fieldsFromUpdate (ad_fields current) p in
                   case validate_fields node flds of
                     Some e \<Rightarrow> Inl e
                   | None \<Rightarrow> definition_update_row env i (du_expectedRevision p) flds db"
  have "db_ok (as_db (snd (transaction ?op s)))"
  proof (rule transaction_ok[OF assms])
    fix r db
    assume r: "?op (as_db s) = Inr (r, db)"
    then have "db = as_db s \<or> (\<exists>row. jmap_has (db_definitions (as_db s)) i
        \<and> db = (as_db s)\<lparr>db_definitions := jmap_set i row (db_definitions (as_db s))\<rparr>)"
      by (auto simp: definition_update_row_def definition_get_def jmap_has_def Let_def split: option.splits sum.splits if_splits)
    then show "db_ok db" using assms definition_row_put by blast
  qed
  then show ?thesis
    by (auto simp: definition_update_op_def Some split: prod.splits sum.splits definition_mutation.splits)
qed (use assms in \<open>simp add: definition_update_op_def\<close>)

lemma default_insert_ok:
  assumes "db_ok db" and "stable_id 120 i = Some i" and "\<not> jmap_has (db_definitions db) i"
    and "insertDefaultForAgent env i name (db\<lparr>db_definitions := jmap_set i row (db_definitions db)\<rparr>) = Inr (orch, db')"
  shows "db_ok db'"
proof -
  let ?k = "default_prefix @ i"
  define orow where "orow = the (jmap_get (db_orchestrations db') ?k)"
  have o: "db' = db\<lparr>db_definitions := jmap_set i row (db_definitions db), db_orchestrations := jmap_set ?k orow (db_orchestrations db)\<rparr>"
    and r: "oc_id orow = ?k" "row_graph orow = \<lparr>og_agentIds = [i], og_edges = []\<rparr>" and new: "\<not> jmap_has (db_orchestrations db) ?k"
    using assms(4) default_id[OF assms(2)]
    by (auto simp: insertDefaultForAgent_def orch_insert_def Let_def orow_def jm.get_put row_graph_def normalizeContent_def
        normalizeAgentOrchestrationGraph_def content_graph_def split: if_splits sum.splits)
  have g: "graph_ok (row_graph orow)" by (simp add: r(2) graph_ok_def graph_arcs_def agentOrchestrationHasEdge_def acyclic_def)
  have d: "definition_row_ok db' j" if "jmap_has (db_definitions db') j" for j
    using that assms(1,2) by (auto simp: o db_ok_def definition_row_ok_def jmap_has_def jm.get_put split: if_splits)
  have k: "orchestration_row_ok db' k x" if "jmap_get (db_orchestrations db') k = Some x" for k x
  proof (cases "k = ?k")
    case True
    then show ?thesis
      using that r g default_id[OF assms(2)] by (auto simp: o orchestration_row_ok_def jm.get_put jmap_has_def row_graph_def)
  next
    case False
    then have "orchestration_row_ok db k x" using that assms(1) by (simp add: o jm.get_put db_ok_def)
    then show ?thesis by (auto simp: o orchestration_row_ok_def jmap_has_def jm.get_put split: option.splits)
  qed
  show ?thesis using d k assms(1) by (simp add: db_ok_def) (simp add: o jm.ok_put db_ok_def)
qed

lemma agent_create_ok:
  assumes "db_ok (as_db s)" and "ids_ok env"
  shows "db_ok (as_db (snd (definition_create env node input s)))"
proof (cases "fields_parse input")
  case (Some flds)
  let ?i = "createId ''agent'' env"
  let ?op = "\<lambda>db. case validate_fields node flds of
                 Some e \<Rightarrow> Inl e
               | None \<Rightarrow> (case definition_insert env ?i flds db of
                   Inl e \<Rightarrow> Inl e
                 | Inr (d, db1) \<Rightarrow> (case insertDefaultForAgent env ?i (df_name flds) db1 of
                     Inl e \<Rightarrow> Inl e | Inr (orch, db2) \<Rightarrow> Inr ((d, orch), db2)))"
  have "db_ok (as_db (snd (transaction ?op s)))"
  proof (rule transaction_ok[OF assms(1)])
    fix r db
    assume r: "?op (as_db s) = Inr (r, db)"
    then obtain d db1 orch where d: "definition_insert env ?i flds (as_db s) = Inr (d, db1)"
      and o: "insertDefaultForAgent env ?i (df_name flds) db1 = Inr (orch, db)"
      by (auto split: option.splits sum.splits)
    then obtain row where "db1 = (as_db s)\<lparr>db_definitions := jmap_set ?i row (db_definitions (as_db s))\<rparr>"
      and new: "\<not> jmap_has (db_definitions (as_db s)) ?i"
      by (auto simp: definition_insert_def Let_def split: if_splits sum.splits)
    with o show "db_ok db" using assms by (intro default_insert_ok[OF assms(1) _ new, of env "df_name flds" row orch]) (auto simp: ids_ok_def)
  qed
  then show ?thesis by (auto simp: definition_create_def Some Let_def split: prod.splits sum.splits)
qed (use assms in \<open>simp add: definition_create_def\<close>)

lemma agent_run_ok:
  "db_ok (as_db s) \<Longrightarrow> list_all (\<lambda>(env, _). ids_ok env) ops \<Longrightarrow> db_ok (as_db (foldl agent_step s ops))"
proof (induction ops arbitrary: s)
  case (Cons op ops)
  obtain env node x where op: "op = (env, node, x)" by (metis surj_pair)
  have "db_ok (as_db (agent_step s op))"
    using Cons.prems by (cases x)
      (auto simp: op intro: orchestration_create_ok orchestration_update_ok orchestration_delete_ok agent_create_ok agent_update_ok agent_delete_ok)
  then show ?case using Cons by simp
qed simp

text \<open>
  Claim C6. Agents and orchestrations stay consistent. After any sequence of calls of the two services on a
  node that started without agents, accepted or refused: every agent has its default orchestration;
  every default orchestration belongs to an agent that exists and has it among its nodes; and every
  orchestration has nodes, has only edges between different nodes of its own, has no cycle, and has
  at least one entry node.
\<close>

theorem orchestrations_stay_consistent:
  assumes "list_all (\<lambda>(env, _). ids_ok env) ops"
    and "db = as_db (foldl agent_step \<lparr>as_db = \<lparr>db_definitions = [], db_orchestrations = []\<rparr>, as_events = []\<rparr> ops)"
  shows "(\<forall>i. jmap_has (db_definitions db) i \<longrightarrow> jmap_has (db_orchestrations db) (default_prefix @ i))
    \<and> (\<forall>k r. jmap_get (db_orchestrations db) k = Some r \<longrightarrow>
         graph_ok (row_graph r) \<and> agentOrchestrationEntryAgentIds (row_graph r) \<noteq> []
         \<and> (\<forall>a. defaultAgentOrchestrationOwnerAgentId k = Some a \<longrightarrow>
              jmap_has (db_definitions db) a \<and> agentOrchestrationContainsAgent (row_graph r) a))"
proof -
  have "db_ok db" unfolding assms(2) by (rule agent_run_ok[OF _ assms(1)]) (simp add: db_ok_def jmap_has_def jmap_get_def)
  moreover have "graph_ok g \<Longrightarrow> agentOrchestrationEntryAgentIds g \<noteq> []" for g
    by (rule acyclic_has_entry) (auto simp: graph_ok_def)
  ultimately show ?thesis
    by (auto simp: db_ok_def definition_row_ok_def orchestration_row_ok_def agentOrchestrationContainsAgent_def row_graph_def)
qed

definition demo_agent_env :: agent_env where
  "demo_agent_env = \<lparr>ae_sha256 = (\<lambda>_. replicate 64 (CHR ''a'')), ae_collate = (\<le>), ae_now = ''2024-01-01T00:00:00.000Z'', ae_idPayload = ''01hz''\<rparr>"

definition demo_node :: node_view where
  "demo_node = \<lparr>nv_hasInstance = (\<lambda>_. True), nv_resolveFolder = (\<lambda>_ _. FolderResolved), nv_supportsProvider = (\<lambda>_ _. True)\<rparr>"

definition demo_fields :: definition_fields where
  "demo_fields = \<lparr>df_name = ''Reviewer'', df_description = [], df_appendedPrompt = [], df_targetInstanceId = ''inst1'',
     df_cwdFolderId = ''folder1'', df_providerId = ''codex'', df_modelEntityId = None, df_modelName = None, df_modelUpstreamName = None,
     df_reasoningEffort = None, df_permissionMode = None,
     df_executionPolicy = \<lparr>ep_workspaceMaterializer = OverlayCopyOnWrite, ep_processSandbox = InstanceSandbox\<rparr>\<rparr>"

definition no_agents :: agent_state where
  "no_agents = \<lparr>as_db = \<lparr>db_definitions = [], db_orchestrations = []\<rparr>, as_events = []\<rparr>"

lemma demo_stable:
  "stable_id 120 ''agent_01hz'' = Some ''agent_01hz''" "stable_id 160 ''orchestration_01hz'' = Some ''orchestration_01hz''"
  "stable_id 160 ''default:agent_01hz'' = Some ''default:agent_01hz''" "stable_id 120 ''inst1'' = Some ''inst1''"
  "stable_id 120 ''folder1'' = Some ''folder1''" "stable_id 120 ''codex'' = Some ''codex''"
  "nonempty_text 120 ''Reviewer'' = Some ''Reviewer''" "trimmed_text 2000 [] = Some []"
  by code_simp+

lemma demo_ids: "ids_ok demo_agent_env"
  using demo_stable by (simp add: ids_ok_def createId_def demo_agent_env_def)

lemma demo_revision: "revision_text (replicate 64 (CHR ''a''))"
  by (simp add: revision_text_def list_all_iff)

lemma demo_created:
  "jmap_has (db_definitions (as_db (agent_step no_agents (demo_agent_env, demo_node, CreateAgent demo_fields)))) ''agent_01hz''"
proof -
  have f: "fields_parse demo_fields = Some demo_fields"
    using demo_stable by (simp add: fields_parse_def fields_ok_def fields_trim_def demo_fields_def opt_parse_def)
  have v: "validate_fields demo_node demo_fields = None"
    by (simp add: validate_fields_def demo_node_def demo_fields_def isPublishedAgentExecutionPolicy_def)
  have i: "createId ''agent'' demo_agent_env = ''agent_01hz''" by (simp add: createId_def demo_agent_env_def)
  have d: "datetime_text ''2024-01-01T00:00:00.000Z''" using demo_date by (simp add: datetime_text_def)
  have env: "ae_now demo_agent_env = ''2024-01-01T00:00:00.000Z''" "ae_sha256 demo_agent_env x = replicate 64 (CHR ''a'')" for x
    by (simp_all only: demo_agent_env_def agent_env.simps)
  obtain x db1 where x: "definition_insert demo_agent_env ''agent_01hz'' demo_fields (as_db no_agents) = Inr (x, db1)"
    and db1: "jmap_has (db_definitions db1) ''agent_01hz''" "db_orchestrations db1 = []"
    using demo_stable f d demo_revision
    by (simp add: definition_insert_def requireDefinition_def definition_get_def sanitizeAgentDefinition_def no_agents_def jmap_has_def
        jmap_get_def jmap_set_def env agentDefinitionRevision_def)
  obtain orch db2 where o: "insertDefaultForAgent demo_agent_env ''agent_01hz'' (df_name demo_fields) db1 = Inr (orch, db2)"
    and db2: "db_definitions db2 = db_definitions db1"
    using demo_stable d demo_revision db1(2)
    by (simp add: insertDefaultForAgent_def defaultAgentOrchestrationId_def default_prefix_def orch_insert_def requireOrchestration_def
        orch_get_def orchestrationFromRow_def sanitizeAgentOrchestration_def normalizeContent_def normalizeAgentOrchestrationGraph_def
        content_graph_def jmap_has_def jmap_get_def jmap_set_def env agentOrchestrationRevision_def list_parse_def parse_all_def
        demo_fields_def Let_def)
  show ?thesis using f v i x o db1 db2 by (simp add: definition_create_def transaction_def)
qed

theorem orchestrations_stay_consistent_witness:
  "jmap_has (db_orchestrations (as_db (agent_step no_agents (demo_agent_env, demo_node, CreateAgent demo_fields)))) ''default:agent_01hz''"
  using orchestrations_stay_consistent[of "[(demo_agent_env, demo_node, CreateAgent demo_fields)]", OF _ refl] demo_ids demo_created
  by (simp add: no_agents_def default_prefix_def)

section \<open>Updates are optimistic\<close>

lemma update_row_result:
  assumes "orch_update_row env k er c db = Inr (m, db')" and "orch_get env db k = Inr (Some current)"
  shows "(case m of
      OrchUpdated orch \<Rightarrow> oc_revision current = er \<and> requireOrchestration env db' k = Inr orch
    | OrchRevisionConflict orch \<Rightarrow> db' = db \<and> orch = current \<and> oc_revision current \<noteq> er
    | OrchMissing \<Rightarrow> False)"
  using assms by (auto simp: orch_update_row_def Let_def split: if_splits sum.splits)

text \<open>
  Claim C36. An update of an orchestration is applied only to the revision its caller has read. When it is
  accepted, the stored revision was the expected one, the answer is what the database now holds, and
  exactly that is published; when it is refused, nothing has changed and nothing is published, and
  the conflict error names the revision the caller expected and the one that is stored.
\<close>

theorem orchestration_update_is_optimistic:
  assumes "orchestration_update env k input s = (r, s')" and "update_parse input = Some p"
    and "orch_get env (as_db s) k = Inr (Some current)"
  shows "case r of
      Inr orch \<Rightarrow> ou_expectedRevision p = oc_revision current \<and> requireOrchestration env (as_db s') k = Inr orch
        \<and> as_events s' = as_events s @ [OrchestrationChanged Updated orch]
    | Inl e \<Rightarrow> s' = s \<and> (\<forall>expected actual. e = OrchestrationConflict expected actual \<longrightarrow>
        expected = ou_expectedRevision p \<and> actual = oc_revision current \<and> expected \<noteq> actual)"
proof (cases "validateGraph env (as_db s) (updated_content p current) k (Some current)")
  case (Some e)
  have "e \<noteq> OrchestrationConflict x y" for x y
    using Some by (auto simp: validateGraph_def Let_def owner_error_def definition_get_def edge_error_def node_error_def
        split: option.splits if_splits sum.splits dest!: first_error_Some)
  then show ?thesis using assms Some by (auto simp: orchestration_update_def transaction_def)
next
  case None
  let ?row = "orch_update_row env k (ou_expectedRevision p) (updated_content p current) (as_db s)"
  show ?thesis
  proof (cases ?row)
    case (Inl e)
    have "e \<noteq> OrchestrationConflict x y" for x y
      using Inl by (auto simp: orch_update_row_def requireOrchestration_def orch_get_def orchestrationFromRow_def Let_def
          split: if_splits sum.splits option.splits)
    then show ?thesis using assms None Inl by (auto simp: orchestration_update_def transaction_def)
  next
    case (Inr mdb)
    obtain m db' where m: "mdb = (m, db')" by fastforce
    with update_row_result[OF _ assms(3)] Inr have "case m of
        OrchUpdated orch \<Rightarrow> oc_revision current = ou_expectedRevision p \<and> requireOrchestration env db' k = Inr orch
      | OrchRevisionConflict orch \<Rightarrow> db' = as_db s \<and> orch = current \<and> oc_revision current \<noteq> ou_expectedRevision p
      | OrchMissing \<Rightarrow> False" by blast
    then show ?thesis using assms None Inr m
      by (cases m; cases r) (auto simp: orchestration_update_def transaction_def agent_publish_def)
  qed
qed

definition demo_orchestration :: orchestration where
  "demo_orchestration = \<lparr>oc_id = ''orchestration_01hz'', oc_revision = replicate 64 (CHR ''a''), oc_name = ''Reviewer'',
     oc_agentIds = [''agent_01hz''], oc_edges = [], oc_createdAt = ''2024-01-01T00:00:00.000Z'', oc_updatedAt = ''2024-01-01T00:00:00.000Z''\<rparr>"

definition demo_agents :: agent_state where
  "demo_agents = \<lparr>as_db = \<lparr>db_definitions = [], db_orchestrations = [(''orchestration_01hz'', demo_orchestration)]\<rparr>, as_events = []\<rparr>"

definition stale_update :: orch_update where
  "stale_update = \<lparr>ou_expectedRevision = replicate 64 (CHR ''b''), ou_name = Some ''Reviewer'', ou_agentIds = None, ou_edges = None\<rparr>"

lemma stale_update_valid: "validateGraph demo_agent_env (as_db demo_agents) (updated_content stale_update demo_orchestration) ''orchestration_01hz'' (Some demo_orchestration) = None"
  by code_simp

theorem orchestration_update_is_optimistic_witness:
  "orchestration_update demo_agent_env ''orchestration_01hz'' stale_update demo_agents
     = (Inl (OrchestrationConflict (replicate 64 (CHR ''b'')) (replicate 64 (CHR ''a''))), demo_agents)"
proof -
  have u: "update_parse stale_update = Some stale_update"
    using demo_stable by (simp add: update_parse_def stale_update_def opt_parse_def revision_text_def list_all_iff)
  have d: "datetime_text ''2024-01-01T00:00:00.000Z''" using demo_date by (simp add: datetime_text_def)
  have g: "orch_get demo_agent_env (as_db demo_agents) ''orchestration_01hz'' = Inr (Some demo_orchestration)"
    using demo_stable d demo_revision
    by (simp add: orch_get_def demo_agents_def jmap_get_def orchestrationFromRow_def demo_orchestration_def sanitizeAgentOrchestration_def
        normalizeContent_def normalizeAgentOrchestrationGraph_def content_graph_def list_parse_def parse_all_def Let_def)
  have ne: "ou_expectedRevision stale_update \<noteq> oc_revision demo_orchestration"
    by (simp add: stale_update_def demo_orchestration_def)
  obtain s' where c: "orchestration_update demo_agent_env ''orchestration_01hz'' stale_update demo_agents
      = (Inl (OrchestrationConflict (ou_expectedRevision stale_update) (oc_revision demo_orchestration)), s')"
    using u g ne stale_update_valid by (simp add: orchestration_update_def transaction_def orch_update_row_def)
  with orchestration_update_is_optimistic[OF c u g] show ?thesis by (simp add: stale_update_def demo_orchestration_def)
qed

end
