(* ===== verification/Delta_Coalescer.thy ===== *)
theory Delta_Coalescer
  imports Js_Prelude Js_Json
begin

text \<open>
  The coalescer of message deltas
  (\<^verbatim>\<open>packages/controlled-instance/src/web/ai-session-message-delta-coalescer.ts\<close>). Text that a model streams is collected per
  message and published once per window. The clock's timers are part of the state: \<open>dc_timers\<close> holds the callbacks that are
  armed, by handle, with the key they flush and the time they are due; \<open>dc_emitted\<close> is what \<^verbatim>\<open>emit\<close> was called with. Times and
  the window are integers of milliseconds. The lemmas show that no text is lost, repeated or reordered, and that every batch that
  waits has exactly one armed timer.
\<close>

section \<open>Data\<close>

definition DEFAULT_WINDOW_MS :: int where "DEFAULT_WINDOW_MS = 32"
definition MIN_WINDOW_MS :: int where "MIN_WINDOW_MS = 20"
definition MAX_WINDOW_MS :: int where "MAX_WINDOW_MS = 50"

datatype flush_reason = FlushWindow | FlushManual | FlushCompleted | FlushFailed | FlushWaiting | FlushInterrupted
  | FlushAuthoritativeEvent | FlushEventSourceClose | FlushServiceClose

record delta_key =
  dk_instanceId :: string
  dk_sessionId :: string
  dk_turnId :: "string option"
  dk_itemId :: "string option"

record delta_event = delta_key +
  de_nodeId :: "string option"
  de_providerSessionId :: "string option"
  de_delta :: string
  de_generatedAt :: string

record delta_diagnostics =
  dd_rawDeltaCount :: nat
  dd_emittedEventCount :: nat
  dd_totalBatchSize :: nat
  dd_maxBatchSize :: nat
  dd_flushReasons :: "(flush_reason, nat) jmap"
  dd_totalFirstBatchWaitMs :: int
  dd_maxFirstBatchWaitMs :: int

record delta_batch =
  db_chunks :: "string list"
  db_firstReceivedAtMs :: int
  db_lastPayload :: delta_event
  db_timer :: nat

record coalescer =
  dc_windowMs :: int
  dc_pending :: "(string, delta_batch) jmap"
  dc_diagnosticState :: delta_diagnostics
  dc_isClosed :: bool
  dc_timers :: "(nat, string \<times> int) jmap"
  dc_nextTimer :: nat
  dc_emitted :: "delta_event list"

datatype coalescer_error = WindowRange | CoalescerClosed

section \<open>Operations\<close>

definition messageKey :: "'a delta_key_scheme \<Rightarrow> string" where
  "messageKey p = json_strings [Some (dk_instanceId p), Some (dk_sessionId p), dk_turnId p, dk_itemId p]"

text \<open>\<open>None\<close> is a window that is not finite.\<close>

definition validateWindowMs :: "int option \<Rightarrow> coalescer_error + int" where
  "validateWindowMs w = (case w of None \<Rightarrow> Inl WindowRange
     | Some n \<Rightarrow> if n < MIN_WINDOW_MS \<or> n > MAX_WINDOW_MS then Inl WindowRange else Inr n)"

definition coalescer_new :: "int option option \<Rightarrow> coalescer_error + coalescer" where
  "coalescer_new windowMs =
     (case validateWindowMs (case windowMs of None \<Rightarrow> Some DEFAULT_WINDOW_MS | Some w \<Rightarrow> w) of
        Inl e \<Rightarrow> Inl e
      | Inr w \<Rightarrow> Inr \<lparr>dc_windowMs = w, dc_pending = [],
          dc_diagnosticState = \<lparr>dd_rawDeltaCount = 0, dd_emittedEventCount = 0, dd_totalBatchSize = 0, dd_maxBatchSize = 0,
            dd_flushReasons = [], dd_totalFirstBatchWaitMs = 0, dd_maxFirstBatchWaitMs = 0\<rparr>,
          dc_isClosed = False, dc_timers = [], dc_nextTimer = 0, dc_emitted = []\<rparr>)"

definition pendingCount :: "coalescer \<Rightarrow> nat" where
  "pendingCount c = length (dc_pending c)"

definition push :: "int \<Rightarrow> delta_event \<Rightarrow> coalescer \<Rightarrow> coalescer_error + coalescer" where
  "push now payload c =
     (if dc_isClosed c then Inl CoalescerClosed
      else let d = dc_diagnosticState c;
               c = c\<lparr>dc_diagnosticState := d\<lparr>dd_rawDeltaCount := dd_rawDeltaCount d + 1\<rparr>\<rparr>;
               key = messageKey payload in
           case jmap_get (dc_pending c) key of
             Some existing \<Rightarrow> Inr (c\<lparr>dc_pending := jmap_set key
                 (existing\<lparr>db_chunks := db_chunks existing @ [de_delta payload], db_lastPayload := payload\<rparr>) (dc_pending c)\<rparr>)
           | None \<Rightarrow> Inr (c\<lparr>
               dc_timers := jmap_set (dc_nextTimer c) (key, now + dc_windowMs c) (dc_timers c),
               dc_nextTimer := dc_nextTimer c + 1,
               dc_pending := jmap_set key \<lparr>db_chunks = [de_delta payload], db_firstReceivedAtMs = now, db_lastPayload = payload,
                 db_timer = dc_nextTimer c\<rparr> (dc_pending c)\<rparr>))"

definition count_flush :: "int \<Rightarrow> flush_reason \<Rightarrow> delta_batch \<Rightarrow> delta_diagnostics \<Rightarrow> delta_diagnostics" where
  "count_flush now reason batch d =
     (let batchSize = length (db_chunks batch); waitMs = max 0 (now - db_firstReceivedAtMs batch) in d\<lparr>
        dd_emittedEventCount := dd_emittedEventCount d + 1,
        dd_totalBatchSize := dd_totalBatchSize d + batchSize,
        dd_maxBatchSize := max (dd_maxBatchSize d) batchSize,
        dd_flushReasons := jmap_set reason ((case jmap_get (dd_flushReasons d) reason of None \<Rightarrow> 0 | Some n \<Rightarrow> n) + 1) (dd_flushReasons d),
        dd_totalFirstBatchWaitMs := dd_totalFirstBatchWaitMs d + waitMs,
        dd_maxFirstBatchWaitMs := max (dd_maxFirstBatchWaitMs d) waitMs\<rparr>)"

definition flushByKey :: "int \<Rightarrow> string \<Rightarrow> flush_reason \<Rightarrow> coalescer \<Rightarrow> bool \<times> coalescer" where
  "flushByKey now key reason c =
     (case jmap_get (dc_pending c) key of
        None \<Rightarrow> (False, c)
      | Some batch \<Rightarrow> (True, c\<lparr>
          dc_pending := jmap_delete key (dc_pending c),
          dc_timers := jmap_delete (db_timer batch) (dc_timers c),
          dc_diagnosticState := count_flush now reason batch (dc_diagnosticState c),
          dc_emitted := dc_emitted c @ [(db_lastPayload batch)\<lparr>de_delta := concat (db_chunks batch)\<rparr>]\<rparr>))"

definition flush :: "int \<Rightarrow> 'a delta_key_scheme \<Rightarrow> flush_reason \<Rightarrow> coalescer \<Rightarrow> bool \<times> coalescer" where
  "flush now payload reason c = flushByKey now (messageKey payload) reason c"

fun flush_keys :: "int \<Rightarrow> flush_reason \<Rightarrow> string list \<Rightarrow> nat \<Rightarrow> coalescer \<Rightarrow> nat \<times> coalescer" where
  "flush_keys now reason [] flushed c = (flushed, c)"
| "flush_keys now reason (key # keys) flushed c =
     (case flushByKey now key reason c of (did, c) \<Rightarrow> flush_keys now reason keys (if did then flushed + 1 else flushed) c)"

definition flushAll :: "int \<Rightarrow> flush_reason \<Rightarrow> coalescer \<Rightarrow> nat \<times> coalescer" where
  "flushAll now reason c = flush_keys now reason (jmap_keys (dc_pending c)) 0 c"

definition close_coalescer :: "int \<Rightarrow> flush_reason \<Rightarrow> coalescer \<Rightarrow> nat \<times> coalescer" where
  "close_coalescer now reason c = (if dc_isClosed c then (0, c) else flushAll now reason (c\<lparr>dc_isClosed := True\<rparr>))"

text \<open>A timer that is armed and due runs its callback.\<close>

definition fire :: "int \<Rightarrow> nat \<Rightarrow> coalescer \<Rightarrow> coalescer" where
  "fire now handle c =
     (case jmap_get (dc_timers c) handle of
        None \<Rightarrow> c
      | Some (key, due) \<Rightarrow>
          if now < due then c
          else snd (flushByKey now key FlushWindow (c\<lparr>dc_timers := jmap_delete handle (dc_timers c)\<rparr>)))"

section \<open>Runs\<close>

datatype coalescer_step = Push delta_event | Flush delta_key flush_reason | FlushAll flush_reason | Close flush_reason | Fire nat

definition coalescer_step :: "coalescer \<Rightarrow> int \<times> coalescer_step \<Rightarrow> coalescer" where
  "coalescer_step c e =
     (case e of (now, s) \<Rightarrow> (case s of
        Push p \<Rightarrow> (case push now p c of Inl _ \<Rightarrow> c | Inr c \<Rightarrow> c)
      | Flush k r \<Rightarrow> snd (flush now k r c)
      | FlushAll r \<Rightarrow> snd (flushAll now r c)
      | Close r \<Rightarrow> snd (close_coalescer now r c)
      | Fire h \<Rightarrow> fire now h c))"

text \<open>The events that were accepted, in order.\<close>

fun accepted :: "coalescer \<Rightarrow> (int \<times> coalescer_step) list \<Rightarrow> delta_event list" where
  "accepted c [] = []"
| "accepted c ((now, s) # es) =
     (case s of Push p \<Rightarrow> if dc_isClosed c then [] else [p] | _ \<Rightarrow> []) @ accepted (coalescer_step c (now, s)) es"

text \<open>The text of one message in a list of events, and the text that waits.\<close>

definition text_of :: "string \<Rightarrow> delta_event list \<Rightarrow> string" where
  "text_of key ps = concat (map de_delta (filter (\<lambda>p. messageKey p = key) ps))"

definition waiting_text :: "coalescer \<Rightarrow> string \<Rightarrow> string" where
  "waiting_text c key = (case jmap_get (dc_pending c) key of None \<Rightarrow> [] | Some b \<Rightarrow> concat (db_chunks b))"

lemma text_of_simps [simp]:
  "text_of key [] = []" "text_of key (xs @ ys) = text_of key xs @ text_of key ys"
  "text_of key (p # ps) = (if messageKey p = key then de_delta p else []) @ text_of key ps"
  by (simp_all add: text_of_def)

lemma messageKey_update [simp]: "messageKey (p\<lparr>de_delta := d\<rparr>) = messageKey p"
  by (simp add: messageKey_def)

section \<open>The invariant\<close>

text \<open>Every batch belongs to the message of its key, and batches and armed timers correspond one to one.\<close>

definition coalescer_inv :: "coalescer \<Rightarrow> bool" where
  "coalescer_inv c \<longleftrightarrow> jmap_ok (dc_pending c) \<and> jmap_ok (dc_timers c)
     \<and> (\<forall>key b. jmap_get (dc_pending c) key = Some b \<longrightarrow> messageKey (db_lastPayload b) = key
          \<and> jmap_get (dc_timers c) (db_timer b) = Some (key, db_firstReceivedAtMs b + dc_windowMs c))
     \<and> (\<forall>h key due. jmap_get (dc_timers c) h = Some (key, due) \<longrightarrow> h < dc_nextTimer c
          \<and> (\<exists>b. jmap_get (dc_pending c) key = Some b \<and> db_timer b = h))"

lemma coalescer_new_inv: "coalescer_new w = Inr c \<Longrightarrow> coalescer_inv c \<and> dc_pending c = [] \<and> dc_emitted c = [] \<and> \<not> dc_isClosed c
    \<and> MIN_WINDOW_MS \<le> dc_windowMs c \<and> dc_windowMs c \<le> MAX_WINDOW_MS"
  by (auto simp: coalescer_new_def validateWindowMs_def coalescer_inv_def jmap_get_def split: option.splits sum.splits if_splits)

lemma flushByKey_inv:
  assumes "coalescer_inv c"
  shows "coalescer_inv (snd (flushByKey now key reason c))"
proof (cases "jmap_get (dc_pending c) key")
  case None
  then show ?thesis using assms by (simp add: flushByKey_def)
next
  case (Some b)
  let ?c = "snd (flushByKey now key reason c)"
  have c: "dc_pending ?c = jmap_delete key (dc_pending c)" "dc_timers ?c = jmap_delete (db_timer b) (dc_timers c)"
    "dc_nextTimer ?c = dc_nextTimer c" "dc_windowMs ?c = dc_windowMs c" using Some by (simp_all add: flushByKey_def)
  have ok: "jmap_ok (dc_pending c)" "jmap_ok (dc_timers c)" using assms by (simp_all add: coalescer_inv_def)
  have t: "jmap_get (dc_timers c) (db_timer b) = Some (key, db_firstReceivedAtMs b + dc_windowMs c)"
    using assms Some by (simp add: coalescer_inv_def)
  show ?thesis
    unfolding coalescer_inv_def c
  proof (intro conjI allI impI)
    fix k b' assume "jmap_get (jmap_delete key (dc_pending c)) k = Some b'"
    then have k: "k \<noteq> key" "jmap_get (dc_pending c) k = Some b'" using ok by (auto simp: jm.get_del split: if_splits)
    then have k': "messageKey (db_lastPayload b') = k" "jmap_get (dc_timers c) (db_timer b') = Some (k, db_firstReceivedAtMs b' + dc_windowMs c)"
      using assms unfolding coalescer_inv_def by blast+
    then show "messageKey (db_lastPayload b') = k" by simp
    have "db_timer b' \<noteq> db_timer b" using k'(2) t k(1) by auto
    then show "jmap_get (jmap_delete (db_timer b) (dc_timers c)) (db_timer b') = Some (k, db_firstReceivedAtMs b' + dc_windowMs c)"
      using k'(2) ok by (simp add: jm.get_del)
  next
    fix h k due assume "jmap_get (jmap_delete (db_timer b) (dc_timers c)) h = Some (k, due)"
    then have h: "h \<noteq> db_timer b" "jmap_get (dc_timers c) h = Some (k, due)" using ok by (auto simp: jm.get_del split: if_splits)
    then obtain b' where b': "h < dc_nextTimer c" "jmap_get (dc_pending c) k = Some b'" "db_timer b' = h"
      using assms unfolding coalescer_inv_def by blast
    show "h < dc_nextTimer c" by (rule b'(1))
    have "k \<noteq> key" using b' h Some by auto
    then show "\<exists>b'. jmap_get (jmap_delete key (dc_pending c)) k = Some b' \<and> db_timer b' = h" using b' ok by (simp add: jm.get_del)
  qed (use ok in \<open>simp_all add: jm.ok_del\<close>)
qed

lemma flushByKey_text:
  assumes "coalescer_inv c"
  shows "text_of k (dc_emitted (snd (flushByKey now key reason c))) @ waiting_text (snd (flushByKey now key reason c)) k
    = text_of k (dc_emitted c) @ waiting_text c k"
  using assms
  by (auto simp: flushByKey_def coalescer_inv_def waiting_text_def jm.get_del split: option.splits)

lemma flushByKey_frame:
  "dc_pending (snd (flushByKey now key reason c)) = jmap_delete key (dc_pending c)"
  "dc_isClosed (snd (flushByKey now key reason c)) = dc_isClosed c" "dc_windowMs (snd (flushByKey now key reason c)) = dc_windowMs c"
  by (auto simp: flushByKey_def jmap_get_None jmap_delete_absent split: option.splits)

lemma push_new_inv:
  assumes inv: "coalescer_inv c" and none: "jmap_get (dc_pending c) (messageKey p) = None" and c': "push now p c = Inr c'"
  shows "coalescer_inv c'"
proof -
  let ?key = "messageKey p"
  let ?b = "\<lparr>db_chunks = [de_delta p], db_firstReceivedAtMs = now, db_lastPayload = p, db_timer = dc_nextTimer c\<rparr>"
  have c: "dc_pending c' = jmap_set ?key ?b (dc_pending c)" "dc_timers c' = jmap_set (dc_nextTimer c) (?key, now + dc_windowMs c) (dc_timers c)"
    "dc_nextTimer c' = dc_nextTimer c + 1" "dc_windowMs c' = dc_windowMs c"
    using c' none by (auto simp: push_def Let_def split: if_splits)
  have ok: "jmap_ok (dc_pending c)" "jmap_ok (dc_timers c)" using inv by (simp_all add: coalescer_inv_def)
  have fresh: "jmap_get (dc_timers c) (dc_nextTimer c) = None"
  proof (cases "jmap_get (dc_timers c) (dc_nextTimer c)")
    case (Some t)
    obtain k due where "t = (k, due)" by fastforce
    then have "dc_nextTimer c < dc_nextTimer c" using inv Some unfolding coalescer_inv_def by blast
    then show ?thesis by simp
  qed
  show ?thesis
    unfolding coalescer_inv_def c
  proof (intro conjI allI impI)
    fix k b assume b: "jmap_get (jmap_set ?key ?b (dc_pending c)) k = Some b"
    have "messageKey (db_lastPayload b) = k \<and> jmap_get (jmap_set (dc_nextTimer c) (?key, now + dc_windowMs c) (dc_timers c)) (db_timer b)
        = Some (k, db_firstReceivedAtMs b + dc_windowMs c)"
    proof (cases "k = ?key")
      case True
      then show ?thesis using b by auto
    next
      case False
      then have "jmap_get (dc_pending c) k = Some b" using b by simp
      then have "messageKey (db_lastPayload b) = k" "jmap_get (dc_timers c) (db_timer b) = Some (k, db_firstReceivedAtMs b + dc_windowMs c)"
        using inv unfolding coalescer_inv_def by blast+
      then show ?thesis using fresh by (auto simp: jm.get_put)
    qed
    then show "messageKey (db_lastPayload b) = k" "jmap_get (jmap_set (dc_nextTimer c) (?key, now + dc_windowMs c) (dc_timers c)) (db_timer b)
        = Some (k, db_firstReceivedAtMs b + dc_windowMs c)" by blast+
  next
    fix h k due assume h: "jmap_get (jmap_set (dc_nextTimer c) (?key, now + dc_windowMs c) (dc_timers c)) h = Some (k, due)"
    have "h < dc_nextTimer c + 1 \<and> (\<exists>b. jmap_get (jmap_set ?key ?b (dc_pending c)) k = Some b \<and> db_timer b = h)"
    proof (cases "h = dc_nextTimer c")
      case True
      then show ?thesis using h by auto
    next
      case False
      then have "jmap_get (dc_timers c) h = Some (k, due)" using h by simp
      then obtain b where "h < dc_nextTimer c" "jmap_get (dc_pending c) k = Some b" "db_timer b = h" using inv unfolding coalescer_inv_def by blast
      then show ?thesis using none by (cases "k = ?key") auto
    qed
    then show "h < dc_nextTimer c + 1" "\<exists>b. jmap_get (jmap_set ?key ?b (dc_pending c)) k = Some b \<and> db_timer b = h" by blast+
  qed (use ok in \<open>simp_all add: jm.ok_put\<close>)
qed

lemma push_append_inv:
  assumes inv: "coalescer_inv c" and old: "jmap_get (dc_pending c) (messageKey p) = Some b" and c': "push now p c = Inr c'"
  shows "coalescer_inv c'"
proof -
  let ?key = "messageKey p" and ?b = "b\<lparr>db_chunks := db_chunks b @ [de_delta p], db_lastPayload := p\<rparr>"
  have c: "dc_pending c' = jmap_set ?key ?b (dc_pending c)" "dc_timers c' = dc_timers c" "dc_nextTimer c' = dc_nextTimer c" "dc_windowMs c' = dc_windowMs c"
    using c' old by (auto simp: push_def Let_def split: if_splits)
  have get: "jmap_get (jmap_set ?key ?b (dc_pending c)) k = (if k = ?key then Some ?b else jmap_get (dc_pending c) k)" for k
    by (simp add: jm.get_put)
  have t: "jmap_get (dc_timers c) (db_timer b) = Some (?key, db_firstReceivedAtMs b + dc_windowMs c)" using inv old unfolding coalescer_inv_def by blast
  show ?thesis
    unfolding coalescer_inv_def c get
  proof (intro conjI allI impI)
    fix k b' assume "(if k = ?key then Some ?b else jmap_get (dc_pending c) k) = Some b'"
    then have "b' = ?b \<and> k = ?key \<or> jmap_get (dc_pending c) k = Some b'" by (auto split: if_splits)
    then show "messageKey (db_lastPayload b') = k" "jmap_get (dc_timers c) (db_timer b') = Some (k, db_firstReceivedAtMs b' + dc_windowMs c)"
      using inv t unfolding coalescer_inv_def by auto
  next
    fix h k due assume "jmap_get (dc_timers c) h = Some (k, due)"
    then obtain b' where "h < dc_nextTimer c" "jmap_get (dc_pending c) k = Some b'" "db_timer b' = h" using inv unfolding coalescer_inv_def by blast
    then show "h < dc_nextTimer c" "\<exists>b'. (if k = ?key then Some ?b else jmap_get (dc_pending c) k) = Some b' \<and> db_timer b' = h"
      using old by auto
  qed (use inv in \<open>simp_all add: coalescer_inv_def jm.ok_put\<close>)
qed

lemma push_inv: "coalescer_inv c \<Longrightarrow> push now p c = Inr c' \<Longrightarrow> coalescer_inv c'"
  using push_new_inv push_append_inv by (cases "jmap_get (dc_pending c) (messageKey p)") blast+

lemma push_closed: "push now p c = Inl x \<longleftrightarrow> dc_isClosed c \<and> x = CoalescerClosed"
  by (auto simp: push_def Let_def split: option.splits)

lemma push_text:
  assumes "push now p c = Inr c'"
  shows "text_of k (dc_emitted c') @ waiting_text c' k = text_of k (dc_emitted c) @ waiting_text c k @ text_of k [p]"
  using assms by (auto simp: push_def Let_def waiting_text_def jm.get_put split: if_splits option.splits)

lemma flush_keys_facts:
  assumes "coalescer_inv c"
  shows "coalescer_inv (snd (flush_keys now r keys n c))
    \<and> text_of k (dc_emitted (snd (flush_keys now r keys n c))) @ waiting_text (snd (flush_keys now r keys n c)) k
      = text_of k (dc_emitted c) @ waiting_text c k
    \<and> set (jmap_keys (dc_pending (snd (flush_keys now r keys n c)))) = set (jmap_keys (dc_pending c)) - set keys"
  using assms
proof (induction keys arbitrary: n c)
  case (Cons key keys)
  let ?c = "snd (flushByKey now key r c)"
  obtain m where "flush_keys now r (key # keys) n c = flush_keys now r keys m ?c" by (cases "flushByKey now key r c") auto
  moreover have "set (jmap_keys (dc_pending ?c)) = set (jmap_keys (dc_pending c)) - {key}"
    by (auto simp: flushByKey_frame jmap_delete_filter)
  ultimately show ?case
    using Cons.IH [OF flushByKey_inv [OF Cons.prems, of now key r], of m] flushByKey_text [OF Cons.prems] by auto
qed simp_all

lemmas flush_keys_inv = flush_keys_facts [THEN conjunct1]
lemmas flush_keys_text = flush_keys_facts [THEN conjunct2, THEN conjunct1]
lemmas flush_keys_pending = flush_keys_facts [THEN conjunct2, THEN conjunct2]

lemma fire_flush:
  assumes inv: "coalescer_inv c" and h: "jmap_get (dc_timers c) h = Some (key, due)" "due \<le> now"
  shows "fire now h c = snd (flushByKey now key FlushWindow c)"
proof -
  obtain b where "jmap_get (dc_pending c) key = Some b" "db_timer b = h" using inv h(1) unfolding coalescer_inv_def by blast
  then show ?thesis using h by (simp add: fire_def flushByKey_def jmap_delete_filter)
qed

lemma fire_id: "(\<And>key due. jmap_get (dc_timers c) h = Some (key, due) \<Longrightarrow> now < due) \<Longrightarrow> fire now h c = c"
  by (auto simp: fire_def split: option.splits)

definition good_coalescer :: "coalescer \<Rightarrow> bool" where
  "good_coalescer c \<longleftrightarrow> coalescer_inv c \<and> (dc_isClosed c \<longrightarrow> dc_pending c = [])"

lemma flushAll_empty: "coalescer_inv c \<Longrightarrow> dc_pending (snd (flushAll now r c)) = []"
  using flush_keys_pending [of c now r "jmap_keys (dc_pending c)" 0] by (simp add: flushAll_def)

lemma step_good:
  assumes "good_coalescer c"
  shows "good_coalescer (coalescer_step c e)"
proof -
  obtain now s where e: "e = (now, s)" by fastforce
  have inv: "coalescer_inv c" using assms by (simp add: good_coalescer_def)
  have flush: "good_coalescer (snd (flushByKey now key r c))" for key r
    using assms flushByKey_inv [OF inv] by (auto simp: good_coalescer_def flushByKey_frame jmap_delete_filter)
  have close: "coalescer_inv (c\<lparr>dc_isClosed := True\<rparr>)" using inv by (simp add: coalescer_inv_def)
  show ?thesis
  proof (cases s)
    case (Push p)
    then show ?thesis
      using assms push_inv [OF inv, of now p] unfolding e good_coalescer_def
      by (auto simp: coalescer_step_def push_def Let_def split: sum.splits option.splits if_splits)
  next
    case (Flush k r)
    then show ?thesis using flush by (simp add: e coalescer_step_def flush_def)
  next
    case (FlushAll r)
    then show ?thesis using flush_keys_inv [OF inv] flushAll_empty [OF inv] by (simp add: e coalescer_step_def flushAll_def good_coalescer_def)
  next
    case (Close r)
    then show ?thesis using assms flush_keys_inv [OF close] flushAll_empty [OF close]
      by (simp add: e coalescer_step_def close_coalescer_def flushAll_def good_coalescer_def)
  next
    case (Fire h)
    show ?thesis
    proof (cases "\<exists>key due. jmap_get (dc_timers c) h = Some (key, due) \<and> due \<le> now")
      case True
      then show ?thesis using fire_flush [OF inv] flush Fire by (auto simp: e coalescer_step_def)
    next
      case False
      then have "fire now h c = c" using fire_id [of c h now] by (meson not_le)
      then show ?thesis using assms Fire by (simp add: e coalescer_step_def)
    qed
  qed
qed

interpretation coalescing: step_system coalescer_step good_coalescer
  by unfold_locales (rule step_good)

lemma step_text:
  assumes "good_coalescer c"
  shows "text_of k (dc_emitted (coalescer_step c e)) @ waiting_text (coalescer_step c e) k
    = text_of k (dc_emitted c) @ waiting_text c k @ text_of k (accepted c [e])"
proof -
  obtain now s where e: "e = (now, s)" by fastforce
  have inv: "coalescer_inv c" using assms by (simp add: good_coalescer_def)
  have close: "coalescer_inv (c\<lparr>dc_isClosed := True\<rparr>)" using inv by (simp add: coalescer_inv_def)
  show ?thesis
  proof (cases s)
    case (Push p)
    show ?thesis
    proof (cases "push now p c")
      case (Inl x)
      then show ?thesis using Push push_closed [of now p c x] by (simp add: e coalescer_step_def)
    next
      case (Inr c')
      then show ?thesis using Push push_text [OF Inr, of k] push_closed [of now p c] by (auto simp: e coalescer_step_def)
    qed
  next
    case (Flush k' r)
    then show ?thesis using flushByKey_text [OF inv] by (simp add: e coalescer_step_def flush_def)
  next
    case (FlushAll r)
    then show ?thesis using flush_keys_text [OF inv] by (simp add: e coalescer_step_def flushAll_def)
  next
    case (Close r)
    then show ?thesis using flush_keys_text [OF close, of k now r "jmap_keys (dc_pending c)" 0]
      by (simp add: e coalescer_step_def close_coalescer_def flushAll_def waiting_text_def)
  next
    case (Fire h)
    show ?thesis
    proof (cases "\<exists>key due. jmap_get (dc_timers c) h = Some (key, due) \<and> due \<le> now")
      case True
      then show ?thesis using fire_flush [OF inv] flushByKey_text [OF inv] Fire by (auto simp: e coalescer_step_def)
    next
      case False
      then have "fire now h c = c" using fire_id [of c h now] by (meson not_le)
      then show ?thesis using Fire by (simp add: e coalescer_step_def)
    qed
  qed
qed

lemma run_text:
  "good_coalescer c \<Longrightarrow> text_of k (dc_emitted (foldl coalescer_step c es)) @ waiting_text (foldl coalescer_step c es) k
    = text_of k (dc_emitted c) @ waiting_text c k @ text_of k (accepted c es)"
proof (induction es arbitrary: c)
  case (Cons e es)
  have "accepted c (e # es) = accepted c [e] @ accepted (coalescer_step c e) es" by (cases e) simp
  then show ?case using Cons.IH [OF step_good [OF Cons.prems]] step_text [OF Cons.prems, of k e] by simp
qed simp

text \<open>
  Claim C18.
  Coalescing neither loses, repeats nor reorders text: after any sequence of pushes, flushes, timers and closing, what was
  published for a message followed by what still waits for it is exactly the text that was accepted for it, in order. What
  waits has an armed timer that publishes it within the window, and nothing waits once the coalescer is closed.
\<close>

theorem deltas_arrive_once:
  assumes new: "coalescer_new w = Inr c\<^sub>0" and c: "c = foldl coalescer_step c\<^sub>0 es"
  shows "text_of key (dc_emitted c) @ waiting_text c key = text_of key (accepted c\<^sub>0 es)
    \<and> (dc_isClosed c \<longrightarrow> waiting_text c key = [])
    \<and> (\<forall>b now. jmap_get (dc_pending c) key = Some b \<longrightarrow> db_firstReceivedAtMs b + dc_windowMs c \<le> now
         \<longrightarrow> text_of key (dc_emitted (fire now (db_timer b) c)) = text_of key (accepted c\<^sub>0 es))"
proof -
  have start: "good_coalescer c\<^sub>0" "dc_emitted c\<^sub>0 = []" "dc_pending c\<^sub>0 = []"
    using coalescer_new_inv [OF new] by (auto simp: good_coalescer_def)
  have good: "good_coalescer c" unfolding c by (rule coalescing.good_run [OF start(1)])
  have all: "text_of key (dc_emitted c) @ waiting_text c key = text_of key (accepted c\<^sub>0 es)"
    using run_text [OF start(1), of key es] start by (simp add: c waiting_text_def)
  have "text_of key (dc_emitted (fire now (db_timer b) c)) = text_of key (accepted c\<^sub>0 es)"
    if b: "jmap_get (dc_pending c) key = Some b" "db_firstReceivedAtMs b + dc_windowMs c \<le> now" for b now
  proof -
    have inv: "coalescer_inv c" using good by (simp add: good_coalescer_def)
    then have "jmap_get (dc_timers c) (db_timer b) = Some (key, db_firstReceivedAtMs b + dc_windowMs c)" "jmap_ok (dc_pending c)"
      using b(1) unfolding coalescer_inv_def by blast+
    then show ?thesis
      using fire_flush [OF inv _ b(2)] flushByKey_text [OF inv, of key now key FlushWindow] all
      by (simp add: waiting_text_def flushByKey_frame jm.get_del)
  qed
  then show ?thesis using all good by (simp add: good_coalescer_def waiting_text_def)
qed

text \<open>Two chunks of one message with a chunk of another between them; the timer of the first fires.\<close>

definition sample_delta :: "string \<Rightarrow> string \<Rightarrow> delta_event" where
  "sample_delta item text = \<lparr>dk_instanceId = ''i'', dk_sessionId = ''s'', dk_turnId = Some ''t'', dk_itemId = Some item, de_nodeId = None,
     de_providerSessionId = None, de_delta = text, de_generatedAt = []\<rparr>"

definition sample_deltas :: "(int \<times> coalescer_step) list" where
  "sample_deltas = [(0, Push (sample_delta ''m'' ''he'')), (5, Push (sample_delta ''n'' ''x'')), (7, Push (sample_delta ''m'' ''llo'')), (32, Fire 0)]"

theorem deltas_arrive_once_witness:
  "\<exists>c\<^sub>0. coalescer_new None = Inr c\<^sub>0 \<and> text_of (messageKey (sample_delta ''m'' [])) (dc_emitted (foldl coalescer_step c\<^sub>0 sample_deltas)) = ''hello''"
proof -
  let ?c = "projr (coalescer_new None)" and ?k = "messageKey (sample_delta ''m'' [])"
  have new: "coalescer_new None = Inr ?c" by code_simp
  have acc: "text_of ?k (accepted ?c sample_deltas) = ''hello''" by code_simp
  have wait: "waiting_text (foldl coalescer_step ?c sample_deltas) ?k = []" by code_simp
  have "text_of ?k (dc_emitted (foldl coalescer_step ?c sample_deltas)) = ''hello''"
    using deltas_arrive_once [OF new refl, of ?k sample_deltas] unfolding acc wait by (simp only: append_Nil2)
  with new show ?thesis by blast
qed

end
