(* ===== verification/Serial_Lanes.thy ===== *)
theory Serial_Lanes
  imports Js_Prelude Js_Json
begin

text \<open>
  Operations that are serialised per key by a chain of promises: the mutation queue of repositories
  (\<^verbatim>\<open>packages/controlled-instance/src/repository/mutation-queue.ts\<close>), the operation gate of instances
  (\<^verbatim>\<open>packages/node-agent/src/instances/instance-operation-gate.ts\<close>) and the coordinator of story operations
  (\<^verbatim>\<open>packages/node-agent/src/stories/operation-coordinator.ts\<close>), both in \<^verbatim>\<open>Operation_Gates\<close>. A promise is a number; a call is split at its await: entering
  a lane is the code before \<^verbatim>\<open>await previous\<close>, the call goes on when the promise it waits for is resolved, and leaving is the
  \<^verbatim>\<open>finally\<close> block, which runs whether the operation returned or threw.

  The locale \<open>fifo_lanes\<close> is the contract: the tickets of a lane form a queue of which exactly the first may go on. All three classes
  implement it. For the repository queue, whose jobs take several lanes, mutual exclusion and the absence of deadlocks are shown.
\<close>

section \<open>A lane\<close>

record lanes =
  ln_tails :: "(string, nat) jmap"
  ln_resolved :: "nat list"
  ln_promises :: nat

record ticket =
  tk_key :: string
  tk_previous :: "nat option"
  tk_current :: nat

definition no_lanes :: lanes where
  "no_lanes = \<lparr>ln_tails = [], ln_resolved = [], ln_promises = 0\<rparr>"

definition enqueue_enter :: "string \<Rightarrow> lanes \<Rightarrow> ticket \<times> lanes" where
  "enqueue_enter key s =
     (let previous = jmap_get (ln_tails s) key; current = ln_promises s
      in (\<lparr>tk_key = key, tk_previous = previous, tk_current = current\<rparr>,
          s\<lparr>ln_promises := current + 1, ln_tails := jmap_set key current (ln_tails s)\<rparr>))"

definition enqueue_ready :: "ticket \<Rightarrow> lanes \<Rightarrow> bool" where
  "enqueue_ready t s = (case tk_previous t of None \<Rightarrow> True | Some p \<Rightarrow> p \<in> set (ln_resolved s))"

definition enqueue_leave :: "ticket \<Rightarrow> lanes \<Rightarrow> lanes" where
  "enqueue_leave t s =
     (let s = s\<lparr>ln_resolved := tk_current t # ln_resolved s\<rparr>
      in if jmap_get (ln_tails s) (tk_key t) = Some (tk_current t) then s\<lparr>ln_tails := jmap_delete (tk_key t) (ln_tails s)\<rparr> else s)"

section \<open>The contract\<close>

text \<open>\<open>rel q s\<close>: the lanes \<open>s\<close> implement the queues \<open>q\<close>.\<close>

locale fifo_lanes =
  fixes enter :: "string \<Rightarrow> 's \<Rightarrow> 't \<times> 's"
    and ready :: "'t \<Rightarrow> 's \<Rightarrow> bool"
    and leave :: "'t \<Rightarrow> 's \<Rightarrow> 's"
    and rel :: "(string \<Rightarrow> 't list) \<Rightarrow> 's \<Rightarrow> bool"
  assumes rel_enter: "rel q s \<Longrightarrow> enter k s = (t, s') \<Longrightarrow> rel (q(k := q k @ [t])) s'"
    and rel_fresh: "rel q s \<Longrightarrow> enter k s = (t, s') \<Longrightarrow> t \<notin> set (q k')"
    and rel_ready: "rel q s \<Longrightarrow> t \<in> set (q k) \<Longrightarrow> ready t s \<longleftrightarrow> t = hd (q k)"
    and rel_leave: "rel q s \<Longrightarrow> q k = t # ts \<Longrightarrow> rel (q(k := ts)) (leave t s)"
begin

lemma one_ready: "rel q s \<Longrightarrow> t \<in> set (q k) \<Longrightarrow> u \<in> set (q k) \<Longrightarrow> ready t s \<Longrightarrow> ready u s \<Longrightarrow> t = u"
  by (simp add: rel_ready)

lemma some_ready: "rel q s \<Longrightarrow> q k \<noteq> [] \<Longrightarrow> hd (q k) \<in> set (q k) \<and> ready (hd (q k)) s"
  using rel_ready [of q s "hd (q k)" k] by simp

end

definition lane_rel :: "(string \<Rightarrow> ticket list) \<Rightarrow> lanes \<Rightarrow> bool" where
  "lane_rel q s \<longleftrightarrow> jmap_ok (ln_tails s)
     \<and> (\<forall>k. jmap_get (ln_tails s) k = (if q k = [] then None else Some (tk_current (last (q k)))))
     \<and> (\<forall>k. \<forall>t \<in> set (q k). tk_key t = k \<and> tk_current t < ln_promises s \<and> tk_current t \<notin> set (ln_resolved s))
     \<and> (\<forall>k. q k \<noteq> [] \<longrightarrow> enqueue_ready (hd (q k)) s)
     \<and> (\<forall>k i. Suc i < length (q k) \<longrightarrow> tk_previous (q k ! Suc i) = Some (tk_current (q k ! i)))
     \<and> (\<forall>k. distinct (map tk_current (q k)))
     \<and> (\<forall>k k' t u. t \<in> set (q k) \<longrightarrow> u \<in> set (q k') \<longrightarrow> tk_current t = tk_current u \<longrightarrow> k = k')
     \<and> (\<forall>p \<in> set (ln_resolved s). p < ln_promises s)"

lemma lane_rel_enter:
  assumes rel: "lane_rel q s" and e: "enqueue_enter k s = (t, s')"
  shows "lane_rel (q(k := q k @ [t])) s'"
proof -
  let ?q = "q(k := q k @ [t])"
  have t: "t = \<lparr>tk_key = k, tk_previous = jmap_get (ln_tails s) k, tk_current = ln_promises s\<rparr>"
    and s': "s' = s\<lparr>ln_promises := ln_promises s + 1, ln_tails := jmap_set k (ln_promises s) (ln_tails s)\<rparr>"
    using e by (auto simp: enqueue_enter_def Let_def)
  have tails: "jmap_get (ln_tails s) k = (if q k = [] then None else Some (tk_current (last (q k))))" for k
    using rel by (simp add: lane_rel_def)
  have old: "tk_key u = k'" "tk_current u < ln_promises s" "tk_current u \<notin> set (ln_resolved s)" if "u \<in> set (q k')" for u k'
    using rel that by (auto simp: lane_rel_def)
  have res: "\<forall>p \<in> set (ln_resolved s). p < ln_promises s" using rel by (simp add: lane_rel_def)
  show ?thesis
    unfolding lane_rel_def
  proof (intro conjI allI ballI impI)
    show "jmap_ok (ln_tails s')" using rel by (simp add: lane_rel_def s' jm.ok_put)
    show "jmap_get (ln_tails s') k' = (if ?q k' = [] then None else Some (tk_current (last (?q k'))))" for k'
      using tails [of k'] by (simp add: s' t jm.get_put)
    fix k' u assume u: "u \<in> set (?q k')"
    then have "u = t \<and> k' = k \<or> u \<in> set (q k')" by (auto split: if_splits)
    then show "tk_key u = k'" "tk_current u < ln_promises s'" "tk_current u \<notin> set (ln_resolved s')"
      using old [of u k'] res by (auto simp: t s')
  next
    fix k' assume "?q k' \<noteq> []"
    have "\<forall>j. q j \<noteq> [] \<longrightarrow> enqueue_ready (hd (q j)) s" using rel by (simp add: lane_rel_def)
    moreover have "enqueue_ready u s' = enqueue_ready u s" for u by (simp add: enqueue_ready_def s' split: option.splits)
    moreover have "enqueue_ready t s" if "q k = []" using tails [of k] that by (simp add: enqueue_ready_def t)
    ultimately show "enqueue_ready (hd (?q k')) s'" using \<open>?q k' \<noteq> []\<close> by (cases "k' = k"; cases "q k = []") simp_all
  next
    fix k' i assume i: "Suc i < length (?q k')"
    have prev: "\<forall>j i. Suc i < length (q j) \<longrightarrow> tk_previous (q j ! Suc i) = Some (tk_current (q j ! i))" using rel by (simp add: lane_rel_def)
    show "tk_previous (?q k' ! Suc i) = Some (tk_current (?q k' ! i))"
    proof (cases "k' = k \<and> Suc i = length (q k)")
      case True
      then have "q k \<noteq> []" "q k ! i = last (q k)" by (cases "q k" rule: rev_cases; simp)+
      then show ?thesis using True tails [of k] by (simp add: nth_append t)
    next
      case False
      then show ?thesis using i prev by (cases "k' = k") (auto simp: nth_append)
    qed
  next
    fix k'
    have "ln_promises s \<notin> tk_current ` set (q k)" using old(2) by fastforce
    moreover have "\<forall>j. distinct (map tk_current (q j))" using rel by (simp add: lane_rel_def)
    ultimately show "distinct (map tk_current (?q k'))" by (simp add: t)
  next
    fix k1 k2 u v assume uv: "u \<in> set (?q k1)" "v \<in> set (?q k2)" "tk_current u = tk_current v"
    have "\<forall>k k' t u. t \<in> set (q k) \<longrightarrow> u \<in> set (q k') \<longrightarrow> tk_current t = tk_current u \<longrightarrow> k = k'" using rel by (simp add: lane_rel_def)
    moreover have "u = t \<and> k1 = k \<or> u \<in> set (q k1)" "v = t \<and> k2 = k \<or> v \<in> set (q k2)" using uv by (auto split: if_splits)
    moreover have "tk_current t = ln_promises s" by (simp add: t)
    ultimately show "k1 = k2" using uv(3) old(2) by (metis less_irrefl)
  next
    fix p assume "p \<in> set (ln_resolved s')"
    then show "p < ln_promises s'" using res by (auto simp: s')
  qed
qed

lemma lane_rel_ready:
  assumes rel: "lane_rel q s" and t: "t \<in> set (q k)"
  shows "enqueue_ready t s \<longleftrightarrow> t = hd (q k)"
proof -
  have prev: "\<forall>j i. Suc i < length (q j) \<longrightarrow> tk_previous (q j ! Suc i) = Some (tk_current (q j ! i))"
    and first: "\<forall>j. q j \<noteq> [] \<longrightarrow> enqueue_ready (hd (q j)) s" and live: "\<forall>j. \<forall>u \<in> set (q j). tk_current u \<notin> set (ln_resolved s)"
    using rel by (simp_all add: lane_rel_def)
  obtain n where n: "n < length (q k)" "t = q k ! n" using t by (auto simp: in_set_conv_nth)
  show ?thesis
  proof (cases n)
    case 0
    then have "t = hd (q k)" using n by (simp add: hd_conv_nth)
    then show ?thesis using first n(1) by (metis list.size(3) not_less_zero)
  next
    case (Suc i)
    then have "tk_previous t = Some (tk_current (q k ! i))" using prev n by auto
    moreover have "q k ! i \<in> set (q k)" using n Suc by simp
    then have "tk_current (q k ! i) \<notin> set (ln_resolved s)" using live by blast
    ultimately have "\<not> enqueue_ready t s" by (simp add: enqueue_ready_def)
    then show ?thesis using first t by force
  qed
qed

lemma lane_rel_leave:
  assumes rel: "lane_rel q s" and q: "q k = t # ts"
  shows "lane_rel (q(k := ts)) (enqueue_leave t s)"
proof -
  let ?q = "q(k := ts)" and ?s = "enqueue_leave t s"
  have res: "ln_resolved ?s = tk_current t # ln_resolved s" "ln_promises ?s = ln_promises s" by (simp_all add: enqueue_leave_def Let_def)
  have live: "tk_key u = k'" "tk_current u < ln_promises s" "tk_current u \<notin> set (ln_resolved s)" if "u \<in> set (q k')" for u k'
    using rel that by (auto simp: lane_rel_def)
  have sub: "set (?q k') \<subseteq> set (q k')" for k' using q by auto
  have dist: "distinct (map tk_current (q k'))" for k' using rel by (simp add: lane_rel_def)
  have sep: "\<forall>k k' t u. t \<in> set (q k) \<longrightarrow> u \<in> set (q k') \<longrightarrow> tk_current t = tk_current u \<longrightarrow> k = k'" using rel by (simp add: lane_rel_def)
  have prev: "\<forall>j i. Suc i < length (q j) \<longrightarrow> tk_previous (q j ! Suc i) = Some (tk_current (q j ! i))" using rel by (simp add: lane_rel_def)
  have tails: "jmap_get (ln_tails s) k' = (if q k' = [] then None else Some (tk_current (last (q k'))))" for k'
    using rel by (simp add: lane_rel_def)
  have ok: "jmap_ok (ln_tails s)" using rel by (simp add: lane_rel_def)
  have tk: "tk_key t = k" using live(1) [of t k] q by simp
  have other: "tk_current u \<noteq> tk_current t" if "u \<in> set (?q k')" for u k'
  proof
    assume same: "tk_current u = tk_current t"
    then have "k' = k" using sep sub [of k'] that q by (metis (mono_tags, lifting) list.set_intros(1) subsetD)
    then show False using same that dist [of k] q by (force simp: rev_image_eqI)
  qed
  have last: "tk_current (last (t # ts)) = tk_current t \<longleftrightarrow> ts = []" using other [of "last ts" k] by auto
  show ?thesis
    unfolding lane_rel_def
  proof (intro conjI allI ballI impI)
    show "jmap_ok (ln_tails ?s)" using ok by (simp add: enqueue_leave_def Let_def jm.ok_del)
    show "jmap_get (ln_tails ?s) k' = (if ?q k' = [] then None else Some (tk_current (last (?q k'))))" for k'
      using tails [of k'] tails [of k] last ok q by (auto simp: enqueue_leave_def Let_def tk jm.get_del)
    fix k' u assume u: "u \<in> set (?q k')"
    show "tk_key u = k'" "tk_current u < ln_promises ?s" "tk_current u \<notin> set (ln_resolved ?s)"
      using live [of u k'] sub [of k'] u other [OF u] by (auto simp: res)
  next
    fix k' assume ne: "?q k' \<noteq> []"
    have first: "\<forall>j. q j \<noteq> [] \<longrightarrow> enqueue_ready (hd (q j)) s" using rel by (simp add: lane_rel_def)
    have mono: "enqueue_ready u s \<Longrightarrow> enqueue_ready u ?s" for u by (simp add: enqueue_ready_def res split: option.splits)
    show "enqueue_ready (hd (?q k')) ?s"
    proof (cases "k' = k")
      case True
      then have "tk_previous (hd ts) = Some (tk_current t)" using prev [rule_format, of 0 k] q ne by (cases ts) auto
      then show ?thesis using True by (simp add: enqueue_ready_def res)
    qed (use first mono ne in auto)
  next
    fix k' i assume "Suc i < length (?q k')"
    then show "tk_previous (?q k' ! Suc i) = Some (tk_current (?q k' ! i))"
      using prev [rule_format, of "Suc i" k] prev [rule_format, of i k'] q by (cases "k' = k") auto
  next
    show "distinct (map tk_current (?q k'))" for k' using dist [of k'] q by auto
    show "k1 = k2" if "u \<in> set (?q k1)" "v \<in> set (?q k2)" "tk_current u = tk_current v" for k1 k2 u v
      using that sep sub by (metis (no_types, lifting) subsetD)
    have old: "\<forall>p \<in> set (ln_resolved s). p < ln_promises s" using rel by (simp add: lane_rel_def)
    fix p assume "p \<in> set (ln_resolved ?s)"
    then show "p < ln_promises ?s" using old live(2) [of t k] q by (auto simp: res)
  qed
qed

interpretation lane: fifo_lanes enqueue_enter enqueue_ready enqueue_leave lane_rel
proof unfold_locales
  show "t \<notin> set (q k')" if "lane_rel q s" "enqueue_enter k s = (t, s')" for q s k t s' k'
    using that by (fastforce simp: lane_rel_def enqueue_enter_def Let_def)
qed (fact lane_rel_enter lane_rel_ready lane_rel_leave)+

section \<open>Jobs of the repository queue\<close>

text \<open>
  A job is a call of the queue: the lanes it takes, one inside the other, the tickets it holds (the innermost first), the ticket
  it waits with, and whether its operation is over.
\<close>

record job =
  jb_lanes :: "string list"
  jb_held :: "ticket list"
  jb_wait :: "ticket option"
  jb_leaving :: bool

record mutation_queue =
  mq_lanes :: lanes
  mq_jobs :: "job list"

definition repository_lane :: "string \<Rightarrow> string" where
  "repository_lane repositoryKey = ''repository:'' @ repositoryKey"

definition worktree_lane :: "string \<Rightarrow> string" where
  "worktree_lane worktreeKey = ''worktree:'' @ worktreeKey"

definition withRepository :: "string \<Rightarrow> string list" where
  "withRepository repositoryKey = [repository_lane repositoryKey]"

definition withWorktree :: "string \<Rightarrow> string list" where
  "withWorktree worktreeKey = [worktree_lane worktreeKey]"

definition withRepositoryAndWorktrees :: "string \<Rightarrow> string list \<Rightarrow> string list" where
  "withRepositoryAndWorktrees repositoryKey worktreeKeys =
     withRepository repositoryKey @ concat (map withWorktree (js_sort (\<le>) (js_uniq worktreeKeys)))"

definition withRepositoryAndWorktree :: "string \<Rightarrow> string \<Rightarrow> string list" where
  "withRepositoryAndWorktree repositoryKey worktreeKey = withRepositoryAndWorktrees repositoryKey [worktreeKey]"

inductive mutation_call :: "string list \<Rightarrow> bool" where
  "mutation_call (withRepository r)"
| "mutation_call (withWorktree w)"
| "mutation_call (withRepositoryAndWorktree r w)"
| "mutation_call (withRepositoryAndWorktrees r ws)"

definition job_start :: "string list \<Rightarrow> mutation_queue \<Rightarrow> mutation_queue" where
  "job_start lanes m =
     (let (t, s) = enqueue_enter (hd lanes) (mq_lanes m)
      in \<lparr>mq_lanes = s, mq_jobs = mq_jobs m @ [\<lparr>jb_lanes = lanes, jb_held = [], jb_wait = Some t, jb_leaving = False\<rparr>]\<rparr>)"

text \<open>The promise a job waits for is resolved: it holds the lane and enters the next one, or its operation starts.\<close>

definition job_grant :: "nat \<Rightarrow> ticket \<Rightarrow> mutation_queue \<Rightarrow> mutation_queue" where
  "job_grant i t m =
     (let j = mq_jobs m ! i; j = j\<lparr>jb_held := t # jb_held j, jb_wait := None\<rparr> in
      if length (jb_held j) < length (jb_lanes j) then
        let (t', s) = enqueue_enter (jb_lanes j ! length (jb_held j)) (mq_lanes m)
        in \<lparr>mq_lanes = s, mq_jobs = (mq_jobs m)[i := j\<lparr>jb_wait := Some t'\<rparr>]\<rparr>
      else m\<lparr>mq_jobs := (mq_jobs m)[i := j]\<rparr>)"

text \<open>The operation of a job ended, or the call inside its innermost lane did: the \<^verbatim>\<open>finally\<close> block of that lane.\<close>

definition job_leave :: "nat \<Rightarrow> mutation_queue \<Rightarrow> mutation_queue" where
  "job_leave i m =
     (let j = mq_jobs m ! i
      in \<lparr>mq_lanes = enqueue_leave (hd (jb_held j)) (mq_lanes m),
          mq_jobs = (mq_jobs m)[i := j\<lparr>jb_held := tl (jb_held j), jb_leaving := True\<rparr>]\<rparr>)"

inductive progress :: "mutation_queue \<Rightarrow> mutation_queue \<Rightarrow> bool" where
  grant: "i < length (mq_jobs m) \<Longrightarrow> jb_wait (mq_jobs m ! i) = Some t \<Longrightarrow> enqueue_ready t (mq_lanes m) \<Longrightarrow> progress m (job_grant i t m)"
| leave: "i < length (mq_jobs m) \<Longrightarrow> jb_wait (mq_jobs m ! i) = None \<Longrightarrow> jb_held (mq_jobs m ! i) \<noteq> [] \<Longrightarrow> progress m (job_leave i m)"

inductive queue_state :: "mutation_queue \<Rightarrow> bool" where
  empty: "queue_state \<lparr>mq_lanes = no_lanes, mq_jobs = []\<rparr>"
| start: "queue_state m \<Longrightarrow> mutation_call lanes \<Longrightarrow> queue_state (job_start lanes m)"
| step: "queue_state m \<Longrightarrow> progress m m' \<Longrightarrow> queue_state m'"

definition finished :: "job \<Rightarrow> bool" where
  "finished j \<longleftrightarrow> jb_wait j = None \<and> jb_held j = []"

text \<open>The steps a job still has before it.\<close>

definition steps_left :: "job \<Rightarrow> nat" where
  "steps_left j = (if jb_leaving j then length (jb_held j) else 2 * length (jb_lanes j) - length (jb_held j))"

section \<open>Mutual exclusion and progress\<close>

lemma calls_sorted: "mutation_call lanes \<Longrightarrow> lanes \<noteq> [] \<and> sorted_wrt (<) lanes"
proof (induction rule: mutation_call.induct)
  have "sorted_wrt (<) (withRepositoryAndWorktrees r ws)" for r ws
  proof -
    have le: "sorted_wrt (\<le>) (js_sort (\<le>) (js_uniq ws))" by (rule js_sort_sorted) auto
    have "distinct (map id (js_sort (\<le>) (js_uniq ws)))" unfolding distinct_map_js_sort by simp
    then have "sorted_wrt (<) (js_sort (\<le>) (js_uniq ws))" using le by (simp add: strict_sorted_iff)
    then have "sorted_wrt (<) (map worktree_lane (js_sort (\<le>) (js_uniq ws)))"
      by (auto simp: sorted_wrt_map worktree_lane_def elim: sorted_wrt_mono_rel [rotated])
    moreover have "concat (map withWorktree xs) = map worktree_lane xs" for xs by (induction xs) (auto simp: withWorktree_def)
    moreover have "repository_lane r < worktree_lane w" for w by (simp add: repository_lane_def worktree_lane_def less_char_def)
    ultimately show ?thesis by (auto simp: withRepositoryAndWorktrees_def withRepository_def)
  qed
  note lanes = this
  { case (1 r) then show ?case by (simp add: withRepository_def) }
  { case (2 w) then show ?case by (simp add: withWorktree_def) }
  { case (3 r w) then show ?case using lanes [of r "[w]"] by (simp add: withRepositoryAndWorktree_def) (simp add: withRepositoryAndWorktrees_def withRepository_def) }
  { case (4 r ws) then show ?case using lanes [of r ws] by (simp add: withRepositoryAndWorktrees_def withRepository_def) }
qed

definition tickets :: "job \<Rightarrow> ticket set" where
  "tickets j = set (jb_held j) \<union> set_option (jb_wait j)"

definition job_ok :: "job \<Rightarrow> bool" where
  "job_ok j \<longleftrightarrow> sorted_wrt (<) (jb_lanes j) \<and> map tk_key (rev (jb_held j)) = take (length (jb_held j)) (jb_lanes j)
     \<and> length (jb_held j) \<le> length (jb_lanes j) \<and> (jb_leaving j \<longrightarrow> jb_wait j = None)
     \<and> (\<not> jb_leaving j \<longrightarrow> jb_wait j = None \<longrightarrow> length (jb_held j) = length (jb_lanes j) \<and> jb_lanes j \<noteq> [])
     \<and> (\<forall>t. jb_wait j = Some t \<longrightarrow> length (jb_held j) < length (jb_lanes j) \<and> tk_key t = jb_lanes j ! length (jb_held j))"

definition job_rel :: "(string \<Rightarrow> ticket list) \<Rightarrow> job \<Rightarrow> bool" where
  "job_rel q j \<longleftrightarrow> job_ok j \<and> (\<forall>t \<in> set (jb_held j). q (tk_key t) \<noteq> [] \<and> hd (q (tk_key t)) = t)
     \<and> (\<forall>t. jb_wait j = Some t \<longrightarrow> t \<in> set (q (tk_key t)))"

definition queue_inv :: "(string \<Rightarrow> ticket list) \<Rightarrow> mutation_queue \<Rightarrow> bool" where
  "queue_inv q m \<longleftrightarrow> lane_rel q (mq_lanes m) \<and> (\<forall>j \<in> set (mq_jobs m). job_rel q j)
     \<and> (\<forall>i k. i < length (mq_jobs m) \<longrightarrow> k < length (mq_jobs m) \<longrightarrow> i \<noteq> k \<longrightarrow> tickets (mq_jobs m ! i) \<inter> tickets (mq_jobs m ! k) = {})
     \<and> (\<forall>k t. t \<in> set (q k) \<longrightarrow> (\<exists>i < length (mq_jobs m). t \<in> tickets (mq_jobs m ! i)))"

lemma job_tickets: "job_rel q j \<Longrightarrow> t \<in> tickets j \<Longrightarrow> t \<in> set (q (tk_key t))"
  by (auto simp: job_rel_def tickets_def intro: hd_in_set) (metis hd_in_set)

lemma held_keys: "job_ok j \<Longrightarrow> t \<in> set (jb_held j) \<Longrightarrow> \<exists>n < length (jb_held j). tk_key t = jb_lanes j ! n"
proof -
  assume "job_ok j" "t \<in> set (jb_held j)"
  then have "tk_key t \<in> set (take (length (jb_held j)) (jb_lanes j))" unfolding job_ok_def by (metis image_eqI set_map set_rev)
  then show ?thesis by (auto simp: in_set_conv_nth)
qed

lemma held_before_wait:
  assumes "job_ok j" "t \<in> set (jb_held j)" "jb_wait j = Some u"
  shows "tk_key t < tk_key u"
proof -
  obtain n where "n < length (jb_held j)" "tk_key t = jb_lanes j ! n" using held_keys [OF assms(1,2)] by blast
  moreover have "length (jb_held j) < length (jb_lanes j)" "tk_key u = jb_lanes j ! length (jb_held j)" "sorted_wrt (<) (jb_lanes j)"
    using assms by (auto simp: job_ok_def)
  ultimately show ?thesis using sorted_wrt_nth_less by metis
qed

lemma queue_update:
  assumes inv: "queue_inv q m" and i: "i < length (mq_jobs m)" and rel: "lane_rel q' s'"
    and others: "\<And>k. k < length (mq_jobs m) \<Longrightarrow> k \<noteq> i \<Longrightarrow> job_rel q' (mq_jobs m ! k)" and j: "job_rel q' j"
    and new: "tickets j \<subseteq> tickets (mq_jobs m ! i) \<union> F" "\<And>k. k < length (mq_jobs m) \<Longrightarrow> F \<inter> tickets (mq_jobs m ! k) = {}"
    and owned: "\<And>k t. t \<in> set (q' k) \<Longrightarrow> t \<in> tickets j \<or> (t \<in> set (q k) \<and> t \<notin> tickets (mq_jobs m ! i))"
  shows "queue_inv q' \<lparr>mq_lanes = s', mq_jobs = (mq_jobs m)[i := j]\<rparr>"
proof -
  have dis: "tickets (mq_jobs m ! a) \<inter> tickets (mq_jobs m ! b) = {}" if "a < length (mq_jobs m)" "b < length (mq_jobs m)" "a \<noteq> b" for a b
    using inv that by (simp add: queue_inv_def)
  show ?thesis
    unfolding queue_inv_def
  proof (intro conjI allI impI ballI)
    fix x assume "x \<in> set (mq_jobs \<lparr>mq_lanes = s', mq_jobs = (mq_jobs m)[i := j]\<rparr>)"
    then obtain k where "k < length (mq_jobs m)" "x = (mq_jobs m)[i := j] ! k" by (auto simp: in_set_conv_nth)
    then show "job_rel q' x" using others j by (cases "k = i") auto
  next
    fix a b
    assume "a < length (mq_jobs \<lparr>mq_lanes = s', mq_jobs = (mq_jobs m)[i := j]\<rparr>)" "b < length (mq_jobs \<lparr>mq_lanes = s', mq_jobs = (mq_jobs m)[i := j]\<rparr>)" "a \<noteq> b"
    then show "tickets (mq_jobs \<lparr>mq_lanes = s', mq_jobs = (mq_jobs m)[i := j]\<rparr> ! a) \<inter> tickets (mq_jobs \<lparr>mq_lanes = s', mq_jobs = (mq_jobs m)[i := j]\<rparr> ! b) = {}"
      using dis [of a b] dis [of i b] dis [of a i] new(1) new(2) [of a] new(2) [of b] i by (auto simp: nth_list_update)
  next
    fix k t assume "t \<in> set (q' k)"
    then consider "t \<in> tickets j" | "t \<in> set (q k)" "t \<notin> tickets (mq_jobs m ! i)" using owned by blast
    then show "\<exists>n < length (mq_jobs \<lparr>mq_lanes = s', mq_jobs = (mq_jobs m)[i := j]\<rparr>). t \<in> tickets (mq_jobs \<lparr>mq_lanes = s', mq_jobs = (mq_jobs m)[i := j]\<rparr> ! n)"
    proof cases
      case 1
      then show ?thesis using i by auto
    next
      case 2
      then obtain n where n: "n < length (mq_jobs m)" "t \<in> tickets (mq_jobs m ! n)" using inv unfolding queue_inv_def by blast
      then have "n \<noteq> i" using 2 by auto
      then show ?thesis using n by (intro exI [of _ n]) simp
    qed
  qed (use rel in simp)
qed

lemma job_rel_append:
  assumes "job_rel q j"
  shows "job_rel (q(k := q k @ [t])) j"
  using assms by (auto simp: job_rel_def)

lemma job_start_inv:
  assumes inv: "queue_inv q m" and lanes: "lanes \<noteq> []" "sorted_wrt (<) lanes"
  shows "\<exists>q. queue_inv q (job_start lanes m)"
proof -
  let ?k = "hd lanes"
  obtain t s where e: "enqueue_enter ?k (mq_lanes m) = (t, s)" by fastforce
  have rel: "lane_rel q (mq_lanes m)" and jobs: "\<forall>j \<in> set (mq_jobs m). job_rel q j" using inv by (simp_all add: queue_inv_def)
  have key: "tk_key t = ?k" using e by (auto simp: enqueue_enter_def Let_def)
  let ?q = "q(?k := q ?k @ [t])" and ?j = "\<lparr>jb_lanes = lanes, jb_held = [], jb_wait = Some t, jb_leaving = False\<rparr>"
  have m: "job_start lanes m = \<lparr>mq_lanes = s, mq_jobs = mq_jobs m @ [?j]\<rparr>" using e by (simp add: job_start_def)
  have fresh: "t \<notin> tickets (mq_jobs m ! n)" if "n < length (mq_jobs m)" for n
    using that jobs job_tickets lane.rel_fresh [OF rel e] by (meson nth_mem)
  have "queue_inv ?q (job_start lanes m)"
    unfolding queue_inv_def m
  proof (intro conjI allI impI ballI)
    show "lane_rel ?q (mq_lanes \<lparr>mq_lanes = s, mq_jobs = mq_jobs m @ [?j]\<rparr>)" using lane.rel_enter [OF rel e] by simp
    fix x assume "x \<in> set (mq_jobs \<lparr>mq_lanes = s, mq_jobs = mq_jobs m @ [?j]\<rparr>)"
    then have "x \<in> set (mq_jobs m) \<or> x = ?j" by auto
    moreover have "job_rel ?q ?j" using lanes key by (auto simp: job_rel_def job_ok_def hd_conv_nth)
    ultimately show "job_rel ?q x" using jobs job_rel_append by blast
  next
    fix a b
    assume "a < length (mq_jobs \<lparr>mq_lanes = s, mq_jobs = mq_jobs m @ [?j]\<rparr>)" "b < length (mq_jobs \<lparr>mq_lanes = s, mq_jobs = mq_jobs m @ [?j]\<rparr>)" "a \<noteq> b"
    moreover have "tickets ?j = {t}" by (simp add: tickets_def)
    ultimately show "tickets (mq_jobs \<lparr>mq_lanes = s, mq_jobs = mq_jobs m @ [?j]\<rparr> ! a) \<inter> tickets (mq_jobs \<lparr>mq_lanes = s, mq_jobs = mq_jobs m @ [?j]\<rparr> ! b) = {}"
      using inv fresh [of a] fresh [of b] unfolding queue_inv_def by (auto simp: nth_append less_Suc_eq)
  next
    fix k u assume "u \<in> set (?q k)"
    then have "u = t \<or> u \<in> set (q k)" by (auto split: if_splits)
    then show "\<exists>n < length (mq_jobs \<lparr>mq_lanes = s, mq_jobs = mq_jobs m @ [?j]\<rparr>). u \<in> tickets (mq_jobs \<lparr>mq_lanes = s, mq_jobs = mq_jobs m @ [?j]\<rparr> ! n)"
    proof
      assume "u = t"
      then show ?thesis by (intro exI [of _ "length (mq_jobs m)"]) (simp add: tickets_def)
    next
      assume "u \<in> set (q k)"
      then obtain n where "n < length (mq_jobs m)" "u \<in> tickets (mq_jobs m ! n)" using inv unfolding queue_inv_def by blast
      then show ?thesis by (intro exI [of _ n]) (simp add: nth_append)
    qed
  qed
  then show ?thesis by blast
qed

lemma grant_inv:
  assumes inv: "queue_inv q m" and i: "i < length (mq_jobs m)" and w: "jb_wait (mq_jobs m ! i) = Some t" and ready: "enqueue_ready t (mq_lanes m)"
  shows "\<exists>q. queue_inv q (job_grant i t m)"
proof -
  define j where "j = (mq_jobs m ! i)\<lparr>jb_held := t # jb_held (mq_jobs m ! i), jb_wait := None\<rparr>"
  have rel: "lane_rel q (mq_lanes m)" and jobs: "\<forall>j \<in> set (mq_jobs m). job_rel q j" using inv by (simp_all add: queue_inv_def)
  have old: "job_rel q (mq_jobs m ! i)" using jobs i by simp
  have tq: "t \<in> set (q (tk_key t))" using old w by (simp add: job_rel_def)
  have head: "q (tk_key t) \<noteq> []" "hd (q (tk_key t)) = t" using lane.rel_ready [OF rel tq] ready tq by auto
  have len: "length (jb_held (mq_jobs m ! i)) < length (jb_lanes j)" "tk_key t = jb_lanes j ! length (jb_held (mq_jobs m ! i))"
    "map tk_key (rev (jb_held (mq_jobs m ! i))) = take (length (jb_held (mq_jobs m ! i))) (jb_lanes j)" "sorted_wrt (<) (jb_lanes j)" "\<not> jb_leaving j"
    using old w by (auto simp: job_rel_def job_ok_def j_def)
  have keys: "map tk_key (rev (jb_held j)) = take (length (jb_held j)) (jb_lanes j)" "length (jb_held j) \<le> length (jb_lanes j)"
    using len by (simp_all add: j_def take_Suc_conv_app_nth)
  have held: "\<forall>u \<in> set (jb_held j). q (tk_key u) \<noteq> [] \<and> hd (q (tk_key u)) = u" using old head by (auto simp: j_def job_rel_def)
  have tick: "tickets (mq_jobs m ! i) = tickets j" using w by (auto simp: tickets_def j_def)
  show ?thesis
  proof (cases "length (jb_held j) < length (jb_lanes j)")
    case False
    have "job_rel q j" using len keys held False by (auto simp: job_rel_def job_ok_def) (simp_all add: j_def)
    then have "queue_inv q \<lparr>mq_lanes = mq_lanes m, mq_jobs = (mq_jobs m)[i := j]\<rparr>"
      using jobs i rel tick by (intro queue_update [OF inv i, where F = "{}"]) auto
    moreover have "job_grant i t m = \<lparr>mq_lanes = mq_lanes m, mq_jobs = (mq_jobs m)[i := j]\<rparr>"
      using False unfolding job_grant_def Let_def j_def [symmetric] by simp
    ultimately show ?thesis by metis
  next
    case True
    let ?k = "jb_lanes j ! length (jb_held j)"
    obtain t' s where e: "enqueue_enter ?k (mq_lanes m) = (t', s)" by fastforce
    have key: "tk_key t' = ?k" using e by (auto simp: enqueue_enter_def Let_def)
    have fresh: "t' \<notin> tickets (mq_jobs m ! n)" if "n < length (mq_jobs m)" for n
      using that jobs job_tickets lane.rel_fresh [OF rel e] by (meson nth_mem)
    let ?q = "q(?k := q ?k @ [t'])" and ?j = "j\<lparr>jb_wait := Some t'\<rparr>"
    have new: "tickets ?j = tickets j \<union> {t'}" by (auto simp: tickets_def j_def)
    have "job_rel ?q ?j" using len keys held True key by (auto simp: job_rel_def job_ok_def)
    then have "queue_inv ?q \<lparr>mq_lanes = s, mq_jobs = (mq_jobs m)[i := ?j]\<rparr>"
      using jobs i tick new fresh lane.rel_enter [OF rel e] job_rel_append
      by (intro queue_update [OF inv i, where F = "{t'}"]) (auto split: if_splits)
    moreover have "job_grant i t m = \<lparr>mq_lanes = s, mq_jobs = (mq_jobs m)[i := ?j]\<rparr>"
      using True e unfolding job_grant_def Let_def j_def [symmetric] by simp
    ultimately show ?thesis by metis
  qed
qed

lemma leave_inv:
  assumes inv: "queue_inv q m" and i: "i < length (mq_jobs m)" and w: "jb_wait (mq_jobs m ! i) = None" and h: "jb_held (mq_jobs m ! i) = t # ts"
  shows "\<exists>q. queue_inv q (job_leave i m)"
proof -
  let ?j = "(mq_jobs m ! i)\<lparr>jb_held := ts, jb_leaving := True\<rparr>" and ?k = "tk_key t"
  have rel: "lane_rel q (mq_lanes m)" and jobs: "\<forall>j \<in> set (mq_jobs m). job_rel q j" using inv by (simp_all add: queue_inv_def)
  have old: "job_rel q (mq_jobs m ! i)" using jobs i by simp
  then have "q ?k \<noteq> []" "hd (q ?k) = t" using h by (simp_all add: job_rel_def)
  then obtain rest where q: "q ?k = t # rest" by (cases "q ?k") auto
  let ?q = "q(?k := rest)"
  have ok: "job_ok (mq_jobs m ! i)" using old by (simp add: job_rel_def)
  have keys: "map tk_key (rev ts) @ [?k] = take (Suc (length ts)) (jb_lanes (mq_jobs m ! i))" "Suc (length ts) \<le> length (jb_lanes (mq_jobs m ! i))"
    "sorted_wrt (<) (jb_lanes (mq_jobs m ! i))"
    using ok h by (auto simp: job_ok_def)
  then have cut: "map tk_key (rev ts) = take (length ts) (jb_lanes (mq_jobs m ! i))" by (simp add: take_Suc_conv_app_nth)
  have "sorted_wrt (<) (map tk_key (rev ts) @ [?k])" using keys by (simp add: sorted_wrt_take)
  then have inner: "tk_key u \<noteq> ?k" if "u \<in> set ts" for u using that by (force simp: sorted_wrt_append)
  have dis: "tickets (mq_jobs m ! n) \<inter> tickets (mq_jobs m ! i) = {}" if "n < length (mq_jobs m)" "n \<noteq> i" for n
    using inv i that by (simp add: queue_inv_def)
  have j: "job_rel ?q ?j" using old keys cut inner h w by (auto simp: job_rel_def job_ok_def)
  have others: "job_rel ?q (mq_jobs m ! n)" if n: "n < length (mq_jobs m)" "n \<noteq> i" for n
  proof -
    have nt: "t \<notin> tickets (mq_jobs m ! n)" using dis [OF n] h by (auto simp: tickets_def)
    have rn: "job_rel q (mq_jobs m ! n)" using jobs n by simp
    have "tk_key u \<noteq> ?k" if u: "u \<in> set (jb_held (mq_jobs m ! n))" for u
    proof
      assume same: "tk_key u = ?k"
      have "hd (q (tk_key u)) = u" using rn u unfolding job_rel_def by blast
      then have "u = t" unfolding same q by simp
      then show False using nt u by (simp add: tickets_def)
    qed
    then have "\<forall>u \<in> set (jb_held (mq_jobs m ! n)). ?q (tk_key u) = q (tk_key u)" by simp
    moreover have "u \<in> set (?q (tk_key u))" if u: "jb_wait (mq_jobs m ! n) = Some u" for u
    proof -
      have "u \<noteq> t" "u \<in> set (q (tk_key u))" using u nt rn by (auto simp: tickets_def job_rel_def)
      then show ?thesis using q by (cases "tk_key u = ?k") simp_all
    qed
    ultimately show ?thesis using rn unfolding job_rel_def by (simp del: fun_upd_apply)
  qed
  have cur: "distinct (q k)" for k using rel by (auto simp: lane_rel_def distinct_map)
  have gone: "u \<noteq> t" if "u \<in> set (?q k')" for u k'
  proof (cases "k' = ?k")
    case True
    then show ?thesis using that cur [of ?k] q by auto
  next
    case False
    then show ?thesis using that rel by (auto simp: lane_rel_def)
  qed
  have "queue_inv ?q \<lparr>mq_lanes = enqueue_leave t (mq_lanes m), mq_jobs = (mq_jobs m)[i := ?j]\<rparr>"
  proof (rule queue_update [OF inv i lane.rel_leave [OF rel q] others j, where F = "{}"])
    show "tickets ?j \<subseteq> tickets (mq_jobs m ! i) \<union> {}" using h by (auto simp: tickets_def)
    show "u \<in> tickets ?j \<or> u \<in> set (q k') \<and> u \<notin> tickets (mq_jobs m ! i)" if "u \<in> set (?q k')" for k' u
      using gone [OF that] that q h w by (auto simp: tickets_def split: if_splits)
  qed auto
  moreover have "job_leave i m = \<lparr>mq_lanes = enqueue_leave t (mq_lanes m), mq_jobs = (mq_jobs m)[i := ?j]\<rparr>"
    using h by (simp add: job_leave_def Let_def)
  ultimately show ?thesis by metis
qed

inductive_cases progressE: "progress m m'"

lemma queue_state_inv: "queue_state m \<Longrightarrow> \<exists>q. queue_inv q m"
proof (induction rule: queue_state.induct)
  case empty
  show ?case by (intro exI [of _ "\<lambda>_. []"]) (simp add: queue_inv_def lane_rel_def no_lanes_def)
next
  case (start m lanes)
  then show ?case using job_start_inv calls_sorted by blast
next
  case (step m m')
  then obtain q where inv: "queue_inv q m" by blast
  from step.hyps(2) show ?case
  proof (cases rule: progress.cases)
    case (grant i t)
    then show ?thesis using grant_inv [OF inv] by blast
  next
    case (leave i)
    then show ?thesis using leave_inv [OF inv] by (metis list.exhaust)
  qed
qed

text \<open>
  Claim C22.
  No two calls of the mutation queue hold the same repository or worktree at the same time, whatever calls are made, in whatever
  order their operations end.
\<close>

theorem lanes_are_exclusive:
  assumes "queue_state m" "i < length (mq_jobs m)" "k < length (mq_jobs m)" "i \<noteq> k"
    and "t \<in> set (jb_held (mq_jobs m ! i))" "u \<in> set (jb_held (mq_jobs m ! k))"
  shows "tk_key t \<noteq> tk_key u"
proof
  assume same: "tk_key t = tk_key u"
  obtain q where inv: "queue_inv q m" using queue_state_inv [OF assms(1)] by blast
  then have "job_rel q (mq_jobs m ! i)" "job_rel q (mq_jobs m ! k)" using assms(2,3) by (simp_all add: queue_inv_def)
  then have "hd (q (tk_key t)) = t" "hd (q (tk_key u)) = u" using assms(5,6) unfolding job_rel_def by blast+
  then have "t = u" unfolding same by simp
  moreover have "tickets (mq_jobs m ! i) \<inter> tickets (mq_jobs m ! k) = {}" using inv assms(2-4) by (simp add: queue_inv_def)
  ultimately show False using assms(5,6) by (auto simp: tickets_def)
qed

definition two_calls :: mutation_queue where
  "two_calls = job_start (withRepository ''b'') (job_start (withRepositoryAndWorktree ''a'' ''w'') \<lparr>mq_lanes = no_lanes, mq_jobs = []\<rparr>)"

definition two_holders :: mutation_queue where
  "two_holders = job_grant 1 \<lparr>tk_key = ''repository:b'', tk_previous = None, tk_current = 1\<rparr>
     (job_grant 0 \<lparr>tk_key = ''repository:a'', tk_previous = None, tk_current = 0\<rparr> two_calls)"

lemma two_calls_state: "queue_state two_calls"
  unfolding two_calls_def by (intro queue_state.intros mutation_call.intros)

lemmas lane_simps = two_holders_def two_calls_def job_grant_def job_start_def enqueue_enter_def enqueue_ready_def no_lanes_def Let_def
  withRepository_def withWorktree_def withRepositoryAndWorktree_def withRepositoryAndWorktrees_def repository_lane_def worktree_lane_def jmap_set_def jmap_get_Cons

lemma two_holders_state: "queue_state two_holders"
proof -
  let ?a = "\<lparr>tk_key = ''repository:a'', tk_previous = None, tk_current = 0\<rparr>" and ?b = "\<lparr>tk_key = ''repository:b'', tk_previous = None, tk_current = 1\<rparr>"
  have "progress two_calls (job_grant 0 ?a two_calls)"
    by (rule progress.grant) (simp_all add: lane_simps)
  with two_calls_state have one: "queue_state (job_grant 0 ?a two_calls)" by (rule queue_state.step)
  have "progress (job_grant 0 ?a two_calls) (job_grant 1 ?b (job_grant 0 ?a two_calls))"
    by (rule progress.grant) (simp_all add: lane_simps)
  with one show ?thesis unfolding two_holders_def by (rule queue_state.step)
qed

theorem lanes_are_exclusive_witness:
  "\<exists>t u. t \<in> set (jb_held (mq_jobs two_holders ! 0)) \<and> u \<in> set (jb_held (mq_jobs two_holders ! 1)) \<and> tk_key t \<noteq> tk_key u"
proof -
  have two: "0 < length (mq_jobs two_holders)" "1 < length (mq_jobs two_holders)" by (simp_all add: lane_simps)
  obtain t u where "t \<in> set (jb_held (mq_jobs two_holders ! 0))" "u \<in> set (jb_held (mq_jobs two_holders ! 1))" by (simp add: lane_simps)
  then show ?thesis using lanes_are_exclusive [OF two_holders_state two zero_neq_one] by blast
qed

text \<open>A waiting call is behind a call that waits for a later lane, so one of the calls that wait for the last lane goes on.\<close>

lemma unready_behind:
  assumes inv: "queue_inv q m" and i: "i < length (mq_jobs m)" "jb_wait (mq_jobs m ! i) = Some t" "\<not> enqueue_ready t (mq_lanes m)"
    and stuck: "\<not> (\<exists>m'. progress m m')"
  shows "\<exists>k u. k < length (mq_jobs m) \<and> jb_wait (mq_jobs m ! k) = Some u \<and> tk_key t < tk_key u"
proof -
  have rel: "lane_rel q (mq_lanes m)" and jobs: "\<And>n. n < length (mq_jobs m) \<Longrightarrow> job_rel q (mq_jobs m ! n)"
    using inv by (simp_all add: queue_inv_def)
  have tq: "t \<in> set (q (tk_key t))" using jobs i by (simp add: job_rel_def)
  let ?h = "hd (q (tk_key t))"
  have ready: "?h \<in> set (q (tk_key t))" "enqueue_ready ?h (mq_lanes m)" using lane.some_ready [OF rel, of "tk_key t"] tq by (cases "q (tk_key t)"; simp)+
  then have key: "tk_key ?h = tk_key t" using rel by (auto simp: lane_rel_def)
  obtain k where k: "k < length (mq_jobs m)" "?h \<in> tickets (mq_jobs m ! k)" using inv ready(1) unfolding queue_inv_def by blast
  have "jb_wait (mq_jobs m ! k) \<noteq> Some ?h" using stuck k(1) ready(2) progress.grant by blast
  then have held: "?h \<in> set (jb_held (mq_jobs m ! k))" using k(2) by (auto simp: tickets_def)
  then have "jb_wait (mq_jobs m ! k) \<noteq> None" using stuck k(1) progress.leave by (metis empty_iff empty_set)
  then obtain u where u: "jb_wait (mq_jobs m ! k) = Some u" by blast
  moreover have "tk_key t < tk_key u" using held_before_wait [OF _ held u] jobs [OF k(1)] key by (simp add: job_rel_def)
  ultimately show ?thesis using k(1) by blast
qed

lemma not_stuck:
  assumes inv: "queue_inv q m" and i: "i < length (mq_jobs m)" "\<not> finished (mq_jobs m ! i)"
  shows "\<exists>m'. progress m m'"
proof (rule ccontr)
  assume stuck: "\<not> (\<exists>m'. progress m m')"
  let ?W = "{tk_key t |k t. k < length (mq_jobs m) \<and> jb_wait (mq_jobs m ! k) = Some t}"
  have "jb_wait (mq_jobs m ! i) \<noteq> None" using stuck i progress.leave by (metis finished_def)
  then have ne: "?W \<noteq> {}" using i(1) by blast
  have "?W \<subseteq> (\<lambda>k. tk_key (the (jb_wait (mq_jobs m ! k)))) ` {..< length (mq_jobs m)}" by force
  then have fin: "finite ?W" by (rule finite_subset) simp
  have "Max ?W \<in> ?W" using Max_in [OF fin ne] .
  then obtain k t where k: "k < length (mq_jobs m)" "jb_wait (mq_jobs m ! k) = Some t" "tk_key t = Max ?W" by auto
  have "\<not> enqueue_ready t (mq_lanes m)" using stuck k progress.grant by blast
  then obtain n u where "n < length (mq_jobs m)" "jb_wait (mq_jobs m ! n) = Some u" "tk_key t < tk_key u"
    using unready_behind [OF inv k(1,2) _ stuck] by blast
  then have "tk_key u \<in> ?W" "\<not> tk_key u \<le> Max ?W" using k(3) by auto
  then show False using Max_ge [OF fin] by blast
qed

lemma sum_list_update_less: "i < length xs \<Longrightarrow> f x < f (xs ! i) \<Longrightarrow> sum_list (map f (xs[i := x])) < sum_list (map f xs :: nat list)"
proof (induction xs arbitrary: i)
  case (Cons y ys)
  then show ?case by (cases i) auto
qed simp

lemma progress_measure:
  assumes inv: "queue_inv q m" and "progress m m'"
  shows "sum_list (map steps_left (mq_jobs m')) < sum_list (map steps_left (mq_jobs m))"
  using assms(2)
proof (cases rule: progress.cases)
  case (grant i t)
  have "job_ok (mq_jobs m ! i)" using inv grant(2) by (simp add: queue_inv_def job_rel_def)
  then have "\<not> jb_leaving (mq_jobs m ! i)" "length (jb_held (mq_jobs m ! i)) < length (jb_lanes (mq_jobs m ! i))"
    using grant(3) by (auto simp: job_ok_def)
  moreover have "\<exists>w. mq_jobs m' = (mq_jobs m)[i := (mq_jobs m ! i)\<lparr>jb_held := t # jb_held (mq_jobs m ! i), jb_wait := w\<rparr>]"
    by (simp add: grant(1) job_grant_def Let_def split: prod.splits) blast
  ultimately show ?thesis using grant(2) by (auto intro!: sum_list_update_less simp: steps_left_def)
next
  case (leave i)
  have ok: "job_ok (mq_jobs m ! i)" using inv leave(2) by (simp add: queue_inv_def job_rel_def)
  have "steps_left ((mq_jobs m ! i)\<lparr>jb_held := tl (jb_held (mq_jobs m ! i)), jb_leaving := True\<rparr>) < steps_left (mq_jobs m ! i)"
    using ok leave(3,4) by (auto simp: steps_left_def job_ok_def)
  then show ?thesis using leave(2) by (simp add: leave(1) job_leave_def Let_def sum_list_update_less)
qed

text \<open>
  Claim C13.
  The mutation queue cannot deadlock: as long as a call has not finished, some call can go on, and every step brings the calls
  closer to their end, so all calls finish once no new ones are made and every operation ends.
\<close>

theorem mutation_queue_progresses:
  assumes m: "queue_state m"
  shows "((\<exists>j \<in> set (mq_jobs m). \<not> finished j) \<longrightarrow> (\<exists>m'. progress m m'))
    \<and> (\<forall>m'. progress m m' \<longrightarrow> sum_list (map steps_left (mq_jobs m')) < sum_list (map steps_left (mq_jobs m)))"
proof -
  obtain q where inv: "queue_inv q m" using queue_state_inv [OF m] by blast
  show ?thesis using not_stuck [OF inv] progress_measure [OF inv] by (auto simp: in_set_conv_nth)
qed

theorem mutation_queue_progresses_witness:
  "queue_state two_calls \<and> (\<exists>m'. progress two_calls m')"
proof -
  have "\<exists>j \<in> set (mq_jobs two_calls). \<not> finished j" by (simp add: lane_simps finished_def)
  then show ?thesis using mutation_queue_progresses [OF two_calls_state] two_calls_state by blast
qed

end
