(* ===== verification/Operation_Gates.thy ===== *)
theory Operation_Gates
  imports Serial_Lanes
begin

text \<open>
  The operation gate of instances (\<^verbatim>\<open>packages/node-agent/src/instances/instance-operation-gate.ts\<close>) and the coordinator of story
  operations (\<^verbatim>\<open>packages/node-agent/src/stories/operation-coordinator.ts\<close>). Both serialise operations per key and implement the
  contract \<open>fifo_lanes\<close>: the gate with the promises of \<open>Serial_Lanes\<close>, the coordinator with a chain in which the promise a call
  waits for is settled when the call before it released and that call's own promise is settled.
\<close>

section \<open>The gate\<close>

text \<open>An intent is a number; \<open>ga_aborted\<close> lists the intents whose controller was aborted.\<close>

record operation_gate =
  ga_operations :: lanes
  ga_intents :: "(string, nat) jmap"
  ga_aborted :: "nat list"
  ga_made :: nat

definition fresh_intent :: "string \<Rightarrow> operation_gate \<Rightarrow> nat \<times> operation_gate" where
  "fresh_intent instanceId g = (ga_made g, g\<lparr>ga_made := ga_made g + 1, ga_intents := jmap_set instanceId (ga_made g) (ga_intents g)\<rparr>)"

definition intent :: "string \<Rightarrow> operation_gate \<Rightarrow> nat \<times> operation_gate" where
  "intent instanceId g = (case jmap_get (ga_intents g) instanceId of Some current \<Rightarrow> (current, g) | None \<Rightarrow> fresh_intent instanceId g)"

definition invalidate :: "string \<Rightarrow> operation_gate \<Rightarrow> nat \<times> operation_gate" where
  "invalidate instanceId g =
     (let g = (case jmap_get (ga_intents g) instanceId of Some current \<Rightarrow> g\<lparr>ga_aborted := current # ga_aborted g\<rparr> | None \<Rightarrow> g)
      in fresh_intent instanceId g)"

definition isIntentCurrent :: "string \<Rightarrow> nat \<Rightarrow> operation_gate \<Rightarrow> bool" where
  "isIntentCurrent instanceId i g = (jmap_get (ga_intents g) instanceId = Some i)"

text \<open>Whether the signal is aborted.\<close>

definition signal_aborted :: "string \<Rightarrow> nat \<Rightarrow> operation_gate \<Rightarrow> bool" where
  "signal_aborted instanceId i g = (if jmap_get (ga_intents g) instanceId = Some i then i \<in> set (ga_aborted g) else True)"

definition clearIntent :: "string \<Rightarrow> operation_gate \<Rightarrow> operation_gate" where
  "clearIntent instanceId g = g\<lparr>ga_intents := jmap_delete instanceId (ga_intents g)\<rparr>"

definition gate_enter :: "string \<Rightarrow> operation_gate \<Rightarrow> ticket \<times> operation_gate" where
  "gate_enter instanceId g = (case enqueue_enter instanceId (ga_operations g) of (t, s) \<Rightarrow> (t, g\<lparr>ga_operations := s\<rparr>))"

definition gate_ready :: "ticket \<Rightarrow> operation_gate \<Rightarrow> bool" where
  "gate_ready t g = enqueue_ready t (ga_operations g)"

definition gate_leave :: "ticket \<Rightarrow> operation_gate \<Rightarrow> operation_gate" where
  "gate_leave t g = g\<lparr>ga_operations := enqueue_leave t (ga_operations g)\<rparr>"

interpretation gate: fifo_lanes gate_enter gate_ready gate_leave "\<lambda>q g. lane_rel q (ga_operations g)"
  by unfold_locales (auto simp: gate_enter_def gate_ready_def gate_leave_def lane.rel_ready lane.rel_leave
      intro: lane.rel_enter lane.rel_fresh split: prod.splits dest: lane.rel_fresh)

text \<open>Only the newest intent of an instance goes on: the intents of an instance are numbered in the order they were made.\<close>

definition intents_ok :: "operation_gate \<Rightarrow> bool" where
  "intents_ok g \<longleftrightarrow> jmap_ok (ga_intents g) \<and> (\<forall>i n. jmap_get (ga_intents g) i = Some n \<longrightarrow> n < ga_made g \<and> n \<notin> set (ga_aborted g))
     \<and> (\<forall>n \<in> set (ga_aborted g). n < ga_made g) \<and> (\<forall>i j n. jmap_get (ga_intents g) i = Some n \<longrightarrow> jmap_get (ga_intents g) j = Some n \<longrightarrow> i = j)"

lemma fresh_intent_ok:
  assumes "intents_ok g"
  shows "intents_ok (snd (fresh_intent i g))"
  unfolding intents_ok_def
proof (intro conjI allI impI ballI)
  let ?g = "snd (fresh_intent i g)"
  show "jmap_ok (ga_intents ?g)" using assms by (simp add: intents_ok_def fresh_intent_def jm.ok_put)
  show "n < ga_made ?g" if "n \<in> set (ga_aborted ?g)" for n using assms that by (fastforce simp: intents_ok_def fresh_intent_def)
  fix j n assume n: "jmap_get (ga_intents ?g) j = Some n"
  show "n < ga_made ?g" "n \<notin> set (ga_aborted ?g)"
    using assms n by (fastforce simp: intents_ok_def fresh_intent_def jm.get_put split: if_splits)+
  fix k assume "jmap_get (ga_intents ?g) k = Some n"
  then show "j = k" using assms n by (fastforce simp: intents_ok_def fresh_intent_def jm.get_put split: if_splits)
qed

lemma intent_ok: "intents_ok g \<Longrightarrow> intents_ok (snd (intent i g))"
  by (simp add: intent_def fresh_intent_ok split: option.splits)

lemma clearIntent_ok: "intents_ok g \<Longrightarrow> intents_ok (clearIntent i g)"
  by (auto simp: intents_ok_def clearIntent_def jm.get_del jm.ok_del split: if_splits)

lemma invalidate_facts:
  "fst (invalidate i g) = ga_made g" "ga_intents (snd (invalidate i g)) = jmap_set i (ga_made g) (ga_intents g)"
  "set (ga_aborted (snd (invalidate i g))) = set_option (jmap_get (ga_intents g) i) \<union> set (ga_aborted g)"
  by (auto simp: invalidate_def fresh_intent_def Let_def split: option.splits)

lemma invalidate_supersedes:
  assumes ok: "intents_ok g"
  shows "isIntentCurrent i (fst (invalidate i g)) (snd (invalidate i g)) \<and> \<not> signal_aborted i (fst (invalidate i g)) (snd (invalidate i g))
    \<and> (\<forall>n < ga_made g. signal_aborted i n (snd (invalidate i g)))
    \<and> (\<forall>j n. j \<noteq> i \<longrightarrow> \<not> signal_aborted j n g \<longrightarrow> \<not> signal_aborted j n (snd (invalidate i g)))"
proof (intro conjI allI impI)
  have bound: "n < ga_made g" if "n \<in> set (ga_aborted g) \<or> jmap_get (ga_intents g) i = Some n" for n
    using ok that unfolding intents_ok_def by blast
  then have "ga_made g \<notin> set (ga_aborted (snd (invalidate i g)))" by (auto simp: invalidate_facts)
  then show "isIntentCurrent i (fst (invalidate i g)) (snd (invalidate i g))" "\<not> signal_aborted i (fst (invalidate i g)) (snd (invalidate i g))"
    by (simp_all add: invalidate_facts isIntentCurrent_def signal_aborted_def)
  show "signal_aborted i n (snd (invalidate i g))" if "n < ga_made g" for n
    using that by (simp add: invalidate_facts signal_aborted_def)
  fix j n assume j: "j \<noteq> i" "\<not> signal_aborted j n g"
  then have n: "jmap_get (ga_intents g) j = Some n" "n \<notin> set (ga_aborted g)" by (auto simp: signal_aborted_def split: if_splits)
  then have "jmap_get (ga_intents g) i \<noteq> Some n" using ok j(1) unfolding intents_ok_def by blast
  then show "\<not> signal_aborted j n (snd (invalidate i g))" using j(1) n by (auto simp: invalidate_facts signal_aborted_def)
qed

section \<open>The coordinator\<close>

text \<open>
  A tail is a position in \<open>oc_links\<close>, which holds the tail before it and whether the call released. The tail is settled when
  the call released and the tail before it is settled.
\<close>

record coordinator =
  oc_tails :: "(string, nat) jmap"
  oc_links :: "(nat option \<times> bool) list"
  oc_accepting :: bool

function settled :: "(nat option \<times> bool) list \<Rightarrow> nat \<Rightarrow> bool" where
  "settled links n =
     (n < length links \<and> snd (links ! n) \<and> (case fst (links ! n) of None \<Rightarrow> True | Some p \<Rightarrow> if p < n then settled links p else False))"
  by pat_completeness auto
termination by (relation "measure snd") auto

declare settled.simps [simp del]

datatype coordinator_error = StoryStorageQuiescing

definition chain_enter :: "string \<Rightarrow> coordinator \<Rightarrow> ticket \<times> coordinator" where
  "chain_enter storyId s =
     (let previous = jmap_get (oc_tails s) storyId; tail = length (oc_links s)
      in (\<lparr>tk_key = storyId, tk_previous = previous, tk_current = tail\<rparr>,
          s\<lparr>oc_links := oc_links s @ [(previous, False)], oc_tails := jmap_set storyId tail (oc_tails s)\<rparr>))"

definition coordinator_acquire :: "string \<Rightarrow> coordinator \<Rightarrow> coordinator_error + (ticket \<times> coordinator)" where
  "coordinator_acquire storyId s = (if \<not> oc_accepting s then Inl StoryStorageQuiescing else Inr (chain_enter storyId s))"

definition chain_ready :: "ticket \<Rightarrow> coordinator \<Rightarrow> bool" where
  "chain_ready t s = (case tk_previous t of None \<Rightarrow> True | Some p \<Rightarrow> settled (oc_links s) p)"

definition chain_release :: "ticket \<Rightarrow> coordinator \<Rightarrow> coordinator" where
  "chain_release t s = s\<lparr>oc_links := (oc_links s)[tk_current t := (fst (oc_links s ! tk_current t), True)]\<rparr>"

text \<open>The \<^verbatim>\<open>finally\<close> callback of a settled tail.\<close>

definition chain_forget :: "ticket \<Rightarrow> coordinator \<Rightarrow> coordinator" where
  "chain_forget t s =
     (if settled (oc_links s) (tk_current t) \<and> jmap_get (oc_tails s) (tk_key t) = Some (tk_current t)
      then s\<lparr>oc_tails := jmap_delete (tk_key t) (oc_tails s)\<rparr> else s)"

definition stopAccepting :: "coordinator \<Rightarrow> coordinator" where
  "stopAccepting s = s\<lparr>oc_accepting := False\<rparr>"

definition drained :: "coordinator \<Rightarrow> bool" where
  "drained s = list_all (settled (oc_links s)) (jmap_values (oc_tails s))"

definition pendingStoryIds :: "coordinator \<Rightarrow> string list" where
  "pendingStoryIds s = jmap_keys (oc_tails s)"

section \<open>The coordinator implements the contract\<close>

lemma settled_append:
  assumes "n < length links"
  shows "settled (links @ xs) n = settled links n"
  using assms
proof (induction links n rule: settled.induct)
  case (1 links n)
  show ?case
  proof (cases "fst (links ! n)")
    case None
    then show ?thesis using 1(2) by (simp add: settled.simps [of _ n] nth_append)
  next
    case (Some p)
    then show ?thesis using 1 by (cases "snd (links ! n)") (simp_all add: settled.simps [of _ n] nth_append)
  qed
qed

lemma settled_release:
  assumes "settled links n"
  shows "settled (links[i := (fst (links ! i), True)]) n"
  using assms
proof (induction links n rule: settled.induct)
  case (1 links n)
  have n: "n < length links" "snd (links ! n)" and p: "\<And>p. fst (links ! n) = Some p \<Longrightarrow> p < n \<and> settled links p"
    using 1(2) by (auto simp: settled.simps [of links n] split: option.splits if_splits)
  have upd: "fst (links[i := (fst (links ! i), True)] ! n) = fst (links ! n)" "snd (links[i := (fst (links ! i), True)] ! n)"
    using n by (cases "i = n"; simp)+
  show ?case
  proof (cases "fst (links ! n)")
    case None
    then show ?thesis using n upd by (simp add: settled.simps [of _ n])
  next
    case (Some q)
    then show ?thesis using n upd p [OF Some] 1(1) [OF Some] by (simp add: settled.simps [of _ n])
  qed
qed

definition chain_rel :: "(string \<Rightarrow> ticket list) \<Rightarrow> coordinator \<Rightarrow> bool" where
  "chain_rel q s \<longleftrightarrow> jmap_ok (oc_tails s)
     \<and> (\<forall>k n. jmap_get (oc_tails s) k = Some n \<longrightarrow> n < length (oc_links s))
     \<and> (\<forall>k. if q k = [] then (\<forall>n. jmap_get (oc_tails s) k = Some n \<longrightarrow> settled (oc_links s) n)
            else jmap_get (oc_tails s) k = Some (tk_current (last (q k))))
     \<and> (\<forall>k. \<forall>t \<in> set (q k). tk_key t = k \<and> tk_current t < length (oc_links s) \<and> oc_links s ! tk_current t = (tk_previous t, False)
          \<and> (\<forall>p. tk_previous t = Some p \<longrightarrow> p < tk_current t))
     \<and> (\<forall>k. q k \<noteq> [] \<longrightarrow> chain_ready (hd (q k)) s)
     \<and> (\<forall>k i. Suc i < length (q k) \<longrightarrow> tk_previous (q k ! Suc i) = Some (tk_current (q k ! i)))
     \<and> (\<forall>k. distinct (map tk_current (q k)))
     \<and> (\<forall>k k' t u. t \<in> set (q k) \<longrightarrow> u \<in> set (q k') \<longrightarrow> tk_current t = tk_current u \<longrightarrow> k = k')"

lemma chain_relD:
  assumes "chain_rel q s"
  shows "jmap_ok (oc_tails s)" "jmap_get (oc_tails s) k = Some n \<Longrightarrow> n < length (oc_links s)"
    "q k = [] \<Longrightarrow> jmap_get (oc_tails s) k = Some n \<Longrightarrow> settled (oc_links s) n" "q k \<noteq> [] \<Longrightarrow> jmap_get (oc_tails s) k = Some (tk_current (last (q k)))"
    "t \<in> set (q k) \<Longrightarrow> tk_key t = k" "t \<in> set (q k) \<Longrightarrow> tk_current t < length (oc_links s)"
    "t \<in> set (q k) \<Longrightarrow> oc_links s ! tk_current t = (tk_previous t, False)" "t \<in> set (q k) \<Longrightarrow> tk_previous t = Some p \<Longrightarrow> p < tk_current t"
    "q k \<noteq> [] \<Longrightarrow> chain_ready (hd (q k)) s" "Suc i < length (q k) \<Longrightarrow> tk_previous (q k ! Suc i) = Some (tk_current (q k ! i))"
    "distinct (map tk_current (q k))" "t \<in> set (q k) \<Longrightarrow> u \<in> set (q k') \<Longrightarrow> tk_current t = tk_current u \<Longrightarrow> k = k'"
  using assms unfolding chain_rel_def by (meson if_splits)+

lemma chain_rel_enter:
  assumes rel: "chain_rel q s" and e: "chain_enter k s = (t, s')"
  shows "chain_rel (q(k := q k @ [t])) s'"
proof -
  let ?q = "q(k := q k @ [t])" and ?n = "length (oc_links s)"
  note D = chain_relD [OF rel]
  have t: "t = \<lparr>tk_key = k, tk_previous = jmap_get (oc_tails s) k, tk_current = ?n\<rparr>"
    and s': "oc_links s' = oc_links s @ [(jmap_get (oc_tails s) k, False)]" "oc_tails s' = jmap_set k ?n (oc_tails s)"
    using e by (auto simp: chain_enter_def Let_def)
  have split: "u = t \<and> k' = k \<or> u \<in> set (q k')" if "u \<in> set (?q k')" for u k' using that by (auto split: if_splits)
  have ready: "chain_ready u s \<Longrightarrow> chain_ready u s'" if "\<And>p. tk_previous u = Some p \<Longrightarrow> p < ?n" for u
    using that by (auto simp: chain_ready_def s' settled_append split: option.splits)
  show ?thesis
    unfolding chain_rel_def
  proof (intro conjI allI ballI impI)
    show "jmap_ok (oc_tails s')" using D(1) by (simp add: s' jm.ok_put)
    show "n < length (oc_links s')" if "jmap_get (oc_tails s') k' = Some n" for k' n
      using that D(2) [of k' n] by (auto simp: s' jm.get_put split: if_splits)
    show "if ?q k' = [] then \<forall>n. jmap_get (oc_tails s') k' = Some n \<longrightarrow> settled (oc_links s') n
        else jmap_get (oc_tails s') k' = Some (tk_current (last (?q k')))" for k'
      using D(2) [of k'] D(3) [of k'] D(4) [of k'] by (cases "k' = k") (auto simp: s' t jm.get_put settled_append)
    fix k' u assume u: "u \<in> set (?q k')"
    show "tk_key u = k'" "tk_current u < length (oc_links s')" "oc_links s' ! tk_current u = (tk_previous u, False)"
      using split [OF u] D(5-7) [of u k'] by (auto simp: t s' nth_append)
    show "p < tk_current u" if "tk_previous u = Some p" for p
      using split [OF u] D(8) [of u k' p] D(2) [of k p] that by (auto simp: t)
  next
    fix k' assume "?q k' \<noteq> []"
    show "chain_ready (hd (?q k')) s'"
    proof (cases "q k' = []")
      case True
      then have "k' = k" "q k = []" using \<open>?q k' \<noteq> []\<close> by (auto split: if_splits)
      then show ?thesis using D(2) [of k] D(3) [of k] by (auto simp: chain_ready_def t s' settled_append split: option.splits)
    next
      case False
      then have "hd (?q k') = hd (q k')" "hd (q k') \<in> set (q k')" by auto
      then show ?thesis using ready [of "hd (q k')"] D(9) [OF False] D(6,8) by (metis less_trans)
    qed
  next
    fix k' i assume i: "Suc i < length (?q k')"
    show "tk_previous (?q k' ! Suc i) = Some (tk_current (?q k' ! i))"
    proof (cases "k' = k \<and> Suc i = length (q k)")
      case True
      then have "q k \<noteq> []" "q k ! i = last (q k)" by (cases "q k" rule: rev_cases; simp)+
      then show ?thesis using True D(4) [of k] by (simp add: nth_append t)
    next
      case False
      then show ?thesis using i D(10) [of i k'] by (cases "k' = k") (auto simp: nth_append)
    qed
  next
    have "?n \<notin> tk_current ` set (q k)" using D(6) by fastforce
    then show "distinct (map tk_current (?q k'))" for k' using D(11) [of k'] D(11) [of k] by (simp add: t)
    fix k1 k2 u v assume uv: "u \<in> set (?q k1)" "v \<in> set (?q k2)" "tk_current u = tk_current v"
    have "tk_current t = ?n" by (simp add: t)
    then show "k1 = k2" using split [OF uv(1)] split [OF uv(2)] uv(3) D(6,12) by (metis less_irrefl)
  qed
qed

lemma chain_rel_ready:
  assumes rel: "chain_rel q s" and t: "t \<in> set (q k)"
  shows "chain_ready t s \<longleftrightarrow> t = hd (q k)"
proof -
  note D = chain_relD [OF rel]
  obtain n where n: "n < length (q k)" "t = q k ! n" using t by (auto simp: in_set_conv_nth)
  have ne: "q k \<noteq> []" using n by auto
  show ?thesis
  proof (cases n)
    case 0
    then show ?thesis using n ne D(9) by (simp add: hd_conv_nth)
  next
    case (Suc i)
    then have prev: "tk_previous t = Some (tk_current (q k ! i))" using D(10) n by simp
    have "q k ! i \<in> set (q k)" using n Suc by simp
    then have "\<not> settled (oc_links s) (tk_current (q k ! i))" using D(7) by (simp add: settled.simps [of _ "tk_current (q k ! i)"])
    then show ?thesis using prev D(9) [OF ne] by (auto simp: chain_ready_def)
  qed
qed

lemma chain_rel_release:
  assumes rel: "chain_rel q s" and q: "q k = t # ts"
  shows "chain_rel (q(k := ts)) (chain_release t s)"
proof -
  let ?q = "q(k := ts)" and ?s = "chain_release t s"
  note D = chain_relD [OF rel]
  have tk: "t \<in> set (q k)" using q by simp
  have links: "oc_links ?s = (oc_links s)[tk_current t := (fst (oc_links s ! tk_current t), True)]" "oc_tails ?s = oc_tails s" by (simp_all add: chain_release_def)
  have sub: "set (?q k') \<subseteq> set (q k')" for k' using q by auto
  have other: "tk_current u \<noteq> tk_current t" if "u \<in> set (?q k')" for u k'
  proof
    assume same: "tk_current u = tk_current t"
    then have "k' = k" using D(12) [of u k' t k] sub [of k'] that tk by blast
    then show False using same that D(11) [of k] q by (force simp: rev_image_eqI)
  qed
  have mono: "chain_ready u s \<Longrightarrow> chain_ready u ?s" for u by (auto simp: chain_ready_def links settled_release split: option.splits)
  have "chain_ready t s" using D(9) [of k] q by simp
  then have released: "settled (oc_links ?s) (tk_current t)"
    using D(6-8) [OF tk] settled_release [of "oc_links s" _ "tk_current t"]
    by (simp add: settled.simps [of _ "tk_current t"] links chain_ready_def split: option.splits)
  show ?thesis
    unfolding chain_rel_def
  proof (intro conjI allI ballI impI)
    show "jmap_ok (oc_tails ?s)" using D(1) by (simp add: links)
    show "n < length (oc_links ?s)" if "jmap_get (oc_tails ?s) k' = Some n" for k' n using that D(2) by (simp add: links)
    show "if ?q k' = [] then \<forall>n. jmap_get (oc_tails ?s) k' = Some n \<longrightarrow> settled (oc_links ?s) n
        else jmap_get (oc_tails ?s) k' = Some (tk_current (last (?q k')))" for k'
      using D(3) [of k'] D(4) [of k'] q released settled_release [of "oc_links s" _ "tk_current t"] by (cases "k' = k") (auto simp: links)
    fix k' u assume u: "u \<in> set (?q k')"
    then have "u \<in> set (q k')" using sub by blast
    then show "tk_key u = k'" "tk_current u < length (oc_links ?s)" "oc_links ?s ! tk_current u = (tk_previous u, False)"
      "\<And>p. tk_previous u = Some p \<Longrightarrow> p < tk_current u"
      using D(5-8) [of u k'] other [OF u] by (simp_all add: links)
  next
    fix k' assume ne: "?q k' \<noteq> []"
    show "chain_ready (hd (?q k')) ?s"
    proof (cases "k' = k")
      case True
      then have "tk_previous (hd ts) = Some (tk_current t)" using D(10) [of 0 k] q ne by (cases ts) auto
      then show ?thesis using True released by (simp add: chain_ready_def)
    qed (use D(9) [of k'] mono ne in auto)
  next
    fix k' i assume "Suc i < length (?q k')"
    then show "tk_previous (?q k' ! Suc i) = Some (tk_current (?q k' ! i))"
      using D(10) [of "Suc i" k] D(10) [of i k'] q by (cases "k' = k") auto
  next
    show "distinct (map tk_current (?q k'))" for k' using D(11) [of k'] q by auto
    show "k1 = k2" if "u \<in> set (?q k1)" "v \<in> set (?q k2)" "tk_current u = tk_current v" for k1 k2 u v
      using that D(12) [of u k1 v k2] sub by blast
  qed
qed

lemma chain_rel_forget:
  assumes rel: "chain_rel q s"
  shows "chain_rel q (chain_forget t s)"
proof (cases "settled (oc_links s) (tk_current t) \<and> jmap_get (oc_tails s) (tk_key t) = Some (tk_current t)")
  case True
  note D = chain_relD [OF rel]
  have "q (tk_key t) = []"
  proof (rule ccontr)
    assume ne: "q (tk_key t) \<noteq> []"
    then have "tk_current (last (q (tk_key t))) = tk_current t" using D(4) True by simp
    moreover have "oc_links s ! tk_current (last (q (tk_key t))) = (tk_previous (last (q (tk_key t))), False)" using D(7) last_in_set [OF ne] by blast
    ultimately show False using True by (simp add: settled.simps [of _ "tk_current t"])
  qed
  moreover have "chain_ready u (s\<lparr>oc_tails := m\<rparr>) = chain_ready u s" for u m by (simp add: chain_ready_def split: option.splits)
  ultimately show ?thesis using rel True D(1) unfolding chain_rel_def chain_forget_def
    by (auto simp: jm.get_del jm.ok_del split: if_splits)
qed (use rel in \<open>auto simp: chain_forget_def\<close>)

interpretation chain: fifo_lanes chain_enter chain_ready chain_release chain_rel
proof unfold_locales
  show "t \<notin> set (q k')" if rel: "chain_rel q s" and e: "chain_enter k s = (t, s')" for q s k t s' k'
    using chain_relD(6) [OF rel, of t k'] e by (auto simp: chain_enter_def Let_def)
qed (fact chain_rel_enter chain_rel_ready chain_rel_release)+

text \<open>Draining waits for every operation: once the tails are settled, no operation is running or waiting.\<close>

lemma drained_idle:
  assumes rel: "chain_rel q s" and d: "drained s"
  shows "q k = []"
proof (rule ccontr)
  assume ne: "q k \<noteq> []"
  note D = chain_relD [OF rel]
  have "jmap_get (oc_tails s) k = Some (tk_current (last (q k)))" by (rule D(4) [OF ne])
  then have "settled (oc_links s) (tk_current (last (q k)))"
    using d jmap_get_in by (fastforce simp: drained_def list_all_iff)
  then show False using D(7) [OF last_in_set [OF ne]] by (simp add: settled.simps [of _ "tk_current (last (q k))"])
qed

section \<open>Runs of the coordinator\<close>

text \<open>The tickets of the operations that run or wait, in the order of their calls.\<close>

inductive coordinated :: "coordinator \<Rightarrow> ticket list \<Rightarrow> bool" where
  start: "coordinated \<lparr>oc_tails = [], oc_links = [], oc_accepting = True\<rparr> []"
| acquire: "coordinated s ts \<Longrightarrow> coordinator_acquire k s = Inr (t, s') \<Longrightarrow> coordinated s' (ts @ [t])"
| release: "coordinated s ts \<Longrightarrow> t \<in> set ts \<Longrightarrow> chain_ready t s \<Longrightarrow> coordinated (chain_release t s) (remove1 t ts)"
| forget: "coordinated s ts \<Longrightarrow> coordinated (chain_forget t s) ts"
| stop: "coordinated s ts \<Longrightarrow> coordinated (stopAccepting s) ts"

definition lane_of :: "ticket list \<Rightarrow> string \<Rightarrow> ticket list" where
  "lane_of ts k = filter (\<lambda>u. tk_key u = k) ts"

lemma lane_of_remove: "lane_of (remove1 t ts) k = (if tk_key t = k then remove1 t (lane_of ts k) else lane_of ts k)"
  by (induction ts) (auto simp: lane_of_def)

lemma coordinated_rel: "coordinated s ts \<Longrightarrow> chain_rel (lane_of ts) s"
proof (induction rule: coordinated.induct)
  case start
  show ?case by (simp add: chain_rel_def lane_of_def)
next
  case (acquire s ts k t s')
  have e: "chain_enter k s = (t, s')" using acquire.hyps(2) by (simp add: coordinator_acquire_def split: if_splits)
  have "(lane_of ts)(k := lane_of ts k @ [t]) = lane_of (ts @ [t])"
    using e by (auto simp: lane_of_def chain_enter_def Let_def)
  then show ?case using chain.rel_enter [OF acquire.IH e] by simp
next
  case (release s ts t)
  have t: "t \<in> set (lane_of ts (tk_key t))" using release.hyps(2) by (simp add: lane_of_def)
  have hd: "t = hd (lane_of ts (tk_key t))" using chain.rel_ready [OF release.IH t] release.hyps(3) by simp
  then obtain rest where rest: "lane_of ts (tk_key t) = t # rest" using t by (cases "lane_of ts (tk_key t)") auto
  have "(lane_of ts)(tk_key t := rest) = lane_of (remove1 t ts)" using rest by (intro ext) (auto simp: lane_of_remove)
  then show ?case using chain.rel_leave [OF release.IH rest] by simp
next
  case (stop s ts)
  have "chain_ready u (stopAccepting s) = chain_ready u s" for u by (simp add: chain_ready_def stopAccepting_def split: option.splits)
  then show ?case using stop.IH by (simp add: chain_rel_def) (simp add: stopAccepting_def)
qed (rule chain_rel_forget)

text \<open>
  Claim C29.
  The operations of a story run one at a time in the order they were requested: of the operations that run or wait, exactly the
  oldest of each story may run, also after the coordinator stopped accepting, and draining ends only when none is left.
\<close>

theorem story_operations_serial:
  assumes "coordinated s ts" "t \<in> set ts"
  shows "(chain_ready t s \<longleftrightarrow> t = hd (filter (\<lambda>u. tk_key u = tk_key t) ts)) \<and> \<not> drained s"
proof -
  note rel = coordinated_rel [OF assms(1)]
  have t: "t \<in> set (lane_of ts (tk_key t))" using assms(2) by (simp add: lane_of_def)
  then have "lane_of ts (tk_key t) \<noteq> []" by (cases "lane_of ts (tk_key t)") auto
  then show ?thesis using chain.rel_ready [OF rel t] drained_idle [OF rel, of "tk_key t"] by (auto simp: lane_of_def)
qed

theorem story_operations_serial_witness:
  "\<exists>s t u. coordinated s [t, u] \<and> tk_key t = tk_key u \<and> chain_ready t s \<and> \<not> chain_ready u s \<and> \<not> drained s"
proof -
  let ?t = "\<lparr>tk_key = ''a'', tk_previous = None, tk_current = 0\<rparr>" and ?u = "\<lparr>tk_key = ''a'', tk_previous = Some 0, tk_current = 1\<rparr>"
  let ?s = "\<lparr>oc_tails = [(''a'', 1)], oc_links = [(None, False), (Some 0, False)], oc_accepting = True\<rparr>"
  have "coordinated \<lparr>oc_tails = [(''a'', 0)], oc_links = [(None, False)], oc_accepting = True\<rparr> ([] @ [?t])"
    by (rule coordinated.acquire [OF coordinated.start]) (simp add: coordinator_acquire_def chain_enter_def jmap_set_def)
  then have "coordinated ?s (([] @ [?t]) @ [?u])"
    by (rule coordinated.acquire [where k = "''a''"]) (simp add: coordinator_acquire_def chain_enter_def Let_def jmap_set_def jmap_get_Cons)
  then have s: "coordinated ?s [?t, ?u]" by simp
  have "chain_ready ?t ?s \<and> \<not> chain_ready ?u ?s \<and> \<not> drained ?s"
    using story_operations_serial [OF s, of ?t] story_operations_serial [OF s, of ?u] by simp
  then show ?thesis using s by (intro exI [of _ ?s] exI [of _ ?t] exI [of _ ?u]) simp
qed

end
