(* ===== verification/Scheduler_Runtime.thy ===== *)
theory Scheduler_Runtime
  imports Js_Prelude "HOL-Library.Multiset" "HOL-Library.Sublist"
begin

text \<open>
  The execution runtime of schedulers (\<^verbatim>\<open>packages/core/src/core/scheduler-runtime.ts\<close>), which story automations, triggers and agent
  runs share: per job it limits the concurrent executions, queues or skips events, and starts the next event when one ends. The
  calls of the adapter are recorded: \<open>rt_executing\<close> holds the executions whose promise is not settled, \<open>rt_settled\<close> those that
  are, \<open>rt_started\<close> the calls of \<^verbatim>\<open>execute\<close> in order and \<open>rt_skipped\<close> the calls of \<^verbatim>\<open>skipped\<close>. A timer is a number.
\<close>

section \<open>Data\<close>

datatype when_busy = BusySkip | BusyQueue

record scheduler_policy =
  sp_cooldownMs :: "int option"
  sp_maxConcurrentRuns :: nat
  sp_whenBusy :: when_busy

datatype skip_reason = SkipCooldown | SkipBusy | SkipQueueFull | SkipSchedulerStopped | SkipJobDisabled

datatype submit_result = Skipped | Queued | Started

record 'e scheduler =
  rt_timers :: "(string, nat) jmap"
  rt_clearedTimers :: "nat list"
  rt_running :: "(string, nat) jmap"
  rt_queued :: "(string, ('e \<times> scheduler_policy) list) jmap"
  rt_lastStartedAt :: "(string, int) jmap"
  rt_accepting :: bool
  rt_maxQueuedPerJob :: nat
  rt_executing :: "(string \<times> 'e) list"
  rt_settled :: "(string \<times> 'e) list"
  rt_started :: "(string \<times> 'e) list"
  rt_skipped :: "('e \<times> skip_reason) list"

definition scheduler_new :: "nat \<Rightarrow> 'e scheduler" where
  "scheduler_new maxQueuedPerJob = \<lparr>rt_timers = [], rt_clearedTimers = [], rt_running = [], rt_queued = [], rt_lastStartedAt = [],
     rt_accepting = True, rt_maxQueuedPerJob = maxQueuedPerJob, rt_executing = [], rt_settled = [], rt_started = [], rt_skipped = []\<rparr>"

section \<open>Operations\<close>

definition scheduler_start :: "'e scheduler \<Rightarrow> 'e scheduler" where
  "scheduler_start s = s\<lparr>rt_accepting := True\<rparr>"

definition setTimer :: "string \<Rightarrow> nat \<Rightarrow> 'e scheduler \<Rightarrow> 'e scheduler" where
  "setTimer key timer s =
     (let s = (case jmap_get (rt_timers s) key of Some previous \<Rightarrow> s\<lparr>rt_clearedTimers := rt_clearedTimers s @ [previous]\<rparr> | None \<Rightarrow> s)
      in s\<lparr>rt_timers := jmap_set key timer (rt_timers s)\<rparr>)"

definition clearTimer :: "string \<Rightarrow> 'e scheduler \<Rightarrow> 'e scheduler" where
  "clearTimer key s =
     (let s = (case jmap_get (rt_timers s) key of Some timer \<Rightarrow> s\<lparr>rt_clearedTimers := rt_clearedTimers s @ [timer]\<rparr> | None \<Rightarrow> s)
      in s\<lparr>rt_timers := jmap_delete key (rt_timers s)\<rparr>)"

definition skip_event :: "'e \<Rightarrow> skip_reason \<Rightarrow> 'e scheduler \<Rightarrow> 'e scheduler" where
  "skip_event event reason s = s\<lparr>rt_skipped := rt_skipped s @ [(event, reason)]\<rparr>"

definition clearQueued :: "string \<Rightarrow> skip_reason \<Rightarrow> 'e scheduler \<Rightarrow> 'e scheduler" where
  "clearQueued key reason s =
     (case jmap_get (rt_queued s) key of
        None \<Rightarrow> s
      | Some queue \<Rightarrow>
          let s = fold (\<lambda>entry. skip_event (fst entry) reason) queue s
          in s\<lparr>rt_queued := jmap_delete key (rt_queued s)\<rparr>)"

definition running_count :: "'e scheduler \<Rightarrow> string \<Rightarrow> nat" where
  "running_count s key = (case jmap_get (rt_running s) key of None \<Rightarrow> 0 | Some n \<Rightarrow> n)"

definition begin_run :: "int \<Rightarrow> string \<Rightarrow> 'e \<Rightarrow> 'e scheduler \<Rightarrow> 'e scheduler" where
  "begin_run now key event s = s\<lparr>
     rt_running := jmap_set key (running_count s key + 1) (rt_running s),
     rt_lastStartedAt := jmap_set key now (rt_lastStartedAt s),
     rt_executing := rt_executing s @ [(key, event)],
     rt_started := rt_started s @ [(key, event)]\<rparr>"

definition queue_of :: "'e scheduler \<Rightarrow> string \<Rightarrow> ('e \<times> scheduler_policy) list" where
  "queue_of s key = (case jmap_get (rt_queued s) key of None \<Rightarrow> [] | Some queue \<Rightarrow> queue)"

text \<open>\<^verbatim>\<open>policy.cooldownMs && lastStartedAt !== undefined && now - lastStartedAt < policy.cooldownMs\<close>\<close>

definition cooling :: "int \<Rightarrow> string \<Rightarrow> scheduler_policy \<Rightarrow> 'e scheduler \<Rightarrow> bool" where
  "cooling now key policy s =
     (case sp_cooldownMs policy of
        None \<Rightarrow> False
      | Some c \<Rightarrow> c \<noteq> 0 \<and> (case jmap_get (rt_lastStartedAt s) key of None \<Rightarrow> False | Some t \<Rightarrow> now - t < c))"

definition submit :: "int \<Rightarrow> string \<Rightarrow> 'e \<Rightarrow> scheduler_policy \<Rightarrow> 'e scheduler \<Rightarrow> submit_result \<times> 'e scheduler" where
  "submit now key event policy s =
     (if \<not> rt_accepting s then (Skipped, skip_event event SkipSchedulerStopped s)
      else if cooling now key policy s then (Skipped, skip_event event SkipCooldown s)
      else if running_count s key \<ge> sp_maxConcurrentRuns policy then
        if sp_whenBusy policy = BusySkip then (Skipped, skip_event event SkipBusy s)
        else let queue = queue_of s key in
             if length queue \<ge> rt_maxQueuedPerJob s then (Skipped, skip_event event SkipQueueFull s)
             else (Queued, s\<lparr>rt_queued := jmap_set key (queue @ [(event, policy)]) (rt_queued s)\<rparr>)
      else (Started, begin_run now key event s))"

definition stop :: "'e scheduler \<Rightarrow> 'e scheduler" where
  "stop s =
     (let s = s\<lparr>rt_accepting := False\<rparr>;
          s = s\<lparr>rt_clearedTimers := rt_clearedTimers s @ jmap_values (rt_timers s), rt_timers := []\<rparr>;
          s = fold (\<lambda>entry. skip_event (fst entry) SkipSchedulerStopped) (concat (jmap_values (rt_queued s))) s
      in s\<lparr>rt_queued := []\<rparr>)"

definition drain :: "int \<Rightarrow> string \<Rightarrow> 'e scheduler \<Rightarrow> 'e scheduler" where
  "drain now key s =
     (if \<not> rt_accepting s then s
      else case queue_of s key of
             [] \<Rightarrow> s
           | (event, policy) # rest \<Rightarrow>
               if running_count s key \<ge> sp_maxConcurrentRuns policy then s
               else begin_run now key event
                      (s\<lparr>rt_queued := (if rest = [] then jmap_delete key (rt_queued s) else jmap_set key rest (rt_queued s))\<rparr>))"

text \<open>The promise of an execution is settled.\<close>

definition finish_run :: "int \<Rightarrow> string \<Rightarrow> 'e \<Rightarrow> 'e scheduler \<Rightarrow> 'e scheduler" where
  "finish_run now key event s =
     (let s = s\<lparr>rt_executing := remove1 (key, event) (rt_executing s), rt_settled := rt_settled s @ [(key, event)]\<rparr>;
          remaining = (case jmap_get (rt_running s) key of None \<Rightarrow> 1 | Some n \<Rightarrow> n) - 1;
          s = s\<lparr>rt_running := (if remaining > 0 then jmap_set key remaining (rt_running s) else jmap_delete key (rt_running s))\<rparr>
      in drain now key s)"

section \<open>Runs\<close>

datatype 'e scheduler_step =
    Submit string 'e scheduler_policy
  | Finish string 'e
  | ClearQueued string skip_reason
  | SetTimer string nat
  | ClearTimer string
  | Stop
  | Start

definition scheduler_step :: "'e scheduler \<Rightarrow> int \<times> 'e scheduler_step \<Rightarrow> 'e scheduler" where
  "scheduler_step s e =
     (case e of (now, a) \<Rightarrow> (case a of
        Submit key event policy \<Rightarrow> snd (submit now key event policy s)
      | Finish key event \<Rightarrow> if (key, event) \<in> set (rt_executing s) then finish_run now key event s else s
      | ClearQueued key reason \<Rightarrow> clearQueued key reason s
      | SetTimer key timer \<Rightarrow> setTimer key timer s
      | ClearTimer key \<Rightarrow> clearTimer key s
      | Stop \<Rightarrow> stop s
      | Start \<Rightarrow> scheduler_start s))"

fun submitted :: "(int \<times> 'e scheduler_step) list \<Rightarrow> (string \<times> 'e \<times> scheduler_policy) list" where
  "submitted [] = []"
| "submitted ((now, Submit key event policy) # es) = (key, event, policy) # submitted es"
| "submitted (_ # es) = submitted es"

definition queued_events :: "'e scheduler \<Rightarrow> 'e list" where
  "queued_events s = map fst (concat (jmap_values (rt_queued s)))"

text \<open>Where an event can be.\<close>

definition accounted :: "'e scheduler \<Rightarrow> 'e multiset" where
  "accounted s = mset (map fst (rt_skipped s)) + mset (queued_events s) + mset (map snd (rt_executing s)) + mset (map snd (rt_settled s))"

section \<open>The invariant\<close>

definition scheduler_inv :: "'e scheduler \<Rightarrow> bool" where
  "scheduler_inv s \<longleftrightarrow> jmap_ok (rt_running s) \<and> jmap_ok (rt_queued s)
     \<and> (\<forall>key. running_count s key = length (filter (\<lambda>r. fst r = key) (rt_executing s)))
     \<and> (\<forall>key. length (queue_of s key) \<le> rt_maxQueuedPerJob s)
     \<and> (\<forall>key. \<forall>entry \<in> set (queue_of s key). 1 \<le> sp_maxConcurrentRuns (snd entry))
     \<and> (\<forall>key. queue_of s key \<noteq> [] \<longrightarrow> 1 \<le> running_count s key \<and> rt_accepting s)"

lemma fold_skip [simp]:
  "rt_timers (fold (\<lambda>entry. skip_event (fst entry) r) es s) = rt_timers s" "rt_running (fold (\<lambda>entry. skip_event (fst entry) r) es s) = rt_running s"
  "rt_queued (fold (\<lambda>entry. skip_event (fst entry) r) es s) = rt_queued s" "rt_accepting (fold (\<lambda>entry. skip_event (fst entry) r) es s) = rt_accepting s"
  "rt_maxQueuedPerJob (fold (\<lambda>entry. skip_event (fst entry) r) es s) = rt_maxQueuedPerJob s" "rt_executing (fold (\<lambda>entry. skip_event (fst entry) r) es s) = rt_executing s"
  "rt_settled (fold (\<lambda>entry. skip_event (fst entry) r) es s) = rt_settled s" "rt_started (fold (\<lambda>entry. skip_event (fst entry) r) es s) = rt_started s"
  "rt_skipped (fold (\<lambda>entry. skip_event (fst entry) r) es s) = rt_skipped s @ map (\<lambda>e. (fst e, r)) es"
  "rt_lastStartedAt (fold (\<lambda>entry. skip_event (fst entry) r) es s) = rt_lastStartedAt s"
  by (induction es arbitrary: s) (simp_all add: skip_event_def)

text \<open>What one entry of the map of queues contributes to all queued events.\<close>

lemma mset_queues_set:
  "jmap_ok m \<Longrightarrow> mset (concat (jmap_values (jmap_set k v m))) + mset (case jmap_get m k of None \<Rightarrow> [] | Some q \<Rightarrow> q)
    = mset (concat (jmap_values m)) + mset v"
proof (induction m)
  case (Cons p m)
  show ?case
  proof (cases "fst p = k")
    case True
    then show ?thesis by (cases p) (simp add: jmap_set_def jmap_get_Cons)
  next
    case False
    then show ?thesis using Cons by (cases p) (simp add: jmap_set_def jmap_get_Cons add.commute add.left_commute)
  qed
qed (simp add: jmap_set_def)

lemma mset_queues_delete:
  "jmap_ok m \<Longrightarrow> mset (concat (jmap_values (jmap_delete k m))) + mset (case jmap_get m k of None \<Rightarrow> [] | Some q \<Rightarrow> q) = mset (concat (jmap_values m))"
proof (induction m)
  case (Cons p m)
  show ?case
  proof (cases "fst p = k")
    case True
    then have "jmap_delete k m = m" using Cons.prems by (intro jmap_delete_absent) auto
    then show ?thesis using True by (cases p) (simp add: jmap_delete_filter jmap_get_Cons)
  next
    case False
    then show ?thesis using Cons by (cases p) (simp add: jmap_delete_filter jmap_get_Cons add.commute add.left_commute)
  qed
qed (simp add: jmap_delete_def)

lemma queue_of_set [simp]: "queue_of (s\<lparr>rt_queued := jmap_set key q (rt_queued s)\<rparr>) k = (if k = key then q else queue_of s k)"
  by (simp add: queue_of_def jm.get_put)

lemma queue_of_delete [simp]: "jmap_ok (rt_queued s) \<Longrightarrow> queue_of (s\<lparr>rt_queued := jmap_delete key (rt_queued s)\<rparr>) k = (if k = key then [] else queue_of s k)"
  by (simp add: queue_of_def jm.get_del)

lemma begin_view [simp]:
  "running_count (begin_run now key event s) k = (if k = key then running_count s key + 1 else running_count s k)"
  "queue_of (begin_run now key event s) k = queue_of s k"
  by (simp_all add: begin_run_def running_count_def queue_of_def jm.get_put)

lemma begin_frame [simp]:
  "rt_queued (begin_run now key event s) = rt_queued s" "rt_accepting (begin_run now key event s) = rt_accepting s"
  "rt_maxQueuedPerJob (begin_run now key event s) = rt_maxQueuedPerJob s" "rt_executing (begin_run now key event s) = rt_executing s @ [(key, event)]"
  "rt_started (begin_run now key event s) = rt_started s @ [(key, event)]" "rt_settled (begin_run now key event s) = rt_settled s"
  "rt_skipped (begin_run now key event s) = rt_skipped s"
  by (simp_all add: begin_run_def)

lemma begin_ok [simp]: "jmap_ok (rt_running s) \<Longrightarrow> jmap_ok (rt_running (begin_run now key event s))"
  by (simp add: begin_run_def jm.ok_put)

lemma skip_view [simp]: "running_count (skip_event e r s) = running_count s" "queue_of (skip_event e r s) = queue_of s"
  by (auto simp: skip_event_def running_count_def queue_of_def)

lemma skip_frame [simp]:
  "rt_queued (skip_event e r s) = rt_queued s" "rt_running (skip_event e r s) = rt_running s" "rt_accepting (skip_event e r s) = rt_accepting s"
  "rt_maxQueuedPerJob (skip_event e r s) = rt_maxQueuedPerJob s" "rt_executing (skip_event e r s) = rt_executing s"
  "rt_started (skip_event e r s) = rt_started s" "rt_settled (skip_event e r s) = rt_settled s" "rt_skipped (skip_event e r s) = rt_skipped s @ [(e, r)]"
  by (simp_all add: skip_event_def)

lemma skip_inv: "scheduler_inv s \<Longrightarrow> scheduler_inv (skip_event e r s)"
  unfolding scheduler_inv_def skip_view skip_frame .

lemma scheduler_invD:
  assumes "scheduler_inv s"
  shows "running_count s key = length (filter (\<lambda>r. fst r = key) (rt_executing s))" "length (queue_of s key) \<le> rt_maxQueuedPerJob s"
    "\<forall>entry \<in> set (queue_of s key). 1 \<le> sp_maxConcurrentRuns (snd entry)" "queue_of s key \<noteq> [] \<Longrightarrow> rt_accepting s"
    "queue_of s key \<noteq> [] \<Longrightarrow> 1 \<le> running_count s key"
  using assms unfolding scheduler_inv_def by blast+

lemma scheduler_invI:
  assumes "jmap_ok (rt_running s)" "jmap_ok (rt_queued s)"
    and "\<And>key. running_count s key = length (filter (\<lambda>r. fst r = key) (rt_executing s))" "\<And>key. length (queue_of s key) \<le> rt_maxQueuedPerJob s"
    and "\<And>key. \<forall>entry \<in> set (queue_of s key). 1 \<le> sp_maxConcurrentRuns (snd entry)" "\<And>key. queue_of s key \<noteq> [] \<Longrightarrow> rt_accepting s"
    and "\<And>key. queue_of s key \<noteq> [] \<Longrightarrow> 1 \<le> running_count s key"
  shows "scheduler_inv s"
  using assms unfolding scheduler_inv_def by blast

lemma begin_inv: "scheduler_inv s \<Longrightarrow> scheduler_inv (begin_run now key event s)"
  by (auto simp: scheduler_inv_def)

lemma submit_inv:
  assumes "scheduler_inv s" "1 \<le> sp_maxConcurrentRuns policy"
  shows "scheduler_inv (snd (submit now key event policy s))"
proof -
  have "scheduler_inv (s\<lparr>rt_queued := jmap_set key (queue_of s key @ [(event, policy)]) (rt_queued s)\<rparr>)"
    if "sp_maxConcurrentRuns policy \<le> running_count s key" "length (queue_of s key) < rt_maxQueuedPerJob s" "rt_accepting s"
    using assms that unfolding scheduler_inv_def by (auto simp: jm.ok_put running_count_def)
  then show ?thesis using assms skip_inv begin_inv by (auto simp: submit_def Let_def not_le)
qed

lemma clearQueued_view:
  assumes "jmap_ok (rt_queued s)"
  shows "queue_of (clearQueued key r s) k = (if k = key then [] else queue_of s k)" "running_count (clearQueued key r s) k = running_count s k"
    "rt_executing (clearQueued key r s) = rt_executing s" "rt_accepting (clearQueued key r s) = rt_accepting s"
    "rt_maxQueuedPerJob (clearQueued key r s) = rt_maxQueuedPerJob s" "rt_running (clearQueued key r s) = rt_running s"
    "jmap_ok (rt_queued (clearQueued key r s))" "rt_started (clearQueued key r s) = rt_started s"
  using assms by (auto simp: clearQueued_def Let_def running_count_def queue_of_def jm.get_del jm.ok_del split: option.splits)

lemma clearQueued_inv:
  assumes inv: "scheduler_inv s"
  shows "scheduler_inv (clearQueued key r s)"
proof -
  have ok: "jmap_ok (rt_queued s)" "jmap_ok (rt_running s)" using inv by (simp_all add: scheduler_inv_def)
  show ?thesis
    unfolding scheduler_inv_def clearQueued_view [OF ok(1)]
    using scheduler_invD [OF inv] clearQueued_view(7) [OF ok(1)] ok by auto
qed

lemma stop_view:
  "queue_of (stop s) k = []" "running_count (stop s) k = running_count s k" "rt_executing (stop s) = rt_executing s"
  "rt_maxQueuedPerJob (stop s) = rt_maxQueuedPerJob s" "rt_running (stop s) = rt_running s" "rt_queued (stop s) = []" "rt_started (stop s) = rt_started s"
  by (simp_all add: stop_def Let_def running_count_def queue_of_def)

lemma stop_inv:
  assumes inv: "scheduler_inv s"
  shows "scheduler_inv (stop s)"
  unfolding scheduler_inv_def stop_view using scheduler_invD(1) [OF inv] inv by (simp add: scheduler_inv_def)

definition drop_running :: "string \<Rightarrow> 'e \<Rightarrow> 'e scheduler \<Rightarrow> 'e scheduler" where
  "drop_running key event s =
     (let s = s\<lparr>rt_executing := remove1 (key, event) (rt_executing s), rt_settled := rt_settled s @ [(key, event)]\<rparr>;
          remaining = (case jmap_get (rt_running s) key of None \<Rightarrow> 1 | Some n \<Rightarrow> n) - 1
      in s\<lparr>rt_running := (if remaining > 0 then jmap_set key remaining (rt_running s) else jmap_delete key (rt_running s))\<rparr>)"

lemma finish_drop: "finish_run now key event s = drain now key (drop_running key event s)"
  by (simp add: finish_run_def drop_running_def Let_def)

lemma drop_view:
  assumes "jmap_ok (rt_running s)"
  shows "running_count (drop_running key event s) k = (if k = key then running_count s key - 1 else running_count s k)"
    "queue_of (drop_running key event s) k = queue_of s k" "jmap_ok (rt_running (drop_running key event s))"
  using assms by (auto simp: drop_running_def Let_def running_count_def queue_of_def jm.get_put jm.get_del jm.ok_put jm.ok_del split: option.splits)

lemma drop_frame [simp]:
  "rt_queued (drop_running key event s) = rt_queued s" "rt_accepting (drop_running key event s) = rt_accepting s"
  "rt_maxQueuedPerJob (drop_running key event s) = rt_maxQueuedPerJob s" "rt_executing (drop_running key event s) = remove1 (key, event) (rt_executing s)"
  "rt_started (drop_running key event s) = rt_started s" "rt_settled (drop_running key event s) = rt_settled s @ [(key, event)]"
  "rt_skipped (drop_running key event s) = rt_skipped s"
  by (simp_all add: drop_running_def Let_def)

lemma length_filter_remove1:
  "x \<in> set xs \<Longrightarrow> length (filter P (remove1 x xs)) = (if P x then length (filter P xs) - 1 else length (filter P xs))"
proof (induction xs)
  case (Cons y ys)
  have "0 < length (filter P ys)" if "x \<in> set ys" "P x" using that by (auto simp: filter_empty_conv)
  then show ?case using Cons by auto
qed simp

lemma drain_started:
  assumes "rt_accepting s" "queue_of s key = (event, policy) # rest" "running_count s key < sp_maxConcurrentRuns policy"
  shows "drain now key s = begin_run now key event
     (s\<lparr>rt_queued := (if rest = [] then jmap_delete key (rt_queued s) else jmap_set key rest (rt_queued s))\<rparr>)"
  using assms by (simp add: drain_def)

lemma drain_idle:
  assumes "\<not> (\<exists>event policy rest. rt_accepting s \<and> queue_of s key = (event, policy) # rest \<and> running_count s key < sp_maxConcurrentRuns policy)"
  shows "drain now key s = s"
proof (cases "queue_of s key")
  case (Cons p rest)
  then show ?thesis using assms by (cases p) (auto simp: drain_def)
qed (simp add: drain_def)

lemma finish_inv:
  assumes inv: "scheduler_inv s" and ex: "(key, event) \<in> set (rt_executing s)"
  shows "scheduler_inv (finish_run now key event s)"
proof -
  let ?s = "drop_running key event s"
  have ok: "jmap_ok (rt_running s)" "jmap_ok (rt_queued s)" using inv by (simp_all add: scheduler_inv_def)
  note view = drop_view [OF ok(1), of key event]
  have count: "running_count ?s k = length (filter (\<lambda>r. fst r = k) (rt_executing ?s))" for k
    using inv ex by (simp add: view scheduler_inv_def length_filter_remove1)
  have bound: "length (queue_of ?s k) \<le> rt_maxQueuedPerJob ?s" "\<forall>entry \<in> set (queue_of ?s k). 1 \<le> sp_maxConcurrentRuns (snd entry)"
    "queue_of ?s k \<noteq> [] \<longrightarrow> rt_accepting ?s" "k \<noteq> key \<Longrightarrow> queue_of ?s k \<noteq> [] \<longrightarrow> 1 \<le> running_count ?s k" for k
    using scheduler_invD(2-) [OF inv, of k] by (simp_all add: view)
  show ?thesis
  proof (cases "\<exists>e policy rest. rt_accepting ?s \<and> queue_of ?s key = (e, policy) # rest \<and> running_count ?s key < sp_maxConcurrentRuns policy")
    case True
    then obtain e policy rest where d: "rt_accepting ?s" "queue_of ?s key = (e, policy) # rest" "running_count ?s key < sp_maxConcurrentRuns policy" by blast
    let ?q = "?s\<lparr>rt_queued := (if rest = [] then jmap_delete key (rt_queued ?s) else jmap_set key rest (rt_queued ?s))\<rparr>"
    have q: "queue_of ?q k = (if k = key then rest else queue_of ?s k)" for k using ok by (simp add: queue_of_def jm.get_put jm.get_del)
    have run: "running_count ?q k = running_count ?s k" for k by (simp add: running_count_def)
    have rest: "length rest \<le> rt_maxQueuedPerJob ?s" "\<forall>entry \<in> set rest. 1 \<le> sp_maxConcurrentRuns (snd entry)"
      using bound(1,2) [of key] d(2) by simp_all
    have "scheduler_inv (begin_run now key e ?q)"
      unfolding scheduler_inv_def
    proof (intro conjI allI)
      show "jmap_ok (rt_running (begin_run now key e ?q))" using view(3) by simp
      show "jmap_ok (rt_queued (begin_run now key e ?q))" using ok by (simp add: jm.ok_put jm.ok_del)
      fix k
      show "running_count (begin_run now key e ?q) k = length (filter (\<lambda>r. fst r = k) (rt_executing (begin_run now key e ?q)))"
        using count [of k] count [of key] by (simp add: run)
      show "length (queue_of (begin_run now key e ?q) k) \<le> rt_maxQueuedPerJob (begin_run now key e ?q)"
        "\<forall>entry \<in> set (queue_of (begin_run now key e ?q) k). 1 \<le> sp_maxConcurrentRuns (snd entry)"
        "queue_of (begin_run now key e ?q) k \<noteq> [] \<longrightarrow> 1 \<le> running_count (begin_run now key e ?q) k \<and> rt_accepting (begin_run now key e ?q)"
        using bound [of k] rest d(1) unfolding begin_view q run by simp_all
    qed
    then show ?thesis by (simp only: finish_drop drain_started [OF d])
  next
    case False
    have "1 \<le> running_count ?s key" if ne: "queue_of ?s key \<noteq> []"
    proof -
      obtain p rest where p: "queue_of ?s key = p # rest" using ne by (cases "queue_of ?s key") simp_all
      obtain e policy where "p = (e, policy)" by fastforce
      with p have q: "queue_of ?s key = (e, policy) # rest" by simp
      then have "1 \<le> sp_maxConcurrentRuns policy" using bound(2) [of key] by simp
      then show ?thesis using False q bound(3) [of key] by auto
    qed
    then have some: "1 \<le> running_count ?s k" if "queue_of ?s k \<noteq> []" for k using bound(4) [of k] that by blast
    have "jmap_ok (rt_queued ?s)" using ok by simp
    moreover have "rt_accepting ?s" if "queue_of ?s k \<noteq> []" for k using bound(3) [of k] that by blast
    ultimately have "scheduler_inv ?s" using some by (rule scheduler_invI [OF view(3) _ count bound(1,2)])
    then show ?thesis using drain_idle [OF False] by (simp add: finish_drop)
  qed
qed

lemma scheduler_inv_cong:
  assumes "rt_running s' = rt_running s" "rt_queued s' = rt_queued s" "rt_executing s' = rt_executing s"
    "rt_maxQueuedPerJob s' = rt_maxQueuedPerJob s" "rt_accepting s' = rt_accepting s"
  shows "scheduler_inv s' = scheduler_inv s"
  unfolding scheduler_inv_def running_count_def queue_of_def assms ..

lemma timers_frame:
  "rt_running (setTimer key t s) = rt_running s" "rt_queued (setTimer key t s) = rt_queued s" "rt_executing (setTimer key t s) = rt_executing s"
  "rt_maxQueuedPerJob (setTimer key t s) = rt_maxQueuedPerJob s" "rt_accepting (setTimer key t s) = rt_accepting s"
  "rt_skipped (setTimer key t s) = rt_skipped s" "rt_settled (setTimer key t s) = rt_settled s" "rt_started (setTimer key t s) = rt_started s"
  "rt_running (clearTimer key s) = rt_running s" "rt_queued (clearTimer key s) = rt_queued s" "rt_executing (clearTimer key s) = rt_executing s"
  "rt_maxQueuedPerJob (clearTimer key s) = rt_maxQueuedPerJob s" "rt_accepting (clearTimer key s) = rt_accepting s"
  "rt_skipped (clearTimer key s) = rt_skipped s" "rt_settled (clearTimer key s) = rt_settled s" "rt_started (clearTimer key s) = rt_started s"
  by (simp_all add: setTimer_def clearTimer_def Let_def split: option.splits)

lemma timers_inv: "scheduler_inv s \<Longrightarrow> scheduler_inv (setTimer key t s)" "scheduler_inv s \<Longrightarrow> scheduler_inv (clearTimer key s)"
  by (simp_all only: scheduler_inv_cong [OF timers_frame(1-5)] scheduler_inv_cong [OF timers_frame(9-13)])

lemma start_inv:
  assumes inv: "scheduler_inv s"
  shows "scheduler_inv (scheduler_start s)"
proof -
  have view: "running_count (scheduler_start s) = running_count s" "queue_of (scheduler_start s) = queue_of s" "rt_accepting (scheduler_start s)"
    "rt_executing (scheduler_start s) = rt_executing s" "rt_maxQueuedPerJob (scheduler_start s) = rt_maxQueuedPerJob s"
    "rt_queued (scheduler_start s) = rt_queued s" "rt_running (scheduler_start s) = rt_running s"
    by (auto simp: scheduler_start_def running_count_def queue_of_def)
  show ?thesis
    using inv view(3) unfolding scheduler_inv_def view(1,2) view(4-7) by blast
qed

lemma new_inv: "scheduler_inv (scheduler_new n)"
  by (simp add: scheduler_inv_def scheduler_new_def running_count_def queue_of_def)

text \<open>The steps whose policy allows at least one execution, as the schemas of the callers demand.\<close>

definition step_ok :: "int \<times> 'e scheduler_step \<Rightarrow> bool" where
  "step_ok e = (case snd e of Submit _ _ policy \<Rightarrow> 1 \<le> sp_maxConcurrentRuns policy | _ \<Rightarrow> True)"

lemma step_inv: "scheduler_inv s \<Longrightarrow> step_ok e \<Longrightarrow> scheduler_inv (scheduler_step s e)"
  by (auto simp: scheduler_step_def step_ok_def split: prod.splits scheduler_step.splits
      intro: submit_inv finish_inv clearQueued_inv timers_inv stop_inv start_inv)

section \<open>Every event is accounted for\<close>

lemma queued_view:
  assumes "jmap_ok (rt_queued s)"
  shows "mset (queued_events (s\<lparr>rt_queued := jmap_set key q (rt_queued s)\<rparr>)) + mset (map fst (queue_of s key)) = mset (queued_events s) + mset (map fst q)"
    and "mset (queued_events (s\<lparr>rt_queued := jmap_delete key (rt_queued s)\<rparr>)) + mset (map fst (queue_of s key)) = mset (queued_events s)"
proof -
  have "image_mset fst (mset (concat (jmap_values (jmap_set key q (rt_queued s)))) + mset (queue_of s key)) = image_mset fst (mset (concat (jmap_values (rt_queued s))) + mset q)"
    using mset_queues_set [OF assms] by (simp only: queue_of_def)
  then show "mset (queued_events (s\<lparr>rt_queued := jmap_set key q (rt_queued s)\<rparr>)) + mset (map fst (queue_of s key)) = mset (queued_events s) + mset (map fst q)"
    by (simp add: queued_events_def)
  have "image_mset fst (mset (concat (jmap_values (jmap_delete key (rt_queued s)))) + mset (queue_of s key)) = image_mset fst (mset (concat (jmap_values (rt_queued s))))"
    using mset_queues_delete [OF assms] by (simp only: queue_of_def)
  then show "mset (queued_events (s\<lparr>rt_queued := jmap_delete key (rt_queued s)\<rparr>)) + mset (map fst (queue_of s key)) = mset (queued_events s)"
    by (simp add: queued_events_def)
qed

lemma queued_begin [simp]: "queued_events (begin_run now key event s) = queued_events s" "queued_events (skip_event e r s) = queued_events s"
  by (simp_all add: queued_events_def)

lemma submit_accounted:
  assumes "scheduler_inv s"
  shows "accounted (snd (submit now key event policy s)) = accounted s + {#event#}"
proof -
  have ok: "jmap_ok (rt_queued s)" using assms by (simp add: scheduler_inv_def)
  have "mset (queued_events (s\<lparr>rt_queued := jmap_set key (queue_of s key @ [(event, policy)]) (rt_queued s)\<rparr>)) = mset (queued_events s) + {#event#}"
    using queued_view(1) [OF ok, of key "queue_of s key @ [(event, policy)]"] by simp
  then show ?thesis by (simp add: submit_def accounted_def Let_def)
qed

lemma clearQueued_accounted:
  assumes "scheduler_inv s"
  shows "accounted (clearQueued key r s) = accounted s"
proof (cases "jmap_get (rt_queued s) key")
  case (Some q)
  have ok: "jmap_ok (rt_queued s)" using assms by (simp add: scheduler_inv_def)
  show ?thesis using Some queued_view(2) [OF ok, of key]
    by (simp add: clearQueued_def accounted_def Let_def queue_of_def queued_events_def comp_def ac_simps)
qed (simp add: clearQueued_def)

lemma stop_accounted: "accounted (stop s) = accounted s"
  by (simp add: stop_def accounted_def Let_def queued_events_def comp_def)

lemma drain_accounted:
  assumes "jmap_ok (rt_queued s)"
  shows "accounted (drain now key s) = accounted s"
proof (cases "\<exists>e policy rest. rt_accepting s \<and> queue_of s key = (e, policy) # rest \<and> running_count s key < sp_maxConcurrentRuns policy")
  case True
  then obtain e policy rest where d: "rt_accepting s" "queue_of s key = (e, policy) # rest" "running_count s key < sp_maxConcurrentRuns policy" by blast
  have "mset (queued_events (s\<lparr>rt_queued := (if rest = [] then jmap_delete key (rt_queued s) else jmap_set key rest (rt_queued s))\<rparr>)) + {#e#} = mset (queued_events s)"
    using queued_view(1) [OF assms, of key rest] queued_view(2) [OF assms, of key] d(2) by (cases "rest = []") simp_all
  then show ?thesis unfolding drain_started [OF d] by (simp add: accounted_def)
next
  case False
  then show ?thesis by (simp add: drain_idle)
qed

lemma finish_accounted:
  assumes "scheduler_inv s" "(key, event) \<in> set (rt_executing s)"
  shows "accounted (finish_run now key event s) = accounted s"
proof -
  have "add_mset (key, event) (mset (remove1 (key, event) (rt_executing s))) = mset (rt_executing s)" using assms(2) by simp
  from arg_cong [OF this, of "image_mset snd"]
  have "add_mset event (mset (map snd (remove1 (key, event) (rt_executing s)))) = mset (map snd (rt_executing s))" by (simp only: mset_map image_mset_add_mset snd_conv)
  then have "accounted (drop_running key event s) = accounted s" by (simp add: accounted_def queued_events_def)
  then show ?thesis using assms(1) by (simp add: finish_drop drain_accounted scheduler_inv_def)
qed

lemma step_accounted:
  assumes "scheduler_inv s"
  shows "accounted (scheduler_step s e) = accounted s + mset (map (\<lambda>a. fst (snd a)) (submitted [e]))"
proof -
  obtain now a where e: "e = (now, a)" by fastforce
  show ?thesis
    using assms by (cases a) (auto simp: e scheduler_step_def submit_accounted clearQueued_accounted stop_accounted finish_accounted,
      simp_all add: accounted_def queued_events_def setTimer_def clearTimer_def scheduler_start_def Let_def split: option.splits)
qed

lemma submitted_Cons: "submitted (e # es) = submitted [e] @ submitted es"
  by (cases e; cases "snd e") auto

lemma run_accounted:
  assumes "scheduler_inv s" "\<forall>e \<in> set es. step_ok e"
  shows "scheduler_inv (foldl scheduler_step s es) \<and> accounted (foldl scheduler_step s es) = accounted s + mset (map (\<lambda>a. fst (snd a)) (submitted es))"
  using assms
proof (induction es arbitrary: s)
  case (Cons e es)
  then show ?case using step_inv [of s e] step_accounted [of s e] submitted_Cons [of e es] by simp
qed simp

lemma step_max: "rt_maxQueuedPerJob (scheduler_step s e) = rt_maxQueuedPerJob s"
  by (auto simp: scheduler_step_def submit_def Let_def clearQueued_def stop_def scheduler_start_def finish_drop drain_def timers_frame
      split: prod.splits scheduler_step.splits option.splits list.splits)

text \<open>
  Claim C25.
  No event is lost or run twice: after any calls and completions, the submitted events are exactly the skipped, queued, executing
  and settled ones; the count of a job is the number of its executions, a queue never exceeds its bound, and whenever events are
  queued an execution of the job is under way whose end starts the next one.
\<close>

theorem scheduled_events_accounted:
  assumes "\<forall>e \<in> set es. step_ok e" and s: "s = foldl scheduler_step (scheduler_new n) es"
  shows "mset (map (\<lambda>a. fst (snd a)) (submitted es)) = accounted s
    \<and> (\<forall>key. running_count s key = length (filter (\<lambda>r. fst r = key) (rt_executing s)) \<and> length (queue_of s key) \<le> n
         \<and> (queue_of s key \<noteq> [] \<longrightarrow> 1 \<le> running_count s key \<and> rt_accepting s))"
proof -
  have all: "scheduler_inv s \<and> accounted s = accounted (scheduler_new n) + mset (map (\<lambda>a. fst (snd a)) (submitted es))"
    unfolding s by (rule run_accounted [OF new_inv assms(1)])
  have "rt_maxQueuedPerJob (foldl scheduler_step t es) = rt_maxQueuedPerJob t" for t :: "'a scheduler"
    by (induction es arbitrary: t) (simp_all add: step_max)
  then have max: "rt_maxQueuedPerJob s = n" by (simp add: s scheduler_new_def)
  have "accounted (scheduler_new n) = {#}" by (simp add: accounted_def scheduler_new_def queued_events_def)
  then show ?thesis using all scheduler_invD [of s] max by auto
qed

section \<open>Events start in the order of their submission\<close>

text \<open>
  What a step of the scheduler does to one job, seen as the number of its executions, its queue and the events it has started:
  \<open>job_step\<close> relates this view before and after a step that offers the job the events \<open>new\<close> (one for a submission to the job, none
  otherwise). The limit is the one of the event that would start, so it may differ from event to event.
\<close>

type_synonym 'e job = "nat \<times> ('e \<times> scheduler_policy) list \<times> 'e list"

abbreviation entry_limit :: "'e \<times> scheduler_policy \<Rightarrow> nat" where
  "entry_limit entry \<equiv> sp_maxConcurrentRuns (snd entry)"

definition started_of :: "'e scheduler \<Rightarrow> string \<Rightarrow> 'e list" where
  "started_of s key = map snd (filter (\<lambda>r. fst r = key) (rt_started s))"

definition job_of :: "'e scheduler \<Rightarrow> string \<Rightarrow> 'e job" where
  "job_of s key = (running_count s key, queue_of s key, started_of s key)"

definition offers :: "string \<Rightarrow> (int \<times> 'e scheduler_step) list \<Rightarrow> ('e \<times> scheduler_policy) list" where
  "offers key es = map snd (filter (\<lambda>a. fst a = key) (submitted es))"

inductive job_step :: "'e job \<Rightarrow> ('e \<times> scheduler_policy) list \<Rightarrow> 'e job \<Rightarrow> bool" where
  job_keep: "job_step (n, q, st) new (n, q, st)"
| job_clear: "job_step (n, q, st) [] (n, [], st)"
| job_wait: "entry_limit entry \<le> n \<Longrightarrow> job_step (n, q, st) [entry] (n, q @ [entry], st)"
| job_begin: "n < entry_limit entry \<Longrightarrow> job_step (n, q, st) [entry] (Suc n, q, st @ [fst entry])"
| job_end: "q = [] \<or> entry_limit (hd q) \<le> n \<Longrightarrow> job_step (Suc n, q, st) [] (n, q, st)"
| job_next: "n < entry_limit entry \<Longrightarrow> job_step (Suc n, entry # q, st) [] (Suc n, q, st @ [fst entry])"

lemma job_same: "job_of s' key = job_of s key \<Longrightarrow> job_step (job_of s key) new (job_of s' key)"
  by (cases "job_of s key") (simp add: job_keep)

lemma job_of_cong:
  assumes "rt_running s' = rt_running s" "rt_queued s' = rt_queued s" "rt_started s' = rt_started s"
  shows "job_of s' key = job_of s key"
  by (simp add: job_of_def running_count_def queue_of_def started_of_def assms)

lemma offers_simps [simp]:
  "offers key [] = []" "offers key [(now, Submit k event policy)] = (if k = key then [(event, policy)] else [])"
  by (simp_all add: offers_def)

lemma offers_Cons: "offers key (e # es) = offers key [e] @ offers key es"
  by (simp add: offers_def submitted_Cons [of e es])

lemma offers_other: "(\<And>k event policy. snd e \<noteq> Submit k event policy) \<Longrightarrow> offers key [e] = []"
  by (cases e; cases "snd e") (auto simp: offers_def)

lemma submit_job: "job_step (job_of s k) (offers k [(now, Submit key event policy)]) (job_of (snd (submit now key event policy s)) k)"
proof -
  let ?q = "s\<lparr>rt_queued := jmap_set key (queue_of s key @ [(event, policy)]) (rt_queued s)\<rparr>"
  have queue: "job_of ?q k = (running_count s k, (if k = key then queue_of s key @ [(event, policy)] else queue_of s k), started_of s k)"
    by (simp add: job_of_def running_count_def started_of_def)
  have started: "job_of (begin_run now key event s) k
      = (if k = key then Suc (running_count s key) else running_count s k, queue_of s k, started_of s k @ (if k = key then [event] else []))"
    by (simp add: job_of_def started_of_def)
  have skip: "job_step (job_of s k) new (job_of (skip_event event r s) k)" for r new by (rule job_same) (simp add: job_of_def started_of_def)
  show ?thesis
  proof (cases "k = key")
    case True
    show ?thesis
      unfolding True submit_def Let_def using skip queue started
      by (auto simp: True job_of_def intro: job_wait [where entry = "(event, policy)", simplified] job_begin [where entry = "(event, policy)", simplified])
  next
    case False
    then have "job_of (snd (submit now key event policy s)) k = job_of s k"
      unfolding submit_def Let_def using queue started by (auto simp: job_of_def started_of_def)
    then show ?thesis by (rule job_same)
  qed
qed

lemma finish_job:
  assumes inv: "scheduler_inv s" and ex: "(key, event) \<in> set (rt_executing s)"
  shows "job_step (job_of s k) [] (job_of (finish_run now key event s) k)"
proof -
  let ?s = "drop_running key event s"
  have ok: "jmap_ok (rt_running s)" "jmap_ok (rt_queued s)" using inv by (simp_all add: scheduler_inv_def)
  note view = drop_view [OF ok(1), of key event]
  have "0 < length (filter (\<lambda>r. fst r = key) (rt_executing s))" using ex by (force simp: filter_empty_conv)
  then obtain n where n: "running_count s key = Suc n" using scheduler_invD(1) [OF inv, of key] gr0_implies_Suc by fastforce
  have job: "job_of ?s k = (if k = key then n else running_count s k, queue_of s k, started_of s k)"
    by (simp add: job_of_def view started_of_def n)
  show ?thesis
  proof (cases "\<exists>e policy rest. rt_accepting ?s \<and> queue_of ?s key = (e, policy) # rest \<and> running_count ?s key < sp_maxConcurrentRuns policy")
    case True
    then obtain e policy rest where d: "rt_accepting ?s" "queue_of ?s key = (e, policy) # rest" "running_count ?s key < sp_maxConcurrentRuns policy" by blast
    let ?q = "?s\<lparr>rt_queued := (if rest = [] then jmap_delete key (rt_queued ?s) else jmap_set key rest (rt_queued ?s))\<rparr>"
    have "queue_of ?q k = (if k = key then rest else queue_of s k)" using ok view(2) [of k] by (simp add: queue_of_def jm.get_put jm.get_del)
    moreover have "running_count (begin_run now key e ?q) k = running_count s k"
      using view(1) [of k] view(1) [of key] n by (simp add: running_count_def begin_run_def jm.get_put)
    ultimately have "job_of (begin_run now key e ?q) k
        = (running_count s k, if k = key then rest else queue_of s k, started_of s k @ (if k = key then [e] else []))"
      by (simp add: job_of_def started_of_def)
    then show ?thesis
      using job_next [of n "(e, policy)" rest "started_of s key"] d n unfolding finish_drop drain_started [OF d]
      by (cases "k = key") (simp_all add: job_of_def view job_keep)
  next
    case False
    have "queue_of s key = [] \<or> entry_limit (hd (queue_of s key)) \<le> n"
      using False scheduler_invD(4) [OF inv, of key] n by (cases "queue_of s key") (auto simp: view not_less)
    then show ?thesis
      using job_end [of "queue_of s key" n "started_of s key"] n unfolding finish_drop drain_idle [OF False] job
      by (cases "k = key") (simp_all add: job_of_def job_keep)
  qed
qed

lemma step_job:
  assumes inv: "scheduler_inv s"
  shows "job_step (job_of s key) (offers key [e]) (job_of (scheduler_step s e) key)"
proof -
  have ok: "jmap_ok (rt_queued s)" using inv by (simp add: scheduler_inv_def)
  obtain now a where ea: "e = (now, a)" by fastforce
  show ?thesis
  proof (cases a)
    case (Submit k event policy)
    then show ?thesis using submit_job [of s key now k event policy] by (simp add: ea scheduler_step_def)
  next
    case (Finish k event)
    then show ?thesis using finish_job [OF inv, of k event key now] by (simp add: ea scheduler_step_def offers_other job_same)
  next
    case (ClearQueued k r)
    have "job_of (clearQueued k r s) key = (running_count s key, if key = k then [] else queue_of s key, started_of s key)"
      by (simp add: job_of_def started_of_def clearQueued_view [OF ok])
    then show ?thesis using ClearQueued by (simp add: ea scheduler_step_def offers_other job_of_def job_clear job_keep)
  next
    case Stop
    have "job_of (stop s) key = (running_count s key, [], started_of s key)" by (simp add: job_of_def started_of_def stop_view)
    then show ?thesis using Stop by (simp add: ea scheduler_step_def offers_other job_of_def job_clear)
  qed (auto intro!: job_same job_of_cong simp: ea scheduler_step_def timers_frame scheduler_start_def)
qed

text \<open>What the steps of a job keep, whatever comes after them (\<open>ls\<close> are the limits of later events).\<close>

lemma job_bounded:
  assumes "job_step (n, q, st) new (n', q', st')" "n \<le> m" "\<forall>entry \<in> set (q @ new). entry_limit entry \<le> m"
  shows "n' \<le> m \<and> (\<forall>entry \<in> set q'. entry_limit entry \<le> m)"
  using assms by (cases rule: job_step.cases) auto

lemma job_ordered:
  assumes "job_step (n, q, st) new (n', q', st')" "sorted_wrt (\<ge>) (map entry_limit q @ map entry_limit new @ ls)" "\<forall>entry \<in> set q. entry_limit entry \<le> n"
  shows "sorted_wrt (\<ge>) (map entry_limit q' @ ls) \<and> (\<forall>entry \<in> set q'. entry_limit entry \<le> n')
    \<and> subseq (st' @ map fst q') (st @ map fst q @ map fst new)"
  using assms
proof (cases rule: job_step.cases)
  case job_keep
  then show ?thesis using assms(2,3) by (auto simp: sorted_wrt_append)
next
  case job_clear
  then show ?thesis using assms(2) by (auto simp: sorted_wrt_append)
next
  case (job_begin entry)
  have "q = []"
  proof (cases q)
    case (Cons p rest)
    then have "entry_limit entry \<le> entry_limit p" "entry_limit p \<le> n" using assms(2,3) job_begin(1) by auto
    then show ?thesis using job_begin by simp
  qed simp
  then show ?thesis using assms(2) job_begin by (auto simp: sorted_wrt_append)
next
  case job_end
  then show ?thesis using assms(2) by (cases q) (auto intro: order_trans)
qed (auto simp: sorted_wrt_append)

lemma run_bounded:
  assumes "scheduler_inv s" "\<forall>e \<in> set es. step_ok e" "running_count s key \<le> m" "\<forall>entry \<in> set (queue_of s key @ offers key es). entry_limit entry \<le> m"
  shows "running_count (foldl scheduler_step s es) key \<le> m"
  using assms
proof (induction es arbitrary: s)
  case (Cons e es)
  have "running_count (scheduler_step s e) key \<le> m \<and> (\<forall>entry \<in> set (queue_of (scheduler_step s e) key). entry_limit entry \<le> m)"
    by (rule job_bounded [OF step_job [OF Cons.prems(1), of key e, unfolded job_of_def]]) (use Cons.prems(3,4) in \<open>auto simp: offers_Cons [of key e es]\<close>)
  then show ?case using Cons.prems step_inv [of s e] by (simp add: offers_Cons [of key e es], intro Cons.IH) auto
qed simp

lemma run_ordered:
  assumes "scheduler_inv s" "\<forall>e \<in> set es. step_ok e" "sorted_wrt (\<ge>) (map entry_limit (queue_of s key @ offers key es))"
    "\<forall>entry \<in> set (queue_of s key). entry_limit entry \<le> running_count s key"
  shows "(\<forall>entry \<in> set (queue_of (foldl scheduler_step s es) key). entry_limit entry \<le> running_count (foldl scheduler_step s es) key)
    \<and> subseq (started_of (foldl scheduler_step s es) key @ map fst (queue_of (foldl scheduler_step s es) key))
        (started_of s key @ map fst (queue_of s key) @ map fst (offers key es))"
  using assms
proof (induction es arbitrary: s)
  case (Cons e es)
  let ?s = "scheduler_step s e"
  have step: "sorted_wrt (\<ge>) (map entry_limit (queue_of ?s key) @ map entry_limit (offers key es)) \<and> (\<forall>entry \<in> set (queue_of ?s key). entry_limit entry \<le> running_count ?s key)
      \<and> subseq (started_of ?s key @ map fst (queue_of ?s key)) (started_of s key @ map fst (queue_of s key) @ map fst (offers key [e]))"
    using Cons.prems(3,4) by (intro job_ordered [OF step_job [OF Cons.prems(1), unfolded job_of_def]]) (simp_all add: offers_Cons [of key e es])
  then have "subseq ((started_of ?s key @ map fst (queue_of ?s key)) @ map fst (offers key es))
      ((started_of s key @ map fst (queue_of s key) @ map fst (offers key [e])) @ map fst (offers key es))"
    using list_emb_append_mono [OF _ subseq_order.order_refl] by blast
  moreover have "(\<forall>entry \<in> set (queue_of (foldl scheduler_step ?s es) key). entry_limit entry \<le> running_count (foldl scheduler_step ?s es) key)
      \<and> subseq (started_of (foldl scheduler_step ?s es) key @ map fst (queue_of (foldl scheduler_step ?s es) key))
          (started_of ?s key @ map fst (queue_of ?s key) @ map fst (offers key es))"
    using step Cons.prems(1,2) step_inv [of s e] by (intro Cons.IH) simp_all
  ultimately show ?case unfolding foldl_Cons offers_Cons [of key e es] map_append append_assoc using subseq_order.order_trans by blast
qed simp

text \<open>
  Claim C35.
  A job never has more executions under way than the largest limit it was submitted with. As long as its limit is not raised, no
  event waits that its limit would let start, and the events of the job start in the order in which they were submitted.
\<close>

theorem events_start_in_order:
  assumes ok: "\<forall>e \<in> set es. step_ok e" and s: "s = foldl scheduler_step (scheduler_new n) es"
  shows "(\<forall>m. (\<forall>offer \<in> set (offers key es). sp_maxConcurrentRuns (snd offer) \<le> m)
        \<longrightarrow> length (filter (\<lambda>r. fst r = key) (rt_executing s)) \<le> m)
    \<and> (sorted_wrt (\<ge>) (map (\<lambda>offer. sp_maxConcurrentRuns (snd offer)) (offers key es)) \<longrightarrow>
         (\<forall>entry \<in> set (queue_of s key). sp_maxConcurrentRuns (snd entry) \<le> length (filter (\<lambda>r. fst r = key) (rt_executing s)))
         \<and> subseq (map snd (filter (\<lambda>r. fst r = key) (rt_started s)) @ map fst (queue_of s key)) (map fst (offers key es)))"
proof -
  have new: "queue_of (scheduler_new n) key = []" "running_count (scheduler_new n) key = 0" "started_of (scheduler_new n) key = []"
    by (simp_all add: scheduler_new_def running_count_def queue_of_def started_of_def)
  have "scheduler_inv s" unfolding s using run_accounted [OF new_inv ok] by blast
  then have "running_count s key = length (filter (\<lambda>r. fst r = key) (rt_executing s))" by (rule scheduler_invD(1))
  then show ?thesis
    using run_bounded [OF new_inv ok, of n key] run_ordered [OF new_inv ok, of n key]
    unfolding s new by (simp add: started_of_def)
qed

text \<open>Three events of a job that allows one execution; the first ends. Then the limit is raised, and a fourth event overtakes the third.\<close>

definition one_at_a_time :: scheduler_policy where
  "one_at_a_time = \<lparr>sp_cooldownMs = None, sp_maxConcurrentRuns = 1, sp_whenBusy = BusyQueue\<rparr>"

definition sample_run :: "(int \<times> string scheduler_step) list" where
  "sample_run = [(0, Submit ''job'' ''a'' one_at_a_time), (1, Submit ''job'' ''b'' one_at_a_time), (2, Submit ''job'' ''c'' one_at_a_time), (3, Finish ''job'' ''a'')]"

lemma sample_ok: "\<forall>e \<in> set sample_run. step_ok e"
  by (simp add: sample_run_def step_ok_def one_at_a_time_def)

lemmas sample_simps = sample_run_def scheduler_step_def submit_def scheduler_new_def cooling_def running_count_def begin_run_def queue_of_def
  one_at_a_time_def finish_run_def drain_def Let_def jmap_set_def jmap_get_Cons jmap_delete_filter

lemma raised_limit_overtakes:
  "map snd (rt_started (foldl scheduler_step (scheduler_new 100) (sample_run @ [(4, Submit ''job'' ''d'' (one_at_a_time\<lparr>sp_maxConcurrentRuns := 2\<rparr>))])))
     = [''a'', ''b'', ''d'']"
  by (simp add: sample_simps)

theorem scheduled_events_accounted_witness:
  "accounted (foldl scheduler_step (scheduler_new 100) sample_run) = {#''a'', ''b'', ''c''#}"
  using scheduled_events_accounted [OF sample_ok refl, of 100] by (simp add: sample_run_def)

theorem events_start_in_order_witness:
  "map snd (rt_started (foldl scheduler_step (scheduler_new 100) sample_run)) = [''a'', ''b'']
    \<and> map fst (queue_of (foldl scheduler_step (scheduler_new 100) sample_run) ''job'') = [''c'']
    \<and> length (filter (\<lambda>r. fst r = ''job'') (rt_executing (foldl scheduler_step (scheduler_new 100) sample_run))) \<le> 1
    \<and> subseq (map snd (filter (\<lambda>r. fst r = ''job'') (rt_started (foldl scheduler_step (scheduler_new 100) sample_run)))
        @ map fst (queue_of (foldl scheduler_step (scheduler_new 100) sample_run) ''job'')) [''a'', ''b'', ''c'']"
proof -
  have offers: "offers ''job'' sample_run = [(''a'', one_at_a_time), (''b'', one_at_a_time), (''c'', one_at_a_time)]"
    by (simp add: sample_run_def offers_def)
  have "map snd (rt_started (foldl scheduler_step (scheduler_new 100) sample_run)) = [''a'', ''b'']"
    "map fst (queue_of (foldl scheduler_step (scheduler_new 100) sample_run) ''job'') = [''c'']"
    by (simp_all add: sample_simps)
  then show ?thesis using events_start_in_order [OF sample_ok refl, where n = 100 and key = "''job''"] unfolding offers
    by (simp add: one_at_a_time_def)
qed

end
