(* ===== verification/Story_Automations.thy ===== *)
theory Story_Automations
  imports Js_Date Js_Json Scheduler_Runtime
begin

text \<open>
  Story automations and their runs (\<^verbatim>\<open>packages/node-agent/src/stories/automation-store.ts\<close> over the repositories of
  \<^verbatim>\<open>packages/node-agent/src/persistence/repository.ts\<close>). The tables are lists of rows in the order of insertion; their primary
  keys, the unique index on execution keys and the foreign keys are checked by the operations that insert and update, as the
  database does. A transaction is one step: the repository's queue runs them one after the other, and one that fails leaves the
  database as it was. Rows that compare equal in an \<^verbatim>\<open>ORDER BY\<close> keep the order of insertion. A session preset is carried as a
  JSON value.
\<close>

section \<open>Tables\<close>

datatype schedule =
    IntervalSchedule int
  | DailySchedule string string
  | WeeklySchedule "int list" string string
  | MonthlySchedule int string string

datatype run_event = ManualRun | ScheduleRun

datatype run_status = RunQueued | RunDispatching | RunRunning | RunCompleted | RunFailed | RunSkipped

record run_error =
  re_code :: string
  re_message :: string

record execution_input =
  ei_storyId :: string
  ei_actionId :: string
  ei_targetInstanceId :: string
  ei_prompt :: string
  ei_sessionPreset :: "json option"
  ei_cwd :: string

record automation_row =
  au_id :: string
  au_storyId :: string
  au_actionId :: string
  au_schedule :: schedule
  au_enabled :: bool
  au_policy :: scheduler_policy
  au_scheduleAnchorAt :: string
  au_createdAt :: string
  au_updatedAt :: string

record run_row =
  rr_id :: string
  rr_automationId :: string
  rr_eventType :: run_event
  rr_status :: run_status
  rr_scheduledFor :: string
  rr_targetInstanceId :: string
  rr_aiSessionId :: "string option"
  rr_error :: "run_error option"
  rr_queuedAt :: string
  rr_startedAt :: "string option"
  rr_completedAt :: "string option"
  rr_executionKey :: string
  rr_requestFingerprint :: string
  rr_executionInput :: execution_input

record story_db =
  sd_actions :: "(string \<times> string) list"
  sd_automations :: "automation_row list"
  sd_runs :: "run_row list"

datatype automation_error =
    AutomationConflict
  | AutomationRunActive
  | AutomationRunNotFound
  | AutomationRunTransitionInvalid run_status run_status
  | ConstraintFailed
  | InvalidTimeValue

section \<open>The repositories\<close>

definition automations_list :: "string option \<Rightarrow> story_db \<Rightarrow> automation_row list" where
  "automations_list storyId db =
     js_sort (\<lambda>a b. au_createdAt a < au_createdAt b \<or> au_createdAt a = au_createdAt b \<and> au_id a \<le> au_id b)
       (filter (\<lambda>a. truthy storyId \<longrightarrow> storyId = Some (au_storyId a)) (sd_automations db))"

definition automations_get :: "string \<Rightarrow> story_db \<Rightarrow> automation_row option" where
  "automations_get aid db = List.find (\<lambda>a. au_id a = aid) (sd_automations db)"

definition automations_insert :: "automation_row \<Rightarrow> story_db \<Rightarrow> automation_error + story_db" where
  "automations_insert a db =
     (if au_id a \<in> au_id ` set (sd_automations db) \<or> (au_storyId a, au_actionId a) \<notin> set (sd_actions db) then Inl ConstraintFailed
      else Inr (db\<lparr>sd_automations := sd_automations db @ [a]\<rparr>))"

record automation_patch =
  ap_actionId :: "string option"
  ap_schedule :: "schedule option"
  ap_enabled :: "bool option"
  ap_policy :: "scheduler_policy option"

definition patch_automation :: "automation_patch \<Rightarrow> string option \<Rightarrow> string \<Rightarrow> automation_row \<Rightarrow> automation_row" where
  "patch_automation p anchor updatedAt a = a\<lparr>
     au_actionId := (case ap_actionId p of None \<Rightarrow> au_actionId a | Some v \<Rightarrow> v),
     au_schedule := (case ap_schedule p of None \<Rightarrow> au_schedule a | Some v \<Rightarrow> v),
     au_enabled := (case ap_enabled p of None \<Rightarrow> au_enabled a | Some v \<Rightarrow> v),
     au_policy := (case ap_policy p of None \<Rightarrow> au_policy a | Some v \<Rightarrow> v),
     au_scheduleAnchorAt := (case anchor of None \<Rightarrow> au_scheduleAnchorAt a | Some v \<Rightarrow> v),
     au_updatedAt := updatedAt\<rparr>"

definition automations_update :: "string \<Rightarrow> (automation_row \<Rightarrow> automation_row) \<Rightarrow> story_db \<Rightarrow> automation_error + story_db" where
  "automations_update aid f db =
     (if \<exists>a \<in> set (sd_automations db). au_id a = aid \<and> (au_storyId (f a), au_actionId (f a)) \<notin> set (sd_actions db) then Inl ConstraintFailed
      else Inr (db\<lparr>sd_automations := map (\<lambda>a. if au_id a = aid then f a else a) (sd_automations db)\<rparr>))"

definition automations_referencingActions :: "string \<Rightarrow> string list \<Rightarrow> story_db \<Rightarrow> automation_row list" where
  "automations_referencingActions storyId actionIds db =
     (if actionIds = [] then [] else filter (\<lambda>a. au_storyId a = storyId \<and> au_actionId a \<in> set actionIds) (sd_automations db))"

text \<open>Deleting an automation deletes its runs (\<^verbatim>\<open>ON DELETE CASCADE\<close>).\<close>

definition delete_automations :: "(automation_row \<Rightarrow> bool) \<Rightarrow> story_db \<Rightarrow> story_db" where
  "delete_automations gone db =
     (let ids = au_id ` set (filter gone (sd_automations db)) in
      db\<lparr>sd_automations := filter (\<lambda>a. \<not> gone a) (sd_automations db), sd_runs := filter (\<lambda>r. rr_automationId r \<notin> ids) (sd_runs db)\<rparr>)"

definition automations_delete :: "string \<Rightarrow> story_db \<Rightarrow> bool \<times> story_db" where
  "automations_delete aid db = (\<exists>a \<in> set (sd_automations db). au_id a = aid, delete_automations (\<lambda>a. au_id a = aid) db)"

definition automations_deleteForStory :: "string \<Rightarrow> story_db \<Rightarrow> story_db" where
  "automations_deleteForStory storyId = delete_automations (\<lambda>a. au_storyId a = storyId)"

definition terminal :: "run_status \<Rightarrow> bool" where
  "terminal st = (st \<in> {RunCompleted, RunFailed, RunSkipped})"

definition runs_list :: "string \<Rightarrow> story_db \<Rightarrow> run_row list" where
  "runs_list aid db = js_sort (\<lambda>a b. rr_queuedAt b \<le> rr_queuedAt a) (filter (\<lambda>r. rr_automationId r = aid) (sd_runs db))"

definition runs_get :: "string \<Rightarrow> story_db \<Rightarrow> run_row option" where
  "runs_get rid db = List.find (\<lambda>r. rr_id r = rid) (sd_runs db)"

definition runs_byExecutionKey :: "string \<Rightarrow> story_db \<Rightarrow> run_row option" where
  "runs_byExecutionKey key db = List.find (\<lambda>r. rr_executionKey r = key) (sd_runs db)"

definition runs_pending :: "story_db \<Rightarrow> run_row list" where
  "runs_pending db = js_sort (\<lambda>a b. rr_queuedAt a \<le> rr_queuedAt b) (filter (\<lambda>r. \<not> terminal (rr_status r)) (sd_runs db))"

definition runs_activeForStory :: "string \<Rightarrow> story_db \<Rightarrow> run_row list" where
  "runs_activeForStory storyId db =
     filter (\<lambda>r. \<not> terminal (rr_status r) \<and> (\<exists>a \<in> set (sd_automations db). au_id a = rr_automationId r \<and> au_storyId a = storyId)) (sd_runs db)"

definition runs_insert :: "run_row \<Rightarrow> story_db \<Rightarrow> automation_error + story_db" where
  "runs_insert r db =
     (if rr_id r \<in> rr_id ` set (sd_runs db) \<or> rr_executionKey r \<in> rr_executionKey ` set (sd_runs db)
         \<or> rr_automationId r \<notin> au_id ` set (sd_automations db) then Inl ConstraintFailed
      else Inr (db\<lparr>sd_runs := sd_runs db @ [r]\<rparr>))"

definition runs_update :: "string \<Rightarrow> (run_row \<Rightarrow> run_row) \<Rightarrow> story_db \<Rightarrow> story_db" where
  "runs_update rid f db = db\<lparr>sd_runs := map (\<lambda>r. if rr_id r = rid then f r else r) (sd_runs db)\<rparr>"

definition runs_trimTerminal :: "string \<Rightarrow> nat \<Rightarrow> story_db \<Rightarrow> story_db" where
  "runs_trimTerminal aid retain db =
     (let old = drop retain (filter (\<lambda>r. terminal (rr_status r)) (runs_list aid db))
      in db\<lparr>sd_runs := filter (\<lambda>r. rr_id r \<notin> rr_id ` set old) (sd_runs db)\<rparr>)"

section \<open>The store\<close>

definition MAX_TERMINAL_RUNS :: nat where "MAX_TERMINAL_RUNS = 100"

fun allowedTransitions :: "run_status \<Rightarrow> run_status list" where
  "allowedTransitions RunQueued = [RunDispatching, RunSkipped]"
| "allowedTransitions RunDispatching = [RunRunning, RunFailed]"
| "allowedTransitions RunRunning = [RunCompleted, RunFailed]"
| "allowedTransitions _ = []"

record automation_input =
  in_storyId :: string
  in_actionId :: string
  in_schedule :: schedule
  in_enabled :: bool
  in_policy :: scheduler_policy

definition automation_create :: "string \<Rightarrow> int \<Rightarrow> automation_input \<Rightarrow> story_db \<Rightarrow> automation_error + (automation_row \<times> story_db)" where
  "automation_create newId now input db =
     (let stamp = to_iso now;
          a = \<lparr>au_id = newId, au_storyId = in_storyId input, au_actionId = in_actionId input, au_schedule = in_schedule input,
               au_enabled = in_enabled input, au_policy = in_policy input, au_scheduleAnchorAt = stamp, au_createdAt = stamp, au_updatedAt = stamp\<rparr>
      in case automations_insert a db of Inl e \<Rightarrow> Inl e | Inr db \<Rightarrow> Inr (a, db))"

definition nextUpdatedAt :: "int \<Rightarrow> string \<Rightarrow> automation_error + string" where
  "nextUpdatedAt now current = (case date_parse current of None \<Rightarrow> Inl InvalidTimeValue | Some t \<Rightarrow> Inr (to_iso (max now (t + 1))))"

definition stale :: "string \<Rightarrow> string option \<Rightarrow> bool" where
  "stale actual expected = (case expected of None \<Rightarrow> False | Some e \<Rightarrow> actual \<noteq> e)"

definition automation_update :: "int \<Rightarrow> string \<Rightarrow> automation_patch \<Rightarrow> string option \<Rightarrow> story_db \<Rightarrow> automation_error + (automation_row option \<times> story_db)" where
  "automation_update now aid patch expectedUpdatedAt db =
     (case automations_get aid db of
        None \<Rightarrow> Inr (None, db)
      | Some current \<Rightarrow>
          if stale (au_updatedAt current) expectedUpdatedAt then Inl AutomationConflict
          else case nextUpdatedAt now (au_updatedAt current) of
                 Inl e \<Rightarrow> Inl e
               | Inr stamp \<Rightarrow>
                   let resetAnchor = ap_schedule patch \<noteq> None \<or> (ap_enabled patch = Some True \<and> \<not> au_enabled current) in
                   (case automations_update aid (patch_automation patch (if resetAnchor then Some stamp else None) stamp) db of
                      Inl e \<Rightarrow> Inl e
                    | Inr db \<Rightarrow> Inr (automations_get aid db, db)))"

definition hasActiveRuns :: "string \<Rightarrow> story_db \<Rightarrow> bool" where
  "hasActiveRuns aid db = (\<exists>r \<in> set (runs_list aid db). \<not> terminal (rr_status r))"

definition automation_delete :: "string \<Rightarrow> string option \<Rightarrow> story_db \<Rightarrow> automation_error + (bool \<times> story_db)" where
  "automation_delete aid expectedUpdatedAt db =
     (case automations_get aid db of
        None \<Rightarrow> Inr (False, db)
      | Some current \<Rightarrow>
          if stale (au_updatedAt current) expectedUpdatedAt then Inl AutomationConflict
          else if \<exists>r \<in> set (runs_list aid db). \<not> terminal (rr_status r) then Inl AutomationRunActive
          else Inr (automations_delete aid db))"

text \<open>
  The transaction that deletes a story (\<^verbatim>\<open>deleteCoordinated\<close> of \<^verbatim>\<open>command-service.ts\<close>) on the tables of automations. The store's method
  \<^verbatim>\<open>deleteForStory\<close>, which nothing calls, does the same in two transactions.
\<close>

definition automation_deleteForStory :: "string \<Rightarrow> story_db \<Rightarrow> automation_error + story_db" where
  "automation_deleteForStory storyId db =
     (if runs_activeForStory storyId db \<noteq> [] then Inl AutomationRunActive else Inr (automations_deleteForStory storyId db))"

record run_input =
  ri_automationId :: string
  ri_eventType :: run_event
  ri_scheduledFor :: string
  ri_executionKey :: string
  ri_requestFingerprint :: string
  ri_executionInput :: execution_input

definition new_run :: "string \<Rightarrow> int \<Rightarrow> run_input \<Rightarrow> run_row" where
  "new_run newId now input = \<lparr>rr_id = newId, rr_automationId = ri_automationId input, rr_eventType = ri_eventType input, rr_status = RunQueued,
     rr_scheduledFor = ri_scheduledFor input, rr_targetInstanceId = ei_targetInstanceId (ri_executionInput input),
     rr_aiSessionId = None, rr_error = None, rr_queuedAt = to_iso now, rr_startedAt = None, rr_completedAt = None,
     rr_executionKey = ri_executionKey input, rr_requestFingerprint = ri_requestFingerprint input, rr_executionInput = ri_executionInput input\<rparr>"

definition createRun :: "string \<Rightarrow> int \<Rightarrow> run_input \<Rightarrow> story_db \<Rightarrow> automation_error + (run_row \<times> story_db)" where
  "createRun newId now input db =
     (case runs_byExecutionKey (ri_executionKey input) db of
        Some existing \<Rightarrow> Inr (existing, db)
      | None \<Rightarrow>
          (case runs_insert (new_run newId now input) db of
             Inl e \<Rightarrow> Inl e
           | Inr db \<Rightarrow> Inr (new_run newId now input, runs_trimTerminal (ri_automationId input) MAX_TERMINAL_RUNS db)))"

definition patch_run :: "run_status \<Rightarrow> string option \<Rightarrow> run_error option \<Rightarrow> string \<Rightarrow> run_row \<Rightarrow> run_row" where
  "patch_run status aiSessionId err stamp r = r\<lparr>
     rr_aiSessionId := (case aiSessionId of None \<Rightarrow> rr_aiSessionId r | Some s \<Rightarrow> Some s),
     rr_error := (case err of None \<Rightarrow> rr_error r | Some e \<Rightarrow> Some e),
     rr_status := status,
     rr_startedAt := (if status = RunDispatching then Some stamp else rr_startedAt r),
     rr_completedAt := (if terminal status then Some stamp else rr_completedAt r)\<rparr>"

definition transition :: "int \<Rightarrow> string \<Rightarrow> run_status \<Rightarrow> string option \<Rightarrow> run_error option \<Rightarrow> story_db \<Rightarrow> automation_error + (run_row \<times> story_db)" where
  "transition now rid status aiSessionId err db =
     (case runs_get rid db of
        None \<Rightarrow> Inl AutomationRunNotFound
      | Some current \<Rightarrow>
          if rr_status current = status then Inr (current, db)
          else if status \<notin> set (allowedTransitions (rr_status current)) then Inl (AutomationRunTransitionInvalid (rr_status current) status)
          else let f = patch_run status aiSessionId err (to_iso now)
               in Inr (f current, runs_trimTerminal (rr_automationId current) MAX_TERMINAL_RUNS (runs_update rid f db)))"

section \<open>Runs of the store\<close>

datatype store_step =
    CreateAutomation string automation_input
  | UpdateAutomation string automation_patch "string option"
  | DeleteAutomation string "string option"
  | DeleteForStory string
  | CreateRun string run_input
  | Transition string run_status "string option" "run_error option"

definition store_step :: "story_db \<Rightarrow> int \<times> store_step \<Rightarrow> story_db" where
  "store_step db e =
     (case e of (now, s) \<Rightarrow> (case s of
        CreateAutomation newId input \<Rightarrow> (case automation_create newId now input db of Inl _ \<Rightarrow> db | Inr (_, db) \<Rightarrow> db)
      | UpdateAutomation aid patch expected \<Rightarrow> (case automation_update now aid patch expected db of Inl _ \<Rightarrow> db | Inr (_, db) \<Rightarrow> db)
      | DeleteAutomation aid expected \<Rightarrow> (case automation_delete aid expected db of Inl _ \<Rightarrow> db | Inr (_, db) \<Rightarrow> db)
      | DeleteForStory storyId \<Rightarrow> (case automation_deleteForStory storyId db of Inl _ \<Rightarrow> db | Inr db \<Rightarrow> db)
      | CreateRun newId input \<Rightarrow> (case createRun newId now input db of Inl _ \<Rightarrow> db | Inr (_, db) \<Rightarrow> db)
      | Transition rid status sid err \<Rightarrow> (case transition now rid status sid err db of Inl _ \<Rightarrow> db | Inr (_, db) \<Rightarrow> db)))"

section \<open>The invariant\<close>

definition run_ok :: "run_row \<Rightarrow> bool" where
  "run_ok r \<longleftrightarrow> (terminal (rr_status r) \<longleftrightarrow> rr_completedAt r \<noteq> None) \<and> (rr_startedAt r = None \<longleftrightarrow> rr_status r \<in> {RunQueued, RunSkipped})"

definition terminal_runs :: "string \<Rightarrow> story_db \<Rightarrow> run_row list" where
  "terminal_runs aid db = filter (\<lambda>r. rr_automationId r = aid \<and> terminal (rr_status r)) (sd_runs db)"

definition db_ok :: "story_db \<Rightarrow> bool" where
  "db_ok db \<longleftrightarrow> distinct (map au_id (sd_automations db)) \<and> distinct (map rr_id (sd_runs db)) \<and> distinct (map rr_executionKey (sd_runs db))
     \<and> (\<forall>a \<in> set (sd_automations db). (au_storyId a, au_actionId a) \<in> set (sd_actions db))
     \<and> (\<forall>r \<in> set (sd_runs db). run_ok r \<and> rr_automationId r \<in> au_id ` set (sd_automations db))
     \<and> (\<forall>aid. length (terminal_runs aid db) \<le> MAX_TERMINAL_RUNS)"

text \<open>
  What a step may do to the runs it finds: \<open>ended\<close> are the runs it moves to a final status, which may be trimmed at once. Every
  other active run is still there; a run that is there keeps its identity, and its status is the same or an allowed successor.
\<close>

definition advanced :: "run_row \<Rightarrow> run_row \<Rightarrow> bool" where
  "advanced r r' \<longleftrightarrow> rr_executionKey r' = rr_executionKey r \<and> rr_automationId r' = rr_automationId r
     \<and> (r' = r \<or> rr_status r' \<in> set (allowedTransitions (rr_status r)))"

definition runs_kept :: "string set \<Rightarrow> story_db \<Rightarrow> story_db \<Rightarrow> bool" where
  "runs_kept ended db db' \<longleftrightarrow> (\<forall>r \<in> set (sd_runs db).
     (\<not> terminal (rr_status r) \<longrightarrow> rr_id r \<notin> ended \<longrightarrow> (\<exists>r' \<in> set (sd_runs db'). rr_id r' = rr_id r \<and> \<not> terminal (rr_status r')))
     \<and> (\<forall>r' \<in> set (sd_runs db'). rr_id r' = rr_id r \<longrightarrow> advanced r r'))"

definition ended_by :: "store_step \<Rightarrow> string set" where
  "ended_by e = (case e of Transition rid status _ _ \<Rightarrow> if terminal status then {rid} else {} | _ \<Rightarrow> {})"

lemma distinct_map_filter': "distinct (map f xs) \<Longrightarrow> distinct (map f (filter P xs))"
  by (induction xs) auto

lemma same_id: "distinct (map rr_id rs) \<Longrightarrow> r \<in> set rs \<Longrightarrow> r' \<in> set rs \<Longrightarrow> rr_id r = rr_id r' \<Longrightarrow> r = r'"
  by (auto simp: distinct_map inj_on_def)

lemma set_runs_list [simp]: "set (runs_list aid db) = {r \<in> set (sd_runs db). rr_automationId r = aid}"
  by (auto simp: runs_list_def)

text \<open>Trimming keeps every active run and at most the given number of finished ones.\<close>

lemma trim_set: "set (sd_runs (runs_trimTerminal aid n db)) \<subseteq> set (sd_runs db)"
  by (auto simp: runs_trimTerminal_def Let_def)

lemma trim_frame: "sd_automations (runs_trimTerminal aid n db) = sd_automations db" "sd_actions (runs_trimTerminal aid n db) = sd_actions db"
  by (simp_all add: runs_trimTerminal_def Let_def)

lemma trim_filter: "\<exists>P. sd_runs (runs_trimTerminal aid n db) = filter P (sd_runs db)"
  by (auto simp: runs_trimTerminal_def Let_def)

lemma trim_active:
  assumes "distinct (map rr_id (sd_runs db))" "r \<in> set (sd_runs db)" "\<not> terminal (rr_status r)"
  shows "r \<in> set (sd_runs (runs_trimTerminal aid n db))"
proof -
  have "rr_id r \<notin> rr_id ` set (drop n (filter (\<lambda>r. terminal (rr_status r)) (runs_list aid db)))"
  proof
    assume "rr_id r \<in> rr_id ` set (drop n (filter (\<lambda>r. terminal (rr_status r)) (runs_list aid db)))"
    then obtain r' where "r' \<in> set (filter (\<lambda>r. terminal (rr_status r)) (runs_list aid db))" "rr_id r' = rr_id r" by (auto dest: in_set_dropD)
    then have "r' = r" "terminal (rr_status r')" using same_id [OF assms(1)] assms(2) by auto
    then show False using assms(3) by simp
  qed
  then show ?thesis using assms(2) by (simp add: runs_trimTerminal_def Let_def)
qed

lemma length_filter_twice: "length (filter P (filter Q xs)) \<le> length (filter P xs)"
  by (induction xs) auto

lemma trim_bound:
  assumes d: "distinct (map rr_id (sd_runs db))"
  shows "length (terminal_runs aid' (runs_trimTerminal aid n db)) \<le> (if aid' = aid then n else length (terminal_runs aid' db))"
proof -
  let ?T = "filter (\<lambda>r. terminal (rr_status r)) (runs_list aid db)" and ?db = "runs_trimTerminal aid n db"
  have runs: "sd_runs ?db = filter (\<lambda>r. rr_id r \<notin> rr_id ` set (drop n ?T)) (sd_runs db)" by (simp add: runs_trimTerminal_def Let_def)
  have "length (terminal_runs aid ?db) \<le> n"
  proof -
    have "distinct (terminal_runs aid ?db)" using d by (simp add: terminal_runs_def runs distinct_map)
    then have "length (terminal_runs aid ?db) = card (set (terminal_runs aid ?db))" by (rule distinct_card [symmetric])
    also have "set (terminal_runs aid ?db) \<subseteq> set (take n ?T)"
    proof
      fix r assume "r \<in> set (terminal_runs aid ?db)"
      then have "r \<in> set ?T" "r \<notin> set (drop n ?T)" by (auto simp: terminal_runs_def runs)
      then show "r \<in> set (take n ?T)" by (metis Un_iff append_take_drop_id set_append)
    qed
    then have "card (set (terminal_runs aid ?db)) \<le> card (set (take n ?T))" by (rule card_mono [rotated]) simp
    also have "\<dots> \<le> n" using card_length [of "take n ?T"] by simp
    finally show ?thesis .
  qed
  moreover have "length (terminal_runs aid' ?db) \<le> length (terminal_runs aid' db)"
    unfolding terminal_runs_def runs by (rule length_filter_twice)
  ultimately show ?thesis by simp
qed

lemma db_okD:
  assumes "db_ok db"
  shows "distinct (map au_id (sd_automations db))" "distinct (map rr_id (sd_runs db))" "distinct (map rr_executionKey (sd_runs db))"
    "a \<in> set (sd_automations db) \<Longrightarrow> (au_storyId a, au_actionId a) \<in> set (sd_actions db)" "r \<in> set (sd_runs db) \<Longrightarrow> run_ok r"
    "r \<in> set (sd_runs db) \<Longrightarrow> rr_automationId r \<in> au_id ` set (sd_automations db)" "length (terminal_runs aid db) \<le> MAX_TERMINAL_RUNS"
  using assms by (simp_all add: db_ok_def)

lemma runs_kept_refl: "db_ok db \<Longrightarrow> sd_runs db' = sd_runs db \<Longrightarrow> runs_kept ended db db'"
  using same_id [OF db_okD(2)] by (auto simp: runs_kept_def advanced_def)

lemma trim_ok:
  assumes "distinct (map au_id (sd_automations db))" "distinct (map rr_id (sd_runs db))" "distinct (map rr_executionKey (sd_runs db))"
    "\<forall>a \<in> set (sd_automations db). (au_storyId a, au_actionId a) \<in> set (sd_actions db)"
    "\<forall>r \<in> set (sd_runs db). run_ok r \<and> rr_automationId r \<in> au_id ` set (sd_automations db)"
    "\<And>aid'. aid' \<noteq> aid \<Longrightarrow> length (terminal_runs aid' db) \<le> MAX_TERMINAL_RUNS"
  shows "db_ok (runs_trimTerminal aid MAX_TERMINAL_RUNS db)"
proof -
  obtain P where P: "sd_runs (runs_trimTerminal aid MAX_TERMINAL_RUNS db) = filter P (sd_runs db)" using trim_filter by blast
  have "length (terminal_runs aid' (runs_trimTerminal aid MAX_TERMINAL_RUNS db)) \<le> MAX_TERMINAL_RUNS" for aid'
    using trim_bound [OF assms(2), of aid' aid MAX_TERMINAL_RUNS] assms(6) [of aid'] by (cases "aid' = aid") auto
  then show ?thesis using assms(1-5) unfolding db_ok_def trim_frame P by (auto simp: distinct_map_filter')
qed

lemma create_step:
  assumes ok: "db_ok db" and c: "createRun newId now input db = Inr (r, db')"
  shows "db_ok db' \<and> runs_kept ended db db'"
proof (cases "runs_byExecutionKey (ri_executionKey input) db")
  case (Some x)
  then show ?thesis using ok c by (auto simp: createRun_def intro: runs_kept_refl)
next
  case None
  note D = db_okD [OF ok]
  define new where "new = new_run newId now input"
  have fresh: "rr_id new \<notin> rr_id ` set (sd_runs db)" "rr_executionKey new \<notin> rr_executionKey ` set (sd_runs db)"
      "rr_automationId new \<in> au_id ` set (sd_automations db)"
    and db': "db' = runs_trimTerminal (ri_automationId input) MAX_TERMINAL_RUNS (db\<lparr>sd_runs := sd_runs db @ [new]\<rparr>)"
    using c None unfolding createRun_def new_def [symmetric] by (auto simp: runs_insert_def split: if_splits)
  have new: "rr_status new = RunQueued" "rr_startedAt new = None" "rr_completedAt new = None" by (simp_all add: new_def new_run_def)
  let ?db = "db\<lparr>sd_runs := sd_runs db @ [new]\<rparr>"
  have dist: "distinct (map rr_id (sd_runs ?db))" using D(2) fresh(1) by simp
  have same: "terminal_runs aid ?db = terminal_runs aid db" for aid using new(1) by (simp add: terminal_runs_def terminal_def)
  have "run_ok new" using new by (simp add: run_ok_def terminal_def)
  then have "db_ok db'"
    unfolding db' using D fresh dist same by (intro trim_ok) auto
  moreover have "runs_kept ended db db'"
    unfolding runs_kept_def
  proof (intro ballI conjI impI)
    fix r assume r: "r \<in> set (sd_runs db)"
    then have r2: "r \<in> set (sd_runs ?db)" by simp
    show "\<exists>r' \<in> set (sd_runs db'). rr_id r' = rr_id r \<and> \<not> terminal (rr_status r')" if "\<not> terminal (rr_status r)"
      using trim_active [OF dist r2 that] that unfolding db' by (intro bexI [of _ r]) auto
    show "advanced r r'" if "r' \<in> set (sd_runs db')" "rr_id r' = rr_id r" for r'
    proof -
      have "r' \<in> set (sd_runs ?db)" using that(1) trim_set unfolding db' by blast
      then have "r' = r" using same_id [OF dist _ r2] that(2) by blast
      then show ?thesis by (simp add: advanced_def)
    qed
  qed
  ultimately show ?thesis ..
qed

lemma transition_ok:
  assumes "run_ok r" "status \<in> set (allowedTransitions (rr_status r))"
  shows "run_ok (patch_run status sid err stamp r)"
  using assms by (cases "rr_status r") (auto simp: run_ok_def patch_run_def terminal_def)

lemma transition_step:
  assumes ok: "db_ok db" and t: "transition now rid status sid err db = Inr (out, db')"
  shows "db_ok db' \<and> runs_kept (if terminal status then {rid} else {}) db db'"
proof -
  note D = db_okD [OF ok]
  obtain cur where cur: "runs_get rid db = Some cur" using t by (auto simp: transition_def split: option.splits)
  then have c: "cur \<in> set (sd_runs db)" "rr_id cur = rid" unfolding runs_get_def by (auto dest: find_SomeD)
  show ?thesis
  proof (cases "rr_status cur = status")
    case True
    then show ?thesis using ok t cur by (auto simp: transition_def intro: runs_kept_refl)
  next
    case False
    let ?f = "patch_run status sid err (to_iso now)"
    let ?db = "runs_update rid ?f db" and ?g = "\<lambda>r. if rr_id r = rid then ?f r else r"
    have allowed: "status \<in> set (allowedTransitions (rr_status cur))"
      and db': "db' = runs_trimTerminal (rr_automationId cur) MAX_TERMINAL_RUNS ?db"
      using t cur False by (auto simp: transition_def Let_def split: if_splits)
    have frame: "rr_id (?g r) = rr_id r" "rr_executionKey (?g r) = rr_executionKey r" "rr_automationId (?g r) = rr_automationId r" for r
      by (simp_all add: patch_run_def)
    have runs: "sd_runs ?db = map ?g (sd_runs db)" "sd_automations ?db = sd_automations db" "sd_actions ?db = sd_actions db" by (simp_all add: runs_update_def)
    have ids: "map rr_id (sd_runs ?db) = map rr_id (sd_runs db)" "map rr_executionKey (sd_runs ?db) = map rr_executionKey (sd_runs db)"
      using frame by (simp_all add: runs)
    have only: "r = cur" if "r \<in> set (sd_runs db)" "rr_id r = rid" for r using same_id [OF D(2) that(1) c(1)] that(2) c(2) by simp
    have g: "run_ok (?g r) \<and> rr_automationId (?g r) \<in> au_id ` set (sd_automations db)" if "r \<in> set (sd_runs db)" for r
    proof (cases "rr_id r = rid")
      case True
      then show ?thesis using only [OF that] transition_ok [OF D(5) [OF c(1)] allowed] D(6) [OF c(1)] frame(3) [of cur] by simp
    next
      case False
      then show ?thesis using D(5,6) that by simp
    qed
    have others: "terminal_runs aid ?db = terminal_runs aid db" if "aid \<noteq> rr_automationId cur" for aid
    proof -
      have "filter (\<lambda>r. rr_automationId r = aid \<and> terminal (rr_status r)) (map ?g rs) = filter (\<lambda>r. rr_automationId r = aid \<and> terminal (rr_status r)) rs"
        if "set rs \<subseteq> set (sd_runs db)" for rs
        using that
      proof (induction rs)
        case (Cons r rs)
        show ?case
        proof (cases "rr_id r = rid")
          case True
          then have "rr_automationId r \<noteq> aid" using only [of r] Cons.prems \<open>aid \<noteq> rr_automationId cur\<close> by auto
          then show ?thesis using Cons frame(3) [of r] by simp
        qed (use Cons in simp)
      qed simp
      then show ?thesis unfolding terminal_runs_def runs by blast
    qed
    have dist: "distinct (map rr_id (sd_runs ?db))" using D(2) ids by simp
    have "db_ok db'"
      unfolding db'
    proof (rule trim_ok)
      show "\<forall>r \<in> set (sd_runs ?db). run_ok r \<and> rr_automationId r \<in> au_id ` set (sd_automations ?db)" using g unfolding runs set_map by blast
      show "length (terminal_runs aid ?db) \<le> MAX_TERMINAL_RUNS" if "aid \<noteq> rr_automationId cur" for aid using others [OF that] D(7) by simp
    qed (unfold ids, use D in \<open>auto simp: runs_update_def\<close>)
    moreover have "runs_kept (if terminal status then {rid} else {}) db db'"
      unfolding runs_kept_def
    proof (intro ballI conjI impI)
      fix r assume r: "r \<in> set (sd_runs db)"
      then have gr: "?g r \<in> set (sd_runs ?db)" by (simp add: runs)
      show "\<exists>r' \<in> set (sd_runs db'). rr_id r' = rr_id r \<and> \<not> terminal (rr_status r')" if act: "\<not> terminal (rr_status r)" "rr_id r \<notin> (if terminal status then {rid} else {})"
      proof -
        have active: "\<not> terminal (rr_status (?g r))" using act by (auto simp: patch_run_def)
        from trim_active [OF dist gr this] have "?g r \<in> set (sd_runs db')" unfolding db' .
        then show ?thesis using frame(1) active by blast
      qed
      show "advanced r r'" if r': "r' \<in> set (sd_runs db')" "rr_id r' = rr_id r" for r'
      proof -
        have "r' \<in> set (sd_runs ?db)" using r'(1) trim_set unfolding db' by blast
        moreover have "rr_id r' = rr_id (?g r)" using r'(2) frame(1) by simp
        ultimately have eq: "r' = ?g r" using same_id [OF dist _ gr] by blast
        have "rr_status (?g r) \<in> set (allowedTransitions (rr_status r))" if "rr_id r = rid"
          using only [OF r that] allowed that by (simp add: patch_run_def)
        then show ?thesis using frame(2,3) [of r] unfolding eq advanced_def by auto
      qed
    qed
    ultimately show ?thesis ..
  qed
qed

lemma delete_step:
  assumes ok: "db_ok db" and idle: "\<And>a r. a \<in> set (sd_automations db) \<Longrightarrow> gone a \<Longrightarrow> r \<in> set (sd_runs db) \<Longrightarrow> rr_automationId r = au_id a \<Longrightarrow> terminal (rr_status r)"
  shows "db_ok (delete_automations gone db) \<and> runs_kept ended db (delete_automations gone db)"
proof -
  note D = db_okD [OF ok]
  let ?ids = "au_id ` set (filter gone (sd_automations db))"
  have f: "sd_automations (delete_automations gone db) = filter (\<lambda>a. \<not> gone a) (sd_automations db)" "sd_actions (delete_automations gone db) = sd_actions db"
    "sd_runs (delete_automations gone db) = filter (\<lambda>r. rr_automationId r \<notin> ?ids) (sd_runs db)"
    by (simp_all add: delete_automations_def Let_def)
  have parent: "rr_automationId r \<in> au_id ` set (filter (\<lambda>a. \<not> gone a) (sd_automations db))" if "r \<in> set (sd_runs db)" "rr_automationId r \<notin> ?ids" for r
    using D(6) [OF that(1)] that(2) by auto
  have "length (terminal_runs aid (delete_automations gone db)) \<le> MAX_TERMINAL_RUNS" for aid
    unfolding terminal_runs_def f using length_filter_twice [of _ _ "sd_runs db"] D(7) [of aid] unfolding terminal_runs_def by (meson le_trans)
  then have "db_ok (delete_automations gone db)"
    using D(1-5) parent unfolding db_ok_def f by (simp add: distinct_map_filter')
  moreover have "runs_kept ended db (delete_automations gone db)"
    unfolding runs_kept_def f
  proof (intro ballI conjI impI)
    fix r assume r: "r \<in> set (sd_runs db)"
    show "\<exists>r' \<in> set (filter (\<lambda>r. rr_automationId r \<notin> ?ids) (sd_runs db)). rr_id r' = rr_id r \<and> \<not> terminal (rr_status r')" if "\<not> terminal (rr_status r)"
      using r that idle by auto
    show "advanced r r'" if "r' \<in> set (filter (\<lambda>r. rr_automationId r \<notin> ?ids) (sd_runs db))" "rr_id r' = rr_id r" for r'
    proof -
      have "r' = r" using same_id [OF D(2) _ r] that by simp
      then show ?thesis by (simp add: advanced_def)
    qed
  qed
  ultimately show ?thesis ..
qed

lemma automations_step:
  assumes ok: "db_ok db" and ids: "map au_id as = map au_id (sd_automations db) @ new" "distinct (map au_id as)"
    and acts: "\<forall>a \<in> set as. (au_storyId a, au_actionId a) \<in> set (sd_actions db)"
  shows "db_ok (db\<lparr>sd_automations := as\<rparr>) \<and> runs_kept ended db (db\<lparr>sd_automations := as\<rparr>)"
proof -
  note D = db_okD [OF ok]
  have "au_id ` set (sd_automations db) \<subseteq> au_id ` set as" using arg_cong [OF ids(1), of set] by (simp add: set_map [symmetric] del: set_map)
  then have "db_ok (db\<lparr>sd_automations := as\<rparr>)" using D ids(2) acts by (auto simp: db_ok_def terminal_runs_def)
  then show ?thesis using runs_kept_refl [OF ok, of "db\<lparr>sd_automations := as\<rparr>"] by simp
qed

lemma update_shape:
  assumes u: "automation_update now aid patch expected db = Inr (out, db')" and cur: "automations_get aid db = Some cur"
  shows "\<exists>anchor stamp. \<not> stale (au_updatedAt cur) expected \<and> nextUpdatedAt now (au_updatedAt cur) = Inr stamp
    \<and> automations_update aid (patch_automation patch anchor stamp) db = Inr db' \<and> out = automations_get aid db'"
proof -
  have fresh: "\<not> stale (au_updatedAt cur) expected" using u cur by (auto simp: automation_update_def)
  obtain stamp where stamp: "nextUpdatedAt now (au_updatedAt cur) = Inr stamp" using u cur fresh by (cases "nextUpdatedAt now (au_updatedAt cur)") (auto simp: automation_update_def)
  define anchor where "anchor = (if ap_schedule patch \<noteq> None \<or> (ap_enabled patch = Some True \<and> \<not> au_enabled cur) then Some stamp else None)"
  have "(case automations_update aid (patch_automation patch anchor stamp) db of Inl e \<Rightarrow> Inl e | Inr db \<Rightarrow> Inr (automations_get aid db, db)) = Inr (out, db')"
    using u cur fresh stamp by (simp add: automation_update_def Let_def anchor_def)
  then show ?thesis using fresh stamp by (auto split: sum.splits)
qed

lemma store_step_ok:
  assumes ok: "db_ok db"
  shows "db_ok (store_step db e) \<and> runs_kept (ended_by (snd e)) db (store_step db e)"
proof -
  note D = db_okD [OF ok]
  have refl: "db_ok db \<and> runs_kept x db db" for x using ok runs_kept_refl by blast
  obtain now s where e: "e = (now, s)" by fastforce
  show ?thesis
  proof (cases s)
    case (CreateAutomation newId input)
    obtain a where c: "automation_create newId now input db = (case automations_insert a db of Inl e \<Rightarrow> Inl e | Inr db \<Rightarrow> Inr (a, db))"
      by (simp add: automation_create_def Let_def)
    show ?thesis
    proof (cases "automations_insert a db")
      case (Inl x)
      then show ?thesis using c refl CreateAutomation by (simp add: e store_step_def)
    next
      case (Inr db')
      then have "db' = db\<lparr>sd_automations := sd_automations db @ [a]\<rparr>" "au_id a \<notin> au_id ` set (sd_automations db)" "(au_storyId a, au_actionId a) \<in> set (sd_actions db)"
        by (auto simp: automations_insert_def split: if_splits)
      then show ?thesis using c Inr CreateAutomation automations_step [OF ok, of "sd_automations db @ [a]" "[au_id a]"] D by (simp add: e store_step_def)
    qed
  next
    case (UpdateAutomation aid patch expected)
    have "db' = db \<or> (\<exists>f. (\<forall>a. au_id (f a) = au_id a) \<and> automations_update aid f db = Inr db')" if u: "automation_update now aid patch expected db = Inr (out, db')" for out db'
    proof (cases "automations_get aid db")
      case (Some cur)
      then obtain anchor stamp where "automations_update aid (patch_automation patch anchor stamp) db = Inr db'" using update_shape [OF u] by blast
      then show ?thesis by (intro disjI2 exI [of _ "patch_automation patch anchor stamp"]) (simp add: patch_automation_def)
    qed (use u in \<open>simp add: automation_update_def\<close>)
    moreover have "db_ok db' \<and> runs_kept x db db'" if f: "\<forall>a. au_id (f a) = au_id a" and u: "automations_update aid f db = Inr db'" for f db' x
    proof -
      have db': "db' = db\<lparr>sd_automations := map (\<lambda>a. if au_id a = aid then f a else a) (sd_automations db)\<rparr>"
        and acts: "\<forall>a \<in> set (sd_automations db). au_id a = aid \<longrightarrow> (au_storyId (f a), au_actionId (f a)) \<in> set (sd_actions db)"
        using u by (auto simp: automations_update_def split: if_splits)
      let ?as = "map (\<lambda>a. if au_id a = aid then f a else a) (sd_automations db)"
      have ids: "map au_id ?as = map au_id (sd_automations db)" using f by simp
      show ?thesis unfolding db'
      proof (rule automations_step [OF ok])
        show "map au_id ?as = map au_id (sd_automations db) @ []" unfolding ids by simp
        show "distinct (map au_id ?as)" unfolding ids by (rule D(1))
        show "\<forall>a \<in> set ?as. (au_storyId a, au_actionId a) \<in> set (sd_actions db)" using D(4) acts by auto
      qed
    qed
    ultimately show ?thesis using refl UpdateAutomation by (auto simp: e store_step_def split: sum.splits)
  next
    case (DeleteAutomation aid expected)
    have "db' = db \<or> (db' = delete_automations (\<lambda>a. au_id a = aid) db \<and> (\<forall>r \<in> set (runs_list aid db). terminal (rr_status r)))"
      if "automation_delete aid expected db = Inr (out, db')" for out db'
      using that by (auto simp: automation_delete_def automations_delete_def split: option.splits if_splits)
    then show ?thesis using refl delete_step [OF ok, of "\<lambda>a. au_id a = aid"] DeleteAutomation by (auto simp: e store_step_def split: sum.splits)
  next
    case (DeleteForStory storyId)
    have "db' = delete_automations (\<lambda>a. au_storyId a = storyId) db \<and> (\<forall>r \<in> set (sd_runs db). \<forall>a \<in> set (sd_automations db). au_id a = rr_automationId r \<longrightarrow> au_storyId a = storyId \<longrightarrow> terminal (rr_status r))"
      if "automation_deleteForStory storyId db = Inr db'" for db'
      using that by (auto simp: automation_deleteForStory_def automations_deleteForStory_def runs_activeForStory_def filter_empty_conv split: if_splits)
    then show ?thesis using refl delete_step [OF ok, of "\<lambda>a. au_storyId a = storyId"] DeleteForStory by (auto simp: e store_step_def split: sum.splits)
  next
    case (CreateRun newId input)
    then show ?thesis using refl create_step [OF ok] by (auto simp: e store_step_def split: sum.splits)
  next
    case (Transition rid status sid err)
    show ?thesis
    proof (cases "transition now rid status sid err db")
      case (Inr out)
      obtain r db' where "out = (r, db')" by fastforce
      then show ?thesis using transition_step [OF ok, of now rid status sid err r db'] Inr Transition by (simp add: e store_step_def ended_by_def)
    qed (use refl Transition in \<open>simp add: e store_step_def\<close>)
  qed
qed

interpretation store: step_system store_step db_ok
  by unfold_locales (use store_step_ok in blast)

definition empty_db :: "(string \<times> string) list \<Rightarrow> story_db" where
  "empty_db actions = \<lparr>sd_actions = actions, sd_automations = [], sd_runs = []\<rparr>"

lemma empty_ok: "db_ok (empty_db actions)"
  by (simp add: db_ok_def empty_db_def terminal_runs_def MAX_TERMINAL_RUNS_def)

text \<open>
  Claim C15.
  Runs follow their life cycle: whatever operations are applied to the store, run ids and execution keys stay unique, every run
  belongs to an automation and has the stamps of its status, at most 100 finished runs are kept per automation, an active run is
  never removed, and every operation leaves a run as it is or moves it to a status allowed after its own.
\<close>

theorem runs_follow_lifecycle:
  assumes db: "db = foldl store_step (empty_db actions) es"
  shows "db_ok db \<and> (\<forall>r \<in> set (sd_runs db).
      (\<not> terminal (rr_status r) \<longrightarrow> rr_id r \<notin> ended_by (snd e) \<longrightarrow> (\<exists>r' \<in> set (sd_runs (store_step db e)). rr_id r' = rr_id r \<and> \<not> terminal (rr_status r')))
      \<and> (\<forall>r' \<in> set (sd_runs (store_step db e)). rr_id r' = rr_id r \<longrightarrow>
           rr_executionKey r' = rr_executionKey r \<and> (r' = r \<or> rr_status r' \<in> set (allowedTransitions (rr_status r)))))"
proof -
  have "db_ok db" unfolding db by (rule store.good_run [OF empty_ok])
  then show ?thesis using store_step_ok [of db e] unfolding runs_kept_def advanced_def by blast
qed

lemma active_persists:
  assumes "db_ok db" "r \<in> set (sd_runs db)" "\<not> terminal (rr_status r)" "\<forall>e \<in> set es. rr_id r \<notin> ended_by (snd e)"
  shows "\<exists>r' \<in> set (sd_runs (foldl store_step db es)). rr_id r' = rr_id r \<and> rr_executionKey r' = rr_executionKey r"
  using assms
proof (induction es arbitrary: db r)
  case (Cons e es)
  have step: "db_ok (store_step db e)" "runs_kept (ended_by (snd e)) db (store_step db e)" using store_step_ok [OF Cons.prems(1)] by blast+
  then obtain r' where r': "r' \<in> set (sd_runs (store_step db e))" "rr_id r' = rr_id r" "\<not> terminal (rr_status r')"
    using Cons.prems(2-4) unfolding runs_kept_def by force
  have "rr_executionKey r' = rr_executionKey r" using step(2) Cons.prems(2) r'(1,2) unfolding runs_kept_def advanced_def by blast
  then show ?case using Cons.IH [OF step(1) r'(1,3)] Cons.prems(4) r'(2) by auto
qed auto

lemma created_in:
  assumes ok: "db_ok db" and c: "createRun newId now input db = Inr (r, db')"
  shows "r \<in> set (sd_runs db') \<and> rr_executionKey r = ri_executionKey input"
proof (cases "runs_byExecutionKey (ri_executionKey input) db")
  case (Some x)
  then show ?thesis using c by (auto simp: createRun_def runs_byExecutionKey_def dest: find_SomeD)
next
  case None
  let ?r = "new_run newId now input" and ?db = "db\<lparr>sd_runs := sd_runs db @ [new_run newId now input]\<rparr>"
  have r: "r = ?r" "db' = runs_trimTerminal (ri_automationId input) MAX_TERMINAL_RUNS ?db" "rr_id ?r \<notin> rr_id ` set (sd_runs db)"
    using c None by (auto simp: createRun_def runs_insert_def split: if_splits)
  have "?r \<in> set (sd_runs db')" unfolding r(2)
    by (rule trim_active) (use r(3) db_okD(2) [OF ok] in \<open>auto simp: new_run_def terminal_def\<close>)
  then show ?thesis by (simp add: r(1) new_run_def)
qed

text \<open>
  Claim C30.
  A slot of a schedule and a manual request run once: as long as the run created for an execution key has not ended, every later
  request with that key returns this run and changes nothing, whatever other operations happened in between.
\<close>

theorem executions_are_idempotent:
  assumes "createRun newId now input (foldl store_step (empty_db actions) es) = Inr (r, db)" "\<not> terminal (rr_status r)"
    and "\<forall>e \<in> set es'. rr_id r \<notin> ended_by (snd e)" "ri_executionKey input' = ri_executionKey input"
  shows "\<exists>r'. rr_id r' = rr_id r \<and> createRun newId' now' input' (foldl store_step db es') = Inr (r', foldl store_step db es')"
proof -
  have ok: "db_ok (foldl store_step (empty_db actions) es)" by (rule store.good_run [OF empty_ok])
  have db: "db_ok db" using create_step [OF ok assms(1)] by blast
  have r: "r \<in> set (sd_runs db)" "rr_executionKey r = ri_executionKey input" using created_in [OF ok assms(1)] by blast+
  obtain r' where r': "r' \<in> set (sd_runs (foldl store_step db es'))" "rr_id r' = rr_id r" "rr_executionKey r' = rr_executionKey r"
    using active_persists [OF db r(1) assms(2,3)] by blast
  have "db_ok (foldl store_step db es')" by (rule store.good_run [OF db])
  then have "runs_byExecutionKey (ri_executionKey input') (foldl store_step db es') = Some r'"
    unfolding runs_byExecutionKey_def using r r' assms(4) db_okD(3) by (intro find_unique) auto
  then show ?thesis using r'(2) by (simp add: createRun_def)
qed

text \<open>An automation with a run that is queued, dispatched and requested again.\<close>

definition sample_execution :: execution_input where
  "sample_execution = \<lparr>ei_storyId = ''s'', ei_actionId = ''x'', ei_targetInstanceId = ''i'', ei_prompt = ''p'', ei_sessionPreset = None, ei_cwd = ''/w''\<rparr>"

definition sample_request :: run_input where
  "sample_request = \<lparr>ri_automationId = ''a'', ri_eventType = ManualRun, ri_scheduledFor = ''2026-01-01T00:00:00.000Z'', ri_executionKey = ''k'',
     ri_requestFingerprint = ''f'', ri_executionInput = sample_execution\<rparr>"

definition sample_setup :: "(int \<times> store_step) list" where
  "sample_setup = [(0, CreateAutomation ''a'' \<lparr>in_storyId = ''s'', in_actionId = ''x'', in_schedule = IntervalSchedule 60000, in_enabled = True,
     in_policy = one_at_a_time\<rparr>)]"

lemma sample_created:
  "\<exists>r db. createRun ''r1'' 1 sample_request (foldl store_step (empty_db [(''s'', ''x'')]) sample_setup) = Inr (r, db) \<and> rr_id r = ''r1'' \<and> rr_status r = RunQueued"
  by (simp add: sample_setup_def store_step_def automation_create_def automations_insert_def empty_db_def createRun_def runs_byExecutionKey_def
      runs_insert_def sample_request_def new_run_def Let_def)

theorem runs_follow_lifecycle_witness:
  "\<exists>db. db = foldl store_step (empty_db [(''s'', ''x'')]) (sample_setup @ [(1, CreateRun ''r1'' sample_request)]) \<and> db_ok db \<and> sd_runs db \<noteq> []"
proof -
  let ?db = "foldl store_step (empty_db [(''s'', ''x'')]) (sample_setup @ [(1, CreateRun ''r1'' sample_request)])"
  have "db_ok ?db" using runs_follow_lifecycle [OF refl] by blast
  moreover have "sd_runs ?db \<noteq> []"
    using created_in [of "foldl store_step (empty_db [(''s'', ''x'')]) sample_setup" "''r1''" 1 sample_request] store.good_run [OF empty_ok] sample_created
    by (fastforce simp: store_step_def)
  ultimately show ?thesis by blast
qed

theorem executions_are_idempotent_witness:
  "\<exists>r db. createRun ''r1'' 1 sample_request (foldl store_step (empty_db [(''s'', ''x'')]) sample_setup) = Inr (r, db)
     \<and> (\<exists>r'. rr_id r' = ''r1'' \<and> createRun ''r2'' 5 sample_request (foldl store_step db [(2, Transition ''r1'' RunDispatching None None)])
          = Inr (r', foldl store_step db [(2, Transition ''r1'' RunDispatching None None)]))"
proof -
  obtain r db where c: "createRun ''r1'' 1 sample_request (foldl store_step (empty_db [(''s'', ''x'')]) sample_setup) = Inr (r, db)"
    and r: "rr_id r = ''r1''" "rr_status r = RunQueued" using sample_created by (elim exE conjE)
  have "\<not> terminal (rr_status r)" "\<forall>e \<in> set [(2, Transition ''r1'' RunDispatching None None)]. rr_id r \<notin> ended_by (snd e)"
    by (simp_all add: r terminal_def ended_by_def)
  from executions_are_idempotent [OF c this refl, of "''r2''" 5] show ?thesis using c r(1) by auto
qed

end
