(* ===== verification/Scheduler_Time.thy ===== *)
theory Scheduler_Time
  imports Js_Date
begin

text \<open>
  When a schedule is due next (\<^verbatim>\<open>nextSchedulerTime\<close> of \<^verbatim>\<open>packages/core/src/core/scheduler-runtime.ts\<close>). Two functions of other code are
  parameters: \<open>cron pattern timezone now\<close> is the time that \<^verbatim>\<open>next()\<close> of the parsed cron pattern returns, and \<open>zone timezone t\<close> the
  year, month (from 0) and day of a time in a time zone, which \<^verbatim>\<open>Intl.DateTimeFormat\<close> gives. Times are in milliseconds.
\<close>

section \<open>Schedules\<close>

datatype scheduler_schedule =
    Interval int
  | Daily string string
  | Weekly "int list" string string
  | Monthly int string string

type_synonym cron = "string \<Rightarrow> string \<Rightarrow> int \<Rightarrow> int"
type_synonym zone = "string \<Rightarrow> int \<Rightarrow> int \<times> nat \<times> nat"

text \<open>A number in a template string.\<close>

fun decimal :: "nat \<Rightarrow> string" where
  "decimal n = (if n < 10 then [digit n] else decimal (n div 10) @ [digit (n mod 10)])"

declare decimal.simps [simp del]

definition decimal_int :: "int \<Rightarrow> string" where
  "decimal_int i = (if i < 0 then CHR ''-'' # decimal (nat (- i)) else decimal (nat i))"

text \<open>\<^verbatim>\<open>timeOfDay.split(":").map(Number)\<close> on two numbers.\<close>

definition hour_minute :: "string \<Rightarrow> nat \<times> nat" where
  "hour_minute s = (num_val (takeWhile (\<lambda>c. c \<noteq> CHR '':'') s), num_val (takeWhile (\<lambda>c. c \<noteq> CHR '':'') (drop 1 (dropWhile (\<lambda>c. c \<noteq> CHR '':'') s))))"

fun join_commas :: "string list \<Rightarrow> string" where
  "join_commas [] = []"
| "join_commas [w] = w"
| "join_commas (w # ws) = w @ '','' @ join_commas ws"

definition cron_pattern :: "nat \<Rightarrow> nat \<Rightarrow> string \<Rightarrow> string \<Rightarrow> string \<Rightarrow> string" where
  "cron_pattern minute hour day month weekday = ''0 '' @ decimal minute @ '' '' @ decimal hour @ '' '' @ day @ '' '' @ month @ '' '' @ weekday"

section \<open>Days counted from the end of the month\<close>

definition daysInMonth :: "int \<Rightarrow> nat \<Rightarrow> int" where
  "daysInMonth year month = month_start (leap_year year) (month + 1) - month_start (leap_year year) month"

definition monthlyCronTime :: "cron \<Rightarrow> int \<Rightarrow> nat \<Rightarrow> nat \<Rightarrow> nat \<Rightarrow> string \<Rightarrow> int \<Rightarrow> int" where
  "monthlyCronTime cron dayOfMonth month hour minute timezone now =
     cron (cron_pattern minute hour (decimal_int dayOfMonth) (decimal month) ''*'') timezone now"

text \<open>The candidate for the month that lies \<open>offset\<close> months after the current one.\<close>

definition monthly_candidate :: "cron \<Rightarrow> zone \<Rightarrow> int \<Rightarrow> nat \<Rightarrow> nat \<Rightarrow> string \<Rightarrow> int \<Rightarrow> nat \<Rightarrow> int" where
  "monthly_candidate cron zone dayOfMonth hour minute timezone now offset =
     (let (y, m, _) = zone timezone now;
          year = y + int ((m + offset) div 12);
          month = (m + offset) mod 12;
          actualDay = daysInMonth year month + dayOfMonth + 1
      in monthlyCronTime cron actualDay (month + 1) hour minute timezone now)"

definition nextRelativeMonthlyTime :: "cron \<Rightarrow> zone \<Rightarrow> int \<Rightarrow> nat \<Rightarrow> nat \<Rightarrow> string \<Rightarrow> int \<Rightarrow> int" where
  "nextRelativeMonthlyTime cron zone dayOfMonth hour minute timezone now =
     hd (sort (map (monthly_candidate cron zone dayOfMonth hour minute timezone now) [0..<12]))"

section \<open>The next time\<close>

definition nextSchedulerTime :: "cron \<Rightarrow> zone \<Rightarrow> scheduler_schedule \<Rightarrow> int \<Rightarrow> int \<Rightarrow> int" where
  "nextSchedulerTime cron zone schedule now anchor =
     (case schedule of
        Interval intervalMs \<Rightarrow>
          let elapsed = max 0 (now - anchor);
              slots = elapsed div intervalMs + 1
          in anchor + slots * intervalMs
      | Daily timeOfDay timezone \<Rightarrow>
          let (hour, minute) = hour_minute timeOfDay in cron (cron_pattern minute hour ''*'' ''*'' ''*'') timezone now
      | Weekly weekdays timeOfDay timezone \<Rightarrow>
          let (hour, minute) = hour_minute timeOfDay
          in cron (cron_pattern minute hour ''*'' ''*'' (join_commas (map decimal_int (sort (remdups weekdays))))) timezone now
      | Monthly dayOfMonth timeOfDay timezone \<Rightarrow>
          let (hour, minute) = hour_minute timeOfDay
          in if dayOfMonth < 0 then nextRelativeMonthlyTime cron zone dayOfMonth hour minute timezone now
             else cron (cron_pattern minute hour (decimal_int dayOfMonth) ''*'' ''*'') timezone now)"

section \<open>The next time is in the future\<close>

lemma hd_sort_Min: "xs \<noteq> [] \<Longrightarrow> hd (sort xs) = Min (set xs)" for xs :: "int list"
proof (cases "sort xs")
  case Nil
  have "set (sort xs) = {}" unfolding Nil by simp
  moreover assume "xs \<noteq> []"
  ultimately show ?thesis by simp
next
  case (Cons y ys)
  have "sorted (y # ys)" "set (y # ys) = set xs" unfolding Cons [symmetric] by simp_all
  then have "Min (set xs) = y" by (intro Min_eqI) auto
  then show ?thesis by (simp add: Cons)
qed

lemma interval_slot:
  assumes "0 < i"
  shows "\<exists>k \<ge> 1. nextSchedulerTime cron zone (Interval i) now anchor = anchor + k * i"
    "now < nextSchedulerTime cron zone (Interval i) now anchor"
    "\<lbrakk>1 \<le> k; now < anchor + k * i\<rbrakk> \<Longrightarrow> nextSchedulerTime cron zone (Interval i) now anchor \<le> anchor + k * i"
proof -
  define e where "e = max 0 (now - anchor)"
  define q where "q = e div i"
  have n: "nextSchedulerTime cron zone (Interval i) now anchor = anchor + (q + 1) * i"
    by (simp add: nextSchedulerTime_def Let_def e_def q_def)
  have q: "0 \<le> q" using assms by (simp add: q_def e_def pos_imp_zdiv_nonneg_iff)
  have dm: "e = q * i + e mod i" "e mod i < i" "0 \<le> e mod i" using assms by (simp_all add: q_def)
  show "\<exists>k \<ge> 1. nextSchedulerTime cron zone (Interval i) now anchor = anchor + k * i" using n q by (intro exI [of _ "q + 1"]) simp
  have "now - anchor \<le> e" by (simp add: e_def)
  then show "now < nextSchedulerTime cron zone (Interval i) now anchor" unfolding n using dm by (simp add: distrib_right)
  assume k: "1 \<le> k" "now < anchor + k * i"
  have "q < k"
  proof (cases "anchor \<le> now")
    case True
    then have "e = now - anchor" by (simp add: e_def)
    then have "q * i < k * i" using k(2) dm by linarith
    then show ?thesis using assms by simp
  next
    case False
    then show ?thesis using k(1) by (simp add: q_def e_def)
  qed
  then have "(q + 1) * i \<le> k * i" using assms by (intro mult_right_mono) simp_all
  then show "nextSchedulerTime cron zone (Interval i) now anchor \<le> anchor + k * i" by (simp add: n)
qed

text \<open>The month that lies \<open>k\<close> months after a month, and the day of it that \<open>d\<close>, from -1 for the last one, counts from its end.\<close>

definition month_after :: "int \<Rightarrow> nat \<Rightarrow> nat \<Rightarrow> int \<times> nat" where
  "month_after y m k = ((12 * y + int m + int k) div 12, nat ((12 * y + int m + int k) mod 12))"

definition day_from_end :: "int \<Rightarrow> int \<times> nat \<Rightarrow> int" where
  "day_from_end d ym = daysInMonth (fst ym) (snd ym) + d + 1"

lemma days_in_month_bounds: "month < 12 \<Longrightarrow> 28 \<le> daysInMonth year month \<and> daysInMonth year month \<le> 31"
  by (cases "leap_year year"; auto simp: daysInMonth_def month_start_def less_Suc_eq numeral_eq_Suc)

lemma month_after_split: "month_after y m k = (y + int ((m + k) div 12), (m + k) mod 12)"
proof -
  have e: "12 * y + int m + int k = int (m + k) + y * 12" by simp
  show ?thesis unfolding month_after_def e div_mult_self1 [OF zero_neq_numeral [symmetric]] mod_mult_self1
    by (simp add: zdiv_int zmod_int nat_mod_distrib nat_int_add)
qed

lemma candidate_asks:
  "zone tz now = (y, m, dd) \<Longrightarrow> monthly_candidate cron zone d h mi tz now k
     = cron (cron_pattern mi h (decimal_int (day_from_end d (month_after y m k))) (decimal (snd (month_after y m k) + 1)) ''*'') tz now"
  by (simp add: monthly_candidate_def monthlyCronTime_def day_from_end_def month_after_split Let_def)

text \<open>
  Claim C38.
  An interval schedule is due next at the first time after now that lies a positive multiple of the interval after its anchor,
  also when the clock was set back before the anchor. A monthly schedule that counts its day from the end of the month, as the schema allows for the last three
  days, asks the cron library for that day of each of the twelve months from the current one on, with the length that the month has in its
  year, so that the day exists; it is due at the earliest of the twelve answers.
\<close>

theorem next_time_is_next_slot:
  assumes "0 < i" and "zone tz now = (y, m, dd)" and "d \<in> {-3..-1}" and "hour_minute tod = (h, mi)"
    and asked: "asked = (\<lambda>k. cron (cron_pattern mi h (decimal_int (day_from_end d (month_after y m k))) (decimal (snd (month_after y m k) + 1)) ''*'') tz now)"
  shows "now < nextSchedulerTime cron zone (Interval i) now anchor
    \<and> (\<exists>k \<ge> 1. nextSchedulerTime cron zone (Interval i) now anchor = anchor + k * i)
    \<and> (\<forall>k \<ge> 1. now < anchor + k * i \<longrightarrow> nextSchedulerTime cron zone (Interval i) now anchor \<le> anchor + k * i)
    \<and> nextSchedulerTime cron zone (Monthly d tod tz) now anchor = Min (asked ` {0..<12})
    \<and> (\<forall>k. 26 \<le> day_from_end d (month_after y m k) \<and> day_from_end d (month_after y m k) \<le> daysInMonth (fst (month_after y m k)) (snd (month_after y m k)))"
proof -
  have e: "monthly_candidate cron zone d h mi tz now = asked" unfolding asked by (rule ext) (simp add: candidate_asks [of zone tz now y m dd cron d h mi] assms(2))
  have "nextRelativeMonthlyTime cron zone d h mi tz now = Min (asked ` {0..<12})"
    using hd_sort_Min [of "map asked [0..<12]"] by (simp add: nextRelativeMonthlyTime_def e)
  then have "nextSchedulerTime cron zone (Monthly d tod tz) now anchor = Min (asked ` {0..<12})"
    using assms(3,4) by (simp add: nextSchedulerTime_def)
  moreover have "26 \<le> day_from_end d (month_after y m k) \<and> day_from_end d (month_after y m k) \<le> daysInMonth (fst (month_after y m k)) (snd (month_after y m k))" for k
    using assms(3) days_in_month_bounds [of "snd (month_after y m k)" "fst (month_after y m k)"] by (simp add: day_from_end_def month_after_split)
  ultimately show ?thesis using interval_slot [OF assms(1), where cron = cron and zone = zone and now = now and anchor = anchor] by blast
qed

text \<open>
  On 31 January 2028 the second last day of the month has passed, and the next one is the 28th of February, which has 29 days that year. The
  answers of the library are days of the year 2028, those for later months somewhere after.
\<close>

definition sample_cron :: cron where
  "sample_cron pattern timezone now =
     (if pattern = ''0 30 9 30 1 *'' then 366 + 29 else if pattern = ''0 30 9 28 2 *'' then 58 else 100 + int (length pattern))"

theorem next_time_is_next_slot_witness:
  "nextSchedulerTime sample_cron (\<lambda>_ _. (2028, 0, 31)) (Interval 60000) 150000 1000 = 181000
    \<and> (150000 :: int) < nextSchedulerTime sample_cron (\<lambda>_ _. (2028, 0, 31)) (Interval 60000) 150000 1000
    \<and> nextSchedulerTime sample_cron (\<lambda>_ _. (2028, 0, 31)) (Monthly (-2) ''09:30'' ''UTC'') 150000 1000 = 58"
proof -
  let ?asked = "\<lambda>k. sample_cron (cron_pattern 30 9 (decimal_int (day_from_end (-2) (month_after 2028 0 k))) (decimal (snd (month_after 2028 0 k) + 1)) ''*'') ''UTC'' 150000"
  have "hour_minute ''09:30'' = (9, 30)" by code_simp
  moreover have "Min (?asked ` {0..<12}) = 58" by code_simp
  moreover have "nextSchedulerTime sample_cron (\<lambda>_ _. (2028, 0, 31)) (Interval 60000) 150000 1000 = 181000" by code_simp
  ultimately show ?thesis
    using next_time_is_next_slot [of 60000 "\<lambda>_ _. (2028, 0, 31)" "''UTC''" 150000 2028 0 31 "-2" "''09:30''" 9 30 ?asked sample_cron 1000] by simp
qed

end
