(* ===== verification/Story_Scheduler.thy ===== *)
theory Story_Scheduler
  imports Story_Automations Scheduler_Time
begin

text \<open>
  The story scheduler (\<^verbatim>\<open>packages/node-agent/src/stories/scheduler.ts\<close>) over the automation store and the scheduler runtime. The
  asynchronous functions that change runs are split at their awaits: an execution (\<^verbatim>\<open>executeRun\<close>) and a reconciliation
  (\<^verbatim>\<open>reconcileInstances\<close>) are records with a position, a call of \<^verbatim>\<open>prepareRun\<close> that has resolved its action is an entry of
  \<open>sc_calls\<close>, and one step is a transaction of the store or an answer of the instance together with the code up to the next
  await. The operations on automations (\<^verbatim>\<open>create\<close>, \<^verbatim>\<open>update\<close>, \<^verbatim>\<open>delete\<close>, \<^verbatim>\<open>refresh\<close>, \<^verbatim>\<open>clearStory\<close>, \<^verbatim>\<open>start\<close>, \<^verbatim>\<open>stop\<close>) and
  \<^verbatim>\<open>skipRun\<close> are one step each. \<open>sc_completion\<close> is the map of completion entries that are not resolved; published events are not
  part of the state. What the story's actions resolve to, the cron library, the time zones and the hash functions are the
  environment of a step.
\<close>

section \<open>State\<close>

datatype dispatch_answer = DispatchCreated string | DispatchRetryable | DispatchError run_error

datatype exec_pc =
    PcStart
  | PcToDispatching
  | PcDispatch
  | PcToRunning string
  | PcPublish
  | PcToFailed run_error
  | PcWait

record execution =
  ex_automationId :: string
  ex_runId :: string
  ex_pc :: exec_pc

text \<open>A reconciliation: the runs it still has to look at, and the one whose transition it awaits.\<close>

record reconciliation =
  rc_instanceId :: "string option"
  rc_runs :: "run_row list"
  rc_ended :: "string option"

record story_scheduler =
  sc_db :: story_db
  sc_runtime :: "string scheduler"
  sc_nextRunAt :: "(string, string) jmap"
  sc_registered :: "string list"
  sc_timerCount :: nat
  sc_completion :: "string list"
  sc_calls :: "(automation_row \<times> run_input) list"
  sc_executions :: "execution list"
  sc_reconciliations :: "reconciliation list"

text \<open>
  \<open>en_resolve\<close> is what \<^verbatim>\<open>actionExecution.resolve\<close> answers for an automation, \<open>en_fingerprint\<close> the hash of the request of an
  execution input and key, \<open>en_executionKey\<close> the hash of \<^verbatim>\<open>schedulerExecutionKey\<close>.
\<close>

record sched_env =
  en_resolve :: "automation_row \<Rightarrow> run_error + execution_input"
  en_fingerprint :: "execution_input \<Rightarrow> string \<Rightarrow> string"
  en_executionKey :: "string \<Rightarrow> string \<Rightarrow> string \<Rightarrow> string"
  en_cron :: cron
  en_zone :: zone

section \<open>Executing a run\<close>

definition completionFor :: "string \<Rightarrow> story_scheduler \<Rightarrow> story_scheduler" where
  "completionFor rid s = (if rid \<in> set (sc_completion s) then s else s\<lparr>sc_completion := sc_completion s @ [rid]\<rparr>)"

definition resolveCompletion :: "string \<Rightarrow> story_scheduler \<Rightarrow> story_scheduler" where
  "resolveCompletion rid s = s\<lparr>sc_completion := filter (\<lambda>r. r \<noteq> rid) (sc_completion s)\<rparr>"

definition move_to :: "nat \<Rightarrow> exec_pc \<Rightarrow> story_scheduler \<Rightarrow> story_scheduler" where
  "move_to n pc s = s\<lparr>sc_executions := (sc_executions s)[n := (sc_executions s ! n)\<lparr>ex_pc := pc\<rparr>]\<rparr>"

definition drop_nth :: "nat \<Rightarrow> 'a list \<Rightarrow> 'a list" where
  "drop_nth n xs = take n xs @ drop (Suc n) xs"

text \<open>The runtime calls \<^verbatim>\<open>execute\<close> for the events it starts: new entries of \<open>rt_started\<close> become executions.\<close>

definition with_runtime :: "string scheduler \<Rightarrow> story_scheduler \<Rightarrow> story_scheduler" where
  "with_runtime rt s = s\<lparr>sc_runtime := rt,
     sc_executions := sc_executions s @ map (\<lambda>(key, rid). \<lparr>ex_automationId = key, ex_runId = rid, ex_pc = PcStart\<rparr>)
       (drop (length (rt_started (sc_runtime s))) (rt_started rt))\<rparr>"

definition end_execution :: "int \<Rightarrow> nat \<Rightarrow> story_scheduler \<Rightarrow> story_scheduler" where
  "end_execution now n s =
     (let x = sc_executions s ! n
      in with_runtime (finish_run now (ex_automationId x) (ex_runId x) (sc_runtime s)) (s\<lparr>sc_executions := drop_nth n (sc_executions s)\<rparr>))"

definition run_transition :: "int \<Rightarrow> nat \<Rightarrow> run_status \<Rightarrow> string option \<Rightarrow> run_error option \<Rightarrow> (story_scheduler \<Rightarrow> story_scheduler)
    \<Rightarrow> (automation_error \<Rightarrow> story_scheduler \<Rightarrow> story_scheduler) \<Rightarrow> story_scheduler \<Rightarrow> story_scheduler" where
  "run_transition now n status sid err ok failed s =
     (case transition now (ex_runId (sc_executions s ! n)) status sid err (sc_db s) of
        Inl e \<Rightarrow> failed e s
      | Inr (_, db) \<Rightarrow> ok (s\<lparr>sc_db := db\<rparr>))"

definition status_text :: "run_status \<Rightarrow> string" where
  "status_text st = (case st of RunQueued \<Rightarrow> ''queued'' | RunDispatching \<Rightarrow> ''dispatching'' | RunRunning \<Rightarrow> ''running''
     | RunCompleted \<Rightarrow> ''completed'' | RunFailed \<Rightarrow> ''failed'' | RunSkipped \<Rightarrow> ''skipped'')"

text \<open>\<^verbatim>\<open>errorProjection\<close> of the errors of \<^verbatim>\<open>transition\<close>; the last case does not occur there.\<close>

definition errorProjection :: "automation_error \<Rightarrow> run_error" where
  "errorProjection e = (case e of
       AutomationRunNotFound \<Rightarrow> \<lparr>re_code = ''STORY_AUTOMATION_RUN_NOT_FOUND'', re_message = ''Automation run was not found.''\<rparr>
     | AutomationRunTransitionInvalid a b \<Rightarrow> \<lparr>re_code = ''STORY_AUTOMATION_RUN_TRANSITION_INVALID'',
         re_message = ''Cannot transition run from '' @ status_text a @ '' to '' @ status_text b @ ''.''\<rparr>
     | _ \<Rightarrow> \<lparr>re_code = ''STORY_AUTOMATION_FAILED'', re_message = []\<rparr>)"

text \<open>One step of \<^verbatim>\<open>executeRun\<close>; the answer is used only where the execution awaits the instance.\<close>

definition execution_step :: "int \<Rightarrow> dispatch_answer \<Rightarrow> nat \<Rightarrow> story_scheduler \<Rightarrow> story_scheduler" where
  "execution_step now answer n s =
     (let x = sc_executions s ! n; rid = ex_runId x in
      case ex_pc x of
        PcStart \<Rightarrow>
          (case List.find (\<lambda>r. rr_id r = rid) (runs_pending (sc_db s)) of
             None \<Rightarrow> end_execution now n s
           | Some r \<Rightarrow>
               if rr_status r = RunQueued then move_to n PcToDispatching s
               else if rr_status r = RunDispatching then move_to n PcDispatch s
               else move_to n PcWait (completionFor rid s))
      | PcToDispatching \<Rightarrow> run_transition now n RunDispatching None None (move_to n PcDispatch) (\<lambda>_. end_execution now n) s
      | PcDispatch \<Rightarrow>
          (case answer of
             DispatchCreated sid \<Rightarrow> move_to n (PcToRunning sid) s
           | DispatchRetryable \<Rightarrow> end_execution now n s
           | DispatchError e \<Rightarrow> move_to n (PcToFailed e) s)
      | PcToRunning sid \<Rightarrow> run_transition now n RunRunning (Some sid) None (move_to n PcPublish) (\<lambda>e. move_to n (PcToFailed (errorProjection e))) s
      | PcPublish \<Rightarrow> move_to n PcWait (completionFor rid s)
      | PcToFailed e \<Rightarrow> run_transition now n RunFailed None (Some e) (end_execution now n) (\<lambda>_. end_execution now n) s
      | PcWait \<Rightarrow> if rid \<in> set (sc_completion s) then s else end_execution now n s)"

section \<open>Submitting and skipping runs\<close>

definition skip_code :: "skip_reason \<Rightarrow> string" where
  "skip_code reason = ''STORY_AUTOMATION_'' @ (case reason of SkipCooldown \<Rightarrow> ''COOLDOWN'' | SkipBusy \<Rightarrow> ''BUSY'' | SkipQueueFull \<Rightarrow> ''QUEUE_FULL''
     | SkipSchedulerStopped \<Rightarrow> ''SCHEDULER_STOPPED'' | SkipJobDisabled \<Rightarrow> ''JOB_DISABLED'')"

definition skipMessage :: "skip_reason \<Rightarrow> string" where
  "skipMessage reason = (case reason of
       SkipCooldown \<Rightarrow> ''Skipped by cooldown policy.''
     | SkipBusy \<Rightarrow> ''Skipped because the concurrency limit was reached.''
     | SkipQueueFull \<Rightarrow> ''Skipped because the queue is full.''
     | SkipSchedulerStopped \<Rightarrow> ''Skipped because the scheduler stopped.''
     | SkipJobDisabled \<Rightarrow> ''Skipped because the Automation was disabled or blocked.'')"

definition skipRun :: "int \<Rightarrow> string \<Rightarrow> skip_reason \<Rightarrow> story_scheduler \<Rightarrow> story_scheduler" where
  "skipRun now rid reason s =
     (case runs_get rid (sc_db s) of
        None \<Rightarrow> s
      | Some r \<Rightarrow>
          if rr_status r \<noteq> RunQueued then s
          else case transition now rid RunSkipped None (Some \<lparr>re_code = skip_code reason, re_message = skipMessage reason\<rparr>) (sc_db s) of
                 Inl _ \<Rightarrow> s
               | Inr (_, db) \<Rightarrow> s\<lparr>sc_db := db\<rparr>)"

text \<open>A call of the runtime: it starts executions and has the runs skipped that it skips.\<close>

definition runtime_call :: "int \<Rightarrow> (string scheduler \<Rightarrow> string scheduler) \<Rightarrow> story_scheduler \<Rightarrow> story_scheduler" where
  "runtime_call now f s =
     fold (\<lambda>(rid, reason). skipRun now rid reason) (drop (length (rt_skipped (sc_runtime s))) (rt_skipped (f (sc_runtime s))))
       (with_runtime (f (sc_runtime s)) s)"

definition submit_run :: "int \<Rightarrow> automation_row \<Rightarrow> string \<Rightarrow> story_scheduler \<Rightarrow> story_scheduler" where
  "submit_run now a rid = runtime_call now (\<lambda>rt. snd (submit now (au_id a) rid (au_policy a) rt))"

definition resume :: "int \<Rightarrow> run_row \<Rightarrow> story_scheduler \<Rightarrow> story_scheduler" where
  "resume now r s = (case automations_get (rr_automationId r) (sc_db s) of None \<Rightarrow> s | Some a \<Rightarrow> submit_run now a (rr_id r) s)"

section \<open>Registering automations\<close>

definition internalSchedule :: "automation_row \<Rightarrow> scheduler_schedule" where
  "internalSchedule a =
     (case au_schedule a of
        IntervalSchedule intervalMs \<Rightarrow> Interval intervalMs
      | DailySchedule timeOfDay timezone \<Rightarrow> Daily timeOfDay timezone
      | WeeklySchedule weekdays timeOfDay timezone \<Rightarrow> Weekly weekdays timeOfDay timezone
      | MonthlySchedule dayOfMonth timeOfDay timezone \<Rightarrow> Monthly dayOfMonth timeOfDay timezone)"

definition blocking_codes :: "string list" where
  "blocking_codes = [''STORY_ARCHIVED'', ''STORY_DELETING'', ''STORY_NOT_FOUND'', ''STORY_ACTION_NOT_FOUND'', ''STORY_ACTION_TARGET_REQUIRED'',
     ''NODE_INSTANCE_NOT_FOUND'', ''STORY_NODE_MISMATCH'']"

definition blockedReason :: "sched_env \<Rightarrow> automation_row \<Rightarrow> run_error option" where
  "blockedReason env a = (case en_resolve env a of Inr _ \<Rightarrow> None | Inl e \<Rightarrow> if re_code e \<in> set blocking_codes then Some e else None)"

definition register :: "sched_env \<Rightarrow> int \<Rightarrow> automation_row \<Rightarrow> story_scheduler \<Rightarrow> story_scheduler" where
  "register env now a s =
     (if \<not> au_enabled a \<or> blockedReason env a \<noteq> None then s
      else case automations_get (au_id a) (sc_db s) of
             None \<Rightarrow> s
           | Some stored \<Rightarrow>
               (case date_parse (au_scheduleAnchorAt stored) of
                  None \<Rightarrow> s
                | Some anchor \<Rightarrow>
                    let next = nextSchedulerTime (en_cron env) (en_zone env) (internalSchedule a) now anchor
                    in s\<lparr>sc_nextRunAt := jmap_set (au_id a) (to_iso next) (sc_nextRunAt s),
                         sc_registered := (if au_id a \<in> set (sc_registered s) then sc_registered s else sc_registered s @ [au_id a]),
                         sc_timerCount := Suc (sc_timerCount s),
                         sc_runtime := setTimer (au_id a) (sc_timerCount s) (sc_runtime s)\<rparr>))"

definition clear_timer :: "string \<Rightarrow> story_scheduler \<Rightarrow> story_scheduler" where
  "clear_timer aid s = s\<lparr>sc_runtime := clearTimer aid (sc_runtime s)\<rparr>"

definition clear_queued :: "int \<Rightarrow> string \<Rightarrow> story_scheduler \<Rightarrow> story_scheduler" where
  "clear_queued now aid = runtime_call now (clearQueued aid SkipJobDisabled)"

definition refresh :: "sched_env \<Rightarrow> int \<Rightarrow> story_scheduler \<Rightarrow> story_scheduler" where
  "refresh env now s =
     (let s = fold clear_timer (sc_registered s) s;
          s = s\<lparr>sc_registered := [], sc_nextRunAt := []\<rparr>
      in fold (\<lambda>a s. register env now a (if \<not> au_enabled a \<or> blockedReason env a \<noteq> None then clear_queued now (au_id a) s else s))
           (automations_list None (sc_db s)) s)"

definition clearStory :: "int \<Rightarrow> string \<Rightarrow> story_scheduler \<Rightarrow> story_scheduler" where
  "clearStory now storyId s =
     fold (\<lambda>a s. let s = clear_queued now (au_id a) (clear_timer (au_id a) s)
                 in s\<lparr>sc_registered := filter (\<lambda>i. i \<noteq> au_id a) (sc_registered s), sc_nextRunAt := jmap_delete (au_id a) (sc_nextRunAt s)\<rparr>)
       (automations_list (Some storyId) (sc_db s)) s"

section \<open>Operations on automations\<close>

datatype scheduler_error = AutomationNotFound | ActionError run_error | StoreError automation_error

definition create_scheduled :: "sched_env \<Rightarrow> string \<Rightarrow> int \<Rightarrow> automation_input \<Rightarrow> story_scheduler \<Rightarrow> (scheduler_error + automation_row) \<times> story_scheduler" where
  "create_scheduled env newId now input s =
     (case en_resolve env \<lparr>au_id = ''validation'', au_storyId = in_storyId input, au_actionId = in_actionId input, au_schedule = in_schedule input,
          au_enabled = in_enabled input, au_policy = in_policy input, au_scheduleAnchorAt = [], au_createdAt = to_iso now, au_updatedAt = to_iso now\<rparr> of
        Inl e \<Rightarrow> (Inl (ActionError e), s)
      | Inr _ \<Rightarrow>
          (case automation_create newId now input (sc_db s) of
             Inl e \<Rightarrow> (Inl (StoreError e), s)
           | Inr (a, db) \<Rightarrow> (Inr a, register env now a (s\<lparr>sc_db := db\<rparr>))))"

definition activateCreated :: "sched_env \<Rightarrow> int \<Rightarrow> string \<Rightarrow> story_scheduler \<Rightarrow> (scheduler_error + automation_row) \<times> story_scheduler" where
  "activateCreated env now aid s =
     (case automations_get aid (sc_db s) of None \<Rightarrow> (Inl AutomationNotFound, s) | Some a \<Rightarrow> (Inr a, register env now a s))"

definition update_scheduled :: "sched_env \<Rightarrow> int \<Rightarrow> string \<Rightarrow> automation_patch \<Rightarrow> string option \<Rightarrow> story_scheduler
    \<Rightarrow> (scheduler_error + automation_row option) \<times> story_scheduler" where
  "update_scheduled env now aid patch expectedUpdatedAt s =
     (case automations_get aid (sc_db s) of
        None \<Rightarrow> (Inl AutomationNotFound, s)
      | Some current \<Rightarrow>
          (case en_resolve env (patch_automation patch None (au_updatedAt current) current) of
             Inl e \<Rightarrow> (Inl (ActionError e), s)
           | Inr _ \<Rightarrow>
               (case automation_update now aid patch expectedUpdatedAt (sc_db s) of
                  Inl e \<Rightarrow> (Inl (StoreError e), s)
                | Inr (None, db) \<Rightarrow> (Inr None, s\<lparr>sc_db := db\<rparr>)
                | Inr (Some a, db) \<Rightarrow> (Inr (Some a), refresh env now (s\<lparr>sc_db := db\<rparr>)))))"

definition delete_scheduled :: "string \<Rightarrow> string option \<Rightarrow> story_scheduler \<Rightarrow> (scheduler_error + bool) \<times> story_scheduler" where
  "delete_scheduled aid expectedUpdatedAt s =
     (case automations_get aid (sc_db s) of
        None \<Rightarrow> (Inl AutomationNotFound, s)
      | Some _ \<Rightarrow>
          (case automation_delete aid expectedUpdatedAt (sc_db s) of
             Inl e \<Rightarrow> (Inl (StoreError e), s)
           | Inr (deleted, db) \<Rightarrow>
               let s = s\<lparr>sc_db := db\<rparr>
               in (Inr deleted, if deleted then (clear_timer aid s)\<lparr>sc_nextRunAt := jmap_delete aid (sc_nextRunAt s)\<rparr> else s)))"

datatype effective_status = EffDisabled | EffBlocked | EffRunning | EffError | EffScheduled

definition effectiveStatus :: "sched_env \<Rightarrow> automation_row \<Rightarrow> story_db \<Rightarrow> effective_status" where
  "effectiveStatus env a db =
     (let runs = runs_list (au_id a) db in
      if \<not> au_enabled a then EffDisabled
      else if blockedReason env a \<noteq> None then EffBlocked
      else if filter (\<lambda>r. \<not> terminal (rr_status r)) runs \<noteq> [] then EffRunning
      else case List.find (\<lambda>r. terminal (rr_status r)) runs of
             Some r \<Rightarrow> if rr_status r = RunFailed then EffError else EffScheduled
           | None \<Rightarrow> EffScheduled)"

section \<open>Requesting runs\<close>

text \<open>\<^verbatim>\<open>prepareRun\<close> up to the transaction of the store.\<close>

definition run_request :: "sched_env \<Rightarrow> automation_row \<Rightarrow> run_event \<Rightarrow> string \<Rightarrow> string \<Rightarrow> execution_input \<Rightarrow> run_input" where
  "run_request env a event scheduledFor key input =
     \<lparr>ri_automationId = au_id a, ri_eventType = event, ri_scheduledFor = scheduledFor, ri_executionKey = key,
      ri_requestFingerprint = en_fingerprint env input key, ri_executionInput = input\<rparr>"

definition await_run :: "automation_row \<Rightarrow> run_input \<Rightarrow> story_scheduler \<Rightarrow> story_scheduler" where
  "await_run a input s = s\<lparr>sc_calls := sc_calls s @ [(a, input)]\<rparr>"

text \<open>The answer of \<^verbatim>\<open>manualRun\<close> is that of an earlier request with the same key, or \<open>None\<close> while it waits for the store.\<close>

definition manualRun :: "sched_env \<Rightarrow> int \<Rightarrow> string \<Rightarrow> string \<Rightarrow> story_scheduler \<Rightarrow> (scheduler_error + run_row option) \<times> story_scheduler" where
  "manualRun env now aid clientRequestId s =
     (case automations_get aid (sc_db s) of
        None \<Rightarrow> (Inl AutomationNotFound, s)
      | Some a \<Rightarrow>
          let key = en_executionKey env aid ''manual'' clientRequestId in
          (case runs_byExecutionKey key (sc_db s) of
             Some existing \<Rightarrow> (Inr (runs_get (rr_id existing) (sc_db s)), s)
           | None \<Rightarrow>
               (case en_resolve env a of
                  Inl e \<Rightarrow> (Inl (ActionError e), s)
                | Inr input \<Rightarrow> (Inr None, await_run a (run_request env a ManualRun (to_iso now) key input) s))))"

definition handleTimer :: "sched_env \<Rightarrow> int \<Rightarrow> string \<Rightarrow> int \<Rightarrow> story_scheduler \<Rightarrow> story_scheduler" where
  "handleTimer env now aid next s =
     (case automations_get aid (sc_db s) of
        None \<Rightarrow> s
      | Some a \<Rightarrow>
          if \<not> au_enabled a \<or> blockedReason env a \<noteq> None then s
          else case en_resolve env a of
                 Inl _ \<Rightarrow> register env now a s
               | Inr input \<Rightarrow> await_run a (run_request env a ScheduleRun (to_iso next) (en_executionKey env (au_id a) ''schedule'' (to_iso next)) input) s)"

text \<open>The store answers \<^verbatim>\<open>createRun\<close>: the rest of \<^verbatim>\<open>manualRun\<close> or \<^verbatim>\<open>handleTimer\<close>.\<close>

definition commit_run :: "sched_env \<Rightarrow> string \<Rightarrow> int \<Rightarrow> nat \<Rightarrow> story_scheduler \<Rightarrow> story_scheduler" where
  "commit_run env newId now n s =
     (let (a, input) = sc_calls s ! n;
          s = s\<lparr>sc_calls := drop_nth n (sc_calls s)\<rparr>;
          s = (case createRun newId now input (sc_db s) of
                 Inl _ \<Rightarrow> s
               | Inr (r, db) \<Rightarrow> submit_run now a (rr_id r) (s\<lparr>sc_db := db\<rparr>))
      in if ri_eventType input = ScheduleRun then register env now a s else s)"

section \<open>Reconciling with the instances\<close>

datatype session_view = SessionActive | SessionIdle | SessionFailed

text \<open>\<open>view\<close> is the session of a run in the reported state of its instance.\<close>

definition reconcile_start :: "string option \<Rightarrow> story_scheduler \<Rightarrow> story_scheduler" where
  "reconcile_start instanceId s = s\<lparr>sc_reconciliations := sc_reconciliations s @
     [\<lparr>rc_instanceId = instanceId, rc_runs = filter (\<lambda>r. rr_status r = RunRunning \<and> truthy (rr_aiSessionId r)) (runs_pending (sc_db s)), rc_ended = None\<rparr>]\<rparr>"

definition reconcile_verdict :: "string option \<Rightarrow> (run_row \<Rightarrow> session_view option) \<Rightarrow> run_row \<Rightarrow> run_status option" where
  "reconcile_verdict instanceId view r =
     (if truthy instanceId \<and> instanceId \<noteq> Some (rr_targetInstanceId r) then None
      else case view r of
             None \<Rightarrow> if instanceId \<noteq> Some (rr_targetInstanceId r) then None else Some RunCompleted
           | Some SessionActive \<Rightarrow> None
           | Some SessionIdle \<Rightarrow> Some RunCompleted
           | Some SessionFailed \<Rightarrow> Some RunFailed)"

definition session_failure :: run_error where
  "session_failure = \<lparr>re_code = ''AI_SESSION_FAILED'', re_message = ''The automated AI Session failed.''\<rparr>"

text \<open>One step: resolve the completion of the run that ended, or go on to the next run. A transition that throws ends the reconciliation.\<close>

definition reconcile_step :: "int \<Rightarrow> (run_row \<Rightarrow> session_view option) \<Rightarrow> nat \<Rightarrow> story_scheduler \<Rightarrow> story_scheduler" where
  "reconcile_step now view n s =
     (let rc = sc_reconciliations s ! n in
      case rc_ended rc of
        Some rid \<Rightarrow> resolveCompletion rid (s\<lparr>sc_reconciliations := (sc_reconciliations s)[n := rc\<lparr>rc_ended := None\<rparr>]\<rparr>)
      | None \<Rightarrow>
          (case rc_runs rc of
             [] \<Rightarrow> s\<lparr>sc_reconciliations := drop_nth n (sc_reconciliations s)\<rparr>
           | r # rs \<Rightarrow>
               (case reconcile_verdict (rc_instanceId rc) view r of
                  None \<Rightarrow> s\<lparr>sc_reconciliations := (sc_reconciliations s)[n := rc\<lparr>rc_runs := rs\<rparr>]\<rparr>
                | Some status \<Rightarrow>
                    (case transition now (rr_id r) status None (if status = RunFailed then Some session_failure else None) (sc_db s) of
                       Inl _ \<Rightarrow> s\<lparr>sc_reconciliations := drop_nth n (sc_reconciliations s)\<rparr>
                     | Inr (_, db) \<Rightarrow> s\<lparr>sc_db := db, sc_reconciliations := (sc_reconciliations s)[n := rc\<lparr>rc_runs := rs, rc_ended := Some (rr_id r)\<rparr>]\<rparr>))))"

section \<open>Starting and stopping\<close>

definition start_scheduler :: "sched_env \<Rightarrow> int \<Rightarrow> story_scheduler \<Rightarrow> story_scheduler" where
  "start_scheduler env now s =
     (let s = runtime_call now scheduler_start (runtime_call now stop s);
          s = s\<lparr>sc_nextRunAt := [], sc_registered := []\<rparr>;
          s = fold (register env now) (automations_list None (sc_db s)) s;
          s = fold (resume now) (runs_pending (sc_db s)) s
      in reconcile_start None s)"

definition stop_scheduler :: "int \<Rightarrow> story_scheduler \<Rightarrow> story_scheduler" where
  "stop_scheduler now s = (runtime_call now stop s)\<lparr>sc_nextRunAt := []\<rparr>"

section \<open>Runs of the scheduler\<close>

datatype sched_action =
    Execute nat dispatch_answer
  | Reconcile nat "run_row \<Rightarrow> session_view option"
  | StartReconcile "string option"
  | ManualCall string string
  | TimerFires string int
  | CommitRun nat string
  | CreateCall string automation_input
  | ActivateCall string
  | UpdateCall string automation_patch "string option"
  | DeleteCall string "string option"
  | ClearStory string
  | DeleteStory string
  | RefreshCall
  | StartCall
  | StopCall

fun story_step :: "story_scheduler \<Rightarrow> sched_env \<times> int \<times> sched_action \<Rightarrow> story_scheduler" where
  "story_step s (env, now, Execute n answer) = (if n < length (sc_executions s) then execution_step now answer n s else s)"
| "story_step s (env, now, Reconcile n view) = (if n < length (sc_reconciliations s) then reconcile_step now view n s else s)"
| "story_step s (env, now, StartReconcile i) = reconcile_start i s"
| "story_step s (env, now, ManualCall aid request) = snd (manualRun env now aid request s)"
| "story_step s (env, now, TimerFires aid next) = handleTimer env now aid next s"
| "story_step s (env, now, CommitRun n newId) = (if n < length (sc_calls s) then commit_run env newId now n s else s)"
| "story_step s (env, now, CreateCall newId input) = snd (create_scheduled env newId now input s)"
| "story_step s (env, now, ActivateCall aid) = snd (activateCreated env now aid s)"
| "story_step s (env, now, UpdateCall aid patch expected) = snd (update_scheduled env now aid patch expected s)"
| "story_step s (env, now, DeleteCall aid expected) = snd (delete_scheduled aid expected s)"
| "story_step s (env, now, ClearStory storyId) = clearStory now storyId s"
| "story_step s (env, now, DeleteStory storyId) = (case automation_deleteForStory storyId (sc_db s) of Inl _ \<Rightarrow> s | Inr db \<Rightarrow> s\<lparr>sc_db := db\<rparr>)"
| "story_step s (env, now, RefreshCall) = refresh env now s"
| "story_step s (env, now, StartCall) = start_scheduler env now s"
| "story_step s (env, now, StopCall) = stop_scheduler now s"

definition scheduler_state :: "story_db \<Rightarrow> story_scheduler" where
  "scheduler_state db = \<lparr>sc_db = db, sc_runtime = scheduler_new 100, sc_nextRunAt = [], sc_registered = [], sc_timerCount = 0,
     sc_completion = [], sc_calls = [], sc_executions = [], sc_reconciliations = []\<rparr>"

section \<open>The scheduler acts on the store by its transactions\<close>

definition policy_ok :: "scheduler_policy \<Rightarrow> bool" where
  "policy_ok p \<longleftrightarrow> 1 \<le> sp_maxConcurrentRuns p"

definition input_ok :: "string set \<Rightarrow> store_step \<Rightarrow> bool" where
  "input_ok X e = (case e of
       CreateAutomation _ input \<Rightarrow> policy_ok (in_policy input)
     | UpdateAutomation _ patch _ \<Rightarrow> (case ap_policy patch of None \<Rightarrow> True | Some p \<Rightarrow> policy_ok p)
     | CreateRun newId _ \<Rightarrow> newId \<notin> X
     | _ \<Rightarrow> True)"

definition policies_ok :: "story_db \<Rightarrow> bool" where
  "policies_ok db \<longleftrightarrow> (\<forall>a \<in> set (sd_automations db). policy_ok (au_policy a))"

definition moves :: "string set \<Rightarrow> story_db \<Rightarrow> story_db \<Rightarrow> bool" where
  "moves X db db' \<longleftrightarrow> (\<exists>ts. (\<forall>t \<in> set ts. input_ok X (snd t)) \<and> db' = foldl store_step db ts)"

lemma moves_refl [simp]: "moves X db db"
  unfolding moves_def by (rule exI [of _ "[]"]) simp

lemma moves_trans [trans]: "moves X db1 db2 \<Longrightarrow> moves X db2 db3 \<Longrightarrow> moves X db1 db3"
  unfolding moves_def
proof (elim exE conjE)
  fix ts us
  assume "\<forall>t \<in> set ts. input_ok X (snd t)" "\<forall>t \<in> set us. input_ok X (snd t)" "db2 = foldl store_step db1 ts" "db3 = foldl store_step db2 us"
  then show "\<exists>ts. (\<forall>t \<in> set ts. input_ok X (snd t)) \<and> db3 = foldl store_step db1 ts" by (intro exI [of _ "ts @ us"]) auto
qed

lemma moves_step: "input_ok X e \<Longrightarrow> moves X db (store_step db (now, e))"
  unfolding moves_def by (rule exI [of _ "[(now, e)]"]) simp

lemma moves_transition: "transition now rid status sid err db = Inr (r, db') \<Longrightarrow> moves X db db'"
  using moves_step [of X "Transition rid status sid err" db now] by (simp add: store_step_def input_ok_def)

lemma moves_create: "newId \<notin> X \<Longrightarrow> createRun newId now input db = Inr (r, db') \<Longrightarrow> moves X db db'"
  using moves_step [of X "CreateRun newId input" db now] by (simp add: store_step_def input_ok_def)

lemma update_policies:
  assumes "policies_ok db" "automation_update now aid patch expected db = Inr (out, db')" "input_ok X (UpdateAutomation aid patch expected)"
  shows "policies_ok db'"
  using assms
  by (auto simp: automation_update_def automations_update_def policies_ok_def input_ok_def patch_automation_def Let_def
      split: option.splits sum.splits if_splits)

lemma step_policies:
  assumes ok: "policies_ok db" and e: "input_ok X (snd e)"
  shows "policies_ok (store_step db e)"
proof -
  obtain now a where n: "e = (now, a)" by (cases e)
  have kept: "policies_ok db'" if "set (sd_automations db') \<subseteq> set (sd_automations db)" for db' using ok that by (auto simp: policies_ok_def)
  have gone: "set (sd_automations (delete_automations P db)) \<subseteq> set (sd_automations db)" for P by (auto simp: delete_automations_def)
  show ?thesis
  proof (cases a)
    case (CreateAutomation newId input)
    then show ?thesis using ok e
      by (auto simp: n store_step_def automation_create_def automations_insert_def policies_ok_def input_ok_def Let_def split: sum.splits if_splits)
  next
    case (UpdateAutomation aid patch expected)
    then show ?thesis using ok e update_policies [OF ok, of now aid patch expected] by (auto simp: n store_step_def split: sum.splits)
  next
    case (DeleteAutomation aid expected)
    then show ?thesis using ok gone by (auto simp: n store_step_def automation_delete_def automations_delete_def intro!: kept split: sum.splits option.splits if_splits)
  next
    case (DeleteForStory storyId)
    then show ?thesis using ok gone
      by (auto simp: n store_step_def automation_deleteForStory_def automations_deleteForStory_def intro!: kept split: sum.splits if_splits)
  next
    case (CreateRun newId input)
    then show ?thesis using ok
      by (auto simp: n store_step_def createRun_def runs_insert_def trim_frame intro!: kept split: sum.splits option.splits if_splits)
  next
    case (Transition rid status sid err)
    then show ?thesis using ok
      by (auto simp: n store_step_def transition_def runs_update_def trim_frame Let_def intro!: kept split: sum.splits option.splits if_splits)
  qed
qed

lemma moves_policies: "moves X db db' \<Longrightarrow> policies_ok db \<Longrightarrow> policies_ok db'"
  unfolding moves_def
proof (elim exE conjE)
  fix ts
  assume "\<forall>t \<in> set ts. input_ok X (snd t)" "db' = foldl store_step db ts" "policies_ok db"
  then show "policies_ok db'" by (induction ts arbitrary: db) (auto intro: step_policies)
qed

lemma moves_ok: "moves X db db' \<Longrightarrow> db_ok db \<Longrightarrow> db_ok db'"
  unfolding moves_def using store.good_run by blast

text \<open>A run that has ended or is gone; it stays so unless its id is used again.\<close>

definition dead :: "string \<Rightarrow> story_db \<Rightarrow> bool" where
  "dead rid db \<longleftrightarrow> (\<forall>r \<in> set (sd_runs db). rr_id r = rid \<longrightarrow> terminal (rr_status r))"

lemma step_ids:
  assumes "r' \<in> set (sd_runs (store_step db (now, a)))"
  shows "rr_id r' \<in> rr_id ` set (sd_runs db) \<or> (\<exists>input. a = CreateRun (rr_id r') input)"
proof -
  have trim: "r' \<in> set (sd_runs db')" if "r' \<in> set (sd_runs (runs_trimTerminal aid n db'))" for aid n db' using trim_set that by blast
  have gone: "r' \<in> set (sd_runs db)" if "r' \<in> set (sd_runs (delete_automations P db))" for P using that by (auto simp: delete_automations_def Let_def)
  show ?thesis
  proof (cases a)
    case (CreateAutomation newId input)
    then show ?thesis using assms
      by (auto simp: store_step_def automation_create_def automations_insert_def Let_def split: sum.splits if_splits)
  next
    case (UpdateAutomation aid patch expected)
    then show ?thesis using assms
      by (auto simp: store_step_def automation_update_def automations_update_def Let_def split: sum.splits option.splits if_splits)
  next
    case (DeleteAutomation aid expected)
    then show ?thesis using assms gone
      by (auto simp: store_step_def automation_delete_def automations_delete_def split: sum.splits option.splits if_splits)
  next
    case (DeleteForStory storyId)
    then show ?thesis using assms gone
      by (auto simp: store_step_def automation_deleteForStory_def automations_deleteForStory_def split: sum.splits if_splits)
  next
    case (CreateRun newId input)
    then show ?thesis using assms
      by (auto simp: store_step_def createRun_def runs_insert_def new_run_def dest!: trim split: sum.splits option.splits if_splits)
  next
    case (Transition rid status sid err)
    then show ?thesis using assms
      by (auto simp: store_step_def transition_def runs_update_def patch_run_def Let_def dest!: trim split: sum.splits option.splits if_splits)
  qed
qed

lemma dead_step:
  assumes ok: "db_ok db" and d: "dead rid db" and e: "input_ok X (snd e)" "rid \<in> X"
  shows "dead rid (store_step db e)"
  unfolding dead_def
proof (intro ballI impI)
  fix r'
  assume r': "r' \<in> set (sd_runs (store_step db e))" "rr_id r' = rid"
  obtain now a where n: "e = (now, a)" by (cases e)
  have "\<not> (\<exists>input. a = CreateRun rid input)" using e by (auto simp: n input_ok_def)
  then have "rr_id r' \<in> rr_id ` set (sd_runs db)" using step_ids [of r' db now a] r' by (auto simp: n)
  then obtain r where r: "r \<in> set (sd_runs db)" "rr_id r' = rr_id r" by blast
  then have "terminal (rr_status r)" "advanced r r'" using d r' store_step_ok [OF ok, of e] by (auto simp: dead_def runs_kept_def)
  then show "terminal (rr_status r')" by (cases "rr_status r") (auto simp: advanced_def terminal_def)
qed

lemma moves_dead: "moves X db db' \<Longrightarrow> db_ok db \<Longrightarrow> rid \<in> X \<Longrightarrow> dead rid db \<Longrightarrow> dead rid db'"
  unfolding moves_def
proof (elim exE conjE)
  fix ts
  assume "\<forall>t \<in> set ts. input_ok X (snd t)" "db' = foldl store_step db ts" "db_ok db" "rid \<in> X" "dead rid db"
  then show "dead rid db'" by (induction ts arbitrary: db) (use dead_step store_step_ok in \<open>auto\<close>)
qed

section \<open>Runs that wait for ever\<close>

text \<open>
  An execution waits for a run that has ended, no reconciliation will look at the run again, and its completion entry is not resolved.
\<close>

definition waiting :: "story_scheduler \<Rightarrow> string set" where
  "waiting s = ex_runId ` {x \<in> set (sc_executions s). ex_pc x = PcWait}"

definition unconcerned :: "string \<Rightarrow> reconciliation \<Rightarrow> bool" where
  "unconcerned rid rc \<longleftrightarrow> rc_ended rc \<noteq> Some rid \<and> rid \<notin> rr_id ` set (rc_runs rc)"

definition lost :: "string \<Rightarrow> story_scheduler \<Rightarrow> bool" where
  "lost rid s \<longleftrightarrow> rid \<in> waiting s \<and> rid \<in> set (sc_completion s) \<and> dead rid (sc_db s)
     \<and> (\<forall>rc \<in> set (sc_reconciliations s). unconcerned rid rc)"

section \<open>The runtime and the executions agree\<close>

definition execution_keys :: "story_scheduler \<Rightarrow> (string \<times> string) multiset" where
  "execution_keys s = mset (map (\<lambda>x. (ex_automationId x, ex_runId x)) (sc_executions s))"

definition agree :: "story_scheduler \<Rightarrow> bool" where
  "agree s \<longleftrightarrow> scheduler_inv (sc_runtime s) \<and> rt_maxQueuedPerJob (sc_runtime s) = 100
     \<and> execution_keys s = mset (rt_executing (sc_runtime s)) \<and> (\<forall>c \<in> set (sc_calls s). policy_ok (au_policy (fst c)))"

definition sched_ok :: "story_scheduler \<Rightarrow> bool" where
  "sched_ok s \<longleftrightarrow> agree s \<and> policies_ok (sc_db s) \<and> db_ok (sc_db s)"

text \<open>\<open>evolves X s s'\<close>: a good state becomes a good state, its store moves by transactions, and the lost runs among \<open>X\<close> stay lost.\<close>

definition evolves :: "string set \<Rightarrow> story_scheduler \<Rightarrow> story_scheduler \<Rightarrow> bool" where
  "evolves X s s' \<longleftrightarrow> (sched_ok s \<longrightarrow> sched_ok s' \<and> moves X (sc_db s) (sc_db s') \<and> (\<forall>rid \<in> X. lost rid s \<longrightarrow> lost rid s'))"

lemma evolves_refl [simp]: "evolves X s s"
  by (simp add: evolves_def)

lemma evolves_trans [trans]: "evolves X s1 s2 \<Longrightarrow> evolves X s2 s3 \<Longrightarrow> evolves X s1 s3"
  unfolding evolves_def using moves_trans by blast

lemma evolves_fold: "(\<And>x s. evolves X s (f x s)) \<Longrightarrow> evolves X s (fold f xs s)"
  by (induction xs arbitrary: s) (auto intro: evolves_trans)

lemma evolves_db:
  assumes "moves X (sc_db s) db"
  shows "evolves X s (s\<lparr>sc_db := db\<rparr>)"
  using assms moves_policies [OF assms] moves_ok [OF assms] moves_dead [OF assms]
  by (auto simp: evolves_def sched_ok_def agree_def execution_keys_def lost_def waiting_def)

text \<open>A change of the fields that neither side of the agreement mentions.\<close>

lemma evolves_frame:
  assumes "sc_db s' = sc_db s" "sc_runtime s' = sc_runtime s" "map (\<lambda>x. (ex_automationId x, ex_runId x)) (sc_executions s') = map (\<lambda>x. (ex_automationId x, ex_runId x)) (sc_executions s)"
    and "set (sc_calls s') \<subseteq> set (sc_calls s)"
    and "waiting s \<subseteq> waiting s'" "set (sc_completion s) \<subseteq> set (sc_completion s')" "sc_reconciliations s' = sc_reconciliations s"
  shows "evolves X s s'"
  using assms by (auto simp: evolves_def sched_ok_def agree_def execution_keys_def lost_def)

text \<open>The runtime's own steps: what they start is what they add to the executions.\<close>

lemma step_grows:
  assumes "\<And>key event. a \<noteq> Finish key event"
  shows "\<exists>new. rt_started (scheduler_step rt (now, a)) = rt_started rt @ new \<and> mset (rt_executing (scheduler_step rt (now, a))) = mset (rt_executing rt) + mset new"
proof -
  have same: ?thesis if "rt_started (scheduler_step rt (now, a)) = rt_started rt" "rt_executing (scheduler_step rt (now, a)) = rt_executing rt"
    using that by (intro exI [of _ "[]"]) simp
  show ?thesis
  proof (cases a)
    case (Submit key event policy)
    then show ?thesis by (auto simp: scheduler_step_def submit_def Let_def begin_run_def skip_event_def)
  qed (use assms in \<open>auto intro!: same simp: scheduler_step_def clearQueued_def timers_frame stop_view scheduler_start_def Let_def split: option.splits\<close>)
qed

lemma skipRun_evolves: "evolves X s (skipRun now rid reason s)"
  by (auto simp: skipRun_def intro!: evolves_db moves_transition split: option.split sum.split)

lemma with_runtime_evolves:
  assumes "rt' = scheduler_step (sc_runtime s) (now, a)" "step_ok (now, a)" "\<And>key event. a \<noteq> Finish key event"
  shows "evolves X s (with_runtime rt' s)"
proof -
  obtain new where new: "rt_started rt' = rt_started (sc_runtime s) @ new" "mset (rt_executing rt') = mset (rt_executing (sc_runtime s)) + mset new"
    using step_grows [OF assms(3)] assms(1) by blast
  have "execution_keys (with_runtime rt' s) = execution_keys s + mset new"
    by (simp add: execution_keys_def with_runtime_def new(1) comp_def case_prod_unfold)
  then show ?thesis using step_inv [OF _ assms(2)] new(2) assms(1)
    by (auto simp: evolves_def sched_ok_def agree_def with_runtime_def step_max lost_def waiting_def)
qed

lemma runtime_call_evolves:
  assumes "\<And>rt. f rt = scheduler_step rt (now, a)" "step_ok (now, a)" "\<And>key event. a \<noteq> Finish key event"
  shows "evolves X s (runtime_call now f s)"
  unfolding runtime_call_def
  by (rule evolves_trans [OF with_runtime_evolves [OF assms(1-3)]], rule evolves_fold) (simp add: skipRun_evolves split: prod.split)

lemma submit_run_evolves: "policy_ok (au_policy a) \<Longrightarrow> evolves X s (submit_run now a rid s)"
  unfolding submit_run_def
  by (rule runtime_call_evolves [where a = "Submit (au_id a) rid (au_policy a)"]) (simp_all add: scheduler_step_def step_ok_def policy_ok_def)

lemma calls_evolve:
  "evolves X s (clear_queued now aid s)" "evolves X s (runtime_call now stop s)" "evolves X s (runtime_call now scheduler_start s)"
proof -
  show "evolves X s (clear_queued now aid s)" unfolding clear_queued_def
    by (rule runtime_call_evolves [where a = "ClearQueued aid SkipJobDisabled"]) (simp_all add: scheduler_step_def step_ok_def)
  show "evolves X s (runtime_call now stop s)" by (rule runtime_call_evolves [where a = Stop]) (simp_all add: scheduler_step_def step_ok_def)
  show "evolves X s (runtime_call now scheduler_start s)" by (rule runtime_call_evolves [where a = Start]) (simp_all add: scheduler_step_def step_ok_def)
qed

lemma get_policy: "policies_ok db \<Longrightarrow> automations_get aid db = Some a \<Longrightarrow> policy_ok (au_policy a)"
  unfolding automations_get_def policies_ok_def by (auto dest: find_SomeD)

lemma evolvesI: "(sched_ok s \<Longrightarrow> evolves X s s') \<Longrightarrow> evolves X s s'"
  by (auto simp: evolves_def)

lemma resume_evolves: "evolves X s (resume now r s)"
  by (rule evolvesI) (auto simp: resume_def sched_ok_def intro!: submit_run_evolves get_policy split: option.split)

lemma timers_evolve:
  assumes "sc_db s' = sc_db s" "sc_executions s' = sc_executions s" "sc_calls s' = sc_calls s"
    and "sc_completion s' = sc_completion s" "sc_reconciliations s' = sc_reconciliations s"
    and "sc_runtime s' = setTimer key t (sc_runtime s) \<or> sc_runtime s' = clearTimer key (sc_runtime s)"
  shows "evolves X s s'"
  using assms timers_inv by (auto simp: evolves_def sched_ok_def agree_def execution_keys_def timers_frame lost_def waiting_def)

lemma register_evolves: "evolves X s (register env now a s)"
  by (auto simp: register_def Let_def intro!: timers_evolve split: option.split)

lemma clear_timer_evolves: "evolves X s (clear_timer aid s)"
  by (auto simp: clear_timer_def intro!: timers_evolve)

lemma refresh_evolves: "evolves X s (refresh env now s)"
proof -
  let ?f = "\<lambda>a s. register env now a (if \<not> au_enabled a \<or> blockedReason env a \<noteq> None then clear_queued now (au_id a) s else s)"
  let ?c = "fold clear_timer (sc_registered s) s"
  have f: "evolves X s (?f a s)" for a s by (rule evolves_trans [OF _ register_evolves]) (simp add: calls_evolve)
  have "evolves X s ?c" by (rule evolves_fold) (rule clear_timer_evolves)
  also have "evolves X ?c (?c\<lparr>sc_registered := [], sc_nextRunAt := []\<rparr>)" by (rule evolves_frame) (simp_all add: waiting_def)
  also have "evolves X (?c\<lparr>sc_registered := [], sc_nextRunAt := []\<rparr>) (refresh env now s)"
    unfolding refresh_def Let_def by (rule evolves_fold) (rule f)
  finally show ?thesis .
qed

lemma clearStory_evolves: "evolves X s (clearStory now storyId s)"
  unfolding clearStory_def
proof (rule evolves_fold)
  fix a s
  let ?c = "clear_queued now (au_id a) (clear_timer (au_id a) s)"
  have "evolves X s ?c" using evolves_trans [OF clear_timer_evolves calls_evolve(1)] .
  also have "evolves X ?c (?c\<lparr>sc_registered := filter (\<lambda>i. i \<noteq> au_id a) (sc_registered ?c), sc_nextRunAt := jmap_delete (au_id a) (sc_nextRunAt ?c)\<rparr>)"
    by (rule evolves_frame) (simp_all add: waiting_def)
  finally show "evolves X s (let s = ?c in s\<lparr>sc_registered := filter (\<lambda>i. i \<noteq> au_id a) (sc_registered s), sc_nextRunAt := jmap_delete (au_id a) (sc_nextRunAt s)\<rparr>)"
    by (simp add: Let_def)
qed

section \<open>Executions\<close>

lemma map_drop_nth: "map f (drop_nth n xs) = drop_nth n (map f xs)"
  by (simp add: drop_nth_def take_map drop_map)

lemma mset_drop_nth: "n < length xs \<Longrightarrow> add_mset (xs ! n) (mset (drop_nth n xs)) = mset xs"
  by (subst (3) id_take_nth_drop [of n xs]) (simp_all add: drop_nth_def)

lemma set_drop_nth: "set (drop_nth n xs) \<subseteq> set xs"
  by (auto simp: drop_nth_def dest: in_set_takeD in_set_dropD)

lemma drop_nth_other: "n < length xs \<Longrightarrow> x \<in> set xs \<Longrightarrow> x \<noteq> xs ! n \<Longrightarrow> x \<in> set (drop_nth n xs)"
  using mset_drop_nth [of n xs] by (metis insertE set_mset_add_mset_insert set_mset_mset)

lemma finish_grows:
  assumes "(key, event) \<in> set (rt_executing rt)"
  shows "\<exists>new. rt_started (finish_run now key event rt) = rt_started rt @ new
    \<and> add_mset (key, event) (mset (rt_executing (finish_run now key event rt))) = mset (rt_executing rt) + mset new"
proof -
  let ?d = "drop_running key event rt"
  have d: "rt_started ?d = rt_started rt" "add_mset (key, event) (mset (rt_executing ?d)) = mset (rt_executing rt)" using assms by simp_all
  have "\<exists>new. rt_started (drain now key s) = rt_started s @ new \<and> rt_executing (drain now key s) = rt_executing s @ new" for s :: "'a scheduler"
    by (auto simp: drain_def begin_run_def split: list.split prod.split)
  then obtain new where "rt_started (drain now key ?d) = rt_started ?d @ new" "rt_executing (drain now key ?d) = rt_executing ?d @ new" by blast
  then show ?thesis unfolding finish_drop using d by (intro exI [of _ new]) (simp del: drop_frame)
qed

lemma end_execution_evolves:
  assumes n: "n < length (sc_executions s)"
    and pc: "ex_pc (sc_executions s ! n) \<noteq> PcWait \<or> ex_runId (sc_executions s ! n) \<notin> set (sc_completion s)"
  shows "evolves X s (end_execution now n s)"
proof (rule evolvesI)
  assume ok: "sched_ok s"
  define x where "x = sc_executions s ! n"
  define key where "key = (ex_automationId x, ex_runId x)"
  let ?rt = "finish_run now (ex_automationId x) (ex_runId x) (sc_runtime s)"
  have e: "end_execution now n s = with_runtime ?rt (s\<lparr>sc_executions := drop_nth n (sc_executions s)\<rparr>)" by (simp add: end_execution_def Let_def x_def)
  have agree: "execution_keys s = mset (rt_executing (sc_runtime s))" "scheduler_inv (sc_runtime s)" using ok by (simp_all add: sched_ok_def agree_def)
  have keys: "add_mset key (execution_keys (s\<lparr>sc_executions := drop_nth n (sc_executions s)\<rparr>)) = execution_keys s"
    using mset_drop_nth [of n "map (\<lambda>x. (ex_automationId x, ex_runId x)) (sc_executions s)"] n
    by (simp add: execution_keys_def map_drop_nth key_def x_def)
  then have "key \<in># mset (rt_executing (sc_runtime s))" using agree(1) by (metis union_single_eq_member)
  then have mem: "(ex_automationId x, ex_runId x) \<in> set (rt_executing (sc_runtime s))" by (simp add: key_def)
  obtain new where new: "rt_started ?rt = rt_started (sc_runtime s) @ new" "add_mset key (mset (rt_executing ?rt)) = mset (rt_executing (sc_runtime s)) + mset new"
    using finish_grows [OF mem, of now] unfolding key_def by blast
  have "add_mset key (execution_keys (end_execution now n s)) = add_mset key (execution_keys (s\<lparr>sc_executions := drop_nth n (sc_executions s)\<rparr>)) + mset new"
    by (simp add: e execution_keys_def with_runtime_def new(1) comp_def case_prod_unfold)
  then have "add_mset key (execution_keys (end_execution now n s)) = add_mset key (mset (rt_executing ?rt))" unfolding keys agree(1) new(2) .
  then have "execution_keys (end_execution now n s) = mset (rt_executing ?rt)" by simp
  moreover have "rt_maxQueuedPerJob ?rt = rt_maxQueuedPerJob (sc_runtime s)"
    using step_max [of "sc_runtime s" "(now, Finish (ex_automationId x) (ex_runId x))"] mem by (simp add: scheduler_step_def)
  moreover have "lost rid (end_execution now n s)" if "lost rid s" for rid
    using that drop_nth_other [OF n, of _] pc by (fastforce simp: lost_def waiting_def e with_runtime_def x_def)
  ultimately show "evolves X s (end_execution now n s)" using ok finish_inv [OF agree(2) mem, of now]
    by (simp add: evolves_def sched_ok_def agree_def e with_runtime_def)
qed

lemma move_to_evolves:
  assumes n: "n < length (sc_executions s)" and pc: "ex_pc (sc_executions s ! n) \<noteq> PcWait"
  shows "evolves X s (move_to n pc' s)"
proof (rule evolves_frame)
  have "x \<in> set ((sc_executions s)[n := y])" if "x \<in> set (sc_executions s)" "ex_pc x = PcWait" for x y
    using that pc by (metis in_set_conv_nth length_list_update nth_list_update_neq)
  then show "waiting s \<subseteq> waiting (move_to n pc' s)" by (auto simp: waiting_def move_to_def)
qed (use n in \<open>simp_all add: move_to_def map_update list_update_same_conv\<close>)

lemma completionFor_evolves: "evolves X s (completionFor rid s)"
  by (rule evolves_frame) (auto simp: completionFor_def waiting_def)

lemma completion_executions [simp]: "sc_executions (completionFor rid s) = sc_executions s"
  by (simp add: completionFor_def)

lemma run_transition_evolves:
  assumes "\<And>s'. sc_executions s' = sc_executions s \<Longrightarrow> evolves X s' (ok s')" "\<And>e. evolves X s (failed e s)"
  shows "evolves X s (run_transition now n status sid err ok failed s)"
proof (cases "transition now (ex_runId (sc_executions s ! n)) status sid err (sc_db s)")
  case (Inl e)
  then show ?thesis using assms(2) by (simp add: run_transition_def)
next
  case (Inr out)
  obtain r db where o: "out = (r, db)" by (cases out)
  have "evolves X s (s\<lparr>sc_db := db\<rparr>)" using Inr o by (intro evolves_db moves_transition) simp
  also have "evolves X (s\<lparr>sc_db := db\<rparr>) (ok (s\<lparr>sc_db := db\<rparr>))" by (rule assms(1)) simp
  finally show ?thesis by (simp add: run_transition_def Inr o)
qed

lemma execution_evolves:
  assumes n: "n < length (sc_executions s)"
  shows "evolves X s (execution_step now answer n s)"
proof (cases "ex_pc (sc_executions s ! n) = PcWait")
  case True
  then show ?thesis using n by (simp add: execution_step_def Let_def end_execution_evolves)
next
  case pc: False
  have wait: "evolves X s (move_to n pc (completionFor rid s))" for pc rid
    by (rule evolves_trans [OF completionFor_evolves move_to_evolves]) (use n pc in simp_all)
  have tr: "evolves X s (run_transition now n status sid err (move_to n pc) failed s)" if "\<And>e. evolves X s (failed e s)" for status sid err pc failed
    by (rule run_transition_evolves) (use n pc that in \<open>simp_all add: move_to_evolves\<close>)
  have fl: "evolves X s (run_transition now n status sid err (end_execution now n) (\<lambda>_. end_execution now n) s)" for status sid err
    by (rule run_transition_evolves) (use n pc in \<open>simp_all add: end_execution_evolves\<close>)
  show ?thesis
    using n pc wait fl
    by (auto simp: execution_step_def Let_def move_to_evolves end_execution_evolves intro!: tr split: exec_pc.split option.split dispatch_answer.split)
qed

section \<open>Steps\<close>

lemma recs_evolve:
  assumes "sc_runtime s' = sc_runtime s" "sc_executions s' = sc_executions s" "sc_calls s' = sc_calls s" and m: "moves X (sc_db s) (sc_db s')"
    and "\<And>rid. rid \<in> X \<Longrightarrow> lost rid s \<Longrightarrow> rid \<in> set (sc_completion s') \<and> (\<forall>rc \<in> set (sc_reconciliations s'). unconcerned rid rc)"
  shows "evolves X s s'"
  using assms moves_policies [OF m] moves_ok [OF m] moves_dead [OF m]
  by (auto simp: evolves_def sched_ok_def agree_def execution_keys_def lost_def waiting_def)

lemma lost_unconcerned: "lost rid s \<Longrightarrow> rc \<in> set (sc_reconciliations s) \<Longrightarrow> unconcerned rid rc"
  by (simp add: lost_def)

lemma replace_unconcerned:
  assumes "lost rid s" "unconcerned rid rc'" "rc \<in> set ((sc_reconciliations s)[n := rc'])"
  shows "unconcerned rid rc"
  using assms set_update_subset_insert [of "sc_reconciliations s" n rc'] lost_unconcerned by blast

lemma reconcile_evolves:
  assumes n: "n < length (sc_reconciliations s)"
  shows "evolves X s (reconcile_step now view n s)"
proof -
  define rc where "rc = sc_reconciliations s ! n"
  have rc: "unconcerned rid rc" if "lost rid s" for rid using that n by (simp add: rc_def lost_unconcerned)
  note step = reconcile_step_def [of now view n s, folded rc_def, unfolded Let_def]
  have replace: "evolves X s s'"
    if "sc_runtime s' = sc_runtime s" "sc_executions s' = sc_executions s" "sc_calls s' = sc_calls s" "moves X (sc_db s) (sc_db s')"
      "sc_reconciliations s' = (sc_reconciliations s)[n := rc']" "\<And>rid. lost rid s \<Longrightarrow> rid \<in> set (sc_completion s') \<and> unconcerned rid rc'" for s' rc'
  proof (rule recs_evolve)
    fix rid
    assume l: "lost rid s"
    show "rid \<in> set (sc_completion s') \<and> (\<forall>rc \<in> set (sc_reconciliations s'). unconcerned rid rc)"
      using that(6) [OF l] replace_unconcerned [OF l] unfolding that(5) by blast
  qed (use that in simp_all)
  have completion: "rid \<in> set (sc_completion s)" if "lost rid s" for rid using that by (simp add: lost_def)
  have drop: "evolves X s (s\<lparr>sc_reconciliations := drop_nth n (sc_reconciliations s)\<rparr>)"
    using set_drop_nth [of n "sc_reconciliations s"] lost_unconcerned completion by (intro recs_evolve) auto
  have resolve: "evolves X s (resolveCompletion rid (s\<lparr>sc_reconciliations := (sc_reconciliations s)[n := rc\<lparr>rc_ended := None\<rparr>]\<rparr>))"
    if "rc_ended rc = Some rid" for rid
    by (rule replace [of _ "rc\<lparr>rc_ended := None\<rparr>"]) (use that rc completion in \<open>auto simp: resolveCompletion_def unconcerned_def\<close>)
  have next_run: "evolves X s (s\<lparr>sc_reconciliations := (sc_reconciliations s)[n := rc\<lparr>rc_runs := rs\<rparr>]\<rparr>)" if "rc_runs rc = r # rs" for r rs
    by (rule replace [of _ "rc\<lparr>rc_runs := rs\<rparr>"]) (use that rc completion in \<open>auto simp: unconcerned_def\<close>)
  have ended: "evolves X s (s\<lparr>sc_db := db, sc_reconciliations := (sc_reconciliations s)[n := rc\<lparr>rc_runs := rs, rc_ended := Some (rr_id r)\<rparr>]\<rparr>)"
    if "rc_runs rc = r # rs" "moves X (sc_db s) db" for r rs db
    by (rule replace [of _ "rc\<lparr>rc_runs := rs, rc_ended := Some (rr_id r)\<rparr>"]) (use that rc completion in \<open>auto simp: unconcerned_def\<close>)
  show ?thesis unfolding step
    by (auto intro: resolve next_run drop intro!: ended moves_transition split: option.split list.split sum.split)
qed

lemma reconcile_start_evolves: "evolves X s (reconcile_start i s)"
proof (rule recs_evolve)
  fix rid
  assume l: "lost rid s"
  have "rid \<notin> rr_id ` {r \<in> set (sd_runs (sc_db s)). rr_status r = RunRunning}" using l by (auto simp: lost_def dead_def terminal_def)
  then show "rid \<in> set (sc_completion (reconcile_start i s)) \<and> (\<forall>rc \<in> set (sc_reconciliations (reconcile_start i s)). unconcerned rid rc)"
    using l by (auto simp: reconcile_start_def lost_def unconcerned_def runs_pending_def)
qed (simp_all add: reconcile_start_def)

lemma await_evolves: "policy_ok (au_policy a) \<Longrightarrow> evolves X s (await_run a input s)"
  by (auto simp: evolves_def sched_ok_def agree_def execution_keys_def await_run_def lost_def waiting_def)

lemma manual_evolves: "evolves X s (snd (manualRun env now aid request s))"
  by (rule evolvesI) (auto simp: manualRun_def Let_def sched_ok_def intro!: await_evolves get_policy split: option.split sum.split)

lemma timer_evolves: "evolves X s (handleTimer env now aid next s)"
  by (rule evolvesI) (auto simp: handleTimer_def sched_ok_def register_evolves intro!: await_evolves get_policy split: option.split sum.split)

lemma commit_evolves:
  assumes "n < length (sc_calls s)" and new: "newId \<notin> X"
  shows "evolves X s (commit_run env newId now n s)"
proof (rule evolvesI)
  assume ok: "sched_ok s"
  obtain a input where c: "sc_calls s ! n = (a, input)" by (cases "sc_calls s ! n")
  let ?s = "s\<lparr>sc_calls := drop_nth n (sc_calls s)\<rparr>"
  define s' where "s' = (case createRun newId now input (sc_db ?s) of Inl _ \<Rightarrow> ?s | Inr (r, db) \<Rightarrow> submit_run now a (rr_id r) (?s\<lparr>sc_db := db\<rparr>))"
  have a: "policy_ok (au_policy a)" using ok nth_mem [OF assms(1)] c by (force simp: sched_ok_def agree_def)
  have "evolves X s ?s" by (rule evolves_frame) (simp_all add: set_drop_nth waiting_def)
  also have "evolves X ?s s'" unfolding s'_def
    by (auto intro!: evolves_trans [OF evolves_db submit_run_evolves] moves_create [OF new] a split: sum.split)
  also have "evolves X s' (commit_run env newId now n s)"
    unfolding commit_run_def c s'_def [symmetric] prod.case Let_def by (simp add: register_evolves flip: s'_def)
  finally show "evolves X s (commit_run env newId now n s)" .
qed

definition action_ok :: "string set \<Rightarrow> sched_action \<Rightarrow> bool" where
  "action_ok X a = (case a of
       CreateCall _ input \<Rightarrow> policy_ok (in_policy input)
     | UpdateCall _ patch _ \<Rightarrow> (case ap_policy patch of None \<Rightarrow> True | Some p \<Rightarrow> policy_ok p)
     | CommitRun _ newId \<Rightarrow> newId \<notin> X
     | _ \<Rightarrow> True)"

lemma activate_evolves: "evolves X s (snd (activateCreated env now aid s))"
  by (simp add: activateCreated_def register_evolves split: option.split)

lemma automation_calls_evolve:
  "policy_ok (in_policy input) \<Longrightarrow> evolves X s (snd (create_scheduled env newId now input s))"
  "action_ok X (UpdateCall aid patch expected) \<Longrightarrow> evolves X s (snd (update_scheduled env now aid patch expected s))"
  "evolves X s (snd (delete_scheduled aid expected s))"
  "evolves X s (case automation_deleteForStory storyId (sc_db s) of Inl _ \<Rightarrow> s | Inr db \<Rightarrow> s\<lparr>sc_db := db\<rparr>)"
proof -
  assume "policy_ok (in_policy input)"
  then have "moves X (sc_db s) db" if "automation_create newId now input (sc_db s) = Inr (a, db)" for a db
    using moves_step [of X "CreateAutomation newId input" "sc_db s" now] that by (simp add: store_step_def input_ok_def)
  then show "evolves X s (snd (create_scheduled env newId now input s))"
    by (auto simp: create_scheduled_def intro!: evolves_trans [OF evolves_db register_evolves] split: sum.split)
next
  assume "action_ok X (UpdateCall aid patch expected)"
  then have "moves X (sc_db s) db" if "automation_update now aid patch expected (sc_db s) = Inr (a, db)" for a db
    using moves_step [of X "UpdateAutomation aid patch expected" "sc_db s" now] that by (simp add: store_step_def input_ok_def action_ok_def)
  then show "evolves X s (snd (update_scheduled env now aid patch expected s))"
    by (auto simp: update_scheduled_def intro: evolves_db intro!: evolves_trans [OF evolves_db refresh_evolves] split: sum.split option.split)
next
  have "moves X (sc_db s) db" if "automation_delete aid expected (sc_db s) = Inr (b, db)" for b db
    using moves_step [of X "DeleteAutomation aid expected" "sc_db s"] that by (simp add: store_step_def input_ok_def)
  then have "evolves X s (s\<lparr>sc_db := db\<rparr>)" "evolves X s ((clear_timer aid (s\<lparr>sc_db := db\<rparr>))\<lparr>sc_nextRunAt := m\<rparr>)"
    if "automation_delete aid expected (sc_db s) = Inr (b, db)" for b db m
    using that evolves_trans [OF evolves_trans [OF evolves_db clear_timer_evolves] evolves_frame] by (blast intro: evolves_db, simp add: waiting_def)
  then show "evolves X s (snd (delete_scheduled aid expected s))"
    by (auto simp: delete_scheduled_def Let_def split: sum.split option.split)
next
  have "moves X (sc_db s) db" if "automation_deleteForStory storyId (sc_db s) = Inr db" for db
    using moves_step [of X "DeleteForStory storyId" "sc_db s"] that by (simp add: store_step_def input_ok_def)
  then show "evolves X s (case automation_deleteForStory storyId (sc_db s) of Inl _ \<Rightarrow> s | Inr db \<Rightarrow> s\<lparr>sc_db := db\<rparr>)"
    by (auto intro!: evolves_db split: sum.split)
qed

lemma start_evolves: "evolves X s (start_scheduler env now s)"
proof -
  let ?s1 = "runtime_call now scheduler_start (runtime_call now stop s)"
  let ?s2 = "?s1\<lparr>sc_nextRunAt := [], sc_registered := []\<rparr>"
  let ?s3 = "fold (register env now) (automations_list None (sc_db ?s2)) ?s2"
  let ?s4 = "fold (resume now) (runs_pending (sc_db ?s3)) ?s3"
  have "evolves X s ?s1" using evolves_trans [OF calls_evolve(2) calls_evolve(3)] .
  also have "evolves X ?s1 ?s2" by (rule evolves_frame) (simp_all add: waiting_def)
  also have "evolves X ?s2 ?s3" by (rule evolves_fold) (rule register_evolves)
  also have "evolves X ?s3 ?s4" by (rule evolves_fold) (rule resume_evolves)
  also have "evolves X ?s4 (reconcile_start None ?s4)" by (rule reconcile_start_evolves)
  finally show ?thesis by (simp add: start_scheduler_def Let_def)
qed

lemma stop_evolves: "evolves X s (stop_scheduler now s)"
  unfolding stop_scheduler_def by (rule evolves_trans [OF calls_evolve(2) [where now = now]], rule evolves_frame) (simp_all add: waiting_def)

lemma story_step_evolves:
  assumes "action_ok X a"
  shows "evolves X s (story_step s (env, now, a))"
proof (cases a)
  case (CommitRun n newId)
  then show ?thesis using assms commit_evolves by (simp add: action_ok_def)
next
  case (CreateCall newId input)
  then show ?thesis using assms automation_calls_evolve(1) by (simp add: action_ok_def)
qed (use assms in \<open>simp_all add: execution_evolves reconcile_evolves manual_evolves timer_evolves reconcile_start_evolves activate_evolves automation_calls_evolve
      clearStory_evolves refresh_evolves start_evolves stop_evolves\<close>)

lemma story_run_evolves: "\<forall>e \<in> set es. action_ok X (snd (snd e)) \<Longrightarrow> evolves X s (foldl story_step s es)"
proof (induction es arbitrary: s)
  case (Cons e es)
  obtain env now a where e: "e = (env, now, a)" by (cases e)
  have "evolves X s (story_step s e)" using Cons.prems by (simp add: e story_step_evolves)
  also have "evolves X (story_step s e) (foldl story_step (story_step s e) es)" by (rule Cons.IH) (use Cons.prems in simp)
  finally show ?case by simp
qed simp

lemma start_ok: "policies_ok db \<Longrightarrow> db_ok db \<Longrightarrow> sched_ok (scheduler_state db)"
  by (simp add: sched_ok_def agree_def scheduler_state_def new_inv execution_keys_def) (simp add: scheduler_new_def)

text \<open>
  Claim C16.
  However executions, timers, requests, reports of instances and changes of automations interleave, the scheduler changes its
  store only by the store's transactions, so that runs follow their life cycle; the executions of an automation in flight are
  exactly those the runtime counts; at most 100 runs of an automation wait, and none waits unless another one is in flight.
\<close>

theorem scheduler_counts_executions:
  assumes "db_ok db" "policies_ok db" "\<forall>e \<in> set es. action_ok {} (snd (snd e))" and s: "s = foldl story_step (scheduler_state db) es"
  shows "db_ok (sc_db s) \<and> (\<exists>ts. sc_db s = foldl store_step db ts)
    \<and> running_count (sc_runtime s) aid = length (filter (\<lambda>x. ex_automationId x = aid) (sc_executions s))
    \<and> length (queue_of (sc_runtime s) aid) \<le> 100
    \<and> (queue_of (sc_runtime s) aid \<noteq> [] \<longrightarrow> (\<exists>x \<in> set (sc_executions s). ex_automationId x = aid))"
proof -
  have ev: "sched_ok s" "moves {} db (sc_db s)"
    using story_run_evolves [OF assms(3), of "scheduler_state db"] start_ok [OF assms(2,1)] by (auto simp: evolves_def s scheduler_state_def)
  have inv: "scheduler_inv (sc_runtime s)" "rt_maxQueuedPerJob (sc_runtime s) = 100" "execution_keys s = mset (rt_executing (sc_runtime s))"
    using ev(1) by (simp_all add: sched_ok_def agree_def)
  have "size (filter_mset (\<lambda>r. fst r = aid) (execution_keys s)) = length (filter (\<lambda>x. ex_automationId x = aid) (sc_executions s))"
    by (simp add: execution_keys_def mset_filter [symmetric] filter_map comp_def del: mset_filter mset_map)
  moreover have "size (filter_mset (\<lambda>r. fst r = aid) (mset (rt_executing (sc_runtime s)))) = length (filter (\<lambda>r. fst r = aid) (rt_executing (sc_runtime s)))"
    by (simp add: mset_filter [symmetric] del: mset_filter)
  ultimately have count: "running_count (sc_runtime s) aid = length (filter (\<lambda>x. ex_automationId x = aid) (sc_executions s))"
    using inv(3) scheduler_invD(1) [OF inv(1), of aid] by simp
  have "\<exists>x \<in> set (sc_executions s). ex_automationId x = aid" if "queue_of (sc_runtime s) aid \<noteq> []"
  proof -
    have "1 \<le> running_count (sc_runtime s) aid" using inv(1) that unfolding scheduler_inv_def by blast
    then have "filter (\<lambda>x. ex_automationId x = aid) (sc_executions s) \<noteq> []" unfolding count by auto
    then show ?thesis by (auto simp: filter_empty_conv)
  qed
  then show ?thesis using ev(2) moves_ok [OF ev(2) assms(1)] count scheduler_invD(2) [OF inv(1), of aid] inv(2) by (auto simp: moves_def)
qed

section \<open>A run that was queued before a restart\<close>

text \<open>The store holds an automation with one run; the scheduler starts, resumes the run and goes on with it.\<close>

definition sample_automation :: automation_row where
  "sample_automation = \<lparr>au_id = ''a'', au_storyId = ''s'', au_actionId = ''x'', au_schedule = IntervalSchedule 60000, au_enabled = False,
     au_policy = one_at_a_time, au_scheduleAnchorAt = [], au_createdAt = [], au_updatedAt = []\<rparr>"

definition one_run :: "run_row \<Rightarrow> story_db" where
  "one_run r = \<lparr>sd_actions = [(''s'', ''x'')], sd_automations = [sample_automation], sd_runs = [r]\<rparr>"

definition queued_run :: run_row where
  "queued_run = \<lparr>rr_id = ''r1'', rr_automationId = ''a'', rr_eventType = ManualRun, rr_status = RunQueued, rr_scheduledFor = [], rr_targetInstanceId = ''i'',
     rr_aiSessionId = None, rr_error = None, rr_queuedAt = [], rr_startedAt = None, rr_completedAt = None, rr_executionKey = ''k'',
     rr_requestFingerprint = ''f'', rr_executionInput = sample_execution\<rparr>"

definition sample_env :: sched_env where
  "sample_env = \<lparr>en_resolve = (\<lambda>_. Inr sample_execution), en_fingerprint = (\<lambda>_ _. ''f''), en_executionKey = (\<lambda>_ _ _. ''k''),
     en_cron = (\<lambda>_ _ t. t + 1), en_zone = (\<lambda>_ _. (2026, 0, 1))\<rparr>"

text \<open>The state while the run executes.\<close>

definition executing_run :: "run_row \<Rightarrow> string list \<Rightarrow> exec_pc \<Rightarrow> reconciliation list \<Rightarrow> story_scheduler" where
  "executing_run r completion pc rcs = \<lparr>sc_db = one_run r, sc_runtime = begin_run 0 ''a'' ''r1'' (scheduler_start (stop (scheduler_new 100))),
     sc_nextRunAt = [], sc_registered = [], sc_timerCount = 0, sc_completion = completion, sc_calls = [],
     sc_executions = [\<lparr>ex_automationId = ''a'', ex_runId = ''r1'', ex_pc = pc\<rparr>], sc_reconciliations = rcs\<rparr>"

lemma one_run_ok: "db_ok (one_run queued_run)" "policies_ok (one_run queued_run)"
  by (simp_all add: db_ok_def one_run_def queued_run_def sample_automation_def run_ok_def terminal_def terminal_runs_def MAX_TERMINAL_RUNS_def
      policies_ok_def policy_ok_def one_at_a_time_def)

lemma one_run_view:
  "runs_trimTerminal aid MAX_TERMINAL_RUNS (one_run r) = one_run r"
  "rr_id r = ''r1'' \<Longrightarrow> runs_get ''r1'' (one_run r) = Some r"
  "rr_id r = ''r1'' \<Longrightarrow> runs_update ''r1'' f (one_run r) = one_run (f r)"
  "runs_pending (one_run r) = (if terminal (rr_status r) then [] else [r])"
  "automations_get ''a'' (one_run r) = Some sample_automation"
  "automations_list None (one_run r) = [sample_automation]"
  by (simp_all add: one_run_def runs_trimTerminal_def runs_list_def MAX_TERMINAL_RUNS_def js_sort_def runs_get_def runs_update_def
      runs_pending_def automations_get_def automations_list_def truthy_def sample_automation_def)

lemma one_run_transition:
  assumes "rr_id r = ''r1''" "rr_status r \<noteq> status" "status \<in> set (allowedTransitions (rr_status r))"
  shows "transition now ''r1'' status sid err (one_run r) = Inr (patch_run status sid err (to_iso now) r, one_run (patch_run status sid err (to_iso now) r))"
  using assms by (simp add: transition_def one_run_view Let_def)

lemma executing_view:
  "sc_db (executing_run r c pc rcs) = one_run r" "sc_executions (executing_run r c pc rcs) = [\<lparr>ex_automationId = ''a'', ex_runId = ''r1'', ex_pc = pc\<rparr>]"
  "sc_completion (executing_run r c pc rcs) = c" "sc_reconciliations (executing_run r c pc rcs) = rcs"
  "move_to 0 pc' (executing_run r c pc rcs) = executing_run r c pc' rcs"
  "(executing_run r c pc rcs)\<lparr>sc_db := one_run r'\<rparr> = executing_run r' c pc rcs"
  "(executing_run r c pc rcs)\<lparr>sc_reconciliations := rcs'\<rparr> = executing_run r c pc rcs'"
  "(executing_run r c pc rcs)\<lparr>sc_completion := c'\<rparr> = executing_run r c' pc rcs"
  by (simp_all add: executing_run_def move_to_def)

lemma sample_start: "story_step (scheduler_state (one_run queued_run)) (sample_env, 0, StartCall)
    = executing_run queued_run [] PcStart [\<lparr>rc_instanceId = None, rc_runs = [], rc_ended = None\<rparr>]"
proof -
  let ?rt = "scheduler_start (stop (scheduler_new 100)) :: string scheduler"
  let ?s = "(scheduler_state (one_run queued_run))\<lparr>sc_runtime := ?rt\<rparr>"
  have rt: "rt_started (stop (scheduler_new 100)) = []" "rt_skipped (stop (scheduler_new 100)) = []" "rt_started ?rt = []" "rt_skipped ?rt = []" "rt_accepting ?rt"
    "rt_running ?rt = []" "rt_queued ?rt = []" "rt_lastStartedAt ?rt = []"
    by (simp_all add: stop_def scheduler_new_def scheduler_start_def Let_def)
  have calls: "runtime_call 0 scheduler_start (runtime_call 0 stop (scheduler_state (one_run queued_run))) = ?s"
    by (simp add: runtime_call_def scheduler_state_def with_runtime_def rt)
  have reg: "register sample_env 0 sample_automation s = s" for s by (simp add: register_def sample_automation_def)
  have sub: "submit 0 ''a'' ''r1'' one_at_a_time ?rt = (Started, begin_run 0 ''a'' ''r1'' ?rt)"
    by (simp add: submit_def rt cooling_def one_at_a_time_def running_count_def jmap_get_def)
  have "resume 0 queued_run ?s = executing_run queued_run [] PcStart []"
    using sub by (simp add: resume_def scheduler_state_def submit_run_def runtime_call_def with_runtime_def queued_run_def one_run_view sample_automation_def
        executing_run_def rt)
  then show ?thesis
    by (simp add: start_scheduler_def calls Let_def one_run_view reg) (simp add: scheduler_state_def reconcile_start_def executing_run_def one_run_view queued_run_def terminal_def reg)
qed

theorem scheduler_counts_executions_witness:
  "running_count (sc_runtime (foldl story_step (scheduler_state (one_run queued_run)) [(sample_env, 0, StartCall)])) ''a'' = 1"
  using scheduler_counts_executions [OF one_run_ok, of "[(sample_env, 0, StartCall)]" _ "''a''"] sample_start
  by (simp add: action_ok_def executing_view)

section \<open>A completion can be lost\<close>

text \<open>
  The execution awaits the publication of the running status before it registers its completion entry. A heartbeat of the instance
  that arrives in between finishes the run and finds no entry to resolve; the entry registered afterwards is never resolved, and the
  execution holds its place in the runtime.
\<close>

definition lost_trace :: "(sched_env \<times> int \<times> sched_action) list" where
  "lost_trace = map (\<lambda>(now, a). (sample_env, now, a))
     [(0, StartCall), (1, Reconcile 0 (\<lambda>_. None)),
      (2, Execute 0 DispatchRetryable), (3, Execute 0 DispatchRetryable), (4, Execute 0 (DispatchCreated ''session'')), (5, Execute 0 DispatchRetryable),
      (6, StartReconcile (Some ''i'')), (7, Reconcile 0 (\<lambda>_. None)), (8, Reconcile 0 (\<lambda>_. None)), (9, Reconcile 0 (\<lambda>_. None)),
      (10, Execute 0 DispatchRetryable)]"

lemma patch_view [simp]:
  "rr_id (patch_run status sid err stamp r) = rr_id r" "rr_status (patch_run status sid err stamp r) = status"
  "rr_targetInstanceId (patch_run status sid err stamp r) = rr_targetInstanceId r"
  "rr_aiSessionId (patch_run status sid err stamp r) = (case sid of None \<Rightarrow> rr_aiSessionId r | Some i \<Rightarrow> Some i)"
  by (simp_all add: patch_run_def)

lemma queued_run_view: "rr_id queued_run = ''r1''" "rr_status queued_run = RunQueued" "rr_targetInstanceId queued_run = ''i''"
  by (simp_all add: queued_run_def)

lemma lost_reached:
  "\<exists>r. rr_id r = ''r1'' \<and> rr_status r = RunCompleted \<and> foldl story_step (scheduler_state (one_run queued_run)) lost_trace = executing_run r [''r1''] PcWait []"
proof -
  define r1 where "r1 = patch_run RunDispatching None None (to_iso 3) queued_run"
  define r2 where "r2 = patch_run RunRunning (Some ''session'') None (to_iso 5) r1"
  define r3 where "r3 = patch_run RunCompleted None None (to_iso 7) r2"
  have r: "rr_id r1 = ''r1''" "rr_id r2 = ''r1''" "rr_id r3 = ''r1''" "rr_status r1 = RunDispatching" "rr_status r2 = RunRunning" "rr_status r3 = RunCompleted"
    "rr_aiSessionId r2 = Some ''session''" "rr_targetInstanceId r2 = ''i''" by (simp_all add: r1_def r2_def r3_def queued_run_view)
  have to1: "transition 3 ''r1'' RunDispatching None None (one_run queued_run) = Inr (r1, one_run r1)"
    using one_run_transition [of queued_run RunDispatching 3 None None] by (simp add: queued_run_view r1_def)
  have to2: "transition 5 ''r1'' RunRunning (Some ''session'') None (one_run r1) = Inr (r2, one_run r2)"
    using one_run_transition [of r1 RunRunning 5 "Some ''session''" None] by (simp add: r r2_def)
  have to3: "transition 7 ''r1'' RunCompleted None None (one_run r2) = Inr (r3, one_run r3)"
    using one_run_transition [of r2 RunCompleted 7 None None] by (simp add: r r3_def)
  let ?rc = "\<lambda>i rs e. \<lparr>rc_instanceId = i, rc_runs = rs, rc_ended = e\<rparr>"
  note steps = execution_step_def reconcile_step_def run_transition_def Let_def executing_view one_run_view queued_run_view r drop_nth_def
  have "story_step (executing_run queued_run [] PcStart [?rc None [] None]) (sample_env, 1, Reconcile 0 (\<lambda>_. None)) = executing_run queued_run [] PcStart []"
    "story_step (executing_run queued_run [] PcStart []) (sample_env, 2, Execute 0 DispatchRetryable) = executing_run queued_run [] PcToDispatching []"
    "story_step (executing_run queued_run [] PcToDispatching []) (sample_env, 3, Execute 0 DispatchRetryable) = executing_run r1 [] PcDispatch []"
    "story_step (executing_run r1 [] PcDispatch []) (sample_env, 4, Execute 0 (DispatchCreated ''session'')) = executing_run r1 [] (PcToRunning ''session'') []"
    "story_step (executing_run r1 [] (PcToRunning ''session'') []) (sample_env, 5, Execute 0 DispatchRetryable) = executing_run r2 [] PcPublish []"
    "story_step (executing_run r2 [] PcPublish []) (sample_env, 6, StartReconcile (Some ''i'')) = executing_run r2 [] PcPublish [?rc (Some ''i'') [r2] None]"
    "story_step (executing_run r2 [] PcPublish [?rc (Some ''i'') [r2] None]) (sample_env, 7, Reconcile 0 (\<lambda>_. None)) = executing_run r3 [] PcPublish [?rc (Some ''i'') [] (Some ''r1'')]"
    "story_step (executing_run r3 [] PcPublish [?rc (Some ''i'') [] (Some ''r1'')]) (sample_env, 8, Reconcile 0 (\<lambda>_. None)) = executing_run r3 [] PcPublish [?rc (Some ''i'') [] None]"
    "story_step (executing_run r3 [] PcPublish [?rc (Some ''i'') [] None]) (sample_env, 9, Reconcile 0 (\<lambda>_. None)) = executing_run r3 [] PcPublish []"
    "story_step (executing_run r3 [] PcPublish []) (sample_env, 10, Execute 0 DispatchRetryable) = executing_run r3 [''r1''] PcWait []"
    by (simp_all add: steps to1 to2 to3 terminal_def reconcile_start_def reconcile_verdict_def truthy_def resolveCompletion_def completionFor_def)
  then show ?thesis using r sample_start by (intro exI [of _ r3]) (simp add: lost_trace_def)
qed

text \<open>
  Claim C40.
  A completion that is lost stays lost: once an execution waits on the entry of a run that has ended and that no reconciliation in
  progress concerns, whatever happens later, short of a restart of the process, the entry is not resolved and the execution keeps
  counting against the concurrency limit of its automation.
\<close>

theorem lost_completion_blocks:
  assumes "sched_ok s" "lost rid s" "\<forall>e \<in> set es. action_ok {rid} (snd (snd e))"
  shows "lost rid (foldl story_step s es)
    \<and> (\<exists>x \<in> set (sc_executions (foldl story_step s es)). ex_runId x = rid \<and> 1 \<le> running_count (sc_runtime (foldl story_step s es)) (ex_automationId x))"
proof -
  let ?s = "foldl story_step s es"
  have ev: "sched_ok ?s" "lost rid ?s" using story_run_evolves [OF assms(3), of s] assms(1,2) by (auto simp: evolves_def)
  then obtain x where x: "x \<in> set (sc_executions ?s)" "ex_runId x = rid" by (auto simp: lost_def waiting_def)
  have "(ex_automationId x, rid) \<in># execution_keys ?s" using x by (force simp: execution_keys_def)
  then have "(ex_automationId x, rid) \<in> set (rt_executing (sc_runtime ?s))" using ev(1) by (simp add: sched_ok_def agree_def)
  then have "filter (\<lambda>r. fst r = ex_automationId x) (rt_executing (sc_runtime ?s)) \<noteq> []" by (force simp: filter_empty_conv)
  then have "1 \<le> running_count (sc_runtime ?s) (ex_automationId x)"
    using scheduler_invD(1) [of "sc_runtime ?s"] ev(1) by (simp add: sched_ok_def agree_def Suc_leI)
  then show ?thesis using ev(2) x by blast
qed

theorem lost_completion_blocks_witness:
  "lost ''r1'' (foldl story_step (foldl story_step (scheduler_state (one_run queued_run)) lost_trace) [(sample_env, 20, StopCall), (sample_env, 21, StartCall)])"
proof -
  let ?s = "foldl story_step (scheduler_state (one_run queued_run)) lost_trace"
  have "\<forall>e \<in> set lost_trace. action_ok {} (snd (snd e))" by (simp add: lost_trace_def action_ok_def)
  from story_run_evolves [OF this, of "scheduler_state (one_run queued_run)"] have ok: "sched_ok ?s" using start_ok [OF one_run_ok(2,1)] by (simp add: evolves_def)
  obtain r where "rr_id r = ''r1''" "rr_status r = RunCompleted" "?s = executing_run r [''r1''] PcWait []" using lost_reached by (elim exE conjE)
  then have "lost ''r1'' ?s" by (force simp: lost_def waiting_def executing_view dead_def one_run_def terminal_def)
  from lost_completion_blocks [OF ok this, of "[(sample_env, 20, StopCall), (sample_env, 21, StartCall)]"] show ?thesis by (simp add: action_ok_def)
qed

end
