(* ===== verification/Agent_Runs.thy ===== *)
theory Agent_Runs
  imports Agent_Service
begin

text \<open>
  Agent runs on a node: the repository (\<^verbatim>\<open>packages/node-agent/src/persistence/agent-run-repository.ts\<close>) and the service
  (\<^verbatim>\<open>packages/node-agent/src/agents/run-service.ts\<close>). A run executes an orchestration: it starts with a root member, and members
  that are running may invoke the agents to which the orchestration has an edge from theirs. The tables are lists of rows
  in the order of insertion. Every method is synchronous, so it is one step; a transaction that throws leaves the tables as
  they were. Rows of an earlier version that lack a client request id are left out. Calls of the coordinator and published events are recorded in order.
\<close>

section \<open>Data\<close>

datatype agent_run_status = RunQueued | RunPreparing | RunRunning | RunFinalizing | RunCompleted | RunFailed | RunCancelled

record agent_run_budget =
  ab_maxMembers :: nat
  ab_maxDepth :: nat
  ab_maxConcurrency :: nat

definition AGENT_RUN_DEFAULT_BUDGET :: agent_run_budget where
  "AGENT_RUN_DEFAULT_BUDGET = \<lparr>ab_maxMembers = 16, ab_maxDepth = 4, ab_maxConcurrency = 4\<rparr>"

definition AGENT_RUN_MAX_TOOL_RESULT_CHARACTERS :: nat where
  "AGENT_RUN_MAX_TOOL_RESULT_CHARACTERS = 32000"

text \<open>The subject that authorised a run is carried as a JSON value.\<close>

datatype run_provenance =
    StoryProvenance string string string "json option"
  | ControlPlaneProvenance "json option"

text \<open>
  An optional property of an object is absent, present with the value \<^verbatim>\<open>undefined\<close>, or has a value. \<^verbatim>\<open>isDeepStrictEqual\<close> tells the
  first two apart; \<^verbatim>\<open>JSON.stringify\<close> drops a property that is \<^verbatim>\<open>undefined\<close>, so that a stored object never has one.
\<close>

datatype 'a property = PropAbsent | PropUndefined | PropValue 'a

definition own_property :: "'a option \<Rightarrow> 'a property" where
  "own_property v = (case v of None \<Rightarrow> PropUndefined | Some x \<Rightarrow> PropValue x)"

definition stored_property :: "'a property \<Rightarrow> 'a property" where
  "stored_property p = (case p of PropUndefined \<Rightarrow> PropAbsent | _ \<Rightarrow> p)"

record execution_snapshot =
  sn_agentRevision :: string
  sn_targetInstanceId :: string
  sn_cwdFolderId :: string
  sn_appendedPrompt :: string
  sn_providerId :: string
  sn_modelEntityId :: "string property"
  sn_modelName :: "string property"
  sn_modelUpstreamName :: "string property"
  sn_reasoningEffort :: "string property"
  sn_permissionMode :: "string property"
  sn_executionPolicy :: execution_policy

definition stored_snapshot :: "execution_snapshot \<Rightarrow> execution_snapshot" where
  "stored_snapshot sn = sn\<lparr>sn_modelEntityId := stored_property (sn_modelEntityId sn), sn_modelName := stored_property (sn_modelName sn),
     sn_modelUpstreamName := stored_property (sn_modelUpstreamName sn), sn_reasoningEffort := stored_property (sn_reasoningEffort sn),
     sn_permissionMode := stored_property (sn_permissionMode sn)\<rparr>"

record agent_run_failure =
  af_code :: string
  af_message :: string
  af_retryable :: bool
  af_details :: "json option"

record agent_run_result =
  rs_text :: string
  rs_truncated :: bool

datatype delivery_status = DeliveryPending | Delivered | DeliveryFailed

record result_delivery =
  dl_status :: delivery_status
  dl_attempts :: nat
  dl_updatedAt :: string
  dl_deliveredAt :: "string option"
  dl_error :: "agent_run_failure option"

datatype cleanup_status = CleanupPending | CleanupCompleted | CleanupRetrying | CleanupManual

record cleanup_diagnostic =
  cd_status :: cleanup_status
  cd_attempts :: nat
  cd_message :: "string option"
  cd_updatedAt :: string

datatype member_role = RootMember | CalleeMember

record run_member =
  mb_memberId :: string
  mb_runId :: string
  mb_clientRequestId :: string
  mb_agentId :: string
  mb_parentMemberId :: "string option"
  mb_instanceId :: string
  mb_aiSessionId :: "string option"
  mb_role :: member_role
  mb_depth :: nat
  mb_status :: agent_run_status
  mb_input :: "string option"
  mb_executionSnapshot :: execution_snapshot
  mb_result :: "agent_run_result option"
  mb_error :: "agent_run_failure option"
  mb_createdAt :: string
  mb_updatedAt :: string
  mb_completedAt :: "string option"

record timeline_entry =
  te_runId :: string
  te_sequence :: nat
  te_timestamp :: string
  te_kind :: string
  te_memberId :: "string option"
  te_data :: json

text \<open>\<open>ar_orchestrationId\<close> is null in rows that an earlier version wrote.\<close>

record agent_run =
  ar_runId :: string
  ar_clientRequestId :: string
  ar_revision :: nat
  ar_status :: agent_run_status
  ar_input :: "string option"
  ar_provenance :: run_provenance
  ar_orchestrationId :: "string option"
  ar_rootMemberId :: string
  ar_budget :: agent_run_budget
  ar_result :: "agent_run_result option"
  ar_resultDelivery :: "result_delivery option"
  ar_error :: "agent_run_failure option"
  ar_cleanup :: "cleanup_diagnostic option"
  ar_createdAt :: string
  ar_updatedAt :: string
  ar_completedAt :: "string option"

record run_db =
  rd_runs :: "agent_run list"
  rd_members :: "run_member list"
  rd_timeline :: "timeline_entry list"

datatype agent_run_error =
    RunNotFound string
  | RunMemberNotFound string
  | RunIdempotencyConflict string
  | RunRevisionConflict nat nat
  | RunInitiatingInstanceUnknown string
  | RunOrchestrationUnknown string
  | RunEntryRequired "string list"
  | RunEntryInvalid string
  | RunInvocationForbidden string
  | RunExecutionUnsupported
  | RunAlreadyTerminal agent_run_status
  | RunTerminal agent_run_status
  | RunParentMemberNotFound string
  | RunMemberIdempotencyConflict string
  | RunMemberBudgetExceeded nat
  | RunDepthBudgetExceeded nat
  | RunSnapshotInstanceMismatch
  | RunStatusTransitionInvalid agent_run_status agent_run_status
  | RunTimelineMemberNotFound string
  | RunConstraintFailed
  | RunWaitAborted string
  | RunGrantInvalid
  | RunAgentError agent_error

definition run_terminal :: "agent_run_status \<Rightarrow> bool" where
  "run_terminal s = (s \<in> {RunCompleted, RunFailed, RunCancelled})"

fun run_transitions :: "agent_run_status \<Rightarrow> agent_run_status list" where
  "run_transitions RunQueued = [RunPreparing, RunFinalizing]"
| "run_transitions RunPreparing = [RunRunning, RunFinalizing]"
| "run_transitions RunRunning = [RunFinalizing]"
| "run_transitions RunFinalizing = [RunCompleted, RunFailed, RunCancelled]"
| "run_transitions _ = []"

definition canTransitionAgentRunStatus :: "agent_run_status \<Rightarrow> agent_run_status \<Rightarrow> bool" where
  "canTransitionAgentRunStatus a b = (a = b \<or> b \<in> set (run_transitions a))"

text \<open>A run leaves \<^verbatim>\<open>finalizing\<close> only after its root member and the clean-up have converged.\<close>

definition agentRunTerminalStatus :: "agent_run_status \<Rightarrow> cleanup_diagnostic option \<Rightarrow> agent_run_status option" where
  "agentRunTerminalStatus root cleanup =
     (case cleanup of
        None \<Rightarrow> None
      | Some c \<Rightarrow>
          if \<not> run_terminal root then None
          else if cd_status c = CleanupManual then Some RunFailed
          else if cd_status c \<noteq> CleanupCompleted then None
          else Some root)"

section \<open>The repository\<close>

definition agent_run_get :: "string \<Rightarrow> run_db \<Rightarrow> agent_run option" where
  "agent_run_get rid db = List.find (\<lambda>r. ar_runId r = rid) (rd_runs db)"

definition agent_run_require :: "string \<Rightarrow> run_db \<Rightarrow> agent_run_error + agent_run" where
  "agent_run_require rid db = (case agent_run_get rid db of None \<Rightarrow> Inl (RunNotFound rid) | Some r \<Rightarrow> Inr r)"

definition getByClientRequestId :: "string \<Rightarrow> run_db \<Rightarrow> agent_run option" where
  "getByClientRequestId request db = List.find (\<lambda>r. ar_clientRequestId r = request) (rd_runs db)"

definition members_of :: "string \<Rightarrow> run_db \<Rightarrow> run_member list" where
  "members_of rid db = filter (\<lambda>m. mb_runId m = rid) (rd_members db)"

definition member_get :: "string \<Rightarrow> string \<Rightarrow> run_db \<Rightarrow> run_member option" where
  "member_get rid mid db = List.find (\<lambda>m. mb_memberId m = mid) (members_of rid db)"

definition agent_runs_list :: "run_db \<Rightarrow> agent_run list" where
  "agent_runs_list db = js_sort (\<lambda>a b. ar_createdAt b < ar_createdAt a \<or> ar_createdAt a = ar_createdAt b \<and> ar_runId b \<le> ar_runId a) (rd_runs db)"

definition run_orchestrationId :: "agent_run \<Rightarrow> run_db \<Rightarrow> string option" where
  "run_orchestrationId r db =
     (if truthy (ar_orchestrationId r) then ar_orchestrationId r
      else Option.bind (member_get (ar_runId r) (ar_rootMemberId r) db) (\<lambda>m. defaultAgentOrchestrationId (mb_agentId m)))"

record run_create_input =
  ci_clientRequestId :: string
  ci_orchestrationId :: string
  ci_input :: string
  ci_provenance :: run_provenance
  ci_budget :: agent_run_budget
  ci_agentId :: string
  ci_instanceId :: string
  ci_executionSnapshot :: execution_snapshot

record member_input =
  mi_runId :: string
  mi_clientRequestId :: string
  mi_parentMemberId :: string
  mi_agentId :: string
  mi_instanceId :: string
  mi_executionSnapshot :: execution_snapshot
  mi_input :: string

text \<open>The values of one call: the identifiers and the time stamp it would use.\<close>

record call_ids =
  id_run :: string
  id_member :: string
  id_timestamp :: string

definition new_agent_run :: "call_ids \<Rightarrow> run_create_input \<Rightarrow> agent_run" where
  "new_agent_run ids i = \<lparr>ar_runId = id_run ids, ar_clientRequestId = ci_clientRequestId i, ar_revision = 0, ar_status = RunQueued,
     ar_input = Some (ci_input i), ar_provenance = ci_provenance i, ar_orchestrationId = Some (ci_orchestrationId i), ar_rootMemberId = id_member ids,
     ar_budget = ci_budget i, ar_result = None, ar_resultDelivery = None, ar_error = None, ar_cleanup = None,
     ar_createdAt = id_timestamp ids, ar_updatedAt = id_timestamp ids, ar_completedAt = None\<rparr>"

definition new_root :: "call_ids \<Rightarrow> run_create_input \<Rightarrow> run_member" where
  "new_root ids i = \<lparr>mb_memberId = id_member ids, mb_runId = id_run ids, mb_clientRequestId = ci_clientRequestId i, mb_agentId = ci_agentId i,
     mb_parentMemberId = None, mb_instanceId = ci_instanceId i, mb_aiSessionId = None, mb_role = RootMember, mb_depth = 0, mb_status = RunQueued,
     mb_input = Some (ci_input i), mb_executionSnapshot = stored_snapshot (ci_executionSnapshot i), mb_result = None, mb_error = None,
     mb_createdAt = id_timestamp ids, mb_updatedAt = id_timestamp ids, mb_completedAt = None\<rparr>"

definition new_callee :: "call_ids \<Rightarrow> nat \<Rightarrow> member_input \<Rightarrow> run_member" where
  "new_callee ids depth i = \<lparr>mb_memberId = id_member ids, mb_runId = mi_runId i, mb_clientRequestId = mi_clientRequestId i, mb_agentId = mi_agentId i,
     mb_parentMemberId = Some (mi_parentMemberId i), mb_instanceId = mi_instanceId i, mb_aiSessionId = None, mb_role = CalleeMember, mb_depth = depth,
     mb_status = RunQueued, mb_input = Some (mi_input i), mb_executionSnapshot = stored_snapshot (mi_executionSnapshot i), mb_result = None, mb_error = None,
     mb_createdAt = id_timestamp ids, mb_updatedAt = id_timestamp ids, mb_completedAt = None\<rparr>"

definition same_create_request :: "run_create_input \<Rightarrow> agent_run \<Rightarrow> run_db \<Rightarrow> bool" where
  "same_create_request i existing db =
     (run_orchestrationId existing db = Some (ci_orchestrationId i)
      \<and> (case member_get (ar_runId existing) (ar_rootMemberId existing) db of
           None \<Rightarrow> False
         | Some root \<Rightarrow> mb_agentId root = ci_agentId i \<and> mb_instanceId root = ci_instanceId i \<and> mb_executionSnapshot root = ci_executionSnapshot i)
      \<and> ar_input existing = Some (ci_input i) \<and> ar_provenance existing = ci_provenance i \<and> ar_budget existing = ci_budget i)"

text \<open>The tables' keys: the ids, the client request id of a run, and the client request id of a member within its run.\<close>

definition insert_rows :: "agent_run list \<Rightarrow> run_member \<Rightarrow> run_db \<Rightarrow> agent_run_error + run_db" where
  "insert_rows rs m db =
     (if (\<exists>r \<in> set rs. ar_runId r \<in> ar_runId ` set (rd_runs db) \<or> ar_clientRequestId r \<in> ar_clientRequestId ` set (rd_runs db))
         \<or> mb_memberId m \<in> mb_memberId ` set (rd_members db)
         \<or> mb_clientRequestId m \<in> mb_clientRequestId ` set (members_of (mb_runId m) db) then Inl RunConstraintFailed
      else Inr (db\<lparr>rd_runs := rd_runs db @ rs, rd_members := rd_members db @ [m]\<rparr>))"

definition runs_create :: "call_ids \<Rightarrow> run_create_input \<Rightarrow> run_db \<Rightarrow> agent_run_error + agent_run \<times> run_db" where
  "runs_create ids i db =
     (case getByClientRequestId (ci_clientRequestId i) db of
        Some existing \<Rightarrow> if same_create_request i existing db then Inr (existing, db) else Inl (RunIdempotencyConflict (ar_runId existing))
      | None \<Rightarrow>
          if sn_targetInstanceId (ci_executionSnapshot i) \<noteq> ci_instanceId i then Inl RunSnapshotInstanceMismatch
          else (case insert_rows [new_agent_run ids i] (new_root ids i) db of Inl e \<Rightarrow> Inl e | Inr db \<Rightarrow> Inr (new_agent_run ids i, db)))"

definition update_run :: "string \<Rightarrow> (agent_run \<Rightarrow> agent_run) \<Rightarrow> run_db \<Rightarrow> run_db" where
  "update_run rid f db = db\<lparr>rd_runs := map (\<lambda>r. if ar_runId r = rid then f r else r) (rd_runs db)\<rparr>"

definition update_member :: "string \<Rightarrow> string \<Rightarrow> (run_member \<Rightarrow> run_member) \<Rightarrow> run_db \<Rightarrow> run_db" where
  "update_member rid mid f db = db\<lparr>rd_members := map (\<lambda>m. if mb_runId m = rid \<and> mb_memberId m = mid then f m else m) (rd_members db)\<rparr>"

definition bumpRevision :: "string \<Rightarrow> string \<Rightarrow> run_db \<Rightarrow> run_db" where
  "bumpRevision rid timestamp = update_run rid (\<lambda>r. r\<lparr>ar_revision := ar_revision r + 1, ar_updatedAt := timestamp\<rparr>)"

definition same_member_request :: "member_input \<Rightarrow> run_member \<Rightarrow> bool" where
  "same_member_request i m =
     (mb_parentMemberId m = Some (mi_parentMemberId i) \<and> mb_agentId m = mi_agentId i \<and> mb_instanceId m = mi_instanceId i
      \<and> mb_input m = Some (mi_input i) \<and> mb_executionSnapshot m = mi_executionSnapshot i)"

definition runs_addMember :: "call_ids \<Rightarrow> member_input \<Rightarrow> run_db \<Rightarrow> agent_run_error + run_member \<times> run_db" where
  "runs_addMember ids i db =
     (case agent_run_require (mi_runId i) db of
        Inl e \<Rightarrow> Inl e
      | Inr run \<Rightarrow>
          if run_terminal (ar_status run) then Inl (RunTerminal (ar_status run))
          else case member_get (mi_runId i) (mi_parentMemberId i) db of
            None \<Rightarrow> Inl (RunParentMemberNotFound (mi_parentMemberId i))
          | Some parent \<Rightarrow>
              (case List.find (\<lambda>m. mb_clientRequestId m = mi_clientRequestId i) (members_of (mi_runId i) db) of
                 Some existing \<Rightarrow>
                   if same_member_request i existing then Inr (existing, db) else Inl (RunMemberIdempotencyConflict (mb_memberId existing))
               | None \<Rightarrow>
                   if length (members_of (mi_runId i) db) \<ge> ab_maxMembers (ar_budget run) then Inl (RunMemberBudgetExceeded (ab_maxMembers (ar_budget run)))
                   else let depth = mb_depth parent + 1 in
                     if depth > ab_maxDepth (ar_budget run) then Inl (RunDepthBudgetExceeded depth)
                     else if sn_targetInstanceId (mi_executionSnapshot i) \<noteq> mi_instanceId i then Inl RunSnapshotInstanceMismatch
                     else case insert_rows [] (new_callee ids depth i) db of
                            Inl e \<Rightarrow> Inl e
                          | Inr db \<Rightarrow> Inr (new_callee ids depth i, bumpRevision (mi_runId i) (id_timestamp ids) db)))"

definition patched_or :: "'a option \<Rightarrow> 'a patched \<Rightarrow> 'a option" where
  "patched_or current p = (case p of Absent \<Rightarrow> current | Null \<Rightarrow> None | Given x \<Rightarrow> Some x)"

record agent_run_transition =
  rt_status :: agent_run_status
  rt_result :: "agent_run_result patched"
  rt_resultDelivery :: "result_delivery patched"
  rt_error :: "agent_run_failure patched"
  rt_cleanup :: "cleanup_diagnostic patched"

record member_transition =
  mt_status :: agent_run_status
  mt_result :: "agent_run_result patched"
  mt_error :: "agent_run_failure patched"
  mt_aiSessionId :: "string patched"

definition completed_at :: "agent_run_status \<Rightarrow> string option \<Rightarrow> string \<Rightarrow> string option" where
  "completed_at status current timestamp = (if run_terminal status then js_nullish current (Some timestamp) else None)"

definition run_after :: "string \<Rightarrow> agent_run_transition \<Rightarrow> agent_run \<Rightarrow> agent_run" where
  "run_after timestamp t r = r\<lparr>ar_status := rt_status t, ar_revision := ar_revision r + 1, ar_result := patched_or (ar_result r) (rt_result t),
     ar_resultDelivery := patched_or (ar_resultDelivery r) (rt_resultDelivery t), ar_error := patched_or (ar_error r) (rt_error t),
     ar_cleanup := patched_or (ar_cleanup r) (rt_cleanup t), ar_updatedAt := timestamp,
     ar_completedAt := completed_at (rt_status t) (ar_completedAt r) timestamp\<rparr>"

definition runs_transitionRun :: "string \<Rightarrow> string \<Rightarrow> agent_run_transition \<Rightarrow> run_db \<Rightarrow> agent_run_error + agent_run \<times> run_db" where
  "runs_transitionRun timestamp rid t db =
     (case agent_run_require rid db of
        Inl e \<Rightarrow> Inl e
      | Inr current \<Rightarrow>
          if \<not> canTransitionAgentRunStatus (ar_status current) (rt_status t) then Inl (RunStatusTransitionInvalid (ar_status current) (rt_status t))
          else if rt_status t = ar_status current \<and> patched_or (ar_result current) (rt_result t) = ar_result current
            \<and> patched_or (ar_resultDelivery current) (rt_resultDelivery t) = ar_resultDelivery current
            \<and> patched_or (ar_error current) (rt_error t) = ar_error current
            \<and> patched_or (ar_cleanup current) (rt_cleanup t) = ar_cleanup current then Inr (current, db)
          else Inr (run_after timestamp t current, update_run rid (run_after timestamp t) db))"

definition member_after :: "string \<Rightarrow> member_transition \<Rightarrow> run_member \<Rightarrow> run_member" where
  "member_after timestamp t m = m\<lparr>mb_status := mt_status t, mb_result := patched_or (mb_result m) (mt_result t),
     mb_error := patched_or (mb_error m) (mt_error t), mb_aiSessionId := patched_or (mb_aiSessionId m) (mt_aiSessionId t), mb_updatedAt := timestamp,
     mb_completedAt := completed_at (mt_status t) (mb_completedAt m) timestamp\<rparr>"

definition runs_transitionMember :: "string \<Rightarrow> string \<Rightarrow> string \<Rightarrow> member_transition \<Rightarrow> run_db \<Rightarrow> agent_run_error + run_member \<times> run_db" where
  "runs_transitionMember timestamp rid mid t db =
     (case member_get rid mid db of
        None \<Rightarrow> Inl (RunMemberNotFound mid)
      | Some current \<Rightarrow>
          if \<not> canTransitionAgentRunStatus (mb_status current) (mt_status t) then Inl (RunStatusTransitionInvalid (mb_status current) (mt_status t))
          else if mt_status t = mb_status current \<and> patched_or (mb_result current) (mt_result t) = mb_result current
            \<and> patched_or (mb_error current) (mt_error t) = mb_error current
            \<and> patched_or (mb_aiSessionId current) (mt_aiSessionId t) = mb_aiSessionId current then Inr (current, db)
          else Inr (member_after timestamp t current, bumpRevision rid timestamp (update_member rid mid (member_after timestamp t) db)))"

definition next_sequence :: "string \<Rightarrow> run_db \<Rightarrow> nat" where
  "next_sequence rid db = fold max (map te_sequence (filter (\<lambda>e. te_runId e = rid) (rd_timeline db))) 0 + 1"

definition runs_appendTimeline :: "string \<Rightarrow> string \<Rightarrow> string \<Rightarrow> string option \<Rightarrow> json \<Rightarrow> run_db \<Rightarrow> agent_run_error + timeline_entry \<times> run_db" where
  "runs_appendTimeline timestamp rid kind mid data db =
     (case agent_run_require rid db of
        Inl e \<Rightarrow> Inl e
      | Inr _ \<Rightarrow>
          if truthy mid \<and> member_get rid (str_of mid) db = None then Inl (RunTimelineMemberNotFound (str_of mid))
          else let e = \<lparr>te_runId = rid, te_sequence = next_sequence rid db, te_timestamp = timestamp, te_kind = kind, te_memberId = mid, te_data = data\<rparr>
               in Inr (e, bumpRevision rid timestamp (db\<lparr>rd_timeline := rd_timeline db @ [e]\<rparr>)))"

section \<open>The service\<close>

datatype agent_run_event = RunChanged agent_run | MemberChanged string nat run_member

text \<open>
  \<open>sv_agents\<close> are the tables of definitions and orchestrations; \<open>sv_accepted\<close> and \<open>sv_cancelled\<close> are the calls of the coordinator.
\<close>

record run_service =
  sv_agents :: agent_db
  sv_db :: run_db
  sv_events :: "agent_run_event list"
  sv_accepted :: "(string \<times> string) list"
  sv_cancelled :: "string list"

text \<open>The parameters of one call; \<open>re_supports\<close> is \<^verbatim>\<open>supportsExecution\<close> on the definition and the type of its runtime.\<close>

record run_env =
  re_agent :: agent_env
  re_node :: node_view
  re_supports :: "agent_definition \<Rightarrow> bool"
  re_ids :: call_ids

definition effectiveAgentRunBudget :: "agent_run_budget option \<Rightarrow> agent_run_budget" where
  "effectiveAgentRunBudget requested =
     (case requested of
        None \<Rightarrow> AGENT_RUN_DEFAULT_BUDGET
      | Some b \<Rightarrow> \<lparr>ab_maxMembers = min (ab_maxMembers b) (ab_maxMembers AGENT_RUN_DEFAULT_BUDGET),
          ab_maxDepth = min (ab_maxDepth b) (ab_maxDepth AGENT_RUN_DEFAULT_BUDGET),
          ab_maxConcurrency = min (ab_maxConcurrency b) (ab_maxConcurrency AGENT_RUN_DEFAULT_BUDGET)\<rparr>)"

definition orchestration_graph :: "orchestration \<Rightarrow> orch_graph" where
  "orchestration_graph orch = \<lparr>og_agentIds = oc_agentIds orch, og_edges = oc_edges orch\<rparr>"

definition resolveAgentRunEntry :: "orchestration \<Rightarrow> string option \<Rightarrow> agent_run_error + string" where
  "resolveAgentRunEntry orch entryAgentId =
     (if truthy entryAgentId then
        (if agentOrchestrationContainsAgent (orchestration_graph orch) (str_of entryAgentId) then Inr (str_of entryAgentId)
         else Inl (RunEntryInvalid (str_of entryAgentId)))
      else case agentOrchestrationEntryAgentIds (orchestration_graph orch) of
             [entry] \<Rightarrow> Inr entry
           | entries \<Rightarrow> Inl (RunEntryRequired entries))"

definition requireOrchestrationForRun :: "run_env \<Rightarrow> agent_db \<Rightarrow> string option \<Rightarrow> agent_run_error + orchestration" where
  "requireOrchestrationForRun env agents oid =
     (case orch_get (re_agent env) agents (str_of oid) of
        Inl e \<Rightarrow> Inl (RunAgentError e)
      | Inr None \<Rightarrow> Inl (RunOrchestrationUnknown (str_of oid))
      | Inr (Some orch) \<Rightarrow> Inr orch)"

definition execution_snapshot_of :: "agent_definition \<Rightarrow> execution_snapshot" where
  "execution_snapshot_of d = (let f = ad_fields d in \<lparr>sn_agentRevision = ad_revision d, sn_targetInstanceId = df_targetInstanceId f,
     sn_cwdFolderId = df_cwdFolderId f, sn_appendedPrompt = df_appendedPrompt f, sn_providerId = df_providerId f,
     sn_modelEntityId = own_property (df_modelEntityId f), sn_modelName = own_property (df_modelName f),
     sn_modelUpstreamName = own_property (df_modelUpstreamName f), sn_reasoningEffort = own_property (df_reasoningEffort f),
     sn_permissionMode = own_property (df_permissionMode f), sn_executionPolicy = df_executionPolicy f\<rparr>)"

record agent_run_request =
  rq_clientRequestId :: string
  rq_orchestrationId :: string
  rq_entryAgentId :: "string option"
  rq_input :: string
  rq_provenance :: run_provenance
  rq_budget :: "agent_run_budget option"

definition publish_run :: "agent_run \<Rightarrow> run_service \<Rightarrow> run_service" where
  "publish_run r s = s\<lparr>sv_events := sv_events s @ [RunChanged r]\<rparr>"

definition publish_member :: "agent_run \<Rightarrow> run_member \<Rightarrow> run_service \<Rightarrow> run_service" where
  "publish_member r m s = s\<lparr>sv_events := sv_events s @ [MemberChanged (ar_runId r) (ar_revision r) m]\<rparr>"

definition accept_member :: "string \<Rightarrow> string \<Rightarrow> run_service \<Rightarrow> run_service" where
  "accept_member rid mid s = s\<lparr>sv_accepted := sv_accepted s @ [(rid, mid)]\<rparr>"

definition same_run_request :: "agent_run_request \<Rightarrow> agent_run \<Rightarrow> run_db \<Rightarrow> bool" where
  "same_run_request q existing db =
     (run_orchestrationId existing db = Some (rq_orchestrationId q)
      \<and> (rq_entryAgentId q = None \<or> map_option mb_agentId (member_get (ar_runId existing) (ar_rootMemberId existing) db) = rq_entryAgentId q)
      \<and> ar_input existing = Some (rq_input q) \<and> ar_provenance existing = rq_provenance q
      \<and> ar_budget existing = effectiveAgentRunBudget (rq_budget q))"

definition initiator_known :: "run_env \<Rightarrow> run_provenance \<Rightarrow> bool" where
  "initiator_known env p = (case p of StoryProvenance instanceId _ _ _ \<Rightarrow> nv_hasInstance (re_node env) instanceId | ControlPlaneProvenance _ \<Rightarrow> True)"

definition initiating_instance :: "run_provenance \<Rightarrow> string" where
  "initiating_instance p = (case p of StoryProvenance instanceId _ _ _ \<Rightarrow> instanceId | ControlPlaneProvenance _ \<Rightarrow> [])"

definition resolve_supported :: "run_env \<Rightarrow> string \<Rightarrow> agent_db \<Rightarrow> agent_run_error + agent_definition" where
  "resolve_supported env agentId agents =
     (case resolveExecution (re_node env) agentId agents of
        Inl e \<Rightarrow> Inl (RunAgentError e)
      | Inr d \<Rightarrow> if re_supports env d then Inr d else Inl RunExecutionUnsupported)"

definition create_input :: "agent_run_request \<Rightarrow> orchestration \<Rightarrow> agent_definition \<Rightarrow> run_create_input" where
  "create_input q orch d = \<lparr>ci_clientRequestId = rq_clientRequestId q, ci_orchestrationId = oc_id orch, ci_input = rq_input q,
     ci_provenance = rq_provenance q, ci_budget = effectiveAgentRunBudget (rq_budget q), ci_agentId = ad_id d,
     ci_instanceId = df_targetInstanceId (ad_fields d), ci_executionSnapshot = execution_snapshot_of d\<rparr>"

definition run_create :: "run_env \<Rightarrow> agent_run_request \<Rightarrow> run_service \<Rightarrow> (agent_run_error + agent_run) \<times> run_service" where
  "run_create env q s =
     (case getByClientRequestId (rq_clientRequestId q) (sv_db s) of
        Some existing \<Rightarrow> (if same_run_request q existing (sv_db s) then Inr existing else Inl (RunIdempotencyConflict (ar_runId existing)), s)
      | None \<Rightarrow>
          if \<not> initiator_known env (rq_provenance q) then (Inl (RunInitiatingInstanceUnknown (initiating_instance (rq_provenance q))), s)
          else case requireOrchestrationForRun env (sv_agents s) (Some (rq_orchestrationId q)) of
            Inl e \<Rightarrow> (Inl e, s)
          | Inr orch \<Rightarrow> (case resolveAgentRunEntry orch (rq_entryAgentId q) of
              Inl e \<Rightarrow> (Inl e, s)
            | Inr entry \<Rightarrow> (case resolve_supported env entry (sv_agents s) of
                Inl e \<Rightarrow> (Inl e, s)
              | Inr d \<Rightarrow> (case runs_create (re_ids env) (create_input q orch d) (sv_db s) of
                  Inl e \<Rightarrow> (Inl e, s)
                | Inr (r, db) \<Rightarrow>
                    let s = publish_run r (s\<lparr>sv_db := db\<rparr>)
                    in (Inr r, case member_get (ar_runId r) (ar_rootMemberId r) db of
                         None \<Rightarrow> s
                       | Some m \<Rightarrow> accept_member (ar_runId r) (mb_memberId m) (publish_member r m s))))))"

definition run_appendTimeline :: "run_env \<Rightarrow> string \<Rightarrow> string \<Rightarrow> string option \<Rightarrow> json \<Rightarrow> run_service \<Rightarrow> (agent_run_error + timeline_entry) \<times> run_service" where
  "run_appendTimeline env rid kind mid data s =
     (case runs_appendTimeline (id_timestamp (re_ids env)) rid kind mid data (sv_db s) of
        Inl e \<Rightarrow> (Inl e, s)
      | Inr (entry, db) \<Rightarrow> (Inr entry, case agent_run_get rid db of None \<Rightarrow> s\<lparr>sv_db := db\<rparr> | Some r \<Rightarrow> publish_run r (s\<lparr>sv_db := db\<rparr>)))"

definition policy_difference :: "execution_snapshot \<Rightarrow> agent_definition \<Rightarrow> (string \<times> bool) list" where
  "policy_difference parent d =
     [(''permissionModeChanged'', stored_property (sn_permissionMode parent) \<noteq> stored_property (own_property (df_permissionMode (ad_fields d)))),
      (''workspaceMaterializerChanged'', ep_workspaceMaterializer (sn_executionPolicy parent) \<noteq> ep_workspaceMaterializer (df_executionPolicy (ad_fields d))),
      (''processSandboxChanged'', ep_processSandbox (sn_executionPolicy parent) \<noteq> ep_processSandbox (df_executionPolicy (ad_fields d))),
      (''providerChanged'', sn_providerId parent \<noteq> df_providerId (ad_fields d))]"

definition note_policy_difference :: "run_env \<Rightarrow> string \<Rightarrow> run_member \<Rightarrow> run_member \<Rightarrow> agent_definition \<Rightarrow> run_service \<Rightarrow> run_service" where
  "note_policy_difference env rid parent m d s =
     (let difference = policy_difference (mb_executionSnapshot parent) d
      in if list_ex snd difference
         then snd (run_appendTimeline env rid ''member.policy-difference'' (Some (mb_memberId m))
                (JObj ((''parentMemberId'', JStr (mb_memberId parent)) # map (\<lambda>(k, v). (k, JBool v)) difference)) s)
         else s)"

record member_request =
  mq_runId :: string
  mq_parentMemberId :: string
  mq_clientRequestId :: string
  mq_agentId :: string
  mq_input :: string

definition invocation_input :: "member_request \<Rightarrow> agent_definition \<Rightarrow> member_input" where
  "invocation_input q d = \<lparr>mi_runId = mq_runId q, mi_clientRequestId = mq_clientRequestId q, mi_parentMemberId = mq_parentMemberId q,
     mi_agentId = ad_id d, mi_instanceId = df_targetInstanceId (ad_fields d), mi_executionSnapshot = execution_snapshot_of d, mi_input = mq_input q\<rparr>"

text \<open>The checks of \<^verbatim>\<open>addMember\<close> before the transaction: the invoking member and the definition of the invoked agent.\<close>

definition authorise_invocation :: "run_env \<Rightarrow> member_request \<Rightarrow> run_service \<Rightarrow> agent_run_error + run_member \<times> agent_definition" where
  "authorise_invocation env q s =
     (case agent_run_get (mq_runId q) (sv_db s) of
        None \<Rightarrow> Inl (RunNotFound (mq_runId q))
      | Some run \<Rightarrow>
          if ar_status run \<noteq> RunRunning then Inl (RunAlreadyTerminal (ar_status run))
          else case member_get (mq_runId q) (mq_parentMemberId q) (sv_db s) of
            None \<Rightarrow> Inl (RunMemberNotFound (mq_parentMemberId q))
          | Some parent \<Rightarrow>
              if mb_status parent \<noteq> RunRunning then Inl (RunAlreadyTerminal (mb_status parent))
              else (case requireOrchestrationForRun env (sv_agents s) (run_orchestrationId run (sv_db s)) of
                Inl e \<Rightarrow> Inl e
              | Inr orch \<Rightarrow>
                  if \<not> agentOrchestrationHasEdge (orchestration_graph orch) (mb_agentId parent) (mq_agentId q)
                  then Inl (RunInvocationForbidden (mq_agentId q))
                  else map_sum id (Pair parent) (resolve_supported env (mq_agentId q) (sv_agents s))))"

definition run_addMember :: "run_env \<Rightarrow> member_request \<Rightarrow> run_service \<Rightarrow> (agent_run_error + run_member) \<times> run_service" where
  "run_addMember env q s =
     (case authorise_invocation env q s of
        Inl e \<Rightarrow> (Inl e, s)
      | Inr (parent, d) \<Rightarrow>
          (case runs_addMember (re_ids env) (invocation_input q d) (sv_db s) of
             Inl e \<Rightarrow> (Inl e, s)
           | Inr (m, db) \<Rightarrow>
               let s = s\<lparr>sv_db := db\<rparr>;
                   updated = agent_run_get (mq_runId q) db;
                   s = note_policy_difference env (mq_runId q) parent m d s;
                   s = (case updated of None \<Rightarrow> s | Some r \<Rightarrow> publish_member r m s)
               in (Inr m, if mb_status m = RunQueued then accept_member (mq_runId q) (mb_memberId m) s else s)))"

definition run_transitionMember :: "run_env \<Rightarrow> string \<Rightarrow> string \<Rightarrow> member_transition \<Rightarrow> run_service \<Rightarrow> (agent_run_error + run_member) \<times> run_service" where
  "run_transitionMember env rid mid t s =
     (case agent_run_require rid (sv_db s) of
        Inl e \<Rightarrow> (Inl e, s)
      | Inr before \<Rightarrow>
          (case runs_transitionMember (id_timestamp (re_ids env)) rid mid t (sv_db s) of
             Inl e \<Rightarrow> (Inl e, s)
           | Inr (m, db) \<Rightarrow>
               let s = s\<lparr>sv_db := db\<rparr>
               in (Inr m, case agent_run_get rid db of None \<Rightarrow> s | Some r \<Rightarrow> if ar_revision r \<noteq> ar_revision before then publish_member r m s else s)))"

definition run_transitionRun :: "run_env \<Rightarrow> string \<Rightarrow> agent_run_transition \<Rightarrow> run_service \<Rightarrow> (agent_run_error + agent_run) \<times> run_service" where
  "run_transitionRun env rid t s =
     (case runs_transitionRun (id_timestamp (re_ids env)) rid t (sv_db s) of
        Inl e \<Rightarrow> (Inl e, s)
      | Inr (r, db) \<Rightarrow> (Inr r, publish_run r (s\<lparr>sv_db := db\<rparr>)))"

definition only_status :: "agent_run_status \<Rightarrow> agent_run_transition" where
  "only_status status = \<lparr>rt_status = status, rt_result = Absent, rt_resultDelivery = Absent, rt_error = Absent, rt_cleanup = Absent\<rparr>"

definition run_cancel :: "run_env \<Rightarrow> string \<Rightarrow> nat option \<Rightarrow> run_service \<Rightarrow> (agent_run_error + agent_run) \<times> run_service" where
  "run_cancel env rid expectedRevision s =
     (case agent_run_require rid (sv_db s) of
        Inl e \<Rightarrow> (Inl e, s)
      | Inr current \<Rightarrow>
          if expectedRevision \<noteq> None \<and> expectedRevision \<noteq> Some (ar_revision current)
          then (Inl (RunRevisionConflict (the expectedRevision) (ar_revision current)), s)
          else if ar_status current = RunFinalizing then (Inr current, s)
          else if run_terminal (ar_status current) then (Inl (RunAlreadyTerminal (ar_status current)), s)
          else (case runs_transitionRun (id_timestamp (re_ids env)) rid (only_status RunFinalizing) (sv_db s) of
                  Inl e \<Rightarrow> (Inl e, s)
                | Inr (r, db) \<Rightarrow> (Inr r, publish_run r (s\<lparr>sv_db := db, sv_cancelled := sv_cancelled s @ [rid]\<rparr>))))"

datatype tool_result = ToolCompleted string bool | ToolEnded agent_run_status agent_run_failure

definition default_failure :: "agent_run_status \<Rightarrow> agent_run_failure" where
  "default_failure status = (if status = RunCancelled
     then \<lparr>af_code = ''AGENT_RUN_CANCELLED'', af_message = ''The Agent Run was cancelled.'', af_retryable = False, af_details = None\<rparr>
     else \<lparr>af_code = ''AGENT_RUN_FAILED'', af_message = ''The Agent Run failed.'', af_retryable = False, af_details = None\<rparr>)"

definition default_member_failure :: "agent_run_status \<Rightarrow> agent_run_failure" where
  "default_member_failure status = (if status = RunCancelled
     then \<lparr>af_code = ''AGENT_RUN_MEMBER_CANCELLED'', af_message = ''The Agent Run member was cancelled.'', af_retryable = False, af_details = None\<rparr>
     else \<lparr>af_code = ''AGENT_RUN_MEMBER_FAILED'', af_message = ''The Agent Run member failed.'', af_retryable = False, af_details = None\<rparr>)"

definition toolResult :: "string \<Rightarrow> run_db \<Rightarrow> agent_run_error + tool_result option" where
  "toolResult rid db =
     (case agent_run_require rid db of
        Inl e \<Rightarrow> Inl e
      | Inr r \<Rightarrow>
          Inr (if \<not> run_terminal (ar_status r) then None
               else if ar_status r = RunCompleted then
                 let text = (case ar_result r of None \<Rightarrow> [] | Some x \<Rightarrow> rs_text x);
                     bounded = take AGENT_RUN_MAX_TOOL_RESULT_CHARACTERS text
                 in Some (ToolCompleted bounded ((case ar_result r of None \<Rightarrow> False | Some x \<Rightarrow> rs_truncated x) \<or> length bounded < length text))
               else Some (ToolEnded (ar_status r) (case ar_error r of None \<Rightarrow> default_failure (ar_status r) | Some e \<Rightarrow> e))))"

definition memberToolResult :: "string \<Rightarrow> string \<Rightarrow> run_db \<Rightarrow> agent_run_error + tool_result option" where
  "memberToolResult rid mid db =
     (case agent_run_require rid db of
        Inl e \<Rightarrow> Inl e
      | Inr _ \<Rightarrow>
          (case member_get rid mid db of
             None \<Rightarrow> Inl (RunMemberNotFound mid)
           | Some m \<Rightarrow>
               Inr (if \<not> run_terminal (mb_status m) then None
                    else if mb_status m = RunCompleted then
                      let text = (case mb_result m of None \<Rightarrow> [] | Some x \<Rightarrow> rs_text x);
                          bounded = take AGENT_RUN_MAX_TOOL_RESULT_CHARACTERS text
                      in Some (ToolCompleted bounded ((case mb_result m of None \<Rightarrow> False | Some x \<Rightarrow> rs_truncated x) \<or> length bounded < length text))
                    else Some (ToolEnded (mb_status m) (case mb_error m of None \<Rightarrow> default_member_failure (mb_status m) | Some e \<Rightarrow> e)))))"

text \<open>
  The two waiting loops poll. Each entry of the list is what one round sees: whether the signal is aborted, the milliseconds since the start
  and the tables; \<open>None\<close> means that the rounds so far leave the caller waiting.
\<close>

fun wait_for :: "(run_db \<Rightarrow> agent_run_error + tool_result option) \<Rightarrow> agent_run_failure \<Rightarrow> string \<Rightarrow> nat \<Rightarrow> (bool \<times> nat \<times> run_db) list
    \<Rightarrow> (agent_run_error + tool_result) option" where
  "wait_for look timeout rid timeoutMs [] = None"
| "wait_for look timeout rid timeoutMs ((aborted, elapsed, db) # rounds) =
     (case look db of
        Inl e \<Rightarrow> Some (Inl e)
      | Inr (Some r) \<Rightarrow> Some (Inr r)
      | Inr None \<Rightarrow>
          if aborted then Some (Inl (RunWaitAborted rid))
          else if timeoutMs \<le> elapsed then Some (Inr (ToolEnded RunFailed timeout))
          else wait_for look timeout rid timeoutMs rounds)"

definition waitForToolResult :: "string \<Rightarrow> nat \<Rightarrow> (bool \<times> nat \<times> run_db) list \<Rightarrow> (agent_run_error + tool_result) option" where
  "waitForToolResult rid = wait_for (toolResult rid)
     \<lparr>af_code = ''AGENT_RUN_RESULT_TIMEOUT'', af_message = ''The Agent Run did not reach a terminal state before the tool timeout.'',
       af_retryable = True, af_details = None\<rparr> rid"

definition waitForMemberToolResult :: "string \<Rightarrow> string \<Rightarrow> nat \<Rightarrow> (bool \<times> nat \<times> run_db) list \<Rightarrow> (agent_run_error + tool_result) option" where
  "waitForMemberToolResult rid mid = wait_for (memberToolResult rid mid)
     \<lparr>af_code = ''AGENT_RUN_MEMBER_RESULT_TIMEOUT'', af_message = ''The Agent Run member did not finish before the tool timeout.'',
       af_retryable = True, af_details = None\<rparr> rid"

text \<open>
  The tools of a member's session: the agents its orchestration lets it invoke that still exist, each once and in the order of
  \<^verbatim>\<open>localeCompare\<close>; the tool is offered when there is one.
\<close>

definition target_key :: "string \<times> string \<Rightarrow> string" where
  "target_key t = fst t @ [CHR 0x1F] @ snd t"

definition target_le :: "(string \<Rightarrow> string \<Rightarrow> bool) \<Rightarrow> string \<times> string \<Rightarrow> string \<times> string \<Rightarrow> bool" where
  "target_le collate a b = (if fst a = fst b then collate (snd a) (snd b) else collate (fst a) (fst b))"

definition target_parse :: "string \<times> string \<Rightarrow> (string \<times> string) option" where
  "target_parse t = (case (stable_id 120 (fst t), stable_id 160 (snd t)) of (Some a, Some o1) \<Rightarrow> Some (a, o1) | _ \<Rightarrow> None)"

definition resolveAgentInvocationToolGrant :: "(string \<Rightarrow> string \<Rightarrow> bool) \<Rightarrow> (string \<times> string) list \<Rightarrow> (string list \<times> (string \<times> string) list) option" where
  "resolveAgentInvocationToolGrant collate targets =
     (let allowed = js_sort (target_le collate) (jmap_values (foldl (\<lambda>m t. jmap_set (target_key t) t m) [] targets))
      in map_option (Pair (if allowed \<noteq> [] then [''agent_run''] else [])) (list_parse 50 target_parse allowed))"

definition resolveMemberInvocationTools :: "run_env \<Rightarrow> string \<Rightarrow> string \<Rightarrow> run_service \<Rightarrow> agent_run_error + string list \<times> (string \<times> string) list" where
  "resolveMemberInvocationTools env rid agentId s =
     (case agent_run_require rid (sv_db s) of
        Inl e \<Rightarrow> Inl e
      | Inr run \<Rightarrow> (case requireOrchestrationForRun env (sv_agents s) (run_orchestrationId run (sv_db s)) of
          Inl e \<Rightarrow> Inl e
        | Inr orch \<Rightarrow>
            (case resolveAgentInvocationToolGrant (ae_collate (re_agent env)) (map (\<lambda>e. (ed_toAgentId e, oc_id orch))
                (filter (\<lambda>e. ed_fromAgentId e = agentId \<and> jmap_has (db_definitions (sv_agents s)) (ed_toAgentId e)) (oc_edges orch))) of
               None \<Rightarrow> Inl RunGrantInvalid
             | Some grant \<Rightarrow> Inr grant)))"

section \<open>Runs of the service\<close>

datatype run_op =
    CreateRun agent_run_request
  | AddMember member_request
  | TransitionMember string string member_transition
  | TransitionRun string agent_run_transition
  | AppendTimeline string string "string option" json
  | CancelRun string "nat option"
  | AgentsChange agent_db

fun run_step :: "run_service \<Rightarrow> run_env \<times> run_op \<Rightarrow> run_service" where
  "run_step s (env, CreateRun q) = snd (run_create env q s)"
| "run_step s (env, AddMember q) = snd (run_addMember env q s)"
| "run_step s (env, TransitionMember rid mid t) = snd (run_transitionMember env rid mid t s)"
| "run_step s (env, TransitionRun rid t) = snd (run_transitionRun env rid t s)"
| "run_step s (env, AppendTimeline rid kind mid data) = snd (run_appendTimeline env rid kind mid data s)"
| "run_step s (env, CancelRun rid expected) = snd (run_cancel env rid expected s)"
| "run_step s (env, AgentsChange agents) = s\<lparr>sv_agents := agents\<rparr>"

definition no_runs :: "agent_db \<Rightarrow> run_service" where
  "no_runs agents = \<lparr>sv_agents = agents, sv_db = \<lparr>rd_runs = [], rd_members = [], rd_timeline = []\<rparr>, sv_events = [], sv_accepted = [], sv_cancelled = []\<rparr>"

end
