(* ===== verification/Agent_Run_Safety.thy ===== *)
theory Agent_Run_Safety
  imports Agent_Runs
begin

text \<open>
  What holds of agent runs: the shape of the tables, which every operation keeps (budgets, depths, keys, the numbering of the
  time line); what a later state keeps of an earlier one; who may invoke whom; and what a repeated request does.
\<close>

section \<open>The shape of the tables\<close>

text \<open>The parts of a run and of a member that never change.\<close>

record run_identity =
  fr_runId :: string
  fr_clientRequestId :: string
  fr_rootMemberId :: string
  fr_budget :: agent_run_budget
  fr_orchestrationId :: "string option"
  fr_input :: "string option"
  fr_provenance :: run_provenance

record member_identity =
  fm_memberId :: string
  fm_runId :: string
  fm_clientRequestId :: string
  fm_agentId :: string
  fm_parentMemberId :: "string option"
  fm_instanceId :: string
  fm_role :: member_role
  fm_depth :: nat
  fm_input :: "string option"
  fm_executionSnapshot :: execution_snapshot

definition run_frame :: "agent_run \<Rightarrow> run_identity" where
  "run_frame r = \<lparr>fr_runId = ar_runId r, fr_clientRequestId = ar_clientRequestId r, fr_rootMemberId = ar_rootMemberId r, fr_budget = ar_budget r,
     fr_orchestrationId = ar_orchestrationId r, fr_input = ar_input r, fr_provenance = ar_provenance r\<rparr>"

definition member_frame :: "run_member \<Rightarrow> member_identity" where
  "member_frame m = \<lparr>fm_memberId = mb_memberId m, fm_runId = mb_runId m, fm_clientRequestId = mb_clientRequestId m, fm_agentId = mb_agentId m,
     fm_parentMemberId = mb_parentMemberId m, fm_instanceId = mb_instanceId m, fm_role = mb_role m, fm_depth = mb_depth m, fm_input = mb_input m,
     fm_executionSnapshot = mb_executionSnapshot m\<rparr>"

definition root_frame :: "run_identity \<Rightarrow> member_identity \<Rightarrow> bool" where
  "root_frame r m \<longleftrightarrow> fm_runId m = fr_runId r \<and> fm_memberId m = fr_rootMemberId r \<and> fm_role m = RootMember \<and> fm_depth m = 0 \<and> fm_parentMemberId m = None"

definition callee_frame :: "member_identity list \<Rightarrow> member_identity \<Rightarrow> bool" where
  "callee_frame ms m \<longleftrightarrow> fm_role m = CalleeMember
     \<and> (\<exists>p \<in> set ms. fm_runId p = fm_runId m \<and> fm_parentMemberId m = Some (fm_memberId p) \<and> fm_depth m = fm_depth p + 1)"

definition within_default :: "agent_run_budget \<Rightarrow> bool" where
  "within_default b \<longleftrightarrow> ab_maxMembers b \<le> 16 \<and> ab_maxDepth b \<le> 4 \<and> ab_maxConcurrency b \<le> 4"

definition run_frame_ok :: "member_identity list \<Rightarrow> run_identity \<Rightarrow> bool" where
  "run_frame_ok ms r \<longleftrightarrow> (\<exists>m \<in> set ms. root_frame r m) \<and> length (filter (\<lambda>m. fm_runId m = fr_runId r) ms) \<le> ab_maxMembers (fr_budget r)
     \<and> within_default (fr_budget r)"

definition member_frame_ok :: "run_identity list \<Rightarrow> member_identity list \<Rightarrow> member_identity \<Rightarrow> bool" where
  "member_frame_ok rs ms m \<longleftrightarrow> sn_targetInstanceId (fm_executionSnapshot m) = fm_instanceId m
     \<and> (\<exists>r \<in> set rs. fr_runId r = fm_runId m \<and> fm_depth m \<le> ab_maxDepth (fr_budget r) \<and> (root_frame r m \<or> fm_memberId m \<noteq> fr_rootMemberId r \<and> callee_frame ms m))"

definition shape_ok :: "run_identity list \<Rightarrow> member_identity list \<Rightarrow> bool" where
  "shape_ok rs ms \<longleftrightarrow> distinct (map fr_runId rs) \<and> distinct (map fr_clientRequestId rs) \<and> distinct (map fm_memberId ms)
     \<and> distinct (map (\<lambda>m. (fm_runId m, fm_clientRequestId m)) ms) \<and> (\<forall>r \<in> set rs. run_frame_ok ms r) \<and> (\<forall>m \<in> set ms. member_frame_ok rs ms m)"

definition ended_ok :: "run_db \<Rightarrow> bool" where
  "ended_ok db \<longleftrightarrow> (\<forall>r \<in> set (rd_runs db). run_terminal (ar_status r) \<longleftrightarrow> ar_completedAt r \<noteq> None)
     \<and> (\<forall>m \<in> set (rd_members db). run_terminal (mb_status m) \<longleftrightarrow> mb_completedAt m \<noteq> None)"

definition timeline_of :: "string \<Rightarrow> run_db \<Rightarrow> timeline_entry list" where
  "timeline_of rid db = filter (\<lambda>e. te_runId e = rid) (rd_timeline db)"

definition timeline_ok :: "run_db \<Rightarrow> bool" where
  "timeline_ok db \<longleftrightarrow> (\<forall>rid. map te_sequence (timeline_of rid db) = [1..<Suc (length (timeline_of rid db))])"

definition runs_ok :: "run_db \<Rightarrow> bool" where
  "runs_ok db \<longleftrightarrow> shape_ok (map run_frame (rd_runs db)) (map member_frame (rd_members db)) \<and> ended_ok db \<and> timeline_ok db"

section \<open>What later states keep\<close>

definition run_reaches :: "agent_run_status \<Rightarrow> agent_run_status \<Rightarrow> bool" where
  "run_reaches = (\<lambda>a b. b \<in> set (run_transitions a))\<^sup>*\<^sup>*"

definition run_later :: "agent_run \<Rightarrow> agent_run \<Rightarrow> bool" where
  "run_later r r' \<longleftrightarrow> run_frame r' = run_frame r \<and> run_reaches (ar_status r) (ar_status r') \<and> (r' = r \<or> ar_revision r < ar_revision r')
     \<and> (run_terminal (ar_status r) \<and> ar_completedAt r \<noteq> None \<longrightarrow> ar_completedAt r' = ar_completedAt r)"

definition member_later :: "run_member \<Rightarrow> run_member \<Rightarrow> bool" where
  "member_later m m' \<longleftrightarrow> member_frame m' = member_frame m \<and> run_reaches (mb_status m) (mb_status m')
     \<and> (run_terminal (mb_status m) \<and> mb_completedAt m \<noteq> None \<longrightarrow> mb_completedAt m' = mb_completedAt m)"

definition kept :: "run_db \<Rightarrow> run_db \<Rightarrow> bool" where
  "kept db db' \<longleftrightarrow> (\<forall>r \<in> set (rd_runs db). \<exists>r' \<in> set (rd_runs db'). run_later r r')
     \<and> (\<forall>m \<in> set (rd_members db). \<exists>m' \<in> set (rd_members db'). member_later m m')"

lemma run_reaches_refl [simp]: "run_reaches a a"
  by (simp add: run_reaches_def)

lemma run_reaches_trans: "run_reaches a b \<Longrightarrow> run_reaches b c \<Longrightarrow> run_reaches a c"
  unfolding run_reaches_def by (rule rtranclp_trans)

lemma run_reaches_can: "canTransitionAgentRunStatus a b \<Longrightarrow> run_reaches a b"
  unfolding run_reaches_def canTransitionAgentRunStatus_def by auto

lemma terminal_final: "run_reaches a b \<Longrightarrow> run_terminal a \<Longrightarrow> b = a"
  unfolding run_reaches_def
proof (induction rule: converse_rtranclp_induct)
  case (step a c)
  then show ?case by (cases a) (auto simp: run_terminal_def)
qed simp

lemma run_later_refl [simp]: "run_later r r"
  by (simp add: run_later_def)

lemma run_later_trans: "run_later a b \<Longrightarrow> run_later b c \<Longrightarrow> run_later a c"
  unfolding run_later_def by (metis run_reaches_trans less_trans terminal_final)

lemma member_later_refl [simp]: "member_later m m"
  by (simp add: member_later_def)

lemma member_later_trans: "member_later a b \<Longrightarrow> member_later b c \<Longrightarrow> member_later a c"
  unfolding member_later_def by (metis run_reaches_trans terminal_final)

lemma kept_refl [simp]: "kept db db"
  unfolding kept_def using run_later_refl member_later_refl by blast

lemma kept_trans: "kept a b \<Longrightarrow> kept b c \<Longrightarrow> kept a c"
  unfolding kept_def by (meson run_later_trans member_later_trans)

text \<open>Updates of rows.\<close>

definition better :: "run_db \<Rightarrow> run_db \<Rightarrow> bool" where
  "better db db' \<longleftrightarrow> (runs_ok db \<longrightarrow> runs_ok db' \<and> kept db db')"

lemma better_refl [simp]: "better db db"
  by (simp add: better_def)

lemma better_trans: "better a b \<Longrightarrow> better b c \<Longrightarrow> better a c"
  unfolding better_def using kept_trans by blast

lemma runs_okI: "runs_ok db \<Longrightarrow> map run_frame (rd_runs db') = map run_frame (rd_runs db) \<Longrightarrow> map member_frame (rd_members db') = map member_frame (rd_members db)
    \<Longrightarrow> ended_ok db' \<Longrightarrow> timeline_ok db' \<Longrightarrow> runs_ok db'"
  by (simp add: runs_ok_def)

lemma update_run_better:
  assumes f: "\<And>r. r \<in> set (rd_runs db) \<Longrightarrow> ar_runId r = rid \<Longrightarrow> run_terminal (ar_status r) \<longleftrightarrow> ar_completedAt r \<noteq> None
      \<Longrightarrow> run_terminal (ar_status (f r)) \<longleftrightarrow> ar_completedAt (f r) \<noteq> None"
    and l: "\<And>r. r \<in> set (rd_runs db) \<Longrightarrow> ar_runId r = rid \<Longrightarrow> run_later r (f r)"
  shows "better db (update_run rid f db)"
  unfolding better_def
proof (intro impI conjI)
  assume ok: "runs_ok db"
  show "runs_ok (update_run rid f db)"
  proof (rule runs_okI [OF ok])
    show "map run_frame (rd_runs (update_run rid f db)) = map run_frame (rd_runs db)" using l by (auto simp: update_run_def run_later_def)
    show "ended_ok (update_run rid f db)" using ok f l by (auto simp: runs_ok_def ended_ok_def update_run_def)
    show "timeline_ok (update_run rid f db)" using ok by (simp add: runs_ok_def timeline_ok_def timeline_of_def update_run_def)
  qed (simp add: update_run_def)
  show "kept db (update_run rid f db)" unfolding kept_def
  proof (intro conjI ballI)
    fix r
    assume r: "r \<in> set (rd_runs db)"
    then have "(if ar_runId r = rid then f r else r) \<in> set (rd_runs (update_run rid f db))" by (auto simp: update_run_def)
    moreover have "run_later r (if ar_runId r = rid then f r else r)" using l [OF r] by simp
    ultimately show "\<exists>r' \<in> set (rd_runs (update_run rid f db)). run_later r r'" by blast
  next
    fix m
    assume "m \<in> set (rd_members db)"
    then show "\<exists>m' \<in> set (rd_members (update_run rid f db)). member_later m m'" using member_later_refl by (force simp: update_run_def)
  qed
qed

lemma update_member_better:
  assumes l: "\<And>m. m \<in> set (rd_members db) \<Longrightarrow> mb_runId m = rid \<Longrightarrow> mb_memberId m = mid \<Longrightarrow> member_later m (f m)"
    and e: "\<And>m. m \<in> set (rd_members db) \<Longrightarrow> mb_runId m = rid \<Longrightarrow> mb_memberId m = mid \<Longrightarrow> run_terminal (mb_status (f m)) \<longleftrightarrow> mb_completedAt (f m) \<noteq> None"
  shows "better db (update_member rid mid f db)"
  unfolding better_def
proof (intro impI conjI)
  assume ok: "runs_ok db"
  show "runs_ok (update_member rid mid f db)"
  proof (rule runs_okI [OF ok])
    show "map member_frame (rd_members (update_member rid mid f db)) = map member_frame (rd_members db)" using l by (auto simp: update_member_def member_later_def)
    show "ended_ok (update_member rid mid f db)" using ok e by (auto simp: runs_ok_def ended_ok_def update_member_def)
    show "timeline_ok (update_member rid mid f db)" using ok by (simp add: runs_ok_def timeline_ok_def timeline_of_def update_member_def)
  qed (simp add: update_member_def)
  show "kept db (update_member rid mid f db)" unfolding kept_def
  proof (intro conjI ballI)
    fix m
    assume m: "m \<in> set (rd_members db)"
    then have "(if mb_runId m = rid \<and> mb_memberId m = mid then f m else m) \<in> set (rd_members (update_member rid mid f db))" by (auto simp: update_member_def)
    moreover have "member_later m (if mb_runId m = rid \<and> mb_memberId m = mid then f m else m)" using l [OF m] by simp
    ultimately show "\<exists>m' \<in> set (rd_members (update_member rid mid f db)). member_later m m'" by blast
  next
    fix r
    assume "r \<in> set (rd_runs db)"
    then show "\<exists>r' \<in> set (rd_runs (update_member rid mid f db)). run_later r r'" using run_later_refl by (force simp: update_member_def)
  qed
qed

text \<open>Rows that are added.\<close>

lemma count_append [simp]: "length (filter P (xs @ [x])) = length (filter P xs) + (if P x then 1 else 0)"
  by simp

lemma run_frame_ok_append:
  assumes "run_frame_ok ms r" and "fm_runId m = fr_runId r \<Longrightarrow> length (filter (\<lambda>m. fm_runId m = fr_runId r) ms) < ab_maxMembers (fr_budget r)"
  shows "run_frame_ok (ms @ [m]) r"
  using assms unfolding run_frame_ok_def by (auto simp: root_frame_def)

lemma member_frame_ok_append:
  assumes "member_frame_ok rs ms m" and "set rs \<subseteq> set rs'" and "set ms \<subseteq> set ms'"
  shows "member_frame_ok rs' ms' m"
proof -
  have "callee_frame ms x \<Longrightarrow> callee_frame ms' x" for x using assms(3) unfolding callee_frame_def by blast
  then show ?thesis using assms(1,2) unfolding member_frame_ok_def by blast
qed

lemma shape_add_run:
  assumes ok: "shape_ok rs ms" and r: "fr_runId r \<notin> fr_runId ` set rs" "fr_clientRequestId r \<notin> fr_clientRequestId ` set rs"
    and m: "root_frame r m" "fm_memberId m \<notin> fm_memberId ` set ms" "sn_targetInstanceId (fm_executionSnapshot m) = fm_instanceId m"
    and b: "within_default (fr_budget r)" "1 \<le> ab_maxMembers (fr_budget r)"
  shows "shape_ok (rs @ [r]) (ms @ [m])"
proof -
  have run: "fm_runId x \<in> fr_runId ` set rs" if "x \<in> set ms" for x using ok that by (force simp: shape_ok_def member_frame_ok_def)
  have mr: "fm_runId m = fr_runId r" using m(1) by (simp add: root_frame_def)
  have none: "filter (\<lambda>x. fm_runId x = fr_runId r) ms = []" using run r(1) by (metis (mono_tags, lifting) filter_False)
  have "run_frame_ok (ms @ [m]) x" if x: "x \<in> set rs" for x
  proof (rule run_frame_ok_append)
    show "run_frame_ok ms x" using ok x by (simp add: shape_ok_def)
    have "fr_runId x \<noteq> fm_runId m" using x mr r(1) by (metis image_eqI)
    then show "fm_runId m = fr_runId x \<Longrightarrow> length (filter (\<lambda>m. fm_runId m = fr_runId x) ms) < ab_maxMembers (fr_budget x)" by simp
  qed
  moreover have "run_frame_ok (ms @ [m]) r" unfolding run_frame_ok_def using m(1) b none mr by simp
  moreover have "member_frame_ok (rs @ [r]) (ms @ [m]) x" if "x \<in> set ms" for x
    by (rule member_frame_ok_append [of rs ms]) (use ok that in \<open>simp_all add: shape_ok_def\<close>, blast+)
  moreover have "member_frame_ok (rs @ [r]) (ms @ [m]) m" unfolding member_frame_ok_def using m by (simp add: root_frame_def)
  moreover have "(fm_runId m, fm_clientRequestId m) \<notin> (\<lambda>m. (fm_runId m, fm_clientRequestId m)) ` set ms" using run r(1) mr by auto
  ultimately show ?thesis using ok r m(2) by (simp add: shape_ok_def ball_Un)
qed

lemma shape_add_callee:
  assumes ok: "shape_ok rs ms" and r: "r \<in> set rs" "fr_runId r = fm_runId m"
    and m: "callee_frame ms m" "fm_memberId m \<notin> fm_memberId ` set ms" "sn_targetInstanceId (fm_executionSnapshot m) = fm_instanceId m"
      "(fm_runId m, fm_clientRequestId m) \<notin> (\<lambda>m. (fm_runId m, fm_clientRequestId m)) ` set ms"
    and b: "length (filter (\<lambda>x. fm_runId x = fm_runId m) ms) < ab_maxMembers (fr_budget r)" "fm_depth m \<le> ab_maxDepth (fr_budget r)"
  shows "shape_ok rs (ms @ [m])"
proof -
  have one: "x = r" if "x \<in> set rs" "fr_runId x = fr_runId r" for x
    using ok r(1) that unfolding shape_ok_def distinct_map by (blast dest: inj_onD)
  have "run_frame_ok (ms @ [m]) x" if x: "x \<in> set rs" for x
  proof (rule run_frame_ok_append)
    show "run_frame_ok ms x" using ok x by (simp add: shape_ok_def)
  qed (use one [OF x] r b(1) in auto)
  moreover have "member_frame_ok rs (ms @ [m]) x" if "x \<in> set ms" for x
    by (rule member_frame_ok_append [of rs ms]) (use ok that in \<open>simp_all add: shape_ok_def\<close>, blast+)
  moreover have "member_frame_ok rs (ms @ [m]) m"
  proof -
    obtain root where "root \<in> set ms" "root_frame r root" using ok r(1) by (auto simp: shape_ok_def run_frame_ok_def)
    then have "fm_memberId m \<noteq> fr_rootMemberId r" using m(2) by (force simp: root_frame_def)
    moreover have "callee_frame (ms @ [m]) m" using m(1) unfolding callee_frame_def by auto
    ultimately show ?thesis unfolding member_frame_ok_def using m(3) b(2) r by auto
  qed
  ultimately show ?thesis using ok m(2,4) by (simp add: shape_ok_def ball_Un)
qed

section \<open>Every operation keeps the shape\<close>

lemma agent_run_get_in: "agent_run_get rid db = Some r \<Longrightarrow> r \<in> set (rd_runs db) \<and> ar_runId r = rid"
  using find_SomeD by (fastforce simp: agent_run_get_def)

lemma member_get_in: "member_get rid mid db = Some m \<Longrightarrow> m \<in> set (rd_members db) \<and> mb_runId m = rid \<and> mb_memberId m = mid"
  using find_SomeD by (fastforce simp: member_get_def members_of_def)

lemma agent_run_require_Inr: "agent_run_require rid db = Inr r \<longleftrightarrow> agent_run_get rid db = Some r"
  by (simp add: agent_run_require_def split: option.splits)

lemma insert_rows_result: "insert_rows rs m db = Inr db' \<Longrightarrow> db' = db\<lparr>rd_runs := rd_runs db @ rs, rd_members := rd_members db @ [m]\<rparr>"
  by (simp add: insert_rows_def split: if_splits)

lemma insert_rows_better:
  assumes i: "insert_rows rs m db = Inr db'" and m: "\<not> run_terminal (mb_status m)" "mb_completedAt m = None"
    and rs: "\<And>r. r \<in> set rs \<Longrightarrow> \<not> run_terminal (ar_status r) \<and> ar_completedAt r = None"
    and sh: "shape_ok (map run_frame (rd_runs db)) (map member_frame (rd_members db))
      \<Longrightarrow> shape_ok (map run_frame (rd_runs db) @ map run_frame rs) (map member_frame (rd_members db) @ [member_frame m])"
  shows "better db db'"
proof -
  have db': "db' = db\<lparr>rd_runs := rd_runs db @ rs, rd_members := rd_members db @ [m]\<rparr>" by (rule insert_rows_result [OF i])
  have "kept db db'" unfolding kept_def db' using run_later_refl member_later_refl by fastforce
  moreover have "runs_ok db'" if ok: "runs_ok db"
  proof -
    have "ended_ok db'" using ok rs m unfolding db' runs_ok_def ended_ok_def by auto
    moreover have "timeline_ok db'" using ok unfolding db' by (simp add: runs_ok_def timeline_ok_def timeline_of_def)
    ultimately show ?thesis using ok sh unfolding runs_ok_def db' by simp
  qed
  ultimately show ?thesis unfolding better_def by blast
qed

lemma insert_rows_fresh:
  assumes "insert_rows rs m db = Inr db'"
  shows "mb_memberId m \<notin> fm_memberId ` set (map member_frame (rd_members db))"
    and "(mb_runId m, mb_clientRequestId m) \<notin> (\<lambda>m. (fm_runId m, fm_clientRequestId m)) ` set (map member_frame (rd_members db))"
    and "r \<in> set rs \<Longrightarrow> ar_runId r \<notin> fr_runId ` set (map run_frame (rd_runs db)) \<and> ar_clientRequestId r \<notin> fr_clientRequestId ` set (map run_frame (rd_runs db))"
  using assms by (auto simp: insert_rows_def members_of_def member_frame_def run_frame_def split: if_splits)

lemma runs_create_better:
  assumes c: "runs_create ids i db = Inr (r, db')" and b: "within_default (ci_budget i)" "1 \<le> ab_maxMembers (ci_budget i)"
  shows "better db db'"
proof (cases "getByClientRequestId (ci_clientRequestId i) db")
  case None
  then have i: "insert_rows [new_agent_run ids i] (new_root ids i) db = Inr db'" and sn: "sn_targetInstanceId (ci_executionSnapshot i) = ci_instanceId i"
    using c by (auto simp: runs_create_def split: if_splits sum.splits)
  show ?thesis
  proof (rule insert_rows_better [OF i])
    assume "shape_ok (map run_frame (rd_runs db)) (map member_frame (rd_members db))"
    then show "shape_ok (map run_frame (rd_runs db) @ map run_frame [new_agent_run ids i]) (map member_frame (rd_members db) @ [member_frame (new_root ids i)])"
      using insert_rows_fresh [OF i] sn b unfolding list.map
      by (intro shape_add_run) (simp_all add: new_agent_run_def new_root_def run_frame_def member_frame_def root_frame_def stored_snapshot_def)
  qed (simp_all add: new_agent_run_def new_root_def run_terminal_def)
qed (use c in \<open>simp add: runs_create_def split: if_splits\<close>)

lemma bumpRevision_better [simp]: "better db (bumpRevision rid timestamp db)"
  unfolding bumpRevision_def by (rule update_run_better) (simp_all add: run_later_def run_frame_def)

lemma filter_frames: "length (filter (\<lambda>m. fm_runId m = rid) (map member_frame ms)) = length (filter (\<lambda>m. mb_runId m = rid) ms)"
  by (induction ms) (simp_all add: member_frame_def)

lemma runs_addMember_better:
  assumes a: "runs_addMember ids i db = Inr (m, db')"
  shows "better db db'"
proof -
  obtain run where run: "agent_run_get (mi_runId i) db = Some run" using a by (auto simp: runs_addMember_def agent_run_require_Inr split: sum.splits)
  obtain parent where p: "member_get (mi_runId i) (mi_parentMemberId i) db = Some parent"
    using a by (auto simp: runs_addMember_def split: sum.splits if_splits option.splits)
  show ?thesis
  proof (cases "List.find (\<lambda>m. mb_clientRequestId m = mi_clientRequestId i) (members_of (mi_runId i) db)")
    case None
    let ?m = "new_callee ids (mb_depth parent + 1) i"
    obtain db1 where i: "insert_rows [] ?m db = Inr db1" and db': "db' = bumpRevision (mi_runId i) (id_timestamp ids) db1"
      and b: "length (members_of (mi_runId i) db) < ab_maxMembers (ar_budget run)" "mb_depth parent + 1 \<le> ab_maxDepth (ar_budget run)"
        "sn_targetInstanceId (mi_executionSnapshot i) = mi_instanceId i"
      using a None run p by (auto simp: runs_addMember_def agent_run_require_def Let_def split: if_splits sum.splits)
    have "better db db1"
    proof (rule insert_rows_better [OF i])
      assume ok: "shape_ok (map run_frame (rd_runs db)) (map member_frame (rd_members db))"
      have "shape_ok (map run_frame (rd_runs db)) (map member_frame (rd_members db) @ [member_frame ?m])"
      proof (rule shape_add_callee [OF ok, of "run_frame run"])
        show "callee_frame (map member_frame (rd_members db)) (member_frame ?m)"
          using member_get_in [OF p] unfolding callee_frame_def by (auto simp: member_frame_def new_callee_def intro!: bexI [of _ parent])
        show "length (filter (\<lambda>x. fm_runId x = fm_runId (member_frame ?m)) (map member_frame (rd_members db))) < ab_maxMembers (fr_budget (run_frame run))"
          unfolding filter_frames using b(1) by (simp add: members_of_def run_frame_def member_frame_def new_callee_def)
        show "run_frame run \<in> set (map run_frame (rd_runs db))" using agent_run_get_in [OF run] by simp
      qed (use agent_run_get_in [OF run] insert_rows_fresh [OF i] b in
          \<open>simp_all add: member_frame_def run_frame_def new_callee_def stored_snapshot_def\<close>)
      then show "shape_ok (map run_frame (rd_runs db) @ map run_frame []) (map member_frame (rd_members db) @ [member_frame ?m])" by simp
    qed (simp_all add: new_callee_def run_terminal_def)
    then show ?thesis unfolding db' using bumpRevision_better better_trans by blast
  qed (use a run p in \<open>simp add: runs_addMember_def agent_run_require_def split: if_splits\<close>)
qed

lemma completed_at_None: "completed_at status current timestamp = None \<longleftrightarrow> \<not> run_terminal status"
  by (cases current) (simp_all add: completed_at_def)

lemma completed_at_kept: "run_terminal status \<Longrightarrow> current \<noteq> None \<Longrightarrow> completed_at status current timestamp = current"
  by (auto simp: completed_at_def)

lemma runs_transitionRun_better:
  assumes t: "runs_transitionRun timestamp rid t db = Inr (r, db')"
  shows "better db db'"
proof -
  obtain current where c: "agent_run_get rid db = Some current" and can: "canTransitionAgentRunStatus (ar_status current) (rt_status t)"
    and db': "db' = db \<or> db' = update_run rid (run_after timestamp t) db"
    using t by (auto simp: runs_transitionRun_def agent_run_require_Inr split: sum.splits if_splits)
  have "better db (update_run rid (run_after timestamp t) db)" if ok: "runs_ok db"
  proof (rule update_run_better)
    fix x
    assume x: "x \<in> set (rd_runs db)" "ar_runId x = rid"
    have "distinct (map ar_runId (rd_runs db))" using ok by (simp add: runs_ok_def shape_ok_def run_frame_def comp_def)
    then have "x = current" using x agent_run_get_in [OF c] by (auto simp: distinct_map dest: inj_onD)
    then show "run_later x (run_after timestamp t x)"
      using can run_reaches_can [OF can] terminal_final [OF run_reaches_can [OF can]]
      by (simp add: run_later_def run_after_def run_frame_def completed_at_kept)
  qed (simp add: run_after_def completed_at_None del: not_None_eq)
  then show ?thesis using db' better_refl unfolding better_def by blast
qed

lemma runs_transitionMember_better:
  assumes t: "runs_transitionMember timestamp rid mid t db = Inr (m, db')"
  shows "better db db'"
proof -
  obtain current where c: "member_get rid mid db = Some current" and can: "canTransitionAgentRunStatus (mb_status current) (mt_status t)"
    and db': "db' = db \<or> db' = bumpRevision rid timestamp (update_member rid mid (member_after timestamp t) db)"
    using t by (auto simp: runs_transitionMember_def split: option.splits if_splits)
  have "better db (update_member rid mid (member_after timestamp t) db)" if ok: "runs_ok db"
  proof (rule update_member_better)
    fix x
    assume x: "x \<in> set (rd_members db)" "mb_memberId x = mid"
    have "distinct (map mb_memberId (rd_members db))" using ok by (simp add: runs_ok_def shape_ok_def member_frame_def comp_def)
    then have "x = current" using x member_get_in [OF c] by (auto simp: distinct_map dest: inj_onD)
    then show "member_later x (member_after timestamp t x)"
      using can run_reaches_can [OF can] terminal_final [OF run_reaches_can [OF can]]
      by (simp add: member_later_def member_after_def member_frame_def completed_at_kept)
  qed (simp add: member_after_def completed_at_None del: not_None_eq)
  then have "better db (update_member rid mid (member_after timestamp t) db)" unfolding better_def by blast
  then show ?thesis using db' better_refl better_trans [OF _ bumpRevision_better] by blast
qed

lemma fold_max_upto: "fold max [1..<Suc n] a = max n a" for n a :: nat
  by (induction n arbitrary: a) auto

lemma next_sequence_length:
  assumes "timeline_ok db"
  shows "next_sequence rid db = Suc (length (timeline_of rid db))"
  using assms fold_max_upto by (simp add: next_sequence_def timeline_ok_def flip: timeline_of_def)

lemma runs_appendTimeline_better:
  assumes a: "runs_appendTimeline timestamp rid kind mid data db = Inr (e, db')"
  shows "better db db'"
proof -
  have e: "te_runId e = rid" "te_sequence e = next_sequence rid db"
    and db': "db' = bumpRevision rid timestamp (db\<lparr>rd_timeline := rd_timeline db @ [e]\<rparr>)"
    using a by (auto simp: runs_appendTimeline_def Let_def split: sum.splits if_splits)
  let ?db = "db\<lparr>rd_timeline := rd_timeline db @ [e]\<rparr>"
  have "runs_ok ?db" if ok: "runs_ok db"
  proof (rule runs_okI [OF ok])
    show "ended_ok ?db" using ok by (simp add: runs_ok_def ended_ok_def)
    show "timeline_ok ?db"
      unfolding timeline_ok_def
    proof
      fix rid'
      have t: "timeline_ok db" using ok by (simp add: runs_ok_def)
      have "timeline_of rid' ?db = timeline_of rid' db @ (if rid' = rid then [e] else [])" using e(1) by (simp add: timeline_of_def)
      then show "map te_sequence (timeline_of rid' ?db) = [1..<Suc (length (timeline_of rid' ?db))]"
        using t e(2) next_sequence_length [OF t] by (simp add: timeline_ok_def)
    qed
  qed simp_all
  moreover have "kept db ?db" unfolding kept_def using run_later_refl member_later_refl by fastforce
  ultimately have "better db ?db" by (simp add: better_def)
  then show ?thesis unfolding db' using bumpRevision_better better_trans by blast
qed

text \<open>The calls of the service.\<close>

lemma run_publish_db [simp]: "sv_db (publish_run r s) = sv_db s" "sv_db (publish_member r m s) = sv_db s" "sv_db (accept_member rid mid s) = sv_db s"
  by (simp_all add: publish_run_def publish_member_def accept_member_def)

definition budget_ok :: "agent_run_budget option \<Rightarrow> bool" where
  "budget_ok b = (case b of None \<Rightarrow> True | Some b \<Rightarrow> 1 \<le> ab_maxMembers b)"

text \<open>The one condition that the schema of the requests has to ensure: a requested budget allows at least one member.\<close>

fun run_op_ok :: "run_env \<times> run_op \<Rightarrow> bool" where
  "run_op_ok (_, CreateRun q) = budget_ok (rq_budget q)"
| "run_op_ok _ = True"

lemma effective_budget: "within_default (effectiveAgentRunBudget b)" "budget_ok b \<Longrightarrow> 1 \<le> ab_maxMembers (effectiveAgentRunBudget b)"
  by (auto simp: effectiveAgentRunBudget_def within_default_def AGENT_RUN_DEFAULT_BUDGET_def budget_ok_def split: option.splits)

lemma run_create_better: "budget_ok (rq_budget q) \<Longrightarrow> better (sv_db s) (sv_db (snd (run_create env q s)))"
  using effective_budget
  by (auto simp: run_create_def Let_def create_input_def split: option.splits sum.splits intro!: runs_create_better)

lemma run_appendTimeline_better: "better (sv_db s) (sv_db (snd (run_appendTimeline env rid kind mid data s)))"
  by (auto simp: run_appendTimeline_def split: option.splits sum.splits dest: runs_appendTimeline_better)

lemma note_better: "better (sv_db s) (sv_db (note_policy_difference env rid parent m d s))"
  by (simp add: note_policy_difference_def Let_def run_appendTimeline_better)

lemma run_addMember_better: "better (sv_db s) (sv_db (snd (run_addMember env q s)))"
proof (cases "run_addMember env q s")
  case (Pair result s')
  show ?thesis
  proof (cases result)
    case (Inr m)
    then obtain parent d db where db: "runs_addMember (re_ids env) (invocation_input q d) (sv_db s) = Inr (m, db)"
      and s': "sv_db s' = sv_db (note_policy_difference env (mq_runId q) parent m d (s\<lparr>sv_db := db\<rparr>))"
      using Pair by (auto simp: run_addMember_def Let_def split: sum.splits option.splits if_splits)
    have "better db (sv_db s')" unfolding s' using note_better [of "s\<lparr>sv_db := db\<rparr>"] by simp
    then show ?thesis using Pair runs_addMember_better [OF db] better_trans by simp
  qed (use Pair in \<open>auto simp: run_addMember_def Let_def split: sum.splits\<close>)
qed

lemma run_step_better: "run_op_ok (env, op) \<Longrightarrow> better (sv_db s) (sv_db (run_step s (env, op)))"
proof (cases op)
  case (TransitionMember rid mid t)
  then show ?thesis by (auto simp: run_transitionMember_def Let_def split: sum.splits option.splits dest: runs_transitionMember_better)
next
  case (TransitionRun rid t)
  then show ?thesis by (auto simp: run_transitionRun_def split: sum.splits dest: runs_transitionRun_better)
next
  case (CancelRun rid expected)
  then show ?thesis by (auto simp: run_cancel_def split: sum.splits dest: runs_transitionRun_better)
qed (simp_all add: run_create_better run_addMember_better run_appendTimeline_better)

lemma run_steps_better: "list_all run_op_ok ops \<Longrightarrow> better (sv_db s) (sv_db (foldl run_step s ops))"
proof (induction ops arbitrary: s)
  case (Cons op ops)
  then show ?case using run_step_better [of "fst op" "snd op" s] better_trans by fastforce
qed simp

lemma no_runs_ok: "runs_ok (sv_db (no_runs agents))"
  by (simp add: no_runs_def runs_ok_def shape_ok_def ended_ok_def timeline_ok_def timeline_of_def)

lemma run_steps_ok: "list_all run_op_ok ops \<Longrightarrow> runs_ok (sv_db (foldl run_step (no_runs agents) ops))"
  using run_steps_better [of ops "no_runs agents"] no_runs_ok by (simp add: better_def)

section \<open>Lookups\<close>

lemma run_frame_simps [simp]: "fr_runId (run_frame r) = ar_runId r" "fr_clientRequestId (run_frame r) = ar_clientRequestId r"
  "fr_rootMemberId (run_frame r) = ar_rootMemberId r" "fr_budget (run_frame r) = ar_budget r" "fr_orchestrationId (run_frame r) = ar_orchestrationId r"
  "fr_input (run_frame r) = ar_input r" "fr_provenance (run_frame r) = ar_provenance r"
  by (simp_all add: run_frame_def)

lemma member_frame_simps [simp]: "fm_memberId (member_frame m) = mb_memberId m" "fm_runId (member_frame m) = mb_runId m"
  "fm_clientRequestId (member_frame m) = mb_clientRequestId m" "fm_agentId (member_frame m) = mb_agentId m"
  "fm_parentMemberId (member_frame m) = mb_parentMemberId m" "fm_role (member_frame m) = mb_role m" "fm_depth (member_frame m) = mb_depth m"
  "fm_instanceId (member_frame m) = mb_instanceId m" "fm_input (member_frame m) = mb_input m"
  "fm_executionSnapshot (member_frame m) = mb_executionSnapshot m"
  by (simp_all add: member_frame_def)

lemma runs_ok_distinct:
  assumes "runs_ok db"
  shows "distinct (map ar_runId (rd_runs db))" "distinct (map ar_clientRequestId (rd_runs db))" "distinct (map mb_memberId (rd_members db))"
  using assms by (simp_all add: runs_ok_def shape_ok_def comp_def)

lemma run_found: "runs_ok db \<Longrightarrow> r \<in> set (rd_runs db) \<Longrightarrow> agent_run_get (ar_runId r) db = Some r"
  unfolding agent_run_get_def by (rule find_unique) (simp_all add: runs_ok_distinct)

lemma request_found: "runs_ok db \<Longrightarrow> r \<in> set (rd_runs db) \<Longrightarrow> getByClientRequestId (ar_clientRequestId r) db = Some r"
  unfolding getByClientRequestId_def by (rule find_unique) (simp_all add: runs_ok_distinct)

lemma member_found: "runs_ok db \<Longrightarrow> m \<in> set (rd_members db) \<Longrightarrow> member_get (mb_runId m) (mb_memberId m) db = Some m"
  unfolding member_get_def members_of_def by (rule find_unique) (simp_all add: runs_ok_distinct distinct_map_filter)

lemma request_in: "getByClientRequestId c db = Some r \<Longrightarrow> r \<in> set (rd_runs db) \<and> ar_clientRequestId r = c"
  using find_SomeD by (fastforce simp: getByClientRequestId_def)

lemma root_member:
  assumes "runs_ok db" and "r \<in> set (rd_runs db)"
  obtains root where "member_get (ar_runId r) (ar_rootMemberId r) db = Some root" "root_frame (run_frame r) (member_frame root)"
proof -
  obtain root where "root \<in> set (rd_members db)" "root_frame (run_frame r) (member_frame root)"
    using assms by (auto simp: runs_ok_def shape_ok_def run_frame_ok_def)
  then show ?thesis using member_found [OF assms(1), of root] that by (simp add: root_frame_def)
qed

section \<open>Budgets\<close>

text \<open>
  Claim C7. After any calls every run has a root member at depth 0 and no more members than its budget allows, its budget is within the
  limits of the node, and every other member was invoked by a member of the same run and lies one level below it, at most at the depth the budget allows.
\<close>

theorem agent_runs_stay_within_budget:
  assumes "list_all run_op_ok ops" and "db = sv_db (foldl run_step (no_runs agents) ops)" and r: "r \<in> set (rd_runs db)"
  shows "length (members_of (ar_runId r) db) \<le> ab_maxMembers (ar_budget r) \<and> ab_maxMembers (ar_budget r) \<le> 16
    \<and> ab_maxDepth (ar_budget r) \<le> 4 \<and> ab_maxConcurrency (ar_budget r) \<le> 4
    \<and> (\<exists>root. member_get (ar_runId r) (ar_rootMemberId r) db = Some root \<and> mb_role root = RootMember \<and> mb_depth root = 0)
    \<and> (\<forall>m \<in> set (members_of (ar_runId r) db). mb_depth m \<le> ab_maxDepth (ar_budget r)
        \<and> (mb_memberId m = ar_rootMemberId r \<or> mb_role m = CalleeMember
          \<and> (\<exists>p. member_get (ar_runId r) (the (mb_parentMemberId m)) db = Some p \<and> mb_depth m = mb_depth p + 1)))"
proof -
  have ok: "runs_ok db" using run_steps_ok assms(1,2) by simp
  have f: "run_frame_ok (map member_frame (rd_members db)) (run_frame r)" using ok r by (simp add: runs_ok_def shape_ok_def)
  have depth: "mb_depth m \<le> ab_maxDepth (ar_budget r) \<and> (mb_memberId m = ar_rootMemberId r \<or> mb_role m = CalleeMember
      \<and> (\<exists>p. member_get (ar_runId r) (the (mb_parentMemberId m)) db = Some p \<and> mb_depth m = mb_depth p + 1))"
    if m: "m \<in> set (members_of (ar_runId r) db)" for m
  proof -
    have "member_frame_ok (map run_frame (rd_runs db)) (map member_frame (rd_members db)) (member_frame m)"
      using ok m by (simp add: runs_ok_def shape_ok_def members_of_def)
    then obtain r' where r': "r' \<in> set (rd_runs db)" "ar_runId r' = mb_runId m" "mb_depth m \<le> ab_maxDepth (ar_budget r')"
      and c: "root_frame (run_frame r') (member_frame m) \<or> callee_frame (map member_frame (rd_members db)) (member_frame m)"
      by (auto simp: member_frame_ok_def)
    have "ar_runId r' = ar_runId r" using r'(2) m by (simp add: members_of_def)
    then have same: "r' = r" using run_found [OF ok r] run_found [OF ok r'(1)] by simp
    have "\<exists>p. member_get (ar_runId r) (the (mb_parentMemberId m)) db = Some p \<and> mb_depth m = mb_depth p + 1"
      if "callee_frame (map member_frame (rd_members db)) (member_frame m)"
      using that member_found [OF ok] r'(2) same unfolding callee_frame_def by force
    then show ?thesis using r'(3) c same by (auto simp: root_frame_def callee_frame_def)
  qed
  moreover have "\<exists>root. member_get (ar_runId r) (ar_rootMemberId r) db = Some root \<and> mb_role root = RootMember \<and> mb_depth root = 0"
    by (rule root_member [OF ok r]) (simp add: root_frame_def)
  moreover have "length (members_of (ar_runId r) db) \<le> ab_maxMembers (ar_budget r)"
    using f by (simp add: run_frame_ok_def comp_def members_of_def)
  ultimately show ?thesis using f by (auto simp: run_frame_ok_def within_default_def)
qed

section \<open>What has ended stays ended\<close>

text \<open>
  Claim C5. Whatever calls follow, a run keeps its ids, request, budget and orchestration, each change raises its revision, its status and
  those of its members only move forward, and a run or member that has ended keeps its status and its time of completion.
\<close>

theorem agent_runs_end_once:
  assumes "list_all run_op_ok (ops @ ops')"
    and "db = sv_db (foldl run_step (no_runs agents) ops)" and "db' = sv_db (foldl run_step (no_runs agents) (ops @ ops'))"
  shows "(\<forall>r \<in> set (rd_runs db). \<exists>r'. agent_run_get (ar_runId r) db' = Some r' \<and> run_frame r' = run_frame r
      \<and> (r' = r \<or> ar_revision r < ar_revision r') \<and> run_reaches (ar_status r) (ar_status r')
      \<and> (run_terminal (ar_status r) \<longrightarrow> ar_status r' = ar_status r \<and> ar_completedAt r' = ar_completedAt r))
    \<and> (\<forall>m \<in> set (rd_members db). \<exists>m'. member_get (mb_runId m) (mb_memberId m) db' = Some m' \<and> member_frame m' = member_frame m
      \<and> run_reaches (mb_status m) (mb_status m')
      \<and> (run_terminal (mb_status m) \<longrightarrow> mb_status m' = mb_status m \<and> mb_completedAt m' = mb_completedAt m))"
proof -
  have ok: "runs_ok db" "runs_ok db'" using run_steps_ok [of ops] run_steps_ok [of "ops @ ops'"] assms by auto
  have k: "kept db db'" using run_steps_better [of ops' "foldl run_step (no_runs agents) ops"] ok(1) assms by (simp add: better_def)
  have "\<exists>r'. agent_run_get (ar_runId r) db' = Some r' \<and> run_later r r'" if "r \<in> set (rd_runs db)" for r
    using k that run_found [OF ok(2)] unfolding kept_def run_later_def by (metis run_frame_simps(1))
  moreover have "\<exists>m'. member_get (mb_runId m) (mb_memberId m) db' = Some m' \<and> member_later m m'" if "m \<in> set (rd_members db)" for m
    using k that member_found [OF ok(2)] unfolding kept_def member_later_def by (metis member_frame_simps(1,2))
  ultimately show ?thesis
    using ok(1) terminal_final unfolding run_later_def member_later_def runs_ok_def ended_ok_def by metis
qed

section \<open>Repeated requests\<close>

text \<open>Rows of the tables of agents and orchestrations are found under their ids.\<close>

definition agents_keyed :: "agent_env \<Rightarrow> agent_db \<Rightarrow> bool" where
  "agents_keyed env db \<longleftrightarrow> (\<forall>k d. definition_get db k = Inr (Some d) \<longrightarrow> ad_id d = k) \<and> (\<forall>k orch. orch_get env db k = Inr (Some orch) \<longrightarrow> oc_id orch = k)"

lemma resolve_supported_id: "agents_keyed env agents \<Longrightarrow> resolve_supported renv i agents = Inr d \<Longrightarrow> ad_id d = i"
  by (auto simp: agents_keyed_def resolve_supported_def resolveExecution_def requireDefinition_def split: sum.splits option.splits if_splits)

lemma require_orchestration_id: "agents_keyed (re_agent env) agents \<Longrightarrow> requireOrchestrationForRun env agents oid = Inr orch \<Longrightarrow> oc_id orch = str_of oid"
  by (auto simp: agents_keyed_def requireOrchestrationForRun_def split: sum.splits option.splits)

lemma same_request_kept:
  assumes ok: "runs_ok db" "runs_ok db'" and k: "kept db db'" and r: "getByClientRequestId c db = Some r" and same: "same_run_request q r db"
  shows "\<exists>r'. getByClientRequestId c db' = Some r' \<and> ar_runId r' = ar_runId r \<and> same_run_request q r' db'"
proof -
  obtain r' where r': "r' \<in> set (rd_runs db')" "run_frame r' = run_frame r" using k request_in [OF r] unfolding kept_def run_later_def by blast
  note eq = r'(2) [THEN arg_cong, of fr_runId] r'(2) [THEN arg_cong, of fr_clientRequestId] r'(2) [THEN arg_cong, of fr_rootMemberId]
    r'(2) [THEN arg_cong, of fr_budget] r'(2) [THEN arg_cong, of fr_orchestrationId] r'(2) [THEN arg_cong, of fr_input] r'(2) [THEN arg_cong, of fr_provenance]
  obtain root where root: "member_get (ar_runId r) (ar_rootMemberId r) db = Some root" by (rule root_member [OF ok(1)]) (use request_in [OF r] in blast)
  then obtain root' where "root' \<in> set (rd_members db')" "member_frame root' = member_frame root"
    using k member_get_in [OF root] unfolding kept_def member_later_def by blast
  then have root': "member_get (ar_runId r) (ar_rootMemberId r) db' = Some root'" "mb_agentId root' = mb_agentId root"
    using member_found [OF ok(2), of root'] member_get_in [OF root] by (metis member_frame_simps(1,2), metis member_frame_simps(4))
  have "same_run_request q r' db'" using same root root' eq by (simp add: same_run_request_def run_orchestrationId_def split: if_splits)
  then show ?thesis using request_found [OF ok(2) r'(1)] request_in [OF r] eq by auto
qed

lemma created_request:
  assumes c: "run_create env q s = (Inr r, s')" and ok: "runs_ok (sv_db s)" and keyed: "agents_keyed (re_agent env) (sv_agents s)"
    and q: "rq_orchestrationId q \<noteq> []" "rq_entryAgentId q \<noteq> Some []" "budget_ok (rq_budget q)"
  shows "getByClientRequestId (rq_clientRequestId q) (sv_db s') = Some r \<and> same_run_request q r (sv_db s')"
proof (cases "getByClientRequestId (rq_clientRequestId q) (sv_db s)")
  case None
  obtain orch entry d where o: "requireOrchestrationForRun env (sv_agents s) (Some (rq_orchestrationId q)) = Inr orch"
    and e: "resolveAgentRunEntry orch (rq_entryAgentId q) = Inr entry" and d: "resolve_supported env entry (sv_agents s) = Inr d"
    and db: "runs_create (re_ids env) (create_input q orch d) (sv_db s) = Inr (r, sv_db s')"
    using c None by (auto simp: run_create_def Let_def split: if_splits sum.splits option.splits)
  let ?i = "create_input q orch d"
  have n: "getByClientRequestId (ci_clientRequestId ?i) (sv_db s) = None" using None by (simp add: create_input_def)
  then have i: "insert_rows [new_agent_run (re_ids env) ?i] (new_root (re_ids env) ?i) (sv_db s) = Inr (sv_db s')" and r: "r = new_agent_run (re_ids env) ?i"
    using db by (auto simp: runs_create_def split: if_splits sum.splits)
  then have rows: "r \<in> set (rd_runs (sv_db s'))" "new_root (re_ids env) ?i \<in> set (rd_members (sv_db s'))"
    using insert_rows_result [OF i] by (simp_all add: r)
  have ok': "runs_ok (sv_db s')" using run_create_better [OF q(3), of s env] ok c by (simp add: better_def)
  have root: "member_get (ar_runId r) (ar_rootMemberId r) (sv_db s') = Some (new_root (re_ids env) ?i)"
    using member_found [OF ok' rows(2)] by (simp add: r new_agent_run_def new_root_def)
  have "rq_entryAgentId q = None \<or> rq_entryAgentId q = Some (ad_id d)"
    using e q(2) resolve_supported_id [OF keyed d] by (cases "rq_entryAgentId q") (auto simp: resolveAgentRunEntry_def split: if_splits)
  then have "same_run_request q r (sv_db s')"
    using require_orchestration_id [OF keyed o] q(1) root
    by (auto simp: same_run_request_def run_orchestrationId_def r new_agent_run_def new_root_def create_input_def)
  moreover have "getByClientRequestId (rq_clientRequestId q) (sv_db s') = Some r"
    using request_found [OF ok' rows(1)] by (simp add: r new_agent_run_def create_input_def)
  ultimately show ?thesis by simp
qed (use c in \<open>auto simp: run_create_def split: if_splits\<close>)

text \<open>
  Claim C23. Once a request to create a run has been answered with a run, the same request is answered with that run again and changes
  nothing, whatever calls came in between.
\<close>

theorem run_requests_idempotent:
  assumes c: "run_create env q s = (Inr r, s1)" and "s = foldl run_step (no_runs agents) ops" and "list_all run_op_ok (ops @ ops')"
    and "agents_keyed (re_agent env) (sv_agents s)"
    and "rq_orchestrationId q \<noteq> []" "rq_entryAgentId q \<noteq> Some []" "budget_ok (rq_budget q)"
    and "t = foldl run_step s1 ops'"
  shows "\<exists>r'. run_create env' q t = (Inr r', t) \<and> ar_runId r' = ar_runId r"
proof -
  have ok: "runs_ok (sv_db s)" using run_steps_ok [of ops] assms(2,3) by auto
  then have ok1: "runs_ok (sv_db s1)" using run_create_better [OF assms(7), of s env] c by (simp add: better_def)
  then have "runs_ok (sv_db t)" "kept (sv_db s1) (sv_db t)" using run_steps_better [of ops' s1] assms(3,8) by (auto simp: better_def)
  with created_request [OF c ok assms(4-7)] ok1 obtain r'
    where "getByClientRequestId (rq_clientRequestId q) (sv_db t) = Some r'" "ar_runId r' = ar_runId r" "same_run_request q r' (sv_db t)"
    using same_request_kept by blast
  then show ?thesis by (simp add: run_create_def)
qed

section \<open>Who may invoke whom\<close>

lemma bumpRevision_members [simp]: "rd_members (bumpRevision rid timestamp db) = rd_members db"
  by (simp add: bumpRevision_def update_run_def)

lemma transitionRun_members: "runs_transitionRun timestamp rid t db = Inr (r, db') \<Longrightarrow> rd_members db' = rd_members db"
  by (auto simp: runs_transitionRun_def update_run_def split: sum.splits if_splits)

lemma update_member_ids: "map mb_memberId (rd_members (update_member rid mid (member_after timestamp t) db)) = map mb_memberId (rd_members db)"
  by (simp add: update_member_def member_after_def)

lemma transitionMember_members:
  assumes "runs_transitionMember timestamp rid mid t db = Inr (m, db')"
  shows "mb_memberId ` set (rd_members db') = mb_memberId ` set (rd_members db)"
proof -
  have "rd_members db' = rd_members db \<or> rd_members db' = rd_members (update_member rid mid (member_after timestamp t) db)"
    using assms by (auto simp: runs_transitionMember_def split: option.splits if_splits)
  then show ?thesis using update_member_ids by (metis set_map)
qed

lemma appendTimeline_members: "rd_members (sv_db (snd (run_appendTimeline env rid kind mid data s))) = rd_members (sv_db s)"
  by (auto simp: run_appendTimeline_def runs_appendTimeline_def Let_def split: sum.splits option.splits if_splits)

lemma note_members: "rd_members (sv_db (note_policy_difference env rid parent m d s)) = rd_members (sv_db s)"
  by (simp add: note_policy_difference_def Let_def appendTimeline_members)

lemma create_members:
  "m \<in> set (rd_members (sv_db (snd (run_create env q s)))) \<Longrightarrow> m \<in> set (rd_members (sv_db s)) \<or> mb_role m = RootMember"
  by (auto simp: run_create_def runs_create_def Let_def new_root_def split: sum.splits option.splits if_splits dest!: insert_rows_result)

lemma runs_addMember_cases:
  assumes "runs_addMember ids i db = Inr (m, db')"
  obtains "db' = db" "m \<in> set (rd_members db)"
  | parent where "member_get (mi_runId i) (mi_parentMemberId i) db = Some parent" "m = new_callee ids (mb_depth parent + 1) i"
      "List.find (\<lambda>m. mb_clientRequestId m = mi_clientRequestId i) (members_of (mi_runId i) db) = None"
      "db' = bumpRevision (mi_runId i) (id_timestamp ids) (db\<lparr>rd_members := rd_members db @ [m]\<rparr>)"
  using assms
  by (auto simp: runs_addMember_def Let_def members_of_def split: sum.splits option.splits if_splits dest!: insert_rows_result find_SomeD)

lemma addMember_success:
  assumes "run_addMember env q s = (Inr m, s')"
  obtains parent d db where "authorise_invocation env q s = Inr (parent, d)"
    "runs_addMember (re_ids env) (invocation_input q d) (sv_db s) = Inr (m, db)"
    "sv_db s' = sv_db (note_policy_difference env (mq_runId q) parent m d (s\<lparr>sv_db := db\<rparr>))"
  using assms by (auto simp: run_addMember_def Let_def split: sum.splits option.splits if_splits)

lemma authorise_invocation_Inr:
  assumes "authorise_invocation env q s = Inr (parent, d)"
  obtains run orch where "agent_run_get (mq_runId q) (sv_db s) = Some run" "ar_status run = RunRunning"
    "member_get (mq_runId q) (mq_parentMemberId q) (sv_db s) = Some parent" "mb_status parent = RunRunning"
    "requireOrchestrationForRun env (sv_agents s) (run_orchestrationId run (sv_db s)) = Inr orch"
    "agentOrchestrationHasEdge (orchestration_graph orch) (mb_agentId parent) (mq_agentId q)"
    "resolve_supported env (mq_agentId q) (sv_agents s) = Inr d"
proof -
  obtain run where run: "agent_run_get (mq_runId q) (sv_db s) = Some run" "ar_status run = RunRunning"
    using assms by (auto simp: authorise_invocation_def split: option.splits if_splits)
  obtain orch where "member_get (mq_runId q) (mq_parentMemberId q) (sv_db s) = Some parent" "mb_status parent = RunRunning"
    "requireOrchestrationForRun env (sv_agents s) (run_orchestrationId run (sv_db s)) = Inr orch"
    "agentOrchestrationHasEdge (orchestration_graph orch) (mb_agentId parent) (mq_agentId q)"
    "map_sum id (Pair parent) (resolve_supported env (mq_agentId q) (sv_agents s)) = Inr (parent, d)"
    using assms run by (auto simp: authorise_invocation_def map_sum_def split: option.splits if_splits sum.splits)
  then show ?thesis using that run by (cases "resolve_supported env (mq_agentId q) (sv_agents s)") auto
qed

lemma new_callee_added:
  assumes m: "m \<in> set (rd_members (sv_db (run_step s (env, op))))" and role: "mb_role m = CalleeMember"
    and new: "mb_memberId m \<notin> mb_memberId ` set (rd_members (sv_db s))"
  obtains q s' where "op = AddMember q" "run_addMember env q s = (Inr m, s')"
proof (cases op)
  case (AddMember q)
  obtain result s' where r: "run_addMember env q s = (result, s')" by fastforce
  show ?thesis
  proof (cases result)
    case (Inr x)
    obtain parent d db where db: "runs_addMember (re_ids env) (invocation_input q d) (sv_db s) = Inr (x, db)"
      and s': "sv_db s' = sv_db (note_policy_difference env (mq_runId q) parent x d (s\<lparr>sv_db := db\<rparr>))"
      using addMember_success r Inr by blast
    have "m \<in> set (rd_members db)" using m AddMember r s' by (simp add: note_members)
    then have "m = x" using new by (cases rule: runs_addMember_cases [OF db]) auto
    then show ?thesis using that AddMember r Inr by simp
  qed (use r AddMember m new in \<open>auto simp: run_addMember_def Let_def split: sum.splits\<close>)
next
  case (CreateRun q)
  then show ?thesis using create_members m role new by fastforce
next
  case (TransitionMember rid mid t)
  then have "mb_memberId ` set (rd_members (sv_db (run_step s (env, op)))) = mb_memberId ` set (rd_members (sv_db s))"
    using transitionMember_members by (auto simp: run_transitionMember_def Let_def split: sum.splits option.splits)
  then show ?thesis using m new by blast
next
  case (TransitionRun rid t)
  then show ?thesis using m new by (auto simp: run_transitionRun_def split: sum.splits dest: transitionRun_members)
next
  case (CancelRun rid e)
  then show ?thesis using m new by (auto simp: run_cancel_def split: sum.splits if_splits dest!: transitionRun_members)
qed (use m new in \<open>auto simp: appendTimeline_members\<close>)

text \<open>
  Claim C11. A call adds an invoked member to the tables only if it is a call of \<^verbatim>\<open>addMember\<close> for a run and an invoking member that are both
  running and the current graph of the run's orchestration has an edge from the agent of the invoking member to the agent invoked.
\<close>

theorem invocations_are_authorised:
  assumes m: "m \<in> set (rd_members (sv_db (run_step s (env, op))))" and role: "mb_role m = CalleeMember"
    and new: "mb_memberId m \<notin> mb_memberId ` set (rd_members (sv_db s))" and keyed: "agents_keyed (re_agent env) (sv_agents s)"
  shows "\<exists>run parent orch. agent_run_get (mb_runId m) (sv_db s) = Some run \<and> ar_status run = RunRunning
    \<and> member_get (mb_runId m) (the (mb_parentMemberId m)) (sv_db s) = Some parent \<and> mb_status parent = RunRunning
    \<and> orch_get (re_agent env) (sv_agents s) (str_of (run_orchestrationId run (sv_db s))) = Inr (Some orch)
    \<and> agentOrchestrationHasEdge (orchestration_graph orch) (mb_agentId parent) (mb_agentId m)"
proof -
  obtain q s' where q: "op = AddMember q" "run_addMember env q s = (Inr m, s')" by (rule new_callee_added [OF m role new])
  obtain parent d db where a: "authorise_invocation env q s = Inr (parent, d)"
    and db: "runs_addMember (re_ids env) (invocation_input q d) (sv_db s) = Inr (m, db)" using addMember_success [OF q(2)] by blast
  obtain run orch where run: "agent_run_get (mq_runId q) (sv_db s) = Some run" "ar_status run = RunRunning"
    and parent: "member_get (mq_runId q) (mq_parentMemberId q) (sv_db s) = Some parent" "mb_status parent = RunRunning"
    and orch: "requireOrchestrationForRun env (sv_agents s) (run_orchestrationId run (sv_db s)) = Inr orch"
    and edge: "agentOrchestrationHasEdge (orchestration_graph orch) (mb_agentId parent) (mq_agentId q)"
    and d: "resolve_supported env (mq_agentId q) (sv_agents s) = Inr d" by (rule authorise_invocation_Inr [OF a])
  have "\<exists>depth. m = new_callee (re_ids env) depth (invocation_input q d)" using new by (cases rule: runs_addMember_cases [OF db]) auto
  then have "mb_runId m = mq_runId q" "mb_parentMemberId m = Some (mq_parentMemberId q)" "mb_agentId m = mq_agentId q"
    using resolve_supported_id [OF keyed d] by (auto simp: new_callee_def invocation_input_def)
  moreover have "orch_get (re_agent env) (sv_agents s) (str_of (run_orchestrationId run (sv_db s))) = Inr (Some orch)"
    using orch by (simp add: requireOrchestrationForRun_def split: sum.splits option.splits)
  ultimately show ?thesis using run parent edge by auto
qed

section \<open>Repeated invocations\<close>

text \<open>What authorising an invocation reads of a run.\<close>

definition run_view :: "agent_run \<Rightarrow> run_identity \<times> agent_run_status" where
  "run_view r = (run_frame r, ar_status r)"

lemma bumpRevision_view:
  "map_option run_view (agent_run_get rid (bumpRevision rid' timestamp db)) = map_option run_view (agent_run_get rid db)"
proof -
  have "map_option run_view (List.find (\<lambda>r. ar_runId r = rid) (map (\<lambda>r. if ar_runId r = rid' then r\<lparr>ar_revision := Suc (ar_revision r), ar_updatedAt := timestamp\<rparr> else r) rs))
      = map_option run_view (List.find (\<lambda>r. ar_runId r = rid) rs)" for rs
    by (induction rs) (auto simp: run_view_def run_frame_def)
  from this [of "rd_runs db"] show ?thesis by (simp add: agent_run_get_def bumpRevision_def update_run_def)
qed

lemma note_view: "map_option run_view (agent_run_get rid (sv_db (note_policy_difference env rid' parent m d s))) = map_option run_view (agent_run_get rid (sv_db s))"
proof -
  have "map_option run_view (agent_run_get rid (sv_db (snd (run_appendTimeline env rid' kind mid data s)))) = map_option run_view (agent_run_get rid (sv_db s))" for kind mid data
    by (auto simp: run_appendTimeline_def runs_appendTimeline_def Let_def bumpRevision_view agent_run_get_def [of _ "sv_db s\<lparr>rd_timeline := _\<rparr>"]
        split: sum.splits option.splits if_splits) (simp_all add: agent_run_get_def)
  then show ?thesis by (simp add: note_policy_difference_def Let_def)
qed

lemma note_agents: "sv_agents (note_policy_difference env rid parent m d s) = sv_agents s"
  by (auto simp: note_policy_difference_def Let_def run_appendTimeline_def publish_run_def split: sum.splits option.splits)

lemma find_append: "List.find P (xs @ ys) = (case List.find P xs of None \<Rightarrow> List.find P ys | Some x \<Rightarrow> Some x)"
  by (induction xs) auto

lemma authorised_again:
  assumes a: "authorise_invocation env q s = Inr (parent, d)" and agents: "sv_agents s' = sv_agents s"
    and members: "rd_members (sv_db s') = rd_members (sv_db s) @ ms"
    and view: "\<And>rid. map_option run_view (agent_run_get rid (sv_db s')) = map_option run_view (agent_run_get rid (sv_db s))"
    and ok: "runs_ok (sv_db s)"
  shows "authorise_invocation env q s' = Inr (parent, d)"
proof -
  obtain run orch where run: "agent_run_get (mq_runId q) (sv_db s) = Some run" "ar_status run = RunRunning"
    and rest: "member_get (mq_runId q) (mq_parentMemberId q) (sv_db s) = Some parent" "mb_status parent = RunRunning"
      "requireOrchestrationForRun env (sv_agents s) (run_orchestrationId run (sv_db s)) = Inr orch"
      "agentOrchestrationHasEdge (orchestration_graph orch) (mb_agentId parent) (mq_agentId q)"
      "resolve_supported env (mq_agentId q) (sv_agents s) = Inr d" by (rule authorise_invocation_Inr [OF a])
  obtain run' where run': "agent_run_get (mq_runId q) (sv_db s') = Some run'" "run_view run' = run_view run"
    using view [of "mq_runId q"] run(1) by (auto simp: map_option_case split: option.splits)
  have get: "member_get rid mid (sv_db s') = Some x" if "member_get rid mid (sv_db s) = Some x" for rid mid x
    using that by (simp add: member_get_def members_of_def members find_append)
  have eq: "run_frame run' = run_frame run" "ar_status run' = ar_status run" using run'(2) by (simp_all add: run_view_def)
  obtain root where "member_get (ar_runId run) (ar_rootMemberId run) (sv_db s) = Some root"
    by (rule root_member [OF ok]) (use agent_run_get_in [OF run(1)] in blast)
  then have "run_orchestrationId run' (sv_db s') = run_orchestrationId run (sv_db s)"
    using get eq(1) [THEN arg_cong, of fr_runId] eq(1) [THEN arg_cong, of fr_rootMemberId] eq(1) [THEN arg_cong, of fr_orchestrationId]
    by (simp add: run_orchestrationId_def)
  then show ?thesis using run' run(2) rest get eq(2) agents by (simp add: authorise_invocation_def)
qed

text \<open>
  An invocation whose first attempt added a member is not answered with that member when it is repeated with the same client request
  id but refused as a conflict, if the invoked definition leaves its model open: the snapshot built for the comparison has a property that
  is undefined, the one read from the table lacks it.
\<close>

theorem repeated_invocation_conflicts:
  assumes c: "run_addMember env q s = (Inr m, s')" and ok: "runs_ok (sv_db s)"
    and new: "mb_memberId m \<notin> mb_memberId ` set (rd_members (sv_db s))"
    and d: "resolve_supported env (mq_agentId q) (sv_agents s) = Inr d" and unset: "df_modelEntityId (ad_fields d) = None"
  shows "run_addMember env q s' = (Inl (RunMemberIdempotencyConflict (mb_memberId m)), s')"
proof -
  obtain parent d' db where a: "authorise_invocation env q s = Inr (parent, d')"
    and db: "runs_addMember (re_ids env) (invocation_input q d') (sv_db s) = Inr (m, db)"
    and s': "sv_db s' = sv_db (note_policy_difference env (mq_runId q) parent m d' (s\<lparr>sv_db := db\<rparr>))" using addMember_success [OF c] .
  have [simp]: "d' = d" by (rule authorise_invocation_Inr [OF a]) (use d in simp)
  let ?i = "invocation_input q d"
  obtain p where p: "member_get (mq_runId q) (mq_parentMemberId q) (sv_db s) = Some p" and m: "m = new_callee (re_ids env) (mb_depth p + 1) ?i"
    and none: "List.find (\<lambda>m. mb_clientRequestId m = mq_clientRequestId q) (members_of (mq_runId q) (sv_db s)) = None"
    and db': "db = bumpRevision (mq_runId q) (id_timestamp (re_ids env)) (sv_db s\<lparr>rd_members := rd_members (sv_db s) @ [m]\<rparr>)"
    using new by (cases rule: runs_addMember_cases [OF db]) (auto simp: invocation_input_def)
  have members: "rd_members (sv_db s') = rd_members (sv_db s) @ [m]" by (simp add: s' note_members db')
  have view: "map_option run_view (agent_run_get rid (sv_db s')) = map_option run_view (agent_run_get rid (sv_db s))" for rid
    by (simp add: s' note_view db' bumpRevision_view) (simp add: agent_run_get_def)
  have "sv_agents s' = sv_agents s"
    using c a db by (auto simp: run_addMember_def Let_def note_agents publish_member_def accept_member_def split: option.splits if_splits)
  then have again: "authorise_invocation env q s' = Inr (parent, d)" using authorised_again [OF a _ members view ok] by simp
  obtain run where run: "agent_run_get (mq_runId q) (sv_db s') = Some run" "ar_status run = RunRunning"
    and parent: "member_get (mq_runId q) (mq_parentMemberId q) (sv_db s') = Some parent" by (rule authorise_invocation_Inr [OF again])
  have "List.find (\<lambda>m. mb_clientRequestId m = mq_clientRequestId q) (members_of (mq_runId q) (sv_db s')) = Some m"
    using none m by (simp add: members_of_def members find_append new_callee_def invocation_input_def)
  moreover have "\<not> same_member_request ?i m"
    using unset by (simp add: same_member_request_def m new_callee_def invocation_input_def stored_snapshot_def execution_snapshot_of_def Let_def
        own_property_def stored_property_def)
  ultimately have "runs_addMember (re_ids env) ?i (sv_db s') = Inl (RunMemberIdempotencyConflict (mb_memberId m))"
    using run parent by (simp add: runs_addMember_def agent_run_require_def invocation_input_def run_terminal_def)
  then show ?thesis using again by (simp add: run_addMember_def)
qed

section \<open>Examples\<close>

definition demo_definition :: "string \<Rightarrow> agent_definition" where
  "demo_definition i = \<lparr>ad_id = i, ad_revision = replicate 64 (CHR ''a''), ad_fields = demo_fields,
     ad_createdAt = ''2024-01-01T00:00:00.000Z'', ad_updatedAt = ''2024-01-01T00:00:00.000Z''\<rparr>"

definition demo_team :: orchestration where
  "demo_team = \<lparr>oc_id = ''team'', oc_revision = replicate 64 (CHR ''a''), oc_name = ''Reviewer'', oc_agentIds = [''agent_01hz'', ''agent_02hz''],
     oc_edges = [\<lparr>ed_fromAgentId = ''agent_01hz'', ed_toAgentId = ''agent_02hz''\<rparr>],
     oc_createdAt = ''2024-01-01T00:00:00.000Z'', oc_updatedAt = ''2024-01-01T00:00:00.000Z''\<rparr>"

definition demo_run_agents :: agent_db where
  "demo_run_agents = \<lparr>db_definitions = [(''agent_01hz'', demo_definition ''agent_01hz''), (''agent_02hz'', demo_definition ''agent_02hz'')],
     db_orchestrations = [(''team'', demo_team)]\<rparr>"

definition demo_run_env :: "string \<Rightarrow> run_env" where
  "demo_run_env member = \<lparr>re_agent = demo_agent_env, re_node = demo_node, re_supports = (\<lambda>_. True),
     re_ids = \<lparr>id_run = ''run_1'', id_member = member, id_timestamp = ''2024-01-01T00:00:00.000Z''\<rparr>\<rparr>"

definition demo_request :: agent_run_request where
  "demo_request = \<lparr>rq_clientRequestId = ''request_1'', rq_orchestrationId = ''team'', rq_entryAgentId = None, rq_input = ''Review'',
     rq_provenance = ControlPlaneProvenance None, rq_budget = None\<rparr>"

definition demo_invocation :: member_request where
  "demo_invocation = \<lparr>mq_runId = ''run_1'', mq_parentMemberId = ''member_1'', mq_clientRequestId = ''request_2'', mq_agentId = ''agent_02hz'',
     mq_input = ''Check the tests''\<rparr>"

lemma demo_team_parts:
  "stable_id 160 ''team'' = Some ''team''" "stable_id 120 ''agent_02hz'' = Some ''agent_02hz''"
  "normalizeContent demo_agent_env \<lparr>cn_name = ''Reviewer'', cn_agentIds = js_sort (\<le>) (oc_agentIds demo_team), cn_edges = js_sort edge_row_le (oc_edges demo_team)\<rparr>
     = \<lparr>cn_name = ''Reviewer'', cn_agentIds = oc_agentIds demo_team, cn_edges = oc_edges demo_team\<rparr>"
  "list_parse 50 (stable_id 120) (oc_agentIds demo_team) = Some (oc_agentIds demo_team)"
  "list_parse 200 edge_parse (oc_edges demo_team) = Some (oc_edges demo_team)"
  by code_simp+

lemma demo_datetime: "datetime_text ''2024-01-01T00:00:00.000Z''"
  using demo_date by (simp add: datetime_text_def)

lemma demo_team_get: "orch_get demo_agent_env demo_run_agents k = Inr (if k = ''team'' then Some demo_team else None)"
  using demo_stable demo_team_parts demo_revision demo_datetime
  by (simp add: orch_get_def demo_run_agents_def jmap_get_def orchestrationFromRow_def sanitizeAgentOrchestration_def Let_def)
     (simp add: demo_team_def)

lemma demo_definition_get: "definition_get demo_run_agents k
    = Inr (if k = ''agent_01hz'' \<or> k = ''agent_02hz'' then Some (demo_definition k) else None)"
proof -
  have "fields_parse demo_fields = Some demo_fields"
    using demo_stable by (simp add: fields_parse_def fields_ok_def fields_trim_def demo_fields_def opt_parse_def)
  then show ?thesis using demo_stable demo_team_parts(2) demo_revision demo_datetime
    by (simp add: definition_get_def demo_run_agents_def jmap_get_def sanitizeAgentDefinition_def demo_definition_def)
qed

lemma demo_keyed: "agents_keyed demo_agent_env demo_run_agents"
  by (auto simp: agents_keyed_def demo_team_get demo_definition_get demo_definition_def demo_team_def split: if_splits)

lemma demo_resolve:
  "k = ''agent_01hz'' \<or> k = ''agent_02hz'' \<Longrightarrow> resolve_supported (demo_run_env m) k demo_run_agents = Inr (demo_definition k)"
  by (auto simp: resolve_supported_def resolveExecution_def requireDefinition_def demo_definition_get validate_fields_def demo_run_env_def demo_node_def
      demo_definition_def demo_fields_def isPublishedAgentExecutionPolicy_def)

definition demo_created_run :: agent_run where
  "demo_created_run = new_agent_run (re_ids (demo_run_env ''member_1'')) (create_input demo_request demo_team (demo_definition ''agent_01hz''))"

definition demo_root :: run_member where
  "demo_root = new_root (re_ids (demo_run_env ''member_1'')) (create_input demo_request demo_team (demo_definition ''agent_01hz''))"

lemma demo_create:
  "run_create (demo_run_env ''member_1'') demo_request (no_runs demo_run_agents)
     = (Inr demo_created_run, accept_member ''run_1'' ''member_1'' (publish_member demo_created_run demo_root (publish_run demo_created_run
         (no_runs demo_run_agents \<lparr>sv_db := \<lparr>rd_runs = [demo_created_run], rd_members = [demo_root], rd_timeline = []\<rparr>\<rparr>))))"
proof -
  have "requireOrchestrationForRun (demo_run_env ''member_1'') demo_run_agents (Some ''team'') = Inr demo_team"
    by (simp add: requireOrchestrationForRun_def demo_run_env_def demo_team_get)
  moreover have "resolveAgentRunEntry demo_team None = Inr ''agent_01hz''" by code_simp
  moreover have "insert_rows [demo_created_run] demo_root (sv_db (no_runs demo_run_agents))
      = Inr \<lparr>rd_runs = [demo_created_run], rd_members = [demo_root], rd_timeline = []\<rparr>"
    by (simp add: insert_rows_def no_runs_def members_of_def)
  ultimately show ?thesis using demo_resolve [of "''agent_01hz''" "''member_1''"]
    by (simp add: run_create_def runs_create_def getByClientRequestId_def initiator_known_def demo_request_def create_input_def execution_snapshot_of_def
        demo_definition_def demo_created_run_def demo_root_def no_runs_def new_agent_run_def new_root_def member_get_def members_of_def
        demo_run_env_def Let_def)
qed

definition demo_running :: run_service where
  "demo_running = (no_runs demo_run_agents)\<lparr>sv_db := \<lparr>rd_runs = [demo_created_run\<lparr>ar_status := RunRunning\<rparr>],
     rd_members = [demo_root\<lparr>mb_status := RunRunning\<rparr>], rd_timeline = []\<rparr>\<rparr>"

lemma demo_created_db: "sv_db (foldl run_step (no_runs demo_run_agents) [(demo_run_env ''member_1'', CreateRun demo_request)])
    = \<lparr>rd_runs = [demo_created_run], rd_members = [demo_root], rd_timeline = []\<rparr>"
  by (simp add: demo_create)

lemma demo_created_fields: "ar_runId demo_created_run = ''run_1''" "ar_status demo_created_run = RunQueued"
  by (simp_all add: demo_created_run_def new_agent_run_def demo_run_env_def)

theorem agent_runs_stay_within_budget_witness:
  "length (members_of ''run_1'' (sv_db (foldl run_step (no_runs demo_run_agents) [(demo_run_env ''member_1'', CreateRun demo_request)])))
      \<le> ab_maxMembers (ar_budget demo_created_run) \<and> ab_maxMembers (ar_budget demo_created_run) \<le> 16
    \<and> (\<exists>root. member_get ''run_1'' (ar_rootMemberId demo_created_run)
          (sv_db (foldl run_step (no_runs demo_run_agents) [(demo_run_env ''member_1'', CreateRun demo_request)])) = Some root
        \<and> mb_role root = RootMember \<and> mb_depth root = 0)"
  using agent_runs_stay_within_budget [of "[(demo_run_env ''member_1'', CreateRun demo_request)]" _ demo_run_agents demo_created_run, OF _ refl]
  unfolding demo_created_db by (simp add: demo_created_fields demo_request_def budget_ok_def)

theorem agent_runs_end_once_witness:
  "\<exists>r. agent_run_get ''run_1'' (sv_db (foldl run_step (no_runs demo_run_agents)
      ([(demo_run_env ''member_1'', CreateRun demo_request)] @ [(demo_run_env ''member_1'', CancelRun ''run_1'' None)]))) = Some r
    \<and> run_reaches RunQueued (ar_status r)"
  using agent_runs_end_once [of "[(demo_run_env ''member_1'', CreateRun demo_request)]" "[(demo_run_env ''member_1'', CancelRun ''run_1'' None)]",
      OF _ refl refl, of demo_run_agents]
  unfolding demo_created_db by (force simp: demo_created_fields demo_request_def budget_ok_def)

theorem run_requests_idempotent_witness:
  "\<exists>r. fst (run_create (demo_run_env ''member_9'') demo_request
      (foldl run_step (snd (run_create (demo_run_env ''member_1'') demo_request (no_runs demo_run_agents))) [(demo_run_env ''member_1'', CancelRun ''run_1'' None)]))
    = Inr r \<and> ar_runId r = ''run_1''"
proof -
  let ?cancel = "[(demo_run_env ''member_1'', CancelRun ''run_1'' None)]"
  obtain s1 where c: "run_create (demo_run_env ''member_1'') demo_request (no_runs demo_run_agents) = (Inr demo_created_run, s1)" using demo_create by blast
  have "agents_keyed (re_agent (demo_run_env ''member_1'')) (sv_agents (no_runs demo_run_agents))" using demo_keyed by (simp add: demo_run_env_def no_runs_def)
  then have "\<exists>r'. run_create (demo_run_env ''member_9'') demo_request (foldl run_step s1 ?cancel) = (Inr r', foldl run_step s1 ?cancel)
      \<and> ar_runId r' = ar_runId demo_created_run"
    by (intro run_requests_idempotent [OF c, where ops = "[]" and ops' = ?cancel and agents = demo_run_agents])
       (simp_all add: demo_request_def budget_ok_def)
  then show ?thesis using c by (auto simp del: foldl.simps simp: demo_created_fields)
qed

lemma demo_authorised:
  "authorise_invocation (demo_run_env ''member_2'') demo_invocation demo_running = Inr (demo_root\<lparr>mb_status := RunRunning\<rparr>, demo_definition ''agent_02hz'')"
proof -
  have "requireOrchestrationForRun (demo_run_env ''member_2'') demo_run_agents (Some ''team'') = Inr demo_team"
    by (simp add: requireOrchestrationForRun_def demo_run_env_def demo_team_get)
  moreover have "agentOrchestrationHasEdge (orchestration_graph demo_team) ''agent_01hz'' ''agent_02hz''" by code_simp
  ultimately show ?thesis using demo_resolve [of "''agent_02hz''" "''member_2''"]
    by (simp add: authorise_invocation_def demo_running_def agent_run_get_def member_get_def members_of_def demo_created_run_def demo_root_def
        new_agent_run_def new_root_def demo_invocation_def no_runs_def run_orchestrationId_def create_input_def demo_team_def demo_definition_def
        demo_request_def demo_run_env_def)
qed

definition demo_callee :: run_member where
  "demo_callee = new_callee (re_ids (demo_run_env ''member_2'')) 1 (invocation_input demo_invocation (demo_definition ''agent_02hz''))"

lemma demo_added: "runs_addMember (re_ids (demo_run_env ''member_2'')) (invocation_input demo_invocation (demo_definition ''agent_02hz'')) (sv_db demo_running)
    = Inr (demo_callee, bumpRevision ''run_1'' ''2024-01-01T00:00:00.000Z'' (sv_db demo_running\<lparr>rd_members := rd_members (sv_db demo_running) @ [demo_callee]\<rparr>))"
  by (simp add: runs_addMember_def agent_run_require_def agent_run_get_def member_get_def members_of_def demo_running_def no_runs_def demo_created_run_def
      demo_root_def new_agent_run_def new_root_def demo_callee_def new_callee_def invocation_input_def demo_invocation_def demo_run_env_def create_input_def
      demo_request_def run_terminal_def effectiveAgentRunBudget_def AGENT_RUN_DEFAULT_BUDGET_def insert_rows_def execution_snapshot_of_def demo_definition_def Let_def)

lemma demo_invoked: "\<exists>s'. run_addMember (demo_run_env ''member_2'') demo_invocation demo_running = (Inr demo_callee, s')
    \<and> rd_members (sv_db s') = [demo_root\<lparr>mb_status := RunRunning\<rparr>, demo_callee]"
  using demo_authorised demo_added
  by (auto simp: run_addMember_def Let_def note_members demo_running_def split: option.splits)

lemma demo_member_fields: "mb_memberId demo_callee = ''member_2''" "mb_runId demo_callee = ''run_1''" "mb_role demo_callee = CalleeMember"
  "mb_parentMemberId demo_callee = Some ''member_1''" "mb_agentId demo_callee = ''agent_02hz''" "mb_memberId demo_root = ''member_1''"
  by (simp_all add: demo_callee_def new_callee_def invocation_input_def demo_invocation_def demo_run_env_def demo_definition_def demo_root_def new_root_def)

theorem invocations_are_authorised_witness:
  "\<exists>run. agent_run_get ''run_1'' (sv_db demo_running) = Some run \<and> ar_status run = RunRunning"
proof -
  have "demo_callee \<in> set (rd_members (sv_db (run_step demo_running (demo_run_env ''member_2'', AddMember demo_invocation))))"
    using demo_invoked by auto
  moreover have "mb_memberId demo_callee \<notin> mb_memberId ` set (rd_members (sv_db demo_running))" by (simp add: demo_member_fields demo_running_def)
  moreover have "agents_keyed (re_agent (demo_run_env ''member_2'')) (sv_agents demo_running)"
    using demo_keyed by (simp add: demo_run_env_def demo_running_def no_runs_def)
  ultimately show ?thesis using invocations_are_authorised [of demo_callee demo_running "demo_run_env ''member_2''" "AddMember demo_invocation"]
    demo_member_fields by auto
qed

lemma demo_running_ok: "runs_ok (sv_db demo_running)"
  by (simp add: runs_ok_def demo_running_def shape_ok_def run_frame_ok_def member_frame_ok_def root_frame_def ended_ok_def timeline_ok_def timeline_of_def
      within_default_def demo_created_run_def demo_root_def new_agent_run_def new_root_def create_input_def demo_request_def demo_run_env_def
      effectiveAgentRunBudget_def AGENT_RUN_DEFAULT_BUDGET_def run_terminal_def stored_snapshot_def execution_snapshot_of_def demo_definition_def Let_def)

theorem repeated_invocation_conflicts_witness:
  "fst (run_addMember (demo_run_env ''member_2'') demo_invocation (snd (run_addMember (demo_run_env ''member_2'') demo_invocation demo_running)))
    = Inl (RunMemberIdempotencyConflict ''member_2'')"
proof -
  obtain s' where s': "run_addMember (demo_run_env ''member_2'') demo_invocation demo_running = (Inr demo_callee, s')" using demo_invoked by blast
  show ?thesis
    using repeated_invocation_conflicts [OF s' demo_running_ok] demo_resolve [of "''agent_02hz''" "''member_2''"] s'
    by (simp add: demo_member_fields demo_running_def demo_invocation_def no_runs_def demo_definition_def demo_fields_def)
qed

end
