(* ===== verification/Agent_Run_Resources.thy ===== *)
theory Agent_Run_Resources
  imports Agent_Runs Session_Turns Js_Date
begin

text \<open>
  What agent runs hold on a node: the tables of shared spaces and resources
  (\<^verbatim>\<open>packages/node-agent/src/persistence/agent-run-resource-repository.ts\<close>) and the service of the shared spaces
  (\<^verbatim>\<open>packages/node-agent/src/agents/agent-run-shared-space.ts\<close>). Methods with an await are split there: the first part ends where the
  backend is called, the second gets what it answered. The foreign keys to the tables of runs and runtimes are not modelled.
\<close>

section \<open>Data\<close>

datatype shared_space_state = SpacePreparing | SpaceActive | SpaceRetained | SpaceExpiring | SpaceDeleteRetrying | SpaceExpired | SpaceManual

datatype resource_phase = PhasePreparing | PhaseReady | PhaseDeleting | PhaseDeleteRetrying | PhaseDeleted | PhaseManual

datatype resource_kind = ProviderThread | OverlayMount | OverlayRunDirectory | SharedSpaceDirectory | HelperContainer | SandboxContainer

record shared_space =
  ss_runId :: string
  ss_runtimeId :: string
  ss_generationId :: string
  ss_state :: shared_space_state
  ss_quotaBytes :: nat
  ss_usageBytes :: nat
  ss_expiresAt :: "string option"
  ss_diagnostics :: json
  ss_createdAt :: string
  ss_updatedAt :: string

record run_resource =
  xr_resourceId :: string
  xr_runId :: string
  xr_memberId :: "string option"
  xr_instanceId :: "string option"
  xr_runtimeId :: string
  xr_kind :: resource_kind
  xr_generationId :: string
  xr_backendIdentity :: string
  xr_phase :: resource_phase
  xr_cleanupAttempts :: nat
  xr_metadata :: json
  xr_createdAt :: string
  xr_updatedAt :: string

record resource_db =
  xd_spaces :: "shared_space list"
  xd_resources :: "run_resource list"

datatype resource_error =
    SharedSpaceIdentityMismatch
  | SharedSpaceNotFound
  | ResourceIdentityMismatch
  | ResourceNotFound
  | SharedRuntimeQuotaExceeded
  | SharedRunQuotaExceeded
  | SharedRuntimeMismatch
  | SharedSpacePrepareFailed
  | SharedUsageUnavailable
  | SharedPathInvalid
  | SharedPathOutsideRun
  | WorkspacePathInvalid
  | SharedRunIdInvalid
  | ResourceConstraintFailed

fun resource_error_code :: "resource_error \<Rightarrow> string" where
  "resource_error_code SharedSpaceIdentityMismatch = ''AGENT_RUN_SHARED_SPACE_IDENTITY_MISMATCH''"
| "resource_error_code SharedSpaceNotFound = ''AGENT_RUN_SHARED_SPACE_NOT_FOUND''"
| "resource_error_code ResourceIdentityMismatch = ''AGENT_RUN_RESOURCE_IDENTITY_MISMATCH''"
| "resource_error_code ResourceNotFound = ''AGENT_RUN_RESOURCE_NOT_FOUND''"
| "resource_error_code SharedRuntimeQuotaExceeded = ''AGENT_RUN_SHARED_RUNTIME_QUOTA_EXCEEDED''"
| "resource_error_code SharedRunQuotaExceeded = ''AGENT_RUN_SHARED_RUN_QUOTA_EXCEEDED''"
| "resource_error_code SharedRuntimeMismatch = ''AGENT_RUN_SHARED_RUNTIME_MISMATCH''"
| "resource_error_code SharedSpacePrepareFailed = ''AGENT_RUN_SHARED_SPACE_PREPARE_FAILED''"
| "resource_error_code SharedUsageUnavailable = ''AGENT_RUN_SHARED_USAGE_UNAVAILABLE''"
| "resource_error_code SharedPathInvalid = ''AGENT_RUN_SHARED_PATH_INVALID''"
| "resource_error_code SharedPathOutsideRun = ''AGENT_RUN_SHARED_PATH_OUTSIDE_RUN''"
| "resource_error_code WorkspacePathInvalid = ''AGENT_RUN_WORKSPACE_PATH_INVALID''"
| "resource_error_code SharedRunIdInvalid = ''AGENT_RUN_EXECUTION_FAILED''"
| "resource_error_code ResourceConstraintFailed = ''ERR_SQLITE_ERROR''"

section \<open>The tables\<close>

definition getSharedSpace :: "string \<Rightarrow> resource_db \<Rightarrow> shared_space option" where
  "getSharedSpace rid db = List.find (\<lambda>s. ss_runId s = rid) (xd_spaces db)"

definition ensureSharedSpace :: "string \<Rightarrow> string \<Rightarrow> string \<Rightarrow> string \<Rightarrow> nat \<Rightarrow> resource_db \<Rightarrow> resource_error + shared_space \<times> resource_db" where
  "ensureSharedSpace timestamp rid runtimeId generationId quotaBytes db =
     (case getSharedSpace rid db of
        Some existing \<Rightarrow>
          if ss_runtimeId existing \<noteq> runtimeId \<or> ss_generationId existing \<noteq> generationId \<or> ss_quotaBytes existing \<noteq> quotaBytes
          then Inl SharedSpaceIdentityMismatch else Inr (existing, db)
      | None \<Rightarrow>
          let s = \<lparr>ss_runId = rid, ss_runtimeId = runtimeId, ss_generationId = generationId, ss_state = SpacePreparing, ss_quotaBytes = quotaBytes,
                ss_usageBytes = 0, ss_expiresAt = None, ss_diagnostics = JObj [], ss_createdAt = timestamp, ss_updatedAt = timestamp\<rparr>
          in Inr (s, db\<lparr>xd_spaces := xd_spaces db @ [s]\<rparr>))"

definition listSharedSpaces :: "string option \<Rightarrow> string option \<Rightarrow> resource_db \<Rightarrow> shared_space list" where
  "listSharedSpaces runtimeId expiredBefore db =
     js_sort (\<lambda>a b. ss_updatedAt a < ss_updatedAt b \<or> ss_updatedAt a = ss_updatedAt b \<and> ss_runId a \<le> ss_runId b)
       (filter (\<lambda>s. (truthy runtimeId \<longrightarrow> Some (ss_runtimeId s) = runtimeId)
          \<and> (truthy expiredBefore \<longrightarrow> (case ss_expiresAt s of None \<Rightarrow> False | Some t \<Rightarrow> t \<le> str_of expiredBefore))) (xd_spaces db))"

definition runtimeSharedSpaceUsage :: "string \<Rightarrow> string option \<Rightarrow> resource_db \<Rightarrow> nat" where
  "runtimeSharedSpaceUsage runtimeId excludingRunId db =
     sum_list (map ss_usageBytes (filter (\<lambda>s. ss_runtimeId s = runtimeId \<and> (truthy excludingRunId \<longrightarrow> Some (ss_runId s) \<noteq> excludingRunId)
       \<and> ss_state s \<notin> {SpaceExpired, SpaceManual}) (xd_spaces db)))"

record space_patch =
  px_state :: "shared_space_state option"
  px_usageBytes :: "nat option"
  px_expiresAt :: "string patched"
  px_diagnostics :: "json option"

definition space_patched :: "string \<Rightarrow> space_patch \<Rightarrow> shared_space \<Rightarrow> shared_space" where
  "space_patched timestamp p s = s\<lparr>ss_state := (case px_state p of None \<Rightarrow> ss_state s | Some x \<Rightarrow> x),
     ss_usageBytes := (case px_usageBytes p of None \<Rightarrow> ss_usageBytes s | Some x \<Rightarrow> x),
     ss_expiresAt := patched_or (ss_expiresAt s) (px_expiresAt p),
     ss_diagnostics := (case px_diagnostics p of None \<Rightarrow> ss_diagnostics s | Some x \<Rightarrow> x), ss_updatedAt := timestamp\<rparr>"

definition updateSharedSpace :: "string \<Rightarrow> string \<Rightarrow> space_patch \<Rightarrow> resource_db \<Rightarrow> resource_error + shared_space \<times> resource_db" where
  "updateSharedSpace timestamp rid p db =
     (case getSharedSpace rid db of
        None \<Rightarrow> Inl SharedSpaceNotFound
      | Some current \<Rightarrow>
          Inr (space_patched timestamp p current, db\<lparr>xd_spaces := map (\<lambda>s. if ss_runId s = rid then space_patched timestamp p s else s) (xd_spaces db)\<rparr>))"

definition resource_get :: "string \<Rightarrow> resource_db \<Rightarrow> run_resource option" where
  "resource_get i db = List.find (\<lambda>r. xr_resourceId r = i) (xd_resources db)"

record resource_input =
  ri_runId :: string
  ri_memberId :: "string option"
  ri_instanceId :: "string option"
  ri_runtimeId :: string
  ri_kind :: resource_kind
  ri_generationId :: string
  ri_backendIdentity :: string
  ri_metadata :: json

definition register_resource :: "string \<Rightarrow> string \<Rightarrow> resource_input \<Rightarrow> resource_db \<Rightarrow> resource_error + run_resource \<times> resource_db" where
  "register_resource timestamp newId i db =
     (case List.find (\<lambda>r. xr_runId r = ri_runId i \<and> xr_kind r = ri_kind i \<and> xr_backendIdentity r = ri_backendIdentity i) (xd_resources db) of
        Some r \<Rightarrow>
          if xr_memberId r \<noteq> ri_memberId i \<or> xr_instanceId r \<noteq> ri_instanceId i \<or> xr_runtimeId r \<noteq> ri_runtimeId i \<or> xr_generationId r \<noteq> ri_generationId i
          then Inl ResourceIdentityMismatch else Inr (r, db)
      | None \<Rightarrow>
          if resource_get newId db \<noteq> None then Inl ResourceConstraintFailed
          else let r = \<lparr>xr_resourceId = newId, xr_runId = ri_runId i, xr_memberId = ri_memberId i, xr_instanceId = ri_instanceId i,
                 xr_runtimeId = ri_runtimeId i, xr_kind = ri_kind i, xr_generationId = ri_generationId i, xr_backendIdentity = ri_backendIdentity i,
                 xr_phase = PhasePreparing, xr_cleanupAttempts = 0, xr_metadata = ri_metadata i, xr_createdAt = timestamp, xr_updatedAt = timestamp\<rparr>
            in Inr (r, db\<lparr>xd_resources := xd_resources db @ [r]\<rparr>))"

definition resource_le :: "run_resource \<Rightarrow> run_resource \<Rightarrow> bool" where
  "resource_le a b = (xr_createdAt a < xr_createdAt b \<or> xr_createdAt a = xr_createdAt b \<and> xr_resourceId a \<le> xr_resourceId b)"

definition listForRun :: "string \<Rightarrow> resource_db \<Rightarrow> run_resource list" where
  "listForRun rid db = js_sort resource_le (filter (\<lambda>r. xr_runId r = rid) (xd_resources db))"

definition listActiveForInstance :: "string \<Rightarrow> resource_db \<Rightarrow> run_resource list" where
  "listActiveForInstance instanceId db =
     js_sort resource_le (filter (\<lambda>r. xr_instanceId r = Some instanceId \<and> xr_phase r \<notin> {PhaseDeleted, PhaseManual}) (xd_resources db))"

definition resource_moved :: "string \<Rightarrow> resource_phase \<Rightarrow> bool \<Rightarrow> json option \<Rightarrow> run_resource \<Rightarrow> run_resource" where
  "resource_moved timestamp phase increment metadata r = r\<lparr>xr_phase := phase,
     xr_cleanupAttempts := xr_cleanupAttempts r + (if increment then 1 else 0),
     xr_metadata := (case metadata of None \<Rightarrow> xr_metadata r | Some x \<Rightarrow> x), xr_updatedAt := timestamp\<rparr>"

definition resource_transition :: "string \<Rightarrow> string \<Rightarrow> resource_phase \<Rightarrow> bool \<Rightarrow> json option \<Rightarrow> resource_db \<Rightarrow> resource_error + run_resource \<times> resource_db" where
  "resource_transition timestamp i phase increment metadata db =
     (case resource_get i db of
        None \<Rightarrow> Inl ResourceNotFound
      | Some current \<Rightarrow>
          Inr (resource_moved timestamp phase increment metadata current,
            db\<lparr>xd_resources := map (\<lambda>r. if xr_resourceId r = i then resource_moved timestamp phase increment metadata r else r) (xd_resources db)\<rparr>))"

section \<open>Paths\<close>

text \<open>
  \<^verbatim>\<open>path.posix\<close>: the segments between slashes; \<open>normalize_segments\<close> is what \<^verbatim>\<open>resolve\<close> and \<^verbatim>\<open>join\<close> do with the segments of an absolute path.
\<close>

fun split_path :: "string \<Rightarrow> string list" where
  "split_path [] = [[]]"
| "split_path (c # cs) = (if c = CHR ''/'' then [] # split_path cs else case split_path cs of s # rest \<Rightarrow> (c # s) # rest | [] \<Rightarrow> [[c]])"

definition push_segment :: "string list \<Rightarrow> string \<Rightarrow> string list" where
  "push_segment acc s = (if s = '''' \<or> s = ''.'' then acc else if s = ''..'' then butlast acc else acc @ [s])"

definition normalize_segments :: "string list \<Rightarrow> string list" where
  "normalize_segments segs = foldl push_segment [] segs"

definition path_of :: "string list \<Rightarrow> string" where
  "path_of segs = (if segs = [] then ''/'' else concat (map (\<lambda>s. CHR ''/'' # s) segs))"

definition path_resolve :: "string \<Rightarrow> string" where
  "path_resolve p = path_of (normalize_segments (split_path p))"

definition path_join :: "string \<Rightarrow> string \<Rightarrow> string" where
  "path_join p q = path_of (normalize_segments (split_path (p @ ''/'' @ q)))"

definition isAbsolute :: "string \<Rightarrow> bool" where
  "isAbsolute p = (p \<noteq> [] \<and> hd p = CHR ''/'')"

section \<open>The service of shared spaces\<close>

definition AGENT_RUN_SHARED_SPACE_TTL_MS :: int where
  "AGENT_RUN_SHARED_SPACE_TTL_MS = 7 * 24 * 60 * 60 * 1000"

definition AGENT_RUN_SHARED_SPACE_DEFAULT_RUN_QUOTA_BYTES :: nat where
  "AGENT_RUN_SHARED_SPACE_DEFAULT_RUN_QUOTA_BYTES = 1024 * 1024 * 1024"

definition AGENT_RUN_SHARED_SPACE_DEFAULT_RUNTIME_QUOTA_BYTES :: nat where
  "AGENT_RUN_SHARED_SPACE_DEFAULT_RUNTIME_QUOTA_BYTES = 10 * 1024 * 1024 * 1024"

record space_binding =
  bd_runId :: string
  bd_runtimeId :: string
  bd_runtimePath :: string

definition agentRunSharedSpaceBinding :: "string \<Rightarrow> string \<Rightarrow> string \<Rightarrow> resource_error + space_binding" where
  "agentRunSharedSpaceBinding rid runtimeId root =
     (case stable_id 120 rid of
        None \<Rightarrow> Inl SharedRunIdInvalid
      | Some i \<Rightarrow> Inr \<lparr>bd_runId = i, bd_runtimeId = runtimeId, bd_runtimePath = path_join (path_resolve root) i\<rparr>)"

definition assertAgentRunSharedSpacePath :: "space_binding \<Rightarrow> string \<Rightarrow> resource_error + string" where
  "assertAgentRunSharedSpacePath binding candidate =
     (if \<not> isAbsolute candidate then Inl SharedPathInvalid
      else let normalized = path_resolve candidate in
        if normalized = bd_runtimePath binding \<or> take (length (bd_runtimePath binding) + 1) normalized = bd_runtimePath binding @ ''/'' then Inr normalized
        else Inl SharedPathOutsideRun)"

definition agentRunMemberPathPolicy :: "space_binding \<Rightarrow> string \<Rightarrow> resource_error + string \<times> string \<times> string" where
  "agentRunMemberPathPolicy binding workspaceCwd =
     (if \<not> isAbsolute workspaceCwd then Inl WorkspacePathInvalid
      else Inr (path_resolve workspaceCwd, path_resolve workspaceCwd, bd_runtimePath binding))"

definition assertAgentRunSharedRuntime :: "shared_space \<Rightarrow> string \<Rightarrow> resource_error option" where
  "assertAgentRunSharedRuntime space runtimeId = (if ss_runtimeId space = runtimeId then None else Some SharedRuntimeMismatch)"

definition bindingForMember :: "string \<Rightarrow> string \<Rightarrow> string \<Rightarrow> resource_db \<Rightarrow> resource_error + space_binding" where
  "bindingForMember root rid memberRuntimeId db =
     (case getSharedSpace rid db of
        None \<Rightarrow> Inl SharedSpaceNotFound
      | Some space \<Rightarrow> (case assertAgentRunSharedRuntime space memberRuntimeId of
          Some e \<Rightarrow> Inl e | None \<Rightarrow> agentRunSharedSpaceBinding rid memberRuntimeId root))"

definition pathPolicyForMember :: "string \<Rightarrow> string \<Rightarrow> string \<Rightarrow> string \<Rightarrow> resource_db \<Rightarrow> resource_error + string \<times> string \<times> string" where
  "pathPolicyForMember root rid memberRuntimeId workspaceCwd db =
     (case bindingForMember root rid memberRuntimeId db of Inl e \<Rightarrow> Inl e | Inr b \<Rightarrow> agentRunMemberPathPolicy b workspaceCwd)"

definition space_unchanged :: space_patch where
  "space_unchanged = \<lparr>px_state = None, px_usageBytes = None, px_expiresAt = Absent, px_diagnostics = None\<rparr>"

definition retain :: "int \<Rightarrow> string \<Rightarrow> resource_db \<Rightarrow> resource_error + shared_space \<times> resource_db" where
  "retain timestamp rid = updateSharedSpace (to_iso timestamp) rid
     (space_unchanged\<lparr>px_state := Some SpaceRetained, px_expiresAt := Given (to_iso (timestamp + AGENT_RUN_SHARED_SPACE_TTL_MS))\<rparr>)"

text \<open>
  \<^verbatim>\<open>ensure\<close> up to the call of the backend, and after it. The second part gets the diagnostics of the backend or the message of its error.
\<close>

record ensure_input =
  en_runId :: string
  en_runtimeId :: string
  en_instanceId :: string
  en_generationId :: string

definition ensure_begin :: "string \<Rightarrow> string \<Rightarrow> ensure_input \<Rightarrow> resource_db \<Rightarrow> (resource_error + space_binding) \<times> resource_db" where
  "ensure_begin timestamp root i db =
     (if runtimeSharedSpaceUsage (en_runtimeId i) (Some (en_runId i)) db \<ge> AGENT_RUN_SHARED_SPACE_DEFAULT_RUNTIME_QUOTA_BYTES
      then (Inl SharedRuntimeQuotaExceeded, db)
      else case ensureSharedSpace timestamp (en_runId i) (en_runtimeId i) (en_generationId i) AGENT_RUN_SHARED_SPACE_DEFAULT_RUN_QUOTA_BYTES db of
             Inl e \<Rightarrow> (Inl e, db)
           | Inr (_, db) \<Rightarrow> (agentRunSharedSpaceBinding (en_runId i) (en_runtimeId i) root, db))"

definition failure_json :: "string \<Rightarrow> string \<Rightarrow> json" where
  "failure_json code msg = JObj [(''code'', JStr code), (''message'', JStr msg)]"

text \<open>The work after the backend has answered; an error in it is handled like one of the backend.\<close>

definition ensure_activate :: "string \<Rightarrow> string \<Rightarrow> ensure_input \<Rightarrow> space_binding \<Rightarrow> json \<Rightarrow> resource_db \<Rightarrow> (resource_error + shared_space) \<times> resource_db" where
  "ensure_activate timestamp newId i binding diagnostics db =
     (case updateSharedSpace timestamp (en_runId i) (space_unchanged\<lparr>px_state := Some SpaceActive, px_diagnostics := Some diagnostics\<rparr>) db of
        Inl e \<Rightarrow> (Inl e, db)
      | Inr (active, db) \<Rightarrow>
          (case register_resource timestamp newId \<lparr>ri_runId = en_runId i, ri_memberId = None, ri_instanceId = Some (en_instanceId i),
               ri_runtimeId = en_runtimeId i, ri_kind = SharedSpaceDirectory, ri_generationId = en_generationId i,
               ri_backendIdentity = bd_runtimePath binding, ri_metadata = JObj [(''runtimePath'', JStr (bd_runtimePath binding))]\<rparr> db of
             Inl e \<Rightarrow> (Inl e, db)
           | Inr (_, db) \<Rightarrow> (Inr active, db)))"

definition ensure_end :: "(resource_error \<Rightarrow> string) \<Rightarrow> string \<Rightarrow> string \<Rightarrow> ensure_input \<Rightarrow> space_binding \<Rightarrow> string + json \<Rightarrow> resource_db
    \<Rightarrow> (resource_error + shared_space) \<times> resource_db" where
  "ensure_end msg timestamp newId i binding answer db =
     (case (case answer of Inl m \<Rightarrow> (Inl m, db)
                         | Inr diagnostics \<Rightarrow> (case ensure_activate timestamp newId i binding diagnostics db of
                             (Inl e, db) \<Rightarrow> (Inl (msg e), db) | (Inr s, db) \<Rightarrow> (Inr s, db))) of
        (Inr s, db) \<Rightarrow> (Inr s, db)
      | (Inl m, db) \<Rightarrow>
          (case updateSharedSpace timestamp (en_runId i) (space_unchanged\<lparr>px_state := Some SpaceDeleteRetrying,
               px_diagnostics := Some (failure_json ''AGENT_RUN_SHARED_SPACE_PREPARE_FAILED'' m)\<rparr>) db of
             Inl e \<Rightarrow> (Inl e, db)
           | Inr (_, db) \<Rightarrow> (Inl SharedSpacePrepareFailed, db)))"

text \<open>\<^verbatim>\<open>refreshUsage\<close> before and after the measurement; \<open>spread\<close> adds the measured values to the diagnostics of the space.\<close>

definition refresh_begin :: "bool \<Rightarrow> string \<Rightarrow> string \<Rightarrow> resource_db \<Rightarrow> resource_error + shared_space \<times> space_binding" where
  "refresh_begin inspects root rid db =
     (case getSharedSpace rid db of
        None \<Rightarrow> Inl SharedSpaceNotFound
      | Some space \<Rightarrow>
          if \<not> inspects then Inl SharedUsageUnavailable
          else map_sum id (Pair space) (agentRunSharedSpaceBinding rid (ss_runtimeId space) root))"

definition spread :: "json \<Rightarrow> (string \<times> json) list \<Rightarrow> json" where
  "spread j new = JObj (foldl (\<lambda>m (k, v). jmap_set k v m) (case j of JObj kvs \<Rightarrow> kvs | _ \<Rightarrow> []) new)"

definition refresh_end :: "string \<Rightarrow> shared_space \<Rightarrow> nat \<Rightarrow> resource_db \<Rightarrow> (resource_error + shared_space) \<times> resource_db" where
  "refresh_end timestamp space measured db =
     (let rid = ss_runId space;
          runtimeUsage = runtimeSharedSpaceUsage (ss_runtimeId space) (Some rid) db + measured;
          diagnostics = spread (ss_diagnostics space) [(''usageBytes'', JNum (nat_digits measured)), (''runQuotaBytes'', JNum (nat_digits (ss_quotaBytes space))),
            (''runtimeUsageBytes'', JNum (nat_digits runtimeUsage)), (''runtimeQuotaBytes'', JNum (nat_digits AGENT_RUN_SHARED_SPACE_DEFAULT_RUNTIME_QUOTA_BYTES)),
            (''measuredAt'', JStr timestamp)]
      in case updateSharedSpace timestamp rid (space_unchanged\<lparr>px_usageBytes := Some measured, px_diagnostics := Some diagnostics\<rparr>) db of
           Inl e \<Rightarrow> (Inl e, db)
         | Inr (updated, db) \<Rightarrow>
             if measured > ss_quotaBytes space then (Inl SharedRunQuotaExceeded, db)
             else if runtimeUsage > AGENT_RUN_SHARED_SPACE_DEFAULT_RUNTIME_QUOTA_BYTES then (Inl SharedRuntimeQuotaExceeded, db)
             else (Inr updated, db))"

text \<open>
  \<^verbatim>\<open>reconcileExpired\<close>: the spaces it looks at, the work on one of them up to the removal of its directory, and after it. \<open>answer\<close> is the message
  of the error of the backend, \<open>None\<close> when the directory is removed.
\<close>

datatype expiry = ExpiryDone | ExpiryRetrying | ExpiryManual

definition expirable :: "string \<Rightarrow> resource_db \<Rightarrow> shared_space list" where
  "expirable now db = filter (\<lambda>s. ss_state s \<in> {SpaceRetained, SpaceDeleteRetrying}) (listSharedSpaces None (Some now) db)"

definition updated_or :: "('e + 'a \<times> resource_db) \<Rightarrow> resource_db \<Rightarrow> resource_db" where
  "updated_or r db = (case r of Inl _ \<Rightarrow> db | Inr (_, db') \<Rightarrow> db')"

definition space_unowned :: space_patch where
  "space_unowned = space_unchanged\<lparr>px_state := Some SpaceManual, px_diagnostics := Some (JObj [(''code'', JStr ''AGENT_RUN_SHARED_SPACE_OWNERSHIP_UNPROVEN'')])\<rparr>"

definition expire_begin :: "string \<Rightarrow> shared_space \<Rightarrow> resource_db \<Rightarrow> (expiry + run_resource) \<times> resource_db" where
  "expire_begin now space db =
     (case List.find (\<lambda>r. xr_kind r = SharedSpaceDirectory) (listForRun (ss_runId space) db) of
        Some r \<Rightarrow>
          if truthy (xr_instanceId r) then (Inr r, updated_or (updateSharedSpace now (ss_runId space) (space_unchanged\<lparr>px_state := Some SpaceExpiring\<rparr>) db) db)
          else (Inl ExpiryManual, updated_or (updateSharedSpace now (ss_runId space) space_unowned db) db)
      | None \<Rightarrow> (Inl ExpiryManual, updated_or (updateSharedSpace now (ss_runId space) space_unowned db) db))"

definition expire_end :: "string \<Rightarrow> shared_space \<Rightarrow> run_resource \<Rightarrow> string option \<Rightarrow> resource_db \<Rightarrow> expiry \<times> resource_db" where
  "expire_end now space r answer db =
     (case answer of
        None \<Rightarrow>
          let db = updated_or (updateSharedSpace now (ss_runId space) (space_unchanged\<lparr>px_state := Some SpaceExpired, px_usageBytes := Some 0\<rparr>) db) db
          in (ExpiryDone, updated_or (resource_transition now (xr_resourceId r) PhaseDeleted False None db) db)
      | Some m \<Rightarrow>
          let db = updated_or (updateSharedSpace now (ss_runId space) (space_unchanged\<lparr>px_state := Some SpaceDeleteRetrying,
                px_diagnostics := Some (failure_json ''AGENT_RUN_SHARED_SPACE_CLEANUP_FAILED'' m)\<rparr>) db) db
          in (ExpiryRetrying, updated_or (resource_transition now (xr_resourceId r) PhaseDeleteRetrying True None db) db))"

section \<open>Paths of different runs never meet\<close>

definition clean_segment :: "string \<Rightarrow> bool" where
  "clean_segment s \<longleftrightarrow> s \<noteq> [] \<and> s \<noteq> ''.'' \<and> s \<noteq> ''..'' \<and> CHR ''/'' \<notin> set s"

lemma split_path_nonempty [simp]: "split_path p \<noteq> []"
  by (cases p) (simp_all split: list.split)

lemma split_path_append: "split_path (a @ CHR ''/'' # b) = split_path a @ split_path b"
  by (induction a) (auto split: list.split)

lemma split_path_word: "CHR ''/'' \<notin> set s \<Longrightarrow> split_path s = [s]"
  by (induction s) auto

lemma split_path_slashless: "s \<in> set (split_path p) \<Longrightarrow> CHR ''/'' \<notin> set s"
proof (induction p arbitrary: s)
  case (Cons c cs)
  then show ?case
    by (cases "split_path cs") (auto split: if_splits)
qed simp

lemma split_path_of: "segs \<noteq> [] \<Longrightarrow> list_all clean_segment segs \<Longrightarrow> split_path (path_of segs) = [] # segs"
proof (induction segs rule: rev_induct)
  case (snoc s segs)
  have s: "split_path s = [s]" using snoc(3) by (simp add: clean_segment_def split_path_word)
  show ?case
  proof (cases "segs = []")
    case False
    then have "path_of (segs @ [s]) = path_of segs @ CHR ''/'' # s" by (simp add: path_of_def)
    then show ?thesis using snoc False s by (simp add: split_path_append)
  qed (simp add: path_of_def s)
qed simp

lemma push_clean: "list_all clean_segment acc \<Longrightarrow> CHR ''/'' \<notin> set s \<Longrightarrow> list_all clean_segment (push_segment acc s)"
  by (auto simp: push_segment_def clean_segment_def list_all_iff dest: in_set_butlastD)

lemma normalize_clean: "\<forall>s \<in> set segs. CHR ''/'' \<notin> set s \<Longrightarrow> list_all clean_segment (normalize_segments segs)"
proof -
  have "list_all clean_segment acc \<Longrightarrow> \<forall>s \<in> set segs. CHR ''/'' \<notin> set s \<Longrightarrow> list_all clean_segment (foldl push_segment acc segs)" for acc
    by (induction segs arbitrary: acc) (auto simp: push_clean)
  then show "\<forall>s \<in> set segs. CHR ''/'' \<notin> set s \<Longrightarrow> list_all clean_segment (normalize_segments segs)" by (simp add: normalize_segments_def)
qed

lemma push_all_clean: "list_all clean_segment segs \<Longrightarrow> foldl push_segment acc segs = acc @ segs"
  by (induction segs arbitrary: acc) (auto simp: push_segment_def clean_segment_def)

lemma normalize_split_clean [simp]: "list_all clean_segment (normalize_segments (split_path p))"
  using split_path_slashless by (blast intro: normalize_clean)

lemma normalize_path_of:
  assumes "list_all clean_segment segs"
  shows "normalize_segments (split_path (path_of segs) @ tail) = foldl push_segment segs tail"
proof (cases "segs = []")
  case True
  then show ?thesis by (simp add: path_of_def normalize_segments_def push_segment_def)
next
  case False
  then show ?thesis using assms by (simp add: split_path_of normalize_segments_def push_all_clean) (simp add: push_segment_def)
qed

lemma path_join_clean:
  assumes "clean_segment i"
  shows "path_join (path_resolve root) i = path_of (normalize_segments (split_path root) @ [i])"
proof -
  have "split_path i = [i]" using assms by (simp add: clean_segment_def split_path_word)
  then show ?thesis using assms normalize_path_of [of "normalize_segments (split_path root)" "[i]"] push_all_clean [of "[i]"]
    by (simp add: path_join_def path_resolve_def split_path_append)
qed

lemma path_prefix:
  assumes "list_all clean_segment bs" "bs \<noteq> []" "list_all clean_segment qs"
    and "path_of qs = path_of bs \<or> take (length (path_of bs) + 1) (path_of qs) = path_of bs @ ''/''"
  shows "\<exists>rest. qs = bs @ rest"
proof -
  have qs: "split_path (path_of qs) = [] # (if qs = [] then [[]] else qs)" using assms(3) by (simp add: split_path_of) (simp add: path_of_def)
  show ?thesis
  proof (cases "path_of qs = path_of bs")
    case True
    then have "(if qs = [] then [[]] else qs) = bs" using qs split_path_of [OF assms(2,1)] by simp
    then show ?thesis using assms(1) by (auto simp: clean_segment_def split: if_splits)
  next
    case False
    then obtain tail where "path_of qs = path_of bs @ CHR ''/'' # tail"
      using assms(4) by (metis append.assoc append_Cons append_Nil append_take_drop_id)
    then have "(if qs = [] then [[]] else qs) = bs @ split_path tail" using qs split_path_of [OF assms(2,1)] by (simp add: split_path_append)
    then show ?thesis using assms(1,2) by (cases bs) (auto simp: clean_segment_def split: if_splits)
  qed
qed

lemma stable_id_clean: "stable_id n rid = Some i \<Longrightarrow> clean_segment i"
  by (auto simp: stable_id_def nonempty_text_def checked_def id_pattern_def clean_segment_def Let_def list_all_iff
      split: if_splits option.splits list.splits Option.bind_splits)

lemma binding_path: "agentRunSharedSpaceBinding rid runtimeId root = Inr b
    \<Longrightarrow> clean_segment (bd_runId b) \<and> bd_runtimePath b = path_of (normalize_segments (split_path root) @ [bd_runId b])"
  by (auto simp: agentRunSharedSpaceBinding_def path_join_clean dest: stable_id_clean split: option.splits)

lemma accepted_path:
  assumes b: "agentRunSharedSpaceBinding rid runtimeId root = Inr b" and x: "assertAgentRunSharedSpacePath b p = Inr x"
  obtains rest where "normalize_segments (split_path p) = normalize_segments (split_path root) @ [bd_runId b] @ rest"
    "x = path_of (normalize_segments (split_path p))"
proof -
  have "x = path_of (normalize_segments (split_path p))" "x = bd_runtimePath b \<or> take (length (bd_runtimePath b) + 1) x = bd_runtimePath b @ ''/''"
    using x by (auto simp: assertAgentRunSharedSpacePath_def path_resolve_def Let_def split: if_splits)
  moreover from this have "\<exists>rest. normalize_segments (split_path p) = (normalize_segments (split_path root) @ [bd_runId b]) @ rest"
    using binding_path [OF b] by (intro path_prefix) auto
  ultimately show ?thesis using that by auto
qed

text \<open>
  Claim C20. A path that is accepted for a run denotes its directory or something below it, has no \<^verbatim>\<open>.\<close> or \<^verbatim>\<open>..\<close> left, and is not
  accepted for another run of the node, however the candidates are written.
\<close>

theorem shared_paths_are_isolated:
  assumes b: "agentRunSharedSpaceBinding rid runtimeId root = Inr b" and x: "assertAgentRunSharedSpacePath b p = Inr x"
  shows "(\<exists>rest. split_path x = split_path (bd_runtimePath b) @ rest \<and> list_all clean_segment rest)
    \<and> (\<forall>rid' runtimeId' b' p'. agentRunSharedSpaceBinding rid' runtimeId' root = Inr b' \<and> assertAgentRunSharedSpacePath b' p' = Inr x
        \<longrightarrow> bd_runId b' = bd_runId b)"
proof (intro conjI allI impI)
  let ?root = "normalize_segments (split_path root)"
  obtain rest where q: "normalize_segments (split_path p) = ?root @ [bd_runId b] @ rest" "x = path_of (normalize_segments (split_path p))"
    by (rule accepted_path [OF b x])
  have clean: "list_all clean_segment (?root @ [bd_runId b] @ rest)" using normalize_split_clean [of p] q(1) by simp
  have split: "split_path x = [] # ?root @ [bd_runId b] @ rest" using q clean by (simp add: split_path_of)
  moreover have "split_path (bd_runtimePath b) = [] # ?root @ [bd_runId b]" using binding_path [OF b] clean by (simp add: split_path_of)
  ultimately show "\<exists>rest. split_path x = split_path (bd_runtimePath b) @ rest \<and> list_all clean_segment rest" using clean by auto
  fix rid' runtimeId' b' p'
  assume "agentRunSharedSpaceBinding rid' runtimeId' root = Inr b' \<and> assertAgentRunSharedSpacePath b' p' = Inr x"
  then obtain rest' where q': "normalize_segments (split_path p') = ?root @ [bd_runId b'] @ rest'" "x = path_of (normalize_segments (split_path p'))"
    using accepted_path by blast
  then have "split_path x = [] # ?root @ [bd_runId b'] @ rest'" using normalize_split_clean [of p'] by (simp add: split_path_of)
  then show "bd_runId b' = bd_runId b" using split by simp
qed

theorem shared_paths_are_isolated_witness:
  "\<exists>b. agentRunSharedSpaceBinding ''run_1'' ''docker'' ''/shared'' = Inr b \<and> assertAgentRunSharedSpacePath b ''/shared/run_2/../run_1/./a'' = Inr ''/shared/run_1/a''
    \<and> (\<forall>b'. agentRunSharedSpaceBinding ''run_2'' ''docker'' ''/shared'' = Inr b' \<longrightarrow> assertAgentRunSharedSpacePath b' ''/shared/run_2/../run_1'' \<noteq> Inr ''/shared/run_1/a'')"
proof -
  let ?b = "\<lparr>bd_runId = ''run_1'', bd_runtimeId = ''docker'', bd_runtimePath = ''/shared/run_1''\<rparr>"
  have b: "agentRunSharedSpaceBinding ''run_1'' ''docker'' ''/shared'' = Inr ?b" by code_simp
  have b2: "agentRunSharedSpaceBinding ''run_2'' ''docker'' ''/shared'' = Inr \<lparr>bd_runId = ''run_2'', bd_runtimeId = ''docker'', bd_runtimePath = ''/shared/run_2''\<rparr>"
    by code_simp
  have x: "assertAgentRunSharedSpacePath ?b ''/shared/run_2/../run_1/./a'' = Inr ''/shared/run_1/a''" by code_simp
  have "bd_runId b' = ''run_1''" if "agentRunSharedSpaceBinding ''run_2'' ''docker'' ''/shared'' = Inr b'" "assertAgentRunSharedSpacePath b' p' = Inr ''/shared/run_1/a''" for b' p'
    using shared_paths_are_isolated [OF b x] that by auto
  then show ?thesis using b b2 x by fastforce
qed

section \<open>Expiry\<close>

definition spaces_ok :: "resource_db \<Rightarrow> bool" where
  "spaces_ok db \<longleftrightarrow> distinct (map ss_runId (xd_spaces db))"

lemma updated_space:
  assumes "spaces_ok db" and "updateSharedSpace timestamp rid p db = Inr (s, db')"
  shows "s \<in> set (xd_spaces db') \<and> ss_runId s = rid \<and> spaces_ok db' \<and> (\<forall>s' \<in> set (xd_spaces db'). ss_runId s' = rid \<longrightarrow> s' = s)"
proof -
  obtain current where c: "getSharedSpace rid db = Some current" and s: "s = space_patched timestamp p current"
    and db': "db' = db\<lparr>xd_spaces := map (\<lambda>s. if ss_runId s = rid then space_patched timestamp p s else s) (xd_spaces db)\<rparr>"
    using assms(2) by (auto simp: updateSharedSpace_def split: option.splits)
  have cur: "current \<in> set (xd_spaces db)" "ss_runId current = rid" using find_SomeD [OF c [unfolded getSharedSpace_def]] by simp_all
  have [simp]: "ss_runId (space_patched timestamp p x) = ss_runId x" for x by (simp add: space_patched_def)
  have "map ss_runId (xd_spaces db') = map ss_runId (xd_spaces db)" by (simp add: db')
  then have ok: "spaces_ok db'" using assms(1) by (simp add: spaces_ok_def)
  moreover have "s \<in> set (xd_spaces db')" "ss_runId s = rid" using cur s by (auto simp: db')
  ultimately show ?thesis unfolding spaces_ok_def distinct_map by (auto dest: inj_onD)
qed

lemma in_expirable: "s \<in> set (expirable now db) \<longleftrightarrow> s \<in> set (xd_spaces db) \<and> ss_state s \<in> {SpaceRetained, SpaceDeleteRetrying}
    \<and> (now \<noteq> [] \<longrightarrow> (\<exists>t. ss_expiresAt s = Some t \<and> t \<le> now))"
  by (auto simp: expirable_def listSharedSpaces_def truthy_def split: option.splits)

text \<open>
  A shared space that was retained at a time is a candidate for removal exactly from seven days later on.
\<close>

theorem retained_for_seven_days:
  assumes "spaces_ok db" and "retain t rid db = Inr (s, db')" and "iso_range (t + AGENT_RUN_SHARED_SPACE_TTL_MS)" and "iso_range now"
  shows "s \<in> set (expirable (to_iso now) db') \<longleftrightarrow> t + AGENT_RUN_SHARED_SPACE_TTL_MS \<le> now"
proof -
  have u: "updateSharedSpace (to_iso t) rid (space_unchanged\<lparr>px_state := Some SpaceRetained, px_expiresAt := Given (to_iso (t + AGENT_RUN_SHARED_SPACE_TTL_MS))\<rparr>) db = Inr (s, db')"
    using assms(2) by (simp add: retain_def)
  have s: "ss_state s = SpaceRetained" "ss_expiresAt s = Some (to_iso (t + AGENT_RUN_SHARED_SPACE_TTL_MS))"
    using u by (auto simp: updateSharedSpace_def space_patched_def space_unchanged_def patched_or_def split: option.splits)
  have "date_parse [] = None" by code_simp
  then have "to_iso now \<noteq> []" using date_parse_to_iso [OF assms(4)] by auto
  then show ?thesis using s updated_space [OF assms(1) u] to_iso_le_iff [OF assms(3,4)] by (simp add: in_expirable)
qed

text \<open>
  From the moment the removal of a directory has begun until its end is recorded, the space is not a candidate for removal, at
  whatever time; if the process ends in between, no later reconciliation takes the space up again.
\<close>

theorem begun_expiry_is_not_repeated:
  assumes "spaces_ok db" and "s \<in> set (xd_spaces db)" and "expire_begin now s db = (Inr r, db')"
    and "s' \<in> set (expirable now' db')"
  shows "ss_runId s' \<noteq> ss_runId s"
proof
  assume same: "ss_runId s' = ss_runId s"
  have g: "getSharedSpace (ss_runId s) db = Some s" unfolding getSharedSpace_def using assms(1,2) by (intro find_unique) (simp_all add: spaces_ok_def)
  let ?p = "space_unchanged\<lparr>px_state := Some SpaceExpiring\<rparr>"
  have "db' = updated_or (updateSharedSpace now (ss_runId s) ?p db) db" using assms(3) by (auto simp: expire_begin_def split: option.splits if_splits)
  then have "updateSharedSpace now (ss_runId s) ?p db = Inr (space_patched now ?p s, db')" using g by (simp add: updateSharedSpace_def updated_or_def)
  from updated_space [OF assms(1) this] same assms(4) have "s' = space_patched now ?p s" by (simp add: in_expirable)
  then show False using assms(4) by (simp add: in_expirable space_patched_def)
qed

definition demo_resources :: resource_db where
  "demo_resources = \<lparr>
     xd_spaces = [\<lparr>ss_runId = ''run_1'', ss_runtimeId = ''docker'', ss_generationId = ''g1'', ss_state = SpaceActive, ss_quotaBytes = 1, ss_usageBytes = 0,
       ss_expiresAt = None, ss_diagnostics = JObj [], ss_createdAt = to_iso 0, ss_updatedAt = to_iso 0\<rparr>],
     xd_resources = [\<lparr>xr_resourceId = ''resource_1'', xr_runId = ''run_1'', xr_memberId = None, xr_instanceId = Some ''inst1'', xr_runtimeId = ''docker'',
       xr_kind = SharedSpaceDirectory, xr_generationId = ''g1'', xr_backendIdentity = ''/shared/run_1'', xr_phase = PhaseReady, xr_cleanupAttempts = 0,
       xr_metadata = JObj [], xr_createdAt = to_iso 0, xr_updatedAt = to_iso 0\<rparr>]\<rparr>"

lemma demo_spaces_ok: "spaces_ok demo_resources"
  by (simp add: spaces_ok_def demo_resources_def)

theorem retained_for_seven_days_witness:
  "\<exists>s db. retain 0 ''run_1'' demo_resources = Inr (s, db) \<and> s \<notin> set (expirable (to_iso 604799999) db) \<and> s \<in> set (expirable (to_iso 604800000) db)"
proof -
  have r: "iso_range 604799999" "iso_range 604800000" by code_simp+
  obtain s db where s: "retain 0 ''run_1'' demo_resources = Inr (s, db)"
    by (simp add: retain_def updateSharedSpace_def getSharedSpace_def demo_resources_def)
  then show ?thesis
    using retained_for_seven_days [OF demo_spaces_ok s] r by (auto simp: AGENT_RUN_SHARED_SPACE_TTL_MS_def)
qed

theorem begun_expiry_is_not_repeated_witness:
  "\<exists>r db. expire_begin (to_iso 604800000) (hd (xd_spaces demo_resources)) demo_resources = (Inr r, db) \<and> (\<forall>now s. s \<in> set (expirable now db) \<longrightarrow> ss_runId s \<noteq> ''run_1'')"
proof -
  obtain r db where e: "expire_begin (to_iso 604800000) (hd (xd_spaces demo_resources)) demo_resources = (Inr r, db)"
    by (simp add: expire_begin_def listForRun_def demo_resources_def)
  have "hd (xd_spaces demo_resources) \<in> set (xd_spaces demo_resources)" "ss_runId (hd (xd_spaces demo_resources)) = ''run_1''" by (simp_all add: demo_resources_def)
  with begun_expiry_is_not_repeated [OF demo_spaces_ok _ e] e show ?thesis by (metis (no_types))
qed

end
