(* ===== verification/Agent_Run_Execution.thy ===== *)
theory Agent_Run_Execution
  imports Agent_Run_Safety Agent_Run_Resources Scheduler_Runtime
begin

text \<open>
  How a node executes the members of agent runs (\<^verbatim>\<open>AgentRunCoordinator\<close> in \<^verbatim>\<open>packages/node-agent/src/agents/run-coordinator.ts\<close>).
  An execution is a function of what its awaits get: each await has the calls of the run service that were made while it waited and
  its answer. The sessions, materializers and the directory of the shared space are such answers; the tables of runs and resources are those
  of the other theories.
\<close>

section \<open>Data\<close>

record scheduled_member =
  sm_runId :: string
  sm_memberId :: string
  sm_root :: bool
  sm_initiatorKey :: string
  sm_maxConcurrency :: nat

text \<open>A clean-up that a timer will repeat, with the arguments that the timer's callback has captured.\<close>

record cleanup_retry =
  cr_event :: scheduled_member
  cr_session :: bool
  cr_thread :: "string option"
  cr_workspace :: bool
  cr_result :: "agent_run_result option"
  cr_error :: "agent_run_failure option"
  cr_delayMs :: nat

text \<open>
  \<open>co_controllers\<close> maps a member to the number of cancelled runs when its controller was created, so that the controller is aborted
  if its run was cancelled since or the coordinator has stopped.
\<close>

record run_coordinator =
  co_service :: run_service
  co_resources :: resource_db
  co_runs :: "scheduled_member scheduler"
  co_members :: "scheduled_member scheduler"
  co_controllers :: "(string \<times> string, nat) jmap"
  co_waiters :: "(string \<times> string) list"
  co_resolved :: "scheduled_member list"
  co_managed :: "string list"
  co_retries :: "(string \<times> string, cleanup_retry) jmap"
  co_accepting :: bool

definition member_key :: "scheduled_member \<Rightarrow> string \<times> string" where
  "member_key ev = (sm_runId ev, sm_memberId ev)"

text \<open>The parameters of the coordinator; \<open>xe_message\<close> and \<open>xe_agentCode\<close> give the text of an error and the code of an error of the agent services.\<close>

record execution_env =
  xe_run :: run_env
  xe_message :: "agent_run_error \<Rightarrow> string"
  xe_resourceMessage :: "resource_error \<Rightarrow> string"
  xe_agentCode :: "agent_error \<Rightarrow> string option"
  xe_now :: int
  xe_root :: string
  xe_inspects :: bool
  xe_cleanupRetryBaseMs :: nat
  xe_newId :: string

text \<open>What an await gets: the calls made in the meantime, the resources that others have left, whether the coordinator was stopped, and the answer.\<close>

record 'a answer_of =
  aw_ops :: "(run_env \<times> run_op) list"
  aw_resources :: "resource_db option"
  aw_stop :: bool
  aw_result :: "agent_run_failure + 'a"

datatype member_status = StatusRunning | StatusCompleted agent_run_result | StatusFailed agent_run_failure

record poll =
  po_status :: "member_status answer_of"
  po_usage :: "nat answer_of"
  po_sleep :: "unit answer_of"

record member_answers =
  an_runtimeId :: string
  an_instanceId :: string
  an_generationId :: string
  an_target :: "agent_run_failure option"
  an_ensure :: "json answer_of"
  an_materializer :: "agent_run_failure option"
  an_prepare :: "string answer_of"
  an_create :: "(string \<times> string) answer_of"
  an_polls :: "poll list"

record cleanup_answers =
  ca_close :: "unit answer_of"
  ca_dispose :: "unit answer_of"

section \<open>Errors\<close>

fun run_error_code :: "(agent_error \<Rightarrow> string option) \<Rightarrow> agent_run_error \<Rightarrow> string option" where
  "run_error_code agent (RunNotFound _) = Some ''AGENT_RUN_NOT_FOUND''"
| "run_error_code agent (RunMemberNotFound _) = Some ''AGENT_RUN_MEMBER_NOT_FOUND''"
| "run_error_code agent (RunIdempotencyConflict _) = Some ''AGENT_RUN_IDEMPOTENCY_CONFLICT''"
| "run_error_code agent (RunRevisionConflict _ _) = Some ''AGENT_RUN_REVISION_CONFLICT''"
| "run_error_code agent (RunInitiatingInstanceUnknown _) = Some ''AGENT_RUN_INITIATING_INSTANCE_UNKNOWN''"
| "run_error_code agent (RunOrchestrationUnknown _) = Some ''AGENT_RUN_ORCHESTRATION_UNKNOWN''"
| "run_error_code agent (RunEntryRequired _) = Some ''AGENT_RUN_ENTRY_REQUIRED''"
| "run_error_code agent (RunEntryInvalid _) = Some ''AGENT_RUN_ENTRY_INVALID''"
| "run_error_code agent (RunInvocationForbidden _) = Some ''AGENT_RUN_INVOCATION_FORBIDDEN''"
| "run_error_code agent RunExecutionUnsupported = Some ''AGENT_RUN_EXECUTION_UNSUPPORTED''"
| "run_error_code agent (RunAlreadyTerminal _) = Some ''AGENT_RUN_ALREADY_TERMINAL''"
| "run_error_code agent (RunTerminal _) = Some ''AGENT_RUN_TERMINAL''"
| "run_error_code agent (RunParentMemberNotFound _) = Some ''AGENT_RUN_PARENT_MEMBER_NOT_FOUND''"
| "run_error_code agent (RunMemberIdempotencyConflict _) = Some ''AGENT_RUN_MEMBER_IDEMPOTENCY_CONFLICT''"
| "run_error_code agent (RunMemberBudgetExceeded _) = Some ''AGENT_RUN_MEMBER_BUDGET_EXCEEDED''"
| "run_error_code agent (RunDepthBudgetExceeded _) = Some ''AGENT_RUN_DEPTH_BUDGET_EXCEEDED''"
| "run_error_code agent RunSnapshotInstanceMismatch = Some ''AGENT_RUN_SNAPSHOT_INSTANCE_MISMATCH''"
| "run_error_code agent (RunStatusTransitionInvalid _ _) = Some ''AGENT_RUN_STATUS_TRANSITION_INVALID''"
| "run_error_code agent (RunTimelineMemberNotFound _) = Some ''AGENT_RUN_TIMELINE_MEMBER_NOT_FOUND''"
| "run_error_code agent RunConstraintFailed = Some ''ERR_SQLITE_ERROR''"
| "run_error_code agent (RunWaitAborted _) = Some ''AGENT_RUN_ALREADY_TERMINAL''"
| "run_error_code agent RunGrantInvalid = None"
| "run_error_code agent (RunAgentError e) = agent e"

text \<open>\<^verbatim>\<open>runError\<close> of an error of the run service or of the resources; none of them is marked retryable.\<close>

definition run_failure :: "execution_env \<Rightarrow> string \<Rightarrow> agent_run_error \<Rightarrow> agent_run_failure" where
  "run_failure env fallback e = \<lparr>af_code = (case run_error_code (xe_agentCode env) e of None \<Rightarrow> fallback | Some c \<Rightarrow> c),
     af_message = xe_message env e, af_retryable = False, af_details = None\<rparr>"

definition resource_failure :: "execution_env \<Rightarrow> resource_error \<Rightarrow> agent_run_failure" where
  "resource_failure env e = \<lparr>af_code = resource_error_code e, af_message = xe_resourceMessage env e, af_retryable = False, af_details = None\<rparr>"

definition plain_failure :: "string \<Rightarrow> string \<Rightarrow> agent_run_failure" where
  "plain_failure code msg = \<lparr>af_code = code, af_message = msg, af_retryable = False, af_details = None\<rparr>"

section \<open>Steps that may fail\<close>

definition and_then :: "('e + 'a) \<times> 'c \<Rightarrow> ('a \<Rightarrow> 'c \<Rightarrow> ('e + 'b) \<times> 'c) \<Rightarrow> ('e + 'b) \<times> 'c" where
  "and_then r f = (case r of (Inl e, c) \<Rightarrow> (Inl e, c) | (Inr x, c) \<Rightarrow> f x c)"

definition serve :: "execution_env \<Rightarrow> (run_service \<Rightarrow> (agent_run_error + 'a) \<times> run_service) \<Rightarrow> run_coordinator \<Rightarrow> (agent_run_failure + 'a) \<times> run_coordinator" where
  "serve env f c = (case f (co_service c) of (r, s) \<Rightarrow> (map_sum (run_failure env ''AGENT_RUN_EXECUTION_FAILED'') id r, c\<lparr>co_service := s\<rparr>))"

definition provide :: "execution_env \<Rightarrow> (resource_db \<Rightarrow> (resource_error + 'a) \<times> resource_db) \<Rightarrow> run_coordinator \<Rightarrow> (agent_run_failure + 'a) \<times> run_coordinator" where
  "provide env f c = (case f (co_resources c) of (r, db) \<Rightarrow> (map_sum (resource_failure env) id r, c\<lparr>co_resources := db\<rparr>))"

definition lifted :: "('e + 'a \<times> resource_db) \<Rightarrow> resource_db \<Rightarrow> ('e + 'a) \<times> resource_db" where
  "lifted r db = (case r of Inl e \<Rightarrow> (Inl e, db) | Inr (x, db') \<Rightarrow> (Inr x, db'))"

definition fail_if :: "agent_run_failure option \<Rightarrow> 'c \<Rightarrow> (agent_run_failure + unit) \<times> 'c" where
  "fail_if e c = (case e of None \<Rightarrow> (Inr (), c) | Some e \<Rightarrow> (Inl e, c))"

definition awaited :: "'a answer_of \<Rightarrow> run_coordinator \<Rightarrow> (agent_run_failure + 'a) \<times> run_coordinator" where
  "awaited a c = (aw_result a, c\<lparr>co_service := foldl run_step (co_service c) (aw_ops a),
     co_resources := (case aw_resources a of None \<Rightarrow> co_resources c | Some db \<Rightarrow> db), co_accepting := co_accepting c \<and> \<not> aw_stop a\<rparr>)"

definition read_run :: "string \<Rightarrow> run_service \<Rightarrow> (agent_run_error + agent_run) \<times> run_service" where
  "read_run rid s = (agent_run_require rid (sv_db s), s)"

definition read_member :: "string \<Rightarrow> string \<Rightarrow> run_service \<Rightarrow> (agent_run_error + run_member) \<times> run_service" where
  "read_member rid mid s =
     (case agent_run_require rid (sv_db s) of
        Inl e \<Rightarrow> (Inl e, s)
      | Inr _ \<Rightarrow> (case member_get rid mid (sv_db s) of None \<Rightarrow> (Inl (RunMemberNotFound mid), s) | Some m \<Rightarrow> (Inr m, s)))"

definition member_to :: "agent_run_status \<Rightarrow> member_transition" where
  "member_to status = \<lparr>mt_status = status, mt_result = Absent, mt_error = Absent, mt_aiSessionId = Absent\<rparr>"

definition aborted :: "scheduled_member \<Rightarrow> run_coordinator \<Rightarrow> bool" where
  "aborted ev c = (\<not> co_accepting c \<or> (case jmap_get (co_controllers c) (member_key ev) of
      None \<Rightarrow> False | Some n \<Rightarrow> sm_runId ev \<in> set (drop n (sv_cancelled (co_service c)))))"

section \<open>One execution\<close>

text \<open>How far an execution got, which is what its clean-up needs: the session, the resource of its thread, the workspace.\<close>

record execution_state =
  xs_coordinator :: run_coordinator
  xs_session :: bool
  xs_thread :: "string option"
  xs_workspace :: bool

definition on_coordinator :: "(run_coordinator \<Rightarrow> ('e + 'a) \<times> run_coordinator) \<Rightarrow> execution_state \<Rightarrow> ('e + 'a) \<times> execution_state" where
  "on_coordinator f x = (case f (xs_coordinator x) of (r, c) \<Rightarrow> (r, x\<lparr>xs_coordinator := c\<rparr>))"

definition run_cancelled_early :: agent_run_failure where
  "run_cancelled_early = plain_failure ''AGENT_RUN_CANCELLED'' ''The Agent Run was cancelled before the member started.''"

text \<open>From the start to the first await: the member is preparing, and so is the run if the member is its root.\<close>

definition begin_member :: "execution_env \<Rightarrow> scheduled_member \<Rightarrow> run_coordinator \<Rightarrow> (agent_run_failure + run_member) \<times> run_coordinator" where
  "begin_member env ev c =
     and_then (serve env (read_run (sm_runId ev)) c) (\<lambda>run c.
     and_then (serve env (read_member (sm_runId ev) (sm_memberId ev)) c) (\<lambda>_ c.
     and_then (fail_if (if ar_status run = RunFinalizing then Some run_cancelled_early else None) c) (\<lambda>_ c.
     and_then (if sm_root ev then serve env (run_transitionRun (xe_run env) (sm_runId ev) (only_status RunPreparing)) c else (Inr run, c)) (\<lambda>_ c.
     and_then (serve env (run_transitionMember (xe_run env) (sm_runId ev) (sm_memberId ev) (member_to RunPreparing)) c) (\<lambda>m c.
     and_then (serve env (run_appendTimeline (xe_run env) (sm_runId ev) ''member.preparing'' (Some (sm_memberId ev)) (JObj [])) c) (\<lambda>_ c.
     (Inr m, c)))))))"

definition ensure_space :: "execution_env \<Rightarrow> member_answers \<Rightarrow> string \<Rightarrow> run_coordinator \<Rightarrow> (agent_run_failure + unit) \<times> run_coordinator" where
  "ensure_space env an rid c =
     (let i = \<lparr>en_runId = rid, en_runtimeId = an_runtimeId an, en_instanceId = an_instanceId an, en_generationId = an_generationId an\<rparr>;
          t = to_iso (xe_now env)
      in and_then (provide env (ensure_begin t (xe_root env) i) c) (\<lambda>binding c.
         case awaited (an_ensure an) c of
           (answer, c) \<Rightarrow> and_then (provide env (ensure_end (xe_resourceMessage env) t (xe_newId env @ ''_space'') i binding (map_sum af_message id answer)) c)
             (\<lambda>_ c. (Inr (), c))))"

definition prepare_member :: "execution_env \<Rightarrow> member_answers \<Rightarrow> scheduled_member \<Rightarrow> execution_state \<Rightarrow> (agent_run_failure + run_member \<times> string) \<times> execution_state" where
  "prepare_member env an ev x =
     and_then (on_coordinator (begin_member env ev) x) (\<lambda>m x.
     and_then (fail_if (an_target an) x) (\<lambda>_ x.
     and_then (if sm_root ev then on_coordinator (ensure_space env an (sm_runId ev)) x else (Inr (), x)) (\<lambda>_ x.
     and_then (on_coordinator (provide env (\<lambda>db. (bindingForMember (xe_root env) (sm_runId ev) (an_runtimeId an) db, db))) x) (\<lambda>_ x.
     and_then (fail_if (an_materializer an) x) (\<lambda>_ x.
     and_then (on_coordinator (awaited (an_prepare an)) x) (\<lambda>cwd x.
     (Inr (m, cwd), x\<lparr>xs_workspace := True\<rparr>)))))))"

definition create_session :: "execution_env \<Rightarrow> member_answers \<Rightarrow> scheduled_member \<Rightarrow> run_member \<Rightarrow> string \<Rightarrow> execution_state
    \<Rightarrow> (agent_run_failure + string \<times> string) \<times> execution_state" where
  "create_session env an ev m cwd x =
     and_then (on_coordinator (provide env (\<lambda>db. (pathPolicyForMember (xe_root env) (sm_runId ev) (an_runtimeId an) cwd db, db))) x) (\<lambda>_ x.
     and_then (on_coordinator (serve env (\<lambda>s. (resolveMemberInvocationTools (xe_run env) (sm_runId ev) (mb_agentId m) s, s))) x) (\<lambda>_ x.
     and_then (fail_if (if mb_input m = None then Some (plain_failure ''AGENT_RUN_MEMBER_INPUT_MISSING'' ''The Agent Run member has no frozen input.'') else None) x) (\<lambda>_ x.
     and_then (on_coordinator (awaited (an_create an)) x) (\<lambda>created x.
     (Inr created, x\<lparr>xs_session := True\<rparr>)))))"

text \<open>After the session has been created: the member is running, and so is the run if the member is its root.\<close>

definition mark_running :: "execution_env \<Rightarrow> scheduled_member \<Rightarrow> string \<Rightarrow> run_coordinator \<Rightarrow> (agent_run_failure + unit) \<times> run_coordinator" where
  "mark_running env ev aiSessionId c =
     and_then (serve env (run_transitionMember (xe_run env) (sm_runId ev) (sm_memberId ev) ((member_to RunRunning)\<lparr>mt_aiSessionId := Given aiSessionId\<rparr>)) c) (\<lambda>_ c.
     and_then (if sm_root ev then map_prod (map_sum id (\<lambda>_. ())) id (serve env (run_transitionRun (xe_run env) (sm_runId ev) (only_status RunRunning)) c) else (Inr (), c)) (\<lambda>_ c.
     and_then (serve env (run_appendTimeline (xe_run env) (sm_runId ev) ''member.running'' (Some (sm_memberId ev)) (JObj [])) c) (\<lambda>_ c.
     (Inr (), c))))"

definition start_member :: "execution_env \<Rightarrow> member_answers \<Rightarrow> scheduled_member \<Rightarrow> run_member \<Rightarrow> string \<times> string \<Rightarrow> execution_state
    \<Rightarrow> (agent_run_failure + unit) \<times> execution_state" where
  "start_member env an ev m created x =
     (let t = to_iso (xe_now env) in
      and_then (on_coordinator (provide env (\<lambda>db. lifted (register_resource t (xe_newId env) \<lparr>ri_runId = sm_runId ev, ri_memberId = Some (sm_memberId ev),
          ri_instanceId = Some (an_instanceId an), ri_runtimeId = an_runtimeId an, ri_kind = ProviderThread, ri_generationId = an_generationId an,
          ri_backendIdentity = snd created, ri_metadata = JObj [(''aiSessionId'', JStr (fst created)), (''providerId'', JStr (sn_providerId (mb_executionSnapshot m)))]\<rparr> db) db)) x) (\<lambda>r x.
      and_then (on_coordinator (provide env (\<lambda>db. lifted (resource_transition t (xr_resourceId r) PhaseReady False None db) db)) (x\<lparr>xs_thread := Some (xr_resourceId r)\<rparr>)) (\<lambda>_ x.
      on_coordinator (mark_running env ev (fst created)) x)))"

text \<open>
  The loop that polls the session; \<open>None\<close> means that it goes on after the given answers. The result is that of the session, its failure,
  or neither when the loop was left for an abort or because the run is finalizing.
\<close>

definition refresh_usage :: "execution_env \<Rightarrow> string \<Rightarrow> nat answer_of \<Rightarrow> run_coordinator \<Rightarrow> (agent_run_failure + unit) \<times> run_coordinator" where
  "refresh_usage env rid a c =
     and_then (provide env (\<lambda>db. (refresh_begin (xe_inspects env) (xe_root env) rid db, db)) c) (\<lambda>(space, _) c.
     and_then (awaited a c) (\<lambda>measured c.
     and_then (provide env (refresh_end (to_iso (xe_now env)) space measured) c) (\<lambda>_ c. (Inr (), c))))"

type_synonym session_end = "agent_run_result option \<times> agent_run_failure option"

fun poll_session :: "execution_env \<Rightarrow> scheduled_member \<Rightarrow> poll list \<Rightarrow> run_coordinator \<Rightarrow> ((agent_run_failure + session_end) \<times> run_coordinator) option" where
  "poll_session env ev ps c =
     (if aborted ev c then Some (Inr (None, None), c)
      else case serve env (read_run (sm_runId ev)) c of
        (Inl e, c) \<Rightarrow> Some (Inl e, c)
      | (Inr run, c) \<Rightarrow>
          if ar_status run = RunFinalizing then Some (Inr (None, None), c)
          else (case ps of
                  [] \<Rightarrow> None
                | p # ps \<Rightarrow>
                    (case and_then (awaited (po_status p) c) (\<lambda>status c.
                       and_then (refresh_usage env (sm_runId ev) (po_usage p) c) (\<lambda>_ c. (Inr status, c))) of
                       (Inl e, c) \<Rightarrow> Some (Inl e, c)
                     | (Inr (StatusCompleted r), c) \<Rightarrow> Some (Inr (Some r, None), c)
                     | (Inr (StatusFailed e), c) \<Rightarrow> Some (Inr (None, Some e), c)
                     | (Inr StatusRunning, c) \<Rightarrow> poll_session env ev ps (snd (awaited (po_sleep p) c)))))"

declare poll_session.simps [simp del]

definition member_cancelled :: agent_run_failure where
  "member_cancelled = plain_failure ''AGENT_RUN_CANCELLED'' ''The Agent Run member was cancelled.''"

definition run_session :: "execution_env \<Rightarrow> member_answers \<Rightarrow> scheduled_member \<Rightarrow> execution_state \<Rightarrow> ((agent_run_failure + session_end) \<times> execution_state) option" where
  "run_session env an ev x =
     (case and_then (prepare_member env an ev x) (\<lambda>(m, cwd) x.
        and_then (create_session env an ev m cwd x) (\<lambda>created x. start_member env an ev m created x)) of
        (Inl e, x) \<Rightarrow> Some (Inl e, x)
      | (Inr _, x) \<Rightarrow> map_option (\<lambda>(r, c). (r, x\<lparr>xs_coordinator := c\<rparr>)) (poll_session env ev (an_polls an) (xs_coordinator x)))"

text \<open>\<open>terminalResult\<close> and \<open>terminalError\<close> when the clean-up is reached.\<close>

definition session_outcome :: "agent_run_failure + session_end \<Rightarrow> session_end" where
  "session_outcome r = (case r of Inl e \<Rightarrow> (None, Some e) | Inr (None, None) \<Rightarrow> (None, Some member_cancelled) | Inr q \<Rightarrow> q)"

section \<open>The clean-up\<close>

definition scheduleCleanupRetry :: "execution_env \<Rightarrow> cleanup_retry \<Rightarrow> run_coordinator \<Rightarrow> (agent_run_failure + unit) \<times> run_coordinator" where
  "scheduleCleanupRetry env r c =
     (let key = member_key (cr_event r) in
      if \<not> co_accepting c \<or> jmap_has (co_retries c) key then (Inr (), c)
      else and_then (serve env (read_run (sm_runId (cr_event r))) c) (\<lambda>run c.
        let attempts = (case ar_cleanup run of None \<Rightarrow> 1 | Some d \<Rightarrow> cd_attempts d);
            delay = min (xe_cleanupRetryBaseMs env * 2 ^ min (attempts - 1) 6) 60000
        in (Inr (), c\<lparr>co_retries := jmap_set key (r\<lparr>cr_delayMs := delay\<rparr>) (co_retries c)\<rparr>)))"

definition close_session :: "execution_env \<Rightarrow> cleanup_answers \<Rightarrow> string option \<Rightarrow> run_coordinator \<Rightarrow> (agent_run_failure + unit) \<times> run_coordinator" where
  "close_session env ca thread c =
     (let t = to_iso (xe_now env);
          move = (\<lambda>phase increment metadata c. case thread of
              None \<Rightarrow> (Inr (), c)
            | Some i \<Rightarrow> and_then (provide env (\<lambda>db. lifted (resource_transition t i phase increment metadata db) db) c) (\<lambda>_ c. (Inr (), c)))
      in and_then (move PhaseDeleting False None c) (\<lambda>_ c.
         case awaited (ca_close ca) c of
           (Inr _, c) \<Rightarrow>
             (case move PhaseDeleted False None c of
                (Inr _, c) \<Rightarrow> (Inr (), c)
              | (Inl e, c) \<Rightarrow> and_then (move PhaseDeleteRetrying True (Some (failure_json ''AGENT_RUN_PROVIDER_THREAD_CLOSE_FAILED'' (af_message e))) c) (\<lambda>_ c. (Inl e, c)))
         | (Inl e, c) \<Rightarrow> and_then (move PhaseDeleteRetrying True (Some (failure_json ''AGENT_RUN_PROVIDER_THREAD_CLOSE_FAILED'' (af_message e))) c) (\<lambda>_ c. (Inl e, c))))"

text \<open>The part of the clean-up inside \<^verbatim>\<open>try\<close>; its failure is the clean-up error.\<close>

definition release_member :: "execution_env \<Rightarrow> cleanup_answers \<Rightarrow> cleanup_retry \<Rightarrow> run_member \<Rightarrow> run_coordinator \<Rightarrow> (agent_run_failure + unit) \<times> run_coordinator" where
  "release_member env ca r m c =
     (let ev = cr_event r in
      if run_terminal (mb_status m) then (Inr (), c)
      else and_then (if mb_status m = RunFinalizing then (Inr m, c)
          else serve env (run_transitionMember (xe_run env) (sm_runId ev) (sm_memberId ev) (member_to RunFinalizing)) c) (\<lambda>_ c.
        and_then (if cr_session r then close_session env ca (cr_thread r) c else (Inr (), c)) (\<lambda>_ c.
        if cr_workspace r then awaited (ca_dispose ca) c else (Inr (), c))))"

definition given_some :: "'a option \<Rightarrow> 'a patched" where
  "given_some v = (case v of None \<Rightarrow> Absent | Some x \<Rightarrow> Given x)"

definition given_or_null :: "'a option \<Rightarrow> 'a patched" where
  "given_or_null v = (case v of None \<Rightarrow> Null | Some x \<Rightarrow> Given x)"

definition cleanup_attempts :: "agent_run \<Rightarrow> nat" where
  "cleanup_attempts run = (case ar_cleanup run of None \<Rightarrow> 0 | Some d \<Rightarrow> cd_attempts d) + 1"

definition cleanup_note :: "cleanup_status \<Rightarrow> nat \<Rightarrow> string option \<Rightarrow> execution_env \<Rightarrow> cleanup_diagnostic" where
  "cleanup_note status attempts msg env = \<lparr>cd_status = status, cd_attempts = attempts, cd_message = msg, cd_updatedAt = to_iso (xe_now env)\<rparr>"

text \<open>The run as it is read, then moved to \<^verbatim>\<open>finalizing\<close> unless it is there.\<close>

definition finalize_run :: "execution_env \<Rightarrow> string \<Rightarrow> run_coordinator \<Rightarrow> (agent_run_failure + agent_run) \<times> run_coordinator" where
  "finalize_run env rid c =
     and_then (serve env (read_run rid) c) (\<lambda>current c.
     and_then (if ar_status current \<noteq> RunFinalizing then serve env (run_transitionRun (xe_run env) rid (only_status RunFinalizing)) c else (Inr current, c)) (\<lambda>_ c.
     (Inr current, c)))"

definition run_retrying :: "execution_env \<Rightarrow> string \<Rightarrow> nat \<Rightarrow> string \<Rightarrow> run_coordinator \<Rightarrow> (agent_run_failure + agent_run) \<times> run_coordinator" where
  "run_retrying env rid attempts msg =
     serve env (run_transitionRun (xe_run env) rid ((only_status RunFinalizing)\<lparr>rt_cleanup := Given (cleanup_note CleanupRetrying attempts (Some msg) env)\<rparr>))"

definition retry_cleanup :: "execution_env \<Rightarrow> cleanup_retry \<Rightarrow> run_member \<Rightarrow> agent_run_failure \<Rightarrow> run_coordinator \<Rightarrow> (agent_run_failure + unit) \<times> run_coordinator" where
  "retry_cleanup env r m e c =
     (let ev = cr_event r; rid = sm_runId ev; mid = sm_memberId ev in
      and_then (if run_terminal (mb_status m) then (Inr m, c)
          else serve env (run_transitionMember (xe_run env) rid mid ((member_to RunFinalizing)\<lparr>mt_result := given_some (cr_result r), mt_error := given_some (cr_error r)\<rparr>)) c) (\<lambda>_ c.
      and_then (if sm_root ev
          then and_then (finalize_run env rid c) (\<lambda>current c.
            and_then (run_retrying env rid (cleanup_attempts current) (af_message e) c) (\<lambda>_ c.
            and_then (serve env (run_appendTimeline (xe_run env) rid ''run.cleanup-retrying'' (Some mid)
              (JObj [(''code'', JStr (af_code e)), (''attempts'', JNum (nat_digits (cleanup_attempts current)))])) c) (\<lambda>_ c. (Inr (), c))))
          else (Inr (), c)) (\<lambda>_ c.
      scheduleCleanupRetry env r c)))"

definition final_status :: "cleanup_retry \<Rightarrow> bool \<Rightarrow> agent_run_status" where
  "final_status r cancelled = (if cr_error r \<noteq> None then if cancelled then RunCancelled else RunFailed else RunCompleted)"

fun terminal_kind :: "agent_run_status \<Rightarrow> string" where
  "terminal_kind RunCancelled = ''member.cancelled''"
| "terminal_kind RunFailed = ''member.failed''"
| "terminal_kind _ = ''member.completed''"

definition settle_member :: "execution_env \<Rightarrow> cleanup_retry \<Rightarrow> run_member \<Rightarrow> agent_run_status \<Rightarrow> run_coordinator \<Rightarrow> (agent_run_failure + unit) \<times> run_coordinator" where
  "settle_member env r m status c =
     (let rid = sm_runId (cr_event r); mid = sm_memberId (cr_event r) in
      if run_terminal (mb_status m) then (Inr (), c)
      else and_then (serve env (run_transitionMember (xe_run env) rid mid (if status = RunCompleted then (member_to status)\<lparr>mt_result := given_or_null (cr_result r)\<rparr>
            else (member_to status)\<lparr>mt_error := given_or_null (cr_error r)\<rparr>)) c) (\<lambda>_ c.
        and_then (serve env (run_appendTimeline (xe_run env) rid (terminal_kind status) (Some mid) (JObj [])) c) (\<lambda>_ c. (Inr (), c))))"

definition settle_run :: "execution_env \<Rightarrow> cleanup_retry \<Rightarrow> agent_run_status \<Rightarrow> run_coordinator \<Rightarrow> (agent_run_failure + unit) \<times> run_coordinator" where
  "settle_run env r status c =
     (let rid = sm_runId (cr_event r) in
      and_then (finalize_run env rid c) (\<lambda>current c.
      case provide env (\<lambda>db. lifted (retain (xe_now env) rid db) db) c of
        (Inl e, c) \<Rightarrow>
          and_then (run_retrying env rid (cleanup_attempts current) (af_message e) c) (\<lambda>_ c.
          scheduleCleanupRetry env (r\<lparr>cr_session := False, cr_thread := None, cr_workspace := False\<rparr>) c)
      | (Inr _, c) \<Rightarrow>
          let t = (only_status status)\<lparr>rt_cleanup := Given (cleanup_note CleanupCompleted (cleanup_attempts current) None env)\<rparr>
          in and_then (serve env (run_transitionRun (xe_run env) rid (if status = RunCompleted then t\<lparr>rt_result := given_or_null (cr_result r)\<rparr>
                else t\<lparr>rt_error := given_or_null (cr_error r)\<rparr>)) c) (\<lambda>_ c.
             (Inr (), c\<lparr>co_managed := removeAll rid (co_managed c)\<rparr>))))"

definition finalizeMember :: "execution_env \<Rightarrow> cleanup_answers \<Rightarrow> cleanup_retry \<Rightarrow> run_coordinator \<Rightarrow> (agent_run_failure + unit) \<times> run_coordinator" where
  "finalizeMember env ca r c =
     (let ev = cr_event r; c = c\<lparr>co_retries := jmap_delete (member_key ev) (co_retries c)\<rparr> in
      and_then (serve env (read_member (sm_runId ev) (sm_memberId ev)) c) (\<lambda>m c.
      case release_member env ca r m c of
        (released, c) \<Rightarrow>
          and_then (serve env (read_run (sm_runId ev)) c) (\<lambda>run c.
          let cancelled = (ar_status run = RunFinalizing \<and> map_option af_code (cr_error r) = Some ''AGENT_RUN_CANCELLED'');
              status = final_status r cancelled
          in case released of
               Inl e \<Rightarrow> retry_cleanup env r m e c
             | Inr _ \<Rightarrow> and_then (settle_member env r m status c) (\<lambda>_ c. if sm_root ev then settle_run env r status c else (Inr (), c)))))"

text \<open>The callback of the timer of a retry.\<close>

definition fire_retry :: "execution_env \<Rightarrow> cleanup_answers \<Rightarrow> string \<times> string \<Rightarrow> run_coordinator \<Rightarrow> (agent_run_failure + unit) \<times> run_coordinator" where
  "fire_retry env ca key c =
     (case jmap_get (co_retries c) key of
        None \<Rightarrow> (Inr (), c)
      | Some r \<Rightarrow> finalizeMember env ca r (c\<lparr>co_retries := jmap_delete key (co_retries c)\<rparr>))"

definition complete :: "scheduled_member \<Rightarrow> run_coordinator \<Rightarrow> run_coordinator" where
  "complete ev c = (if member_key ev \<in> set (co_waiters c)
     then c\<lparr>co_waiters := removeAll (member_key ev) (co_waiters c), co_resolved := co_resolved c @ [ev]\<rparr> else c)"

definition executeMember :: "execution_env \<Rightarrow> member_answers \<Rightarrow> cleanup_answers \<Rightarrow> scheduled_member \<Rightarrow> run_coordinator
    \<Rightarrow> ((agent_run_failure + unit) \<times> run_coordinator) option" where
  "executeMember env an ca ev c =
     (let key = member_key ev in
      if jmap_has (co_controllers c) key then Some (Inr (), c)
      else let c = c\<lparr>co_controllers := jmap_set key (length (sv_cancelled (co_service c))) (co_controllers c)\<rparr>
        in map_option (\<lambda>(r, x).
             case session_outcome r of
               (result, error) \<Rightarrow>
                 and_then (finalizeMember env ca \<lparr>cr_event = ev, cr_session = xs_session x, cr_thread = xs_thread x, cr_workspace = xs_workspace x,
                     cr_result = result, cr_error = error, cr_delayMs = 0\<rparr> (xs_coordinator x)) (\<lambda>_ c.
                   (Inr (), complete ev (c\<lparr>co_controllers := jmap_delete key (co_controllers c)\<rparr>))))
           (run_session env an ev \<lparr>xs_coordinator = c, xs_session = False, xs_thread = None, xs_workspace = False\<rparr>))"

section \<open>Scheduling\<close>

text \<open>\<^verbatim>\<open>authorizationSubject?.subjectId ?? "system"\<close>\<close>

definition subject_id :: "json option \<Rightarrow> string" where
  "subject_id subject = (case subject of
      Some (JObj kvs) \<Rightarrow> (case map_of kvs ''subjectId'' of Some (JStr i) \<Rightarrow> i | _ \<Rightarrow> ''system'')
    | _ \<Rightarrow> ''system'')"

definition initiator_key :: "run_provenance \<Rightarrow> string" where
  "initiator_key p = (case p of
      ControlPlaneProvenance subject \<Rightarrow> ''control-plane:'' @ subject_id subject
    | StoryProvenance _ session _ _ \<Rightarrow> ''story:'' @ session)"

definition member_event :: "string \<Rightarrow> string \<Rightarrow> run_db \<Rightarrow> agent_run_error + scheduled_member" where
  "member_event rid mid db =
     (case agent_run_require rid db of
        Inl e \<Rightarrow> Inl e
      | Inr run \<Rightarrow> (case member_get rid mid db of
          None \<Rightarrow> Inl (RunMemberNotFound mid)
        | Some _ \<Rightarrow> Inr \<lparr>sm_runId = rid, sm_memberId = mid, sm_root = (ar_rootMemberId run = mid),
            sm_initiatorKey = initiator_key (ar_provenance run), sm_maxConcurrency = ab_maxConcurrency (ar_budget run)\<rparr>))"

fun skip_text :: "skip_reason \<Rightarrow> string" where
  "skip_text SkipCooldown = ''cooldown''"
| "skip_text SkipBusy = ''busy''"
| "skip_text SkipQueueFull = ''queue-full''"
| "skip_text SkipSchedulerStopped = ''scheduler-stopped''"
| "skip_text SkipJobDisabled = ''job-disabled''"

definition skip_failure :: "skip_reason \<Rightarrow> agent_run_failure" where
  "skip_failure reason = \<lparr>af_code = ''AGENT_RUN_SCHEDULER_STOPPED'', af_message = ''Agent Run scheduling stopped: '' @ skip_text reason @ ''.'',
     af_retryable = (reason = SkipSchedulerStopped), af_details = None\<rparr>"

definition fail_queued_steps :: "execution_env \<Rightarrow> scheduled_member \<Rightarrow> skip_reason \<Rightarrow> run_coordinator \<Rightarrow> (agent_run_failure + unit) \<times> run_coordinator" where
  "fail_queued_steps env ev reason c =
     (let rid = sm_runId ev; mid = sm_memberId ev; e = skip_failure reason in
      and_then (serve env (read_member rid mid) c) (\<lambda>m c.
      if mb_status m \<noteq> RunQueued then (Inr (), c)
      else and_then (serve env (run_transitionMember (xe_run env) rid mid (member_to RunFinalizing)) c) (\<lambda>_ c.
        and_then (serve env (run_transitionMember (xe_run env) rid mid ((member_to RunFailed)\<lparr>mt_error := Given e\<rparr>)) c) (\<lambda>_ c.
        if \<not> sm_root ev then (Inr (), c)
        else and_then (finalize_run env rid c) (\<lambda>_ c.
          and_then (serve env (run_transitionRun (xe_run env) rid ((only_status RunFailed)\<lparr>rt_error := Given e,
              rt_cleanup := Given (cleanup_note CleanupCompleted 0 None env)\<rparr>)) c) (\<lambda>_ c.
          (Inr (), c\<lparr>co_managed := removeAll rid (co_managed c)\<rparr>)))))))"

definition failQueued :: "execution_env \<Rightarrow> scheduled_member \<Rightarrow> skip_reason \<Rightarrow> run_coordinator \<Rightarrow> run_coordinator" where
  "failQueued env ev reason c = complete ev (snd (fail_queued_steps env ev reason c))"

text \<open>
  The schedulers record what they skip and start. \<open>with_members\<close> and \<open>with_runs\<close> apply a call and then do what the adapter does: a skipped event
  fails its member; a started event of the run scheduler submits the root to the scheduler of the members. The executions of the
  latter are those recorded as executing.
\<close>

definition queue_policy :: "nat \<Rightarrow> scheduler_policy" where
  "queue_policy n = \<lparr>sp_cooldownMs = None, sp_maxConcurrentRuns = n, sp_whenBusy = BusyQueue\<rparr>"

definition with_members :: "execution_env \<Rightarrow> (scheduled_member scheduler \<Rightarrow> scheduled_member scheduler) \<Rightarrow> run_coordinator \<Rightarrow> run_coordinator" where
  "with_members env f c =
     (let rt = f (co_members c); skipped = drop (length (rt_skipped (co_members c))) (rt_skipped rt)
      in fold (\<lambda>(ev, reason). failQueued env ev reason) skipped (c\<lparr>co_members := rt\<rparr>))"

definition member_scheduler_key :: "string \<Rightarrow> string" where
  "member_scheduler_key rid = ''run:'' @ rid"

definition submit_member :: "execution_env \<Rightarrow> scheduled_member \<Rightarrow> run_coordinator \<Rightarrow> run_coordinator" where
  "submit_member env ev = with_members env (\<lambda>rt. snd (submit (xe_now env) (member_scheduler_key (sm_runId ev)) ev (queue_policy (sm_maxConcurrency ev)) rt))"

definition submitRootMember :: "execution_env \<Rightarrow> scheduled_member \<Rightarrow> run_coordinator \<Rightarrow> run_coordinator" where
  "submitRootMember env ev c = submit_member env ev (c\<lparr>co_waiters := co_waiters c @ [member_key ev]\<rparr>)"

definition with_runs :: "execution_env \<Rightarrow> (scheduled_member scheduler \<Rightarrow> scheduled_member scheduler) \<Rightarrow> run_coordinator \<Rightarrow> run_coordinator" where
  "with_runs env f c =
     (let rt = f (co_runs c); skipped = drop (length (rt_skipped (co_runs c))) (rt_skipped rt);
          started = drop (length (rt_started (co_runs c))) (rt_started rt)
      in fold (\<lambda>(_, ev). submitRootMember env ev) started (fold (\<lambda>(ev, reason). failQueued env ev reason) skipped (c\<lparr>co_runs := rt\<rparr>)))"

definition coordinator_accept :: "execution_env \<Rightarrow> string \<Rightarrow> string \<Rightarrow> run_coordinator \<Rightarrow> (agent_run_error + unit) \<times> run_coordinator" where
  "coordinator_accept env rid mid c =
     (case member_event rid mid (sv_db (co_service c)) of
        Inl e \<Rightarrow> (Inl e, c)
      | Inr ev \<Rightarrow>
          (Inr (),
           if \<not> co_accepting c then failQueued env ev SkipSchedulerStopped c
           else if \<not> sm_root ev then submit_member env ev c
           else if rid \<in> set (co_managed c) then c
           else with_runs env (\<lambda>rt. snd (submit (xe_now env) (sm_initiatorKey ev) ev (queue_policy 2) rt)) (c\<lparr>co_managed := co_managed c @ [rid]\<rparr>)))"

text \<open>The controllers that \<^verbatim>\<open>cancel\<close> aborts are those whose run the service has recorded as cancelled.\<close>

definition coordinator_cancel :: "execution_env \<Rightarrow> string \<Rightarrow> run_coordinator \<Rightarrow> run_coordinator" where
  "coordinator_cancel env rid = with_members env (clearQueued (member_scheduler_key rid) SkipJobDisabled)"

definition coordinator_stop :: "execution_env \<Rightarrow> run_coordinator \<Rightarrow> run_coordinator" where
  "coordinator_stop env c = (with_members env stop (with_runs env stop (c\<lparr>co_accepting := False\<rparr>)))\<lparr>co_retries := []\<rparr>"

text \<open>The promise of an execution, or of a root that the run scheduler waits for, is settled.\<close>

definition member_settled :: "execution_env \<Rightarrow> scheduled_member \<Rightarrow> run_coordinator \<Rightarrow> run_coordinator" where
  "member_settled env ev = with_members env (finish_run (xe_now env) (member_scheduler_key (sm_runId ev)) ev)"

definition root_settled :: "execution_env \<Rightarrow> scheduled_member \<Rightarrow> run_coordinator \<Rightarrow> run_coordinator" where
  "root_settled env ev = with_runs env (finish_run (xe_now env) (sm_initiatorKey ev) ev)"

section \<open>After a restart\<close>

definition restart_failure :: agent_run_failure where
  "restart_failure = plain_failure ''AGENT_RUN_NODE_RESTARTED''
     ''The Node Agent restarted after this Agent Run began; started members are not executed again.''"

definition each_then :: "('a \<Rightarrow> 'c \<Rightarrow> ('e + unit) \<times> 'c) \<Rightarrow> 'a list \<Rightarrow> 'c \<Rightarrow> ('e + unit) \<times> 'c" where
  "each_then f xs c = fold (\<lambda>x r. and_then r (\<lambda>_. f x)) xs (Inr (), c)"

text \<open>
  \<^verbatim>\<open>reconcileInterruptedRun\<close>; \<open>close\<close> is what closing the session of a resource gets, \<open>known\<close> tells whether its instance is known, and
  \<open>reconciled\<close> is the await of the reconciliation of the instances' resources.
\<close>

definition close_thread :: "execution_env \<Rightarrow> (string \<Rightarrow> unit answer_of) \<Rightarrow> run_resource \<Rightarrow> run_coordinator \<Rightarrow> (agent_run_failure + unit) \<times> run_coordinator" where
  "close_thread env close x c =
     (let t = to_iso (xe_now env); i = xr_resourceId x;
          move = (\<lambda>phase increment metadata c. and_then (provide env (\<lambda>db. lifted (resource_transition t i phase increment metadata db) db) c) (\<lambda>_ c. (Inr (), c)))
      in if xr_kind x \<noteq> ProviderThread \<or> xr_phase x \<in> {PhaseDeleted, PhaseManual} then (Inr (), c)
         else if \<not> truthy (xr_memberId x) \<or> \<not> truthy (xr_instanceId x)
         then move PhaseManual False (Some (failure_json ''AGENT_RUN_RESOURCE_OWNERSHIP_UNPROVEN'' ''Provider thread ownership is incomplete.'')) c
         else case and_then (move PhaseDeleting False None c) (\<lambda>_ c. and_then (awaited (close i) c) (\<lambda>_ c. move PhaseDeleted False None c)) of
                (Inr _, c) \<Rightarrow> (Inr (), c)
              | (Inl e, c) \<Rightarrow> move PhaseDeleteRetrying True (Some (failure_json ''AGENT_RUN_PROVIDER_THREAD_CLOSE_FAILED'' (af_message e))) c)"

definition fail_members :: "execution_env \<Rightarrow> string \<Rightarrow> (agent_run_status \<Rightarrow> bool) \<Rightarrow> agent_run_status \<Rightarrow> run_coordinator \<Rightarrow> (agent_run_failure + unit) \<times> run_coordinator" where
  "fail_members env rid skip status c =
     each_then (\<lambda>m c. if skip (mb_status m) then (Inr (), c)
        else and_then (serve env (run_transitionMember (xe_run env) rid (mb_memberId m) ((member_to status)\<lparr>mt_error := Given restart_failure\<rparr>)) c) (\<lambda>_ c. (Inr (), c)))
       (js_sort (\<lambda>a b. mb_createdAt a < mb_createdAt b \<or> mb_createdAt a = mb_createdAt b \<and> mb_memberId a \<le> mb_memberId b) (members_of rid (sv_db (co_service c)))) c"

definition reconcileInterruptedRun :: "execution_env \<Rightarrow> (string \<Rightarrow> unit answer_of) \<Rightarrow> unit answer_of \<Rightarrow> string \<Rightarrow> run_coordinator \<Rightarrow> (agent_run_failure + unit) \<times> run_coordinator" where
  "reconcileInterruptedRun env close reconciled rid c =
     and_then (finalize_run env rid c) (\<lambda>_ c.
     and_then (fail_members env rid (\<lambda>s. run_terminal s \<or> s = RunFinalizing) RunFinalizing c) (\<lambda>_ c.
     and_then (each_then (close_thread env close) (listForRun rid (co_resources c)) c) (\<lambda>_ c.
     let c = snd (awaited reconciled c);
         xs = filter (\<lambda>x. xr_kind x \<in> {ProviderThread, OverlayMount}) (listForRun rid (co_resources c));
         manual = list_ex (\<lambda>x. xr_phase x = PhaseManual) xs;
         pending = list_ex (\<lambda>x. xr_phase x \<notin> {PhaseDeleted, PhaseManual}) xs;
         attempts = fold max (map xr_cleanupAttempts xs) 1
     in if pending
        then and_then (serve env (run_transitionRun (xe_run env) rid ((only_status RunFinalizing)\<lparr>rt_error := Given restart_failure,
            rt_cleanup := Given (cleanup_note CleanupRetrying attempts (Some ''Runtime cleanup will be retried.'') env)\<rparr>)) c) (\<lambda>_ c. (Inr (), c))
        else and_then (fail_members env rid run_terminal RunFailed c) (\<lambda>_ c.
          and_then (serve env (run_transitionRun (xe_run env) rid ((only_status RunFailed)\<lparr>rt_error := Given restart_failure,
            rt_cleanup := Given (if manual then cleanup_note CleanupManual attempts
                (Some ''At least one runtime resource could not be proven to belong to this Agent Run.'') env
              else cleanup_note CleanupCompleted attempts None env)\<rparr>)) c) (\<lambda>_ c. (Inr (), c))))))"

definition reconcile_run :: "execution_env \<Rightarrow> (string \<Rightarrow> unit answer_of) \<Rightarrow> unit answer_of \<Rightarrow> agent_run \<times> run_member option \<Rightarrow> run_coordinator
    \<Rightarrow> (agent_run_failure + unit) \<times> run_coordinator" where
  "reconcile_run env close reconciled listed c =
     (let run = fst listed; rid = ar_runId run in
      if run_terminal (ar_status run) then (Inr (), c\<lparr>co_managed := removeAll rid (co_managed c)\<rparr>)
      else if rid \<in> set (co_managed c) then (Inr (), c)
      else if ar_status run = RunQueued \<and> listForRun rid (co_resources c) = []
      then (case snd listed of
              None \<Rightarrow> (Inr (), c)
            | Some root \<Rightarrow> if mb_status root = RunQueued
                then map_prod (map_sum (run_failure env ''AGENT_RUN_EXECUTION_FAILED'') id) id (coordinator_accept env rid (mb_memberId root) c)
                else (Inr (), c))
      else reconcileInterruptedRun env close reconciled rid c)"

text \<open>The runs and their roots are those listed at the start.\<close>

definition coordinator_reconcile :: "execution_env \<Rightarrow> (string \<Rightarrow> unit answer_of) \<Rightarrow> unit answer_of \<Rightarrow> run_coordinator \<Rightarrow> (agent_run_failure + unit) \<times> run_coordinator" where
  "coordinator_reconcile env close reconciled c =
     (let db = sv_db (co_service c)
      in each_then (reconcile_run env close reconciled) (map (\<lambda>r. (r, member_get (ar_runId r) (ar_rootMemberId r) db)) (agent_runs_list db)) c)"

end
