(* ===== verification/Agent_Run_Outcomes.thy ===== *)
theory Agent_Run_Outcomes
  imports Agent_Run_Execution
begin

text \<open>
  How executions of members end: a clean-up that succeeds settles the member and, with its root, the run; a run that is cancelled while its root
  is being prepared ends as failed; a run that is cancelled before its root has started does not end.
\<close>

section \<open>What the operations do to one run and one member\<close>

text \<open>The status, result, error and clean-up of a run, and the status, result and error of a member.\<close>

definition run_state :: "string \<Rightarrow> run_db \<Rightarrow> (agent_run_status \<times> agent_run_result option \<times> agent_run_failure option \<times> cleanup_diagnostic option) option" where
  "run_state rid db = map_option (\<lambda>r. (ar_status r, ar_result r, ar_error r, ar_cleanup r)) (agent_run_get rid db)"

definition member_state :: "string \<Rightarrow> string \<Rightarrow> run_db \<Rightarrow> (agent_run_status \<times> agent_run_result option \<times> agent_run_failure option) option" where
  "member_state rid mid db = map_option (\<lambda>m. (mb_status m, mb_result m, mb_error m)) (member_get rid mid db)"

lemma find_map: "(\<And>x. P (f x) = P x) \<Longrightarrow> List.find P (map f xs) = map_option f (List.find P xs)"
  by (induction xs) auto

lemma run_get_update: "(\<And>r. ar_runId (f r) = ar_runId r) \<Longrightarrow> agent_run_get rid (update_run rid' f db) = map_option (\<lambda>r. if rid = rid' then f r else r) (agent_run_get rid db)"
proof -
  assume f: "\<And>r. ar_runId (f r) = ar_runId r"
  have "List.find (\<lambda>r. ar_runId r = rid) (map (\<lambda>r. if ar_runId r = rid' then f r else r) (rd_runs db))
      = map_option (\<lambda>r. if ar_runId r = rid' then f r else r) (List.find (\<lambda>r. ar_runId r = rid) (rd_runs db))"
    by (rule find_map) (simp add: f)
  then show ?thesis by (cases "List.find (\<lambda>r. ar_runId r = rid) (rd_runs db)") (auto simp: agent_run_get_def update_run_def dest: find_SomeD)
qed

lemma members_of_update: "(\<And>m. mb_runId (f m) = mb_runId m) \<Longrightarrow> members_of rid (update_member rid' mid f db) = map (\<lambda>m. if rid = rid' \<and> mb_memberId m = mid then f m else m) (members_of rid db)"
proof -
  assume f: "\<And>m. mb_runId (f m) = mb_runId m"
  have "filter (\<lambda>m. mb_runId m = rid) (map (\<lambda>m. if mb_runId m = rid' \<and> mb_memberId m = mid then f m else m) ms)
      = map (\<lambda>m. if rid = rid' \<and> mb_memberId m = mid then f m else m) (filter (\<lambda>m. mb_runId m = rid) ms)" for ms
    by (induction ms) (auto simp: f)
  then show ?thesis by (simp add: members_of_def update_member_def)
qed

lemma member_get_update:
  assumes "\<And>m. mb_runId (f m) = mb_runId m" and "\<And>m. mb_memberId (f m) = mb_memberId m"
  shows "member_get rid mid (update_member rid' mid' f db) = map_option (\<lambda>m. if rid = rid' \<and> mid = mid' then f m else m) (member_get rid mid db)"
proof -
  have "List.find (\<lambda>m. mb_memberId m = mid) (map (\<lambda>m. if rid = rid' \<and> mb_memberId m = mid' then f m else m) ms)
      = map_option (\<lambda>m. if rid = rid' \<and> mb_memberId m = mid' then f m else m) (List.find (\<lambda>m. mb_memberId m = mid) ms)" for ms
    by (rule find_map) (simp add: assms)
  then show ?thesis unfolding member_get_def members_of_update [OF assms(1)]
    by (cases "List.find (\<lambda>m. mb_memberId m = mid) (members_of rid db)") (auto dest: find_SomeD)
qed

lemma bump_states [simp]: "run_state rid (bumpRevision rid' timestamp db) = run_state rid db" "member_get rid mid (bumpRevision rid' timestamp db) = member_get rid mid db"
  by (simp_all add: run_state_def bumpRevision_def run_get_update option.map_comp comp_def if_distrib cong: if_cong)
     (simp add: member_get_def members_of_def update_run_def)

lemma update_states [simp]: "agent_run_get rid (update_member rid' mid f db) = agent_run_get rid db" "member_get rid mid (update_run rid' g db) = member_get rid mid db"
  by (simp_all add: agent_run_get_def update_member_def member_get_def members_of_def update_run_def)

lemma timeline_states [simp]: "agent_run_get rid (db\<lparr>rd_timeline := t\<rparr>) = agent_run_get rid db" "member_get rid mid (db\<lparr>rd_timeline := t\<rparr>) = member_get rid mid db"
  by (simp_all add: agent_run_get_def member_get_def members_of_def)

lemma run_state_frames [simp]: "run_state rid (db\<lparr>rd_timeline := t\<rparr>) = run_state rid db" "run_state rid (update_member rid' mid f db) = run_state rid db"
  by (simp_all add: run_state_def)

lemma transitionRun_ok:
  assumes "run_state rid (sv_db s) = Some (st, res, err, cl)" and "canTransitionAgentRunStatus st (rt_status t)"
  obtains r s' where "run_transitionRun e rid t s = (Inr r, s')"
    "run_state rid (sv_db s') = Some (rt_status t, patched_or res (rt_result t), patched_or err (rt_error t), patched_or cl (rt_cleanup t))"
    "\<And>rid' mid. member_get rid' mid (sv_db s') = member_get rid' mid (sv_db s)"
proof -
  obtain r where r: "agent_run_get rid (sv_db s) = Some r" "ar_status r = st" "ar_result r = res" "ar_error r = err" "ar_cleanup r = cl"
    using assms(1) by (auto simp: run_state_def)
  have "run_state rid (update_run rid (run_after timestamp t) (sv_db s))
      = Some (rt_status t, patched_or res (rt_result t), patched_or err (rt_error t), patched_or cl (rt_cleanup t))" for timestamp
    using r by (simp add: run_state_def run_get_update run_after_def)
  moreover have "run_state rid (sv_db s) = Some (rt_status t, patched_or res (rt_result t), patched_or err (rt_error t), patched_or cl (rt_cleanup t))"
    if "rt_status t = ar_status r" "patched_or (ar_result r) (rt_result t) = ar_result r" "patched_or (ar_error r) (rt_error t) = ar_error r"
      "patched_or (ar_cleanup r) (rt_cleanup t) = ar_cleanup r" using that r assms(1) by simp
  ultimately have "\<exists>r' db. runs_transitionRun (id_timestamp (re_ids e)) rid t (sv_db s) = Inr (r', db)
      \<and> run_state rid db = Some (rt_status t, patched_or res (rt_result t), patched_or err (rt_error t), patched_or cl (rt_cleanup t))
      \<and> (\<forall>rid' mid. member_get rid' mid db = member_get rid' mid (sv_db s))"
    using r(1,2) assms(2) by (simp add: runs_transitionRun_def agent_run_require_def)
  then obtain r' db where "runs_transitionRun (id_timestamp (re_ids e)) rid t (sv_db s) = Inr (r', db)"
    and db: "run_state rid db = Some (rt_status t, patched_or res (rt_result t), patched_or err (rt_error t), patched_or cl (rt_cleanup t))"
      "\<And>rid' mid. member_get rid' mid db = member_get rid' mid (sv_db s)" by blast
  then have "run_transitionRun e rid t s = (Inr r', publish_run r' (s\<lparr>sv_db := db\<rparr>))" by (simp add: run_transitionRun_def)
  then show ?thesis using that db by simp
qed

lemma transitionRun_refused:
  assumes "run_state rid (sv_db s) = Some (st, rest)" and "\<not> canTransitionAgentRunStatus st (rt_status t)"
  shows "run_transitionRun e rid t s = (Inl (RunStatusTransitionInvalid st (rt_status t)), s)"
  using assms by (auto simp: run_transitionRun_def runs_transitionRun_def agent_run_require_def run_state_def)

lemma transitionMember_ok:
  assumes "run_state rid (sv_db s) = Some rv" and "member_state rid mid (sv_db s) = Some (st, res, err)" and "canTransitionAgentRunStatus st (mt_status t)"
  obtains m s' where "run_transitionMember e rid mid t s = (Inr m, s')" "run_state rid (sv_db s') = Some rv"
    "member_state rid mid (sv_db s') = Some (mt_status t, patched_or res (mt_result t), patched_or err (mt_error t))"
proof -
  obtain r m where r: "agent_run_get rid (sv_db s) = Some r" and m: "member_get rid mid (sv_db s) = Some m" "mb_status m = st" "mb_result m = res" "mb_error m = err"
    using assms(1,2) by (auto simp: run_state_def member_state_def)
  have "\<exists>m' db. runs_transitionMember (id_timestamp (re_ids e)) rid mid t (sv_db s) = Inr (m', db) \<and> run_state rid db = Some rv
      \<and> member_state rid mid db = Some (mt_status t, patched_or res (mt_result t), patched_or err (mt_error t))"
    using m assms(1,3) by (simp add: runs_transitionMember_def member_state_def member_get_update member_after_def)
  then obtain m' db where t: "runs_transitionMember (id_timestamp (re_ids e)) rid mid t (sv_db s) = Inr (m', db)" and "run_state rid db = Some rv"
    "member_state rid mid db = Some (mt_status t, patched_or res (mt_result t), patched_or err (mt_error t))" by blast
  moreover obtain s' where "run_transitionMember e rid mid t s = (Inr m', s')" "sv_db s' = db"
    using r t by (auto simp: run_transitionMember_def agent_run_require_def Let_def split: option.split)
  ultimately show ?thesis using that by auto
qed

lemma appendTimeline_ok:
  assumes "run_state rid (sv_db s) = Some rv" and "member_state rid mid (sv_db s) = Some mv"
  obtains x s' where "run_appendTimeline e rid kind (Some mid) data s = (Inr x, s')" "run_state rid (sv_db s') = Some rv" "member_state rid mid (sv_db s') = Some mv"
proof -
  obtain r m where r: "agent_run_get rid (sv_db s) = Some r" "member_get rid mid (sv_db s) = Some m" using assms by (auto simp: run_state_def member_state_def)
  obtain x db where t: "runs_appendTimeline (id_timestamp (re_ids e)) rid kind (Some mid) data (sv_db s) = Inr (x, db)" and db: "run_state rid db = Some rv" "member_state rid mid db = Some mv"
    using r assms by (simp add: runs_appendTimeline_def agent_run_require_def member_state_def Let_def)
  moreover obtain s' where "run_appendTimeline e rid kind (Some mid) data s = (Inr x, s')" "sv_db s' = db"
    using t by (auto simp: run_appendTimeline_def publish_run_def split: option.split)
  ultimately show ?thesis using that by auto
qed

section \<open>What others may do in the meantime\<close>

text \<open>Only the execution of a member moves that member, and only the execution of the root moves the run, other than by a cancellation.\<close>

fun other_op :: "string \<Rightarrow> string \<Rightarrow> run_op \<Rightarrow> bool" where
  "other_op rid mid (TransitionMember rid' mid' _) \<longleftrightarrow> \<not> (rid' = rid \<and> mid' = mid)"
| "other_op rid mid (TransitionRun rid' _) \<longleftrightarrow> rid' \<noteq> rid"
| "other_op rid mid _ \<longleftrightarrow> True"

lemma append_states:
  "agent_run_get rid db = Some r \<Longrightarrow> agent_run_get rid (db\<lparr>rd_runs := rd_runs db @ rs\<rparr>) = Some r"
  "member_get rid mid db = Some m \<Longrightarrow> member_get rid mid (db\<lparr>rd_runs := rs', rd_members := rd_members db @ ms'\<rparr>) = Some m"
  "member_get rid mid db = Some m \<Longrightarrow> member_get rid mid (db\<lparr>rd_members := rd_members db @ ms'\<rparr>) = Some m"
  "agent_run_get rid (db\<lparr>rd_members := ms\<rparr>) = agent_run_get rid db"
  by (simp_all add: agent_run_get_def member_get_def members_of_def find_append)

lemma appendTimeline_states:
  "run_state rid' (sv_db (snd (run_appendTimeline e rid kind mid data s))) = run_state rid' (sv_db s)"
  "member_get rid' mid' (sv_db (snd (run_appendTimeline e rid kind mid data s))) = member_get rid' mid' (sv_db s)"
  by (auto simp: run_appendTimeline_def runs_appendTimeline_def Let_def split: sum.splits option.splits if_splits)

lemma note_states:
  "run_state rid' (sv_db (note_policy_difference e rid parent m d s)) = run_state rid' (sv_db s)"
  "member_get rid' mid' (sv_db (note_policy_difference e rid parent m d s)) = member_get rid' mid' (sv_db s)"
  by (simp_all add: note_policy_difference_def Let_def appendTimeline_states)

definition stays :: "string \<Rightarrow> string \<Rightarrow> run_db \<Rightarrow> run_db \<Rightarrow> bool" where
  "stays rid mid db db' \<longleftrightarrow> (\<forall>st rest mv. run_state rid db = Some (st, rest) \<longrightarrow> member_state rid mid db = Some mv
     \<longrightarrow> member_state rid mid db' = Some mv \<and> (run_state rid db' = Some (st, rest) \<or> \<not> run_terminal st \<and> run_state rid db' = Some (RunFinalizing, rest)))"

lemma stays_refl [simp]: "stays rid mid db db"
  by (simp add: stays_def)

lemma stays_trans: "stays rid mid a b \<Longrightarrow> stays rid mid b c \<Longrightarrow> stays rid mid a c"
  unfolding stays_def by (metis run_terminal_def insert_iff agent_run_status.distinct empty_iff)

lemma stays_same: "run_state rid db' = run_state rid db \<Longrightarrow> (\<And>m. member_get rid mid db = Some m \<Longrightarrow> member_get rid mid db' = Some m) \<Longrightarrow> stays rid mid db db'"
  by (auto simp: stays_def member_state_def)

lemma create_stays: "stays rid mid (sv_db s) (sv_db (snd (run_create e q s)))"
proof -
  have "stays rid mid db (db\<lparr>rd_runs := rd_runs db @ rs, rd_members := rd_members db @ ms\<rparr>)" for db rs ms
    by (auto simp: stays_def run_state_def member_state_def append_states)
  then show ?thesis by (auto simp: run_create_def runs_create_def Let_def split: sum.splits option.splits if_splits dest!: insert_rows_result)
qed

lemma addMember_stays: "stays rid mid (sv_db s) (sv_db (snd (run_addMember e q s)))"
proof (cases "run_addMember e q s")
  case (Pair result s')
  show ?thesis
  proof (cases result)
    case (Inr m)
    obtain parent d db where db: "runs_addMember (re_ids e) (invocation_input q d) (sv_db s) = Inr (m, db)"
      and s': "sv_db s' = sv_db (note_policy_difference e (mq_runId q) parent m d (s\<lparr>sv_db := db\<rparr>))" using addMember_success Pair Inr by blast
    have "stays rid mid (sv_db s) db"
      by (cases rule: runs_addMember_cases [OF db]) (auto intro!: stays_same simp: append_states run_state_def [of _ "_\<lparr>rd_members := _\<rparr>"] run_state_def [of _ "sv_db s"])
    then show ?thesis using Pair s' by (simp add: stays_def note_states member_state_def)
  qed (use Pair in \<open>auto simp: run_addMember_def Let_def split: sum.splits\<close>)
qed

lemma transitionMember_stays:
  assumes "\<not> (rid' = rid \<and> mid' = mid)"
  shows "stays rid mid (sv_db s) (sv_db (snd (run_transitionMember e rid' mid' t s)))"
proof -
  have "stays rid mid db (bumpRevision rid' timestamp (update_member rid' mid' (member_after timestamp t) db))" for db timestamp
    by (rule stays_same) (use assms in \<open>auto simp: member_get_update member_after_def\<close>)
  then show ?thesis by (auto simp: run_transitionMember_def runs_transitionMember_def Let_def split: sum.splits option.splits if_splits)
qed

lemma transitionRun_stays:
  assumes "rid' \<noteq> rid"
  shows "stays rid mid db (update_run rid' (run_after timestamp t) db)"
  by (rule stays_same) (use assms in \<open>auto simp: run_state_def run_get_update run_after_def option.map_ident\<close>)

lemma cancel_stays: "stays rid mid (sv_db s) (sv_db (snd (run_cancel e rid' expected s)))"
proof -
  have "stays rid mid db (update_run rid (run_after timestamp (only_status RunFinalizing)) db)" if "agent_run_get rid db = Some r" "\<not> run_terminal (ar_status r)" for db timestamp r
    using that by (auto simp: stays_def run_state_def run_get_update run_after_def only_status_def patched_or_def member_state_def)
  then show ?thesis using transitionRun_stays [of rid' rid]
    by (cases "rid' = rid") (auto simp: run_cancel_def runs_transitionRun_def agent_run_require_def split: sum.splits option.splits if_splits)
qed

lemma other_stays: "other_op rid mid op \<Longrightarrow> stays rid mid (sv_db s) (sv_db (run_step s (e, op)))"
proof (cases op)
  case (TransitionRun rid' t)
  moreover assume "other_op rid mid op"
  ultimately show ?thesis using transitionRun_stays [of rid' rid]
    by (auto simp: run_transitionRun_def runs_transitionRun_def split: sum.splits if_splits)
qed (auto simp: create_stays addMember_stays transitionMember_stays cancel_stays stays_same appendTimeline_states)

lemma others_stay: "list_all (\<lambda>op. other_op rid mid (snd op)) ops \<Longrightarrow> stays rid mid (sv_db s) (sv_db (foldl run_step s ops))"
proof (induction ops arbitrary: s)
  case (Cons op ops)
  then show ?case using other_stays [of rid mid "snd op" s "fst op"] stays_trans by fastforce
qed simp

section \<open>Steps of the run_coordinator\<close>

definition stands :: "string \<Rightarrow> string \<Rightarrow> agent_run_status \<times> agent_run_result option \<times> agent_run_failure option \<times> cleanup_diagnostic option
    \<Rightarrow> agent_run_status \<times> agent_run_result option \<times> agent_run_failure option \<Rightarrow> run_coordinator \<Rightarrow> bool" where
  "stands rid mid rv mv c \<longleftrightarrow> run_state rid (sv_db (co_service c)) = Some rv \<and> member_state rid mid (sv_db (co_service c)) = Some mv"

lemma stands_frame [simp]: "stands rid mid rv mv (c\<lparr>co_resources := x\<rparr>) = stands rid mid rv mv c" "stands rid mid rv mv (c\<lparr>co_retries := y\<rparr>) = stands rid mid rv mv c"
  "stands rid mid rv mv (c\<lparr>co_accepting := z\<rparr>) = stands rid mid rv mv c" "stands rid mid rv mv (c\<lparr>co_managed := w\<rparr>) = stands rid mid rv mv c"
  "stands rid mid rv mv (c\<lparr>co_controllers := v\<rparr>) = stands rid mid rv mv c"
  by (simp_all add: stands_def)

lemma serve_eq: "f (co_service c) = (Inr x, s') \<Longrightarrow> serve env f c = (Inr x, c\<lparr>co_service := s'\<rparr>)"
  by (simp add: serve_def)

lemma and_then_simps [simp]: "and_then (Inl e, c) f = (Inl e, c)" "and_then (Inr x, c) f = f x c"
  by (simp_all add: and_then_def)

lemma serve_member:
  assumes "stands rid mid rv (st, res, err) c" and "canTransitionAgentRunStatus st (mt_status t)"
  obtains m s' where "serve env (run_transitionMember e rid mid t) c = (Inr m, c\<lparr>co_service := s'\<rparr>)"
    "stands rid mid rv (mt_status t, patched_or res (mt_result t), patched_or err (mt_error t)) (c\<lparr>co_service := s'\<rparr>)"
proof -
  obtain m s' where "run_transitionMember e rid mid t (co_service c) = (Inr m, s')" "run_state rid (sv_db s') = Some rv"
    "member_state rid mid (sv_db s') = Some (mt_status t, patched_or res (mt_result t), patched_or err (mt_error t))"
    by (rule transitionMember_ok [of rid "co_service c" rv mid st res err t e]) (use assms in \<open>auto simp: stands_def\<close>)
  then show ?thesis using that by (auto simp: stands_def intro: serve_eq)
qed

lemma serve_run:
  assumes "stands rid mid (st, res, err, cl) mv c" and "canTransitionAgentRunStatus st (rt_status t)"
  obtains r s' where "serve env (run_transitionRun e rid t) c = (Inr r, c\<lparr>co_service := s'\<rparr>)"
    "stands rid mid (rt_status t, patched_or res (rt_result t), patched_or err (rt_error t), patched_or cl (rt_cleanup t)) mv (c\<lparr>co_service := s'\<rparr>)"
proof -
  obtain r s' where r: "run_transitionRun e rid t (co_service c) = (Inr r, s')"
    and s': "run_state rid (sv_db s') = Some (rt_status t, patched_or res (rt_result t), patched_or err (rt_error t), patched_or cl (rt_cleanup t))"
    "\<And>rid' mid. member_get rid' mid (sv_db s') = member_get rid' mid (sv_db (co_service c))"
    by (rule transitionRun_ok [of rid "co_service c" st res err cl t e]) (use assms in \<open>auto simp: stands_def\<close>)
  show ?thesis by (rule that [OF serve_eq [of "run_transitionRun e rid t", OF r]]) (use s' assms(1) in \<open>simp add: stands_def member_state_def\<close>)
qed

lemma serve_timeline:
  assumes "stands rid mid rv mv c"
  obtains x s' where "serve env (run_appendTimeline e rid kind (Some mid) data) c = (Inr x, c\<lparr>co_service := s'\<rparr>)" "stands rid mid rv mv (c\<lparr>co_service := s'\<rparr>)"
proof -
  obtain x s' where "run_appendTimeline e rid kind (Some mid) data (co_service c) = (Inr x, s')" "run_state rid (sv_db s') = Some rv" "member_state rid mid (sv_db s') = Some mv"
    by (rule appendTimeline_ok [of rid "co_service c" rv mid mv e kind data]) (use assms in \<open>auto simp: stands_def\<close>)
  then show ?thesis using that by (auto simp: stands_def intro: serve_eq)
qed

lemma serve_read_run:
  assumes "stands rid mid (st, res, err, cl) mv c"
  obtains r where "serve env (read_run rid) c = (Inr r, c)" "ar_status r = st" "ar_cleanup r = cl"
  using assms by (auto simp: stands_def run_state_def serve_def read_run_def agent_run_require_def)

lemma serve_read_member:
  assumes "stands rid mid rv (st, rest) c"
  obtains m where "serve env (read_member rid mid) c = (Inr m, c)" "mb_status m = st"
  using assms by (auto simp: stands_def run_state_def member_state_def serve_def read_member_def agent_run_require_def)

lemma can_finalize: "\<not> run_terminal st \<Longrightarrow> canTransitionAgentRunStatus st RunFinalizing"
  by (cases st) (auto simp: canTransitionAgentRunStatus_def run_terminal_def)

lemma can_end: "run_terminal st \<Longrightarrow> canTransitionAgentRunStatus RunFinalizing st"
  by (cases st) (auto simp: canTransitionAgentRunStatus_def run_terminal_def)

lemma can_stay [simp]: "canTransitionAgentRunStatus st st"
  by (simp add: canTransitionAgentRunStatus_def)

lemma patched_or_Absent [simp]: "patched_or v Absent = v"
  by (simp add: patched_or_def)

lemma finalize_run_ok:
  assumes "stands rid mid (st, res, err, cl) mv c" and "\<not> run_terminal st"
  obtains r s' where "finalize_run env rid c = (Inr r, c\<lparr>co_service := s'\<rparr>)" "ar_cleanup r = cl" "stands rid mid (RunFinalizing, res, err, cl) mv (c\<lparr>co_service := s'\<rparr>)"
proof -
  obtain r where r: "serve env (read_run rid) c = (Inr r, c)" "ar_status r = st" "ar_cleanup r = cl" by (rule serve_read_run [OF assms(1)])
  show ?thesis
  proof (cases "st = RunFinalizing")
    case True
    then show ?thesis using that [of r "co_service c"] r assms(1) by (simp add: finalize_run_def)
  next
    case False
    obtain r' s' where "serve env (run_transitionRun (xe_run env) rid (only_status RunFinalizing)) c = (Inr r', c\<lparr>co_service := s'\<rparr>)"
      "stands rid mid (RunFinalizing, res, err, cl) mv (c\<lparr>co_service := s'\<rparr>)"
      by (rule serve_run [OF assms(1), of "only_status RunFinalizing" env "xe_run env"]) (use can_finalize [OF assms(2)] in \<open>simp_all add: only_status_def\<close>)
    then show ?thesis using that [of r s'] r False by (simp add: finalize_run_def)
  qed
qed

lemma final_status_terminal: "run_terminal (final_status r b)"
  by (simp add: final_status_def run_terminal_def)

lemma settle_member_ok:
  assumes s: "stands (sm_runId (cr_event r)) (sm_memberId (cr_event r)) rv (RunFinalizing, res, err) c" and "\<not> run_terminal (mb_status m)" and t: "run_terminal status"
  obtains s' where "settle_member env r m status c = (Inr (), c\<lparr>co_service := s'\<rparr>)"
    "stands (sm_runId (cr_event r)) (sm_memberId (cr_event r)) rv (status, if status = RunCompleted then cr_result r else res, if status = RunCompleted then err else cr_error r) (c\<lparr>co_service := s'\<rparr>)"
proof -
  let ?t = "if status = RunCompleted then (member_to status)\<lparr>mt_result := given_or_null (cr_result r)\<rparr> else (member_to status)\<lparr>mt_error := given_or_null (cr_error r)\<rparr>"
  have given: "patched_or v (given_or_null w) = w" for v w :: "'x option" by (cases w) (simp_all add: patched_or_def given_or_null_def)
  obtain x s1 where 1: "serve env (run_transitionMember (xe_run env) (sm_runId (cr_event r)) (sm_memberId (cr_event r)) ?t) c = (Inr x, c\<lparr>co_service := s1\<rparr>)"
    and s1: "stands (sm_runId (cr_event r)) (sm_memberId (cr_event r)) rv (mt_status ?t, patched_or res (mt_result ?t), patched_or err (mt_error ?t)) (c\<lparr>co_service := s1\<rparr>)"
    by (rule serve_member [OF s, of ?t env "xe_run env"]) (use can_end [OF t] in \<open>auto simp: member_to_def\<close>)
  obtain y s2 where 2: "serve env (run_appendTimeline (xe_run env) (sm_runId (cr_event r)) (terminal_kind status) (Some (sm_memberId (cr_event r))) (JObj [])) (c\<lparr>co_service := s1\<rparr>)
      = (Inr y, c\<lparr>co_service := s2\<rparr>)" and s2: "stands (sm_runId (cr_event r)) (sm_memberId (cr_event r)) rv (mt_status ?t, patched_or res (mt_result ?t), patched_or err (mt_error ?t)) (c\<lparr>co_service := s2\<rparr>)"
    by (rule serve_timeline [OF s1, of env "xe_run env" "terminal_kind status" "JObj []"]) simp
  show ?thesis by (rule that [of s2]) (use assms(2) 1 2 s2 in \<open>auto simp: settle_member_def member_to_def given split: if_splits\<close>)
qed

lemma settle_run_ok:
  assumes s: "stands (sm_runId (cr_event r)) mid (st, res, err, cl) mv c" and "\<not> run_terminal st" and t: "run_terminal status"
    and space: "getSharedSpace (sm_runId (cr_event r)) (co_resources c) \<noteq> None"
  obtains c' where "settle_run env r status c = (Inr (), c')"
    "stands (sm_runId (cr_event r)) mid (status, if status = RunCompleted then cr_result r else res, if status = RunCompleted then err else cr_error r,
      Some (cleanup_note CleanupCompleted (case cl of None \<Rightarrow> 1 | Some d \<Rightarrow> cd_attempts d + 1) None env)) mv c'"
proof -
  have given: "patched_or v (given_or_null w) = w" "patched_or v (Given x) = Some x" for v w :: "'x option" and x by (cases w) (simp_all add: patched_or_def given_or_null_def)
  obtain cur s1 where 1: "finalize_run env (sm_runId (cr_event r)) c = (Inr cur, c\<lparr>co_service := s1\<rparr>)" "ar_cleanup cur = cl"
    and s1: "stands (sm_runId (cr_event r)) mid (RunFinalizing, res, err, cl) mv (c\<lparr>co_service := s1\<rparr>)"
    by (rule finalize_run_ok [OF s assms(2), of env]) simp
  obtain space' db where 2: "provide env (\<lambda>db. lifted (retain (xe_now env) (sm_runId (cr_event r)) db) db) (c\<lparr>co_service := s1\<rparr>) = (Inr space', c\<lparr>co_service := s1, co_resources := db\<rparr>)"
    using space by (auto simp: provide_def lifted_def retain_def updateSharedSpace_def)
  let ?t0 = "(only_status status)\<lparr>rt_cleanup := Given (cleanup_note CleanupCompleted (cleanup_attempts cur) None env)\<rparr>"
  let ?t = "if status = RunCompleted then ?t0\<lparr>rt_result := given_or_null (cr_result r)\<rparr> else ?t0\<lparr>rt_error := given_or_null (cr_error r)\<rparr>"
  have s1': "stands (sm_runId (cr_event r)) mid (RunFinalizing, res, err, cl) mv (c\<lparr>co_service := s1, co_resources := db\<rparr>)" using s1 by (simp add: stands_def)
  obtain y s2 where 3: "serve env (run_transitionRun (xe_run env) (sm_runId (cr_event r)) ?t) (c\<lparr>co_service := s1, co_resources := db\<rparr>)
      = (Inr y, c\<lparr>co_service := s1, co_resources := db\<rparr>\<lparr>co_service := s2\<rparr>)"
    and s2: "stands (sm_runId (cr_event r)) mid (rt_status ?t, patched_or res (rt_result ?t), patched_or err (rt_error ?t), patched_or cl (rt_cleanup ?t)) mv
      (c\<lparr>co_service := s1, co_resources := db\<rparr>\<lparr>co_service := s2\<rparr>)"
    by (rule serve_run [OF s1', of ?t env "xe_run env"]) (use can_end [OF t] in \<open>auto simp: only_status_def\<close>)
  have "cleanup_attempts cur = (case cl of None \<Rightarrow> 1 | Some d \<Rightarrow> cd_attempts d + 1)" using 1(2) by (simp add: cleanup_attempts_def split: option.split)
  then show ?thesis
    by (intro that [of "c\<lparr>co_service := s2, co_resources := db, co_managed := removeAll (sm_runId (cr_event r)) (co_managed c)\<rparr>"])
       (use 1(1) 2 3 s2 in \<open>auto simp: settle_run_def only_status_def given Let_def stands_def split: if_splits\<close>)
qed

lemma provide_service [simp]: "co_service (snd (provide env f c)) = co_service c"
  by (simp add: provide_def split: prod.split)

lemma awaited_stays: "list_all (\<lambda>op. other_op rid mid (snd op)) (aw_ops a) \<Longrightarrow> stays rid mid (sv_db (co_service c)) (sv_db (co_service (snd (awaited a c))))"
  by (simp add: awaited_def others_stay)

definition kept_by :: "(resource_db \<Rightarrow> bool) \<Rightarrow> 'a answer_of \<Rightarrow> bool" where
  "kept_by P a = (case aw_resources a of None \<Rightarrow> True | Some db \<Rightarrow> P db)"

text \<open>What the clean-up needs in the tables of resources: the thread it closes, and for the root the shared space.\<close>

definition cleanable :: "cleanup_retry \<Rightarrow> resource_db \<Rightarrow> bool" where
  "cleanable r db \<longleftrightarrow> (\<forall>i. cr_thread r = Some i \<longrightarrow> resource_get i db \<noteq> None) \<and> (sm_root (cr_event r) \<longrightarrow> getSharedSpace (sm_runId (cr_event r)) db \<noteq> None)"

lemma transition_cleanable:
  assumes "cleanable r db" and "resource_get i db \<noteq> None"
  obtains x db' where "resource_transition t i phase increment metadata db = Inr (x, db')" "cleanable r db'"
proof -
  have "resource_get j (db\<lparr>xd_resources := map (\<lambda>r. if xr_resourceId r = i then resource_moved t phase increment metadata r else r) (xd_resources db)\<rparr>) \<noteq> None"
    if "resource_get j db \<noteq> None" for j
  proof -
    have "List.find (\<lambda>r. xr_resourceId r = j) (map (\<lambda>r. if xr_resourceId r = i then resource_moved t phase increment metadata r else r) xs)
        = map_option (\<lambda>r. if xr_resourceId r = i then resource_moved t phase increment metadata r else r) (List.find (\<lambda>r. xr_resourceId r = j) xs)" for xs
      by (rule find_map) (simp add: resource_moved_def)
    then show ?thesis using that by (simp add: resource_get_def)
  qed
  then show ?thesis using assms that by (auto simp: resource_transition_def cleanable_def getSharedSpace_def)
qed

lemma move_thread:
  assumes "cleanable r (co_resources c)" and "cr_thread r = Some i"
  obtains x db where "provide env (\<lambda>db. lifted (resource_transition t i phase increment metadata db) db) c = (Inr x, c\<lparr>co_resources := db\<rparr>)" "cleanable r db"
proof -
  obtain x db where "resource_transition t i phase increment metadata (co_resources c) = Inr (x, db)" "cleanable r db"
    by (rule transition_cleanable [OF assms(1), of i t phase increment metadata]) (use assms in \<open>auto simp: cleanable_def\<close>)
  then show ?thesis using that by (simp add: provide_def lifted_def)
qed

lemma awaited_cleanable: "cleanable r (co_resources c) \<Longrightarrow> kept_by (cleanable r) a \<Longrightarrow> cleanable r (co_resources (snd (awaited a c)))"
  by (auto simp: awaited_def kept_by_def split: option.splits)

lemma close_ok:
  assumes c: "cleanable r (co_resources c)" and k: "kept_by (cleanable r) (ca_close ca)" and "aw_result (ca_close ca) = Inr ()"
    and o: "list_all (\<lambda>op. other_op rid mid (snd op)) (aw_ops (ca_close ca))"
  obtains c' where "close_session env ca (cr_thread r) c = (Inr (), c')" "cleanable r (co_resources c')"
    "stays rid mid (sv_db (co_service c)) (sv_db (co_service c'))"
proof (cases "cr_thread r")
  case None
  then show ?thesis using that [of "snd (awaited (ca_close ca) c)"] awaited_cleanable [OF c k] awaited_stays [OF o] assms(3)
    by (simp add: close_session_def awaited_def)
next
  case (Some i)
  let ?t = "to_iso (xe_now env)"
  obtain x db where 1: "provide env (\<lambda>db. lifted (resource_transition ?t i PhaseDeleting False None db) db) c = (Inr x, c\<lparr>co_resources := db\<rparr>)" "cleanable r db"
    by (rule move_thread [OF c Some])
  obtain c2 where a: "awaited (ca_close ca) (c\<lparr>co_resources := db\<rparr>) = (Inr (), c2)" using assms(3) by (simp add: awaited_def)
  have "cleanable r (co_resources c2)" using awaited_cleanable [of r "c\<lparr>co_resources := db\<rparr>" "ca_close ca"] 1(2) k a by simp
  then obtain y db' where 2: "provide env (\<lambda>db. lifted (resource_transition ?t i PhaseDeleted False None db) db) c2 = (Inr y, c2\<lparr>co_resources := db'\<rparr>)" "cleanable r db'"
    by (rule move_thread [OF _ Some])
  show ?thesis
    by (rule that [of "c2\<lparr>co_resources := db'\<rparr>"]) (use Some 1 2 a awaited_stays [OF o, of "c\<lparr>co_resources := db\<rparr>"] in \<open>simp_all add: close_session_def Let_def\<close>)
qed

lemma stays_stands:
  "stays rid mid (sv_db (co_service c)) (sv_db (co_service c')) \<Longrightarrow> stands rid mid (st, rest) mv c \<Longrightarrow> \<not> run_terminal st
    \<Longrightarrow> \<exists>st'. stands rid mid (st', rest) mv c' \<and> (st' = st \<or> st' = RunFinalizing)"
  unfolding stays_def stands_def by blast

lemma release_ok:
  assumes s: "stands (sm_runId (cr_event r)) (sm_memberId (cr_event r)) (st, rest) (mst, res, err) c" "\<not> run_terminal st" "\<not> run_terminal mst" "mb_status m = mst"
    and c: "cleanable r (co_resources c)" "kept_by (cleanable r) (ca_close ca)" "kept_by (cleanable r) (ca_dispose ca)"
    and a: "aw_result (ca_close ca) = Inr ()" "aw_result (ca_dispose ca) = Inr ()"
    and o: "list_all (\<lambda>op. other_op (sm_runId (cr_event r)) (sm_memberId (cr_event r)) (snd op)) (aw_ops (ca_close ca) @ aw_ops (ca_dispose ca))"
  obtains c' st' where "release_member env ca r m c = (Inr (), c')" "cleanable r (co_resources c')" "st' = st \<or> st' = RunFinalizing"
    "stands (sm_runId (cr_event r)) (sm_memberId (cr_event r)) (st', rest) (RunFinalizing, res, err) c'"
proof -
  let ?rid = "sm_runId (cr_event r)" and ?mid = "sm_memberId (cr_event r)"
  obtain x c1 where 1: "(if mst = RunFinalizing then (Inr m, c) else serve env (run_transitionMember (xe_run env) ?rid ?mid (member_to RunFinalizing)) c) = (Inr x, c1)"
    and c1: "co_resources c1 = co_resources c" "stands ?rid ?mid (st, rest) (RunFinalizing, res, err) c1"
  proof (cases "mst = RunFinalizing")
    case True
    then show ?thesis using that s(1) by simp
  next
    case False
    show ?thesis by (rule serve_member [OF s(1), of "member_to RunFinalizing" env "xe_run env"])
      (use that False can_finalize [OF s(3)] in \<open>auto simp: member_to_def\<close>)
  qed
  obtain c2 where 2: "(if cr_session r then close_session env ca (cr_thread r) c1 else (Inr (), c1)) = (Inr (), c2)"
    and c2: "cleanable r (co_resources c2)" "stays ?rid ?mid (sv_db (co_service c1)) (sv_db (co_service c2))"
  proof (cases "cr_session r")
    case True
    obtain c' where "close_session env ca (cr_thread r) c1 = (Inr (), c')" "cleanable r (co_resources c')"
      "stays ?rid ?mid (sv_db (co_service c1)) (sv_db (co_service c'))"
      by (rule close_ok [of r c1 ca ?rid ?mid env]) (use c c1 a o in simp_all)
    then show ?thesis using that True by simp
  qed (use that c c1 in simp)
  obtain c3 where 3: "(if cr_workspace r then awaited (ca_dispose ca) c2 else (Inr (), c2)) = (Inr (), c3)"
    and c3: "cleanable r (co_resources c3)" "stays ?rid ?mid (sv_db (co_service c2)) (sv_db (co_service c3))"
  proof (cases "cr_workspace r")
    case True
    have "awaited (ca_dispose ca) c2 = (Inr (), snd (awaited (ca_dispose ca) c2))" using a by (simp add: awaited_def)
    moreover have "stays ?rid ?mid (sv_db (co_service c2)) (sv_db (co_service (snd (awaited (ca_dispose ca) c2))))" using o by (intro awaited_stays) simp
    ultimately show ?thesis using that True awaited_cleanable [OF c2(1) c(3)] by simp
  qed (use that c2 in simp)
  obtain st' where "stands ?rid ?mid (st', rest) (RunFinalizing, res, err) c3" "st' = st \<or> st' = RunFinalizing"
    using stays_stands [OF stays_trans [OF c2(2) c3(2)] c1(2) s(2)] by blast
  moreover have "release_member env ca r m c = (Inr (), c3)" using 1 2 3 s(3,4) by (simp add: release_member_def)
  ultimately show ?thesis using that c3(1) by blast
qed

section \<open>A clean-up that succeeds\<close>

text \<open>The answers of a clean-up that succeeds, while others do what only others do.\<close>

definition cleanup_succeeds :: "cleanup_retry \<Rightarrow> cleanup_answers \<Rightarrow> run_coordinator \<Rightarrow> bool" where
  "cleanup_succeeds r ca c \<longleftrightarrow> aw_result (ca_close ca) = Inr () \<and> aw_result (ca_dispose ca) = Inr ()
     \<and> cleanable r (co_resources c) \<and> kept_by (cleanable r) (ca_close ca) \<and> kept_by (cleanable r) (ca_dispose ca)
     \<and> list_all (\<lambda>op. other_op (sm_runId (cr_event r)) (sm_memberId (cr_event r)) (snd op)) (aw_ops (ca_close ca) @ aw_ops (ca_dispose ca))"

lemma cleanup_settles:
  assumes s: "stands (sm_runId (cr_event r)) (sm_memberId (cr_event r)) (st, rres, rerr, rcl) (mst, res, err) c" "\<not> run_terminal st" "\<not> run_terminal mst"
    and ca: "cleanup_succeeds r ca c"
  shows "\<exists>c' st' status. finalizeMember env ca r c = (Inr (), c') \<and> (st' = st \<or> st' = RunFinalizing)
    \<and> status = final_status r (st' = RunFinalizing \<and> map_option af_code (cr_error r) = Some ''AGENT_RUN_CANCELLED'')
    \<and> stands (sm_runId (cr_event r)) (sm_memberId (cr_event r))
        (if sm_root (cr_event r) then (status, if status = RunCompleted then cr_result r else rres, if status = RunCompleted then rerr else cr_error r,
            Some (cleanup_note CleanupCompleted (case rcl of None \<Rightarrow> 1 | Some d \<Rightarrow> cd_attempts d + 1) None env))
         else (st', rres, rerr, rcl))
        (status, if status = RunCompleted then cr_result r else res, if status = RunCompleted then err else cr_error r) c'"
proof -
  let ?rid = "sm_runId (cr_event r)" and ?mid = "sm_memberId (cr_event r)"
  let ?c = "c\<lparr>co_retries := jmap_delete (member_key (cr_event r)) (co_retries c)\<rparr>"
  have s0: "stands ?rid ?mid (st, rres, rerr, rcl) (mst, res, err) ?c" using s(1) by simp
  obtain m where m: "serve env (read_member ?rid ?mid) ?c = (Inr m, ?c)" "mb_status m = mst" by (rule serve_read_member [OF s0])
  obtain c1 st' where 1: "release_member env ca r m ?c = (Inr (), c1)" "cleanable r (co_resources c1)" "st' = st \<or> st' = RunFinalizing"
    and s1: "stands ?rid ?mid (st', rres, rerr, rcl) (RunFinalizing, res, err) c1"
    by (rule release_ok [OF s0 s(2,3) m(2), of ca env]) (use ca in \<open>simp_all add: cleanup_succeeds_def\<close>)
  obtain run where run: "serve env (read_run ?rid) c1 = (Inr run, c1)" "ar_status run = st'" by (rule serve_read_run [OF s1])
  define status where "status = final_status r (st' = RunFinalizing \<and> map_option af_code (cr_error r) = Some ''AGENT_RUN_CANCELLED'')"
  have ends: "run_terminal status" "\<not> run_terminal (mb_status m)" "\<not> run_terminal st'"
    using final_status_terminal m(2) s(2,3) 1(3) by (auto simp: status_def run_terminal_def)
  obtain s2 where 2: "settle_member env r m status c1 = (Inr (), c1\<lparr>co_service := s2\<rparr>)"
    and s2: "stands ?rid ?mid (st', rres, rerr, rcl) (status, if status = RunCompleted then cr_result r else res, if status = RunCompleted then err else cr_error r) (c1\<lparr>co_service := s2\<rparr>)"
    by (rule settle_member_ok [OF s1 ends(2,1), of env]) simp
  have fin: "finalizeMember env ca r c = and_then (settle_member env r m status c1) (\<lambda>_ c. if sm_root (cr_event r) then settle_run env r status c else (Inr (), c))"
    using m(1) 1(1) run by (simp add: finalizeMember_def Let_def status_def cong: if_cong)
  show ?thesis
  proof (cases "sm_root (cr_event r)")
    case True
    then have "getSharedSpace ?rid (co_resources (c1\<lparr>co_service := s2\<rparr>)) \<noteq> None" using 1(2) by (simp add: cleanable_def)
    then obtain c' where "settle_run env r status (c1\<lparr>co_service := s2\<rparr>) = (Inr (), c')"
      and "stands ?rid ?mid (status, if status = RunCompleted then cr_result r else rres, if status = RunCompleted then rerr else cr_error r,
          Some (cleanup_note CleanupCompleted (case rcl of None \<Rightarrow> 1 | Some d \<Rightarrow> cd_attempts d + 1) None env))
        (status, if status = RunCompleted then cr_result r else res, if status = RunCompleted then err else cr_error r) c'"
      by (rule settle_run_ok [OF s2 ends(3,1), of env]) simp
    moreover from this have "finalizeMember env ca r c = (Inr (), c')" using fin 2 True by simp
    ultimately show ?thesis using 1(3) status_def True by (intro exI [of _ c'] exI [of _ st'] exI [of _ status]) simp
  next
    case False
    then have "finalizeMember env ca r c = (Inr (), c1\<lparr>co_service := s2\<rparr>)" using fin 2 by simp
    then show ?thesis using s2 1(3) status_def False by (intro exI [of _ "c1\<lparr>co_service := s2\<rparr>"] exI [of _ st'] exI [of _ status]) simp
  qed
qed

text \<open>
  Claim C9. A clean-up that succeeds ends the member: completed if its session had no error, cancelled if the error is the cancellation and the
  run is finalizing, else failed. With the root the run gets the same status, the result or the error, and a completed clean-up.
\<close>

theorem cleanup_settles_member:
  assumes "run_state rid (sv_db (co_service c)) = Some (st, rres, rerr, rcl)" and "member_state rid mid (sv_db (co_service c)) = Some (mst, res, err)"
    and "\<not> run_terminal st" and "\<not> run_terminal mst" and "member_key (cr_event r) = (rid, mid)" and "cleanup_succeeds r ca c"
  shows "\<exists>c' status. finalizeMember env ca r c = (Inr (), c')
    \<and> (cr_error r = None \<longrightarrow> status = RunCompleted) \<and> (cr_error r \<noteq> None \<longrightarrow> status \<in> {RunCancelled, RunFailed})
    \<and> (status = RunCancelled \<longrightarrow> map_option af_code (cr_error r) = Some ''AGENT_RUN_CANCELLED'')
    \<and> (st = RunFinalizing \<and> map_option af_code (cr_error r) = Some ''AGENT_RUN_CANCELLED'' \<longrightarrow> status = RunCancelled)
    \<and> member_state rid mid (sv_db (co_service c'))
        = Some (status, if status = RunCompleted then cr_result r else res, if status = RunCompleted then err else cr_error r)
    \<and> (sm_root (cr_event r) \<longrightarrow> (\<exists>cl. run_state rid (sv_db (co_service c'))
        = Some (status, if status = RunCompleted then cr_result r else rres, if status = RunCompleted then rerr else cr_error r, Some cl) \<and> cd_status cl = CleanupCompleted))"
proof -
  have key: "sm_runId (cr_event r) = rid" "sm_memberId (cr_event r) = mid" using assms(5) by (simp_all add: member_key_def)
  have "stands (sm_runId (cr_event r)) (sm_memberId (cr_event r)) (st, rres, rerr, rcl) (mst, res, err) c" using assms(1,2) by (simp add: stands_def key)
  from cleanup_settles [OF this assms(3,4,6), of env] obtain c' st' status where f: "finalizeMember env ca r c = (Inr (), c')" "st' = st \<or> st' = RunFinalizing"
    and status: "status = final_status r (st' = RunFinalizing \<and> map_option af_code (cr_error r) = Some ''AGENT_RUN_CANCELLED'')"
    and s: "stands rid mid (if sm_root (cr_event r) then (status, if status = RunCompleted then cr_result r else rres, if status = RunCompleted then rerr else cr_error r,
          Some (cleanup_note CleanupCompleted (case rcl of None \<Rightarrow> 1 | Some d \<Rightarrow> cd_attempts d + 1) None env)) else (st', rres, rerr, rcl))
        (status, if status = RunCompleted then cr_result r else res, if status = RunCompleted then err else cr_error r) c'"
    unfolding key by blast
  show ?thesis
    by (rule exI [of _ c'], rule exI [of _ status])
       (use f s in \<open>auto simp: status final_status_def stands_def cleanup_note_def split: if_splits\<close>)
qed

section \<open>A cancellation while the root is being prepared\<close>

lemma mark_running_refused:
  assumes ev: "sm_root ev" and s: "stands (sm_runId ev) (sm_memberId ev) (RunFinalizing, rest) (RunPreparing, res, err) c"
  obtains c' where "mark_running env ev sid c = (Inl (run_failure env ''AGENT_RUN_EXECUTION_FAILED'' (RunStatusTransitionInvalid RunFinalizing RunRunning)), c')"
    "stands (sm_runId ev) (sm_memberId ev) (RunFinalizing, rest) (RunRunning, res, err) c'" "co_resources c' = co_resources c"
proof -
  let ?t = "(member_to RunRunning)\<lparr>mt_aiSessionId := Given sid\<rparr>"
  have can: "canTransitionAgentRunStatus RunPreparing RunRunning" "\<not> canTransitionAgentRunStatus RunFinalizing RunRunning"
    by (simp_all add: canTransitionAgentRunStatus_def)
  obtain m s1 where 1: "serve env (run_transitionMember (xe_run env) (sm_runId ev) (sm_memberId ev) ?t) c = (Inr m, c\<lparr>co_service := s1\<rparr>)"
    and s1: "stands (sm_runId ev) (sm_memberId ev) (RunFinalizing, rest) (RunRunning, res, err) (c\<lparr>co_service := s1\<rparr>)"
    by (rule serve_member [OF s, of ?t env "xe_run env"]) (use can in \<open>simp_all add: member_to_def\<close>)
  have "run_transitionRun (xe_run env) (sm_runId ev) (only_status RunRunning) s1 = (Inl (RunStatusTransitionInvalid RunFinalizing RunRunning), s1)"
    using transitionRun_refused [of "sm_runId ev" s1 RunFinalizing rest "only_status RunRunning"] s1 can by (simp add: stands_def only_status_def)
  then have "mark_running env ev sid c = (Inl (run_failure env ''AGENT_RUN_EXECUTION_FAILED'' (RunStatusTransitionInvalid RunFinalizing RunRunning)), c\<lparr>co_service := s1\<rparr>)"
    using 1 ev by (simp add: mark_running_def serve_def)
  then show ?thesis using that s1 by simp
qed

text \<open>
  Claim C28. If a run is cancelled after its root has begun to prepare and before its session is reported running, the attempt to mark the run as
  running is refused, and the clean-up that follows ends the run and its root as failed with an invalid status transition, not as cancelled.
\<close>

theorem cancelled_preparation_fails:
  assumes ev: "sm_root ev" and "run_state (sm_runId ev) (sv_db (co_service c)) = Some (RunFinalizing, rres, rerr, rcl)"
    and "member_state (sm_runId ev) (sm_memberId ev) (sv_db (co_service c)) = Some (RunPreparing, res, err)"
    and "mark_running env ev sid c = (r, c1)"
    and "cleanup_succeeds retry ca c1" and "cr_event retry = ev" and "cr_error retry = snd (session_outcome (map_sum id (\<lambda>_. (None, None)) r))"
  shows "\<exists>e c2 cl. cr_error retry = Some e \<and> af_code e = ''AGENT_RUN_STATUS_TRANSITION_INVALID'' \<and> finalizeMember env ca retry c1 = (Inr (), c2)
    \<and> run_state (sm_runId ev) (sv_db (co_service c2)) = Some (RunFailed, rres, Some e, cl)
    \<and> member_state (sm_runId ev) (sm_memberId ev) (sv_db (co_service c2)) = Some (RunFailed, res, Some e)"
proof -
  let ?e = "run_failure env ''AGENT_RUN_EXECUTION_FAILED'' (RunStatusTransitionInvalid RunFinalizing RunRunning)"
  have "stands (sm_runId ev) (sm_memberId ev) (RunFinalizing, rres, rerr, rcl) (RunPreparing, res, err) c" using assms(2,3) by (simp add: stands_def)
  then obtain c' where "mark_running env ev sid c = (Inl ?e, c')" "stands (sm_runId ev) (sm_memberId ev) (RunFinalizing, rres, rerr, rcl) (RunRunning, res, err) c'"
    by (rule mark_running_refused [OF ev])
  then have r: "r = Inl ?e" and s: "stands (sm_runId (cr_event retry)) (sm_memberId (cr_event retry)) (RunFinalizing, rres, rerr, rcl) (RunRunning, res, err) c1"
    using assms(4,6) by simp_all
  have e: "cr_error retry = Some ?e" "af_code ?e = ''AGENT_RUN_STATUS_TRANSITION_INVALID''" using assms(7) r by (simp_all add: session_outcome_def run_failure_def)
  then have "final_status retry (st' = RunFinalizing \<and> map_option af_code (cr_error retry) = Some ''AGENT_RUN_CANCELLED'') = RunFailed" for st'
    by (simp add: final_status_def)
  moreover have "\<not> run_terminal RunFinalizing" "\<not> run_terminal RunRunning" by (simp_all add: run_terminal_def)
  ultimately obtain c2 cl where "finalizeMember env ca retry c1 = (Inr (), c2)"
    "stands (sm_runId (cr_event retry)) (sm_memberId (cr_event retry)) (RunFailed, rres, cr_error retry, cl) (RunFailed, res, cr_error retry) c2"
    using cleanup_settles [OF s _ _ assms(5), of env] ev assms(6) by auto
  then show ?thesis using e assms(6) by (auto simp: stands_def)
qed

section \<open>A cancellation before the root has started\<close>

text \<open>Nothing creates the shared space of a run but its root, so a round of the others leaves it missing.\<close>

definition unstarted :: "scheduled_member \<Rightarrow> run_coordinator \<Rightarrow> bool" where
  "unstarted ev c \<longleftrightarrow> sm_root ev \<and> co_accepting c \<and> getSharedSpace (sm_runId ev) (co_resources c) = None"

definition stuck :: "scheduled_member \<Rightarrow> run_coordinator \<Rightarrow> bool" where
  "stuck ev c \<longleftrightarrow> unstarted ev c
     \<and> (\<exists>rest mst mrest. run_terminal mst \<and> stands (sm_runId ev) (sm_memberId ev) (RunFinalizing, rest) (mst, mrest) c)
     \<and> (\<exists>r. jmap_get (co_retries c) (member_key ev) = Some r \<and> cr_event r = ev)"

lemma stuckI: "unstarted ev c \<Longrightarrow> run_terminal mst \<Longrightarrow> stands (sm_runId ev) (sm_memberId ev) (RunFinalizing, rest) (mst, mrest) c
    \<Longrightarrow> \<exists>r. jmap_get (co_retries c) (member_key ev) = Some r \<and> cr_event r = ev \<Longrightarrow> stuck ev c"
  unfolding stuck_def by blast

lemma settle_run_missing:
  assumes s: "stands (sm_runId ev) mid (RunFinalizing, res, err, cl) mv c" and u: "unstarted ev c" and r: "cr_event r = ev"
    and no: "\<not> jmap_has (co_retries c) (member_key ev)"
  obtains c' rest where "settle_run env r status c = (Inr (), c')" "unstarted ev c'" "stands (sm_runId ev) mid (RunFinalizing, rest) mv c'"
    "\<exists>r'. jmap_get (co_retries c') (member_key ev) = Some r' \<and> cr_event r' = ev"
proof -
  let ?rid = "sm_runId ev"
  obtain cur s1 where 1: "finalize_run env ?rid c = (Inr cur, c\<lparr>co_service := s1\<rparr>)" and s1: "stands ?rid mid (RunFinalizing, res, err, cl) mv (c\<lparr>co_service := s1\<rparr>)"
    by (rule finalize_run_ok [OF s, of env]) (auto simp: run_terminal_def)
  have 2: "provide env (\<lambda>db. lifted (retain (xe_now env) ?rid db) db) (c\<lparr>co_service := s1\<rparr>) = (Inl (resource_failure env SharedSpaceNotFound), c\<lparr>co_service := s1\<rparr>)"
    using u by (simp add: provide_def lifted_def retain_def updateSharedSpace_def unstarted_def)
  let ?t = "(only_status RunFinalizing)\<lparr>rt_cleanup := Given (cleanup_note CleanupRetrying (cleanup_attempts cur) (Some (af_message (resource_failure env SharedSpaceNotFound))) env)\<rparr>"
  obtain x s2 where 3: "serve env (run_transitionRun (xe_run env) ?rid ?t) (c\<lparr>co_service := s1\<rparr>) = (Inr x, c\<lparr>co_service := s1\<rparr>\<lparr>co_service := s2\<rparr>)"
    and s2: "stands ?rid mid (rt_status ?t, patched_or res (rt_result ?t), patched_or err (rt_error ?t), patched_or cl (rt_cleanup ?t)) mv (c\<lparr>co_service := s1\<rparr>\<lparr>co_service := s2\<rparr>)"
    by (rule serve_run [OF s1, of ?t env "xe_run env"]) (simp_all add: only_status_def)
  obtain rest where s2': "stands ?rid mid (RunFinalizing, rest) mv (c\<lparr>co_service := s2\<rparr>)" using s2 by (simp add: only_status_def)
  obtain run where 4: "serve env (read_run ?rid) (c\<lparr>co_service := s2\<rparr>) = (Inr run, c\<lparr>co_service := s2\<rparr>)"
    by (cases rest) (use serve_read_run s2' in blast)
  let ?r = "(r\<lparr>cr_session := False, cr_thread := None, cr_workspace := False\<rparr>)"
  obtain d where 5: "scheduleCleanupRetry env ?r (c\<lparr>co_service := s2\<rparr>) = (Inr (), c\<lparr>co_service := s2, co_retries := jmap_set (member_key ev) (?r\<lparr>cr_delayMs := d\<rparr>) (co_retries c)\<rparr>)"
    using 4 no u r by (simp add: scheduleCleanupRetry_def unstarted_def Let_def)
  show ?thesis
  proof (rule that)
    show "settle_run env r status c = (Inr (), c\<lparr>co_service := s2, co_retries := jmap_set (member_key ev) (?r\<lparr>cr_delayMs := d\<rparr>) (co_retries c)\<rparr>)"
      using 1 2 3 5 r by (simp add: settle_run_def run_retrying_def Let_def)
    show "stands ?rid mid (RunFinalizing, rest) mv (c\<lparr>co_service := s2, co_retries := jmap_set (member_key ev) (?r\<lparr>cr_delayMs := d\<rparr>) (co_retries c)\<rparr>)"
      using s2' by (simp add: stands_def)
  qed (use u r in \<open>simp_all add: unstarted_def\<close>)
qed

lemma no_key_after_delete [simp]: "\<not> jmap_has (jmap_delete k m) k"
  by (simp add: jmap_has_def jmap_get_def jmap_delete_def delete_conv)

lemma clean_up_missing:
  assumes u: "unstarted ev c" and r: "cr_event r = ev" "\<not> cr_session r" "\<not> cr_workspace r"
    and s: "stands (sm_runId ev) (sm_memberId ev) (RunFinalizing, rest) (RunQueued, mrest) c"
  shows "\<exists>c'. finalizeMember env ca r c = (Inr (), c') \<and> stuck ev c'"
proof -
  let ?rid = "sm_runId ev" and ?mid = "sm_memberId ev"
  obtain res err cl where rest: "rest = (res, err, cl)" by (cases rest)
  obtain mres merr where mrest: "mrest = (mres, merr)" by (cases mrest)
  let ?c = "c\<lparr>co_retries := jmap_delete (member_key ev) (co_retries c)\<rparr>"
  have s0: "stands ?rid ?mid (RunFinalizing, res, err, cl) (RunQueued, mres, merr) ?c" using s rest mrest by simp
  obtain m where m: "serve env (read_member ?rid ?mid) ?c = (Inr m, ?c)" "mb_status m = RunQueued" by (rule serve_read_member [OF s0])
  obtain x s1 where 1: "serve env (run_transitionMember (xe_run env) ?rid ?mid (member_to RunFinalizing)) ?c = (Inr x, ?c\<lparr>co_service := s1\<rparr>)"
    and s1: "stands ?rid ?mid (RunFinalizing, res, err, cl) (RunFinalizing, mres, merr) (?c\<lparr>co_service := s1\<rparr>)"
    by (rule serve_member [OF s0, of "member_to RunFinalizing" env "xe_run env"]) (simp_all add: member_to_def canTransitionAgentRunStatus_def)
  have rel: "release_member env ca r m ?c = (Inr (), ?c\<lparr>co_service := s1\<rparr>)" using 1 m(2) r by (simp add: release_member_def run_terminal_def)
  obtain run where run: "serve env (read_run ?rid) (?c\<lparr>co_service := s1\<rparr>) = (Inr run, ?c\<lparr>co_service := s1\<rparr>)" "ar_status run = RunFinalizing"
    by (rule serve_read_run [OF s1])
  define status where "status = final_status r (map_option af_code (cr_error r) = Some ''AGENT_RUN_CANCELLED'')"
  have t: "run_terminal status" using final_status_terminal by (simp add: status_def)
  have nt: "\<not> run_terminal (mb_status m)" using m(2) by (simp add: run_terminal_def)
  obtain s2 mrest' where 2: "settle_member env r m status (?c\<lparr>co_service := s1\<rparr>) = (Inr (), ?c\<lparr>co_service := s1\<rparr>\<lparr>co_service := s2\<rparr>)"
    and s2: "stands ?rid ?mid (RunFinalizing, res, err, cl) (status, mrest') (?c\<lparr>co_service := s2\<rparr>)"
    by (rule settle_member_ok [of r "(RunFinalizing, res, err, cl)" mres merr "?c\<lparr>co_service := s1\<rparr>" m status env]) (use s1 r(1) nt t in auto)
  have u2: "unstarted ev (?c\<lparr>co_service := s2\<rparr>)" using u by (simp add: unstarted_def)
  obtain c' rest' where 3: "settle_run env r status (?c\<lparr>co_service := s2\<rparr>) = (Inr (), c')" and c': "unstarted ev c'"
    "stands ?rid ?mid (RunFinalizing, rest') (status, mrest') c'" "\<exists>r'. jmap_get (co_retries c') (member_key ev) = Some r' \<and> cr_event r' = ev"
    by (rule settle_run_missing [OF s2 u2 r(1), of env status]) simp
  have "finalizeMember env ca r c = (Inr (), c')"
    using m(1) rel run 2 3 u r(1) by (simp add: finalizeMember_def unstarted_def status_def Let_def cong: if_cong)
  then show ?thesis using stuckI [OF c'(1) t c'(2,3)] by blast
qed

lemma fire_stuck:
  assumes "stuck ev c"
  shows "stuck ev (snd (fire_retry env ca (member_key ev) c))"
proof -
  obtain rest mst mrest r where u: "unstarted ev c" and t: "run_terminal mst" and s: "stands (sm_runId ev) (sm_memberId ev) (RunFinalizing, rest) (mst, mrest) c"
    and r: "jmap_get (co_retries c) (member_key ev) = Some r" "cr_event r = ev" using assms unfolding stuck_def by blast
  obtain res err cl where rest: "rest = (res, err, cl)" by (cases rest)
  let ?c = "c\<lparr>co_retries := jmap_delete (member_key ev) (co_retries c)\<rparr>" and ?c' = "c\<lparr>co_retries := jmap_delete (member_key ev) (jmap_delete (member_key ev) (co_retries c))\<rparr>"
  have s': "stands (sm_runId ev) (sm_memberId ev) (RunFinalizing, res, err, cl) (mst, mrest) ?c'" using s rest by simp
  obtain m where m: "serve env (read_member (sm_runId ev) (sm_memberId ev)) ?c' = (Inr m, ?c')" "mb_status m = mst" by (rule serve_read_member [OF s'])
  have rel: "release_member env ca r m ?c' = (Inr (), ?c')" using t m(2) by (simp add: release_member_def Let_def)
  obtain run where run: "serve env (read_run (sm_runId ev)) ?c' = (Inr run, ?c')" "ar_status run = RunFinalizing" by (rule serve_read_run [OF s'])
  define status where "status = final_status r (map_option af_code (cr_error r) = Some ''AGENT_RUN_CANCELLED'')"
  obtain c2 rest' where 3: "settle_run env r status ?c' = (Inr (), c2)" and c2: "unstarted ev c2" "stands (sm_runId ev) (sm_memberId ev) (RunFinalizing, rest') (mst, mrest) c2"
    "\<exists>r'. jmap_get (co_retries c2) (member_key ev) = Some r' \<and> cr_event r' = ev"
    by (rule settle_run_missing [OF s' _ r(2), of env status]) (use u in \<open>simp_all add: unstarted_def\<close>)
  have "finalizeMember env ca r ?c = (Inr (), c2)"
    using m rel run 3 u r(2) t by (simp add: finalizeMember_def settle_member_def unstarted_def status_def Let_def cong: if_cong)
  then have "snd (fire_retry env ca (member_key ev) c) = c2" using r(1) by (simp add: fire_retry_def)
  then show ?thesis using stuckI [OF c2(1) t c2(2,3)] by simp
qed

definition retry_round :: "scheduled_member \<Rightarrow> run_coordinator \<Rightarrow> (run_env \<times> run_op) list \<times> execution_env \<times> cleanup_answers \<Rightarrow> run_coordinator" where
  "retry_round ev c x = (case x of (ops, env, ca) \<Rightarrow> snd (fire_retry env ca (member_key ev) (c\<lparr>co_service := foldl run_step (co_service c) ops\<rparr>)))"

lemma round_stuck:
  assumes "stuck ev c" and "list_all (\<lambda>op. other_op (sm_runId ev) (sm_memberId ev) (snd op)) ops"
  shows "stuck ev (retry_round ev c (ops, env, ca))"
proof -
  let ?c = "c\<lparr>co_service := foldl run_step (co_service c) ops\<rparr>"
  obtain rest mst mrest where s: "run_terminal mst" "stands (sm_runId ev) (sm_memberId ev) (RunFinalizing, rest) (mst, mrest) c" using assms(1) unfolding stuck_def by blast
  have "stays (sm_runId ev) (sm_memberId ev) (sv_db (co_service c)) (sv_db (co_service ?c))" using others_stay [OF assms(2)] by simp
  from stays_stands [OF this s(2)] have "stands (sm_runId ev) (sm_memberId ev) (RunFinalizing, rest) (mst, mrest) ?c" by (auto simp: run_terminal_def)
  moreover have "unstarted ev ?c" "\<exists>r. jmap_get (co_retries ?c) (member_key ev) = Some r \<and> cr_event r = ev"
    using assms(1) by (simp_all add: stuck_def unstarted_def)
  ultimately have "stuck ev ?c" using s(1) stuckI by blast
  then show ?thesis using fire_stuck by (simp add: retry_round_def)
qed

text \<open>
  Claim C14. If a run is cancelled before its root has started, the execution of the root returns but the run does not end: its clean-up fails because
  the run has no shared space to retain, and however often it is repeated and whatever others do, the run stays finalizing with another
  retry scheduled.
\<close>

theorem cancelled_before_start_never_ends:
  assumes ev: "sm_root ev" and run: "run_state (sm_runId ev) (sv_db (co_service c)) = Some (RunFinalizing, rest)"
    and member: "member_state (sm_runId ev) (sm_memberId ev) (sv_db (co_service c)) = Some (RunQueued, mrest)"
    and space: "getSharedSpace (sm_runId ev) (co_resources c) = None" "co_accepting c"
    and fresh: "\<not> jmap_has (co_controllers c) (member_key ev)"
  shows "\<exists>c1. executeMember env an ca ev c = Some (Inr (), c1)
    \<and> (\<forall>rounds. list_all (\<lambda>(ops, _). list_all (\<lambda>op. other_op (sm_runId ev) (sm_memberId ev) (snd op)) ops) rounds \<longrightarrow>
         map_option fst (run_state (sm_runId ev) (sv_db (co_service (foldl (retry_round ev) c1 rounds)))) = Some RunFinalizing
         \<and> jmap_has (co_retries (foldl (retry_round ev) c1 rounds)) (member_key ev))"
proof -
  let ?c = "c\<lparr>co_controllers := jmap_set (member_key ev) (length (sv_cancelled (co_service c))) (co_controllers c)\<rparr>"
  have s: "stands (sm_runId ev) (sm_memberId ev) (RunFinalizing, rest) (RunQueued, mrest) ?c" using run member by (simp add: stands_def)
  obtain res err cl where rest: "rest = (res, err, cl)" by (cases rest)
  obtain rn where rn: "serve env (read_run (sm_runId ev)) ?c = (Inr rn, ?c)" "ar_status rn = RunFinalizing" using serve_read_run s rest by blast
  obtain m where m: "serve env (read_member (sm_runId ev) (sm_memberId ev)) ?c = (Inr m, ?c)" using serve_read_member s by blast
  have b: "begin_member env ev ?c = (Inl run_cancelled_early, ?c)" using rn m by (simp add: begin_member_def fail_if_def)
  let ?x = "\<lparr>xs_coordinator = ?c, xs_session = False, xs_thread = None, xs_workspace = False\<rparr>"
  have x: "run_session env an ev ?x = Some (Inl run_cancelled_early, ?x)" using b by (simp add: run_session_def prepare_member_def on_coordinator_def)
  let ?r = "\<lparr>cr_event = ev, cr_session = False, cr_thread = None, cr_workspace = False, cr_result = None, cr_error = Some run_cancelled_early, cr_delayMs = 0\<rparr>"
  have "unstarted ev ?c" using ev space by (simp add: unstarted_def)
  then obtain c' where f: "finalizeMember env ca ?r ?c = (Inr (), c')" and st: "stuck ev c'"
    using clean_up_missing [of ev ?c ?r rest mrest env ca] s by auto
  define c1 where "c1 = complete ev (c'\<lparr>co_controllers := jmap_delete (member_key ev) (co_controllers c')\<rparr>)"
  have exec: "executeMember env an ca ev c = Some (Inr (), c1)"
    using fresh x f by (simp add: executeMember_def session_outcome_def Let_def c1_def)
  have "stuck ev c1" using st by (auto simp: c1_def stuck_def unstarted_def stands_def complete_def)
  then have "stuck ev (foldl (retry_round ev) c1 rounds)"
    if "list_all (\<lambda>(ops, _). list_all (\<lambda>op. other_op (sm_runId ev) (sm_memberId ev) (snd op)) ops) rounds" for rounds
    using that
  proof (induction rounds arbitrary: c1)
    case (Cons x rounds)
    then show ?case using round_stuck [of ev c1 "fst x" "fst (snd x)" "snd (snd x)"] by (auto simp: case_prod_beta)
  qed simp
  then have "map_option fst (run_state (sm_runId ev) (sv_db (co_service (foldl (retry_round ev) c1 rounds)))) = Some RunFinalizing
      \<and> jmap_has (co_retries (foldl (retry_round ev) c1 rounds)) (member_key ev)"
    if "list_all (\<lambda>(ops, _). list_all (\<lambda>op. other_op (sm_runId ev) (sm_memberId ev) (snd op)) ops) rounds" for rounds
    using that unfolding stuck_def stands_def jmap_has_def by (metis (no_types, lifting) fst_conv option.distinct(1) option.simps(9))
  then show ?thesis using exec by blast
qed

section \<open>Examples\<close>

definition demo_event :: scheduled_member where
  "demo_event = \<lparr>sm_runId = ''run_1'', sm_memberId = ''member_1'', sm_root = True, sm_initiatorKey = ''control-plane:system'', sm_maxConcurrency = 4\<rparr>"

definition demo_coordinator :: "agent_run_status \<Rightarrow> agent_run_status \<Rightarrow> resource_db \<Rightarrow> run_coordinator" where
  "demo_coordinator run_status member_status db = \<lparr>
     co_service = (no_runs demo_run_agents)\<lparr>sv_db := \<lparr>rd_runs = [demo_created_run\<lparr>ar_status := run_status\<rparr>], rd_members = [demo_root\<lparr>mb_status := member_status\<rparr>], rd_timeline = []\<rparr>\<rparr>,
     co_resources = db, co_runs = scheduler_new 1000, co_members = scheduler_new 1000, co_controllers = [], co_waiters = [], co_resolved = [],
     co_managed = [''run_1''], co_retries = [], co_accepting = True\<rparr>"

definition done_await :: "unit answer_of" where
  "done_await = \<lparr>aw_ops = [], aw_resources = None, aw_stop = False, aw_result = Inr ()\<rparr>"

definition demo_cleanup :: cleanup_answers where
  "demo_cleanup = \<lparr>ca_close = done_await, ca_dispose = done_await\<rparr>"

definition demo_retry :: "agent_run_failure option \<Rightarrow> cleanup_retry" where
  "demo_retry e = \<lparr>cr_event = demo_event, cr_session = True, cr_thread = None, cr_workspace = True,
     cr_result = (if e = None then Some \<lparr>rs_text = ''done'', rs_truncated = False\<rparr> else None), cr_error = e, cr_delayMs = 0\<rparr>"

lemma demo_states:
  "run_state ''run_1'' (sv_db (co_service (demo_coordinator st mst db))) = Some (st, None, None, None)"
  "member_state ''run_1'' ''member_1'' (sv_db (co_service (demo_coordinator st mst db))) = Some (mst, None, None)"
  by (simp_all add: demo_coordinator_def run_state_def member_state_def agent_run_get_def member_get_def members_of_def demo_created_run_def demo_root_def
      new_agent_run_def new_root_def demo_run_env_def)

lemma demo_event_fields [simp]: "sm_runId demo_event = ''run_1''" "sm_memberId demo_event = ''member_1''" "sm_root demo_event" "member_key demo_event = (''run_1'', ''member_1'')"
  by (simp_all add: demo_event_def member_key_def)

lemma demo_succeeds: "getSharedSpace ''run_1'' (co_resources c) \<noteq> None \<Longrightarrow> cleanup_succeeds (demo_retry e) demo_cleanup c"
  by (simp add: cleanup_succeeds_def demo_cleanup_def done_await_def kept_by_def cleanable_def demo_retry_def)

lemma demo_space: "getSharedSpace ''run_1'' demo_resources \<noteq> None"
  by (simp add: getSharedSpace_def demo_resources_def)

definition demo_execution_env :: execution_env where
  "demo_execution_env = \<lparr>xe_run = demo_run_env ''member_1'', xe_message = (\<lambda>_. ''The request failed.''), xe_resourceMessage = (\<lambda>_. ''The resource failed.''),
     xe_agentCode = (\<lambda>_. None), xe_now = 0, xe_root = ''/shared'', xe_inspects = True, xe_cleanupRetryBaseMs = 1000, xe_newId = ''resource_2''\<rparr>"

definition demo_answers :: member_answers where
  "demo_answers = \<lparr>an_runtimeId = ''docker'', an_instanceId = ''inst1'', an_generationId = ''g1'', an_target = None,
     an_ensure = \<lparr>aw_ops = [], aw_resources = None, aw_stop = False, aw_result = Inr (JObj [])\<rparr>, an_materializer = None,
     an_prepare = \<lparr>aw_ops = [], aw_resources = None, aw_stop = False, aw_result = Inr ''/work''\<rparr>,
     an_create = \<lparr>aw_ops = [], aw_resources = None, aw_stop = False, aw_result = Inr (''session_1'', ''thread_1'')\<rparr>, an_polls = []\<rparr>"

theorem cleanup_settles_member_witness:
  "\<exists>c. finalizeMember demo_execution_env demo_cleanup (demo_retry None) (demo_coordinator RunRunning RunRunning demo_resources) = (Inr (), c)
    \<and> map_option fst (run_state ''run_1'' (sv_db (co_service c))) = Some RunCompleted"
proof -
  have "cleanup_succeeds (demo_retry None) demo_cleanup (demo_coordinator RunRunning RunRunning demo_resources)"
    by (rule demo_succeeds) (use demo_space in \<open>simp add: demo_coordinator_def\<close>)
  from cleanup_settles_member [OF demo_states _ _ _ this, of demo_execution_env] show ?thesis
    by (auto simp: demo_retry_def run_terminal_def)
qed

theorem cancelled_preparation_fails_witness:
  "\<exists>r c1 e c2 cl. mark_running demo_execution_env demo_event ''session_1'' (demo_coordinator RunFinalizing RunPreparing demo_resources) = (r, c1)
    \<and> finalizeMember demo_execution_env demo_cleanup (demo_retry (Some e)) c1 = (Inr (), c2) \<and> run_state ''run_1'' (sv_db (co_service c2)) = Some (RunFailed, None, Some e, cl)"
proof -
  let ?c = "demo_coordinator RunFinalizing RunPreparing demo_resources"
  have "stands ''run_1'' ''member_1'' (RunFinalizing, None, None, None) (RunPreparing, None, None) ?c" by (simp add: stands_def demo_states)
  then obtain c1 where m: "mark_running demo_execution_env demo_event ''session_1'' ?c = (Inl (run_failure demo_execution_env ''AGENT_RUN_EXECUTION_FAILED'' (RunStatusTransitionInvalid RunFinalizing RunRunning)), c1)"
    and "co_resources c1 = co_resources ?c"
    using mark_running_refused [of demo_event "(None, None, None)" None None ?c demo_execution_env "''session_1''"] by auto
  then have "cleanup_succeeds (demo_retry (Some (run_failure demo_execution_env ''AGENT_RUN_EXECUTION_FAILED'' (RunStatusTransitionInvalid RunFinalizing RunRunning)))) demo_cleanup c1"
    by (intro demo_succeeds) (use demo_space in \<open>simp add: demo_coordinator_def\<close>)
  from cancelled_preparation_fails [OF _ _ _ m this, of None None None None None] m show ?thesis
    by (auto simp: demo_states demo_retry_def session_outcome_def)
qed

theorem cancelled_before_start_never_ends_witness:
  "\<exists>c1. executeMember demo_execution_env demo_answers demo_cleanup demo_event (demo_coordinator RunFinalizing RunQueued \<lparr>xd_spaces = [], xd_resources = []\<rparr>) = Some (Inr (), c1)
    \<and> (\<forall>n. map_option fst (run_state ''run_1'' (sv_db (co_service (foldl (retry_round demo_event) c1 (replicate n ([], demo_execution_env, demo_cleanup)))))) = Some RunFinalizing)"
proof -
  let ?c = "demo_coordinator RunFinalizing RunQueued \<lparr>xd_spaces = [], xd_resources = []\<rparr>"
  have "\<not> jmap_has (co_controllers ?c) (member_key demo_event)" "co_accepting ?c" "getSharedSpace (sm_runId demo_event) (co_resources ?c) = None"
    by (simp_all add: demo_coordinator_def jmap_has_def getSharedSpace_def)
  then obtain c1 where "executeMember demo_execution_env demo_answers demo_cleanup demo_event ?c = Some (Inr (), c1)"
    and "\<forall>rounds. list_all (\<lambda>(ops, _). list_all (\<lambda>op. other_op ''run_1'' ''member_1'' (snd op)) ops) rounds \<longrightarrow>
      map_option fst (run_state ''run_1'' (sv_db (co_service (foldl (retry_round demo_event) c1 rounds)))) = Some RunFinalizing"
    using cancelled_before_start_never_ends [of demo_event ?c "(None, None, None)" "(None, None)" demo_execution_env demo_answers demo_cleanup] by (auto simp: demo_states)
  moreover have "list_all (\<lambda>(ops, _). list_all (\<lambda>op. other_op ''run_1'' ''member_1'' (snd op)) ops) (replicate n ([], demo_execution_env, demo_cleanup))" for n
    by (induction n) simp_all
  ultimately show ?thesis by blast
qed

end
