(* ===== verification/Spec2Isabelle.thy ===== *)
theory Spec2Isabelle
  imports Token_Stores Operation_Approvals Session_Registry Stream_Recovery Session_Hierarchy Agent_Service
    Delta_Coalescer Operation_Gates Story_Scheduler Agent_Run_Outcomes
begin

text \<open>
  Verification of Task Handoff.

  \<^bold>\<open>The program.\<close> Task Handoff runs AI agents on many machines. A \<^emph>\<open>controlled instance\<close> hosts agent programs and
  keeps one record per AI session; a \<^emph>\<open>node agent\<close> starts instances and owns agent definitions, orchestrations, stories
  and their automations; a \<^emph>\<open>control plane\<close> gathers the sessions of all instances for its users. The development models
  the TypeScript code that decides and remembers: the state of sessions from an agent's event to a client's view, the
  graphs of agents, the approvals and tokens that guard operations, and the queues, locks and schedulers that order
  them. Sources are given relative to \<^verbatim>\<open>src/\<close>.

  \<^bold>\<open>Theories and the code they model.\<close>

  \<^item> \<open>Js_Prelude\<close>, \<open>Js_Date\<close>, \<open>Js_Json\<close>: what the code uses of JavaScript. A string is a list of code units; a
    \<^verbatim>\<open>Map\<close> is the list of its entries in insertion order (\<open>jmap\<close>, interface \<open>js_map\<close>), because the code iterates
    over maps; \<open>js_sort\<close> is the stable sort; \<open>to_iso\<close> and \<open>date_parse\<close> are the conversions of \<^verbatim>\<open>Date\<close>; \<open>json_text\<close> is
    \<^verbatim>\<open>JSON.stringify\<close>. The locales \<open>keyed_fold\<close> and \<open>step_system\<close> carry the two arguments that recur: a fold that
    keeps one entry per key, and an invariant of a state machine.
  \<^item> \<open>Token_Stores\<close>: \<^verbatim>\<open>EphemeralTokenStore\<close>, \<^verbatim>\<open>ExpiringTokenStore\<close> and the chat action tokens. The lazily expiring map
    refines a map of live tokens (locale \<open>one_shot_store\<close>).
  \<^item> \<open>Operation_Approvals\<close>: the register of approvals in \<^verbatim>\<open>packages/control-plane/.../operation-approvals.ts\<close>: who may ask,
    decide and spend an approval, and for which request.
  \<^item> \<open>Session_Types\<close>, \<open>Session_Turns\<close>, \<open>Session_Persistence\<close>, \<open>Session_Queue\<close>, \<open>Session_Reducer\<close>: the record of a session and
    the pure functions over it in \<^verbatim>\<open>packages/ai-session-runtime/src\<close>: merging and patching turns, normalising loaded values,
    the queue of messages to be sent, and the reducer of events and patches.
  \<^item> \<open>Session_Codec\<close>, \<open>Session_Store\<close>, \<open>Session_Reconcile\<close>, \<open>Session_Registry\<close>: saving sessions to files and loading them,
    the index by provider session, the decisions about orphans and duplicates, and the registry that ties them together and
    announces changes. The file system is a map from names to contents whose writes may fail.
  \<^item> \<open>Session_Stream\<close>, \<open>Session_Aggregator\<close>, \<open>Stream_System\<close>, \<open>Stream_Recovery\<close>: an instance turns registry snapshots into
    numbered events (\<^verbatim>\<open>ai-session-authority-events.ts\<close>), the control plane folds them into a projection per instance
    (\<^verbatim>\<open>ai-session-aggregator.ts\<close>) and recovers gaps by deltas and snapshots, a client folds the forwarded events. \<open>Stream_System\<close>
    puts all of them over a network that may lose, repeat, delay and reorder messages.
  \<^item> \<open>Session_Hierarchy\<close>: the forest of sessions and sub-agents in \<^verbatim>\<open>packages/protocol/src/ai-session-hierarchy.ts\<close>. A node is
    the position of its session; \<open>parent_forest\<close> is the contract of the child lists, for the linked and for the sorted
    forest.
  \<^item> \<open>Orchestration_Graph\<close>, \<open>Agent_Service\<close>: the graphs of agents that may invoke each other, the search for cycles, and the
    services of definitions and orchestrations over their tables (\<^verbatim>\<open>packages/node-agent/src/agents\<close>).
  \<^item> \<open>Delta_Coalescer\<close>: batches of streamed text (\<^verbatim>\<open>ai-session-message-delta-coalescer.ts\<close>).
  \<^item> \<open>Serial_Lanes\<close>, \<open>Operation_Gates\<close>: three ways in which the code serialises operations by chains of promises, the
    mutation queue of repositories, the gate of instances and the coordinator of stories. All three implement the interface
    \<open>fifo_lanes\<close>; a call is split where it waits for its turn and where it releases it.
  \<^item> \<open>Scheduler_Runtime\<close>, \<open>Scheduler_Time\<close>: the execution runtime shared by schedulers and the computation of the next time
    (\<^verbatim>\<open>packages/core/src/core/scheduler-runtime.ts\<close>).
  \<^item> \<open>Story_Automations\<close>, \<open>Story_Scheduler\<close>: the store of automations and their runs, and the scheduler that executes, skips and
    reconciles runs (\<^verbatim>\<open>packages/node-agent/src/stories\<close>).
  \<^item> \<open>Agent_Runs\<close>, \<open>Agent_Run_Safety\<close>: the repository of agent runs, their members and time lines
    (\<^verbatim>\<open>persistence/agent-run-repository.ts\<close>) and the service that creates runs, authorises invocations, waits for results and
    cancels (\<^verbatim>\<open>agents/run-service.ts\<close>, all under \<^verbatim>\<open>packages/node-agent/src\<close>), with the calls as steps of \<open>run_step\<close>.
  \<^item> \<open>Agent_Run_Resources\<close>: the tables of shared spaces and runtime resources and the service of shared spaces, with POSIX paths
    as lists of segments.
  \<^item> \<open>Agent_Run_Execution\<close>, \<open>Agent_Run_Outcomes\<close>: the coordinator (\<^verbatim>\<open>agents/run-coordinator.ts\<close>), which runs the
    members through two instances of the scheduler of \<open>Scheduler_Runtime\<close>: one execution with its clean-up, repeated clean-ups,
    the reconciliation after a restart. What an await gets, the calls that others make meanwhile included, is an \<open>answer_of\<close>.

  \<^bold>\<open>Correspondence.\<close> A definition has the name of the function it models where HOL allows it; a record field has the name of
  the property after a prefix, and a method takes the state of its object as its last argument and returns it updated. An
  exception is \<^term>\<open>Inl\<close> of the component's error type. An asynchronous function is split at its awaits wherever another call
  may change the state it relies on: the recovery of the aggregator (\<open>recovery\<close>, with the callback of \<^verbatim>\<open>finally\<close> as a step of its own), the lanes (\<open>ticket\<close>, \<open>job\<close>), executions and
  reconciliations of the scheduler; elsewhere it is one step, and the theory says so. Clocks, random identifiers, hash functions,
  \<^verbatim>\<open>localeCompare\<close>, the cron library and the answers of other processes are arguments. Integers are \<^typ>\<open>int\<close> or \<^typ>\<open>nat\<close>: the
  values are times in milliseconds, revisions and lengths, far below the bound up to which JavaScript's numbers are exact.

  \<^bold>\<open>What the properties show.\<close>

  \<^item> Sessions: whatever is delivered, the control plane and its clients only ever show states that an instance published
    (\<open>stream_is_authentic\<close>); an advertised stream is caught up with in at most two rounds of recovery
    (\<open>advertised_stream_is_recovered\<close>), and revisions heard of are not forgotten (\<open>no_revision_lost\<close>) except in one moment, the one
    between the end of a recovery's loop and the deletion of its record, in which an event is lost (\<open>event_before_finally_is_lost\<close>, a
    defect); a restart restores the registry, a saved session reloads, changes are announced, an assistant's message is recorded,
    pruning keeps the preferred record of each conversation unless it has expired, and the reducers keep normal forms and the
    identity of sessions.
  \<^item> The forest: every session is exactly once in it, links are cut only on cycles, and the walks return
    (\<open>session_forest_partitions\<close>, \<open>only_cycles_are_cut\<close>, \<open>retention_takes_idle_trees\<close>).
  \<^item> Agents: the search decides whether there is a cycle, no sequence of operations stores a cyclic or dangling graph, and a
    stale update is refused.
  \<^item> Approvals and tokens: their life cycles, that an approval is spent at most once and by the request it was given for.
  \<^item> Ordering: lanes are exclusive and first come first served, calls over several lanes do not deadlock, streamed text arrives
    once and in order.
  \<^item> Schedulers: every event is accounted for, the executions of a job stay within the largest limit given for it and, while its limit is not
    raised, its events start in order, the next time is the next slot, runs follow their life
    cycle and are idempotent per execution key, the scheduler's executions are those the runtime counts. \<open>lost_completion_blocks\<close>
    shows a defect: a run that a heartbeat ends while its start is being published is waited for without end.
  \<^item> Agent runs: budgets hold, invocations follow the edges of the orchestration, what has ended stays ended, requests to create
    a run are idempotent, accepted paths of different runs never meet, and a clean-up that succeeds ends a member as its session
    ended. Four theorems show defects: a run cancelled before its root starts never ends (\<open>cancelled_before_start_never_ends\<close>),
    one cancelled while its root prepares ends as failed (\<open>cancelled_preparation_fails\<close>), a repeated invocation is refused if its agent leaves
    its model open (\<open>repeated_invocation_conflicts\<close>), and a removal of a shared space that was cut off is not taken up again
    (\<open>begun_expiry_is_not_repeated\<close>).

  \<^bold>\<open>Bounds and fuel.\<close> The cycle search of orchestrations has as fuel the number of nodes and edges, the postorder walk of the
  forest twice the number of nodes, climbing to a root the number of nodes; each is proved to be enough, so that the functions
  are total. Everything else recurs over its data. The numeric limits are those of the code: 50 turns, 100 queued
  messages, 100 queued events and 100 finished runs per automation, 500 approvals, 20 of one user, and at most 16 members, depth 4 and 4
  concurrent members of an agent run. Loops that poll (\<open>wait_for\<close>, \<open>poll_session\<close>) recur over what the polls get and are \<^term>\<open>None\<close>
  when they go on after it.

  \<^bold>\<open>Not modelled.\<close> User interfaces, command line tools, the desktop shell and the Rust port of the controlled instance; HTTP
  routes and message schemas beyond the fields that modelled operations use; the adapters of agent programs, container and
  operating system runtimes, network transports and chat services, which are input and output; the SQLite access itself, whose
  tables are lists of rows with their keys. Strings with code units above U+00FF, time zones and the database of calendars
  are outside the model or arguments of it. In the registry, the hashed heartbeat revisions and the transcript scans are left
  out. Of agent runs, the sessions, the preparation of workspaces and the backend of shared directories are answers of awaits, foreign
  keys and the validation of rows on reading (\<^verbatim>\<open>sanitizeAgentRun\<close>, \<^verbatim>\<open>sanitizeAgentRunMember\<close>) are left out. These parts either hold no logic of their own or depend on programs whose behaviour is not in the sources.
\<close>

end
